(* ===== verification/Prelude.thy ===== *)
theory Prelude
  imports Main "HOL-Library.AList"
begin

text \<open>
  Shared vocabulary of the development: the model of the few Python built-ins the
  modelled modules use (strings as lists of ASCII characters, \<open>str.lower\<close>,
  \<open>str.strip\<close>, \<open>str.replace\<close> on one character, truthiness of optional strings),
  instants and durations in microseconds as Python's \<open>datetime\<close> has them, decimal
  rendering of naturals, the first-occurrence filter that several loops with a
  \<open>seen\<close> set share, and generic facts about association lists used as database tables.
\<close>

named_theorems table_simps \<open>reading a table after writing it\<close>

section \<open>Time\<close>

text \<open>
  A \<open>datetime\<close> is its number of microseconds since the epoch, the resolution of the
  type; a \<open>timedelta(seconds=n)\<close> is \<open>n\<close> million of them.
\<close>

type_synonym instant = int

abbreviation seconds :: "int \<Rightarrow> int" where
  "seconds n \<equiv> n * 1000000"

section \<open>Strings\<close>

type_synonym py_str = string

definition lower_char :: "char \<Rightarrow> char" where
  "lower_char c = (let n = (of_char c :: nat) in if 65 \<le> n \<and> n \<le> 90 then char_of (n + 32) else c)"

definition py_lower :: "py_str \<Rightarrow> py_str" where
  "py_lower s = map lower_char s"

definition py_space :: "char \<Rightarrow> bool" where
  "py_space c = (let n = (of_char c :: nat) in n = 32 \<or> (9 \<le> n \<and> n \<le> 13) \<or> (28 \<le> n \<and> n \<le> 31))"

definition py_strip :: "py_str \<Rightarrow> py_str" where
  "py_strip s = rev (dropWhile py_space (rev (dropWhile py_space s)))"

definition replace_char :: "char \<Rightarrow> char \<Rightarrow> py_str \<Rightarrow> py_str" where
  "replace_char a b s = map (\<lambda>c. if c = a then b else c) s"

text \<open>Character classes of the regular expressions, on ASCII.\<close>

definition digit_char :: "char \<Rightarrow> bool" where
  "digit_char c = (let n = (of_char c :: nat) in 48 \<le> n \<and> n \<le> 57)"

definition alpha_char :: "char \<Rightarrow> bool" where
  "alpha_char c = (let n = (of_char c :: nat) in (65 \<le> n \<and> n \<le> 90) \<or> (97 \<le> n \<and> n \<le> 122))"

definition word_char :: "char \<Rightarrow> bool" where
  "word_char c = (digit_char c \<or> alpha_char c \<or> c = CHR ''_'')"

definition nat_of_digits :: "py_str \<Rightarrow> nat" where
  "nat_of_digits s = foldl (\<lambda>n c. 10 * n + (of_char c - 48)) 0 s"

text \<open>Python's \<open>x or y\<close> on an optional string: the empty string and \<open>None\<close> are false.\<close>

fun truthy :: "py_str option \<Rightarrow> bool" where
  "truthy None = False"
| "truthy (Some s) = (s \<noteq> [])"

fun show_nat :: "nat \<Rightarrow> py_str" where
  "show_nat n = (if n < 10 then [char_of (48 + n)]
                 else show_nat (n div 10) @ [char_of (48 + n mod 10)])"

declare show_nat.simps [simp del]

definition show_int :: "int \<Rightarrow> py_str" where
  "show_int n = (if n < 0 then CHR ''-'' # show_nat (nat (- n)) else show_nat (nat n))"

text \<open>\<^verbatim>\<open>int(raw)\<close> on ASCII text: a sign, and digits with single underscores between them.\<close>

fun digits_value :: "nat \<Rightarrow> py_str \<Rightarrow> nat option" where
  "digits_value n [] = Some n"
| "digits_value n (c # cs) =
     (let d = (of_char c :: nat) in
      if 48 \<le> d \<and> d \<le> 57 then digits_value (10 * n + (d - 48)) cs
      else if c = CHR ''_'' \<and> cs \<noteq> [] \<and> hd cs \<noteq> CHR ''_'' then digits_value n cs
      else None)"

definition py_nat :: "py_str \<Rightarrow> nat option" where
  "py_nat s = (if s = [] \<or> hd s = CHR ''_'' then None else digits_value 0 s)"

definition py_int :: "py_str \<Rightarrow> int option" where
  "py_int s =
     (if take 1 s = ''-'' then map_option (\<lambda>n. - int n) (py_nat (drop 1 s))
      else if take 1 s = ''+'' then map_option int (py_nat (drop 1 s))
      else map_option int (py_nat s))"

lemma truthy_iff: "truthy x \<longleftrightarrow> (\<exists>s. x = Some s \<and> s \<noteq> [])"
  by (cases x) auto

lemma length_replace_char [simp]: "length (replace_char a b s) = length s"
  by (simp add: replace_char_def)

lemma replace_char_idle: "a \<notin> set s \<Longrightarrow> replace_char a b s = s"
  by (auto simp: replace_char_def intro!: map_idI)

lemma replace_char_gone: "a \<noteq> b \<Longrightarrow> a \<notin> set (replace_char a b s)"
  by (auto simp: replace_char_def)

section \<open>Joining and cutting\<close>

fun py_join :: "py_str \<Rightarrow> py_str list \<Rightarrow> py_str" where
  "py_join sep [] = []"
| "py_join sep [s] = s"
| "py_join sep (s # t # ts) = s @ sep @ py_join sep (t # ts)"

text \<open>\<^verbatim>\<open>s.replace(pat, "")\<close> for a pattern that is not empty.\<close>

function remove_sub :: "py_str \<Rightarrow> py_str \<Rightarrow> py_str" where
  "remove_sub pat [] = []"
| "remove_sub pat (c # cs) =
     (if pat \<noteq> [] \<and> take (length pat) (c # cs) = pat
      then remove_sub pat (drop (length pat) (c # cs)) else c # remove_sub pat cs)"
  by pat_completeness auto

termination
  by (relation "measure (length \<circ> snd)") auto

text \<open>\<^verbatim>\<open>s.split(".")\<close>.\<close>

fun split_dots :: "py_str \<Rightarrow> py_str list" where
  "split_dots [] = [[]]"
| "split_dots (c # cs) =
     (if c = CHR ''.'' then [] # split_dots cs
      else case split_dots cs of t # ts \<Rightarrow> (c # t) # ts | [] \<Rightarrow> [[c]])"

lemma split_dots_nonempty [simp]: "split_dots s \<noteq> []"
  by (induction s rule: split_dots.induct) (auto split: list.split)

lemma split_dots_token: "CHR ''.'' \<notin> set t \<Longrightarrow> split_dots t = [t]"
  by (induction t rule: split_dots.induct) auto

lemma split_dots_join: "CHR ''.'' \<notin> set t \<Longrightarrow> split_dots (t @ CHR ''.'' # s) = t # split_dots s"
  by (induction t) auto

section \<open>Keeping the first element of each key\<close>

text \<open>
  The loop \<open>for x in xs: if k(x) in seen: continue; seen.add(k(x)); out.append(x)\<close>.
\<close>

fun keep_first :: "('a \<Rightarrow> 'k) \<Rightarrow> 'k list \<Rightarrow> 'a list \<Rightarrow> 'a list" where
  "keep_first k seen [] = []"
| "keep_first k seen (x # xs) =
     (if k x \<in> set seen then keep_first k seen xs
      else x # keep_first k (k x # seen) xs)"

lemma keep_first_keys: "set (map k (keep_first k seen xs)) = k ` set xs - set seen"
  by (induction k seen xs rule: keep_first.induct) auto

lemma keep_first_subset: "set (keep_first k seen xs) \<subseteq> set xs"
  by (induction k seen xs rule: keep_first.induct) auto

lemma keep_first_distinct: "distinct (map k (keep_first k seen xs))"
proof (induction k seen xs rule: keep_first.induct)
  case (2 k seen x xs)
  have "k x \<notin> set (map k (keep_first k (k x # seen) xs))"
    using keep_first_keys [of k "k x # seen" xs] by auto
  with 2 show ?case by auto
qed simp

lemma keep_first_seen_cong: "set s = set t \<Longrightarrow> keep_first k s xs = keep_first k t xs"
proof (induction xs arbitrary: s t)
  case (Cons x xs)
  have "keep_first k (k x # s) xs = keep_first k (k x # t) xs"
    by (rule Cons.IH) (simp add: Cons.prems)
  moreover have "keep_first k s xs = keep_first k t xs"
    by (rule Cons.IH) (rule Cons.prems)
  ultimately show ?case by (simp add: Cons.prems)
qed simp

lemma keep_first_append:
  "keep_first k seen (xs @ ys) =
     keep_first k seen xs @ keep_first k (map k (keep_first k seen xs) @ seen) ys"
proof (induction xs arbitrary: seen)
  case (Cons x xs)
  show ?case
  proof (cases "k x \<in> set seen")
    case False
    have "keep_first k (map k (keep_first k (k x # seen) xs) @ k x # seen) ys =
      keep_first k (k x # map k (keep_first k (k x # seen) xs) @ seen) ys"
      by (rule keep_first_seen_cong) auto
    with False Cons.IH [of "k x # seen"] show ?thesis by simp
  qed (simp add: Cons.IH)
qed simp

section \<open>Tables\<close>

text \<open>
  A table with a primary key is an association list in insertion order; \<open>map_of\<close> reads the
  row of a key and \<open>AList.update\<close> writes it, in place when the key is present and at the
  end when it is not.
\<close>

lemma map_of_update [table_simps]: "map_of (AList.update k v t) = (map_of t)(k \<mapsto> v)"
  by (rule AList.update_conv')

lemma map_of_update_same [table_simps]: "map_of (AList.update k v t) k = Some v"
  by (simp add: map_of_update)

lemma map_of_update_other [table_simps]:
  "k' \<noteq> k \<Longrightarrow> map_of (AList.update k v t) k' = map_of t k'"
  by (simp add: map_of_update)

lemma distinct_keys_update: "distinct (map fst t) \<Longrightarrow> distinct (map fst (AList.update k v t))"
  by (rule AList.distinct_update)

section \<open>Optional values\<close>

lemma find_SomeD: "find P xs = Some x \<Longrightarrow> x \<in> set xs \<and> P x"
  by (induction xs) (auto split: if_splits)

lemma in_set_map_filter: "y \<in> set (List.map_filter f xs) \<longleftrightarrow> (\<exists>x \<in> set xs. f x = Some y)"
  by (induction xs) (auto simp: map_filter_simps split: option.split)

lemma option_bind_SomeE:
  assumes "Option.bind x f = Some y"
  obtains a where "x = Some a" "f a = Some y"
  using assms by (cases x) auto

end
