(* ===== verification/Machine.thy ===== *)
theory Machine
  imports Prelude
begin

text \<open>
  The contract the platform's lifecycle state machines share: a partial transition
  function whose results stay inside the closed state vocabulary and which refuses every
  event in a terminal state. Three machines provide it: the runtime actor's FSM and the
  registry's descriptor table (theory Lifecycle) and the event ledger's FSM (theory
  EventLedger). Facts about whole runs are proved here once.
\<close>

fun machine_run :: "('s \<Rightarrow> 'e \<Rightarrow> 's option) \<Rightarrow> 's \<Rightarrow> 'e list \<Rightarrow> 's option" where
  "machine_run step s [] = Some s"
| "machine_run step s (e # es) =
     (case step s e of None \<Rightarrow> None | Some t \<Rightarrow> machine_run step t es)"

lemma machine_run_append:
  "machine_run step s (es @ fs) =
     (case machine_run step s es of None \<Rightarrow> None | Some t \<Rightarrow> machine_run step t fs)"
  by (induction es arbitrary: s) (auto split: option.split)

locale guarded_machine =
  fixes step :: "'s \<Rightarrow> 'e \<Rightarrow> 's option"
    and vocabulary :: "'s set"
    and terminal :: "'s set"
  assumes step_closed: "step s e = Some t \<Longrightarrow> t \<in> vocabulary"
    and step_known: "step s e = Some t \<Longrightarrow> s \<in> vocabulary"
    and terminal_stuck: "s \<in> terminal \<Longrightarrow> step s e = None"
begin

lemma run_closed: "s \<in> vocabulary \<Longrightarrow> machine_run step s es = Some t \<Longrightarrow> t \<in> vocabulary"
  by (induction es arbitrary: s) (auto split: option.splits dest: step_closed)

lemma run_terminal: "s \<in> terminal \<Longrightarrow> machine_run step s es = Some t \<Longrightarrow> es = [] \<and> t = s"
  by (cases es) (auto simp: terminal_stuck)

lemma run_through_terminal:
  assumes "machine_run step s es = Some u" and "u \<in> terminal"
    and "machine_run step s (es @ fs) = Some v"
  shows "fs = []"
  using assms run_terminal by (simp add: machine_run_append)

end

end
