(* ===== verification/Lifecycle.thy ===== *)
theory Lifecycle
  imports Machine
begin

text \<open>
  The two lifecycle state machines of a descriptor. \<open>runtime/lifecycle.py\<close>: the actor's
  FSM over bare state strings, driven by events, with its history
  (\<^verbatim>\<open>LifecycleFSM\<close>). \<open>data/schemas/lifecycle.py\<close>,
  \<open>data/schemas/collection.py\<close> and \<open>data/registry/descriptor_families.py\<close>: the
  registry's tables of allowed state pairs, one shared by four families and one for
  collections. The lemmas show that the history replays to the current state, that a
  repeated event is a no-op, and how the two machines relate.
\<close>

section \<open>The runtime FSM\<close>

datatype lifecycle_event =
  Ev_CONFIGURE | Ev_ACTIVATE | Ev_PAUSE | Ev_RESUME | Ev_RETIRE | Ev_ERROR | Ev_RESET

abbreviation "DRAFT \<equiv> ''draft''"
abbreviation "CONFIGURED \<equiv> ''configured''"
abbreviation "ACTIVE \<equiv> ''active''"
abbreviation "PAUSED \<equiv> ''paused''"
abbreviation "RETIRED \<equiv> ''retired''"
abbreviation "ERROR \<equiv> ''error''"

definition valid_states :: "py_str list" where
  "valid_states = [DRAFT, CONFIGURED, ACTIVE, PAUSED, RETIRED, ERROR]"

definition transitions_table :: "((py_str \<times> lifecycle_event) \<times> py_str) list" where
  "transitions_table =
    [((DRAFT, Ev_CONFIGURE), CONFIGURED),
     ((CONFIGURED, Ev_ACTIVATE), ACTIVE),
     ((ACTIVE, Ev_PAUSE), PAUSED),
     ((PAUSED, Ev_RESUME), ACTIVE),
     ((ACTIVE, Ev_RETIRE), RETIRED),
     ((PAUSED, Ev_RETIRE), RETIRED),
     ((CONFIGURED, Ev_RETIRE), RETIRED),
     ((ERROR, Ev_RESET), CONFIGURED)]"

definition error_reachable :: "py_str list" where
  "error_reachable = [DRAFT, CONFIGURED, ACTIVE, PAUSED]"

fun event_target :: "lifecycle_event \<Rightarrow> py_str" where
  "event_target Ev_CONFIGURE = CONFIGURED"
| "event_target Ev_ACTIVATE = ACTIVE"
| "event_target Ev_PAUSE = PAUSED"
| "event_target Ev_RESUME = ACTIVE"
| "event_target Ev_RETIRE = RETIRED"
| "event_target Ev_ERROR = ERROR"
| "event_target Ev_RESET = CONFIGURED"

datatype illegal_transition = IllegalTransition py_str lifecycle_event

record transition_rec =
  tr_from :: py_str
  tr_to :: py_str
  tr_event :: lifecycle_event
  tr_occurred_at :: instant
  tr_initiated_by :: py_str
  tr_detail :: py_str

record lifecycle_fsm =
  fsm_state :: py_str
  fsm_history :: "transition_rec list"

definition new_fsm :: lifecycle_fsm where
  "new_fsm = \<lparr>fsm_state = DRAFT, fsm_history = []\<rparr>"

definition can :: "lifecycle_fsm \<Rightarrow> lifecycle_event \<Rightarrow> bool" where
  "can f e = (if e = Ev_ERROR then fsm_state f \<in> set error_reachable
              else map_of transitions_table (fsm_state f, e) \<noteq> None)"

definition next_lifecycle :: "py_str \<Rightarrow> lifecycle_event \<Rightarrow> illegal_transition + py_str" where
  "next_lifecycle s e =
     (if e = Ev_ERROR
      then if s \<notin> set error_reachable then Inl (IllegalTransition s e) else Inr ERROR
      else case map_of transitions_table (s, e) of
             None \<Rightarrow> Inl (IllegalTransition s e)
           | Some t \<Rightarrow> Inr t)"

text \<open>\<^verbatim>\<open>transition\<close>: the clock reading \<open>now\<close> is an argument.\<close>

definition transition ::
  "lifecycle_fsm \<Rightarrow> lifecycle_event \<Rightarrow> instant \<Rightarrow> py_str \<Rightarrow> py_str
     \<Rightarrow> illegal_transition + (lifecycle_fsm \<times> transition_rec)" where
  "transition f e now by_whom detail =
     (case next_lifecycle (fsm_state f) e of
        Inl err \<Rightarrow> Inl err
      | Inr target \<Rightarrow>
          let r = \<lparr>tr_from = fsm_state f, tr_to = target, tr_event = e, tr_occurred_at = now,
                   tr_initiated_by = by_whom, tr_detail = detail\<rparr>
          in Inr (f\<lparr>fsm_state := target, fsm_history := fsm_history f @ [r]\<rparr>, r))"

definition is_noop :: "lifecycle_fsm \<Rightarrow> lifecycle_event \<Rightarrow> bool" where
  "is_noop f e \<longleftrightarrow> fsm_state f = event_target e"

definition transition_idempotent ::
  "lifecycle_fsm \<Rightarrow> lifecycle_event \<Rightarrow> instant \<Rightarrow> py_str \<Rightarrow> py_str
     \<Rightarrow> illegal_transition + (lifecycle_fsm \<times> transition_rec option)" where
  "transition_idempotent f e now by_whom detail =
     (if is_noop f e then Inr (f, None)
      else case transition f e now by_whom detail of
             Inl err \<Rightarrow> Inl err
           | Inr (f', r) \<Rightarrow> Inr (f', Some r))"

definition legal_events :: "lifecycle_fsm \<Rightarrow> lifecycle_event list" where
  "legal_events f =
     map (snd \<circ> fst) (filter (\<lambda>((src, _), _). src = fsm_state f) transitions_table)
     @ (if fsm_state f \<in> set error_reachable then [Ev_ERROR] else [])"

definition is_valid_state :: "py_str \<Rightarrow> bool" where
  "is_valid_state s = (s \<in> set valid_states)"

section \<open>The FSM's lemmas\<close>

lemmas fsm_tables = transitions_table_def error_reachable_def valid_states_def

lemma next_lifecycle_cases:
  "next_lifecycle s e = Inr t \<longleftrightarrow>
     ((s, e), t) \<in> set transitions_table \<or> (e = Ev_ERROR \<and> s \<in> set error_reachable \<and> t = ERROR)"
  by (cases e) (auto simp: next_lifecycle_def fsm_tables split: option.splits)

lemma next_lifecycle_target: "next_lifecycle s e = Inr t \<Longrightarrow> t = event_target e"
  by (auto simp: next_lifecycle_cases fsm_tables)

lemma next_lifecycle_valid:
  "next_lifecycle s e = Inr t \<Longrightarrow> is_valid_state s \<and> is_valid_state t \<and> s \<noteq> RETIRED"
  by (auto simp: next_lifecycle_cases fsm_tables is_valid_state_def)

lemma transition_iff:
  "transition f e now w d = Inr (f', r) \<longleftrightarrow>
     (\<exists>t. next_lifecycle (fsm_state f) e = Inr t \<and>
          r = \<lparr>tr_from = fsm_state f, tr_to = t, tr_event = e, tr_occurred_at = now,
               tr_initiated_by = w, tr_detail = d\<rparr> \<and>
          f' = f\<lparr>fsm_state := t, fsm_history := fsm_history f @ [r]\<rparr>)"
  by (auto simp: transition_def Let_def split: sum.splits)

lemma can_iff: "can f e \<longleftrightarrow> (\<exists>t. next_lifecycle (fsm_state f) e = Inr t)"
  by (auto simp: can_def next_lifecycle_def split: option.splits)

lemma can_legal_events: "can f e \<longleftrightarrow> e \<in> set (legal_events f)"
  by (cases e) (auto simp: can_iff next_lifecycle_cases legal_events_def fsm_tables)

definition lifecycle_step :: "py_str \<Rightarrow> lifecycle_event \<Rightarrow> py_str option" where
  "lifecycle_step s e = (case next_lifecycle s e of Inl _ \<Rightarrow> None | Inr t \<Rightarrow> Some t)"

lemma lifecycle_step_Some: "lifecycle_step s e = Some t \<longleftrightarrow> next_lifecycle s e = Inr t"
  by (auto simp: lifecycle_step_def split: sum.splits)

lemma lifecycle_step_None: "lifecycle_step s e = None \<longleftrightarrow> (\<forall>t. next_lifecycle s e \<noteq> Inr t)"
  by (auto simp: lifecycle_step_def split: sum.splits)

interpretation actor_fsm: guarded_machine lifecycle_step "Collect is_valid_state" "{RETIRED}"
proof unfold_locales
  fix s e t
  assume "s \<in> {RETIRED}"
  then show "lifecycle_step s e = None"
    by (auto simp: lifecycle_step_None dest: next_lifecycle_valid)
qed (auto simp: lifecycle_step_Some dest: next_lifecycle_valid)

section \<open>Histories\<close>

text \<open>
  A history is a log of the state changes: it links when every record starts where the
  one before it ended.
\<close>

fun replay :: "py_str \<Rightarrow> transition_rec list \<Rightarrow> py_str option" where
  "replay s [] = Some s"
| "replay s (r # rs) =
     (if tr_from r = s \<and> next_lifecycle s (tr_event r) = Inr (tr_to r)
      then replay (tr_to r) rs else None)"

lemma replay_append:
  "replay s (rs @ qs) = (case replay s rs of None \<Rightarrow> None | Some t \<Rightarrow> replay t qs)"
  by (induction s rs rule: replay.induct) auto

type_synonym lifecycle_call = "lifecycle_event \<times> instant \<times> py_str \<times> py_str"

text \<open>
  The actor's life: one \<^verbatim>\<open>transition_idempotent\<close> call after another; a call that
  raises leaves the FSM as it was and the actor goes on.
\<close>

fun actor_calls :: "lifecycle_fsm \<Rightarrow> lifecycle_call list \<Rightarrow> lifecycle_fsm" where
  "actor_calls f [] = f"
| "actor_calls f ((e, now, w, d) # cs) =
     (case transition_idempotent f e now w d of
        Inl _ \<Rightarrow> actor_calls f cs
      | Inr (f', _) \<Rightarrow> actor_calls f' cs)"

lemma transition_idempotent_cases:
  assumes "transition_idempotent f e now w d = Inr (f', r)"
  obtains (noop) "f' = f" "r = None" "fsm_state f = event_target e"
    | (moved) rec where "r = Some rec" "transition f e now w d = Inr (f', rec)"
  using assms by (auto simp: transition_idempotent_def is_noop_def split: if_splits sum.splits)

definition history_ok :: "lifecycle_fsm \<Rightarrow> bool" where
  "history_ok f \<longleftrightarrow> replay DRAFT (fsm_history f) = Some (fsm_state f) \<and> is_valid_state (fsm_state f)"

lemma history_ok_new: "history_ok new_fsm"
  by (simp add: history_ok_def new_fsm_def is_valid_state_def valid_states_def)

lemma history_ok_transition: "history_ok f \<Longrightarrow> transition f e now w d = Inr (f', r) \<Longrightarrow> history_ok f'"
  by (auto simp: history_ok_def transition_iff replay_append dest: next_lifecycle_valid)

lemma history_ok_step:
  "history_ok f \<Longrightarrow> transition_idempotent f e now w d = Inr (f', r) \<Longrightarrow> history_ok f'"
  by (elim transition_idempotent_cases) (auto intro: history_ok_transition)

lemma history_ok_calls: "history_ok f \<Longrightarrow> history_ok (actor_calls f cs)"
proof (induction f cs rule: actor_calls.induct)
  case (2 f e now w d cs)
  show ?case
  proof (cases "transition_idempotent f e now w d")
    case (Inr p)
    then obtain f' r where "transition_idempotent f e now w d = Inr (f', r)" by (cases p) simp
    with 2 show ?thesis by (simp add: history_ok_step)
  qed (simp add: 2)
qed simp

lemma retired_calls: "fsm_state f = RETIRED \<Longrightarrow> actor_calls f cs = f"
proof (induction f cs rule: actor_calls.induct)
  case (2 f e now w d cs)
  have "transition f e now w d = Inl (IllegalTransition RETIRED e)"
    using 2 by (cases e) (auto simp: transition_def next_lifecycle_def fsm_tables)
  with 2 show ?case by (simp add: transition_idempotent_def)
qed simp

section \<open>The registry's state machines\<close>

datatype lifecycle_state = LS_DRAFT | LS_CONFIGURED | LS_ACTIVE | LS_PAUSED | LS_RETIRED

datatype collection_state = CS_DRAFT | CS_REVIEWED | CS_LOADED | CS_SUPERSEDED

fun lifecycle_value :: "lifecycle_state \<Rightarrow> py_str" where
  "lifecycle_value LS_DRAFT = ''draft''"
| "lifecycle_value LS_CONFIGURED = ''configured''"
| "lifecycle_value LS_ACTIVE = ''active''"
| "lifecycle_value LS_PAUSED = ''paused''"
| "lifecycle_value LS_RETIRED = ''retired''"

fun collection_value :: "collection_state \<Rightarrow> py_str" where
  "collection_value CS_DRAFT = ''draft''"
| "collection_value CS_REVIEWED = ''reviewed''"
| "collection_value CS_LOADED = ''loaded''"
| "collection_value CS_SUPERSEDED = ''superseded''"

fun ALLOWED_TRANSITIONS :: "lifecycle_state \<Rightarrow> lifecycle_state list" where
  "ALLOWED_TRANSITIONS LS_DRAFT = [LS_CONFIGURED, LS_RETIRED]"
| "ALLOWED_TRANSITIONS LS_CONFIGURED = [LS_ACTIVE, LS_DRAFT, LS_RETIRED]"
| "ALLOWED_TRANSITIONS LS_ACTIVE = [LS_PAUSED, LS_RETIRED]"
| "ALLOWED_TRANSITIONS LS_PAUSED = [LS_ACTIVE, LS_RETIRED]"
| "ALLOWED_TRANSITIONS LS_RETIRED = []"

fun COLLECTION_TRANSITIONS :: "collection_state \<Rightarrow> collection_state list" where
  "COLLECTION_TRANSITIONS CS_DRAFT = [CS_REVIEWED, CS_SUPERSEDED]"
| "COLLECTION_TRANSITIONS CS_REVIEWED = [CS_LOADED, CS_DRAFT, CS_SUPERSEDED]"
| "COLLECTION_TRANSITIONS CS_LOADED = [CS_SUPERSEDED]"
| "COLLECTION_TRANSITIONS CS_SUPERSEDED = []"

text \<open>
  \<^verbatim>\<open>state_machine_for\<close> returns an enum class and its table. The enum class is the
  list of its members by value, the table a function on those values; a family's persisted
  state string is parsed by the enum's constructor, which refuses a value it does not list.
\<close>

definition lifecycle_members :: "lifecycle_state list" where
  "lifecycle_members = [LS_DRAFT, LS_CONFIGURED, LS_ACTIVE, LS_PAUSED, LS_RETIRED]"

definition collection_members :: "collection_state list" where
  "collection_members = [CS_DRAFT, CS_REVIEWED, CS_LOADED, CS_SUPERSEDED]"

definition parse_state :: "('s \<Rightarrow> py_str) \<Rightarrow> 's list \<Rightarrow> py_str \<Rightarrow> 's option" where
  "parse_state val members v = find (\<lambda>s. val s = v) members"

type_synonym state_table = "(py_str \<times> py_str list) list"

definition state_machine_for :: "py_str \<Rightarrow> state_table" where
  "state_machine_for family =
     (if family = ''collection''
      then map (\<lambda>s. (collection_value s, map collection_value (COLLECTION_TRANSITIONS s)))
             collection_members
      else map (\<lambda>s. (lifecycle_value s, map lifecycle_value (ALLOWED_TRANSITIONS s)))
             lifecycle_members)"

definition terminal_state_for :: "py_str \<Rightarrow> py_str" where
  "terminal_state_for family =
     (if family = ''collection'' then collection_value CS_SUPERSEDED
      else lifecycle_value LS_RETIRED)"

text \<open>
  The validators of \<^verbatim>\<open>LifecycleTransition\<close>: the wire strings are coerced to the enum
  (an unknown one is a validation error), then the pair must be in the table.
\<close>

datatype transition_fault = Unknown_state py_str | Illegal_pair lifecycle_state lifecycle_state

definition coerce_state :: "py_str \<Rightarrow> transition_fault + lifecycle_state" where
  "coerce_state v = (case parse_state lifecycle_value lifecycle_members v of
     None \<Rightarrow> Inl (Unknown_state v) | Some s \<Rightarrow> Inr s)"

definition lifecycle_transition ::
  "py_str \<Rightarrow> py_str \<Rightarrow> transition_fault + (lifecycle_state \<times> lifecycle_state)" where
  "lifecycle_transition from_state to_state =
     (case coerce_state from_state of
        Inl err \<Rightarrow> Inl err
      | Inr s \<Rightarrow>
          (case coerce_state to_state of
             Inl err \<Rightarrow> Inl err
           | Inr t \<Rightarrow>
               if t \<notin> set (ALLOWED_TRANSITIONS s) then Inl (Illegal_pair s t) else Inr (s, t)))"

section \<open>The registry machine and the runtime machine\<close>

definition registry_step :: "py_str \<Rightarrow> py_str \<Rightarrow> py_str \<Rightarrow> py_str option" where
  "registry_step family s t =
     (case map_of (state_machine_for family) s of
        None \<Rightarrow> None
      | Some ts \<Rightarrow> if t \<in> set ts then Some t else None)"

lemmas registry_tables =
  state_machine_for_def lifecycle_members_def collection_members_def terminal_state_for_def

lemma registry_step_Some:
  "registry_step family s t = Some u \<longleftrightarrow>
     u = t \<and> (\<exists>ts. map_of (state_machine_for family) s = Some ts \<and> t \<in> set ts)"
  by (auto simp: registry_step_def split: option.splits if_splits)

interpretation registry: guarded_machine
  "registry_step family" "set (map fst (state_machine_for family))" "{terminal_state_for family}"
  for family
proof unfold_locales
  fix s e t
  assume step: "registry_step family s e = Some t"
  then show "s \<in> set (map fst (state_machine_for family))"
    by (auto simp: registry_step_Some dest!: map_of_SomeD intro: rev_image_eqI)
  from step show "t \<in> set (map fst (state_machine_for family))"
    by (auto simp: registry_step_Some registry_tables split: if_splits)
next
  fix s e
  assume "s \<in> {terminal_state_for family}"
  then show "registry_step family s e = None"
    by (auto simp: registry_step_def registry_tables)
qed

lemma parse_lifecycle_value [simp]:
  "parse_state lifecycle_value lifecycle_members (lifecycle_value s) = Some s"
  by (cases s) (simp_all add: parse_state_def lifecycle_members_def)

lemma parse_lifecycle_Some:
  "parse_state lifecycle_value lifecycle_members v = Some s \<longleftrightarrow> v = lifecycle_value s"
proof
  assume "parse_state lifecycle_value lifecycle_members v = Some s"
  then show "v = lifecycle_value s"
    by (auto simp: parse_state_def lifecycle_members_def split: if_splits)
qed simp

lemma lifecycle_value_inject [simp]: "lifecycle_value s = lifecycle_value t \<longleftrightarrow> s = t"
  by (cases s; cases t) simp_all

lemma coerce_state_value [simp]: "coerce_state (lifecycle_value s) = Inr s"
  by (simp add: coerce_state_def)

lemma coerce_state_Inr: "coerce_state v = Inr s \<longleftrightarrow> v = lifecycle_value s"
  by (auto simp: coerce_state_def parse_lifecycle_Some split: option.splits)

lemma lifecycle_transition_Inr:
  "lifecycle_transition v w = Inr (s, t) \<longleftrightarrow>
     v = lifecycle_value s \<and> w = lifecycle_value t \<and> t \<in> set (ALLOWED_TRANSITIONS s)"
  by (auto simp: lifecycle_transition_def coerce_state_Inr split: sum.splits if_splits)

section \<open>Properties\<close>

text \<open>Whatever calls of \<^verbatim>\<open>transition_idempotent\<close> a freshly created actor FSM receives,
  legal or refused, its history is a gap-free log: replaying the recorded events from
  \<^verbatim>\<open>draft\<close> ends in exactly the state the FSM is in, and that state is one of the six
  valid ones.\<close>

theorem fsm_history_replays:
  "replay DRAFT (fsm_history (actor_calls new_fsm cs)) = Some (fsm_state (actor_calls new_fsm cs))
     \<and> is_valid_state (fsm_state (actor_calls new_fsm cs))"
  using history_ok_calls [OF history_ok_new] by (simp add: history_ok_def)

text \<open>\<^verbatim>\<open>transition_idempotent\<close> is idempotent: once a call with an event has gone
  through, as a real change or as a no-op, the same event again, at any later time and by any
  initiator, changes nothing, emits no record and does not raise.\<close>

lemma transition_idempotent_repeat:
  assumes "transition_idempotent f e now w d = Inr (f', r)"
  shows "transition_idempotent f' e now' w' d' = Inr (f', None)"
  using assms
  by (elim transition_idempotent_cases)
     (auto simp: transition_idempotent_def is_noop_def transition_iff dest: next_lifecycle_target)

text \<open>The runtime FSM and the registry's table for targets, analysts, sources and action
  packs agree on every pair of registry states but two: apart from ERROR, the runtime can move
  from one registry state to another by some event exactly when the registry allows the pair,
  except that the registry also allows draft to retired and configured to draft, for which
  the runtime has no event.\<close>

theorem runtime_edges_vs_registry:
  "(\<exists>e. e \<noteq> Ev_ERROR \<and> lifecycle_step (lifecycle_value s) e = Some (lifecycle_value t)) \<longleftrightarrow>
     lifecycle_transition (lifecycle_value s) (lifecycle_value t) = Inr (s, t)
     \<and> (s, t) \<noteq> (LS_DRAFT, LS_RETIRED) \<and> (s, t) \<noteq> (LS_CONFIGURED, LS_DRAFT)"
  unfolding lifecycle_transition_Inr lifecycle_step_Some next_lifecycle_cases
  by (cases s; cases t) (auto simp: fsm_tables)

text \<open>A descriptor never leaves its family's terminal state: in any run of the family's state
  machine, collections included, no state follows \<^verbatim>\<open>terminal_state_for\<close>.\<close>

lemma registry_terminal:
  assumes "machine_run (registry_step family) s (ts @ us) = Some v"
    and "machine_run (registry_step family) s ts = Some (terminal_state_for family)"
  shows "us = [] \<and> v = terminal_state_for family"
proof -
  have "us = []"
    by (rule registry.run_through_terminal [OF assms(2) _ assms(1)]) simp
  with assms show ?thesis by simp
qed

end
