(* ===== verification/EventLedger.thy ===== *)
theory EventLedger
  imports Complex_Main Machine
begin

text \<open>
  The event lifecycle ledger, \<open>data/events/lifecycle.py\<close>: five states, six
  transitions, the pure transition function, the trigger evaluation over a measurement, and
  the validation of a ledger row. States and transitions are the source's bare strings, so
  the unknown-string branches are branches of the model. Floats are rationals: the thresholds
  are the exact values of the source's doubles (0.6 is the double nearest to six tenths), and
  the two products with 2.0 and 0.5 are exact in binary floating point too.
\<close>

section \<open>Vocabulary\<close>

abbreviation "STATE_EMERGING \<equiv> ''emerging''"
abbreviation "STATE_DEVELOPING \<equiv> ''developing''"
abbreviation "STATE_ACTIVE \<equiv> ''active''"
abbreviation "STATE_EVOLVING \<equiv> ''evolving''"
abbreviation "STATE_RESOLVED \<equiv> ''resolved''"

definition LIFECYCLE_STATES :: "py_str list" where
  "LIFECYCLE_STATES =
    [STATE_EMERGING, STATE_DEVELOPING, STATE_ACTIVE, STATE_EVOLVING, STATE_RESOLVED]"

abbreviation "TRANSITION_OPENED \<equiv> ''opened''"
abbreviation "TRANSITION_ADVANCED \<equiv> ''advanced''"
abbreviation "TRANSITION_ACCELERATED \<equiv> ''accelerated''"
abbreviation "TRANSITION_STABILISED \<equiv> ''stabilised''"
abbreviation "TRANSITION_RESOLVED \<equiv> ''resolved''"
abbreviation "TRANSITION_REACTIVATED \<equiv> ''reactivated''"

definition LIFECYCLE_TRANSITIONS :: "py_str list" where
  "LIFECYCLE_TRANSITIONS =
    [TRANSITION_OPENED, TRANSITION_ADVANCED, TRANSITION_ACCELERATED,
     TRANSITION_STABILISED, TRANSITION_RESOLVED, TRANSITION_REACTIVATED]"

definition next_state_table :: "((py_str \<times> py_str) \<times> py_str) list" where
  "next_state_table =
    [((STATE_EMERGING, TRANSITION_OPENED), STATE_EMERGING),
     ((STATE_EMERGING, TRANSITION_ADVANCED), STATE_DEVELOPING),
     ((STATE_DEVELOPING, TRANSITION_ADVANCED), STATE_ACTIVE),
     ((STATE_ACTIVE, TRANSITION_ACCELERATED), STATE_EVOLVING),
     ((STATE_EVOLVING, TRANSITION_STABILISED), STATE_ACTIVE),
     ((STATE_EMERGING, TRANSITION_RESOLVED), STATE_RESOLVED),
     ((STATE_DEVELOPING, TRANSITION_RESOLVED), STATE_RESOLVED),
     ((STATE_ACTIVE, TRANSITION_RESOLVED), STATE_RESOLVED),
     ((STATE_EVOLVING, TRANSITION_RESOLVED), STATE_RESOLVED),
     ((STATE_RESOLVED, TRANSITION_REACTIVATED), STATE_DEVELOPING)]"

definition EMERGING_ADVANCE_SIGNAL_COUNT :: int where "EMERGING_ADVANCE_SIGNAL_COUNT = 3"
definition DEVELOPING_ADVANCE_SIGNAL_COUNT :: int where "DEVELOPING_ADVANCE_SIGNAL_COUNT = 5"
definition DEVELOPING_ADVANCE_CONFIDENCE :: rat where
  "DEVELOPING_ADVANCE_CONFIDENCE = 5404319552844595 / 9007199254740992"
definition ACCELERATE_RATE_FACTOR :: rat where "ACCELERATE_RATE_FACTOR = 2"
definition STABILISE_RATE_BAND :: "rat \<times> rat" where "STABILISE_RATE_BAND = (1 / 2, 2)"
definition EMERGING_SILENCE_HOURS :: rat where "EMERGING_SILENCE_HOURS = 48"
definition DEVELOPING_SILENCE_HOURS :: rat where "DEVELOPING_SILENCE_HOURS = 72"
definition ACTIVE_SILENCE_HOURS :: rat where "ACTIVE_SILENCE_HOURS = 7 * 24"
definition EVOLVING_SILENCE_HOURS :: rat where "EVOLVING_SILENCE_HOURS = 7 * 24"

datatype event_transition_error =
    Unknown_lifecycle_state py_str
  | Unknown_lifecycle_transition py_str
  | Not_legal_from py_str py_str
  | State_to_disagrees py_str py_str
  | Empty_why
  | Requires_evidence py_str

section \<open>The transition function\<close>

definition transition_requires_evidence :: "py_str \<Rightarrow> bool" where
  "transition_requires_evidence transition \<longleftrightarrow> transition \<noteq> TRANSITION_RESOLVED"

definition next_state :: "py_str \<Rightarrow> py_str \<Rightarrow> event_transition_error + py_str" where
  "next_state current transition =
     (if current \<notin> set LIFECYCLE_STATES then Inl (Unknown_lifecycle_state current)
      else if transition \<notin> set LIFECYCLE_TRANSITIONS
           then Inl (Unknown_lifecycle_transition transition)
      else case map_of next_state_table (current, transition) of
             Some s \<Rightarrow> Inr s
           | None \<Rightarrow> Inl (Not_legal_from transition current))"

section \<open>The trigger evaluation\<close>

record event_measurement =
  signal_count :: int
  confidence :: rat
  link_rate_24h :: rat
  baseline_rate_7d :: rat
  new_actor_or_geo :: bool
  new_link_arrived :: bool
  silence_hours :: rat

definition evaluate_transition ::
  "py_str \<Rightarrow> event_measurement \<Rightarrow> event_transition_error + py_str option" where
  "evaluate_transition current m =
     (if current \<notin> set LIFECYCLE_STATES then Inl (Unknown_lifecycle_state current)
      else if current = STATE_RESOLVED
        then Inr (if new_link_arrived m then Some TRANSITION_REACTIVATED else None)
      else if current = STATE_EMERGING
        then Inr (if silence_hours m \<ge> EMERGING_SILENCE_HOURS then Some TRANSITION_RESOLVED
                  else if signal_count m \<ge> EMERGING_ADVANCE_SIGNAL_COUNT
                       then Some TRANSITION_ADVANCED
                  else None)
      else if current = STATE_DEVELOPING
        then Inr (if silence_hours m \<ge> DEVELOPING_SILENCE_HOURS then Some TRANSITION_RESOLVED
                  else if signal_count m \<ge> DEVELOPING_ADVANCE_SIGNAL_COUNT
                          \<and> confidence m \<ge> DEVELOPING_ADVANCE_CONFIDENCE
                       then Some TRANSITION_ADVANCED
                  else None)
      else if current = STATE_ACTIVE
        then Inr (if silence_hours m \<ge> ACTIVE_SILENCE_HOURS then Some TRANSITION_RESOLVED
                  else if (link_rate_24h m \<ge> ACCELERATE_RATE_FACTOR * baseline_rate_7d m
                           \<and> link_rate_24h m > 0)
                          \<or> new_actor_or_geo m
                       then Some TRANSITION_ACCELERATED
                  else None)
      else Inr (if silence_hours m \<ge> EVOLVING_SILENCE_HOURS then Some TRANSITION_RESOLVED
                else let (lo, hi) = STABILISE_RATE_BAND in
                     if lo * baseline_rate_7d m \<le> link_rate_24h m
                        \<and> link_rate_24h m \<le> hi * baseline_rate_7d m
                     then Some TRANSITION_STABILISED
                else None))"

section \<open>The ledger row\<close>

record ledger_event =
  le_event_id :: nat
  le_occurred_at :: instant
  le_transition :: py_str
  le_why :: py_str
  le_state_from :: py_str
  le_state_to :: py_str
  le_derived_from :: "nat list"

text \<open>\<^verbatim>\<open>__post_init__\<close>: the constructed row, or the error construction raises.\<close>

definition post_init :: "ledger_event \<Rightarrow> event_transition_error + ledger_event" where
  "post_init r =
     (if le_transition r \<notin> set LIFECYCLE_TRANSITIONS
        then Inl (Unknown_lifecycle_transition (le_transition r))
      else if le_state_from r \<notin> set LIFECYCLE_STATES
        then Inl (Unknown_lifecycle_state (le_state_from r))
      else if le_state_to r \<notin> set LIFECYCLE_STATES
        then Inl (Unknown_lifecycle_state (le_state_to r))
      else case next_state (le_state_from r) (le_transition r) of
             Inl err \<Rightarrow> Inl err
           | Inr expected \<Rightarrow>
               if expected \<noteq> le_state_to r then Inl (State_to_disagrees (le_state_to r) expected)
               else if py_strip (le_why r) = [] then Inl Empty_why
               else if transition_requires_evidence (le_transition r) \<and> le_derived_from r = []
                 then Inl (Requires_evidence (le_transition r))
               else Inr r)"

section \<open>The maintenance pass\<close>

text \<open>
  \<open>data/analysts/deterministic_handlers/_event_lifecycle.py\<close>: the tables the pass
  reads and writes, its scan query, and the loop that turns each measured event into a
  ledger row and the event row's new state. Ids are naturals for UUIDs (both are ordered,
  and \<^verbatim>\<open>_uuid\<close> is the identity on them). The float formats of the \<open>why\<close>
  text are the argument \<open>fmt\<close>: the text of a value with a number of digits.
\<close>

record signal_event_link =
  sel_event :: nat
  sel_signal :: nat
  sel_source :: py_str
  sel_linked_at :: instant
  sel_created_at :: instant

record event_entity_link =
  eel_event :: nat
  eel_entity :: nat
  eel_created_at :: instant

record event_row =
  ev_id :: nat
  ev_lifecycle_state :: py_str
  ev_changed_at :: instant
  ev_confidence :: "rat option"
  ev_signal_count :: int
  ev_distinct_source_count :: int

record events_db =
  db_events :: "event_row list"
  db_signal_links :: "signal_event_link list"
  db_entity_links :: "event_entity_link list"
  db_ledger :: "(instant \<times> ledger_event) list"

record stats_row =
  st_id :: nat
  st_state :: py_str
  st_confidence :: "rat option"
  st_signal_count :: nat
  st_distinct_source_count :: nat
  st_latest_linked_at :: "instant option"
  st_link_rate_24h :: rat
  st_baseline_rate_7d :: rat
  st_signal_ids :: "nat list"
  st_link_since_ledger :: bool
  st_entity_link_since_ledger :: bool

definition ledger_rows_of :: "events_db \<Rightarrow> nat \<Rightarrow> (instant \<times> ledger_event) list" where
  "ledger_rows_of db e = filter (\<lambda>(_, r). le_event_id r = e) (db_ledger db)"

definition after_ledger :: "events_db \<Rightarrow> nat \<Rightarrow> instant \<Rightarrow> bool" where
  "after_ledger db e t \<longleftrightarrow> list_all (\<lambda>(c, _). c < t) (ledger_rows_of db e)"

definition max_instant :: "instant list \<Rightarrow> instant option" where
  "max_instant ts = (case ts of [] \<Rightarrow> None | t # ts' \<Rightarrow> Some (foldl max t ts'))"

text \<open>One group of the scan's GROUP BY. The join of both link tables repeats a link once
  per entity link; every aggregate is over DISTINCT values, so each is taken over the event's
  links directly (an event with signal links and no entity link still keeps them, by the
  LEFT JOIN).\<close>

definition event_stats :: "events_db \<Rightarrow> instant \<Rightarrow> event_row \<Rightarrow> stats_row" where
  "event_stats db at_time e =
     (let links = filter (\<lambda>l. sel_event l = ev_id e) (db_signal_links db);
          count = (\<lambda>ls. length (remdups (map sel_signal ls))) in
      \<lparr>st_id = ev_id e,
       st_state = ev_lifecycle_state e,
       st_confidence = ev_confidence e,
       st_signal_count = count links,
       st_distinct_source_count = length (remdups (filter (\<lambda>s. s \<noteq> []) (map sel_source links))),
       st_latest_linked_at = max_instant (map sel_linked_at links),
       st_link_rate_24h =
         of_nat (count (filter (\<lambda>l. sel_linked_at l \<ge> at_time - seconds 86400) links)) / 24,
       st_baseline_rate_7d =
         of_nat (count (filter (\<lambda>l. sel_linked_at l \<ge> at_time - seconds 604800) links)) / 168,
       st_signal_ids = sort (remdups (map sel_signal links)),
       st_link_since_ledger =
         (ev_lifecycle_state e = ''resolved''
          \<and> list_ex (\<lambda>l. after_ledger db (ev_id e) (sel_created_at l)) links),
       st_entity_link_since_ledger =
         (ev_lifecycle_state e \<in> {''active'', ''evolving''}
          \<and> list_ex (\<lambda>l. eel_event l = ev_id e \<and> after_ledger db (ev_id e) (eel_created_at l))
              (db_entity_links db))\<rparr>)"

definition open_event_stats :: "events_db \<Rightarrow> instant \<Rightarrow> nat list \<Rightarrow> nat \<Rightarrow> stats_row list" where
  "open_event_stats db at_time touched max_events =
     take max_events
       (map (event_stats db at_time)
         (sort_key ev_changed_at (sort_key ev_id
           (filter (\<lambda>e. ev_lifecycle_state e \<noteq> ''resolved'' \<or> ev_id e \<in> set touched
                         \<or> st_link_since_ledger (event_stats db at_time e))
              (db_events db)))))"

fun silence_horizon :: "py_str \<Rightarrow> rat option" where
  "silence_horizon s =
     map_of [(STATE_EMERGING, EMERGING_SILENCE_HOURS), (STATE_DEVELOPING, DEVELOPING_SILENCE_HOURS),
             (STATE_ACTIVE, ACTIVE_SILENCE_HOURS), (STATE_EVOLVING, EVOLVING_SILENCE_HOURS)] s"

definition hours :: "rat \<Rightarrow> instant" where
  "hours h = \<lfloor>h * 3600 * 1000000\<rfloor>"

definition evidence_for :: "stats_row \<Rightarrow> nat list \<Rightarrow> nat list" where
  "evidence_for row new_ids = (if new_ids \<noteq> [] then new_ids else st_signal_ids row)"

definition show_int :: "int \<Rightarrow> py_str" where
  "show_int i = (if i < 0 then ''-'' @ show_nat (nat (- i)) else show_nat (nat i))"

definition transition_why ::
  "(nat \<Rightarrow> rat \<Rightarrow> py_str) \<Rightarrow> py_str \<Rightarrow> event_measurement \<Rightarrow> nat \<Rightarrow> py_str" where
  "transition_why fmt transition m new_count =
     (if transition = TRANSITION_RESOLVED
        then ''no new evidence for '' @ fmt 1 (silence_hours m) @ ''h; signal_count=''
             @ show_int (signal_count m)
      else if transition = TRANSITION_REACTIVATED
        then show_nat new_count @ '' new evidence link(s) after resolution''
      else if transition = TRANSITION_ADVANCED
        then ''signal_count='' @ show_int (signal_count m) @ '', confidence='' @ fmt 3 (confidence m)
      else if transition = TRANSITION_ACCELERATED
        then (if new_actor_or_geo m then ''a new actor or ISO2 attached''
              else ''24h link rate '' @ fmt 3 (link_rate_24h m) @ ''/h is >= 2.0x the 7d baseline ''
                   @ fmt 3 (baseline_rate_7d m) @ ''/h'')
      else if transition = TRANSITION_STABILISED
        then ''24h link rate '' @ fmt 3 (link_rate_24h m)
             @ ''/h returned to the [0.5x, 2.0x] baseline band ('' @ fmt 3 (baseline_rate_7d m) @ ''/h)''
      else transition @ '': signal_count='' @ show_int (signal_count m))"

text \<open>
  The body of the loop for one scanned row: skip an orphan, measure, evaluate, and write both
  the ledger row and the event row. \<open>fresh\<close> is \<^verbatim>\<open>newly_linked\<close>,
  \<open>context\<close> is \<^verbatim>\<open>new_context\<close>, \<open>created\<close> the database clock of the
  transaction.
\<close>

datatype row_outcome = Orphan | Quiet | Wrote py_str events_db

definition measure_row ::
  "instant \<Rightarrow> (nat \<Rightarrow> nat list) \<Rightarrow> (nat \<Rightarrow> bool) \<Rightarrow> stats_row \<Rightarrow> instant \<Rightarrow> event_measurement" where
  "measure_row at_time fresh ctx row latest =
     \<lparr>signal_count = int (st_signal_count row),
      confidence = (case st_confidence row of None \<Rightarrow> 0 | Some c \<Rightarrow> c),
      link_rate_24h = st_link_rate_24h row,
      baseline_rate_7d = st_baseline_rate_7d row,
      new_actor_or_geo = (ctx (st_id row) \<or> st_entity_link_since_ledger row),
      new_link_arrived = (fresh (st_id row) \<noteq> [] \<or> st_link_since_ledger row),
      silence_hours = max 0 (of_int (at_time - latest) / 1000000 / 3600)\<rparr>"

definition write_transition ::
  "events_db \<Rightarrow> instant \<Rightarrow> stats_row \<Rightarrow> event_measurement \<Rightarrow> ledger_event \<Rightarrow> events_db" where
  "write_transition db created row m r =
     db\<lparr>db_ledger := db_ledger db @ [(created, r)],
        db_events := map (\<lambda>e. if ev_id e = st_id row
                               then e\<lparr>ev_lifecycle_state := le_state_to r,
                                      ev_changed_at := le_occurred_at r,
                                      ev_signal_count := signal_count m,
                                      ev_distinct_source_count := int (st_distinct_source_count row),
                                      ev_confidence := Some (confidence m)\<rparr>
                               else e) (db_events db)\<rparr>"

definition ledger_for ::
  "(nat \<Rightarrow> rat \<Rightarrow> py_str) \<Rightarrow> stats_row \<Rightarrow> event_measurement \<Rightarrow> nat list \<Rightarrow> instant \<Rightarrow> py_str \<Rightarrow> py_str
     \<Rightarrow> ledger_event" where
  "ledger_for fmt row m new_ids latest transition state_to =
     \<lparr>le_event_id = st_id row,
      le_occurred_at =
        (if transition = TRANSITION_RESOLVED
         then latest + hours (the (silence_horizon (st_state row))) else latest),
      le_transition = transition,
      le_why = transition_why fmt transition m (length new_ids),
      le_state_from = st_state row,
      le_state_to = state_to,
      le_derived_from =
        (if transition = TRANSITION_RESOLVED then [] else evidence_for row new_ids)\<rparr>"

definition maintain_row ::
  "(nat \<Rightarrow> rat \<Rightarrow> py_str) \<Rightarrow> instant \<Rightarrow> instant \<Rightarrow> (nat \<Rightarrow> nat list) \<Rightarrow> (nat \<Rightarrow> bool) \<Rightarrow> events_db
     \<Rightarrow> stats_row \<Rightarrow> event_transition_error + row_outcome" where
  "maintain_row fmt at_time created fresh ctx db row =
     (case st_latest_linked_at row of
        None \<Rightarrow> Inr Orphan
      | Some latest \<Rightarrow>
          if st_signal_ids row = [] then Inr Orphan
          else let m = measure_row at_time fresh ctx row latest in
            case evaluate_transition (st_state row) m of
              Inl err \<Rightarrow> Inl err
            | Inr None \<Rightarrow> Inr Quiet
            | Inr (Some transition) \<Rightarrow>
                (case next_state (st_state row) transition of
                   Inl err \<Rightarrow> Inl err
                 | Inr state_to \<Rightarrow>
                     (case post_init (ledger_for fmt row m (fresh (st_id row)) latest transition state_to) of
                        Inl err \<Rightarrow> Inl err
                      | Inr r \<Rightarrow> Inr (Wrote transition (write_transition db created row m r)))))"

record pass_result =
  pass_transitions :: "py_str list"
  pass_orphans :: nat
  pass_deferred :: nat

text \<open>The loop over the scan: \<open>exhausted i\<close> is the budget's answer before row \<open>i\<close>.\<close>

fun maintain_rows ::
  "(nat \<Rightarrow> rat \<Rightarrow> py_str) \<Rightarrow> instant \<Rightarrow> instant \<Rightarrow> (nat \<Rightarrow> nat list) \<Rightarrow> (nat \<Rightarrow> bool) \<Rightarrow> (nat \<Rightarrow> bool)
     \<Rightarrow> nat \<Rightarrow> stats_row list \<Rightarrow> events_db \<Rightarrow> pass_result
     \<Rightarrow> event_transition_error + (events_db \<times> pass_result)" where
  "maintain_rows fmt at_time created fresh ctx exhausted i [] db res = Inr (db, res)"
| "maintain_rows fmt at_time created fresh ctx exhausted i (row # rows) db res =
     (if exhausted i
      then maintain_rows fmt at_time created fresh ctx exhausted (Suc i) rows db
             (res\<lparr>pass_deferred := pass_deferred res + 1\<rparr>)
      else case maintain_row fmt at_time created fresh ctx db row of
             Inl err \<Rightarrow> Inl err
           | Inr Orphan \<Rightarrow>
               maintain_rows fmt at_time created fresh ctx exhausted (Suc i) rows db
                 (res\<lparr>pass_orphans := pass_orphans res + 1\<rparr>)
           | Inr Quiet \<Rightarrow> maintain_rows fmt at_time created fresh ctx exhausted (Suc i) rows db res
           | Inr (Wrote t db') \<Rightarrow>
               maintain_rows fmt at_time created fresh ctx exhausted (Suc i) rows db'
                 (res\<lparr>pass_transitions := pass_transitions res @ [t]\<rparr>))"

text \<open>\<open>newly\<close> is the \<^verbatim>\<open>newly_linked\<close> mapping, an association list; a run of
  signal ids without duplicates is the Python set.\<close>

definition maintain_event_lifecycle ::
  "(nat \<Rightarrow> rat \<Rightarrow> py_str) \<Rightarrow> instant \<Rightarrow> instant \<Rightarrow> (nat \<times> nat list) list \<Rightarrow> (nat \<Rightarrow> bool) \<Rightarrow> nat
     \<Rightarrow> (nat \<Rightarrow> bool) \<Rightarrow> events_db \<Rightarrow> event_transition_error + (events_db \<times> pass_result)" where
  "maintain_event_lifecycle fmt at_time created newly ctx max_events exhausted db =
     (let fresh = (\<lambda>e. case map_of newly e of None \<Rightarrow> [] | Some xs \<Rightarrow> remdups xs);
          rows = open_event_stats db at_time (sort (remdups (map fst newly))) max_events
      in maintain_rows fmt at_time created fresh ctx exhausted 0 rows db
           \<lparr>pass_transitions = [], pass_orphans = 0, pass_deferred = 0\<rparr>)"

section \<open>Lemmas\<close>

lemmas ledger_tables = LIFECYCLE_STATES_def LIFECYCLE_TRANSITIONS_def next_state_table_def

lemma next_state_Inr: "next_state s t = Inr u \<longleftrightarrow> ((s, t), u) \<in> set next_state_table"
  by (auto simp: next_state_def ledger_tables split: option.splits)

lemma next_state_closed:
  "next_state s t = Inr u \<Longrightarrow>
     s \<in> set LIFECYCLE_STATES \<and> t \<in> set LIFECYCLE_TRANSITIONS \<and> u \<in> set LIFECYCLE_STATES"
  by (auto simp: next_state_Inr ledger_tables)

definition ledger_step :: "py_str \<Rightarrow> py_str \<Rightarrow> py_str option" where
  "ledger_step s t = (case next_state s t of Inl _ \<Rightarrow> None | Inr u \<Rightarrow> Some u)"

lemma ledger_step_Some: "ledger_step s t = Some u \<longleftrightarrow> next_state s t = Inr u"
  by (auto simp: ledger_step_def split: sum.splits)

text \<open>The event machine has no terminal state: \<open>resolved\<close> reopens on a new link.\<close>

interpretation event_fsm: guarded_machine ledger_step "set LIFECYCLE_STATES" "{}"
  by unfold_locales (auto simp: ledger_step_Some dest: next_state_closed)

lemmas silence_bounds = EMERGING_SILENCE_HOURS_def DEVELOPING_SILENCE_HOURS_def
  ACTIVE_SILENCE_HOURS_def EVOLVING_SILENCE_HOURS_def

lemma evaluate_known: "s \<in> set LIFECYCLE_STATES \<Longrightarrow> \<exists>t. evaluate_transition s m = Inr t"
  by (simp add: evaluate_transition_def)

lemma evaluate_legal: "evaluate_transition s m = Inr (Some t) \<Longrightarrow> \<exists>u. next_state s t = Inr u \<and> u \<noteq> s"
  by (auto simp: evaluate_transition_def next_state_Inr ledger_tables Let_def
      split: if_splits prod.splits)

lemma evaluate_resolved:
  assumes "evaluate_transition s m = Inr (Some TRANSITION_RESOLVED)"
  obtains h where "silence_horizon s = Some h" "h \<le> silence_hours m" "0 < h"
  using assms
  by (auto simp: evaluate_transition_def silence_bounds LIFECYCLE_STATES_def Let_def
      split: if_splits prod.splits)

lemma post_init_Inr:
  "post_init r = Inr q \<longleftrightarrow>
     q = r \<and> next_state (le_state_from r) (le_transition r) = Inr (le_state_to r)
     \<and> py_strip (le_why r) \<noteq> [] \<and> (le_transition r = TRANSITION_RESOLVED \<or> le_derived_from r \<noteq> [])"
  by (auto simp: post_init_def transition_requires_evidence_def dest: next_state_closed
      split: sum.splits if_splits)

lemma py_strip_nonempty: "\<exists>c \<in> set s. \<not> py_space c \<Longrightarrow> py_strip s \<noteq> []"
  by (auto simp: py_strip_def dropWhile_eq_Nil_conv dest: set_dropWhileD)
     (metis dropWhile_eq_Nil_conv hd_dropWhile list.set_sel(1) set_rev)

lemma why_nonempty: "py_strip (transition_why fmt t m n) \<noteq> []"
  by (rule py_strip_nonempty) (simp add: transition_why_def py_space_def)

lemma evidence_nonempty: "st_signal_ids row \<noteq> [] \<Longrightarrow> evidence_for row new_ids \<noteq> []"
  by (simp add: evidence_for_def)

text \<open>What a written row is: legal, valid, and for silence dated at the crossing point.\<close>

definition silence_dated :: "instant \<Rightarrow> ledger_event \<Rightarrow> bool" where
  "silence_dated now r \<longleftrightarrow>
     (le_transition r = TRANSITION_RESOLVED \<longrightarrow> le_occurred_at r \<le> now \<and> le_derived_from r = [])"

lemma hours_le_gap:
  assumes "h \<le> max 0 (of_int (now - latest) / 1000000 / 3600)" and "0 < h"
  shows "latest + hours h \<le> now"
proof -
  have "h * 3600 * 1000000 \<le> of_int (now - latest)"
    using assms by (simp add: max_def field_simps split: if_splits)
  then have "hours h \<le> now - latest"
    unfolding hours_def by linarith
  then show ?thesis by simp
qed

lemma maintain_row_wrote:
  assumes "maintain_row fmt now c fresh ctx db row = Inr (Wrote t db')"
  obtains m r where "db' = write_transition db c row m r" "post_init r = Inr r"
    "le_event_id r = st_id row" "le_state_from r = st_state row" "le_transition r = t"
    "silence_dated now r"
proof -
  from assms obtain latest u where step: "st_latest_linked_at row = Some latest" "st_signal_ids row \<noteq> []"
    "evaluate_transition (st_state row) (measure_row now fresh ctx row latest) = Inr (Some t)"
    "next_state (st_state row) t = Inr u"
    and written: "db' = write_transition db c row (measure_row now fresh ctx row latest)
      (ledger_for fmt row (measure_row now fresh ctx row latest) (fresh (st_id row)) latest t u)"
    "post_init (ledger_for fmt row (measure_row now fresh ctx row latest) (fresh (st_id row)) latest t u) =
      Inr (ledger_for fmt row (measure_row now fresh ctx row latest) (fresh (st_id row)) latest t u)"
    by (auto simp: maintain_row_def Let_def post_init_Inr split: option.splits sum.splits if_splits)
  have "silence_dated now
    (ledger_for fmt row (measure_row now fresh ctx row latest) (fresh (st_id row)) latest t u)"
  proof (cases "t = TRANSITION_RESOLVED")
    case True
    from step(3) [unfolded True] obtain h where "silence_horizon (st_state row) = Some h"
      "h \<le> silence_hours (measure_row now fresh ctx row latest)" "0 < h"
      by (rule evaluate_resolved)
    with True hours_le_gap [of h now latest] show ?thesis
      by (simp add: silence_dated_def ledger_for_def measure_row_def del: silence_horizon.simps)
  qed (simp add: silence_dated_def ledger_for_def)
  with written that show thesis by (simp add: ledger_for_def)
qed

lemma maintain_row_total:
  assumes "st_state row \<in> set LIFECYCLE_STATES"
  shows "\<exists>out. maintain_row fmt now c fresh ctx db row = Inr out"
proof (cases "st_latest_linked_at row = None \<or> st_signal_ids row = []")
  case True
  then show ?thesis by (auto simp: maintain_row_def split: option.split)
next
  case False
  then obtain latest where latest: "st_latest_linked_at row = Some latest" by auto
  obtain t where t: "evaluate_transition (st_state row) (measure_row now fresh ctx row latest) = Inr t"
    using evaluate_known [OF assms] by blast
  show ?thesis
  proof (cases t)
    case None
    with t latest False show ?thesis by (simp add: maintain_row_def Let_def)
  next
    case (Some tr)
    then obtain u where u: "next_state (st_state row) tr = Inr u"
      using evaluate_legal t by blast
    have "post_init (ledger_for fmt row (measure_row now fresh ctx row latest) (fresh (st_id row)) latest tr u)
      = Inr (ledger_for fmt row (measure_row now fresh ctx row latest) (fresh (st_id row)) latest tr u)"
      using u False by (simp add: post_init_Inr ledger_for_def why_nonempty evidence_nonempty)
    with t Some u latest False show ?thesis by (simp add: maintain_row_def Let_def)
  qed
qed

section \<open>The ledger and the fast state agree\<close>

definition event_history :: "events_db \<Rightarrow> nat \<Rightarrow> py_str list" where
  "event_history db e = map (le_transition \<circ> snd) (ledger_rows_of db e)"

text \<open>
  The consistency of the two writes: ids are keys, every ledger row is valid, and the state
  column of each event is where its ledger rows lead from \<open>emerging\<close>.
\<close>

definition ledger_coherent :: "events_db \<Rightarrow> bool" where
  "ledger_coherent db \<longleftrightarrow>
     distinct (map ev_id (db_events db))
     \<and> (\<forall>(c, r) \<in> set (db_ledger db). post_init r = Inr r)
     \<and> (\<forall>e \<in> set (db_events db). ev_lifecycle_state e \<in> set LIFECYCLE_STATES
          \<and> machine_run ledger_step STATE_EMERGING (event_history db (ev_id e))
              = Some (ev_lifecycle_state e))"

text \<open>A scanned row still describes the event it was read from.\<close>

definition row_current :: "events_db \<Rightarrow> stats_row \<Rightarrow> bool" where
  "row_current db row \<longleftrightarrow>
     (\<exists>e \<in> set (db_events db). ev_id e = st_id row \<and> ev_lifecycle_state e = st_state row)"

lemma event_history_write:
  assumes "le_event_id r = st_id row"
  shows "event_history (write_transition db c row m r) e =
    event_history db e @ (if e = st_id row then [le_transition r] else [])"
  using assms by (simp add: event_history_def ledger_rows_of_def write_transition_def)

lemma events_write:
  "e' \<in> set (db_events (write_transition db c row m r)) \<Longrightarrow>
     \<exists>e \<in> set (db_events db). ev_id e' = ev_id e
       \<and> ev_lifecycle_state e' = (if ev_id e = st_id row then le_state_to r else ev_lifecycle_state e)"
  by (auto simp: write_transition_def)

lemma event_ids_write: "map ev_id (db_events (write_transition db c row m r)) = map ev_id (db_events db)"
  by (simp add: write_transition_def comp_def if_distrib cong: if_cong)

lemma ledger_write: "db_ledger (write_transition db c row m r) = db_ledger db @ [(c, r)]"
  by (simp add: write_transition_def)

lemma key_unique:
  "distinct (map k xs) \<Longrightarrow> x \<in> set xs \<Longrightarrow> y \<in> set xs \<Longrightarrow> k x = k y \<Longrightarrow> x = y"
  by (auto simp: distinct_map dest: inj_onD)

lemma coherent_write:
  assumes coh: "ledger_coherent db" and cur: "row_current db row" and ok: "post_init r = Inr r"
    and rid: "le_event_id r = st_id row" and rfrom: "le_state_from r = st_state row"
  shows "ledger_coherent (write_transition db c row m r)"
proof -
  have step: "ledger_step (st_state row) (le_transition r) = Some (le_state_to r)"
    using ok rfrom by (simp add: post_init_Inr ledger_step_Some)
  have "machine_run ledger_step STATE_EMERGING
      (event_history (write_transition db c row m r) (ev_id e')) = Some (ev_lifecycle_state e')
      \<and> ev_lifecycle_state e' \<in> set LIFECYCLE_STATES"
    if e': "e' \<in> set (db_events (write_transition db c row m r))" for e'
  proof -
    obtain e where e: "e \<in> set (db_events db)" "ev_id e' = ev_id e"
      and st: "ev_lifecycle_state e' = (if ev_id e = st_id row then le_state_to r else ev_lifecycle_state e)"
      using events_write [OF e'] by blast
    have old: "machine_run ledger_step STATE_EMERGING (event_history db (ev_id e)) = Some (ev_lifecycle_state e)"
      "ev_lifecycle_state e \<in> set LIFECYCLE_STATES"
      using coh e by (auto simp: ledger_coherent_def)
    show ?thesis
    proof (cases "ev_id e = st_id row")
      case True
      obtain f where "f \<in> set (db_events db)" "ev_id f = st_id row" "ev_lifecycle_state f = st_state row"
        using cur by (auto simp: row_current_def)
      moreover have "distinct (map ev_id (db_events db))"
        using coh by (simp add: ledger_coherent_def)
      ultimately have "ev_lifecycle_state e = st_state row"
        using True e key_unique [of ev_id "db_events db" e f] by simp
      then have "machine_run ledger_step STATE_EMERGING (event_history db (ev_id e)) = Some (st_state row)"
        using old by simp
      with True e st step show ?thesis
        by (simp add: event_history_write [OF rid] machine_run_append event_fsm.step_closed)
    next
      case False
      with e st old show ?thesis by (simp add: event_history_write [OF rid])
    qed
  qed
  moreover have "\<forall>(k, q) \<in> set (db_ledger (write_transition db c row m r)). post_init q = Inr q"
    using coh ok by (auto simp: ledger_coherent_def ledger_write)
  ultimately show ?thesis
    using coh by (simp add: ledger_coherent_def event_ids_write)
qed

text \<open>The loop: it ends without an error, keeps the tables coherent, and only appends.\<close>

lemma row_current_write:
  "row_current db row' \<Longrightarrow> st_id row' \<noteq> st_id row \<Longrightarrow> row_current (write_transition db c row m r) row'"
  by (force simp: row_current_def write_transition_def)



lemma maintain_rows_sound:
  assumes "ledger_coherent db" "distinct (map st_id rows)" "\<forall>row \<in> set rows. row_current db row"
  shows "\<exists>db' res' new. maintain_rows fmt now c fresh ctx ex i rows db res = Inr (db', res')
    \<and> ledger_coherent db' \<and> db_ledger db' = db_ledger db @ map (Pair c) new
    \<and> (\<forall>r \<in> set new. silence_dated now r) \<and> map ev_id (db_events db') = map ev_id (db_events db)"
  using assms
proof (induction rows arbitrary: i db res)
  case Nil
  have "maintain_rows fmt now c fresh ctx ex i [] db res = Inr (db, res)
    \<and> db_ledger db = db_ledger db @ map (Pair c) []" by simp
  with Nil show ?case by fastforce
next
  case (Cons row rows)
  note rest = Cons.prems(2,3)
  have "st_state row \<in> set LIFECYCLE_STATES"
    using Cons.prems by (auto simp: row_current_def ledger_coherent_def)
  then obtain out where out: "maintain_row fmt now c fresh ctx db row = Inr out"
    using maintain_row_total by blast
  have same: ?case if "ex i \<or> out = Orphan \<or> out = Quiet"
  proof -
    have "\<exists>res1. maintain_rows fmt now c fresh ctx ex i (row # rows) db res =
        maintain_rows fmt now c fresh ctx ex (Suc i) rows db res1"
      using that out by auto
    then obtain res1 where "maintain_rows fmt now c fresh ctx ex i (row # rows) db res =
        maintain_rows fmt now c fresh ctx ex (Suc i) rows db res1" by blast
    then show ?thesis using Cons.IH [of db "Suc i" res1] Cons.prems(1) rest by simp
  qed
  show ?case
  proof (cases "ex i \<or> out = Orphan \<or> out = Quiet")
    case False
    then obtain t db1 where wrote: "out = Wrote t db1" by (cases out) auto
    obtain m r where db1: "db1 = write_transition db c row m r" and r: "post_init r = Inr r"
      "le_event_id r = st_id row" "le_state_from r = st_state row" "silence_dated now r"
      using maintain_row_wrote [OF out [unfolded wrote]] by metis
    have coh: "ledger_coherent db1"
      unfolding db1 using Cons.prems r by (intro coherent_write) auto
    have cur: "\<forall>row' \<in> set rows. row_current db1 row'"
      unfolding db1 using rest by (auto intro!: row_current_write) (metis image_eqI)
    obtain db' res' new where IH:
      "maintain_rows fmt now c fresh ctx ex (Suc i) rows db1
         (res\<lparr>pass_transitions := pass_transitions res @ [t]\<rparr>) = Inr (db', res')"
      "ledger_coherent db'" "db_ledger db' = db_ledger db1 @ map (Pair c) new"
      "\<forall>r \<in> set new. silence_dated now r" "map ev_id (db_events db') = map ev_id (db_events db1)"
      using Cons.IH [OF coh _ cur] rest by fastforce
    have "maintain_rows fmt now c fresh ctx ex i (row # rows) db res = Inr (db', res')"
      using False out wrote IH(1) by simp
    moreover have "db_ledger db' = db_ledger db @ map (Pair c) (r # new)"
      using IH(3) by (simp add: db1 ledger_write)
    moreover have "\<forall>q \<in> set (r # new). silence_dated now q"
      using IH(4) r by simp
    moreover have "map ev_id (db_events db') = map ev_id (db_events db)"
      using IH(5) by (simp add: db1 event_ids_write)
    ultimately show ?thesis using IH(2) by blast
  qed (rule same)
qed

section \<open>The scan\<close>

lemma open_event_stats_rows:
  "\<exists>es. open_event_stats db at_time touched n = map (event_stats db at_time) es
     \<and> set es \<subseteq> set (db_events db) \<and> (distinct (map ev_id (db_events db)) \<longrightarrow> distinct (map ev_id es))"
proof -
  let ?keep = "\<lambda>e. ev_lifecycle_state e \<noteq> ''resolved'' \<or> ev_id e \<in> set touched
    \<or> st_link_since_ledger (event_stats db at_time e)"
  let ?es = "sort_key ev_changed_at (sort_key ev_id (filter ?keep (db_events db)))"
  have "distinct (map ev_id ?es)" if "distinct (map ev_id (db_events db))"
    using that by (simp add: distinct_map inj_on_def)
  then have "distinct (map ev_id (take n ?es))" if "distinct (map ev_id (db_events db))"
    using that by (simp add: take_map [symmetric])
  moreover have "set (take n ?es) \<subseteq> set (db_events db)"
    using set_take_subset [of n ?es] by auto
  ultimately show ?thesis
    unfolding open_event_stats_def take_map by blast
qed

lemma event_stats_id: "st_id (event_stats db now e) = ev_id e"
  by (simp add: event_stats_def Let_def)

lemma event_stats_state: "st_state (event_stats db now e) = ev_lifecycle_state e"
  by (simp add: event_stats_def Let_def)

lemma scan_current:
  assumes "distinct (map ev_id (db_events db))"
  shows "distinct (map st_id (open_event_stats db at_time touched n))
    \<and> (\<forall>row \<in> set (open_event_stats db at_time touched n). row_current db row)"
proof -
  obtain es where es: "open_event_stats db at_time touched n = map (event_stats db at_time) es"
    "set es \<subseteq> set (db_events db)" "distinct (map ev_id es)"
    using open_event_stats_rows assms by blast
  have "st_id \<circ> event_stats db at_time = ev_id"
    by (simp add: fun_eq_iff event_stats_id)
  with es show ?thesis
    by (auto simp: row_current_def event_stats_id event_stats_state)
qed

lemma evaluate_reactivated:
  "evaluate_transition s m = Inr (Some t) \<Longrightarrow>
     (s = STATE_RESOLVED \<longleftrightarrow> t = TRANSITION_REACTIVATED) \<and> (t = TRANSITION_REACTIVATED \<longrightarrow> new_link_arrived m)"
  by (auto simp: evaluate_transition_def LIFECYCLE_STATES_def Let_def split: if_splits prod.splits)

lemma leave_resolved:
  "machine_run ledger_step STATE_RESOLVED ts = Some u \<Longrightarrow> ts = [] \<or> hd ts = TRANSITION_REACTIVATED"
  by (cases ts) (auto simp: ledger_step_Some next_state_Inr ledger_tables split: option.splits)

lemma into_resolved: "ledger_step s TRANSITION_RESOLVED = Some u \<Longrightarrow> u = STATE_RESOLVED"
  by (auto simp: ledger_step_Some next_state_Inr ledger_tables)

section \<open>Properties\<close>

text \<open>C40: A lifecycle maintenance pass over coherent tables never raises: no trigger it
  evaluates is refused by the state machine and no ledger row it builds fails validation. It
  leaves the tables coherent again (the ledger of every event leads from emerging to the state
  in its row, every row valid), it only appends to the ledger, and every silence row it
  appends is evidence-free and dated at or before the pass's clock.\<close>

theorem maintain_event_lifecycle_coherent:
  assumes "ledger_coherent db"
  shows "\<exists>db' res new. maintain_event_lifecycle fmt now created newly ctx limit exhausted db = Inr (db', res)
    \<and> ledger_coherent db' \<and> db_ledger db' = db_ledger db @ map (Pair created) new
    \<and> (\<forall>r \<in> set new. silence_dated now r)"
proof -
  have keys: "distinct (map ev_id (db_events db))"
    using assms by (simp add: ledger_coherent_def)
  show ?thesis
    unfolding maintain_event_lifecycle_def Let_def
    using maintain_rows_sound [OF assms] scan_current [OF keys] by metis
qed

theorem maintain_event_lifecycle_coherent_witness:
  "\<exists>db' res new.
     maintain_event_lifecycle (\<lambda>_ _. ''0'') (seconds 500000) 7 [] (\<lambda>_. False) 10 (\<lambda>_. False)
       \<lparr>db_events = [\<lparr>ev_id = 1, ev_lifecycle_state = ''emerging'', ev_changed_at = 0,
          ev_confidence = None, ev_signal_count = 0, ev_distinct_source_count = 0\<rparr>],
        db_signal_links = [\<lparr>sel_event = 1, sel_signal = 4, sel_source = ''gdelt'',
          sel_linked_at = 0, sel_created_at = 0\<rparr>],
        db_entity_links = [], db_ledger = []\<rparr> = Inr (db', res)
     \<and> ledger_coherent db' \<and> db_ledger db' = map (Pair 7) new
     \<and> (\<forall>r \<in> set new. silence_dated (seconds 500000) r)"
  using maintain_event_lifecycle_coherent [of "\<lparr>db_events = [\<lparr>ev_id = 1,
      ev_lifecycle_state = ''emerging'', ev_changed_at = 0, ev_confidence = None,
      ev_signal_count = 0, ev_distinct_source_count = 0\<rparr>],
      db_signal_links = [\<lparr>sel_event = 1, sel_signal = 4, sel_source = ''gdelt'',
        sel_linked_at = 0, sel_created_at = 0\<rparr>], db_entity_links = [], db_ledger = []\<rparr>"
      "\<lambda>_ _. ''0''" "seconds 500000" 7 "[]" "\<lambda>_. False" 10 "\<lambda>_. False"]
  by (simp add: ledger_coherent_def event_history_def ledger_rows_of_def LIFECYCLE_STATES_def)

text \<open>The trigger evaluation proposes only transitions the state machine accepts, and each
  of them really moves the event. A resolved event is left by exactly one transition,
  reactivated, and that one fires only when a new link arrived: silence never reactivates.\<close>

theorem evaluate_transition_legal:
  assumes "evaluate_transition s m = Inr (Some t)"
  shows "(\<exists>u. next_state s t = Inr u \<and> u \<noteq> s)
    \<and> (s = STATE_RESOLVED \<longleftrightarrow> t = TRANSITION_REACTIVATED)
    \<and> (t = TRANSITION_REACTIVATED \<longrightarrow> new_link_arrived m)"
  using evaluate_legal [OF assms] evaluate_reactivated [OF assms] by blast

theorem evaluate_transition_legal_witness:
  "\<exists>u. next_state ''developing'' ''advanced'' = Inr u \<and> u \<noteq> ''developing''"
  using evaluate_transition_legal [of "''developing''" "\<lparr>signal_count = 5, confidence = 1,
    link_rate_24h = 0, baseline_rate_7d = 0, new_actor_or_geo = False, new_link_arrived = False,
    silence_hours = 0\<rparr>" "''advanced''"]
  by (simp add: evaluate_transition_def LIFECYCLE_STATES_def silence_bounds
      DEVELOPING_ADVANCE_SIGNAL_COUNT_def DEVELOPING_ADVANCE_CONFIDENCE_def)

text \<open>Silence closes an event once: in any legal sequence of ledger transitions, between
  two resolved rows of the same event stands a reactivated one, and it is the very next row
  after the first.\<close>

lemma resolved_only_after_reactivated:
  assumes "machine_run ledger_step s (ts @ TRANSITION_RESOLVED # us) = Some v" and "us \<noteq> []"
  shows "hd us = TRANSITION_REACTIVATED"
proof -
  obtain t u where "ledger_step t TRANSITION_RESOLVED = Some u" "machine_run ledger_step u us = Some v"
    using assms(1) by (auto simp: machine_run_append split: option.splits)
  with assms(2) show ?thesis
    using leave_resolved into_resolved by blast
qed

text \<open>The acceleration trigger and the stabilisation band meet at one point: a measurement
  without silence and without a new actor accelerates an active event and, unchanged, stabilises
  it again on the next tick exactly when its 24h rate is twice a positive baseline.\<close>

lemma accelerate_then_stabilise:
  assumes "silence_hours m < ACTIVE_SILENCE_HOURS" and "\<not> new_actor_or_geo m"
  shows "evaluate_transition STATE_ACTIVE m = Inr (Some TRANSITION_ACCELERATED)
      \<and> evaluate_transition STATE_EVOLVING m = Inr (Some TRANSITION_STABILISED)
    \<longleftrightarrow> link_rate_24h m = 2 * baseline_rate_7d m \<and> 0 < baseline_rate_7d m"
  using assms
  by (auto simp: evaluate_transition_def LIFECYCLE_STATES_def silence_bounds STABILISE_RATE_BAND_def
      ACCELERATE_RATE_FACTOR_def)

end
