(* ===== verification/Signals.thy ===== *)
theory Signals
  imports Prelude
begin

text \<open>
  A signal as the subscription and trigger planes read it: the keys of the substrate row (or of
  the published envelope, which carries the same keys) that the modelled code looks up. A key
  that is absent or null is \<open>None\<close>; ids are the strings \<open>str\<close> gives. A payload
  is a dict, a JSON text (represented by what \<^verbatim>\<open>json.loads\<close> makes of it, \<open>None\<close> when it
  does not parse), or any other value. The readers of the row shared by
  \<open>runtime/triggers/coalescer.py\<close> and \<open>runtime/subscription/filter.py\<close> are here.
\<close>

datatype json =
    J_null
  | J_bool bool
  | J_int int
  | J_float py_str
  | J_str py_str
  | J_list "json list"
  | J_object "(py_str \<times> json) list"

type_synonym json_dict = "(py_str \<times> json) list"

datatype payload = P_dict json_dict | P_text "json option" | P_other

record signal_row =
  sig_id :: "py_str option"
  sig_canonical_signal_id :: "py_str option"
  sig_source_id :: "py_str option"
  sig_owner_tenant :: "py_str option"
  sig_geo :: "py_str list option"
  sig_tags :: "py_str list option"
  sig_entity_classes :: "py_str list option"
  sig_language :: "py_str option"
  sig_modality :: "py_str option"
  sig_origin_class :: "py_str option"
  sig_severity :: "json option"
  sig_source_credibility :: "json option"
  sig_fetched_at :: "instant option"
  sig_payload :: "payload option"

definition payload_dict :: "signal_row \<Rightarrow> json_dict" where
  "payload_dict row =
     (case sig_payload row of
        Some (P_dict d) \<Rightarrow> d
      | Some (P_text (Some (J_object d))) \<Rightarrow> d
      | _ \<Rightarrow> [])"

fun json_str :: "json option \<Rightarrow> py_str option" where
  "json_str (Some (J_str s)) = Some s"
| "json_str _ = None"

lemma json_str_Some: "json_str v = Some s \<longleftrightarrow> v = Some (J_str s)"
  by (cases v rule: json_str.cases) simp_all

lemma payload_dict_dict: "sig_payload row = Some (P_dict d) \<Longrightarrow> payload_dict row = d"
  by (simp add: payload_dict_def)

end
