(* ===== verification/TriggerPolicy.thy ===== *)
theory TriggerPolicy
  imports Prelude
begin

text \<open>
  The trigger decision kernel, \<open>runtime/triggers/policy.py\<close>: the policy of an
  (analyst, target) pair, its dirty-state accumulator, the two pure mutations and the gate
  evaluation, and the mapping from an analyst descriptor to a policy. Durations are seconds as
  in the source, instants microseconds. The Python set of seen ids is a HOL set, its insertion
  order the list the source keeps beside it. The seen cap is a natural: with a negative cap the
  source's eviction loop would pop from an empty list.
\<close>

section \<open>Severity\<close>

definition SEVERITY_ORDER :: "(py_str \<times> int) list" where
  "SEVERITY_ORDER =
    [(''info'', 0), (''low'', 1), (''medium'', 2), (''high'', 3), (''critical'', 4)]"

text \<open>The argument is \<open>None\<close> for a value that is not a string.\<close>

definition severity_rank :: "py_str option \<Rightarrow> int" where
  "severity_rank v =
     (case v of
        None \<Rightarrow> -1
      | Some s \<Rightarrow> (case map_of SEVERITY_ORDER (py_lower s) of None \<Rightarrow> -1 | Some r \<Rightarrow> r))"

datatype trigger_reason =
  R_SEVERITY | R_ACCUMULATION | R_CADENCE | R_COOLDOWN | R_NOT_DIRTY | R_BELOW_THRESHOLD

definition fire_reasons :: "trigger_reason list" where
  "fire_reasons = [R_SEVERITY, R_ACCUMULATION, R_CADENCE]"

section \<open>Policies\<close>

record trigger_policy =
  cadence_seconds :: int
  accumulation_threshold :: int
  severity_gate :: "py_str option"
  cooldown_seconds :: int
  is_llm :: bool
  allow_llm_severity_wake :: bool
  min_llm_batch :: int

definition effective_accumulation :: "trigger_policy \<Rightarrow> int" where
  "effective_accumulation p =
     (let base = max 1 (accumulation_threshold p) in
      if is_llm p then max base (min_llm_batch p) else base)"

definition severity_gate_rank :: "trigger_policy \<Rightarrow> int" where
  "severity_gate_rank p =
     (case severity_gate p of
        None \<Rightarrow> 99
      | Some g \<Rightarrow>
          if is_llm p \<and> \<not> allow_llm_severity_wake p then 99
          else let rank = severity_rank (Some g) in if rank \<ge> 0 then rank else 99)"

section \<open>The accumulator\<close>

record trigger_accumulator =
  pending_count :: int
  max_pending_rank :: int
  last_fired_at :: "instant option"
  first_dirty_at :: "instant option"
  seen_signal_ids :: "py_str set"
  seen_cap :: nat
  seen_order :: "py_str list"

definition zero_accumulator :: "nat \<Rightarrow> trigger_accumulator" where
  "zero_accumulator cap =
     \<lparr>pending_count = 0, max_pending_rank = -1, last_fired_at = None, first_dirty_at = None,
      seen_signal_ids = {}, seen_cap = cap, seen_order = []\<rparr>"

definition cooldown_until :: "trigger_accumulator \<Rightarrow> trigger_policy \<Rightarrow> instant option" where
  "cooldown_until acc p =
     (case last_fired_at acc of
        None \<Rightarrow> None
      | Some t \<Rightarrow> if cooldown_seconds p \<le> 0 then None else Some (t + seconds (cooldown_seconds p)))"

definition cadence_due_at :: "trigger_accumulator \<Rightarrow> trigger_policy \<Rightarrow> instant option" where
  "cadence_due_at acc p =
     (if cadence_seconds p \<le> 0 then None
      else let anchor = (case last_fired_at acc of None \<Rightarrow> first_dirty_at acc | Some t \<Rightarrow> Some t) in
           case anchor of
             None \<Rightarrow> None
           | Some t \<Rightarrow> Some (t + seconds (cadence_seconds p)))"

record trigger_decision =
  should_fire :: bool
  td_reason :: trigger_reason
  td_pending_count :: int
  severity_wake :: bool

text \<open>The eviction loop: drop the oldest ids while the order is longer than the cap.\<close>

fun evict :: "nat \<Rightarrow> py_str set \<Rightarrow> py_str list \<Rightarrow> py_str set \<times> py_str list" where
  "evict cap seen [] = (seen, [])"
| "evict cap seen (x # order) =
     (if length (x # order) > cap then evict cap (seen - {x}) order else (seen, x # order))"

definition apply_dirty ::
  "trigger_accumulator \<Rightarrow> py_str \<Rightarrow> int \<Rightarrow> instant option \<Rightarrow> trigger_accumulator \<times> bool" where
  "apply_dirty acc signal_id rank now =
     (if signal_id \<in> seen_signal_ids acc then (acc, False)
      else let (seen, order) = evict (seen_cap acc) (insert signal_id (seen_signal_ids acc))
                                 (seen_order acc @ [signal_id]);
               first_dirty = (if first_dirty_at acc = None \<and> pending_count acc = 0 then now
                              else first_dirty_at acc)
           in (\<lparr>pending_count = pending_count acc + 1,
                max_pending_rank = max (max_pending_rank acc) rank,
                last_fired_at = last_fired_at acc,
                first_dirty_at = first_dirty,
                seen_signal_ids = seen,
                seen_cap = seen_cap acc,
                seen_order = order\<rparr>, True))"

definition apply_fire :: "trigger_accumulator \<Rightarrow> instant \<Rightarrow> trigger_accumulator" where
  "apply_fire acc fired_at =
     \<lparr>pending_count = 0, max_pending_rank = -1, last_fired_at = Some fired_at,
      first_dirty_at = None, seen_signal_ids = {}, seen_cap = seen_cap acc, seen_order = []\<rparr>"

section \<open>The decision kernel\<close>

definition decide :: "trigger_accumulator \<Rightarrow> trigger_policy \<Rightarrow> instant \<Rightarrow> trigger_decision" where
  "decide acc p now =
     (let verdict = (\<lambda>fire reason wake.
            \<lparr>should_fire = fire, td_reason = reason, td_pending_count = pending_count acc,
             severity_wake = wake\<rparr>);
          held = (case cooldown_until acc p of None \<Rightarrow> False | Some t \<Rightarrow> now < t);
          has_pending = (pending_count acc > 0);
          cadence_due = (case cadence_due_at acc p of None \<Rightarrow> False | Some t \<Rightarrow> now \<ge> t)
      in if held then verdict False R_COOLDOWN False
         else if has_pending \<and> max_pending_rank acc \<ge> severity_gate_rank p
           then verdict True R_SEVERITY True
         else if pending_count acc \<ge> effective_accumulation p
           then verdict True R_ACCUMULATION False
         else if has_pending \<and> cadence_due then verdict True R_CADENCE False
         else verdict False (if has_pending then R_BELOW_THRESHOLD else R_NOT_DIRTY) False)"

section \<open>From a descriptor to a policy\<close>

text \<open>
  The cadence block's two fields the mapping reads. A fallback schedule is its
  \<open>raw\<close> attribute, when it has one, and its string form.
\<close>

record cadence_block =
  cb_cooldown_seconds :: "int option"
  cb_fallback_schedule :: "(py_str option \<times> py_str) option"

definition CRON_TO_SECONDS :: "(py_str \<times> int) list" where
  "CRON_TO_SECONDS =
    [(''* * * * *'', 60), (''*/5 * * * *'', 300), (''*/10 * * * *'', 600), (''*/15 * * * *'', 900),
     (''*/30 * * * *'', 1800), (''0 * * * *'', 3600), (''0 */6 * * *'', 21600),
     (''0 0 * * *'', 86400)]"

definition coarse_cadence_seconds :: "(py_str option \<times> py_str) option \<Rightarrow> int" where
  "coarse_cadence_seconds schedule =
     (case schedule of
        None \<Rightarrow> 0
      | Some (raw, text_form) \<Rightarrow>
          let s = (if truthy raw then the raw else text_form) in
          (case map_of CRON_TO_SECONDS (py_strip s) of None \<Rightarrow> 0 | Some n \<Rightarrow> n))"

definition DEFAULT_DET_ACCUMULATION :: int where "DEFAULT_DET_ACCUMULATION = 1"
definition DEFAULT_LLM_MIN_BATCH :: int where "DEFAULT_LLM_MIN_BATCH = 2"

definition policy_from_descriptor ::
  "cadence_block \<Rightarrow> py_str \<Rightarrow> int option \<Rightarrow> py_str option \<Rightarrow> bool \<Rightarrow> trigger_policy" where
  "policy_from_descriptor cadence method_kind threshold gate allow_wake =
     (let llm = (method_kind \<notin> {''deterministic'', ''stat_forecaster'', ''dspy_compile''}) in
      \<lparr>cadence_seconds = coarse_cadence_seconds (cb_fallback_schedule cadence),
       accumulation_threshold =
         (case threshold of
            None \<Rightarrow> if llm then DEFAULT_LLM_MIN_BATCH else DEFAULT_DET_ACCUMULATION
          | Some n \<Rightarrow> n),
       severity_gate = gate,
       cooldown_seconds = (case cb_cooldown_seconds cadence of None \<Rightarrow> 0 | Some n \<Rightarrow> n),
       is_llm = llm,
       allow_llm_severity_wake = allow_wake,
       min_llm_batch = DEFAULT_LLM_MIN_BATCH\<rparr>)"

section \<open>Lemmas\<close>

lemma severity_rank_bounds: "-1 \<le> severity_rank v \<and> severity_rank v \<le> 4"
  by (auto simp: severity_rank_def SEVERITY_ORDER_def split: option.splits if_splits
      dest!: map_of_SomeD)

lemma effective_accumulation_pos: "1 \<le> effective_accumulation p"
  by (simp add: effective_accumulation_def Let_def le_max_iff_disj)

lemma severity_gate_rank_bounds: "0 \<le> severity_gate_rank p"
  by (simp add: severity_gate_rank_def Let_def split: option.split)

definition in_cooldown :: "trigger_accumulator \<Rightarrow> trigger_policy \<Rightarrow> instant \<Rightarrow> bool" where
  "in_cooldown acc p now \<longleftrightarrow> (\<exists>t. cooldown_until acc p = Some t \<and> now < t)"

definition cadence_reached :: "trigger_accumulator \<Rightarrow> trigger_policy \<Rightarrow> instant \<Rightarrow> bool" where
  "cadence_reached acc p now \<longleftrightarrow> (\<exists>t. cadence_due_at acc p = Some t \<and> t \<le> now)"

lemma decide_alt:
  "decide acc p now =
     (if in_cooldown acc p now then
        \<lparr>should_fire = False, td_reason = R_COOLDOWN, td_pending_count = pending_count acc, severity_wake = False\<rparr>
      else if 0 < pending_count acc \<and> severity_gate_rank p \<le> max_pending_rank acc then
        \<lparr>should_fire = True, td_reason = R_SEVERITY, td_pending_count = pending_count acc, severity_wake = True\<rparr>
      else if effective_accumulation p \<le> pending_count acc then
        \<lparr>should_fire = True, td_reason = R_ACCUMULATION, td_pending_count = pending_count acc, severity_wake = False\<rparr>
      else if 0 < pending_count acc \<and> cadence_reached acc p now then
        \<lparr>should_fire = True, td_reason = R_CADENCE, td_pending_count = pending_count acc, severity_wake = False\<rparr>
      else
        \<lparr>should_fire = False,
         td_reason = (if 0 < pending_count acc then R_BELOW_THRESHOLD else R_NOT_DIRTY),
         td_pending_count = pending_count acc, severity_wake = False\<rparr>)"
  by (auto simp: decide_def in_cooldown_def cadence_reached_def Let_def split: option.split)

lemma decide_pending: "td_pending_count (decide acc p now) = pending_count acc"
  by (simp add: decide_alt)

lemma decide_fire_pending: "should_fire (decide acc p now) \<Longrightarrow> 0 < pending_count acc"
  using effective_accumulation_pos [of p] by (simp add: decide_alt split: if_splits)

lemma decide_fire_spacing:
  assumes "should_fire (decide acc p now)" "last_fired_at acc = Some t" "0 < cooldown_seconds p"
  shows "t + seconds (cooldown_seconds p) \<le> now"
  using assms by (simp add: decide_alt in_cooldown_def cooldown_until_def split: if_splits)

text \<open>The accumulator's invariant: the set and the list of seen ids agree, no id is listed
  twice, the list respects the cap, and the counter is at least its length.\<close>

definition acc_ok :: "trigger_accumulator \<Rightarrow> bool" where
  "acc_ok acc \<longleftrightarrow>
     seen_signal_ids acc = set (seen_order acc) \<and> distinct (seen_order acc)
     \<and> length (seen_order acc) \<le> seen_cap acc
     \<and> int (length (seen_order acc)) \<le> pending_count acc \<and> -1 \<le> max_pending_rank acc"

lemma evict_drop:
  "distinct order \<Longrightarrow> evict cap (set order) order =
     (set (drop (length order - cap) order), drop (length order - cap) order)"
proof (induction cap "set order" order rule: evict.induct)
  case (2 cap x order)
  then have "set (x # order) - {x} = set order" by auto
  with 2 show ?case by (auto simp: Suc_diff_le)
qed simp

lemma apply_dirty_seen:
  "signal_id \<in> seen_signal_ids acc \<Longrightarrow> apply_dirty acc signal_id r now = (acc, False)"
  by (simp add: apply_dirty_def)

lemma apply_dirty_new:
  assumes "acc_ok acc" "signal_id \<notin> seen_signal_ids acc"
  shows "apply_dirty acc signal_id r now =
    (acc\<lparr>pending_count := pending_count acc + 1,
         max_pending_rank := max (max_pending_rank acc) r,
         first_dirty_at := (if first_dirty_at acc = None \<and> pending_count acc = 0 then now
                            else first_dirty_at acc),
         seen_signal_ids := set (drop (length (seen_order acc) + 1 - seen_cap acc) (seen_order acc @ [signal_id])),
         seen_order := drop (length (seen_order acc) + 1 - seen_cap acc) (seen_order acc @ [signal_id])\<rparr>, True)"
proof -
  have "distinct (seen_order acc @ [signal_id])"
    "insert signal_id (seen_signal_ids acc) = set (seen_order acc @ [signal_id])"
    using assms by (auto simp: acc_ok_def)
  then show ?thesis
    using assms(2) evict_drop [of "seen_order acc @ [signal_id]" "seen_cap acc"]
    by (simp add: apply_dirty_def Let_def)
qed

lemma acc_ok_zero: "acc_ok (zero_accumulator cap)"
  by (simp add: acc_ok_def zero_accumulator_def)

lemma acc_ok_fire: "acc_ok (apply_fire acc t)"
  by (simp add: acc_ok_def apply_fire_def)

lemma acc_ok_dirty:
  assumes "acc_ok acc" and "-1 \<le> r"
  shows "acc_ok (fst (apply_dirty acc s r now))"
proof (cases "s \<in> seen_signal_ids acc")
  case False
  have "distinct (seen_order acc @ [s])"
    using assms(1) False by (auto simp: acc_ok_def)
  with apply_dirty_new [OF assms(1) False] assms show ?thesis
    by (auto simp: acc_ok_def distinct_drop le_max_iff_disj simp del: drop_append)
qed (simp add: apply_dirty_seen assms)

lemma apply_dirty_anchor: "last_fired_at (fst (apply_dirty acc s r now)) = last_fired_at acc"
  by (simp add: apply_dirty_def Let_def split: prod.split)

lemma apply_dirty_count:
  "pending_count (fst (apply_dirty acc s r now)) =
     pending_count acc + (if snd (apply_dirty acc s r now) then 1 else 0)"
  by (simp add: apply_dirty_def Let_def split: prod.split)

lemma apply_dirty_flag: "snd (apply_dirty acc s r now) \<longleftrightarrow> s \<notin> seen_signal_ids acc"
  by (simp add: apply_dirty_def Let_def split: prod.split)

type_synonym delivery = "py_str \<times> int \<times> instant option"

fun deliveries :: "trigger_accumulator \<Rightarrow> delivery list \<Rightarrow> trigger_accumulator" where
  "deliveries acc [] = acc"
| "deliveries acc ((s, r, now) # ds) = deliveries (fst (apply_dirty acc s r now)) ds"

lemma deliveries_window:
  assumes "acc_ok acc" "length (seen_order acc) + card (set (map fst ds) - set (seen_order acc)) \<le> seen_cap acc"
    "\<forall>d \<in> set ds. -1 \<le> fst (snd d)"
  shows "seen_order (deliveries acc ds) = seen_order acc @ keep_first id (seen_order acc) (map fst ds)
    \<and> pending_count (deliveries acc ds) =
        pending_count acc + int (length (keep_first id (seen_order acc) (map fst ds)))
    \<and> last_fired_at (deliveries acc ds) = last_fired_at acc"
  using assms
proof (induction ds arbitrary: acc)
  case (Cons d ds)
  obtain s r now where d: "d = (s, r, now)" by (cases d)
  let ?acc = "fst (apply_dirty acc s r now)"
  have ok: "acc_ok ?acc" using Cons.prems d by (simp add: acc_ok_dirty)
  show ?case
  proof (cases "s \<in> set (seen_order acc)")
    case True
    then have "?acc = acc" using Cons.prems(1) by (simp add: apply_dirty_seen acc_ok_def)
    moreover have "set (map fst (d # ds)) - set (seen_order acc) = set (map fst ds) - set (seen_order acc)"
      using True d by auto
    ultimately show ?thesis using Cons.IH [of acc] Cons.prems d True by simp
  next
    case False
    have split: "set (map fst (d # ds)) - set (seen_order acc) =
        insert s (set (map fst ds) - set (seen_order acc @ [s]))"
      using False d by auto
    then have room: "length (seen_order acc) + 1 + card (set (map fst ds) - set (seen_order acc @ [s])) \<le> seen_cap acc"
      using Cons.prems(2) by simp
    then have new: "seen_order ?acc = seen_order acc @ [s]" "pending_count ?acc = pending_count acc + 1"
      "seen_cap ?acc = seen_cap acc" "last_fired_at ?acc = last_fired_at acc"
      using apply_dirty_new [OF Cons.prems(1), of s r now] False Cons.prems(1) by (auto simp: acc_ok_def)
    have "keep_first id (s # seen_order acc) (map fst ds) = keep_first id (seen_order acc @ [s]) (map fst ds)"
      by (rule keep_first_seen_cong) auto
    with Cons.IH [OF ok] room new False d Cons.prems(3) show ?thesis by (simp add: id_def)
  qed
qed simp

section \<open>Properties\<close>

text \<open>The kernel's gates, in full. A pair fires exactly when it is outside its cooldown
  window, has something pending, and its severity gate is reached, or its effective accumulation
  threshold is, or its cadence is due. The reported reason is a fire reason exactly for a fire, and
  the severity-wake flag is set exactly when the severity gate was the one that fired.\<close>

theorem decide_fires_iff:
  "(should_fire (decide acc p now) \<longleftrightarrow>
      \<not> in_cooldown acc p now \<and> 0 < pending_count acc \<and>
      (severity_gate_rank p \<le> max_pending_rank acc
       \<or> effective_accumulation p \<le> pending_count acc \<or> cadence_reached acc p now))
   \<and> (should_fire (decide acc p now) \<longleftrightarrow> td_reason (decide acc p now) \<in> set fire_reasons)
   \<and> (severity_wake (decide acc p now) \<longleftrightarrow> td_reason (decide acc p now) = R_SEVERITY)"
  using effective_accumulation_pos [of p] by (auto simp: decide_alt fire_reasons_def)

lemma llm_policy_gates:
  assumes "m \<notin> {''deterministic'', ''stat_forecaster'', ''dspy_compile''}"
  shows "severity_gate_rank (policy_from_descriptor cb m thr gate False) = 99"
    and "2 \<le> effective_accumulation (policy_from_descriptor cb m thr gate False)"
  using assms
  by (auto simp: policy_from_descriptor_def severity_gate_rank_def effective_accumulation_def
      DEFAULT_LLM_MIN_BATCH_def Let_def le_max_iff_disj split: option.splits)

text \<open>The LLM guard. Under the policy of an LLM-bearing method without the severity opt-in,
  the severity gate never fires and the accumulation gate never fires on fewer than two signals;
  on a single pending signal the pair fires exactly when the cadence is due outside the cooldown,
  so the cadence gate is the one way an LLM analyst runs on one signal.\<close>

theorem llm_fires_on_batches:
  assumes "method_kind \<notin> {''deterministic'', ''stat_forecaster'', ''dspy_compile''}"
    and "max_pending_rank acc \<le> 4"
    and "p = policy_from_descriptor cadence method_kind threshold gate False"
  shows "td_reason (decide acc p now) \<noteq> R_SEVERITY
    \<and> (td_reason (decide acc p now) = R_ACCUMULATION \<longrightarrow> 2 \<le> pending_count acc)
    \<and> (pending_count acc = 1 \<longrightarrow>
        (should_fire (decide acc p now) \<longleftrightarrow> cadence_reached acc p now \<and> \<not> in_cooldown acc p now))"
  using assms(2) llm_policy_gates [OF assms(1), of cadence threshold gate]
  unfolding assms(3) by (auto simp: decide_alt)

theorem llm_fires_on_batches_witness:
  "should_fire (decide (fst (apply_dirty (zero_accumulator 10) ''s1'' 4 (Some 0)))
      (policy_from_descriptor \<lparr>cb_cooldown_seconds = None, cb_fallback_schedule = Some (None, ''* * * * *'')\<rparr>
         ''llm'' None (Some ''low'') False) (seconds 60))"
proof -
  let ?acc = "fst (apply_dirty (zero_accumulator 10) ''s1'' 4 (Some 0))"
  have acc: "max_pending_rank ?acc \<le> 4" "pending_count ?acc = 1" "first_dirty_at ?acc = Some 0"
    "last_fired_at ?acc = None"
    by (simp_all add: apply_dirty_def zero_accumulator_def)
  then have "cadence_reached ?acc (policy_from_descriptor
      \<lparr>cb_cooldown_seconds = None, cb_fallback_schedule = Some (None, ''* * * * *'')\<rparr>
         ''llm'' None (Some ''low'') False) (seconds 60)"
    by (simp add: cadence_reached_def cadence_due_at_def policy_from_descriptor_def
        coarse_cadence_seconds_def CRON_TO_SECONDS_def py_strip_def py_space_def)
  moreover have "\<not> in_cooldown ?acc (policy_from_descriptor
      \<lparr>cb_cooldown_seconds = None, cb_fallback_schedule = Some (None, ''* * * * *'')\<rparr>
         ''llm'' None (Some ''low'') False) (seconds 60)"
    using acc by (simp add: in_cooldown_def cooldown_until_def)
  ultimately show ?thesis
    using llm_fires_on_batches [OF _ acc(1) refl, of "''llm''" "\<lparr>cb_cooldown_seconds = None,
        cb_fallback_schedule = Some (None, ''* * * * *'')\<rparr>" None "Some ''low''" "seconds 60"] acc
    by simp
qed

text \<open>Alias-no-double-wake. After a fire, whatever deliveries the next window receives,
  repeated and in any order, the pending counter is the number of distinct canonical ids among
  them, as long as those fit under the seen cap; the fire anchor does not move.\<close>

theorem window_counts_distinct_ids:
  assumes "card (set (map fst ds)) \<le> seen_cap acc" and "\<forall>d \<in> set ds. -1 \<le> fst (snd d)"
  shows "pending_count (deliveries (apply_fire acc t) ds) = int (card (set (map fst ds)))
    \<and> last_fired_at (deliveries (apply_fire acc t) ds) = Some t"
proof -
  have fresh: "seen_order (apply_fire acc t) = []" "pending_count (apply_fire acc t) = 0"
    "seen_cap (apply_fire acc t) = seen_cap acc" "last_fired_at (apply_fire acc t) = Some t"
    by (simp_all add: apply_fire_def)
  have "length (keep_first id [] (map fst ds)) = card (set (map fst ds))"
    using distinct_card [OF keep_first_distinct [of id "[]" "map fst ds"]]
      keep_first_keys [of id "[]" "map fst ds"] by simp
  then show ?thesis
    using deliveries_window [OF acc_ok_fire [of acc t], of ds] assms fresh by simp
qed

theorem window_counts_distinct_ids_witness:
  "pending_count (deliveries (apply_fire (zero_accumulator 10) 5)
     [(''a'', 2, None), (''b'', 0, None), (''a'', 2, None)]) = 2"
proof -
  have "card (set (map fst [(''a'', 2::int, None :: instant option), (''b'', 0, None), (''a'', 2, None)])) = 2"
    by (simp add: insert_absorb insert_commute)
  then show ?thesis
    using window_counts_distinct_ids [of "[(''a'', 2, None), (''b'', 0, None), (''a'', 2, None)]"
        "zero_accumulator 10" 5]
    by (simp add: zero_accumulator_def del: deliveries.simps)
qed

end
