(* ===== verification/TriggerState.thy ===== *)
theory TriggerState
  imports TriggerPolicy
begin

text \<open>
  The durable dirty-state table \<open>public.trigger_state\<close> and its accessor,
  \<open>runtime/triggers/state.py\<close>. The table is an association list keyed by
  (analyst id, target id); each SQL statement is one definition, so that a theory of
  interleavings can put other workers between the two statements of \<^verbatim>\<open>claim_fire\<close>.
  The database's \<open>NOW()\<close> is an argument. The theory ends with the interface the
  coalescer relies on, a compare-and-set anchor per key, interpreted on these statements.
\<close>

section \<open>The table\<close>

type_synonym pair_key = "py_str \<times> py_str"

record trigger_row =
  ts_tenant :: py_str
  ts_pending_count :: int
  ts_max_pending_rank :: int
  ts_last_fired_at :: "instant option"
  ts_first_dirty_at :: "instant option"
  ts_seen_signal_ids :: "py_str list"
  ts_fire_count :: int
  ts_updated_at :: instant

type_synonym trigger_table = "(pair_key \<times> trigger_row) list"

text \<open>The row an INSERT that names only the key creates: the column defaults.\<close>

definition default_row :: "instant \<Rightarrow> trigger_row" where
  "default_row db_now =
     \<lparr>ts_tenant = ''default'', ts_pending_count = 0, ts_max_pending_rank = -1,
      ts_last_fired_at = None, ts_first_dirty_at = None, ts_seen_signal_ids = [],
      ts_fire_count = 0, ts_updated_at = db_now\<rparr>"

section \<open>The statements\<close>

definition get_acc :: "trigger_table \<Rightarrow> pair_key \<Rightarrow> nat \<Rightarrow> trigger_accumulator" where
  "get_acc t k cap =
     (case map_of t k of
        None \<Rightarrow> zero_accumulator cap
      | Some row \<Rightarrow>
          \<lparr>pending_count = ts_pending_count row,
           max_pending_rank = ts_max_pending_rank row,
           last_fired_at = ts_last_fired_at row,
           first_dirty_at = ts_first_dirty_at row,
           seen_signal_ids = set (ts_seen_signal_ids row),
           seen_cap = cap,
           seen_order = ts_seen_signal_ids row\<rparr>)"

definition save_dirty ::
  "instant \<Rightarrow> trigger_table \<Rightarrow> pair_key \<Rightarrow> py_str \<Rightarrow> trigger_accumulator \<Rightarrow> trigger_table" where
  "save_dirty db_now t k tenant acc =
     (case map_of t k of
        None \<Rightarrow>
          AList.update k
            \<lparr>ts_tenant = tenant, ts_pending_count = pending_count acc,
             ts_max_pending_rank = max_pending_rank acc, ts_last_fired_at = last_fired_at acc,
             ts_first_dirty_at = first_dirty_at acc, ts_seen_signal_ids = seen_order acc,
             ts_fire_count = 0, ts_updated_at = db_now\<rparr> t
      | Some row \<Rightarrow>
          AList.update k
            (row\<lparr>ts_tenant := tenant, ts_pending_count := pending_count acc,
                 ts_max_pending_rank := max_pending_rank acc, ts_first_dirty_at := first_dirty_at acc,
                 ts_seen_signal_ids := seen_order acc, ts_updated_at := db_now\<rparr>) t)"

definition claim_insert :: "instant \<Rightarrow> trigger_table \<Rightarrow> pair_key \<Rightarrow> trigger_table" where
  "claim_insert db_now t k =
     (case map_of t k of
        None \<Rightarrow> AList.update k (default_row db_now) t
      | Some _ \<Rightarrow> t)"

definition claim_update ::
  "instant \<Rightarrow> trigger_table \<Rightarrow> pair_key \<Rightarrow> instant option \<Rightarrow> instant \<Rightarrow> trigger_table \<times> bool" where
  "claim_update db_now t k expected fired_at =
     (case map_of t k of
        None \<Rightarrow> (t, False)
      | Some row \<Rightarrow>
          if ts_last_fired_at row \<noteq> expected then (t, False)
          else (AList.update k
                  (row\<lparr>ts_pending_count := 0, ts_max_pending_rank := -1, ts_seen_signal_ids := [],
                       ts_first_dirty_at := None, ts_last_fired_at := Some fired_at,
                       ts_fire_count := ts_fire_count row + 1, ts_updated_at := db_now\<rparr>) t, True))"

text \<open>\<^verbatim>\<open>claim_fire\<close> run without another worker between its statements.\<close>

definition claim_fire ::
  "instant \<Rightarrow> trigger_table \<Rightarrow> pair_key \<Rightarrow> instant option \<Rightarrow> instant \<Rightarrow> trigger_table \<times> bool" where
  "claim_fire db_now t k expected fired_at =
     claim_update db_now (claim_insert db_now t k) k expected fired_at"

definition fire_count :: "trigger_table \<Rightarrow> pair_key \<Rightarrow> int" where
  "fire_count t k = (case map_of t k of None \<Rightarrow> 0 | Some row \<Rightarrow> ts_fire_count row)"

definition list_dirty :: "trigger_table \<Rightarrow> nat \<Rightarrow> (py_str \<times> py_str \<times> py_str) list" where
  "list_dirty t limit =
     take limit
       (map (\<lambda>((a, g), row). (a, g, ts_tenant row))
         (sort_key (\<lambda>(_, row). ts_updated_at row)
           (filter (\<lambda>(_, row). ts_pending_count row > 0) t)))"

section \<open>Lemmas\<close>

definition anchor_of :: "trigger_table \<Rightarrow> pair_key \<Rightarrow> instant option" where
  "anchor_of t k = (case map_of t k of None \<Rightarrow> None | Some row \<Rightarrow> ts_last_fired_at row)"

definition has_row :: "trigger_table \<Rightarrow> pair_key \<Rightarrow> bool" where
  "has_row t k \<longleftrightarrow> map_of t k \<noteq> None"

lemmas store_ops = get_acc_def save_dirty_def claim_insert_def claim_update_def fire_count_def
  anchor_of_def has_row_def default_row_def zero_accumulator_def

lemma get_acc_anchor: "last_fired_at (get_acc t k cap) = anchor_of t k"
  by (simp add: store_ops split: option.split)

lemma get_acc_cap: "seen_cap (get_acc t k cap) = cap"
  by (simp add: store_ops split: option.split)

lemma get_save_other:
  "k' \<noteq> k \<Longrightarrow> get_acc (save_dirty n t k tn acc) k' cap = get_acc t k' cap"
  by (simp add: store_ops table_simps split: option.split)

lemma get_save_same:
  assumes "seen_signal_ids acc = set (seen_order acc)"
  shows "get_acc (save_dirty n t k tn acc) k (seen_cap acc) =
    acc\<lparr>last_fired_at := (if has_row t k then anchor_of t k else last_fired_at acc)\<rparr>"
  using assms by (cases "map_of t k") (simp_all add: store_ops table_simps)

lemma claim_update_won:
  "claim_update n t k e f = (t', True) \<Longrightarrow>
     has_row t k \<and> anchor_of t k = e \<and> has_row t' k \<and> anchor_of t' k = Some f
     \<and> get_acc t' k cap = (zero_accumulator cap)\<lparr>last_fired_at := Some f\<rparr>
     \<and> fire_count t' k = fire_count t k + 1"
  by (auto simp: store_ops table_simps split: option.splits if_splits)

lemma claim_update_lost: "claim_update n t k e f = (t', False) \<Longrightarrow> t' = t"
  by (auto simp: claim_update_def split: option.splits if_splits)

lemma claim_update_other:
  "claim_update n t k e f = (t', w) \<Longrightarrow> k' \<noteq> k \<Longrightarrow> map_of t' k' = map_of t k'"
  by (auto simp: claim_update_def table_simps split: option.splits if_splits)

lemma claim_insert_other: "k' \<noteq> k \<Longrightarrow> map_of (claim_insert n t k) k' = map_of t k'"
  by (simp add: claim_insert_def table_simps split: option.split)

lemma claim_insert_row: "has_row (claim_insert n t k) k"
  by (simp add: claim_insert_def has_row_def table_simps split: option.split)

lemma claim_insert_same: "get_acc (claim_insert n t k) k' cap = get_acc t k' cap"
  by (cases "k' = k") (simp_all add: store_ops table_simps split: option.split)

lemma claim_insert_count: "fire_count (claim_insert n t k) k' = fire_count t k'"
  by (cases "k' = k") (simp_all add: store_ops table_simps split: option.split)

lemma claim_fire_iff:
  "snd (claim_fire n t k e f) \<longleftrightarrow> anchor_of t k = e"
  by (auto simp: claim_fire_def store_ops table_simps split: option.split)

section \<open>Logs of fires\<close>

definition fires_of :: "'k \<Rightarrow> ('k \<times> instant) list \<Rightarrow> instant list" where
  "fires_of k log = map snd (filter (\<lambda>e. fst e = k) log)"

lemma fires_of_snoc: "fires_of k (log @ [(k', f)]) = fires_of k log @ (if k' = k then [f] else [])"
  by (simp add: fires_of_def)

text \<open>Each instant of a list is at least \<open>gap\<close> after the one before it.\<close>

fun spaced :: "int \<Rightarrow> instant list \<Rightarrow> bool" where
  "spaced gap (a # b # ts) \<longleftrightarrow> a + gap \<le> b \<and> spaced gap (b # ts)"
| "spaced gap _ \<longleftrightarrow> True"

lemma spaced_snoc: "spaced gap (ts @ [f]) \<longleftrightarrow> spaced gap ts \<and> (ts \<noteq> [] \<longrightarrow> last ts + gap \<le> f)"
  by (induction gap ts rule: spaced.induct) auto

section \<open>The interface: a compare-and-set anchor per key\<close>

text \<open>
  What the coalescer's fire path relies on: saving dirt and inserting the zero row never move
  the anchor of a key that has a row, a claim goes through only when the anchor is the expected
  one and then sets it, and a lost claim changes nothing.
\<close>

locale anchor_store =
  fixes known :: "'t \<Rightarrow> 'k \<Rightarrow> bool"
    and anchor :: "'t \<Rightarrow> 'k \<Rightarrow> instant option"
    and save :: "'t \<Rightarrow> 'k \<Rightarrow> 'a \<Rightarrow> 't"
    and ensure :: "'t \<Rightarrow> 'k \<Rightarrow> 't"
    and claim :: "'t \<Rightarrow> 'k \<Rightarrow> instant option \<Rightarrow> instant \<Rightarrow> 't \<times> bool"
  assumes save_keeps: "known t k' \<Longrightarrow> known (save t k a) k' \<and> anchor (save t k a) k' = anchor t k'"
    and ensure_keeps: "known t k' \<Longrightarrow> known (ensure t k) k' \<and> anchor (ensure t k) k' = anchor t k'"
    and claim_wins: "claim t k e f = (t', True) \<Longrightarrow> known t k \<and> anchor t k = e \<and> known t' k \<and> anchor t' k = Some f"
    and claim_frame: "claim t k e f = (t', True) \<Longrightarrow> k' \<noteq> k \<Longrightarrow> known t k' \<Longrightarrow> known t' k' \<and> anchor t' k' = anchor t k'"
    and claim_loses: "claim t k e f = (t', False) \<Longrightarrow> t' = t"
begin

text \<open>A log of claims, newest last; the store is anchored when each key's anchor is its last claim.\<close>

definition anchored :: "'t \<Rightarrow> ('k \<times> instant) list \<Rightarrow> bool" where
  "anchored t log \<longleftrightarrow>
     (\<forall>k. fires_of k log \<noteq> [] \<longrightarrow> known t k \<and> anchor t k = Some (last (fires_of k log)))"

lemma anchored_empty: "anchored t []"
  by (simp add: anchored_def fires_of_def)

lemma anchored_save: "anchored t log \<Longrightarrow> anchored (save t k a) log"
  by (simp add: anchored_def save_keeps)

lemma anchored_ensure: "anchored t log \<Longrightarrow> anchored (ensure t k) log"
  by (simp add: anchored_def ensure_keeps)

lemma anchored_lost: "anchored t log \<Longrightarrow> claim t k e f = (t', False) \<Longrightarrow> anchored t' log"
  by (auto dest: claim_loses)

lemma anchored_won:
  assumes log: "anchored t log" and won: "claim t k e f = (t', True)"
  shows "anchored t' (log @ [(k, f)])"
  unfolding anchored_def
proof (intro allI impI)
  fix k'
  assume fires: "fires_of k' (log @ [(k, f)]) \<noteq> []"
  show "known t' k' \<and> anchor t' k' = Some (last (fires_of k' (log @ [(k, f)])))"
  proof (cases "k' = k")
    case True
    then show ?thesis using claim_wins [OF won] by (simp add: fires_of_snoc)
  next
    case False
    with fires log have "known t k' \<and> anchor t k' = Some (last (fires_of k' log))"
      by (simp add: anchored_def fires_of_snoc)
    with False claim_frame [OF won False] show ?thesis by (simp add: fires_of_snoc)
  qed
qed

text \<open>The spacing of a key's claims, when every claimer checked its clock against the anchor
  it claimed from.\<close>

lemma spaced_won:
  assumes log: "anchored t log" and won: "claim t k e f = (t', True)"
    and clock: "\<And>a. k' = k \<Longrightarrow> e = Some a \<Longrightarrow> a + gap \<le> f"
    and before: "spaced gap (fires_of k' log)"
  shows "spaced gap (fires_of k' (log @ [(k, f)]))"
proof (cases "k' = k \<and> fires_of k log \<noteq> []")
  case True
  then have "e = Some (last (fires_of k log))"
    using log claim_wins [OF won] by (simp add: anchored_def)
  with True clock before show ?thesis by (simp add: fires_of_snoc spaced_snoc)
next
  case False
  with before show ?thesis by (auto simp: fires_of_snoc spaced_snoc)
qed

end

interpretation trigger_db: anchor_store has_row anchor_of
  "\<lambda>t k (n, tenant, acc). save_dirty n t k tenant acc"
  "\<lambda>t k. claim_insert n t k" "\<lambda>t k. claim_update n t k"
  for n
proof unfold_locales
  fix t k' k and a :: "instant \<times> py_str \<times> trigger_accumulator"
  assume "has_row t k'"
  then show "has_row (case a of (n, tenant, acc) \<Rightarrow> save_dirty n t k tenant acc) k'
      \<and> anchor_of (case a of (n, tenant, acc) \<Rightarrow> save_dirty n t k tenant acc) k' = anchor_of t k'"
    by (cases a; cases "k' = k") (auto simp: store_ops table_simps split: option.split)
next
  fix t k' k
  assume "has_row t k'"
  then show "has_row (claim_insert n t k) k' \<and> anchor_of (claim_insert n t k) k' = anchor_of t k'"
    by (cases "k' = k") (auto simp: store_ops table_simps split: option.split)
next
  fix t k e f t'
  assume "claim_update n t k e f = (t', True)"
  then show "has_row t k \<and> anchor_of t k = e \<and> has_row t' k \<and> anchor_of t' k = Some f"
    using claim_update_won by blast
next
  fix t k e f t' k'
  assume "claim_update n t k e f = (t', True)" "k' \<noteq> k" "has_row t k'"
  then show "has_row t' k' \<and> anchor_of t' k' = anchor_of t k'"
    using claim_update_other by (simp add: has_row_def anchor_of_def)
next
  fix t k e f t'
  assume "claim_update n t k e f = (t', False)"
  then show "t' = t" by (rule claim_update_lost)
qed

section \<open>Properties\<close>

text \<open>C39: Restart-survives. What a signal worker reads, dirties and saves is what any later
  reader of the pair loads, whatever happened to the process in between: the counter, the
  highest rank, the fire anchor, the window anchor and the seen ids in their eviction order. No
  other pair's state moves and no fire is counted.\<close>

theorem dirty_survives_restart:
  assumes "acc_ok (get_acc t k cap)"
    and "apply_dirty (get_acc t k cap) signal_id rank now = (acc, True)"
  shows "get_acc (save_dirty db_now t k tenant acc) k cap = acc
    \<and> (k' \<noteq> k \<longrightarrow> get_acc (save_dirty db_now t k tenant acc) k' cap = get_acc t k' cap)
    \<and> fire_count (save_dirty db_now t k tenant acc) k'' = fire_count t k''"
proof -
  have new: "signal_id \<notin> seen_signal_ids (get_acc t k cap)"
    using assms(2) by (auto simp: apply_dirty_def)
  have acc: "seen_signal_ids acc = set (seen_order acc)" "seen_cap acc = cap"
    "last_fired_at acc = anchor_of t k"
    using apply_dirty_new [OF assms(1) new] assms(2) by (auto simp: get_acc_anchor get_acc_cap)
  have "fire_count (save_dirty db_now t k tenant acc) k'' = fire_count t k''"
    by (cases "k'' = k") (simp_all add: store_ops table_simps split: option.split)
  with acc get_save_same [OF acc(1), of db_now t k tenant] show ?thesis
    by (simp add: get_save_other)
qed

theorem dirty_survives_restart_witness:
  "get_acc (save_dirty 3 [] (''an'', ''tg'') ''default''
       (fst (apply_dirty (zero_accumulator 10) ''s1'' 2 (Some 1)))) (''an'', ''tg'') 10
     = fst (apply_dirty (zero_accumulator 10) ''s1'' 2 (Some 1))"
proof -
  have zero: "get_acc [] (''an'', ''tg'') 10 = zero_accumulator 10"
    by (simp add: get_acc_def)
  have "apply_dirty (get_acc [] (''an'', ''tg'') 10) ''s1'' 2 (Some 1)
      = (fst (apply_dirty (zero_accumulator 10) ''s1'' 2 (Some 1)), True)"
    by (simp add: zero apply_dirty_def zero_accumulator_def)
  from dirty_survives_restart [OF _ this] show ?thesis
    by (simp add: zero acc_ok_zero)
qed

end
