(* ===== verification/Coalescer.thy ===== *)
theory Coalescer
  imports Signals TriggerState
begin

text \<open>
  From a matched signal to a dispatched fire: \<open>runtime/triggers/coalescer.py\<close> and
  the runners of \<open>runtime/triggers/dispatch.py\<close>. First the code as one worker runs
  it, then a step relation in which several workers (signal consumers and the cadence ticker)
  interleave between their database statements. The policy resolver and the analyst work a
  runner invokes are arguments; the runner is a state machine of its own, so the coalescer is
  modelled for any runner.
\<close>

section \<open>Reading the signal\<close>

definition LIVE_CLASSES :: "py_str list" where
  "LIVE_CLASSES = [''live'', ''web_retrieval'', ''seed'']"

definition is_live_origin :: "signal_row \<Rightarrow> bool" where
  "is_live_origin row =
     (case sig_origin_class row of None \<Rightarrow> True | Some c \<Rightarrow> c \<in> set LIVE_CLASSES)"

definition canonical_id_of :: "signal_row \<Rightarrow> py_str" where
  "canonical_id_of row =
     (if truthy (sig_canonical_signal_id row) then the (sig_canonical_signal_id row)
      else case sig_id row of None \<Rightarrow> ''None'' | Some i \<Rightarrow> i)"

definition severity_of :: "signal_row \<Rightarrow> int" where
  "severity_of row =
     (let fallback = severity_rank (json_str (map_of (payload_dict row) ''severity'')) in
      case json_str (sig_severity row) of
        None \<Rightarrow> fallback
      | Some s \<Rightarrow> let r = severity_rank (Some s) in if r \<ge> 0 then r else fallback)"

section \<open>Fires and runners\<close>

record trigger_fire =
  tf_analyst_id :: py_str
  tf_target_id :: py_str
  tf_tenant :: py_str
  tf_reason :: trigger_reason
  tf_pending_count :: int
  tf_severity_wake :: bool
  tf_fired_at :: instant
  tf_method_kind :: py_str
  tf_signal_ids :: "py_str list"

record run_result =
  rr_analyst_id :: py_str
  rr_target_id :: py_str
  rr_status :: py_str
  rr_reason :: trigger_reason
  rr_pending_count :: int
  rr_detail :: json_dict
  rr_error :: "py_str option"

text \<open>What the injected work callable does: return a detail dict, raise
  \<^verbatim>\<open>DispatchCoalesced\<close> (its witness and its message), or raise anything else (its
  message).\<close>

datatype work_outcome = Work_done json_dict | Work_coalesced py_str py_str | Work_raised py_str

datatype dispatch_error = Llm_method_refused py_str

definition deterministic_kinds :: "py_str list" where
  "deterministic_kinds = [''deterministic'', ''stat_forecaster'', ''dspy_compile'']"

definition is_llm_method :: "py_str \<Rightarrow> bool" where
  "is_llm_method method_kind \<longleftrightarrow> method_kind \<notin> set deterministic_kinds"

record runner_state =
  rs_runs :: nat
  rs_fires :: "trigger_fire list"
  rs_coalesced :: nat

definition result_for :: "trigger_fire \<Rightarrow> py_str \<Rightarrow> json_dict \<Rightarrow> py_str option \<Rightarrow> run_result" where
  "result_for f status detail err =
     \<lparr>rr_analyst_id = tf_analyst_id f, rr_target_id = tf_target_id f, rr_status = status,
      rr_reason = tf_reason f, rr_pending_count = tf_pending_count f, rr_detail = detail,
      rr_error = err\<rparr>"

definition deterministic_run ::
  "(trigger_fire \<Rightarrow> work_outcome) \<Rightarrow> runner_state \<Rightarrow> trigger_fire
     \<Rightarrow> runner_state \<times> (dispatch_error + run_result)" where
  "deterministic_run work rs f =
     (if is_llm_method (tf_method_kind f) then (rs, Inl (Llm_method_refused (tf_analyst_id f)))
      else let rs' = rs\<lparr>rs_fires := rs_fires rs @ [f], rs_runs := rs_runs rs + 1\<rparr> in
        case work f of
          Work_done detail \<Rightarrow> (rs', Inr (result_for f ''ran'' detail None))
        | Work_coalesced _ message \<Rightarrow> (rs', Inr (result_for f ''failed'' [] (Some message)))
        | Work_raised e \<Rightarrow> (rs', Inr (result_for f ''failed'' [] (Some e))))"

definition actor_run ::
  "(trigger_fire \<Rightarrow> work_outcome) \<Rightarrow> runner_state \<Rightarrow> trigger_fire
     \<Rightarrow> runner_state \<times> (dispatch_error + run_result)" where
  "actor_run work rs f =
     (let rs' = rs\<lparr>rs_fires := rs_fires rs @ [f], rs_runs := rs_runs rs + 1\<rparr> in
        case work f of
          Work_done detail \<Rightarrow> (rs', Inr (result_for f ''ran'' detail None))
        | Work_coalesced witness _ \<Rightarrow>
            (rs'\<lparr>rs_coalesced := rs_coalesced rs' + 1\<rparr>,
             Inr (result_for f ''coalesced'' [(''witness'', J_str witness)] None))
        | Work_raised e \<Rightarrow> (rs', Inr (result_for f ''failed'' [] (Some e))))"

section \<open>One worker\<close>

type_synonym 'r runner = "'r \<Rightarrow> trigger_fire \<Rightarrow> 'r \<times> (dispatch_error + run_result)"
type_synonym policy_resolver = "pair_key \<Rightarrow> trigger_policy"

record 'r coalescer =
  co_table :: trigger_table
  co_runner :: 'r

definition fire_for ::
  "trigger_policy \<Rightarrow> pair_key \<Rightarrow> py_str \<Rightarrow> trigger_accumulator \<Rightarrow> instant \<Rightarrow> py_str option \<Rightarrow> trigger_fire" where
  "fire_for policy k tenant acc now seed =
     (let d = decide acc policy now in
      \<lparr>tf_analyst_id = fst k, tf_target_id = snd k, tf_tenant = tenant, tf_reason = td_reason d,
       tf_pending_count = td_pending_count d, tf_severity_wake = severity_wake d,
       tf_fired_at = now,
       tf_method_kind = (if is_llm policy then ''llm'' else ''deterministic''),
       tf_signal_ids = (if truthy seed then [the seed] else [])\<rparr>)"

text \<open>\<^verbatim>\<open>_maybe_fire\<close>: decide, claim by compare-and-set, dispatch.\<close>

definition maybe_fire ::
  "'r runner \<Rightarrow> trigger_policy \<Rightarrow> instant \<Rightarrow> 'r coalescer \<Rightarrow> pair_key \<Rightarrow> py_str \<Rightarrow> trigger_accumulator
     \<Rightarrow> instant \<Rightarrow> py_str option \<Rightarrow> 'r coalescer \<times> (dispatch_error + run_result option)" where
  "maybe_fire run policy db_now co k tenant acc now seed =
     (if \<not> should_fire (decide acc policy now) then (co, Inr None)
      else let (table, won) = claim_fire db_now (co_table co) k (last_fired_at acc) now;
               co1 = co\<lparr>co_table := table\<rparr>
           in if \<not> won then (co1, Inr None)
              else let (r, out) = run (co_runner co1) (fire_for policy k tenant acc now seed);
                       co2 = co1\<lparr>co_runner := r\<rparr>
                   in case out of
                        Inl err \<Rightarrow> (co2, Inl err)
                      | Inr result \<Rightarrow> (co2, Inr (Some result)))"

definition on_signal ::
  "'r runner \<Rightarrow> policy_resolver \<Rightarrow> nat \<Rightarrow> instant \<Rightarrow> 'r coalescer \<Rightarrow> pair_key \<Rightarrow> py_str \<Rightarrow> signal_row
     \<Rightarrow> instant \<Rightarrow> 'r coalescer \<times> (dispatch_error + run_result option)" where
  "on_signal run policy_for cap db_now co k tenant row now =
     (if \<not> is_live_origin row then (co, Inr None)
      else let policy = policy_for k;
               canon = canonical_id_of row;
               acc = get_acc (co_table co) k cap;
               (new_acc, counted) = apply_dirty acc canon (severity_of row) (Some now)
           in if \<not> counted then (co, Inr None)
              else maybe_fire run policy db_now
                     (co\<lparr>co_table := save_dirty db_now (co_table co) k tenant new_acc\<rparr>)
                     k tenant new_acc now (Some canon))"

text \<open>The tick's loop over the dirty pairs it listed; a runner that raises ends it.\<close>

fun tick_pairs ::
  "'r runner \<Rightarrow> policy_resolver \<Rightarrow> nat \<Rightarrow> instant \<Rightarrow> instant \<Rightarrow> (py_str \<times> py_str \<times> py_str) list
     \<Rightarrow> 'r coalescer \<Rightarrow> run_result list \<Rightarrow> 'r coalescer \<times> (dispatch_error + run_result list)" where
  "tick_pairs run policy_for cap db_now now [] co fired = (co, Inr fired)"
| "tick_pairs run policy_for cap db_now now ((a, g, tenant) # pairs) co fired =
     (case maybe_fire run (policy_for (a, g)) db_now co (a, g) tenant
             (get_acc (co_table co) (a, g) cap) now None of
        (co', Inl err) \<Rightarrow> (co', Inl err)
      | (co', Inr None) \<Rightarrow> tick_pairs run policy_for cap db_now now pairs co' fired
      | (co', Inr (Some res)) \<Rightarrow> tick_pairs run policy_for cap db_now now pairs co' (fired @ [res]))"

definition on_cadence_tick ::
  "'r runner \<Rightarrow> policy_resolver \<Rightarrow> nat \<Rightarrow> instant \<Rightarrow> instant \<Rightarrow> 'r coalescer
     \<Rightarrow> 'r coalescer \<times> (dispatch_error + run_result list)" where
  "on_cadence_tick run policy_for cap db_now now co =
     tick_pairs run policy_for cap db_now now (list_dirty (co_table co) 1000) co []"

section \<open>Many workers\<close>

text \<open>
  Between its database statements a worker holds local values only. A phase says what it is
  about to do next: save what it counted, decide, or run the compare-and-set after the
  ensuring INSERT. A tick worker may pick up any pair at any time, which covers every list of
  dirty pairs it can have read.
\<close>

datatype phase =
    Idle
  | Read_signal pair_key py_str py_str int instant trigger_accumulator
  | Deciding pair_key py_str instant trigger_accumulator "py_str option"
  | Claiming pair_key py_str instant trigger_accumulator "py_str option"

record fleet =
  fl_table :: trigger_table
  fl_workers :: "nat \<Rightarrow> phase"
  fl_log :: "trigger_fire list"

abbreviation goto :: "fleet \<Rightarrow> nat \<Rightarrow> phase \<Rightarrow> fleet" where
  "goto s w ph \<equiv> s\<lparr>fl_workers := (fl_workers s)(w := ph)\<rparr>"

inductive fleet_step :: "policy_resolver \<Rightarrow> nat \<Rightarrow> fleet \<Rightarrow> fleet \<Rightarrow> bool"
  for policy_for :: policy_resolver and cap :: nat where
  read_signal: "fl_workers s w = Idle \<Longrightarrow> is_live_origin row \<Longrightarrow>
    fleet_step policy_for cap s
      (goto s w (Read_signal k tenant (canonical_id_of row) (severity_of row) now
                   (get_acc (fl_table s) k cap)))"
| duplicate: "fl_workers s w = Read_signal k tenant canon sev now acc \<Longrightarrow>
    apply_dirty acc canon sev (Some now) = (acc', False) \<Longrightarrow>
    fleet_step policy_for cap s (goto s w Idle)"
| save: "fl_workers s w = Read_signal k tenant canon sev now acc \<Longrightarrow>
    apply_dirty acc canon sev (Some now) = (acc', True) \<Longrightarrow>
    fleet_step policy_for cap s
      (goto (s\<lparr>fl_table := save_dirty db_now (fl_table s) k tenant acc'\<rparr>) w
         (Deciding k tenant now acc' (Some canon)))"
| read_tick: "fl_workers s w = Idle \<Longrightarrow>
    fleet_step policy_for cap s
      (goto s w (Deciding k tenant now (get_acc (fl_table s) k cap) None))"
| hold: "fl_workers s w = Deciding k tenant now acc seed \<Longrightarrow>
    \<not> should_fire (decide acc (policy_for k) now) \<Longrightarrow>
    fleet_step policy_for cap s (goto s w Idle)"
| ensure: "fl_workers s w = Deciding k tenant now acc seed \<Longrightarrow>
    should_fire (decide acc (policy_for k) now) \<Longrightarrow>
    fleet_step policy_for cap s
      (goto (s\<lparr>fl_table := claim_insert db_now (fl_table s) k\<rparr>) w (Claiming k tenant now acc seed))"
| lost: "fl_workers s w = Claiming k tenant now acc seed \<Longrightarrow>
    claim_update db_now (fl_table s) k (last_fired_at acc) now = (t, False) \<Longrightarrow>
    fleet_step policy_for cap s (goto s w Idle)"
| won: "fl_workers s w = Claiming k tenant now acc seed \<Longrightarrow>
    claim_update db_now (fl_table s) k (last_fired_at acc) now = (t, True) \<Longrightarrow>
    fleet_step policy_for cap s
      (goto (s\<lparr>fl_table := t, fl_log := fl_log s @ [fire_for (policy_for k) k tenant acc now seed]\<rparr>)
         w Idle)"

inductive_simps fleet_step_simps: "fleet_step policy_for cap s s'"

text \<open>A fleet that starts on a table, everyone idle, nothing dispatched.\<close>

definition fleet_start :: "trigger_table \<Rightarrow> fleet" where
  "fleet_start t = \<lparr>fl_table = t, fl_workers = (\<lambda>_. Idle), fl_log = []\<rparr>"

abbreviation fleet_run :: "policy_resolver \<Rightarrow> nat \<Rightarrow> fleet \<Rightarrow> fleet \<Rightarrow> bool" where
  "fleet_run policy_for cap \<equiv> (fleet_step policy_for cap)\<^sup>*\<^sup>*"

definition fire_key :: "trigger_fire \<Rightarrow> pair_key" where
  "fire_key f = (tf_analyst_id f, tf_target_id f)"

definition claims :: "trigger_fire list \<Rightarrow> (pair_key \<times> instant) list" where
  "claims fs = map (\<lambda>f. (fire_key f, tf_fired_at f)) fs"

lemma claims_snoc:
  "claims (fs @ [fire_for p k tenant acc now seed]) = claims fs @ [(k, now)]"
  by (simp add: claims_def fire_key_def fire_for_def Let_def)

text \<open>The fleet's invariant: the anchor of every dispatched pair is its last dispatch, the
  dispatches of a pair are a cooldown apart, a worker about to claim has decided to fire, and
  the table counts every dispatch.\<close>

definition fleet_ok :: "policy_resolver \<Rightarrow> trigger_table \<Rightarrow> fleet \<Rightarrow> bool" where
  "fleet_ok policy_for t0 s \<longleftrightarrow>
     trigger_db.anchored (fl_table s) (claims (fl_log s))
     \<and> (\<forall>k. cooldown_seconds (policy_for k) > 0 \<longrightarrow>
            spaced (seconds (cooldown_seconds (policy_for k))) (fires_of k (claims (fl_log s))))
     \<and> (\<forall>w k tenant now acc seed. fl_workers s w = Claiming k tenant now acc seed \<longrightarrow>
            should_fire (decide acc (policy_for k) now))
     \<and> (\<forall>k. fire_count (fl_table s) k = fire_count t0 k + int (length (fires_of k (claims (fl_log s)))))"

lemma fleet_ok_start: "fleet_ok policy_for t (fleet_start t)"
  by (simp add: fleet_ok_def fleet_start_def trigger_db.anchored_empty claims_def fires_of_def)

lemma save_dirty_count: "fire_count (save_dirty n t k tenant acc) k' = fire_count t k'"
  by (cases "k' = k") (simp_all add: store_ops table_simps split: option.split)

lemma claim_update_count:
  "claim_update n t k e f = (t', True) \<Longrightarrow> fire_count t' k' = fire_count t k' + (if k' = k then 1 else 0)"
  by (cases "k' = k") (auto simp: fire_count_def dest: claim_update_won claim_update_other split: option.splits)

lemma fleet_ok_step:
  assumes "fleet_step policy_for cap s s'" and "fleet_ok policy_for t0 s"
  shows "fleet_ok policy_for t0 s'"
  using assms
proof (induction rule: fleet_step.induct)
  case (save s w k tenant canon sev now acc acc' db_now)
  then show ?case
    using trigger_db.anchored_save [of "fl_table s" "claims (fl_log s)" k "(db_now, tenant, acc')"]
    by (auto simp: fleet_ok_def save_dirty_count)
next
  case (ensure s w k tenant now acc seed db_now)
  then show ?case
    using trigger_db.anchored_ensure [of "fl_table s" "claims (fl_log s)" db_now k]
    by (auto simp: fleet_ok_def claim_insert_count)
next
  case (won s w k tenant now acc seed db_now t)
  note claim = won.hyps(2)
  have anch: "trigger_db.anchored (fl_table s) (claims (fl_log s))"
    and fire: "should_fire (decide acc (policy_for k) now)"
    using won unfolding fleet_ok_def by blast+
  have anch': "trigger_db.anchored t (claims (fl_log s) @ [(k, now)])"
    by (rule trigger_db.anchored_won [OF anch claim])
  have "spaced (seconds (cooldown_seconds (policy_for k'))) (fires_of k' (claims (fl_log s) @ [(k, now)]))"
    if cd: "cooldown_seconds (policy_for k') > 0" for k'
  proof (rule trigger_db.spaced_won [OF anch claim])
    show "spaced (seconds (cooldown_seconds (policy_for k'))) (fires_of k' (claims (fl_log s)))"
      using won.prems cd unfolding fleet_ok_def by blast
  qed (use cd fire decide_fire_spacing in blast)
  moreover have "fire_count t k' = fire_count t0 k'
      + int (length (fires_of k' (claims (fl_log s) @ [(k, now)])))" for k'
  proof -
    have "fire_count (fl_table s) k' = fire_count t0 k' + int (length (fires_of k' (claims (fl_log s))))"
      using won.prems unfolding fleet_ok_def by blast
    then show ?thesis using claim_update_count [OF claim, of k'] by (simp add: fires_of_snoc)
  qed
  moreover have "\<forall>w' k tenant now acc seed. ((fl_workers s)(w := Idle)) w' = Claiming k tenant now acc seed \<longrightarrow>
            should_fire (decide acc (policy_for k) now)"
    using won.prems by (auto simp: fleet_ok_def)
  ultimately show ?case
    using anch' by (simp add: fleet_ok_def claims_snoc)
qed (auto simp: fleet_ok_def)

lemma fleet_ok_run:
  "fleet_run policy_for cap s s' \<Longrightarrow> fleet_ok policy_for t0 s \<Longrightarrow> fleet_ok policy_for t0 s'"
  by (induction rule: rtranclp_induct) (auto intro: fleet_ok_step)

section \<open>Running a schedule\<close>

text \<open>The relation as a function of what is scheduled: a worker picks up a signal or a dirty
  pair, or a worker in a phase executes its next statement.\<close>

datatype action =
    is_pick_signal: Pick_signal nat pair_key py_str signal_row instant
  | Pick_pair nat pair_key py_str instant
  | Next nat instant

fun act :: "policy_resolver \<Rightarrow> nat \<Rightarrow> action \<Rightarrow> fleet \<Rightarrow> fleet option" where
  "act policy_for cap (Pick_signal w k tenant row now) s =
     (if fl_workers s w = Idle \<and> is_live_origin row
      then Some (goto s w (Read_signal k tenant (canonical_id_of row) (severity_of row) now
                             (get_acc (fl_table s) k cap)))
      else None)"
| "act policy_for cap (Pick_pair w k tenant now) s =
     (if fl_workers s w = Idle
      then Some (goto s w (Deciding k tenant now (get_acc (fl_table s) k cap) None)) else None)"
| "act policy_for cap (Next w db_now) s =
     (case fl_workers s w of
        Idle \<Rightarrow> None
      | Read_signal k tenant canon sev now acc \<Rightarrow>
          (case apply_dirty acc canon sev (Some now) of
             (acc', counted) \<Rightarrow>
               Some (if counted
                     then goto (s\<lparr>fl_table := save_dirty db_now (fl_table s) k tenant acc'\<rparr>) w
                            (Deciding k tenant now acc' (Some canon))
                     else goto s w Idle))
      | Deciding k tenant now acc seed \<Rightarrow>
          Some (if should_fire (decide acc (policy_for k) now)
                then goto (s\<lparr>fl_table := claim_insert db_now (fl_table s) k\<rparr>) w
                       (Claiming k tenant now acc seed)
                else goto s w Idle)
      | Claiming k tenant now acc seed \<Rightarrow>
          (case claim_update db_now (fl_table s) k (last_fired_at acc) now of
             (t, won) \<Rightarrow>
               Some (if won
                     then goto (s\<lparr>fl_table := t,
                             fl_log := fl_log s @ [fire_for (policy_for k) k tenant acc now seed]\<rparr>) w Idle
                     else goto s w Idle)))"

fun schedule :: "policy_resolver \<Rightarrow> nat \<Rightarrow> action list \<Rightarrow> fleet \<Rightarrow> fleet option" where
  "schedule policy_for cap [] s = Some s"
| "schedule policy_for cap (a # acts) s =
     (case act policy_for cap a s of None \<Rightarrow> None | Some s' \<Rightarrow> schedule policy_for cap acts s')"

lemmas fleet_intros = fleet_step.intros [simplified]

lemma act_step: "act policy_for cap a s = Some s' \<Longrightarrow> fleet_step policy_for cap s s'"
proof (cases a)
  case (Next w n)
  assume "act policy_for cap a s = Some s'"
  with Next show ?thesis
    by (auto split: phase.splits prod.splits if_splits intro: fleet_intros)
qed (auto split: if_splits intro: fleet_intros)

lemma schedule_run: "schedule policy_for cap acts s = Some s' \<Longrightarrow> fleet_run policy_for cap s s'"
  by (induction acts arbitrary: s)
     (auto split: option.splits dest!: act_step intro: converse_rtranclp_into_rtranclp)

section \<open>One worker is a schedule\<close>

definition fleet_of :: "runner_state coalescer \<Rightarrow> fleet" where
  "fleet_of co = \<lparr>fl_table = co_table co, fl_workers = (\<lambda>_. Idle), fl_log = rs_fires (co_runner co)\<rparr>"

lemma actor_run_log: "rs_fires (fst (actor_run work rs f)) = rs_fires rs @ [f]"
  by (simp add: actor_run_def Let_def split: work_outcome.split)

lemma actor_run_ok: "\<exists>res. snd (actor_run work rs f) = Inr res"
  by (simp add: actor_run_def Let_def split: work_outcome.split)

lemma maybe_fire_run:
  "fleet_run policy_for cap ((fleet_of co)\<lparr>fl_workers := (\<lambda>_. Idle)(w := Deciding k tenant now acc seed)\<rparr>)
     (fleet_of (fst (maybe_fire (actor_run work) (policy_for k) db_now co k tenant acc now seed)))"
proof (cases "should_fire (decide acc (policy_for k) now)")
  case False
  then have "schedule policy_for cap [Next w db_now]
      ((fleet_of co)\<lparr>fl_workers := (\<lambda>_. Idle)(w := Deciding k tenant now acc seed)\<rparr>) =
      Some (fleet_of (fst (maybe_fire (actor_run work) (policy_for k) db_now co k tenant acc now seed)))"
    by (simp add: maybe_fire_def fleet_of_def fun_eq_iff)
  then show ?thesis by (rule schedule_run)
next
  case True
  obtain t b where claim: "claim_update db_now (claim_insert db_now (co_table co) k) k (last_fired_at acc) now = (t, b)"
    by fastforce
  obtain r out where run: "actor_run work (co_runner co) (fire_for (policy_for k) k tenant acc now seed) = (r, Inr out)"
    using actor_run_ok [of work "co_runner co"] by (metis prod.collapse)
  have log: "rs_fires r = rs_fires (co_runner co) @ [fire_for (policy_for k) k tenant acc now seed]"
    using actor_run_log [of work "co_runner co"] run by (metis fst_conv)
  have "schedule policy_for cap [Next w db_now, Next w db_now]
      ((fleet_of co)\<lparr>fl_workers := (\<lambda>_. Idle)(w := Deciding k tenant now acc seed)\<rparr>) =
      Some (fleet_of (fst (maybe_fire (actor_run work) (policy_for k) db_now co k tenant acc now seed)))"
    using True claim run log
    by (cases b) (auto simp: maybe_fire_def fleet_of_def claim_fire_def fun_eq_iff dest: claim_update_lost)
  then show ?thesis by (rule schedule_run)
qed

lemma on_signal_run:
  "fleet_run policy_for cap (fleet_of co)
     (fleet_of (fst (on_signal (actor_run work) policy_for cap db_now co k tenant row now)))"
proof (cases "is_live_origin row")
  case True
  let ?acc = "get_acc (co_table co) k cap"
  obtain acc' counted where dirty: "apply_dirty ?acc (canonical_id_of row) (severity_of row) (Some now) = (acc', counted)"
    by fastforce
  show ?thesis
  proof (cases counted)
    case True
    let ?co = "co\<lparr>co_table := save_dirty db_now (co_table co) k tenant acc'\<rparr>"
    have "schedule policy_for cap [Pick_signal 0 k tenant row now, Next 0 db_now] (fleet_of co) =
        Some ((fleet_of ?co)\<lparr>fl_workers := (\<lambda>_. Idle)(0 := Deciding k tenant now acc' (Some (canonical_id_of row)))\<rparr>)"
      using \<open>is_live_origin row\<close> dirty True by (simp add: fleet_of_def fun_eq_iff)
    from schedule_run [OF this] maybe_fire_run
    show ?thesis using \<open>is_live_origin row\<close> dirty True
      by (simp add: on_signal_def Let_def) (meson rtranclp_trans)
  next
    case False
    have "schedule policy_for cap [Pick_signal 0 k tenant row now, Next 0 db_now] (fleet_of co) =
        Some (fleet_of co)"
      using \<open>is_live_origin row\<close> dirty False by (simp add: fleet_of_def fun_eq_iff)
    then show ?thesis using \<open>is_live_origin row\<close> dirty False
      by (simp add: on_signal_def)
  qed
qed (simp add: on_signal_def)

lemma tick_pairs_run:
  "fleet_run policy_for cap (fleet_of co)
     (fleet_of (fst (tick_pairs (actor_run work) policy_for cap db_now now pairs co fired)))"
proof (induction pairs arbitrary: co fired)
  case (Cons p pairs)
  obtain a g tenant where p: "p = (a, g, tenant)" by (cases p)
  let ?fire = "maybe_fire (actor_run work) (policy_for (a, g)) db_now co (a, g) tenant
    (get_acc (co_table co) (a, g) cap) now None"
  have "schedule policy_for cap [Pick_pair 0 (a, g) tenant now] (fleet_of co) =
      Some ((fleet_of co)\<lparr>fl_workers := (\<lambda>_. Idle)(0 := Deciding (a, g) tenant now
        (get_acc (co_table co) (a, g) cap) None)\<rparr>)"
    by (simp add: fleet_of_def fun_eq_iff)
  from schedule_run [OF this] maybe_fire_run
  have first: "fleet_run policy_for cap (fleet_of co) (fleet_of (fst ?fire))"
    by (meson rtranclp_trans)
  obtain co' out where fire: "?fire = (co', out)" by fastforce
  show ?case
  proof (cases out)
    case (Inl err)
    with first fire p show ?thesis by simp
  next
    case (Inr res)
    then show ?thesis
      using first fire p Cons.IH [of co'] by (cases res) (auto intro: rtranclp_trans)
  qed
qed simp

section \<open>What one worker counts\<close>

definition dispatched :: "pair_key \<Rightarrow> trigger_fire list \<Rightarrow> int" where
  "dispatched k fs = sum_list (map tf_pending_count (filter (\<lambda>f. fire_key f = k) fs))"

definition accounted :: "runner_state coalescer \<Rightarrow> pair_key \<Rightarrow> int" where
  "accounted co k = pending_count (get_acc (co_table co) k 0) + dispatched k (rs_fires (co_runner co))"

lemma get_acc_pending: "pending_count (get_acc t k cap) = pending_count (get_acc t k 0)"
  by (simp add: get_acc_def zero_accumulator_def split: option.split)

lemma dispatched_snoc:
  "dispatched k (fs @ [f]) = dispatched k fs + (if fire_key f = k then tf_pending_count f else 0)"
  by (simp add: dispatched_def)

lemma maybe_fire_accounted:
  assumes "pending_count acc = pending_count (get_acc (co_table co) k 0)"
    and "last_fired_at acc = anchor_of (co_table co) k"
  shows "accounted (fst (maybe_fire (actor_run work) policy n co k tenant acc now seed)) k' = accounted co k'"
proof (cases "should_fire (decide acc policy now)")
  case True
  have "snd (claim_fire n (co_table co) k (last_fired_at acc) now)"
    using assms(2) by (simp add: claim_fire_iff)
  then obtain t where claim: "claim_fire n (co_table co) k (last_fired_at acc) now = (t, True)"
    by (metis prod.collapse)
  obtain r out where run: "actor_run work (co_runner co) (fire_for policy k tenant acc now seed) = (r, Inr out)"
    using actor_run_ok [of work "co_runner co"] by (metis prod.collapse)
  have log: "rs_fires r = rs_fires (co_runner co) @ [fire_for policy k tenant acc now seed]"
    using actor_run_log [of work "co_runner co"] run by (metis fst_conv)
  have upd: "claim_update n (claim_insert n (co_table co) k) k (last_fired_at acc) now = (t, True)"
    using claim by (simp add: claim_fire_def)
  have "pending_count (get_acc t k' 0) =
      (if k' = k then 0 else pending_count (get_acc (co_table co) k' 0))"
    using claim_update_won [OF upd, of 0] claim_update_other [OF upd, of k'] claim_insert_other [of k' k n]
    by (auto simp: zero_accumulator_def get_acc_def)
  then show ?thesis
    using True claim run log assms(1)
    by (auto simp: maybe_fire_def accounted_def dispatched_snoc fire_for_def fire_key_def Let_def decide_pending)
qed (simp add: maybe_fire_def)

lemma save_dirty_anchor:
  "last_fired_at acc = anchor_of t k \<Longrightarrow> anchor_of (save_dirty n t k tenant acc) k' = anchor_of t k'"
  by (cases "k' = k") (simp_all add: store_ops table_simps split: option.split)

lemma save_dirty_pending:
  "pending_count (get_acc (save_dirty n t k tenant acc) k' 0) =
     (if k' = k then pending_count acc else pending_count (get_acc t k' 0))"
  by (cases "k' = k") (simp_all add: store_ops table_simps split: option.split)

text \<open>Whether a delivery is counted: the row is live and its canonical id is new in the window.\<close>

definition counts_signal :: "runner_state coalescer \<Rightarrow> nat \<Rightarrow> pair_key \<Rightarrow> signal_row \<Rightarrow> bool" where
  "counts_signal co cap k row \<longleftrightarrow>
     is_live_origin row \<and> canonical_id_of row \<notin> seen_signal_ids (get_acc (co_table co) k cap)"

lemma on_signal_accounted:
  "accounted (fst (on_signal (actor_run work) policy_for cap n co k tenant row now)) k' =
     accounted co k' + (if k' = k \<and> counts_signal co cap k row then 1 else 0)"
proof (cases "counts_signal co cap k row")
  case True
  let ?acc = "get_acc (co_table co) k cap"
  obtain acc' where dirty: "apply_dirty ?acc (canonical_id_of row) (severity_of row) (Some now) = (acc', True)"
    using True apply_dirty_flag by (metis counts_signal_def prod.collapse)
  have acc': "pending_count acc' = pending_count ?acc + 1" "last_fired_at acc' = anchor_of (co_table co) k"
    using apply_dirty_count [of ?acc "canonical_id_of row" "severity_of row" "Some now"]
      apply_dirty_anchor [of ?acc "canonical_id_of row" "severity_of row" "Some now"] dirty
    by (simp_all add: get_acc_anchor)
  let ?co = "co\<lparr>co_table := save_dirty n (co_table co) k tenant acc'\<rparr>"
  have "accounted (fst (maybe_fire (actor_run work) (policy_for k) n ?co k tenant acc' now seed)) k' =
      accounted ?co k'" for seed
    by (rule maybe_fire_accounted) (simp_all add: save_dirty_pending save_dirty_anchor acc')
  with True dirty acc' show ?thesis
    by (simp add: on_signal_def counts_signal_def accounted_def save_dirty_pending get_acc_pending [of _ _ cap])
qed (auto simp: on_signal_def counts_signal_def apply_dirty_seen)

lemma tick_pairs_accounted:
  "accounted (fst (tick_pairs (actor_run work) policy_for cap n now pairs co fired)) k' = accounted co k'"
proof (induction pairs arbitrary: co fired)
  case (Cons p pairs)
  obtain a g tenant where p: "p = (a, g, tenant)" by (cases p)
  obtain co' out where fire: "maybe_fire (actor_run work) (policy_for (a, g)) n co (a, g) tenant
    (get_acc (co_table co) (a, g) cap) now None = (co', out)" by fastforce
  have "accounted co' k' = accounted co k'"
    using maybe_fire_accounted [of "get_acc (co_table co) (a, g) cap" co "(a, g)" work "policy_for (a, g)" n tenant now None k']
    by (simp add: fire get_acc_anchor get_acc_pending [of _ _ cap])
  then show ?case
    using Cons.IH p fire by (cases out; cases "projr out") (auto split: sum.splits option.splits)
qed simp

text \<open>A worker's workload: deliveries and ticks one after another.\<close>

datatype workload = Deliver pair_key py_str signal_row instant instant | Tick instant instant

fun work_through ::
  "(trigger_fire \<Rightarrow> work_outcome) \<Rightarrow> policy_resolver \<Rightarrow> nat \<Rightarrow> workload list \<Rightarrow> runner_state coalescer
     \<Rightarrow> runner_state coalescer" where
  "work_through work policy_for cap [] co = co"
| "work_through work policy_for cap (Deliver k tenant row n now # ops) co =
     work_through work policy_for cap ops (fst (on_signal (actor_run work) policy_for cap n co k tenant row now))"
| "work_through work policy_for cap (Tick n now # ops) co =
     work_through work policy_for cap ops (fst (on_cadence_tick (actor_run work) policy_for cap n now co))"

fun counted_signals ::
  "(trigger_fire \<Rightarrow> work_outcome) \<Rightarrow> policy_resolver \<Rightarrow> nat \<Rightarrow> pair_key \<Rightarrow> workload list
     \<Rightarrow> runner_state coalescer \<Rightarrow> int" where
  "counted_signals work policy_for cap k' [] co = 0"
| "counted_signals work policy_for cap k' (Deliver k tenant row n now # ops) co =
     (if k' = k \<and> counts_signal co cap k row then 1 else 0)
     + counted_signals work policy_for cap k' ops
         (fst (on_signal (actor_run work) policy_for cap n co k tenant row now))"
| "counted_signals work policy_for cap k' (Tick n now # ops) co =
     counted_signals work policy_for cap k' ops (fst (on_cadence_tick (actor_run work) policy_for cap n now co))"

lemma work_through_accounted:
  "accounted (work_through work policy_for cap ops co) k =
     accounted co k + counted_signals work policy_for cap k ops co"
proof (induction ops arbitrary: co)
  case (Cons op ops)
  then show ?case
    by (cases op) (simp_all add: on_signal_accounted on_cadence_tick_def tick_pairs_accounted)
qed simp

lemma work_through_run:
  "fleet_run policy_for cap (fleet_of co) (fleet_of (work_through work policy_for cap ops co))"
proof (induction ops arbitrary: co)
  case (Cons op ops)
  show ?case
  proof (cases op)
    case (Deliver k tenant row n now)
    with Cons on_signal_run show ?thesis by (simp) (meson rtranclp_trans)
  next
    case (Tick n now)
    with Cons tick_pairs_run show ?thesis by (simp add: on_cadence_tick_def) (meson rtranclp_trans)
  qed
qed simp

section \<open>A stale save\<close>

text \<open>
  A schedule of two workers over one pair that batches two signals. Worker 1 reads the
  accumulator for its signal before worker 0 dispatches the batch, and saves after: the
  dispatched signal comes back as pending and the next tick dispatches it a second time.
\<close>

definition stale_policy :: trigger_policy where
  "stale_policy = \<lparr>cadence_seconds = 0, accumulation_threshold = 2, severity_gate = None,
     cooldown_seconds = 60, is_llm = False, allow_llm_severity_wake = False, min_llm_batch = 2\<rparr>"

definition plain_row :: "py_str \<Rightarrow> signal_row" where
  "plain_row i = \<lparr>sig_id = Some i, sig_canonical_signal_id = None, sig_source_id = None,
     sig_owner_tenant = None, sig_geo = None, sig_tags = None, sig_entity_classes = None,
     sig_language = None, sig_modality = None, sig_origin_class = None, sig_severity = None,
     sig_source_credibility = None, sig_fetched_at = None, sig_payload = None\<rparr>"

definition stale_actions :: "action list" where
  "stale_actions =
    [Pick_signal 0 (''a'', ''t'') ''d'' (plain_row ''s0'') 0, Next 0 0, Next 0 0,
     Pick_signal 1 (''a'', ''t'') ''d'' (plain_row ''s1'') 0,
     Pick_signal 0 (''a'', ''t'') ''d'' (plain_row ''s2'') (seconds 1), Next 0 0, Next 0 0, Next 0 0,
     Next 1 0, Next 1 0, Next 1 0,
     Pick_pair 0 (''a'', ''t'') ''d'' (seconds 61), Next 0 0, Next 0 0]"

definition stale_fire :: "instant \<Rightarrow> py_str list \<Rightarrow> trigger_fire" where
  "stale_fire at_time ids = \<lparr>tf_analyst_id = ''a'', tf_target_id = ''t'', tf_tenant = ''d'',
     tf_reason = R_ACCUMULATION, tf_pending_count = 2, tf_severity_wake = False,
     tf_fired_at = at_time, tf_method_kind = ''deterministic'', tf_signal_ids = ids\<rparr>"

definition stale_fleet :: fleet where
  "stale_fleet =
    \<lparr>fl_table = [((''a'', ''t''), \<lparr>ts_tenant = ''d'', ts_pending_count = 0, ts_max_pending_rank = -1,
        ts_last_fired_at = Some (seconds 61), ts_first_dirty_at = None, ts_seen_signal_ids = [],
        ts_fire_count = 2, ts_updated_at = 0\<rparr>)],
     fl_workers = (\<lambda>_. Idle),
     fl_log = [stale_fire (seconds 1) [''s2''], stale_fire (seconds 61) []]\<rparr>"

lemma stale_reads:
  "is_live_origin (plain_row i)" "canonical_id_of (plain_row i) = i" "severity_of (plain_row i) = -1"
  by (simp_all add: plain_row_def is_live_origin_def canonical_id_of_def severity_of_def
      payload_dict_def severity_rank_def)

lemma stale_decide:
  "decide acc stale_policy now =
     (if \<exists>t. last_fired_at acc = Some t \<and> now < t + seconds 60
      then \<lparr>should_fire = False, td_reason = R_COOLDOWN, td_pending_count = pending_count acc, severity_wake = False\<rparr>
      else if max_pending_rank acc \<ge> 99 \<and> pending_count acc > 0
      then \<lparr>should_fire = True, td_reason = R_SEVERITY, td_pending_count = pending_count acc, severity_wake = True\<rparr>
      else if pending_count acc \<ge> 2
      then \<lparr>should_fire = True, td_reason = R_ACCUMULATION, td_pending_count = pending_count acc, severity_wake = False\<rparr>
      else \<lparr>should_fire = False, td_reason = (if 0 < pending_count acc then R_BELOW_THRESHOLD else R_NOT_DIRTY),
            td_pending_count = pending_count acc, severity_wake = False\<rparr>)"
  by (auto simp: decide_alt stale_policy_def in_cooldown_def cooldown_until_def cadence_reached_def
      cadence_due_at_def severity_gate_rank_def effective_accumulation_def split: option.splits)

lemma stale_schedule:
  "schedule (\<lambda>_. stale_policy) 10 stale_actions (fleet_start []) = Some stale_fleet"
  unfolding stale_actions_def fleet_start_def
  by (simp add: stale_reads stale_decide store_ops apply_dirty_def table_simps fire_for_def
      stale_fleet_def stale_fire_def fun_eq_iff)
     (simp add: stale_policy_def)

section \<open>Properties\<close>

text \<open>C1: The cooldown holds under any interleaving. Start any number of workers on any
  trigger table; in every reachable state, two consecutive dispatches of a pair whose policy has
  a positive cooldown are at least that cooldown apart by the clocks they carry, and the
  table's fire counter of every pair has grown by exactly its number of dispatches: no fire
  is dispatched without its claim and none is dispatched twice.\<close>

theorem fleet_dispatches_spaced:
  assumes "fleet_run policy_for cap (fleet_start t) s"
  shows "(cooldown_seconds (policy_for k) > 0 \<longrightarrow>
      spaced (seconds (cooldown_seconds (policy_for k))) (fires_of k (claims (fl_log s))))
    \<and> fire_count (fl_table s) k = fire_count t k + int (length (fires_of k (claims (fl_log s))))"
  using fleet_ok_run [OF assms fleet_ok_start] unfolding fleet_ok_def by blast

theorem fleet_dispatches_spaced_witness:
  "spaced (seconds 60) (fires_of (''a'', ''t'') [((''a'', ''t''), seconds 1), ((''a'', ''t''), seconds 61)])"
  using fleet_dispatches_spaced [OF schedule_run [OF stale_schedule], of "(''a'', ''t'')"]
  by (simp add: stale_fleet_def stale_fire_def claims_def fire_key_def stale_policy_def)

text \<open>C14: The sequential code is one schedule of the concurrent relation, and one worker
  loses nothing. Whatever deliveries and ticks a single worker goes through, the result is
  reachable by the step relation, and for every pair the signals counted on the way are exactly
  those dispatched in batches plus those still pending.\<close>

theorem one_worker_accounts:
  "fleet_run policy_for cap (fleet_of co) (fleet_of (work_through work policy_for cap ops co))
   \<and> accounted (work_through work policy_for cap ops co) k =
       accounted co k + counted_signals work policy_for cap k ops co"
  using work_through_run work_through_accounted by blast

lemma on_signal_not_live:
  "\<not> is_live_origin row \<Longrightarrow> on_signal run policy_for cap n co k tenant row now = (co, Inr None)"
  by (simp add: on_signal_def)

lemma on_signal_alias:
  "canonical_id_of row \<in> seen_signal_ids (get_acc (co_table co) k cap) \<Longrightarrow>
     on_signal run policy_for cap n co k tenant row now = (co, Inr None)"
  by (simp add: on_signal_def apply_dirty_seen)

text \<open>A delivery that does not count does nothing at all: a signal whose origin class is
  not live, or whose canonical id the pair's window has already seen, leaves the table and the
  runner as they were and dispatches nothing, whatever the policy and the runner.\<close>

theorem uncounted_delivery_is_inert:
  assumes "\<not> counts_signal co cap k row"
  shows "on_signal run policy_for cap n co k tenant row now = (co, Inr None)"
  using assms unfolding counts_signal_def by (metis on_signal_not_live on_signal_alias)

theorem uncounted_delivery_is_inert_witness:
  "on_signal (actor_run (\<lambda>_. Work_done [])) (\<lambda>_. stale_policy) 10 7
      \<lparr>co_table = [], co_runner = \<lparr>rs_runs = 0, rs_fires = [], rs_coalesced = 0\<rparr>\<rparr> (''a'', ''t'') ''d''
      ((plain_row ''s0'')\<lparr>sig_origin_class := Some ''collection''\<rparr>) 9
    = (\<lparr>co_table = [], co_runner = \<lparr>rs_runs = 0, rs_fires = [], rs_coalesced = 0\<rparr>\<rparr>, Inr None)"
  by (rule uncounted_delivery_is_inert)
     (simp add: counts_signal_def is_live_origin_def LIVE_CLASSES_def)

text \<open>The compare-and-set does not protect the accumulator. There is a schedule of two
  workers in which three distinct signals of a pair, each delivered once, are dispatched as four:
  a worker that read the accumulator before a dispatch saves its copy after it, and the
  signal already dispatched is pending again.\<close>

theorem stale_save_redispatches:
  "\<exists>acts s. schedule (\<lambda>_. stale_policy) 10 acts (fleet_start []) = Some s
     \<and> int (length (filter is_pick_signal acts)) < dispatched (''a'', ''t'') (fl_log s)"
proof (intro exI conjI)
  show "schedule (\<lambda>_. stale_policy) 10 stale_actions (fleet_start []) = Some stale_fleet"
    by (rule stale_schedule)
  show "int (length (filter is_pick_signal stale_actions)) < dispatched (''a'', ''t'') (fl_log stale_fleet)"
    by (simp add: stale_actions_def stale_fleet_def stale_fire_def dispatched_def fire_key_def)
qed

end
