(* ===== verification/SubFilter.thy ===== *)
theory SubFilter
  imports Signals
begin

text \<open>
  Matching a signal against a subscription, \<open>runtime/subscription/filter.py\<close>: the
  structured SQL filter (clauses, placeholders, parameters, and what PostgreSQL makes of them
  on a row), the Starlark residual, and the in-Python match of the real-time path. The
  predicate engine is an argument: whether a predicate compiles and what it evaluates to.
  \<open>Subscription\<close> is from \<open>data/schemas/source.py\<close>.
\<close>

section \<open>Subscriptions\<close>

record subscription =
  sub_geo :: "py_str list"
  sub_languages :: "py_str list"
  sub_tags :: "py_str list"
  sub_entity_classes :: "py_str list"
  sub_modalities :: "py_str list"
  sub_predicate :: "py_str option"
  sub_canonical_only :: bool

definition default_subscription :: subscription where
  "default_subscription =
     \<lparr>sub_geo = [], sub_languages = [], sub_tags = [], sub_entity_classes = [],
      sub_modalities = [], sub_predicate = None, sub_canonical_only = True\<rparr>"

section \<open>UUID comparison\<close>

text \<open>
  \<^verbatim>\<open>UUID(s)\<close>: drop \<open>urn:\<close> and \<open>uuid:\<close>, strip braces, drop hyphens, read 32
  hexadecimal digits. (The underscores, signs and blanks that \<^verbatim>\<open>int(s, 16)\<close> would also
  take inside those 32 characters are refused here.)
\<close>

definition hex_digit :: "char \<Rightarrow> nat option" where
  "hex_digit c =
     (let n = (of_char c :: nat) in
      if 48 \<le> n \<and> n \<le> 57 then Some (n - 48)
      else if 97 \<le> n \<and> n \<le> 102 then Some (n - 87)
      else if 65 \<le> n \<and> n \<le> 70 then Some (n - 55)
      else None)"

fun hex_value :: "nat \<Rightarrow> py_str \<Rightarrow> nat option" where
  "hex_value acc [] = Some acc"
| "hex_value acc (c # cs) =
     (case hex_digit c of None \<Rightarrow> None | Some d \<Rightarrow> hex_value (16 * acc + d) cs)"

definition strip_braces :: "py_str \<Rightarrow> py_str" where
  "strip_braces s =
     (let brace = (\<lambda>c. c = CHR ''{'' \<or> c = CHR ''}'') in
      rev (dropWhile brace (rev (dropWhile brace s))))"

definition parse_uuid :: "py_str \<Rightarrow> nat option" where
  "parse_uuid s =
     (let hex = filter (\<lambda>c. c \<noteq> CHR ''-'') (strip_braces (remove_sub ''uuid:'' (remove_sub ''urn:'' s))) in
      if length hex \<noteq> 32 then None else hex_value 0 hex)"

text \<open>\<^verbatim>\<open>_same_uuid\<close>; \<open>str(None)\<close> never parses.\<close>

definition same_uuid :: "py_str option \<Rightarrow> py_str option \<Rightarrow> bool" where
  "same_uuid a b =
     (let parse = (\<lambda>x. parse_uuid (case x of None \<Rightarrow> ''None'' | Some s \<Rightarrow> s)) in
      case (parse a, parse b) of
        (Some m, Some n) \<Rightarrow> m = n
      | _ \<Rightarrow> a = b)"

section \<open>The structured filter as SQL\<close>

datatype sql_clause =
    Eq_source nat
  | Eq_tenant nat
  | Overlap_geo nat
  | Overlap_tags nat
  | Overlap_entity_classes nat
  | Any_language nat
  | Any_modality nat
  | Canonical_clause
  | Not_backfill_clause

datatype sql_param = Text_param py_str | Array_param "py_str list"

record sql_filter =
  sf_clauses :: "sql_clause list"
  sf_params :: "sql_param list"

definition add_clause :: "nat \<Rightarrow> (nat \<Rightarrow> sql_clause) \<Rightarrow> sql_param \<Rightarrow> sql_filter \<Rightarrow> sql_filter" where
  "add_clause start tpl v f =
     (let params = sf_params f @ [v] in
      \<lparr>sf_clauses = sf_clauses f @ [tpl (start + length params - 1)], sf_params = params\<rparr>)"

definition add_list :: "nat \<Rightarrow> (nat \<Rightarrow> sql_clause) \<Rightarrow> py_str list \<Rightarrow> sql_filter \<Rightarrow> sql_filter" where
  "add_list start tpl vs f = (if vs \<noteq> [] then add_clause start tpl (Array_param vs) f else f)"

definition add_plain :: "sql_clause \<Rightarrow> sql_filter \<Rightarrow> sql_filter" where
  "add_plain c f = f\<lparr>sf_clauses := sf_clauses f @ [c]\<rparr>"

definition build_sql_filter :: "py_str \<Rightarrow> py_str \<Rightarrow> subscription \<Rightarrow> nat \<Rightarrow> sql_filter" where
  "build_sql_filter source_id owner_tenant sub start =
     (let f0 = \<lparr>sf_clauses = [], sf_params = []\<rparr>;
          f1 = add_clause start Eq_source (Text_param source_id) f0;
          f2 = add_clause start Eq_tenant (Text_param owner_tenant) f1;
          f3 = add_list start Overlap_geo (sub_geo sub) f2;
          f4 = add_list start Overlap_tags (sub_tags sub) f3;
          f5 = add_list start Overlap_entity_classes (sub_entity_classes sub) f4;
          f6 = add_list start Any_language (sub_languages sub) f5;
          f7 = add_list start Any_modality (sub_modalities sub) f6;
          f8 = (if sub_canonical_only sub then add_plain Canonical_clause f7 else f7)
      in add_plain Not_backfill_clause f8)"

fun render_clause :: "sql_clause \<Rightarrow> py_str" where
  "render_clause (Eq_source n) = ''source_id = $'' @ show_nat n"
| "render_clause (Eq_tenant n) = ''owner_tenant = $'' @ show_nat n"
| "render_clause (Overlap_geo n) = ''geo && $'' @ show_nat n @ ''::text[]''"
| "render_clause (Overlap_tags n) = ''tags && $'' @ show_nat n @ ''::text[]''"
| "render_clause (Overlap_entity_classes n) = ''entity_classes && $'' @ show_nat n @ ''::text[]''"
| "render_clause (Any_language n) = ''language = ANY($'' @ show_nat n @ ''::text[])''"
| "render_clause (Any_modality n) = ''modality = ANY($'' @ show_nat n @ ''::text[])''"
| "render_clause Canonical_clause = ''(canonical_signal_id IS NULL OR canonical_signal_id = id)''"
| "render_clause Not_backfill_clause =
     ''(payload->>'' @ [CHR 0x27] @ ''event_class'' @ [CHR 0x27] @ '') IS DISTINCT FROM ''
     @ [CHR 0x27] @ ''backfill'' @ [CHR 0x27]"

definition where_text :: "sql_filter \<Rightarrow> py_str" where
  "where_text f = py_join '' AND '' (map render_clause (sf_clauses f))"

definition select_signals :: "sql_filter \<Rightarrow> py_str \<Rightarrow> nat option \<Rightarrow> py_str" where
  "select_signals f columns limit =
     ''SELECT '' @ columns @ '' FROM signals WHERE '' @ where_text f @ '' ORDER BY fetched_at DESC''
     @ (case limit of None \<Rightarrow> [] | Some n \<Rightarrow> '' LIMIT '' @ show_nat n)"

text \<open>
  What the clauses mean on a row: a clause holds when PostgreSQL evaluates it to TRUE (a NULL
  column makes a comparison NULL, which does not hold). Placeholder \<open>$n\<close> is the parameter at
  position \<open>n - start\<close>.
\<close>

definition sql_text_arg :: "nat \<Rightarrow> sql_filter \<Rightarrow> nat \<Rightarrow> py_str option" where
  "sql_text_arg start f n =
     (if start \<le> n \<and> n - start < length (sf_params f)
      then (case sf_params f ! (n - start) of Text_param s \<Rightarrow> Some s | Array_param _ \<Rightarrow> None)
      else None)"

definition sql_array_arg :: "nat \<Rightarrow> sql_filter \<Rightarrow> nat \<Rightarrow> py_str list" where
  "sql_array_arg start f n =
     (if start \<le> n \<and> n - start < length (sf_params f)
      then (case sf_params f ! (n - start) of Text_param _ \<Rightarrow> [] | Array_param vs \<Rightarrow> vs)
      else [])"

definition overlaps :: "py_str list option \<Rightarrow> py_str list \<Rightarrow> bool" where
  "overlaps col vs = (case col of None \<Rightarrow> False | Some xs \<Rightarrow> list_ex (\<lambda>v. v \<in> set xs) vs)"

definition any_of :: "py_str option \<Rightarrow> py_str list \<Rightarrow> bool" where
  "any_of col vs = (case col of None \<Rightarrow> False | Some x \<Rightarrow> x \<in> set vs)"

definition is_backfill :: "signal_row \<Rightarrow> bool" where
  "is_backfill row \<longleftrightarrow>
     (case sig_payload row of
        Some (P_dict d) \<Rightarrow> map_of d ''event_class'' = Some (J_str ''backfill'')
      | _ \<Rightarrow> False)"

fun clause_holds :: "nat \<Rightarrow> sql_filter \<Rightarrow> signal_row \<Rightarrow> sql_clause \<Rightarrow> bool" where
  "clause_holds start f row (Eq_source n) =
     (sig_source_id row \<noteq> None \<and> sig_source_id row = sql_text_arg start f n)"
| "clause_holds start f row (Eq_tenant n) =
     (sig_owner_tenant row \<noteq> None \<and> sig_owner_tenant row = sql_text_arg start f n)"
| "clause_holds start f row (Overlap_geo n) = overlaps (sig_geo row) (sql_array_arg start f n)"
| "clause_holds start f row (Overlap_tags n) = overlaps (sig_tags row) (sql_array_arg start f n)"
| "clause_holds start f row (Overlap_entity_classes n) =
     overlaps (sig_entity_classes row) (sql_array_arg start f n)"
| "clause_holds start f row (Any_language n) = any_of (sig_language row) (sql_array_arg start f n)"
| "clause_holds start f row (Any_modality n) = any_of (sig_modality row) (sql_array_arg start f n)"
| "clause_holds start f row Canonical_clause =
     (case sig_canonical_signal_id row of
        None \<Rightarrow> True
      | Some c \<Rightarrow> (case sig_id row of None \<Rightarrow> False | Some i \<Rightarrow> parse_uuid c = parse_uuid i))"
| "clause_holds start f row Not_backfill_clause = (\<not> is_backfill row)"

definition sql_selects :: "nat \<Rightarrow> sql_filter \<Rightarrow> signal_row \<Rightarrow> bool" where
  "sql_selects start f row \<longleftrightarrow> list_all (clause_holds start f row) (sf_clauses f)"

section \<open>The residual\<close>

text \<open>What the predicate engine does with a predicate text: refuse to compile it (by its own
  error or by the budget), or compile it into an evaluator of a context, which returns a verdict
  or raises.\<close>

datatype eval_outcome = Verdict bool | Eval_budget_exceeded | Eval_runtime_error

datatype 'c compile_outcome = Compiled "'c \<Rightarrow> eval_outcome" | Compile_refused | Compile_budget_exceeded

record residual_ctx =
  rc_entity_classes :: "py_str list"
  rc_tags :: "py_str list"
  rc_geo_provenance :: "py_str list"
  rc_credibility :: "json option"
  rc_language :: "py_str option"
  rc_modality :: "py_str option"
  rc_event_timestamp :: "instant option"
  rc_ingested_at :: "instant option"
  rc_severity :: "json option"
  rc_classification_scores :: "json option"
  rc_text :: py_str

type_synonym predicate_engine = "py_str \<Rightarrow> residual_ctx compile_outcome"

definition list_or_empty :: "py_str list option \<Rightarrow> py_str list" where
  "list_or_empty v = (case v of None \<Rightarrow> [] | Some xs \<Rightarrow> xs)"

definition signal_text :: "json_dict \<Rightarrow> py_str" where
  "signal_text payload =
     (let parts = map (\<lambda>k. json_str (map_of payload k)) [''title'', ''summary'', ''body'', ''description'']
      in py_strip (py_join '' '' (map the (filter truthy parts))))"

definition signal_residual_ctx :: "signal_row \<Rightarrow> residual_ctx" where
  "signal_residual_ctx row =
     (let payload = payload_dict row in
      \<lparr>rc_entity_classes = list_or_empty (sig_entity_classes row),
       rc_tags = list_or_empty (sig_tags row),
       rc_geo_provenance = list_or_empty (sig_geo row),
       rc_credibility = sig_source_credibility row,
       rc_language = sig_language row,
       rc_modality = sig_modality row,
       rc_event_timestamp = sig_fetched_at row,
       rc_ingested_at = sig_fetched_at row,
       rc_severity = map_of payload ''severity'',
       rc_classification_scores = map_of payload ''classification_scores'',
       rc_text = signal_text payload\<rparr>)"

definition eval_residual :: "predicate_engine \<Rightarrow> py_str \<Rightarrow> signal_row \<Rightarrow> bool" where
  "eval_residual eng pred row =
     (case eng pred of
        Compile_refused \<Rightarrow> False
      | Compile_budget_exceeded \<Rightarrow> False
      | Compiled ev \<Rightarrow>
          (case ev (signal_residual_ctx row) of
             Verdict b \<Rightarrow> b
           | Eval_budget_exceeded \<Rightarrow> False
           | Eval_runtime_error \<Rightarrow> False))"

text \<open>The loop of \<^verbatim>\<open>filter_rows_by_residual\<close> over the rows, with its output list.\<close>

fun residual_loop :: "(residual_ctx \<Rightarrow> eval_outcome) \<Rightarrow> signal_row list \<Rightarrow> signal_row list \<Rightarrow> signal_row list" where
  "residual_loop ev [] out = out"
| "residual_loop ev (row # rows) out =
     (case ev (signal_residual_ctx row) of
        Verdict b \<Rightarrow> residual_loop ev rows (if b then out @ [row] else out)
      | Eval_budget_exceeded \<Rightarrow> residual_loop ev rows out
      | Eval_runtime_error \<Rightarrow> residual_loop ev rows out)"

definition filter_rows_by_residual ::
  "predicate_engine \<Rightarrow> py_str \<Rightarrow> signal_row list \<Rightarrow> signal_row list" where
  "filter_rows_by_residual eng pred rows =
     (if pred = [] then rows
      else case eng pred of
             Compile_refused \<Rightarrow> []
           | Compile_budget_exceeded \<Rightarrow> []
           | Compiled ev \<Rightarrow> residual_loop ev rows [])"

text \<open>\<^verbatim>\<open>residual_matches\<close>; its async variant evaluates the same on another thread.\<close>

definition residual_matches :: "predicate_engine \<Rightarrow> subscription \<Rightarrow> signal_row \<Rightarrow> bool" where
  "residual_matches eng sub row =
     (if truthy (sub_predicate sub) then eval_residual eng (the (sub_predicate sub)) row else True)"

section \<open>The in-Python match\<close>

definition matches ::
  "predicate_engine \<Rightarrow> subscription \<Rightarrow> signal_row \<Rightarrow> py_str \<Rightarrow> py_str \<Rightarrow> bool" where
  "matches eng sub row source_id owner_tenant =
     (let sig_geo_set = set (list_or_empty (sig_geo row));
          sig_tag_set = set (list_or_empty (sig_tags row));
          sig_ec_set = set (list_or_empty (sig_entity_classes row))
      in if sig_source_id row \<noteq> Some source_id then False
         else if sig_owner_tenant row \<noteq> Some owner_tenant then False
         else if sub_geo sub \<noteq> [] \<and> set (sub_geo sub) \<inter> sig_geo_set = {} then False
         else if sub_tags sub \<noteq> [] \<and> set (sub_tags sub) \<inter> sig_tag_set = {} then False
         else if sub_entity_classes sub \<noteq> [] \<and> set (sub_entity_classes sub) \<inter> sig_ec_set = {} then False
         else if sub_languages sub \<noteq> [] \<and> \<not> any_of (sig_language row) (sub_languages sub) then False
         else if sub_modalities sub \<noteq> [] \<and> \<not> any_of (sig_modality row) (sub_modalities sub) then False
         else if sub_canonical_only sub \<and> sig_canonical_signal_id row \<noteq> None
                 \<and> \<not> same_uuid (sig_canonical_signal_id row) (sig_id row) then False
         else residual_matches eng sub row)"

section \<open>Lemmas\<close>

text \<open>Building keeps what was added: later clauses never move an earlier parameter.\<close>

definition params_prefix :: "sql_filter \<Rightarrow> sql_filter \<Rightarrow> bool" where
  "params_prefix f g \<longleftrightarrow> (\<exists>vs. sf_params g = sf_params f @ vs)"

definition placeholder :: "sql_clause \<Rightarrow> nat option" where
  "placeholder c = (case c of
     Eq_source n \<Rightarrow> Some n | Eq_tenant n \<Rightarrow> Some n | Overlap_geo n \<Rightarrow> Some n | Overlap_tags n \<Rightarrow> Some n
   | Overlap_entity_classes n \<Rightarrow> Some n | Any_language n \<Rightarrow> Some n | Any_modality n \<Rightarrow> Some n
   | Canonical_clause \<Rightarrow> None | Not_backfill_clause \<Rightarrow> None)"

definition numbered :: "nat \<Rightarrow> sql_filter \<Rightarrow> bool" where
  "numbered start f \<longleftrightarrow>
     List.map_filter placeholder (sf_clauses f) = [start ..< start + length (sf_params f)]"

lemma map_filter_snoc:
  "List.map_filter p (xs @ [x]) = List.map_filter p xs @ (case p x of None \<Rightarrow> [] | Some y \<Rightarrow> [y])"
  by (simp add: List.map_filter_def split: option.split)

lemma numbered_add_clause:
  "numbered start f \<Longrightarrow> (\<And>n. placeholder (tpl n) = Some n) \<Longrightarrow> numbered start (add_clause start tpl v f)"
  by (simp add: numbered_def add_clause_def map_filter_snoc Let_def)

lemma numbered_add_list:
  "numbered start f \<Longrightarrow> (\<And>n. placeholder (tpl n) = Some n) \<Longrightarrow> numbered start (add_list start tpl vs f)"
  by (simp add: add_list_def numbered_add_clause)

lemma numbered_add_plain: "numbered start f \<Longrightarrow> placeholder c = None \<Longrightarrow> numbered start (add_plain c f)"
  by (simp add: numbered_def add_plain_def map_filter_snoc)

lemma numbered_build: "numbered start (build_sql_filter s t sub start)"
proof -
  have "numbered start \<lparr>sf_clauses = [], sf_params = []\<rparr>"
    by (simp add: numbered_def List.map_filter_def)
  then show ?thesis
    unfolding build_sql_filter_def Let_def
    by (auto intro!: numbered_add_plain numbered_add_list numbered_add_clause simp: placeholder_def)
qed

lemma numbered_below:
  assumes "numbered start f" "c \<in> set (sf_clauses f)" "placeholder c = Some n"
  shows "n < start + length (sf_params f)"
proof -
  have "n \<in> set (List.map_filter placeholder (sf_clauses f))"
    using assms(2,3) by (force simp: List.map_filter_def)
  then show ?thesis using assms(1) by (simp add: numbered_def)
qed

lemma clause_holds_extend:
  assumes "\<And>n. placeholder c = Some n \<Longrightarrow> n < start + length (sf_params f)"
    and "sf_params g = sf_params f @ vs"
  shows "clause_holds start g row c = clause_holds start f row c"
  using assms
  by (cases c) (auto simp: placeholder_def sql_text_arg_def sql_array_arg_def nth_append)

lemma selects_add_clause:
  assumes "numbered start f"
  shows "sql_selects start (add_clause start tpl v f) row \<longleftrightarrow>
    sql_selects start f row
    \<and> clause_holds start (add_clause start tpl v f) row (tpl (start + length (sf_params f)))"
proof -
  have "clause_holds start (add_clause start tpl v f) row c = clause_holds start f row c"
    if "c \<in> set (sf_clauses f)" for c
    using numbered_below [OF assms that]
    by (intro clause_holds_extend [where vs = "[v]"]) (auto simp: add_clause_def Let_def)
  then show ?thesis by (auto simp: sql_selects_def add_clause_def Let_def list_all_iff)
qed

lemma new_text_arg:
  "sql_text_arg start (add_clause start tpl (Text_param s) f) (start + length (sf_params f)) = Some s"
  by (simp add: sql_text_arg_def add_clause_def Let_def)

lemma new_array_arg:
  "sql_array_arg start (add_clause start tpl (Array_param vs) f) (start + length (sf_params f)) = vs"
  by (simp add: sql_array_arg_def add_clause_def Let_def)

lemmas selects_new = selects_add_clause new_text_arg new_array_arg

lemma selects_add_list:
  assumes "numbered start f"
  shows "sql_selects start (add_list start Overlap_geo vs f) row \<longleftrightarrow>
      sql_selects start f row \<and> (vs \<noteq> [] \<longrightarrow> overlaps (sig_geo row) vs)"
    and "sql_selects start (add_list start Overlap_tags vs f) row \<longleftrightarrow>
      sql_selects start f row \<and> (vs \<noteq> [] \<longrightarrow> overlaps (sig_tags row) vs)"
    and "sql_selects start (add_list start Overlap_entity_classes vs f) row \<longleftrightarrow>
      sql_selects start f row \<and> (vs \<noteq> [] \<longrightarrow> overlaps (sig_entity_classes row) vs)"
    and "sql_selects start (add_list start Any_language vs f) row \<longleftrightarrow>
      sql_selects start f row \<and> (vs \<noteq> [] \<longrightarrow> any_of (sig_language row) vs)"
    and "sql_selects start (add_list start Any_modality vs f) row \<longleftrightarrow>
      sql_selects start f row \<and> (vs \<noteq> [] \<longrightarrow> any_of (sig_modality row) vs)"
  using assms by (auto simp: add_list_def selects_new)

lemma selects_add_plain:
  assumes "placeholder c = None"
  shows "sql_selects start (add_plain c f) row \<longleftrightarrow> sql_selects start f row \<and> clause_holds start f row c"
proof -
  have "clause_holds start (add_plain c f) row d = clause_holds start f row d" for d
    by (cases d) (simp_all add: sql_text_arg_def sql_array_arg_def add_plain_def)
  then show ?thesis by (auto simp: sql_selects_def add_plain_def list_all_iff)
qed

text \<open>What the built filter selects.\<close>

lemma build_selects:
  "sql_selects start (build_sql_filter s t sub start) row \<longleftrightarrow>
     sig_source_id row = Some s \<and> sig_owner_tenant row = Some t
     \<and> (sub_geo sub \<noteq> [] \<longrightarrow> overlaps (sig_geo row) (sub_geo sub))
     \<and> (sub_tags sub \<noteq> [] \<longrightarrow> overlaps (sig_tags row) (sub_tags sub))
     \<and> (sub_entity_classes sub \<noteq> [] \<longrightarrow> overlaps (sig_entity_classes row) (sub_entity_classes sub))
     \<and> (sub_languages sub \<noteq> [] \<longrightarrow> any_of (sig_language row) (sub_languages sub))
     \<and> (sub_modalities sub \<noteq> [] \<longrightarrow> any_of (sig_modality row) (sub_modalities sub))
     \<and> (sub_canonical_only sub \<longrightarrow>
          (case sig_canonical_signal_id row of
             None \<Rightarrow> True
           | Some c \<Rightarrow> (case sig_id row of None \<Rightarrow> False | Some i \<Rightarrow> parse_uuid c = parse_uuid i)))
     \<and> \<not> is_backfill row"
proof -
  let ?f0 = "\<lparr>sf_clauses = [], sf_params = []\<rparr> :: sql_filter"
  let ?f2 = "add_clause start Eq_tenant (Text_param t) (add_clause start Eq_source (Text_param s) ?f0)"
  have n0: "numbered start ?f0" by (simp add: numbered_def List.map_filter_def)
  then have n2: "numbered start ?f2"
    by (intro numbered_add_clause) (simp_all add: placeholder_def)
  have "sql_selects start ?f2 row \<longleftrightarrow> sig_source_id row = Some s \<and> sig_owner_tenant row = Some t"
    using n0 numbered_add_clause [OF n0, of Eq_source "Text_param s"] new_text_arg [of start Eq_source s ?f0]
    by (auto simp: selects_new placeholder_def) (auto simp: sql_selects_def)
  with n2 show ?thesis
    unfolding build_sql_filter_def Let_def
    by (simp add: selects_add_plain selects_add_list numbered_add_list placeholder_def conj_assoc)
qed

lemma overlaps_set: "overlaps col vs \<longleftrightarrow> set vs \<inter> set (list_or_empty col) \<noteq> {}"
  by (auto simp: overlaps_def list_or_empty_def list_ex_iff split: option.split)

lemma residual_loop_out:
  "residual_loop ev rows out = out @ filter (\<lambda>r. ev (signal_residual_ctx r) = Verdict True) rows"
  by (induction rows arbitrary: out) (auto split: eval_outcome.split)

lemma eval_residual_iff:
  "eval_residual eng pred row \<longleftrightarrow>
     (\<exists>ev. eng pred = Compiled ev \<and> ev (signal_residual_ctx row) = Verdict True)"
  by (auto simp: eval_residual_def split: compile_outcome.split eval_outcome.split)

lemma filter_residual_eval:
  "filter_rows_by_residual eng pred rows =
     (if pred = [] then rows else filter (eval_residual eng pred) rows)"
proof (cases "eng pred")
  case (Compiled ev)
  then have "eval_residual eng pred = (\<lambda>r. ev (signal_residual_ctx r) = Verdict True)"
    by (auto simp: eval_residual_iff fun_eq_iff)
  with Compiled show ?thesis by (simp add: filter_rows_by_residual_def residual_loop_out)
qed (simp_all add: filter_rows_by_residual_def eval_residual_def)

text \<open>A row as the database returns it: the id parses, so does a canonical id, and the
  payload column comes through the JSONB codec as a dict.\<close>

definition db_row :: "signal_row \<Rightarrow> bool" where
  "db_row row \<longleftrightarrow>
     (\<exists>d. sig_payload row = Some (P_dict d))
     \<and> (\<exists>i. sig_id row = Some i \<and> parse_uuid i \<noteq> None)
     \<and> (\<forall>c. sig_canonical_signal_id row = Some c \<longrightarrow> parse_uuid c \<noteq> None)"

lemma same_uuid_db:
  "db_row row \<Longrightarrow> sig_canonical_signal_id row = Some c \<Longrightarrow> sig_id row = Some i \<Longrightarrow>
     same_uuid (sig_canonical_signal_id row) (sig_id row) \<longleftrightarrow> parse_uuid c = parse_uuid i"
  by (auto simp: db_row_def same_uuid_def)

lemma selects_match:
  assumes "db_row row"
  shows "sql_selects start (build_sql_filter source_id tenant sub start) row \<and> residual_matches eng sub row
    \<longleftrightarrow> matches eng sub row source_id tenant \<and> \<not> is_backfill row"
proof -
  have canon: "(case sig_canonical_signal_id row of
             None \<Rightarrow> True
           | Some c \<Rightarrow> (case sig_id row of None \<Rightarrow> False | Some i \<Rightarrow> parse_uuid c = parse_uuid i))
      \<longleftrightarrow> \<not> (sig_canonical_signal_id row \<noteq> None \<and> \<not> same_uuid (sig_canonical_signal_id row) (sig_id row))"
    using assms same_uuid_db [OF assms] by (auto simp: db_row_def split: option.split)
  show ?thesis
    unfolding build_selects canon matches_def Let_def overlaps_set by auto
qed

section \<open>Properties\<close>

text \<open>C9: The batch path and the real-time path agree up to backfill. On every row as the
  database returns it, the rows the built WHERE clause selects and the residual keeps are
  exactly the rows the in-Python match accepts, except those of event class backfill, which only
  the SQL excludes; and the placeholders of the clause, read left to right, number its
  parameters consecutively from the requested start.\<close>

theorem sql_filter_equals_match:
  assumes "db_row row"
  shows "(sql_selects start (build_sql_filter source_id tenant sub start) row \<and> residual_matches eng sub row
      \<longleftrightarrow> matches eng sub row source_id tenant \<and> \<not> is_backfill row)
    \<and> List.map_filter placeholder (sf_clauses (build_sql_filter source_id tenant sub start)) =
        [start ..< start + length (sf_params (build_sql_filter source_id tenant sub start))]"
  using selects_match [OF assms] numbered_build [of start source_id tenant sub]
  by (simp add: numbered_def)

definition uuid_row :: signal_row where
  "uuid_row = \<lparr>sig_id = Some ''00000000-0000-0000-0000-00000000000a'', sig_canonical_signal_id = None,
     sig_source_id = Some ''source.x'', sig_owner_tenant = Some ''default'', sig_geo = Some [''UA''],
     sig_tags = None, sig_entity_classes = None, sig_language = Some ''en'', sig_modality = Some ''text'',
     sig_origin_class = None, sig_severity = None, sig_source_credibility = None, sig_fetched_at = Some 0,
     sig_payload = Some (P_dict [(''event_class'', J_str ''backfill'')])\<rparr>"

lemma uuid_row_db: "db_row uuid_row"
  by (simp add: db_row_def uuid_row_def parse_uuid_def strip_braces_def hex_digit_def Let_def)

theorem sql_filter_equals_match_witness:
  "matches (\<lambda>_. Compile_refused) (default_subscription\<lparr>sub_geo := [''UA'']\<rparr>) uuid_row ''source.x'' ''default''
   \<and> \<not> sql_selects 1 (build_sql_filter ''source.x'' ''default'' (default_subscription\<lparr>sub_geo := [''UA'']\<rparr>) 1) uuid_row"
proof -
  have "matches (\<lambda>_. Compile_refused) (default_subscription\<lparr>sub_geo := [''UA'']\<rparr>) uuid_row ''source.x'' ''default''"
    "residual_matches (\<lambda>_. Compile_refused) (default_subscription\<lparr>sub_geo := [''UA'']\<rparr>) uuid_row"
    "is_backfill uuid_row"
    by (simp_all add: matches_def default_subscription_def uuid_row_def list_or_empty_def
        residual_matches_def is_backfill_def)
  then show ?thesis
    using sql_filter_equals_match [OF uuid_row_db, of 1 "''source.x''" "''default''"
        "default_subscription\<lparr>sub_geo := [''UA'']\<rparr>" "\<lambda>_. Compile_refused"] by blast
qed

text \<open>The residual fails closed, row by row and as a whole: a kept row is one on which the
  compiled predicate returned true, in the order read; a predicate that does not compile
  keeps nothing; and the batch filter keeps exactly the rows the per-signal match would.\<close>

theorem residual_fails_closed:
  assumes "pred \<noteq> []"
  shows "filter_rows_by_residual eng pred rows =
      filter (\<lambda>r. residual_matches eng (sub\<lparr>sub_predicate := Some pred\<rparr>) r) rows
    \<and> (row \<in> set (filter_rows_by_residual eng pred rows) \<longrightarrow>
        (\<exists>ev. eng pred = Compiled ev \<and> ev (signal_residual_ctx row) = Verdict True))"
  using assms by (simp add: filter_residual_eval residual_matches_def) (auto simp: eval_residual_iff)

theorem residual_fails_closed_witness:
  "filter_rows_by_residual (\<lambda>_. Compile_budget_exceeded) ''has_tag(x)'' [uuid_row] = []"
  using residual_fails_closed [of "''has_tag(x)''" "\<lambda>_. Compile_budget_exceeded" "[uuid_row]" default_subscription uuid_row]
  by (simp add: residual_matches_def eval_residual_def)

end
