(* ===== verification/Subjects.thy ===== *)
theory Subjects
  imports SubFilter
begin

text \<open>
  The coarse subjects of the signal bus: token flattening and subject composition of
  \<open>data/nats.py\<close>, and the planning of a target's subject filters in
  \<open>runtime/subscription/subjects.py\<close>. A NATS subject filter is matched token by
  token, \<open>*\<close> standing for any one token: that is the broker's documented rule. The lemmas show
  that coarse delivery loses nothing the exact match would accept.
\<close>

section \<open>Tokens and subjects\<close>

definition SIGNAL_SUBJECT_ROOT :: py_str where "SIGNAL_SUBJECT_ROOT = ''legba.signals''"

definition disallowed :: "char \<Rightarrow> bool" where
  "disallowed c \<longleftrightarrow> c \<in> set '' .*>/'' \<or> c = CHR 0x09 \<or> c = CHR 0x0A \<or> c = CHR 0x5C"

definition subject_token :: "py_str \<Rightarrow> py_str" where
  "subject_token v = (if v = [] then ''_'' else map (\<lambda>c. if disallowed c then CHR ''_'' else c) v)"

definition signal_subject :: "py_str \<Rightarrow> py_str \<Rightarrow> py_str \<Rightarrow> py_str \<Rightarrow> py_str" where
  "signal_subject tenant source_id modality event_class =
     py_join ''.'' [SIGNAL_SUBJECT_ROOT, subject_token tenant, subject_token source_id,
                    subject_token modality, subject_token event_class]"

definition axis :: "py_str option \<Rightarrow> py_str" where
  "axis v = (if truthy v then subject_token (the v) else ''*'')"

definition signal_subject_filter ::
  "py_str option \<Rightarrow> py_str option \<Rightarrow> py_str option \<Rightarrow> py_str option \<Rightarrow> py_str" where
  "signal_subject_filter tenant source_id modality event_class =
     py_join ''.'' [SIGNAL_SUBJECT_ROOT, axis tenant, axis source_id, axis modality, axis event_class]"

section \<open>Planning a target's filters\<close>

definition KNOWN_MODALITIES :: "py_str list" where
  "KNOWN_MODALITIES = [''text'', ''image'', ''audio'', ''video'', ''structured'', ''binary'']"

record resolved_binding =
  rb_source_id :: py_str
  rb_owner_tenant :: py_str
  rb_subscription :: subscription
  rb_via_selector :: bool

definition binding_modalities :: "subscription \<Rightarrow> py_str option list" where
  "binding_modalities sub =
     (if sub_modalities sub \<noteq> []
      then map Some (filter (\<lambda>m. m \<in> set KNOWN_MODALITIES) (sub_modalities sub))
      else [None])"

text \<open>The loop collects into a set (here a list without duplicates) and returns it sorted; the
  strings sort by character code.\<close>

fun str_le :: "py_str \<Rightarrow> py_str \<Rightarrow> bool" where
  "str_le [] t = True"
| "str_le (c # s) [] = False"
| "str_le (c # s) (d # t) =
     (if (of_char c :: nat) = of_char d then str_le s t else (of_char c :: nat) < of_char d)"

fun insert_str :: "py_str \<Rightarrow> py_str list \<Rightarrow> py_str list" where
  "insert_str s [] = [s]"
| "insert_str s (t # ts) =
     (if s = t then t # ts else if str_le s t then s # t # ts else t # insert_str s ts)"

definition sorted_set :: "py_str list \<Rightarrow> py_str list" where
  "sorted_set xs = foldr insert_str xs []"

fun plan_filters :: "resolved_binding list \<Rightarrow> py_str list \<Rightarrow> py_str list" where
  "plan_filters [] filters = filters"
| "plan_filters (b # bs) filters =
     plan_filters bs
       (filters @ map (\<lambda>m. signal_subject_filter (Some (rb_owner_tenant b)) (Some (rb_source_id b)) m None)
                    (binding_modalities (rb_subscription b)))"

definition subject_filters_for :: "resolved_binding list \<Rightarrow> py_str list" where
  "subject_filters_for bs = sorted_set (plan_filters bs [])"

section \<open>The broker's matching rule\<close>

fun tokens_match :: "py_str list \<Rightarrow> py_str list \<Rightarrow> bool" where
  "tokens_match [] [] = True"
| "tokens_match (f # fs) (t # ts) =
     (if f = ''>'' then True else (f = ''*'' \<or> f = t) \<and> tokens_match fs ts)"
| "tokens_match _ _ = False"

definition nats_match :: "py_str \<Rightarrow> py_str \<Rightarrow> bool" where
  "nats_match flt subject = tokens_match (split_dots flt) (split_dots subject)"

section \<open>Lemmas\<close>

lemma subject_token_dotless: "CHR ''.'' \<notin> set (subject_token v)"
  by (auto simp: subject_token_def disallowed_def)

lemma axis_dotless: "CHR ''.'' \<notin> set (axis v)"
  by (simp add: axis_def subject_token_dotless)

lemmas subject_splits = split_dots_join split_dots_token subject_token_dotless axis_dotless

lemma split_signal_subject:
  "split_dots (signal_subject t s m e) =
     [''legba'', ''signals'', subject_token t, subject_token s, subject_token m, subject_token e]"
  using split_dots_join [of "''legba''"] split_dots_join [of "''signals''"]
  by (simp add: signal_subject_def SIGNAL_SUBJECT_ROOT_def subject_splits)

lemma split_signal_subject_filter:
  "split_dots (signal_subject_filter t s m e) = [''legba'', ''signals'', axis t, axis s, axis m, axis e]"
  using split_dots_join [of "''legba''"] split_dots_join [of "''signals''"]
  by (simp add: signal_subject_filter_def SIGNAL_SUBJECT_ROOT_def subject_splits)

lemma set_insert_str: "set (insert_str s ts) = insert s (set ts)"
  by (induction s ts rule: insert_str.induct) auto

lemma set_sorted_set: "set (sorted_set xs) = set xs"
  by (induction xs) (simp_all add: sorted_set_def set_insert_str)

lemma set_plan_filters:
  "set (plan_filters bs filters) = set filters \<union>
     (\<Union>b \<in> set bs. (\<lambda>m. signal_subject_filter (Some (rb_owner_tenant b)) (Some (rb_source_id b)) m None)
        ` set (binding_modalities (rb_subscription b)))"
  by (induction bs filters rule: plan_filters.induct) auto

lemma axis_match: "axis v = ''*'' \<or> (\<exists>s. v = Some s \<and> axis v = subject_token s)"
  by (auto simp: axis_def truthy_iff)

lemma subject_token_not_full: "subject_token v \<noteq> ''>''"
  by (auto simp: subject_token_def disallowed_def split: if_splits)

lemma axis_not_full: "axis v \<noteq> ''>''"
  by (simp add: axis_def subject_token_not_full)

lemma filter_matches_subject:
  assumes "m = None \<or> m = Some modality"
  shows "nats_match (signal_subject_filter (Some tenant) (Some source_id) m None)
    (signal_subject tenant source_id modality event_class)"
  using assms axis_match [of "Some tenant"] axis_match [of "Some source_id"] axis_match [of m]
  by (auto simp: nats_match_def split_signal_subject split_signal_subject_filter axis_not_full)
     (auto simp: axis_def)

section \<open>Durable consumers\<close>

text \<open>A consumer's configuration: the subjects it filters on and where it starts.\<close>

datatype deliver_policy = Deliver_all | Deliver_new | Deliver_last | From_sequence nat

record consumer_config =
  cc_filters :: "py_str list"
  cc_deliver :: deliver_policy

type_synonym consumers = "(py_str \<times> consumer_config) list"

definition wanted_filters :: "py_str list \<Rightarrow> py_str list" where
  "wanted_filters filters =
     (if sorted_set filters \<noteq> [] then sorted_set filters else [SIGNAL_SUBJECT_ROOT @ ''.>''])"

text \<open>Create, or keep when the filter set is the same, or delete and recreate.\<close>

definition ensure_durable_consumer ::
  "consumers \<Rightarrow> py_str \<Rightarrow> py_str list \<Rightarrow> deliver_policy \<Rightarrow> consumers" where
  "ensure_durable_consumer cs durable filters deliver =
     (let wanted = wanted_filters filters;
          fresh = AList.update durable \<lparr>cc_filters = wanted, cc_deliver = deliver\<rparr>
      in case map_of cs durable of
           None \<Rightarrow> fresh cs
         | Some existing \<Rightarrow>
             if sorted_set (cc_filters existing) = wanted then cs
             else fresh (AList.delete durable cs))"

text \<open>\<^verbatim>\<open>_ensure_consumer_from_seq\<close> of the backfill: always recreate, anchored.\<close>

definition ensure_consumer_from_seq :: "consumers \<Rightarrow> py_str \<Rightarrow> py_str list \<Rightarrow> int \<Rightarrow> consumers" where
  "ensure_consumer_from_seq cs durable filters start_seq =
     AList.update durable
       \<lparr>cc_filters = wanted_filters filters, cc_deliver = From_sequence (nat (max start_seq 1))\<rparr>
       (case map_of cs durable of None \<Rightarrow> cs | Some _ \<Rightarrow> AList.delete durable cs)"

definition delivers_subject :: "consumer_config \<Rightarrow> py_str \<Rightarrow> bool" where
  "delivers_subject c subject \<longleftrightarrow> list_ex (\<lambda>f. nats_match f subject) (cc_filters c)"

lemma wanted_filters_keeps: "f \<in> set fs \<Longrightarrow> f \<in> set (wanted_filters fs)"
  using set_sorted_set [of fs] by (auto simp: wanted_filters_def)

lemma root_matches: "nats_match (SIGNAL_SUBJECT_ROOT @ ''.>'') (signal_subject t s m e)"
  by (simp add: nats_match_def split_signal_subject SIGNAL_SUBJECT_ROOT_def)

text \<open>When every modality asked for is unknown, no filter is planned.\<close>

lemma no_known_modality:
  assumes "\<forall>b \<in> set bs. sub_modalities (rb_subscription b) \<noteq> []
      \<and> set (sub_modalities (rb_subscription b)) \<inter> set KNOWN_MODALITIES = {}"
  shows "subject_filters_for bs = []"
proof -
  have "binding_modalities (rb_subscription b) = []" if "b \<in> set bs" for b
    using assms that by (auto simp: binding_modalities_def filter_empty_conv)
  then have "set (subject_filters_for bs) = {}"
    by (simp add: subject_filters_for_def set_sorted_set set_plan_filters)
  then show ?thesis by simp
qed

lemma coarse_filters_cover:
  assumes "b \<in> set bs"
    and "matches eng (rb_subscription b) row (rb_source_id b) (rb_owner_tenant b)"
    and "sig_modality row = Some m" and "m \<in> set KNOWN_MODALITIES"
  shows "delivers_subject \<lparr>cc_filters = wanted_filters (subject_filters_for bs), cc_deliver = d\<rparr>
    (signal_subject (rb_owner_tenant b) (rb_source_id b) m event_class)"
proof -
  let ?sub = "rb_subscription b"
  have "sub_modalities ?sub \<noteq> [] \<Longrightarrow> m \<in> set (sub_modalities ?sub)"
    using assms(2,3) by (simp add: matches_def Let_def any_of_def split: if_splits)
  then obtain mo where mo: "mo \<in> set (binding_modalities ?sub)" "mo = None \<or> mo = Some m"
    using assms(4) by (cases "sub_modalities ?sub = []") (auto simp: binding_modalities_def)
  let ?f = "signal_subject_filter (Some (rb_owner_tenant b)) (Some (rb_source_id b)) mo None"
  have "?f \<in> set (wanted_filters (subject_filters_for bs))"
    using assms(1) mo(1)
    by (intro wanted_filters_keeps) (auto simp: subject_filters_for_def set_sorted_set set_plan_filters)
  with filter_matches_subject [OF mo(2)] show ?thesis
    by (auto simp: delivers_subject_def list_ex_iff)
qed

section \<open>Properties\<close>

text \<open>Coarse delivery is complete. Whenever a target's binding accepts a signal by the exact
  match and the signal's modality is one the planner knows, the durable consumer the target's
  filters create delivers the subject that signal is published on, whatever its event class.\<close>

theorem coarse_delivery_complete:
  assumes "b \<in> set bs"
    and "matches eng (rb_subscription b) row (rb_source_id b) (rb_owner_tenant b)"
    and "sig_modality row = Some m" and "m \<in> set KNOWN_MODALITIES"
  shows "delivers_subject \<lparr>cc_filters = wanted_filters (subject_filters_for bs), cc_deliver = d\<rparr>
    (signal_subject (rb_owner_tenant b) (rb_source_id b) m event_class)"
  by (rule coarse_filters_cover [OF assms])

definition any_binding :: resolved_binding where
  "any_binding = \<lparr>rb_source_id = ''source.x'', rb_owner_tenant = ''default'',
     rb_subscription = default_subscription, rb_via_selector = False\<rparr>"

theorem coarse_delivery_complete_witness:
  "delivers_subject \<lparr>cc_filters = wanted_filters (subject_filters_for [any_binding]), cc_deliver = Deliver_all\<rparr>
     (signal_subject ''default'' ''source.x'' ''text'' ''raw'')"
proof -
  have "matches (\<lambda>_. Compile_refused) default_subscription uuid_row ''source.x'' ''default''"
    by (simp add: matches_def default_subscription_def uuid_row_def residual_matches_def)
  then show ?thesis
    using coarse_delivery_complete [of any_binding "[any_binding]" "\<lambda>_. Compile_refused" uuid_row "''text''" Deliver_all "''raw''"]
    by (simp add: any_binding_def uuid_row_def KNOWN_MODALITIES_def)
qed

text \<open>A target whose bindings ask only for modalities the planner does not know gets the
  opposite of nothing: the planner returns no filter, as it means to, and the consumer created
  from that empty plan delivers every signal on the bus.\<close>

theorem unknown_modalities_deliver_all:
  assumes "\<forall>b \<in> set bs. sub_modalities (rb_subscription b) \<noteq> []
      \<and> set (sub_modalities (rb_subscription b)) \<inter> set KNOWN_MODALITIES = {}"
  shows "subject_filters_for bs = []
    \<and> delivers_subject
        (the (map_of (ensure_durable_consumer [] durable (subject_filters_for bs) d) durable))
        (signal_subject tenant source_id m event_class)"
  using no_known_modality [OF assms] root_matches
  by (simp add: ensure_durable_consumer_def wanted_filters_def sorted_set_def delivers_subject_def
      table_simps)

theorem unknown_modalities_deliver_all_witness:
  "delivers_subject
     (the (map_of (ensure_durable_consumer [] ''target_t''
        (subject_filters_for [any_binding\<lparr>rb_subscription := default_subscription\<lparr>sub_modalities := [''radar'']\<rparr>\<rparr>])
        Deliver_all) ''target_t''))
     (signal_subject ''other'' ''source.y'' ''text'' ''raw'')"
proof -
  let ?b = "any_binding\<lparr>rb_subscription := default_subscription\<lparr>sub_modalities := [''radar'']\<rparr>\<rparr>"
  have "\<forall>b \<in> set [?b]. sub_modalities (rb_subscription b) \<noteq> []
      \<and> set (sub_modalities (rb_subscription b)) \<inter> set KNOWN_MODALITIES = {}"
    by (simp add: KNOWN_MODALITIES_def)
  from unknown_modalities_deliver_all [OF this] show ?thesis by blast
qed

end
