(* ===== verification/TriggerEngine.thy ===== *)
theory TriggerEngine
  imports Coalescer Subjects
begin

text \<open>
  The engine around the coalescer, \<open>runtime/triggers/engine.py\<close>: registrations, the
  per-message handler with its re-check of every registration's bindings, the batch drain and
  the cadence tick. A delivered message is its parsed envelope, or unparseable; acknowledging is
  the handler's result. The asyncio loops that call drain and tick are not modelled: they call
  these operations in any order.
\<close>

section \<open>Registrations\<close>

record trigger_registration =
  tg_analyst_id :: py_str
  tg_target_id :: py_str
  tg_tenant :: py_str
  tg_bindings :: "resolved_binding list"
  tg_subject_filters :: "py_str list"

fun any_binding_matches :: "predicate_engine \<Rightarrow> resolved_binding list \<Rightarrow> signal_row \<Rightarrow> bool" where
  "any_binding_matches eng [] row = False"
| "any_binding_matches eng (b # bs) row =
     (if matches eng (rb_subscription b) row (rb_source_id b) (rb_owner_tenant b) then True
      else any_binding_matches eng bs row)"

definition matches_signal :: "predicate_engine \<Rightarrow> trigger_registration \<Rightarrow> signal_row \<Rightarrow> bool" where
  "matches_signal eng reg row = any_binding_matches eng (tg_bindings reg) row"

record 'r trigger_engine =
  te_regs :: "trigger_registration list"
  te_coalescer :: "'r coalescer"
  te_delivered :: nat
  te_matched :: nat
  te_fired :: nat

definition register :: "'r trigger_engine \<Rightarrow> trigger_registration \<Rightarrow> 'r trigger_engine" where
  "register e reg = e\<lparr>te_regs := te_regs e @ [reg]\<rparr>"

definition unregister ::
  "'r trigger_engine \<Rightarrow> py_str \<Rightarrow> py_str option \<Rightarrow> 'r trigger_engine \<times> nat" where
  "unregister e analyst_id target_id =
     (let kept = filter (\<lambda>r. \<not> (tg_analyst_id r = analyst_id
                                \<and> (target_id = None \<or> Some (tg_target_id r) = target_id))) (te_regs e)
      in (e\<lparr>te_regs := kept\<rparr>, length (te_regs e) - length kept))"

definition all_subject_filters :: "'r trigger_engine \<Rightarrow> py_str list" where
  "all_subject_filters e = sorted_set (concat (map tg_subject_filters (te_regs e)))"

definition ensure_consumer :: "consumers \<Rightarrow> 'r trigger_engine \<Rightarrow> py_str \<Rightarrow> py_str \<Rightarrow> consumers" where
  "ensure_consumer cs e stream durable =
     ensure_durable_consumer cs durable
       (if all_subject_filters e \<noteq> [] then all_subject_filters e else [stream @ ''.>'']) Deliver_new"

section \<open>Messages\<close>

text \<open>A parsed envelope: the row's keys, whether it has an \<open>id\<close> key, and its
  \<open>signal_id\<close> key when present.\<close>

record envelope =
  en_row :: signal_row
  en_has_id :: bool
  en_signal_id :: "py_str option option"

datatype message = Unparseable | Parsed envelope

datatype ack = Acked | Termed | Unacked

definition normalise :: "envelope \<Rightarrow> signal_row" where
  "normalise env =
     (if \<not> en_has_id env \<and> en_signal_id env \<noteq> None
      then (en_row env)\<lparr>sig_id := the (en_signal_id env)\<rparr> else en_row env)"

text \<open>The loop over the registrations; an exception of the coalescer ends it.\<close>

fun offer ::
  "'r runner \<Rightarrow> predicate_engine \<Rightarrow> policy_resolver \<Rightarrow> nat \<Rightarrow> instant \<Rightarrow> instant \<Rightarrow> signal_row
     \<Rightarrow> trigger_registration list \<Rightarrow> 'r trigger_engine \<Rightarrow> run_result list
     \<Rightarrow> 'r trigger_engine \<times> (dispatch_error + run_result list)" where
  "offer run eng policy_for cap db_now now row [] e results = (e, Inr results)"
| "offer run eng policy_for cap db_now now row (reg # regs) e results =
     (if \<not> matches_signal eng reg row
      then offer run eng policy_for cap db_now now row regs e results
      else case on_signal run policy_for cap db_now (te_coalescer e)
                  (tg_analyst_id reg, tg_target_id reg) (tg_tenant reg) row now of
             (co, out) \<Rightarrow>
               (let e1 = e\<lparr>te_matched := te_matched e + 1, te_coalescer := co\<rparr> in
                case out of
                  Inl err \<Rightarrow> (e1, Inl err)
                | Inr None \<Rightarrow> offer run eng policy_for cap db_now now row regs e1 results
                | Inr (Some res) \<Rightarrow>
                    offer run eng policy_for cap db_now now row regs
                      (e1\<lparr>te_fired := te_fired e1 + 1\<rparr>) (results @ [res])))"

definition handle_msg ::
  "'r runner \<Rightarrow> predicate_engine \<Rightarrow> policy_resolver \<Rightarrow> nat \<Rightarrow> instant \<Rightarrow> instant \<Rightarrow> message
     \<Rightarrow> 'r trigger_engine \<Rightarrow> 'r trigger_engine \<times> (dispatch_error + run_result list) \<times> ack" where
  "handle_msg run eng policy_for cap db_now now msg e =
     (let e1 = e\<lparr>te_delivered := te_delivered e + 1\<rparr> in
      case msg of
        Unparseable \<Rightarrow> (e1, Inr [], Termed)
      | Parsed env \<Rightarrow>
          (case offer run eng policy_for cap db_now now (normalise env) (te_regs e1) e1 [] of
             (e2, Inl err) \<Rightarrow> (e2, Inl err, Unacked)
           | (e2, Inr results) \<Rightarrow> (e2, Inr results, Acked)))"

text \<open>One drained batch; each message comes with the clocks it is handled at.\<close>

fun drain_once ::
  "'r runner \<Rightarrow> predicate_engine \<Rightarrow> policy_resolver \<Rightarrow> nat \<Rightarrow> (instant \<times> instant \<times> message) list
     \<Rightarrow> 'r trigger_engine \<Rightarrow> run_result list \<Rightarrow> ack list
     \<Rightarrow> 'r trigger_engine \<times> (dispatch_error + run_result list) \<times> ack list" where
  "drain_once run eng policy_for cap [] e out acks = (e, Inr out, acks)"
| "drain_once run eng policy_for cap ((db_now, now, msg) # msgs) e out acks =
     (case handle_msg run eng policy_for cap db_now now msg e of
        (e', Inl err, a) \<Rightarrow> (e', Inl err, acks @ [a])
      | (e', Inr results, a) \<Rightarrow> drain_once run eng policy_for cap msgs e' (out @ results) (acks @ [a]))"

definition tick_once ::
  "'r runner \<Rightarrow> policy_resolver \<Rightarrow> nat \<Rightarrow> instant \<Rightarrow> instant \<Rightarrow> 'r trigger_engine
     \<Rightarrow> 'r trigger_engine \<times> (dispatch_error + run_result list)" where
  "tick_once run policy_for cap db_now now e =
     (case on_cadence_tick run policy_for cap db_now now (te_coalescer e) of
        (co, Inl err) \<Rightarrow> (e\<lparr>te_coalescer := co\<rparr>, Inl err)
      | (co, Inr res) \<Rightarrow> (e\<lparr>te_coalescer := co, te_fired := te_fired e + length res\<rparr>, Inr res))"

section \<open>Lemmas\<close>

lemma any_binding_matches_iff:
  "any_binding_matches eng bs row \<longleftrightarrow>
     (\<exists>b \<in> set bs. matches eng (rb_subscription b) row (rb_source_id b) (rb_owner_tenant b))"
  by (induction bs) auto

text \<open>What a call for one pair leaves alone: every other pair's row and every dispatch of
  another pair.\<close>

definition same_pair :: "pair_key \<Rightarrow> runner_state coalescer \<Rightarrow> runner_state coalescer \<Rightarrow> bool" where
  "same_pair k co co' \<longleftrightarrow>
     map_of (co_table co') k = map_of (co_table co) k
     \<and> filter (\<lambda>f. fire_key f = k) (rs_fires (co_runner co'))
         = filter (\<lambda>f. fire_key f = k) (rs_fires (co_runner co))"

lemma same_pair_refl: "same_pair k co co"
  by (simp add: same_pair_def)

lemma same_pair_trans: "same_pair k a b \<Longrightarrow> same_pair k b c \<Longrightarrow> same_pair k a c"
  by (simp add: same_pair_def)

lemma fire_key_fire_for: "fire_key (fire_for p k tenant acc now seed) = k"
  by (simp add: fire_key_def fire_for_def Let_def)

lemma claim_fire_other: "claim_fire n t k e f = (t', w) \<Longrightarrow> k' \<noteq> k \<Longrightarrow> map_of t' k' = map_of t k'"
  by (auto simp: claim_fire_def dest: claim_update_other simp: claim_insert_other)

lemma save_dirty_other: "k' \<noteq> k \<Longrightarrow> map_of (save_dirty n t k tenant acc) k' = map_of t k'"
  by (simp add: save_dirty_def table_simps split: option.split)

lemma maybe_fire_same_pair:
  assumes "k' \<noteq> k"
  shows "same_pair k' co (fst (maybe_fire (actor_run work) policy n co k tenant acc now seed))"
proof -
  obtain t b where claim: "claim_fire n (co_table co) k (last_fired_at acc) now = (t, b)" by fastforce
  obtain r out where run: "actor_run work (co_runner co) (fire_for policy k tenant acc now seed) = (r, Inr out)"
    using actor_run_ok [of work "co_runner co"] by (metis prod.collapse)
  have log: "rs_fires r = rs_fires (co_runner co) @ [fire_for policy k tenant acc now seed]"
    using actor_run_log [of work "co_runner co"] run by (metis fst_conv)
  show ?thesis
    using claim run log claim_fire_other [OF claim assms] assms
    by (simp add: maybe_fire_def same_pair_def fire_key_fire_for Let_def)
qed

lemma on_signal_same_pair:
  assumes "k' \<noteq> k"
  shows "same_pair k' co (fst (on_signal (actor_run work) policy_for cap n co k tenant row now))"
proof -
  obtain acc' counted where dirty: "apply_dirty (get_acc (co_table co) k cap) (canonical_id_of row)
    (severity_of row) (Some now) = (acc', counted)" by fastforce
  have "same_pair k' co (co\<lparr>co_table := save_dirty n (co_table co) k tenant acc'\<rparr>)"
    using assms by (simp add: same_pair_def save_dirty_other)
  then show ?thesis
    using dirty maybe_fire_same_pair [OF assms] same_pair_trans
    by (auto simp: on_signal_def same_pair_refl)
qed

lemma maybe_fire_total: "\<exists>res. snd (maybe_fire (actor_run work) policy n co k tenant acc now seed) = Inr res"
proof -
  obtain t b where claim: "claim_fire n (co_table co) k (last_fired_at acc) now = (t, b)" by fastforce
  obtain r out where run: "actor_run work (co_runner co) (fire_for policy k tenant acc now seed) = (r, Inr out)"
    using actor_run_ok [of work "co_runner co"] by (metis prod.collapse)
  show ?thesis using claim run by (simp add: maybe_fire_def Let_def)
qed

lemma on_signal_total: "\<exists>res. snd (on_signal (actor_run work) policy_for cap n co k tenant row now) = Inr res"
proof -
  obtain acc' counted where "apply_dirty (get_acc (co_table co) k cap) (canonical_id_of row)
    (severity_of row) (Some now) = (acc', counted)" by fastforce
  then show ?thesis using maybe_fire_total by (simp add: on_signal_def)
qed

lemma offer_regs: "te_regs (fst (offer run eng pf cap n now row regs e results)) = te_regs e"
  by (induction regs arbitrary: e results) (auto simp: Let_def split: prod.split sum.split option.split)

lemma offer_total:
  "\<exists>res. snd (offer (actor_run work) eng pf cap n now row regs e results) = Inr res"
proof (induction regs arbitrary: e results)
  case (Cons reg regs)
  obtain co out where sig: "on_signal (actor_run work) pf cap n (te_coalescer e)
      (tg_analyst_id reg, tg_target_id reg) (tg_tenant reg) row now = (co, Inr out)"
    using on_signal_total by (metis prod.collapse)
  then show ?case using Cons by (cases out) (auto simp: Let_def)
qed simp

lemma offer_same_pair:
  assumes "\<forall>reg \<in> set regs. matches_signal eng reg row \<longrightarrow> (tg_analyst_id reg, tg_target_id reg) \<noteq> k"
  shows "same_pair k (te_coalescer e)
    (te_coalescer (fst (offer (actor_run work) eng pf cap n now row regs e results)))"
  using assms
proof (induction regs arbitrary: e results)
  case (Cons reg regs)
  show ?case
  proof (cases "matches_signal eng reg row")
    case True
    obtain co out where sig: "on_signal (actor_run work) pf cap n (te_coalescer e)
        (tg_analyst_id reg, tg_target_id reg) (tg_tenant reg) row now = (co, Inr out)"
      using on_signal_total by (metis prod.collapse)
    have "same_pair k (te_coalescer e) co"
      using on_signal_same_pair [of k "(tg_analyst_id reg, tg_target_id reg)" "te_coalescer e" work pf cap n "tg_tenant reg" row now]
        sig Cons.prems True by auto
    moreover have "same_pair k (te_coalescer e1)
      (te_coalescer (fst (offer (actor_run work) eng pf cap n now row regs e1 rs)))" for e1 rs
      using Cons by simp
    moreover have "\<exists>e1 rs. te_coalescer e1 = co
        \<and> offer (actor_run work) eng pf cap n now row (reg # regs) e results =
          offer (actor_run work) eng pf cap n now row regs e1 rs"
    proof (cases out)
      case None
      with True sig show ?thesis
        by (intro exI [of _ "e\<lparr>te_matched := te_matched e + 1, te_coalescer := co\<rparr>"]) (auto simp: Let_def)
    next
      case (Some res)
      with True sig show ?thesis
        by (intro exI [of _ "e\<lparr>te_matched := te_matched e + 1, te_coalescer := co, te_fired := te_fired e + 1\<rparr>"])
           (auto simp: Let_def)
    qed
    ultimately show ?thesis by (metis same_pair_trans)
  qed (use Cons in simp)
qed (simp add: same_pair_refl)

lemma handle_msg_regs: "te_regs (fst (handle_msg run eng pf cap n now msg e)) = te_regs e"
proof (cases msg)
  case (Parsed env)
  have "te_regs (fst (offer run eng pf cap n now (normalise env) (te_regs e)
      (e\<lparr>te_delivered := te_delivered e + 1\<rparr>) [])) = te_regs e"
    by (simp add: offer_regs)
  with Parsed show ?thesis by (auto simp: handle_msg_def Let_def split: prod.split sum.split)
qed (simp add: handle_msg_def)

lemma handle_msg_total:
  "\<exists>res a. snd (handle_msg (actor_run work) eng pf cap n now msg e) = (Inr res, a) \<and> a \<noteq> Unacked"
proof (cases msg)
  case (Parsed env)
  obtain e2 res where "offer (actor_run work) eng pf cap n now (normalise env) (te_regs e)
      (e\<lparr>te_delivered := te_delivered e + 1\<rparr>) [] = (e2, Inr res)"
    using offer_total by (metis prod.collapse)
  with Parsed show ?thesis by (simp add: handle_msg_def)
qed (simp add: handle_msg_def)

lemma offer_delivered: "te_delivered (fst (offer run eng pf cap n now row regs e results)) = te_delivered e"
  by (induction regs arbitrary: e results) (auto simp: Let_def split: prod.split sum.split option.split)

lemma handle_msg_delivered:
  "te_delivered (fst (handle_msg run eng pf cap n now msg e)) = te_delivered e + 1"
proof (cases msg)
  case (Parsed env)
  have "te_delivered (fst (offer run eng pf cap n now (normalise env) (te_regs e)
      (e\<lparr>te_delivered := te_delivered e + 1\<rparr>) [])) = te_delivered e + 1"
    by (simp add: offer_delivered)
  with Parsed show ?thesis by (auto simp: handle_msg_def Let_def split: prod.split sum.split)
qed (simp add: handle_msg_def)

lemma drain_once_sound:
  "\<exists>e' res acks'. drain_once (actor_run work) eng pf cap msgs e out acks = (e', Inr res, acks @ acks')
     \<and> length acks' = length msgs \<and> Unacked \<notin> set acks' \<and> te_regs e' = te_regs e
     \<and> te_delivered e' = te_delivered e + length msgs"
proof (induction msgs arbitrary: e out acks)
  case (Cons m msgs)
  obtain n now msg where m: "m = (n, now, msg)" by (cases m)
  obtain e1 res a where h: "handle_msg (actor_run work) eng pf cap n now msg e = (e1, Inr res, a)" "a \<noteq> Unacked"
    using handle_msg_total by (metis prod.collapse)
  have regs: "te_regs e1 = te_regs e"
    using handle_msg_regs h(1) by (metis fst_conv)
  have count: "te_delivered e1 = te_delivered e + 1"
    using handle_msg_delivered [of "actor_run work" eng pf cap n now msg e] h(1) by simp
  obtain e' res' acks' where IH: "drain_once (actor_run work) eng pf cap msgs e1 (out @ res) (acks @ [a]) =
      (e', Inr res', (acks @ [a]) @ acks')" "length acks' = length msgs" "Unacked \<notin> set acks'"
      "te_regs e' = te_regs e1" "te_delivered e' = te_delivered e1 + length msgs"
    using Cons.IH by blast
  show ?case
    by (rule exI [of _ e'], rule exI [of _ res'], rule exI [of _ "a # acks'"])
       (use m h regs count IH in simp)
qed simp

lemma handle_msg_same_pair:
  assumes "\<forall>reg \<in> set (te_regs e). (tg_analyst_id reg, tg_target_id reg) \<noteq> k"
  shows "same_pair k (te_coalescer e) (te_coalescer (fst (handle_msg (actor_run work) eng pf cap n now msg e)))"
proof (cases msg)
  case (Parsed env)
  obtain e2 res where o: "offer (actor_run work) eng pf cap n now (normalise env) (te_regs e)
      (e\<lparr>te_delivered := te_delivered e + 1\<rparr>) [] = (e2, Inr res)"
    using offer_total by (metis prod.collapse)
  have "same_pair k (te_coalescer e) (te_coalescer e2)"
    using offer_same_pair [of "te_regs e" eng "normalise env" k "e\<lparr>te_delivered := te_delivered e + 1\<rparr>" work pf cap n now "[]"]
      assms o by simp
  with Parsed o show ?thesis by (simp add: handle_msg_def)
qed (simp add: handle_msg_def same_pair_refl)

lemma drain_same_pair:
  assumes "\<forall>reg \<in> set (te_regs e). (tg_analyst_id reg, tg_target_id reg) \<noteq> k"
  shows "same_pair k (te_coalescer e)
    (te_coalescer (fst (drain_once (actor_run work) eng pf cap msgs e out acks)))"
  using assms
proof (induction msgs arbitrary: e out acks)
  case (Cons m msgs)
  obtain n now msg where m: "m = (n, now, msg)" by (cases m)
  obtain e1 res a where h: "handle_msg (actor_run work) eng pf cap n now msg e = (e1, Inr res, a)"
    using handle_msg_total by (metis prod.collapse)
  have "te_regs e1 = te_regs e"
    using handle_msg_regs h by (metis fst_conv)
  then have "same_pair k (te_coalescer e1)
      (te_coalescer (fst (drain_once (actor_run work) eng pf cap msgs e1 (out @ res) (acks @ [a]))))"
    using Cons by simp
  moreover have "same_pair k (te_coalescer e) (te_coalescer e1)"
    using handle_msg_same_pair [OF Cons.prems] h by (metis fst_conv)
  ultimately show ?case using m h same_pair_trans by simp
qed (simp add: same_pair_refl)

section \<open>Properties\<close>

text \<open>With the production runner a drained batch never raises and settles every message:
  each one is acknowledged or, when it does not parse, terminated; none is left pending, the
  registrations do not change and every message is counted once. This holds whatever the work
  callable does, crashes included.\<close>

theorem drain_settles_every_message:
  "\<exists>e' results acks. drain_once (actor_run work) eng policy_for cap msgs e [] [] = (e', Inr results, acks)
     \<and> length acks = length msgs \<and> Unacked \<notin> set acks
     \<and> te_regs e' = te_regs e \<and> te_delivered e' = te_delivered e + length msgs"
  using drain_once_sound [of work eng policy_for cap msgs e "[]" "[]"] by simp

text \<open>Retiring an analyst silences its signal path. After the analyst's registrations are
  removed, no batch of messages whatsoever changes the trigger row of any of its pairs or
  dispatches any of them, and the other analysts' registrations are all kept in order.\<close>

theorem unregistered_analyst_is_silent:
  "same_pair (analyst, target) (te_coalescer e)
     (te_coalescer (fst (drain_once (actor_run work) eng policy_for cap msgs
        (fst (unregister e analyst None)) out acks)))
   \<and> te_regs (fst (unregister e analyst None)) = filter (\<lambda>r. tg_analyst_id r \<noteq> analyst) (te_regs e)"
proof -
  let ?e = "fst (unregister e analyst None)"
  have regs: "te_regs ?e = filter (\<lambda>r. tg_analyst_id r \<noteq> analyst) (te_regs e)"
    and co: "te_coalescer ?e = te_coalescer e"
    by (simp_all add: unregister_def Let_def)
  have "same_pair (analyst, target) (te_coalescer ?e)
      (te_coalescer (fst (drain_once (actor_run work) eng policy_for cap msgs ?e out acks)))"
    by (rule drain_same_pair) (simp add: regs)
  with regs co show ?thesis by simp
qed

end
