(* ===== verification/SubPolicy.thy ===== *)
theory SubPolicy
  imports Signals
begin

text \<open>
  Who may subscribe, \<open>runtime/subscription/policy.py\<close>: the policy slice read from a source
  descriptor, the decision table, and subscription grants stored as head rows of
  \<open>wiring_descriptors\<close>. A descriptor body is its parsed JSON (\<open>None\<close> for a null
  body). The version token of a new grant is an argument, the source computes it from Python's
  per-process string hash. The theory ends with the grant book as an interface.
\<close>

section \<open>Sources and their policies\<close>

definition SHARED_TENANT :: py_str where "SHARED_TENANT = ''shared''"

record source_descriptor =
  sd_descriptor_id :: py_str
  sd_kind :: py_str
  sd_state :: py_str
  sd_is_head :: bool
  sd_body :: "json_dict option"

record source_policy =
  sp_source_id :: py_str
  sp_owner_tenant :: py_str
  sp_subscription_policy :: py_str
  sp_allowed_targets :: "py_str list"
  sp_allowed_tenants :: "py_str list"

text \<open>\<^verbatim>\<open>(body or {}).get(k)\<close> on a null body, and the list of strings of a JSON array.\<close>

definition body_get :: "json_dict option \<Rightarrow> py_str \<Rightarrow> json option" where
  "body_get body k = (case body of None \<Rightarrow> None | Some d \<Rightarrow> map_of d k)"

definition body_scope :: "json_dict option \<Rightarrow> json_dict" where
  "body_scope body = (case body_get body ''scope'' of Some (J_object d) \<Rightarrow> d | _ \<Rightarrow> [])"

definition str_or :: "json option \<Rightarrow> py_str \<Rightarrow> py_str" where
  "str_or v dflt = (case json_str v of None \<Rightarrow> dflt | Some s \<Rightarrow> s)"

definition str_list :: "json option \<Rightarrow> py_str list" where
  "str_list v = (case v of Some (J_list xs) \<Rightarrow> [s. J_str s \<leftarrow> xs] | _ \<Rightarrow> [])"

definition policy_of_descriptor :: "py_str \<Rightarrow> json_dict option \<Rightarrow> source_policy" where
  "policy_of_descriptor source_id body =
     \<lparr>sp_source_id = source_id,
      sp_owner_tenant = str_or (map_of (body_scope body) ''owner_tenant'') ''default'',
      sp_subscription_policy = str_or (body_get body ''subscription_policy'') ''open'',
      sp_allowed_targets = str_list (body_get body ''allowed_targets''),
      sp_allowed_tenants = str_list (body_get body ''allowed_tenants'')\<rparr>"

definition load_source_policy :: "source_descriptor list \<Rightarrow> py_str \<Rightarrow> source_policy option" where
  "load_source_policy sources source_id =
     (case find (\<lambda>d. sd_descriptor_id d = source_id \<and> sd_is_head d) sources of
        None \<Rightarrow> None
      | Some d \<Rightarrow> Some (policy_of_descriptor source_id (sd_body d)))"

section \<open>Grants\<close>

record wiring_row =
  wr_descriptor_id :: py_str
  wr_version :: py_str
  wr_is_head :: bool
  wr_state :: py_str
  wr_owner :: py_str
  wr_body :: json_dict

definition grant_descriptor_id :: "py_str \<Rightarrow> py_str \<Rightarrow> py_str" where
  "grant_descriptor_id source_id target_id =
     ''subgrant.'' @ replace_char (CHR ''.'') (CHR ''_'') source_id @ ''.'' @ target_id"

definition head_of :: "wiring_row list \<Rightarrow> py_str \<Rightarrow> wiring_row option" where
  "head_of ws gid = find (\<lambda>w. wr_descriptor_id w = gid \<and> wr_is_head w) ws"

definition honoured :: "wiring_row \<Rightarrow> bool" where
  "honoured w \<longleftrightarrow> wr_state w \<notin> {''retired'', ''revoked''}"

definition grant_exists :: "wiring_row list \<Rightarrow> py_str \<Rightarrow> py_str \<Rightarrow> bool" where
  "grant_exists ws source_id target_id =
     (case head_of ws (grant_descriptor_id source_id target_id) of
        None \<Rightarrow> False
      | Some w \<Rightarrow> honoured w)"

definition grant_body :: "py_str \<Rightarrow> py_str \<Rightarrow> py_str \<Rightarrow> json_dict" where
  "grant_body source_id target_id reason =
     [(''kind'', J_str ''subscription_grant''), (''source_id'', J_str source_id),
      (''target_id'', J_str target_id), (''reason'', J_str reason)]"

text \<open>The INSERT with its ON CONFLICT (descriptor_id, version) clause.\<close>

definition upsert_grant :: "wiring_row list \<Rightarrow> wiring_row \<Rightarrow> wiring_row list" where
  "upsert_grant ws new =
     (if list_ex (\<lambda>w. wr_descriptor_id w = wr_descriptor_id new \<and> wr_version w = wr_version new) ws
      then map (\<lambda>w. if wr_descriptor_id w = wr_descriptor_id new \<and> wr_version w = wr_version new
                     then w\<lparr>wr_is_head := True, wr_state := ''active'', wr_body := wr_body new\<rparr>
                     else w) ws
      else ws @ [new])"

definition write_grant ::
  "wiring_row list \<Rightarrow> py_str \<Rightarrow> py_str \<Rightarrow> py_str \<Rightarrow> py_str \<Rightarrow> py_str \<Rightarrow> wiring_row list \<times> py_str" where
  "write_grant ws version source_id target_id owner reason =
     (let gid = grant_descriptor_id source_id target_id;
          existing = head_of ws gid;
          new = \<lparr>wr_descriptor_id = gid, wr_version = version, wr_is_head = True,
                 wr_state = ''active'', wr_owner = owner,
                 wr_body = grant_body source_id target_id reason\<rparr>
      in if (case existing of None \<Rightarrow> False | Some w \<Rightarrow> honoured w) then (ws, gid)
         else let ws1 = (if existing \<noteq> None
                         then map (\<lambda>w. if wr_descriptor_id w = gid \<and> wr_is_head w
                                        then w\<lparr>wr_is_head := False\<rparr> else w) ws
                         else ws)
              in (upsert_grant ws1 new, gid))"

definition revoke_grant :: "wiring_row list \<Rightarrow> py_str \<Rightarrow> py_str \<Rightarrow> wiring_row list \<times> bool" where
  "revoke_grant ws source_id target_id =
     (let gid = grant_descriptor_id source_id target_id in
      case head_of ws gid of
        None \<Rightarrow> (ws, False)
      | Some h \<Rightarrow>
          (map (\<lambda>w. if wr_descriptor_id w = gid \<and> wr_version w = wr_version h
                     then w\<lparr>wr_state := ''revoked''\<rparr> else w) ws, True))"

section \<open>The decision table\<close>

datatype refusal = Cross_tenant | Not_allowlisted | No_grant | Unknown_policy

record policy_error =
  pe_source_id :: py_str
  pe_target_id :: py_str
  pe_policy :: py_str
  pe_reason :: refusal

definition enforce_subscription ::
  "wiring_row list \<Rightarrow> source_policy \<Rightarrow> py_str \<Rightarrow> py_str \<Rightarrow> policy_error + unit" where
  "enforce_subscription ws src target_id target_tenant =
     (let policy = sp_subscription_policy src;
          same_tenant = (target_tenant = sp_owner_tenant src \<or> sp_owner_tenant src = SHARED_TENANT);
          refuse = (\<lambda>r. Inl \<lparr>pe_source_id = sp_source_id src, pe_target_id = target_id,
                               pe_policy = policy, pe_reason = r\<rparr>)
      in if policy = ''open'' then (if \<not> same_tenant then refuse Cross_tenant else Inr ())
         else if policy = ''allowlist'' then
           (if target_id \<in> set (sp_allowed_targets src) then Inr ()
            else if target_tenant \<in> set (sp_allowed_tenants src) then Inr ()
            else refuse Not_allowlisted)
         else if policy = ''grant'' then
           (if grant_exists ws (sp_source_id src) target_id then Inr () else refuse No_grant)
         else refuse Unknown_policy)"

section \<open>Lemmas\<close>

text \<open>The table's invariant: (id, version) is a key and each id has at most one head.\<close>

definition wirings_ok :: "wiring_row list \<Rightarrow> bool" where
  "wirings_ok ws \<longleftrightarrow>
     distinct (map (\<lambda>w. (wr_descriptor_id w, wr_version w)) ws)
     \<and> (\<forall>gid. length (filter (\<lambda>w. wr_descriptor_id w = gid \<and> wr_is_head w) ws) \<le> 1)"

definition flatten :: "py_str \<Rightarrow> py_str" where
  "flatten s = replace_char (CHR ''.'') (CHR ''_'') s"

lemma dotless_prefix:
  "a @ c # b = a' @ c # b' \<Longrightarrow> c \<notin> set a \<Longrightarrow> c \<notin> set a' \<Longrightarrow> a = a' \<and> b = b'"
proof (induction a arbitrary: a')
  case Nil
  then show ?case by (cases a') auto
next
  case (Cons x a)
  then show ?case by (cases a') auto
qed

text \<open>Two pairs share a grant id exactly when the sources agree up to dots and underscores.\<close>

lemma grant_id_eq:
  "grant_descriptor_id s t = grant_descriptor_id s' t' \<longleftrightarrow> flatten s = flatten s' \<and> t = t'"
proof
  assume "grant_descriptor_id s t = grant_descriptor_id s' t'"
  then have "flatten s @ CHR ''.'' # t = flatten s' @ CHR ''.'' # t'"
    by (simp add: grant_descriptor_id_def flatten_def)
  then show "flatten s = flatten s' \<and> t = t'"
    by (rule dotless_prefix) (simp_all add: flatten_def replace_char_gone)
qed (simp add: grant_descriptor_id_def flatten_def)

definition head_rows :: "wiring_row list \<Rightarrow> py_str \<Rightarrow> wiring_row list" where
  "head_rows ws gid = filter (\<lambda>w. wr_descriptor_id w = gid \<and> wr_is_head w) ws"

lemma head_of_heads: "head_of ws gid = (case head_rows ws gid of [] \<Rightarrow> None | w # _ \<Rightarrow> Some w)"
  by (induction ws) (auto simp: head_of_def head_rows_def)

lemma grant_exists_heads:
  "length (head_rows ws (grant_descriptor_id s t)) \<le> 1 \<Longrightarrow>
     grant_exists ws s t \<longleftrightarrow> (\<exists>w. head_rows ws (grant_descriptor_id s t) = [w] \<and> honoured w)"
  by (cases "head_rows ws (grant_descriptor_id s t)") (auto simp: grant_exists_def head_of_heads)

lemma wirings_ok_heads: "wirings_ok ws \<Longrightarrow> length (head_rows ws gid) \<le> 1"
  by (simp add: wirings_ok_def head_rows_def)

lemma key_map_unchanged:
  "(\<And>w. wr_descriptor_id (f w) = wr_descriptor_id w \<and> wr_version (f w) = wr_version w) \<Longrightarrow>
     map (\<lambda>w. (wr_descriptor_id w, wr_version w)) (map f ws) = map (\<lambda>w. (wr_descriptor_id w, wr_version w)) ws"
  by simp

text \<open>Revoking.\<close>

lemma revoke_same:
  assumes ok: "wirings_ok ws" and h: "head_of ws gid = Some h"
    and ws': "ws' = map (\<lambda>w. if wr_descriptor_id w = gid \<and> wr_version w = wr_version h
                     then w\<lparr>wr_state := ''revoked''\<rparr> else w) ws"
  shows "head_rows ws' gid = [h\<lparr>wr_state := ''revoked''\<rparr>] \<and> (\<forall>g. g \<noteq> gid \<longrightarrow> head_rows ws' g = head_rows ws g)
    \<and> wirings_ok ws'"
proof -
  have one: "head_rows ws gid = [h]"
    using h wirings_ok_heads [OF ok, of gid]
    by (auto simp: head_of_heads split: list.splits)
  let ?f = "\<lambda>w. if wr_descriptor_id w = gid \<and> wr_version w = wr_version h
                     then w\<lparr>wr_state := ''revoked''\<rparr> else w"
  have heads': "head_rows ws' g = map ?f (head_rows ws g)" for g
    unfolding ws' head_rows_def by (induction ws) auto
  have "h \<in> set (head_rows ws gid)" using one by simp
  then have "wr_descriptor_id h = gid" by (simp add: head_rows_def)
  moreover have "map ?f (head_rows ws g) = head_rows ws g" if "g \<noteq> gid" for g
    using that by (intro map_idI) (auto simp: head_rows_def)
  moreover have "length (head_rows ws' g) \<le> 1" for g
    using wirings_ok_heads [OF ok, of g] by (simp add: heads')
  moreover have "map (\<lambda>w. (wr_descriptor_id w, wr_version w)) ws' = map (\<lambda>w. (wr_descriptor_id w, wr_version w)) ws"
    by (simp add: ws')
  ultimately show ?thesis
    using ok one by (simp add: heads' wirings_ok_def flip: head_rows_def)
qed

text \<open>Granting: demote the heads of the id, then upsert one active head.\<close>

lemma demote_heads:
  assumes "ws' = map (\<lambda>w. if wr_descriptor_id w = gid \<and> wr_is_head w
                                        then w\<lparr>wr_is_head := False\<rparr> else w) ws"
  shows "head_rows ws' g = (if g = gid then [] else head_rows ws g)"
  unfolding assms head_rows_def by (induction ws) auto

lemma upsert_heads:
  assumes keys: "distinct (map (\<lambda>w. (wr_descriptor_id w, wr_version w)) ws)"
    and none: "head_rows ws (wr_descriptor_id new) = []" and new: "wr_is_head new" "wr_state new = ''active''"
  shows "(\<exists>w. head_rows (upsert_grant ws new) (wr_descriptor_id new) = [w] \<and> wr_state w = ''active'')
    \<and> (\<forall>g. g \<noteq> wr_descriptor_id new \<longrightarrow> head_rows (upsert_grant ws new) g = head_rows ws g)
    \<and> distinct (map (\<lambda>w. (wr_descriptor_id w, wr_version w)) (upsert_grant ws new))"
proof (cases "list_ex (\<lambda>w. wr_descriptor_id w = wr_descriptor_id new \<and> wr_version w = wr_version new) ws")
  case True
  let ?hit = "\<lambda>w. wr_descriptor_id w = wr_descriptor_id new \<and> wr_version w = wr_version new"
  let ?f = "\<lambda>w. if ?hit w then w\<lparr>wr_is_head := True, wr_state := ''active'', wr_body := wr_body new\<rparr> else w"
  obtain ys w zs where split: "ws = ys @ w # zs" "?hit w" "\<forall>y \<in> set ys. \<not> ?hit y"
    using True split_list_first_prop [of ws ?hit] by (auto simp: list_ex_iff)
  have "(wr_descriptor_id new, wr_version new) \<notin> (\<lambda>w. (wr_descriptor_id w, wr_version w)) ` set zs"
    using keys split by simp
  then have later: "\<forall>z \<in> set zs. \<not> ?hit z" by (metis (mono_tags, lifting) rev_image_eqI)
  have idle: "map ?f ys = ys" "map ?f zs = zs"
    using split(3) later by (auto intro!: map_idI)
  have ups: "upsert_grant ws new = ys @ ?f w # zs"
    using True idle split(1) by (simp add: upsert_grant_def)
  have quiet: "head_rows ys (wr_descriptor_id new) = []" "head_rows zs (wr_descriptor_id new) = []"
    using none split(1) by (auto simp: head_rows_def split: if_splits)
  show ?thesis
    unfolding ups using split quiet keys by (auto simp: head_rows_def)
next
  case False
  then have "upsert_grant ws new = ws @ [new]" by (simp add: upsert_grant_def)
  with False keys none new show ?thesis by (auto simp: head_rows_def list_ex_iff)
qed

lemma write_grant_heads:
  assumes ok: "wirings_ok ws"
  shows "wirings_ok (fst (write_grant ws v s t owner reason))
    \<and> (\<exists>w. head_rows (fst (write_grant ws v s t owner reason)) (grant_descriptor_id s t) = [w] \<and> honoured w)
    \<and> (\<forall>g. g \<noteq> grant_descriptor_id s t \<longrightarrow> head_rows (fst (write_grant ws v s t owner reason)) g = head_rows ws g)"
proof -
  let ?gid = "grant_descriptor_id s t"
  have le1: "length (head_rows ws g) \<le> 1" for g by (rule wirings_ok_heads [OF ok])
  show ?thesis
  proof (cases "case head_of ws ?gid of None \<Rightarrow> False | Some w \<Rightarrow> honoured w")
    case True
    then obtain w where "head_of ws ?gid = Some w" "honoured w" by (auto split: option.splits)
    moreover from this have "head_rows ws ?gid = [w]"
      using le1 [of ?gid] by (auto simp: head_of_heads split: list.splits)
    ultimately show ?thesis using True ok by (auto simp: write_grant_def Let_def)
  next
    case False
    let ?new = "\<lparr>wr_descriptor_id = ?gid, wr_version = v, wr_is_head = True, wr_state = ''active'',
      wr_owner = owner, wr_body = grant_body s t reason\<rparr>"
    let ?dem = "map (\<lambda>w. if wr_descriptor_id w = ?gid \<and> wr_is_head w then w\<lparr>wr_is_head := False\<rparr> else w) ws"
    let ?ws1 = "if head_of ws ?gid \<noteq> None then ?dem else ws"
    have res: "fst (write_grant ws v s t owner reason) = upsert_grant ?ws1 ?new"
      using False by (simp add: write_grant_def Let_def)
    have h1: "head_rows ?ws1 g = (if g = ?gid then [] else head_rows ws g)" for g
      using demote_heads [of ?dem ?gid ws g]
      by (cases "head_rows ws ?gid") (auto simp: head_of_heads)
    have keys: "distinct (map (\<lambda>w. (wr_descriptor_id w, wr_version w)) ?ws1)"
    proof -
      have "map (\<lambda>w. (wr_descriptor_id w, wr_version w)) ?dem = map (\<lambda>w. (wr_descriptor_id w, wr_version w)) ws"
        by (rule key_map_unchanged) simp
      with ok show ?thesis by (simp add: wirings_ok_def del: map_map)
    qed
    have ups: "(\<exists>w. head_rows (upsert_grant ?ws1 ?new) ?gid = [w] \<and> wr_state w = ''active'')"
      "\<forall>g. g \<noteq> ?gid \<longrightarrow> head_rows (upsert_grant ?ws1 ?new) g = head_rows ?ws1 g"
      "distinct (map (\<lambda>w. (wr_descriptor_id w, wr_version w)) (upsert_grant ?ws1 ?new))"
      using upsert_heads [OF keys, of ?new] h1 [of ?gid] by auto
    have "length (head_rows (upsert_grant ?ws1 ?new) g) \<le> 1" for g
      using ups(1,2) h1 [of g] le1 [of g] by (cases "g = ?gid") auto
    then have "wirings_ok (upsert_grant ?ws1 ?new)"
      using ups(3) by (simp add: wirings_ok_def head_rows_def)
    then show ?thesis
      using ups h1 unfolding res by (auto simp: honoured_def)
  qed
qed

lemma granted_after_write:
  assumes "wirings_ok ws"
  shows "grant_exists (fst (write_grant ws v s t owner reason)) s' t' \<longleftrightarrow>
    grant_descriptor_id s' t' = grant_descriptor_id s t \<or> grant_exists ws s' t'"
proof -
  note w = write_grant_heads [OF assms, of v s t owner reason]
  have "length (head_rows (fst (write_grant ws v s t owner reason)) g) \<le> 1" for g
    using w wirings_ok_heads by blast
  then show ?thesis
    using w wirings_ok_heads [OF assms]
    by (cases "grant_descriptor_id s' t' = grant_descriptor_id s t") (auto simp: grant_exists_heads)
qed

lemma granted_after_revoke:
  assumes "wirings_ok ws"
  shows "wirings_ok (fst (revoke_grant ws s t))
    \<and> (grant_exists (fst (revoke_grant ws s t)) s' t' \<longleftrightarrow>
        grant_descriptor_id s' t' \<noteq> grant_descriptor_id s t \<and> grant_exists ws s' t')"
proof (cases "head_of ws (grant_descriptor_id s t)")
  case None
  then show ?thesis using assms by (auto simp: revoke_grant_def grant_exists_def Let_def)
next
  case (Some h)
  note r = revoke_same [OF assms Some refl]
  then show ?thesis
    using Some wirings_ok_heads [OF assms] wirings_ok_heads
    by (cases "grant_descriptor_id s' t' = grant_descriptor_id s t")
       (auto simp: revoke_grant_def grant_exists_def head_of_heads Let_def honoured_def)
qed

section \<open>The interface: a book of grants\<close>

text \<open>Grants and revocations one after another, over any book.\<close>

datatype grant_op = Grant py_str py_str py_str py_str py_str | Revoke py_str py_str

fun op_pair :: "grant_op \<Rightarrow> py_str \<times> py_str" where
  "op_pair (Grant v s t owner reason) = (s, t)"
| "op_pair (Revoke s t) = (s, t)"

fun is_grant :: "grant_op \<Rightarrow> bool" where
  "is_grant (Grant v s t owner reason) = True"
| "is_grant (Revoke s t) = False"

fun keep_book :: "('w \<Rightarrow> grant_op \<Rightarrow> 'w) \<Rightarrow> 'w \<Rightarrow> grant_op list \<Rightarrow> 'w" where
  "keep_book apply_op w [] = w"
| "keep_book apply_op w (x # xs) = keep_book apply_op (apply_op w x) xs"

lemma keep_book_snoc: "keep_book ap w (xs @ [x]) = ap (keep_book ap w xs) x"
  by (induction xs arbitrary: w) simp_all

text \<open>
  What enforcement relies on: every operation keeps the book well formed, a grant adds exactly
  the pairs that share its id, a revocation removes exactly those.
\<close>

locale grant_book =
  fixes well_formed :: "'w \<Rightarrow> bool"
    and granted :: "'w \<Rightarrow> py_str \<times> py_str \<Rightarrow> bool"
    and apply_op :: "'w \<Rightarrow> grant_op \<Rightarrow> 'w"
    and same_id :: "py_str \<times> py_str \<Rightarrow> py_str \<times> py_str \<Rightarrow> bool"
  assumes op_well_formed: "well_formed w \<Longrightarrow> well_formed (apply_op w x)"
    and op_granted: "well_formed w \<Longrightarrow>
      granted (apply_op w x) p \<longleftrightarrow> (if same_id p (op_pair x) then is_grant x else granted w p)"
begin

lemma book_well_formed: "well_formed w \<Longrightarrow> well_formed (keep_book apply_op w xs)"
  by (induction xs arbitrary: w) (simp_all add: op_well_formed)

text \<open>The book is a memory of the last operation on each id.\<close>

lemma book_last_op:
  assumes "well_formed w"
  shows "granted (keep_book apply_op w xs) p \<longleftrightarrow>
    (case filter (\<lambda>x. same_id p (op_pair x)) (rev xs) of [] \<Rightarrow> granted w p | x # _ \<Rightarrow> is_grant x)"
proof (induction xs rule: rev_induct)
  case (snoc x xs)
  then show ?case
    using op_granted [OF book_well_formed [OF assms]] by (simp add: keep_book_snoc)
qed simp

end

fun wiring_op :: "wiring_row list \<Rightarrow> grant_op \<Rightarrow> wiring_row list" where
  "wiring_op ws (Grant v s t owner reason) = fst (write_grant ws v s t owner reason)"
| "wiring_op ws (Revoke s t) = fst (revoke_grant ws s t)"

definition same_grant_id :: "py_str \<times> py_str \<Rightarrow> py_str \<times> py_str \<Rightarrow> bool" where
  "same_grant_id p q \<longleftrightarrow> flatten (fst p) = flatten (fst q) \<and> snd p = snd q"

interpretation wirings: grant_book wirings_ok "\<lambda>ws (s, t). grant_exists ws s t" wiring_op same_grant_id
proof unfold_locales
  fix ws x
  assume "wirings_ok ws"
  then show "wirings_ok (wiring_op ws x)"
    by (cases x) (use write_grant_heads granted_after_revoke in auto)
next
  fix ws x p
  assume ok: "wirings_ok ws"
  show "(case p of (s, t) \<Rightarrow> grant_exists (wiring_op ws x) s t) \<longleftrightarrow>
    (if same_grant_id p (op_pair x) then is_grant x else (case p of (s, t) \<Rightarrow> grant_exists ws s t))"
    by (cases x; cases p)
       (auto simp: granted_after_write [OF ok] granted_after_revoke [OF ok] same_grant_id_def grant_id_eq)
qed

section \<open>Properties\<close>

text \<open>C24: The grant book is right. From a well-formed wiring table and after any sequence of
  grants and revocations, whatever version tokens they are written under, the table is well
  formed again (one head per id) and a pair is granted exactly when the last operation on its
  grant id was a grant, or there was none and it was granted before.\<close>

theorem grants_follow_last_operation:
  assumes "wirings_ok ws"
  shows "wirings_ok (keep_book wiring_op ws xs)
    \<and> (grant_exists (keep_book wiring_op ws xs) s t \<longleftrightarrow>
        (case filter (\<lambda>x. same_grant_id (s, t) (op_pair x)) (rev xs) of
           [] \<Rightarrow> grant_exists ws s t | x # _ \<Rightarrow> is_grant x))"
  using wirings.book_well_formed [OF assms] wirings.book_last_op [OF assms, of xs "(s, t)"]
  by (simp split: list.splits)

theorem grants_follow_last_operation_witness:
  "\<not> grant_exists (keep_book wiring_op [] [Grant ''v1'' ''s.a'' ''t'' ''op'' ''r'', Revoke ''s.a'' ''t'']) ''s.a'' ''t''"
  using grants_follow_last_operation [of "[]" "[Grant ''v1'' ''s.a'' ''t'' ''op'' ''r'', Revoke ''s.a'' ''t'']" "''s.a''" "''t''"]
  by (simp add: wirings_ok_def same_grant_id_def del: keep_book.simps)

text \<open>The decision table of subscription enforcement, every branch: a subscription is
  admitted exactly when the source is open and in the target's tenant or shared, or is an
  allowlist naming the target or its tenant, or is a grant source with an active grant for the
  pair; any other policy string refuses.\<close>

theorem enforce_subscription_iff:
  "enforce_subscription ws src target tenant = Inr () \<longleftrightarrow>
     (sp_subscription_policy src = ''open''
        \<and> (sp_owner_tenant src = tenant \<or> sp_owner_tenant src = SHARED_TENANT))
     \<or> (sp_subscription_policy src = ''allowlist''
        \<and> (target \<in> set (sp_allowed_targets src) \<or> tenant \<in> set (sp_allowed_tenants src)))
     \<or> (sp_subscription_policy src = ''grant'' \<and> grant_exists ws (sp_source_id src) target)"
  by (auto simp: enforce_subscription_def Let_def)

text \<open>A grant id is not collision free. Granting one source to a target grants the
  target every source whose id differs from it only in having underscores for dots, and revoking
  one revokes the other.\<close>

theorem grant_covers_flattened_ids:
  assumes "wirings_ok ws" and "flatten s = flatten s'"
  shows "grant_exists (fst (write_grant ws v s t owner reason)) s' t
    \<and> \<not> grant_exists (fst (revoke_grant ws s t)) s' t"
  using assms granted_after_write [OF assms(1)] granted_after_revoke [OF assms(1)]
  by (simp add: grant_id_eq)

theorem grant_covers_flattened_ids_witness:
  "grant_exists (fst (write_grant [] ''v1'' ''source.reuters'' ''t1'' ''op'' ''ok'')) ''source_reuters'' ''t1''"
  using grant_covers_flattened_ids [of "[]" "''source.reuters''" "''source_reuters''" "''v1''" "''t1''" "''op''" "''ok''"]
  by (simp add: wirings_ok_def flatten_def replace_char_def)

end
