(* ===== verification/SubEngine.thy ===== *)
theory SubEngine
  imports SubPolicy Subjects
begin

text \<open>
  Wiring a target to its sources and delivering to it: source-reference resolution
  (\<open>runtime/subscription/sourceref.py\<close>), the registration and batch-read paths of
  \<open>runtime/subscription/engine.py\<close>, and the late-join catch-up of
  \<open>runtime/subscription/backfill.py\<close>. The database is its three tables; the durable
  consumers are those of theory Subjects. The predicate engine is an argument, once per surface.
\<close>

section \<open>Selectors\<close>

record source_selector =
  sel_tags :: "py_str list"
  sel_geo :: "py_str list"
  sel_languages :: "py_str list"
  sel_owner_tenant :: "py_str option"
  sel_kinds :: "py_str list"
  sel_predicate :: "py_str option"

text \<open>A source reference names a source or carries a selector, exactly one of the two.\<close>

datatype source_ref = Explicit py_str subscription | By_selector source_selector subscription

record source_row =
  so_source_id :: py_str
  so_kind :: py_str
  so_state :: py_str
  so_owner_tenant :: py_str
  so_scope_tags :: "py_str list"
  so_scope_geo :: "py_str list"
  so_scope_languages :: "py_str list"
  so_subscription_policy :: py_str
  so_allowed_targets :: "py_str list"
  so_allowed_tenants :: "py_str list"

definition source_row_of :: "source_descriptor \<Rightarrow> source_row" where
  "source_row_of d =
     (let body = sd_body d; scope = body_scope body in
      \<lparr>so_source_id = sd_descriptor_id d,
       so_kind = sd_kind d,
       so_state = sd_state d,
       so_owner_tenant = str_or (map_of scope ''owner_tenant'') ''default'',
       so_scope_tags = str_list (map_of scope ''tags''),
       so_scope_geo = str_list (map_of scope ''geo''),
       so_scope_languages = str_list (map_of scope ''languages''),
       so_subscription_policy = str_or (body_get body ''subscription_policy'') ''open'',
       so_allowed_targets = str_list (body_get body ''allowed_targets''),
       so_allowed_tenants = str_list (body_get body ''allowed_tenants'')\<rparr>)"

definition load_source_heads :: "source_descriptor list \<Rightarrow> source_row list" where
  "load_source_heads sources = map source_row_of (filter sd_is_head sources)"

definition scope_match :: "source_selector \<Rightarrow> source_row \<Rightarrow> py_str \<Rightarrow> bool" where
  "scope_match sel row target_tenant =
     (if (case sel_owner_tenant sel of
            Some t \<Rightarrow> so_owner_tenant row \<noteq> t
          | None \<Rightarrow> so_owner_tenant row \<noteq> target_tenant \<and> so_owner_tenant row \<noteq> SHARED_TENANT)
      then False
      else if sel_tags sel \<noteq> [] \<and> \<not> set (sel_tags sel) \<subseteq> set (so_scope_tags row) then False
      else if sel_geo sel \<noteq> [] \<and> set (sel_geo sel) \<inter> set (so_scope_geo row) = {} then False
      else if sel_languages sel \<noteq> [] \<and> set (sel_languages sel) \<inter> set (so_scope_languages row) = {}
        then False
      else if sel_kinds sel \<noteq> [] \<and> so_kind row \<notin> set (sel_kinds sel) then False
      else True)"

record selector_ctx =
  sx_id :: py_str
  sx_kind :: py_str
  sx_scope_geo :: "py_str list"
  sx_tags :: "py_str list"

text \<open>The errors that leave the residual: it catches the runtime error only.\<close>

datatype predicate_fault = Predicate_refused | Predicate_budget_exceeded

type_synonym selector_engine = "py_str \<Rightarrow> selector_ctx compile_outcome"

definition selector_residual :: "selector_engine \<Rightarrow> source_selector \<Rightarrow> source_row \<Rightarrow> predicate_fault + bool" where
  "selector_residual eng sel row =
     (if \<not> truthy (sel_predicate sel) then Inr True
      else case eng (the (sel_predicate sel)) of
             Compile_refused \<Rightarrow> Inl Predicate_refused
           | Compile_budget_exceeded \<Rightarrow> Inl Predicate_budget_exceeded
           | Compiled ev \<Rightarrow>
               (case ev \<lparr>sx_id = so_source_id row, sx_kind = so_kind row,
                         sx_scope_geo = so_scope_geo row, sx_tags = so_scope_tags row\<rparr> of
                  Verdict b \<Rightarrow> Inr b
                | Eval_budget_exceeded \<Rightarrow> Inl Predicate_budget_exceeded
                | Eval_runtime_error \<Rightarrow> Inr False))"

section \<open>Resolution\<close>

text \<open>The state of the resolving loop: the bindings so far, newest last, and the ids seen.\<close>

type_synonym resolving = "resolved_binding list \<times> py_str list"

definition bind_source :: "source_row \<Rightarrow> subscription \<Rightarrow> bool \<Rightarrow> resolving \<Rightarrow> resolving" where
  "bind_source row sub via st =
     (case st of (bindings, seen) \<Rightarrow>
        if so_source_id row \<in> set seen then st
        else (bindings @ [\<lparr>rb_source_id = so_source_id row, rb_owner_tenant = so_owner_tenant row,
                           rb_subscription = sub, rb_via_selector = via\<rparr>],
              so_source_id row # seen))"

definition by_id :: "source_row list \<Rightarrow> py_str \<Rightarrow> source_row option" where
  "by_id heads source_id = find (\<lambda>h. so_source_id h = source_id) (rev heads)"

fun select_sources ::
  "selector_engine \<Rightarrow> source_selector \<Rightarrow> subscription \<Rightarrow> py_str \<Rightarrow> source_row list \<Rightarrow> resolving
     \<Rightarrow> predicate_fault + resolving" where
  "select_sources eng sel sub target_tenant [] st = Inr st"
| "select_sources eng sel sub target_tenant (row # rows) st =
     (if so_state row = ''retired'' then select_sources eng sel sub target_tenant rows st
      else if so_subscription_policy row \<noteq> ''open'' then select_sources eng sel sub target_tenant rows st
      else if \<not> scope_match sel row target_tenant then select_sources eng sel sub target_tenant rows st
      else case selector_residual eng sel row of
             Inl err \<Rightarrow> Inl err
           | Inr False \<Rightarrow> select_sources eng sel sub target_tenant rows st
           | Inr True \<Rightarrow> select_sources eng sel sub target_tenant rows (bind_source row sub True st))"

fun resolve_loop ::
  "selector_engine \<Rightarrow> py_str \<Rightarrow> source_row list \<Rightarrow> source_ref list \<Rightarrow> resolving
     \<Rightarrow> predicate_fault + resolving" where
  "resolve_loop eng target_tenant heads [] st = Inr st"
| "resolve_loop eng target_tenant heads (Explicit source_id sub # refs) st =
     resolve_loop eng target_tenant heads refs
       (case by_id heads source_id of
          None \<Rightarrow> st
        | Some row \<Rightarrow> if so_state row = ''retired'' then st else bind_source row sub False st)"
| "resolve_loop eng target_tenant heads (By_selector sel sub # refs) st =
     (case select_sources eng sel sub target_tenant heads st of
        Inl err \<Rightarrow> Inl err
      | Inr st' \<Rightarrow> resolve_loop eng target_tenant heads refs st')"

definition resolve_source_refs ::
  "selector_engine \<Rightarrow> py_str \<Rightarrow> source_ref list \<Rightarrow> source_row list \<Rightarrow> predicate_fault + resolved_binding list" where
  "resolve_source_refs eng target_tenant refs heads =
     (case resolve_loop eng target_tenant heads refs ([], []) of
        Inl err \<Rightarrow> Inl err
      | Inr (bindings, seen) \<Rightarrow> Inr bindings)"

section \<open>Registration\<close>

record sub_db =
  pg_sources :: "source_descriptor list"
  pg_wirings :: "wiring_row list"
  pg_signals :: "signal_row list"

record target_subscription =
  tsub_target_id :: py_str
  tsub_target_tenant :: py_str
  tsub_bindings :: "resolved_binding list"
  tsub_subject_filters :: "py_str list"
  tsub_consumer_name :: py_str
  tsub_refused :: "policy_error list"

datatype register_error = Refused policy_error | Predicate_fault predicate_fault

definition target_consumer_name :: "py_str \<Rightarrow> py_str" where
  "target_consumer_name target_id = ''target_'' @ subject_token target_id"

fun authorize ::
  "sub_db \<Rightarrow> py_str \<Rightarrow> py_str \<Rightarrow> bool \<Rightarrow> resolved_binding list \<Rightarrow> resolved_binding list \<Rightarrow> policy_error list
     \<Rightarrow> policy_error + (resolved_binding list \<times> policy_error list)" where
  "authorize db target_id target_tenant strict [] ok bad = Inr (ok, bad)"
| "authorize db target_id target_tenant strict (b # bs) ok bad =
     (case load_source_policy (pg_sources db) (rb_source_id b) of
        None \<Rightarrow> authorize db target_id target_tenant strict bs ok bad
      | Some policy \<Rightarrow>
          (case enforce_subscription (pg_wirings db) policy target_id target_tenant of
             Inl err \<Rightarrow>
               if strict then Inl err
               else authorize db target_id target_tenant strict bs ok (bad @ [err])
           | Inr _ \<Rightarrow> authorize db target_id target_tenant strict bs (ok @ [b]) bad))"

text \<open>\<^verbatim>\<open>register_target\<close>: \<open>bus\<close> is the broker's consumers, \<open>None\<close> without a
  connected store.\<close>

definition register_target ::
  "selector_engine \<Rightarrow> sub_db \<Rightarrow> consumers option \<Rightarrow> py_str \<Rightarrow> py_str \<Rightarrow> source_ref list \<Rightarrow> bool
     \<Rightarrow> register_error + (target_subscription \<times> consumers option)" where
  "register_target eng db bus target_id target_tenant refs strict =
     (case resolve_source_refs eng target_tenant refs (load_source_heads (pg_sources db)) of
        Inl err \<Rightarrow> Inl (Predicate_fault err)
      | Inr resolved \<Rightarrow>
          (case authorize db target_id target_tenant strict resolved [] [] of
             Inl err \<Rightarrow> Inl (Refused err)
           | Inr (authorized, refused) \<Rightarrow>
               let filters = subject_filters_for authorized;
                   name = target_consumer_name target_id;
                   bus' = (case bus of
                             None \<Rightarrow> None
                           | Some cs \<Rightarrow>
                               if authorized \<noteq> [] then Some (ensure_durable_consumer cs name filters Deliver_all)
                               else Some cs)
               in Inr (\<lparr>tsub_target_id = target_id, tsub_target_tenant = target_tenant,
                        tsub_bindings = authorized, tsub_subject_filters = filters,
                        tsub_consumer_name = name, tsub_refused = refused\<rparr>, bus')))"

section \<open>Reading the pool\<close>

text \<open>The SELECT of one binding: the structured filter, newest first, limited; then the residual.\<close>

definition fetched_key :: "signal_row \<Rightarrow> instant" where
  "fetched_key row = (case sig_fetched_at row of None \<Rightarrow> 0 | Some t \<Rightarrow> - t)"

definition run_select :: "signal_row list \<Rightarrow> sql_filter \<Rightarrow> nat option \<Rightarrow> signal_row list" where
  "run_select pool f limit =
     (let rows = sort_key fetched_key (filter (sql_selects 1 f) pool) in
      case limit of None \<Rightarrow> rows | Some n \<Rightarrow> take n rows)"

definition read_slice ::
  "predicate_engine \<Rightarrow> sub_db \<Rightarrow> resolved_binding \<Rightarrow> nat option \<Rightarrow> bool \<Rightarrow> signal_row list" where
  "read_slice eng db b limit apply_residual =
     (let f = build_sql_filter (rb_source_id b) (rb_owner_tenant b) (rb_subscription b) 1;
          out = run_select (pg_signals db) f limit
      in if apply_residual \<and> truthy (sub_predicate (rb_subscription b))
         then filter (residual_matches eng (rb_subscription b)) out else out)"

definition row_id :: "signal_row \<Rightarrow> py_str" where
  "row_id row = (case sig_id row of None \<Rightarrow> ''None'' | Some i \<Rightarrow> i)"

definition read_target_slice ::
  "predicate_engine \<Rightarrow> sub_db \<Rightarrow> target_subscription \<Rightarrow> nat option \<Rightarrow> signal_row list" where
  "read_target_slice eng db sub limit =
     keep_first row_id [] (concat (map (\<lambda>b. read_slice eng db b limit True) (tsub_bindings sub)))"

definition delivers :: "predicate_engine \<Rightarrow> resolved_binding \<Rightarrow> signal_row \<Rightarrow> bool" where
  "delivers eng b row = matches eng (rb_subscription b) row (rb_source_id b) (rb_owner_tenant b)"

section \<open>Catch-up and forward\<close>

record backfill_cursor =
  bc_boundary_seq :: int
  bc_captured_at :: instant
  bc_stream_present :: bool

definition forward_start_seq :: "backfill_cursor \<Rightarrow> int" where
  "forward_start_seq c = bc_boundary_seq c + 1"

text \<open>The clock is read first, the stream's last sequence number after it: the two readings are
  separate arguments.\<close>

definition capture_cursor :: "instant \<Rightarrow> int option \<Rightarrow> backfill_cursor" where
  "capture_cursor now last_seq =
     (case last_seq of
        None \<Rightarrow> \<lparr>bc_boundary_seq = 0, bc_captured_at = now, bc_stream_present = False\<rparr>
      | Some s \<Rightarrow> \<lparr>bc_boundary_seq = s, bc_captured_at = now, bc_stream_present = True\<rparr>)"

definition read_binding_history ::
  "predicate_engine \<Rightarrow> sub_db \<Rightarrow> resolved_binding \<Rightarrow> backfill_cursor \<Rightarrow> nat option \<Rightarrow> signal_row list" where
  "read_binding_history eng db b c limit =
     filter (\<lambda>r. \<not> (case sig_fetched_at r of None \<Rightarrow> False | Some t \<Rightarrow> t > bc_captured_at c))
       (read_slice eng db b limit True)"

text \<open>The replay order: by fetch time, missing times first, then by id.\<close>

definition replay_le :: "signal_row \<Rightarrow> signal_row \<Rightarrow> bool" where
  "replay_le r q =
     (case (sig_fetched_at r, sig_fetched_at q) of
        (None, Some _) \<Rightarrow> True
      | (Some _, None) \<Rightarrow> False
      | (None, None) \<Rightarrow> str_le (row_id r) (row_id q)
      | (Some a, Some b) \<Rightarrow> a < b \<or> (a = b \<and> str_le (row_id r) (row_id q)))"

fun insert_row :: "signal_row \<Rightarrow> signal_row list \<Rightarrow> signal_row list" where
  "insert_row r [] = [r]"
| "insert_row r (q # qs) = (if replay_le r q then r # q # qs else q # insert_row r qs)"

definition sort_replay :: "signal_row list \<Rightarrow> signal_row list" where
  "sort_replay rows = foldr insert_row rows []"

text \<open>What the sink receives, in order.\<close>

definition backfill ::
  "predicate_engine \<Rightarrow> sub_db \<Rightarrow> target_subscription \<Rightarrow> backfill_cursor \<Rightarrow> nat option \<Rightarrow> signal_row list" where
  "backfill eng db sub c limit =
     sort_replay (keep_first row_id []
       (concat (map (\<lambda>b. read_binding_history eng db b c limit) (tsub_bindings sub))))"

definition bind_forward ::
  "consumers option \<Rightarrow> target_subscription \<Rightarrow> backfill_cursor \<Rightarrow> consumers option \<times> py_str option" where
  "bind_forward bus sub c =
     (case bus of
        None \<Rightarrow> (None, None)
      | Some cs \<Rightarrow>
          if tsub_bindings sub = [] then (Some cs, None)
          else let name = (if tsub_consumer_name sub \<noteq> [] then tsub_consumer_name sub
                           else target_consumer_name (tsub_target_id sub))
               in (Some (ensure_consumer_from_seq cs name (tsub_subject_filters sub) (forward_start_seq c)),
                   Some name))"

record backfill_result =
  bf_target_id :: py_str
  bf_cursor :: backfill_cursor
  bf_delivered :: nat
  bf_delivered_ids :: "py_str list"
  bf_forward_consumer :: "py_str option"

definition catch_up_and_forward ::
  "predicate_engine \<Rightarrow> sub_db \<Rightarrow> consumers option \<Rightarrow> target_subscription \<Rightarrow> backfill_cursor \<Rightarrow> nat option
     \<Rightarrow> backfill_result \<times> signal_row list \<times> consumers option" where
  "catch_up_and_forward eng db bus sub c limit =
     (let sunk = backfill eng db sub c limit;
          (bus', name) = bind_forward bus sub c
      in (\<lparr>bf_target_id = tsub_target_id sub, bf_cursor = c, bf_delivered = length sunk,
           bf_delivered_ids = map row_id sunk, bf_forward_consumer = name\<rparr>, sunk, bus'))"

definition register_target_with_catch_up ::
  "selector_engine \<Rightarrow> predicate_engine \<Rightarrow> sub_db \<Rightarrow> consumers option \<Rightarrow> instant \<Rightarrow> int option
     \<Rightarrow> py_str \<Rightarrow> py_str \<Rightarrow> source_ref list \<Rightarrow> bool \<Rightarrow> nat option
     \<Rightarrow> register_error + (target_subscription \<times> backfill_result \<times> signal_row list \<times> consumers option)" where
  "register_target_with_catch_up seleng eng db bus now last_seq target_id target_tenant refs strict limit =
     (let c = capture_cursor now last_seq in
      case register_target seleng db bus target_id target_tenant refs strict of
        Inl err \<Rightarrow> Inl err
      | Inr (sub, bus1) \<Rightarrow>
          (case catch_up_and_forward eng db bus1 sub c limit of
             (res, sunk, bus2) \<Rightarrow> Inr (sub, res, sunk, bus2)))"

section \<open>Resolution is sound\<close>

text \<open>Why a binding is there.\<close>

definition justified ::
  "py_str \<Rightarrow> source_row list \<Rightarrow> source_ref list \<Rightarrow> resolved_binding \<Rightarrow> bool" where
  "justified tenant hs refs b \<longleftrightarrow>
     (\<exists>row \<in> set hs. so_source_id row = rb_source_id b \<and> so_owner_tenant row = rb_owner_tenant b
        \<and> so_state row \<noteq> ''retired''
        \<and> (if rb_via_selector b
           then so_subscription_policy row = ''open''
                \<and> (\<exists>sel. By_selector sel (rb_subscription b) \<in> set refs \<and> scope_match sel row tenant)
           else Explicit (rb_source_id b) (rb_subscription b) \<in> set refs))"

definition resolving_ok :: "py_str \<Rightarrow> source_row list \<Rightarrow> source_ref list \<Rightarrow> resolving \<Rightarrow> bool" where
  "resolving_ok tenant hs refs st \<longleftrightarrow>
     set (snd st) = rb_source_id ` set (fst st) \<and> distinct (map rb_source_id (fst st))
     \<and> (\<forall>b \<in> set (fst st). justified tenant hs refs b)"

lemma resolving_ok_bind:
  assumes "resolving_ok tenant hs refs st"
    and "justified tenant hs refs \<lparr>rb_source_id = so_source_id row, rb_owner_tenant = so_owner_tenant row,
           rb_subscription = sub, rb_via_selector = via\<rparr>"
  shows "resolving_ok tenant hs refs (bind_source row sub via st)"
  using assms by (cases st) (auto simp: resolving_ok_def bind_source_def)

lemma select_sources_ok:
  assumes "select_sources eng sel sub tenant rows st = Inr st'" "resolving_ok tenant hs refs st"
    "set rows \<subseteq> set hs" "By_selector sel sub \<in> set refs"
  shows "resolving_ok tenant hs refs st'"
  using assms
proof (induction rows arbitrary: st)
  case (Cons row rows)
  show ?case
  proof (cases "so_state row = ''retired'' \<or> so_subscription_policy row \<noteq> ''open'' \<or> \<not> scope_match sel row tenant")
    case True
    then have "select_sources eng sel sub tenant (row # rows) st = select_sources eng sel sub tenant rows st"
      by auto
    with Cons show ?thesis by simp
  next
    case False
    then have just: "justified tenant hs refs \<lparr>rb_source_id = so_source_id row, rb_owner_tenant = so_owner_tenant row,
           rb_subscription = sub, rb_via_selector = True\<rparr>"
      using Cons.prems(3,4) by (auto simp: justified_def)
    from False Cons.prems(1) obtain v where "selector_residual eng sel row = Inr v"
      by (auto split: sum.splits)
    with False Cons resolving_ok_bind [OF Cons.prems(2) just] show ?thesis
      by (cases v) auto
  qed
qed simp

lemma by_id_Some: "by_id hs i = Some row \<Longrightarrow> row \<in> set hs \<and> so_source_id row = i"
  by (auto simp: by_id_def dest: find_SomeD)

lemma resolve_loop_ok:
  assumes "resolve_loop eng tenant hs refs st = Inr st'" "resolving_ok tenant hs all_refs st"
    "set refs \<subseteq> set all_refs"
  shows "resolving_ok tenant hs all_refs st'"
  using assms
proof (induction eng tenant hs refs st rule: resolve_loop.induct)
  case (2 eng tenant hs i sub refs st)
  have "resolving_ok tenant hs all_refs (case by_id hs i of None \<Rightarrow> st
      | Some row \<Rightarrow> if so_state row = ''retired'' then st else bind_source row sub False st)"
  proof (cases "by_id hs i")
    case (Some row)
    then have "so_state row \<noteq> ''retired'' \<Longrightarrow> justified tenant hs all_refs
        \<lparr>rb_source_id = so_source_id row, rb_owner_tenant = so_owner_tenant row,
           rb_subscription = sub, rb_via_selector = False\<rparr>"
      using by_id_Some [OF Some] 2(4) by (auto simp: justified_def)
    with Some 2(3) show ?thesis by (simp add: resolving_ok_bind)
  qed (use 2(3) in simp)
  with 2 show ?case by simp
next
  case (3 eng tenant hs sel sub refs st)
  then obtain st1 where "select_sources eng sel sub tenant hs st = Inr st1"
    by (auto split: sum.splits)
  with 3 select_sources_ok [OF this 3(3)] show ?case by simp
qed simp

lemma resolve_sound:
  assumes "resolve_source_refs eng tenant refs hs = Inr bs"
  shows "distinct (map rb_source_id bs) \<and> (\<forall>b \<in> set bs. justified tenant hs refs b)"
proof -
  obtain seen where "resolve_loop eng tenant hs refs ([], []) = Inr (bs, seen)"
    using assms by (auto simp: resolve_source_refs_def split: sum.splits prod.splits)
  from resolve_loop_ok [OF this, of refs] show ?thesis
    by (simp add: resolving_ok_def)
qed

section \<open>Registration is authorized\<close>

definition permitted :: "sub_db \<Rightarrow> py_str \<Rightarrow> py_str \<Rightarrow> resolved_binding \<Rightarrow> bool" where
  "permitted db target_id tenant b \<longleftrightarrow>
     (\<exists>policy. load_source_policy (pg_sources db) (rb_source_id b) = Some policy
        \<and> enforce_subscription (pg_wirings db) policy target_id tenant = Inr ())"

lemma authorize_Inr:
  assumes "authorize db target_id tenant strict bs ok bad = Inr (ok', bad')"
  shows "ok' = ok @ filter (permitted db target_id tenant) bs \<and> (strict \<longrightarrow> bad' = bad)"
  using assms
  by (induction db target_id tenant strict bs ok bad rule: authorize.induct)
     (auto simp: permitted_def split: option.splits sum.splits if_splits)

lemma authorize_lenient: "\<exists>r. authorize db target_id tenant False bs ok bad = Inr r"
  by (induction bs arbitrary: ok bad) (auto split: option.split sum.split)

section \<open>What a target is delivered\<close>

lemma row_in_slice:
  assumes "db_row r"
  shows "r \<in> set (read_slice eng db b None True) \<longleftrightarrow>
    r \<in> set (pg_signals db) \<and> delivers eng b r \<and> \<not> is_backfill r"
proof -
  have "r \<in> set (read_slice eng db b None True) \<longleftrightarrow>
      r \<in> set (pg_signals db)
      \<and> sql_selects 1 (build_sql_filter (rb_source_id b) (rb_owner_tenant b) (rb_subscription b) 1) r
      \<and> residual_matches eng (rb_subscription b) r"
    by (auto simp: read_slice_def run_select_def Let_def residual_matches_def)
  with selects_match [OF assms, of 1 "rb_source_id b" "rb_owner_tenant b" "rb_subscription b" eng]
  show ?thesis by (auto simp: delivers_def)
qed

lemma slice_in_pool: "set (read_slice eng db b limit res) \<subseteq> set (pg_signals db)"
  by (auto simp: read_slice_def run_select_def Let_def split: if_splits option.splits dest: in_set_takeD)

lemma count_sort_replay: "count_list (sort_replay rows) r = count_list rows r"
proof -
  have "count_list (insert_row q qs) r = count_list (q # qs) r" for q qs
    by (induction q qs rule: insert_row.induct) auto
  then show ?thesis by (induction rows) (simp_all add: sort_replay_def)
qed

lemma count_list_distinct: "distinct xs \<Longrightarrow> count_list xs x = (if x \<in> set xs then 1 else 0)"
  by (induction xs) auto

lemma keep_first_count:
  assumes "inj_on k (set xs)"
  shows "count_list (keep_first k [] xs) x = (if x \<in> set xs then 1 else 0)"
proof -
  have "distinct (keep_first k [] xs)"
    using keep_first_distinct [of k "[]" xs] by (simp add: distinct_map)
  moreover have "x \<in> set (keep_first k [] xs) \<longleftrightarrow> x \<in> set xs"
  proof
    assume "x \<in> set xs"
    then have "k x \<in> set (map k (keep_first k [] xs))"
      using keep_first_keys [of k "[]" xs] by simp
    then obtain y where y: "y \<in> set (keep_first k [] xs)" "k y = k x"
      by auto
    with assms \<open>x \<in> set xs\<close> keep_first_subset [of k "[]" xs] have "y = x"
      by (auto dest: inj_onD)
    with y show "x \<in> set (keep_first k [] xs)" by simp
  qed (use keep_first_subset [of k "[]" xs] in auto)
  ultimately show ?thesis by (simp add: count_list_distinct)
qed

lemma backfill_count:
  assumes "db_row r" "sig_fetched_at r = Some t" "r \<in> set (pg_signals db)" "\<not> is_backfill r"
    "inj_on row_id (set (pg_signals db))" "b \<in> set (tsub_bindings sub)" "delivers eng b r"
  shows "count_list (backfill eng db sub c None) r = (if t \<le> bc_captured_at c then 1 else 0)"
proof -
  let ?rows = "concat (map (\<lambda>b. read_binding_history eng db b c None) (tsub_bindings sub))"
  have "set ?rows \<subseteq> set (pg_signals db)"
    using slice_in_pool by (fastforce simp: read_binding_history_def)
  then have inj: "inj_on row_id (set ?rows)"
    using assms(5) inj_on_subset by blast
  have "r \<in> set ?rows \<longleftrightarrow> t \<le> bc_captured_at c"
    using assms row_in_slice [OF assms(1)] by (auto simp: read_binding_history_def not_less)
  then show ?thesis
    by (simp add: backfill_def count_sort_replay keep_first_count [OF inj])
qed

text \<open>
  Whether a message reaches a consumer anchored at a sequence. The stream retains by interest:
  of the messages up to \<open>bound\<close>, the last one published when the consumer is added, it
  still has those that the broker holds for some consumer (\<open>held\<close>), and only these can be
  delivered; a later one is published to the consumer.
\<close>

definition forwards :: "consumers \<Rightarrow> (int \<Rightarrow> bool) \<Rightarrow> int \<Rightarrow> py_str \<Rightarrow> int \<Rightarrow> py_str \<Rightarrow> bool" where
  "forwards cs held bound name seq subject \<longleftrightarrow>
     (case map_of cs name of
        None \<Rightarrow> False
      | Some cfg \<Rightarrow> delivers_subject cfg subject
          \<and> (case cc_deliver cfg of From_sequence n \<Rightarrow> int n \<le> seq \<and> (bound < seq \<or> held seq) | _ \<Rightarrow> False))"

lemma forward_start:
  assumes "delivers_subject \<lparr>cc_filters = wanted_filters (tsub_subject_filters sub), cc_deliver = d\<rparr> subject"
    and "tsub_bindings sub \<noteq> []" and "tsub_consumer_name sub \<noteq> []" and "0 \<le> bc_boundary_seq c"
  shows "\<exists>cs'. bind_forward (Some cs) sub c = (Some cs', Some (tsub_consumer_name sub))
    \<and> (\<forall>held bound. forwards cs' held bound (tsub_consumer_name sub) seq subject
          \<longleftrightarrow> bc_boundary_seq c < seq \<and> (bound < seq \<or> held seq))"
  using assms
  by (auto simp: bind_forward_def ensure_consumer_from_seq_def forwards_def forward_start_seq_def
      table_simps delivers_subject_def Let_def)

lemma matches_delivered:
  assumes "b \<in> set bs" "delivers eng b r" "sig_modality r = Some m" "m \<in> set KNOWN_MODALITIES"
  shows "delivers_subject \<lparr>cc_filters = wanted_filters (subject_filters_for bs), cc_deliver = d\<rparr>
    (signal_subject (rb_owner_tenant b) (rb_source_id b) m event_class)"
  using coarse_filters_cover assms unfolding delivers_def by blast

lemma select_sources_fault:
  assumes "row \<in> set rows" "so_state row \<noteq> ''retired''" "so_subscription_policy row = ''open''"
    "scope_match sel row tenant" "selector_residual eng sel row = Inl err"
  shows "\<exists>err. select_sources eng sel sub tenant rows st = Inl err"
  using assms
proof (induction rows arbitrary: st)
  case (Cons q rows)
  show ?case
  proof (cases "row = q")
    case False
    have "(\<exists>st'. select_sources eng sel sub tenant (q # rows) st = select_sources eng sel sub tenant rows st')
        \<or> (\<exists>e. select_sources eng sel sub tenant (q # rows) st = Inl e)"
    proof (cases "selector_residual eng sel q")
      case (Inr v)
      then show ?thesis by (cases v) (auto simp del: split_paired_Ex)
    qed (auto simp del: split_paired_Ex)
    moreover have "\<exists>e. select_sources eng sel sub tenant rows st' = Inl e" for st'
      using Cons False by simp
    ultimately show ?thesis by metis
  qed (use Cons.prems in simp)
qed simp

section \<open>Properties\<close>

text \<open>Resolution proposes only what the references justify. Every binding comes from a head
  row that is not retired and carries that row's tenant; a binding made by a selector is to an
  open source whose scope and tenant the selector matches, so a locked source is never wired
  that way; an explicit binding was asked for by name; and no source is bound twice.\<close>

theorem resolution_justified:
  assumes "resolve_source_refs eng tenant refs (load_source_heads sources) = Inr bs"
  shows "distinct (map rb_source_id bs)
    \<and> (\<forall>b \<in> set bs. justified tenant (load_source_heads sources) refs b)"
  using resolve_sound [OF assms] .

theorem resolution_justified_witness:
  "justified ''default'' (load_source_heads [\<lparr>sd_descriptor_id = ''source.x'', sd_kind = ''rss'',
      sd_state = ''active'', sd_is_head = True, sd_body = None\<rparr>])
    [Explicit ''source.x'' default_subscription] any_binding"
proof -
  have "resolve_source_refs (\<lambda>_. Compile_refused) ''default'' [Explicit ''source.x'' default_subscription]
      (load_source_heads [\<lparr>sd_descriptor_id = ''source.x'', sd_kind = ''rss'',
        sd_state = ''active'', sd_is_head = True, sd_body = None\<rparr>]) = Inr [any_binding]"
    by (simp add: resolve_source_refs_def load_source_heads_def source_row_of_def by_id_def
        bind_source_def any_binding_def str_or_def body_scope_def body_get_def Let_def)
  from resolution_justified [OF this] show ?thesis by simp
qed

text \<open>C19: Registration authorizes every binding it keeps. Strict or not, each binding of a
  registered target is permitted by the policy of its source at that moment; a strict
  registration that returns refused nothing; and a non-strict one is never refused, it keeps
  exactly the permitted bindings in resolution order. The consumer it leaves on a connected bus
  filters on the plan of those bindings.\<close>

theorem registration_authorized:
  assumes "register_target eng db bus target_id tenant refs strict = Inr (sub, bus')"
  shows "(\<forall>b \<in> set (tsub_bindings sub). permitted db target_id tenant b)
    \<and> (strict \<longrightarrow> tsub_refused sub = [])
    \<and> (\<exists>resolved. resolve_source_refs eng tenant refs (load_source_heads (pg_sources db)) = Inr resolved
         \<and> tsub_bindings sub = filter (permitted db target_id tenant) resolved)
    \<and> tsub_subject_filters sub = subject_filters_for (tsub_bindings sub)"
  using assms
  by (auto simp: register_target_def Let_def split: sum.splits prod.splits dest!: authorize_Inr)

theorem registration_authorized_witness:
  "permitted \<lparr>pg_sources = [\<lparr>sd_descriptor_id = ''source.x'', sd_kind = ''rss'',
        sd_state = ''active'', sd_is_head = True, sd_body = None\<rparr>], pg_wirings = [], pg_signals = []\<rparr>
     ''t'' ''default'' any_binding"
proof -
  let ?db = "\<lparr>pg_sources = [\<lparr>sd_descriptor_id = ''source.x'', sd_kind = ''rss'',
        sd_state = ''active'', sd_is_head = True, sd_body = None\<rparr>], pg_wirings = [], pg_signals = []\<rparr>"
  have "\<exists>sub. register_target (\<lambda>_. Compile_refused) ?db None ''t'' ''default''
      [Explicit ''source.x'' default_subscription] True = Inr (sub, None) \<and> tsub_bindings sub = [any_binding]"
    by (simp add: register_target_def resolve_source_refs_def load_source_heads_def source_row_of_def by_id_def
        bind_source_def any_binding_def str_or_def body_scope_def body_get_def Let_def
        load_source_policy_def policy_of_descriptor_def enforce_subscription_def)
  then obtain sub where "register_target (\<lambda>_. Compile_refused) ?db None ''t'' ''default''
      [Explicit ''source.x'' default_subscription] True = Inr (sub, None)" "tsub_bindings sub = [any_binding]"
    by blast
  from registration_authorized [OF this(1)] this(2) show ?thesis by simp
qed

text \<open>C3: The late-join handoff, counted. Take a row of the pool that a binding of the target
  delivers, published at sequence \<open>seq\<close>, with unique ids and no read limit. The catch-up
  hands it to the sink once if it was fetched by the captured clock and not otherwise. The
  forward consumer, added when the stream had numbered \<open>bound\<close> messages and still held those
  in \<open>held\<close>, gets its message exactly when \<open>seq\<close> is past the captured boundary and
  the message was published after the bind or was still held at it. So a row is delivered twice when it was
  fetched before the clock but numbered past the boundary, and never when it was fetched after
  the clock but numbered within the boundary, or past it and no longer held at the bind.\<close>

theorem handoff_count:
  assumes "db_row r" "sig_fetched_at r = Some t" "r \<in> set (pg_signals db)" "\<not> is_backfill r"
    and "inj_on row_id (set (pg_signals db))"
    and "b \<in> set (tsub_bindings sub)" "delivers eng b r" "sig_modality r = Some m" "m \<in> set KNOWN_MODALITIES"
    and "tsub_subject_filters sub = subject_filters_for (tsub_bindings sub)" "tsub_consumer_name sub \<noteq> []"
    and "c = capture_cursor now (Some last_seq)" "0 \<le> last_seq"
  shows "\<exists>res sunk cs'. catch_up_and_forward eng db (Some cs) sub c None = (res, sunk, Some cs')
    \<and> count_list sunk r = (if t \<le> now then 1 else 0)
    \<and> (\<forall>held bound. forwards cs' held bound (tsub_consumer_name sub) seq
          (signal_subject (rb_owner_tenant b) (rb_source_id b) m event_class)
        \<longleftrightarrow> last_seq < seq \<and> (bound < seq \<or> held seq))"
proof -
  let ?subject = "signal_subject (rb_owner_tenant b) (rb_source_id b) m event_class"
  have cursor: "bc_captured_at c = now" "bc_boundary_seq c = last_seq"
    using assms(12) by (simp_all add: capture_cursor_def)
  have subj: "delivers_subject \<lparr>cc_filters = wanted_filters (tsub_subject_filters sub), cc_deliver = Deliver_all\<rparr> ?subject"
    using matches_delivered [OF assms(6-9)] assms(10) by simp
  have "tsub_bindings sub \<noteq> []" using assms(6) by auto
  then obtain cs' where "bind_forward (Some cs) sub c = (Some cs', Some (tsub_consumer_name sub))"
    "\<forall>held bound. forwards cs' held bound (tsub_consumer_name sub) seq ?subject
        \<longleftrightarrow> last_seq < seq \<and> (bound < seq \<or> held seq)"
    using forward_start [OF subj _ assms(11), of c cs seq] assms(13) cursor by auto
  with backfill_count [OF assms(1-7), of c] cursor show ?thesis
    by (simp add: catch_up_and_forward_def Let_def)
qed

text \<open>
  Interest retention makes a gap of the time between the two readings and the bind. The bind
  deletes the target's own consumer before it adds the anchored one, so at that moment the
  broker holds a message only for another consumer that wants its subject
  (\<open>interest\<close>). Where the target is the only one wired to the source, a signal
  that arrives after the capture and is published before the bind reaches the target by neither way.
\<close>

lemma lone_target_gap:
  assumes facts: "r \<notin> set (backfill eng db sub c None)" and bind: "bind_forward (Some cs) sub c = (Some cs', Some name)"
    and interest: "held seq \<longrightarrow> (\<exists>(other, cfg) \<in> set cs. other \<noteq> name \<and> delivers_subject cfg subject)"
    and lone: "\<forall>(other, cfg) \<in> set cs. delivers_subject cfg subject \<longrightarrow> other = name"
    and early: "seq \<le> bound"
  shows "catch_up_and_forward eng db (Some cs) sub c None
      = (\<lparr>bf_target_id = tsub_target_id sub, bf_cursor = c, bf_delivered = length (backfill eng db sub c None),
           bf_delivered_ids = map row_id (backfill eng db sub c None), bf_forward_consumer = Some name\<rparr>,
         backfill eng db sub c None, Some cs')
    \<and> r \<notin> set (backfill eng db sub c None) \<and> \<not> forwards cs' held bound name seq subject"
proof -
  have "\<not> held seq" using interest lone by fastforce
  then have "\<not> forwards cs' held bound name seq subject"
    using early by (auto simp: forwards_def split: option.splits deliver_policy.splits)
  then show ?thesis using facts bind by (simp add: catch_up_and_forward_def Let_def)
qed

definition late_row :: signal_row where
  "late_row = uuid_row\<lparr>sig_payload := Some (P_dict []), sig_fetched_at := Some (seconds 10)\<rparr>"

theorem handoff_count_witness:
  "\<exists>res sunk cs'. catch_up_and_forward (\<lambda>_. Compile_refused)
      \<lparr>pg_sources = [], pg_wirings = [], pg_signals = [late_row]\<rparr> (Some [])
      \<lparr>tsub_target_id = ''t'', tsub_target_tenant = ''default'', tsub_bindings = [any_binding],
       tsub_subject_filters = subject_filters_for [any_binding], tsub_consumer_name = ''target_t'',
       tsub_refused = []\<rparr> (capture_cursor (seconds 9) (Some 7)) None = (res, sunk, Some cs')
    \<and> count_list sunk late_row = 0
    \<and> \<not> forwards cs' (\<lambda>_. False) 9 ''target_t'' 8 (signal_subject ''default'' ''source.x'' ''text'' ''raw'')"
proof -
  have row: "db_row late_row"
    using uuid_row_db by (simp add: late_row_def db_row_def)
  have deliv: "delivers (\<lambda>_. Compile_refused) any_binding late_row"
    by (simp add: delivers_def matches_def any_binding_def default_subscription_def late_row_def
        uuid_row_def residual_matches_def)
  have facts: "sig_fetched_at late_row = Some (seconds 10)" "sig_modality late_row = Some ''text''"
    "\<not> is_backfill late_row" "''text'' \<in> set KNOWN_MODALITIES"
    by (simp_all add: late_row_def uuid_row_def is_backfill_def KNOWN_MODALITIES_def)
  show ?thesis
    using handoff_count [OF row facts(1) _ facts(3) _ _ deliv facts(2,4) _ _ refl,
        of "\<lparr>pg_sources = [], pg_wirings = [], pg_signals = [late_row]\<rparr>"
           "\<lparr>tsub_target_id = ''t'', tsub_target_tenant = ''default'', tsub_bindings = [any_binding],
             tsub_subject_filters = subject_filters_for [any_binding], tsub_consumer_name = ''target_t'',
             tsub_refused = []\<rparr>" 7 "[]" "seconds 9" 8 "''raw''"]
    by (simp add: any_binding_def del: split_paired_Ex)
      (elim exE conjE, intro exI conjI, assumption, assumption, simp)
qed

text \<open>A selector's residual does not always fail closed: when evaluating it exceeds the
  predicate budget on one eligible source, the whole resolution of the selector raises, and the
  registration with it, instead of leaving that source out.\<close>

theorem selector_budget_sinks_registration:
  assumes "row \<in> set (load_source_heads (pg_sources db))" "so_state row \<noteq> ''retired''"
    and "so_subscription_policy row = ''open''" "scope_match sel row tenant"
    and "sel_predicate sel = Some p" "p \<noteq> []" "eng p = Compiled ev" "\<And>x. ev x = Eval_budget_exceeded"
  shows "\<exists>err. register_target eng db bus target_id tenant [By_selector sel sub] strict
    = Inl (Predicate_fault err)"
proof -
  have "selector_residual eng sel row = Inl Predicate_budget_exceeded"
    using assms by (simp add: selector_residual_def)
  from select_sources_fault [OF assms(1-4) this, of sub "([], [])"] show ?thesis
    by (auto simp: register_target_def resolve_source_refs_def)
qed

theorem selector_budget_sinks_registration_witness:
  "\<exists>err. register_target (\<lambda>_. Compiled (\<lambda>_. Eval_budget_exceeded))
     \<lparr>pg_sources = [\<lparr>sd_descriptor_id = ''source.x'', sd_kind = ''rss'', sd_state = ''active'',
        sd_is_head = True, sd_body = None\<rparr>], pg_wirings = [], pg_signals = []\<rparr> None ''t'' ''default''
     [By_selector \<lparr>sel_tags = [], sel_geo = [], sel_languages = [], sel_owner_tenant = None,
        sel_kinds = [], sel_predicate = Some ''True''\<rparr> default_subscription] False
     = Inl (Predicate_fault err)"
  by (rule selector_budget_sinks_registration [where row = "source_row_of \<lparr>sd_descriptor_id = ''source.x'',
        sd_kind = ''rss'', sd_state = ''active'', sd_is_head = True, sd_body = None\<rparr>" and p = "''True''"])
     (simp_all add: load_source_heads_def source_row_of_def scope_match_def str_or_def body_get_def
        body_scope_def Let_def)

end
