(* ===== verification/JobStore.thy ===== *)
theory JobStore
  imports Signals
begin

text \<open>
  The job envelope (\<open>data/jobs/envelope.py\<close>) and the idempotency ledger
  \<open>public.legba_jobs\<close> (\<open>data/jobs/store.py\<close>). The ledger is an association list keyed by
  the idempotency key; each SQL statement is one definition, with the database's \<open>NOW()\<close> as
  an argument. The cached \<open>envelope\<close> column is the envelope itself, \<open>None\<close> in a row
  written before the column existed. No statement deletes a row, so the branch of
  \<^verbatim>\<open>claim\<close> for a row that vanished between its two statements is left out. The theory ends with the interface the worker relies on,
  the states a key goes through, interpreted on these statements.
\<close>

section \<open>Envelope and result\<close>

type_synonym job_key = py_str

record job_envelope =
  je_job_id :: py_str
  je_job_kind :: py_str
  je_requested_by :: py_str
  je_budget_account :: py_str
  je_input_refs :: json_dict
  je_idempotency_key :: job_key
  je_attempts :: nat
  je_deadline :: "instant option"
  je_tenant_id :: py_str
  je_enqueued_at :: instant

definition model_post_init :: "job_envelope \<Rightarrow> job_envelope" where
  "model_post_init env =
     (if je_idempotency_key env = [] then env\<lparr>je_idempotency_key := je_job_id env\<rparr> else env)"

definition is_expired :: "job_envelope \<Rightarrow> instant \<Rightarrow> bool" where
  "is_expired env wall =
     (case je_deadline env of None \<Rightarrow> False | Some d \<Rightarrow> wall > d)"

datatype result_status = R_completed | R_failed | R_skipped_duplicate | R_expired

text \<open>The error texts the job plane writes; the text of an exception is \<open>E_text\<close>.\<close>

datatype job_error =
    E_past_deadline
  | E_no_handler py_str
  | E_handler_error py_str
  | E_lease_expired int nat nat
  | E_text py_str

record job_result =
  jr_job_id :: py_str
  jr_job_kind :: py_str
  jr_status :: result_status
  jr_output_refs :: json_dict
  jr_error :: "job_error option"
  jr_worker_id :: py_str
  jr_finished_at :: instant

section \<open>The ledger\<close>

datatype ledger_status = L_claimed | L_completed | L_failed | L_released

record ledger_row =
  lr_job_id :: py_str
  lr_job_kind :: py_str
  lr_tenant_id :: py_str
  lr_requested_by :: py_str
  lr_budget_account :: py_str
  lr_status :: ledger_status
  lr_attempts :: nat
  lr_result :: "job_result option"
  lr_envelope :: "job_envelope option"
  lr_claimed_at :: instant
  lr_updated_at :: instant

type_synonym ledger = "(job_key \<times> ledger_row) list"

record claim_result =
  cr_acquired :: bool
  cr_status :: ledger_status
  cr_prior_result :: "job_result option"

definition fresh_row :: "instant \<Rightarrow> job_envelope \<Rightarrow> ledger_row" where
  "fresh_row db_now env =
     \<lparr>lr_job_id = je_job_id env, lr_job_kind = je_job_kind env, lr_tenant_id = je_tenant_id env,
      lr_requested_by = je_requested_by env, lr_budget_account = je_budget_account env,
      lr_status = L_claimed, lr_attempts = je_attempts env, lr_result = None,
      lr_envelope = Some env, lr_claimed_at = db_now, lr_updated_at = db_now\<rparr>"

definition claim :: "instant \<Rightarrow> ledger \<Rightarrow> job_envelope \<Rightarrow> ledger \<times> claim_result" where
  "claim db_now t env =
     (let key = je_idempotency_key env in
      case map_of t key of
        None \<Rightarrow>
          (AList.update key (fresh_row db_now env) t,
           \<lparr>cr_acquired = True, cr_status = L_claimed, cr_prior_result = None\<rparr>)
      | Some row \<Rightarrow>
          if lr_status row = L_released
          then (AList.update key
                  (row\<lparr>lr_status := L_claimed, lr_attempts := je_attempts env,
                       lr_envelope := Some env, lr_claimed_at := db_now, lr_updated_at := db_now\<rparr>) t,
                \<lparr>cr_acquired = True, cr_status = L_claimed, cr_prior_result = None\<rparr>)
          else (t, \<lparr>cr_acquired = False, cr_status = lr_status row, cr_prior_result = lr_result row\<rparr>))"

definition complete :: "instant \<Rightarrow> ledger \<Rightarrow> job_key \<Rightarrow> job_result \<Rightarrow> ledger" where
  "complete db_now t key result =
     (case map_of t key of
        None \<Rightarrow> t
      | Some row \<Rightarrow>
          AList.update key
            (row\<lparr>lr_status := L_completed, lr_result := Some result,
                 lr_attempts := lr_attempts row + 1, lr_updated_at := db_now\<rparr>) t)"

definition fail :: "instant \<Rightarrow> ledger \<Rightarrow> job_key \<Rightarrow> job_result \<Rightarrow> ledger" where
  "fail db_now t key result =
     (case map_of t key of
        None \<Rightarrow> t
      | Some row \<Rightarrow>
          AList.update key
            (row\<lparr>lr_status := L_failed, lr_result := Some result,
                 lr_attempts := lr_attempts row + 1, lr_updated_at := db_now\<rparr>) t)"

definition release :: "instant \<Rightarrow> ledger \<Rightarrow> job_key \<Rightarrow> ledger" where
  "release db_now t key =
     (case map_of t key of
        None \<Rightarrow> t
      | Some row \<Rightarrow>
          if lr_status row = L_claimed
          then AList.update key (row\<lparr>lr_status := L_released, lr_updated_at := db_now\<rparr>) t
          else t)"

section \<open>The reaper's statements\<close>

datatype disposition = D_released | D_failed

record reaped_entry =
  re_idempotency_key :: job_key
  re_job_id :: py_str
  re_job_kind :: py_str
  re_attempts :: nat
  re_disposition :: disposition
  re_envelope :: "job_envelope option"

definition stale :: "instant \<Rightarrow> int \<Rightarrow> ledger_row \<Rightarrow> bool" where
  "stale db_now lease row \<longleftrightarrow> lr_status row = L_claimed \<and> lr_claimed_at row < db_now - lease"

definition lease_expired_result :: "instant \<Rightarrow> int \<Rightarrow> nat \<Rightarrow> py_str \<Rightarrow> ledger_row \<Rightarrow> job_result" where
  "lease_expired_result db_now lease maxd reaper row =
     \<lparr>jr_job_id = lr_job_id row, jr_job_kind = lr_job_kind row, jr_status = R_failed,
      jr_output_refs = [], jr_error = Some (E_lease_expired lease (lr_attempts row) maxd),
      jr_worker_id = reaper, jr_finished_at = db_now\<rparr>"

definition entry_of :: "disposition \<Rightarrow> job_envelope option \<Rightarrow> job_key \<Rightarrow> ledger_row \<Rightarrow> reaped_entry" where
  "entry_of d env key row =
     \<lparr>re_idempotency_key = key, re_job_id = lr_job_id row, re_job_kind = lr_job_kind row,
      re_attempts = lr_attempts row, re_disposition = d, re_envelope = env\<rparr>"

definition reap_failed ::
  "instant \<Rightarrow> int \<Rightarrow> nat \<Rightarrow> py_str \<Rightarrow> ledger \<Rightarrow> ledger \<times> reaped_entry list" where
  "reap_failed db_now lease maxd reaper t =
     (let hit = (\<lambda>row. stale db_now lease row \<and> lr_attempts row \<ge> maxd) in
      (map (\<lambda>(k, row).
          (k, if hit row
              then row\<lparr>lr_status := L_failed,
                       lr_result := Some (lease_expired_result db_now lease maxd reaper row),
                       lr_updated_at := db_now\<rparr>
              else row)) t,
       map (\<lambda>(k, row). entry_of D_failed None k row) (filter (\<lambda>(k, row). hit row) t)))"

definition reap_released :: "instant \<Rightarrow> int \<Rightarrow> nat \<Rightarrow> ledger \<Rightarrow> ledger \<times> reaped_entry list" where
  "reap_released db_now lease maxd t =
     (let hit = (\<lambda>row. stale db_now lease row \<and> lr_attempts row < maxd) in
      (map (\<lambda>(k, row).
          (k, if hit row then row\<lparr>lr_status := L_released, lr_updated_at := db_now\<rparr> else row)) t,
       map (\<lambda>(k, row). entry_of D_released (lr_envelope row) k row) (filter (\<lambda>(k, row). hit row) t)))"

definition reap_stale_claims ::
  "instant \<Rightarrow> int \<Rightarrow> nat \<Rightarrow> py_str \<Rightarrow> ledger \<Rightarrow> ledger \<times> reaped_entry list" where
  "reap_stale_claims db_now lease maxd reaper t =
     (let (t1, failed) = reap_failed db_now lease maxd reaper t;
          (t2, released) = reap_released db_now lease maxd t1
      in (t2, failed @ released))"

section \<open>Lemmas\<close>

definition key_status :: "ledger \<Rightarrow> job_key \<Rightarrow> ledger_status option" where
  "key_status t k = map_option lr_status (map_of t k)"

definition settle_key :: "instant \<Rightarrow> ledger \<Rightarrow> job_key \<Rightarrow> job_result \<Rightarrow> bool \<Rightarrow> ledger" where
  "settle_key db_now t k res ok = (if ok then complete db_now t k res else fail db_now t k res)"

lemmas ledger_ops = claim_def complete_def fail_def release_def Let_def key_status_def

lemma map_of_reap_failed:
  "map_of (fst (reap_failed n lease m r t)) k =
     map_option (\<lambda>row. if stale n lease row \<and> lr_attempts row \<ge> m
        then row\<lparr>lr_status := L_failed, lr_result := Some (lease_expired_result n lease m r row),
                 lr_updated_at := n\<rparr> else row) (map_of t k)"
  by (simp add: reap_failed_def Let_def map_of_map)

lemma map_of_reap_released:
  "map_of (fst (reap_released n lease m t)) k =
     map_option (\<lambda>row. if stale n lease row \<and> lr_attempts row < m
        then row\<lparr>lr_status := L_released, lr_updated_at := n\<rparr> else row) (map_of t k)"
  by (simp add: reap_released_def Let_def map_of_map)

text \<open>What one sweep does to a row, both statements together.\<close>

definition reap_row :: "instant \<Rightarrow> int \<Rightarrow> nat \<Rightarrow> py_str \<Rightarrow> ledger_row \<Rightarrow> ledger_row" where
  "reap_row n lease m r row =
     (if \<not> stale n lease row then row
      else if lr_attempts row \<ge> m
      then row\<lparr>lr_status := L_failed, lr_result := Some (lease_expired_result n lease m r row),
               lr_updated_at := n\<rparr>
      else row\<lparr>lr_status := L_released, lr_updated_at := n\<rparr>)"

lemma reap_fst:
  "fst (reap_stale_claims n lease m r t) =
     fst (reap_released n lease m (fst (reap_failed n lease m r t)))"
  by (simp add: reap_stale_claims_def split_beta)

lemma map_of_reap:
  "map_of (fst (reap_stale_claims n lease m r t)) k = map_option (reap_row n lease m r) (map_of t k)"
  by (auto simp: reap_fst map_of_reap_released map_of_reap_failed option.map_comp o_def
      reap_row_def stale_def intro!: option.map_cong)

lemma reap_keys: "map fst (fst (reap_stale_claims n lease m r t)) = map fst t"
  by (simp add: reap_stale_claims_def reap_released_def reap_failed_def Let_def split_beta o_def)

lemma reap_entries:
  "snd (reap_stale_claims n lease m r t) =
     map (\<lambda>(k, row). entry_of D_failed None k row)
       (filter (\<lambda>(k, row). stale n lease row \<and> lr_attempts row \<ge> m) t)
     @ map (\<lambda>(k, row). entry_of D_released (lr_envelope row) k row)
       (filter (\<lambda>(k, row). stale n lease row \<and> lr_attempts row < m) t)"
proof -
  have "filter (\<lambda>(k, row). stale n lease row \<and> lr_attempts row < m) (fst (reap_failed n lease m r t))
    = filter (\<lambda>(k, row). stale n lease row \<and> lr_attempts row < m) t"
    by (induction t) (auto simp: reap_failed_def Let_def stale_def split: if_split_asm)
  then show ?thesis
    by (simp add: reap_stale_claims_def split_beta reap_released_def) (simp add: reap_failed_def Let_def split_beta)
qed

lemma claim_keys_distinct: "distinct (map fst t) \<Longrightarrow> distinct (map fst (fst (claim n t e)))"
  by (auto simp: ledger_ops distinct_update split: option.split)

lemma settle_keys_distinct: "distinct (map fst t) \<Longrightarrow> distinct (map fst (settle_key n t k r ok))"
  by (auto simp: settle_key_def ledger_ops distinct_update split: option.split)

lemma release_keys_distinct: "distinct (map fst t) \<Longrightarrow> distinct (map fst (release n t k))"
  by (auto simp: ledger_ops distinct_update split: option.split)

lemma claim_acquired:
  "cr_acquired (snd (claim n t e)) \<longleftrightarrow> key_status t (je_idempotency_key e) \<in> {None, Some L_released}"
  by (auto simp: ledger_ops split: option.split)

lemma map_of_claim:
  "map_of (fst (claim n t e)) k =
     (if k = je_idempotency_key e \<and> cr_acquired (snd (claim n t e))
      then Some (case map_of t k of None \<Rightarrow> fresh_row n e
        | Some row \<Rightarrow> row\<lparr>lr_status := L_claimed, lr_attempts := je_attempts e,
                        lr_envelope := Some e, lr_claimed_at := n, lr_updated_at := n\<rparr>)
      else map_of t k)"
  by (auto simp: ledger_ops table_simps split: option.split)

lemma claim_refused_status:
  "\<not> cr_acquired (snd (claim n t e)) \<Longrightarrow>
     fst (claim n t e) = t \<and> key_status t (je_idempotency_key e) = Some (cr_status (snd (claim n t e)))
     \<and> (\<exists>row. map_of t (je_idempotency_key e) = Some row
          \<and> cr_prior_result (snd (claim n t e)) = lr_result row)"
  by (auto simp: ledger_ops split: option.splits if_splits)

lemma key_status_claim:
  "key_status (fst (claim n t e)) k =
     (if k = je_idempotency_key e \<and> cr_acquired (snd (claim n t e)) then Some L_claimed
      else key_status t k)"
  by (auto simp: key_status_def map_of_claim fresh_row_def split: option.split)

lemma key_status_settle:
  "key_status (settle_key n t k r ok) k' =
     (if k' = k \<and> key_status t k \<noteq> None
      then Some (if ok then L_completed else L_failed) else key_status t k')"
  by (auto simp: settle_key_def ledger_ops table_simps split: option.split)

lemma key_status_release:
  "key_status (release n t k) k' =
     (if k' = k \<and> key_status t k = Some L_claimed then Some L_released else key_status t k')"
  by (auto simp: ledger_ops table_simps split: option.split)

lemma key_status_reap:
  "key_status (fst (reap_stale_claims n lease m r t)) k =
     map_option (\<lambda>row. lr_status (reap_row n lease m r row)) (map_of t k)"
  by (simp add: key_status_def map_of_reap option.map_comp o_def)

section \<open>The interface of the ledger\<close>

text \<open>
  What the worker relies on: the states a key goes through. A taker wins only from nothing or
  from \<open>released\<close>; a terminal key is never taken, released or reaped.
\<close>

locale job_ledger =
  fixes status :: "'t \<Rightarrow> 'k \<Rightarrow> ledger_status option"
    and key_of :: "'e \<Rightarrow> 'k"
    and take_key :: "'t \<Rightarrow> 'e \<Rightarrow> 't \<times> bool"
    and close_key :: "'t \<Rightarrow> 'k \<Rightarrow> bool \<Rightarrow> 't"
    and drop_key :: "'t \<Rightarrow> 'k \<Rightarrow> 't"
    and expire :: "'t \<Rightarrow> 't"
  assumes take_wins: "snd (take_key t e) \<longleftrightarrow> status t (key_of e) \<in> {None, Some L_released}"
    and take_status: "status (fst (take_key t e)) k =
      (if k = key_of e \<and> snd (take_key t e) then Some L_claimed else status t k)"
    and close_status: "status (close_key t k ok) k' =
      (if k' = k \<and> status t k \<noteq> None
       then Some (if ok then L_completed else L_failed) else status t k')"
    and drop_status: "status (drop_key t k) k' =
      (if k' = k \<and> status t k = Some L_claimed then Some L_released else status t k')"
    and expire_status: "status (expire t) k = status t k
      \<or> status t k = Some L_claimed \<and> status (expire t) k \<in> {Some L_failed, Some L_released}"
begin

abbreviation terminal :: "'t \<Rightarrow> 'k \<Rightarrow> bool" where
  "terminal t k \<equiv> status t k \<in> {Some L_completed, Some L_failed}"

lemma second_taker_loses:
  "snd (take_key t e) \<Longrightarrow> key_of e' = key_of e \<Longrightarrow> \<not> snd (take_key (fst (take_key t e)) e')"
  by (simp add: take_wins take_status)

lemma terminal_not_taken: "terminal t (key_of e) \<Longrightarrow> \<not> snd (take_key t e)"
  by (auto simp: take_wins)

lemma take_keeps_terminal: "terminal t k \<Longrightarrow> terminal (fst (take_key t e)) k"
  by (auto simp: take_status take_wins)

lemma close_keeps_terminal: "terminal t k \<Longrightarrow> terminal (close_key t k' ok) k"
  by (simp add: close_status)

lemma drop_keeps_terminal: "terminal t k \<Longrightarrow> terminal (drop_key t k') k"
  by (auto simp: drop_status)

lemma expire_keeps_terminal: "terminal t k \<Longrightarrow> terminal (expire t) k"
  using expire_status [of t k] by auto

lemmas keeps_terminal = take_keeps_terminal close_keeps_terminal drop_keeps_terminal
  expire_keeps_terminal

lemma closed_is_terminal: "status t k \<noteq> None \<Longrightarrow> terminal (close_key t k ok) k"
  by (simp add: close_status)

lemma dropped_can_be_taken:
  "status t (key_of e) = Some L_claimed \<Longrightarrow> snd (take_key (drop_key t (key_of e)) e)"
  by (simp add: take_wins drop_status)

end

definition take_claim :: "instant \<Rightarrow> ledger \<Rightarrow> job_envelope \<Rightarrow> ledger \<times> bool" where
  "take_claim n t e = (fst (claim n t e), cr_acquired (snd (claim n t e)))"

interpretation jobs: job_ledger key_status je_idempotency_key "take_claim n1"
    "\<lambda>t k ok. settle_key n2 t k res ok" "release n3"
    "\<lambda>t. fst (reap_stale_claims n4 lease maxd reaper t)"
  for n1 n2 res n3 n4 lease maxd reaper
proof unfold_locales
  fix t k
  show "key_status (fst (reap_stale_claims n4 lease maxd reaper t)) k = key_status t k
    \<or> key_status t k = Some L_claimed
      \<and> key_status (fst (reap_stale_claims n4 lease maxd reaper t)) k \<in> {Some L_failed, Some L_released}"
    by (cases "map_of t k") (auto simp: key_status_def map_of_reap reap_row_def stale_def)
qed (simp_all add: take_claim_def claim_acquired key_status_claim key_status_settle key_status_release)

end
