(* ===== verification/JobWorker.thy ===== *)
theory JobWorker
  imports JobStore
begin

text \<open>
  The competing-consumer worker of the job plane: \<open>runtime/jobs/worker.py\<close> with the dispatch
  table of \<open>dispatch.py\<close> and the queue's settings of \<open>queue.py\<close>. One message is processed
  in two halves around the await of its handler, so that a fleet of workers can interleave
  there; \<open>process_msg\<close> composes them. What the handler does is an argument (the outcome it
  returns or raises), like the clocks and what the broker answers. Then a fleet of workers over
  one ledger as an executor of events, and what holds in every run of it.
\<close>

section \<open>Queue settings and dispatch\<close>

record queue_cfg =
  q_ack_wait_seconds :: int
  q_max_deliver :: nat

definition default_queue :: queue_cfg where
  "default_queue = \<lparr>q_ack_wait_seconds = 180, q_max_deliver = 5\<rparr>"

type_synonym 'h dispatch = "(py_str \<times> 'h) list"

datatype dispatch_error = Already_registered py_str

definition register :: "'h dispatch \<Rightarrow> py_str \<Rightarrow> 'h \<Rightarrow> dispatch_error + 'h dispatch" where
  "register d kind h =
     (case map_of d kind of
        Some _ \<Rightarrow> Inl (Already_registered kind)
      | None \<Rightarrow> Inr (AList.update kind h d))"

definition handler_for :: "'h dispatch \<Rightarrow> py_str \<Rightarrow> 'h option" where
  "handler_for d kind = map_of d kind"

definition nak_delay_seconds :: "queue_cfg \<Rightarrow> int" where
  "nak_delay_seconds q = max 1 (q_ack_wait_seconds q)"

definition lease_seconds :: "queue_cfg \<Rightarrow> int" where
  "lease_seconds q = q_ack_wait_seconds q * max 1 (int (q_max_deliver q))"

text \<open>The backoff in milliseconds: \<^verbatim>\<open>min(30, 0.5 * 2 ** (n - 1))\<close> seconds.\<close>

definition error_backoff_ms :: "nat \<Rightarrow> nat" where
  "error_backoff_ms streak = min 30000 (500 * 2 ^ (max 1 streak - 1))"

section \<open>One worker and one message\<close>

record job_worker =
  w_worker_id :: py_str
  w_processed :: nat
  w_skipped_duplicate :: nat
  w_failed :: nat
  w_reaped :: nat
  w_next_reap_at :: instant
  w_fetch_errors :: nat

text \<open>The reaper runs at half the lease, here in microseconds, and never below a second.\<close>

definition reap_interval :: "queue_cfg \<Rightarrow> int" where
  "reap_interval q = max (seconds 1) (seconds (lease_seconds q) div 2)"

definition new_worker :: "queue_cfg \<Rightarrow> py_str \<Rightarrow> instant \<Rightarrow> job_worker" where
  "new_worker q name mclock =
     \<lparr>w_worker_id = name, w_processed = 0, w_skipped_duplicate = 0, w_failed = 0, w_reaped = 0,
      w_next_reap_at = mclock + reap_interval q, w_fetch_errors = 0\<rparr>"

text \<open>
  A message: the envelope fields pydantic validates out of its bytes (\<open>None\<close> when it
  refuses them) and the delivery count the broker reports (\<open>None\<close> when there is none).
\<close>

record message =
  m_body :: "job_envelope option"
  m_num_delivered :: "nat option"

definition from_bytes :: "message \<Rightarrow> job_envelope option" where
  "from_bytes msg = map_option model_post_init (m_body msg)"

definition delivered :: "message \<Rightarrow> nat" where
  "delivered msg = (case m_num_delivered msg of None \<Rightarrow> 0 | Some n \<Rightarrow> n)"

datatype settlement = Acked | Termed | Naked int

datatype 'h plan = Fail_expired instant | Fail_no_handler | Run_handler 'h

datatype 'h begun = Settled "job_result option" settlement | Holding job_envelope "'h plan"

datatype outcome = Returned job_result | Raised py_str

definition worker_result ::
  "job_worker \<Rightarrow> job_envelope \<Rightarrow> result_status \<Rightarrow> job_error option \<Rightarrow> json_dict \<Rightarrow> instant \<Rightarrow> job_result" where
  "worker_result w env st err refs wall =
     \<lparr>jr_job_id = je_job_id env, jr_job_kind = je_job_kind env, jr_status = st,
      jr_output_refs = refs, jr_error = err, jr_worker_id = w_worker_id w, jr_finished_at = wall\<rparr>"

definition begin_msg ::
  "queue_cfg \<Rightarrow> 'h dispatch \<Rightarrow> instant \<Rightarrow> instant \<Rightarrow> job_worker \<Rightarrow> ledger \<Rightarrow> message
     \<Rightarrow> ledger \<times> job_worker \<times> 'h begun" where
  "begin_msg q d wall db_now w t msg =
     (case from_bytes msg of
        None \<Rightarrow> (t, w, Settled None Termed)
      | Some parsed \<Rightarrow>
          let env = parsed\<lparr>je_attempts := delivered msg\<rparr>;
              (t1, c) = claim db_now t env
          in if is_expired env wall then
               (if cr_acquired c then (t1, w, Holding env (Fail_expired wall))
                else (t1, w\<lparr>w_failed := w_failed w + 1\<rparr>,
                      Settled (Some (worker_result w env R_expired (Some E_past_deadline) [] wall)) Acked))
             else if \<not> cr_acquired c then
               (if cr_status c \<in> {L_completed, L_failed}
                then (t1, w\<lparr>w_skipped_duplicate := w_skipped_duplicate w + 1\<rparr>,
                      Settled (Some (worker_result w env R_skipped_duplicate None
                        (case cr_prior_result c of None \<Rightarrow> [] | Some r \<Rightarrow> jr_output_refs r) wall)) Acked)
                else (t1, w, Settled None (Naked (nak_delay_seconds q))))
             else
               (case handler_for d (je_job_kind env) of
                  None \<Rightarrow> (t1, w, Holding env Fail_no_handler)
                | Some h \<Rightarrow> (t1, w, Holding env (Run_handler h))))"

text \<open>
  The second half: the ledger statement, the settlement of the message, the counters and the
  result handed to the caller. The outcome is that of the handler, read only when one ran.
\<close>

definition finish_msg ::
  "queue_cfg \<Rightarrow> instant \<Rightarrow> instant \<Rightarrow> job_worker \<Rightarrow> ledger \<Rightarrow> job_envelope \<Rightarrow> 'h plan \<Rightarrow> outcome
     \<Rightarrow> ledger \<times> job_worker \<times> job_result option \<times> settlement" where
  "finish_msg q wall db_now w t env plan out =
     (let key = je_idempotency_key env;
          failed = w\<lparr>w_failed := w_failed w + 1\<rparr>
      in case plan of
           Fail_expired at \<Rightarrow>
             (let r = worker_result w env R_expired (Some E_past_deadline) [] at
              in (fail db_now t key r, failed, Some r, Acked))
         | Fail_no_handler \<Rightarrow>
             (let r = worker_result w env R_failed (Some (E_no_handler (je_job_kind env))) [] wall
              in (fail db_now t key r, failed, Some r, Termed))
         | Run_handler h \<Rightarrow>
             (case out of
                Raised exc \<Rightarrow>
                  if je_attempts env \<ge> q_max_deliver q
                  then (let r = worker_result w env R_failed (Some (E_handler_error exc)) [] wall
                        in (fail db_now t key r, failed, Some r, Termed))
                  else (release db_now t key, w, None, Naked (nak_delay_seconds q))
              | Returned r \<Rightarrow>
                  if jr_status r = R_completed
                  then (complete db_now t key r, w\<lparr>w_processed := w_processed w + 1\<rparr>, Some r, Acked)
                  else (fail db_now t key r, failed, Some r, Acked)))"

definition process_msg ::
  "queue_cfg \<Rightarrow> 'h dispatch \<Rightarrow> ('h \<Rightarrow> job_envelope \<Rightarrow> outcome) \<Rightarrow> instant \<times> instant \<Rightarrow> instant \<times> instant
     \<Rightarrow> job_worker \<Rightarrow> ledger \<Rightarrow> message
     \<Rightarrow> ledger \<times> job_worker \<times> job_result option \<times> settlement" where
  "process_msg q d call start stop w t msg =
     (case begin_msg q d (fst start) (snd start) w t msg of
        (t1, w1, Settled r s) \<Rightarrow> (t1, w1, r, s)
      | (t1, w1, Holding env plan) \<Rightarrow>
          finish_msg q (fst stop) (snd stop) w1 t1 env plan
            (case plan of Run_handler h \<Rightarrow> call h env | _ \<Rightarrow> Raised []))"

section \<open>The reaper and the fetch loop\<close>

text \<open>
  \<open>publish\<close> says which enqueues the broker accepts. The result lists the envelopes that were
  published again, each with its key defaulted as parsing does.
\<close>

definition reenqueue_released ::
  "(job_envelope \<Rightarrow> bool) \<Rightarrow> reaped_entry list \<Rightarrow> job_envelope list" where
  "reenqueue_released publish reaped =
     filter publish
       (map model_post_init
         (List.map_filter re_envelope (filter (\<lambda>e. re_disposition e = D_released) reaped)))"

text \<open>\<open>db_now\<close> is \<open>None\<close> when the sweep's statements raise.\<close>

definition maybe_reap ::
  "queue_cfg \<Rightarrow> (job_envelope \<Rightarrow> bool) \<Rightarrow> instant \<Rightarrow> instant option \<Rightarrow> job_worker \<Rightarrow> ledger
     \<Rightarrow> ledger \<times> job_worker \<times> job_envelope list" where
  "maybe_reap q publish mclock db_now w t =
     (if mclock < w_next_reap_at w then (t, w, [])
      else let w1 = w\<lparr>w_next_reap_at := mclock + reap_interval q\<rparr>
           in case db_now of
                None \<Rightarrow> (t, w1, [])
              | Some n \<Rightarrow>
                  let (t1, reaped) = reap_stale_claims n (seconds (lease_seconds q)) (q_max_deliver q)
                        (w_worker_id w) t
                  in (t1, w1\<lparr>w_reaped := w_reaped w + length reaped\<rparr>,
                      reenqueue_released publish reaped))"

datatype fetched = Fetch_timeout | Fetch_error | Fetch_msgs "message list"

text \<open>A batch, each message with the clock readings of its two halves.\<close>

fun process_batch ::
  "queue_cfg \<Rightarrow> 'h dispatch \<Rightarrow> ('h \<Rightarrow> job_envelope \<Rightarrow> outcome)
     \<Rightarrow> ((instant \<times> instant) \<times> (instant \<times> instant)) list \<Rightarrow> job_worker \<Rightarrow> ledger \<Rightarrow> message list
     \<Rightarrow> ledger \<times> job_worker \<times> job_result list \<times> settlement list" where
  "process_batch q d call ((start, stop) # clocks) w t (msg # msgs) =
     (let (t1, w1, r, s) = process_msg q d call start stop w t msg;
          (t2, w2, rs, ss) = process_batch q d call clocks w1 t1 msgs
      in (t2, w2, (case r of None \<Rightarrow> rs | Some x \<Rightarrow> x # rs), s # ss))"
| "process_batch q d call clocks w t msgs = (t, w, [], [])"

text \<open>The last component is the sleep before returning, in milliseconds.\<close>

definition drain_once ::
  "queue_cfg \<Rightarrow> 'h dispatch \<Rightarrow> ('h \<Rightarrow> job_envelope \<Rightarrow> outcome) \<Rightarrow> (job_envelope \<Rightarrow> bool)
     \<Rightarrow> instant \<Rightarrow> instant option \<Rightarrow> ((instant \<times> instant) \<times> (instant \<times> instant)) list
     \<Rightarrow> job_worker \<Rightarrow> ledger \<Rightarrow> fetched
     \<Rightarrow> ledger \<times> job_worker \<times> job_result list \<times> nat" where
  "drain_once q d call publish mclock db_now clocks w t f =
     (let (t1, w1, _) = maybe_reap q publish mclock db_now w t
      in case f of
           Fetch_timeout \<Rightarrow> (t1, w1\<lparr>w_fetch_errors := 0\<rparr>, [], 0)
         | Fetch_error \<Rightarrow>
             (let n = w_fetch_errors w1 + 1 in (t1, w1\<lparr>w_fetch_errors := n\<rparr>, [], error_backoff_ms n))
         | Fetch_msgs msgs \<Rightarrow>
             (let (t2, w2, rs, _) = process_batch q d call clocks (w1\<lparr>w_fetch_errors := 0\<rparr>) t1 msgs
              in (t2, w2, rs, 0)))"

section \<open>A fleet of workers over one ledger\<close>

text \<open>
  A slot is a worker and, between the halves of a message, what it holds: the envelope, the plan
  and the database time of its claim. Every event carries what the world decides: which worker
  moves, which message the broker hands it, what its handler does. The database clock only moves
  forward. A sweep carries whether the broker accepts what it publishes again, which
  \<open>f_published\<close> records. \<open>Crash\<close> is the death of a worker between its halves (or a database error there);
  it starts over with fresh counters.
\<close>

record 'h slot =
  s_worker :: job_worker
  s_held :: "(job_envelope \<times> 'h plan \<times> instant) option"

record 'h fleet =
  f_clock :: instant
  f_ledger :: ledger
  f_slots :: "'h slot list"
  f_completed :: "job_key list"
  f_published :: "job_envelope list"

datatype fleet_event =
    Tick int
  | Deliver nat instant message
  | Finish nat instant outcome
  | Crash nat
  | Sweep nat instant bool

definition succeeded :: "'h plan \<Rightarrow> outcome \<Rightarrow> bool" where
  "succeeded plan out \<longleftrightarrow>
     (case plan of Run_handler _ \<Rightarrow> (case out of Returned r \<Rightarrow> jr_status r = R_completed | _ \<Rightarrow> False)
      | _ \<Rightarrow> False)"

fun fleet_event_step ::
  "queue_cfg \<Rightarrow> 'h dispatch \<Rightarrow> 'h fleet \<Rightarrow> fleet_event \<Rightarrow> 'h fleet" where
  "fleet_event_step q d s (Tick n) = s\<lparr>f_clock := f_clock s + max 0 n\<rparr>"
| "fleet_event_step q d s (Deliver i wall msg) =
     (if i < length (f_slots s) \<and> s_held (f_slots s ! i) = None then
        (case begin_msg q d wall (f_clock s) (s_worker (f_slots s ! i)) (f_ledger s) msg of
           (t, w, Settled r st) \<Rightarrow>
             s\<lparr>f_ledger := t, f_slots := (f_slots s)[i := \<lparr>s_worker = w, s_held = None\<rparr>]\<rparr>
         | (t, w, Holding env plan) \<Rightarrow>
             s\<lparr>f_ledger := t,
               f_slots := (f_slots s)[i := \<lparr>s_worker = w, s_held = Some (env, plan, f_clock s)\<rparr>]\<rparr>)
      else s)"
| "fleet_event_step q d s (Finish i wall out) =
     (if i < length (f_slots s) then
        (case s_held (f_slots s ! i) of
           None \<Rightarrow> s
         | Some (env, plan, since) \<Rightarrow>
             (case finish_msg q wall (f_clock s) (s_worker (f_slots s ! i)) (f_ledger s) env plan out of
                (t, w, r, st) \<Rightarrow>
                  s\<lparr>f_ledger := t,
                    f_slots := (f_slots s)[i := \<lparr>s_worker = w, s_held = None\<rparr>],
                    f_completed := (if succeeded plan out then je_idempotency_key env # f_completed s
                                    else f_completed s)\<rparr>))
      else s)"
| "fleet_event_step q d s (Crash i) =
     (if i < length (f_slots s) \<and> s_held (f_slots s ! i) \<noteq> None then
        s\<lparr>f_slots := (f_slots s)[i := \<lparr>s_worker =
            new_worker q (w_worker_id (s_worker (f_slots s ! i))) (f_clock s), s_held = None\<rparr>]\<rparr>
      else s)"
| "fleet_event_step q d s (Sweep i mclock ok) =
     (if i < length (f_slots s) \<and> s_held (f_slots s ! i) = None then
        (case maybe_reap q (\<lambda>_. ok) mclock (Some (f_clock s)) (s_worker (f_slots s ! i)) (f_ledger s) of
           (t, w, envs) \<Rightarrow>
             s\<lparr>f_ledger := t, f_slots := (f_slots s)[i := \<lparr>s_worker = w, s_held = None\<rparr>],
               f_published := f_published s @ envs\<rparr>)
      else s)"

definition run_fleet :: "queue_cfg \<Rightarrow> 'h dispatch \<Rightarrow> 'h fleet \<Rightarrow> fleet_event list \<Rightarrow> 'h fleet" where
  "run_fleet q d = foldl (fleet_event_step q d)"

definition start_fleet :: "queue_cfg \<Rightarrow> nat \<Rightarrow> instant \<Rightarrow> 'h fleet" where
  "start_fleet q n clock =
     \<lparr>f_clock = clock, f_ledger = [],
      f_slots = map (\<lambda>i. \<lparr>s_worker = new_worker q (''worker-'' @ show_nat i) clock, s_held = None\<rparr>) [0..<n],
      f_completed = [], f_published = []\<rparr>"

section \<open>One message\<close>

lemma begin_settled:
  "begin_msg q d wall n w t msg = (t', w', Settled r s) \<Longrightarrow> t' = t"
  using claim_refused_status [of n t]
  by (auto simp: begin_msg_def Let_def split_beta split: option.splits if_splits)

lemma begin_holding:
  "begin_msg q d wall n w t msg = (t', w', Holding env plan) \<Longrightarrow>
     t' = fst (claim n t env) \<and> cr_acquired (snd (claim n t env)) \<and> w' = w
     \<and> (\<exists>e. from_bytes msg = Some e \<and> env = e\<lparr>je_attempts := delivered msg\<rparr>)"
  by (auto simp: begin_msg_def Let_def split_beta split: option.splits if_splits)

lemma finish_ledger:
  assumes "finish_msg q wall n w t env plan out = (t', w', r, s)"
  shows "(succeeded plan out \<and> (\<exists>r. t' = complete n t (je_idempotency_key env) r))
    \<or> (\<not> succeeded plan out \<and> ((\<exists>r. t' = fail n t (je_idempotency_key env) r)
        \<or> t' = release n t (je_idempotency_key env)))"
  using assms
  by (auto simp: finish_msg_def succeeded_def Let_def split: plan.splits outcome.splits if_splits)

lemma finish_other:
  "finish_msg q wall n w t env plan out = (t', w', r, s) \<Longrightarrow> k \<noteq> je_idempotency_key env
     \<Longrightarrow> map_of t' k = map_of t k"
  by (drule finish_ledger) (auto simp: ledger_ops table_simps split: option.splits)

lemma finish_status:
  "finish_msg q wall n w t env plan out = (t', w', r, s) \<Longrightarrow> succeeded plan out
     \<Longrightarrow> key_status t (je_idempotency_key env) \<noteq> None
     \<Longrightarrow> key_status t' (je_idempotency_key env) = Some L_completed"
  by (drule finish_ledger) (auto simp: ledger_ops table_simps split: option.splits)

section \<open>Exclusion in a prompt fleet\<close>

definition holding :: "'h fleet \<Rightarrow> nat \<Rightarrow> (job_envelope \<times> 'h plan \<times> instant) option" where
  "holding s i = (if i < length (f_slots s) then s_held (f_slots s ! i) else None)"

definition held_key :: "'h fleet \<Rightarrow> nat \<Rightarrow> job_key option" where
  "held_key s i = map_option (\<lambda>(env, _, _). je_idempotency_key env) (holding s i)"

definition prompt :: "queue_cfg \<Rightarrow> 'h fleet \<Rightarrow> bool" where
  "prompt q s \<longleftrightarrow>
     list_all (\<lambda>sl. case s_held sl of None \<Rightarrow> True
       | Some (_, _, since) \<Rightarrow> f_clock s \<le> since + seconds (lease_seconds q)) (f_slots s)"

fun prompt_run :: "queue_cfg \<Rightarrow> 'h dispatch \<Rightarrow> 'h fleet \<Rightarrow> fleet_event list \<Rightarrow> bool" where
  "prompt_run q d s [] = prompt q s"
| "prompt_run q d s (e # es) = (prompt q s \<and> prompt_run q d (fleet_event_step q d s e) es)"

definition exclusive :: "'h fleet \<Rightarrow> bool" where
  "exclusive s \<longleftrightarrow>
     (\<forall>i env plan since. holding s i = Some (env, plan, since) \<longrightarrow>
        (\<exists>row. map_of (f_ledger s) (je_idempotency_key env) = Some row
           \<and> lr_status row = L_claimed \<and> lr_claimed_at row = since))
     \<and> (\<forall>i j k. held_key s i = Some k \<and> held_key s j = Some k \<longrightarrow> i = j)
     \<and> distinct (f_completed s)
     \<and> (\<forall>k\<in>set (f_completed s). key_status (f_ledger s) k = Some L_completed)"

lemma holding_update:
  "i < length (f_slots s) \<Longrightarrow>
     holding (s\<lparr>f_ledger := t, f_slots := (f_slots s)[i := \<lparr>s_worker = w, s_held = h\<rparr>]\<rparr>) j =
       (if j = i then h else holding s j)"
  by (simp add: holding_def nth_list_update)

lemma holding_fields [simp]:
  "holding (s\<lparr>f_clock := c\<rparr>) i = holding s i"
  "holding (s\<lparr>f_completed := cs\<rparr>) i = holding s i"
  "holding (s\<lparr>f_published := es\<rparr>) i = holding s i"
  by (simp_all add: holding_def)

lemma exclusiveD:
  assumes "exclusive s"
  shows "holding s i = Some (env, plan, since) \<Longrightarrow>
      \<exists>row. map_of (f_ledger s) (je_idempotency_key env) = Some row
           \<and> lr_status row = L_claimed \<and> lr_claimed_at row = since"
    and "held_key s i = Some k \<Longrightarrow> held_key s j = Some k \<Longrightarrow> i = j"
    and "distinct (f_completed s)"
    and "k \<in> set (f_completed s) \<Longrightarrow> key_status (f_ledger s) k = Some L_completed"
  using assms unfolding exclusive_def by blast+

text \<open>
  A state change that only drops holders and keeps the rows of the ones that remain, and of the
  completed keys, keeps the invariant.
\<close>

lemma exclusive_shrink:
  assumes ex: "exclusive s"
    and held: "\<And>i. holding s' i = None \<or> holding s' i = holding s i"
    and rows: "\<And>i env plan since row. holding s' i = Some (env, plan, since)
      \<Longrightarrow> map_of (f_ledger s) (je_idempotency_key env) = Some row \<Longrightarrow> lr_status row = L_claimed
      \<Longrightarrow> lr_claimed_at row = since
      \<Longrightarrow> map_of (f_ledger s') (je_idempotency_key env) = Some row"
    and comp: "distinct (f_completed s')"
      "\<And>k. k \<in> set (f_completed s') \<Longrightarrow> key_status (f_ledger s') k = Some L_completed"
  shows "exclusive s'"
proof -
  have "\<exists>row. map_of (f_ledger s') (je_idempotency_key env) = Some row
      \<and> lr_status row = L_claimed \<and> lr_claimed_at row = since"
    if h: "holding s' i = Some (env, plan, since)" for i env plan since
  proof -
    from held [of i] h have "holding s i = Some (env, plan, since)" by auto
    with ex obtain row where "map_of (f_ledger s) (je_idempotency_key env) = Some row"
      "lr_status row = L_claimed" "lr_claimed_at row = since" by (meson exclusiveD(1))
    with rows [OF h] show ?thesis by blast
  qed
  moreover have "i = j" if "held_key s' i = Some k" "held_key s' j = Some k" for i j k
  proof -
    have "held_key s i = Some k" "held_key s j = Some k"
      using that held [of i] held [of j] by (auto simp: held_key_def)
    then show ?thesis by (rule exclusiveD(2) [OF ex])
  qed
  ultimately show ?thesis using comp unfolding exclusive_def by blast
qed

lemma exclusive_claim:
  assumes ex: "exclusive s" and i: "i < length (f_slots s)"
    and acq: "cr_acquired (snd (claim (f_clock s) (f_ledger s) env))"
    and s': "s' = s\<lparr>f_ledger := fst (claim (f_clock s) (f_ledger s) env),
      f_slots := (f_slots s)[i := \<lparr>s_worker = w, s_held = Some (env, plan, f_clock s)\<rparr>]\<rparr>"
  shows "exclusive s'"
proof -
  let ?k = "je_idempotency_key env"
  have free: "key_status (f_ledger s) ?k \<in> {None, Some L_released}"
    using acq by (simp add: claim_acquired)
  have nobody: "je_idempotency_key e \<noteq> ?k" if "holding s j = Some (e, p, c)" for j e p c
  proof
    assume "je_idempotency_key e = ?k"
    with exclusiveD(1) [OF ex that] free show False by (auto simp: key_status_def)
  qed
  have h: "holding s' j = (if j = i then Some (env, plan, f_clock s) else holding s j)" for j
    unfolding s' by (rule holding_update [OF i])
  have rows: "map_of (f_ledger s') k = map_of (f_ledger s) k" if "k \<noteq> ?k" for k
    using that by (simp add: s' map_of_claim)
  have mine: "\<exists>row. map_of (f_ledger s') ?k = Some row \<and> lr_status row = L_claimed
      \<and> lr_claimed_at row = f_clock s"
    using acq by (auto simp: s' map_of_claim fresh_row_def split: option.split)
  have "\<exists>row. map_of (f_ledger s') (je_idempotency_key e) = Some row
      \<and> lr_status row = L_claimed \<and> lr_claimed_at row = c"
    if hj: "holding s' j = Some (e, p, c)" for j e p c
  proof (cases "j = i")
    case True
    then show ?thesis using hj mine h by auto
  next
    case False
    then have "holding s j = Some (e, p, c)" using hj h by simp
    from exclusiveD(1) [OF ex this] rows [OF nobody [OF this]] show ?thesis by simp
  qed
  moreover have "a = b" if "held_key s' a = Some k" "held_key s' b = Some k" for a b k
  proof -
    have other: "held_key s j \<noteq> Some ?k" for j
      using nobody by (auto simp: held_key_def)
    have hk: "held_key s' j = (if j = i then Some ?k else held_key s j)" for j
      by (simp add: held_key_def h)
    show ?thesis
      using that other exclusiveD(2) [OF ex, of a k b] by (auto simp: hk split: if_splits)
  qed
  moreover have "key_status (f_ledger s') k = Some L_completed" if "k \<in> set (f_completed s')" for k
  proof -
    have c: "key_status (f_ledger s) k = Some L_completed"
      using exclusiveD(4) [OF ex] that by (simp add: s')
    then have "k \<noteq> ?k" using free by auto
    with c show ?thesis by (simp add: s' key_status_claim)
  qed
  moreover have "distinct (f_completed s')" using exclusiveD(3) [OF ex] by (simp add: s')
  ultimately show ?thesis unfolding exclusive_def by blast
qed

lemma fleet_step_slots [simp]: "length (f_slots (fleet_event_step q d s e)) = length (f_slots s)"
  by (cases e) (auto split: option.splits begun.splits prod.splits)

declare fleet_event_step.simps [simp del]

lemma exclusive_tick: "exclusive s \<Longrightarrow> exclusive (fleet_event_step q d s (Tick n))"
  by (rule exclusive_shrink [where s = s]) (auto simp: fleet_event_step.simps exclusiveD)

lemma exclusive_crash: "exclusive s \<Longrightarrow> exclusive (fleet_event_step q d s (Crash i))"
  by (rule exclusive_shrink [where s = s]) (auto simp: holding_def nth_list_update fleet_event_step.simps exclusiveD)

lemma exclusive_deliver:
  assumes ex: "exclusive s"
  shows "exclusive (fleet_event_step q d s (Deliver i wall msg))"
proof (cases "i < length (f_slots s) \<and> s_held (f_slots s ! i) = None")
  case True
  obtain t w b where b: "begin_msg q d wall (f_clock s) (s_worker (f_slots s ! i)) (f_ledger s) msg = (t, w, b)"
    by (cases "begin_msg q d wall (f_clock s) (s_worker (f_slots s ! i)) (f_ledger s) msg") auto
  show ?thesis
  proof (cases b)
    case (Settled r st)
    with b have t: "t = f_ledger s" by (auto dest: begin_settled)
    show ?thesis
      by (rule exclusive_shrink [OF ex])
         (use True b Settled t exclusiveD(3,4) [OF ex] in \<open>auto simp: holding_def nth_list_update fleet_event_step.simps\<close>)
  next
    case (Holding env plan)
    with b have "t = fst (claim (f_clock s) (f_ledger s) env)"
      "cr_acquired (snd (claim (f_clock s) (f_ledger s) env))" by (auto dest: begin_holding)
    with True b Holding show ?thesis by (auto simp: fleet_event_step.simps intro!: exclusive_claim [OF ex])
  qed
qed (use ex in \<open>auto simp: fleet_event_step.simps\<close>)

lemma exclusive_finish:
  assumes ex: "exclusive s"
  shows "exclusive (fleet_event_step q d s (Finish i wall out))"
proof (cases "holding s i")
  case None
  with ex show ?thesis by (auto simp: holding_def fleet_event_step.simps split: if_splits)
next
  case (Some h)
  then obtain env plan since where h: "holding s i = Some (env, plan, since)" by (cases h) auto
  then have i: "i < length (f_slots s)" "s_held (f_slots s ! i) = Some (env, plan, since)"
    by (auto simp: holding_def split: if_splits)
  obtain t w r st where f: "finish_msg q wall (f_clock s) (s_worker (f_slots s ! i)) (f_ledger s) env plan out
      = (t, w, r, st)" by (metis prod_cases4)
  let ?k = "je_idempotency_key env" and ?s' = "fleet_event_step q d s (Finish i wall out)"
  have claimed: "key_status (f_ledger s) ?k = Some L_claimed"
    using exclusiveD(1) [OF ex h] by (auto simp: key_status_def)
  then have new: "?k \<notin> set (f_completed s)" using exclusiveD(4) [OF ex] by fastforce
  have hold: "holding ?s' j = (if j = i then None else holding s j)" for j
    using i f by (simp add: holding_def nth_list_update fleet_event_step.simps)
  have led: "f_ledger ?s' = t" using i f by (simp add: fleet_event_step.simps)
  have comp: "f_completed ?s' = (if succeeded plan out then ?k # f_completed s else f_completed s)"
    using i f by (simp add: fleet_event_step.simps)
  show ?thesis
  proof (rule exclusive_shrink [OF ex])
    show "holding ?s' j = None \<or> holding ?s' j = holding s j" for j by (simp add: hold)
    show "map_of (f_ledger ?s') (je_idempotency_key e) = Some row"
      if "holding ?s' j = Some (e, p, c)" "map_of (f_ledger s) (je_idempotency_key e) = Some row" for j e p c row
    proof -
      from that(1) have j: "j \<noteq> i" "holding s j = Some (e, p, c)" by (auto simp: hold split: if_splits)
      then have "je_idempotency_key e \<noteq> ?k"
        using exclusiveD(2) [OF ex, of i _ j] h by (auto simp: held_key_def)
      then show ?thesis using finish_other [OF f] that(2) led by simp
    qed
    show "distinct (f_completed ?s')" using new exclusiveD(3) [OF ex] by (simp add: comp)
    show "key_status (f_ledger ?s') k = Some L_completed" if "k \<in> set (f_completed ?s')" for k
    proof (cases "k = ?k")
      case True
      with that new have "succeeded plan out" by (auto simp: comp split: if_splits)
      with True finish_status [OF f] claimed led show ?thesis by simp
    next
      case False
      then have "k \<in> set (f_completed s)" using that by (auto simp: comp split: if_splits)
      with exclusiveD(4) [OF ex] finish_other [OF f False] led show ?thesis by (simp add: key_status_def)
    qed
  qed
qed

lemma maybe_reap_ledger:
  assumes "maybe_reap q p m (Some n) w t = (t', w', envs)"
  shows "t' = t \<or> t' = fst (reap_stale_claims n (seconds (lease_seconds q)) (q_max_deliver q) (w_worker_id w) t)"
  using assms by (auto simp: maybe_reap_def Let_def split_beta split: if_splits)

lemma exclusive_sweep:
  assumes ex: "exclusive s" and pr: "prompt q s"
  shows "exclusive (fleet_event_step q d s (Sweep i m ok))"
proof (cases "i < length (f_slots s) \<and> s_held (f_slots s ! i) = None")
  case True
  let ?w = "s_worker (f_slots s ! i)" and ?s' = "fleet_event_step q d s (Sweep i m ok)"
  let ?reap = "fst (reap_stale_claims (f_clock s) (seconds (lease_seconds q)) (q_max_deliver q)
    (w_worker_id ?w) (f_ledger s))"
  obtain t w envs where r: "maybe_reap q (\<lambda>_. ok) m (Some (f_clock s)) ?w (f_ledger s) = (t, w, envs)"
    by (metis prod_cases3)
  have led: "f_ledger ?s' = t" and comp: "f_completed ?s' = f_completed s" using True r by (auto simp: fleet_event_step.simps)
  have hold: "holding ?s' j = (if j = i then None else holding s j)" for j
    using True r by (simp add: holding_def nth_list_update fleet_event_step.simps)
  have t: "t = f_ledger s \<or> t = ?reap" by (rule maybe_reap_ledger [OF r])
  show ?thesis
  proof (rule exclusive_shrink [OF ex])
    show "holding ?s' j = None \<or> holding ?s' j = holding s j" for j by (simp add: hold)
    show "map_of (f_ledger ?s') (je_idempotency_key e) = Some row"
      if "holding ?s' j = Some (e, p, c)" "map_of (f_ledger s) (je_idempotency_key e) = Some row"
        "lr_claimed_at row = c" for j e p c row
    proof -
      from that(1) have "j < length (f_slots s)" "s_held (f_slots s ! j) = Some (e, p, c)"
        unfolding hold by (auto simp: holding_def split: if_splits)
      then have "f_clock s \<le> c + seconds (lease_seconds q)"
        using pr by (fastforce simp: prompt_def list_all_length)
      then have "\<not> stale (f_clock s) (seconds (lease_seconds q)) row"
        using that(3) by (simp add: stale_def)
      with t that(2) show ?thesis unfolding led by (auto simp: map_of_reap reap_row_def)
    qed
    show "distinct (f_completed ?s')" using exclusiveD(3) [OF ex] by (simp add: comp)
    show "key_status (f_ledger ?s') k = Some L_completed" if "k \<in> set (f_completed ?s')" for k
    proof -
      have c: "key_status (f_ledger s) k = Some L_completed" using exclusiveD(4) [OF ex] that comp by simp
      then have "key_status ?reap k = Some L_completed"
        using jobs.expire_status [where t = "f_ledger s" and k = k] by auto
      with c t led show ?thesis by auto
    qed
  qed
qed (use ex in \<open>auto simp: fleet_event_step.simps\<close>)

lemma exclusive_step: "exclusive s \<Longrightarrow> prompt q s \<Longrightarrow> exclusive (fleet_event_step q d s e)"
  by (cases e) (simp_all only: exclusive_tick exclusive_deliver exclusive_finish exclusive_crash exclusive_sweep)

lemma exclusive_run:
  "exclusive s \<Longrightarrow> prompt_run q d s es \<Longrightarrow> exclusive (run_fleet q d s es)"
proof (induction es arbitrary: s)
  case (Cons e es)
  then have "exclusive (fleet_event_step q d s e)" by (auto intro: exclusive_step)
  from Cons.IH [OF this] Cons.prems show ?case by (simp add: run_fleet_def)
qed (simp add: run_fleet_def)

lemma exclusive_start: "exclusive (start_fleet q n c)"
  by (simp add: exclusive_def start_fleet_def holding_def held_key_def)

section \<open>Properties of the fleet\<close>

text \<open>C11: Exclusive processing. In every run of the fleet, whatever messages the broker
  delivers and redelivers to whom, whatever the handlers do, whichever workers die, in which no
  holder outlives its lease: two workers never hold the same idempotency key, the ledger row of
  a held key is \<open>claimed\<close> since the time the holder claimed it, and the work of a key is
  completed at most once, its row staying \<open>completed\<close> from then on.\<close>

theorem processing_exclusive:
  assumes "prompt_run q d (start_fleet q n clock) es"
  defines "s \<equiv> run_fleet q d (start_fleet q n clock) es"
  shows "(\<forall>i j k. held_key s i = Some k \<and> held_key s j = Some k \<longrightarrow> i = j)
    \<and> (\<forall>i env plan since. holding s i = Some (env, plan, since) \<longrightarrow>
         (\<exists>row. map_of (f_ledger s) (je_idempotency_key env) = Some row
            \<and> lr_status row = L_claimed \<and> lr_claimed_at row = since))
    \<and> distinct (f_completed s)
    \<and> (\<forall>k\<in>set (f_completed s). key_status (f_ledger s) k = Some L_completed)"
  using exclusive_run [OF exclusive_start assms(1)] unfolding s_def exclusive_def by blast

definition demo_env :: "py_str \<Rightarrow> job_envelope" where
  "demo_env k =
     \<lparr>je_job_id = ''j1'', je_job_kind = ''process_media'', je_requested_by = ''system'',
      je_budget_account = ''system'', je_input_refs = [], je_idempotency_key = k, je_attempts = 0,
      je_deadline = None, je_tenant_id = ''default'', je_enqueued_at = 0\<rparr>"

definition demo_msg :: "py_str \<Rightarrow> nat \<Rightarrow> message" where
  "demo_msg k n = \<lparr>m_body = Some (demo_env k), m_num_delivered = Some n\<rparr>"

definition demo_result :: job_result where
  "demo_result =
     \<lparr>jr_job_id = ''j1'', jr_job_kind = ''process_media'', jr_status = R_completed,
      jr_output_refs = [], jr_error = None, jr_worker_id = ''worker-0'', jr_finished_at = 0\<rparr>"

definition demo_dispatch :: "nat dispatch" where
  "demo_dispatch = [(''process_media'', 0)]"

text \<open>Two workers and one job: the second is refused while the first works, then a redelivery.\<close>

definition demo_prompt_run :: "fleet_event list" where
  "demo_prompt_run =
     [Deliver 0 0 (demo_msg ''k'' 1), Tick 5, Deliver 1 5 (demo_msg ''k'' 2),
      Finish 0 9 (Returned demo_result), Deliver 1 9 (demo_msg ''k'' 3)]"

lemma processing_exclusive_witness:
  "let s = run_fleet default_queue demo_dispatch (start_fleet default_queue 2 0) demo_prompt_run
   in f_completed s = [''k''] \<and> key_status (f_ledger s) ''k'' = Some L_completed"
proof -
  have p: "prompt_run default_queue demo_dispatch (start_fleet default_queue 2 0) demo_prompt_run"
    by code_simp
  have "f_completed (run_fleet default_queue demo_dispatch (start_fleet default_queue 2 0) demo_prompt_run)
      = [''k'']"
    by code_simp
  then show ?thesis
    using processing_exclusive [OF p] unfolding Let_def by simp
qed

definition stale_release_run :: "fleet_event list" where
  "stale_release_run =
     [Deliver 0 0 (demo_msg ''k'' 1), Tick 900000001, Sweep 1 900000001 True,
      Deliver 1 0 (demo_msg ''k'' 1), Tick 1, Finish 0 0 (Raised ''timeout''),
      Deliver 2 0 (demo_msg ''k'' 2)]"

text \<open>The statements that end a claim are not fenced by their holder. A worker whose lease
  has expired, and whose key was swept, redelivered and claimed by a second worker, releases the
  second worker's claim when its own handler raises: a third worker then claims the key while the
  second, well inside its lease, is still at work, and both complete it.\<close>

theorem stale_release_breaks_exclusion:
  "let s = run_fleet default_queue demo_dispatch (start_fleet default_queue 3 0) stale_release_run;
       s' = run_fleet default_queue demo_dispatch s
              [Finish 1 0 (Returned demo_result), Finish 2 0 (Returned demo_result)]
   in held_key s 1 = Some ''k'' \<and> held_key s 2 = Some ''k'' \<and> prompt default_queue s
      \<and> f_completed s' = [''k'', ''k'']"
  by code_simp

section \<open>Terminal keys\<close>

abbreviation final_key :: "ledger \<Rightarrow> job_key \<Rightarrow> bool" where
  "final_key t k \<equiv> key_status t k \<in> {Some L_completed, Some L_failed}"

lemma final_claim: "final_key t k \<Longrightarrow> final_key (fst (claim n t e)) k"
  using jobs.take_keeps_terminal [where t = t and k = k and ?n1.0 = n and e = e]
  by (simp add: take_claim_def)

lemma final_finish:
  "finish_msg q wall n w t env plan out = (t', w', r, s) \<Longrightarrow> final_key t k \<Longrightarrow> final_key t' k"
  by (drule finish_ledger)
     (auto simp: ledger_ops table_simps split: option.splits if_splits)

lemma final_step:
  assumes "final_key (f_ledger s) k"
  shows "final_key (f_ledger (fleet_event_step q d s e)) k
    \<and> (held_key (fleet_event_step q d s e) i = Some k \<longrightarrow> held_key s i = Some k)"
proof (cases e)
  case (Deliver j wall msg)
  show ?thesis
  proof (cases "j < length (f_slots s) \<and> s_held (f_slots s ! j) = None")
    case True
    obtain t w b where b: "begin_msg q d wall (f_clock s) (s_worker (f_slots s ! j)) (f_ledger s) msg = (t, w, b)"
      by (cases "begin_msg q d wall (f_clock s) (s_worker (f_slots s ! j)) (f_ledger s) msg") auto
    show ?thesis
    proof (cases b)
      case (Settled r st)
      with b have "t = f_ledger s" by (auto dest: begin_settled)
      with True b Settled Deliver assms show ?thesis
        by (auto simp: fleet_event_step.simps held_key_def holding_def nth_list_update split: if_splits)
    next
      case (Holding env plan)
      with b have t: "t = fst (claim (f_clock s) (f_ledger s) env)"
        and a: "cr_acquired (snd (claim (f_clock s) (f_ledger s) env))" by (auto dest: begin_holding)
      have "je_idempotency_key env \<noteq> k" using a assms by (auto simp: claim_acquired)
      with True b Holding Deliver t final_claim [OF assms] show ?thesis
        by (auto simp: fleet_event_step.simps held_key_def holding_def nth_list_update split: if_splits)
    qed
  qed (use assms Deliver in \<open>auto simp: fleet_event_step.simps\<close>)
next
  case (Finish j wall out)
  show ?thesis
  proof (cases "holding s j")
    case None
    with assms Finish show ?thesis by (auto simp: fleet_event_step.simps holding_def split: if_splits)
  next
    case (Some h)
    then obtain env plan since where h: "j < length (f_slots s)" "s_held (f_slots s ! j) = Some (env, plan, since)"
      by (cases h) (auto simp: holding_def split: if_splits)
    obtain t w r st where f: "finish_msg q wall (f_clock s) (s_worker (f_slots s ! j)) (f_ledger s) env plan out
        = (t, w, r, st)" by (metis prod_cases4)
    with h Finish final_finish [OF f assms] show ?thesis
      by (auto simp: fleet_event_step.simps held_key_def holding_def nth_list_update split: if_splits)
  qed
next
  case (Sweep j m ok)
  obtain t w envs where r: "maybe_reap q (\<lambda>_. ok) m (Some (f_clock s)) (s_worker (f_slots s ! j)) (f_ledger s)
      = (t, w, envs)" by (metis prod_cases3)
  have "final_key t k"
    using maybe_reap_ledger [OF r] assms jobs.expire_keeps_terminal [where t = "f_ledger s" and k = k] by auto
  with r Sweep assms show ?thesis
    by (auto simp: fleet_event_step.simps held_key_def holding_def nth_list_update split: if_splits)
qed (use assms in \<open>auto simp: fleet_event_step.simps held_key_def holding_def nth_list_update split: if_splits\<close>)

lemma final_run:
  "final_key (f_ledger s) k \<Longrightarrow> final_key (f_ledger (run_fleet q d s es)) k
     \<and> (held_key (run_fleet q d s es) i = Some k \<longrightarrow> held_key s i = Some k)"
proof (induction es arbitrary: s)
  case (Cons e es)
  from final_step [OF Cons.prems, of q d e i] Cons.IH [of "fleet_event_step q d s e"]
  show ?case by (auto simp: run_fleet_def)
qed (simp add: run_fleet_def)

text \<open>C37: Effectively once. From any state of the fleet, prompt or not, a key whose row is
  \<open>completed\<close> or \<open>failed\<close> is terminal for good: however often the broker redelivers its
  message, whatever is swept and whoever dies, no worker that does not hold the key already ever
  holds it again, so its handler is not run again.\<close>

theorem terminal_key_not_rerun:
  assumes "key_status (f_ledger s) k \<in> {Some L_completed, Some L_failed}"
  shows "key_status (f_ledger (run_fleet q d s es)) k \<in> {Some L_completed, Some L_failed}
    \<and> (\<forall>i. held_key (run_fleet q d s es) i = Some k \<longrightarrow> held_key s i = Some k)"
  using final_run [OF assms] by blast

lemma terminal_key_not_rerun_witness:
  "let s = run_fleet default_queue demo_dispatch (start_fleet default_queue 2 0)
             [Deliver 0 0 (demo_msg ''k'' 1), Finish 0 9 (Returned demo_result)];
       s' = run_fleet default_queue demo_dispatch s
             [Deliver 1 9 (demo_msg ''k'' 1), Tick 1000000000, Sweep 1 1000000000 True]
   in key_status (f_ledger s) ''k'' = Some L_completed
      \<and> key_status (f_ledger s') ''k'' \<in> {Some L_completed, Some L_failed}"
proof -
  let ?s = "run_fleet default_queue demo_dispatch (start_fleet default_queue 2 0)
             [Deliver 0 0 (demo_msg ''k'' 1), Finish 0 9 (Returned demo_result)]"
  have s: "key_status (f_ledger ?s) ''k'' = Some L_completed" by code_simp
  then have "key_status (f_ledger ?s) ''k'' \<in> {Some L_completed, Some L_failed}" by simp
  from terminal_key_not_rerun [OF this] s show ?thesis unfolding Let_def by blast
qed

section \<open>One message, uninterrupted\<close>

text \<open>The row of a key between two events: nobody else's statement runs inside.\<close>

lemma process_unfold:
  assumes "process_msg q d call start stop w t msg = (t', w', r, s)"
  obtains (settled) "begin_msg q d (fst start) (snd start) w t msg = (t', w', Settled r s)"
  | (held) env plan t1 out where
      "begin_msg q d (fst start) (snd start) w t msg = (t1, w, Holding env plan)"
      "finish_msg q (fst stop) (snd stop) w t1 env plan out = (t', w', r, s)"
      "out = (case plan of Run_handler h \<Rightarrow> call h env | _ \<Rightarrow> Raised [])"
proof -
  obtain t1 w1 b where b: "begin_msg q d (fst start) (snd start) w t msg = (t1, w1, b)"
    by (cases "begin_msg q d (fst start) (snd start) w t msg") auto
  show ?thesis
  proof (cases b)
    case (Settled r' s')
    with b assms show ?thesis by (auto simp: process_msg_def intro: settled)
  next
    case (Holding env plan)
    with b have "w1 = w" by (auto dest: begin_holding)
    with b Holding assms show ?thesis by (auto simp: process_msg_def intro: held)
  qed
qed

definition handled :: "job_worker \<Rightarrow> nat" where
  "handled w = w_processed w + w_failed w + w_skipped_duplicate w"

lemma finish_outcome:
  assumes "finish_msg q wall n w t env plan out = (t', w', r, s)"
    and "key_status t (je_idempotency_key env) = Some L_claimed"
  shows "(s = Naked (nak_delay_seconds q) \<longleftrightarrow> r = None) \<and> (r \<noteq> None \<longrightarrow> s \<in> {Acked, Termed})
    \<and> handled w' = handled w + (if r = None then 0 else 1)
    \<and> (if r = None then key_status t' (je_idempotency_key env) = Some L_released
       else key_status t' (je_idempotency_key env) \<in> {Some L_completed, Some L_failed})"
  using assms
  by (auto simp: finish_msg_def handled_def Let_def ledger_ops table_simps
      split: plan.splits outcome.splits if_splits option.splits)

text \<open>What processing a parsed message comes to, on every path. The message is deferred
  exactly when another worker holds its key or its handler raised with deliveries left, and
  then the counters do not move; otherwise it is acknowledged or terminated, exactly one counter
  goes up and the caller gets a result. A message that is not deferred leaves its key terminal,
  unless it had expired while another worker holds the key; a deferred one whose handler ran
  leaves its key released. No path leaves a claim of its own behind.\<close>

theorem message_accounted:
  assumes "process_msg q d call start stop w t msg = (t', w', r, s)"
    and "from_bytes msg = Some env" and "k = je_idempotency_key env"
  shows "(s = Naked (nak_delay_seconds q) \<longleftrightarrow> r = None)
    \<and> (r \<noteq> None \<longrightarrow> s \<in> {Acked, Termed})
    \<and> handled w' = handled w + (if r = None then 0 else 1)
    \<and> (if key_status t k = Some L_claimed
       then t' = t \<and> (r \<noteq> None \<longleftrightarrow> is_expired env (fst start))
       else if r = None then key_status t' k = Some L_released
       else key_status t' k \<in> {Some L_completed, Some L_failed})"
  using assms(1)
proof (cases rule: process_unfold)
  case settled
  then show ?thesis using assms(2,3)
    by (auto simp: begin_msg_def handled_def is_expired_def claim_def key_status_def Let_def
        split: option.splits if_splits) (metis ledger_status.exhaust)+
next
  case (held env' plan t1 out)
  from begin_holding [OF held(1)] assms(2) have env: "env' = env\<lparr>je_attempts := delivered msg\<rparr>"
    and t1: "t1 = fst (claim (snd start) t env')" and acq: "cr_acquired (snd (claim (snd start) t env'))"
    by auto
  have k: "je_idempotency_key env' = k" using env assms(3) by simp
  have "key_status t1 k = Some L_claimed" using t1 acq k by (simp add: key_status_claim)
  moreover have "key_status t k \<noteq> Some L_claimed" using acq k by (auto simp: claim_acquired)
  ultimately show ?thesis using finish_outcome [OF held(2)] k by auto
qed

lemma message_accounted_witness:
  "case process_msg default_queue demo_dispatch (\<lambda>h env. Raised ''boom'') (0, 0) (1, 1)
     (new_worker default_queue ''w'' 0) [] (demo_msg ''k'' 1) of
     (t', w', r, s) \<Rightarrow> r = None \<and> s = Naked 180 \<and> handled w' = 0
       \<and> key_status t' ''k'' = Some L_released"
proof -
  let ?p = "process_msg default_queue demo_dispatch (\<lambda>h env. Raised ''boom'') (0, 0) (1, 1)
     (new_worker default_queue ''w'' 0) [] (demo_msg ''k'' 1)"
  obtain t' w' r s where p: "?p = (t', w', r, s)" by (metis prod_cases4)
  have r: "fst (snd (snd ?p)) = None" by code_simp
  have d: "nak_delay_seconds default_queue = 180" by code_simp
  have h: "handled (new_worker default_queue ''w'' 0) = 0" by code_simp
  have b: "from_bytes (demo_msg ''k'' 1) = Some (demo_env ''k'')" by code_simp
  have k: "''k'' = je_idempotency_key (demo_env ''k'')" by code_simp
  from message_accounted [OF p b k] r p d h show ?thesis by (simp add: key_status_def)
qed

section \<open>Retries\<close>

text \<open>The deliveries of one message, one after the other, with nothing else in between.\<close>

fun deliveries ::
  "queue_cfg \<Rightarrow> 'h dispatch \<Rightarrow> ('h \<Rightarrow> job_envelope \<Rightarrow> outcome) \<Rightarrow> instant \<Rightarrow> job_worker \<Rightarrow> ledger
     \<Rightarrow> job_envelope \<Rightarrow> nat \<Rightarrow> ledger \<times> settlement list" where
  "deliveries q d call n w t env 0 = (t, [])"
| "deliveries q d call n w t env (Suc m) =
     (let (t1, ss) = deliveries q d call n w t env m;
          (t2, w2, r, s) = process_msg q d call (n, n) (n, n) w t1
            \<lparr>m_body = Some env, m_num_delivered = Some (Suc m)\<rparr>
      in (t2, ss @ [s]))"

lemma failing_delivery:
  assumes "handler_for d (je_job_kind env) = Some h" and "je_deadline env = None"
    and "\<forall>e. call h e = Raised exc"
    and "key_status t (je_idempotency_key env) \<in> {None, Some L_released}"
    and "je_idempotency_key env \<noteq> []"
    and "process_msg q d call (n, n) (n, n) w t \<lparr>m_body = Some env, m_num_delivered = Some m\<rparr> = (t', w', r, s)"
  shows "key_status t' (je_idempotency_key env) = Some (if m < q_max_deliver q then L_released else L_failed)
    \<and> s = (if m < q_max_deliver q then Naked (nak_delay_seconds q) else Termed)"
proof -
  let ?e = "env\<lparr>je_attempts := m\<rparr>"
  let ?t = "fst (claim n t ?e)"
  have acq: "cr_acquired (snd (claim n t ?e))" using assms(4) by (simp add: claim_acquired)
  have "key_status ?t (je_idempotency_key env) = Some L_claimed"
    using acq by (simp add: key_status_claim)
  moreover have "begin_msg q d n n w t \<lparr>m_body = Some env, m_num_delivered = Some m\<rparr>
      = (?t, w, Holding ?e (Run_handler h))"
    using acq assms(1,2,5)
    by (simp add: begin_msg_def from_bytes_def model_post_init_def delivered_def is_expired_def
        Let_def split_beta)
  ultimately show ?thesis
    using assms(3,6)
    by (auto simp: process_msg_def finish_msg_def Let_def ledger_ops table_simps
        split: if_splits option.splits)
qed

lemma deliveries_released:
  assumes "handler_for d (je_job_kind env) = Some h" and "je_deadline env = None"
    and "\<forall>e. call h e = Raised exc" and "je_idempotency_key env \<noteq> []"
    and "key_status t (je_idempotency_key env) \<in> {None, Some L_released}"
    and "m < q_max_deliver q"
  shows "key_status (fst (deliveries q d call n w t env m)) (je_idempotency_key env) \<in> {None, Some L_released}
    \<and> snd (deliveries q d call n w t env m) = replicate m (Naked (nak_delay_seconds q))
    \<and> (0 < m \<longrightarrow> key_status (fst (deliveries q d call n w t env m)) (je_idempotency_key env) = Some L_released)"
  using assms(6)
proof (induction m)
  case 0
  then show ?case using assms(5) by simp
next
  case (Suc m)
  obtain t1 ss where d: "deliveries q d call n w t env m = (t1, ss)" by (metis prod.exhaust)
  obtain t2 w2 r s where p: "process_msg q d call (n, n) (n, n) w t1
      \<lparr>m_body = Some env, m_num_delivered = Some (Suc m)\<rparr> = (t2, w2, r, s)" by (metis prod_cases4)
  have "key_status t1 (je_idempotency_key env) \<in> {None, Some L_released}"
    using Suc d by simp
  from failing_delivery [where call = call and h = h and exc = exc, OF assms(1-3) this assms(4) p] Suc d p show ?case
    by (simp add: replicate_append_same)
qed

text \<open>Retry. A message whose handler raises every time, delivered again and again by the
  broker, is deferred at each delivery before the last of the queue's budget, its key released;
  the delivery that reaches the budget terminates it and leaves the key \<open>failed\<close>. So its
  handler is called exactly \<open>max_deliver\<close> times.\<close>

theorem retries_exhausted:
  assumes "handler_for d (je_job_kind env) = Some h" and "je_deadline env = None"
    and "\<forall>e. call h e = Raised exc" and "je_idempotency_key env \<noteq> []"
    and "key_status t (je_idempotency_key env) \<in> {None, Some L_released}"
    and "0 < q_max_deliver q"
  shows "snd (deliveries q d call n w t env (q_max_deliver q)) =
      replicate (q_max_deliver q - 1) (Naked (nak_delay_seconds q)) @ [Termed]
    \<and> key_status (fst (deliveries q d call n w t env (q_max_deliver q))) (je_idempotency_key env) = Some L_failed"
proof -
  obtain m where m: "q_max_deliver q = Suc m" using assms(6) gr0_implies_Suc by blast
  obtain t1 ss where d: "deliveries q d call n w t env m = (t1, ss)" by (metis prod.exhaust)
  obtain t2 w2 r s where p: "process_msg q d call (n, n) (n, n) w t1
      \<lparr>m_body = Some env, m_num_delivered = Some (Suc m)\<rparr> = (t2, w2, r, s)" by (metis prod_cases4)
  note before = deliveries_released [where call = call and h = h and exc = exc, OF assms(1-5), of m q n w]
  from before m d have "key_status t1 (je_idempotency_key env) \<in> {None, Some L_released}" by simp
  from failing_delivery [where call = call and h = h and exc = exc, OF assms(1-3) this assms(4) p] before m d p show ?thesis by simp
qed

lemma retries_exhausted_witness:
  "key_status (fst (deliveries default_queue demo_dispatch (\<lambda>h e. Raised ''boom'') 0
      (new_worker default_queue ''w'' 0) [] (demo_env ''k'') 5)) ''k'' = Some L_failed"
proof -
  have q: "q_max_deliver default_queue = 5" by code_simp
  have h: "handler_for demo_dispatch (je_job_kind (demo_env ''k'')) = Some 0" by code_simp
  have e: "je_deadline (demo_env ''k'') = None" "je_idempotency_key (demo_env ''k'') = ''k''"
    by code_simp+
  show ?thesis
    using retries_exhausted [OF h e(1), of "\<lambda>h e. Raised ''boom''" "''boom''" "[]" default_queue] q e(2)
    by (simp add: key_status_def)
qed

section \<open>A job that kills its worker\<close>

text \<open>
  One life of a message whose job kills the process that runs it: the first delivery is claimed
  and its worker dies, the broker spends the rest of its budget on refused redeliveries, the
  lease runs out and the sweep finds the row.
\<close>

definition delivery :: "job_envelope \<Rightarrow> nat \<Rightarrow> message" where
  "delivery env m = \<lparr>m_body = Some env, m_num_delivered = Some m\<rparr>"

definition crash_cycle :: "queue_cfg \<Rightarrow> job_envelope \<Rightarrow> instant \<Rightarrow> fleet_event list" where
  "crash_cycle q env c =
     [Deliver 0 c (delivery env 1), Crash 0]
     @ map (\<lambda>m. Deliver 0 c (delivery env m)) [2..<Suc (q_max_deliver q)]
     @ [Tick (seconds (lease_seconds q) + 1), Sweep 0 (c + seconds (lease_seconds q) + 1) True]"

text \<open>The next cycle processes the envelope the sweep published.\<close>

fun crash_cycles :: "queue_cfg \<Rightarrow> job_envelope \<Rightarrow> instant \<Rightarrow> nat \<Rightarrow> fleet_event list" where
  "crash_cycles q env c 0 = []"
| "crash_cycles q env c (Suc n) =
     crash_cycle q env c
     @ crash_cycles q (env\<lparr>je_attempts := 1\<rparr>) (c + seconds (lease_seconds q) + 1) n"

definition parked :: "job_envelope \<Rightarrow> ledger \<Rightarrow> bool" where
  "parked env t \<longleftrightarrow>
     (\<exists>row. t = [(je_idempotency_key env, row)] \<and> lr_status row = L_released \<and> lr_attempts row = 1
        \<and> lr_envelope row = Some (env\<lparr>je_attempts := 1\<rparr>))"

lemma refused_delivery:
  assumes "f_slots s = [\<lparr>s_worker = w, s_held = None\<rparr>]"
    and "f_ledger s = [(je_idempotency_key env, row)]" and "lr_status row = L_claimed"
    and "je_idempotency_key env \<noteq> []" and "je_deadline env = None"
  shows "fleet_event_step q d s (Deliver 0 wall (delivery env m)) = s"
proof -
  have "begin_msg q d wall (f_clock s) w (f_ledger s) (delivery env m)
      = (f_ledger s, w, Settled None (Naked (nak_delay_seconds q)))"
    using assms
    by (simp add: begin_msg_def from_bytes_def delivery_def model_post_init_def delivered_def
        is_expired_def claim_def Let_def)
  with assms(1) show ?thesis by (simp add: fleet_event_step.simps)
qed

lemma refused_deliveries:
  assumes "f_slots s = [\<lparr>s_worker = w, s_held = None\<rparr>]"
    and "f_ledger s = [(je_idempotency_key env, row)]" and "lr_status row = L_claimed"
    and "je_idempotency_key env \<noteq> []" and "je_deadline env = None"
  shows "run_fleet q d s (map (\<lambda>m. Deliver 0 wall (delivery env m)) ms) = s"
  using refused_delivery [OF assms] by (induction ms) (simp_all add: run_fleet_def)

lemma run_fleet_Nil: "run_fleet q d s [] = s"
  by (simp add: run_fleet_def)

lemma run_fleet_append: "run_fleet q d s (es @ fs) = run_fleet q d (run_fleet q d s es) fs"
  by (simp add: run_fleet_def)

lemma crash_claim:
  assumes "f_slots s = [\<lparr>s_worker = w, s_held = None\<rparr>]" and "f_ledger s = [] \<or> parked env (f_ledger s)"
    and "je_idempotency_key env \<noteq> []" and "je_deadline env = None"
    and "handler_for d (je_job_kind env) = Some h"
  shows "\<exists>row. run_fleet q d s [Deliver 0 c (delivery env 1), Crash 0] =
      s\<lparr>f_ledger := [(je_idempotency_key env, row)],
        f_slots := [\<lparr>s_worker = new_worker q (w_worker_id w) (f_clock s), s_held = None\<rparr>]\<rparr>
      \<and> lr_status row = L_claimed \<and> lr_attempts row = 1
      \<and> lr_envelope row = Some (env\<lparr>je_attempts := 1\<rparr>) \<and> lr_claimed_at row = f_clock s"
proof -
  let ?e = "env\<lparr>je_attempts := 1\<rparr>"
  obtain row where row: "claim (f_clock s) (f_ledger s) ?e =
      ([(je_idempotency_key env, row)],
       \<lparr>cr_acquired = True, cr_status = L_claimed, cr_prior_result = None\<rparr>)"
    "lr_status row = L_claimed" "lr_attempts row = 1" "lr_envelope row = Some ?e" "lr_claimed_at row = f_clock s"
    using assms(2) by (auto simp: claim_def parked_def fresh_row_def)
  have "begin_msg q d c (f_clock s) w (f_ledger s) (delivery env 1)
      = ([(je_idempotency_key env, row)], w, Holding ?e (Run_handler h))"
    using assms(3-5) row(1)
    by (simp add: begin_msg_def from_bytes_def delivery_def model_post_init_def delivered_def
        is_expired_def Let_def)
  with assms(1) row show ?thesis
    by (intro exI [of _ row]) (simp add: run_fleet_def fleet_event_step.simps)
qed

lemma reap_interval_lease: "1 \<le> q_ack_wait_seconds q \<Longrightarrow> reap_interval q \<le> seconds (lease_seconds q)"
proof -
  assume a: "1 \<le> q_ack_wait_seconds q"
  have "1 * 1 \<le> q_ack_wait_seconds q * max 1 (int (q_max_deliver q))"
    using a by (intro mult_mono) auto
  then show ?thesis unfolding reap_interval_def lease_seconds_def by linarith
qed

lemma crash_cycle_run:
  assumes "f_slots s = [\<lparr>s_worker = w, s_held = None\<rparr>]" and "f_ledger s = [] \<or> parked env (f_ledger s)"
    and "je_idempotency_key env \<noteq> []" and "je_deadline env = None"
    and "handler_for d (je_job_kind env) = Some h"
    and "1 < q_max_deliver q" and "1 \<le> q_ack_wait_seconds q"
  shows "\<exists>w'. f_slots (run_fleet q d s (crash_cycle q env (f_clock s))) = [\<lparr>s_worker = w', s_held = None\<rparr>]
    \<and> parked env (f_ledger (run_fleet q d s (crash_cycle q env (f_clock s))))
    \<and> f_clock (run_fleet q d s (crash_cycle q env (f_clock s))) = f_clock s + seconds (lease_seconds q) + 1
    \<and> f_published (run_fleet q d s (crash_cycle q env (f_clock s)))
        = f_published s @ [env\<lparr>je_attempts := 1\<rparr>]"
proof -
  let ?c = "f_clock s" and ?L = "seconds (lease_seconds q)"
  let ?w = "new_worker q (w_worker_id w) ?c"
  obtain row where one: "run_fleet q d s [Deliver 0 ?c (delivery env 1), Crash 0] =
      s\<lparr>f_ledger := [(je_idempotency_key env, row)], f_slots := [\<lparr>s_worker = ?w, s_held = None\<rparr>]\<rparr>"
    and row: "lr_status row = L_claimed" "lr_attempts row = 1"
      "lr_envelope row = Some (env\<lparr>je_attempts := 1\<rparr>)" "lr_claimed_at row = ?c"
    using crash_claim [OF assms(1-5)] by blast
  let ?s1 = "s\<lparr>f_ledger := [(je_idempotency_key env, row)], f_slots := [\<lparr>s_worker = ?w, s_held = None\<rparr>]\<rparr>"
  let ?sweep = "[Tick (?L + 1), Sweep 0 (?c + ?L + 1) True]"
  have two: "run_fleet q d ?s1 (map (\<lambda>m. Deliver 0 ?c (delivery env m)) [2..<Suc (q_max_deliver q)]) = ?s1"
    by (rule refused_deliveries) (use row assms in simp_all)
  have all: "run_fleet q d s (crash_cycle q env ?c) = run_fleet q d ?s1 ?sweep"
    unfolding crash_cycle_def run_fleet_append one two by (rule refl)
  have L: "0 \<le> ?L" "w_next_reap_at ?w \<le> ?c + ?L + 1"
    using reap_interval_lease [OF assms(7)] by (simp_all add: new_worker_def reap_interval_def)
  have st: "stale (?c + (?L + 1)) ?L row" using row by (simp add: stale_def)
  have reap: "maybe_reap q (\<lambda>_. True) (?c + ?L + 1) (Some (?c + (?L + 1))) ?w [(je_idempotency_key env, row)]
      = ([(je_idempotency_key env, row\<lparr>lr_status := L_released, lr_updated_at := ?c + (?L + 1)\<rparr>)],
         ?w\<lparr>w_next_reap_at := ?c + ?L + 1 + reap_interval q, w_reaped := w_reaped ?w + 1\<rparr>,
         [env\<lparr>je_attempts := 1\<rparr>])"
    using L st row assms(3,6)
    by (simp add: maybe_reap_def reap_stale_claims_def reap_failed_def reap_released_def Let_def
        reenqueue_released_def entry_of_def List.map_filter_def model_post_init_def)
  have tick: "f_clock s + max 0 (?L + 1) = ?c + (?L + 1)" using L(1) by simp
  show ?thesis
    unfolding all using reap row
    by (simp add: run_fleet_def fleet_event_step.simps parked_def tick)
qed

lemma crash_cycles_run:
  assumes "f_slots s = [\<lparr>s_worker = w, s_held = None\<rparr>]" and "f_ledger s = [] \<or> parked env (f_ledger s)"
    and "je_idempotency_key env \<noteq> []" and "je_deadline env = None"
    and "handler_for d (je_job_kind env) = Some h"
    and "1 < q_max_deliver q" and "1 \<le> q_ack_wait_seconds q"
  shows "(0 < n \<longrightarrow> parked env (f_ledger (run_fleet q d s (crash_cycles q env (f_clock s) n))))
    \<and> f_published (run_fleet q d s (crash_cycles q env (f_clock s) n))
        = f_published s @ replicate n (env\<lparr>je_attempts := 1\<rparr>)"
  using assms
proof (induction n arbitrary: s w env)
  case 0
  then show ?case by (simp add: run_fleet_def)
next
  case (Suc n)
  let ?s = "run_fleet q d s (crash_cycle q env (f_clock s))" and ?e = "env\<lparr>je_attempts := 1\<rparr>"
  obtain w' where one: "f_slots ?s = [\<lparr>s_worker = w', s_held = None\<rparr>]" "parked env (f_ledger ?s)"
    "f_clock ?s = f_clock s + seconds (lease_seconds q) + 1"
    "f_published ?s = f_published s @ [?e]"
    using crash_cycle_run [OF Suc.prems] by blast
  have e: "parked ?e (f_ledger ?s)" using one(2) by (simp add: parked_def)
  have parked_e: "parked (env\<lparr>je_attempts := Suc 0\<rparr>) t \<longleftrightarrow> parked env t" for t by (simp add: parked_def)
  from Suc.IH [of ?s w' ?e] one e Suc.prems show ?case
    by (cases "n = 0") (simp_all add: run_fleet_append run_fleet_Nil parked_e)
qed

text \<open>The delivery budget does not bound a job that kills its worker. Although the broker
  spends the whole budget on each cycle, the row keeps the count of the one delivery that was
  claimed, so the sweep finds the budget unspent: after any number of cycles the row is
  \<open>released\<close> with one attempt, never \<open>failed\<close>, and the sweeps have published the
  job once per cycle.\<close>

theorem crash_loop_never_fails:
  fixes c :: instant
  assumes "je_idempotency_key env \<noteq> []" and "je_deadline env = None"
    and "handler_for d (je_job_kind env) = Some h"
    and "1 < q_max_deliver q" and "1 \<le> q_ack_wait_seconds q" and "0 < n"
  defines "s \<equiv> run_fleet q d (start_fleet q 1 c) (crash_cycles q env c n)"
  shows "key_status (f_ledger s) (je_idempotency_key env) = Some L_released
    \<and> map_option lr_attempts (map_of (f_ledger s) (je_idempotency_key env)) = Some 1
    \<and> f_published s = replicate n (env\<lparr>je_attempts := 1\<rparr>)"
proof -
  let ?s0 = "start_fleet q 1 c :: 'a fleet"
  let ?w = "new_worker q (''worker-'' @ show_nat 0) c"
  have f: "f_slots ?s0 = [\<lparr>s_worker = ?w, s_held = None\<rparr>]" "f_ledger ?s0 = []" "f_clock ?s0 = c"
    "f_published ?s0 = []"
    by (simp_all add: start_fleet_def)
  from crash_cycles_run [OF f(1) _ assms(1-5), of n] assms(6) f(2-4)
  show ?thesis unfolding s_def by (auto simp: parked_def key_status_def)
qed

lemma crash_loop_never_fails_witness:
  "key_status (f_ledger (run_fleet default_queue demo_dispatch (start_fleet default_queue 1 0)
     (crash_cycles default_queue (demo_env ''k'') 0 100))) ''k'' = Some L_released"
proof -
  have q: "q_max_deliver default_queue = 5" "q_ack_wait_seconds default_queue = 180" by code_simp+
  have e: "je_deadline (demo_env ''k'') = None" "je_idempotency_key (demo_env ''k'') = ''k''"
    "handler_for demo_dispatch (je_job_kind (demo_env ''k'')) = Some 0" by code_simp+
  show ?thesis
    using crash_loop_never_fails [of "demo_env ''k''" demo_dispatch 0 default_queue 100 0] q e by simp
qed

section \<open>A released row and the sweeps\<close>

lemma sweep_keeps_released:
  assumes "key_status t k = Some L_released" and "distinct (map fst t)"
  shows "map_of (fst (reap_stale_claims n l m r t)) k = map_of t k
    \<and> k \<notin> re_idempotency_key ` set (snd (reap_stale_claims n l m r t))"
proof -
  obtain row where row: "map_of t k = Some row" "lr_status row = L_released"
    using assms(1) by (auto simp: key_status_def)
  have "(k, x) \<notin> set t" if "stale n l x" for x
  proof
    assume "(k, x) \<in> set t"
    then have "map_of t k = Some x" using assms(2) by simp
    with row that show False by (simp add: stale_def)
  qed
  then show ?thesis
    using row by (auto simp: map_of_reap reap_row_def stale_def reap_entries entry_of_def)
qed

text \<open>The ledger after a sequence of sweeps, and the keys they reported.\<close>

fun sweeps :: "int \<Rightarrow> nat \<Rightarrow> py_str \<Rightarrow> ledger \<Rightarrow> instant list \<Rightarrow> ledger \<times> job_key list" where
  "sweeps l m r t [] = (t, [])"
| "sweeps l m r t (n # ns) =
     (let (t1, es) = reap_stale_claims n l m r t; (t2, ks) = sweeps l m r t1 ns
      in (t2, map re_idempotency_key es @ ks))"

text \<open>A failed re-enqueue is not retried. Once a row is \<open>released\<close>, as the sweep leaves
  it whether or not its envelope could be published again, no later sweep touches the row or
  reports its key, at any time and any number of times: only a redelivery the broker still holds
  can bring the job back.\<close>

theorem released_row_never_swept:
  assumes "key_status t k = Some L_released" and "distinct (map fst t)"
  shows "map_of (fst (sweeps l m r t ns)) k = map_of t k \<and> k \<notin> set (snd (sweeps l m r t ns))"
  using assms
proof (induction ns arbitrary: t)
  case (Cons n ns)
  let ?t = "fst (reap_stale_claims n l m r t)"
  note one = sweep_keeps_released [OF Cons.prems, of n l m r]
  then have "key_status ?t k = Some L_released" using Cons.prems(1) by (simp add: key_status_def)
  moreover have "distinct (map fst ?t)" using Cons.prems(2) by (simp add: reap_keys)
  ultimately show ?case using Cons.IH [of ?t] one by (auto simp: split_beta Let_def)
qed simp

lemma singletonless: "A \<subseteq> {a} \<Longrightarrow> a \<notin> A \<Longrightarrow> A = {}"
  by blast

lemma released_row_never_swept_witness:
  "let t = fst (sweeps 10 5 ''w'' (fst (claim 0 [] (demo_env ''k''))) [11])
   in snd (sweeps 10 5 ''w'' (fst (claim 0 [] (demo_env ''k''))) [11]) = [''k'']
      \<and> snd (sweeps 10 5 ''w'' t [22, 33, 44]) = []"
proof -
  let ?t = "fst (sweeps 10 5 ''w'' (fst (claim 0 [] (demo_env ''k''))) [11])"
  have t: "key_status ?t ''k'' = Some L_released" "distinct (map fst ?t)" by code_simp+
  have n: "set (snd (sweeps 10 5 ''w'' ?t [22, 33, 44])) \<subseteq> {''k''}" by code_simp
  have s: "snd (sweeps 10 5 ''w'' (fst (claim 0 [] (demo_env ''k''))) [11]) = [''k'']" by code_simp
  have "set (snd (sweeps 10 5 ''w'' ?t [22, 33, 44])) = {}"
    by (rule singletonless [OF n]) (rule conjunct2 [OF released_row_never_swept [OF t]])
  then have "snd (sweeps 10 5 ''w'' ?t [22, 33, 44]) = []" by (simp only: set_empty)
  with s show ?thesis unfolding Let_def by blast
qed

end
