(* ===== verification/Budget.thy ===== *)
theory Budget
  imports Prelude Complex_Main
begin

text \<open>
  The token budget: the day ledger and its writers (\<open>data/provenance/budget.py\<close>) and the
  pre-call check of the runtime (\<open>runtime/budget.py\<close>). A day (\<open>bucket\<close>) is the number of
  days since the epoch; \<open>budget_ledger\<close> and \<open>global_budget_envelope\<close> are association lists
  keyed as their primary keys are; decimals are rationals. The log text \<open>detail\<close> of a
  decision and the ledger's \<open>cost_usd\<close>, which no code here writes, are left out.
\<close>

section \<open>Prices\<close>

record model_price =
  mp_input_per_m :: rat
  mp_output_per_m :: rat
  mp_cache_read_per_m :: rat
  mp_cache_write_per_m :: rat
  mp_reasoning_per_m :: rat

type_synonym price_table = "(py_str \<times> model_price) list"

definition starts_with :: "py_str \<Rightarrow> py_str \<Rightarrow> bool" where
  "starts_with s p \<longleftrightarrow> take (length p) s = p"

definition lookup_price :: "py_str \<Rightarrow> price_table \<Rightarrow> model_price option" where
  "lookup_price model table =
     (case map_of table model of
        Some p \<Rightarrow> Some p
      | None \<Rightarrow> map_option snd (List.find (\<lambda>(k, _). starts_with model k) table))"

record token_counts =
  tk_prompt :: int
  tk_completion :: int
  tk_reasoning :: int
  tk_cache_read :: int
  tk_cache_write :: int

text \<open>\<^verbatim>\<open>quantize(Decimal("0.000001"))\<close>: to the nearest micro-dollar, ties to even.\<close>

definition half_even :: "rat \<Rightarrow> int" where
  "half_even x =
     (let f = floor x; r = x - of_int f in
      if r < 1/2 then f else if r > 1/2 then f + 1 else if even f then f else f + 1)"

definition quantize6 :: "rat \<Rightarrow> rat" where
  "quantize6 x = of_int (half_even (x * 1000000)) / 1000000"

definition compute_cost_usd ::
  "(py_str \<times> price_table) list \<Rightarrow> py_str \<Rightarrow> py_str \<Rightarrow> token_counts \<Rightarrow> rat" where
  "compute_cost_usd tables provider model n =
     (case map_of tables provider of
        None \<Rightarrow> 0
      | Some table \<Rightarrow>
          (case lookup_price model table of
             None \<Rightarrow> 0
           | Some p \<Rightarrow>
               quantize6
                 (of_int (tk_prompt n) * mp_input_per_m p / 1000000
                  + of_int (tk_completion n) * mp_output_per_m p / 1000000
                  + of_int (tk_cache_read n) * mp_cache_read_per_m p / 1000000
                  + of_int (tk_cache_write n) * mp_cache_write_per_m p / 1000000
                  + of_int (tk_reasoning n) * mp_reasoning_per_m p / 1000000)))"

section \<open>The day ledger\<close>

type_synonym day = int

type_synonym ledger_key = "py_str \<times> py_str \<times> day"

record budget_row =
  br_tokens_used :: int
  br_runs :: int
  br_cost_estimate_usd :: rat
  br_last_updated :: instant

type_synonym budget_ledger = "(ledger_key \<times> budget_row) list"

definition record_budget ::
  "(py_str \<times> price_table) list \<Rightarrow> instant \<Rightarrow> py_str \<Rightarrow> py_str \<Rightarrow> day \<Rightarrow> py_str \<Rightarrow> py_str
     \<Rightarrow> token_counts \<Rightarrow> int \<Rightarrow> budget_ledger \<Rightarrow> budget_ledger" where
  "record_budget tables db_now analyst version bucket provider model n runs t =
     (let tokens = tk_prompt n + tk_completion n + tk_reasoning n;
          cost = compute_cost_usd tables provider model n;
          key = (analyst, version, bucket)
      in case map_of t key of
           None \<Rightarrow>
             AList.update key
               \<lparr>br_tokens_used = tokens, br_runs = runs, br_cost_estimate_usd = cost,
                br_last_updated = db_now\<rparr> t
         | Some row \<Rightarrow>
             AList.update key
               \<lparr>br_tokens_used = br_tokens_used row + tokens, br_runs = br_runs row + runs,
                br_cost_estimate_usd = br_cost_estimate_usd row + cost,
                br_last_updated = db_now\<rparr> t)"

text \<open>The two sums the pre-call check reads.\<close>

definition global_used :: "budget_ledger \<Rightarrow> day \<Rightarrow> int" where
  "global_used t bucket =
     sum_list (map (\<lambda>(k, row). br_tokens_used row) (filter (\<lambda>((_, _, b), _). b = bucket) t))"

definition analyst_used :: "budget_ledger \<Rightarrow> py_str \<Rightarrow> py_str \<Rightarrow> day \<Rightarrow> int" where
  "analyst_used t analyst version bucket =
     (case map_of t (analyst, version, bucket) of None \<Rightarrow> 0 | Some row \<Rightarrow> br_tokens_used row)"

section \<open>Metering the judge\<close>

definition judge_prefix :: py_str where "judge_prefix = ''judge:''"

definition judge_ledger_version :: "py_str \<Rightarrow> py_str" where
  "judge_ledger_version component = judge_prefix @ component"

definition is_judge_ledger_version :: "py_str \<Rightarrow> bool" where
  "is_judge_ledger_version v \<longleftrightarrow> starts_with v judge_prefix"

text \<open>A call record; a missing count is 0 and a missing name is empty, as \<^verbatim>\<open>x or 0\<close> makes them.\<close>

record llm_call =
  lc_component_id :: py_str
  lc_subprovider :: py_str
  lc_model :: py_str
  lc_counts :: token_counts

type_synonym judge_key = "py_str \<times> py_str \<times> py_str"

definition usable_call :: "llm_call \<Rightarrow> bool" where
  "usable_call c \<longleftrightarrow> lc_component_id c \<noteq> []
     \<and> tk_prompt (lc_counts c) + tk_completion (lc_counts c) + tk_reasoning (lc_counts c) > 0"

definition judge_key_of :: "llm_call \<Rightarrow> judge_key" where
  "judge_key_of c = (lc_component_id c, lc_subprovider c, lc_model c)"

definition add_counts :: "token_counts \<Rightarrow> token_counts \<Rightarrow> token_counts" where
  "add_counts a b =
     \<lparr>tk_prompt = tk_prompt a + tk_prompt b, tk_completion = tk_completion a + tk_completion b,
      tk_reasoning = tk_reasoning a + tk_reasoning b, tk_cache_read = tk_cache_read a + tk_cache_read b,
      tk_cache_write = tk_cache_write a + tk_cache_write b\<rparr>"

definition no_counts :: token_counts where
  "no_counts = \<lparr>tk_prompt = 0, tk_completion = 0, tk_reasoning = 0, tk_cache_read = 0, tk_cache_write = 0\<rparr>"

fun group_calls ::
  "llm_call list \<Rightarrow> (judge_key \<times> (token_counts \<times> int)) list \<Rightarrow> (judge_key \<times> (token_counts \<times> int)) list" where
  "group_calls [] g = g"
| "group_calls (c # cs) g =
     (if \<not> usable_call c then group_calls cs g
      else let (acc, calls) = (case map_of g (judge_key_of c) of None \<Rightarrow> (no_counts, 0) | Some a \<Rightarrow> a)
           in group_calls cs (AList.update (judge_key_of c) (add_counts acc (lc_counts c), calls + 1) g))"

definition record_judge_calls_budget ::
  "(py_str \<times> price_table) list \<Rightarrow> instant \<Rightarrow> py_str \<Rightarrow> day \<Rightarrow> llm_call list \<Rightarrow> budget_ledger
     \<Rightarrow> budget_ledger" where
  "record_judge_calls_budget tables db_now analyst bucket calls t =
     fold (\<lambda>((component, provider, model), (n, k)).
             record_budget tables db_now analyst (judge_ledger_version component) bucket provider model n k)
       (group_calls calls []) t"

section \<open>The pre-call check\<close>

record envelope_row =
  ge_tokens_cap :: "int option"
  ge_usd_cap :: "rat option"
  ge_on_exceeded :: py_str
  ge_rolled_from :: "day option"

type_synonym envelope_table = "(day \<times> envelope_row) list"

datatype budget_outcome = B_ok | B_throttle | B_exhausted | B_global_exhausted

datatype budget_cause = C_per_analyst | C_global

record budget_decision =
  bd_outcome :: budget_outcome
  bd_tokens_used_today :: int
  bd_cause :: "budget_cause option"
  bd_global_tokens_cap :: "int option"
  bd_global_tokens_used :: "int option"

record budget_enforcer =
  be_analyst_id :: py_str
  be_analyst_version :: py_str
  be_budget_tokens_per_day :: "int option"

text \<open>The latest row before a day: \<^verbatim>\<open>WHERE bucket < $1 ORDER BY bucket DESC LIMIT 1\<close>.\<close>

definition previous_row :: "envelope_table \<Rightarrow> day \<Rightarrow> (day \<times> envelope_row) option" where
  "previous_row t bucket =
     (case filter (\<lambda>b. b < bucket) (map fst t) of
        [] \<Rightarrow> None
      | b # bs \<Rightarrow>
          (let latest = foldr max bs b in map_option (Pair latest) (map_of t latest)))"

text \<open>
  The envelope in force today, and the table after today's row was materialised. Only a row
  with a cap is inherited; \<open>ge_rolled_from\<close> stands for the note
  \<^verbatim>\<open>auto-rollover from <day>\<close>.
\<close>

definition rollover :: "envelope_table \<Rightarrow> day \<Rightarrow> envelope_table \<times> envelope_row option" where
  "rollover t bucket =
     (case map_of t bucket of
        Some row \<Rightarrow> (t, Some row)
      | None \<Rightarrow>
          (case previous_row t bucket of
             Some (b, prev) \<Rightarrow>
               if ge_tokens_cap prev \<noteq> None
               then (AList.update bucket (prev\<lparr>ge_rolled_from := Some b\<rparr>) t, Some prev)
               else (t, None)
           | None \<Rightarrow> (t, None)))"

definition precall_check ::
  "budget_enforcer \<Rightarrow> envelope_table \<Rightarrow> budget_ledger \<Rightarrow> int \<Rightarrow> day \<Rightarrow> envelope_table \<times> budget_decision" where
  "precall_check be envs t estimated bucket =
     (let (envs', global_row) = rollover envs bucket;
          cap = Option.bind global_row ge_tokens_cap;
          gused = (case cap of None \<Rightarrow> 0 | Some _ \<Rightarrow> global_used t bucket);
          shown = map_option (\<lambda>_. gused) cap;
          decide = (\<lambda>oc used cause. (envs', \<lparr>bd_outcome = oc, bd_tokens_used_today = used,
             bd_cause = cause, bd_global_tokens_cap = cap, bd_global_tokens_used = shown\<rparr>))
      in if (case cap of None \<Rightarrow> False | Some c \<Rightarrow> gused \<ge> c)
         then decide B_global_exhausted 0 (Some C_global)
         else case be_budget_tokens_per_day be of
           None \<Rightarrow> decide B_ok 0 None
         | Some budget \<Rightarrow>
             if budget = 0 then decide B_ok 0 None
             else let used = analyst_used t (be_analyst_id be) (be_analyst_version be) bucket in
               if used \<ge> budget then decide B_exhausted used (Some C_per_analyst)
               else if (case cap of None \<Rightarrow> False | Some c \<Rightarrow> gused + estimated > c)
               then decide B_throttle used (Some C_global)
               else if used + estimated > budget then decide B_throttle used (Some C_per_analyst)
               else decide B_ok used None)"

section \<open>Metering, exactly\<close>

lemma sum_update:
  fixes f :: "'k \<times> 'v \<Rightarrow> int"
  assumes "distinct (map fst t)"
  shows "sum_list (map f (AList.update k v t)) =
    sum_list (map f t) - (case map_of t k of None \<Rightarrow> 0 | Some r \<Rightarrow> f (k, r)) + f (k, v)"
  using assms by (induction t) (auto simp: map_of_eq_None_iff split: option.splits)

definition bucket_tokens :: "day \<Rightarrow> ledger_key \<times> budget_row \<Rightarrow> int" where
  "bucket_tokens bucket = (\<lambda>((_, _, b), row). if b = bucket then br_tokens_used row else 0)"

lemma global_used_sum: "global_used t bucket = sum_list (map (bucket_tokens bucket) t)"
  unfolding global_used_def by (induction t) (auto simp: bucket_tokens_def)

definition total_tokens :: "token_counts \<Rightarrow> int" where
  "total_tokens n = tk_prompt n + tk_completion n + tk_reasoning n"

lemma record_budget_keys:
  "distinct (map fst t) \<Longrightarrow> distinct (map fst (record_budget tb now a v b p m n r t))"
  by (simp add: record_budget_def Let_def distinct_update split: option.split)

lemma record_budget_global:
  "distinct (map fst t) \<Longrightarrow> global_used (record_budget tb now a v b p m n r t) bucket =
     global_used t bucket + (if b = bucket then total_tokens n else 0)"
  by (simp add: record_budget_def Let_def global_used_sum sum_update bucket_tokens_def
      total_tokens_def split: option.split)

lemma record_budget_analyst:
  "analyst_used (record_budget tb now a v b p m n r t) a' v' b' =
     analyst_used t a' v' b' + (if (a', v', b') = (a, v, b) then total_tokens n else 0)"
  by (auto simp: record_budget_def Let_def analyst_used_def table_simps total_tokens_def
      split: option.split)

definition group_tokens :: "(judge_key \<times> (token_counts \<times> int)) list \<Rightarrow> int" where
  "group_tokens g = sum_list (map (\<lambda>(_, n, _). total_tokens n) g)"

lemma group_tokens_update:
  "distinct (map fst g) \<Longrightarrow> group_tokens (AList.update k (n, c) g) =
     group_tokens g - (case map_of g k of None \<Rightarrow> 0 | Some (m, _) \<Rightarrow> total_tokens m) + total_tokens n"
  unfolding group_tokens_def by (subst sum_update) (auto split: option.split)

lemma group_calls_tokens:
  "distinct (map fst g) \<Longrightarrow> distinct (map fst (group_calls cs g))
     \<and> group_tokens (group_calls cs g) =
         group_tokens g + sum_list (map (total_tokens \<circ> lc_counts) (filter usable_call cs))"
proof (induction cs arbitrary: g)
  case (Cons c cs)
  show ?case
  proof (cases "usable_call c")
    case True
    let ?k = "judge_key_of c"
    obtain acc n where a: "(case map_of g ?k of None \<Rightarrow> (no_counts, 0) | Some a \<Rightarrow> a) = (acc, n)"
      by (metis prod.exhaust)
    let ?g = "AList.update ?k (add_counts acc (lc_counts c), n + 1) g"
    have "group_tokens ?g = group_tokens g + total_tokens (lc_counts c)"
      using a Cons.prems
      by (cases "map_of g ?k")
         (auto simp: group_tokens_update add_counts_def total_tokens_def no_counts_def simp del: map_of_eq_Some_iff)
    then show ?thesis using Cons.IH [of ?g] Cons.prems True a by (simp add: distinct_update)
  qed (use Cons in simp)
qed simp

lemma judge_rows_recorded:
  assumes "distinct (map fst t)"
    and "t' = fold (\<lambda>((component, provider, model), (n, k)).
      record_budget tb now a (judge_ledger_version component) b provider model n k) g t"
  shows "distinct (map fst t') \<and> global_used t' bucket = global_used t bucket + (if b = bucket then group_tokens g else 0)
    \<and> (\<not> is_judge_ledger_version v \<longrightarrow> analyst_used t' a' v b' = analyst_used t a' v b')"
  using assms
proof (induction g arbitrary: t)
  case Nil
  then show ?case by (simp add: group_tokens_def)
next
  case (Cons x g)
  obtain component provider model n k where x: "x = ((component, provider, model), (n, k))"
    by (cases x) auto
  let ?t = "record_budget tb now a (judge_ledger_version component) b provider model n k t"
  have "is_judge_ledger_version (judge_ledger_version component)"
    by (simp add: is_judge_ledger_version_def judge_ledger_version_def starts_with_def)
  then have "\<not> is_judge_ledger_version v \<Longrightarrow> analyst_used ?t a' v b' = analyst_used t a' v b'"
    by (auto simp: record_budget_analyst)
  moreover have "global_used ?t bucket = global_used t bucket + (if b = bucket then total_tokens n else 0)"
    using Cons.prems(1) by (rule record_budget_global)
  ultimately show ?case
    using Cons.IH [where t = ?t, OF record_budget_keys [OF Cons.prems(1)]] Cons.prems x
    by (auto simp: group_tokens_def)
qed

text \<open>The judge leg is metered without touching anyone's budget. Recording the judge calls
  of a run adds to the day's global total exactly the tokens of its usable calls, however they
  are grouped, and leaves the total that every per-analyst check reads, for every version that is
  not a judge version, as it was.\<close>

theorem judge_metering_exact:
  assumes "distinct (map fst t)" and "\<not> is_judge_ledger_version v"
    and "t' = record_judge_calls_budget tables now analyst bucket calls t"
  shows "global_used t' bucket =
      global_used t bucket + sum_list (map (total_tokens \<circ> lc_counts) (filter usable_call calls))
    \<and> analyst_used t' a v b = analyst_used t a v b"
proof -
  have t': "t' = fold (\<lambda>((component, provider, model), (n, k)).
      record_budget tables now analyst (judge_ledger_version component) bucket provider model n k)
      (group_calls calls []) t"
    using assms(3) unfolding record_judge_calls_budget_def .
  have "group_tokens (group_calls calls []) =
      sum_list (map (total_tokens \<circ> lc_counts) (filter usable_call calls))"
    using group_calls_tokens [of "[]" calls] by (simp add: group_tokens_def)
  with judge_rows_recorded [OF assms(1) t', of bucket v a b] assms(2) show ?thesis by simp
qed

definition demo_counts :: token_counts where
  "demo_counts = no_counts\<lparr>tk_prompt := 10, tk_completion := 5\<rparr>"

definition demo_calls :: "llm_call list" where
  "demo_calls =
     [\<lparr>lc_component_id = ''j'', lc_subprovider = ''vllm'', lc_model = ''m'', lc_counts = demo_counts\<rparr>,
      \<lparr>lc_component_id = [], lc_subprovider = ''vllm'', lc_model = ''m'', lc_counts = demo_counts\<rparr>,
      \<lparr>lc_component_id = ''j'', lc_subprovider = ''vllm'', lc_model = ''m'', lc_counts = demo_counts\<rparr>]"

lemma judge_metering_exact_witness:
  "global_used (record_judge_calls_budget [] 0 ''desk'' 7 demo_calls []) 7 = 30
   \<and> analyst_used (record_judge_calls_budget [] 0 ''desk'' 7 demo_calls []) ''desk'' ''ab12'' 7 = 0"
proof -
  have v: "\<not> is_judge_ledger_version ''ab12''" by code_simp
  have u: "sum_list (map (total_tokens \<circ> lc_counts) (filter usable_call demo_calls)) = 30" by code_simp
  show ?thesis
    using judge_metering_exact [OF _ v refl, of "[]" "[]" 0 "''desk''" 7 demo_calls "''desk''" 7] u
    by (simp add: global_used_def analyst_used_def)
qed

section \<open>Rollover\<close>

lemma foldr_max: "foldr max bs (b :: int) = Max (set (b # bs))"
  by (induction bs arbitrary: b) (auto simp: Max_insert insert_commute max.left_commute max.assoc)

lemma previous_row_Some:
  "previous_row t d = Some (m, r) \<longleftrightarrow>
     map_of t m = Some r \<and> m < d \<and> (\<forall>k\<in>fst ` set t. k < d \<longrightarrow> k \<le> m)"
proof -
  let ?S = "{k \<in> fst ` set t. k < d}"
  have fin: "finite ?S" by simp
  have key: "m \<in> ?S" if "map_of t m = Some r" "m < d" for m r
    using map_of_SomeD [OF that(1)] that(2) by force
  show ?thesis
  proof (cases "filter (\<lambda>b. b < d) (map fst t)")
    case Nil
    then have "set (filter (\<lambda>b. b < d) (map fst t)) = {}" by simp
    then have "?S = {}" by auto
    with key have "\<not> (map_of t m = Some r \<and> m < d)" by blast
    with Nil show ?thesis by (auto simp: previous_row_def)
  next
    case (Cons b bs)
    then have "set (filter (\<lambda>b. b < d) (map fst t)) = set (b # bs)" by (rule arg_cong)
    then have set_eq: "set (b # bs) = ?S" by auto
    let ?m = "Max ?S"
    have ne: "?S \<noteq> {}" unfolding set_eq [symmetric] by simp
    have m: "?m \<in> ?S" by (rule Max_in [OF fin ne])
    have prev: "previous_row t d = map_option (Pair ?m) (map_of t ?m)"
      unfolding previous_row_def Cons list.case Let_def foldr_max set_eq by (rule refl)
    have max: "\<forall>k\<in>fst ` set t. k < d \<longrightarrow> k \<le> ?m" using Max_ge [OF fin] by simp
    show ?thesis
    proof
      assume "previous_row t d = Some (m, r)"
      then have "m = ?m" "map_of t ?m = Some r" using prev by auto
      with m max show "map_of t m = Some r \<and> m < d \<and> (\<forall>k\<in>fst ` set t. k < d \<longrightarrow> k \<le> m)" by simp
    next
      assume a: "map_of t m = Some r \<and> m < d \<and> (\<forall>k\<in>fst ` set t. k < d \<longrightarrow> k \<le> m)"
      then have "m \<in> ?S" using key by blast
      with a m Max_ge [OF fin] have "?m = m" by (intro order_antisym) auto
      with prev a show "previous_row t d = Some (m, r)" by simp
    qed
  qed
qed

text \<open>The cap in force on a day: that of the latest row up to it.\<close>

definition in_force :: "envelope_table \<Rightarrow> day \<Rightarrow> int option" where
  "in_force t d = Option.bind (previous_row t (d + 1)) (\<lambda>(_, row). ge_tokens_cap row)"

lemma previous_row_None:
  "previous_row t d = None \<longleftrightarrow> (\<forall>k\<in>fst ` set t. \<not> k < d)"
proof
  assume n: "previous_row t d = None"
  show "\<forall>k\<in>fst ` set t. \<not> k < d"
  proof (rule ccontr)
    let ?S = "{k \<in> fst ` set t. k < d}"
    assume "\<not> (\<forall>k\<in>fst ` set t. \<not> k < d)"
    then have ne: "?S \<noteq> {}" by blast
    have fin: "finite ?S" by simp
    have "Max ?S \<in> ?S" by (rule Max_in [OF fin ne])
    then obtain r where "map_of t (Max ?S) = Some r" "Max ?S < d"
      by (metis (mono_tags, lifting) map_of_eq_None_iff mem_Collect_eq option.exhaust)
    then have "previous_row t d = Some (Max ?S, r)"
      unfolding previous_row_Some using Max_ge [OF fin] by simp
    with n show False by simp
  qed
next
  assume "\<forall>k\<in>fst ` set t. \<not> k < d"
  then show "previous_row t d = None"
    by (metis map_of_SomeD image_eqI fst_conv not_Some_eq prod.collapse previous_row_Some)
qed

lemma rollover_cap:
  "Option.bind (snd (rollover t d)) ge_tokens_cap = in_force t d"
proof (cases "map_of t d")
  case (Some row)
  then have "previous_row t (d + 1) = Some (d, row)" by (simp add: previous_row_Some)
  with Some show ?thesis by (simp add: rollover_def in_force_def)
next
  case None
  then have "d \<notin> fst ` set t" by (simp add: map_of_eq_None_iff)
  then have "\<forall>k\<in>fst ` set t. k < d + 1 \<longleftrightarrow> k < d" by force
  then have "filter (\<lambda>b. b < d + 1) (map fst t) = filter (\<lambda>b. b < d) (map fst t)"
    by (intro filter_cong) auto
  then have "previous_row t (d + 1) = previous_row t d" by (simp add: previous_row_def)
  with None show ?thesis
    by (auto simp: rollover_def in_force_def split: option.split)
qed

lemma rollover_in_force: "in_force (fst (rollover t d)) e = in_force t e"
proof (cases "map_of t d = None \<and> (\<exists>b prev c. previous_row t d = Some (b, prev) \<and> ge_tokens_cap prev = Some c)")
  case False
  then have "fst (rollover t d) = t"
    by (auto simp: rollover_def split: option.splits)
  then show ?thesis by simp
next
  case True
  then obtain b prev c where new: "map_of t d = None"
    and prev: "previous_row t d = Some (b, prev)" "ge_tokens_cap prev = Some c" by blast
  let ?row = "prev\<lparr>ge_rolled_from := Some b\<rparr>"
  let ?t = "AList.update d ?row t"
  have t: "fst (rollover t d) = ?t" using new prev by (simp add: rollover_def)
  have keys: "fst ` set ?t = insert d (fst ` set t)"
    by (simp add: dom_update [unfolded dom_map_of_conv_image_fst])
  have b: "map_of t b = Some prev" "b < d" "\<forall>k\<in>fst ` set t. k < d \<longrightarrow> k \<le> b"
    using prev(1) by (simp_all add: previous_row_Some)
  show ?thesis
  proof (cases "previous_row t (e + 1)")
    case None
    then have "\<not> b < e + 1" using b(1) by (force simp: previous_row_None dest: map_of_SomeD)
    then have "\<not> d < e + 1" using b(2) by simp
    then have "previous_row ?t (e + 1) = None" using None keys by (auto simp: previous_row_None)
    with None t show ?thesis by (simp add: in_force_def)
  next
    case (Some mr)
    then obtain m r where mr: "previous_row t (e + 1) = Some (m, r)" by (cases mr) auto
    then have m: "map_of t m = Some r" "m < e + 1" "\<forall>k\<in>fst ` set t. k < e + 1 \<longrightarrow> k \<le> m"
      by (simp_all add: previous_row_Some)
    have md: "m \<noteq> d" using m(1) new by auto
    show ?thesis
    proof (cases "d < e + 1 \<and> m < d")
      case True
      have "m \<in> fst ` set t" "b \<in> fst ` set t"
        using map_of_SomeD [OF m(1)] map_of_SomeD [OF b(1)] by force+
      with True b m have "m \<le> b" "b \<le> m" by auto
      then have "m = b" by simp
      moreover have "previous_row ?t (e + 1) = Some (d, ?row)"
        using True m keys by (auto simp: previous_row_Some table_simps)
      ultimately show ?thesis using mr m(1) b(1) t by (simp add: in_force_def)
    next
      case False
      then have "previous_row ?t (e + 1) = Some (m, r)"
        using m md keys by (auto simp: previous_row_Some table_simps)
      with mr t show ?thesis by (simp add: in_force_def)
    qed
  qed
qed

section \<open>The decision\<close>

text \<open>A cap that is absent is kept by every amount.\<close>

definition below :: "int option \<Rightarrow> int \<Rightarrow> bool" where
  "below cap x = (case cap of None \<Rightarrow> True | Some c \<Rightarrow> x < c)"

definition up_to :: "int option \<Rightarrow> int \<Rightarrow> bool" where
  "up_to cap x = (case cap of None \<Rightarrow> True | Some c \<Rightarrow> x \<le> c)"

definition own_budget :: "budget_enforcer \<Rightarrow> int option" where
  "own_budget be = (if be_budget_tokens_per_day be = Some 0 then None else be_budget_tokens_per_day be)"

text \<open>The pre-call check, exactly. The global cap it applies is the one of the latest
  envelope row up to today, and writing today's row changes no day's cap. The call is refused as
  globally exhausted when the day's total has reached that cap, as exhausted when the version's
  own budget is used up, and it is \<open>ok\<close> when the total is below the cap and either the analyst
  has no budget of its own, whatever the estimate is, or the estimate fits both the budget and
  the cap.\<close>

theorem precall_check_exact:
  "let out = precall_check be envs t est d; cap = in_force envs d;
       used = analyst_used t (be_analyst_id be) (be_analyst_version be) d
   in (bd_outcome (snd out) = B_global_exhausted \<longleftrightarrow> \<not> below cap (global_used t d))
    \<and> (bd_outcome (snd out) = B_exhausted \<longleftrightarrow>
         below cap (global_used t d) \<and> \<not> below (own_budget be) used)
    \<and> (bd_outcome (snd out) = B_ok \<longleftrightarrow>
         below cap (global_used t d)
         \<and> (own_budget be = None
            \<or> (below (own_budget be) used \<and> up_to (own_budget be) (used + est)
               \<and> up_to cap (global_used t d + est))))
    \<and> (\<forall>e. in_force (fst out) e = in_force envs e)"
proof -
  obtain envs' row where r: "rollover envs d = (envs', row)" by (metis prod.exhaust)
  then have cap: "Option.bind row ge_tokens_cap = in_force envs d"
    and force: "in_force envs' e = in_force envs e" for e
    using rollover_cap [of envs d] rollover_in_force [of envs d e] by simp_all
  show ?thesis
    by (cases "in_force envs d"; cases "be_budget_tokens_per_day be")
       (auto simp: precall_check_def r cap force Let_def below_def up_to_def own_budget_def)
qed

end
