(* ===== verification/Governor.thy ===== *)
theory Governor
  imports Budget Signals
begin

text \<open>
  Action packs: the three-way resolution of \<open>agency/resolution.py\<close> (analyst grant, target
  allow-list, applicability), the tightening merge of governors, and the per-pack gate of
  \<open>agency/governor.py\<close> over the invocation ledger. The applicability predicate is evaluated by
  the predicate engine, a parameter whose answer is \<open>None\<close> when it raises. The ledger
  \<open>action_pack_invocations\<close> is the list of its rows, an id being a row's position (rows are
  never deleted). The texts \<open>reason\<close> and \<open>detail\<close> are left out. The theory ends with
  the interface of a rate gate, interpreted on both of its windows.
\<close>

section \<open>Packs\<close>

record pack_governor =
  pg_budget_account :: "py_str option"
  pg_max_invocations_per_hour :: "int option"
  pg_max_cost_usd_per_day :: "rat option"
  pg_max_sources_per_window :: "int option"
  pg_crawl_max_depth :: "int option"
  pg_crawl_max_pages :: "int option"
  pg_api_rate_per_minute :: "int option"

definition empty_governor :: pack_governor where
  "empty_governor =
     \<lparr>pg_budget_account = None, pg_max_invocations_per_hour = None, pg_max_cost_usd_per_day = None,
      pg_max_sources_per_window = None, pg_crawl_max_depth = None, pg_crawl_max_pages = None,
      pg_api_rate_per_minute = None\<rparr>"

record action_pack =
  ap_id :: py_str
  ap_version :: py_str
  ap_tools :: "py_str list"
  ap_governor :: pack_governor
  ap_applies_to_tags :: "py_str list"
  ap_applicability_predicate :: "py_str option"

record pack_ref =
  pr_pack_id :: py_str
  pr_governor_override :: "pack_governor option"

record scope_view =
  sv_target_id :: py_str
  sv_tags :: "py_str list"
  sv_geo :: "py_str list"
  sv_entity_classes :: "py_str list"
  sv_domain :: py_str
  sv_abstraction_level :: py_str

record pack_resolution =
  rs_granted :: bool
  rs_allowed :: bool
  rs_applicable :: bool
  rs_governor :: "pack_governor option"

definition effective :: "pack_resolution \<Rightarrow> bool" where
  "effective r \<longleftrightarrow> rs_granted r \<and> rs_allowed r \<and> rs_applicable r"

section \<open>Resolution\<close>

definition refs_to_map :: "pack_ref list \<Rightarrow> (py_str \<times> pack_ref) list" where
  "refs_to_map refs = fold (\<lambda>ref. AList.update (pr_pack_id ref) ref) refs []"

definition tighter :: "'a::linorder option \<Rightarrow> 'a option \<Rightarrow> 'a option" where
  "tighter a b =
     (case (a, b) of
        (None, y) \<Rightarrow> y
      | (x, None) \<Rightarrow> x
      | (Some x, Some y) \<Rightarrow> Some (min x y))"

definition merge_governor ::
  "pack_governor option \<Rightarrow> pack_governor option \<Rightarrow> pack_governor option" where
  "merge_governor base override =
     (case override of
        None \<Rightarrow> base
      | Some ov \<Rightarrow>
          (case base of
             None \<Rightarrow> Some ov
           | Some b \<Rightarrow>
               Some \<lparr>pg_budget_account =
                       (if truthy (pg_budget_account ov) then pg_budget_account ov else pg_budget_account b),
                     pg_max_invocations_per_hour =
                       tighter (pg_max_invocations_per_hour b) (pg_max_invocations_per_hour ov),
                     pg_max_cost_usd_per_day =
                       tighter (pg_max_cost_usd_per_day b) (pg_max_cost_usd_per_day ov),
                     pg_max_sources_per_window =
                       tighter (pg_max_sources_per_window b) (pg_max_sources_per_window ov),
                     pg_crawl_max_depth = tighter (pg_crawl_max_depth b) (pg_crawl_max_depth ov),
                     pg_crawl_max_pages = tighter (pg_crawl_max_pages b) (pg_crawl_max_pages ov),
                     pg_api_rate_per_minute =
                       tighter (pg_api_rate_per_minute b) (pg_api_rate_per_minute ov)\<rparr>))"

type_synonym predicate_eval = "py_str \<Rightarrow> scope_view \<Rightarrow> bool option"

definition is_applicable :: "predicate_eval \<Rightarrow> action_pack \<Rightarrow> scope_view \<Rightarrow> bool" where
  "is_applicable eval pack scope \<longleftrightarrow>
     \<not> (ap_applies_to_tags pack \<noteq> []
        \<and> set (ap_applies_to_tags pack) \<inter> set (sv_tags scope) = {})
     \<and> (if truthy (ap_applicability_predicate pack)
        then eval (the (ap_applicability_predicate pack)) scope = Some True else True)"

definition resolve_pack ::
  "predicate_eval \<Rightarrow> action_pack \<Rightarrow> pack_ref list \<Rightarrow> pack_ref list \<Rightarrow> scope_view \<Rightarrow> pack_resolution" where
  "resolve_pack eval pack analyst_grants target_allows scope =
     (let grants = refs_to_map analyst_grants;
          allows = refs_to_map target_allows;
          applicable = is_applicable eval pack scope
      in case map_of grants (ap_id pack) of
           None \<Rightarrow>
             \<lparr>rs_granted = False, rs_allowed = (map_of allows (ap_id pack) \<noteq> None),
              rs_applicable = applicable, rs_governor = None\<rparr>
         | Some g \<Rightarrow>
             (case map_of allows (ap_id pack) of
                None \<Rightarrow>
                  \<lparr>rs_granted = True, rs_allowed = False, rs_applicable = applicable, rs_governor = None\<rparr>
              | Some a \<Rightarrow>
                  if \<not> applicable
                  then \<lparr>rs_granted = True, rs_allowed = True, rs_applicable = False, rs_governor = None\<rparr>
                  else \<lparr>rs_granted = True, rs_allowed = True, rs_applicable = True,
                        rs_governor =
                          merge_governor
                            (merge_governor (Some (ap_governor pack)) (pr_governor_override a))
                            (pr_governor_override g)\<rparr>))"

section \<open>The invocation ledger and the gate\<close>

datatype invocation_outcome = I_admitted | I_completed | I_failed

record invocation =
  iv_pack_id :: py_str
  iv_pack_version :: py_str
  iv_tool_name :: py_str
  iv_budget_account :: py_str
  iv_requested_by :: py_str
  iv_tenant_id :: py_str
  iv_cost_usd :: rat
  iv_units :: int
  iv_outcome :: invocation_outcome
  iv_duration_ms :: "int option"
  iv_occurred_at :: instant

type_synonym invocations = "invocation list"

datatype block_cause =
    Cause_ok | Not_granted | Not_allowed | Not_applicable | Unknown_tool
  | Global_exhausted | Over_rate | Over_budget

datatype cap_dimension =
    Dim_global_tokens | Dim_api_rate | Dim_invocations | Dim_sources | Dim_cost

record governor_decision =
  gd_admitted :: bool
  gd_cause :: block_cause
  gd_cap_dimension :: "cap_dimension option"
  gd_cap_limit :: "rat option"
  gd_observed :: "rat option"

record pack_enforcer =
  pe_pack_id :: py_str
  pe_pack_version :: py_str
  pe_governor :: pack_governor
  pe_budget_account :: py_str
  pe_tenant_id :: py_str

definition new_enforcer ::
  "py_str \<Rightarrow> py_str \<Rightarrow> pack_governor option \<Rightarrow> py_str \<Rightarrow> py_str \<Rightarrow> pack_enforcer" where
  "new_enforcer pack version governor account tenant =
     \<lparr>pe_pack_id = pack, pe_pack_version = version,
      pe_governor = (case governor of None \<Rightarrow> empty_governor | Some g \<Rightarrow> g),
      pe_budget_account = account, pe_tenant_id = tenant\<rparr>"

definition billed :: "pack_enforcer \<Rightarrow> invocation \<Rightarrow> bool" where
  "billed pe r \<longleftrightarrow> iv_pack_id r = pe_pack_id pe \<and> iv_budget_account r = pe_budget_account pe"

definition count_since :: "pack_enforcer \<Rightarrow> invocations \<Rightarrow> int \<Rightarrow> instant \<Rightarrow> int" where
  "count_since pe t secs now =
     int (length (filter (\<lambda>r. billed pe r \<and> iv_occurred_at r \<ge> now - seconds secs) t))"

definition units_since :: "pack_enforcer \<Rightarrow> invocations \<Rightarrow> int \<Rightarrow> instant \<Rightarrow> int" where
  "units_since pe t secs now =
     sum_list (map iv_units (filter (\<lambda>r. billed pe r \<and> iv_occurred_at r \<ge> now - seconds secs) t))"

definition day_of :: "instant \<Rightarrow> day" where
  "day_of t = t div seconds 86400"

definition cost_today :: "pack_enforcer \<Rightarrow> invocations \<Rightarrow> day \<Rightarrow> rat" where
  "cost_today pe t bucket =
     sum_list (map iv_cost_usd (filter (\<lambda>r. billed pe r \<and> day_of (iv_occurred_at r) = bucket) t))"

definition global_exhausted :: "envelope_table \<Rightarrow> budget_ledger \<Rightarrow> day \<Rightarrow> bool \<times> int option \<times> int" where
  "global_exhausted envs ledger bucket =
     (case Option.bind (map_of envs bucket) ge_tokens_cap of
        None \<Rightarrow> (False, None, 0)
      | Some cap \<Rightarrow>
          (let used = global_used ledger bucket in (used \<ge> cap, Some cap, used)))"

definition blocked_by :: "block_cause \<Rightarrow> cap_dimension \<Rightarrow> rat \<Rightarrow> rat \<Rightarrow> governor_decision" where
  "blocked_by cause dimension limit observed =
     \<lparr>gd_admitted = False, gd_cause = cause, gd_cap_dimension = Some dimension, gd_cap_limit = Some limit,
      gd_observed = Some observed\<rparr>"

definition admitted_decision :: governor_decision where
  "admitted_decision =
     \<lparr>gd_admitted = True, gd_cause = Cause_ok, gd_cap_dimension = None, gd_cap_limit = None,
      gd_observed = None\<rparr>"

text \<open>Some limit is exceeded by the amount a call would reach.\<close>

definition exceeds :: "'a::linorder \<Rightarrow> 'a option \<Rightarrow> bool" where
  "exceeds x cap = (case cap of None \<Rightarrow> False | Some c \<Rightarrow> x > c)"

definition pack_precall_check ::
  "pack_enforcer \<Rightarrow> envelope_table \<Rightarrow> budget_ledger \<Rightarrow> invocations \<Rightarrow> rat \<Rightarrow> int \<Rightarrow> instant
     \<Rightarrow> governor_decision" where
  "pack_precall_check pe envs ledger t est_cost est_units now =
     (let bucket = day_of now; g = pe_governor pe;
          (exhausted, gcap, gused) = global_exhausted envs ledger bucket;
          minute = count_since pe t 60 now; hour = count_since pe t 3600 now;
          units = units_since pe t 3600 now; projected = cost_today pe t bucket + est_cost
      in if exhausted then
           blocked_by Global_exhausted Dim_global_tokens
             (of_int (case gcap of None \<Rightarrow> 0 | Some c \<Rightarrow> c)) (of_int gused)
         else if exceeds (minute + 1) (pg_api_rate_per_minute g) then
           blocked_by Over_rate Dim_api_rate (of_int (the (pg_api_rate_per_minute g))) (of_int (minute + 1))
         else if exceeds (hour + 1) (pg_max_invocations_per_hour g) then
           blocked_by Over_rate Dim_invocations (of_int (the (pg_max_invocations_per_hour g)))
             (of_int (hour + 1))
         else if exceeds (units + est_units) (pg_max_sources_per_window g) then
           blocked_by Over_rate Dim_sources (of_int (the (pg_max_sources_per_window g)))
             (of_int (units + est_units))
         else if exceeds projected (pg_max_cost_usd_per_day g) then
           blocked_by Over_budget Dim_cost (the (pg_max_cost_usd_per_day g)) projected
         else admitted_decision)"

definition record_invocation ::
  "pack_enforcer \<Rightarrow> instant \<Rightarrow> py_str \<Rightarrow> py_str \<Rightarrow> rat \<Rightarrow> int \<Rightarrow> invocations \<Rightarrow> invocations \<times> nat" where
  "record_invocation pe db_now tool requested_by cost units t =
     (t @ [\<lparr>iv_pack_id = pe_pack_id pe, iv_pack_version = pe_pack_version pe, iv_tool_name = tool,
            iv_budget_account = pe_budget_account pe, iv_requested_by = requested_by,
            iv_tenant_id = pe_tenant_id pe, iv_cost_usd = cost, iv_units = units,
            iv_outcome = I_admitted, iv_duration_ms = None, iv_occurred_at = db_now\<rparr>],
      length t)"

definition settle ::
  "nat \<Rightarrow> invocation_outcome \<Rightarrow> rat option \<Rightarrow> int option \<Rightarrow> int option \<Rightarrow> invocations \<Rightarrow> invocations" where
  "settle i oc cost units duration t =
     (if i < length t then
        t[i := (t ! i)\<lparr>iv_outcome := oc,
             iv_cost_usd := (case cost of None \<Rightarrow> iv_cost_usd (t ! i) | Some c \<Rightarrow> c),
             iv_units := (case units of None \<Rightarrow> iv_units (t ! i) | Some u \<Rightarrow> u),
             iv_duration_ms := (case duration of None \<Rightarrow> iv_duration_ms (t ! i) | Some d \<Rightarrow> Some d)\<rparr>]
      else t)"

definition reconcile_stale_admitted :: "instant \<Rightarrow> int \<Rightarrow> invocations \<Rightarrow> invocations \<times> nat" where
  "reconcile_stale_admitted db_now older t =
     (let hit = (\<lambda>r. iv_outcome r = I_admitted \<and> iv_occurred_at r < db_now - seconds older) in
      (map (\<lambda>r. if hit r then r\<lparr>iv_outcome := I_failed\<rparr> else r) t, length (filter hit t)))"

section \<open>Environment knobs\<close>

text \<open>\<open>None\<close> is an unset variable; the inner option is what \<^verbatim>\<open>int(raw)\<close> gives.\<close>

definition env_positive_int :: "int option option \<Rightarrow> int \<Rightarrow> int" where
  "env_positive_int raw fallback =
     (case raw of
        None \<Rightarrow> fallback
      | Some None \<Rightarrow> fallback
      | Some (Some v) \<Rightarrow> if v \<le> 0 then fallback else v)"

definition pack_tool_timeout_seconds :: "int option option \<Rightarrow> int" where
  "pack_tool_timeout_seconds raw = env_positive_int raw 60"

definition pack_tool_stale_reconcile_seconds :: "int option option \<Rightarrow> int" where
  "pack_tool_stale_reconcile_seconds raw = env_positive_int raw 300"

section \<open>Lemmas\<close>

text \<open>A cap at least as tight: a missing cap is the loosest.\<close>

definition at_most :: "'a::linorder option \<Rightarrow> 'a option \<Rightarrow> bool" where
  "at_most a b = (case b of None \<Rightarrow> True | Some y \<Rightarrow> (case a of None \<Rightarrow> False | Some x \<Rightarrow> x \<le> y))"

definition tightens :: "pack_governor \<Rightarrow> pack_governor \<Rightarrow> bool" where
  "tightens g h \<longleftrightarrow>
     at_most (pg_max_invocations_per_hour g) (pg_max_invocations_per_hour h)
     \<and> at_most (pg_max_cost_usd_per_day g) (pg_max_cost_usd_per_day h)
     \<and> at_most (pg_max_sources_per_window g) (pg_max_sources_per_window h)
     \<and> at_most (pg_crawl_max_depth g) (pg_crawl_max_depth h)
     \<and> at_most (pg_crawl_max_pages g) (pg_crawl_max_pages h)
     \<and> at_most (pg_api_rate_per_minute g) (pg_api_rate_per_minute h)"

lemma at_most_refl: "at_most a a"
  by (simp add: at_most_def split: option.split)

lemma at_most_trans: "at_most a b \<Longrightarrow> at_most b c \<Longrightarrow> at_most a c"
  by (auto simp: at_most_def split: option.splits)

lemma at_most_tighter: "at_most (tighter a b) a" "at_most (tighter a b) b"
  by (auto simp: at_most_def tighter_def split: option.splits)

lemma tightens_refl: "tightens g g"
  by (simp add: tightens_def at_most_refl)

lemma tightens_trans: "tightens a b \<Longrightarrow> tightens b c \<Longrightarrow> tightens a c"
  unfolding tightens_def by (blast intro: at_most_trans)

lemma merge_tightens:
  "\<exists>g. merge_governor (Some b) ov = Some g \<and> tightens g b \<and> (\<forall>o'. ov = Some o' \<longrightarrow> tightens g o')"
  by (cases ov) (auto simp: merge_governor_def tightens_refl, auto simp: tightens_def at_most_tighter)

lemma refs_fold: "map_of (fold (\<lambda>ref. AList.update (pr_pack_id ref) ref) refs t) k =
  (case List.find (\<lambda>r. pr_pack_id r = k) (rev refs) of None \<Rightarrow> map_of t k | Some r \<Rightarrow> Some r)"
proof (induction refs rule: rev_induct)
  case (snoc r refs)
  then show ?case by (simp add: table_simps)
qed simp

lemma map_of_refs: "map_of (refs_to_map refs) k = List.find (\<lambda>r. pr_pack_id r = k) (rev refs)"
  unfolding refs_to_map_def refs_fold by (simp split: option.split)

lemma refs_to_map_Some:
  "map_of (refs_to_map refs) k = Some r \<Longrightarrow> r \<in> set refs \<and> pr_pack_id r = k"
  unfolding map_of_refs by (drule find_SomeD) simp

lemma refs_to_map_None: "map_of (refs_to_map refs) k = None \<longleftrightarrow> k \<notin> pr_pack_id ` set refs"
  unfolding map_of_refs find_None_iff by auto

lemma resolve_effective:
  assumes "effective (resolve_pack eval pack grants allows scope)"
  obtains gr al gov where "gr \<in> set grants" "pr_pack_id gr = ap_id pack"
    "al \<in> set allows" "pr_pack_id al = ap_id pack" "is_applicable eval pack scope"
    "rs_governor (resolve_pack eval pack grants allows scope) = Some gov"
    "tightens gov (ap_governor pack)"
    "\<And>o'. pr_governor_override gr = Some o' \<Longrightarrow> tightens gov o'"
    "\<And>o'. pr_governor_override al = Some o' \<Longrightarrow> tightens gov o'"
proof -
  obtain gr al where m: "map_of (refs_to_map grants) (ap_id pack) = Some gr"
    "map_of (refs_to_map allows) (ap_id pack) = Some al" and ap: "is_applicable eval pack scope"
    using assms by (auto simp: resolve_pack_def effective_def Let_def split: option.splits if_splits)
  from merge_tightens obtain g1 where g1: "merge_governor (Some (ap_governor pack)) (pr_governor_override al) = Some g1"
    "tightens g1 (ap_governor pack)" "\<forall>o'. pr_governor_override al = Some o' \<longrightarrow> tightens g1 o'"
    by blast
  from merge_tightens obtain g2 where g2: "merge_governor (Some g1) (pr_governor_override gr) = Some g2"
    "tightens g2 g1" "\<forall>o'. pr_governor_override gr = Some o' \<longrightarrow> tightens g2 o'"
    by blast
  have "rs_governor (resolve_pack eval pack grants allows scope) = Some g2"
    using m ap g1(1) g2(1) by (simp add: resolve_pack_def Let_def)
  then show thesis
    using refs_to_map_Some [OF m(1)] refs_to_map_Some [OF m(2)] ap g1 g2
    by (intro that [of gr al g2]) (blast intro: tightens_trans)+
qed

lemma length_filter_mono:
  "(\<And>x. x \<in> set xs \<Longrightarrow> P x \<Longrightarrow> Q x) \<Longrightarrow> length (filter P xs) \<le> length (filter Q xs)"
  by (induction xs) auto

section \<open>The interface of a rate gate\<close>

text \<open>
  What a windowed cap relies on: the recorded times of one account, and a gate that admits only
  when the times within the window, and the call itself, fit the cap. A call is recorded at a
  time not before the one it was admitted at; other calls may have passed the gate and wait to
  be recorded. While at most \<open>m\<close> wait together, every window holds at most \<open>cap + m - 1\<close>
  recorded and waiting calls.
\<close>

definition in_window :: "instant \<Rightarrow> int \<Rightarrow> instant list \<Rightarrow> nat" where
  "in_window lo w ts = length (filter (\<lambda>x. lo \<le> x \<and> x \<le> lo + w) ts)"

definition windowed :: "int \<Rightarrow> int \<Rightarrow> instant list \<Rightarrow> bool" where
  "windowed w cap ts \<longleftrightarrow> (\<forall>lo. int (in_window lo w ts) \<le> max 0 cap)"

lemma in_window_append [simp]: "in_window lo w (xs @ ys) = in_window lo w xs + in_window lo w ys"
  by (simp add: in_window_def)

lemma in_window_simps [simp]:
  "in_window lo w [] = 0"
  "in_window lo w (x # xs) = (if lo \<le> x \<and> x \<le> lo + w then 1 else 0) + in_window lo w xs"
  by (simp_all add: in_window_def)

lemma in_window_le: "in_window lo w xs \<le> length xs"
  by (simp add: in_window_def)

lemma windowed_prefix:
  assumes "windowed w c (xs @ ys)"
  shows "windowed w c xs"
  unfolding windowed_def
proof
  fix lo
  have "int (in_window lo w (xs @ ys)) \<le> max 0 c" using assms unfolding windowed_def by blast
  then show "int (in_window lo w xs) \<le> max 0 c" by simp
qed

lemma in_window_removed:
  "j < length xs \<Longrightarrow> in_window lo w xs = in_window lo w (take j xs) + in_window lo w [xs ! j] + in_window lo w (drop (Suc j) xs)"
  by (subst id_take_nth_drop, assumption) (simp del: in_window_simps(2), simp)

locale rate_gate =
  fixes times :: "'s \<Rightarrow> instant list"
    and admits :: "'s \<Rightarrow> instant \<Rightarrow> bool"
    and w :: int
    and cap :: int
  assumes gate: "admits s t \<Longrightarrow> int (length (filter (\<lambda>x. t - w \<le> x) (times s))) + 1 \<le> cap"
begin

lemma waiting_keeps_windowed:
  assumes "windowed w (cap + int m - 1) (times s @ waiting)"
    and "admits s now" and "now \<le> t" and "length waiting < m"
  shows "windowed w (cap + int m - 1) (times s @ waiting @ [t])"
  unfolding windowed_def
proof
  fix lo
  show "int (in_window lo w (times s @ waiting @ [t])) \<le> max 0 (cap + int m - 1)"
  proof (cases "lo \<le> t \<and> t \<le> lo + w")
    case True
    have "in_window lo w (times s) \<le> length (filter (\<lambda>x. now - w \<le> x) (times s))"
      unfolding in_window_def
      by (rule length_filter_mono) (use True assms(3) in auto)
    with gate [OF assms(2)] in_window_le [of lo w "waiting @ [t]"] assms(4) show ?thesis by simp
  next
    case False
    then have "in_window lo w [t] = 0" by (auto simp: in_window_def)
    then show ?thesis using assms(1) by (simp add: windowed_def)
  qed
qed

lemma recorded_keeps_windowed:
  assumes "windowed w c (times s @ waiting)" and "j < length waiting"
    and "times s' = times s @ [waiting ! j]"
  shows "windowed w c (times s' @ take j waiting @ drop (Suc j) waiting)"
  using assms in_window_removed [OF assms(2)] by (simp add: windowed_def algebra_simps)

lemma dropped_keeps_windowed:
  assumes "windowed w c (times s @ waiting)" and "j < length waiting"
  shows "windowed w c (times s @ take j waiting @ drop (Suc j) waiting)"
  unfolding windowed_def
proof
  fix lo
  have "in_window lo w (times s @ take j waiting @ drop (Suc j) waiting) \<le> in_window lo w (times s @ waiting)"
    using in_window_removed [OF assms(2)] by simp
  with assms(1) show "int (in_window lo w (times s @ take j waiting @ drop (Suc j) waiting)) \<le> max 0 c"
    unfolding windowed_def by (meson of_nat_mono order_trans)
qed

lemma empty_windowed: "times s = [] \<Longrightarrow> windowed w c (times s @ [])"
  by (simp add: windowed_def in_window_def)

end

text \<open>The recorded times of one pack and account.\<close>

definition billed_times :: "py_str \<Rightarrow> py_str \<Rightarrow> invocations \<Rightarrow> instant list" where
  "billed_times pack account t =
     map iv_occurred_at (filter (\<lambda>r. iv_pack_id r = pack \<and> iv_budget_account r = account) t)"

lemma count_since_times:
  "count_since pe t secs now =
     int (length (filter (\<lambda>x. now - seconds secs \<le> x)
       (billed_times (pe_pack_id pe) (pe_budget_account pe) t)))"
  by (simp add: count_since_def billed_times_def billed_def filter_map o_def conj_commute)

text \<open>The two windows of one enforcer: calls admitted under minute and hour caps of its governor.\<close>

interpretation minute: rate_gate
    "billed_times (pe_pack_id pe) (pe_budget_account pe)"
    "\<lambda>t now. \<exists>envs ledger c u. gd_admitted (pack_precall_check pe envs ledger t c u now)
       \<and> at_most (pg_api_rate_per_minute (pe_governor pe)) (Some cap)"
    "seconds 60" cap
  for pe cap
proof unfold_locales
  fix t now
  assume "\<exists>envs ledger c u. gd_admitted (pack_precall_check pe envs ledger t c u now)
    \<and> at_most (pg_api_rate_per_minute (pe_governor pe)) (Some cap)"
  then obtain c where "\<not> exceeds (count_since pe t 60 now + 1) (Some c)" "c \<le> cap"
    by (auto simp: pack_precall_check_def Let_def split_beta blocked_by_def at_most_def
        split: if_splits option.splits)
  then show "int (length (filter (\<lambda>x. now - seconds 60 \<le> x)
      (billed_times (pe_pack_id pe) (pe_budget_account pe) t))) + 1 \<le> cap"
    by (simp add: exceeds_def count_since_times)
qed

interpretation hour: rate_gate
    "billed_times (pe_pack_id pe) (pe_budget_account pe)"
    "\<lambda>t now. \<exists>envs ledger c u. gd_admitted (pack_precall_check pe envs ledger t c u now)
       \<and> at_most (pg_max_invocations_per_hour (pe_governor pe)) (Some cap)"
    "seconds 3600" cap
  for pe cap
proof unfold_locales
  fix t now
  assume "\<exists>envs ledger c u. gd_admitted (pack_precall_check pe envs ledger t c u now)
    \<and> at_most (pg_max_invocations_per_hour (pe_governor pe)) (Some cap)"
  then obtain c where "\<not> exceeds (count_since pe t 3600 now + 1) (Some c)" "c \<le> cap"
    by (auto simp: pack_precall_check_def Let_def split_beta blocked_by_def at_most_def
        split: if_splits option.splits)
  then show "int (length (filter (\<lambda>x. now - seconds 3600 \<le> x)
      (billed_times (pe_pack_id pe) (pe_budget_account pe) t))) + 1 \<le> cap"
    by (simp add: exceeds_def count_since_times)
qed

end
