(* ===== verification/Agency.thy ===== *)
theory Agency
  imports Governor
begin

text \<open>
  The hard-gate pipeline of one pack-tool call, \<open>agency/agency.py\<close>, and the governor events of
  \<open>agency/events.py\<close>. The pipeline is cut where it awaits: the gate (resolve, tool known,
  govern), the admit (ledger row and allow event) and the settlement after the handler, so that
  calls can interleave there; \<open>run_pack_tool\<close> composes them and \<open>run_agency\<close> runs the steps of
  many calls in any order. What the handler does, the clocks
  and the registered handlers are arguments. The per-run receipt and the NATS telemetry are left
  out.
\<close>

section \<open>Calls and events\<close>

record tool_call =
  tc_pack_id :: py_str
  tc_tool_name :: py_str
  tc_args :: json_dict
  tc_requested_by :: py_str
  tc_budget_account :: py_str
  tc_tenant_id :: py_str

record tool_result =
  tr_status :: py_str
  tr_output :: json_dict
  tr_cost_usd :: rat
  tr_units :: int
  tr_error :: "py_str option"

datatype handler_answer = H_timeout | H_raised py_str | H_returned tool_result

datatype governor_verdict = Allow | Block

record governor_event =
  gv_pack_id :: py_str
  gv_tool_name :: py_str
  gv_budget_account :: py_str
  gv_requested_by :: py_str
  gv_tenant_id :: py_str
  gv_decision :: governor_verdict
  gv_cause :: block_cause
  gv_cap_dimension :: "cap_dimension option"
  gv_cap_limit :: "rat option"
  gv_observed_value :: "rat option"

record agency_state =
  ag_invocations :: invocations
  ag_events :: "governor_event list"

record agency_outcome =
  ao_admitted :: bool
  ao_block_cause :: "block_cause option"
  ao_resolution :: pack_resolution
  ao_tool_result :: "tool_result option"

text \<open>A call as the orchestrator gets it, with the clock readings of its run.\<close>

record pack_request =
  rq_pack :: action_pack
  rq_call :: tool_call
  rq_grants :: "pack_ref list"
  rq_allows :: "pack_ref list"
  rq_scope :: scope_view
  rq_cost :: rat
  rq_units :: int
  rq_now :: instant
  rq_db_now :: instant
  rq_elapsed_ms :: int

definition record_governor_event :: "governor_event \<Rightarrow> agency_state \<Rightarrow> agency_state" where
  "record_governor_event e st = st\<lparr>ag_events := ag_events st @ [e]\<rparr>"

definition block_call ::
  "tool_call \<Rightarrow> block_cause \<Rightarrow> cap_dimension option \<Rightarrow> rat option \<Rightarrow> rat option \<Rightarrow> py_str option
     \<Rightarrow> agency_state \<Rightarrow> agency_state" where
  "block_call call cause dimension limit observed account st =
     record_governor_event
       \<lparr>gv_pack_id = tc_pack_id call, gv_tool_name = tc_tool_name call,
        gv_budget_account = (if truthy account then the account else tc_budget_account call),
        gv_requested_by = tc_requested_by call, gv_tenant_id = tc_tenant_id call,
        gv_decision = Block, gv_cause = cause, gv_cap_dimension = dimension, gv_cap_limit = limit,
        gv_observed_value = observed\<rparr> st"

section \<open>The pipeline\<close>

definition resolution_of :: "predicate_eval \<Rightarrow> pack_request \<Rightarrow> pack_resolution" where
  "resolution_of eval rq =
     resolve_pack eval (rq_pack rq) (rq_grants rq) (rq_allows rq) (rq_scope rq)"

definition account_of :: "pack_resolution \<Rightarrow> tool_call \<Rightarrow> py_str" where
  "account_of res call =
     (let a = Option.bind (rs_governor res) pg_budget_account
      in if truthy a then the a else tc_budget_account call)"

definition enforcer_of :: "predicate_eval \<Rightarrow> pack_request \<Rightarrow> pack_enforcer" where
  "enforcer_of eval rq =
     (let res = resolution_of eval rq
      in new_enforcer (ap_id (rq_pack rq)) (ap_version (rq_pack rq)) (rs_governor res)
           (account_of res (rq_call rq)) (tc_tenant_id (rq_call rq)))"

definition denied_cause :: "pack_resolution \<Rightarrow> block_cause" where
  "denied_cause res =
     (if \<not> rs_granted res then Not_granted else if \<not> rs_allowed res then Not_allowed else Not_applicable)"

definition blocked_outcome :: "block_cause \<Rightarrow> pack_resolution \<Rightarrow> agency_outcome" where
  "blocked_outcome cause res =
     \<lparr>ao_admitted = False, ao_block_cause = Some cause, ao_resolution = res, ao_tool_result = None\<rparr>"

text \<open>Steps 1 to 3; \<open>Inl\<close> is a block, with its event written.\<close>

definition gate_pack_tool ::
  "predicate_eval \<Rightarrow> (py_str \<times> 'h) list \<Rightarrow> envelope_table \<Rightarrow> budget_ledger \<Rightarrow> pack_request
     \<Rightarrow> agency_state \<Rightarrow> (agency_state \<times> agency_outcome) + 'h" where
  "gate_pack_tool eval handlers envs ledger rq st =
     (let call = rq_call rq; res = resolution_of eval rq
      in if \<not> effective res then
           Inl (block_call call (denied_cause res) None None None None st,
                blocked_outcome (denied_cause res) res)
         else if tc_tool_name call \<notin> set (ap_tools (rq_pack rq)) then
           Inl (block_call call Unknown_tool None None None None st, blocked_outcome Unknown_tool res)
         else (case map_of handlers (tc_tool_name call) of
           None \<Rightarrow>
             Inl (block_call call Unknown_tool None None None None st, blocked_outcome Unknown_tool res)
         | Some h \<Rightarrow>
             (let pe = enforcer_of eval rq;
                  d = pack_precall_check pe envs ledger (ag_invocations st) (rq_cost rq) (rq_units rq)
                        (rq_now rq)
              in if \<not> gd_admitted d then
                   Inl (block_call call (gd_cause d) (gd_cap_dimension d) (gd_cap_limit d) (gd_observed d)
                          (Some (pe_budget_account pe)) st,
                        blocked_outcome (gd_cause d) res)
                 else Inr h)))"

text \<open>Step 4.\<close>

definition admit_pack_tool ::
  "predicate_eval \<Rightarrow> pack_request \<Rightarrow> agency_state \<Rightarrow> agency_state \<times> nat" where
  "admit_pack_tool eval rq st =
     (let pe = enforcer_of eval rq; call = rq_call rq;
          (t, i) = record_invocation pe (rq_db_now rq) (tc_tool_name call) (tc_requested_by call)
                     (rq_cost rq) (rq_units rq) (ag_invocations st)
      in (record_governor_event
            \<lparr>gv_pack_id = ap_id (rq_pack rq), gv_tool_name = tc_tool_name call,
             gv_budget_account = pe_budget_account pe, gv_requested_by = tc_requested_by call,
             gv_tenant_id = tc_tenant_id call, gv_decision = Allow, gv_cause = Cause_ok,
             gv_cap_dimension = None, gv_cap_limit = None, gv_observed_value = None\<rparr>
            (st\<lparr>ag_invocations := t\<rparr>), i))"

definition failed_result :: "py_str \<Rightarrow> tool_result" where
  "failed_result err =
     \<lparr>tr_status = ''failed'', tr_output = [], tr_cost_usd = 0, tr_units = 1, tr_error = Some err\<rparr>"

definition completed_statuses :: "py_str list" where
  "completed_statuses = [''enqueued'', ''emitted'', ''noop'', ''completed'']"

text \<open>Steps 5 and 6, after the handler; the timeout is in seconds.\<close>

definition conclude_pack_tool ::
  "int \<Rightarrow> pack_request \<Rightarrow> pack_resolution \<Rightarrow> nat \<Rightarrow> handler_answer \<Rightarrow> agency_state
     \<Rightarrow> agency_state \<times> agency_outcome" where
  "conclude_pack_tool timeout rq res i answer st =
     (let admitted = (\<lambda>r. \<lparr>ao_admitted = True, ao_block_cause = None, ao_resolution = res,
                           ao_tool_result = Some r\<rparr>);
          stamp = (\<lambda>oc cost units. st\<lparr>ag_invocations :=
                     settle i oc cost units (Some (rq_elapsed_ms rq)) (ag_invocations st)\<rparr>)
      in case answer of
           H_timeout \<Rightarrow>
             (stamp I_failed None None,
              admitted (failed_result (''handler timeout after '' @ show_nat (nat timeout) @ ''s'')))
         | H_raised err \<Rightarrow> (stamp I_failed None None, admitted (failed_result err))
         | H_returned r \<Rightarrow>
             (stamp (if tr_status r \<in> set completed_statuses then I_completed else I_failed)
                (if tr_cost_usd r \<noteq> 0 then Some (tr_cost_usd r) else None)
                (if tr_units r \<noteq> 0 then Some (tr_units r) else None),
              admitted r))"

definition run_pack_tool ::
  "predicate_eval \<Rightarrow> (py_str \<times> 'h) list \<Rightarrow> ('h \<Rightarrow> tool_call \<Rightarrow> handler_answer) \<Rightarrow> int
     \<Rightarrow> envelope_table \<Rightarrow> budget_ledger \<Rightarrow> pack_request \<Rightarrow> agency_state
     \<Rightarrow> agency_state \<times> agency_outcome" where
  "run_pack_tool eval handlers invoke timeout envs ledger rq st =
     (case gate_pack_tool eval handlers envs ledger rq st of
        Inl blocked \<Rightarrow> blocked
      | Inr h \<Rightarrow>
          (let (st1, i) = admit_pack_tool eval rq st
           in conclude_pack_tool timeout rq (resolution_of eval rq) i (invoke h (rq_call rq)) st1))"

text \<open>
  Many calls at once. The pipeline yields between the check and the ledger insert and again at
  the handler, so the steps of different calls interleave: calls that passed the gate wait to be
  recorded, recorded ones wait for their handlers. A waiting call can be cancelled, a recorded one can
  never conclude, and the sweep of stale rows runs at any time. A \<open>Check\<close> reads the token
  ledger of its moment.
\<close>

record agency_run =
  ar_state :: agency_state
  ar_waiting :: "pack_request list"
  ar_running :: "(pack_request \<times> nat) list"

datatype agency_event =
    Check envelope_table budget_ledger pack_request
  | Admit nat
  | Cancel nat
  | Conclude nat handler_answer
  | Sweep instant int

definition without :: "nat \<Rightarrow> 'a list \<Rightarrow> 'a list" where
  "without j xs = take j xs @ drop (Suc j) xs"

fun agency_step ::
  "predicate_eval \<Rightarrow> (py_str \<times> 'h) list \<Rightarrow> int \<Rightarrow> agency_event \<Rightarrow> agency_run \<Rightarrow> agency_run" where
  "agency_step eval handlers timeout (Check envs ledger rq) s =
     (case gate_pack_tool eval handlers envs ledger rq (ar_state s) of
        Inl (st, _) \<Rightarrow> s\<lparr>ar_state := st\<rparr>
      | Inr _ \<Rightarrow> s\<lparr>ar_waiting := ar_waiting s @ [rq]\<rparr>)"
| "agency_step eval handlers timeout (Admit j) s =
     (if j < length (ar_waiting s)
      then let rq = ar_waiting s ! j; (st, i) = admit_pack_tool eval rq (ar_state s)
           in \<lparr>ar_state = st, ar_waiting = without j (ar_waiting s), ar_running = ar_running s @ [(rq, i)]\<rparr>
      else s)"
| "agency_step eval handlers timeout (Cancel j) s =
     (if j < length (ar_waiting s) then s\<lparr>ar_waiting := without j (ar_waiting s)\<rparr> else s)"
| "agency_step eval handlers timeout (Conclude j answer) s =
     (if j < length (ar_running s)
      then let (rq, i) = ar_running s ! j
           in s\<lparr>ar_state := fst (conclude_pack_tool timeout rq (resolution_of eval rq) i answer (ar_state s)),
                ar_running := without j (ar_running s)\<rparr>
      else s)"
| "agency_step eval handlers timeout (Sweep db_now older) s =
     s\<lparr>ar_state := (ar_state s)\<lparr>ag_invocations := fst (reconcile_stale_admitted db_now older (ag_invocations (ar_state s)))\<rparr>\<rparr>"

definition run_agency ::
  "predicate_eval \<Rightarrow> (py_str \<times> 'h) list \<Rightarrow> int \<Rightarrow> agency_event list \<Rightarrow> agency_run \<Rightarrow> agency_run" where
  "run_agency eval handlers timeout evs s = foldl (\<lambda>s e. agency_step eval handlers timeout e s) s evs"

text \<open>A call whose steps nothing interrupts is \<open>run_pack_tool\<close>.\<close>

definition at_rest :: "agency_state \<Rightarrow> agency_run" where
  "at_rest st = \<lparr>ar_state = st, ar_waiting = [], ar_running = []\<rparr>"

lemma uninterrupted_call:
  assumes "gate_pack_tool eval handlers envs ledger rq st = Inr h"
  shows "run_agency eval handlers timeout [Check envs ledger rq, Admit 0, Conclude 0 (invoke h (rq_call rq))] (at_rest st)
    = at_rest (fst (run_pack_tool eval handlers invoke timeout envs ledger rq st))"
  using assms by (simp add: run_agency_def at_rest_def run_pack_tool_def without_def split_beta Let_def)

section \<open>One call, accounted\<close>

definition admissible ::
  "predicate_eval \<Rightarrow> (py_str \<times> 'h) list \<Rightarrow> envelope_table \<Rightarrow> budget_ledger \<Rightarrow> pack_request
     \<Rightarrow> agency_state \<Rightarrow> bool" where
  "admissible eval handlers envs ledger rq st \<longleftrightarrow>
     effective (resolution_of eval rq)
     \<and> tc_tool_name (rq_call rq) \<in> set (ap_tools (rq_pack rq))
     \<and> map_of handlers (tc_tool_name (rq_call rq)) \<noteq> None
     \<and> gd_admitted (pack_precall_check (enforcer_of eval rq) envs ledger (ag_invocations st)
          (rq_cost rq) (rq_units rq) (rq_now rq))"

lemma gate_Inr:
  "gate_pack_tool eval handlers envs ledger rq st = Inr h \<longleftrightarrow>
     admissible eval handlers envs ledger rq st \<and> map_of handlers (tc_tool_name (rq_call rq)) = Some h"
  by (auto simp: gate_pack_tool_def admissible_def Let_def split: option.splits if_splits)

lemma gate_Inl:
  assumes "gate_pack_tool eval handlers envs ledger rq st = Inl (st', oc)"
  shows "\<exists>e cause. st' = st\<lparr>ag_events := ag_events st @ [e]\<rparr> \<and> gv_decision e = Block
    \<and> gv_tool_name e = tc_tool_name (rq_call rq) \<and> gv_cause e = cause
    \<and> oc = blocked_outcome cause (resolution_of eval rq)"
  using assms
  by (auto simp: gate_pack_tool_def block_call_def record_governor_event_def Let_def
      split: option.splits if_splits)

text \<open>The row an admitted call leaves.\<close>

definition settled_row :: "predicate_eval \<Rightarrow> pack_request \<Rightarrow> handler_answer \<Rightarrow> invocation" where
  "settled_row eval rq answer =
     (let pe = enforcer_of eval rq
      in \<lparr>iv_pack_id = ap_id (rq_pack rq), iv_pack_version = ap_version (rq_pack rq),
          iv_tool_name = tc_tool_name (rq_call rq), iv_budget_account = pe_budget_account pe,
          iv_requested_by = tc_requested_by (rq_call rq), iv_tenant_id = tc_tenant_id (rq_call rq),
          iv_cost_usd = (case answer of H_returned r \<Rightarrow> if tr_cost_usd r \<noteq> 0 then tr_cost_usd r else rq_cost rq
                         | _ \<Rightarrow> rq_cost rq),
          iv_units = (case answer of H_returned r \<Rightarrow> if tr_units r \<noteq> 0 then tr_units r else rq_units rq
                      | _ \<Rightarrow> rq_units rq),
          iv_outcome = (case answer of
              H_returned r \<Rightarrow> if tr_status r \<in> set completed_statuses then I_completed else I_failed
            | _ \<Rightarrow> I_failed),
          iv_duration_ms = Some (rq_elapsed_ms rq), iv_occurred_at = rq_db_now rq\<rparr>)"

lemma run_admitted:
  assumes "gate_pack_tool eval handlers envs ledger rq st = Inr h"
  shows "ag_invocations (fst (run_pack_tool eval handlers invoke timeout envs ledger rq st))
      = ag_invocations st @ [settled_row eval rq (invoke h (rq_call rq))]
    \<and> (\<exists>e. ag_events (fst (run_pack_tool eval handlers invoke timeout envs ledger rq st))
        = ag_events st @ [e] \<and> gv_decision e = Allow \<and> gv_tool_name e = tc_tool_name (rq_call rq))
    \<and> ao_admitted (snd (run_pack_tool eval handlers invoke timeout envs ledger rq st))
    \<and> ao_tool_result (snd (run_pack_tool eval handlers invoke timeout envs ledger rq st)) \<noteq> None"
  using assms
  by (cases "invoke h (rq_call rq)")
     (simp_all add: run_pack_tool_def admit_pack_tool_def conclude_pack_tool_def record_invocation_def
       record_governor_event_def settle_def settled_row_def new_enforcer_def enforcer_of_def Let_def)

text \<open>C27: The hard gate. A pack-tool call is dispatched exactly when the pack is effective for
  the analyst and the target, the tool is named on the pack and registered, and the governor
  admits it. A blocked call leaves the invocation ledger as it was, writes exactly one block
  event and has no result; an admitted one leaves exactly one new row, already settled, never
  \<open>admitted\<close>, with the committed estimate kept where the handler reports no cost or units of
  its own, and writes exactly one allow event.\<close>

theorem hard_gate:
  "let run = run_pack_tool eval handlers invoke timeout envs ledger rq st
   in ao_admitted (snd run) = admissible eval handlers envs ledger rq st
      \<and> (if admissible eval handlers envs ledger rq st
         then (\<exists>h e. map_of handlers (tc_tool_name (rq_call rq)) = Some h
                 \<and> ag_invocations (fst run)
                     = ag_invocations st @ [settled_row eval rq (invoke h (rq_call rq))]
                 \<and> iv_outcome (settled_row eval rq (invoke h (rq_call rq))) \<noteq> I_admitted
                 \<and> ag_events (fst run) = ag_events st @ [e] \<and> gv_decision e = Allow
                 \<and> ao_tool_result (snd run) \<noteq> None)
         else (\<exists>e. fst run = st\<lparr>ag_events := ag_events st @ [e]\<rparr> \<and> gv_decision e = Block
                 \<and> ao_block_cause (snd run) = Some (gv_cause e) \<and> ao_tool_result (snd run) = None))"
proof (cases "gate_pack_tool eval handlers envs ledger rq st")
  case (Inl b)
  then obtain st' oc where b: "gate_pack_tool eval handlers envs ledger rq st = Inl (st', oc)"
    by (cases b) auto
  have "\<not> admissible eval handlers envs ledger rq st"
  proof
    assume ad: "admissible eval handlers envs ledger rq st"
    then obtain h where "map_of handlers (tc_tool_name (rq_call rq)) = Some h"
      unfolding admissible_def by blast
    with ad have "gate_pack_tool eval handlers envs ledger rq st = Inr h" by (simp add: gate_Inr)
    with b show False by simp
  qed
  with gate_Inl [OF b] b show ?thesis
    by (auto simp: run_pack_tool_def Let_def blocked_outcome_def)
next
  case (Inr h)
  then have ad: "admissible eval handlers envs ledger rq st"
    and h: "map_of handlers (tc_tool_name (rq_call rq)) = Some h" by (simp_all add: gate_Inr)
  have oc: "iv_outcome (settled_row eval rq (invoke h (rq_call rq))) \<noteq> I_admitted"
    by (simp add: settled_row_def Let_def split: handler_answer.split)
  from run_admitted [OF Inr, of invoke timeout] ad h oc show ?thesis unfolding Let_def by auto
qed

section \<open>The rate windows\<close>

definition rate_cap :: "predicate_eval \<Rightarrow> pack_request \<Rightarrow> int option" where
  "rate_cap eval rq = pg_api_rate_per_minute (pe_governor (enforcer_of eval rq))"

definition bills :: "predicate_eval \<Rightarrow> py_str \<Rightarrow> py_str \<Rightarrow> pack_request \<Rightarrow> bool" where
  "bills eval pack account rq \<longleftrightarrow>
     ap_id (rq_pack rq) = pack \<and> pe_budget_account (enforcer_of eval rq) = account"

text \<open>The times at which the waiting calls of a pack and an account will be recorded.\<close>

definition waiting_times :: "predicate_eval \<Rightarrow> py_str \<Rightarrow> py_str \<Rightarrow> agency_run \<Rightarrow> instant list" where
  "waiting_times eval p a s = map rq_db_now (filter (bills eval p a) (ar_waiting s))"

text \<open>The most calls of the pair that ever waited together.\<close>

fun most_waiting ::
  "predicate_eval \<Rightarrow> (py_str \<times> 'h) list \<Rightarrow> int \<Rightarrow> py_str \<Rightarrow> py_str \<Rightarrow> agency_event list \<Rightarrow> agency_run \<Rightarrow> nat" where
  "most_waiting eval handlers timeout p a [] s = length (waiting_times eval p a s)"
| "most_waiting eval handlers timeout p a (e # evs) s =
     max (length (waiting_times eval p a s))
         (most_waiting eval handlers timeout p a evs (agency_step eval handlers timeout e s))"

text \<open>A request of the pack under the pack's own cap, recorded not before it was checked.\<close>

definition capped :: "(pack_governor \<Rightarrow> int option) \<Rightarrow> py_str \<Rightarrow> int \<Rightarrow> agency_event \<Rightarrow> bool" where
  "capped cap_of pack cap e =
     (case e of
        Check _ _ rq \<Rightarrow> rq_now rq \<le> rq_db_now rq
          \<and> (ap_id (rq_pack rq) = pack \<longrightarrow> cap_of (ap_governor (rq_pack rq)) = Some cap)
      | _ \<Rightarrow> True)"

lemma enforcer_pack: "pe_pack_id (enforcer_of eval rq) = ap_id (rq_pack rq)"
  by (simp add: enforcer_of_def new_enforcer_def Let_def)

lemma enforcer_tightens:
  assumes "effective (resolution_of eval rq)"
  shows "tightens (pe_governor (enforcer_of eval rq)) (ap_governor (rq_pack rq))"
  using assms unfolding resolution_of_def
  by (rule resolve_effective) (simp add: enforcer_of_def new_enforcer_def resolution_of_def Let_def)

lemma billed_times_keys:
  "map (\<lambda>r. (iv_pack_id r, iv_budget_account r, iv_occurred_at r)) t
     = map (\<lambda>r. (iv_pack_id r, iv_budget_account r, iv_occurred_at r)) t'
   \<Longrightarrow> billed_times p a t = billed_times p a t'"
proof (induction t arbitrary: t')
  case (Cons r t)
  then show ?case by (cases t') (auto simp: billed_times_def)
qed (simp add: billed_times_def)

lemma settled_times: "billed_times p a (settle i oc cost units dur t) = billed_times p a t"
  by (rule billed_times_keys) (auto simp: settle_def map_update list_update_same_conv intro!: nth_equalityI)

lemma swept_times: "billed_times p a (fst (reconcile_stale_admitted db_now older t)) = billed_times p a t"
  by (rule billed_times_keys) (simp add: reconcile_stale_admitted_def Let_def)

lemma concluded_times:
  "billed_times p a (ag_invocations (fst (conclude_pack_tool timeout rq res i answer st)))
   = billed_times p a (ag_invocations st)"
  by (cases answer) (simp_all add: conclude_pack_tool_def Let_def settled_times)

lemma admitted_times:
  "billed_times p a (ag_invocations (fst (admit_pack_tool eval rq st)))
   = billed_times p a (ag_invocations st) @ (if bills eval p a rq then [rq_db_now rq] else [])"
  by (simp add: admit_pack_tool_def record_invocation_def record_governor_event_def bills_def
      enforcer_pack billed_times_def Let_def)

lemma gate_blocked_times:
  "gate_pack_tool eval handlers envs ledger rq st = Inl (st', oc) \<Longrightarrow> ag_invocations st' = ag_invocations st"
  using gate_Inl by fastforce

text \<open>Removing a call from the waiting ones removes its time, if it bills the pair.\<close>

lemma without_waiting:
  assumes "j < length xs"
  shows "(\<not> P (xs ! j) \<and> map f (filter P (without j xs)) = map f (filter P xs))
    \<or> (P (xs ! j) \<and> (\<exists>k < length (map f (filter P xs)). map f (filter P xs) ! k = f (xs ! j)
          \<and> map f (filter P (without j xs))
              = take k (map f (filter P xs)) @ drop (Suc k) (map f (filter P xs))))"
proof (cases "P (xs ! j)")
  case True
  let ?k = "length (filter P (take j xs))"
  have "map f (filter P xs) = map f (filter P (take j xs)) @ f (xs ! j) # map f (filter P (drop (Suc j) xs))"
    by (subst id_take_nth_drop [OF assms]) (simp add: True)
  then show ?thesis
    using True by (intro disjI2 conjI exI [of _ ?k]) (simp_all add: without_def nth_append)
next
  case False
  then show ?thesis
    by (subst (3) id_take_nth_drop [OF assms]) (simp add: without_def)
qed

subsection \<open>One window\<close>

text \<open>
  A rate gate on the ledger's times of a pair, whose law every call that passes the pipeline's
  gate and bills the pair meets. Recorded and waiting times together keep the window.
\<close>

locale call_window = rate_gate "billed_times p a" admits w cap
  for p a and admits :: "invocations \<Rightarrow> instant \<Rightarrow> bool" and w cap +
  fixes eval :: predicate_eval and handlers :: "(py_str \<times> 'h) list" and ok :: "agency_event \<Rightarrow> bool"
  assumes checked: "ok (Check envs ledger rq) \<Longrightarrow> gate_pack_tool eval handlers envs ledger rq st = Inr h
    \<Longrightarrow> bills eval p a rq \<Longrightarrow> admits (ag_invocations st) (rq_now rq) \<and> rq_now rq \<le> rq_db_now rq"
begin

definition kept :: "int \<Rightarrow> agency_run \<Rightarrow> bool" where
  "kept c s = windowed w c (billed_times p a (ag_invocations (ar_state s)) @ waiting_times eval p a s)"

lemma check_keeps:
  assumes k: "kept (cap + int m - 1) s" and ok: "ok (Check envs ledger rq)"
    and m: "length (waiting_times eval p a (agency_step eval handlers timeout (Check envs ledger rq) s)) \<le> m"
  shows "kept (cap + int m - 1) (agency_step eval handlers timeout (Check envs ledger rq) s)"
proof (cases "gate_pack_tool eval handlers envs ledger rq (ar_state s)")
  case (Inl b)
  then show ?thesis
    using k by (cases b) (simp add: kept_def gate_blocked_times waiting_times_def)
next
  case (Inr h)
  then have s': "agency_step eval handlers timeout (Check envs ledger rq) s = s\<lparr>ar_waiting := ar_waiting s @ [rq]\<rparr>"
    by simp
  show ?thesis
  proof (cases "bills eval p a rq")
    case True
    then have "length (waiting_times eval p a s) < m" using m unfolding s' by (simp add: waiting_times_def)
    from waiting_keeps_windowed [OF k [unfolded kept_def] _ _ this] checked [OF ok Inr True] True show ?thesis
      unfolding s' by (auto simp: kept_def waiting_times_def)
  qed (use k s' in \<open>simp add: kept_def waiting_times_def\<close>)
qed

lemma admit_keeps: "kept c s \<Longrightarrow> kept c (agency_step eval handlers timeout (Admit j) s)"
proof (cases "j < length (ar_waiting s)")
  case True
  assume k: "kept c s"
  from without_waiting [OF True, of "bills eval p a" rq_db_now] show ?thesis
  proof (elim disjE conjE exE)
    fix i
    assume i: "i < length (map rq_db_now (filter (bills eval p a) (ar_waiting s)))"
      "map rq_db_now (filter (bills eval p a) (ar_waiting s)) ! i = rq_db_now (ar_waiting s ! j)"
      "map rq_db_now (filter (bills eval p a) (without j (ar_waiting s)))
        = take i (map rq_db_now (filter (bills eval p a) (ar_waiting s)))
          @ drop (Suc i) (map rq_db_now (filter (bills eval p a) (ar_waiting s)))"
      and b: "bills eval p a (ar_waiting s ! j)"
    have "billed_times p a (ag_invocations (fst (admit_pack_tool eval (ar_waiting s ! j) (ar_state s))))
        = billed_times p a (ag_invocations (ar_state s)) @ [waiting_times eval p a s ! i]"
      using b i(2) by (simp add: admitted_times waiting_times_def)
    from recorded_keeps_windowed [OF k [unfolded kept_def] i(1) [folded waiting_times_def] this] i(3) True
    show ?thesis by (simp add: kept_def waiting_times_def Let_def split_beta)
  next
    assume "\<not> bills eval p a (ar_waiting s ! j)"
      "map rq_db_now (filter (bills eval p a) (without j (ar_waiting s)))
        = map rq_db_now (filter (bills eval p a) (ar_waiting s))"
    then show ?thesis using k True by (simp add: kept_def waiting_times_def Let_def split_beta admitted_times)
  qed
qed simp

lemma cancel_keeps: "kept c s \<Longrightarrow> kept c (agency_step eval handlers timeout (Cancel j) s)"
proof (cases "j < length (ar_waiting s)")
  case True
  assume k: "kept c s"
  from without_waiting [OF True, of "bills eval p a" rq_db_now] show ?thesis
    using k True dropped_keeps_windowed [OF k [unfolded kept_def]]
    by (elim disjE conjE exE) (simp_all add: kept_def waiting_times_def)
qed simp

lemma step_keeps:
  assumes "kept (cap + int m - 1) s" and "ok e"
    and "length (waiting_times eval p a (agency_step eval handlers timeout e s)) \<le> m"
  shows "kept (cap + int m - 1) (agency_step eval handlers timeout e s)"
proof (cases e)
  case (Conclude j answer)
  show ?thesis
    using assms(1) unfolding Conclude kept_def waiting_times_def
    by (cases "ar_running s ! j") (simp add: concluded_times)
next
  case (Sweep db_now older)
  show ?thesis
    using assms(1) unfolding Sweep kept_def waiting_times_def by (simp add: swept_times)
qed (use assms check_keeps admit_keeps cancel_keeps in \<open>simp_all del: agency_step.simps\<close>)

lemma run_keeps:
  assumes "kept (cap + int m - 1) s" and "list_all ok evs"
    and "most_waiting eval handlers timeout p a evs s \<le> m"
  shows "kept (cap + int m - 1) (run_agency eval handlers timeout evs s)"
  using assms
proof (induction evs arbitrary: s)
  case (Cons e evs)
  have rest: "most_waiting eval handlers timeout p a evs (agency_step eval handlers timeout e s) \<le> m"
    using Cons.prems(3) by simp
  then have "length (waiting_times eval p a (agency_step eval handlers timeout e s)) \<le> m"
    by (cases evs) auto
  with Cons.prems(1,2) have "kept (cap + int m - 1) (agency_step eval handlers timeout e s)"
    by (intro step_keeps) simp_all
  from Cons.IH [OF this _ rest] Cons.prems(2) show ?case by (simp add: run_agency_def)
qed (simp add: run_agency_def)

lemma kept_ledger: "kept c s \<Longrightarrow> windowed w c (billed_times p a (ag_invocations (ar_state s)))"
  unfolding kept_def by (rule windowed_prefix)

lemma run_from_empty:
  assumes "ag_invocations st = []" and "list_all ok evs"
  shows "windowed w (cap + int (most_waiting eval handlers timeout p a evs (at_rest st)) - 1)
    (billed_times p a (ag_invocations (ar_state (run_agency eval handlers timeout evs (at_rest st)))))"
proof -
  have "kept c (at_rest st)" for c
    using assms(1) by (simp add: kept_def at_rest_def waiting_times_def windowed_def billed_times_def)
  from kept_ledger [OF run_keeps [OF this assms(2) order_refl]] show ?thesis .
qed

end

definition passes :: "(pack_governor \<Rightarrow> int option) \<Rightarrow> py_str \<Rightarrow> py_str \<Rightarrow> int \<Rightarrow> invocations \<Rightarrow> instant \<Rightarrow> bool" where
  "passes cap_of p a cap t now =
     (\<exists>pe envs ledger c u. pe_pack_id pe = p \<and> pe_budget_account pe = a
        \<and> gd_admitted (pack_precall_check pe envs ledger t c u now) \<and> at_most (cap_of (pe_governor pe)) (Some cap))"

lemma checked_passes:
  assumes "capped cap_of p cap (Check envs ledger rq)" and "gate_pack_tool eval handlers envs ledger rq st = Inr h"
    and "bills eval p a rq"
    and mono: "\<And>g g'. tightens g g' \<Longrightarrow> at_most (cap_of g) (cap_of g')"
  shows "passes cap_of p a cap (ag_invocations st) (rq_now rq) \<and> rq_now rq \<le> rq_db_now rq"
proof -
  have ad: "admissible eval handlers envs ledger rq st" using assms(2) by (simp add: gate_Inr)
  have "at_most (cap_of (pe_governor (enforcer_of eval rq))) (cap_of (ap_governor (rq_pack rq)))"
    using ad by (intro mono enforcer_tightens) (simp add: admissible_def)
  then show ?thesis
    using ad assms(1,3) unfolding passes_def
    by (intro conjI exI [of _ "enforcer_of eval rq"] exI)
      (auto simp: capped_def bills_def enforcer_pack admissible_def)
qed

interpretation minute_calls: call_window p a "passes pg_api_rate_per_minute p a cap" "seconds 60" cap eval handlers
    "capped pg_api_rate_per_minute p cap"
  for p a cap eval handlers
proof unfold_locales
  fix t now
  assume "passes pg_api_rate_per_minute p a cap t now"
  then show "int (length (filter (\<lambda>x. now - seconds 60 \<le> x) (billed_times p a t))) + 1 \<le> cap"
    unfolding passes_def using minute.gate by blast
next
  fix envs ledger rq st and h :: 'a
  assume "capped pg_api_rate_per_minute p cap (Check envs ledger rq)"
    "gate_pack_tool eval handlers envs ledger rq st = Inr h" "bills eval p a rq"
  then show "passes pg_api_rate_per_minute p a cap (ag_invocations st) (rq_now rq) \<and> rq_now rq \<le> rq_db_now rq"
    by (rule checked_passes) (simp add: tightens_def)
qed

interpretation hour_calls: call_window p a "passes pg_max_invocations_per_hour p a cap" "seconds 3600" cap eval handlers
    "capped pg_max_invocations_per_hour p cap"
  for p a cap eval handlers
proof unfold_locales
  fix t now
  assume "passes pg_max_invocations_per_hour p a cap t now"
  then show "int (length (filter (\<lambda>x. now - seconds 3600 \<le> x) (billed_times p a t))) + 1 \<le> cap"
    unfolding passes_def using hour.gate by blast
next
  fix envs ledger rq st and h :: 'a
  assume "capped pg_max_invocations_per_hour p cap (Check envs ledger rq)"
    "gate_pack_tool eval handlers envs ledger rq st = Inr h" "bills eval p a rq"
  then show "passes pg_max_invocations_per_hour p a cap (ag_invocations st) (rq_now rq) \<and> rq_now rq \<le> rq_db_now rq"
    by (rule checked_passes) (simp add: tightens_def)
qed

text \<open>C12: The rate caps hold over sliding windows, not only at the moment of the check, up to
  the overlap of calls. Over any interleaving of the steps of any calls, with cancellations,
  crashes and sweeps, from an empty ledger: if the pack's own governor sets the minute and the hour cap
  (overrides may only tighten them) and no call is recorded before it was checked, then no
  minute and no hour, wherever it starts, holds more invocations of that pack on one account
  than its cap plus the other calls that had passed the gate and were not yet recorded; with
  calls that never overlap there, it is the cap itself.\<close>

theorem rate_windows_hold:
  assumes "list_all (capped pg_api_rate_per_minute p per_minute) evs"
    and "list_all (capped pg_max_invocations_per_hour p per_hour) evs"
    and "ag_invocations st = []"
    and "t = ag_invocations (ar_state (run_agency eval handlers timeout evs (at_rest st)))"
    and "m = most_waiting eval handlers timeout p a evs (at_rest st)"
  shows "windowed (seconds 60) (per_minute + int m - 1) (billed_times p a t)
    \<and> windowed (seconds 3600) (per_hour + int m - 1) (billed_times p a t)"
  using minute_calls.run_from_empty [OF assms(3,1)] hour_calls.run_from_empty [OF assms(3,2)]
  unfolding assms(4,5) by blast

definition demo_governor :: pack_governor where
  "demo_governor = empty_governor\<lparr>pg_api_rate_per_minute := Some 1, pg_max_invocations_per_hour := Some 2\<rparr>"

definition demo_pack :: action_pack where
  "demo_pack =
     \<lparr>ap_id = ''discovery'', ap_version = ''v1'', ap_tools = [''web_search''],
      ap_governor = demo_governor, ap_applies_to_tags = [], ap_applicability_predicate = None\<rparr>"

definition demo_scope :: scope_view where
  "demo_scope =
     \<lparr>sv_target_id = ''t'', sv_tags = [], sv_geo = [], sv_entity_classes = [], sv_domain = [],
      sv_abstraction_level = ''L1''\<rparr>"

definition demo_call :: tool_call where
  "demo_call =
     \<lparr>tc_pack_id = ''discovery'', tc_tool_name = ''web_search'', tc_args = [],
      tc_requested_by = ''a'', tc_budget_account = ''system'', tc_tenant_id = ''default''\<rparr>"

definition demo_request :: "pack_governor option \<Rightarrow> instant \<Rightarrow> pack_request" where
  "demo_request override now =
     \<lparr>rq_pack = demo_pack, rq_call = demo_call,
      rq_grants = [\<lparr>pr_pack_id = ''discovery'', pr_governor_override = override\<rparr>],
      rq_allows = [\<lparr>pr_pack_id = ''discovery'', pr_governor_override = None\<rparr>],
      rq_scope = demo_scope, rq_cost = 0, rq_units = 1, rq_now = now, rq_db_now = now,
      rq_elapsed_ms = 3\<rparr>"

definition demo_handlers :: "(py_str \<times> nat) list" where
  "demo_handlers = [(''web_search'', 0)]"

definition demo_answer :: "nat \<Rightarrow> tool_call \<Rightarrow> handler_answer" where
  "demo_answer h call = H_timeout"

definition idle :: agency_state where
  "idle = \<lparr>ag_invocations = [], ag_events = []\<rparr>"

abbreviation demo_run :: "agency_event list \<Rightarrow> agency_run" where
  "demo_run evs \<equiv> run_agency (\<lambda>_ _. None) demo_handlers 60 evs (at_rest idle)"

definition demo_events :: "agency_event list" where
  "demo_events =
     [Check [] [] (demo_request None 0), Admit 0, Check [] [] (demo_request None (seconds 30)),
      Conclude 0 H_timeout, Check [] [] (demo_request None (seconds 61)), Sweep (seconds 62) 300, Admit 0]"

lemma rate_windows_hold_witness:
  "let t = ag_invocations (ar_state (demo_run demo_events))
   in length t = 2 \<and> windowed (seconds 60) 1 (billed_times ''discovery'' ''system'' t)"
proof -
  let ?t = "ag_invocations (ar_state (demo_run demo_events))"
  have g: "list_all (capped pg_api_rate_per_minute ''discovery'' 1) demo_events"
    "list_all (capped pg_max_invocations_per_hour ''discovery'' 2) demo_events"
    by code_simp+
  have i: "ag_invocations idle = []" by (simp add: idle_def)
  have l: "length ?t = 2" by code_simp
  have m: "1 = most_waiting (\<lambda>_ _. None) demo_handlers 60 ''discovery'' ''system'' demo_events (at_rest idle)"
    by code_simp
  show ?thesis
    using rate_windows_hold [OF g i refl m] l unfolding Let_def by simp
qed

section \<open>What the gate does not bound\<close>

text \<open>The bound is reached. Two calls on the same account, each checked before the other is
  recorded, are both admitted under a cap of one call per minute, and the ledger then holds two
  invocations of the same instant.\<close>

theorem interleaved_calls_exceed_cap:
  "let rq = demo_request None 0; evs = [Check [] [] rq, Check [] [] rq, Admit 0, Admit 0]
   in rate_cap (\<lambda>_ _. None) rq = Some 1
      \<and> most_waiting (\<lambda>_ _. None) demo_handlers 60 ''discovery'' ''system'' evs (at_rest idle) = 2
      \<and> billed_times ''discovery'' ''system'' (ag_invocations (ar_state (demo_run evs))) = [0, 0]"
  by code_simp

text \<open>
  The windows count per account, and the account follows the override: under a pack of one call
  per minute on its shared account, a second analyst whose override only names another account
  is admitted in the same minute.
\<close>

definition shared_account_pack :: action_pack where
  "shared_account_pack = demo_pack\<lparr>ap_governor := demo_governor\<lparr>pg_budget_account := Some ''pack''\<rparr>\<rparr>"

lemma renamed_account_escapes_cap:
  "let base = demo_request None 0;
       shared = base\<lparr>rq_pack := shared_account_pack\<rparr>;
       renamed = (demo_request (Some (empty_governor\<lparr>pg_budget_account := Some ''mine''\<rparr>)) 0)
                   \<lparr>rq_pack := shared_account_pack\<rparr>;
       run = (\<lambda>rq st. run_pack_tool (\<lambda>_ _. None) demo_handlers demo_answer 60 [] [] rq st);
       st = fst (run shared idle)
   in \<not> ao_admitted (snd (run shared st)) \<and> ao_admitted (snd (run renamed st))"
  by code_simp

text \<open>An override only tightens caps. When a pack is effective, every numeric cap of the
  governor in force is at most the pack's own and at most that of the override of the grant and
  of the allow reference it was resolved through, both of which name the pack.\<close>

theorem override_tightens_only:
  assumes "effective (resolve_pack eval pack grants allows scope)"
  shows "\<exists>gov gr al. rs_governor (resolve_pack eval pack grants allows scope) = Some gov
    \<and> gr \<in> set grants \<and> al \<in> set allows \<and> pr_pack_id gr = ap_id pack \<and> pr_pack_id al = ap_id pack
    \<and> tightens gov (ap_governor pack)
    \<and> (\<forall>o'. pr_governor_override gr = Some o' \<longrightarrow> tightens gov o')
    \<and> (\<forall>o'. pr_governor_override al = Some o' \<longrightarrow> tightens gov o')"
  using assms by (rule resolve_effective) blast

lemma override_tightens_only_witness:
  "\<exists>gov. rs_governor (resolve_pack (\<lambda>_ _. None) demo_pack
      [\<lparr>pr_pack_id = ''discovery'', pr_governor_override = Some (demo_governor\<lparr>pg_api_rate_per_minute := Some 9\<rparr>)\<rparr>]
      [\<lparr>pr_pack_id = ''discovery'', pr_governor_override = None\<rparr>] demo_scope) = Some gov
    \<and> tightens gov demo_governor"
proof -
  let ?g = "[\<lparr>pr_pack_id = ''discovery'', pr_governor_override = Some (demo_governor\<lparr>pg_api_rate_per_minute := Some 9\<rparr>)\<rparr>]"
  let ?a = "[\<lparr>pr_pack_id = ''discovery'', pr_governor_override = None\<rparr>] :: pack_ref list"
  have e: "effective (resolve_pack (\<lambda>_ _. None) demo_pack ?g ?a demo_scope)" by code_simp
  have g: "ap_governor demo_pack = demo_governor" by (simp add: demo_pack_def)
  from override_tightens_only [OF e] g show ?thesis by auto
qed

end
