(* ===== verification/Reconcile.thy ===== *)
theory Reconcile
  imports Lifecycle TriggerEngine
begin

text \<open>
  The control loop between the descriptor registry and the actors: the pure decision and the
  passes of \<open>runtime/reconcile.py\<close>, and the executor \<^verbatim>\<open>execute_reconcile_action\<close> of
  \<open>runtime/dapr_host.py\<close> with the heal breaker of \<open>runtime/actor_turn.py\<close> and the live-set
  hooks of \<open>runtime/source_first_runtime.py\<close>. The world they ac on is the table
  \<open>actor_state\<close> (the columns they read or write), the process's live analysts, the
  registered A2A skills, the trigger engine, the breaker and the log of calls to actors. What an
  actor answers to a lifecycle call, and whether the store, the listing and the skill
  registration work, is the environment. The worker dependency cache and logging are left out.
\<close>

section \<open>Actions and states\<close>

datatype action_kind =
    A_noop | A_create_actor | A_ensure_active | A_transition_lifecycle | A_update_mailbox
  | A_restart_actor | A_retire_actor | A_backoff | A_error

text \<open>The detail keys the executor reads; the empty string where a key is absent.\<close>

record reconcile_action =
  ra_kind :: action_kind
  ra_actor_id :: py_str
  ra_descriptor_id :: py_str
  ra_descriptor_kind :: py_str
  ra_descriptor_version :: py_str
  ra_from :: py_str
  ra_to :: py_str

record actor_row =
  ar_actor_kind :: py_str
  ar_descriptor_id :: py_str
  ar_descriptor_version :: py_str
  ar_lifecycle :: py_str
  ar_last_outcome :: "action_kind option"

record desired_state =
  ds_descriptor_id :: py_str
  ds_descriptor_kind :: py_str
  ds_descriptor_version :: py_str
  ds_lifecycle_target :: py_str

definition bare_action :: "action_kind \<Rightarrow> py_str \<Rightarrow> reconcile_action" where
  "bare_action kind actor =
     \<lparr>ra_kind = kind, ra_actor_id = actor, ra_descriptor_id = [], ra_descriptor_kind = [],
      ra_descriptor_version = [], ra_from = [], ra_to = []\<rparr>"

definition base_action :: "action_kind \<Rightarrow> py_str \<Rightarrow> desired_state \<Rightarrow> reconcile_action" where
  "base_action kind actor d =
     (bare_action kind actor)\<lparr>ra_descriptor_id := ds_descriptor_id d,
        ra_descriptor_kind := ds_descriptor_kind d, ra_descriptor_version := ds_descriptor_version d\<rparr>"

definition common_reconcile :: "py_str \<Rightarrow> actor_row option \<Rightarrow> desired_state \<Rightarrow> reconcile_action" where
  "common_reconcile actor rec d =
     (if ds_lifecycle_target d = RETIRED then
        (case rec of
           None \<Rightarrow> bare_action A_noop actor
         | Some r \<Rightarrow>
             if ar_lifecycle r = RETIRED then bare_action A_noop actor
             else (base_action A_retire_actor actor d)\<lparr>ra_from := ar_lifecycle r\<rparr>)
      else (case rec of
          None \<Rightarrow> (base_action A_create_actor actor d)\<lparr>ra_to := ds_lifecycle_target d\<rparr>
        | Some r \<Rightarrow>
            if ar_descriptor_version r \<noteq> ds_descriptor_version d then base_action A_restart_actor actor d
            else if ar_lifecycle r \<noteq> ds_lifecycle_target d then
              (base_action A_transition_lifecycle actor d)
                \<lparr>ra_from := ar_lifecycle r, ra_to := ds_lifecycle_target d\<rparr>
            else if ds_descriptor_kind d \<in> {''analyst'', ''source''} \<and> ds_lifecycle_target d = ACTIVE
            then base_action A_ensure_active actor d
            else bare_action A_noop actor))"

definition default_actor_id :: "py_str \<Rightarrow> py_str \<Rightarrow> py_str \<Rightarrow> py_str" where
  "default_actor_id kind did version =
     kind @ ''::'' @ did @ ''::'' @ (if version = [] then replicate 16 (CHR ''0'') else take 16 version)"

section \<open>The heal breaker\<close>

type_synonym breaker = "(py_str \<times> (nat \<times> int)) list"

text \<open>The key of the least entry by its time, the first of equals; \<open>[]\<close> for no entry.\<close>

fun oldest_entry :: "breaker \<Rightarrow> py_str" where
  "oldest_entry [] = []"
| "oldest_entry [(a, _)] = a"
| "oldest_entry ((a, n, t) # (b, m, u) # es) =
     (if u < t then oldest_entry ((b, m, u) # es) else oldest_entry ((a, n, t) # es))"

definition evict_if_full :: "nat \<Rightarrow> py_str \<Rightarrow> breaker \<Rightarrow> breaker" where
  "evict_if_full max_tracked incoming b =
     (if map_of b incoming \<noteq> None \<or> length b < max_tracked then b
      else AList.delete (oldest_entry b) b)"

definition record_timeout :: "nat \<Rightarrow> int \<Rightarrow> py_str \<Rightarrow> breaker \<Rightarrow> breaker" where
  "record_timeout max_tracked clock actor b =
     (let count = (case map_of b actor of None \<Rightarrow> 0 | Some (n, _) \<Rightarrow> n) + 1
      in AList.update actor (count, clock) (evict_if_full max_tracked actor b))"

definition should_skip :: "nat \<Rightarrow> int \<Rightarrow> int \<Rightarrow> py_str \<Rightarrow> breaker \<Rightarrow> bool" where
  "should_skip trips cooloff clock actor b =
     (case map_of b actor of
        None \<Rightarrow> False
      | Some (n, t) \<Rightarrow> n \<ge> trips \<and> clock - t < cooloff)"

section \<open>The world\<close>

datatype proxy_method = M_activate | M_pause | M_resume | M_retire

datatype proxy_answer = Confirmed | Deadline | Refused

record 'r world =
  wo_rows :: "(py_str \<times> actor_row) list"
  wo_live :: "(py_str \<times> py_str) list"
  wo_skills :: "(py_str \<times> py_str) list"
  wo_engine :: "'r trigger_engine"
  wo_breaker :: breaker
  wo_calls :: "(py_str \<times> proxy_method) list"

record reconcile_env =
  ev_proxy :: "py_str \<Rightarrow> proxy_method \<Rightarrow> proxy_answer"
  ev_store_ok :: bool
  ev_list_ok :: bool
  ev_skill_ok :: "py_str \<Rightarrow> bool"
  ev_trips :: nat
  ev_cooloff :: int
  ev_clock :: int
  ev_max_tracked :: nat

text \<open>The part of a string after its first \<open>::\<close>.\<close>

fun after_sep :: "py_str \<Rightarrow> py_str option" where
  "after_sep (a # b # cs) = (if a = CHR '':'' \<and> b = CHR '':'' then Some cs else after_sep (b # cs))"
| "after_sep _ = None"

definition id_version :: "py_str \<Rightarrow> py_str" where
  "id_version actor = (case Option.bind (after_sep actor) after_sep of None \<Rightarrow> [] | Some v \<Rightarrow> v)"

definition write_observed_state ::
  "reconcile_env \<Rightarrow> reconcile_action \<Rightarrow> py_str \<Rightarrow> 'r world \<Rightarrow> 'r world" where
  "write_observed_state env ac lifecycle w =
     (if \<not> ev_store_ok env then w
      else let v = ra_descriptor_version ac;
               row = (case map_of (wo_rows w) (ra_actor_id ac) of
                 None \<Rightarrow>
                   \<lparr>ar_actor_kind = ra_descriptor_kind ac, ar_descriptor_id = ra_descriptor_id ac,
                    ar_descriptor_version = (if v \<noteq> [] then v else id_version (ra_actor_id ac)),
                    ar_lifecycle = lifecycle, ar_last_outcome = Some (ra_kind ac)\<rparr>
               | Some r \<Rightarrow>
                   r\<lparr>ar_lifecycle := lifecycle,
                     ar_descriptor_version := (if v \<noteq> [] then v else ar_descriptor_version r),
                     ar_last_outcome := Some (ra_kind ac)\<rparr>)
           in w\<lparr>wo_rows := AList.update (ra_actor_id ac) row (wo_rows w)\<rparr>)"

section \<open>The hooks\<close>

definition remember_analyst :: "py_str \<Rightarrow> py_str \<Rightarrow> 'r world \<Rightarrow> 'r world" where
  "remember_analyst analyst actor w = w\<lparr>wo_live := AList.update analyst actor (wo_live w)\<rparr>"

definition forget_analyst :: "py_str \<Rightarrow> py_str \<Rightarrow> 'r world \<Rightarrow> 'r world" where
  "forget_analyst analyst actor w =
     (if map_of (wo_live w) analyst = Some actor
      then w\<lparr>wo_live := AList.delete analyst (wo_live w)\<rparr> else w)"

definition analyst_went_live :: "reconcile_action \<Rightarrow> 'r world \<Rightarrow> 'r world" where
  "analyst_went_live ac w =
     (if ra_descriptor_kind ac \<noteq> ''analyst'' then w
      else remember_analyst (ra_descriptor_id ac) (ra_actor_id ac) w)"

definition register_skills :: "reconcile_env \<Rightarrow> reconcile_action \<Rightarrow> 'r world \<Rightarrow> 'r world" where
  "register_skills env ac w =
     (if ra_descriptor_kind ac \<noteq> ''analyst''
         \<or> map_of (wo_skills w) (ra_descriptor_id ac) = Some (ra_descriptor_version ac)
         \<or> \<not> ev_skill_ok env (ra_descriptor_id ac)
      then w
      else w\<lparr>wo_skills := AList.update (ra_descriptor_id ac) (ra_descriptor_version ac) (wo_skills w)\<rparr>)"

definition analyst_retired :: "reconcile_action \<Rightarrow> 'r world \<Rightarrow> 'r world" where
  "analyst_retired ac w =
     (if ra_descriptor_kind ac \<noteq> ''analyst'' then w
      else let w1 = w\<lparr>wo_skills := AList.delete (ra_descriptor_id ac) (wo_skills w)\<rparr>;
               w2 = forget_analyst (ra_descriptor_id ac) (ra_actor_id ac) w1
           in w2\<lparr>wo_engine := fst (unregister (wo_engine w2) (ra_descriptor_id ac) None)\<rparr>)"

definition analyst_paused :: "reconcile_action \<Rightarrow> 'r world \<Rightarrow> 'r world" where
  "analyst_paused ac w =
     (if ra_descriptor_kind ac \<noteq> ''analyst'' then w
      else forget_analyst (ra_descriptor_id ac) (ra_actor_id ac) w)"

section \<open>The executor\<close>

text \<open>
  One bounded call and what follows it when the actor confirmed; the flag says that the call
  raised, which leaves the executor. A blown deadline skips the rest.
\<close>

definition proxy_call ::
  "reconcile_env \<Rightarrow> py_str \<Rightarrow> proxy_method \<Rightarrow> ('r world \<Rightarrow> 'r world) \<Rightarrow> 'r world \<Rightarrow> 'r world \<times> bool" where
  "proxy_call env actor m k w =
     (let w1 = w\<lparr>wo_calls := wo_calls w @ [(actor, m)]\<rparr>
      in case ev_proxy env actor m of
           Confirmed \<Rightarrow> (k (w1\<lparr>wo_breaker := AList.delete actor (wo_breaker w1)\<rparr>), False)
         | Deadline \<Rightarrow>
             (w1\<lparr>wo_breaker := record_timeout (ev_max_tracked env) (ev_clock env) actor (wo_breaker w1)\<rparr>,
              False)
         | Refused \<Rightarrow> (w1, True))"

definition go_live :: "reconcile_env \<Rightarrow> reconcile_action \<Rightarrow> 'r world \<Rightarrow> 'r world" where
  "go_live env ac w =
     write_observed_state env ac ACTIVE (register_skills env ac (analyst_went_live ac w))"

definition go_paused :: "reconcile_env \<Rightarrow> reconcile_action \<Rightarrow> 'r world \<Rightarrow> 'r world" where
  "go_paused env ac w = write_observed_state env ac PAUSED (analyst_paused ac w)"

definition go_retired :: "reconcile_env \<Rightarrow> reconcile_action \<Rightarrow> 'r world \<Rightarrow> 'r world" where
  "go_retired env ac w =
     write_observed_state env ac RETIRED
       (analyst_retired ac (w\<lparr>wo_breaker := AList.delete (ra_actor_id ac) (wo_breaker w)\<rparr>))"

definition execute_action ::
  "reconcile_env \<Rightarrow> reconcile_action \<Rightarrow> 'r world \<Rightarrow> 'r world \<times> bool" where
  "execute_action env ac w =
     (let a = ra_actor_id ac
      in if ra_descriptor_kind ac \<notin> {''target'', ''analyst'', ''source''} then (w, False)
         else (case ra_kind ac of
           A_create_actor \<Rightarrow>
             (let lc = py_lower (if ra_to ac \<noteq> [] then ra_to ac else ACTIVE)
              in if lc = ACTIVE then proxy_call env a M_activate (go_live env ac) w
                 else if lc = PAUSED then proxy_call env a M_pause (go_paused env ac) w
                 else (w, False))
         | A_ensure_active \<Rightarrow>
             if should_skip (ev_trips env) (ev_cooloff env) (ev_clock env) a (wo_breaker w)
             then (w, False)
             else proxy_call env a M_activate (go_live env ac) w
         | A_retire_actor \<Rightarrow> proxy_call env a M_retire (go_retired env ac) w
         | A_restart_actor \<Rightarrow> proxy_call env a M_activate (write_observed_state env ac ACTIVE) w
         | A_transition_lifecycle \<Rightarrow>
             (let lc = py_lower (ra_to ac)
              in if lc = ACTIVE then
                   proxy_call env a (if py_lower (ra_from ac) = PAUSED then M_resume else M_activate)
                     (go_live env ac) w
                 else if lc = PAUSED then proxy_call env a M_pause (go_paused env ac) w
                 else if lc = RETIRED then proxy_call env a M_retire (go_retired env ac) w
                 else (w, False))
         | _ \<Rightarrow> (w, False)))"

section \<open>The passes\<close>

definition list_live_siblings :: "'r world \<Rightarrow> desired_state \<Rightarrow> py_str \<Rightarrow> (py_str \<times> actor_row) list" where
  "list_live_siblings w d head =
     filter (\<lambda>(a, r). ar_actor_kind r = ds_descriptor_kind d \<and> ar_descriptor_id r = ds_descriptor_id d
       \<and> a \<noteq> head \<and> ar_lifecycle r \<noteq> RETIRED) (wo_rows w)"

definition retire_sibling :: "desired_state \<Rightarrow> py_str \<times> actor_row \<Rightarrow> reconcile_action" where
  "retire_sibling d sib =
     (base_action A_retire_actor (fst sib) d)
       \<lparr>ra_descriptor_version := ar_descriptor_version (snd sib), ra_from := ar_lifecycle (snd sib)\<rparr>"

definition sweep_siblings ::
  "reconcile_env \<Rightarrow> desired_state \<Rightarrow> (py_str \<times> actor_row) list \<Rightarrow> 'r world \<Rightarrow> 'r world" where
  "sweep_siblings env d sibs w =
     fold (\<lambda>sib w. fst (execute_action env (retire_sibling d sib) w)) sibs w"

definition head_id :: "desired_state \<Rightarrow> py_str" where
  "head_id d = default_actor_id (ds_descriptor_kind d) (ds_descriptor_id d) (ds_descriptor_version d)"

text \<open>One pass over a resolved descriptor: the sweep, then the head. The flag is as above.\<close>

definition run_once ::
  "reconcile_env \<Rightarrow> py_str list \<Rightarrow> desired_state \<Rightarrow> 'r world \<Rightarrow> 'r world \<times> reconcile_action \<times> bool" where
  "run_once env kinds d w =
     (let sibs = (if ev_list_ok env then list_live_siblings w d (head_id d) else []);
          w1 = sweep_siblings env d sibs w
      in if ds_descriptor_kind d \<notin> set kinds then (w1, bare_action A_error (head_id d), False)
         else let ac = common_reconcile (head_id d) (map_of (wo_rows w1) (head_id d)) d;
                  (w2, raised) = execute_action env ac w1
              in (w2, ac, raised))"

text \<open>The queue: each entry resolved to a descriptor, or to nothing; a raise is logged.\<close>

fun main_loop ::
  "reconcile_env \<Rightarrow> py_str list \<Rightarrow> (py_str \<Rightarrow> desired_state option) \<Rightarrow> py_str list \<Rightarrow> 'r world \<Rightarrow> 'r world" where
  "main_loop env kinds resolve [] w = w"
| "main_loop env kinds resolve (did # queue) w =
     main_loop env kinds resolve queue
       (case resolve did of None \<Rightarrow> w | Some d \<Rightarrow> fst (run_once env kinds d w))"

definition reconcilable_states :: "py_str list" where
  "reconcilable_states = [ACTIVE, PAUSED, RETIRED]"

definition resync :: "desired_state list \<Rightarrow> py_str list" where
  "resync heads =
     map ds_descriptor_id (filter (\<lambda>d. ds_lifecycle_target d \<in> set reconcilable_states) heads)"

definition production_kinds :: "py_str list" where
  "production_kinds = [''target'', ''analyst'', ''source'']"

section \<open>What a confirmed action writes\<close>

definition friendly :: "reconcile_env \<Rightarrow> bool" where
  "friendly env \<longleftrightarrow> (\<forall>a m. ev_proxy env a m = Confirmed) \<and> ev_store_ok env \<and> ev_list_ok env"

definition known_kind :: "py_str \<Rightarrow> bool" where
  "known_kind kind \<longleftrightarrow> kind \<in> {''target'', ''analyst'', ''source''}"

lemma hook_rows [simp]:
  "wo_rows (analyst_went_live ac w) = wo_rows w"
  "wo_rows (register_skills env ac w) = wo_rows w"
  "wo_rows (analyst_retired ac w) = wo_rows w"
  "wo_rows (analyst_paused ac w) = wo_rows w"
  by (simp_all add: analyst_went_live_def remember_analyst_def register_skills_def analyst_retired_def
      forget_analyst_def analyst_paused_def Let_def)

definition observed_row :: "reconcile_action \<Rightarrow> py_str \<Rightarrow> actor_row option \<Rightarrow> actor_row" where
  "observed_row ac lifecycle ro =
     (let v = ra_descriptor_version ac in
      case ro of
        None \<Rightarrow>
          \<lparr>ar_actor_kind = ra_descriptor_kind ac, ar_descriptor_id = ra_descriptor_id ac,
           ar_descriptor_version = (if v \<noteq> [] then v else id_version (ra_actor_id ac)),
           ar_lifecycle = lifecycle, ar_last_outcome = Some (ra_kind ac)\<rparr>
      | Some r \<Rightarrow>
          r\<lparr>ar_lifecycle := lifecycle,
            ar_descriptor_version := (if v \<noteq> [] then v else ar_descriptor_version r),
            ar_last_outcome := Some (ra_kind ac)\<rparr>)"

lemma write_rows:
  "friendly env \<Longrightarrow> wo_rows (write_observed_state env ac lc w) =
     AList.update (ra_actor_id ac) (observed_row ac lc (map_of (wo_rows w) (ra_actor_id ac))) (wo_rows w)"
  by (simp add: write_observed_state_def friendly_def observed_row_def Let_def)

lemma confirmed_call:
  "friendly env \<Longrightarrow> proxy_call env a m k w =
     (k (w\<lparr>wo_calls := wo_calls w @ [(a, m)], wo_breaker := AList.delete a (wo_breaker w)\<rparr>), False)"
  by (simp add: proxy_call_def friendly_def)

lemma go_rows:
  assumes "friendly env"
  shows "wo_rows (go_live env ac w) =
      AList.update (ra_actor_id ac) (observed_row ac ACTIVE (map_of (wo_rows w) (ra_actor_id ac))) (wo_rows w)"
    and "wo_rows (go_paused env ac w) =
      AList.update (ra_actor_id ac) (observed_row ac PAUSED (map_of (wo_rows w) (ra_actor_id ac))) (wo_rows w)"
    and "wo_rows (go_retired env ac w) =
      AList.update (ra_actor_id ac) (observed_row ac RETIRED (map_of (wo_rows w) (ra_actor_id ac))) (wo_rows w)"
  using assms by (simp_all add: go_live_def go_paused_def go_retired_def write_rows)

lemma lower_states: "py_lower ACTIVE = ACTIVE" "py_lower PAUSED = PAUSED" "py_lower RETIRED = RETIRED"
  by code_simp+

lemma base_action_fields [simp]:
  "ra_kind (base_action k a d) = k" "ra_actor_id (base_action k a d) = a"
  "ra_descriptor_id (base_action k a d) = ds_descriptor_id d"
  "ra_descriptor_kind (base_action k a d) = ds_descriptor_kind d"
  "ra_descriptor_version (base_action k a d) = ds_descriptor_version d"
  "ra_kind (bare_action k a) = k" "ra_descriptor_kind (bare_action k a) = []"
  by (simp_all add: base_action_def bare_action_def)

text \<open>Every action of a friendly world writes one row or none.\<close>

definition keeps_or_writes :: "py_str \<Rightarrow> 'r world \<Rightarrow> 'r world \<Rightarrow> bool" where
  "keeps_or_writes a w w' \<longleftrightarrow>
     wo_rows w' = wo_rows w \<or> (\<exists>r. wo_rows w' = AList.update a r (wo_rows w))"

lemma execute_rows:
  "friendly env \<Longrightarrow> keeps_or_writes (ra_actor_id ac) w (fst (execute_action env ac w))"
  unfolding keeps_or_writes_def
  by (cases "ra_kind ac")
     (auto simp: execute_action_def confirmed_call go_rows write_rows Let_def)

lemma keeps_or_writesD:
  assumes "keeps_or_writes a w w'"
  shows "distinct (map fst (wo_rows w)) \<Longrightarrow> distinct (map fst (wo_rows w'))"
    and "b \<noteq> a \<Longrightarrow> map_of (wo_rows w') b = map_of (wo_rows w) b"
  using assms by (auto simp: keeps_or_writes_def distinct_update table_simps)

section \<open>The sweep\<close>

lemma retire_sibling_row:
  assumes "friendly env" and "known_kind (ds_descriptor_kind d)"
    and "map_of (wo_rows w) a = Some r"
  shows "map_of (wo_rows (fst (execute_action env (retire_sibling d (a, r)) w))) a
    = Some (r\<lparr>ar_lifecycle := RETIRED, ar_last_outcome := Some A_retire_actor\<rparr>)"
  using assms
  by (simp add: execute_action_def retire_sibling_def known_kind_def confirmed_call go_rows table_simps
      observed_row_def Let_def)

lemma sweep_rows:
  assumes "friendly env" and "known_kind (ds_descriptor_kind d)"
    and "distinct (map fst sibs)" and "\<forall>(a, r)\<in>set sibs. map_of (wo_rows w) a = Some r"
  shows "map_of (wo_rows (sweep_siblings env d sibs w)) b =
    (case map_of sibs b of None \<Rightarrow> map_of (wo_rows w) b
     | Some r \<Rightarrow> Some (r\<lparr>ar_lifecycle := RETIRED, ar_last_outcome := Some A_retire_actor\<rparr>))"
  using assms
proof (induction sibs arbitrary: w)
  case (Cons s sibs)
  obtain a r where s: "s = (a, r)" by (cases s)
  let ?w = "fst (execute_action env (retire_sibling d s) w)"
  have kw: "keeps_or_writes a w ?w"
    using execute_rows [OF assms(1), of "retire_sibling d s" w] s by (simp add: retire_sibling_def)
  have fresh: "a \<notin> fst ` set sibs" using Cons.prems(3) s by simp
  have "\<forall>(b, q)\<in>set sibs. map_of (wo_rows ?w) b = Some q"
  proof clarify
    fix b q assume b: "(b, q) \<in> set sibs"
    then have "b \<noteq> a" using fresh by force
    with keeps_or_writesD(2) [OF kw] Cons.prems(4) b show "map_of (wo_rows ?w) b = Some q" by auto
  qed
  then have IH: "map_of (wo_rows (sweep_siblings env d sibs ?w)) b =
    (case map_of sibs b of None \<Rightarrow> map_of (wo_rows ?w) b
     | Some r \<Rightarrow> Some (r\<lparr>ar_lifecycle := RETIRED, ar_last_outcome := Some A_retire_actor\<rparr>))"
    using Cons by auto
  have sweep: "sweep_siblings env d (s # sibs) w = sweep_siblings env d sibs ?w"
    by (simp add: sweep_siblings_def)
  show ?case
  proof (cases "b = a")
    case True
    have "map_of sibs a = None" using fresh by (simp add: map_of_eq_None_iff)
    moreover have "map_of (wo_rows ?w) a = Some (r\<lparr>ar_lifecycle := RETIRED, ar_last_outcome := Some A_retire_actor\<rparr>)"
      using retire_sibling_row [OF assms(1,2), of w a r] Cons.prems(4) s by auto
    ultimately show ?thesis using IH True s sweep by simp
  next
    case False
    then show ?thesis using IH keeps_or_writesD(2) [OF kw False] s sweep by (simp split: option.split)
  qed
qed (simp add: sweep_siblings_def)

lemma sweep_distinct:
  "friendly env \<Longrightarrow> distinct (map fst (wo_rows w))
     \<Longrightarrow> distinct (map fst (wo_rows (sweep_siblings env d sibs w)))"
proof (induction sibs arbitrary: w)
  case (Cons s sibs)
  have "distinct (map fst (wo_rows (fst (execute_action env (retire_sibling d s) w))))"
    by (rule keeps_or_writesD(1) [OF execute_rows [OF Cons.prems(1)] Cons.prems(2)])
  from Cons.IH [OF Cons.prems(1) this] show ?case by (simp add: sweep_siblings_def)
qed (simp add: sweep_siblings_def)

lemma siblings_table:
  assumes "distinct (map fst (wo_rows w))"
  shows "distinct (map fst (list_live_siblings w d h))"
    and "\<forall>(a, r)\<in>set (list_live_siblings w d h). map_of (wo_rows w) a = Some r"
    and "list_live_siblings w d h = [] \<longleftrightarrow>
      (\<forall>a r. map_of (wo_rows w) a = Some r \<longrightarrow> ar_actor_kind r = ds_descriptor_kind d
         \<longrightarrow> ar_descriptor_id r = ds_descriptor_id d \<longrightarrow> a \<noteq> h \<longrightarrow> ar_lifecycle r = RETIRED)"
  using assms
  by (auto simp: list_live_siblings_def distinct_map_filter filter_empty_conv dest: map_of_SomeD)

lemma sweep_clears:
  assumes "friendly env" and "known_kind (ds_descriptor_kind d)" and "distinct (map fst (wo_rows w))"
  shows "list_live_siblings (sweep_siblings env d (list_live_siblings w d h) w) d h = []"
    and "map_of (wo_rows (sweep_siblings env d (list_live_siblings w d h) w)) h = map_of (wo_rows w) h"
proof -
  let ?sibs = "list_live_siblings w d h" and ?w = "sweep_siblings env d (list_live_siblings w d h) w"
  note rows = sweep_rows [OF assms(1,2) siblings_table(1,2) [OF assms(3)]]
  have dist: "distinct (map fst (wo_rows ?w))" by (rule sweep_distinct [OF assms(1,3)])
  have "h \<notin> fst ` set ?sibs" by (auto simp: list_live_siblings_def)
  then have "map_of ?sibs h = None" by (simp add: map_of_eq_None_iff)
  then show "map_of (wo_rows ?w) h = map_of (wo_rows w) h" by (simp add: rows)
  show "list_live_siblings ?w d h = []"
    unfolding siblings_table(3) [OF dist]
  proof (intro allI impI)
    fix a r
    assume a: "map_of (wo_rows ?w) a = Some r" "ar_actor_kind r = ds_descriptor_kind d"
      "ar_descriptor_id r = ds_descriptor_id d" "a \<noteq> h"
    show "ar_lifecycle r = RETIRED"
    proof (cases "map_of ?sibs a")
      case None
      then have "(a, r) \<notin> set ?sibs" by (force simp: map_of_eq_None_iff)
      moreover have "map_of (wo_rows w) a = Some r" using a(1) None by (simp add: rows)
      ultimately show ?thesis using a by (auto simp: list_live_siblings_def dest: map_of_SomeD)
    next
      case (Some q)
      with a(1) show ?thesis by (auto simp: rows)
    qed
  qed
qed

section \<open>The head\<close>

definition reconcilable :: "desired_state \<Rightarrow> bool" where
  "reconcilable d \<longleftrightarrow> known_kind (ds_descriptor_kind d)
     \<and> ds_lifecycle_target d \<in> set reconcilable_states \<and> ds_descriptor_version d \<noteq> []"

lemma reconcilable_target:
  "reconcilable d \<Longrightarrow> ds_lifecycle_target d \<in> {ACTIVE, PAUSED, RETIRED}
     \<and> py_lower (ds_lifecycle_target d) = ds_lifecycle_target d"
  by (auto simp: reconcilable_def reconcilable_states_def lower_states)

lemma execute_known:
  assumes "known_kind (ra_descriptor_kind ac)"
  shows "ra_kind ac = A_create_actor \<Longrightarrow> ra_to ac = ACTIVE
      \<Longrightarrow> execute_action env ac w = proxy_call env (ra_actor_id ac) M_activate (go_live env ac) w"
    and "ra_kind ac = A_create_actor \<Longrightarrow> ra_to ac = PAUSED
      \<Longrightarrow> execute_action env ac w = proxy_call env (ra_actor_id ac) M_pause (go_paused env ac) w"
    and "ra_kind ac = A_restart_actor
      \<Longrightarrow> execute_action env ac w =
        proxy_call env (ra_actor_id ac) M_activate (write_observed_state env ac ACTIVE) w"
    and "ra_kind ac = A_retire_actor
      \<Longrightarrow> execute_action env ac w = proxy_call env (ra_actor_id ac) M_retire (go_retired env ac) w"
    and "ra_kind ac = A_transition_lifecycle \<Longrightarrow> ra_to ac = ACTIVE
      \<Longrightarrow> \<exists>m. execute_action env ac w = proxy_call env (ra_actor_id ac) m (go_live env ac) w"
    and "ra_kind ac = A_transition_lifecycle \<Longrightarrow> ra_to ac = PAUSED
      \<Longrightarrow> execute_action env ac w = proxy_call env (ra_actor_id ac) M_pause (go_paused env ac) w"
    and "ra_kind ac = A_ensure_active
      \<Longrightarrow> execute_action env ac w = (w, False)
        \<or> execute_action env ac w = proxy_call env (ra_actor_id ac) M_activate (go_live env ac) w"
proof -
  have k: "(ra_descriptor_kind ac \<notin> {''target'', ''analyst'', ''source''}) = False"
    using assms unfolding known_kind_def by blast
  note body = execute_action_def [of env ac w, unfolded k if_False Let_def]
  show "ra_kind ac = A_create_actor \<Longrightarrow> ra_to ac = ACTIVE
      \<Longrightarrow> execute_action env ac w = proxy_call env (ra_actor_id ac) M_activate (go_live env ac) w"
    "ra_kind ac = A_create_actor \<Longrightarrow> ra_to ac = PAUSED
      \<Longrightarrow> execute_action env ac w = proxy_call env (ra_actor_id ac) M_pause (go_paused env ac) w"
    "ra_kind ac = A_restart_actor
      \<Longrightarrow> execute_action env ac w =
        proxy_call env (ra_actor_id ac) M_activate (write_observed_state env ac ACTIVE) w"
    "ra_kind ac = A_retire_actor
      \<Longrightarrow> execute_action env ac w = proxy_call env (ra_actor_id ac) M_retire (go_retired env ac) w"
    "ra_kind ac = A_transition_lifecycle \<Longrightarrow> ra_to ac = PAUSED
      \<Longrightarrow> execute_action env ac w = proxy_call env (ra_actor_id ac) M_pause (go_paused env ac) w"
    unfolding body by (simp_all add: lower_states)
  show "ra_kind ac = A_transition_lifecycle \<Longrightarrow> ra_to ac = ACTIVE
      \<Longrightarrow> \<exists>m. execute_action env ac w = proxy_call env (ra_actor_id ac) m (go_live env ac) w"
    unfolding body by (simp add: lower_states) blast
  show "ra_kind ac = A_ensure_active
      \<Longrightarrow> execute_action env ac w = (w, False)
        \<or> execute_action env ac w = proxy_call env (ra_actor_id ac) M_activate (go_live env ac) w"
    unfolding body by simp
qed

text \<open>The head's row after the pass, as a function of the row before it.\<close>

definition settled_head :: "desired_state \<Rightarrow> actor_row option \<Rightarrow> actor_row option \<Rightarrow> bool" where
  "settled_head d ro ro' \<longleftrightarrow>
     (if ds_lifecycle_target d = RETIRED
      then (case ro' of None \<Rightarrow> True | Some r \<Rightarrow> ar_lifecycle r = RETIRED)
      else (\<exists>r. ro' = Some r \<and> ar_descriptor_version r = ds_descriptor_version d
         \<and> (ar_lifecycle r = ds_lifecycle_target d
            \<or> (\<exists>q. ro = Some q \<and> ar_descriptor_version q \<noteq> ds_descriptor_version d))))"

lemma observed_row_fields [simp]:
  "ar_lifecycle (observed_row ac lc ro) = lc"
  "ra_descriptor_version ac \<noteq> [] \<Longrightarrow> ar_descriptor_version (observed_row ac lc ro) = ra_descriptor_version ac"
  by (simp_all add: observed_row_def Let_def split: option.split)

lemma head_step:
  assumes fr: "friendly env" and rec: "reconcilable d"
    and ac: "ac = common_reconcile h (map_of (wo_rows w) h) d" and w': "w' = fst (execute_action env ac w)"
  shows "settled_head d (map_of (wo_rows w) h) (map_of (wo_rows w') h)"
proof -
  have kind: "known_kind (ds_descriptor_kind d)" and v: "ds_descriptor_version d \<noteq> []"
    using rec by (simp_all add: reconcilable_def)
  have lc: "ds_lifecycle_target d = RETIRED \<or> ds_lifecycle_target d = ACTIVE \<or> ds_lifecycle_target d = PAUSED"
    using reconcilable_target [OF rec] by blast
  have idle: "execute_action env (bare_action A_noop h) w = (w, False)"
    by (simp add: execute_action_def Let_def)
  note run = execute_known confirmed_call [OF fr] go_rows [OF fr] write_rows [OF fr] table_simps
  consider (retired) "ds_lifecycle_target d = RETIRED"
    | (none) "ds_lifecycle_target d \<noteq> RETIRED" "map_of (wo_rows w) h = None"
    | (some) q where "ds_lifecycle_target d \<noteq> RETIRED" "map_of (wo_rows w) h = Some q"
    by (cases "map_of (wo_rows w) h") auto
  then show ?thesis
  proof cases
    case retired
    show ?thesis
    proof (cases "map_of (wo_rows w) h")
      case None
      with retired ac w' idle show ?thesis by (simp add: settled_head_def common_reconcile_def)
    next
      case (Some q)
      with retired ac w' idle kind show ?thesis
        by (cases "ar_lifecycle q = RETIRED") (simp_all add: settled_head_def common_reconcile_def run)
    qed
  next
    case none
    with lc ac w' kind v show ?thesis
      by (elim disjE) (simp_all add: settled_head_def common_reconcile_def run)
  next
    case some
    show ?thesis
    proof (cases "ar_descriptor_version q = ds_descriptor_version d")
      case False
      with some ac w' kind v show ?thesis by (simp add: settled_head_def common_reconcile_def run)
    next
      case same: True
      show ?thesis
      proof (cases "ar_lifecycle q = ds_lifecycle_target d")
        case True
        show ?thesis
        proof (cases "ra_kind ac = A_ensure_active")
          case False
          then have "ac = bare_action A_noop h"
            using ac some same True by (auto simp: common_reconcile_def)
          with w' idle some same True show ?thesis by (simp add: settled_head_def)
        next
          case ens: True
          then have b: "ac = base_action A_ensure_active h d" and t: "ds_lifecycle_target d = ACTIVE"
            using ac some same True by (auto simp: common_reconcile_def split: if_split_asm)
          from execute_known(7) [of ac env w] ens b kind
          have "execute_action env ac w = (w, False)
              \<or> execute_action env ac w = proxy_call env h M_activate (go_live env ac) w" by simp
          then show ?thesis using w' some same True b t v
            by (elim disjE) (simp_all add: settled_head_def run)
        qed
      next
        case drift: False
        then have b: "ac = (base_action A_transition_lifecycle h d)
            \<lparr>ra_from := ar_lifecycle q, ra_to := ds_lifecycle_target d\<rparr>"
          using ac some same by (simp add: common_reconcile_def)
        from lc some consider (act) "ds_lifecycle_target d = ACTIVE" | (pau) "ds_lifecycle_target d = PAUSED"
          by blast
        then show ?thesis
        proof cases
          case act
          then obtain m where "execute_action env ac w = proxy_call env h m (go_live env ac) w"
            using execute_known(5) [of ac env w] b kind by auto
          with w' b act v show ?thesis by (simp add: settled_head_def run)
        next
          case pau
          with execute_known(6) [of ac env w] w' b kind v show ?thesis by (simp add: settled_head_def run)
        qed
      qed
    qed
  qed
qed

definition converged :: "desired_state \<Rightarrow> 'r world \<Rightarrow> bool" where
  "converged d w \<longleftrightarrow> list_live_siblings w d (head_id d) = []
     \<and> (case map_of (wo_rows w) (head_id d) of
          None \<Rightarrow> ds_lifecycle_target d = RETIRED
        | Some r \<Rightarrow> ar_lifecycle r = ds_lifecycle_target d
            \<and> (ds_lifecycle_target d = RETIRED \<or> ar_descriptor_version r = ds_descriptor_version d))"

lemma common_reconcile_id: "ra_actor_id (common_reconcile h ro d) = h"
  by (auto simp: common_reconcile_def bare_action_def base_action_def split: option.split)

lemma run_once_step:
  assumes "friendly env" and "reconcilable d" and "ds_descriptor_kind d \<in> set kinds"
    and "distinct (map fst (wo_rows w))" and "w' = fst (run_once env kinds d w)"
  shows "distinct (map fst (wo_rows w'))" and "list_live_siblings w' d (head_id d) = []"
    and "settled_head d (map_of (wo_rows w) (head_id d)) (map_of (wo_rows w') (head_id d))"
proof -
  let ?h = "head_id d"
  let ?w = "sweep_siblings env d (list_live_siblings w d ?h) w"
  let ?ac = "common_reconcile ?h (map_of (wo_rows ?w) ?h) d"
  have kind: "known_kind (ds_descriptor_kind d)" using assms(2) by (simp add: reconcilable_def)
  have list_ok: "ev_list_ok env" using assms(1) by (simp add: friendly_def)
  have w': "w' = fst (execute_action env ?ac ?w)"
    using assms(3,5) list_ok by (simp add: run_once_def Let_def split_beta)
  note clear = sweep_clears [OF assms(1) kind assms(4), of ?h]
  have dist: "distinct (map fst (wo_rows ?w))" by (rule sweep_distinct [OF assms(1,4)])
  have kw: "keeps_or_writes ?h ?w w'"
    using execute_rows [OF assms(1), of ?ac ?w] w' by (simp add: common_reconcile_id)
  show dist': "distinct (map fst (wo_rows w'))" by (rule keeps_or_writesD(1) [OF kw dist])
  show "list_live_siblings w' d ?h = []"
    using clear(1) keeps_or_writesD(2) [OF kw]
    unfolding siblings_table(3) [OF dist] siblings_table(3) [OF dist'] by metis
  show "settled_head d (map_of (wo_rows w) ?h) (map_of (wo_rows w') ?h)"
    using head_step [OF assms(1,2) refl w'] unfolding clear(2) .
qed

lemma converged_action:
  assumes "converged d w" and "friendly env" and "ds_descriptor_kind d \<in> set kinds"
  shows "ra_kind (fst (snd (run_once env kinds d w))) \<in> {A_noop, A_ensure_active}"
proof -
  have "sweep_siblings env d (list_live_siblings w d (head_id d)) w = w"
    using assms(1) by (simp add: converged_def sweep_siblings_def)
  then have "fst (snd (run_once env kinds d w)) = common_reconcile (head_id d) (map_of (wo_rows w) (head_id d)) d"
    using assms(2,3) by (simp add: run_once_def friendly_def Let_def split_beta)
  moreover have "ra_kind (common_reconcile (head_id d) (map_of (wo_rows w) (head_id d)) d) \<in> {A_noop, A_ensure_active}"
  proof (cases "map_of (wo_rows w) (head_id d)")
    case None
    then have "ds_lifecycle_target d = RETIRED" using assms(1) by (simp add: converged_def)
    with None show ?thesis by (simp add: common_reconcile_def)
  next
    case (Some r)
    then have "ar_lifecycle r = ds_lifecycle_target d"
      "ds_lifecycle_target d = RETIRED \<or> ar_descriptor_version r = ds_descriptor_version d"
      using assms(1) by (simp_all add: converged_def)
    with Some show ?thesis by (cases "ds_lifecycle_target d = RETIRED") (simp_all add: common_reconcile_def)
  qed
  ultimately show ?thesis by simp
qed

text \<open>C6: Convergence. From any table of actor states, with any version-drift leftovers, any
  recorded lifecycle and any recorded version of the head, two passes over a descriptor whose
  target lifecycle is active, paused or retired leave the actors as the registry wants them,
  provided the actors confirm their calls and the store and the listing work: no other version
  of the descriptor is live, and the head's row carries the target lifecycle and the version
  (or is absent, for a retired descriptor that never ran). From then on a pass has nothing to do
  but re-assert.\<close>

theorem reconcile_converges:
  assumes "friendly env" and "reconcilable d" and "ds_descriptor_kind d \<in> set kinds"
    and "distinct (map fst (wo_rows w))"
    and "w2 = fst (run_once env kinds d (fst (run_once env kinds d w)))"
  shows "converged d w2 \<and> ra_kind (fst (snd (run_once env kinds d w2))) \<in> {A_noop, A_ensure_active}"
proof -
  let ?w1 = "fst (run_once env kinds d w)"
  note one = run_once_step [OF assms(1-4) refl]
  note two = run_once_step [OF assms(1-3) one(1) assms(5)]
  have "converged d w2"
  proof (cases "ds_lifecycle_target d = RETIRED")
    case True
    with two(2,3) show ?thesis by (simp add: converged_def settled_head_def split: option.splits)
  next
    case False
    with one(3) obtain r where "map_of (wo_rows ?w1) (head_id d) = Some r"
      "ar_descriptor_version r = ds_descriptor_version d" by (auto simp: settled_head_def)
    with two(2,3) False show ?thesis by (auto simp: converged_def settled_head_def)
  qed
  with converged_action [OF this assms(1,3)] show ?thesis by blast
qed

section \<open>The triggers of an edited analyst\<close>

definition regs :: "'r world \<Rightarrow> trigger_registration list" where
  "regs w = te_regs (wo_engine w)"

lemma hook_regs [simp]:
  "regs (write_observed_state env ac lc w) = regs w"
  "regs (analyst_went_live ac w) = regs w"
  "regs (register_skills env ac w) = regs w"
  "regs (analyst_paused ac w) = regs w"
  "regs (w\<lparr>wo_calls := cs\<rparr>) = regs w"
  "regs (w\<lparr>wo_breaker := b\<rparr>) = regs w"
  by (simp_all add: regs_def write_observed_state_def analyst_went_live_def remember_analyst_def
      register_skills_def analyst_paused_def forget_analyst_def Let_def)

lemma retired_regs:
  "regs (analyst_retired ac w) =
     (if ra_descriptor_kind ac = ''analyst'' then filter (\<lambda>r. tg_analyst_id r \<noteq> ra_descriptor_id ac) (regs w)
      else regs w)"
  by (simp add: regs_def analyst_retired_def forget_analyst_def unregister_def Let_def)

lemma go_regs:
  "regs (go_live env ac w) = regs w" "regs (go_paused env ac w) = regs w"
  "set (regs (go_retired env ac w)) \<subseteq> set (regs w)"
  by (auto simp: go_live_def go_paused_def go_retired_def retired_regs)

lemma call_regs:
  assumes "\<And>w. set (regs (k w)) \<subseteq> set (regs w)"
  shows "set (regs (fst (proxy_call env a m k w))) \<subseteq> set (regs w)"
  using assms [of "w\<lparr>wo_calls := wo_calls w @ [(a, m)], wo_breaker := AList.delete a (wo_breaker w)\<rparr>"]
  by (cases "ev_proxy env a m") (simp_all add: proxy_call_def)

lemma execute_regs: "set (regs (fst (execute_action env ac w))) \<subseteq> set (regs w)"
proof -
  have live: "set (regs (fst (proxy_call env a m (go_live env ac) w))) \<subseteq> set (regs w)"
    and paused: "set (regs (fst (proxy_call env a m (go_paused env ac) w))) \<subseteq> set (regs w)"
    and retired: "set (regs (fst (proxy_call env a m (go_retired env ac) w))) \<subseteq> set (regs w)"
    and restarted: "set (regs (fst (proxy_call env a m (write_observed_state env ac ACTIVE) w))) \<subseteq> set (regs w)"
    for a m
    by (rule call_regs, simp add: go_regs)+
  show ?thesis
    unfolding execute_action_def Let_def
    by (cases "ra_kind ac") (simp_all only: action_kind.case fst_conv subset_refl live paused
      retired restarted simp_thms split: if_split)
qed

lemma sweep_regs: "set (regs (sweep_siblings env d sibs w)) \<subseteq> set (regs w)"
proof (induction sibs arbitrary: w)
  case (Cons s sibs)
  from Cons.IH [of "fst (execute_action env (retire_sibling d s) w)"] execute_regs
  show ?case by (fastforce simp: sweep_siblings_def)
qed (simp add: sweep_siblings_def)

lemma run_once_regs: "set (regs (fst (run_once env kinds d w))) \<subseteq> set (regs w)"
proof -
  let ?sibs = "if ev_list_ok env then list_live_siblings w d (head_id d) else []"
  let ?w = "sweep_siblings env d ?sibs w"
  have "set (regs (fst (run_once env kinds d w))) \<subseteq> set (regs ?w)"
    using execute_regs by (auto simp: run_once_def Let_def split_beta)
  also have "\<dots> \<subseteq> set (regs w)" by (rule sweep_regs)
  finally show ?thesis .
qed

lemma main_loop_regs: "set (regs (main_loop env kinds resolve queue w)) \<subseteq> set (regs w)"
proof (induction queue arbitrary: w)
  case (Cons did queue)
  show ?case
  proof (cases "resolve did")
    case (Some d)
    from Cons.IH [of "fst (run_once env kinds d w)"] run_once_regs [of env kinds d w] Some
    show ?thesis by auto
  qed (use Cons in simp)
qed simp

lemma sweep_unregisters:
  assumes "friendly env" and "ds_descriptor_kind d = ''analyst''" and "sibs \<noteq> []"
    and "r \<in> set (regs (sweep_siblings env d sibs w))"
  shows "tg_analyst_id r \<noteq> ds_descriptor_id d"
proof -
  obtain s sibs' where s: "sibs = s # sibs'" using assms(3) by (cases sibs) auto
  let ?ac = "retire_sibling d s"
  let ?w = "fst (execute_action env ?ac w)"
  have k: "ra_descriptor_kind ?ac = ''analyst''" "ra_kind ?ac = A_retire_actor" "ra_descriptor_id ?ac = ds_descriptor_id d"
    using assms(2) by (simp_all add: retire_sibling_def)
  then have "known_kind (ra_descriptor_kind ?ac)" by (simp add: known_kind_def)
  from execute_known(4) [OF this k(2), of env w]
  have "regs ?w = filter (\<lambda>r. tg_analyst_id r \<noteq> ds_descriptor_id d) (regs w)"
    using k by (simp add: confirmed_call [OF assms(1)] go_retired_def retired_regs)
  moreover have "r \<in> set (regs ?w)"
    using assms(4) sweep_regs [of env d sibs' ?w] s by (auto simp: sweep_siblings_def)
  ultimately show ?thesis by simp
qed

text \<open>Editing an analyst silences its triggers. When the registry holds a new version of an
  active analyst while an older one still runs, one pass in which every actor confirms makes the
  new head live: its row is active and it is the actor the dispatcher will address. But the
  sweep that retires the old version removes every trigger registration of the analyst, and no
  pass over any descriptor, however many follow, puts one back: the analyst is live and, until
  the process is started again, reacts to no signal.\<close>

theorem edited_analyst_loses_triggers:
  assumes "friendly env" and "reconcilable d" and "ds_descriptor_kind d = ''analyst''"
    and "ds_lifecycle_target d = ACTIVE" and "''analyst'' \<in> set kinds"
    and "distinct (map fst (wo_rows w))"
    and "list_live_siblings w d (head_id d) \<noteq> []" and "map_of (wo_rows w) (head_id d) = None"
    and "w1 = fst (run_once env kinds d w)"
  shows "map_option ar_lifecycle (map_of (wo_rows w1) (head_id d)) = Some ACTIVE
    \<and> map_of (wo_live w1) (ds_descriptor_id d) = Some (head_id d)
    \<and> ds_descriptor_id d \<notin> tg_analyst_id ` set (regs (main_loop env kinds resolve queue w1))"
proof -
  let ?h = "head_id d"
  let ?sibs = "list_live_siblings w d ?h"
  let ?w = "sweep_siblings env d ?sibs w"
  let ?ac = "(base_action A_create_actor ?h d)\<lparr>ra_to := ds_lifecycle_target d\<rparr>"
  have kind: "known_kind (ds_descriptor_kind d)" using assms(2) by (simp add: reconcilable_def)
  have list_ok: "ev_list_ok env" using assms(1) by (simp add: friendly_def)
  have none: "map_of (wo_rows ?w) ?h = None"
    using sweep_clears(2) [OF assms(1) kind assms(6)] assms(8) by simp
  have "w1 = fst (execute_action env ?ac ?w)"
    using assms(3,4,5,9) list_ok none by (simp add: run_once_def common_reconcile_def Let_def split_beta)
  also have "\<dots> = fst (proxy_call env ?h M_activate (go_live env ?ac) ?w)"
    using execute_known(1) [of ?ac env ?w] assms(4) kind by simp
  finally have w1: "w1 = go_live env ?ac (?w\<lparr>wo_calls := wo_calls ?w @ [(?h, M_activate)],
      wo_breaker := AList.delete ?h (wo_breaker ?w)\<rparr>)"
    by (simp add: confirmed_call [OF assms(1)])
  have "map_of (wo_live w1) (ds_descriptor_id d) = Some ?h"
    unfolding w1 go_live_def
    by (simp add: write_observed_state_def register_skills_def analyst_went_live_def remember_analyst_def
        table_simps assms(3) Let_def)
  moreover have "map_option ar_lifecycle (map_of (wo_rows w1) ?h) = Some ACTIVE"
    unfolding w1 by (simp add: go_rows [OF assms(1)] table_simps)
  moreover have "regs w1 = regs ?w" unfolding w1 by (simp add: go_regs)
  then have "ds_descriptor_id d \<notin> tg_analyst_id ` set (regs w1)"
    by (auto dest: sweep_unregisters [OF assms(1,3,7)])
  then have "ds_descriptor_id d \<notin> tg_analyst_id ` set (regs (main_loop env kinds resolve queue w1))"
    using main_loop_regs [of env kinds resolve queue w1] by blast
  ultimately show ?thesis by blast
qed

section \<open>An example\<close>

definition demo_env :: reconcile_env where
  "demo_env =
     \<lparr>ev_proxy = (\<lambda>_ _. Confirmed), ev_store_ok = True, ev_list_ok = True, ev_skill_ok = (\<lambda>_. True),
      ev_trips = 3, ev_cooloff = 600, ev_clock = 0, ev_max_tracked = 5000\<rparr>"

definition demo_desired :: desired_state where
  "demo_desired =
     \<lparr>ds_descriptor_id = ''risk'', ds_descriptor_kind = ''analyst'', ds_descriptor_version = ''bbbb'',
      ds_lifecycle_target = ACTIVE\<rparr>"

definition demo_old_row :: actor_row where
  "demo_old_row =
     \<lparr>ar_actor_kind = ''analyst'', ar_descriptor_id = ''risk'', ar_descriptor_version = ''aaaa'',
      ar_lifecycle = ACTIVE, ar_last_outcome = None\<rparr>"

definition demo_world :: "unit world" where
  "demo_world =
     \<lparr>wo_rows = [(''analyst::risk::aaaa'', demo_old_row)], wo_live = [(''risk'', ''analyst::risk::aaaa'')],
      wo_skills = [],
      wo_engine = \<lparr>te_regs = [\<lparr>tg_analyst_id = ''risk'', tg_target_id = ''t'', tg_tenant = ''default'',
          tg_bindings = [], tg_subject_filters = []\<rparr>],
        te_coalescer = \<lparr>co_table = [], co_runner = ()\<rparr>, te_delivered = 0, te_matched = 0, te_fired = 0\<rparr>,
      wo_breaker = [], wo_calls = []\<rparr>"

lemma demo_friendly: "friendly demo_env"
  by (simp add: friendly_def demo_env_def)

lemma demo_reconcilable: "reconcilable demo_desired"
  by code_simp

lemma demo_distinct: "distinct (map fst (wo_rows demo_world))"
  by (simp add: demo_world_def)

lemma reconcile_converges_witness:
  "converged demo_desired (fst (run_once demo_env production_kinds demo_desired
     (fst (run_once demo_env production_kinds demo_desired demo_world))))"
proof -
  have k: "ds_descriptor_kind demo_desired \<in> set production_kinds" by code_simp
  show ?thesis
    using reconcile_converges [OF demo_friendly demo_reconcilable k demo_distinct refl] by blast
qed

lemma edited_analyst_loses_triggers_witness:
  "length (regs demo_world) = 1
   \<and> ''risk'' \<notin> tg_analyst_id ` set (regs (main_loop demo_env production_kinds (\<lambda>_. Some demo_desired)
       [''risk'', ''risk''] (fst (run_once demo_env production_kinds demo_desired demo_world))))"
proof -
  have k: "ds_descriptor_kind demo_desired = ''analyst''" "ds_lifecycle_target demo_desired = ACTIVE"
    "''analyst'' \<in> set production_kinds" "ds_descriptor_id demo_desired = ''risk''"
    by (simp_all add: demo_desired_def production_kinds_def)
  have s: "list_live_siblings demo_world demo_desired (head_id demo_desired) \<noteq> []"
    and n: "map_of (wo_rows demo_world) (head_id demo_desired) = None"
    by (simp_all add: list_live_siblings_def head_id_def default_actor_id_def demo_world_def
        demo_desired_def demo_old_row_def)
  have l: "length (regs demo_world) = 1" by (simp add: regs_def demo_world_def)
  show ?thesis
    using edited_analyst_loses_triggers [OF demo_friendly demo_reconcilable k(1-3) demo_distinct s n refl,
        of "\<lambda>_. Some demo_desired" "[''risk'', ''risk'']"] l k(4) by simp
qed

end
