(* ===== verification/Receipts.thy ===== *)
theory Receipts
  imports Signals "HOL-Library.Char_ord" "HOL-Library.List_Lexorder" "HOL-Library.Product_Lexorder"
begin

text \<open>
  The receipt chain of an analyst: \<open>compute_receipt_hash\<close> and \<open>ZERO_HASH\<close> of
  \<open>data/provenance/_core.py\<close> and the class \<open>RuntimeReceiptChain\<close> of
  \<open>data/provenance/receipts.py\<close>. SHA-256 over canonical JSON is the parameter \<open>H\<close>, a
  function of the hashed fields; what is said about it is said as a hypothesis on the hashes
  that really occur. The table \<open>analyst_traces\<close> is the list of its rows in insertion order.
  The per-analyst lock is modelled by a pending entry between the two halves of \<open>record\<close>:
  reading the head, and inserting the row. A restart of the process loses the memory and the
  pending runs and keeps the table.
\<close>

section \<open>Receipts\<close>

record receipt_payload =
  rp_run_id :: py_str
  rp_analyst_id :: py_str
  rp_analyst_version :: py_str
  rp_input_row_refs :: "py_str list"
  rp_prompt_module_hash :: "py_str option"
  rp_prompt_rendered :: "py_str option"
  rp_output_row_refs :: "py_str list"
  rp_output_payload :: json
  rp_run_ended_at :: instant
  rp_prev_receipt_hash :: py_str

definition ZERO_HASH :: py_str where
  "ZERO_HASH = replicate 64 CHR ''0''"

lemma ZERO_HASH_neq [simp]: "c \<noteq> CHR ''0'' \<Longrightarrow> c # cs \<noteq> ZERO_HASH" "c \<noteq> CHR ''0'' \<Longrightarrow> ZERO_HASH \<noteq> c # cs"
  and ZERO_HASH_not_Nil [simp]: "ZERO_HASH \<noteq> []" "[] \<noteq> ZERO_HASH"
  by (simp_all add: ZERO_HASH_def numeral_eq_Suc)

record run_args =
  ra_run_id :: py_str
  ra_analyst_id :: py_str
  ra_analyst_version :: py_str
  ra_cadence_trigger :: py_str
  ra_target_id :: "py_str option"
  ra_input_row_refs :: "py_str list"
  ra_input_payload :: json
  ra_prompt_module_hash :: "py_str option"
  ra_prompt_rendered :: "py_str option"
  ra_output_row_refs :: "py_str list"
  ra_output_payload :: json
  ra_run_started_at :: instant
  ra_run_ended_at :: instant
  ra_status :: py_str
  ra_intermediate_steps :: "json list"
  ra_llm_calls :: "json list"
  ra_tool_calls :: "json list"
  ra_error_payload :: "json option"
  ra_prompt_sha256 :: "py_str option"

text \<open>\<^verbatim>\<open>prev_receipt_hash or ZERO_HASH\<close>: an absent or empty predecessor is the zero hash.\<close>

definition prev_or_zero :: "py_str option \<Rightarrow> py_str" where
  "prev_or_zero prev = (case prev of Some h \<Rightarrow> (if h = [] then ZERO_HASH else h) | None \<Rightarrow> ZERO_HASH)"

definition receipt_payload_of :: "run_args \<Rightarrow> py_str option \<Rightarrow> receipt_payload" where
  "receipt_payload_of r prev =
     \<lparr>rp_run_id = ra_run_id r, rp_analyst_id = ra_analyst_id r,
      rp_analyst_version = ra_analyst_version r, rp_input_row_refs = sort (ra_input_row_refs r),
      rp_prompt_module_hash = ra_prompt_module_hash r, rp_prompt_rendered = ra_prompt_rendered r,
      rp_output_row_refs = sort (ra_output_row_refs r), rp_output_payload = ra_output_payload r,
      rp_run_ended_at = ra_run_ended_at r, rp_prev_receipt_hash = prev_or_zero prev\<rparr>"

type_synonym receipt_hash = "receipt_payload \<Rightarrow> py_str"

definition compute_receipt_hash :: "receipt_hash \<Rightarrow> run_args \<Rightarrow> py_str option \<Rightarrow> py_str" where
  "compute_receipt_hash H r prev = H (receipt_payload_of r prev)"

section \<open>The trace table\<close>

record trace_row =
  tr_run_id :: py_str
  tr_analyst_id :: py_str
  tr_analyst_version :: py_str
  tr_target_id :: "py_str option"
  tr_cadence_trigger :: py_str
  tr_input_row_refs :: "py_str list"
  tr_input_payload :: json
  tr_prompt_module_hash :: "py_str option"
  tr_prompt_rendered :: "py_str option"
  tr_prompt_sha256 :: "py_str option"
  tr_intermediate_steps :: "json list"
  tr_llm_calls :: "json list"
  tr_tool_calls :: "json list"
  tr_output_row_refs :: "py_str list"
  tr_output_payload :: json
  tr_status :: py_str
  tr_error_payload :: "json option"
  tr_run_started_at :: instant
  tr_run_ended_at :: instant
  tr_receipt_hash :: py_str
  tr_prev_receipt_hash :: "py_str option"

text \<open>Python's truth of a JSON value: null, false, zero and what is empty are false.\<close>

fun json_truthy :: "json \<Rightarrow> bool" where
  "json_truthy J_null = False"
| "json_truthy (J_bool b) = b"
| "json_truthy (J_int n) = (n \<noteq> 0)"
| "json_truthy (J_float s) = (s \<noteq> ''0.0'' \<and> s \<noteq> ''-0.0'')"
| "json_truthy (J_str s) = (s \<noteq> [])"
| "json_truthy (J_list xs) = (xs \<noteq> [])"
| "json_truthy (J_object kvs) = (kvs \<noteq> [])"

definition or_empty :: "json \<Rightarrow> json" where
  "or_empty v = (if json_truthy v then v else J_object [])"

definition trace_of :: "run_args \<Rightarrow> py_str \<Rightarrow> py_str \<Rightarrow> trace_row" where
  "trace_of r receipt prev =
     \<lparr>tr_run_id = ra_run_id r, tr_analyst_id = ra_analyst_id r,
      tr_analyst_version = ra_analyst_version r, tr_target_id = ra_target_id r,
      tr_cadence_trigger = ra_cadence_trigger r, tr_input_row_refs = ra_input_row_refs r,
      tr_input_payload = or_empty (ra_input_payload r),
      tr_prompt_module_hash = ra_prompt_module_hash r, tr_prompt_rendered = ra_prompt_rendered r,
      tr_prompt_sha256 = ra_prompt_sha256 r, tr_intermediate_steps = ra_intermediate_steps r,
      tr_llm_calls = ra_llm_calls r, tr_tool_calls = ra_tool_calls r,
      tr_output_row_refs = ra_output_row_refs r,
      tr_output_payload = or_empty (ra_output_payload r), tr_status = ra_status r,
      tr_error_payload = ra_error_payload r, tr_run_started_at = ra_run_started_at r,
      tr_run_ended_at = ra_run_ended_at r, tr_receipt_hash = receipt,
      tr_prev_receipt_hash = Some prev\<rparr>"

definition chain_rows :: "trace_row list \<Rightarrow> py_str \<Rightarrow> trace_row list" where
  "chain_rows db aid = filter (\<lambda>t. tr_analyst_id t = aid) db"

definition referenced :: "trace_row list \<Rightarrow> py_str set" where
  "referenced rows = set (List.map_filter tr_prev_receipt_hash rows)"

definition tips :: "trace_row list \<Rightarrow> trace_row list" where
  "tips rows = filter (\<lambda>t. tr_receipt_hash t \<notin> referenced rows) rows"

text \<open>\<^verbatim>\<open>ORDER BY key DESC LIMIT 1\<close>.\<close>

fun newest_by :: "(trace_row \<Rightarrow> 'k::linorder) \<Rightarrow> trace_row list \<Rightarrow> trace_row option" where
  "newest_by k [] = None"
| "newest_by k (t # ts) =
     (case newest_by k ts of
        None \<Rightarrow> Some t
      | Some u \<Rightarrow> Some (if k t < k u then u else t))"

definition head_order :: "trace_row \<Rightarrow> instant \<times> py_str" where
  "head_order t = (tr_run_started_at t, tr_run_id t)"

section \<open>The chain\<close>

record chain_mem =
  ch_heads :: "py_str \<Rightarrow> py_str option"
  ch_counts :: "py_str \<Rightarrow> nat option"

definition fresh_mem :: chain_mem where
  "fresh_mem = \<lparr>ch_heads = (\<lambda>_. None), ch_counts = (\<lambda>_. None)\<rparr>"

definition stored_head :: "trace_row list \<Rightarrow> py_str" where
  "stored_head rows =
     (case newest_by head_order (tips rows) of
        Some t \<Rightarrow> tr_receipt_hash t
      | None \<Rightarrow>
          (case newest_by head_order rows of
             Some t \<Rightarrow> tr_receipt_hash t
           | None \<Rightarrow> ZERO_HASH))"

definition head_locked :: "trace_row list \<Rightarrow> py_str \<Rightarrow> chain_mem \<Rightarrow> py_str \<times> chain_mem" where
  "head_locked db aid m =
     (case ch_heads m aid of
        Some h \<Rightarrow> (h, m)
      | None \<Rightarrow>
          (let rows = chain_rows db aid; h = stored_head rows in
           (h, m\<lparr>ch_heads := (ch_heads m)(aid \<mapsto> h), ch_counts := (ch_counts m)(aid \<mapsto> length rows)\<rparr>)))"

definition chain_count :: "trace_row list \<Rightarrow> py_str \<Rightarrow> chain_mem \<Rightarrow> nat \<times> chain_mem" where
  "chain_count db aid m =
     (let m' = (if ch_counts m aid = None then snd (head_locked db aid m) else m) in
      (case ch_counts m' aid of Some n \<Rightarrow> n | None \<Rightarrow> 0, m'))"

datatype chain_error = Requires_analyst_id | Unique_violation

definition head_tip_count ::
  "trace_row list \<Rightarrow> py_str option \<Rightarrow> py_str option \<Rightarrow> chain_error + nat" where
  "head_tip_count db bound analyst_id =
     (case (case analyst_id of Some a \<Rightarrow> Some a | None \<Rightarrow> bound) of
        None \<Rightarrow> Inl Requires_analyst_id
      | Some aid \<Rightarrow> Inr (length (tips (chain_rows db aid))))"

text \<open>
  The two halves of \<open>record\<close>: the head is read and the receipt computed; then the row is
  inserted, the run id being the primary key, and the head advances.
\<close>

definition record_prepare ::
  "receipt_hash \<Rightarrow> trace_row list \<Rightarrow> run_args \<Rightarrow> chain_mem \<Rightarrow> (py_str \<times> py_str) \<times> chain_mem" where
  "record_prepare H db r m =
     (let (prev, m') = head_locked db (ra_analyst_id r) m in
      ((compute_receipt_hash H r (Some prev), prev), m'))"

definition record_commit ::
  "trace_row list \<Rightarrow> run_args \<Rightarrow> py_str \<times> py_str \<Rightarrow> chain_mem \<Rightarrow>
     (chain_error + trace_row list) \<times> chain_mem" where
  "record_commit db r rp m =
     (let (receipt, prev) = rp; aid = ra_analyst_id r in
      if ra_run_id r \<in> tr_run_id ` set db then (Inl Unique_violation, m)
      else (Inr (db @ [trace_of r receipt prev]),
            m\<lparr>ch_heads := (ch_heads m)(aid \<mapsto> receipt),
              ch_counts := (ch_counts m)(aid \<mapsto>
                 (case ch_counts m aid of Some n \<Rightarrow> n | None \<Rightarrow> 0) + 1)\<rparr>))"

definition record_run ::
  "receipt_hash \<Rightarrow> run_args \<Rightarrow> trace_row list \<times> chain_mem \<Rightarrow>
     (chain_error + py_str \<times> py_str) \<times> trace_row list \<times> chain_mem" where
  "record_run H r s =
     (let (db, m) = s;
          (rp, m1) = record_prepare H db r m;
          (res, m2) = record_commit db r rp m1 in
      case res of
        Inl e \<Rightarrow> (Inl e, db, m2)
      | Inr db' \<Rightarrow> (Inr rp, db', m2))"

definition append_run ::
  "receipt_hash \<Rightarrow> run_args \<Rightarrow> trace_row list \<times> chain_mem \<Rightarrow>
     (chain_error + py_str) \<times> trace_row list \<times> chain_mem" where
  "append_run H r s =
     (let (res, s') = record_run H r s in
      (case res of Inl e \<Rightarrow> Inl e | Inr (receipt, prev) \<Rightarrow> Inr receipt, s'))"

definition append_llm_calls ::
  "trace_row list \<Rightarrow> py_str \<Rightarrow> json list \<Rightarrow> nat \<times> trace_row list" where
  "append_llm_calls db rid calls =
     (if calls = [] then (0, db)
      else (if rid \<in> tr_run_id ` set db then length calls else 0,
            map (\<lambda>t. if tr_run_id t = rid then t\<lparr>tr_llm_calls := tr_llm_calls t @ calls\<rparr> else t) db))"

section \<open>Runs of a process\<close>

record chain_world =
  cw_db :: "trace_row list"
  cw_mem :: chain_mem
  cw_pending :: "py_str \<Rightarrow> (run_args \<times> py_str \<times> py_str) option"

datatype chain_event =
    C_begin run_args
  | C_commit py_str
  | C_fail py_str
  | C_head py_str
  | C_append py_str "json list"
  | C_restart

text \<open>
  \<open>C_begin\<close> takes the lock of the run's analyst and is blocked while a run of it is pending;
  so is reading the head of an analyst that is not cached. \<open>C_fail\<close> is an INSERT that raises
  for any other reason than the key and stores nothing: the lock is released and the head stays.
\<close>

fun chain_step :: "receipt_hash \<Rightarrow> chain_event \<Rightarrow> chain_world \<Rightarrow> chain_world" where
  "chain_step H (C_begin r) w =
     (if cw_pending w (ra_analyst_id r) \<noteq> None then w
      else let (rp, m) = record_prepare H (cw_db w) r (cw_mem w) in
           w\<lparr>cw_mem := m, cw_pending := (cw_pending w)(ra_analyst_id r \<mapsto> (r, rp))\<rparr>)"
| "chain_step H (C_commit aid) w =
     (case cw_pending w aid of
        None \<Rightarrow> w
      | Some (r, rp) \<Rightarrow>
          let (res, m) = record_commit (cw_db w) r rp (cw_mem w) in
          w\<lparr>cw_mem := m, cw_pending := (cw_pending w)(aid := None),
            cw_db := (case res of Inl e \<Rightarrow> cw_db w | Inr db \<Rightarrow> db)\<rparr>)"
| "chain_step H (C_fail aid) w = w\<lparr>cw_pending := (cw_pending w)(aid := None)\<rparr>"
| "chain_step H (C_head aid) w =
     (if cw_pending w aid \<noteq> None then w
      else w\<lparr>cw_mem := snd (head_locked (cw_db w) aid (cw_mem w))\<rparr>)"
| "chain_step H (C_append rid calls) w = w\<lparr>cw_db := snd (append_llm_calls (cw_db w) rid calls)\<rparr>"
| "chain_step H C_restart w = w\<lparr>cw_mem := fresh_mem, cw_pending := (\<lambda>_. None)\<rparr>"

definition chain_start :: "trace_row list \<Rightarrow> chain_world" where
  "chain_start db = \<lparr>cw_db = db, cw_mem = fresh_mem, cw_pending = (\<lambda>_. None)\<rparr>"

fun chain_run :: "receipt_hash \<Rightarrow> chain_event list \<Rightarrow> chain_world \<Rightarrow> chain_world" where
  "chain_run H [] w = w"
| "chain_run H (e # es) w = chain_run H es (chain_step H e w)"

lemma chain_run_snoc: "chain_run H (es @ [e]) w = chain_step H e (chain_run H es w)"
  by (induction es arbitrary: w) simp_all

section \<open>Links\<close>

text \<open>What the chain consists of: the hash of each row and the hash it references.\<close>

definition links :: "trace_row list \<Rightarrow> (py_str \<times> py_str option) list" where
  "links rows = map (\<lambda>t. (tr_receipt_hash t, tr_prev_receipt_hash t)) rows"

definition linked :: "(py_str \<times> py_str option) list \<Rightarrow> bool" where
  "linked ls \<longleftrightarrow> map snd ls = map Some (butlast (ZERO_HASH # map fst ls))"

definition end_of :: "(py_str \<times> py_str option) list \<Rightarrow> py_str" where
  "end_of ls = last (ZERO_HASH # map fst ls)"

lemma links_simps [simp]: "links [] = []" "links (xs @ ys) = links xs @ links ys"
  by (simp_all add: links_def)

lemma links_Nil_iff [simp]: "links rows = [] \<longleftrightarrow> rows = []"
  by (simp add: links_def)

lemma fst_links: "map fst (links rows) = map tr_receipt_hash rows"
  by (simp add: links_def comp_def)

lemma linked_Nil [simp]: "linked []"
  by (simp add: linked_def)

lemma linked_snoc: "linked (ls @ [(h, p)]) \<longleftrightarrow> linked ls \<and> p = Some (end_of ls)"
proof -
  have "butlast (ZERO_HASH # map fst (ls @ [(h, p)])) = butlast (ZERO_HASH # map fst ls) @ [end_of ls]"
    by (simp add: end_of_def butlast_append)
  then show ?thesis by (simp add: linked_def)
qed

lemma end_of_snoc [simp]: "end_of (ls @ [(h, p)]) = h" and end_of_Nil [simp]: "end_of [] = ZERO_HASH"
  by (simp_all add: end_of_def)

lemma referenced_links: "referenced rows = {h. Some h \<in> snd ` set (links rows)}"
  by (auto simp: referenced_def in_set_map_filter links_def image_iff) (metis)

lemma linked_references:
  assumes "linked (ls @ [(h, p)])"
  shows "{x. Some x \<in> snd ` set (ls @ [(h, p)])} = insert ZERO_HASH (fst ` set ls)"
proof -
  have "snd ` set (ls @ [(h, p)]) = set (map snd (ls @ [(h, p)]))" by simp
  also have "\<dots> = Some ` set (butlast (ZERO_HASH # map fst (ls @ [(h, p)])))"
    using assms by (simp only: linked_def) (simp del: map_append)
  finally show ?thesis by (auto simp: butlast_append image_iff)
qed

lemma linked_tips:
  assumes "linked (links rows)" and "distinct (ZERO_HASH # map tr_receipt_hash rows)"
  shows "tips rows = (if rows = [] then [] else [last rows])"
proof (cases rows rule: rev_cases)
  case (snoc xs t)
  then have ref: "referenced rows = insert ZERO_HASH (tr_receipt_hash ` set xs)"
    using assms(1) linked_references [of "links xs"]
    by (simp add: referenced_links links_def image_image)
  have "filter (\<lambda>u. tr_receipt_hash u \<notin> referenced rows) xs = []"
    by (simp add: ref filter_empty_conv)
  moreover have "tr_receipt_hash t \<notin> referenced rows"
    using assms(2) unfolding ref by (auto simp add: snoc)
  ultimately show ?thesis by (simp add: tips_def snoc)
qed (simp add: tips_def)

lemma stored_head_linked:
  assumes "linked (links rows)" and "distinct (ZERO_HASH # map tr_receipt_hash rows)"
  shows "stored_head rows = end_of (links rows)"
  using linked_tips [OF assms]
  by (cases rows rule: rev_cases) (simp_all add: stored_head_def end_of_def links_def)

lemma chain_rows_simps [simp]:
  "chain_rows [] aid = []"
  "chain_rows (xs @ ys) aid = chain_rows xs aid @ chain_rows ys aid"
  "chain_rows [t] aid = (if tr_analyst_id t = aid then [t] else [])"
  by (simp_all add: chain_rows_def)

lemma links_append_llm_calls [simp]:
  "links (chain_rows (snd (append_llm_calls db rid calls)) aid) = links (chain_rows db aid)"
proof -
  let ?f = "\<lambda>t. if tr_run_id t = rid then t\<lparr>tr_llm_calls := tr_llm_calls t @ calls\<rparr> else t"
  have "links (chain_rows (map ?f db) aid) = links (chain_rows db aid)"
    by (induction db) (simp_all add: links_def chain_rows_def)
  then show ?thesis by (simp add: append_llm_calls_def)
qed

lemma links_trace_of [simp]: "links [trace_of r receipt prev] = [(receipt, Some prev)]"
  by (simp add: links_def trace_of_def)

lemma trace_of_analyst [simp]: "tr_analyst_id (trace_of r receipt prev) = ra_analyst_id r"
  by (simp add: trace_of_def)

section \<open>One process keeps a chain\<close>

text \<open>What a step adds to the links of an analyst.\<close>

definition new_links :: "chain_event \<Rightarrow> chain_world \<Rightarrow> py_str \<Rightarrow> (py_str \<times> py_str option) list" where
  "new_links e w aid =
     (case e of
        C_commit a \<Rightarrow>
          (case cw_pending w a of
             Some (r, receipt, prev) \<Rightarrow>
               (if ra_run_id r \<notin> tr_run_id ` set (cw_db w) \<and> ra_analyst_id r = aid
                then [(receipt, Some prev)] else [])
           | None \<Rightarrow> [])
      | _ \<Rightarrow> [])"

lemma step_links:
  "links (chain_rows (cw_db (chain_step H e w)) aid) =
     links (chain_rows (cw_db w) aid) @ new_links e w aid"
  by (cases e)
     (auto simp: new_links_def record_commit_def Let_def split: option.splits prod.splits)

lemma run_links_prefix:
  "\<exists>ls. links (chain_rows (cw_db (chain_run H es w)) aid) = links (chain_rows (cw_db w) aid) @ ls"
proof (induction es arbitrary: w)
  case (Cons e es)
  then show ?case by (metis append.assoc chain_run.simps(2) step_links)
qed simp

text \<open>A pending run was begun at the head that is still cached.\<close>

definition pending_ok :: "receipt_hash \<Rightarrow> chain_world \<Rightarrow> bool" where
  "pending_ok H w \<longleftrightarrow>
     (\<forall>a r receipt prev. cw_pending w a = Some (r, receipt, prev) \<longrightarrow>
        ra_analyst_id r = a \<and> ch_heads (cw_mem w) a = Some prev \<and>
        receipt = compute_receipt_hash H r (Some prev))"

lemma step_begin:
  assumes "cw_pending w (ra_analyst_id r) = None"
  shows "cw_db (chain_step H (C_begin r) w) = cw_db w"
    and "cw_mem (chain_step H (C_begin r) w) = snd (head_locked (cw_db w) (ra_analyst_id r) (cw_mem w))"
  using assms by (simp_all add: record_prepare_def Let_def split: prod.split)

lemma head_locked_caches: "ch_heads (snd (head_locked db aid m)) aid = Some (fst (head_locked db aid m))"
  by (auto simp: head_locked_def Let_def split: option.split)

lemma head_locked_others: "a \<noteq> aid \<Longrightarrow> ch_heads (snd (head_locked db aid m)) a = ch_heads m a"
  by (auto simp: head_locked_def Let_def split: option.split)

lemma head_locked_cached:
  "ch_heads m a = Some h \<Longrightarrow> ch_heads (snd (head_locked db aid m)) a = Some h"
  by (cases "a = aid") (auto simp: head_locked_others, auto simp: head_locked_def)

lemma pending_ok_step: "pending_ok H w \<Longrightarrow> pending_ok H (chain_step H e w)"
proof (cases e)
  case (C_begin r)
  assume ok: "pending_ok H w"
  let ?m = "snd (head_locked (cw_db w) (ra_analyst_id r) (cw_mem w))"
  show ?thesis
  proof (cases "cw_pending w (ra_analyst_id r)")
    case None
    have "chain_step H e w =
       w\<lparr>cw_mem := ?m, cw_pending := (cw_pending w)(ra_analyst_id r \<mapsto>
          (r, compute_receipt_hash H r (Some (fst (head_locked (cw_db w) (ra_analyst_id r) (cw_mem w)))),
           fst (head_locked (cw_db w) (ra_analyst_id r) (cw_mem w))))\<rparr>"
      using None by (simp add: C_begin record_prepare_def Let_def split: prod.split)
    then show ?thesis
      using ok by (auto simp: pending_ok_def head_locked_caches head_locked_others)
  qed (use ok C_begin in simp)
qed (auto simp: pending_ok_def record_commit_def Let_def fresh_mem_def head_locked_cached
       split: option.splits prod.splits if_splits)

definition chain_ok :: "py_str \<Rightarrow> chain_world \<Rightarrow> bool" where
  "chain_ok aid w \<longleftrightarrow>
     linked (links (chain_rows (cw_db w) aid)) \<and>
     (\<forall>h. ch_heads (cw_mem w) aid = Some h \<longrightarrow> h = end_of (links (chain_rows (cw_db w) aid)))"

lemma head_locked_end:
  assumes "chain_ok aid w" and "distinct (ZERO_HASH # map tr_receipt_hash (chain_rows (cw_db w) aid))"
  shows "fst (head_locked (cw_db w) aid (cw_mem w)) = end_of (links (chain_rows (cw_db w) aid))"
  using assms stored_head_linked [of "chain_rows (cw_db w) aid"]
  by (auto simp: head_locked_def chain_ok_def Let_def split: option.split)

lemma chain_ok_head_locked:
  assumes "chain_ok aid w" and "distinct (ZERO_HASH # map tr_receipt_hash (chain_rows (cw_db w) aid))"
    and "ch_heads (snd (head_locked (cw_db w) a (cw_mem w))) aid = Some h"
  shows "h = end_of (links (chain_rows (cw_db w) aid))"
proof (cases "a = aid")
  case True
  then show ?thesis using assms head_locked_end by (simp add: head_locked_caches)
next
  case False
  then show ?thesis using assms by (simp add: head_locked_others chain_ok_def)
qed

lemma chain_ok_commit:
  assumes ok: "chain_ok aid w" "pending_ok H w"
  shows "chain_ok aid (chain_step H (C_commit a) w)"
proof (cases "cw_pending w a")
  case (Some p)
  obtain r receipt prev where p: "p = (r, receipt, prev)" by (cases p)
  with Some ok(2) have a: "ra_analyst_id r = a" "ch_heads (cw_mem w) a = Some prev"
    by (auto simp: pending_ok_def)
  show ?thesis
  proof (cases "ra_run_id r \<in> tr_run_id ` set (cw_db w)")
    case True
    then show ?thesis using ok(1) Some p by (simp add: record_commit_def chain_ok_def)
  next
    case False
    then show ?thesis using ok(1) Some p a
      by (cases "a = aid") (auto simp: record_commit_def chain_ok_def Let_def linked_snoc)
  qed
qed (use ok in simp)

lemma chain_ok_step:
  assumes "chain_ok aid w" "pending_ok H w"
    and "distinct (ZERO_HASH # map tr_receipt_hash (chain_rows (cw_db w) aid))"
  shows "chain_ok aid (chain_step H e w)"
proof (cases e)
  case (C_begin r)
  show ?thesis
  proof (cases "cw_pending w (ra_analyst_id r)")
    case None
    then show ?thesis
      using assms chain_ok_head_locked [OF assms(1,3)]
      by (simp only: C_begin chain_ok_def step_begin) simp
  qed (use assms C_begin in simp)
next
  case (C_commit a)
  then show ?thesis using chain_ok_commit [OF assms(1,2)] by simp
next
  case (C_fail a)
  then show ?thesis using assms by (simp add: chain_ok_def)
next
  case (C_head a)
  then show ?thesis
    using assms chain_ok_head_locked [OF assms(1,3)] by (auto simp: chain_ok_def)
next
  case (C_append rid calls)
  then show ?thesis using assms by (simp add: chain_ok_def)
next
  case C_restart
  then show ?thesis using assms by (simp add: chain_ok_def fresh_mem_def)
qed

lemma pending_ok_run: "pending_ok H (chain_run H es (chain_start db))"
  by (induction es rule: rev_induct)
     (simp add: pending_ok_def chain_start_def, simp add: chain_run_snoc pending_ok_step)

lemma distinct_hashes_back:
  assumes "distinct (ZERO_HASH # map tr_receipt_hash (chain_rows (cw_db (chain_step H e w)) aid))"
  shows "distinct (ZERO_HASH # map tr_receipt_hash (chain_rows (cw_db w) aid))"
  using assms step_links [of H e w aid] by (simp add: fst_links [symmetric])

lemma chain_ok_run:
  assumes "linked (links (chain_rows db aid))"
    and "distinct (ZERO_HASH # map tr_receipt_hash (chain_rows (cw_db (chain_run H es (chain_start db))) aid))"
  shows "chain_ok aid (chain_run H es (chain_start db))"
  using assms(2)
proof (induction es rule: rev_induct)
  case Nil
  then show ?case using assms(1) by (simp add: chain_ok_def chain_start_def fresh_mem_def)
next
  case (snoc e es)
  then show ?case
    by (simp only: chain_run_snoc) (metis chain_ok_step distinct_hashes_back pending_ok_run)
qed

text \<open>C7: However the runs of a process begin, commit, fail on a duplicate run id or with an INSERT that stores nothing, restart or
  have model calls appended, the receipts of an analyst form one chain in insertion order: each
  row references the hash of the row before it, the first the zero hash; the chain has one tip,
  its last row; and the hash of that row is the head whenever a head is in memory.\<close>

theorem chain_stays_linear:
  assumes "linked (links (chain_rows db aid))"
    and "w = chain_run H es (chain_start db)"
    and "rows = chain_rows (cw_db w) aid"
    and "distinct (ZERO_HASH # map tr_receipt_hash rows)"
  shows "map tr_prev_receipt_hash rows = map Some (butlast (ZERO_HASH # map tr_receipt_hash rows)) \<and>
    tips rows = (if rows = [] then [] else [last rows]) \<and>
    (ch_heads (cw_mem w) aid = None \<or>
     ch_heads (cw_mem w) aid = Some (last (ZERO_HASH # map tr_receipt_hash rows)))"
proof -
  have ok: "chain_ok aid w" using chain_ok_run assms by blast
  then have lk: "linked (links rows)" by (simp add: chain_ok_def assms(3))
  then show ?thesis
    using ok assms linked_tips [OF lk assms(4)]
    by (auto simp: chain_ok_def linked_def end_of_def links_def comp_def)
qed

section \<open>Receipts can be recomputed, and what that protects\<close>

text \<open>The hashed fields of a stored row, and the check that the row still has its receipt.\<close>

definition stored_payload :: "trace_row \<Rightarrow> receipt_payload" where
  "stored_payload t =
     \<lparr>rp_run_id = tr_run_id t, rp_analyst_id = tr_analyst_id t,
      rp_analyst_version = tr_analyst_version t, rp_input_row_refs = sort (tr_input_row_refs t),
      rp_prompt_module_hash = tr_prompt_module_hash t, rp_prompt_rendered = tr_prompt_rendered t,
      rp_output_row_refs = sort (tr_output_row_refs t), rp_output_payload = tr_output_payload t,
      rp_run_ended_at = tr_run_ended_at t,
      rp_prev_receipt_hash = prev_or_zero (tr_prev_receipt_hash t)\<rparr>"

definition row_verifies :: "receipt_hash \<Rightarrow> trace_row \<Rightarrow> bool" where
  "row_verifies H t \<longleftrightarrow> tr_receipt_hash t = H (stored_payload t)"

lemma stored_payload_trace_of:
  assumes "or_empty (ra_output_payload r) = ra_output_payload r"
  shows "stored_payload (trace_of r receipt prev) = receipt_payload_of r (Some prev)"
  using assms by (simp add: stored_payload_def receipt_payload_of_def trace_of_def)

lemma row_verifies_llm_calls [simp]: "row_verifies H (t\<lparr>tr_llm_calls := cs\<rparr>) = row_verifies H t"
  by (simp add: row_verifies_def stored_payload_def)

lemma row_verifies_append_llm_calls:
  "(\<forall>t \<in> set db. row_verifies H t) \<Longrightarrow>
     \<forall>t \<in> set (snd (append_llm_calls db rid calls)). row_verifies H t"
  by (auto simp: append_llm_calls_def)

lemma row_verifies_trace_of:
  assumes "or_empty (ra_output_payload r) = ra_output_payload r"
    and "receipt = compute_receipt_hash H r (Some prev)"
  shows "row_verifies H (trace_of r receipt prev)"
  unfolding row_verifies_def stored_payload_trace_of [OF assms(1)]
  by (simp add: assms(2) compute_receipt_hash_def trace_of_def)

text \<open>The events begin only runs whose output payload is stored as it is hashed.\<close>

definition faithful_outputs :: "chain_event list \<Rightarrow> bool" where
  "faithful_outputs es \<longleftrightarrow>
     (\<forall>r. C_begin r \<in> set es \<longrightarrow> or_empty (ra_output_payload r) = ra_output_payload r)"

definition rows_verify :: "receipt_hash \<Rightarrow> chain_world \<Rightarrow> bool" where
  "rows_verify H w \<longleftrightarrow>
     (\<forall>t \<in> set (cw_db w). row_verifies H t) \<and>
     (\<forall>a r rp. cw_pending w a = Some (r, rp) \<longrightarrow> or_empty (ra_output_payload r) = ra_output_payload r)"

lemma rows_verify_step:
  assumes "rows_verify H w" "pending_ok H w"
    and "\<And>r. e = C_begin r \<Longrightarrow> or_empty (ra_output_payload r) = ra_output_payload r"
  shows "rows_verify H (chain_step H e w)"
proof (cases e)
  case (C_commit a)
  then show ?thesis
    using assms
    by (auto simp: rows_verify_def record_commit_def Let_def pending_ok_def
        intro!: row_verifies_trace_of split: option.splits prod.splits) blast
next
  case (C_append rid calls)
  then show ?thesis
    using assms row_verifies_append_llm_calls [of "cw_db w" H] by (simp add: rows_verify_def)
qed (use assms in \<open>auto simp: rows_verify_def Let_def record_prepare_def split: prod.splits if_splits\<close>)

lemma rows_verify_run:
  "faithful_outputs es \<Longrightarrow> rows_verify H (chain_run H es (chain_start []))"
proof (induction es rule: rev_induct)
  case Nil
  show ?case by (simp add: rows_verify_def chain_start_def)
next
  case (snoc e es)
  then show ?case
    by (auto simp: chain_run_snoc faithful_outputs_def intro!: rows_verify_step pending_ok_run)
qed

definition verified_chain :: "receipt_hash \<Rightarrow> trace_row list \<Rightarrow> bool" where
  "verified_chain H rows \<longleftrightarrow> linked (links rows) \<and> (\<forall>t \<in> set rows. row_verifies H t)"

lemma verified_chain_snoc:
  "verified_chain H (rows @ [t]) \<longleftrightarrow>
     verified_chain H rows \<and> row_verifies H t \<and> tr_prev_receipt_hash t = Some (end_of (links rows))"
proof -
  have "links (rows @ [t]) = links rows @ [(tr_receipt_hash t, tr_prev_receipt_hash t)]"
    by (simp add: links_def)
  then show ?thesis by (auto simp: verified_chain_def linked_snoc simp del: links_simps)
qed

lemma end_of_links_snoc: "end_of (links (rows @ [t])) = tr_receipt_hash t"
  by (simp add: links_def end_of_def)

lemma end_of_links_cases: "end_of (links rows) \<in> insert ZERO_HASH (tr_receipt_hash ` set rows)"
  by (cases rows rule: rev_cases) (simp_all add: end_of_links_snoc del: links_simps(2))

lemma prev_or_zero_end:
  "\<forall>t \<in> set rows. tr_receipt_hash t \<noteq> [] \<Longrightarrow> prev_or_zero (Some (end_of (links rows))) = end_of (links rows)"
  using end_of_links_cases [of rows] by (auto simp: prev_or_zero_def ZERO_HASH_def)

lemma verified_chains_agree:
  assumes "verified_chain H xs" "verified_chain H ys"
    and "end_of (links xs) = end_of (links ys)"
    and "\<forall>t \<in> set xs \<union> set ys. tr_receipt_hash t \<noteq> [] \<and> tr_receipt_hash t \<noteq> ZERO_HASH"
    and "inj_on H (stored_payload ` (set xs \<union> set ys))"
  shows "map stored_payload xs = map stored_payload ys"
  using assms
proof (induction xs arbitrary: ys rule: rev_induct)
  case Nil
  then show ?case
    by (cases ys rule: rev_cases) (auto simp: end_of_links_snoc simp del: links_simps(2))
next
  case (snoc t xs)
  then obtain ys' u where ys: "ys = ys' @ [u]"
    by (cases ys rule: rev_cases) (auto simp: end_of_links_snoc simp del: links_simps(2))
  have "H (stored_payload t) = H (stored_payload u)"
    using snoc.prems(1-3) ys
    by (simp add: verified_chain_snoc end_of_links_snoc row_verifies_def del: links_simps(2))
  then have same: "stored_payload t = stored_payload u"
    by (rule inj_onD [OF snoc.prems(5)]) (simp_all add: ys)
  then have "prev_or_zero (tr_prev_receipt_hash t) = prev_or_zero (tr_prev_receipt_hash u)"
    by (simp add: stored_payload_def)
  moreover have "prev_or_zero (tr_prev_receipt_hash t) = end_of (links xs)"
    using snoc.prems(1,4) prev_or_zero_end [of xs] by (simp add: verified_chain_snoc)
  moreover have "prev_or_zero (tr_prev_receipt_hash u) = end_of (links ys')"
    using snoc.prems(2,4) prev_or_zero_end [of ys'] by (simp add: verified_chain_snoc ys)
  ultimately have "end_of (links xs) = end_of (links ys')" by simp
  moreover have "inj_on H (stored_payload ` (set xs \<union> set ys'))"
    by (rule inj_on_subset [OF snoc.prems(5)]) (auto simp: ys)
  ultimately have "map stored_payload xs = map stored_payload ys'"
    using snoc.prems(1,2,4) ys by (intro snoc.IH) (simp_all add: verified_chain_snoc)
  with same ys show ?case by simp
qed

text \<open>C10: The chain is tamper evident: rows that verify, that link up from the zero hash and
  that end in the head the process reached carry, run for run, the hashed fields the process
  recorded, as long as no two of the hashed payloads collide. Model calls appended later
  do not matter: they are not hashed.\<close>

theorem chain_tamper_evident:
  assumes "rows = chain_rows (cw_db (chain_run H es (chain_start []))) aid"
    and "faithful_outputs es"
    and "verified_chain H presented"
    and "end_of (links presented) = end_of (links rows)"
    and "distinct (ZERO_HASH # map tr_receipt_hash rows)"
    and "\<forall>t \<in> set rows \<union> set presented. tr_receipt_hash t \<noteq> [] \<and> tr_receipt_hash t \<noteq> ZERO_HASH"
    and "inj_on H (stored_payload ` (set rows \<union> set presented))"
  shows "map stored_payload presented = map stored_payload rows"
proof -
  have "chain_ok aid (chain_run H es (chain_start []))"
    using assms(1,5) by (intro chain_ok_run) simp_all
  moreover have "\<forall>t \<in> set rows. row_verifies H t"
    using rows_verify_run [OF assms(2)] assms(1) by (simp add: rows_verify_def chain_rows_def)
  ultimately have "verified_chain H rows"
    using assms(1) by (simp add: verified_chain_def chain_ok_def)
  then show ?thesis
    using assms(3,4,6,7) by (intro verified_chains_agree) (auto simp: Un_commute)
qed

section \<open>Forks\<close>

text \<open>
  A fork is a second tip. The number of tips only depends on the links; links are fresh when
  every hash is new at its row: not the zero hash, not the hash of an earlier row and not
  referenced by it or an earlier row.
\<close>

definition tip_links :: "(py_str \<times> py_str option) list \<Rightarrow> (py_str \<times> py_str option) list" where
  "tip_links ls = filter (\<lambda>l. Some (fst l) \<notin> snd ` set ls) ls"

fun fresh_rev :: "(py_str \<times> py_str option) list \<Rightarrow> bool" where
  "fresh_rev [] = True"
| "fresh_rev ((h, p) # ls) =
     (fresh_rev ls \<and> h \<noteq> ZERO_HASH \<and> h \<notin> fst ` set ls \<and> Some h \<noteq> p \<and> Some h \<notin> snd ` set ls)"

definition fresh_links :: "(py_str \<times> py_str option) list \<Rightarrow> bool" where
  "fresh_links ls \<longleftrightarrow> fresh_rev (rev ls)"

lemma fresh_links_Nil [simp]: "fresh_links []"
  by (simp add: fresh_links_def)

lemma fresh_links_snoc:
  "fresh_links (ls @ [(h, p)]) \<longleftrightarrow>
     fresh_links ls \<and> h \<noteq> ZERO_HASH \<and> h \<notin> fst ` set ls \<and> Some h \<noteq> p \<and> Some h \<notin> snd ` set ls"
  by (simp add: fresh_links_def)

lemma fresh_links_prefix: "fresh_links (ls @ ms) \<Longrightarrow> fresh_links ls"
proof (induction ms rule: rev_induct)
  case (snoc m ms)
  then show ?case using fresh_links_snoc [of "ls @ ms" "fst m" "snd m"] by simp
qed simp

lemma fresh_links_distinct: "fresh_links ls \<Longrightarrow> distinct (map fst ls)"
proof (induction ls rule: rev_induct)
  case (snoc l ls)
  then show ?case using fresh_links_snoc [of ls "fst l" "snd l"] by simp
qed simp

lemma links_tips: "links (tips rows) = tip_links (links rows)"
  by (simp add: tips_def tip_links_def referenced_links) (simp add: links_def filter_map comp_def)

lemma length_tips: "length (tips rows) = length (tip_links (links rows))"
  by (metis length_map links_def links_tips)

lemma last_is_tip: "fresh_links (ls @ [l]) \<Longrightarrow> l \<in> set (tip_links (ls @ [l]))"
  using fresh_links_snoc [of ls "fst l" "snd l"] by (auto simp: tip_links_def)

lemma tip_links_Nil_iff: "fresh_links ls \<Longrightarrow> tip_links ls = [] \<longleftrightarrow> ls = []"
proof (cases ls rule: rev_cases)
  case (snoc xs l)
  moreover assume "fresh_links ls"
  ultimately show ?thesis using last_is_tip [of xs l] by auto
qed (simp add: tip_links_def)

text \<open>A new row takes the place of the tip it references, or adds a tip.\<close>

lemma tip_links_snoc:
  assumes "fresh_links (ls @ [(h, Some e)])"
  shows "tip_links (ls @ [(h, Some e)]) = filter (\<lambda>l. fst l \<noteq> e) (tip_links ls) @ [(h, Some e)]"
proof -
  have "filter (\<lambda>l. Some (fst l) \<notin> insert (Some e) (snd ` set ls)) ls =
      filter (\<lambda>l. fst l \<noteq> e) (tip_links ls)"
    by (auto simp: tip_links_def intro: filter_cong)
  then show ?thesis
    using assms by (auto simp: tip_links_def fresh_links_snoc)
qed

lemma length_filter_key:
  "distinct (map fst xs) \<Longrightarrow> k \<in> fst ` set xs \<Longrightarrow> length (filter (\<lambda>x. fst x \<noteq> k) xs) = length xs - 1"
proof (induction xs)
  case (Cons x xs)
  show ?case
  proof (cases "fst x = k")
    case True
    then have "filter (\<lambda>x. fst x \<noteq> k) xs = xs"
      using Cons.prems by (intro filter_True) (metis distinct.simps(2) image_eqI list.set_map list.simps(9))
    with True show ?thesis by simp
  next
    case False
    then have "k \<in> fst ` set xs" using Cons.prems by auto
    then show ?thesis using Cons False by (cases xs) auto
  qed
qed simp

lemma tip_links_distinct: "fresh_links ls \<Longrightarrow> distinct (map fst (tip_links ls))"
  by (simp add: tip_links_def fresh_links_distinct distinct_map_filter)

lemma extending_a_tip:
  assumes "fresh_links (ls @ [(h, Some e)])" and "e \<in> fst ` set (tip_links ls)"
  shows "length (tip_links (ls @ [(h, Some e)])) = length (tip_links ls)"
proof -
  have "fresh_links ls" using assms(1) fresh_links_prefix by blast
  then have "length (filter (\<lambda>l. fst l \<noteq> e) (tip_links ls)) = length (tip_links ls) - 1"
    using length_filter_key [OF tip_links_distinct assms(2)] by simp
  moreover have "tip_links ls \<noteq> []" using assms(2) by auto
  ultimately show ?thesis
    by (cases "tip_links ls") (simp_all add: tip_links_snoc [OF assms(1)])
qed

lemma extending_no_tip:
  assumes "fresh_links (ls @ [(h, Some e)])" and "e \<notin> fst ` set (tip_links ls)"
  shows "length (tip_links (ls @ [(h, Some e)])) = Suc (length (tip_links ls))"
proof -
  have "filter (\<lambda>l. fst l \<noteq> e) (tip_links ls) = tip_links ls"
    using assms(2) by (intro filter_True) auto
  then show ?thesis by (simp add: tip_links_snoc [OF assms(1)])
qed

text \<open>The head is the hash of a tip; an empty chain has the zero hash.\<close>

definition head_is_tip :: "py_str \<Rightarrow> (py_str \<times> py_str option) list \<Rightarrow> bool" where
  "head_is_tip h ls \<longleftrightarrow> h \<in> fst ` set (tip_links ls) \<or> (ls = [] \<and> h = ZERO_HASH)"

lemma newest_by_Some: "rows \<noteq> [] \<Longrightarrow> \<exists>t \<in> set rows. newest_by k rows = Some t"
proof (induction rows)
  case (Cons t rows)
  then show ?case by (cases rows) (auto split: option.split)
qed simp

lemma stored_head_is_tip:
  assumes "fresh_links (links rows)"
  shows "head_is_tip (stored_head rows) (links rows)"
proof (cases "rows = []")
  case True
  then show ?thesis by (simp add: stored_head_def tips_def head_is_tip_def)
next
  case False
  then have "tips rows \<noteq> []"
    using tip_links_Nil_iff [OF assms] by (metis links_Nil_iff links_tips)
  then obtain t where t: "t \<in> set (tips rows)" "newest_by head_order (tips rows) = Some t"
    using newest_by_Some by blast
  then have "tr_receipt_hash t \<in> fst ` set (tip_links (links rows))"
    by (metis (no_types, lifting) fst_links image_eqI list.set_map links_tips)
  with t(2) show ?thesis by (simp add: stored_head_def head_is_tip_def)
qed

lemma extending_the_head:
  assumes "fresh_links (ls @ [(h, Some e)])" and "head_is_tip e ls"
  shows "length (tip_links (ls @ [(h, Some e)])) = (if ls = [] then 1 else length (tip_links ls))"
proof (cases "ls = []")
  case True
  then show ?thesis using assms(1) tip_links_snoc [OF assms(1)] by (simp add: tip_links_def)
next
  case False
  then show ?thesis using assms extending_a_tip by (simp add: head_is_tip_def)
qed

definition tip_ok :: "py_str \<Rightarrow> chain_world \<Rightarrow> bool" where
  "tip_ok aid w \<longleftrightarrow>
     (\<forall>h. ch_heads (cw_mem w) aid = Some h \<longrightarrow> head_is_tip h (links (chain_rows (cw_db w) aid)))"

lemma tip_ok_head_locked:
  assumes "tip_ok aid w" and "fresh_links (links (chain_rows (cw_db w) aid))"
    and "ch_heads (snd (head_locked (cw_db w) a (cw_mem w))) aid = Some h"
  shows "head_is_tip h (links (chain_rows (cw_db w) aid))"
proof (cases "a = aid")
  case True
  then show ?thesis
    using assms stored_head_is_tip
    by (auto simp: head_locked_def Let_def tip_ok_def split: option.splits)
next
  case False
  then show ?thesis using assms by (simp add: head_locked_others tip_ok_def)
qed

lemma tip_ok_commit:
  assumes ok: "tip_ok aid w" "pending_ok H w"
    and fresh: "fresh_links (links (chain_rows (cw_db (chain_step H (C_commit a) w)) aid))"
  shows "tip_ok aid (chain_step H (C_commit a) w)"
proof (cases "cw_pending w a")
  case (Some p)
  obtain r receipt prev where p: "p = (r, receipt, prev)" by (cases p)
  with Some ok(2) have a: "ra_analyst_id r = a" by (auto simp: pending_ok_def)
  show ?thesis
  proof (cases "a = aid \<and> ra_run_id r \<notin> tr_run_id ` set (cw_db w)")
    case True
    then have "(receipt, Some prev) \<in> set (tip_links (links (chain_rows (cw_db w) aid) @ [(receipt, Some prev)]))"
      using fresh Some p a by (intro last_is_tip) (simp add: record_commit_def Let_def)
    then show ?thesis
      using True Some p a by (force simp: record_commit_def Let_def tip_ok_def head_is_tip_def)
  next
    case False
    then show ?thesis using ok(1) Some p a by (auto simp: record_commit_def tip_ok_def Let_def)
  qed
qed (use ok in simp)

lemma tip_ok_step:
  assumes "tip_ok aid w" "pending_ok H w"
    and "fresh_links (links (chain_rows (cw_db (chain_step H e w)) aid))"
  shows "tip_ok aid (chain_step H e w)"
proof (cases e)
  case (C_begin r)
  show ?thesis
  proof (cases "cw_pending w (ra_analyst_id r)")
    case None
    have "fresh_links (links (chain_rows (cw_db w) aid))"
      using assms(3) by (simp only: C_begin step_begin(1) [where r = r, OF None])
    then show ?thesis
      unfolding C_begin tip_ok_def step_begin [where r = r, OF None]
      by (intro allI impI) (rule tip_ok_head_locked [OF assms(1)])
  qed (use assms C_begin in simp)
next
  case (C_commit a)
  then show ?thesis using tip_ok_commit assms by blast
next
  case (C_fail a)
  then show ?thesis using assms by (simp add: tip_ok_def)
next
  case (C_head a)
  then show ?thesis
    using assms tip_ok_head_locked [OF assms(1)] by (auto simp: tip_ok_def)
next
  case (C_append rid calls)
  then show ?thesis using assms by (simp add: tip_ok_def)
next
  case C_restart
  then show ?thesis by (simp add: tip_ok_def fresh_mem_def)
qed

lemma fresh_links_back:
  "fresh_links (links (chain_rows (cw_db (chain_step H e w)) aid)) \<Longrightarrow>
     fresh_links (links (chain_rows (cw_db w) aid))"
  by (metis fresh_links_prefix step_links)

lemma tip_ok_run:
  "fresh_links (links (chain_rows (cw_db (chain_run H es (chain_start db))) aid)) \<Longrightarrow>
     tip_ok aid (chain_run H es (chain_start db))"
proof (induction es rule: rev_induct)
  case Nil
  show ?case by (simp add: tip_ok_def chain_start_def fresh_mem_def)
next
  case (snoc e es)
  then show ?case
    by (simp only: chain_run_snoc) (metis fresh_links_back pending_ok_run tip_ok_step)
qed

definition expected_tips :: "(py_str \<times> py_str option) list \<Rightarrow> (py_str \<times> py_str option) list \<Rightarrow> nat" where
  "expected_tips before after =
     (if before = [] then (if after = [] then 0 else 1) else length (tip_links before))"

lemma expected_tips_step:
  assumes "tip_ok aid w" "pending_ok H w"
    and "fresh_links (links (chain_rows (cw_db (chain_step H e w)) aid))"
    and "length (tip_links (links (chain_rows (cw_db w) aid))) =
         expected_tips before (links (chain_rows (cw_db w) aid))"
    and "before \<noteq> [] \<Longrightarrow> links (chain_rows (cw_db w) aid) \<noteq> []"
  shows "length (tip_links (links (chain_rows (cw_db (chain_step H e w)) aid))) =
         expected_tips before (links (chain_rows (cw_db (chain_step H e w)) aid))"
proof (cases "new_links e w aid")
  case Nil
  then show ?thesis using assms(4) by (simp add: step_links)
next
  case (Cons l ls)
  then obtain a r receipt prev where
    e: "e = C_commit a" "cw_pending w a = Some (r, receipt, prev)" "ra_analyst_id r = aid"
    and new: "new_links e w aid = [(receipt, Some prev)]"
    by (auto simp: new_links_def split: chain_event.splits option.splits if_splits)
  let ?ls = "links (chain_rows (cw_db w) aid)"
  have "a = aid" "ch_heads (cw_mem w) aid = Some prev"
    using assms(2) e by (auto simp: pending_ok_def)
  then have "head_is_tip prev ?ls" using assms(1) by (simp add: tip_ok_def)
  moreover have fresh: "fresh_links (?ls @ [(receipt, Some prev)])"
    using assms(3) new by (simp add: step_links)
  ultimately have "length (tip_links (?ls @ [(receipt, Some prev)])) =
      (if ?ls = [] then 1 else length (tip_links ?ls))"
    by (rule extending_the_head [rotated])
  then show ?thesis
    using assms(4,5) new by (auto simp: step_links expected_tips_def)
qed

text \<open>Whatever forks the trace table of an analyst already has, a process never adds one: it
  keeps the number of tips through any sequence of runs, failures and restarts, and starts a
  table that has no rows with a single tip. The head it extends is always a tip.\<close>

theorem forks_not_deepened:
  assumes "before = links (chain_rows db aid)"
    and "w = chain_run H es (chain_start db)"
    and "fresh_links (links (chain_rows (cw_db w) aid))"
  shows "length (tips (chain_rows (cw_db w) aid)) = expected_tips before (links (chain_rows (cw_db w) aid)) \<and>
    (\<forall>h. ch_heads (cw_mem w) aid = Some h \<longrightarrow> head_is_tip h (links (chain_rows (cw_db w) aid)))"
proof -
  have "length (tip_links (links (chain_rows (cw_db w) aid))) =
      expected_tips before (links (chain_rows (cw_db w) aid))"
    using assms(2,3)
  proof (induction es arbitrary: w rule: rev_induct)
    case Nil
    then show ?case
      using assms(1) by (auto simp: chain_start_def expected_tips_def tip_links_def)
  next
    case (snoc e es)
    let ?w = "chain_run H es (chain_start db)"
    have fresh: "fresh_links (links (chain_rows (cw_db (chain_step H e ?w)) aid))"
      using snoc.prems by (simp add: chain_run_snoc)
    have "before \<noteq> [] \<Longrightarrow> links (chain_rows (cw_db ?w) aid) \<noteq> []"
      using run_links_prefix [of H es "chain_start db" aid] assms(1) by (auto simp: chain_start_def)
    then show ?case
      using snoc fresh expected_tips_step [OF tip_ok_run [OF fresh_links_back [OF fresh]] pending_ok_run fresh]
        fresh_links_back [OF fresh]
      by (simp add: chain_run_snoc)
  qed
  then show ?thesis
    using tip_ok_run [of H es db aid] assms by (simp add: length_tips tip_ok_def)
qed

text \<open>Two processes that record runs of one analyst fork its chain: when both read the head
  before either inserts, both rows reference the same head and the table ends with one tip
  more than it had, the forks that were there included.\<close>

theorem two_processes_fork:
  assumes "ra_analyst_id r = aid" and "ra_analyst_id s = aid"
    and "record_prepare H db r fresh_mem = (rp, m)"
    and "record_prepare H db s fresh_mem = (sp, n)"
    and "fst (record_commit db r rp m) = Inr dbr"
    and "fst (record_commit dbr s sp n) = Inr dbs"
    and "fresh_links (links (chain_rows dbs aid))"
  shows "snd rp = snd sp \<and>
    length (tips (chain_rows dbs aid)) = max 1 (length (tips (chain_rows db aid))) + 1"
proof -
  let ?ls = "links (chain_rows db aid)" and ?h = "stored_head (chain_rows db aid)"
  have rp: "rp = (compute_receipt_hash H r (Some ?h), ?h)"
    and sp: "sp = (compute_receipt_hash H s (Some ?h), ?h)"
    using assms(1-4) by (auto simp: record_prepare_def head_locked_def fresh_mem_def Let_def)
  have dbr: "links (chain_rows dbr aid) = ?ls @ [(fst rp, Some ?h)]"
    using assms(1,5) rp by (auto simp: record_commit_def Let_def split: if_splits)
  have dbs: "links (chain_rows dbs aid) = (?ls @ [(fst rp, Some ?h)]) @ [(fst sp, Some ?h)]"
    using assms(2,6) sp dbr by (auto simp: record_commit_def Let_def split: if_splits)
  have fresh2: "fresh_links ((?ls @ [(fst rp, Some ?h)]) @ [(fst sp, Some ?h)])"
    using assms(7) by (simp only: dbs)
  then have fresh1: "fresh_links (?ls @ [(fst rp, Some ?h)])" by (rule fresh_links_prefix)
  have fresh: "fresh_links ?ls" using fresh1 by (rule fresh_links_prefix)
  have "head_is_tip ?h ?ls" using fresh by (rule stored_head_is_tip)
  then have one: "length (tip_links (?ls @ [(fst rp, Some ?h)])) =
      (if ?ls = [] then 1 else length (tip_links ?ls))"
    by (rule extending_the_head [OF fresh1])
  have "fst rp \<noteq> ?h" using fresh1 fresh_links_snoc by blast
  then have "?h \<notin> fst ` set (tip_links (?ls @ [(fst rp, Some ?h)]))"
    by (auto simp: tip_links_snoc [OF fresh1])
  then have "length (tip_links ((?ls @ [(fst rp, Some ?h)]) @ [(fst sp, Some ?h)])) =
      Suc (length (tip_links (?ls @ [(fst rp, Some ?h)])))"
    by (rule extending_no_tip [OF fresh2])
  moreover have "?ls \<noteq> [] \<Longrightarrow> length (tip_links ?ls) \<ge> 1"
    using tip_links_Nil_iff [OF fresh] by (cases "tip_links ?ls") auto
  ultimately show ?thesis
    using one rp sp by (auto simp: length_tips dbs tip_links_def [of "[]"])
qed

section \<open>Concrete runs\<close>

text \<open>A run of analyst \<open>a\<close>, and a hash that names the run it hashes.\<close>

definition example_run :: "py_str \<Rightarrow> instant \<Rightarrow> run_args" where
  "example_run rid started =
     \<lparr>ra_run_id = rid, ra_analyst_id = ''a'', ra_analyst_version = ''v1'',
      ra_cadence_trigger = ''cron'', ra_target_id = None, ra_input_row_refs = [],
      ra_input_payload = J_null, ra_prompt_module_hash = None, ra_prompt_rendered = None,
      ra_output_row_refs = [], ra_output_payload = J_object [], ra_run_started_at = started,
      ra_run_ended_at = started + 5, ra_status = ''success'', ra_intermediate_steps = [],
      ra_llm_calls = [], ra_tool_calls = [], ra_error_payload = None, ra_prompt_sha256 = None\<rparr>"

definition example_hash :: receipt_hash where
  "example_hash p = ''h'' @ rp_run_id p"

definition example_events :: "chain_event list" where
  "example_events =
     [C_begin (example_run ''r1'' 10), C_begin (example_run ''rx'' 20), C_commit ''a'', C_restart,
      C_head ''a'', C_begin (example_run ''r2'' 5), C_commit ''a'', C_append ''r2'' [J_null]]"

lemma example_rows:
  "chain_rows (cw_db (chain_run example_hash example_events (chain_start []))) ''a'' =
     [trace_of (example_run ''r1'' 10) ''hr1'' ZERO_HASH,
      (trace_of (example_run ''r2'' 5) ''hr2'' ''hr1'')\<lparr>tr_llm_calls := [J_null]\<rparr>]"
  by (simp add: example_events_def chain_start_def record_prepare_def head_locked_def fresh_mem_def
      stored_head_def tips_def referenced_def compute_receipt_hash_def record_commit_def links_def
      trace_of_def example_hash_def receipt_payload_of_def example_run_def append_llm_calls_def
      chain_rows_def map_filter_simps Let_def)

lemma example_links:
  "links (chain_rows (cw_db (chain_run example_hash example_events (chain_start []))) ''a'') =
     [(''hr1'', Some ZERO_HASH), (''hr2'', Some ''hr1'')]"
  by (simp add: example_rows links_def trace_of_def)

lemma example_stored:
  "stored_payload (trace_of (example_run rid st) rc p) = receipt_payload_of (example_run rid st) (Some p)"
  by (rule stored_payload_trace_of) (simp add: example_run_def or_empty_def)

lemma stored_payload_unsigned [simp]:
  "stored_payload (t\<lparr>tr_llm_calls := cs\<rparr>) = stored_payload t"
  "stored_payload (t\<lparr>tr_status := s\<rparr>) = stored_payload t"
  by (simp_all add: stored_payload_def)

definition example_presented :: "trace_row list" where
  "example_presented =
     [trace_of (example_run ''r1'' 10) ''hr1'' ZERO_HASH,
      (trace_of (example_run ''r2'' 5) ''hr2'' ''hr1'')\<lparr>tr_status := ''edited''\<rparr>]"

lemma example_presented_verifies: "verified_chain example_hash example_presented"
  by (simp add: verified_chain_def example_presented_def linked_def links_def row_verifies_def
      example_stored) (simp add: trace_of_def example_hash_def receipt_payload_of_def example_run_def)

theorem chain_tamper_evident_witness:
  "map stored_payload example_presented =
     map stored_payload (chain_rows (cw_db (chain_run example_hash example_events (chain_start []))) ''a'')"
proof (rule chain_tamper_evident [OF refl])
  show "faithful_outputs example_events"
    by (auto simp: faithful_outputs_def example_events_def example_run_def or_empty_def)
  show "verified_chain example_hash example_presented" by (rule example_presented_verifies)
qed (auto simp: example_rows example_presented_def end_of_def links_def example_stored,
     auto simp: trace_of_def inj_on_def example_hash_def receipt_payload_of_def example_run_def)

theorem chain_stays_linear_witness:
  "tips (chain_rows (cw_db (chain_run example_hash example_events (chain_start []))) ''a'') =
     [last (chain_rows (cw_db (chain_run example_hash example_events (chain_start []))) ''a'')]"
proof -
  let ?rows = "chain_rows (cw_db (chain_run example_hash example_events (chain_start []))) ''a''"
  have hs: "map tr_receipt_hash ?rows = [''hr1'', ''hr2'']"
    using arg_cong [OF example_links, of "map fst"] by (simp add: fst_links)
  then have "?rows \<noteq> []" by auto
  moreover have "distinct (ZERO_HASH # map tr_receipt_hash ?rows)" by (simp add: hs)
  ultimately show ?thesis
    using chain_stays_linear [of "[]" "''a''", OF _ refl refl] by simp
qed

theorem forks_not_deepened_witness:
  "length (tips (chain_rows (cw_db (chain_run example_hash example_events (chain_start []))) ''a'')) = 1"
proof -
  have "fresh_links (links (chain_rows (cw_db (chain_run example_hash example_events (chain_start []))) ''a''))"
    by (simp add: example_links fresh_links_def)
  from forks_not_deepened [OF refl refl this] show ?thesis
    by (simp add: expected_tips_def example_rows)
qed

theorem two_processes_fork_witness:
  "length (tips [trace_of (example_run ''r1'' 10) ''hr1'' ZERO_HASH,
     trace_of (example_run ''r2'' 11) ''hr2'' ZERO_HASH]) = 2"
proof -
  let ?r = "example_run ''r1'' 10" and ?s = "example_run ''r2'' 11"
  have "length (tips (chain_rows [trace_of ?r ''hr1'' ZERO_HASH, trace_of ?s ''hr2'' ZERO_HASH] ''a'')) =
      max 1 (length (tips (chain_rows [] ''a''))) + 1"
    by (rule conjunct2 [OF two_processes_fork [where r = ?r and s = ?s and db = "[]" and
          H = example_hash and dbr = "[trace_of ?r ''hr1'' ZERO_HASH]" and
          m = "snd (record_prepare example_hash [] ?r fresh_mem)" and
          n = "snd (record_prepare example_hash [] ?s fresh_mem)" and
          rp = "(''hr1'', ZERO_HASH)" and sp = "(''hr2'', ZERO_HASH)"]])
      (simp_all add: record_prepare_def head_locked_def fresh_mem_def stored_head_def tips_def
        compute_receipt_hash_def record_commit_def example_hash_def receipt_payload_of_def Let_def
        example_run_def trace_of_def links_def fresh_links_def chain_rows_def)
  then show ?thesis by (simp add: chain_rows_def trace_of_def example_run_def tips_def [of "[]"])
qed

text \<open>
  What a failure must not be: an INSERT that the database committed and whose answer was lost.
  The row is stored and the head stays behind it, so the next run hangs on the old head and
  the chain forks.
\<close>

lemma lost_answer_forks:
  "let begun = chain_step example_hash (C_begin (example_run ''r1'' 10)) (chain_start []);
       stored = chain_step example_hash (C_commit ''a'') begun;
       lost = stored\<lparr>cw_mem := cw_mem begun\<rparr>;
       next_run = chain_run example_hash [C_begin (example_run ''r2'' 20), C_commit ''a''] lost
   in length (tips (chain_rows (cw_db next_run) ''a'')) = 2"
  by code_simp

end
