(* ===== verification/Checkpoints.thy ===== *)
theory Checkpoints
  imports Receipts "HOL-Library.Word"
begin

text \<open>
  What attests the receipt chains to the outside: the checkpointer that signs the head of each
  analyst (\<open>data/provenance/checkpointer.py\<close>) and the daily anchor that folds the heads into a
  Merkle root and submits it to two calendars
  (\<open>data/analysts/deterministic_handlers/receipt_anchor.py\<close>). The Ed25519 signature and
  SHA-256 are parameters, as are the failures of the database and the answers of the
  calendars. \<^verbatim>\<open>DISTINCT ON\<close> leaves the choice between rows with the same start open; the
  parameter \<open>tie\<close> decides it.
\<close>

section \<open>The checkpointer\<close>

record checkpointer_config =
  cc_max_traces_between :: int

definition CheckpointerConfig :: checkpointer_config where
  "CheckpointerConfig = \<lparr>cc_max_traces_between = 100\<rparr>"

record checkpoint_state =
  cs_last_head :: "py_str option"
  cs_last_trace_count :: int
  cs_last_signed_at :: "instant option"

definition new_checkpoint_state :: checkpoint_state where
  "new_checkpoint_state = \<lparr>cs_last_head = None, cs_last_trace_count = 0, cs_last_signed_at = None\<rparr>"

record checkpoint_payload =
  cp_analyst_id :: py_str
  cp_chain_head_hash :: py_str
  cp_trace_count :: int
  cp_checkpointed_at :: instant
  cp_signer_did :: py_str

type_synonym checkpoint_row = "checkpoint_payload \<times> py_str"

text \<open>The query of a tick: per analyst its latest row by start and its number of rows.\<close>

definition checkpoint_heads ::
  "(trace_row \<Rightarrow> nat) \<Rightarrow> trace_row list \<Rightarrow> (py_str \<times> py_str \<times> int) list" where
  "checkpoint_heads tie db =
     List.map_filter
       (\<lambda>aid. case newest_by (\<lambda>t. (tr_run_started_at t, tie t)) (chain_rows db aid) of
                None \<Rightarrow> None
              | Some t \<Rightarrow> Some (aid, tr_receipt_hash t, int (length (chain_rows db aid))))
       (remdups (map tr_analyst_id db))"

definition checkpoint_due :: "checkpointer_config \<Rightarrow> checkpoint_state \<Rightarrow> py_str \<Rightarrow> int \<Rightarrow> bool" where
  "checkpoint_due cfg st head count =
     (let head_changed = (cs_last_head st \<noteq> Some head);
          runs_since = count - cs_last_trace_count st;
          ceiling_hit = (runs_since \<ge> cc_max_traces_between cfg)
      in if \<not> (head_changed \<or> ceiling_hit) then False
         else if \<not> head_changed \<and> runs_since = 0 then False
         else True)"

definition sign_and_write ::
  "(checkpoint_payload \<Rightarrow> py_str) \<Rightarrow> py_str \<Rightarrow> py_str \<Rightarrow> py_str \<Rightarrow> int \<Rightarrow> instant \<Rightarrow> checkpoint_row" where
  "sign_and_write sign did aid head count wall =
     (let p = \<lparr>cp_analyst_id = aid, cp_chain_head_hash = head, cp_trace_count = count,
               cp_checkpointed_at = wall, cp_signer_did = did\<rparr>
      in (p, sign p))"

text \<open>
  One tick over the rows of the query. An insert that raises ends the tick, and what it wrote
  before stays; \<open>wall aid\<close> are the two clock readings of the analyst's checkpoint.
\<close>

fun tick_rows ::
  "(checkpoint_payload \<Rightarrow> py_str) \<Rightarrow> py_str \<Rightarrow> checkpointer_config \<Rightarrow> (py_str \<Rightarrow> bool) \<Rightarrow>
     (py_str \<Rightarrow> instant \<times> instant) \<Rightarrow> (py_str \<times> py_str \<times> int) list \<Rightarrow>
     (py_str \<Rightarrow> checkpoint_state) \<Rightarrow> checkpoint_row list \<Rightarrow>
     (py_str \<Rightarrow> checkpoint_state) \<times> checkpoint_row list" where
  "tick_rows sign did cfg fails wall [] st written = (st, written)"
| "tick_rows sign did cfg fails wall ((aid, head, count) # rows) st written =
     (if \<not> checkpoint_due cfg (st aid) head count
      then tick_rows sign did cfg fails wall rows st written
      else if fails aid then (st, written)
      else tick_rows sign did cfg fails wall rows
             (st(aid := \<lparr>cs_last_head = Some head, cs_last_trace_count = count,
                         cs_last_signed_at = Some (snd (wall aid))\<rparr>))
             (written @ [sign_and_write sign did aid head count (fst (wall aid))]))"

definition tick ::
  "(checkpoint_payload \<Rightarrow> py_str) \<Rightarrow> py_str \<Rightarrow> checkpointer_config \<Rightarrow> (py_str \<Rightarrow> bool) \<Rightarrow>
     (py_str \<Rightarrow> instant \<times> instant) \<Rightarrow> (trace_row \<Rightarrow> nat) \<Rightarrow> trace_row list \<Rightarrow>
     (py_str \<Rightarrow> checkpoint_state) \<Rightarrow> (py_str \<Rightarrow> checkpoint_state) \<times> checkpoint_row list" where
  "tick sign did cfg fails wall tie db st =
     tick_rows sign did cfg fails wall (checkpoint_heads tie db) st []"

section \<open>The anchor\<close>

type_synonym bytes = "8 word list"
type_synonym sha256 = "bytes \<Rightarrow> bytes"

definition utf8 :: "py_str \<Rightarrow> bytes" where
  "utf8 s = map of_char s"

definition leaf_for :: "sha256 \<Rightarrow> py_str \<Rightarrow> py_str \<Rightarrow> bytes" where
  "leaf_for sha aid receipt = sha (utf8 (aid @ receipt))"

text \<open>One level of the fold: an odd level is padded with its last element, and pairs are hashed.\<close>

fun hash_pairs :: "sha256 \<Rightarrow> bytes list \<Rightarrow> bytes list" where
  "hash_pairs sha (l # r # ls) = sha (l @ r) # hash_pairs sha ls"
| "hash_pairs sha _ = []"

definition pad_level :: "bytes list \<Rightarrow> bytes list" where
  "pad_level ls = (if odd (length ls) then ls @ [last ls] else ls)"

definition next_level :: "sha256 \<Rightarrow> bytes list \<Rightarrow> bytes list" where
  "next_level sha ls = hash_pairs sha (pad_level ls)"

lemma length_hash_pairs [simp]: "length (hash_pairs sha ls) = length ls div 2"
  by (induction sha ls rule: hash_pairs.induct) simp_all

lemma length_pad_level [simp]: "length (pad_level ls) = 2 * ((length ls + 1) div 2)"
  by (auto simp: pad_level_def elim!: oddE)

lemma length_next_level [simp]: "length (next_level sha ls) = (length ls + 1) div 2"
  by (simp add: next_level_def)

function fold_levels :: "sha256 \<Rightarrow> bytes list \<Rightarrow> bytes" where
  "fold_levels sha ls = (if length ls > 1 then fold_levels sha (next_level sha ls) else hd ls)"
  by pat_completeness auto

termination
  by (relation "measure (length \<circ> snd)") auto

declare fold_levels.simps [simp del]

definition merkle_root :: "sha256 \<Rightarrow> bytes list \<Rightarrow> bytes" where
  "merkle_root sha leaves = (if leaves = [] then sha [] else fold_levels sha leaves)"

definition CALENDARS :: "py_str list" where
  "CALENDARS =
     [''https://a.pool.opentimestamps.org/digest'', ''https://b.pool.opentimestamps.org/digest'']"

text \<open>A row of \<^verbatim>\<open>receipt_anchors\<close>; the status is submitted when there is a proof.\<close>

record anchor_row =
  an_day :: int
  an_root_hash :: bytes
  an_leaf_count :: nat
  an_calendar :: py_str
  an_proof :: "bytes option"

definition anchor_key :: "anchor_row \<Rightarrow> int \<times> py_str" where
  "anchor_key a = (an_day a, an_calendar a)"

definition anchor_heads :: "trace_row list \<Rightarrow> (py_str \<times> py_str) list" where
  "anchor_heads db =
     List.map_filter
       (\<lambda>aid. case newest_by head_order (chain_rows db aid) of
                None \<Rightarrow> None | Some t \<Rightarrow> Some (aid, tr_receipt_hash t))
       (sort (remdups (map tr_analyst_id db)))"

definition ensure_anchor :: "int \<Rightarrow> bytes \<Rightarrow> nat \<Rightarrow> py_str \<Rightarrow> anchor_row list \<Rightarrow> anchor_row list" where
  "ensure_anchor day root n cal tbl =
     (if (day, cal) \<in> anchor_key ` set tbl then tbl
      else tbl @ [\<lparr>an_day = day, an_root_hash = root, an_leaf_count = n, an_calendar = cal, an_proof = None\<rparr>])"

definition pending_anchors :: "anchor_row list \<Rightarrow> anchor_row list" where
  "pending_anchors tbl = sort_key anchor_key (filter (\<lambda>a. an_proof a = None) tbl)"

definition submit_anchor :: "int \<times> py_str \<Rightarrow> bytes \<Rightarrow> anchor_row list \<Rightarrow> anchor_row list" where
  "submit_anchor k proof tbl = map (\<lambda>a. if anchor_key a = k then a\<lparr>an_proof := Some proof\<rparr> else a) tbl"

text \<open>
  Submitting the pending rows: \<open>post\<close> is the calendar's answer to a digest, \<open>None\<close> when the
  request raised. The result counts what was submitted and what stays pending.
\<close>

fun submit_pending ::
  "(py_str \<Rightarrow> bytes \<Rightarrow> bytes option) \<Rightarrow> anchor_row list \<Rightarrow> anchor_row list \<times> nat \<times> nat \<Rightarrow>
     anchor_row list \<times> nat \<times> nat" where
  "submit_pending post [] acc = acc"
| "submit_pending post (a # as) (tbl, submitted, pending) =
     (case post (an_calendar a) (an_root_hash a) of
        None \<Rightarrow> submit_pending post as (tbl, submitted, pending + 1)
      | Some proof \<Rightarrow> submit_pending post as (submit_anchor (anchor_key a) proof tbl, submitted + 1, pending))"

record anchor_receipt =
  ar_day :: int
  ar_leaf_count :: nat
  ar_root_hash :: bytes
  ar_submitted :: nat
  ar_pending :: nat

definition anchor_handle ::
  "sha256 \<Rightarrow> int \<Rightarrow> trace_row list \<Rightarrow> (py_str \<Rightarrow> bytes \<Rightarrow> bytes option) \<Rightarrow> anchor_row list \<Rightarrow>
     anchor_receipt \<times> anchor_row list" where
  "anchor_handle sha day db post tbl =
     (let leaves = map (\<lambda>(aid, h). leaf_for sha aid h) (anchor_heads db);
          root = merkle_root sha leaves;
          tbl1 = fold (ensure_anchor day root (length leaves)) CALENDARS tbl;
          (tbl2, submitted, pending) = submit_pending post (pending_anchors tbl1) (tbl1, 0, 0)
      in (\<lparr>ar_day = day, ar_leaf_count = length leaves, ar_root_hash = root,
           ar_submitted = submitted, ar_pending = pending\<rparr>, tbl2))"

section \<open>What the checkpointer attests\<close>

lemma newest_by_strict:
  assumes "u \<in> set rows" and "\<And>t. t \<in> set rows \<Longrightarrow> t \<noteq> u \<Longrightarrow> k t < k u"
  shows "newest_by k rows = Some u"
  using assms
proof (induction rows)
  case (Cons t rows)
  show ?case
  proof (cases "u \<in> set rows")
    case True
    then have "newest_by k rows = Some u" using Cons by simp
    then show ?thesis using Cons.prems(2) [of t] by auto
  next
    case False
    then have t: "t = u" using Cons.prems(1) by simp
    show ?thesis
    proof (cases "rows = []")
      case False
      then obtain v where v: "v \<in> set rows" "newest_by k rows = Some v"
        using newest_by_Some by blast
      then have "k v < k u" using Cons.prems(2) [of v] \<open>u \<notin> set rows\<close> by auto
      then show ?thesis using v t by auto
    qed (simp add: t)
  qed
qed simp

lemma tick_rows_written:
  "cp \<in> set (snd (tick_rows sign did cfg fails wall rows st written)) \<Longrightarrow>
     cp \<in> set written \<or>
     (\<exists>aid h c. (aid, h, c) \<in> set rows \<and> cp = sign_and_write sign did aid h c (fst (wall aid)))"
proof (induction rows arbitrary: st written)
  case (Cons row rows)
  obtain aid head count where row: "row = (aid, head, count)" by (cases row)
  show ?case
  proof (cases "checkpoint_due cfg (st aid) head count \<and> \<not> fails aid")
    case True
    let ?st = "st(aid := \<lparr>cs_last_head = Some head, cs_last_trace_count = count,
      cs_last_signed_at = Some (snd (wall aid))\<rparr>)"
    have "cp \<in> set (snd (tick_rows sign did cfg fails wall rows ?st
        (written @ [sign_and_write sign did aid head count (fst (wall aid))])))"
      using Cons.prems True by (simp add: row)
    from Cons.IH [OF this] show ?thesis unfolding row by auto
  next
    case False
    then have "cp \<in> set (snd (tick_rows sign did cfg fails wall rows st written)) \<or> cp \<in> set written"
      using Cons.prems unfolding row by (auto split: if_splits)
    then show ?thesis using Cons.IH [of st written] unfolding row by auto
  qed
qed simp

lemma linked_referenced:
  assumes "linked (links rows)" and "u \<in> set (butlast rows)"
  shows "tr_receipt_hash u \<in> referenced rows"
proof -
  obtain xs t where rows: "rows = xs @ [t]" using assms(2) by (cases rows rule: rev_cases) auto
  then have "referenced rows = insert ZERO_HASH (fst ` set (links xs))"
    using assms(1) linked_references [of "links xs" "tr_receipt_hash t" "tr_prev_receipt_hash t"]
    by (simp add: referenced_links) (simp add: links_def)
  then show ?thesis using assms(2) rows by (force simp: links_def)
qed

text \<open>C36: The checkpointer takes the row with the latest start for the head. When the run that
  started last was not the last to be recorded, as overlapping runs allow, every checkpoint a
  tick writes for that analyst signs a receipt that a later row of the chain already
  references, although the chain is linear and its true head is another receipt.\<close>

theorem checkpoint_signs_superseded_receipt:
  assumes "rows = chain_rows (cw_db (chain_run H es (chain_start []))) aid"
    and "distinct (ZERO_HASH # map tr_receipt_hash rows)"
    and "u \<in> set (butlast rows)"
    and "\<forall>t \<in> set rows. t \<noteq> u \<longrightarrow> tr_run_started_at t < tr_run_started_at u"
    and "cp \<in> set (snd (tick sign did cfg fails wall tie (cw_db (chain_run H es (chain_start []))) st))"
    and "cp_analyst_id (fst cp) = aid"
  shows "cp_chain_head_hash (fst cp) = tr_receipt_hash u \<and> tr_receipt_hash u \<in> referenced rows \<and>
    stored_head rows \<noteq> tr_receipt_hash u"
proof -
  let ?db = "cw_db (chain_run H es (chain_start []))"
  have "chain_ok aid (chain_run H es (chain_start []))"
    using assms(1,2) by (intro chain_ok_run) simp_all
  then have lk: "linked (links rows)" by (simp add: chain_ok_def assms(1))
  have u: "u \<in> set rows" using assms(3) by (rule in_set_butlastD)
  have "newest_by (\<lambda>t. (tr_run_started_at t, tie t)) rows = Some u"
    using u assms(4) by (intro newest_by_strict) auto
  moreover obtain h c where "(aid, h, c) \<in> set (checkpoint_heads tie ?db)"
      and "cp_chain_head_hash (fst cp) = h"
    using assms(5,6) tick_rows_written [of cp sign did cfg fails wall "checkpoint_heads tie ?db" st "[]"]
    by (auto simp: tick_def sign_and_write_def Let_def)
  ultimately have head: "cp_chain_head_hash (fst cp) = tr_receipt_hash u"
    by (auto simp: checkpoint_heads_def in_set_map_filter assms(1) split: option.splits)
  have ref: "tr_receipt_hash u \<in> referenced rows"
    using lk assms(3) by (rule linked_referenced)
  have "rows \<noteq> []" using u by auto
  then have tip: "tips rows = [last rows]" using linked_tips [OF lk assms(2)] by simp
  then have "last rows \<in> set (tips rows)" by simp
  then have "tr_receipt_hash (last rows) \<notin> referenced rows" by (simp add: tips_def)
  then have "stored_head rows \<notin> referenced rows" by (simp add: stored_head_def tip)
  then show ?thesis using head ref by auto
qed

text \<open>The second example run started first: the checkpoint signs the receipt of the first.\<close>

definition example_checkpoint :: checkpoint_row where
  "example_checkpoint = sign_and_write (\<lambda>p. ''sig'') ''did'' ''a'' ''hr1'' 2 7"

lemma example_tick:
  "snd (tick (\<lambda>p. ''sig'') ''did'' CheckpointerConfig (\<lambda>_. False) (\<lambda>_. (7, 7)) (\<lambda>_. 0)
     (cw_db (chain_run example_hash example_events (chain_start []))) (\<lambda>_. new_checkpoint_state)) =
     [example_checkpoint]"
proof -
  let ?db = "cw_db (chain_run example_hash example_events (chain_start []))"
  have db: "?db = chain_rows ?db ''a''"
    by (simp add: example_events_def chain_start_def record_prepare_def head_locked_def fresh_mem_def
        stored_head_def tips_def referenced_def compute_receipt_hash_def record_commit_def
        trace_of_def example_hash_def receipt_payload_of_def example_run_def append_llm_calls_def
        chain_rows_def map_filter_simps Let_def)
  have "checkpoint_heads (\<lambda>_. 0) ?db = [(''a'', ''hr1'', 2)]"
    unfolding checkpoint_heads_def
    by (subst (1) db) (simp add: example_rows map_filter_simps trace_of_def example_run_def)
  then show ?thesis
    by (simp add: tick_def checkpoint_due_def new_checkpoint_state_def example_checkpoint_def)
qed

theorem checkpoint_signs_superseded_receipt_witness:
  "cp_chain_head_hash (fst example_checkpoint) = ''hr1'' \<and>
   stored_head (chain_rows (cw_db (chain_run example_hash example_events (chain_start []))) ''a'') \<noteq> ''hr1''"
proof -
  let ?rows = "chain_rows (cw_db (chain_run example_hash example_events (chain_start []))) ''a''"
  let ?u = "trace_of (example_run ''r1'' 10) ''hr1'' ZERO_HASH"
  have "cp_chain_head_hash (fst example_checkpoint) = tr_receipt_hash ?u \<and>
      tr_receipt_hash ?u \<in> referenced ?rows \<and> stored_head ?rows \<noteq> tr_receipt_hash ?u"
  proof (rule checkpoint_signs_superseded_receipt [OF refl])
    show "example_checkpoint \<in> set (snd (tick (\<lambda>p. ''sig'') ''did'' CheckpointerConfig (\<lambda>_. False)
        (\<lambda>_. (7, 7)) (\<lambda>_. 0) (cw_db (chain_run example_hash example_events (chain_start [])))
        (\<lambda>_. new_checkpoint_state)))"
      by (simp add: example_tick)
  qed (simp_all add: example_rows trace_of_def example_run_def example_checkpoint_def
        sign_and_write_def)
  then show ?thesis by (simp add: trace_of_def)
qed

section \<open>What the Merkle root binds\<close>

text \<open>The inputs hashed when the leaves are folded.\<close>

fun pair_inputs :: "bytes list \<Rightarrow> bytes list" where
  "pair_inputs (l # r # ls) = (l @ r) # pair_inputs ls"
| "pair_inputs _ = []"

function fold_inputs :: "sha256 \<Rightarrow> bytes list \<Rightarrow> bytes set" where
  "fold_inputs sha ls =
     (if length ls > 1
      then set (pair_inputs (pad_level ls)) \<union> fold_inputs sha (next_level sha ls) else {})"
  by pat_completeness auto

termination
  by (relation "measure (length \<circ> snd)") auto

declare fold_inputs.simps [simp del]

lemma hash_pairs_map: "hash_pairs sha ls = map sha (pair_inputs ls)"
  by (induction sha ls rule: hash_pairs.induct) simp_all

lemma pair_inputs_inject:
  assumes "length xs = length ys" "even (length xs)" "pair_inputs xs = pair_inputs ys"
    and "\<forall>x \<in> set xs \<union> set ys. length x = w"
  shows "xs = ys"
  using assms
proof (induction xs arbitrary: ys rule: pair_inputs.induct)
  case (1 l r ls)
  then obtain l' r' ls' where ys: "ys = l' # r' # ls'"
    by (cases ys rule: pair_inputs.cases) auto
  with 1 show ?case by auto
qed (simp_all, metis One_nat_def odd_one)

lemma pad_level_inject: "length xs = length ys \<Longrightarrow> pad_level xs = pad_level ys \<Longrightarrow> xs = ys"
  by (auto simp: pad_level_def split: if_splits)

lemma set_pad_level: "set (pad_level xs) = set xs"
  by (cases xs rule: rev_cases) (auto simp: pad_level_def)

lemma fold_levels_step: "length ls > 1 \<Longrightarrow> fold_levels sha ls = fold_levels sha (next_level sha ls)"
  by (subst fold_levels.simps) simp

lemma fold_levels_single: "fold_levels sha [l] = l"
  by (subst fold_levels.simps) simp

lemma fold_inputs_step:
  "length ls > 1 \<Longrightarrow>
     fold_inputs sha ls = set (pair_inputs (pad_level ls)) \<union> fold_inputs sha (next_level sha ls)"
  by (subst fold_inputs.simps) simp

lemma fold_levels_inject:
  assumes "length xs = length ys" "xs \<noteq> []" "fold_levels sha xs = fold_levels sha ys"
    and "\<forall>x \<in> set xs \<union> set ys. length x = w" and "\<forall>z. length (sha z) = w"
    and "inj_on sha (fold_inputs sha xs \<union> fold_inputs sha ys)"
  shows "xs = ys"
  using assms
proof (induction sha xs arbitrary: ys rule: fold_levels.induct)
  case (1 sha xs)
  note len = "1.prems"(1) and same = "1.prems"(3) and width = "1.prems"(4,5) and inj = "1.prems"(6)
  show ?case
  proof (cases "length xs > 1")
    case True
    then have yl: "length ys > 1" using len by simp
    note fx = fold_inputs_step [OF True, of sha] and fy = fold_inputs_step [OF yl, of sha]
    have same': "fold_levels sha (next_level sha xs) = fold_levels sha (next_level sha ys)"
      using same fold_levels_step [OF True] fold_levels_step [OF yl] by simp
    have ne: "next_level sha xs \<noteq> []"
      using True length_next_level [of sha xs] by (cases "next_level sha xs") auto
    have width': "\<forall>x \<in> set (next_level sha xs) \<union> set (next_level sha ys). length x = w"
      using width(2) by (auto simp: next_level_def hash_pairs_map)
    have inj': "inj_on sha (fold_inputs sha (next_level sha xs) \<union> fold_inputs sha (next_level sha ys))"
      using inj unfolding fx fy by (rule inj_on_subset) blast
    have "length (next_level sha xs) = length (next_level sha ys)"
      using len by simp
    from "1.IH" [OF True this ne same' width' width(2) inj']
    have "next_level sha xs = next_level sha ys" .
    then have "map sha (pair_inputs (pad_level xs)) = map sha (pair_inputs (pad_level ys))"
      by (simp add: next_level_def hash_pairs_map)
    then have "pair_inputs (pad_level xs) = pair_inputs (pad_level ys)"
    proof (rule map_inj_on)
      show "inj_on sha (set (pair_inputs (pad_level xs)) \<union> set (pair_inputs (pad_level ys)))"
        using inj unfolding fx fy by (rule inj_on_subset) blast
    qed
    then have "pad_level xs = pad_level ys"
      using len width(1)
      by (intro pair_inputs_inject [where w = w and xs = "pad_level xs" and ys = "pad_level ys"])
        (simp_all add: set_pad_level)
    then show ?thesis using len pad_level_inject by blast
  next
    case False
    then obtain x where x: "xs = [x]"
      using "1.prems"(2) by (cases xs) auto
    then obtain y where "ys = [y]" using len by (cases ys) auto
    then show ?thesis using same x by (simp add: fold_levels_single)
  qed
qed

text \<open>The root binds the heads: two head sets of the same size whose roots agree are the
  same, leaf by leaf and in order, as long as no two inputs hashed in the two folds collide.\<close>

theorem merkle_root_binds:
  assumes "length xs = length ys"
    and "merkle_root sha xs = merkle_root sha ys"
    and "\<forall>x \<in> set xs \<union> set ys. length x = 32" and "\<forall>z. length (sha z) = 32"
    and "inj_on sha (fold_inputs sha xs \<union> fold_inputs sha ys)"
  shows "xs = ys"
proof (cases "xs = []")
  case False
  moreover have "ys \<noteq> []" using False assms(1) by auto
  ultimately have "fold_levels sha xs = fold_levels sha ys"
    using assms(2) by (simp add: merkle_root_def)
  then show ?thesis using fold_levels_inject [OF assms(1) False] assms(3-5) by blast
qed (use assms in simp)

text \<open>The root does not bind the size: repeating the last head of an odd level longer than
  one leaves the root as it was, whatever the hash.\<close>

theorem merkle_root_repeated_tail:
  assumes "odd (length ls)" and "length ls > 1"
  shows "merkle_root sha (ls @ [last ls]) = merkle_root sha ls"
proof -
  have "next_level sha (ls @ [last ls]) = next_level sha ls"
    using assms by (simp add: next_level_def pad_level_def)
  then have "fold_levels sha (ls @ [last ls]) = fold_levels sha ls"
    using assms(2) fold_levels_step [of "ls @ [last ls]" sha] fold_levels_step [of ls sha]
    by (cases ls) simp_all
  then show ?thesis using assms(2) by (auto simp: merkle_root_def)
qed

definition example_sha :: sha256 where
  "example_sha z = take 32 (z @ replicate 32 0)"

definition byte_leaf :: "8 word \<Rightarrow> bytes" where
  "byte_leaf b = replicate 32 b"

lemma example_sha_leaves: "example_sha (byte_leaf a @ byte_leaf b) = byte_leaf a"
  by (simp add: example_sha_def byte_leaf_def)

lemma length_byte_leaf: "length (byte_leaf b) = 32"
  by (simp add: byte_leaf_def)

lemma length_example_sha: "length (example_sha z) = 32"
  by (simp add: example_sha_def)

lemma byte_leaf_inject: "byte_leaf a = byte_leaf b \<longleftrightarrow> a = b"
  by (simp add: byte_leaf_def)

lemma example_fold_inputs:
  "fold_inputs example_sha [byte_leaf a, byte_leaf b] = {byte_leaf a @ byte_leaf b}"
  by (simp add: fold_inputs.simps [of _ "[_, _]"] fold_inputs.simps [of _ "[_]"] pad_level_def next_level_def)

theorem merkle_root_binds_witness:
  "merkle_root example_sha [byte_leaf 1, byte_leaf 2] \<noteq> merkle_root example_sha [byte_leaf 3, byte_leaf 2]"
proof
  assume "merkle_root example_sha [byte_leaf 1, byte_leaf 2] = merkle_root example_sha [byte_leaf 3, byte_leaf 2]"
  then have "[byte_leaf 1, byte_leaf 2] = [byte_leaf 3, byte_leaf 2]"
    by (rule merkle_root_binds [rotated])
      (auto simp: example_fold_inputs example_sha_leaves length_byte_leaf length_example_sha byte_leaf_inject)
  then show False by (simp add: byte_leaf_inject)
qed

theorem merkle_root_repeated_tail_witness:
  "merkle_root example_sha [byte_leaf 1, byte_leaf 2, byte_leaf 3, byte_leaf 3] =
     merkle_root example_sha [byte_leaf 1, byte_leaf 2, byte_leaf 3]"
  using merkle_root_repeated_tail [of "[byte_leaf 1, byte_leaf 2, byte_leaf 3]" example_sha] by simp

section \<open>Every day is anchored once\<close>

lemma ensure_anchor_keys:
  "anchor_key ` set (ensure_anchor day root n cal tbl) = insert (day, cal) (anchor_key ` set tbl)"
  by (auto simp: ensure_anchor_def anchor_key_def)

lemma ensure_anchor_distinct:
  "distinct (map anchor_key tbl) \<Longrightarrow> distinct (map anchor_key (ensure_anchor day root n cal tbl))"
  by (auto simp: ensure_anchor_def anchor_key_def)

lemma ensure_anchor_extends: "\<exists>new. ensure_anchor day root n cal tbl = tbl @ new"
  by (simp add: ensure_anchor_def)

lemma ensure_all:
  "distinct (map anchor_key tbl) \<Longrightarrow>
     distinct (map anchor_key (fold (ensure_anchor day root n) cals tbl)) \<and>
     anchor_key ` set (fold (ensure_anchor day root n) cals tbl) =
       anchor_key ` set tbl \<union> (\<lambda>c. (day, c)) ` set cals \<and>
     (\<exists>new. fold (ensure_anchor day root n) cals tbl = tbl @ new)"
proof (induction cals arbitrary: tbl)
  case (Cons c cals)
  from Cons.IH [OF ensure_anchor_distinct [OF Cons.prems, of day root n c]]
    ensure_anchor_keys [of day root n c tbl] ensure_anchor_extends [of day root n c tbl]
  show ?case by auto
qed simp

lemma ensure_fold_extends: "\<exists>new. fold (ensure_anchor day root n) cals tbl = tbl @ new"
proof (induction cals arbitrary: tbl)
  case (Cons c cals)
  then show ?case using ensure_anchor_extends [of day root n c tbl] by (metis append.assoc fold_simps(2))
qed simp

lemma length_filter_sort_key: "length (filter P (sort_key f xs)) = length (filter P xs)"
  by (simp add: filter_sort)

text \<open>What the run does to a row: a pending one gets the proof its calendar answers with.\<close>

definition settle_anchor :: "(py_str \<Rightarrow> bytes \<Rightarrow> bytes option) \<Rightarrow> anchor_row \<Rightarrow> anchor_row" where
  "settle_anchor post a =
     (if an_proof a = None then a\<lparr>an_proof := post (an_calendar a) (an_root_hash a)\<rparr> else a)"

lemma anchor_key_proof [simp]: "anchor_key (a\<lparr>an_proof := p\<rparr>) = anchor_key a"
  by (simp add: anchor_key_def)

lemma submit_anchor_keys [simp]: "map anchor_key (submit_anchor k p tbl) = map anchor_key tbl"
  by (simp add: submit_anchor_def)

lemma submit_pending_table:
  assumes "distinct (map anchor_key tbl)" and "set as \<subseteq> set tbl" and "distinct as"
    and "\<forall>a \<in> set as. an_proof a = None"
  shows "fst (submit_pending post as (tbl, m, n)) =
    map (\<lambda>a. if a \<in> set as then settle_anchor post a else a) tbl"
  using assms
proof (induction as arbitrary: tbl m n)
  case (Cons a as)
  let ?f = "\<lambda>as a. if a \<in> set as then settle_anchor post a else a"
  have other: "anchor_key b \<noteq> anchor_key a" if "b \<in> set tbl" "b \<noteq> a" for b
    using that Cons.prems(1,2) by (auto simp: distinct_map dest: inj_onD)
  show ?case
  proof (cases "post (an_calendar a) (an_root_hash a)")
    case None
    then have "?f (a # as) b = ?f as b" for b
      using Cons.prems(3,4) by (auto simp: settle_anchor_def)
    then show ?thesis using Cons None by simp
  next
    case (Some p)
    let ?tbl = "submit_anchor (anchor_key a) p tbl"
    have keep: "b \<in> set ?tbl" if "b \<in> set as" for b
      using that Cons.prems(2,3) other by (force simp: submit_anchor_def)
    have "set as \<subseteq> set ?tbl" using keep by blast
    then have "fst (submit_pending post (a # as) (tbl, m, n)) = map (?f as) ?tbl"
      using Cons.IH [of ?tbl] Cons.prems Some by simp
    also have "\<dots> = map (?f (a # as)) tbl"
    proof (unfold submit_anchor_def, simp only: map_map, rule map_cong [OF refl])
      fix b assume "b \<in> set tbl"
      moreover have "a\<lparr>an_proof := Some p\<rparr> \<notin> set as" using Cons.prems(4) by auto
      ultimately show "(?f as \<circ> (\<lambda>b. if anchor_key b = anchor_key a then b\<lparr>an_proof := Some p\<rparr> else b)) b =
          ?f (a # as) b"
        using Some Cons.prems(3,4) other by (cases "b = a") (auto simp: settle_anchor_def)
    qed
    finally show ?thesis .
  qed
qed simp

lemma submit_pending_counts:
  "snd (submit_pending post as (tbl, m, n)) =
     (m + length (filter (\<lambda>a. post (an_calendar a) (an_root_hash a) \<noteq> None) as),
      n + length (filter (\<lambda>a. post (an_calendar a) (an_root_hash a) = None) as))"
  by (induction as arbitrary: tbl m n) (auto split: option.split)

lemma ensure_all_new:
  "fold (ensure_anchor day root n) cals tbl = tbl @ new \<Longrightarrow>
     a \<in> set new \<Longrightarrow> an_day a = day \<and> an_root_hash a = root \<and> an_leaf_count a = n \<and> an_proof a = None"
proof (induction cals arbitrary: tbl new)
  case (Cons c cals)
  obtain new' where n: "fold (ensure_anchor day root n) cals (ensure_anchor day root n c tbl) =
      ensure_anchor day root n c tbl @ new'"
    using ensure_fold_extends by blast
  with Cons.prems have "ensure_anchor day root n c tbl @ new' = tbl @ new" by simp
  then show ?case
    using Cons.prems(2) Cons.IH [OF n] by (auto simp: ensure_anchor_def split: if_splits)
qed simp

lemma settle_anchor_done: "an_proof a \<noteq> None \<Longrightarrow> settle_anchor post a = a"
  by (auto simp: settle_anchor_def)

lemma anchor_key_settle [simp]: "anchor_key (settle_anchor post a) = anchor_key a"
  by (simp add: settle_anchor_def)

lemma set_pending_anchors: "set (pending_anchors tbl) = {a \<in> set tbl. an_proof a = None}"
  by (simp add: pending_anchors_def)

lemma submit_all_pending:
  assumes "distinct (map anchor_key tbl)"
  shows "fst (submit_pending post (pending_anchors tbl) (tbl, 0, 0)) = map (settle_anchor post) tbl"
proof -
  have "distinct (pending_anchors tbl)"
    using assms by (simp add: pending_anchors_def distinct_map)
  then have "fst (submit_pending post (pending_anchors tbl) (tbl, 0, 0)) =
      map (\<lambda>a. if a \<in> set (pending_anchors tbl) then settle_anchor post a else a) tbl"
    using assms by (intro submit_pending_table) (auto simp: set_pending_anchors)
  also have "\<dots> = map (settle_anchor post) tbl"
    by (rule map_cong) (auto simp: set_pending_anchors settle_anchor_done)
  finally show ?thesis .
qed

text \<open>A run of the anchor settles every day once. It keeps the rows it finds, with their root
  and size and with their proof when they have one; it adds the missing rows of the day, one per
  calendar, with the root of the heads it read; it posts the rows without a proof, and those
  whose calendar did not answer are the ones it counts as pending.\<close>

theorem anchors_settle_once:
  assumes "distinct (map anchor_key tbl)"
    and "anchor_handle sha day db post tbl = (r, after)"
  shows "ar_root_hash r = merkle_root sha (map (\<lambda>(aid, h). leaf_for sha aid h) (anchor_heads db)) \<and>
    distinct (map anchor_key after) \<and>
    (\<lambda>c. (day, c)) ` set CALENDARS \<subseteq> anchor_key ` set after \<and>
    (\<exists>new. after = map (settle_anchor post) (tbl @ new) \<and>
       set new \<subseteq> {a. an_day a = day \<and> an_root_hash a = ar_root_hash r \<and>
                     an_leaf_count a = ar_leaf_count r \<and> an_proof a = None}) \<and>
    ar_pending r = length (filter (\<lambda>a. an_proof a = None) after)"
proof -
  let ?leaves = "map (\<lambda>(aid, h). leaf_for sha aid h) (anchor_heads db)"
  let ?tbl = "fold (ensure_anchor day (merkle_root sha ?leaves) (length ?leaves)) CALENDARS tbl"
  let ?res = "submit_pending post (pending_anchors ?tbl) (?tbl, 0, 0)"
  note ens = ensure_all [OF assms(1), of day "merkle_root sha ?leaves" "length ?leaves" CALENDARS]
  obtain new where new: "?tbl = tbl @ new" using ens by blast
  have r: "ar_root_hash r = merkle_root sha ?leaves" "ar_leaf_count r = length ?leaves"
      "ar_pending r = snd (snd ?res)" "after = fst ?res"
    using assms(2) by (auto simp: anchor_handle_def Let_def split: prod.splits)
  have after: "after = map (settle_anchor post) ?tbl"
    using ens by (simp only: r(4) submit_all_pending)
  have "ar_pending r = length (filter (\<lambda>a. an_proof a = None \<and> post (an_calendar a) (an_root_hash a) = None) ?tbl)"
    using r(3) submit_pending_counts [of post "pending_anchors ?tbl" ?tbl 0 0]
    by (simp add: pending_anchors_def length_filter_sort_key)
  also have "\<dots> = length (filter (\<lambda>a. an_proof (settle_anchor post a) = None) ?tbl)"
    by (rule arg_cong [where f = length], rule filter_cong) (auto simp: settle_anchor_def)
  also have "\<dots> = length (filter (\<lambda>a. an_proof a = None) after)"
    by (simp add: after filter_map comp_def)
  finally have pending: "ar_pending r = length (filter (\<lambda>a. an_proof a = None) after)" .
  have "distinct (map anchor_key after)" and "anchor_key ` set after = anchor_key ` set ?tbl"
    using ens by (simp_all add: after comp_def image_image)
  moreover have "\<exists>new. after = map (settle_anchor post) (tbl @ new) \<and>
       set new \<subseteq> {a. an_day a = day \<and> an_root_hash a = ar_root_hash r \<and>
                     an_leaf_count a = ar_leaf_count r \<and> an_proof a = None}"
    using ensure_all_new [OF new] unfolding after new by (intro exI [of _ new]) (auto simp: r)
  ultimately show ?thesis using ens pending r(1) by auto
qed

definition example_anchors :: "anchor_row list" where
  "example_anchors =
     [\<lparr>an_day = 1, an_root_hash = [1], an_leaf_count = 1, an_calendar = hd CALENDARS, an_proof = Some [7]\<rparr>,
      \<lparr>an_day = 1, an_root_hash = [1], an_leaf_count = 1, an_calendar = last CALENDARS, an_proof = None\<rparr>]"

theorem anchors_settle_once_witness:
  "distinct (map anchor_key (snd (anchor_handle example_sha 2 [] (\<lambda>c d. None) example_anchors))) \<and>
   length (filter (\<lambda>a. an_proof a = None)
     (snd (anchor_handle example_sha 2 [] (\<lambda>c d. None) example_anchors))) = 3"
proof -
  have "distinct (map anchor_key example_anchors)"
    by (simp add: example_anchors_def anchor_key_def CALENDARS_def)
  from anchors_settle_once [OF this, of example_sha 2 "[]" "\<lambda>c d. None"
      "fst (anchor_handle example_sha 2 [] (\<lambda>c d. None) example_anchors)"
      "snd (anchor_handle example_sha 2 [] (\<lambda>c d. None) example_anchors)"]
  show ?thesis
    by (simp add: anchor_handle_def anchor_heads_def example_anchors_def map_filter_simps
        ensure_anchor_def anchor_key_def CALENDARS_def pending_anchors_def Let_def)
qed

end
