(* ===== verification/Labels.thy ===== *)
theory Labels
  imports Signals
begin

text \<open>
  The labels a discovery relabels are Python dicts, shared by reference between the candidate,
  its metadata and the working set, and written in place. This theory has the store of dicts
  and the label helpers of \<open>data/discovery/relabel.py\<close> on it: \<open>_resolve_label\<close>,
  \<open>_write_label\<close> and the template renderer. Lists are never written in place by the
  modelled code, so they are values. Python's \<open>str\<close> of a list or a dict is a parameter.
\<close>

section \<open>The store\<close>

datatype pyval =
    V_none
  | V_bool bool
  | V_int int
  | V_float py_str
  | V_str py_str
  | V_list "pyval list"
  | V_dict nat

type_synonym pydict = "(py_str \<times> pyval) list"

record store =
  st_next :: nat
  st_cells :: "nat \<Rightarrow> pydict"

definition store_ok :: "store \<Rightarrow> bool" where
  "store_ok st \<longleftrightarrow> (\<forall>a \<ge> st_next st. st_cells st a = [])"

definition alloc :: "pydict \<Rightarrow> store \<Rightarrow> nat \<times> store" where
  "alloc d st = (st_next st, st\<lparr>st_next := Suc (st_next st), st_cells := (st_cells st)(st_next st := d)\<rparr>)"

definition set_key :: "nat \<Rightarrow> py_str \<Rightarrow> pyval \<Rightarrow> store \<Rightarrow> store" where
  "set_key a k v st = st\<lparr>st_cells := (st_cells st)(a := AList.update k v (st_cells st a))\<rparr>"

section \<open>Reading a label\<close>

fun walk :: "store \<Rightarrow> pyval \<Rightarrow> py_str list \<Rightarrow> pyval" where
  "walk st v [] = v"
| "walk st (V_dict a) (seg # segs) =
     (case map_of (st_cells st a) seg of None \<Rightarrow> V_none | Some v \<Rightarrow> walk st v segs)"
| "walk st v (seg # segs) = V_none"

definition resolve_label :: "store \<Rightarrow> pydict \<Rightarrow> pydict \<Rightarrow> py_str \<Rightarrow> pyval" where
  "resolve_label st labels metadata name =
     (case map_of labels name of
        Some v \<Rightarrow> v
      | None \<Rightarrow>
          (case (split_dots name, map_of labels (hd (split_dots name))) of
             (head # seg # segs, Some (V_dict a)) \<Rightarrow> walk st (V_dict a) (seg # segs)
           | _ \<Rightarrow> (case map_of metadata name of Some v \<Rightarrow> v | None \<Rightarrow> V_none)))"

section \<open>Writing a label\<close>

text \<open>
  The write descends from the dict at \<open>a\<close>; a segment that is missing or is not a dict is
  replaced by a new dict, and the last segment is set.
\<close>

fun write_path :: "nat \<Rightarrow> py_str list \<Rightarrow> pyval \<Rightarrow> store \<Rightarrow> store" where
  "write_path a [] v st = st"
| "write_path a [k] v st = set_key a k v st"
| "write_path a (k # k' # ks) v st =
     (case map_of (st_cells st a) k of
        Some (V_dict b) \<Rightarrow> write_path b (k' # ks) v st
      | _ \<Rightarrow> (let (b, st1) = alloc [] st in write_path b (k' # ks) v (set_key a k (V_dict b) st1)))"

definition write_label :: "nat \<Rightarrow> py_str \<Rightarrow> pyval \<Rightarrow> store \<Rightarrow> store" where
  "write_label a name v st = write_path a (split_dots name) v st"

section \<open>Text\<close>

definition upper_char :: "char \<Rightarrow> char" where
  "upper_char c = (let n = (of_char c :: nat) in if 97 \<le> n \<and> n \<le> 122 then char_of (n - 32) else c)"

definition py_upper :: "py_str \<Rightarrow> py_str" where
  "py_upper s = map upper_char s"

fun str_of :: "(pyval \<Rightarrow> py_str) \<Rightarrow> pyval \<Rightarrow> py_str" where
  "str_of container V_none = ''None''"
| "str_of container (V_bool b) = (if b then ''True'' else ''False'')"
| "str_of container (V_int n) = show_int n"
| "str_of container (V_float s) = s"
| "str_of container (V_str s) = s"
| "str_of container v = container v"

text \<open>
  \<^verbatim>\<open>_slug\<close> on ASCII text: what is neither a word character, a space nor a hyphen
  goes, runs of spaces, underscores and hyphens become one hyphen, hyphens at the ends go.
\<close>

definition slug_gap :: "char \<Rightarrow> bool" where
  "slug_gap c = (py_space c \<or> c = CHR ''_'' \<or> c = CHR ''-'')"

fun collapse_gaps :: "py_str \<Rightarrow> py_str" where
  "collapse_gaps [] = []"
| "collapse_gaps [c] = (if slug_gap c then ''-'' else [c])"
| "collapse_gaps (c # d # cs) =
     (if slug_gap c then (if slug_gap d then collapse_gaps (d # cs) else CHR ''-'' # collapse_gaps (d # cs))
      else c # collapse_gaps (d # cs))"

definition strip_hyphens :: "py_str \<Rightarrow> py_str" where
  "strip_hyphens s = rev (dropWhile ((=) CHR ''-'') (rev (dropWhile ((=) CHR ''-'') s)))"

definition slug :: "(pyval \<Rightarrow> py_str) \<Rightarrow> pyval \<Rightarrow> py_str" where
  "slug container v =
     (if v = V_none then []
      else py_lower (strip_hyphens (collapse_gaps
             (filter (\<lambda>c. word_char c \<or> py_space c \<or> c = CHR ''-'') (str_of container v)))))"

definition FILTERS :: "(pyval \<Rightarrow> py_str) \<Rightarrow> (py_str \<times> (pyval \<Rightarrow> py_str)) list" where
  "FILTERS container =
     [(''lower'', \<lambda>v. if v = V_none then [] else py_lower (str_of container v)),
      (''upper'', \<lambda>v. if v = V_none then [] else py_upper (str_of container v)),
      (''slug'', slug container),
      (''trim'', \<lambda>v. if v = V_none then [] else py_strip (str_of container v))]"

section \<open>Templates\<close>

text \<open>
  A token of \<^verbatim>\<open>_FORMAT_TOKEN\<close> at the start of a text: two braces, a name up to the first
  bar or closing brace, optionally a bar and a filter name, two closing braces. The result is
  the name, the filter and the text after the token.
\<close>

definition format_token :: "py_str \<Rightarrow> (py_str \<times> py_str option \<times> py_str) option" where
  "format_token s =
     (if take 2 s \<noteq> ''{{'' then None
      else let t = drop 2 s;
               name = takeWhile (\<lambda>c. c \<noteq> CHR ''|'' \<and> c \<noteq> CHR ''}'') t;
               rest = dropWhile (\<lambda>c. c \<noteq> CHR ''|'' \<and> c \<noteq> CHR ''}'') t
           in if name = [] then None
              else if take 2 rest = ''}}'' then Some (py_strip name, None, drop 2 rest)
              else if take 1 rest = ''|''
              then let u = dropWhile py_space (drop 1 rest);
                       filt = takeWhile (\<lambda>c. alpha_char c \<or> c = CHR ''_'') u;
                       after = dropWhile py_space (dropWhile (\<lambda>c. alpha_char c \<or> c = CHR ''_'') u)
                   in if filt \<noteq> [] \<and> take 2 after = ''}}''
                      then Some (py_strip name, Some filt, drop 2 after) else None
              else None)"

datatype relabel_error =
    E_missing_field
  | E_unknown_filter
  | E_unknown_action
  | E_predicate
  | E_unhashable

definition take_until :: "char \<Rightarrow> py_str \<Rightarrow> py_str" where
  "take_until d s = takeWhile (\<lambda>c. c \<noteq> d) s"

definition drop_past :: "char \<Rightarrow> py_str \<Rightarrow> py_str" where
  "drop_past d s = drop 1 (dropWhile (\<lambda>c. c \<noteq> d) s)"

text \<open>The value a name stands for: a label, or an element of a list label by its index.\<close>

definition token_value :: "store \<Rightarrow> pydict \<Rightarrow> pydict \<Rightarrow> py_str \<Rightarrow> pyval" where
  "token_value st labels metadata name =
     (if CHR ''['' \<in> set name
      then let v = resolve_label st labels metadata (py_strip (take_until CHR ''['' name));
               index = py_strip (rev (dropWhile ((=) CHR '']'') (rev (drop_past CHR ''['' name))))
           in (case v of
                 V_list vs \<Rightarrow>
                   (if index \<noteq> [] \<and> list_all digit_char index \<and> nat_of_digits index < length vs
                    then vs ! nat_of_digits index else V_none)
               | _ \<Rightarrow> V_none)
      else resolve_label st labels metadata name)"

definition token_text ::
  "(pyval \<Rightarrow> py_str) \<Rightarrow> pyval \<Rightarrow> py_str option \<Rightarrow> relabel_error + py_str" where
  "token_text container v filt =
     (case filt of
        Some f \<Rightarrow> (case map_of (FILTERS container) f of None \<Rightarrow> Inl E_unknown_filter | Some g \<Rightarrow> Inr (g v))
      | None \<Rightarrow>
          (case v of
             V_none \<Rightarrow> Inr []
           | V_list vs \<Rightarrow> (case vs of [] \<Rightarrow> Inr [] | w # _ \<Rightarrow> Inr (str_of container w))
           | _ \<Rightarrow> Inr (str_of container v)))"

lemma format_token_shorter:
  assumes "format_token s = Some (name, filt, after)"
  shows "length after < length s"
proof -
  let ?P = "\<lambda>c. c \<noteq> CHR ''|'' \<and> c \<noteq> CHR ''}''" and ?I = "\<lambda>c. alpha_char c \<or> c = CHR ''_''"
  let ?rest = "dropWhile ?P (drop 2 s)"
  let ?after = "dropWhile py_space (dropWhile ?I (dropWhile py_space (drop 1 ?rest)))"
  have "take 2 s = ''{{''" and "after = drop 2 ?rest \<or> after = drop 2 ?after"
    using assms by (auto simp: format_token_def Let_def split: if_splits)
  moreover have "length (take 2 s) = min 2 (length s)" by simp
  ultimately have "length s \<ge> 2" by (metis length_Cons list.size(3) min.cobounded2 numeral_2_eq_2)
  have rest: "length ?rest \<le> length s - 2"
    using length_dropWhile_le [of ?P "drop 2 s"] by simp
  have "length ?after \<le> length ?rest"
    using length_dropWhile_le [of py_space "dropWhile ?I (dropWhile py_space (drop 1 ?rest))"]
      length_dropWhile_le [of ?I "dropWhile py_space (drop 1 ?rest)"]
      length_dropWhile_le [of py_space "drop 1 ?rest"] by simp
  then have "length after \<le> length s - 2"
    using \<open>after = drop 2 ?rest \<or> after = drop 2 ?after\<close> rest by auto
  then show ?thesis using \<open>length s \<ge> 2\<close> by simp
qed

function render_text ::
  "(pyval \<Rightarrow> py_str) \<Rightarrow> store \<Rightarrow> pydict \<Rightarrow> pydict \<Rightarrow> py_str \<Rightarrow> relabel_error + py_str" where
  "render_text container st labels metadata s =
     (case s of
        [] \<Rightarrow> Inr []
      | c # cs \<Rightarrow>
          (case format_token s of
             Some (name, filt, after) \<Rightarrow>
               (case token_text container (token_value st labels metadata name) filt of
                  Inl e \<Rightarrow> Inl e
                | Inr t \<Rightarrow>
                    (case render_text container st labels metadata after of
                       Inl e \<Rightarrow> Inl e | Inr u \<Rightarrow> Inr (t @ u)))
           | None \<Rightarrow>
               (case render_text container st labels metadata cs of
                  Inl e \<Rightarrow> Inl e | Inr u \<Rightarrow> Inr (c # u))))"
  by pat_completeness auto

termination
  by (relation "measure (\<lambda>(_, _, _, _, s). length s)") (auto dest: format_token_shorter)

declare render_text.simps [simp del]

end
