(* ===== verification/Relabel.thy ===== *)
theory Relabel
  imports Labels
begin

text \<open>
  The relabel rules of a discovery (\<open>data/discovery/relabel.py\<close>): the nine actions, one rule,
  and the chain with its short circuit. A candidate's labels and metadata are dicts of the
  store. Predicates, SHA-256 and the text of containers are a parameter, the record
  \<open>relabel_env\<close>; the predicate is asked with the bindings the code makes, and answers \<open>None\<close>
  where both engines raise.
\<close>

section \<open>Candidates, rules, results\<close>

record candidate =
  ct_natural_key :: py_str
  ct_label_set :: nat
  ct_source_metadata :: nat

record relabel_rule =
  rl_source_labels :: "py_str list"
  rl_target_label :: "py_str option"
  rl_action :: py_str
  rl_replacement :: "py_str option"
  rl_extend_with :: "pyval list"
  rl_predicate :: "py_str option"
  rl_table :: "py_str option"
  rl_fallback :: pyval
  rl_modulus :: "int option"
  rl_eq :: "int option"

type_synonym lookup_tables = "(py_str \<times> (pyval \<times> pyval) list) list"

record relabel_env =
  re_container :: "store \<Rightarrow> pyval \<Rightarrow> py_str"
  re_repr :: "store \<Rightarrow> pyval \<Rightarrow> py_str"
  re_predicate :: "store \<Rightarrow> py_str \<Rightarrow> pydict \<Rightarrow> bool option"
  re_identifier :: "py_str \<Rightarrow> bool"
  re_hash :: "py_str \<Rightarrow> int"

record relabel_result =
  rr_labels :: nat
  rr_dropped :: bool
  rr_dropped_at :: "nat option"
  rr_dropped_by_action :: "py_str option"

section \<open>Reading\<close>

definition rule_label :: "candidate \<Rightarrow> nat \<Rightarrow> store \<Rightarrow> py_str \<Rightarrow> pyval" where
  "rule_label cand labels st name =
     resolve_label st (st_cells st labels) (st_cells st (ct_source_metadata cand)) name"

text \<open>\<^verbatim>\<open>if not rule.target_label\<close>: absent or empty.\<close>

definition required :: "py_str option \<Rightarrow> relabel_error + py_str" where
  "required v = (case v of Some s \<Rightarrow> (if s = [] then Inl E_missing_field else Inr s) | None \<Rightarrow> Inl E_missing_field)"

definition setdefault :: "py_str \<Rightarrow> pyval \<Rightarrow> pydict \<Rightarrow> pydict" where
  "setdefault k v d = (if map_of d k = None then d @ [(k, v)] else d)"

definition render_format :: "relabel_env \<Rightarrow> candidate \<Rightarrow> nat \<Rightarrow> py_str \<Rightarrow> store \<Rightarrow> relabel_error + py_str" where
  "render_format env cand labels template st =
     (let ls = setdefault ''id'' (V_str (ct_natural_key cand))
                 (setdefault ''natural_key'' (V_str (ct_natural_key cand)) (st_cells st labels))
      in render_text (re_container env st) st ls (st_cells st (ct_source_metadata cand)) template)"

section \<open>The mutating actions\<close>

text \<open>Each returns the store after its write, or the error it raises before any.\<close>

definition apply_set :: "relabel_rule \<Rightarrow> candidate \<Rightarrow> nat \<Rightarrow> store \<Rightarrow> relabel_error + store" where
  "apply_set rule cand labels st =
     (case required (rl_target_label rule) of
        Inl e \<Rightarrow> Inl e
      | Inr target \<Rightarrow>
          (case rl_source_labels rule of
             [] \<Rightarrow> Inl E_missing_field
           | src # _ \<Rightarrow> Inr (write_label labels target (rule_label cand labels st src) st)))"

definition apply_set_list :: "relabel_rule \<Rightarrow> candidate \<Rightarrow> nat \<Rightarrow> store \<Rightarrow> relabel_error + store" where
  "apply_set_list rule cand labels st =
     (case required (rl_target_label rule) of
        Inl e \<Rightarrow> Inl e
      | Inr target \<Rightarrow>
          (case rl_source_labels rule of
             [] \<Rightarrow> Inl E_missing_field
           | src # _ \<Rightarrow>
               Inr (write_label labels target
                 (case rule_label cand labels st src of
                    V_none \<Rightarrow> V_list []
                  | V_list vs \<Rightarrow> V_list vs
                  | v \<Rightarrow> V_list [v]) st)))"

definition apply_format :: "relabel_env \<Rightarrow> relabel_rule \<Rightarrow> candidate \<Rightarrow> nat \<Rightarrow> store \<Rightarrow> relabel_error + store" where
  "apply_format env rule cand labels st =
     (case required (rl_target_label rule) of
        Inl e \<Rightarrow> Inl e
      | Inr target \<Rightarrow>
          (case rl_replacement rule of
             None \<Rightarrow> Inl E_missing_field
           | Some template \<Rightarrow>
               (case render_format env cand labels template st of
                  Inl e \<Rightarrow> Inl e
                | Inr text \<Rightarrow> Inr (write_label labels target (V_str text) st))))"

text \<open>
  A list or a dict is no key of a dict: looking it up raises. (That Python takes \<open>True\<close> and
  \<open>1\<close> for the same key is left out.)
\<close>

fun hashable :: "pyval \<Rightarrow> bool" where
  "hashable (V_list _) = False"
| "hashable (V_dict _) = False"
| "hashable _ = True"

definition apply_lookup :: "lookup_tables \<Rightarrow> relabel_rule \<Rightarrow> candidate \<Rightarrow> nat \<Rightarrow> store \<Rightarrow> relabel_error + store" where
  "apply_lookup tables rule cand labels st =
     (case required (rl_target_label rule) of
        Inl e \<Rightarrow> Inl e
      | Inr target \<Rightarrow>
          (case (rl_source_labels rule, required (rl_table rule)) of
             (src # _, Inr name) \<Rightarrow>
               (let key = rule_label cand labels st src in
                case (key, map_of tables name) of
                  (V_none, _) \<Rightarrow> Inr (write_label labels target (rl_fallback rule) st)
                | (_, None) \<Rightarrow> Inr (write_label labels target (rl_fallback rule) st)
                | (_, Some table) \<Rightarrow>
                    if \<not> hashable key then Inl E_unhashable
                    else Inr (write_label labels target
                           (case map_of table key of None \<Rightarrow> rl_fallback rule | Some v \<Rightarrow> v) st))
           | _ \<Rightarrow> Inl E_missing_field))"

definition DEFAULT_COUNTRY_LANGUAGES :: "(pyval \<times> pyval) list" where
  "DEFAULT_COUNTRY_LANGUAGES =
     map (\<lambda>(c, ls). (V_str c, V_list (map V_str ls)))
       [(''BR'', [''pt-BR'']), (''AR'', [''es-AR'']), (''MX'', [''es-MX'']), (''US'', [''en-US'']),
        (''FR'', [''fr-FR'']), (''DE'', [''de-DE'']), (''JP'', [''ja-JP'']),
        (''IN'', [''hi-IN'', ''en-IN'']), (''ZA'', [''en-ZA'', ''af-ZA'', ''zu-ZA'']),
        (''ES'', [''es-ES'']), (''PT'', [''pt-PT'']), (''CN'', [''zh-CN'']), (''RU'', [''ru-RU''])]"

fun as_list :: "pyval \<Rightarrow> pyval list" where
  "as_list V_none = []"
| "as_list (V_list vs) = vs"
| "as_list v = [v]"

definition apply_lookup_languages :: "lookup_tables \<Rightarrow> relabel_rule \<Rightarrow> candidate \<Rightarrow> nat \<Rightarrow> store \<Rightarrow> relabel_error + store" where
  "apply_lookup_languages tables rule cand labels st =
     (case required (rl_target_label rule) of
        Inl e \<Rightarrow> Inl e
      | Inr target \<Rightarrow>
          (case rl_source_labels rule of
             [] \<Rightarrow> Inl E_missing_field
           | src # others \<Rightarrow>
               (let key = rule_label cand labels st src;
                    table = (case map_of tables ''languages_by_country'' of
                               Some t \<Rightarrow> (if t = [] then DEFAULT_COUNTRY_LANGUAGES else t)
                             | None \<Rightarrow> DEFAULT_COUNTRY_LANGUAGES);
                    fallback = (case others of
                                  second # _ \<Rightarrow> as_list (rule_label cand labels st second)
                                | [] \<Rightarrow> as_list (rl_fallback rule))
                in if key = V_none then Inr (write_label labels target (V_list fallback) st)
                   else if \<not> hashable key then Inl E_unhashable
                   else Inr (write_label labels target
                          (case map_of table key of
                             None \<Rightarrow> V_list fallback
                           | Some v \<Rightarrow> (if v = V_none then V_list fallback else V_list (as_list v))) st))))"

text \<open>The loop of \<open>merge_list\<close>: items whose \<open>repr\<close> was seen are skipped.\<close>

fun extend_unseen :: "(pyval \<Rightarrow> py_str) \<Rightarrow> pyval list \<Rightarrow> py_str list \<Rightarrow> pyval list \<Rightarrow> pyval list" where
  "extend_unseen key cur seen [] = cur"
| "extend_unseen key cur seen (x # xs) =
     (if key x \<in> set seen then extend_unseen key cur seen xs
      else extend_unseen key (cur @ [x]) (key x # seen) xs)"

definition apply_merge_list :: "relabel_env \<Rightarrow> relabel_rule \<Rightarrow> candidate \<Rightarrow> nat \<Rightarrow> store \<Rightarrow> relabel_error + store" where
  "apply_merge_list env rule cand labels st =
     (case required (rl_target_label rule) of
        Inl e \<Rightarrow> Inl e
      | Inr target \<Rightarrow>
          (let cur = as_list (rule_label cand labels st target); key = re_repr env st in
           Inr (write_label labels target
             (V_list (extend_unseen key cur (map key cur) (rl_extend_with rule))) st)))"

section \<open>The filtering actions\<close>

definition predicate_bindings :: "relabel_env \<Rightarrow> candidate \<Rightarrow> nat \<Rightarrow> store \<Rightarrow> py_str list \<Rightarrow> pydict" where
  "predicate_bindings env cand labels st sources =
     (let base = [(''value'', case sources of [] \<Rightarrow> V_none | s # _ \<Rightarrow> rule_label cand labels st s),
                  (''labels'', V_dict labels),
                  (''natural_key'', V_str (ct_natural_key cand)),
                  (''meta'', V_dict (ct_source_metadata cand))]
      in fold (\<lambda>name d. let ident = replace_char CHR ''.'' CHR ''_'' name in
                 if re_identifier env ident
                 then AList.update ident (rule_label cand labels st name) d else d) sources base)"

definition eval_predicate :: "relabel_env \<Rightarrow> relabel_rule \<Rightarrow> candidate \<Rightarrow> nat \<Rightarrow> store \<Rightarrow> relabel_error + bool" where
  "eval_predicate env rule cand labels st =
     (case required (rl_predicate rule) of
        Inl e \<Rightarrow> Inl e
      | Inr source \<Rightarrow>
          if py_strip source = [] then Inl E_missing_field
          else case re_predicate env st source
                      (predicate_bindings env cand labels st (rl_source_labels rule)) of
                 None \<Rightarrow> Inl E_predicate
               | Some b \<Rightarrow> Inr b)"

definition apply_hash_mod :: "relabel_env \<Rightarrow> relabel_rule \<Rightarrow> candidate \<Rightarrow> nat \<Rightarrow> store \<Rightarrow> relabel_error + bool" where
  "apply_hash_mod env rule cand labels st =
     (case (rl_modulus rule, rl_eq rule) of
        (Some m, Some r) \<Rightarrow>
          (if m \<le> 0 \<or> rl_source_labels rule = [] then Inl E_missing_field
           else let parts = map (\<lambda>n. str_of (re_container env st) (rule_label cand labels st n)) (rl_source_labels rule)
                in Inr (re_hash env (py_join ''|'' parts) mod m = r))
      | _ \<Rightarrow> Inl E_missing_field)"

section \<open>One rule\<close>

text \<open>
  \<open>apply_relabel_rule\<close>: the working labels are a new dict with the entries of the one it is
  given. The result is its address, whether the candidate is dropped, and the store.
\<close>

definition mutating_action ::
  "relabel_env \<Rightarrow> lookup_tables \<Rightarrow> relabel_rule \<Rightarrow> (candidate \<Rightarrow> nat \<Rightarrow> store \<Rightarrow> relabel_error + store) option" where
  "mutating_action env tables rule =
     (if rl_action rule = ''set'' then Some (apply_set rule)
      else if rl_action rule = ''set_list'' then Some (apply_set_list rule)
      else if rl_action rule = ''format'' then Some (apply_format env rule)
      else if rl_action rule = ''lookup'' then Some (apply_lookup tables rule)
      else if rl_action rule = ''lookup_languages'' then Some (apply_lookup_languages tables rule)
      else if rl_action rule = ''merge_list'' then Some (apply_merge_list env rule)
      else None)"

definition filter_verdict ::
  "relabel_env \<Rightarrow> relabel_rule \<Rightarrow> (candidate \<Rightarrow> nat \<Rightarrow> store \<Rightarrow> relabel_error + bool) option" where
  "filter_verdict env rule =
     (if rl_action rule = ''keep'' then Some (eval_predicate env rule)
      else if rl_action rule = ''drop''
      then Some (\<lambda>cand labels st. case eval_predicate env rule cand labels st of
                   Inl e \<Rightarrow> Inl e | Inr b \<Rightarrow> Inr (\<not> b))
      else if rl_action rule = ''hash_mod'' then Some (apply_hash_mod env rule)
      else None)"

definition apply_relabel_rule ::
  "relabel_env \<Rightarrow> lookup_tables \<Rightarrow> relabel_rule \<Rightarrow> candidate \<Rightarrow> nat \<Rightarrow> store \<Rightarrow>
     (relabel_error + nat \<times> bool) \<times> store" where
  "apply_relabel_rule env tables rule cand labels st =
     (let (working, st1) = alloc (st_cells st labels) st in
      case filter_verdict env rule of
        Some verdict \<Rightarrow>
          (case verdict cand working st1 of
             Inl e \<Rightarrow> (Inl e, st1)
           | Inr kept \<Rightarrow> (Inr (working, \<not> kept), st1))
      | None \<Rightarrow>
          (case mutating_action env tables rule of
             None \<Rightarrow> (Inl E_unknown_action, st1)
           | Some act \<Rightarrow>
               (case act cand working st1 of
                  Inl e \<Rightarrow> (Inl e, st1)
                | Inr st2 \<Rightarrow> (Inr (working, False), st2))))"

section \<open>The chain\<close>

fun relabel_from ::
  "relabel_env \<Rightarrow> lookup_tables \<Rightarrow> candidate \<Rightarrow> nat \<Rightarrow> relabel_rule list \<Rightarrow> nat \<Rightarrow> store \<Rightarrow>
     (relabel_error + relabel_result) \<times> store" where
  "relabel_from env tables cand i [] working st =
     (Inr \<lparr>rr_labels = working, rr_dropped = False, rr_dropped_at = None, rr_dropped_by_action = None\<rparr>, st)"
| "relabel_from env tables cand i (rule # rules) working st =
     (case apply_relabel_rule env tables rule cand working st of
        (Inl e, st1) \<Rightarrow> (Inl e, st1)
      | (Inr (working1, dropped), st1) \<Rightarrow>
          if dropped
          then (Inr \<lparr>rr_labels = working1, rr_dropped = True, rr_dropped_at = Some i,
                    rr_dropped_by_action = Some (rl_action rule)\<rparr>, st1)
          else relabel_from env tables cand (Suc i) rules working1 st1)"

definition evaluate_relabel_chain ::
  "relabel_env \<Rightarrow> lookup_tables \<Rightarrow> candidate \<Rightarrow> relabel_rule list \<Rightarrow> store \<Rightarrow>
     (relabel_error + relabel_result) \<times> store" where
  "evaluate_relabel_chain env tables cand rules st =
     (let (working, st1) = alloc (st_cells st (ct_label_set cand)) st in
      relabel_from env tables cand 0 rules working st1)"

section \<open>The chain, rule by rule\<close>

lemma relabel_from_append:
  "relabel_from env tables cand i (rs @ ss) working st =
     (case relabel_from env tables cand i rs working st of
        (Inl e, st1) \<Rightarrow> (Inl e, st1)
      | (Inr res, st1) \<Rightarrow>
          if rr_dropped res then (Inr res, st1)
          else relabel_from env tables cand (i + length rs) ss (rr_labels res) st1)"
  by (induction rs arbitrary: i working st) (auto split: sum.split prod.split)

lemma filtering_result:
  assumes "filter_verdict env rule = Some v"
  shows "apply_relabel_rule env tables rule cand labels st =
    (let (working, st1) = alloc (st_cells st labels) st in
     (case v cand working st1 of Inl e \<Rightarrow> Inl e | Inr kept \<Rightarrow> Inr (working, \<not> kept), st1))"
  using assms by (auto simp: apply_relabel_rule_def split: prod.split sum.split)

lemma dropped_only_by_filters:
  assumes "apply_relabel_rule env tables rule cand labels st = (Inr (w, True), st')"
  shows "rl_action rule \<in> {''keep'', ''drop'', ''hash_mod''}"
  using assms
  by (auto simp: apply_relabel_rule_def filter_verdict_def split: prod.splits option.splits sum.splits if_splits)

lemma relabel_drop_is_located:
  assumes "relabel_from env tables cand i rules working st = (Inr res, st')" and "rr_dropped res"
  shows "\<exists>j < length rules. rr_dropped_at res = Some (i + j) \<and>
    rr_dropped_by_action res = Some (rl_action (rules ! j)) \<and>
    rl_action (rules ! j) \<in> {''keep'', ''drop'', ''hash_mod''}"
  using assms
proof (induction rules arbitrary: i working st)
  case (Cons rule rules)
  obtain out st1 where out: "apply_relabel_rule env tables rule cand working st = (out, st1)"
    by (cases "apply_relabel_rule env tables rule cand working st")
  with Cons.prems obtain w d where w: "out = Inr (w, d)" by (cases out) auto
  show ?case
  proof (cases d)
    case True
    then have "rl_action rule \<in> {''keep'', ''drop'', ''hash_mod''}"
      using out w dropped_only_by_filters by simp
    then show ?thesis using True out w Cons.prems by (intro exI [of _ 0]) auto
  next
    case False
    then obtain j where "j < length rules" "rr_dropped_at res = Some (Suc i + j)"
        "rr_dropped_by_action res = Some (rl_action (rules ! j))"
        "rl_action (rules ! j) \<in> {''keep'', ''drop'', ''hash_mod''}"
      using Cons out w by (auto dest!: Cons.IH)
    then show ?thesis by (intro exI [of _ "Suc j"]) auto
  qed
qed auto

section \<open>What a chain writes\<close>

text \<open>The cells below a bound are as they were.\<close>

definition same_below :: "nat \<Rightarrow> store \<Rightarrow> store \<Rightarrow> bool" where
  "same_below n st st' \<longleftrightarrow> (\<forall>a < n. st_cells st' a = st_cells st a) \<and> n \<le> st_next st \<and> st_next st \<le> st_next st'"

lemma same_below_trans: "same_below n st st' \<Longrightarrow> same_below n st' st'' \<Longrightarrow> same_below n st st''"
  by (auto simp: same_below_def)

lemma same_below_alloc: "n \<le> st_next st \<Longrightarrow> same_below n st (snd (alloc d st))"
  by (auto simp: same_below_def alloc_def)

lemma same_below_set_key: "n \<le> st_next st \<Longrightarrow> n \<le> a \<Longrightarrow> same_below n st (set_key a k v st)"
  by (auto simp: same_below_def set_key_def)

lemma write_label_plain: "CHR ''.'' \<notin> set name \<Longrightarrow> write_label a name v st = set_key a name v st"
  by (simp add: write_label_def split_dots_token)

definition undotted :: "relabel_rule \<Rightarrow> bool" where
  "undotted rule \<longleftrightarrow> (case rl_target_label rule of Some t \<Rightarrow> CHR ''.'' \<notin> set t | None \<Rightarrow> True)"

lemma required_target:
  "required (rl_target_label rule) = Inr t \<Longrightarrow> undotted rule \<Longrightarrow> CHR ''.'' \<notin> set t"
  by (auto simp: required_def undotted_def split: option.splits if_splits)

lemma mutating_action_below:
  assumes "mutating_action env tables rule = Some act" and "act cand w st = Inr st'"
    and "undotted rule" and "n \<le> w" and "n \<le> st_next st"
  shows "same_below n st st'"
proof -
  have "\<exists>v. st' = write_label w t v st" if "required (rl_target_label rule) = Inr t" for t
    using assms(1,2) that
    by (auto simp: mutating_action_def apply_set_def apply_set_list_def apply_format_def apply_lookup_def
        apply_lookup_languages_def apply_merge_list_def Let_def
        split: if_splits list.splits option.splits sum.splits pyval.splits)
  moreover obtain t where t: "required (rl_target_label rule) = Inr t"
    using assms(1,2)
    by (cases "required (rl_target_label rule)")
       (auto simp: mutating_action_def apply_set_def apply_set_list_def apply_format_def apply_lookup_def
        apply_lookup_languages_def apply_merge_list_def Let_def split: if_splits)
  ultimately obtain v where "st' = write_label w t v st" by blast
  then show ?thesis
    using required_target [OF t assms(3)] assms(4,5) by (simp add: write_label_plain same_below_set_key)
qed

lemma apply_relabel_rule_below:
  assumes "undotted rule" and "n \<le> st_next st"
  shows "same_below n st (snd (apply_relabel_rule env tables rule cand labels st))"
proof -
  obtain w st1 where al: "alloc (st_cells st labels) st = (w, st1)" by (cases "alloc (st_cells st labels) st")
  then have st1: "same_below n st st1" and w: "n \<le> w" "n \<le> st_next st1"
    using same_below_alloc [OF assms(2), of "st_cells st labels"] assms(2) by (auto simp: alloc_def)
  show ?thesis
  proof (cases "filter_verdict env rule")
    case (Some v)
    then show ?thesis using al st1 by (simp add: filtering_result)
  next
    case None
    show ?thesis
    proof (cases "mutating_action env tables rule")
      case (Some act)
      show ?thesis
      proof (cases "act cand w st1")
        case (Inr st2)
        then have "same_below n st1 st2"
          using mutating_action_below Some assms(1) w by blast
        then show ?thesis
          using None Some Inr al st1 same_below_trans by (simp add: apply_relabel_rule_def)
      qed (use None Some al st1 in \<open>simp add: apply_relabel_rule_def\<close>)
    qed (use None al st1 in \<open>simp add: apply_relabel_rule_def\<close>)
  qed
qed

lemma relabel_from_below:
  "\<forall>rule \<in> set rules. undotted rule \<Longrightarrow> n \<le> st_next st \<Longrightarrow>
     same_below n st (snd (relabel_from env tables cand i rules working st))"
proof (induction rules arbitrary: i working st)
  case (Cons rule rules)
  obtain out st1 where out: "apply_relabel_rule env tables rule cand working st = (out, st1)"
    by (cases "apply_relabel_rule env tables rule cand working st")
  then have st1: "same_below n st st1"
    using apply_relabel_rule_below [of rule n st env tables cand working] Cons.prems by simp
  then have "n \<le> st_next st1" by (simp add: same_below_def)
  then show ?case
    using out st1 Cons by (auto split: sum.split intro: same_below_trans)
qed (simp add: same_below_def)

text \<open>A chain whose targets have no dots reads the candidate and leaves it alone: no dict that
  existed before, the candidate's labels and metadata and everything inside them, is changed.\<close>

theorem plain_chain_leaves_candidate:
  assumes "\<forall>rule \<in> set rules. undotted rule" and "a < st_next st"
  shows "st_cells (snd (evaluate_relabel_chain env tables cand rules st)) a = st_cells st a"
proof -
  obtain w st1 where al: "alloc (st_cells st (ct_label_set cand)) st = (w, st1)"
    by (cases "alloc (st_cells st (ct_label_set cand)) st")
  then have "same_below (st_next st) st st1"
    using same_below_alloc [of "st_next st" st "st_cells st (ct_label_set cand)"] by simp
  moreover from this have "same_below (st_next st) st1 (snd (relabel_from env tables cand 0 rules w st1))"
    using assms(1) by (intro relabel_from_below) (simp_all add: same_below_def)
  ultimately have "same_below (st_next st) st (snd (relabel_from env tables cand 0 rules w st1))"
    by (rule same_below_trans)
  then show ?thesis
    using al assms(2) by (simp add: evaluate_relabel_chain_def same_below_def)
qed

text \<open>A dotted target writes into the candidate: when the candidate's own labels hold a dict
  under the head of the target, one rule changes that dict in place, although the rule works
  on a copy of the labels. The candidate no longer is what the discovery emitted.\<close>

theorem dotted_target_writes_candidate:
  assumes "rl_action rule = ''set''" and "rl_source_labels rule = [src]"
    and "rl_target_label rule = Some (head @ CHR ''.'' # field)"
    and "CHR ''.'' \<notin> set head" and "CHR ''.'' \<notin> set field"
    and "map_of (st_cells st (ct_label_set cand)) head = Some (V_dict b)"
    and "b < st_next st" and "ct_source_metadata cand < st_next st"
    and "map_of (st_cells st (ct_label_set cand)) src = Some v"
  shows "map_of (st_cells (snd (apply_relabel_rule env tables rule cand (ct_label_set cand) st)) b) field = Some v"
proof -
  let ?w = "st_next st" and ?st1 = "snd (alloc (st_cells st (ct_label_set cand)) st)"
  have cell: "st_cells ?st1 ?w = st_cells st (ct_label_set cand)" by (simp add: alloc_def)
  have "write_label ?w (head @ CHR ''.'' # field) v ?st1 = set_key b field v ?st1"
    using assms(4-6) by (simp add: write_label_def split_dots_join split_dots_token cell)
  moreover have "rule_label cand ?w ?st1 src = v"
    using assms(9) by (simp add: rule_label_def resolve_label_def cell)
  moreover have "required (rl_target_label rule) = Inr (head @ CHR ''.'' # field)"
    using assms(3) by (simp add: required_def)
  ultimately have "apply_relabel_rule env tables rule cand (ct_label_set cand) st =
      (Inr (?w, False), set_key b field v ?st1)"
    using assms(1,2)
    by (simp add: apply_relabel_rule_def filter_verdict_def mutating_action_def apply_set_def alloc_def)
  then show ?thesis by (simp add: set_key_def table_simps)
qed

definition example_env :: relabel_env where
  "example_env =
     \<lparr>re_container = (\<lambda>st v. []), re_repr = (\<lambda>st v. []), re_predicate = (\<lambda>st s d. None),
      re_identifier = (\<lambda>s. True), re_hash = (\<lambda>s. 0)\<rparr>"

definition example_candidate :: candidate where
  "example_candidate = \<lparr>ct_natural_key = ''BR'', ct_label_set = 0, ct_source_metadata = 2\<rparr>"

definition example_store :: store where
  "example_store =
     \<lparr>st_next = 3,
      st_cells = (\<lambda>_. [])(0 := [(''iso2'', V_str ''BR''), (''scope'', V_dict 1)],
                          1 := [(''geo'', V_str ''XX'')])\<rparr>"

definition example_rule :: "py_str \<Rightarrow> relabel_rule" where
  "example_rule target =
     \<lparr>rl_source_labels = [''iso2''], rl_target_label = Some target, rl_action = ''set'',
      rl_replacement = None, rl_extend_with = [], rl_predicate = None, rl_table = None,
      rl_fallback = V_none, rl_modulus = None, rl_eq = None\<rparr>"

theorem plain_chain_leaves_candidate_witness:
  "st_cells (snd (evaluate_relabel_chain example_env [] example_candidate
     [example_rule ''geo'', example_rule ''tags''] example_store)) 1 = [(''geo'', V_str ''XX'')]"
  using plain_chain_leaves_candidate [of "[example_rule ''geo'', example_rule ''tags'']" 1 example_store
      example_env "[]" example_candidate]
  by (simp add: undotted_def example_rule_def example_store_def)

theorem dotted_target_writes_candidate_witness:
  "map_of (st_cells (snd (apply_relabel_rule example_env [] (example_rule ''scope.geo'') example_candidate
     (ct_label_set example_candidate) example_store)) 1) ''geo'' = Some (V_str ''BR'')"
  by (rule dotted_target_writes_candidate [where head = "''scope''" and src = "''iso2''"])
     (simp_all add: example_rule_def example_candidate_def example_store_def)

end
