(* ===== verification/DescriptorTree.thy ===== *)
theory DescriptorTree
  imports Relabel "HOL-Library.Char_ord" "HOL-Library.List_Lexorder"
begin

text \<open>
  Descriptor bodies as JSON trees: the parent-body merge and the assembly of a materialised
  body from a template and the writes of a relabel chain
  (\<open>data/registry/discovered_materializer.py\<close>, \<open>merge_descriptor_bodies\<close>,
  \<open>_extract_chain_writes\<close>, \<open>_assemble_materialized_body\<close>, \<open>_semantic_fingerprint\<close>). A body is
  a dict in key order; a deep copy is the value itself. What the relabelled labels hold is
  read from the store to the depth of the number of its dicts, which every acyclic value
  respects; a cyclic one gives \<open>None\<close>, where the code's JSON encoder raises. Canonical JSON is
  represented by the tree with its keys sorted; SHA-256 of the text is a parameter.
\<close>

section \<open>From labels to JSON\<close>

text \<open>\<open>None\<close> as soon as one element is.\<close>

fun sequence :: "'a option list \<Rightarrow> 'a list option" where
  "sequence [] = Some []"
| "sequence (None # xs) = None"
| "sequence (Some x # xs) = map_option ((#) x) (sequence xs)"

fun thaw :: "nat \<Rightarrow> store \<Rightarrow> pyval \<Rightarrow> json option" where
  "thaw n st V_none = Some J_null"
| "thaw n st (V_bool b) = Some (J_bool b)"
| "thaw n st (V_int i) = Some (J_int i)"
| "thaw n st (V_float s) = Some (J_float s)"
| "thaw n st (V_str s) = Some (J_str s)"
| "thaw n st (V_list vs) = map_option J_list (sequence (map (thaw n st) vs))"
| "thaw 0 st (V_dict a) = None"
| "thaw (Suc n) st (V_dict a) =
     map_option J_object (sequence (map (\<lambda>(k, v). map_option (Pair k) (thaw n st v)) (st_cells st a)))"

section \<open>The merge\<close>

function deep_merge :: "json_dict \<Rightarrow> json_dict \<Rightarrow> json_dict" where
  "deep_merge dst [] = dst"
| "deep_merge dst ((key, sval) # src) =
     deep_merge
       (if sval = J_null then dst
        else case map_of dst key of
               None \<Rightarrow> AList.update key sval dst
             | Some dval \<Rightarrow>
                 (case (dval, sval) of
                    (J_object d, J_object s) \<Rightarrow> AList.update key (J_object (deep_merge d s)) dst
                  | _ \<Rightarrow> AList.update key sval dst))
       src"
  by pat_completeness auto

termination
  by (relation "measure (\<lambda>(dst, src). size_list (size_prod (\<lambda>_. 0) size) src)") auto

definition merge_descriptor_bodies :: "json_dict \<Rightarrow> json_dict \<Rightarrow> json_dict" where
  "merge_descriptor_bodies template relabeled = deep_merge template relabeled"

section \<open>The writes of a chain\<close>

fun put_path :: "py_str list \<Rightarrow> json \<Rightarrow> json_dict \<Rightarrow> json_dict" where
  "put_path [] v d = d"
| "put_path [k] v d = AList.update k v d"
| "put_path (k # k' # ks) v d =
     AList.update k
       (J_object (put_path (k' # ks) v (case map_of d k of Some (J_object e) \<Rightarrow> e | _ \<Rightarrow> []))) d"

definition written_paths :: "relabel_rule list \<Rightarrow> py_str list" where
  "written_paths rules =
     remdups (List.map_filter (\<lambda>r. case rl_target_label r of
                                     Some t \<Rightarrow> (if t = [] then None else Some t) | None \<Rightarrow> None) rules)"

text \<open>
  The source iterates over a set of paths; the order of the rules is used here. A path that
  projects to nothing is skipped.
\<close>

fun extract_paths :: "store \<Rightarrow> nat \<Rightarrow> py_str list \<Rightarrow> json_dict \<Rightarrow> json_dict option" where
  "extract_paths st labels [] out = Some out"
| "extract_paths st labels (path # paths) out =
     (let v = walk st (V_dict labels) (split_dots path) in
      if v = V_none then extract_paths st labels paths out
      else case thaw (st_next st) st v of
             None \<Rightarrow> None
           | Some j \<Rightarrow> extract_paths st labels paths (put_path (split_dots path) j out))"

definition extract_chain_writes :: "relabel_rule list \<Rightarrow> store \<Rightarrow> nat \<Rightarrow> json_dict option" where
  "extract_chain_writes rules st labels = extract_paths st labels (written_paths rules) []"

section \<open>Assembly\<close>

text \<open>\<^verbatim>\<open>list(x)\<close>; \<open>None\<close> where it raises.\<close>

fun py_list :: "json \<Rightarrow> json list option" where
  "py_list (J_list xs) = Some xs"
| "py_list (J_str s) = Some (map (\<lambda>c. J_str [c]) s)"
| "py_list (J_object d) = Some (map (J_str \<circ> fst) d)"
| "py_list _ = None"

fun json_falsy :: "json \<Rightarrow> bool" where
  "json_falsy J_null = True"
| "json_falsy (J_bool b) = (\<not> b)"
| "json_falsy (J_int n) = (n = 0)"
| "json_falsy (J_float s) = (s = ''0.0'' \<or> s = ''-0.0'')"
| "json_falsy (J_str s) = (s = [])"
| "json_falsy (J_list xs) = (xs = [])"
| "json_falsy (J_object d) = (d = [])"

record discovery =
  ds_id :: py_str
  ds_owner :: py_str
  ds_schema_uri :: py_str
  ds_inherits :: "py_str list"
  ds_relabel :: "relabel_rule list"

definition dict_default :: "py_str \<Rightarrow> json \<Rightarrow> json_dict \<Rightarrow> json_dict" where
  "dict_default k v d = (if map_of d k = None then AList.update k v d else d)"

text \<open>Tags written at the top level move into the scope.\<close>

definition promote_tags :: "json_dict \<Rightarrow> json_dict option" where
  "promote_tags ws =
     (case map_of ws ''tags'' of
        None \<Rightarrow> Some ws
      | Some tags \<Rightarrow>
          (let ws1 = AList.delete ''tags'' ws in
           if tags = J_null then Some ws1
           else case (py_list tags, map_of ws1 ''scope'') of
                  (Some ts, None) \<Rightarrow> Some (AList.update ''scope'' (J_object [(''tags'', J_list ts)]) ws1)
                | (Some ts, Some (J_object sc)) \<Rightarrow>
                    Some (AList.update ''scope'' (J_object (AList.update ''tags'' (J_list ts) sc)) ws1)
                | _ \<Rightarrow> None))"

definition with_inherits :: "json option \<Rightarrow> py_str \<Rightarrow> json_dict \<Rightarrow> json_dict option" where
  "with_inherits template_id discovery_id ident =
     (let own = (case map_of ident ''inherits'' of
                   None \<Rightarrow> Some []
                 | Some v \<Rightarrow> (if json_falsy v then Some [] else py_list v))
      in case own of
           None \<Rightarrow> None
         | Some inh \<Rightarrow>
             (let inh1 = (case template_id of
                            None \<Rightarrow> inh
                          | Some t \<Rightarrow> (if json_falsy t \<or> t \<in> set inh then inh else inh @ [t]));
                  inh2 = (if J_str discovery_id \<in> set inh1 then inh1 else inh1 @ [J_str discovery_id])
              in Some (AList.update ''inherits'' (J_list inh2) ident)))"

definition assemble_materialized_body ::
  "json_dict \<Rightarrow> json_dict \<Rightarrow> discovery \<Rightarrow> py_str \<Rightarrow> json_dict option" where
  "assemble_materialized_body template write_set disc now =
     (case (case map_of template ''identity'' of None \<Rightarrow> Some [] | Some (J_object i) \<Rightarrow> Some i | _ \<Rightarrow> None) of
        None \<Rightarrow> None
      | Some ident \<Rightarrow>
          (let template_id = map_of ident ''id'';
               ident1 = AList.delete ''version'' (AList.delete ''id'' ident);
               base = AList.delete ''discovery'' (AList.update ''identity'' (J_object ident1) template)
           in case promote_tags write_set of
                None \<Rightarrow> None
              | Some ws \<Rightarrow>
                  (let merged = merge_descriptor_bodies base ws in
                   case map_of merged ''identity'' of
                     Some (J_object mi) \<Rightarrow>
                       (case with_inherits template_id (ds_id disc)
                               (AList.update ''state'' (J_str ''draft'')
                                 (AList.update ''abstraction_level'' (J_str ''L1'') mi)) of
                          None \<Rightarrow> None
                        | Some mi1 \<Rightarrow>
                            Some (AList.update ''identity''
                              (J_object (dict_default ''version'' (J_str (replicate 16 CHR ''0''))
                                (dict_default ''created'' (J_str now)
                                  (dict_default ''owner'' (J_str (ds_owner disc))
                                    (dict_default ''schema_uri'' (J_str (ds_schema_uri disc)) mi1))))) merged))
                   | _ \<Rightarrow> None)))"

section \<open>The fingerprint\<close>

definition SEMANTIC_FIELDS :: "py_str list" where
  "SEMANTIC_FIELDS = [''scope'', ''sources'', ''analyst'', ''pipeline'', ''outputs'']"

fun canonical_json :: "json \<Rightarrow> json" where
  "canonical_json (J_object d) = J_object (sort_key fst (map (\<lambda>(k, v). (k, canonical_json v)) d))"
| "canonical_json (J_list vs) = J_list (map canonical_json vs)"
| "canonical_json v = v"

definition semantic_projection :: "json_dict \<Rightarrow> json_dict" where
  "semantic_projection body =
     map (\<lambda>k. (k, case map_of body k of None \<Rightarrow> J_null | Some v \<Rightarrow> v)) SEMANTIC_FIELDS"

definition semantic_fingerprint :: "(json \<Rightarrow> py_str) \<Rightarrow> json_dict \<Rightarrow> py_str" where
  "semantic_fingerprint sha body = sha (canonical_json (J_object (semantic_projection body)))"

section \<open>What the merge does\<close>

definition merged_value :: "json option \<Rightarrow> json option \<Rightarrow> json option" where
  "merged_value dv sv =
     (case sv of
        None \<Rightarrow> dv
      | Some s \<Rightarrow>
          if s = J_null then dv
          else (case (dv, s) of
                  (Some (J_object d), J_object e) \<Rightarrow> Some (J_object (deep_merge d e))
                | _ \<Rightarrow> Some s))"

lemma map_of_deep_merge:
  "distinct (map fst src) \<Longrightarrow> map_of (deep_merge dst src) k = merged_value (map_of dst k) (map_of src k)"
proof (induction src arbitrary: dst)
  case (Cons kv src)
  obtain key sval where kv: "kv = (key, sval)" by (cases kv)
  let ?dst = "if sval = J_null then dst
        else case map_of dst key of
               None \<Rightarrow> AList.update key sval dst
             | Some dval \<Rightarrow>
                 (case (dval, sval) of
                    (J_object d, J_object s) \<Rightarrow> AList.update key (J_object (deep_merge d s)) dst
                  | _ \<Rightarrow> AList.update key sval dst)"
  have step: "map_of (deep_merge dst (kv # src)) k = merged_value (map_of ?dst k) (map_of src k)"
    using Cons by (simp add: kv)
  have other: "map_of ?dst k = map_of dst k" if "k \<noteq> key"
    using that by (auto simp: table_simps split: option.split json.split)
  have same: "map_of ?dst key = merged_value (map_of dst key) (Some sval)"
    by (auto simp: table_simps merged_value_def split: option.split json.split)
  show ?case
  proof (cases "k = key")
    case True
    moreover have "map_of src key = None"
      using Cons.prems by (simp add: kv map_of_eq_None_iff)
    ultimately show ?thesis using step same by (simp add: kv merged_value_def)
  next
    case False
    then show ?thesis using step other by (simp add: kv)
  qed
qed (simp add: merged_value_def)

text \<open>The parent-body merge key by key: where the relabelled side has nothing or null the
  template's value stands, where both have a dict the dicts are merged in the same way, and
  everywhere else, lists included, the relabelled value replaces the template's.\<close>

theorem merge_descriptor_bodies_exact:
  assumes "distinct (map fst relabeled)"
  shows "map_of (merge_descriptor_bodies template relabeled) k =
    (case (map_of template k, map_of relabeled k) of
       (t, None) \<Rightarrow> t
     | (t, Some J_null) \<Rightarrow> t
     | (Some (J_object d), Some (J_object e)) \<Rightarrow> Some (J_object (merge_descriptor_bodies d e))
     | (_, Some s) \<Rightarrow> Some s)"
  unfolding merge_descriptor_bodies_def map_of_deep_merge [OF assms] merged_value_def
  by (cases "map_of template k"; cases "map_of relabeled k") (simp_all split: json.split)

theorem merge_descriptor_bodies_exact_witness:
  "map_of (merge_descriptor_bodies
      [(''scope'', J_object [(''geo'', J_list [J_str ''XX'']), (''days'', J_int 90)])]
      [(''scope'', J_object [(''geo'', J_list [J_str ''BR''])])]) ''scope'' =
    Some (J_object [(''geo'', J_list [J_str ''BR'']), (''days'', J_int 90)])"
  by (subst merge_descriptor_bodies_exact) (simp_all add: merge_descriptor_bodies_def)

end
