(* ===== verification/Discovery.thy ===== *)
theory Discovery
  imports DescriptorTree Complex_Main
begin

text \<open>
  One discovery cycle on the table \<open>target_descriptors\<close>: the disappearance decision
  (\<open>data/discovery/disappearance.py\<close>), the materialisation of one candidate, and the cycle that
  materialises every candidate and retires what is gone
  (\<open>data/registry/discovered_materializer.py\<close>). The validation of an assembled body by the
  descriptor schema, SHA-256, the clock, the text of a JSON container and the failures of the
  insert are a parameter, the record \<open>discovery_env\<close>. Ratios are exact rationals where the
  code divides floats.
\<close>

section \<open>The disappearance decision\<close>

record resync_policy =
  ry_threshold :: rat
  ry_on_anomaly :: py_str
  ry_min_prior_active :: nat

definition ResyncPolicy :: resync_policy where
  "ResyncPolicy = \<lparr>ry_threshold = 30 / 100, ry_on_anomaly = ''alert_and_pause'', ry_min_prior_active = 10\<rparr>"

datatype verdict = Proceed | Anomaly | Skipped

record decision =
  dd_verdict :: verdict
  dd_prior_count :: nat
  dd_current_count :: nat
  dd_disappeared :: "py_str list"
  dd_new :: "py_str list"
  dd_retained :: "py_str list"
  dd_ratio :: rat
  dd_threshold :: rat
  dd_routes_to_dlq :: "py_str list"
  dd_on_anomaly :: py_str

definition dd_anomaly :: "decision \<Rightarrow> bool" where
  "dd_anomaly d = (dd_verdict d = Anomaly)"

definition should_alert :: "decision \<Rightarrow> bool" where
  "should_alert d = (dd_anomaly d \<and> dd_on_anomaly d \<in> {''alert_and_pause'', ''alert_only''})"

definition should_pause :: "decision \<Rightarrow> bool" where
  "should_pause d = (dd_anomaly d \<and> dd_on_anomaly d = ''alert_and_pause'')"

definition should_retire_disappeared :: "decision \<Rightarrow> bool" where
  "should_retire_disappeared d =
     (if dd_verdict d \<noteq> Anomaly then True else dd_on_anomaly d = ''retire_anyway'')"

definition sorted_minus :: "py_str list \<Rightarrow> py_str list \<Rightarrow> py_str list" where
  "sorted_minus xs ys = sort (remdups (filter (\<lambda>x. x \<notin> set ys) xs))"

definition evaluate_disappearance ::
  "py_str list \<Rightarrow> py_str list \<Rightarrow> resync_policy option \<Rightarrow> decision" where
  "evaluate_disappearance prior_keys current_keys policy =
     (let p = (case policy of None \<Rightarrow> ResyncPolicy | Some p \<Rightarrow> p);
          disappeared = sorted_minus prior_keys current_keys;
          prior_count = card (set prior_keys);
          ratio = (if prior_count > 0 then of_nat (length disappeared) / of_nat prior_count else 0);
          decide = (\<lambda>verdict dlq.
            \<lparr>dd_verdict = verdict, dd_prior_count = prior_count,
             dd_current_count = card (set current_keys), dd_disappeared = disappeared,
             dd_new = sorted_minus current_keys prior_keys,
             dd_retained = sort (remdups (filter (\<lambda>x. x \<in> set current_keys) prior_keys)),
             dd_ratio = ratio, dd_threshold = ry_threshold p, dd_routes_to_dlq = dlq,
             dd_on_anomaly = ry_on_anomaly p\<rparr>)
      in if ry_threshold p \<le> 0 then decide Proceed []
         else if prior_count < ry_min_prior_active p then decide Skipped []
         else if ratio > ry_threshold p
         then decide Anomaly (if ry_on_anomaly p = ''retire_anyway'' then [] else disappeared)
         else decide Proceed [])"

section \<open>The table\<close>

record target_row =
  tg_schema_uri :: py_str
  tg_is_head :: bool
  tg_level :: py_str
  tg_state :: py_str
  tg_owner :: py_str
  tg_name :: py_str
  tg_body :: json
  tg_inherits :: "py_str list"
  tg_created_at :: instant

text \<open>The primary key is the descriptor's id and its version.\<close>

type_synonym target_table = "((py_str \<times> py_str) \<times> target_row) list"

definition head_rows :: "py_str \<Rightarrow> target_table \<Rightarrow> target_table" where
  "head_rows d tbl = filter (\<lambda>((i, _), r). i = d \<and> tg_is_head r) tbl"

definition head_of :: "target_table \<Rightarrow> py_str \<Rightarrow> (py_str \<times> target_row) option" where
  "head_of tbl d = (case head_rows d tbl of [] \<Rightarrow> None | ((_, v), r) # _ \<Rightarrow> Some (v, r))"

definition update_head :: "py_str \<Rightarrow> (target_row \<Rightarrow> target_row) \<Rightarrow> target_table \<Rightarrow> target_table" where
  "update_head d f tbl =
     map (\<lambda>((i, v), r). ((i, v), if i = d \<and> tg_is_head r then f r else r)) tbl"

definition demote_head :: "py_str \<Rightarrow> target_table \<Rightarrow> target_table" where
  "demote_head d tbl = update_head d (\<lambda>r. r\<lparr>tg_is_head := False\<rparr>) tbl"

definition assert_head :: "py_str \<Rightarrow> py_str \<Rightarrow> target_table \<Rightarrow> target_table" where
  "assert_head d v tbl =
     map (\<lambda>(k, r). (k, if k = (d, v) then r\<lparr>tg_is_head := True\<rparr> else r)) tbl"

definition retire_descriptor :: "target_table \<Rightarrow> py_str \<Rightarrow> target_table" where
  "retire_descriptor tbl d = update_head d (\<lambda>r. r\<lparr>tg_state := ''retired''\<rparr>) tbl"

definition pause_discovery :: "discovery \<Rightarrow> target_table \<Rightarrow> target_table" where
  "pause_discovery disc tbl = update_head (ds_id disc) (\<lambda>r. r\<lparr>tg_state := ''paused''\<rparr>) tbl"

text \<open>Two constraints hold of the table: the primary key, and one head at most per descriptor.\<close>

definition one_head :: "target_table \<Rightarrow> bool" where
  "one_head tbl \<longleftrightarrow> distinct (map fst tbl) \<and> (\<forall>d. length (head_rows d tbl) \<le> 1)"

text \<open>How the statements move the heads.\<close>

named_theorems head_simps \<open>the heads of a table after a statement\<close>

lemma keys_update_head [head_simps]: "map fst (update_head d f tbl) = map fst tbl"
  by (induction tbl) (auto simp: update_head_def)

lemma keys_assert_head [head_simps]: "map fst (assert_head d v tbl) = map fst tbl"
  by (induction tbl) (auto simp: assert_head_def)

lemma head_rows_append [head_simps]: "head_rows d (tbl @ tbl') = head_rows d tbl @ head_rows d tbl'"
  by (simp add: head_rows_def)

lemma head_rows_single [head_simps]:
  "head_rows d [((i, v), r)] = (if i = d \<and> tg_is_head r then [((i, v), r)] else [])"
  by (simp add: head_rows_def)

lemma head_rows_update_head [head_simps]:
  assumes "\<And>r. tg_is_head (f r) = tg_is_head r"
  shows "head_rows d (update_head e f tbl) =
    map (\<lambda>(k, r). (k, if e = d then f r else r)) (head_rows d tbl)"
  by (induction tbl) (auto simp: head_rows_def update_head_def assms split: if_splits)

lemma head_rows_demote_head [head_simps]:
  "head_rows d (demote_head e tbl) = (if e = d then [] else head_rows d tbl)"
  by (induction tbl) (auto simp: head_rows_def update_head_def demote_head_def split: if_splits)

lemma keys_demote_head [head_simps]: "map fst (demote_head d tbl) = map fst tbl"
  by (simp add: demote_head_def head_simps)

lemma head_rows_assert_head_other [head_simps]:
  "e \<noteq> d \<Longrightarrow> head_rows d (assert_head e v tbl) = head_rows d tbl"
  by (induction tbl) (auto simp: head_rows_def assert_head_def)

lemma head_rows_assert_head_same:
  assumes "head_rows d tbl = []"
  shows "head_rows d (assert_head d v tbl) =
    map (\<lambda>(k, r). (k, r\<lparr>tg_is_head := True\<rparr>)) (filter (\<lambda>(k, r). k = (d, v)) tbl)"
  using assms by (induction tbl) (auto simp: head_rows_def assert_head_def split: if_splits)

lemma key_rows_at_most_one: "distinct (map fst tbl) \<Longrightarrow> length (filter (\<lambda>(k, r). k = key) tbl) \<le> 1"
proof (induction tbl)
  case (Cons x tbl)
  have "filter (\<lambda>(k, r). k = key) tbl = []" if "fst x = key"
    using Cons.prems that by (auto simp: filter_empty_conv image_iff)
  then show ?case using Cons by (cases x) simp
qed simp

lemma one_head_update_head:
  "one_head tbl \<Longrightarrow> (\<And>r. tg_is_head (f r) = tg_is_head r) \<Longrightarrow> one_head (update_head d f tbl)"
  by (simp add: one_head_def head_simps)

lemma one_head_demote_head: "one_head tbl \<Longrightarrow> one_head (demote_head d tbl)"
  by (simp add: one_head_def head_simps)

lemma one_head_insert:
  assumes "one_head tbl" and "(d, v) \<notin> fst ` set tbl"
  shows "one_head (demote_head d tbl @ [((d, v), r)])"
proof -
  have "(d, v) \<notin> set (map fst (demote_head d tbl))" using assms(2) by (simp add: head_simps)
  then show ?thesis using assms(1) by (auto simp: one_head_def head_simps)
qed

lemma one_head_assert:
  assumes "one_head tbl"
  shows "one_head (assert_head d v (demote_head d tbl))"
proof -
  have "length (head_rows e (assert_head d v (demote_head d tbl))) \<le> 1" for e
  proof (cases "e = d")
    case True
    have "distinct (map fst (demote_head d tbl))" using assms by (simp add: one_head_def head_simps)
    from key_rows_at_most_one [OF this, of "(d, v)"] show ?thesis
      using True by (simp add: head_rows_assert_head_same head_simps)
  qed (use assms in \<open>simp add: one_head_def head_simps\<close>)
  then show ?thesis using assms by (simp add: one_head_def head_simps)
qed

lemma head_of_update_head:
  "(\<And>r. tg_is_head (f r) = tg_is_head r) \<Longrightarrow>
     head_of (update_head e f tbl) d = map_option (\<lambda>(v, r). (v, if e = d then f r else r)) (head_of tbl d)"
  by (auto simp: head_of_def head_simps split: list.split)

lemma head_of_retire: "head_of (retire_descriptor tbl e) d =
    map_option (\<lambda>(v, r). (v, if e = d then r\<lparr>tg_state := ''retired''\<rparr> else r)) (head_of tbl d)"
  by (simp add: retire_descriptor_def head_of_update_head)

lemma head_of_pause: "head_of (pause_discovery disc tbl) d =
    map_option (\<lambda>(v, r). (v, if ds_id disc = d then r\<lparr>tg_state := ''paused''\<rparr> else r)) (head_of tbl d)"
  by (simp add: pause_discovery_def head_of_update_head)

section \<open>One candidate\<close>

record target_descriptor =
  td_id :: py_str
  td_schema_uri :: py_str
  td_level :: py_str
  td_state :: py_str
  td_owner :: py_str
  td_name :: py_str
  td_inherits :: "py_str list"
  td_dump :: json_dict

record discovery_env =
  de_relabel :: relabel_env
  de_validate :: "json_dict \<Rightarrow> target_descriptor option"
  de_sha :: "json \<Rightarrow> py_str"
  de_text :: "json \<Rightarrow> py_str"
  de_now :: instant
  de_now_iso :: py_str
  de_insert_ok :: "py_str \<Rightarrow> py_str \<Rightarrow> bool"
  de_dlq :: bool

datatype materialize_error =
    M_relabel relabel_error
  | M_no_parent
  | M_no_template
  | M_shape
  | M_insert

record materialize_outcome =
  mo_natural_key :: py_str
  mo_descriptor_id :: "py_str option"
  mo_row :: bool
  mo_version :: "py_str option"
  mo_dropped :: bool
  mo_dlq :: bool
  mo_body :: "json_dict option"

datatype dlq_entry =
    Invalid_body py_str json_dict
  | Raised py_str materialize_error
  | Resync py_str "py_str option"

text \<open>The hash leaves the version out; the stored body carries it.\<close>

definition in_identity :: "(json_dict \<Rightarrow> json_dict) \<Rightarrow> json_dict \<Rightarrow> json_dict" where
  "in_identity f body =
     (case map_of body ''identity'' of
        Some (J_object i) \<Rightarrow> AList.update ''identity'' (J_object (f i)) body
      | _ \<Rightarrow> body)"

definition content_hash :: "(json \<Rightarrow> py_str) \<Rightarrow> target_descriptor \<Rightarrow> py_str" where
  "content_hash sha td =
     sha (canonical_json (J_object (in_identity (AList.delete ''version'') (td_dump td))))"

definition stamped_body :: "(json \<Rightarrow> py_str) \<Rightarrow> target_descriptor \<Rightarrow> json_dict" where
  "stamped_body sha td =
     in_identity (AList.update ''version'' (J_str (content_hash sha td))) (td_dump td)"

fun json_mapping :: "json \<Rightarrow> json_dict" where
  "json_mapping (J_object d) = d"
| "json_mapping _ = []"

definition yields_to_operator :: "discovery \<Rightarrow> target_row \<Rightarrow> bool" where
  "yields_to_operator disc head = (tg_state head = ''active'' \<and> tg_owner head \<noteq> ds_owner disc)"

definition draft_row :: "discovery_env \<Rightarrow> target_descriptor \<Rightarrow> target_row" where
  "draft_row env td =
     \<lparr>tg_schema_uri = td_schema_uri td, tg_is_head = True, tg_level = td_level td,
      tg_state = td_state td, tg_owner = td_owner td, tg_name = td_name td,
      tg_body = J_object (stamped_body (de_sha env) td), tg_inherits = td_inherits td,
      tg_created_at = de_now env\<rparr>"

definition landed :: "py_str \<Rightarrow> target_descriptor \<Rightarrow> bool \<Rightarrow> py_str \<Rightarrow> bool \<Rightarrow> json_dict option \<Rightarrow> materialize_outcome" where
  "landed nk td row version dropped body =
     \<lparr>mo_natural_key = nk, mo_descriptor_id = Some (td_id td), mo_row = row,
      mo_version = Some version, mo_dropped = dropped, mo_dlq = False, mo_body = body\<rparr>"

text \<open>
  The demotion and the insert are two statements of a connection that commits each one: where
  the insert fails, the demotion stays.
\<close>

definition upsert_target ::
  "discovery_env \<Rightarrow> discovery \<Rightarrow> py_str \<Rightarrow> target_descriptor \<Rightarrow> target_table \<Rightarrow>
     (materialize_error + materialize_outcome) \<times> target_table" where
  "upsert_target env disc nk td tbl =
     (let d = td_id td;
          h = content_hash (de_sha env) td;
          body = stamped_body (de_sha env) td;
          head = head_of tbl d
      in if (case head of Some (_, r) \<Rightarrow> yields_to_operator disc r | None \<Rightarrow> False)
         then (Inr (landed nk td False h True None), tbl)
         else if (case head of
                    Some (_, r) \<Rightarrow> semantic_fingerprint (de_sha env) (json_mapping (tg_body r)) =
                                   semantic_fingerprint (de_sha env) body
                  | None \<Rightarrow> False)
         then (Inr (landed nk td False (fst (the head)) False (Some body)), tbl)
         else case map_of tbl (d, h) of
                None \<Rightarrow>
                  (if de_insert_ok env d h
                   then (Inr (landed nk td True h False (Some body)),
                         demote_head d tbl @ [((d, h), draft_row env td)])
                   else (Inl M_insert, demote_head d tbl))
              | Some r \<Rightarrow>
                  (Inr (landed nk td True h False (Some body)),
                   if tg_is_head r then tbl else assert_head d h (demote_head d tbl)))"

definition template_of ::
  "discovery \<Rightarrow> json_dict option \<Rightarrow> target_table \<Rightarrow> materialize_error + json_dict" where
  "template_of disc template_body tbl =
     (case template_body of
        Some b \<Rightarrow> Inr b
      | None \<Rightarrow>
          (case ds_inherits disc of
             [] \<Rightarrow> Inl M_no_parent
           | parent # _ \<Rightarrow>
               (case head_of tbl parent of
                  None \<Rightarrow> Inl M_no_template
                | Some (_, r) \<Rightarrow> (case tg_body r of J_object b \<Rightarrow> Inr b | _ \<Rightarrow> Inl M_shape))))"

definition dropped_outcome :: "py_str \<Rightarrow> materialize_outcome" where
  "dropped_outcome nk =
     \<lparr>mo_natural_key = nk, mo_descriptor_id = None, mo_row = False, mo_version = None,
      mo_dropped = True, mo_dlq = False, mo_body = None\<rparr>"

definition invalid_outcome :: "py_str \<Rightarrow> json_dict \<Rightarrow> materialize_outcome" where
  "invalid_outcome nk body =
     \<lparr>mo_natural_key = nk,
      mo_descriptor_id = json_str (case map_of body ''identity'' of
                                     Some (J_object i) \<Rightarrow> map_of i ''id'' | _ \<Rightarrow> None),
      mo_row = False, mo_version = None, mo_dropped = False, mo_dlq = True, mo_body = Some body\<rparr>"

definition materialize_discovered ::
  "discovery_env \<Rightarrow> lookup_tables \<Rightarrow> discovery \<Rightarrow> json_dict option \<Rightarrow> candidate \<Rightarrow>
     store \<times> target_table \<times> dlq_entry list \<Rightarrow>
     (materialize_error + materialize_outcome) \<times> store \<times> target_table \<times> dlq_entry list" where
  "materialize_discovered env tables disc template_body cand s =
     (let (st, tbl, q) = s;
          nk = ct_natural_key cand;
          (res, st1) = evaluate_relabel_chain (de_relabel env) tables cand (ds_relabel disc) st
      in case res of
           Inl e \<Rightarrow> (Inl (M_relabel e), st1, tbl, q)
         | Inr r \<Rightarrow>
             if rr_dropped r then (Inr (dropped_outcome nk), st1, tbl, q)
             else case template_of disc template_body tbl of
                    Inl e \<Rightarrow> (Inl e, st1, tbl, q)
                  | Inr template \<Rightarrow>
                      (case Option.bind (extract_chain_writes (ds_relabel disc) st1 (rr_labels r))
                              (\<lambda>ws. assemble_materialized_body template ws disc (de_now_iso env)) of
                         None \<Rightarrow> (Inl M_shape, st1, tbl, q)
                       | Some body \<Rightarrow>
                           (case de_validate env body of
                              None \<Rightarrow>
                                (Inr (invalid_outcome nk body), st1, tbl,
                                 if de_dlq env then q @ [Invalid_body nk body] else q)
                            | Some td \<Rightarrow>
                                (let (out, tbl1) = upsert_target env disc nk td tbl
                                 in (out, st1, tbl1, q)))))"

section \<open>The cycle\<close>

fun json_text :: "(json \<Rightarrow> py_str) \<Rightarrow> json \<Rightarrow> py_str" where
  "json_text container J_null = ''None''"
| "json_text container (J_bool b) = (if b then ''True'' else ''False'')"
| "json_text container (J_int n) = show_int n"
| "json_text container (J_float s) = s"
| "json_text container (J_str s) = s"
| "json_text container v = container v"

text \<open>\<^verbatim>\<open>v or {}\<close> followed by \<^verbatim>\<open>get\<close>, which raises on what is not a dict.\<close>

definition dict_or_empty :: "json option \<Rightarrow> json_dict option" where
  "dict_or_empty v =
     (case v of
        None \<Rightarrow> Some []
      | Some j \<Rightarrow> if json_falsy j then Some [] else (case j of J_object d \<Rightarrow> Some d | _ \<Rightarrow> None))"

definition first_item :: "json \<Rightarrow> json option" where
  "first_item v =
     (case v of J_list (x # _) \<Rightarrow> Some x | J_str (c # _) \<Rightarrow> Some (J_str [c]) | _ \<Rightarrow> None)"

text \<open>The natural key a stored body stands for; \<open>None\<close> where the reading raises.\<close>

definition stored_key :: "(json \<Rightarrow> py_str) \<Rightarrow> py_str \<Rightarrow> json \<Rightarrow> py_str option" where
  "stored_key container d body =
     (case dict_or_empty (Some body) of
        None \<Rightarrow> None
      | Some b \<Rightarrow>
          (let own = (case map_of b ''_discovery_natural_key'' of None \<Rightarrow> J_null | Some v \<Rightarrow> v) in
           if \<not> json_falsy own then Some (json_text container own)
           else case dict_or_empty (map_of b ''scope'') of
                  None \<Rightarrow> None
                | Some sc \<Rightarrow>
                    (case map_of sc ''geo'' of
                       None \<Rightarrow> Some d
                     | Some geo \<Rightarrow>
                         if json_falsy geo then Some d
                         else map_option (\<lambda>x. let s = json_text container x in if s = [] then d else s)
                                (first_item geo))))"

text \<open>The heads this discovery made that are not retired; a later row of a key replaces an earlier one.\<close>

definition prior_rows :: "discovery \<Rightarrow> target_table \<Rightarrow> (py_str \<times> json) list" where
  "prior_rows disc tbl =
     map (\<lambda>((d, v), r). (d, tg_body r))
       (filter (\<lambda>((d, v), r). tg_is_head r \<and> ds_id disc \<in> set (tg_inherits r) \<and> tg_state r \<noteq> ''retired'') tbl)"

fun key_rows :: "(json \<Rightarrow> py_str) \<Rightarrow> (py_str \<times> json) list \<Rightarrow> (py_str \<times> py_str) list \<Rightarrow> (py_str \<times> py_str) list option" where
  "key_rows container [] out = Some out"
| "key_rows container ((d, body) # rows) out =
     (case stored_key container d body of
        None \<Rightarrow> None
      | Some nk \<Rightarrow> key_rows container rows (AList.update nk d out))"

definition load_prior_keys :: "discovery_env \<Rightarrow> discovery \<Rightarrow> target_table \<Rightarrow> (py_str \<times> py_str) list option" where
  "load_prior_keys env disc tbl = key_rows (de_text env) (prior_rows disc tbl) []"

text \<open>An exception of one candidate becomes its outcome, and the loop goes on.\<close>

definition raised_outcome :: "py_str \<Rightarrow> materialize_outcome" where
  "raised_outcome nk =
     \<lparr>mo_natural_key = nk, mo_descriptor_id = None, mo_row = False, mo_version = None,
      mo_dropped = False, mo_dlq = True, mo_body = None\<rparr>"

fun materialize_all ::
  "discovery_env \<Rightarrow> lookup_tables \<Rightarrow> discovery \<Rightarrow> json_dict option \<Rightarrow> candidate list \<Rightarrow>
     store \<times> target_table \<times> dlq_entry list \<Rightarrow>
     materialize_outcome list \<times> store \<times> target_table \<times> dlq_entry list" where
  "materialize_all env tables disc template_body [] s = ([], s)"
| "materialize_all env tables disc template_body (cand # cands) s =
     (let nk = ct_natural_key cand;
          (res, st1, tbl1, q1) = materialize_discovered env tables disc template_body cand s;
          (out, q2) = (case res of
                         Inr o1 \<Rightarrow> (o1, q1)
                       | Inl e \<Rightarrow> (raised_outcome nk, if de_dlq env then q1 @ [Raised nk e] else q1));
          (outs, s2) = materialize_all env tables disc template_body cands (st1, tbl1, q2)
      in (out # outs, s2))"

record cycle_result =
  cr_discovery_id :: py_str
  cr_candidates_in :: nat
  cr_materialized :: "materialize_outcome list"
  cr_retired :: "py_str list"
  cr_routed_to_dlq :: "py_str list"
  cr_disappearance :: decision
  cr_paused :: bool
  cr_published :: "py_str list"

definition inserted_count :: "cycle_result \<Rightarrow> nat" where
  "inserted_count r =
     length (filter (\<lambda>m. mo_row m \<and> \<not> mo_dropped m \<and> \<not> mo_dlq m) (cr_materialized r))"

definition dropped_count :: "cycle_result \<Rightarrow> nat" where
  "dropped_count r = length (filter mo_dropped (cr_materialized r))"

definition dlq_count :: "cycle_result \<Rightarrow> nat" where
  "dlq_count r = length (filter mo_dlq (cr_materialized r))"

definition published :: "discovery \<Rightarrow> decision \<Rightarrow> py_str list" where
  "published disc d =
     (if should_alert d then [''legba.discovery.resync_anomaly.'' @ ds_id disc] else [])
     @ [''legba.discovery.cycle.'' @ ds_id disc]"

text \<open>\<open>None\<close> where reading the stored keys raises, before anything is written.\<close>

definition reconcile_discovered_targets ::
  "discovery_env \<Rightarrow> lookup_tables \<Rightarrow> discovery \<Rightarrow> resync_policy option \<Rightarrow> json_dict option \<Rightarrow>
     candidate list \<Rightarrow> store \<times> target_table \<times> dlq_entry list \<Rightarrow>
     (cycle_result \<times> store \<times> target_table \<times> dlq_entry list) option" where
  "reconcile_discovered_targets env tables disc policy template_body cands s =
     (case load_prior_keys env disc (fst (snd s)) of
        None \<Rightarrow> None
      | Some prior \<Rightarrow>
          (let (outs, st1, tbl1, q1) = materialize_all env tables disc template_body cands s;
               decision = evaluate_disappearance (map fst prior) (map ct_natural_key cands) policy;
               retired = (if should_retire_disappeared decision
                          then List.map_filter (map_of prior) (dd_disappeared decision) else []);
               tbl2 = foldl retire_descriptor tbl1 retired;
               q2 = (if dd_anomaly decision \<and> de_dlq env
                     then q1 @ map (\<lambda>nk. Resync nk (map_of prior nk)) (dd_routes_to_dlq decision)
                     else q1);
               paused = should_pause decision;
               tbl3 = (if paused then pause_discovery disc tbl2 else tbl2)
           in Some (\<lparr>cr_discovery_id = ds_id disc, cr_candidates_in = length cands,
                     cr_materialized = outs, cr_retired = retired,
                     cr_routed_to_dlq = (if dd_anomaly decision then dd_routes_to_dlq decision else []),
                     cr_disappearance = decision, cr_paused = paused,
                     cr_published = published disc decision\<rparr>,
                    st1, tbl3, q2)))"

section \<open>What a cycle does to the table\<close>

text \<open>The table is only written by the upsert, at most once per candidate.\<close>

definition range_of :: "('a \<Rightarrow> 'b option) \<Rightarrow> 'b set" where
  "range_of f = {y. \<exists>x. f x = Some y}"

lemma materialize_table:
  "fst (snd (snd (materialize_discovered env tables disc tb cand (st, tbl, q)))) = tbl \<or>
   (\<exists>nk td. td \<in> range_of (de_validate env) \<and>
      fst (snd (snd (materialize_discovered env tables disc tb cand (st, tbl, q)))) =
            snd (upsert_target env disc nk td tbl))"
proof -
  obtain res st1 where "evaluate_relabel_chain (de_relabel env) tables cand (ds_relabel disc) st = (res, st1)"
    by (cases "evaluate_relabel_chain (de_relabel env) tables cand (ds_relabel disc) st")
  note eqs = this materialize_discovered_def Let_def split_beta
  let ?ws = "\<lambda>r template. Option.bind (extract_chain_writes (ds_relabel disc) st1 (rr_labels r))
    (\<lambda>ws. assemble_materialized_body template ws disc (de_now_iso env))"
  show ?thesis
  proof (cases res)
    case (Inr r)
    show ?thesis
    proof (cases "rr_dropped r")
      case False
      show ?thesis
      proof (cases "template_of disc tb tbl")
        case (Inr template)
        show ?thesis
        proof (cases "?ws r template")
          case (Some body)
          then show ?thesis
            using \<open>res = Inr r\<close> False Inr
            by (cases "de_validate env body") (auto simp: eqs range_of_def)
        qed (use \<open>res = Inr r\<close> False Inr in \<open>simp add: eqs\<close>)
      qed (use Inr False in \<open>simp add: eqs\<close>)
    qed (use Inr in \<open>simp add: eqs\<close>)
  qed (simp add: eqs)
qed

lemma materialize_all_preserves:
  assumes "\<And>nk td tbl. P tbl \<Longrightarrow> td \<in> range_of (de_validate env) \<Longrightarrow> P (snd (upsert_target env disc nk td tbl))"
    and "P (fst (snd s))"
  shows "P (fst (snd (snd (materialize_all env tables disc tb cands s))))"
  using assms(2)
proof (induction cands arbitrary: s)
  case (Cons cand cands)
  obtain st tbl q where s: "s = (st, tbl, q)" by (cases s)
  obtain res st1 tbl1 q1 where m: "materialize_discovered env tables disc tb cand (st, tbl, q) = (res, st1, tbl1, q1)"
    by (cases "materialize_discovered env tables disc tb cand (st, tbl, q)")
  have "P tbl1"
    using materialize_table [of env tables disc tb cand st tbl q] m Cons.prems assms(1) by (auto simp: s)
  then have "P (fst (snd (snd (materialize_all env tables disc tb cands (st1, tbl1, q2)))))" for q2
    by (intro Cons.IH) simp
  then show ?case
    by (cases res) (simp_all add: s m Let_def split_beta)
qed simp

lemma upsert_one_head:
  assumes "one_head tbl"
  shows "one_head (snd (upsert_target env disc nk td tbl))"
proof -
  let ?h = "content_hash (de_sha env) td"
  have "one_head (demote_head (td_id td) tbl @ [((td_id td, ?h), draft_row env td)])"
    if "map_of tbl (td_id td, ?h) = None"
    using one_head_insert [OF assms] that by (simp add: map_of_eq_None_iff)
  then show ?thesis
    using assms
    by (simp add: upsert_target_def Let_def one_head_demote_head one_head_assert split: option.split)
qed

lemma one_head_retire: "one_head tbl \<Longrightarrow> one_head (foldl retire_descriptor tbl ds)"
  by (induction ds arbitrary: tbl) (simp_all add: retire_descriptor_def one_head_update_head)

text \<open>C20: The cycle keeps the table's two constraints: no descriptor gets a second head and no key
  a second row, whatever the candidates, the relabel chain, the validation and the failures.\<close>

theorem cycle_keeps_one_head:
  assumes "one_head tbl"
    and "reconcile_discovered_targets env tables disc policy tb cands (st, tbl, q) = Some (res, st', tbl', q')"
  shows "one_head tbl'"
proof -
  obtain outs st1 tbl1 q1 where m: "materialize_all env tables disc tb cands (st, tbl, q) = (outs, st1, tbl1, q1)"
    by (cases "materialize_all env tables disc tb cands (st, tbl, q)")
  have "one_head (fst (snd (snd (materialize_all env tables disc tb cands (st, tbl, q)))))"
    by (rule materialize_all_preserves) (simp_all add: upsert_one_head assms(1))
  then have "one_head tbl1" by (simp add: m)
  then show ?thesis
    using assms(2) m
    by (auto simp: reconcile_discovered_targets_def Let_def pause_discovery_def one_head_retire
        one_head_update_head split: option.splits)
qed

text \<open>Retiring and pausing, read on one head.\<close>

lemma head_of_retire_all:
  "head_of (foldl retire_descriptor tbl ds) d =
     map_option (\<lambda>(v, r). (v, if d \<in> set ds then r\<lparr>tg_state := ''retired''\<rparr> else r)) (head_of tbl d)"
proof (induction ds arbitrary: tbl)
  case (Cons e ds)
  show ?case
    by (cases "head_of tbl d") (auto simp: Cons head_of_retire)
next
  case Nil
  show ?case by (cases "head_of tbl d") auto
qed

lemma in_sorted_minus [simp]: "x \<in> set (sorted_minus xs ys) \<longleftrightarrow> x \<in> set xs \<and> x \<notin> set ys"
  by (auto simp: sorted_minus_def)

lemma disappeared_keys [simp]:
  "dd_disappeared (evaluate_disappearance prior cur policy) = sorted_minus prior cur"
  by (simp add: evaluate_disappearance_def Let_def)

text \<open>The parts of a successful cycle.\<close>

lemma reconcile_parts:
  assumes "reconcile_discovered_targets env tables disc policy tb cands (st, tbl, q) = Some (res, st', tbl', q')"
    and "load_prior_keys env disc tbl = Some prior"
  obtains tbl1 where
    "tbl1 = fst (snd (snd (materialize_all env tables disc tb cands (st, tbl, q))))"
    and "cr_disappearance res =
           evaluate_disappearance (map fst prior) (map ct_natural_key cands) policy"
    and "cr_retired res = (if should_retire_disappeared (cr_disappearance res)
           then List.map_filter (map_of prior) (dd_disappeared (cr_disappearance res)) else [])"
    and "tbl' = (if should_pause (cr_disappearance res)
           then pause_discovery disc (foldl retire_descriptor tbl1 (cr_retired res))
           else foldl retire_descriptor tbl1 (cr_retired res))"
proof -
  obtain outs st1 tbl1 q1 where m: "materialize_all env tables disc tb cands (st, tbl, q) = (outs, st1, tbl1, q1)"
    by (cases "materialize_all env tables disc tb cands (st, tbl, q)")
  show ?thesis
    by (rule that [of tbl1])
       (use assms m in \<open>auto simp: reconcile_discovered_targets_def Let_def\<close>)
qed

lemma reconcile_decision:
  assumes "reconcile_discovered_targets env tables disc policy tb cands s = Some (res, s')"
    and "load_prior_keys env disc (fst (snd s)) = Some prior"
  shows "cr_disappearance res = evaluate_disappearance (map fst prior) (map ct_natural_key cands) policy"
    and "cr_retired res = (if should_retire_disappeared (cr_disappearance res)
           then List.map_filter (map_of prior) (dd_disappeared (cr_disappearance res)) else [])"
  using assms by (auto simp: reconcile_discovered_targets_def Let_def split: prod.splits)

lemma pause_not_retire: "should_pause d \<Longrightarrow> \<not> should_retire_disappeared d"
  by (auto simp: should_pause_def should_retire_disappeared_def dd_anomaly_def)

text \<open>The keys that are gone, and when that is too many of them, said without the decision.\<close>

definition keys_gone :: "(py_str \<times> py_str) list \<Rightarrow> candidate list \<Rightarrow> py_str set" where
  "keys_gone prior cands = fst ` set prior - ct_natural_key ` set cands"

definition too_many_gone :: "resync_policy \<Rightarrow> (py_str \<times> py_str) list \<Rightarrow> candidate list \<Rightarrow> bool" where
  "too_many_gone p prior cands =
     (0 < ry_threshold p \<and> ry_min_prior_active p \<le> card (fst ` set prior)
      \<and> ry_threshold p * of_nat (card (fst ` set prior)) < of_nat (card (keys_gone prior cands)))"

lemma length_sorted_minus: "length (sorted_minus xs ys) = card (set xs - set ys)"
proof -
  have "distinct (sorted_minus xs ys)" by (simp add: sorted_minus_def)
  then have "length (sorted_minus xs ys) = card (set (sorted_minus xs ys))" by (simp add: distinct_card)
  also have "set (sorted_minus xs ys) = set xs - set ys" by auto
  finally show ?thesis .
qed

lemma decision_breached:
  fixes policy prior cands
  defines "p \<equiv> (case policy of None \<Rightarrow> ResyncPolicy | Some p \<Rightarrow> p)"
    and "d \<equiv> evaluate_disappearance (map fst prior) (map ct_natural_key cands) policy"
  shows "dd_anomaly d \<longleftrightarrow> too_many_gone p prior cands" and "dd_on_anomaly d = ry_on_anomaly p"
proof -
  let ?n = "card (fst ` set prior)" and ?g = "length (sorted_minus (map fst prior) (map ct_natural_key cands))"
  have gone: "?g = card (keys_gone prior cands)"
    by (simp add: length_sorted_minus keys_gone_def)
  have "?n = 0 \<Longrightarrow> ?g = 0" by (simp add: sorted_minus_def)
  then have "(if ?n > 0 then of_nat ?g / of_nat ?n else 0) > ry_threshold p
      \<longleftrightarrow> of_nat ?g > ry_threshold p * of_nat ?n" if "0 < ry_threshold p"
    using that by (auto simp: less_divide_eq)
  then show "dd_anomaly d \<longleftrightarrow> too_many_gone p prior cands"
    by (auto simp: d_def dd_anomaly_def evaluate_disappearance_def p_def [symmetric] Let_def too_many_gone_def gone [symmetric])
  show "dd_on_anomaly d = ry_on_anomaly p"
    by (simp add: d_def p_def evaluate_disappearance_def Let_def)
qed


text \<open>A policy that only alerts retires nothing either.\<close>

lemma alert_only_holds_back:
  assumes "too_many_gone p prior cands" "ry_on_anomaly p = ''alert_only''"
  shows "let d = evaluate_disappearance (map fst prior) (map ct_natural_key cands) (Some p)
    in should_alert d \<and> \<not> should_pause d \<and> \<not> should_retire_disappeared d
       \<and> set (dd_routes_to_dlq d) = keys_gone prior cands"
proof -
  let ?d = "evaluate_disappearance (map fst prior) (map ct_natural_key cands) (Some p)"
  have an: "dd_anomaly ?d" "dd_on_anomaly ?d = ''alert_only''"
    using assms decision_breached [where policy = "Some p" and prior = prior and cands = cands] by simp_all
  then have "dd_routes_to_dlq ?d = sorted_minus (map fst prior) (map ct_natural_key cands)"
    by (auto simp: dd_anomaly_def evaluate_disappearance_def Let_def split: if_splits)
  then have "set (dd_routes_to_dlq ?d) = keys_gone prior cands"
    by (force simp: keys_gone_def)
  then show ?thesis
    using an by (simp add: should_alert_def should_pause_def should_retire_disappeared_def
        dd_anomaly_def Let_def)
qed

text \<open>The threshold bounds the damage of a truncated list: unless the policy says to retire
  anyway, switches the check off or has too few prior targets to check, one cycle retires at
  most the threshold's share of what the discovery had.\<close>

theorem retirement_bounded:
  assumes "reconcile_discovered_targets env tables disc (Some p) tb cands (st, tbl, q) = Some (res, st', tbl', q')"
    and "load_prior_keys env disc tbl = Some prior"
    and "ry_threshold p > 0" and "ry_on_anomaly p \<noteq> ''retire_anyway''"
    and "ry_min_prior_active p \<le> card (fst ` set prior)"
  shows "of_nat (length (cr_retired res)) \<le> ry_threshold p * of_nat (card (fst ` set prior))"
proof -
  let ?gone = "sorted_minus (map fst prior) (map ct_natural_key cands)"
  let ?n = "card (fst ` set prior)"
  note dec = reconcile_decision(1) [OF assms(1), simplified, OF assms(2)]
    and ret = reconcile_decision(2) [OF assms(1), simplified, OF assms(2)]
  show ?thesis
  proof (cases "should_retire_disappeared (cr_disappearance res)")
    case True
    then have ratio: "(if ?n > 0 then of_nat (length ?gone) / of_nat ?n else 0) \<le> ry_threshold p"
      using assms(3-5)
      by (auto simp: dec evaluate_disappearance_def Let_def should_retire_disappeared_def split: if_splits)
    have "length (cr_retired res) \<le> length ?gone"
      by (simp add: ret dec True List.map_filter_def)
    also have "of_nat (length ?gone) \<le> ry_threshold p * of_nat ?n"
    proof (cases "?n > 0")
      case True
      with ratio show ?thesis by (simp add: divide_le_eq)
    next
      case False
      then have "prior = []" by auto
      then show ?thesis by (simp add: sorted_minus_def)
    qed
    finally show ?thesis by simp
  qed (use assms(3) in \<open>simp add: ret\<close>)
qed

lemma upsert_other_head:
  "td_id td \<noteq> d \<Longrightarrow> head_of (snd (upsert_target env disc nk td tbl)) d = head_of tbl d"
  by (auto simp: upsert_target_def Let_def head_of_def head_simps split: option.split)

lemma upsert_yields:
  assumes "head_of tbl d = Some (v, r)" and "yields_to_operator disc r" and "td_id td = d"
  shows "snd (upsert_target env disc nk td tbl) = tbl"
  using assms by (simp add: upsert_target_def Let_def)

text \<open>The cycle yields to the operator: an active head of another owner keeps its version, its
  body and its state through every cycle that does not retire it, even when candidates map
  to the same descriptor.\<close>

theorem operator_head_kept:
  assumes "reconcile_discovered_targets env tables disc policy tb cands (st, tbl, q) = Some (res, st', tbl', q')"
    and "head_of tbl d = Some (v, r)" and "tg_state r = ''active''" and "tg_owner r \<noteq> ds_owner disc"
    and "d \<noteq> ds_id disc" and "d \<notin> set (cr_retired res)"
  shows "head_of tbl' d = Some (v, r)"
proof -
  obtain prior where prior: "load_prior_keys env disc tbl = Some prior"
    using assms(1) by (auto simp: reconcile_discovered_targets_def split: option.splits)
  obtain tbl1 where one: "tbl1 = fst (snd (snd (materialize_all env tables disc tb cands (st, tbl, q))))"
    and final: "tbl' = (if should_pause (cr_disappearance res)
      then pause_discovery disc (foldl retire_descriptor tbl1 (cr_retired res))
      else foldl retire_descriptor tbl1 (cr_retired res))"
    using reconcile_parts [OF assms(1) prior] by metis
  have yields: "yields_to_operator disc r" using assms(3,4) by (simp add: yields_to_operator_def)
  have "head_of tbl1 d = Some (v, r)"
    unfolding one
  proof (rule materialize_all_preserves [where P = "\<lambda>tbl. head_of tbl d = Some (v, r)"])
    fix nk td tbl
    assume "head_of tbl d = Some (v, r)"
    then show "head_of (snd (upsert_target env disc nk td tbl)) d = Some (v, r)"
      using upsert_other_head upsert_yields yields by metis
  qed (use assms(2) in simp)
  then show ?thesis using final assms(5,6) by (simp add: head_of_retire_all head_of_pause)
qed

text \<open>A head that is retired is not among the rows the next cycle starts from.\<close>

lemma one_head_unique:
  assumes "one_head tbl" and "head_of tbl d = Some (v, r)" and "((d, v'), r') \<in> set tbl" and "tg_is_head r'"
  shows "v' = v \<and> r' = r"
proof -
  have "((d, v'), r') \<in> set (head_rows d tbl)" using assms(3,4) by (simp add: head_rows_def)
  moreover have "length (head_rows d tbl) \<le> 1" using assms(1) by (simp add: one_head_def)
  moreover obtain xs where "head_rows d tbl = ((d, v), r) # xs"
  proof -
    have "\<forall>x \<in> set (head_rows d tbl). fst (fst x) = d" by (auto simp: head_rows_def)
    then show ?thesis using assms(2) that by (auto simp: head_of_def split: list.splits prod.splits)
  qed
  ultimately show ?thesis by auto
qed

lemma key_rows_ids:
  "key_rows text rows out = Some prior \<Longrightarrow> map_of prior nk = Some d \<Longrightarrow>
     d \<in> fst ` set rows \<or> map_of out nk = Some d"
proof (induction rows arbitrary: out)
  case (Cons x rows)
  obtain e body where x: "x = (e, body)" by (cases x)
  with Cons.prems obtain k where k: "stored_key text e body = Some k"
    and rest: "key_rows text rows (AList.update k e out) = Some prior"
    by (auto split: option.splits)
  then show ?case using Cons.IH [OF rest Cons.prems(2)] by (auto simp: x table_simps split: if_splits)
qed simp

lemma prior_ids:
  assumes "load_prior_keys env disc tbl = Some prior" and "map_of prior nk = Some d"
  shows "\<exists>v r. ((d, v), r) \<in> set tbl \<and> tg_is_head r \<and> tg_state r \<noteq> ''retired'' \<and> ds_id disc \<in> set (tg_inherits r)"
  using key_rows_ids [of _ _ "[]"] assms by (fastforce simp: load_prior_keys_def prior_rows_def)

text \<open>A retired target stays retired when it comes back. If what the validation yields for the
  descriptor means the same as the stored body, every later cycle that lists the candidate
  takes it for unchanged: the head keeps its version and its retired state, and the
  descriptor is not among those the disappearance check looks at any more. One cycle with a
  candidate missing is for good.\<close>

theorem retired_stays_retired:
  assumes "reconcile_discovered_targets env tables disc policy tb cands (st, tbl, q) = Some (res, st', tbl', q')"
    and "one_head tbl" and "head_of tbl d = Some (v, r)" and "tg_state r = ''retired''" and "d \<noteq> ds_id disc"
    and "\<And>body td. de_validate env body = Some td \<Longrightarrow> td_id td = d \<Longrightarrow>
           semantic_fingerprint (de_sha env) (stamped_body (de_sha env) td) =
           semantic_fingerprint (de_sha env) (json_mapping (tg_body r))"
  shows "head_of tbl' d = Some (v, r) \<and> d \<notin> set (cr_retired res)"
proof -
  obtain prior where prior: "load_prior_keys env disc tbl = Some prior"
    using assms(1) by (auto simp: reconcile_discovered_targets_def split: option.splits)
  obtain tbl1 where one: "tbl1 = fst (snd (snd (materialize_all env tables disc tb cands (st, tbl, q))))"
    and final: "tbl' = (if should_pause (cr_disappearance res)
      then pause_discovery disc (foldl retire_descriptor tbl1 (cr_retired res))
      else foldl retire_descriptor tbl1 (cr_retired res))"
    using reconcile_parts [OF assms(1) prior] by metis
  have "head_of tbl1 d = Some (v, r)"
    unfolding one
  proof (rule materialize_all_preserves [where P = "\<lambda>tbl. head_of tbl d = Some (v, r)"])
    fix nk td tbl
    assume head: "head_of tbl d = Some (v, r)" and td: "td \<in> range_of (de_validate env)"
    have "head_of (snd (upsert_target env disc nk td tbl)) d = head_of tbl d"
    proof (cases "td_id td = d")
      case True
      with td assms(6) have "semantic_fingerprint (de_sha env) (stamped_body (de_sha env) td) =
           semantic_fingerprint (de_sha env) (json_mapping (tg_body r))"
        by (auto simp: range_of_def)
      then show ?thesis using True head by (simp add: upsert_target_def Let_def)
    qed (simp add: upsert_other_head)
    then show "head_of (snd (upsert_target env disc nk td tbl)) d = Some (v, r)" by (simp add: head)
  qed (use assms(3) in simp)
  moreover have "d \<notin> set (cr_retired res)"
  proof
    assume "d \<in> set (cr_retired res)"
    then obtain nk where "map_of prior nk = Some d"
      using reconcile_decision(2) [OF assms(1), simplified, OF prior]
      by (auto simp: in_set_map_filter split: if_splits)
    from prior_ids [OF prior this] obtain v' r' where
      "((d, v'), r') \<in> set tbl" "tg_is_head r'" "tg_state r' \<noteq> ''retired''" by blast
    then show False using one_head_unique [OF assms(2,3)] assms(4) by blast
  qed
  ultimately show ?thesis using final assms(5) by (simp add: head_of_retire_all head_of_pause)
qed

text \<open>A key that is not what the candidates carry retires every cycle. The stored key of a target
  is the first geo code or the descriptor's id; the file discovery names its candidates by path
  and block, with a hash sign. So while it has fewer than ten targets, none stored under such
  a key, each cycle retires all of them, those it has just listed included.\<close>

theorem listed_file_targets_retired:
  assumes "reconcile_discovered_targets env tables disc None tb cands (st, tbl, q) = Some (res, st', tbl', q')"
    and "load_prior_keys env disc tbl = Some prior"
    and "\<forall>nk \<in> fst ` set prior. CHR ''#'' \<notin> set nk"
    and "\<forall>cand \<in> set cands. CHR ''#'' \<in> set (ct_natural_key cand)"
    and "card (fst ` set prior) < 10"
    and "map_of prior nk = Some d" and "head_of tbl' d = Some (v, r)"
  shows "tg_state r = ''retired''"
proof -
  obtain tbl1 where final: "tbl' = (if should_pause (cr_disappearance res)
      then pause_discovery disc (foldl retire_descriptor tbl1 (cr_retired res))
      else foldl retire_descriptor tbl1 (cr_retired res))"
    using reconcile_parts [OF assms(1,2)] by metis
  note dec = reconcile_decision [OF assms(1), simplified, OF assms(2)]
  have retire: "should_retire_disappeared (cr_disappearance res)"
    using assms(5)
    by (simp add: dec(1) evaluate_disappearance_def Let_def should_retire_disappeared_def ResyncPolicy_def)
  have nk: "nk \<in> fst ` set prior" using assms(6) by (metis domI dom_map_of_conv_image_fst)
  then have "nk \<in> set (sorted_minus (map fst prior) (map ct_natural_key cands))"
    using assms(3,4) by auto
  then have "d \<in> set (cr_retired res)"
    using assms(6) retire unfolding dec(2) if_P [OF retire] in_set_map_filter
    by (metis dec(1) disappeared_keys)
  moreover have "tbl' = foldl retire_descriptor tbl1 (cr_retired res)"
    using final retire pause_not_retire by metis
  ultimately show ?thesis using assms(7) by (auto simp: head_of_retire_all)
qed

text \<open>A failed insert leaves a target without a head. The demotion of the old head is a statement
  of its own and is not undone; the exception becomes an outcome of the cycle. The old
  version is no head any more, and the descriptor is not among the rows the next cycle knows.\<close>

theorem failed_insert_loses_head:
  assumes "materialize_discovered env tables disc tb cand (st, tbl, q) = (Inl M_insert, st', tbl', q')"
  shows "\<exists>d. tbl' = demote_head d tbl \<and> head_of tbl' d = None \<and> d \<notin> fst ` set (prior_rows disc tbl')"
proof -
  have demoted: "head_of (demote_head d tbl) d = None \<and> d \<notin> fst ` set (prior_rows disc (demote_head d tbl))" for d
  proof -
    have "head_rows d (demote_head d tbl) = []" by (simp add: head_simps)
    then show ?thesis by (auto simp: head_of_def prior_rows_def head_rows_def filter_empty_conv)
  qed
  obtain res st1 where "evaluate_relabel_chain (de_relabel env) tables cand (ds_relabel disc) st = (res, st1)"
    by (cases "evaluate_relabel_chain (de_relabel env) tables cand (ds_relabel disc) st")
  moreover have "template_of disc tb tbl \<noteq> Inl M_insert"
    by (simp add: template_of_def split: option.split list.split json.split)
  ultimately obtain nk td where "upsert_target env disc nk td tbl = (Inl M_insert, tbl')"
    using assms
    by (auto simp: materialize_discovered_def Let_def split: sum.splits option.splits prod.splits if_splits)
  then have "tbl' = demote_head (td_id td) tbl"
    by (auto simp: upsert_target_def Let_def split: option.splits if_splits)
  then show ?thesis using demoted by blast
qed

lemma map_of_assert_head_demote:
  "map_of tbl (d, v) = Some r \<Longrightarrow>
     \<exists>r'. map_of (assert_head d v (demote_head d tbl)) (d, v) = Some r' \<and> tg_is_head r'"
  by (induction tbl) (auto simp: assert_head_def demote_head_def update_head_def split: if_splits)

lemma upsert_twice:
  assumes "upsert_target env disc nk td tbl = (Inr out, tbl1)"
  shows "snd (upsert_target env disc nk' td tbl1) = tbl1"
proof -
  let ?h = "content_hash (de_sha env) td"
  consider "tbl1 = tbl"
    | "tbl1 = demote_head (td_id td) tbl @ [((td_id td, ?h), draft_row env td)]"
    | r where "map_of tbl (td_id td, ?h) = Some r" "tbl1 = assert_head (td_id td) ?h (demote_head (td_id td) tbl)"
    using assms by (auto simp: upsert_target_def Let_def split: option.splits if_splits)
  then show ?thesis
  proof cases
    case 1
    then show ?thesis using assms
      by (auto simp: upsert_target_def Let_def split: option.splits if_splits)
  next
    case 2
    then have "head_of tbl1 (td_id td) = Some (?h, draft_row env td)"
      by (simp add: head_of_def head_simps draft_row_def)
    then show ?thesis by (simp add: upsert_target_def Let_def draft_row_def)
  next
    case 3
    from map_of_assert_head_demote [OF 3(1)] obtain r' where
      "map_of tbl1 (td_id td, ?h) = Some r'" "tg_is_head r'" using 3(2) by blast
    then show ?thesis by (simp add: upsert_target_def Let_def)
  qed
qed

text \<open>Materialising is idempotent: a candidate that was materialised, or left alone, can be given
  again with the same labels, template and validation, and the table does not change.\<close>

theorem rematerialize_changes_nothing:
  assumes "materialize_discovered env tables disc (Some template) cand (st, tbl, q) = (Inr out, st', tbl', q')"
  shows "fst (snd (snd (materialize_discovered env tables disc (Some template) cand (st, tbl', qq)))) = tbl'"
proof -
  obtain res st1 where rel: "evaluate_relabel_chain (de_relabel env) tables cand (ds_relabel disc) st = (res, st1)"
    by (cases "evaluate_relabel_chain (de_relabel env) tables cand (ds_relabel disc) st")
  show ?thesis
    using assms rel upsert_twice
    by (auto simp: materialize_discovered_def template_of_def Let_def
        split: sum.splits option.splits prod.splits if_splits) (metis snd_conv)+
qed

section \<open>A concrete discovery\<close>

definition example_discovery :: discovery where
  "example_discovery =
     \<lparr>ds_id = ''disc'', ds_owner = ''geo'', ds_schema_uri = ''legba/target/2.0.0'',
      ds_inherits = [''tmpl''], ds_relabel = [example_rule ''identity.id'']\<rparr>"

definition example_template :: json_dict where
  "example_template =
     [(''identity'', J_object [(''id'', J_str ''tmpl''), (''owner'', J_str ''geo''), (''created'', J_str ''t'')]),
      (''scope'', J_object [(''geo'', J_list [J_str ''XX''])])]"

definition example_validate :: "json_dict \<Rightarrow> target_descriptor option" where
  "example_validate body =
     (case map_of body ''identity'' of
        Some (J_object i) \<Rightarrow>
          (case map_of i ''id'' of
             Some (J_str d) \<Rightarrow>
               Some \<lparr>td_id = d, td_schema_uri = ''legba/target/2.0.0'', td_level = ''L1'', td_state = ''draft'',
                     td_owner = ''geo'', td_name = d, td_inherits = [''tmpl'', ''disc''], td_dump = body\<rparr>
           | _ \<Rightarrow> None)
      | _ \<Rightarrow> None)"

definition example_sha :: "json \<Rightarrow> py_str" where
  "example_sha j =
     (case j of J_object d \<Rightarrow> map (\<lambda>(k, v). if v = J_null then CHR ''n'' else CHR ''v'') d | _ \<Rightarrow> [])"

definition example_discovery_env :: "bool \<Rightarrow> (json \<Rightarrow> py_str) \<Rightarrow> discovery_env" where
  "example_discovery_env ok sha =
     \<lparr>de_relabel = example_env, de_validate = example_validate,
      de_sha = sha,
      de_text = (\<lambda>j. []), de_now = 0, de_now_iso = ''t'', de_insert_ok = (\<lambda>d v. ok), de_dlq = True\<rparr>"

definition example_listed :: "py_str \<Rightarrow> candidate" where
  "example_listed nk = example_candidate\<lparr>ct_natural_key := nk\<rparr>"

definition example_row :: "py_str \<Rightarrow> py_str \<Rightarrow> py_str \<Rightarrow> target_row" where
  "example_row code state_name owner =
     \<lparr>tg_schema_uri = ''legba/target/2.0.0'', tg_is_head = True, tg_level = ''L1'', tg_state = state_name,
      tg_owner = owner, tg_name = code,
      tg_body = J_object [(''scope'', J_object [(''geo'', J_list [J_str code])])],
      tg_inherits = [''tmpl'', ''disc''], tg_created_at = 0\<rparr>"

definition example_body :: json_dict where
  "example_body =
     [(''identity'', J_object
        [(''owner'', J_str ''geo''), (''created'', J_str ''t''), (''id'', J_str ''BR''),
         (''abstraction_level'', J_str ''L1''), (''state'', J_str ''draft''),
         (''inherits'', J_list [J_str ''tmpl'', J_str ''disc'']),
         (''schema_uri'', J_str ''legba/target/2.0.0''), (''version'', J_str (replicate 16 CHR ''0''))]),
      (''scope'', J_object [(''geo'', J_list [J_str ''XX''])])]"

definition example_descriptor :: target_descriptor where
  "example_descriptor =
     \<lparr>td_id = ''BR'', td_schema_uri = ''legba/target/2.0.0'', td_level = ''L1'', td_state = ''draft'',
      td_owner = ''geo'', td_name = ''BR'', td_inherits = [''tmpl'', ''disc''], td_dump = example_body\<rparr>"

lemmas example_defs = example_discovery_env_def example_discovery_def example_template_def example_validate_def
  example_row_def example_env_def example_listed_def example_candidate_def example_store_def example_rule_def

lemma example_writes:
  "\<exists>st1. evaluate_relabel_chain example_env [] (example_listed nk) [example_rule ''identity.id''] example_store =
     (Inr \<lparr>rr_labels = 4, rr_dropped = False, rr_dropped_at = None, rr_dropped_by_action = None\<rparr>, st1) \<and>
   extract_chain_writes [example_rule ''identity.id''] st1 4 =
     Some [(''identity'', J_object [(''id'', J_str ''BR'')])]"
  by (simp add: evaluate_relabel_chain_def example_defs apply_relabel_rule_def filter_verdict_def
      mutating_action_def apply_set_def required_def rule_label_def resolve_label_def write_label_def
      alloc_def set_key_def Let_def extract_chain_writes_def written_paths_def map_filter_simps)

lemma example_assembled:
  "assemble_materialized_body example_template [(''identity'', J_object [(''id'', J_str ''BR'')])]
     example_discovery ''t'' = Some example_body"
  by (simp add: example_defs example_body_def assemble_materialized_body_def promote_tags_def
      with_inherits_def merge_descriptor_bodies_def dict_default_def Let_def)

lemma example_materializes:
  "\<exists>st1. \<forall>tbl q. materialize_discovered (example_discovery_env ok sha) [] example_discovery (Some example_template)
      (example_listed nk) (example_store, tbl, q) =
    (fst (upsert_target (example_discovery_env ok sha) example_discovery nk example_descriptor tbl), st1,
     snd (upsert_target (example_discovery_env ok sha) example_discovery nk example_descriptor tbl), q)"
proof -
  obtain st1 where "evaluate_relabel_chain example_env [] (example_listed nk) [example_rule ''identity.id''] example_store =
      (Inr \<lparr>rr_labels = 4, rr_dropped = False, rr_dropped_at = None, rr_dropped_by_action = None\<rparr>, st1)"
    and "extract_chain_writes [example_rule ''identity.id''] st1 4 =
      Some [(''identity'', J_object [(''id'', J_str ''BR'')])]"
    using example_writes by blast
  moreover have "example_validate example_body = Some example_descriptor"
    by (simp add: example_validate_def example_body_def example_descriptor_def)
  moreover have "de_relabel (example_discovery_env ok sha) = example_env"
    "de_validate (example_discovery_env ok sha) = example_validate" "de_now_iso (example_discovery_env ok sha) = ''t''"
    "ds_relabel example_discovery = [example_rule ''identity.id'']" "ct_natural_key (example_listed nk) = nk"
    by (simp_all add: example_discovery_env_def example_discovery_def example_listed_def)
  ultimately show ?thesis
    using example_assembled by (intro exI [of _ st1]) (simp add: materialize_discovered_def template_of_def split_beta Let_def)
qed


lemma example_materialize_all:
  "fst (snd (snd (materialize_all (example_discovery_env ok sha) [] example_discovery (Some example_template)
      [example_listed nk] (example_store, tbl, q)))) =
    snd (upsert_target (example_discovery_env ok sha) example_discovery nk example_descriptor tbl)"
proof -
  obtain st1 where "\<forall>tbl q. materialize_discovered (example_discovery_env ok sha) [] example_discovery
      (Some example_template) (example_listed nk) (example_store, tbl, q) =
    (fst (upsert_target (example_discovery_env ok sha) example_discovery nk example_descriptor tbl), st1,
     snd (upsert_target (example_discovery_env ok sha) example_discovery nk example_descriptor tbl), q)"
    using example_materializes by blast
  then show ?thesis
    by (cases "fst (upsert_target (example_discovery_env ok sha) example_discovery nk example_descriptor tbl)")
       (simp_all add: Let_def)
qed

lemma reconcile_defined:
  assumes "load_prior_keys env disc tbl = Some prior"
  obtains res st' tbl' q' where
    "reconcile_discovered_targets env tables disc policy tb cands (st, tbl, q) = Some (res, st', tbl', q')"
  using assms that by (cases "materialize_all env tables disc tb cands (st, tbl, q)")
    (auto simp: reconcile_discovered_targets_def Let_def)

definition example_table :: "py_str \<Rightarrow> py_str \<Rightarrow> py_str \<Rightarrow> py_str \<Rightarrow> target_table" where
  "example_table d code state_name owner = [((d, ''v''), example_row code state_name owner)]"

lemma one_head_single: "one_head [(k, r)]"
  by (cases k) (simp add: one_head_def head_rows_def)

lemma example_prior:
  assumes "state_name \<noteq> ''retired''" and "code \<noteq> []"
  shows "load_prior_keys (example_discovery_env ok sha) example_discovery (example_table d code state_name owner) =
    Some [(code, d)]"
  using assms
  by (simp add: load_prior_keys_def prior_rows_def example_table_def example_row_def example_discovery_def
      stored_key_def dict_or_empty_def first_item_def Let_def)

theorem cycle_keeps_one_head_witness:
  "\<exists>res st' tbl' q'. reconcile_discovered_targets (example_discovery_env True example_sha) [] example_discovery
      None (Some example_template) [example_listed ''BR''] (example_store, example_table ''x'' ''DE'' ''active'' ''geo'', []) =
      Some (res, st', tbl', q') \<and> one_head tbl'"
proof -
  have "load_prior_keys (example_discovery_env True example_sha) example_discovery
      (example_table ''x'' ''DE'' ''active'' ''geo'') = Some [(''DE'', ''x'')]"
    by (simp add: example_prior)
  from reconcile_defined [OF this] obtain res st' tbl' q' where
    run: "reconcile_discovered_targets (example_discovery_env True example_sha) [] example_discovery
      None (Some example_template) [example_listed ''BR''] (example_store, example_table ''x'' ''DE'' ''active'' ''geo'', []) =
      Some (res, st', tbl', q')" .
  then have "one_head tbl'"
    by (rule cycle_keeps_one_head [rotated]) (simp add: example_table_def one_head_single)
  then show ?thesis using run by blast
qed

lemma example_run:
  assumes "state_name \<noteq> ''retired''" and "code \<noteq> []"
  obtains res st' tbl' q' where
    "reconcile_discovered_targets (example_discovery_env ok sha) [] example_discovery policy
       (Some example_template) cands (example_store, example_table d code state_name owner, []) =
       Some (res, st', tbl', q')"
  using reconcile_defined [OF example_prior [OF assms]] by blast


theorem retirement_bounded_witness:
  "\<exists>res s'. reconcile_discovered_targets (example_discovery_env True example_sha) [] example_discovery
      (Some \<lparr>ry_threshold = 1 / 2, ry_on_anomaly = ''alert_and_pause'', ry_min_prior_active = 1\<rparr>)
      (Some example_template) [] (example_store, example_table ''x'' ''DE'' ''active'' ''geo'', []) = Some (res, s') \<and>
    of_nat (length (cr_retired res)) \<le> (1 / 2 :: rat)"
proof -
  let ?p = "\<lparr>ry_threshold = 1 / 2, ry_on_anomaly = ''alert_and_pause'', ry_min_prior_active = 1\<rparr>"
  obtain res st' tbl' q' where
    run: "reconcile_discovered_targets (example_discovery_env True example_sha) [] example_discovery
      (Some ?p) (Some example_template) [] (example_store, example_table ''x'' ''DE'' ''active'' ''geo'', []) =
      Some (res, st', tbl', q')"
    by (rule example_run [of "''active''" "''DE''"]) simp_all
  have prior: "load_prior_keys (example_discovery_env True example_sha) example_discovery
      (example_table ''x'' ''DE'' ''active'' ''geo'') = Some [(''DE'', ''x'')]" by (simp add: example_prior)
  show ?thesis using retirement_bounded [OF run prior] run by auto
qed

theorem operator_head_kept_witness:
  "\<exists>res st' tbl' q'. reconcile_discovered_targets (example_discovery_env True example_sha) [] example_discovery
      None (Some example_template) [example_listed ''BR''] (example_store, example_table ''BR'' ''BR'' ''active'' ''op'', []) =
      Some (res, st', tbl', q') \<and> head_of tbl' ''BR'' = Some (''v'', example_row ''BR'' ''active'' ''op'')"
proof -
  obtain res st' tbl' q' where
    run: "reconcile_discovered_targets (example_discovery_env True example_sha) [] example_discovery
      None (Some example_template) [example_listed ''BR''] (example_store, example_table ''BR'' ''BR'' ''active'' ''op'', []) =
      Some (res, st', tbl', q')"
    by (rule example_run [of "''active''" "''BR''"]) simp_all
  have prior: "load_prior_keys (example_discovery_env True example_sha) example_discovery
      (example_table ''BR'' ''BR'' ''active'' ''op'') = Some [(''BR'', ''BR'')]" by (simp add: example_prior)
  have "cr_retired res = []"
    using reconcile_decision [OF run, simplified, OF prior]
    by (simp add: sorted_minus_def example_listed_def map_filter_simps)
  then have "head_of tbl' ''BR'' = Some (''v'', example_row ''BR'' ''active'' ''op'')"
    by (intro operator_head_kept [OF run])
       (simp_all add: example_table_def head_of_def head_rows_def example_row_def example_discovery_def)
  then show ?thesis using run by blast
qed

theorem retired_stays_retired_witness:
  "\<exists>res st' tbl' q'. reconcile_discovered_targets (example_discovery_env True (\<lambda>_. ''h'')) [] example_discovery
      None (Some example_template) [example_listed ''BR''] (example_store, example_table ''BR'' ''BR'' ''retired'' ''geo'', []) =
      Some (res, st', tbl', q') \<and> head_of tbl' ''BR'' = Some (''v'', example_row ''BR'' ''retired'' ''geo'')"
proof -
  have "load_prior_keys (example_discovery_env True (\<lambda>_. ''h'')) example_discovery
      (example_table ''BR'' ''BR'' ''retired'' ''geo'') = Some []"
    by (simp add: load_prior_keys_def prior_rows_def example_table_def example_row_def)
  then obtain res st' tbl' q' where
    run: "reconcile_discovered_targets (example_discovery_env True (\<lambda>_. ''h'')) [] example_discovery
      None (Some example_template) [example_listed ''BR''] (example_store, example_table ''BR'' ''BR'' ''retired'' ''geo'', []) =
      Some (res, st', tbl', q')"
    by (rule reconcile_defined)
  have "head_of tbl' ''BR'' = Some (''v'', example_row ''BR'' ''retired'' ''geo'') \<and> ''BR'' \<notin> set (cr_retired res)"
    by (rule retired_stays_retired [OF run])
       (simp_all add: example_table_def one_head_single head_of_def head_rows_def example_row_def
         example_discovery_def semantic_fingerprint_def example_discovery_env_def)
  then show ?thesis using run by blast
qed

theorem listed_file_targets_retired_witness:
  "\<exists>res st' tbl' q' v r. reconcile_discovered_targets (example_discovery_env True example_sha) [] example_discovery
      None (Some example_template) [example_listed ''t.yaml#0''] (example_store, example_table ''x'' ''DE'' ''active'' ''geo'', []) =
      Some (res, st', tbl', q') \<and> head_of tbl' ''x'' = Some (v, r) \<and> tg_state r = ''retired''"
proof -
  obtain res st' tbl' q' where
    run: "reconcile_discovered_targets (example_discovery_env True example_sha) [] example_discovery
      None (Some example_template) [example_listed ''t.yaml#0''] (example_store, example_table ''x'' ''DE'' ''active'' ''geo'', []) =
      Some (res, st', tbl', q')"
    by (rule example_run [of "''active''" "''DE''"]) simp_all
  have prior: "load_prior_keys (example_discovery_env True example_sha) example_discovery
      (example_table ''x'' ''DE'' ''active'' ''geo'') = Some [(''DE'', ''x'')]" by (simp add: example_prior)
  let ?tbl1 = "snd (upsert_target (example_discovery_env True example_sha) example_discovery ''t.yaml#0''
    example_descriptor (example_table ''x'' ''DE'' ''active'' ''geo''))"
  have "head_of ?tbl1 ''x'' = head_of (example_table ''x'' ''DE'' ''active'' ''geo'') ''x''"
    by (rule upsert_other_head) (simp add: example_descriptor_def)
  also have "\<dots> \<noteq> None" by (simp add: example_table_def head_of_def head_rows_def example_row_def)
  finally have one: "head_of ?tbl1 ''x'' \<noteq> None" .
  obtain tbl1 where "tbl1 = ?tbl1" and "tbl' = (if should_pause (cr_disappearance res)
      then pause_discovery example_discovery (foldl retire_descriptor tbl1 (cr_retired res))
      else foldl retire_descriptor tbl1 (cr_retired res))"
    using reconcile_parts [OF run prior] by (metis example_materialize_all)
  with one have "head_of tbl' ''x'' \<noteq> None" by (simp add: head_of_retire_all head_of_pause)
  then obtain v r where "head_of tbl' ''x'' = Some (v, r)" by auto
  moreover from this have "tg_state r = ''retired''"
    by (intro listed_file_targets_retired [OF run prior, of "''DE''" "''x''"]) (simp_all add: example_listed_def)
  ultimately show ?thesis using run by blast
qed

theorem failed_insert_loses_head_witness:
  "\<exists>st' tbl' q'. materialize_discovered (example_discovery_env False example_sha) [] example_discovery
      (Some example_template) (example_listed ''BR'') (example_store, [((''BR'', ''v''), (example_row ''BR'' ''active'' ''geo'')\<lparr>tg_body := J_object []\<rparr>)], []) =
      (Inl M_insert, st', tbl', q') \<and> (\<exists>d. head_of tbl' d = None \<and> d \<notin> fst ` set (prior_rows example_discovery tbl'))"
proof -
  have "fst (upsert_target (example_discovery_env False example_sha) example_discovery ''BR'' example_descriptor
      ([((''BR'', ''v''), (example_row ''BR'' ''active'' ''geo'')\<lparr>tg_body := J_object []\<rparr>)])) = Inl M_insert"
    by (simp add: upsert_target_def example_table_def head_of_def head_rows_def example_defs
        example_descriptor_def yields_to_operator_def semantic_fingerprint_def semantic_projection_def
        SEMANTIC_FIELDS_def stamped_body_def in_identity_def example_body_def content_hash_def example_sha_def Let_def)
  moreover obtain st1 where "\<forall>tbl q. materialize_discovered (example_discovery_env False example_sha) []
      example_discovery (Some example_template) (example_listed ''BR'') (example_store, tbl, q) =
    (fst (upsert_target (example_discovery_env False example_sha) example_discovery ''BR'' example_descriptor tbl), st1,
     snd (upsert_target (example_discovery_env False example_sha) example_discovery ''BR'' example_descriptor tbl), q)"
    using example_materializes by blast
  ultimately have "\<exists>st' tbl' q'. materialize_discovered (example_discovery_env False example_sha) []
      example_discovery (Some example_template) (example_listed ''BR'')
      (example_store, [((''BR'', ''v''), (example_row ''BR'' ''active'' ''geo'')\<lparr>tg_body := J_object []\<rparr>)], []) = (Inl M_insert, st', tbl', q')"
    by simp
  then show ?thesis using failed_insert_loses_head by blast
qed

theorem rematerialize_changes_nothing_witness:
  "\<exists>out st' tbl' q'. materialize_discovered (example_discovery_env True example_sha) [] example_discovery
      (Some example_template) (example_listed ''BR'') (example_store, [], []) = (Inr out, st', tbl', q') \<and>
    fst (snd (snd (materialize_discovered (example_discovery_env True example_sha) [] example_discovery
      (Some example_template) (example_listed ''BR'') (example_store, tbl', [])))) = tbl'"
proof -
  obtain out where "fst (upsert_target (example_discovery_env True example_sha) example_discovery ''BR''
      example_descriptor []) = Inr out"
    by (simp add: upsert_target_def head_of_def head_rows_def example_discovery_env_def Let_def)
  moreover obtain st1 where "\<forall>tbl q. materialize_discovered (example_discovery_env True example_sha) []
      example_discovery (Some example_template) (example_listed ''BR'') (example_store, tbl, q) =
    (fst (upsert_target (example_discovery_env True example_sha) example_discovery ''BR'' example_descriptor tbl), st1,
     snd (upsert_target (example_discovery_env True example_sha) example_discovery ''BR'' example_descriptor tbl), q)"
    using example_materializes by blast
  ultimately have "\<exists>st' tbl' q'. materialize_discovered (example_discovery_env True example_sha) []
      example_discovery (Some example_template) (example_listed ''BR'') (example_store, [], []) = (Inr out, st', tbl', q')"
    by simp
  then show ?thesis using rematerialize_changes_nothing by blast
qed

end
