(* ===== verification/Leader.thy ===== *)
theory Leader
  imports Prelude
begin

text \<open>
  The election of the replica that runs the singleton loops: the boot guard and the class
  \<open>LeaderLease\<close> of \<open>runtime/leader.py\<close>, with the two callbacks and the shutdown of
  \<open>runtime/dapr_host.py\<close>. A cluster is its replicas and what the database knows: which session
  holds the advisory lock, and which sessions are gone. Every await is a step, so the steps of
  the replicas interleave; the answers of the database and of the callbacks are in the event.
  PostgreSQL's documented behaviour is modelled: the lock is granted to one session, and goes
  with it or with its explicit unlock.
\<close>

section \<open>The boot guard\<close>

type_synonym environ = "py_str \<Rightarrow> py_str option"

definition getenv :: "environ \<Rightarrow> py_str \<Rightarrow> py_str" where
  "getenv env k = py_strip (case env k of None \<Rightarrow> [] | Some v \<Rightarrow> v)"

definition PG_ADVISORY_VALUES :: "py_str list" where
  "PG_ADVISORY_VALUES = [''pg-advisory'', ''pg_advisory'', ''1'', ''true'', ''on'', ''yes'']"

definition replica_count :: "environ \<Rightarrow> int" where
  "replica_count env =
     (let raw = getenv env ''LEGBA_REPLICA_COUNT'' in
      if raw = [] then 1
      else case py_int raw of
             None \<Rightarrow> 1
           | Some n \<Rightarrow> if n < 1 then 1 else n)"

definition leader_election_enabled :: "environ \<Rightarrow> bool" where
  "leader_election_enabled env =
     (py_lower (getenv env ''LEGBA_LEADER_ELECTION'') \<in> set PG_ADVISORY_VALUES)"

text \<open>\<open>True\<close> where the process boots, \<open>False\<close> where the guard raises.\<close>

definition assert_singleton_safe :: "environ \<Rightarrow> bool" where
  "assert_singleton_safe env = (\<not> (replica_count env > 1 \<and> \<not> leader_election_enabled env))"

section \<open>Replicas and the cluster\<close>

text \<open>Where a replica is: between two attempts, about to ask for the lock, in the acquire callback, in the lose callback.\<close>

datatype lease_pc = Waiting | Contending | Starting | Stopping

record replica =
  lr_enabled :: bool
  lr_is_leader :: bool
  lr_conn :: "nat option"
  lr_stopped :: bool
  lr_pc :: lease_pc
  lr_reconcile :: bool
  lr_informer :: bool

text \<open>With the election off a replica is a leader from the start.\<close>

definition new_lease :: "bool \<Rightarrow> replica" where
  "new_lease enabled =
     \<lparr>lr_enabled = enabled, lr_is_leader = (\<not> enabled), lr_conn = None, lr_stopped = False,
      lr_pc = (if enabled then Waiting else Starting), lr_reconcile = False, lr_informer = False\<rparr>"

record cluster =
  cl_replicas :: "nat \<Rightarrow> replica"
  cl_holder :: "nat option"
  cl_dead :: "nat list"
  cl_next :: nat

definition new_cluster :: "bool \<Rightarrow> cluster" where
  "new_cluster enabled =
     \<lparr>cl_replicas = (\<lambda>_. new_lease enabled), cl_holder = None, cl_dead = [], cl_next = 0\<rparr>"

abbreviation upd :: "nat \<Rightarrow> (replica \<Rightarrow> replica) \<Rightarrow> cluster \<Rightarrow> cluster" where
  "upd i f s \<equiv> s\<lparr>cl_replicas := (cl_replicas s)(i := f (cl_replicas s i))\<rparr>"

text \<open>The explicit unlock with the return of the connection to the pool: the lock is free if this session held it.\<close>

definition release :: "nat \<Rightarrow> cluster \<Rightarrow> cluster" where
  "release i s =
     (let c = lr_conn (cl_replicas s i);
          s1 = upd i (\<lambda>r. r\<lparr>lr_conn := None\<rparr>) s
      in case c of
           None \<Rightarrow> s1
         | Some c \<Rightarrow> s1\<lparr>cl_holder := (if cl_holder s = Some c then None else cl_holder s)\<rparr>)"

text \<open>The demotion up to its callback.\<close>

definition demote :: "nat \<Rightarrow> cluster \<Rightarrow> cluster" where
  "demote i s = upd i (\<lambda>r. r\<lparr>lr_pc := Stopping\<rparr>) (release i (upd i (\<lambda>r. r\<lparr>lr_is_leader := False\<rparr>) s))"

section \<open>The steps\<close>

datatype start_outcome = All_started | Informer_fails | Lister_fails

datatype lease_event =
    Wake nat bool
  | No_connection nat
  | Query_fails nat
  | Try_lock nat
  | Start nat start_outcome
  | Loops_stopped nat
  | Stop nat
  | Connection_dies nat

text \<open>\<^verbatim>\<open>_try_acquire\<close> from its entry to its first answer: the probe of a leader, or the way to the lock.\<close>

definition wake :: "nat \<Rightarrow> bool \<Rightarrow> cluster \<Rightarrow> cluster option" where
  "wake i answered s =
     (let r = cl_replicas s i in
      if lr_pc r \<noteq> Waiting \<or> lr_stopped r \<or> \<not> lr_enabled r then None
      else case (lr_is_leader r, lr_conn r) of
             (True, Some c) \<Rightarrow> (if answered \<and> c \<notin> set (cl_dead s) then Some s else Some (demote i s))
           | _ \<Rightarrow> Some (upd i (\<lambda>r. r\<lparr>lr_pc := Contending\<rparr>) s))"

text \<open>The answer of \<^verbatim>\<open>pg_try_advisory_lock\<close> on a fresh connection; a probe that loses gives it back.\<close>

definition try_lock :: "nat \<Rightarrow> cluster \<Rightarrow> cluster option" where
  "try_lock i s =
     (let r = cl_replicas s i; c = cl_next s in
      if lr_pc r \<noteq> Contending then None
      else if cl_holder s \<noteq> None
      then Some ((upd i (\<lambda>r. r\<lparr>lr_pc := Waiting\<rparr>) s)\<lparr>cl_next := Suc c\<rparr>)
      else Some ((upd i (\<lambda>r. r\<lparr>lr_conn := Some c, lr_is_leader := True,
                            lr_pc := (if lr_is_leader r then Waiting else Starting)\<rparr>) s)
                   \<lparr>cl_holder := Some c, cl_next := Suc c\<rparr>))"

text \<open>
  The acquire callback starts the reconcile loop, then the informer, then lists the
  descriptors; what it raises after the reconcile loop is up is caught and logged.
\<close>

definition start_loops :: "nat \<Rightarrow> start_outcome \<Rightarrow> cluster \<Rightarrow> cluster option" where
  "start_loops i out s =
     (if lr_pc (cl_replicas s i) \<noteq> Starting then None
      else Some (upd i (\<lambda>r. r\<lparr>lr_pc := Waiting, lr_reconcile := True, lr_informer := (out \<noteq> Informer_fails)\<rparr>) s))"

text \<open>The lose callback, after which a demoted replica asks for the lock at once; at shutdown the same loops are stopped by the host.\<close>

definition loops_stopped :: "nat \<Rightarrow> cluster \<Rightarrow> cluster option" where
  "loops_stopped i s =
     (if lr_pc (cl_replicas s i) \<noteq> Stopping then None
      else Some (upd i (\<lambda>r. r\<lparr>lr_pc := (if lr_stopped r then Waiting else Contending),
                             lr_reconcile := False, lr_informer := False\<rparr>) s))"

text \<open>The shutdown stops the lease first, and the loops after.\<close>

definition stop :: "nat \<Rightarrow> cluster \<Rightarrow> cluster option" where
  "stop i s =
     (if lr_stopped (cl_replicas s i) then None
      else Some (release i (upd i (\<lambda>r. r\<lparr>lr_stopped := True, lr_pc := Stopping\<rparr>) s)))"

fun lease_step :: "lease_event \<Rightarrow> cluster \<Rightarrow> cluster option" where
  "lease_step (Wake i answered) s = wake i answered s"
| "lease_step (No_connection i) s =
     (if lr_pc (cl_replicas s i) \<noteq> Contending then None else Some (upd i (\<lambda>r. r\<lparr>lr_pc := Waiting\<rparr>) s))"
| "lease_step (Query_fails i) s =
     (if lr_pc (cl_replicas s i) \<noteq> Contending then None
      else Some ((upd i (\<lambda>r. r\<lparr>lr_pc := Waiting\<rparr>) s)\<lparr>cl_next := Suc (cl_next s)\<rparr>))"
| "lease_step (Try_lock i) s = try_lock i s"
| "lease_step (Start i out) s = start_loops i out s"
| "lease_step (Loops_stopped i) s = loops_stopped i s"
| "lease_step (Stop i) s = stop i s"
| "lease_step (Connection_dies c) s =
     (if c < cl_next s
      then Some (s\<lparr>cl_dead := c # cl_dead s, cl_holder := (if cl_holder s = Some c then None else cl_holder s)\<rparr>)
      else None)"

fun lease_run :: "lease_event list \<Rightarrow> cluster \<Rightarrow> cluster option" where
  "lease_run [] s = Some s"
| "lease_run (e # es) s = (case lease_step e s of None \<Rightarrow> None | Some s1 \<Rightarrow> lease_run es s1)"

inductive lease_reach :: "cluster \<Rightarrow> bool" where
  boot: "lease_reach (new_cluster True)"
| step: "lease_reach s \<Longrightarrow> lease_step e s = Some s' \<Longrightarrow> lease_reach s'"

lemmas lease_defs = wake_def try_lock_def start_loops_def loops_stopped_def stop_def demote_def release_def Let_def

section \<open>One leader\<close>

definition live :: "cluster \<Rightarrow> nat \<Rightarrow> bool" where
  "live s c \<longleftrightarrow> c \<notin> set (cl_dead s)"

text \<open>A session that a replica keeps and that is alive holds the lock; a replica whose loops run has one, or is stopping them.\<close>

definition active :: "replica \<Rightarrow> bool" where
  "active r \<longleftrightarrow> lr_reconcile r \<or> lr_informer r \<or> lr_pc r = Starting"

definition lease_inv :: "cluster \<Rightarrow> bool" where
  "lease_inv s \<longleftrightarrow>
     (\<forall>c \<in> set (cl_dead s). c < cl_next s) \<and>
     (\<forall>i c. lr_conn (cl_replicas s i) = Some c \<longrightarrow> c < cl_next s) \<and>
     (\<forall>i j c. lr_conn (cl_replicas s i) = Some c \<longrightarrow> lr_conn (cl_replicas s j) = Some c \<longrightarrow> i = j) \<and>
     (\<forall>i c. lr_conn (cl_replicas s i) = Some c \<longrightarrow> live s c \<longrightarrow> cl_holder s = Some c) \<and>
     (\<forall>i. active (cl_replicas s i) \<longrightarrow>
        lr_pc (cl_replicas s i) = Stopping \<or> lr_conn (cl_replicas s i) \<noteq> None)"

lemma lease_inv_boot: "lease_inv (new_cluster True)"
  by (simp add: lease_inv_def new_cluster_def new_lease_def active_def)

lemma lease_inv_keep:
  assumes "lease_inv s" and "lr_conn r = lr_conn (cl_replicas s i)"
    and "active r \<Longrightarrow> lr_pc r = Stopping \<or> lr_conn r \<noteq> None" and "cl_next s \<le> n"
  shows "lease_inv (s\<lparr>cl_replicas := (cl_replicas s)(i := r), cl_next := n\<rparr>)"
  using assms unfolding lease_inv_def live_def by (simp split: if_splits) (meson less_le_trans)

lemma lease_inv_drop:
  assumes "lease_inv s" and "lr_conn r = None" and "active r \<Longrightarrow> lr_pc r = Stopping"
    and "h = (if cl_holder s = lr_conn (cl_replicas s i) then None else cl_holder s)"
  shows "lease_inv (s\<lparr>cl_replicas := (cl_replicas s)(i := r), cl_holder := h\<rparr>)"
  using assms unfolding lease_inv_def live_def by (auto split: if_splits) blast

lemma lease_inv_gain:
  assumes "lease_inv s" and "cl_holder s = None" and "lr_conn r = Some (cl_next s)"
  shows "lease_inv (s\<lparr>cl_replicas := (cl_replicas s)(i := r), cl_holder := Some (cl_next s), cl_next := Suc (cl_next s)\<rparr>)"
  using assms unfolding lease_inv_def live_def by (auto split: if_splits intro: less_SucI)

lemma lease_inv_die:
  assumes "lease_inv s" and "c < cl_next s"
  shows "lease_inv (s\<lparr>cl_dead := c # cl_dead s, cl_holder := (if cl_holder s = Some c then None else cl_holder s)\<rparr>)"
  using assms unfolding lease_inv_def live_def by auto

lemma cluster_upd [simp]: "(cl_replicas s)(i := cl_replicas s i) = cl_replicas s"
  by simp

lemma release_form: "release i s =
    s\<lparr>cl_replicas := (cl_replicas s)(i := (cl_replicas s i)\<lparr>lr_conn := None\<rparr>),
      cl_holder := (if cl_holder s = lr_conn (cl_replicas s i) then None else cl_holder s)\<rparr>"
  by (cases "lr_conn (cl_replicas s i)") (simp_all add: release_def Let_def)

lemma demote_form: "demote i s =
    s\<lparr>cl_replicas := (cl_replicas s)(i := (cl_replicas s i)\<lparr>lr_is_leader := False, lr_conn := None, lr_pc := Stopping\<rparr>),
      cl_holder := (if cl_holder s = lr_conn (cl_replicas s i) then None else cl_holder s)\<rparr>"
  by (simp add: demote_def release_form)

lemma lease_inv_keep_same:
  assumes "lease_inv s" and "lr_conn r = lr_conn (cl_replicas s i)"
    and "active r \<Longrightarrow> lr_pc r = Stopping \<or> lr_conn r \<noteq> None"
  shows "lease_inv (s\<lparr>cl_replicas := (cl_replicas s)(i := r)\<rparr>)"
  using lease_inv_keep [OF assms, of "cl_next s"] by simp

lemma lease_inv_active: "lease_inv s \<Longrightarrow> active (cl_replicas s i) \<Longrightarrow> lr_pc (cl_replicas s i) \<noteq> Stopping \<Longrightarrow>
    lr_conn (cl_replicas s i) \<noteq> None"
  unfolding lease_inv_def by blast

lemma lease_inv_step:
  assumes "lease_inv s" and "lease_step e s = Some s'"
  shows "lease_inv s'"
proof (cases e)
  case (Wake i answered)
  show ?thesis
  proof (cases "lr_is_leader (cl_replicas s i) \<and> lr_conn (cl_replicas s i) \<noteq> None")
    case True
    then consider "s' = s" | "s' = demote i s"
      using assms(2) Wake by (auto simp: wake_def Let_def split: if_splits)
    then show ?thesis
      by cases (use assms(1) in \<open>simp_all add: demote_form lease_inv_drop\<close>)
  next
    case False
    then have s': "s' = upd i (\<lambda>r. r\<lparr>lr_pc := Contending\<rparr>) s" and w: "lr_pc (cl_replicas s i) = Waiting"
      using assms(2) Wake by (auto simp: wake_def Let_def split: if_splits option.splits bool.splits)
    show ?thesis
      unfolding s' using lease_inv_active [OF assms(1), of i] w
      by (intro lease_inv_keep_same assms(1)) (auto simp: active_def)
  qed
next
  case (No_connection i)
  then show ?thesis
    using assms(2) lease_inv_active [OF assms(1), of i]
    by (auto simp: active_def split: if_splits intro!: lease_inv_keep_same assms(1))
next
  case (Query_fails i)
  then show ?thesis
    using assms(2) lease_inv_active [OF assms(1), of i]
    by (auto simp: active_def split: if_splits intro!: lease_inv_keep assms(1))
next
  case (Try_lock i)
  then show ?thesis
    using assms(2) lease_inv_active [OF assms(1), of i]
    by (auto simp: active_def try_lock_def Let_def split: if_splits intro!: lease_inv_keep lease_inv_gain assms(1))
next
  case (Start i out)
  then show ?thesis
    using assms(2) lease_inv_active [OF assms(1), of i]
    by (auto simp: active_def start_loops_def split: if_splits intro!: lease_inv_keep_same assms(1))
next
  case (Loops_stopped i)
  then show ?thesis
    using assms(2) lease_inv_active [OF assms(1), of i]
    by (auto simp: active_def loops_stopped_def split: if_splits intro!: lease_inv_keep_same assms(1))
next
  case (Stop i)
  then have "s' = s\<lparr>cl_replicas := (cl_replicas s)(i := (cl_replicas s i)\<lparr>lr_stopped := True, lr_pc := Stopping, lr_conn := None\<rparr>),
      cl_holder := (if cl_holder s = lr_conn (cl_replicas s i) then None else cl_holder s)\<rparr>"
    using assms(2) by (auto simp: stop_def release_form split: if_splits)
  then show ?thesis using assms(1) by (simp add: lease_inv_drop)
next
  case (Connection_dies c)
  then show ?thesis
    using assms(2) lease_inv_die [OF assms(1), of c] by (auto split: if_splits)
qed

lemma lease_reach_inv: "lease_reach s \<Longrightarrow> lease_inv s"
  by (induction rule: lease_reach.induct) (auto intro: lease_inv_boot lease_inv_step)

text \<open>C18: The lock elects one replica. In every reachable state of a cluster with the election on, of
  two replicas whose singleton loops run, one has lost its session without having noticed, or
  is stopping its loops: two healthy ones never run them together.\<close>

theorem one_replica_runs_the_loops:
  assumes "lease_reach s" and "lr_reconcile (cl_replicas s i)" and "lr_reconcile (cl_replicas s j)" and "i \<noteq> j"
  shows "\<exists>k \<in> {i, j}. lr_pc (cl_replicas s k) = Stopping \<or>
    (\<exists>c. lr_conn (cl_replicas s k) = Some c \<and> c \<in> set (cl_dead s))"
proof (rule ccontr)
  assume "\<not> ?thesis"
  then have neither: "lr_pc (cl_replicas s k) \<noteq> Stopping"
    "lr_conn (cl_replicas s k) = Some c \<Longrightarrow> live s c" if "k = i \<or> k = j" for k c
    using that by (auto simp: live_def)
  have inv: "lease_inv s" using assms(1) by (rule lease_reach_inv)
  have "\<exists>c. lr_conn (cl_replicas s k) = Some c \<and> cl_holder s = Some c" if k: "k = i \<or> k = j" for k
  proof -
    have "lr_pc (cl_replicas s k) \<noteq> Stopping" using neither(1) k by blast
    then obtain c where c: "lr_conn (cl_replicas s k) = Some c"
      using lease_inv_active [OF inv, of k] k assms(2,3) by (auto simp: active_def)
    then have "live s c" using neither(2) k by blast
    then show ?thesis using inv c unfolding lease_inv_def by blast
  qed
  then obtain c where "lr_conn (cl_replicas s i) = Some c" "lr_conn (cl_replicas s j) = Some c" by (metis option.inject)
  then show False using inv assms(4) unfolding lease_inv_def by blast
qed

text \<open>A shutdown hands the lock over before the loops stop. Whenever a healthy leader stops while
  a standby waits, the standby can take the lock and start its loops while those of the old
  leader still run, and both report that they lead.\<close>

theorem shutdown_overlaps:
  assumes "lr_is_leader (cl_replicas s i)" and "lr_conn (cl_replicas s i) = Some c" and "cl_holder s = Some c"
    and "\<not> lr_stopped (cl_replicas s i)" and "lr_reconcile (cl_replicas s i)"
    and "lr_enabled (cl_replicas s j)" and "\<not> lr_is_leader (cl_replicas s j)"
    and "\<not> lr_stopped (cl_replicas s j)" and "lr_pc (cl_replicas s j) = Waiting" and "j \<noteq> i"
  shows "\<exists>s'. lease_run [Stop i, Wake j True, Try_lock j, Start j All_started] s = Some s' \<and>
    lr_reconcile (cl_replicas s' i) \<and> lr_reconcile (cl_replicas s' j) \<and>
    lr_is_leader (cl_replicas s' i) \<and> lr_is_leader (cl_replicas s' j)"
proof -
  have "stop i s = Some (s\<lparr>cl_replicas := (cl_replicas s)(i := (cl_replicas s i)\<lparr>lr_stopped := True,
      lr_pc := Stopping, lr_conn := None\<rparr>), cl_holder := None\<rparr>)" (is "_ = Some ?s1")
    using assms(2-4) by (simp add: stop_def release_form)
  moreover have "wake j True ?s1 = Some (upd j (\<lambda>r. r\<lparr>lr_pc := Contending\<rparr>) ?s1)" (is "_ = Some ?s2")
    using assms(6-10) by (simp add: wake_def)
  moreover obtain s3 where "try_lock j ?s2 = Some s3" "lr_pc (cl_replicas s3 j) = Starting"
      "lr_is_leader (cl_replicas s3 j)" "cl_replicas s3 i = cl_replicas ?s1 i"
    using assms(7,10) by (simp add: try_lock_def Let_def)
  ultimately show ?thesis
    using assms(1,5,10) by (simp add: start_loops_def)
qed

text \<open>The standing of a leader whose acquire callback raised at the informer.\<close>

definition half_started :: "nat \<Rightarrow> nat \<Rightarrow> cluster \<Rightarrow> bool" where
  "half_started i c s \<longleftrightarrow>
     lr_is_leader (cl_replicas s i) \<and> lr_conn (cl_replicas s i) = Some c \<and> cl_holder s = Some c \<and>
     c \<notin> set (cl_dead s) \<and> lr_pc (cl_replicas s i) = Waiting \<and>
     (\<forall>j. \<not> lr_informer (cl_replicas s j)) \<and>
     (\<forall>j. lr_pc (cl_replicas s j) = Starting \<longrightarrow> j = i) \<and>
     (\<forall>j. j \<noteq> i \<longrightarrow> lr_conn (cl_replicas s j) \<noteq> Some c)"

definition spares :: "nat \<Rightarrow> nat \<Rightarrow> lease_event \<Rightarrow> bool" where
  "spares i c e \<longleftrightarrow> e \<noteq> Connection_dies c \<and> e \<noteq> Stop i \<and> e \<noteq> Wake i False"

lemma half_started_step:
  assumes "half_started i c s" and "spares i c e" and "lease_step e s = Some s'"
  shows "half_started i c s'"
proof -
  note h = assms(1) [unfolded half_started_def]
  have other: "half_started i c (s\<lparr>cl_replicas := (cl_replicas s)(j := r), cl_next := n\<rparr>)"
    if "j \<noteq> i" "\<not> lr_informer r" "lr_pc r \<noteq> Starting" "lr_conn r \<noteq> Some c" for j r n
    using h that by (auto simp: half_started_def)
  have other0: "half_started i c (s\<lparr>cl_replicas := (cl_replicas s)(j := r)\<rparr>)"
    if "j \<noteq> i" "\<not> lr_informer r" "lr_pc r \<noteq> Starting" "lr_conn r \<noteq> Some c" for j r
    using other [OF that, of "cl_next s"] by simp
  have dropped: "half_started i c (s\<lparr>cl_replicas := (cl_replicas s)(j := r), cl_holder := Some c\<rparr>)"
    if "j \<noteq> i" "\<not> lr_informer r" "lr_pc r \<noteq> Starting" "lr_conn r \<noteq> Some c" for j r
    using h that by (auto simp: half_started_def)
  show ?thesis
  proof (cases e)
    case (Wake j b)
    show ?thesis
    proof (cases "j = i")
      case True
      then show ?thesis using assms Wake h
        by (cases b) (auto simp: wake_def Let_def spares_def split: if_splits)
    next
      case False
      then consider "s' = s" | "s' = demote j s" | "s' = upd j (\<lambda>r. r\<lparr>lr_pc := Contending\<rparr>) s"
        using assms(3) Wake by (auto simp: wake_def Let_def split: if_splits option.splits bool.splits)
      then show ?thesis
      proof cases
        case 2
        have "Some c \<noteq> lr_conn (cl_replicas s j)" using h False by metis
        then show ?thesis using 2 h False by (simp add: demote_form dropped)
      next
        case 3
        then show ?thesis using h False by (auto intro!: other0)
      qed (use assms(1) in simp)
    qed
  next
    case (Try_lock j)
    then show ?thesis using assms(3) h
      by (cases "j = i") (auto simp: try_lock_def Let_def split: if_splits intro!: other)
  next
    case (Query_fails j)
    then show ?thesis using assms(3) h
      by (cases "j = i") (auto split: if_splits intro!: other)
  next
    case (No_connection j)
    then show ?thesis using assms(3) h
      by (cases "j = i") (auto split: if_splits intro!: other0)
  next
    case (Start j out)
    then show ?thesis using assms(3) h
      by (auto simp: start_loops_def split: if_splits)
  next
    case (Loops_stopped j)
    then show ?thesis using assms(3) h
      by (cases "j = i") (auto simp: loops_stopped_def split: if_splits intro!: other0)
  next
    case (Stop j)
    then have j: "j \<noteq> i" using assms(2) by (auto simp: spares_def)
    then have "lr_conn (cl_replicas s j) \<noteq> Some c" using h by blast
    then show ?thesis using Stop assms(3) h j
      by (auto simp: stop_def release_form split: if_splits intro!: dropped)
  next
    case (Connection_dies d)
    then show ?thesis using assms h
      by (auto simp: half_started_def spares_def split: if_splits)
  qed
qed

text \<open>A leader whose start failed leads for good. When the informer could not be started in the
  acquire callback, the replica keeps the lock, and as long as its session answers and it is
  not stopped, no replica of the cluster runs the descriptor informer: the leader does not
  call the callback again, and no standby gets the lock.\<close>

theorem failed_start_is_never_retried:
  assumes "half_started i c s" and "lease_run es s = Some s'" and "list_all (spares i c) es"
  shows "\<not> lr_informer (cl_replicas s' j)"
proof -
  have "half_started i c s'"
    using assms
  proof (induction es arbitrary: s)
    case (Cons e es)
    then show ?case by (auto split: option.splits intro: half_started_step)
  qed simp
  then show ?thesis by (simp add: half_started_def)
qed

section \<open>Concrete clusters\<close>

definition example_cluster :: "start_outcome \<Rightarrow> cluster" where
  "example_cluster out = the (lease_run [Wake 0 True, Try_lock 0, Start 0 out] (new_cluster True))"

lemma example_cluster_form: "example_cluster out =
    \<lparr>cl_replicas = (\<lambda>_. new_lease True)(0 := \<lparr>lr_enabled = True, lr_is_leader = True, lr_conn = Some 0,
       lr_stopped = False, lr_pc = Waiting, lr_reconcile = True, lr_informer = (out \<noteq> Informer_fails)\<rparr>),
     cl_holder = Some 0, cl_dead = [], cl_next = 1\<rparr>"
  by (simp add: example_cluster_def new_cluster_def new_lease_def wake_def try_lock_def start_loops_def Let_def)

theorem shutdown_overlaps_witness:
  "\<exists>s'. lease_run [Stop 0, Wake 1 True, Try_lock 1, Start 1 All_started] (example_cluster All_started) = Some s' \<and>
    lr_reconcile (cl_replicas s' 0) \<and> lr_reconcile (cl_replicas s' 1) \<and>
    lr_is_leader (cl_replicas s' 0) \<and> lr_is_leader (cl_replicas s' 1)"
  by (rule shutdown_overlaps [where c = 0]) (simp_all add: example_cluster_form new_lease_def)

theorem failed_start_is_never_retried_witness:
  "\<exists>s'. lease_run [Wake 0 True, Wake 1 True, Try_lock 1] (example_cluster Informer_fails) = Some s' \<and>
    \<not> lr_informer (cl_replicas s' 0)"
proof -
  obtain s' where "lease_run [Wake 0 True, Wake 1 True, Try_lock 1] (example_cluster Informer_fails) = Some s'"
    by (simp add: example_cluster_form wake_def try_lock_def new_lease_def)
  moreover from this have "\<not> lr_informer (cl_replicas s' 0)"
    by (rule failed_start_is_never_retried [where i = 0 and c = 0, rotated])
       (simp_all add: half_started_def spares_def example_cluster_form new_lease_def)
  ultimately show ?thesis by blast
qed

text \<open>A leader whose session died, and the standby that took over.\<close>

theorem one_replica_runs_the_loops_witness:
  "\<exists>s. lease_reach s \<and> lr_reconcile (cl_replicas s 0) \<and> lr_reconcile (cl_replicas s 1) \<and>
     (\<exists>k \<in> {0, 1}. lr_pc (cl_replicas s k) = Stopping \<or>
       (\<exists>c. lr_conn (cl_replicas s k) = Some c \<and> c \<in> set (cl_dead s)))"
proof -
  have run: "lease_run es s = Some s' \<Longrightarrow> lease_reach s \<Longrightarrow> lease_reach s'" for es s s'
    by (induction es arbitrary: s) (auto split: option.splits intro: lease_reach.step)
  obtain s where s: "lease_run [Wake 0 True, Try_lock 0, Start 0 All_started, Connection_dies 0,
      Wake 1 True, Try_lock 1, Start 1 All_started] (new_cluster True) = Some s"
    and loops: "lr_reconcile (cl_replicas s 0)" "lr_reconcile (cl_replicas s 1)"
    by (simp add: new_cluster_def new_lease_def wake_def try_lock_def start_loops_def Let_def)
  have "lease_reach s" using run [OF s] lease_reach.boot by blast
  with one_replica_runs_the_loops [OF this loops] loops show ?thesis by auto
qed

end
