(* ===== verification/Predicates.thy ===== *)
theory Predicates
  imports Signals "HOL-Library.Char_ord" "HOL-Library.List_Lexorder"
begin

text \<open>
  The compiler of predicate sources (\<open>data/predicates/compiler.py\<close>) with the metadata of the
  helper catalog (\<open>data/predicates/helpers.py\<close>): the source gate, the check of helper references
  against the binding surface and against what the surface's callers provide, and the cache.
  The Starlark parser and SHA-256 are parameters; regular expressions are scanners on ASCII
  text.
\<close>

section \<open>The catalog\<close>

datatype predicate_surface = TARGET_SCOPE | SOURCE_FILTER | ANALYST_SUBSCRIPTION | CADENCE_TRIGGER

fun surface_value :: "predicate_surface \<Rightarrow> py_str" where
  "surface_value TARGET_SCOPE = ''target.scope''"
| "surface_value SOURCE_FILTER = ''source.filter''"
| "surface_value ANALYST_SUBSCRIPTION = ''analyst.subscription''"
| "surface_value CADENCE_TRIGGER = ''cadence.trigger''"

definition SURFACE_ALL :: "predicate_surface list" where
  "SURFACE_ALL = [TARGET_SCOPE, SOURCE_FILTER, ANALYST_SUBSCRIPTION, CADENCE_TRIGGER]"

definition coerce_surface :: "py_str \<Rightarrow> predicate_surface option" where
  "coerce_surface v = List.find (\<lambda>s. surface_value s = v) SURFACE_ALL"

text \<open>Name, surfaces, and the groups of context keys one of which must be provided.\<close>

definition HELPER_CATALOG :: "(py_str \<times> predicate_surface list \<times> py_str list list) list" where
  "HELPER_CATALOG =
     [(''mentions'', [TARGET_SCOPE, SOURCE_FILTER], [[''signal.entity_classes'']]),
      (''mentions_any'', [TARGET_SCOPE, SOURCE_FILTER], [[''signal.entity_classes'']]),
      (''geo_match'', [TARGET_SCOPE, SOURCE_FILTER],
         [[''signal.geo_provenance''], [''signal.geo_match''], [''signal.geo_provenance'', ''target.scope_geo'']]),
      (''geo_in'', [TARGET_SCOPE, SOURCE_FILTER], [[''signal.geo_provenance'']]),
      (''org_match'', [TARGET_SCOPE, SOURCE_FILTER],
         [[''signal.org_match''], [''signal.org_refs'', ''target.watchlist_orgs'']]),
      (''recent'', [TARGET_SCOPE, SOURCE_FILTER, CADENCE_TRIGGER],
         [[''signal.event_timestamp''], [''signal.ingested_at''], [''event.timestamp'']]),
      (''signal_age_hours'', [TARGET_SCOPE, SOURCE_FILTER],
         [[''signal.event_timestamp''], [''signal.ingested_at'']]),
      (''credibility'', [TARGET_SCOPE, SOURCE_FILTER], [[''signal.credibility'']]),
      (''entity_class_in'', [TARGET_SCOPE, SOURCE_FILTER], [[''signal.entity_classes'']]),
      (''has_tag'', SURFACE_ALL, [[''signal.tags''], [''target.tags''], [''event.tags'']]),
      (''has_any_tag'', SURFACE_ALL, [[''signal.tags''], [''target.tags''], [''event.tags'']]),
      (''contains_any'', [TARGET_SCOPE, SOURCE_FILTER], [[''signal.text'']]),
      (''severity_at_least'', [TARGET_SCOPE, CADENCE_TRIGGER],
         [[''signal.severity''], [''signal.classification_scores''], [''event.severity''], [''event.payload'']]),
      (''scope_geo'', [ANALYST_SUBSCRIPTION], [[''target.scope_geo'']]),
      (''scope_entity_classes'', [ANALYST_SUBSCRIPTION], [[''target.scope_entity_classes'']]),
      (''target_id'', [ANALYST_SUBSCRIPTION], [[''target.id'']]),
      (''target_kind'', [ANALYST_SUBSCRIPTION], [[''target.kind'']]),
      (''abstraction_level'', [ANALYST_SUBSCRIPTION], [[''target.abstraction_level'']]),
      (''event_type'', [CADENCE_TRIGGER], [[''event.type'']]),
      (''event_payload_get'', [CADENCE_TRIGGER], [[''event.payload'']])]"

definition HELPER_NAMES :: "py_str list" where
  "HELPER_NAMES = map fst HELPER_CATALOG"

fun SURFACE_CTX_CONTRACTS :: "predicate_surface \<Rightarrow> py_str list" where
  "SURFACE_CTX_CONTRACTS TARGET_SCOPE =
     [''signal.entity_classes'', ''signal.tags'', ''signal.geo_provenance'', ''signal.credibility'',
      ''signal.language'', ''signal.modality'', ''signal.event_timestamp'', ''signal.ingested_at'',
      ''signal.severity'', ''signal.classification_scores'', ''signal.text'', ''target.id'',
      ''target.scope_geo'', ''target.scope_entity_classes'', ''target.tags'', ''target.domain'',
      ''target.abstraction_level'']"
| "SURFACE_CTX_CONTRACTS SOURCE_FILTER = []"
| "SURFACE_CTX_CONTRACTS ANALYST_SUBSCRIPTION =
     [''target.id'', ''target.kind'', ''target.scope_geo'', ''target.scope_entity_classes'',
      ''target.tags'', ''target.abstraction_level'']"
| "SURFACE_CTX_CONTRACTS CADENCE_TRIGGER = []"

definition TARGET_SCOPE_APPLICABILITY_CTX :: "py_str list" where
  "TARGET_SCOPE_APPLICABILITY_CTX =
     [''target.id'', ''target.scope_geo'', ''target.scope_entity_classes'', ''target.tags'',
      ''target.domain'', ''target.abstraction_level'']"

definition surface_helpers :: "predicate_surface \<Rightarrow> py_str list" where
  "surface_helpers s = map fst (filter (\<lambda>(n, ss, r). s \<in> set ss) HELPER_CATALOG)"

definition helper_requirements :: "py_str \<Rightarrow> py_str list list" where
  "helper_requirements name = (case map_of HELPER_CATALOG name of None \<Rightarrow> [] | Some (ss, r) \<Rightarrow> r)"

definition helper_unsatisfied :: "py_str \<Rightarrow> py_str list \<Rightarrow> py_str list list" where
  "helper_unsatisfied name provided =
     (let groups = helper_requirements name in
      if groups = [] then []
      else if \<exists>g \<in> set groups. set g \<subseteq> set provided then [] else groups)"

section \<open>The source gate\<close>

datatype predicate_error =
    Empty_source
  | Source_too_long
  | Banned py_str
  | Range_not_literal py_str
  | Range_too_large py_str
  | Repeat_too_large nat
  | No_expression
  | Wrong_surface py_str
  | Unfed_helper py_str
  | Parse_failed

definition MAX_SOURCE_CHARS :: nat where "MAX_SOURCE_CHARS = 4096"
definition MAX_ITERATION_COUNT :: nat where "MAX_ITERATION_COUNT = 100000"

text \<open>Whether a pattern matches somewhere; it is told whether a word character comes before.\<close>

fun anywhere :: "(bool \<Rightarrow> py_str \<Rightarrow> bool) \<Rightarrow> bool \<Rightarrow> py_str \<Rightarrow> bool" where
  "anywhere P prev [] = P prev []"
| "anywhere P prev (c # cs) = (P prev (c # cs) \<or> anywhere P (word_char c) cs)"

definition starts :: "(char \<Rightarrow> bool) \<Rightarrow> py_str \<Rightarrow> bool" where
  "starts P s = (case s of [] \<Rightarrow> False | c # _ \<Rightarrow> P c)"

definition keyword :: "py_str \<Rightarrow> (py_str \<Rightarrow> bool) \<Rightarrow> bool \<Rightarrow> py_str \<Rightarrow> bool" where
  "keyword w follow prev s = (\<not> prev \<and> take (length w) s = w \<and> follow (drop (length w) s))"

definition word_end :: "py_str \<Rightarrow> bool" where
  "word_end s = (\<not> starts word_char s)"

text \<open>A line that starts with \<^verbatim>\<open>for\<close>; \<^verbatim>\<open>\s*\<close> crosses line ends.\<close>

definition for_here :: "py_str \<Rightarrow> bool" where
  "for_here s =
     (let t = dropWhile py_space s in take 3 t = ''for'' \<and> starts py_space (drop 3 t))"

fun for_statement :: "bool \<Rightarrow> py_str \<Rightarrow> bool" where
  "for_statement line_start [] = False"
| "for_statement line_start (c # cs) = ((line_start \<and> for_here (c # cs)) \<or> for_statement (c = CHR 0x0A) cs)"

definition BANNED_TOKEN_PATTERNS :: "(py_str \<times> (py_str \<Rightarrow> bool)) list" where
  "BANNED_TOKEN_PATTERNS =
     [(''def'', anywhere (keyword ''def''
                  (\<lambda>s. starts py_space s \<and> starts (\<lambda>c. alpha_char c \<or> c = CHR ''_'') (dropWhile py_space s))) False),
      (''load'', anywhere (keyword ''load'' (\<lambda>s. starts (\<lambda>c. c = CHR ''('') (dropWhile py_space s))) False),
      (''lambda'', anywhere (keyword ''lambda'' word_end) False),
      (''while'', anywhere (keyword ''while'' word_end) False),
      (''import'', anywhere (keyword ''import'' word_end) False),
      (''for-stmt'', for_statement True)]"

text \<open>The first argument of every call of \<^verbatim>\<open>range\<close>, up to a comma or a closing parenthesis.\<close>

function range_args :: "bool \<Rightarrow> py_str \<Rightarrow> py_str list" where
  "range_args prev s =
     (case s of
        [] \<Rightarrow> []
      | c # cs \<Rightarrow>
          (let t = dropWhile py_space (drop 5 s) in
           if \<not> prev \<and> take 5 s = ''range'' \<and> starts (\<lambda>c. c = CHR ''('') t
           then let u = dropWhile py_space (drop 1 t);
                    stop = (\<lambda>c. c \<noteq> CHR '','' \<and> c \<noteq> CHR '')'')
                in py_strip (takeWhile stop u) # range_args False (dropWhile stop u)
           else range_args (word_char c) cs))"
  by pat_completeness auto

termination
proof (relation "measure (\<lambda>(prev, s). length s)", goal_cases)
  case (2 prev s c cs t u stop)
  have "length (dropWhile stop u) \<le> length u" by (rule length_dropWhile_le)
  also have "\<dots> \<le> length (drop 1 t)" unfolding 2(4) by (rule length_dropWhile_le)
  also have "\<dots> \<le> length t" by simp
  also have "\<dots> \<le> length (drop 5 s)" unfolding 2(2) by (rule length_dropWhile_le)
  also have "\<dots> < length s" using 2(1) by simp
  finally show ?case by simp
qed auto

declare range_args.simps [simp del]

text \<open>The counts of literal sequence repeats, on either side of the star.\<close>

definition after_star :: "py_str \<Rightarrow> py_str option" where
  "after_star r =
     (let t = dropWhile py_space r in
      if starts (\<lambda>c. c = CHR ''*'') t then Some (dropWhile py_space (drop 1 t)) else None)"

lemma after_star_length: "after_star r = Some u \<Longrightarrow> length u \<le> length r"
proof -
  assume "after_star r = Some u"
  then have "u = dropWhile py_space (drop 1 (dropWhile py_space r))"
    by (auto simp: after_star_def Let_def split: if_splits)
  moreover have "length (drop 1 (dropWhile py_space r)) \<le> length r"
    using length_dropWhile_le [of py_space r] by simp
  ultimately show ?thesis
    using length_dropWhile_le [of py_space "drop 1 (dropWhile py_space r)"] by simp
qed

lemma after_star_shorter:
  assumes "after_star (dropWhile P cs) = Some u"
  shows "length u < Suc (length cs)" and "length u - Suc 0 < Suc (length cs)"
  using after_star_length [OF assms] length_dropWhile_le [of P cs] by simp_all

lemma after_star_dropped: "after_star cs = Some u \<Longrightarrow> length (dropWhile P u) < Suc (length cs)"
  using after_star_length [of cs u] length_dropWhile_le [of P u] by simp

function seq_repeats :: "py_str \<Rightarrow> nat list" where
  "seq_repeats [] = []"
| "seq_repeats (c # cs) =
     (if c \<in> {CHR '']'', CHR '')'', CHR 0x22, CHR 0x27}
      then (case after_star cs of
              Some u \<Rightarrow>
                if starts digit_char u
                then nat_of_digits (takeWhile digit_char u) # seq_repeats (dropWhile digit_char u)
                else seq_repeats cs
            | None \<Rightarrow> seq_repeats cs)
      else if digit_char c
      then (case after_star (dropWhile digit_char cs) of
              Some u \<Rightarrow>
                if starts (\<lambda>c. c \<in> {CHR ''['', CHR ''('', CHR 0x22, CHR 0x27}) u
                then nat_of_digits (takeWhile digit_char (c # cs)) # seq_repeats (drop 1 u)
                else seq_repeats cs
            | None \<Rightarrow> seq_repeats cs)
      else seq_repeats cs)"
  by pat_completeness auto

termination
  by (relation "measure length") (auto dest: after_star_shorter after_star_dropped)

declare seq_repeats.simps(2) [simp del]

definition all_digits :: "py_str \<Rightarrow> bool" where
  "all_digits s = (s \<noteq> [] \<and> list_all digit_char s)"

fun range_errors :: "py_str list \<Rightarrow> predicate_error option" where
  "range_errors [] = None"
| "range_errors (arg # args) =
     (if arg = [] then range_errors args
      else if \<not> all_digits arg then Some (Range_not_literal arg)
      else if nat_of_digits arg > MAX_ITERATION_COUNT then Some (Range_too_large arg)
      else range_errors args)"

definition check_iteration_cost :: "py_str \<Rightarrow> predicate_error option" where
  "check_iteration_cost source =
     (case range_errors (range_args False source) of
        Some e \<Rightarrow> Some e
      | None \<Rightarrow> map_option Repeat_too_large (List.find (\<lambda>n. n > MAX_ITERATION_COUNT) (seq_repeats source)))"

text \<open>Lines as \<^verbatim>\<open>splitlines\<close> cuts them, and whether a line has more than a comment.\<close>

definition line_break :: "char \<Rightarrow> bool" where
  "line_break c = (let n = (of_char c :: nat) in (10 \<le> n \<and> n \<le> 13) \<or> (28 \<le> n \<and> n \<le> 30))"

fun split_lines :: "py_str \<Rightarrow> py_str list" where
  "split_lines [] = [[]]"
| "split_lines (c # cs) =
     (if line_break c then [] # split_lines cs
      else case split_lines cs of [] \<Rightarrow> [[c]] | l # ls \<Rightarrow> (c # l) # ls)"

definition comment_or_blank :: "py_str \<Rightarrow> bool" where
  "comment_or_blank line = (let t = dropWhile py_space line in t = [] \<or> starts (\<lambda>c. c = CHR ''#'') t)"

definition check_source_gate :: "py_str \<Rightarrow> predicate_error option" where
  "check_source_gate source =
     (if py_strip source = [] then Some Empty_source
      else if length source > MAX_SOURCE_CHARS then Some Source_too_long
      else case List.find (\<lambda>(label, found). found source) BANNED_TOKEN_PATTERNS of
             Some (label, found) \<Rightarrow> Some (Banned label)
           | None \<Rightarrow>
               (case check_iteration_cost source of
                  Some e \<Rightarrow> Some e
                | None \<Rightarrow>
                    (if filter (\<lambda>l. \<not> comment_or_blank l) (split_lines source) = []
                     then Some No_expression else None)))"

section \<open>References to helpers\<close>

text \<open>The text after a quoted literal whose opening mark has been read; \<open>None\<close> if it does not close.\<close>

fun quoted_end :: "char \<Rightarrow> py_str \<Rightarrow> py_str option" where
  "quoted_end q [] = None"
| "quoted_end q (c # cs) =
     (if c = q then Some cs
      else if c = CHR 0x5C
      then (case cs of [] \<Rightarrow> None | d # ds \<Rightarrow> if d = CHR 0x0A then None else quoted_end q ds)
      else quoted_end q cs)"

lemma quoted_end_length: "quoted_end q s = Some t \<Longrightarrow> length t < length s"
  by (induction q s rule: quoted_end.induct) (auto split: if_splits list.splits)

function blank_strings :: "char \<Rightarrow> py_str \<Rightarrow> py_str" where
  "blank_strings q [] = []"
| "blank_strings q (c # cs) =
     (if c = q
      then (case quoted_end q cs of
              Some t \<Rightarrow> q # q # blank_strings q t
            | None \<Rightarrow> c # blank_strings q cs)
      else c # blank_strings q cs)"
  by pat_completeness auto

termination
  by (relation "measure (\<lambda>(q, s). length s)") (auto dest: quoted_end_length)

text \<open>Runs of word characters that do not start with a digit.\<close>

fun identifiers :: "bool \<Rightarrow> py_str \<Rightarrow> py_str list" where
  "identifiers prev [] = []"
| "identifiers prev (c # cs) =
     (if \<not> prev \<and> word_char c \<and> \<not> digit_char c
      then (c # takeWhile word_char cs) # identifiers True cs
      else identifiers (word_char c) cs)"

definition STARLARK_BUILTINS :: "py_str list" where
  "STARLARK_BUILTINS =
     [''True'', ''False'', ''None'', ''and'', ''or'', ''not'', ''in'', ''if'', ''else'', ''for'',
      ''abs'', ''all'', ''any'', ''bool'', ''dict'', ''enumerate'', ''fail'', ''float'', ''getattr'',
      ''hasattr'', ''hash'', ''int'', ''len'', ''list'', ''max'', ''min'', ''range'', ''repr'',
      ''reversed'', ''set'', ''sorted'', ''str'', ''tuple'', ''type'', ''zip'']"

fun referenced_helpers :: "predicate_surface \<Rightarrow> py_str list \<Rightarrow> predicate_error + py_str list" where
  "referenced_helpers surf [] = Inr []"
| "referenced_helpers surf (i # is) =
     (if i \<in> set STARLARK_BUILTINS \<or> i \<notin> set HELPER_NAMES then referenced_helpers surf is
      else if i \<notin> set (surface_helpers surf) then Inl (Wrong_surface i)
      else case referenced_helpers surf is of Inl e \<Rightarrow> Inl e | Inr rs \<Rightarrow> Inr (i # rs))"

definition check_surface_helpers :: "py_str \<Rightarrow> predicate_surface \<Rightarrow> predicate_error + py_str list" where
  "check_surface_helpers source surf =
     map_sum id remdups
       (referenced_helpers surf (identifiers False (blank_strings CHR 0x27 (blank_strings CHR 0x22 source))))"

definition check_ctx_contract :: "py_str list \<Rightarrow> py_str list \<Rightarrow> predicate_error option" where
  "check_ctx_contract referenced contract =
     map_option Unfed_helper (List.find (\<lambda>n. helper_unsatisfied n contract \<noteq> []) (sort referenced))"

section \<open>The cache\<close>

text \<open>Oldest entry first.\<close>

record ('k, 'v) lru =
  lc_maxsize :: nat
  lc_cache :: "('k \<times> 'v) list"
  lc_hits :: nat
  lc_misses :: nat
  lc_evictions :: nat

definition CACHE_MAXSIZE :: nat where "CACHE_MAXSIZE = 10000"

definition new_lru :: "nat \<Rightarrow> ('k, 'v) lru" where
  "new_lru maxsize = \<lparr>lc_maxsize = maxsize, lc_cache = [], lc_hits = 0, lc_misses = 0, lc_evictions = 0\<rparr>"

definition without :: "'k \<Rightarrow> ('k \<times> 'v) list \<Rightarrow> ('k \<times> 'v) list" where
  "without k xs = filter (\<lambda>x. fst x \<noteq> k) xs"

definition lru_get :: "'k \<Rightarrow> ('k, 'v) lru \<Rightarrow> 'v option \<times> ('k, 'v) lru" where
  "lru_get key c =
     (case map_of (lc_cache c) key of
        None \<Rightarrow> (None, c\<lparr>lc_misses := Suc (lc_misses c)\<rparr>)
      | Some v \<Rightarrow> (Some v, c\<lparr>lc_cache := without key (lc_cache c) @ [(key, v)], lc_hits := Suc (lc_hits c)\<rparr>))"

definition lru_put :: "'k \<Rightarrow> 'v \<Rightarrow> ('k, 'v) lru \<Rightarrow> ('k, 'v) lru" where
  "lru_put key v c =
     (if map_of (lc_cache c) key \<noteq> None
      then c\<lparr>lc_cache := without key (lc_cache c) @ [(key, v)]\<rparr>
      else let cache = lc_cache c @ [(key, v)] in
           if length cache > lc_maxsize c
           then c\<lparr>lc_cache := drop 1 cache, lc_evictions := Suc (lc_evictions c)\<rparr>
           else c\<lparr>lc_cache := cache\<rparr>)"

definition lru_clear :: "('k, 'v) lru \<Rightarrow> ('k, 'v) lru" where
  "lru_clear c = c\<lparr>lc_cache := [], lc_hits := 0, lc_misses := 0, lc_evictions := 0\<rparr>"

text \<open>
  What the compiler needs of a cache: reading gives what is stored and stores nothing, and
  writing stores nothing but what is written. Eviction is allowed at any time.
\<close>

locale memo_cache =
  fixes get :: "'k \<Rightarrow> 'c \<Rightarrow> 'v option \<times> 'c"
    and put :: "'k \<Rightarrow> 'v \<Rightarrow> 'c \<Rightarrow> 'c"
    and stored :: "'c \<Rightarrow> 'k \<Rightarrow> 'v option"
    and wf :: "'c \<Rightarrow> bool"
  assumes get_wf: "wf c \<Longrightarrow> wf (snd (get k c))"
    and put_wf: "wf c \<Longrightarrow> wf (put k v c)"
    and get_stored: "wf c \<Longrightarrow> fst (get k c) = Some v \<Longrightarrow> stored c k = Some v"
    and get_keeps: "wf c \<Longrightarrow> stored (snd (get k c)) k' = Some v \<Longrightarrow> stored c k' = Some v"
    and put_stores: "wf c \<Longrightarrow> stored (put k v c) k' = Some w \<Longrightarrow> (k' = k \<and> w = v) \<or> stored c k' = Some w"
begin

definition sound :: "('k \<Rightarrow> 'v \<Rightarrow> bool) \<Rightarrow> 'c \<Rightarrow> bool" where
  "sound good c \<longleftrightarrow> wf c \<and> (\<forall>k v. stored c k = Some v \<longrightarrow> good k v)"

lemma get_good: "sound good c \<Longrightarrow> fst (get k c) = Some v \<Longrightarrow> good k v"
  by (auto simp: sound_def dest: get_stored)

lemma get_sound: "sound good c \<Longrightarrow> sound good (snd (get k c))"
  by (auto simp: sound_def get_wf dest: get_keeps)

lemma put_sound: "sound good c \<Longrightarrow> good k v \<Longrightarrow> sound good (put k v c)"
  by (auto simp: sound_def put_wf dest: put_stores)

text \<open>Looking up and, on a miss, storing what was made: the answer and the cache are as good as a fresh answer.\<close>

definition memo :: "'k \<Rightarrow> 'v option \<Rightarrow> 'c \<Rightarrow> 'v option \<times> 'c" where
  "memo k fresh c =
     (case get k c of
        (Some v, c1) \<Rightarrow> (Some v, c1)
      | (None, c1) \<Rightarrow> (case fresh of None \<Rightarrow> (None, c1) | Some v \<Rightarrow> (Some v, put k v c1)))"

lemma memo_good:
  assumes "sound good c" and "\<And>v. fresh = Some v \<Longrightarrow> good k v"
  shows "sound good (snd (memo k fresh c))" and "fst (memo k fresh c) = Some v \<Longrightarrow> good k v"
  using assms get_sound [OF assms(1), of k] get_good [OF assms(1), of k]
  by (auto simp: memo_def intro: put_sound split: prod.splits option.splits)

end

text \<open>The order of the entries does not matter to a reader as long as the keys differ.\<close>

definition lru_wf :: "('k, 'v) lru \<Rightarrow> bool" where
  "lru_wf c \<longleftrightarrow> distinct (map fst (lc_cache c)) \<and> length (lc_cache c) \<le> lc_maxsize c \<and> 0 < lc_maxsize c"

lemma without_keys: "map fst (without k xs) = filter (\<lambda>i. i \<noteq> k) (map fst xs)"
  by (simp add: without_def filter_map o_def)

lemma map_of_without [simp]: "map_of (without k xs) i = (if i = k then None else map_of xs i)"
  by (induction xs) (auto simp: without_def)

lemma map_of_drop_1: "distinct (map fst xs) \<Longrightarrow> map_of (drop 1 xs) i = Some v \<Longrightarrow> map_of xs i = Some v"
  by (cases xs) (auto dest: map_of_SomeD simp: image_iff)

lemma length_without: "map_of xs k \<noteq> None \<Longrightarrow> length (without k xs) < length xs"
proof -
  assume "map_of xs k \<noteq> None"
  then obtain v where "(k, v) \<in> set xs" by (auto dest: map_of_SomeD)
  then show ?thesis unfolding without_def by (rule length_filter_less) simp
qed

lemma lru_get_wf: "lru_wf c \<Longrightarrow> lru_wf (snd (lru_get k c))"
  using length_without [of "lc_cache c" k]
  by (cases "map_of (lc_cache c) k") (auto simp: lru_get_def lru_wf_def without_keys)

lemma lru_put_wf: "lru_wf c \<Longrightarrow> lru_wf (lru_put k v c)"
  using length_without [of "lc_cache c" k]
  by (cases "map_of (lc_cache c) k")
     (auto simp: lru_put_def lru_wf_def without_keys Let_def map_of_eq_None_iff drop_map [symmetric]
       dest: in_set_dropD)

lemma map_of_append_none: "map_of (xs @ [(k, v)]) i = (case map_of xs i of None \<Rightarrow> (if i = k then Some v else None) | Some w \<Rightarrow> Some w)"
  by (auto simp: map_add_def split: option.split)

interpretation lru_cache: memo_cache lru_get lru_put "\<lambda>c. map_of (lc_cache c)" lru_wf
proof (unfold_locales, goal_cases)
  case (1 c k) then show ?case by (rule lru_get_wf)
next
  case (2 c k v) then show ?case by (rule lru_put_wf)
next
  case (3 c k v) then show ?case by (auto simp: lru_get_def split: option.splits)
next
  case (4 c k k' v) then show ?case
    by (auto simp: lru_get_def map_of_append_none split: option.splits if_splits)
next
  case (5 c k v k' w)
  show ?case
  proof (cases "map_of (lc_cache c) k")
    case (Some a)
    then show ?thesis using 5 by (auto simp: lru_put_def map_of_append_none split: option.splits if_splits)
  next
    case None
    let ?xs = "lc_cache c @ [(k, v)]"
    have "distinct (map fst ?xs)"
      using 5(1) None by (auto simp: lru_wf_def map_of_eq_None_iff)
    moreover have "lc_cache (lru_put k v c) = (if length ?xs > lc_maxsize c then drop 1 ?xs else ?xs)"
      using None by (simp add: lru_put_def Let_def)
    ultimately have "map_of ?xs k' = Some w"
      using 5(2) map_of_drop_1 [of ?xs k' w] by (cases "length ?xs > lc_maxsize c") simp_all
    then show ?thesis by (auto simp: map_of_append_none split: option.splits if_splits)
  qed
qed

section \<open>Compiling\<close>

definition HELPER_CATALOG_VERSION :: py_str where "HELPER_CATALOG_VERSION = ''1.2.0''"

type_synonym cache_key = "py_str \<times> py_str \<times> py_str"

record 'ast compiled_predicate =
  cp_source :: py_str
  cp_surface :: predicate_surface
  cp_source_hash :: py_str
  cp_helper_catalog_version :: py_str
  cp_ast :: 'ast
  cp_referenced_helpers :: "py_str list"

type_synonym 'ast predicate_cache = "(cache_key, 'ast compiled_predicate) lru"

definition cached_or_parsed ::
  "(py_str \<Rightarrow> 'ast option) \<Rightarrow> (py_str \<Rightarrow> py_str) \<Rightarrow> py_str \<Rightarrow> predicate_surface \<Rightarrow> py_str \<Rightarrow> py_str list \<Rightarrow>
     'ast predicate_cache \<Rightarrow> (predicate_error + 'ast compiled_predicate) \<times> 'ast predicate_cache" where
  "cached_or_parsed parse sha source surf ver referenced cache =
     (let key = (sha source, surface_value surf, ver)
      in case lru_get key cache of
           (Some cp, cache1) \<Rightarrow> (Inr cp, cache1)
         | (None, cache1) \<Rightarrow>
             (case parse source of
                None \<Rightarrow> (Inl Parse_failed, cache1)
              | Some ast \<Rightarrow>
                  (let cp = \<lparr>cp_source = source, cp_surface = surf, cp_source_hash = sha source,
                            cp_helper_catalog_version = ver, cp_ast = ast,
                            cp_referenced_helpers = referenced\<rparr>
                   in (Inr cp, lru_put key cp cache1))))"

definition or_current_version :: "py_str option \<Rightarrow> py_str" where
  "or_current_version v = (if truthy v then the v else HELPER_CATALOG_VERSION)"

definition or_surface_contract :: "py_str list option \<Rightarrow> predicate_surface \<Rightarrow> py_str list" where
  "or_surface_contract c surf = (case c of None \<Rightarrow> SURFACE_CTX_CONTRACTS surf | Some c \<Rightarrow> c)"

definition compile_predicate ::
  "(py_str \<Rightarrow> 'ast option) \<Rightarrow> (py_str \<Rightarrow> py_str) \<Rightarrow> py_str \<Rightarrow> predicate_surface \<Rightarrow> py_str option \<Rightarrow>
     py_str list option \<Rightarrow> 'ast predicate_cache \<Rightarrow>
     (predicate_error + 'ast compiled_predicate) \<times> 'ast predicate_cache" where
  "compile_predicate parse sha source surf catalog_version ctx_contract cache =
     (case check_source_gate source of
        Some e \<Rightarrow> (Inl e, cache)
      | None \<Rightarrow>
          (case check_surface_helpers source surf of
             Inl e \<Rightarrow> (Inl e, cache)
           | Inr referenced \<Rightarrow>
               (case check_ctx_contract referenced (or_surface_contract ctx_contract surf) of
                  Some e \<Rightarrow> (Inl e, cache)
                | None \<Rightarrow>
                    cached_or_parsed parse sha source surf (or_current_version catalog_version) referenced cache)))"

text \<open>The names \<^verbatim>\<open>bind_helpers\<close> adds to a module, in catalog order.\<close>

definition bound_names :: "predicate_surface \<Rightarrow> py_str list" where
  "bound_names surf =
     filter (\<lambda>n. case map_of HELPER_CATALOG n of Some (ss, r) \<Rightarrow> surf \<in> set ss | None \<Rightarrow> False) HELPER_NAMES"

section \<open>What a compiled predicate guarantees\<close>

text \<open>A cached artifact is what compiling its own source gives, under its own key.\<close>

definition genuine :: "(py_str \<Rightarrow> 'ast option) \<Rightarrow> (py_str \<Rightarrow> py_str) \<Rightarrow> cache_key \<Rightarrow> 'ast compiled_predicate \<Rightarrow> bool" where
  "genuine parse sha key cp \<longleftrightarrow>
     key = (cp_source_hash cp, surface_value (cp_surface cp), cp_helper_catalog_version cp) \<and>
     cp_source_hash cp = sha (cp_source cp) \<and> parse (cp_source cp) = Some (cp_ast cp) \<and>
     check_surface_helpers (cp_source cp) (cp_surface cp) = Inr (cp_referenced_helpers cp)"

lemma surface_value_inj: "surface_value s = surface_value t \<longleftrightarrow> s = t"
  by (cases s; cases t) simp_all

lemma referenced_allowed:
  "referenced_helpers surf is = Inr rs \<Longrightarrow> h \<in> set rs \<Longrightarrow> h \<in> set (surface_helpers surf) \<and> h \<in> set HELPER_NAMES"
  by (induction "is" arbitrary: rs) (auto split: if_splits sum.splits)

lemma surface_helpers_bound: "h \<in> set (surface_helpers surf) \<Longrightarrow> h \<in> set (bound_names surf)"
  by (cases surf) (auto simp: surface_helpers_def bound_names_def HELPER_CATALOG_def HELPER_NAMES_def SURFACE_ALL_def)

lemma requirements_nonempty: "h \<in> set HELPER_NAMES \<Longrightarrow> helper_requirements h \<noteq> []"
  by (auto simp: helper_requirements_def HELPER_CATALOG_def HELPER_NAMES_def)

lemma contract_checked:
  assumes "check_ctx_contract referenced contract = None" and "h \<in> set referenced" and "h \<in> set HELPER_NAMES"
  shows "\<exists>g \<in> set (helper_requirements h). set g \<subseteq> set contract"
proof -
  have "helper_unsatisfied h contract = []"
    using assms(1,2) by (auto simp: check_ctx_contract_def find_None_iff)
  then show ?thesis
    using requirements_nonempty [OF assms(3)] by (auto simp: helper_unsatisfied_def Let_def split: if_splits)
qed

lemma references_checked:
  assumes "check_surface_helpers source surf = Inr rs" and "h \<in> set rs"
  shows "h \<in> set (surface_helpers surf)" and "h \<in> set HELPER_NAMES"
  using assms referenced_allowed by (auto simp: check_surface_helpers_def map_sum_def split: sum.splits)

lemma cached_or_parsed_sound:
  assumes "lru_cache.sound (genuine parse sha) cache"
    and "check_surface_helpers source surf = Inr rs"
    and "cached_or_parsed parse sha source surf ver rs cache = (Inr cp, cache')"
    and "\<forall>k v. map_of (lc_cache cache) k = Some v \<longrightarrow> sha (cp_source v) = sha source \<longrightarrow> cp_source v = source"
  shows "genuine parse sha (sha source, surface_value surf, ver) cp \<and>
    lru_cache.sound (genuine parse sha) cache' \<and> cp_source cp = source"
proof -
  let ?key = "(sha source, surface_value surf, ver)"
  obtain hit cache1 where get: "lru_get ?key cache = (hit, cache1)" by (cases "lru_get ?key cache")
  have sound1: "lru_cache.sound (genuine parse sha) cache1"
    using lru_cache.get_sound [OF assms(1), of ?key] get by simp
  show ?thesis
  proof (cases hit)
    case (Some v)
    then have cp: "cp = v" "cache' = cache1"
      using assms(3) get by (simp_all add: cached_or_parsed_def)
    have g: "genuine parse sha ?key v"
      using lru_cache.get_good [OF assms(1), of ?key v] get Some by simp
    have "map_of (lc_cache cache) ?key = Some v"
      using get Some by (auto simp: lru_get_def split: option.splits)
    moreover have "sha (cp_source v) = sha source" using g by (simp add: genuine_def)
    ultimately have "cp_source v = source" using assms(4) by blast
    then show ?thesis using cp g sound1 by blast
  next
    case None
    then obtain ast where "parse source = Some ast"
      and cp: "cp = \<lparr>cp_source = source, cp_surface = surf, cp_source_hash = sha source,
        cp_helper_catalog_version = ver, cp_ast = ast, cp_referenced_helpers = rs\<rparr>"
      and cache': "cache' = lru_put ?key cp cache1"
      using assms(3) get by (auto simp: cached_or_parsed_def Let_def split: option.splits)
    then have g: "genuine parse sha ?key cp" and "cp_source cp = source"
      using assms(2) by (simp_all add: genuine_def)
    then show ?thesis using lru_cache.put_sound [OF sound1 g] unfolding cache' by blast
  qed
qed

subsection \<open>The scan against the text\<close>

text \<open>
  A reference read off the text: a helper's name as a whole word, outside the string literals
  before it. What stands before it has no backslash and one kind of quotation mark only, an even
  number of them, so that they pair off and the name is in none of the literals.
\<close>

definition quotes_paired :: "py_str \<Rightarrow> bool" where
  "quotes_paired s \<longleftrightarrow>
     CHR 0x5C \<notin> set s \<and>
     (CHR 0x27 \<notin> set s \<and> even (count_list s CHR 0x22) \<or>
      CHR 0x22 \<notin> set s \<and> even (count_list s CHR 0x27))"

definition refers_to :: "py_str \<Rightarrow> py_str \<Rightarrow> bool" where
  "refers_to source h \<longleftrightarrow>
     (\<exists>before after. source = before @ h @ after \<and> quotes_paired before \<and>
        (before = [] \<or> \<not> word_char (last before)) \<and> \<not> starts word_char after)"

lemma quoted_end_first: "q \<notin> set u \<Longrightarrow> CHR 0x5C \<notin> set u \<Longrightarrow> quoted_end q (u @ q # t) = Some t"
  by (induction u) auto

lemma blank_strings_idle: "q \<notin> set s \<Longrightarrow> blank_strings q (s @ t) = s @ blank_strings q t"
  by (induction s) auto

lemma blank_strings_paired:
  assumes "CHR 0x5C \<notin> set s" "even (count_list s q)"
  shows "\<exists>s'. set s' \<subseteq> set s \<and> (s' = [] \<longleftrightarrow> s = []) \<and> (s \<noteq> [] \<longrightarrow> last s' = last s) \<and>
    (\<forall>t. blank_strings q (s @ t) = s' @ blank_strings q t)"
  using assms
proof (induction s rule: length_induct)
  case (1 s)
  show ?case
  proof (cases s)
    case (Cons c cs)
    show ?thesis
    proof (cases "c = q")
      case False
      then obtain s' where s': "set s' \<subseteq> set cs" "s' = [] \<longleftrightarrow> cs = []" "cs \<noteq> [] \<longrightarrow> last s' = last cs"
        "\<forall>t. blank_strings q (cs @ t) = s' @ blank_strings q t"
        using 1 Cons by (auto split: if_splits)
      then show ?thesis using Cons False by (intro exI [of _ "c # s'"]) auto
    next
      case True
      have "odd (count_list cs q)" using 1(3) Cons True by simp
      then have "q \<in> set cs" by (metis count_notin even_zero)
      then obtain u v where uv: "cs = u @ q # v" "q \<notin> set u" by (meson split_list_first)
      then obtain v' where v': "set v' \<subseteq> set v" "v' = [] \<longleftrightarrow> v = []" "v \<noteq> [] \<longrightarrow> last v' = last v"
        "\<forall>t. blank_strings q (v @ t) = v' @ blank_strings q t"
      proof -
        have "length v < length s" "CHR 0x5C \<notin> set v" "even (count_list v q)"
          using 1(2,3) Cons True uv by (simp_all add: count_notin)
        then show ?thesis using 1(1) that by blast
      qed
      have "blank_strings q (s @ t) = (q # q # v') @ blank_strings q t" for t
        using Cons True uv v'(4) 1(2) by (simp add: quoted_end_first)
      then show ?thesis using Cons True uv v' by (intro exI [of _ "q # q # v'"]) auto
    qed
  qed simp
qed

lemma starts_blanked: "starts P (blank_strings q s) = starts P s"
  by (cases s) (auto simp: starts_def split: option.split)

lemma identifiers_find:
  assumes "h \<noteq> []" "list_all word_char h" "\<not> digit_char (hd h)"
    and "\<not> starts word_char after" "if before = [] then \<not> prev else \<not> word_char (last before)"
  shows "h \<in> set (identifiers prev (before @ h @ after))"
  using assms(5)
proof (induction before arbitrary: prev)
  case Nil
  have whole: "takeWhile word_char (t @ after) = t" if "list_all word_char t" for t
    using that assms(4) by (induction t) (auto simp: starts_def split: list.splits)
  obtain c cs where "h = c # cs" using assms(1) by (cases h) auto
  then show ?case using Nil assms(2,3) whole [of cs] by simp
next
  case (Cons b before)
  then have "h \<in> set (identifiers p (before @ h @ after))" if "before = [] \<Longrightarrow> \<not> p" for p
    using that by (cases "before = []") auto
  moreover have "before = [] \<Longrightarrow> \<not> word_char b" using Cons.prems by simp
  moreover have "word_char b \<Longrightarrow> before \<noteq> []" using Cons.prems by auto
  ultimately show ?case by (cases "before = []") auto
qed

lemma helper_name_shape:
  "list_all (\<lambda>h. h \<noteq> [] \<and> list_all word_char h \<and> \<not> digit_char (hd h) \<and> h \<notin> set STARLARK_BUILTINS
     \<and> CHR 0x22 \<notin> set h \<and> CHR 0x27 \<notin> set h) HELPER_NAMES"
  by code_simp

lemma references_scanned:
  assumes "refers_to source h" "h \<in> set HELPER_NAMES"
  shows "h \<in> set (identifiers False (blank_strings CHR 0x27 (blank_strings CHR 0x22 source)))"
proof -
  note shape = helper_name_shape [unfolded list_all_iff, rule_format, OF assms(2)]
  obtain before after where src: "source = before @ h @ after" and paired: "quotes_paired before"
    and edge: "before = [] \<or> \<not> word_char (last before)" "\<not> starts word_char after"
    using assms(1) by (auto simp: refers_to_def)
  define rest where "rest = blank_strings CHR 0x27 (blank_strings CHR 0x22 after)"
  have twice: "blank_strings CHR 0x27 (h @ blank_strings CHR 0x22 after) = h @ rest"
    using shape by (simp add: rest_def blank_strings_idle)
  have "\<exists>b'. (b' = [] \<longleftrightarrow> before = []) \<and> (before \<noteq> [] \<longrightarrow> last b' = last before) \<and>
      blank_strings CHR 0x27 (blank_strings CHR 0x22 source) = b' @ h @ rest"
  proof (cases "CHR 0x27 \<notin> set before \<and> even (count_list before CHR 0x22)")
    case True
    then obtain b' where b': "set b' \<subseteq> set before" "b' = [] \<longleftrightarrow> before = []"
      "before \<noteq> [] \<longrightarrow> last b' = last before"
      "\<forall>t. blank_strings CHR 0x22 (before @ t) = b' @ blank_strings CHR 0x22 t"
      using blank_strings_paired [of before "CHR 0x22"] paired by (auto simp: quotes_paired_def)
    have "CHR 0x27 \<notin> set b'" using b'(1) True by blast
    then show ?thesis
      using b' shape twice by (intro exI [of _ b']) (simp add: src blank_strings_idle)
  next
    case False
    then have f: "CHR 0x22 \<notin> set before" "even (count_list before CHR 0x27)" "CHR 0x5C \<notin> set before"
      using paired by (auto simp: quotes_paired_def)
    then obtain b' where "b' = [] \<longleftrightarrow> before = []" "before \<noteq> [] \<longrightarrow> last b' = last before"
      "\<forall>t. blank_strings CHR 0x27 (before @ t) = b' @ blank_strings CHR 0x27 t"
      using blank_strings_paired [of before "CHR 0x27"] by auto
    then show ?thesis
      using f shape twice by (intro exI [of _ b']) (simp add: src blank_strings_idle)
  qed
  then obtain b' where "b' = [] \<longleftrightarrow> before = []" "before \<noteq> [] \<longrightarrow> last b' = last before"
    and run: "blank_strings CHR 0x27 (blank_strings CHR 0x22 source) = b' @ h @ rest" by blast
  then show ?thesis
    unfolding run using edge shape
    by (intro identifiers_find) (auto simp: rest_def starts_blanked list_all_iff)
qed

lemma references_kept:
  "referenced_helpers surf is = Inr rs \<Longrightarrow> h \<in> set is \<Longrightarrow> h \<in> set HELPER_NAMES \<Longrightarrow> h \<notin> set STARLARK_BUILTINS
    \<Longrightarrow> h \<in> set rs"
  by (induction "is" arbitrary: rs) (auto split: if_splits sum.splits)

lemma reference_reported:
  assumes "check_surface_helpers source surf = Inr rs" "refers_to source h" "h \<in> set HELPER_NAMES"
  shows "h \<in> set rs"
proof -
  have "h \<notin> set STARLARK_BUILTINS"
    using helper_name_shape assms(3) by (simp add: list_all_iff)
  then show ?thesis
    using assms(1) references_kept references_scanned [OF assms(2,3)] assms(3)
    by (fastforce simp: check_surface_helpers_def map_sum_def split: sum.splits)
qed

text \<open>C26: A predicate that compiles is well scoped, whether it is made or comes from the cache.
  Every helper whose name stands in its text as a whole word, outside the string literals before
  it, is reported as referenced; what is reported is bound on the predicate's surface, and the
  callers of the surface provide one of the groups of keys it needs. Outside the literals means
  that the text before the name has no backslash and an even number of quotation marks of one
  kind; where both kinds are mixed the scan can be misled. The artifact is the
  one of this source, if no cached source shares its hash, and the cache stays as it must be,
  within its size.\<close>

theorem compiled_references_resolve:
  assumes "lru_cache.sound (genuine parse sha) cache"
    and "compile_predicate parse sha source surf ver contract cache = (Inr cp, cache')"
    and "\<forall>k v. map_of (lc_cache cache) k = Some v \<longrightarrow> sha (cp_source v) = sha source \<longrightarrow> cp_source v = source"
  shows "cp_source cp = source \<and> cp_surface cp = surf \<and> parse source = Some (cp_ast cp) \<and>
    (\<forall>h \<in> set HELPER_NAMES. refers_to source h \<longrightarrow> h \<in> set (cp_referenced_helpers cp)) \<and>
    (\<forall>h \<in> set (cp_referenced_helpers cp). h \<in> set (bound_names surf) \<and>
       (\<exists>g \<in> set (helper_requirements h). set g \<subseteq> set (or_surface_contract contract surf))) \<and>
    lru_cache.sound (genuine parse sha) cache' \<and> length (lc_cache cache') \<le> lc_maxsize cache'"
proof -
  obtain rs where refs: "check_surface_helpers source surf = Inr rs"
    and fed: "check_ctx_contract rs (or_surface_contract contract surf) = None"
    and run: "cached_or_parsed parse sha source surf (or_current_version ver) rs cache = (Inr cp, cache')"
    using assms(2) unfolding compile_predicate_def by (auto split: option.splits sum.splits)
  note good = cached_or_parsed_sound [OF assms(1) refs run assms(3)]
  then have surf: "cp_surface cp = surf" "cp_referenced_helpers cp = rs" "parse source = Some (cp_ast cp)"
    using refs by (auto simp: genuine_def surface_value_inj)
  have "length (lc_cache cache') \<le> lc_maxsize cache'"
    using good by (simp add: lru_cache.sound_def lru_wf_def)
  moreover have "h \<in> set (bound_names surf) \<and>
      (\<exists>g \<in> set (helper_requirements h). set g \<subseteq> set (or_surface_contract contract surf))"
    if "h \<in> set rs" for h
    using references_checked [OF refs that] surface_helpers_bound contract_checked [OF fed that] by blast
  ultimately show ?thesis using good surf reference_reported [OF refs] by simp
qed

lemma range_args_Nil [simp]: "range_args prev [] = []"
  by (simp add: range_args.simps)

lemma range_args_Cons: "range_args prev (c # cs) =
    (let t = dropWhile py_space (drop 5 (c # cs)) in
     if \<not> prev \<and> take 5 (c # cs) = ''range'' \<and> starts (\<lambda>c. c = CHR ''('') t
     then let u = dropWhile py_space (drop 1 t); stop = (\<lambda>c. c \<noteq> CHR '','' \<and> c \<noteq> CHR '')'')
          in py_strip (takeWhile stop u) # range_args False (dropWhile stop u)
     else range_args (word_char c) cs)"
  by (subst range_args.simps) (simp only: list.case)

lemmas gate_defs = check_source_gate_def py_strip_def py_space_def MAX_SOURCE_CHARS_def BANNED_TOKEN_PATTERNS_def
  keyword_def starts_def word_end_def for_here_def word_char_def digit_char_def alpha_char_def
  check_iteration_cost_def range_args_Cons seq_repeats.simps after_star_def all_digits_def nat_of_digits_def
  MAX_ITERATION_COUNT_def comment_or_blank_def line_break_def Let_def

lemma show_nat_digits: "c \<in> set (show_nat n) \<Longrightarrow> digit_char c"
proof (induction n rule: show_nat.induct)
  case (1 n)
  have "digit_char (char_of (48 + m))" if "m < 10" for m :: nat
    using that by (simp add: digit_char_def Let_def)
  then show ?case using 1 by (subst (asm) (2) show_nat.simps) (auto split: if_splits)
qed

lemma seq_repeats_no_star: "CHR ''*'' \<notin> set s \<Longrightarrow> seq_repeats s = []"
proof (induction s)
  case (Cons c cs)
  have "after_star t = None" if "set t \<subseteq> set cs" for t
  proof -
    have "set (dropWhile py_space t) \<subseteq> set cs" using that set_dropWhileD by fastforce
    then show ?thesis using Cons.prems by (auto simp: after_star_def starts_def Let_def split: list.split)
  qed
  moreover have "set (dropWhile digit_char cs) \<subseteq> set cs" using set_dropWhileD by fastforce
  ultimately show ?case using Cons by (simp add: seq_repeats.simps)
qed simp

lemma range_args_no_r: "CHR ''r'' \<notin> set s \<Longrightarrow> range_args prev s = []"
proof (induction s arbitrary: prev)
  case (Cons c cs)
  then show ?case by (auto simp: range_args_Cons Let_def)
qed simp

text \<open>The iteration cap looks at the first argument of a range only, and at one factor of a repeat.
  A range from zero to any number whatever passes it, and the whole gate lets through a
  comprehension over a hundred million elements and a list of ten thousand million.\<close>

theorem iteration_cap_bypassed:
  "check_iteration_cost (''len([x for x in range(0,'' @ show_nat n @ '')])'') = None \<and>
   check_source_gate ''len([x for x in range(0,99999999)]) > 0'' = None \<and>
   check_source_gate ''len([0] * 100000 * 100000) > 0'' = None"
proof (intro conjI)
  let ?tail = "show_nat n @ '')])''"
  have tail: "c \<notin> set ?tail" if "c \<in> {CHR ''r'', CHR ''*''}" for c
    using that show_nat_digits [of c n] by (auto simp: digit_char_def)
  have "range_args False (CHR '','' # ?tail) = []"
    using tail by (intro range_args_no_r) simp
  then have "range_args False (''len([x for x in range(0,'' @ ?tail) = [''0'']"
    by (simp add: range_args_Cons Let_def starts_def word_char_def digit_char_def alpha_char_def
        py_space_def py_strip_def)
  moreover have "seq_repeats (''len([x for x in range(0,'' @ ?tail) = []"
    using tail by (intro seq_repeats_no_star) simp
  ultimately show "check_iteration_cost (''len([x for x in range(0,'' @ show_nat n @ '')])'') = None"
    by (simp add: check_iteration_cost_def all_digits_def digit_char_def nat_of_digits_def MAX_ITERATION_COUNT_def)
qed (simp_all add: gate_defs)

text \<open>The scan for helper references blanks whatever stands between two double quotes, also when
  they are characters inside single-quoted literals. Code between them is never looked at: any
  text without a quote or backslash can be replaced by any other, and the check of the surface
  answers the same.\<close>

theorem quotes_hide_references:
  assumes "CHR 0x22 \<notin> set pre" and "CHR 0x22 \<notin> set code" and "CHR 0x5C \<notin> set code"
    and "CHR 0x22 \<notin> set other" and "CHR 0x5C \<notin> set other"
  shows "check_surface_helpers (pre @ CHR 0x22 # code @ CHR 0x22 # post) surf =
         check_surface_helpers (pre @ CHR 0x22 # other @ CHR 0x22 # post) surf"
proof -
  have close: "quoted_end CHR 0x22 (t @ CHR 0x22 # post) = Some post"
    if "CHR 0x22 \<notin> set t" "CHR 0x5C \<notin> set t" for t
    using that by (induction t) auto
  have "blank_strings CHR 0x22 (p @ CHR 0x22 # t @ CHR 0x22 # post) =
      p @ CHR 0x22 # CHR 0x22 # blank_strings CHR 0x22 post"
    if "CHR 0x22 \<notin> set p" "CHR 0x22 \<notin> set t" "CHR 0x5C \<notin> set t" for p t
    using that by (induction p) (auto simp: close)
  then show ?thesis using assms by (simp add: check_surface_helpers_def)
qed

theorem quotes_hide_references_witness:
  "check_surface_helpers (''has_tag('' @ CHR 0x22 # '') or mentions(1) or has_tag('' @ CHR 0x22 # '')'') ANALYST_SUBSCRIPTION =
   check_surface_helpers (''has_tag('' @ CHR 0x22 # [] @ CHR 0x22 # '')'') ANALYST_SUBSCRIPTION"
  by (rule quotes_hide_references) simp_all

text \<open>What the surfaces offer with the contracts as declared: source filters and cadence triggers
  accept no helper at all, and the organisation match is refused on every surface.\<close>

theorem helpers_of_surfaces:
  "[h \<leftarrow> HELPER_NAMES. h \<in> set (surface_helpers surf) \<and> check_ctx_contract [h] (SURFACE_CTX_CONTRACTS surf) = None] =
   (case surf of
      TARGET_SCOPE \<Rightarrow> [''mentions'', ''mentions_any'', ''geo_match'', ''geo_in'', ''recent'',
        ''signal_age_hours'', ''credibility'', ''entity_class_in'', ''has_tag'', ''has_any_tag'',
        ''contains_any'', ''severity_at_least'']
    | ANALYST_SUBSCRIPTION \<Rightarrow> [''has_tag'', ''has_any_tag'', ''scope_geo'', ''scope_entity_classes'',
        ''target_id'', ''target_kind'', ''abstraction_level'']
    | _ \<Rightarrow> [])"
  by (cases surf)
     (simp_all add: HELPER_NAMES_def surface_helpers_def HELPER_CATALOG_def SURFACE_ALL_def
       check_ctx_contract_def helper_unsatisfied_def helper_requirements_def)

lemma new_lru_sound: "lru_cache.sound good (new_lru CACHE_MAXSIZE)"
  by (simp add: lru_cache.sound_def lru_wf_def new_lru_def CACHE_MAXSIZE_def)

theorem compiled_references_resolve_witness:
  "\<exists>cp cache'. compile_predicate (\<lambda>s. Some s) (\<lambda>s. s) ''has_tag(1)'' TARGET_SCOPE None None
      (new_lru CACHE_MAXSIZE) = (Inr cp, cache') \<and>
    cp_source cp = ''has_tag(1)'' \<and> ''has_tag'' \<in> set (cp_referenced_helpers cp) \<and>
    ''has_tag'' \<in> set (bound_names TARGET_SCOPE)"
proof -
  have "check_source_gate ''has_tag(1)'' = None"
    by (simp add: gate_defs)
  moreover have "check_surface_helpers ''has_tag(1)'' TARGET_SCOPE = Inr [''has_tag'']"
    by (simp add: check_surface_helpers_def word_char_def digit_char_def alpha_char_def STARLARK_BUILTINS_def
        HELPER_NAMES_def HELPER_CATALOG_def surface_helpers_def SURFACE_ALL_def)
  moreover have "check_ctx_contract [''has_tag''] (SURFACE_CTX_CONTRACTS TARGET_SCOPE) = None"
    by (simp add: check_ctx_contract_def helper_unsatisfied_def helper_requirements_def HELPER_CATALOG_def)
  ultimately obtain cp cache' where run: "compile_predicate (\<lambda>s. Some s) (\<lambda>s. s) ''has_tag(1)'' TARGET_SCOPE None None
      (new_lru CACHE_MAXSIZE) = (Inr cp, cache')"
    by (simp add: compile_predicate_def or_surface_contract_def cached_or_parsed_def Let_def lru_get_def new_lru_def)
  have "lru_cache.sound (genuine (\<lambda>s. Some s) (\<lambda>s. s)) (new_lru CACHE_MAXSIZE)" by (rule new_lru_sound)
  moreover have "refers_to ''has_tag(1)'' ''has_tag''"
    unfolding refers_to_def
    by (rule exI [of _ "[]"], rule exI [of _ "''(1)''"])
      (simp add: quotes_paired_def starts_def word_char_def digit_char_def alpha_char_def)
  moreover have "''has_tag'' \<in> set HELPER_NAMES" by (simp add: HELPER_NAMES_def HELPER_CATALOG_def)
  ultimately show ?thesis
    using compiled_references_resolve [OF _ run] run by (auto simp: new_lru_def)
qed

end
