(* ===== verification/Lineage.thy ===== *)
theory Lineage
  imports Prelude
begin

text \<open>
  The lineage audit: the walk over \<open>derived_from\<close> of \<open>validate_lineage\<close>
  (\<open>data/provenance/verify.py\<close>) and the daily sweep that runs it over the compositions
  (\<open>analysts/deterministic_handlers/composition_lineage_sweep.py\<close>). A table is the
  association list of its rows under their ids; the database is a function from relation names
  to tables, with no table for a relation that does not exist. The walk is total: each row it
  fetches leaves the set of rows it may still fetch. The reference is reachability along the
  edges that the rows hold.
\<close>

section \<open>Rows and the walk\<close>

record lineage_row =
  ln_target_id :: "py_str option"
  ln_analyst_id :: "py_str option"
  ln_derived_from :: "py_str list option"

type_synonym lineage_table = "(py_str \<times> lineage_row) list"
type_synonym lineage_db = "py_str \<Rightarrow> lineage_table option"

record lineage_node =
  nd_row_id :: py_str
  nd_depth :: int
  nd_target_id :: "py_str option"
  nd_analyst_id :: "py_str option"
  nd_derived_from :: "py_str list"

record lineage_report =
  lr_nodes :: "lineage_node list"
  lr_cycles :: "py_str list list"
  lr_dangling :: "py_str list"
  lr_depth_exhausted :: bool

definition report_ok :: "lineage_report \<Rightarrow> bool" where
  "report_ok r = (\<not> (lr_cycles r \<noteq> [] \<or> lr_dangling r \<noteq> [] \<or> lr_depth_exhausted r))"

datatype lineage_error = Unsafe_table_name py_str | Undefined_table py_str

text \<open>\<^verbatim>\<open>$\<close> of the regular expression also matches before a final newline.\<close>

definition drop_final_newline :: "py_str \<Rightarrow> py_str" where
  "drop_final_newline s = (if s \<noteq> [] \<and> last s = CHR 0x0A then butlast s else s)"

fun safe_table_name :: "py_str \<Rightarrow> bool" where
  "safe_table_name [] = False"
| "safe_table_name (c # cs) =
     ((alpha_char c \<or> c = CHR ''_'') \<and> list_all word_char (drop_final_newline cs))"

type_synonym queue_entry = "py_str \<times> int \<times> py_str list"

text \<open>\<^verbatim>\<open>path[path.index(ancestor):] + [ancestor]\<close>.\<close>

definition cycle_slice :: "py_str \<Rightarrow> py_str list \<Rightarrow> py_str list" where
  "cycle_slice a p = dropWhile (\<lambda>x. x \<noteq> a) p @ [a]"

fun scan_ancestors ::
  "int \<Rightarrow> py_str list \<Rightarrow> py_str list \<Rightarrow> py_str list list \<Rightarrow> queue_entry list
     \<Rightarrow> py_str list list \<times> queue_entry list" where
  "scan_ancestors depth path [] cycles queue = (cycles, queue)"
| "scan_ancestors depth path (a # as) cycles queue =
     (if a \<in> set path then scan_ancestors depth path as (cycles @ [cycle_slice a path]) queue
      else scan_ancestors depth path as cycles (queue @ [(a, depth + 1, path @ [a])]))"

lemma fewer_to_fetch:
  assumes "map_of tbl x = Some row" "x \<notin> set visited"
  shows "card (fst ` set tbl - set (x # visited)) < card (fst ` set tbl - set visited)"
proof (rule psubset_card_mono)
  have "x \<in> fst ` set tbl"
    using assms(1) by (force dest: map_of_SomeD)
  then show "fst ` set tbl - set (x # visited) \<subset> fst ` set tbl - set visited"
    using assms(2) by auto
qed simp

lemma no_more_to_fetch:
  "map_of tbl x = None \<Longrightarrow> fst ` set tbl - set (x # visited) = fst ` set tbl - set visited"
  by (auto simp: map_of_eq_None_iff)

function walk ::
  "lineage_table \<Rightarrow> int \<Rightarrow> py_str list \<Rightarrow> queue_entry list \<Rightarrow> lineage_report \<Rightarrow> lineage_report" where
  "walk tbl max_depth visited [] r = r"
| "walk tbl max_depth visited ((current, depth, path) # queue) r =
     (if depth > max_depth then
        walk tbl max_depth visited queue (r\<lparr>lr_depth_exhausted := True\<rparr>)
      else if current \<in> set visited then walk tbl max_depth visited queue r
      else
        (case map_of tbl current of
           None \<Rightarrow>
             walk tbl max_depth (current # visited) queue
               (r\<lparr>lr_dangling := lr_dangling r @ [current]\<rparr>)
         | Some row \<Rightarrow>
             let derived = (case ln_derived_from row of None \<Rightarrow> [] | Some ds \<Rightarrow> ds);
                 node = \<lparr>nd_row_id = current, nd_depth = depth, nd_target_id = ln_target_id row,
                         nd_analyst_id = ln_analyst_id row, nd_derived_from = derived\<rparr>;
                 sq = scan_ancestors depth path derived (lr_cycles r) queue
             in walk tbl max_depth (current # visited) (snd sq)
                  (r\<lparr>lr_nodes := lr_nodes r @ [node], lr_cycles := fst sq\<rparr>)))"
  by pat_completeness auto

termination
proof (relation "measures [\<lambda>(tbl, md, visited, queue, r). card (fst ` set tbl - set visited),
                           \<lambda>(tbl, md, visited, queue, r). length queue]", goal_cases)
  case (5 tbl md visited current depth path queue r row)
  then show ?case using fewer_to_fetch [of tbl current row visited] by simp
qed (simp_all only: wf_measures, simp_all add: no_more_to_fetch del: list.set)

definition empty_report :: lineage_report where
  "empty_report = \<lparr>lr_nodes = [], lr_cycles = [], lr_dangling = [], lr_depth_exhausted = False\<rparr>"

definition validate_lineage ::
  "lineage_db \<Rightarrow> py_str \<Rightarrow> py_str \<Rightarrow> int \<Rightarrow> lineage_error + lineage_report" where
  "validate_lineage db table row_id max_depth =
     (if \<not> safe_table_name table then Inl (Unsafe_table_name table)
      else case db table of
        None \<Rightarrow> Inl (Undefined_table table)
      | Some tbl \<Rightarrow> Inr (walk tbl max_depth [] [(row_id, 0, [row_id])] empty_report))"

section \<open>Reachability, the reference\<close>

definition ancestors :: "lineage_table \<Rightarrow> py_str \<Rightarrow> py_str list" where
  "ancestors tbl x =
     (case map_of tbl x of
        None \<Rightarrow> []
      | Some row \<Rightarrow> (case ln_derived_from row of None \<Rightarrow> [] | Some ds \<Rightarrow> ds))"

definition derives :: "lineage_table \<Rightarrow> (py_str \<times> py_str) set" where
  "derives tbl = {(x, y). y \<in> set (ancestors tbl x)}"

definition has_row :: "lineage_table \<Rightarrow> py_str \<Rightarrow> bool" where
  "has_row tbl x = (map_of tbl x \<noteq> None)"

text \<open>A chain: each element is derived from the next.\<close>

fun chain :: "lineage_table \<Rightarrow> py_str list \<Rightarrow> bool" where
  "chain tbl (x # y # zs) = (y \<in> set (ancestors tbl x) \<and> chain tbl (y # zs))"
| "chain tbl zs = True"

lemma chain_snoc:
  "chain tbl (xs @ [y]) \<longleftrightarrow> chain tbl xs \<and> (xs = [] \<or> y \<in> set (ancestors tbl (last xs)))"
  by (induction tbl xs rule: chain.induct) auto

lemma chain_drop: "chain tbl xs \<Longrightarrow> chain tbl (dropWhile P xs)"
  by (induction tbl xs rule: chain.induct) auto

lemma chain_reach: "chain tbl (x # xs) \<Longrightarrow> (x, last (x # xs)) \<in> (derives tbl)\<^sup>*"
  by (induction xs arbitrary: x) (auto simp: derives_def intro: converse_rtrancl_into_rtrancl)

section \<open>The scan of one row\<close>

lemma scan_ancestors_eq:
  "scan_ancestors depth path as cycles queue =
     (cycles @ map (\<lambda>a. cycle_slice a path) (filter (\<lambda>a. a \<in> set path) as),
      queue @ map (\<lambda>a. (a, depth + 1, path @ [a])) (filter (\<lambda>a. a \<notin> set path) as))"
  by (induction depth path as cycles queue rule: scan_ancestors.induct) auto

lemma cycle_slice_ends:
  assumes "a \<in> set p"
  shows "hd (cycle_slice a p) = a" "last (cycle_slice a p) = a" "2 \<le> length (cycle_slice a p)"
proof -
  obtain ys where "dropWhile (\<lambda>x. x \<noteq> a) p = a # ys"
    using assms by (metis (mono_tags, lifting) dropWhile_eq_Nil_conv hd_dropWhile list.collapse)
  then show "hd (cycle_slice a p) = a" "last (cycle_slice a p) = a" "2 \<le> length (cycle_slice a p)"
    by (simp_all add: cycle_slice_def)
qed

lemma cycle_slice_chain:
  assumes "chain tbl p" "a \<in> set p" "a \<in> set (ancestors tbl (last p))"
  shows "chain tbl (cycle_slice a p)"
proof -
  have "dropWhile (\<lambda>x. x \<noteq> a) p \<noteq> []"
    using assms(2) by (auto simp: dropWhile_eq_Nil_conv)
  then have "last (dropWhile (\<lambda>x. x \<noteq> a) p) = last p"
    by (metis last_appendR takeWhile_dropWhile_id)
  with assms show ?thesis
    by (simp add: cycle_slice_def chain_snoc chain_drop)
qed

section \<open>What the walk keeps\<close>

definition entry_ok :: "lineage_table \<Rightarrow> py_str \<Rightarrow> py_str list \<Rightarrow> queue_entry \<Rightarrow> bool" where
  "entry_ok tbl root visited e =
     (case e of (c, d, p) \<Rightarrow>
        p \<noteq> [] \<and> hd p = root \<and> last p = c \<and> chain tbl p \<and> distinct p \<and> d = int (length p) - 1 \<and>
        (\<forall>x \<in> set (butlast p). x \<in> set visited \<and> has_row tbl x))"

definition real_cycle :: "lineage_table \<Rightarrow> py_str \<Rightarrow> py_str list \<Rightarrow> bool" where
  "real_cycle tbl root c =
     (chain tbl c \<and> 2 \<le> length c \<and> hd c = last c \<and> (root, hd c) \<in> (derives tbl)\<^sup>*)"

text \<open>The rows fetched so far: each once, with or without a row, all reachable.\<close>

definition rows_inv :: "lineage_table \<Rightarrow> py_str \<Rightarrow> py_str list \<Rightarrow> lineage_report \<Rightarrow> bool" where
  "rows_inv tbl root visited r \<longleftrightarrow>
     set visited = nd_row_id ` set (lr_nodes r) \<union> set (lr_dangling r) \<and>
     distinct (map nd_row_id (lr_nodes r)) \<and> distinct (lr_dangling r) \<and>
     (\<forall>n \<in> set (lr_nodes r). has_row tbl (nd_row_id n) \<and>
        nd_derived_from n = ancestors tbl (nd_row_id n)) \<and>
     (\<forall>x \<in> set (lr_dangling r). \<not> has_row tbl x) \<and>
     (\<forall>x \<in> set visited. (root, x) \<in> (derives tbl)\<^sup>*)"

text \<open>The recorded cycles are real, and an edge back to the root has been recorded.\<close>

definition cycles_inv :: "lineage_table \<Rightarrow> py_str \<Rightarrow> py_str list \<Rightarrow> py_str list list \<Rightarrow> bool" where
  "cycles_inv tbl root visited cycles \<longleftrightarrow>
     (\<forall>c \<in> set cycles. real_cycle tbl root c) \<and>
     (\<forall>x \<in> set visited. root \<in> set (ancestors tbl x) \<longrightarrow> (\<exists>c \<in> set cycles. last c = root))"

text \<open>Nothing derived is lost: it is fetched or waits in the queue.\<close>

definition closed_inv :: "lineage_table \<Rightarrow> py_str \<Rightarrow> py_str list \<Rightarrow> py_str set \<Rightarrow> bool" where
  "closed_inv tbl root visited waiting \<longleftrightarrow>
     root \<in> set visited \<union> waiting \<and>
     (\<forall>x \<in> set visited. set (ancestors tbl x) \<subseteq> set visited \<union> waiting)"

text \<open>A derivation from the root, no row twice, of more than \<open>md\<close> edges.\<close>

definition long_path :: "lineage_table \<Rightarrow> py_str \<Rightarrow> int \<Rightarrow> bool" where
  "long_path tbl root md \<longleftrightarrow>
     (\<exists>p. p \<noteq> [] \<and> hd p = root \<and> chain tbl p \<and> distinct p \<and> md < int (length p) - 1 \<and>
        (\<forall>x \<in> set (butlast p). has_row tbl x))"

definition walk_inv ::
  "lineage_table \<Rightarrow> py_str \<Rightarrow> int \<Rightarrow> py_str list \<Rightarrow> queue_entry list \<Rightarrow> lineage_report \<Rightarrow> bool" where
  "walk_inv tbl root md visited queue r \<longleftrightarrow>
     (\<forall>e \<in> set queue. entry_ok tbl root visited e) \<and> rows_inv tbl root visited r \<and>
     cycles_inv tbl root visited (lr_cycles r) \<and>
     (if lr_depth_exhausted r then long_path tbl root md
      else closed_inv tbl root visited (fst ` set queue))"

lemma has_row_key: "has_row tbl x \<Longrightarrow> x \<in> fst ` set tbl"
  by (auto simp: has_row_def map_of_eq_None_iff)

lemma entry_depth: "entry_ok tbl root visited (c, d, p) \<Longrightarrow> md < d \<Longrightarrow> long_path tbl root md"
  unfolding long_path_def entry_ok_def by auto

lemma entry_reach: "entry_ok tbl root visited (c, d, p) \<Longrightarrow> (root, c) \<in> (derives tbl)\<^sup>*"
  using chain_reach [of tbl "hd p" "tl p"] by (cases p) (auto simp: entry_ok_def)

lemma entry_more: "entry_ok tbl root visited e \<Longrightarrow> entry_ok tbl root (x # visited) e"
  by (auto simp: entry_ok_def split: prod.splits)

lemma inv_cut:
  assumes "walk_inv tbl root md visited ((c, d, p) # queue) r" "d > md"
  shows "walk_inv tbl root md visited queue (r\<lparr>lr_depth_exhausted := True\<rparr>)"
proof -
  have "entry_ok tbl root visited (c, d, p)"
    using assms(1) by (simp add: walk_inv_def)
  then have "long_path tbl root md"
    using assms(2) by (rule entry_depth)
  with assms(1) show ?thesis
    by (simp add: walk_inv_def rows_inv_def)
qed

lemma closed_skip:
  "closed_inv tbl root visited (insert c w) \<Longrightarrow> c \<in> set visited \<Longrightarrow> closed_inv tbl root visited w"
  unfolding closed_inv_def by blast

lemma closed_fetched:
  "closed_inv tbl root visited (insert c w) \<Longrightarrow> set (ancestors tbl c) \<subseteq> insert c (set visited \<union> w')
     \<Longrightarrow> w \<subseteq> w' \<Longrightarrow> closed_inv tbl root (c # visited) w'"
  unfolding closed_inv_def by (simp add: subset_eq) blast

lemma inv_skip:
  "walk_inv tbl root md visited ((c, d, p) # queue) r \<Longrightarrow> c \<in> set visited
     \<Longrightarrow> walk_inv tbl root md visited queue r"
  using closed_skip [of tbl root visited c "fst ` set queue"]
  by (simp add: walk_inv_def split: if_splits)

lemma inv_dangling:
  assumes "walk_inv tbl root md visited ((c, d, p) # queue) r" "c \<notin> set visited" "map_of tbl c = None"
  shows "walk_inv tbl root md (c # visited) queue (r\<lparr>lr_dangling := lr_dangling r @ [c]\<rparr>)"
proof -
  have e: "entry_ok tbl root visited (c, d, p)" and none: "ancestors tbl c = []" "\<not> has_row tbl c"
    using assms by (simp_all add: walk_inv_def ancestors_def has_row_def)
  have "rows_inv tbl root (c # visited) (r\<lparr>lr_dangling := lr_dangling r @ [c]\<rparr>)"
    using assms none entry_reach [OF e] by (simp add: walk_inv_def rows_inv_def)
  moreover have "cycles_inv tbl root (c # visited) (lr_cycles r)"
    using assms none by (simp add: walk_inv_def cycles_inv_def)
  ultimately show ?thesis
    using assms(1) none closed_fetched [of tbl root visited c "fst ` set queue" "fst ` set queue"]
    by (simp add: walk_inv_def entry_more split: if_splits)
qed

lemma inv_node:
  assumes inv: "walk_inv tbl root md visited ((c, d, p) # queue) r" and new: "c \<notin> set visited"
    and row: "map_of tbl c = Some row"
    and n: "nd_row_id n = c" "nd_derived_from n = ancestors tbl c"
    and q: "q' = queue @ map (\<lambda>a. (a, d + 1, p @ [a])) (filter (\<lambda>a. a \<notin> set p) (ancestors tbl c))"
    and cs: "cs = lr_cycles r @ map (\<lambda>a. cycle_slice a p) (filter (\<lambda>a. a \<in> set p) (ancestors tbl c))"
  shows "walk_inv tbl root md (c # visited) q' (r\<lparr>lr_nodes := lr_nodes r @ [n], lr_cycles := cs\<rparr>)"
proof -
  have e: "entry_ok tbl root visited (c, d, p)" and hr: "has_row tbl c"
    using inv row by (simp_all add: walk_inv_def has_row_def)
  then have p: "p \<noteq> []" "hd p = root" "last p = c" "chain tbl p" "distinct p" "d = int (length p) - 1"
    "\<forall>x \<in> set (butlast p). x \<in> set visited \<and> has_row tbl x"
    by (auto simp: entry_ok_def)
  have inp: "x \<in> set p \<Longrightarrow> x = c \<or> (x \<in> set visited \<and> has_row tbl x)" for x
    using p(1,3,7) by (metis append_butlast_last_id in_set_conv_decomp_first rotate1.simps(2) set_ConsD set_rotate1)
  have new_entries: "entry_ok tbl root (c # visited) (a, d + 1, p @ [a])"
    if "a \<notin> set p" "a \<in> set (ancestors tbl c)" for a
    using p that inp hr by (simp add: entry_ok_def chain_snoc butlast_append) fastforce
  have reach: "x \<in> set p \<Longrightarrow> (root, x) \<in> (derives tbl)\<^sup>*" for x
    using inp [of x] inv entry_reach [OF e] by (auto simp: walk_inv_def rows_inv_def)
  have cycles: "real_cycle tbl root (cycle_slice a p)" if "a \<in> set p" "a \<in> set (ancestors tbl c)" for a
    using that p cycle_slice_ends [OF that(1)] cycle_slice_chain [OF p(4) that(1)] reach [OF that(1)]
    by (simp add: real_cycle_def)
  have rootp: "root \<in> set p"
    using p(1,2) by auto
  have "\<forall>e \<in> set q'. entry_ok tbl root (c # visited) e"
    using inv new_entries by (auto simp: q walk_inv_def entry_more)
  moreover have "rows_inv tbl root (c # visited) (r\<lparr>lr_nodes := lr_nodes r @ [n], lr_cycles := cs\<rparr>)"
    using inv new n hr entry_reach [OF e] by (auto simp: walk_inv_def rows_inv_def)
  moreover have "cycles_inv tbl root (c # visited) cs"
    using inv cycles rootp cycle_slice_ends(2) [OF rootp]
    by (auto simp: cs walk_inv_def cycles_inv_def)
  moreover have "closed_inv tbl root (c # visited) (fst ` set q')" if "\<not> lr_depth_exhausted r"
  proof (rule closed_fetched)
    show "closed_inv tbl root visited (insert c (fst ` set queue))"
      using inv that by (simp add: walk_inv_def)
    show "set (ancestors tbl c) \<subseteq> insert c (set visited \<union> fst ` set q')"
      using inp by (force simp: q)
  qed (auto simp: q)
  ultimately show ?thesis
    using inv by (simp add: walk_inv_def)
qed

lemma walk_keeps:
  "walk_inv tbl root md visited queue r
     \<Longrightarrow> \<exists>visited'. walk_inv tbl root md visited' [] (walk tbl md visited queue r)"
proof (induction tbl md visited queue r rule: walk.induct)
  case (2 tbl md visited c d p queue r)
  consider "d > md" | "d \<le> md" "c \<in> set visited" | "d \<le> md" "c \<notin> set visited" "map_of tbl c = None"
    | row where "d \<le> md" "c \<notin> set visited" "map_of tbl c = Some row"
    by fastforce
  then show ?case
  proof cases
    case 1
    with "2.IH"(1) [OF 1 inv_cut [OF "2.prems" 1]] show ?thesis by simp
  next
    case 2
    with "2.IH"(2) inv_skip [OF "2.prems"] show ?thesis by simp
  next
    case 3
    with "2.IH"(3) inv_dangling [OF "2.prems"] show ?thesis by simp
  next
    case 4
    let ?derived = "case ln_derived_from row of None \<Rightarrow> [] | Some ds \<Rightarrow> ds"
    have d: "?derived = ancestors tbl c"
      using 4(3) by (simp add: ancestors_def)
    have "\<exists>visited'. walk_inv tbl root md visited' [] (walk tbl md (c # visited)
        (snd (scan_ancestors d p ?derived (lr_cycles r) queue))
        (r\<lparr>lr_nodes := lr_nodes r @ [\<lparr>nd_row_id = c, nd_depth = d, nd_target_id = ln_target_id row,
             nd_analyst_id = ln_analyst_id row, nd_derived_from = ?derived\<rparr>],
           lr_cycles := fst (scan_ancestors d p ?derived (lr_cycles r) queue)\<rparr>))"
      using 4(1) by (intro "2.IH"(4) [OF _ 4(2,3) refl refl refl] inv_node [OF "2.prems" 4(2,3)])
        (simp_all add: d scan_ancestors_eq)
    with 4 show ?thesis by (simp add: Let_def)
  qed
qed auto

section \<open>The walk against reachability\<close>

lemma walk_start: "walk_inv tbl root md [] [(root, 0, [root])] empty_report"
  by (simp add: walk_inv_def rows_inv_def cycles_inv_def closed_inv_def entry_ok_def empty_report_def)

lemma closed_reach:
  assumes "closed_inv tbl root visited {}" "(root, x) \<in> (derives tbl)\<^sup>*"
  shows "x \<in> set visited"
  using assms(2)
proof (induction rule: rtrancl_induct)
  case base
  show ?case using assms(1) by (simp add: closed_inv_def)
next
  case (step y z)
  then show ?case using assms(1) by (auto simp: closed_inv_def derives_def)
qed

lemma real_cycle_trancl:
  assumes "real_cycle tbl root c"
  shows "(hd c, hd c) \<in> (derives tbl)\<^sup>+"
proof -
  obtain x y zs where c: "c = x # y # zs"
    using assms by (cases c; cases "tl c") (auto simp: real_cycle_def)
  have "(y, last (y # zs)) \<in> (derives tbl)\<^sup>*"
    using assms by (intro chain_reach) (simp add: c real_cycle_def)
  moreover have "(x, y) \<in> derives tbl" "last (y # zs) = x"
    using assms by (auto simp: c real_cycle_def derives_def)
  ultimately show ?thesis
    by (simp add: c rtrancl_into_trancl2)
qed

text \<open>What one call of the audit reports, in terms of reachability.\<close>

definition reachable_ids :: "lineage_table \<Rightarrow> py_str \<Rightarrow> py_str set" where
  "reachable_ids tbl x = {y. (x, y) \<in> (derives tbl)\<^sup>*}"

lemma lineage_facts:
  assumes "validate_lineage db table root md = Inr r" "db table = Some tbl"
  obtains visited where "walk_inv tbl root md visited [] r"
proof -
  have "r = walk tbl md [] [(root, 0, [root])] empty_report"
    using assms by (simp add: validate_lineage_def del: walk.simps split: if_splits)
  then show ?thesis
    using that walk_keeps [OF walk_start] by blast
qed

lemma lineage_within_depth:
  assumes "validate_lineage db table root md = Inr r" "db table = Some tbl"
    "\<not> lr_depth_exhausted r"
  shows "nd_row_id ` set (lr_nodes r) = {x \<in> reachable_ids tbl root. has_row tbl x}"
    "set (lr_dangling r) = {x \<in> reachable_ids tbl root. \<not> has_row tbl x}"
    "(\<exists>c \<in> set (lr_cycles r). last c = root) \<longleftrightarrow> (root, root) \<in> (derives tbl)\<^sup>+"
proof -
  obtain visited where inv: "walk_inv tbl root md visited [] r"
    by (rule lineage_facts [OF assms(1,2)])
  then have closed: "closed_inv tbl root visited {}" and rows: "rows_inv tbl root visited r"
    and cyc: "cycles_inv tbl root visited (lr_cycles r)"
    using assms(3) by (simp_all add: walk_inv_def)
  have vis: "set visited = reachable_ids tbl root"
    using closed_reach [OF closed] rows by (auto simp: reachable_ids_def rows_inv_def)
  have parts: "reachable_ids tbl root = nd_row_id ` set (lr_nodes r) \<union> set (lr_dangling r)"
    "\<And>x. x \<in> nd_row_id ` set (lr_nodes r) \<Longrightarrow> has_row tbl x"
    "\<And>x. x \<in> set (lr_dangling r) \<Longrightarrow> \<not> has_row tbl x"
    using rows unfolding vis [symmetric] rows_inv_def by auto
  show "nd_row_id ` set (lr_nodes r) = {x \<in> reachable_ids tbl root. has_row tbl x}"
    "set (lr_dangling r) = {x \<in> reachable_ids tbl root. \<not> has_row tbl x}"
    unfolding parts(1) using parts(2,3) by blast+
  show "(\<exists>c \<in> set (lr_cycles r). last c = root) \<longleftrightarrow> (root, root) \<in> (derives tbl)\<^sup>+"
  proof
    assume "\<exists>c \<in> set (lr_cycles r). last c = root"
    then show "(root, root) \<in> (derives tbl)\<^sup>+"
      using cyc real_cycle_trancl by (metis cycles_inv_def real_cycle_def)
  next
    assume "(root, root) \<in> (derives tbl)\<^sup>+"
    then obtain x where "(root, x) \<in> (derives tbl)\<^sup>*" "(x, root) \<in> derives tbl"
      by (metis tranclD2)
    then show "\<exists>c \<in> set (lr_cycles r). last c = root"
      using cyc closed_reach [OF closed] by (auto simp: cycles_inv_def derives_def)
  qed
qed

lemma reported_cycles_real:
  assumes "validate_lineage db table root md = Inr r" "db table = Some tbl" "c \<in> set (lr_cycles r)"
  shows "hd c = last c" "(hd c, hd c) \<in> (derives tbl)\<^sup>+" "hd c \<in> reachable_ids tbl root"
proof -
  have "real_cycle tbl root c"
    using lineage_facts [OF assms(1,2)] assms(3) by (auto simp: walk_inv_def cycles_inv_def)
  then show "hd c = last c" "(hd c, hd c) \<in> (derives tbl)\<^sup>+" "hd c \<in> reachable_ids tbl root"
    using real_cycle_trancl by (auto simp: real_cycle_def reachable_ids_def)
qed

lemma exhausted_long_path:
  assumes "validate_lineage db table root md = Inr r" "db table = Some tbl" "lr_depth_exhausted r"
  shows "long_path tbl root md"
  using lineage_facts [OF assms(1,2)] assms(3) by (auto simp: walk_inv_def)

lemma reported_rows_real:
  assumes "validate_lineage db table root md = Inr r" "db table = Some tbl"
  shows "nd_row_id ` set (lr_nodes r) \<subseteq> {x \<in> reachable_ids tbl root. has_row tbl x}"
    "set (lr_dangling r) \<subseteq> {x \<in> reachable_ids tbl root. \<not> has_row tbl x}"
proof -
  obtain visited where "walk_inv tbl root md visited [] r"
    by (rule lineage_facts [OF assms])
  then have "rows_inv tbl root visited r" by (simp add: walk_inv_def)
  then show "nd_row_id ` set (lr_nodes r) \<subseteq> {x \<in> reachable_ids tbl root. has_row tbl x}"
    "set (lr_dangling r) \<subseteq> {x \<in> reachable_ids tbl root. \<not> has_row tbl x}"
    by (auto simp: rows_inv_def reachable_ids_def)
qed

text \<open>Without a repeated row a derivation is at most as long as the table.\<close>

lemma long_path_bound:
  assumes "long_path tbl root md"
  shows "md < int (length tbl)"
proof -
  obtain p where p: "p \<noteq> []" "distinct p" "md < int (length p) - 1" "set (butlast p) \<subseteq> fst ` set tbl"
    using assms by (auto simp: long_path_def intro: has_row_key)
  then have "length (butlast p) \<le> card (fst ` set tbl)"
    by (metis List.finite_set card_mono distinct_butlast distinct_card finite_imageI)
  moreover have "card (fst ` set tbl) \<le> length tbl"
    by (metis card_length length_map set_map)
  ultimately show ?thesis using p(1,3) by simp
qed

text \<open>C32: The audit under any depth bound, the code's 20 included, against reachability. For a
  table name that is safe and exists it raises nothing. What it lists is always there: the nodes
  are reachable rows, the dangling ids are reachable ids without a row, and every cycle in the
  report is a cycle of the table that the root reaches. Unless it says that the depth was
  exhausted nothing is missing among the rows and ids, and a cycle that returns to the root is reported
  exactly when the root is derived from itself. It says that the depth was exhausted only where
  the root has a derivation, no row twice, of more edges than the bound.
\<close>

theorem lineage_matches_reachability:
  assumes "safe_table_name table" "db table = Some tbl"
  shows "\<exists>r. validate_lineage db table root md = Inr r \<and>
    nd_row_id ` set (lr_nodes r) \<subseteq> {x \<in> reachable_ids tbl root. has_row tbl x} \<and>
    set (lr_dangling r) \<subseteq> {x \<in> reachable_ids tbl root. \<not> has_row tbl x} \<and>
    (\<forall>c \<in> set (lr_cycles r). hd c = last c \<and> (hd c, hd c) \<in> (derives tbl)\<^sup>+ \<and>
       hd c \<in> reachable_ids tbl root) \<and>
    (\<not> lr_depth_exhausted r \<longrightarrow>
       nd_row_id ` set (lr_nodes r) = {x \<in> reachable_ids tbl root. has_row tbl x} \<and>
       set (lr_dangling r) = {x \<in> reachable_ids tbl root. \<not> has_row tbl x} \<and>
       ((\<exists>c \<in> set (lr_cycles r). last c = root) \<longleftrightarrow> (root, root) \<in> (derives tbl)\<^sup>+)) \<and>
    (lr_depth_exhausted r \<longrightarrow> long_path tbl root md)"
proof -
  obtain r where r: "validate_lineage db table root md = Inr r"
    using assms(1,2) by (simp add: validate_lineage_def)
  show ?thesis
  proof (intro exI [of _ r] conjI ballI impI)
    show "nd_row_id ` set (lr_nodes r) \<subseteq> {x \<in> reachable_ids tbl root. has_row tbl x}"
      "set (lr_dangling r) \<subseteq> {x \<in> reachable_ids tbl root. \<not> has_row tbl x}"
      by (rule reported_rows_real [OF r assms(2)])+
  qed (fact r lineage_within_depth [OF r assms(2)] reported_cycles_real [OF r assms(2)]
         exhausted_long_path [OF r assms(2)])+
qed

definition sample_row :: "py_str list \<Rightarrow> lineage_row" where
  "sample_row ds = \<lparr>ln_target_id = None, ln_analyst_id = Some ''composition'', ln_derived_from = Some ds\<rparr>"

definition sample_db :: lineage_db where
  "sample_db t =
     (if t = ''analyst_outputs'' then
        Some [(''r'', sample_row [''b'', ''c'']), (''b'', sample_row [''c'']),
              (''c'', sample_row [''b'', ''r''])]
      else None)"

lemma safe_analyst_outputs: "safe_table_name ''analyst_outputs''"
  by (simp add: drop_final_newline_def word_char_def alpha_char_def digit_char_def)

theorem lineage_matches_reachability_witness:
  "\<exists>tbl r. sample_db ''analyst_outputs'' = Some tbl \<and>
     validate_lineage sample_db ''analyst_outputs'' ''r'' 20 = Inr r \<and> \<not> lr_depth_exhausted r \<and>
     nd_row_id ` set (lr_nodes r) = {x \<in> reachable_ids tbl ''r''. has_row tbl x}"
proof -
  obtain tbl where tbl: "sample_db ''analyst_outputs'' = Some tbl" "length tbl = 3"
    by (simp add: sample_db_def)
  then have "\<not> long_path tbl ''r'' 20"
    using long_path_bound [of tbl "''r''" 20] by auto
  moreover obtain r where "validate_lineage sample_db ''analyst_outputs'' ''r'' 20 = Inr r"
    "\<not> lr_depth_exhausted r \<longrightarrow> nd_row_id ` set (lr_nodes r) = {x \<in> reachable_ids tbl ''r''. has_row tbl x}"
    "lr_depth_exhausted r \<longrightarrow> long_path tbl ''r'' 20"
    using lineage_matches_reachability [where db = sample_db and tbl = tbl and md = 20 and root = "''r''",
      OF safe_analyst_outputs tbl(1)] by (elim exE conjE) simp
  ultimately show ?thesis using tbl(1) by (intro exI [of _ tbl] exI [of _ r]) simp
qed

section \<open>What the walk misses\<close>

text \<open>
  A row fetched along one path is not fetched again, so an edge is only compared with the first
  path to its source. A cycle that no first path runs along is not reported.
\<close>

definition crossed :: lineage_table where
  "crossed = [(''r'', sample_row [''b'', ''c'']), (''b'', sample_row [''c'']), (''c'', sample_row [''b''])]"

lemma crossed_walk:
  assumes "db ''analyst_outputs'' = Some crossed"
  shows "\<exists>r. validate_lineage db ''analyst_outputs'' ''r'' 20 = Inr r \<and> report_ok r"
  using assms
  by (simp add: validate_lineage_def safe_analyst_outputs del: safe_table_name.simps)
    (simp add: crossed_def sample_row_def empty_report_def report_ok_def Let_def)

lemma crossed_cycle: "(''b'', ''b'') \<in> (derives crossed)\<^sup>+" "''b'' \<in> reachable_ids crossed ''r''"
proof -
  have "(''r'', ''b'') \<in> derives crossed" "(''b'', ''c'') \<in> derives crossed"
    "(''c'', ''b'') \<in> derives crossed"
    by (simp_all add: derives_def ancestors_def crossed_def sample_row_def)
  then show "(''b'', ''b'') \<in> (derives crossed)\<^sup>+" "''b'' \<in> reachable_ids crossed ''r''"
    by (auto simp: reachable_ids_def intro: trancl_into_trancl)
qed

text \<open>
  The depth test comes before the test for visited rows: a row that was fetched on a short path
  and is met again on a path that is too long makes the report say that the depth was exhausted.
\<close>

lemma depth_exhausted_on_fetched_row:
  assumes "db ''t'' = Some [(''r'', sample_row [''a'', ''b'']), (''a'', sample_row []),
    (''b'', sample_row [''a''])]"
  shows "\<exists>r. validate_lineage db ''t'' ''r'' 1 = Inr r \<and> lr_depth_exhausted r \<and>
    map nd_row_id (lr_nodes r) = [''r'', ''a'', ''b'']"
  using assms
  by (simp add: validate_lineage_def drop_final_newline_def alpha_char_def)
    (simp add: sample_row_def empty_report_def Let_def)

section \<open>The sweep over the compositions\<close>

record root_row =
  rt_id :: py_str
  rt_analyst_id :: py_str

record offender =
  of_root_id :: py_str
  of_analyst_id :: py_str
  of_cycles :: "py_str list list"
  of_dangling :: "py_str list"
  of_depth_exhausted :: bool

record sweep =
  sw_swept :: nat
  sw_ok :: nat
  sw_with_cycles :: nat
  sw_with_dangling :: nat
  sw_depth_exhausted :: nat
  sw_offenders :: "offender list"

abbreviation MAX_DEPTH :: int where "MAX_DEPTH \<equiv> 20"
abbreviation ROOT_CAP :: nat where "ROOT_CAP \<equiv> 200"
abbreviation OFFENDER_CAP :: nat where "OFFENDER_CAP \<equiv> 25"
abbreviation CYCLES_PER_OFFENDER :: nat where "CYCLES_PER_OFFENDER \<equiv> 5"
abbreviation DANGLING_PER_OFFENDER :: nat where "DANGLING_PER_OFFENDER \<equiv> 10"

definition empty_sweep :: sweep where
  "empty_sweep = \<lparr>sw_swept = 0, sw_ok = 0, sw_with_cycles = 0, sw_with_dangling = 0,
     sw_depth_exhausted = 0, sw_offenders = []\<rparr>"

text \<open>
  \<open>catalog x\<close>: the id \<open>x\<close> is the id of a row of one of the seven tables of
  \<open>_CATALOG_RESOLVE_SQL\<close>.
\<close>

definition resolve_catalog :: "(py_str \<Rightarrow> bool) \<Rightarrow> py_str list \<Rightarrow> py_str set" where
  "resolve_catalog catalog ids = (if ids = [] then {} else {x \<in> set ids. catalog x})"

definition true_dangling :: "(py_str \<Rightarrow> bool) \<Rightarrow> lineage_report \<Rightarrow> py_str list" where
  "true_dangling catalog r =
     (if lr_dangling r \<noteq> []
      then filter (\<lambda>d. d \<notin> resolve_catalog catalog (lr_dangling r)) (lr_dangling r) else [])"

definition sweep_root ::
  "(py_str \<Rightarrow> bool) \<Rightarrow> root_row \<Rightarrow> lineage_report \<Rightarrow> sweep \<Rightarrow> sweep" where
  "sweep_root catalog root r s =
     (let broken = true_dangling catalog r;
          has_cycle = (lr_cycles r \<noteq> []);
          has_dangling = (broken \<noteq> []);
          has_depth = lr_depth_exhausted r;
          s = s\<lparr>sw_swept := sw_swept s + 1\<rparr>
      in if \<not> (has_cycle \<or> has_dangling \<or> has_depth) then s\<lparr>sw_ok := sw_ok s + 1\<rparr>
         else
           let s = (if has_cycle then s\<lparr>sw_with_cycles := sw_with_cycles s + 1\<rparr> else s);
               s = (if has_dangling then s\<lparr>sw_with_dangling := sw_with_dangling s + 1\<rparr> else s);
               s = (if has_depth then s\<lparr>sw_depth_exhausted := sw_depth_exhausted s + 1\<rparr> else s)
           in if length (sw_offenders s) < OFFENDER_CAP
              then s\<lparr>sw_offenders := sw_offenders s @
                     [\<lparr>of_root_id = rt_id root, of_analyst_id = rt_analyst_id root,
                       of_cycles = take CYCLES_PER_OFFENDER (lr_cycles r),
                       of_dangling = take DANGLING_PER_OFFENDER broken,
                       of_depth_exhausted = has_depth\<rparr>]\<rparr>
              else s)"

fun sweep_roots ::
  "lineage_db \<Rightarrow> (py_str \<Rightarrow> bool) \<Rightarrow> root_row list \<Rightarrow> sweep \<Rightarrow> lineage_error + sweep" where
  "sweep_roots db catalog [] s = Inr s"
| "sweep_roots db catalog (root # roots) s =
     (case validate_lineage db ''analyst_outputs'' (rt_id root) MAX_DEPTH of
        Inl e \<Rightarrow> Inl e
      | Inr r \<Rightarrow> sweep_roots db catalog roots (sweep_root catalog root r s))"

text \<open>The roots that the query found in the window, newest first, and the finding's tag.\<close>

definition composition_sweep ::
  "lineage_db \<Rightarrow> (py_str \<Rightarrow> bool) \<Rightarrow> root_row list \<Rightarrow> lineage_error + sweep" where
  "composition_sweep db catalog found = sweep_roots db catalog (take ROOT_CAP found) empty_sweep"

definition sweep_clean :: "sweep \<Rightarrow> bool" where
  "sweep_clean s = (sw_with_cycles s + sw_with_dangling s + sw_depth_exhausted s = 0)"

subsection \<open>What a sweep counts\<close>

definition root_report :: "lineage_db \<Rightarrow> root_row \<Rightarrow> lineage_error + lineage_report" where
  "root_report db root = validate_lineage db ''analyst_outputs'' (rt_id root) MAX_DEPTH"

definition root_clean :: "lineage_db \<Rightarrow> (py_str \<Rightarrow> bool) \<Rightarrow> root_row \<Rightarrow> bool" where
  "root_clean db catalog root =
     (case root_report db root of
        Inl e \<Rightarrow> False
      | Inr r \<Rightarrow> lr_cycles r = [] \<and> true_dangling catalog r = [] \<and> \<not> lr_depth_exhausted r)"

definition issue_count :: "sweep \<Rightarrow> nat" where
  "issue_count s = sw_with_cycles s + sw_with_dangling s + sw_depth_exhausted s"

lemma sweep_root_counts:
  assumes "root_report db root = Inr r"
  shows "sw_swept (sweep_root catalog root r s) = sw_swept s + 1"
    "sw_ok (sweep_root catalog root r s) = sw_ok s + (if root_clean db catalog root then 1 else 0)"
    "issue_count (sweep_root catalog root r s) = issue_count s \<longleftrightarrow> root_clean db catalog root"
    "issue_count s \<le> issue_count (sweep_root catalog root r s)"
    "length (sw_offenders (sweep_root catalog root r s)) =
       (if root_clean db catalog root \<or> OFFENDER_CAP \<le> length (sw_offenders s)
        then length (sw_offenders s) else length (sw_offenders s) + 1)"
  using assms by (simp_all add: sweep_root_def root_clean_def issue_count_def Let_def)

lemma sweep_roots_counts:
  assumes "sweep_roots db catalog roots s = Inr s'" "length (sw_offenders s) \<le> OFFENDER_CAP"
  shows "sw_swept s' = sw_swept s + length roots \<and>
    sw_ok s' = sw_ok s + length (filter (root_clean db catalog) roots) \<and>
    issue_count s \<le> issue_count s' \<and>
    (issue_count s' = issue_count s \<longleftrightarrow> list_all (root_clean db catalog) roots) \<and>
    length (sw_offenders s') =
      min OFFENDER_CAP (length (sw_offenders s) + length (filter (\<lambda>x. \<not> root_clean db catalog x) roots))"
  using assms
proof (induction roots arbitrary: s)
  case (Cons root roots)
  obtain r where r: "root_report db root = Inr r"
    using Cons.prems by (cases "root_report db root") (auto simp: root_report_def)
  let ?t = "sweep_root catalog root r s"
  note one = sweep_root_counts [OF r, where catalog = catalog and s = s]
  have t: "sweep_roots db catalog roots ?t = Inr s'" "length (sw_offenders ?t) \<le> OFFENDER_CAP"
    using Cons.prems r one(5) by (simp_all add: root_report_def)
  show ?case
    using Cons.IH [OF t] one Cons.prems(2) by (cases "root_clean db catalog root") auto
qed simp

lemma length_filter_all: "length (filter P xs) = length xs \<longleftrightarrow> list_all P xs"
proof (induction xs)
  case (Cons x xs)
  then show ?case using le_imp_less_Suc [OF length_filter_le [of P xs]] by auto
qed simp

lemma root_clean_meaning:
  assumes "root_clean db catalog root" "db ''analyst_outputs'' = Some tbl"
    "x \<in> reachable_ids tbl (rt_id root)"
  shows "has_row tbl x \<or> catalog x" "rt_id root \<notin> set (ancestors tbl x)"
proof -
  obtain r where r: "validate_lineage db ''analyst_outputs'' (rt_id root) MAX_DEPTH = Inr r"
    "lr_cycles r = []" "true_dangling catalog r = []" "\<not> lr_depth_exhausted r"
    using assms(1) by (auto simp: root_clean_def root_report_def split: sum.splits)
  note facts = lineage_within_depth [OF r(1) assms(2) r(4)]
  show "has_row tbl x \<or> catalog x"
    using facts(2) r(3) assms(3)
    by (force simp: true_dangling_def resolve_catalog_def filter_empty_conv split: if_splits)
  show "rt_id root \<notin> set (ancestors tbl x)"
  proof
    assume "rt_id root \<in> set (ancestors tbl x)"
    then have "(rt_id root, rt_id root) \<in> (derives tbl)\<^sup>+"
      using assms(3) by (auto simp: reachable_ids_def derives_def intro: rtrancl_into_trancl1)
    with facts(3) r(2) show False by simp
  qed
qed

text \<open>The daily sweep counts every root once, a root that is not clean at least once, and names
  at most 25 of them. When it reports no issue, everything that a swept composition is derived
  from, directly or not, is a row of the table or resolves in the catalog, and nothing among it
  is derived from the composition.
\<close>

theorem composition_sweep_meaning:
  assumes "composition_sweep db catalog found = Inr s" "db ''analyst_outputs'' = Some tbl"
  shows "sw_swept s = min ROOT_CAP (length found) \<and>
    sw_ok s = length (filter (root_clean db catalog) (take ROOT_CAP found)) \<and>
    length (sw_offenders s) = min OFFENDER_CAP (sw_swept s - sw_ok s) \<and>
    (sweep_clean s \<longleftrightarrow> sw_ok s = sw_swept s) \<and>
    (sweep_clean s \<longrightarrow> (\<forall>root \<in> set (take ROOT_CAP found). \<forall>x \<in> reachable_ids tbl (rt_id root).
       (has_row tbl x \<or> catalog x) \<and> rt_id root \<notin> set (ancestors tbl x)))"
proof -
  let ?roots = "take ROOT_CAP found"
  note run = assms(1) [unfolded composition_sweep_def]
  have counts: "sw_swept s = length ?roots"
    "sw_ok s = length (filter (root_clean db catalog) ?roots)"
    "issue_count s = 0 \<longleftrightarrow> list_all (root_clean db catalog) ?roots"
    "length (sw_offenders s) = min OFFENDER_CAP (length (filter (\<lambda>x. \<not> root_clean db catalog x) ?roots))"
    using sweep_roots_counts [OF run] by (simp_all only: empty_sweep_def issue_count_def, simp_all)
  have clean: "sweep_clean s \<longleftrightarrow> list_all (root_clean db catalog) ?roots"
    using counts(3) by (simp add: sweep_clean_def issue_count_def)
  have "length ?roots - length (filter (root_clean db catalog) ?roots) =
      length (filter (\<lambda>x. \<not> root_clean db catalog x) ?roots)"
    using sum_length_filter_compl [of "root_clean db catalog" ?roots] by linarith
  then have off: "length (sw_offenders s) = min OFFENDER_CAP (sw_swept s - sw_ok s)"
    by (simp only: counts)
  have all: "sweep_clean s \<longleftrightarrow> sw_ok s = sw_swept s"
    by (simp only: clean counts length_filter_all)
  have mean: "(has_row tbl x \<or> catalog x) \<and> rt_id root \<notin> set (ancestors tbl x)"
    if "sweep_clean s" "root \<in> set ?roots" "x \<in> reachable_ids tbl (rt_id root)" for root x
    using that clean root_clean_meaning [where db = db and catalog = catalog, OF _ assms(2) that(3)]
    by (simp add: list_all_iff)
  show ?thesis
  proof (intro conjI impI ballI)
    show "sw_swept s = min ROOT_CAP (length found)"
      using counts(1) by (simp add: min.commute)
  qed (use counts(2) off all mean in blast)+
qed

theorem composition_sweep_meaning_witness:
  "\<exists>s. composition_sweep sample_db (\<lambda>_. False) [\<lparr>rt_id = ''r'', rt_analyst_id = ''world''\<rparr>] = Inr s \<and>
     sw_swept s = 1 \<and> sw_ok s = 0"
proof -
  let ?found = "[\<lparr>rt_id = ''r'', rt_analyst_id = ''world''\<rparr>]"
  obtain s where s: "composition_sweep sample_db (\<lambda>_. False) ?found = Inr s"
    "sw_ok s = 0"
    by (simp add: composition_sweep_def validate_lineage_def safe_analyst_outputs sample_db_def
        sample_row_def empty_report_def empty_sweep_def sweep_root_def true_dangling_def Let_def
        del: safe_table_name.simps)
  obtain tbl where "sample_db ''analyst_outputs'' = Some tbl"
    by (simp add: sample_db_def)
  from composition_sweep_meaning [OF s(1) this] s show ?thesis by auto
qed

text \<open>A cycle can go unreported: over a composition derived from two rows that are derived from
  each other, the sweep is clean, although the cycle is reachable from the composition.
\<close>

theorem clean_sweep_over_cycle:
  assumes "db ''analyst_outputs'' = Some crossed"
  shows "(\<exists>s. composition_sweep db catalog [\<lparr>rt_id = ''r'', rt_analyst_id = a\<rparr>] = Inr s \<and>
      sweep_clean s \<and> sw_ok s = 1) \<and>
    ''b'' \<in> reachable_ids crossed ''r'' \<and> (''b'', ''b'') \<in> (derives crossed)\<^sup>+"
proof -
  obtain r where "validate_lineage db ''analyst_outputs'' ''r'' 20 = Inr r" "report_ok r"
    using crossed_walk [where db = db, OF assms] by blast
  then show ?thesis
    by (simp add: composition_sweep_def sweep_root_def true_dangling_def report_ok_def
        sweep_clean_def empty_sweep_def crossed_cycle)
qed

definition crossed_db :: lineage_db where
  "crossed_db t = (if t = ''analyst_outputs'' then Some crossed else None)"

theorem clean_sweep_over_cycle_witness:
  "\<exists>s. composition_sweep crossed_db (\<lambda>_. True) [\<lparr>rt_id = ''r'', rt_analyst_id = ''w''\<rparr>] = Inr s \<and>
     sweep_clean s"
  using clean_sweep_over_cycle [of crossed_db "\<lambda>_. True" "''w''"] by (auto simp: crossed_db_def)

end
