(* ===== verification/JudgeCall.thy ===== *)
theory JudgeCall
  imports Signals Complex_Main
begin

text \<open>
  One call of the judge model: the transport with its retries (\<open>data/provenance/judge_transport.py\<close>)
  and the reading of the reply (\<open>data/provenance/judge_verdict_parsing.py\<close>): the objects found in
  the text, the alignment of the verdicts with the claims, and the list of one slot per claim that
  the verify pass gets. The model's answers, the clock, the jitter and \<open>json.loads\<close> are
  parameters; times are rational seconds.
\<close>

section \<open>Classifying one response\<close>

abbreviation STATUS_OK :: py_str where "STATUS_OK \<equiv> ''200''"
abbreviation STATUS_EMPTY :: py_str where "STATUS_EMPTY \<equiv> ''empty''"
abbreviation STATUS_TIMEOUT :: py_str where "STATUS_TIMEOUT \<equiv> ''timeout''"
abbreviation STATUS_ERROR :: py_str where "STATUS_ERROR \<equiv> ''error''"

text \<open>What the transport reads of a response: its content and its raw body.\<close>

record llm_response =
  rs_content :: "py_str option"
  rs_raw_response :: "json option"

definition envelope_error :: "llm_response \<Rightarrow> json_dict option" where
  "envelope_error r =
     (case rs_raw_response r of
        Some (J_object raw) \<Rightarrow> (case map_of raw ''error'' of Some (J_object err) \<Rightarrow> Some err | _ \<Rightarrow> None)
      | _ \<Rightarrow> None)"

text \<open>
  \<^verbatim>\<open>int(v)\<close> and \<^verbatim>\<open>float(v)\<close> of a JSON value, where they do not raise; the value of a float
  literal is a parameter, and so is the text that \<^verbatim>\<open>float\<close> accepts.
\<close>

fun json_int :: "(py_str \<Rightarrow> rat option) \<Rightarrow> json \<Rightarrow> int option" where
  "json_int float_of (J_int n) = Some n"
| "json_int float_of (J_bool b) = Some (if b then 1 else 0)"
| "json_int float_of (J_str s) = py_int (py_strip s)"
| "json_int float_of (J_float s) =
     map_option (\<lambda>x. if 0 \<le> x then \<lfloor>x\<rfloor> else \<lceil>x\<rceil>) (float_of s)"
| "json_int float_of _ = None"

fun json_float :: "(py_str \<Rightarrow> rat option) \<Rightarrow> json \<Rightarrow> rat option" where
  "json_float float_of (J_int n) = Some (of_int n)"
| "json_float float_of (J_bool b) = Some (if b then 1 else 0)"
| "json_float float_of (J_str s) = float_of s"
| "json_float float_of (J_float s) = float_of s"
| "json_float float_of _ = None"

fun first_code :: "(py_str \<Rightarrow> rat option) \<Rightarrow> json_dict \<Rightarrow> py_str list \<Rightarrow> int option" where
  "first_code float_of err [] = None"
| "first_code float_of err (k # ks) =
     (case Option.bind (map_of err k) (json_int float_of) of
        Some code \<Rightarrow> if 100 \<le> code \<and> code < 600 then Some code else first_code float_of err ks
      | None \<Rightarrow> first_code float_of err ks)"

definition envelope_code :: "(py_str \<Rightarrow> rat option) \<Rightarrow> json_dict \<Rightarrow> int option" where
  "envelope_code float_of err = first_code float_of err [''code'', ''status'', ''status_code'']"

definition envelope_retry_after :: "(py_str \<Rightarrow> rat option) \<Rightarrow> json_dict \<Rightarrow> rat option" where
  "envelope_retry_after float_of err =
     (case map_of err ''metadata'' of
        Some (J_object meta) \<Rightarrow>
          (case map_of meta ''headers'' of
             Some (J_object headers) \<Rightarrow>
               (case Option.bind (map_of headers ''Retry-After'') (json_float float_of) of
                  Some x \<Rightarrow> Some x
                | None \<Rightarrow> Option.bind (map_of headers ''retry-after'') (json_float float_of))
           | _ \<Rightarrow> None)
      | _ \<Rightarrow> None)"

definition classify_response ::
  "(py_str \<Rightarrow> rat option) \<Rightarrow> llm_response \<Rightarrow> py_str \<times> py_str \<times> rat option" where
  "classify_response float_of r =
     (let content = (case rs_content r of None \<Rightarrow> [] | Some s \<Rightarrow> s) in
      case envelope_error r of
        Some err \<Rightarrow>
          ((case envelope_code float_of err of
              Some code \<Rightarrow> ''200/'' @ show_int code | None \<Rightarrow> ''200/error''),
           [], envelope_retry_after float_of err)
      | None \<Rightarrow>
          if py_strip content = [] then (STATUS_EMPTY, [], None) else (STATUS_OK, content, None))"

text \<open>\<^verbatim>\<open>token.rsplit("/", 1)[-1]\<close>.\<close>

definition after_last_slash :: "py_str \<Rightarrow> py_str" where
  "after_last_slash s = rev (takeWhile (\<lambda>c. c \<noteq> CHR ''/'') (rev s))"

definition status_is_retryable :: "py_str \<Rightarrow> bool" where
  "status_is_retryable token =
     (if token = STATUS_EMPTY \<or> token = STATUS_TIMEOUT then True
      else if token = STATUS_ERROR then False
      else case py_int (after_last_slash token) of
        None \<Rightarrow> True
      | Some n \<Rightarrow> n = 429 \<or> n \<ge> 500)"

text \<open>A raised call: the name of the exception's class, its status and its \<open>retry_after\<close>.\<close>

record llm_failure =
  fl_class :: py_str
  fl_status :: "int option"
  fl_retry_after :: "rat option"

definition TRANSPORT_EXC_NAMES :: "py_str list" where
  "TRANSPORT_EXC_NAMES = [''TransientLLMFailure'', ''HardLLMFailure'', ''TimeoutError'', ''ReadTimeout'',
     ''ConnectError'', ''ConnectTimeout'', ''RemoteProtocolError'', ''OSError'']"

definition exception_status :: "llm_failure \<Rightarrow> py_str" where
  "exception_status e =
     (if fl_class e \<notin> set TRANSPORT_EXC_NAMES then STATUS_ERROR
      else case fl_status e of Some n \<Rightarrow> show_int n | None \<Rightarrow> STATUS_TIMEOUT)"

section \<open>The retry loop\<close>

abbreviation JUDGE_RETRY_ATTEMPTS :: int where "JUDGE_RETRY_ATTEMPTS \<equiv> 3"
abbreviation JUDGE_RETRY_BASE_S :: rat where "JUDGE_RETRY_BASE_S \<equiv> 2"
abbreviation JUDGE_RETRY_CAP_S :: rat where "JUDGE_RETRY_CAP_S \<equiv> 8"
abbreviation JUDGE_RETRY_JITTER :: rat where "JUDGE_RETRY_JITTER \<equiv> 1 / 4"
abbreviation JUDGE_RETRY_BUDGET_S :: rat where "JUDGE_RETRY_BUDGET_S \<equiv> 45"
abbreviation RETRY_AFTER_CAP_S :: rat where "RETRY_AFTER_CAP_S \<equiv> 30"

text \<open>\<open>u\<close> is the number drawn between \<open>- JUDGE_RETRY_JITTER\<close> and \<open>JUDGE_RETRY_JITTER\<close>.\<close>

definition backoff_delay :: "nat \<Rightarrow> rat option \<Rightarrow> rat \<Rightarrow> rat" where
  "backoff_delay attempt retry_after u =
     (case retry_after of
        Some x \<Rightarrow> if 0 < x then min x RETRY_AFTER_CAP_S
                  else min (JUDGE_RETRY_BASE_S * 2 ^ attempt) JUDGE_RETRY_CAP_S * (1 + u)
      | None \<Rightarrow> min (JUDGE_RETRY_BASE_S * 2 ^ attempt) JUDGE_RETRY_CAP_S * (1 + u))"

datatype answer = Responded llm_response | Raised llm_failure | Cancelled

datatype call_result = Content py_str | Reraised llm_failure | Cancelled_out

text \<open>
  The environment of one call: the answer to each request, how long it took, the jitter drawn
  before each sleep, and how much longer than asked a sleep lasts.
\<close>

record call_env =
  ce_answer :: "nat \<Rightarrow> answer"
  ce_took :: "nat \<Rightarrow> rat"
  ce_jitter :: "nat \<Rightarrow> rat"
  ce_oversleep :: "nat \<Rightarrow> rat"
  ce_float_of :: "py_str \<Rightarrow> rat option"

text \<open>The receipts: one status per request sent, and what was slept before each retry.\<close>

record transport =
  tp_statuses :: "py_str list"
  tp_sleeps :: "rat list"

definition record_status :: "py_str \<Rightarrow> transport \<Rightarrow> transport" where
  "record_status token t = t\<lparr>tp_statuses := tp_statuses t @ [token]\<rparr>"

text \<open>
  What one attempt decides: leave the loop with a result, or go on with the pending exception
  (\<open>last_exc\<close>) and the \<open>retry_after\<close> the provider asked for.
\<close>

datatype attempt_verdict = Leave call_result | Go_on "llm_failure option" "rat option"

definition judge_attempt :: "(py_str \<Rightarrow> rat option) \<Rightarrow> answer \<Rightarrow> transport \<Rightarrow> attempt_verdict \<times> transport" where
  "judge_attempt float_of a t =
     (case a of
        Cancelled \<Rightarrow> (Leave Cancelled_out, t)
      | Raised e \<Rightarrow>
          let token = exception_status e; t = record_status token t in
          if \<not> status_is_retryable token then (Leave (Reraised e), t)
          else (Go_on (Some e) (fl_retry_after e), t)
      | Responded r \<Rightarrow>
          let (token, content, retry_after) = classify_response float_of r; t = record_status token t in
          if token = STATUS_OK then (Leave (Content content), t)
          else if \<not> status_is_retryable token then (Leave (Content []), t)
          else (Go_on None retry_after, t))"

definition after_loop :: "llm_failure option \<Rightarrow> call_result" where
  "after_loop last_exc = (case last_exc of Some e \<Rightarrow> Reraised e | None \<Rightarrow> Content [])"

text \<open>\<open>left\<close> attempts remain, \<open>i\<close> were made, and \<open>elapsed\<close> is \<open>clock() - started\<close>.\<close>

fun retry_loop ::
  "call_env \<Rightarrow> rat \<Rightarrow> nat \<Rightarrow> nat \<Rightarrow> rat \<Rightarrow> llm_failure option \<Rightarrow> transport \<Rightarrow> call_result \<times> transport" where
  "retry_loop env budget 0 i elapsed last_exc t = (after_loop last_exc, t)"
| "retry_loop env budget (Suc left) i elapsed last_exc t =
     (case judge_attempt (ce_float_of env) (ce_answer env i) t of
        (Leave res, t) \<Rightarrow> (res, t)
      | (Go_on exc retry_after, t) \<Rightarrow>
          if left = 0 then (after_loop exc, t)
          else
            let now = elapsed + ce_took env i;
                delay = backoff_delay i retry_after (ce_jitter env i)
            in if now + delay > budget then (after_loop exc, t)
               else retry_loop env budget left (Suc i) (now + delay + ce_oversleep env i) exc
                      (t\<lparr>tp_sleeps := tp_sleeps t @ [delay]\<rparr>))"

definition call_judge_with_retry :: "call_env \<Rightarrow> int \<Rightarrow> rat \<Rightarrow> call_result \<times> transport" where
  "call_judge_with_retry env attempts budget =
     retry_loop env budget (nat (max 1 attempts)) 0 0 None \<lparr>tp_statuses = [], tp_sleeps = []\<rparr>"

subsection \<open>What a call may spend\<close>

definition env_ok :: "call_env \<Rightarrow> bool" where
  "env_ok env \<longleftrightarrow> (\<forall>i. 0 \<le> ce_took env i \<and> 0 \<le> ce_oversleep env i \<and>
     - JUDGE_RETRY_JITTER \<le> ce_jitter env i \<and> ce_jitter env i \<le> JUDGE_RETRY_JITTER)"

lemma backoff_delay_bounds:
  assumes "- JUDGE_RETRY_JITTER \<le> u" "u \<le> JUDGE_RETRY_JITTER"
  shows "0 < backoff_delay i ra u" "backoff_delay i ra u \<le> RETRY_AFTER_CAP_S"
proof -
  let ?base = "min (JUDGE_RETRY_BASE_S * 2 ^ i) JUDGE_RETRY_CAP_S"
  have base: "0 < ?base" "?base \<le> 8"
    by simp_all
  have "0 < ?base * (1 + u)"
    using base(1) assms(1) by (intro mult_pos_pos) simp_all
  moreover have "?base * (1 + u) \<le> 8 * (5 / 4)"
    using base assms by (intro mult_mono) simp_all
  ultimately show "0 < backoff_delay i ra u" "backoff_delay i ra u \<le> RETRY_AFTER_CAP_S"
    by (auto simp: backoff_delay_def split: option.splits)
qed

lemma judge_attempt_receipts:
  "judge_attempt f a t = (v, t') \<Longrightarrow>
     tp_sleeps t' = tp_sleeps t \<and> length (tp_statuses t) \<le> length (tp_statuses t') \<and>
     length (tp_statuses t') \<le> Suc (length (tp_statuses t)) \<and>
     (case v of Go_on exc ra \<Rightarrow> length (tp_statuses t') = Suc (length (tp_statuses t)) | Leave r \<Rightarrow> True)"
  by (auto simp: judge_attempt_def record_status_def Let_def split: answer.splits if_splits prod.splits)

lemma retry_loop_bounds:
  assumes "env_ok env" "retry_loop env budget left i elapsed exc t = (res, t')"
    "sum_list (tp_sleeps t) \<le> elapsed" "sum_list (tp_sleeps t) \<le> budget"
    "\<forall>x \<in> set (tp_sleeps t). 0 < x \<and> x \<le> RETRY_AFTER_CAP_S"
    "length (tp_sleeps t) = length (tp_statuses t)"
  shows "length (tp_statuses t') \<le> length (tp_statuses t) + left \<and>
    sum_list (tp_sleeps t') \<le> budget \<and> length (tp_sleeps t') \<le> length (tp_statuses t') \<and>
    (\<forall>x \<in> set (tp_sleeps t'). 0 < x \<and> x \<le> RETRY_AFTER_CAP_S)"
  using assms
proof (induction env budget left i elapsed exc t rule: retry_loop.induct)
  case (2 env budget left i elapsed exc t)
  obtain v u where a: "judge_attempt (ce_float_of env) (ce_answer env i) t = (v, u)"
    by force
  note receipts = judge_attempt_receipts [OF a]
  show ?case
  proof (cases v)
    case (Leave r)
    with 2 a receipts show ?thesis by auto
  next
    case (Go_on e ra)
    let ?delay = "backoff_delay i ra (ce_jitter env i)"
    let ?now = "elapsed + ce_took env i"
    show ?thesis
    proof (cases "left = 0 \<or> ?now + ?delay > budget")
      case True
      with 2 a receipts Go_on show ?thesis by (auto simp: Let_def split: if_splits)
    next
      case False
      have d: "0 < ?delay" "?delay \<le> RETRY_AFTER_CAP_S" "0 \<le> ce_took env i" "0 \<le> ce_oversleep env i"
        using "2.prems"(1) backoff_delay_bounds [of "ce_jitter env i" i ra]
        unfolding env_ok_def by blast+
      have "length (tp_statuses t') \<le>
          length (tp_statuses (u\<lparr>tp_sleeps := tp_sleeps u @ [?delay]\<rparr>)) + left \<and>
        sum_list (tp_sleeps t') \<le> budget \<and> length (tp_sleeps t') \<le> length (tp_statuses t') \<and>
        (\<forall>x \<in> set (tp_sleeps t'). 0 < x \<and> x \<le> RETRY_AFTER_CAP_S)"
        using 2(2-) a receipts Go_on False d
        by (intro "2.IH" [OF a [symmetric] Go_on _ refl refl]) (auto simp: Let_def)
      with receipts Go_on show ?thesis by simp
    qed
  qed
qed auto

text \<open>One call sends at most three requests (and at least one unless it is cancelled), never
  sleeps more than the budget in total nor more than thirty seconds at once, whatever the model
  answers, and sleeps only between requests.
\<close>

theorem judge_call_bounded:
  assumes "env_ok env" "0 \<le> budget"
    "call_judge_with_retry env attempts budget = (res, t)"
  shows "length (tp_statuses t) \<le> nat (max 1 attempts) \<and> sum_list (tp_sleeps t) \<le> budget \<and>
    length (tp_sleeps t) \<le> length (tp_statuses t) \<and>
    (\<forall>x \<in> set (tp_sleeps t). 0 < x \<and> x \<le> RETRY_AFTER_CAP_S)"
  using retry_loop_bounds [OF assms(1) assms(3) [unfolded call_judge_with_retry_def]] assms(2) by simp

definition busy_then_fine :: call_env where
  "busy_then_fine = \<lparr>ce_answer = (\<lambda>i. if i = 0
      then Responded \<lparr>rs_content = None,
        rs_raw_response = Some (J_object [(''error'', J_object [(''code'', J_int 502)])])\<rparr>
      else Responded \<lparr>rs_content = Some ''{}'', rs_raw_response = None\<rparr>),
    ce_took = (\<lambda>_. 3), ce_jitter = (\<lambda>_. 0), ce_oversleep = (\<lambda>_. 0), ce_float_of = (\<lambda>_. None)\<rparr>"

lemma busy_then_fine_ok: "env_ok busy_then_fine"
  by (simp add: env_ok_def busy_then_fine_def)

lemma show_502: "show_int 502 = ''502''"
  by (simp add: show_int_def show_nat.simps) (simp add: char_of_def bit_Suc_0_iff)

lemma busy_then_fine_run:
  "call_judge_with_retry busy_then_fine 3 45 =
     (Content ''{}'', \<lparr>tp_statuses = [''200/502'', ''200''], tp_sleeps = [2]\<rparr>)"
  by (simp add: call_judge_with_retry_def busy_then_fine_def judge_attempt_def classify_response_def
      envelope_error_def envelope_code_def envelope_retry_after_def record_status_def
      show_502 status_is_retryable_def after_last_slash_def py_int_def py_nat_def
      py_strip_def py_space_def backoff_delay_def eval_nat_numeral)

theorem judge_call_bounded_witness:
  "length (tp_statuses (snd (call_judge_with_retry busy_then_fine 3 45))) \<le> nat (max 1 3) \<and>
   sum_list (tp_sleeps (snd (call_judge_with_retry busy_then_fine 3 45))) \<le> 45"
  using judge_call_bounded [OF busy_then_fine_ok _ busy_then_fine_run] by (simp add: busy_then_fine_run)

subsection \<open>What a call returns\<close>

definition answers_ok :: "(py_str \<Rightarrow> rat option) \<Rightarrow> answer \<Rightarrow> py_str \<Rightarrow> bool" where
  "answers_ok f a c = (\<exists>r ra. a = Responded r \<and> classify_response f r = (STATUS_OK, c, ra))"

definition retryable_answer :: "(py_str \<Rightarrow> rat option) \<Rightarrow> answer \<Rightarrow> bool" where
  "retryable_answer f a =
     (case a of
        Cancelled \<Rightarrow> False
      | Raised e \<Rightarrow> status_is_retryable (exception_status e)
      | Responded r \<Rightarrow>
          (let token = fst (classify_response f r) in token \<noteq> STATUS_OK \<and> status_is_retryable token))"

lemma judge_attempt_cases:
  "judge_attempt f a t = (v, t') \<Longrightarrow>
     (case v of
        Go_on exc ra \<Rightarrow> retryable_answer f a
      | Leave r \<Rightarrow> \<not> retryable_answer f a \<and> (\<forall>c. r = Content c \<longrightarrow> c \<noteq> [] \<longrightarrow> answers_ok f a c))"
  by (auto simp: judge_attempt_def retryable_answer_def answers_ok_def Let_def
      split: answer.splits if_splits prod.splits)

lemma after_loop_content [simp]: "after_loop exc = Content c \<longleftrightarrow> exc = None \<and> c = []"
  by (auto simp: after_loop_def split: option.splits)

lemma retry_loop_content:
  assumes "retry_loop env budget left i elapsed exc t = (Content c, t')" "c \<noteq> []"
  shows "\<exists>k \<ge> i. k < i + left \<and> answers_ok (ce_float_of env) (ce_answer env k) c \<and>
    (\<forall>j \<in> {i..<k}. retryable_answer (ce_float_of env) (ce_answer env j))"
  using assms
proof (induction env budget left i elapsed exc t rule: retry_loop.induct)
  case (1 env budget i elapsed exc t)
  then show ?case by simp
next
  case (2 env budget left i elapsed exc t)
  obtain v u where a: "judge_attempt (ce_float_of env) (ce_answer env i) t = (v, u)"
    by force
  note facts = judge_attempt_cases [OF a]
  show ?case
  proof (cases v)
    case (Leave r)
    with 2(2,3) a facts have "answers_ok (ce_float_of env) (ce_answer env i) c"
      by auto
    then show ?thesis by (intro exI [of _ i]) simp
  next
    case (Go_on e ra)
    let ?delay = "backoff_delay i ra (ce_jitter env i)"
    have go: "\<not> (left = 0 \<or> elapsed + ce_took env i + ?delay > budget)"
      using 2(2,3) a Go_on by (auto simp: Let_def split: if_splits)
    have "\<exists>k \<ge> Suc i. k < Suc i + left \<and> answers_ok (ce_float_of env) (ce_answer env k) c \<and>
        (\<forall>j \<in> {Suc i..<k}. retryable_answer (ce_float_of env) (ce_answer env j))"
      using 2(2,3) a Go_on go
      by (intro "2.IH" [OF a [symmetric] Go_on _ refl refl]) (auto simp: Let_def)
    then obtain k where k: "Suc i \<le> k" "k < Suc i + left"
      "answers_ok (ce_float_of env) (ce_answer env k) c"
      "\<And>j. j \<in> {Suc i..<k} \<Longrightarrow> retryable_answer (ce_float_of env) (ce_answer env j)"
      by blast
    have "retryable_answer (ce_float_of env) (ce_answer env j)" if "j \<in> {i..<k}" for j
      using that k(4) [of j] facts Go_on by (cases "j = i") auto
    with k show ?thesis by (intro exI [of _ k]) auto
  qed
qed

text \<open>
  Content is returned only from a response that carries content and no error envelope, after
  answers that were all worth another request.
\<close>

lemma judge_call_content:
  assumes "call_judge_with_retry env attempts budget = (Content c, t)" "c \<noteq> []"
  shows "\<exists>k < nat (max 1 attempts). answers_ok (ce_float_of env) (ce_answer env k) c \<and>
    (\<forall>j < k. retryable_answer (ce_float_of env) (ce_answer env j))"
  using retry_loop_content [OF assms(1) [unfolded call_judge_with_retry_def] assms(2)] by auto

text \<open>
  The budget is compared with the time since the call began, the requests included, not with
  what was slept. A request that takes as long as the budget is never repeated.
\<close>

definition timed_out :: "call_env \<Rightarrow> bool" where
  "timed_out env \<longleftrightarrow> (\<exists>e. ce_answer env 0 = Raised e \<and> exception_status e = STATUS_TIMEOUT)"

text \<open>A timeout after a request as long as the budget gets no retry, although a timeout is
  retryable: the call sends one request, sleeps nothing, and raises the timeout.
\<close>

theorem long_timeout_not_retried:
  assumes "env_ok env" "timed_out env" "ce_took env 0 \<ge> JUDGE_RETRY_BUDGET_S"
  shows "status_is_retryable STATUS_TIMEOUT \<and>
    (\<exists>e. ce_answer env 0 = Raised e \<and>
      call_judge_with_retry env JUDGE_RETRY_ATTEMPTS JUDGE_RETRY_BUDGET_S =
        (Reraised e, \<lparr>tp_statuses = [STATUS_TIMEOUT], tp_sleeps = []\<rparr>))"
proof -
  obtain e where e: "ce_answer env 0 = Raised e" "exception_status e = STATUS_TIMEOUT"
    using assms(2) by (auto simp: timed_out_def)
  have "0 < backoff_delay 0 (fl_retry_after e) (ce_jitter env 0)"
    using assms(1) by (intro backoff_delay_bounds) (simp_all add: env_ok_def)
  then have "ce_took env 0 + backoff_delay 0 (fl_retry_after e) (ce_jitter env 0) > JUDGE_RETRY_BUDGET_S"
    using assms(3) by linarith
  then show ?thesis
    by (simp add: call_judge_with_retry_def judge_attempt_def e status_is_retryable_def
        record_status_def after_loop_def eval_nat_numeral)
qed

definition hanging :: call_env where
  "hanging = \<lparr>ce_answer = (\<lambda>_. Raised \<lparr>fl_class = ''ReadTimeout'', fl_status = None, fl_retry_after = None\<rparr>),
     ce_took = (\<lambda>_. 120), ce_jitter = (\<lambda>_. 0), ce_oversleep = (\<lambda>_. 0), ce_float_of = (\<lambda>_. None)\<rparr>"

theorem long_timeout_not_retried_witness:
  "\<exists>e. tp_statuses (snd (call_judge_with_retry hanging 3 45)) = [STATUS_TIMEOUT] \<and>
     ce_answer hanging 0 = Raised e"
proof -
  have "env_ok hanging" "timed_out hanging" "ce_took hanging 0 \<ge> JUDGE_RETRY_BUDGET_S"
    by (simp_all add: env_ok_def timed_out_def hanging_def exception_status_def TRANSPORT_EXC_NAMES_def)
  from long_timeout_not_retried [OF this] show ?thesis by auto
qed

section \<open>The objects in a reply\<close>

text \<open>The first occurrence of a pattern: what stands before it and what follows it.\<close>

fun find_sub :: "py_str \<Rightarrow> py_str \<Rightarrow> (py_str \<times> py_str) option" where
  "find_sub pat [] = (if pat = [] then Some ([], []) else None)"
| "find_sub pat (c # cs) =
     (if take (length pat) (c # cs) = pat then Some ([], drop (length pat) (c # cs))
      else map_option (\<lambda>(b, a). (c # b, a)) (find_sub pat cs))"

text \<open>
  The fenced block that the regular expression finds: between the first three backticks and the
  next ones, without the word \<^verbatim>\<open>json\<close> at its start, stripped.
\<close>

definition fenced :: "py_str \<Rightarrow> py_str option" where
  "fenced s =
     (case find_sub ''```'' s of
        None \<Rightarrow> None
      | Some (_, rest) \<Rightarrow>
          (case find_sub ''```'' rest of
             None \<Rightarrow> None
           | Some (body, _) \<Rightarrow>
               Some (py_strip (if py_lower (take 4 body) = ''json'' then drop 4 body else body))))"

text \<open>
  The inner loop: from an opening brace to the brace that balances it, with string literals
  skipped. The result is the object and the text after it.
\<close>

definition scan_step :: "nat \<Rightarrow> bool \<Rightarrow> bool \<Rightarrow> char \<Rightarrow> (nat \<times> bool \<times> bool) option" where
  "scan_step depth in_str escaped ch =
     (if in_str then
        (if escaped then Some (depth, True, False)
         else if ch = CHR 0x5C then Some (depth, True, True)
         else if ch = CHR 0x22 then Some (depth, False, False)
         else Some (depth, True, False))
      else if ch = CHR 0x22 then Some (depth, True, escaped)
      else if ch = CHR ''{'' then Some (depth + 1, False, escaped)
      else if ch = CHR ''}'' then (if depth - 1 = 0 then None else Some (depth - 1, False, escaped))
      else Some (depth, False, escaped))"

fun scan_object :: "nat \<Rightarrow> bool \<Rightarrow> bool \<Rightarrow> py_str \<Rightarrow> (py_str \<times> py_str) option" where
  "scan_object depth in_str escaped [] = None"
| "scan_object depth in_str escaped (ch # cs) =
     (case scan_step depth in_str escaped ch of
        None \<Rightarrow> Some ([ch], cs)
      | Some (d, s, e) \<Rightarrow> map_option (\<lambda>(b, a). (ch # b, a)) (scan_object d s e cs))"

lemma scan_object_splits: "scan_object d s e cs = Some (b, a) \<Longrightarrow> cs = b @ a \<and> b \<noteq> []"
proof (induction cs arbitrary: d s e b a)
  case (Cons c cs)
  then show ?case by (fastforce split: option.splits)
qed simp

lemma scan_object_shorter: "scan_object d s e cs = Some (b, a) \<Longrightarrow> length a < length cs"
  using scan_object_splits by fastforce

function extract_from :: "(py_str \<Rightarrow> json option) \<Rightarrow> py_str \<Rightarrow> json_dict list" where
  "extract_from loads [] = []"
| "extract_from loads (c # cs) =
     (if c \<noteq> CHR ''{'' then extract_from loads cs
      else case scan_object 0 False False (c # cs) of
        None \<Rightarrow> []
      | Some (obj, rest) \<Rightarrow>
          (case loads obj of Some (J_object d) \<Rightarrow> [d] | _ \<Rightarrow> []) @ extract_from loads rest)"
  by pat_completeness auto

termination
  by (relation "measure (length \<circ> snd)") (auto dest!: scan_object_shorter simp del: scan_object.simps)

definition extract_json_objects :: "(py_str \<Rightarrow> json option) \<Rightarrow> py_str \<Rightarrow> json_dict list" where
  "extract_json_objects loads text =
     (if text = [] then []
      else extract_from loads (case fenced (py_strip text) of Some b \<Rightarrow> b | None \<Rightarrow> py_strip text))"

section \<open>Which claim a verdict belongs to\<close>

definition VERDICT_ID_KEYS :: "py_str list" where
  "VERDICT_ID_KEYS = [''claim'', ''claim_index'', ''claim_id'', ''claim_no'', ''claim_number'',
     ''index'', ''idx'', ''number'', ''no'', ''n'', ''id'', ''i'']"

definition VERDICT_VALUE_KEYS :: "py_str list" where
  "VERDICT_VALUE_KEYS = [''verdict'', ''value'', ''label'', ''grade'', ''result'', ''v'']"

definition VERDICT_QUOTE_KEYS :: "py_str list" where
  "VERDICT_QUOTE_KEYS = [''quote'', ''evidence'', ''span'']"

definition VERDICT_ID_SIDECARS :: "py_str list" where
  "VERDICT_ID_SIDECARS = [''claim_indices'', ''claim_ids'', ''claim_numbers'', ''claims'', ''indices'']"

definition partial_verdict_budget :: "nat \<Rightarrow> nat" where
  "partial_verdict_budget n_claims = max 2 ((n_claims + 9) div 10)"

text \<open>
  The number of \<open>_CLAIM_ORDINAL_RE\<close>: hash signs and blanks, one to four digits, blanks, at most
  one closing mark.
\<close>

definition ordinal_text :: "py_str \<Rightarrow> nat option" where
  "ordinal_text s =
     (let u = dropWhile (\<lambda>c. c = CHR ''#'' \<or> py_space c) (py_strip s);
          digits = takeWhile digit_char u;
          rest = dropWhile py_space (dropWhile digit_char u)
      in if 1 \<le> length digits \<and> length digits \<le> 4 \<and>
            (rest = [] \<or> (length rest = 1 \<and> hd rest \<in> set ''.):]''))
         then Some (nat_of_digits digits) else None)"

fun claim_ordinal :: "json \<Rightarrow> nat \<Rightarrow> nat option" where
  "claim_ordinal (J_int n) n_claims =
     (if 1 \<le> n \<and> n \<le> int n_claims then Some (nat n - 1) else None)"
| "claim_ordinal (J_str s) n_claims =
     (case ordinal_text s of
        None \<Rightarrow> None
      | Some n \<Rightarrow> if 1 \<le> n \<and> n \<le> n_claims then Some (n - 1) else None)"
| "claim_ordinal _ n_claims = None"

text \<open>\<open>first_key\<close>: the value of the first of the keys that the dict has.\<close>

definition first_key :: "py_str list \<Rightarrow> json_dict \<Rightarrow> json option" where
  "first_key ks d = map_option (\<lambda>k. the (map_of d k)) (find (\<lambda>k. map_of d k \<noteq> None) ks)"

fun entry_verdict :: "json \<Rightarrow> json" where
  "entry_verdict (J_object d) = (case first_key VERDICT_VALUE_KEYS d of Some v \<Rightarrow> v | None \<Rightarrow> J_str [])"
| "entry_verdict v = v"

fun first_quote :: "py_str list \<Rightarrow> json_dict \<Rightarrow> py_str option" where
  "first_quote [] d = None"
| "first_quote (k # ks) d = (case map_of d k of Some (J_str q) \<Rightarrow> Some q | _ \<Rightarrow> first_quote ks d)"

fun entry_quote :: "json \<Rightarrow> py_str option" where
  "entry_quote (J_object d) = first_quote VERDICT_QUOTE_KEYS d"
| "entry_quote _ = None"

fun first_ordinal :: "py_str list \<Rightarrow> json_dict \<Rightarrow> nat \<Rightarrow> nat option" where
  "first_ordinal [] d n = None"
| "first_ordinal (k # ks) d n =
     (case Option.bind (map_of d k) (\<lambda>v. claim_ordinal v n) of
        Some i \<Rightarrow> Some i
      | None \<Rightarrow> first_ordinal ks d n)"

fun entry_index :: "json \<Rightarrow> nat \<Rightarrow> nat option" where
  "entry_index (J_object d) n = first_ordinal VERDICT_ID_KEYS d n"
| "entry_index _ n = None"

fun sidecar_indices :: "py_str list \<Rightarrow> nat \<Rightarrow> json_dict \<Rightarrow> nat \<Rightarrow> nat list option" where
  "sidecar_indices [] len parsed n = None"
| "sidecar_indices (k # ks) len parsed n =
     (case map_of parsed k of
        Some (J_list sidecar) \<Rightarrow>
          if length sidecar \<noteq> len then sidecar_indices ks len parsed n
          else (case those (map (\<lambda>v. claim_ordinal v n) sidecar) of
                  Some cand \<Rightarrow> Some cand
                | None \<Rightarrow> sidecar_indices ks len parsed n)
      | _ \<Rightarrow> sidecar_indices ks len parsed n)"

definition verdict_claim_indices :: "json list \<Rightarrow> json_dict \<Rightarrow> nat \<Rightarrow> nat list option" where
  "verdict_claim_indices raw parsed n =
     (if raw = [] then None
      else
        let idx = (case those (map (\<lambda>e. entry_index e n) raw) of
                     Some is \<Rightarrow> Some is
                   | None \<Rightarrow> sidecar_indices VERDICT_ID_SIDECARS (length raw) parsed n)
        in case idx of
             None \<Rightarrow> None
           | Some is \<Rightarrow> if distinct is then Some is else None)"

abbreviation ALIGNED_BY_CLAIM_INDEX :: py_str where "ALIGNED_BY_CLAIM_INDEX \<equiv> ''claim_index''"
abbreviation ALIGNED_BY_POSITIONAL :: py_str where "ALIGNED_BY_POSITIONAL \<equiv> ''positional''"

datatype verdict_error = Count_mismatch nat nat | Over_partial_budget nat nat nat

type_synonym slot = "(json \<times> py_str) option"

fun quote_text :: "json \<Rightarrow> py_str" where
  "quote_text (J_str q) = q"
| "quote_text _ = []"

definition parallel_quotes :: "nat \<Rightarrow> json_dict \<Rightarrow> py_str list" where
  "parallel_quotes len parsed =
     (case map_of parsed ''quotes'' of
        Some (J_list qs) \<Rightarrow> if length qs = len then map quote_text qs else replicate len []
      | _ \<Rightarrow> replicate len [])"

definition slot_of :: "json \<Rightarrow> py_str \<Rightarrow> slot" where
  "slot_of entry quote =
     Some (entry_verdict entry, case entry_quote entry of Some own \<Rightarrow> own | None \<Rightarrow> quote)"

fun fill_slots :: "(json \<times> py_str \<times> nat) list \<Rightarrow> slot list \<Rightarrow> slot list" where
  "fill_slots [] slots = slots"
| "fill_slots ((entry, quote, i) # es) slots = fill_slots es (slots[i := slot_of entry quote])"

definition align_verdicts ::
  "json list \<Rightarrow> json_dict \<Rightarrow> nat \<Rightarrow> verdict_error + (slot list \<times> nat list \<times> py_str)" where
  "align_verdicts raw parsed n =
     (let place = (\<lambda>ids how.
            let slots = fill_slots (zip raw (zip (parallel_quotes (length raw) parsed) ids)) (replicate n None)
            in Inr (slots, filter (\<lambda>i. slots ! i = None) [0..<n], how))
      in case verdict_claim_indices raw parsed n of
           None \<Rightarrow>
             if length raw \<noteq> n then Inl (Count_mismatch (length raw) n)
             else place [0..<n] ALIGNED_BY_POSITIONAL
         | Some ids \<Rightarrow>
             if int n - int (length raw) > int (partial_verdict_budget n)
             then Inl (Over_partial_budget (length raw) n (partial_verdict_budget n))
             else place ids ALIGNED_BY_CLAIM_INDEX)"

subsection \<open>Every verdict reaches the claim it names\<close>

lemma claim_ordinal_bound: "claim_ordinal v n = Some i \<Longrightarrow> i < n"
  by (cases v) (auto split: if_splits option.splits)

lemma first_ordinal_bound: "first_ordinal ks d n = Some i \<Longrightarrow> i < n"
  by (induction ks) (auto split: option.splits simp: bind_eq_Some_conv claim_ordinal_bound)

lemma entry_index_bound: "entry_index e n = Some i \<Longrightarrow> i < n"
  by (cases e) (auto intro: first_ordinal_bound)

lemma those_Some: "those xs = Some ys \<longleftrightarrow> xs = map Some ys"
  by (induction xs arbitrary: ys) (auto split: option.splits simp: Cons_eq_map_conv)

lemma those_map_Some:
  "those (map f xs) = Some ys \<longleftrightarrow> length ys = length xs \<and> (\<forall>k < length xs. f (xs ! k) = Some (ys ! k))"
  unfolding those_Some by (auto simp: list_eq_iff_nth_eq)

lemma sidecar_indices_facts:
  "sidecar_indices ks len parsed n = Some ids \<Longrightarrow>
     length ids = len \<and> (\<forall>i \<in> set ids. i < n) \<and>
     (\<exists>k \<in> set ks. \<exists>sc. map_of parsed k = Some (J_list sc) \<and> length sc = len \<and>
        (\<forall>j < len. claim_ordinal (sc ! j) n = Some (ids ! j)))"
proof (induction ks)
  case (Cons k ks)
  have here: ?case
    if "map_of parsed k = Some (J_list sc)" "length sc = len"
      "those (map (\<lambda>v. claim_ordinal v n) sc) = Some ids" for sc
  proof -
    have "length ids = len" "\<forall>j < len. claim_ordinal (sc ! j) n = Some (ids ! j)"
      using that by (auto simp: those_map_Some)
    moreover from this have "\<forall>i \<in> set ids. i < n"
      by (metis claim_ordinal_bound in_set_conv_nth)
    ultimately show ?case
      using that by auto
  qed
  show ?case
  proof (cases "sidecar_indices ks len parsed n = Some ids")
    case True
    with Cons.IH show ?thesis by auto
  next
    case False
    with Cons.prems obtain sc where "map_of parsed k = Some (J_list sc)" "length sc = len"
      "those (map (\<lambda>v. claim_ordinal v n) sc) = Some ids"
      by (auto split: option.splits json.splits if_splits)
    then show ?thesis by (rule here)
  qed
qed simp

text \<open>Which claims the entries of a reply name: themselves, or an array beside them.\<close>

definition entries_name :: "json list \<Rightarrow> nat \<Rightarrow> nat list \<Rightarrow> bool" where
  "entries_name raw n ids \<longleftrightarrow>
     length ids = length raw \<and> (\<forall>j < length raw. entry_index (raw ! j) n = Some (ids ! j))"

definition sidecar_names :: "json list \<Rightarrow> json_dict \<Rightarrow> nat \<Rightarrow> nat list \<Rightarrow> bool" where
  "sidecar_names raw parsed n ids \<longleftrightarrow>
     length ids = length raw \<and>
     (\<exists>k \<in> set VERDICT_ID_SIDECARS. \<exists>sc. map_of parsed k = Some (J_list sc) \<and>
        length sc = length raw \<and> (\<forall>j < length raw. claim_ordinal (sc ! j) n = Some (ids ! j)))"

definition names_claims :: "json list \<Rightarrow> json_dict \<Rightarrow> nat \<Rightarrow> nat list \<Rightarrow> bool" where
  "names_claims raw parsed n ids \<longleftrightarrow>
     length ids = length raw \<and> distinct ids \<and> (\<forall>i \<in> set ids. i < n) \<and>
     (entries_name raw n ids \<or> sidecar_names raw parsed n ids)"

lemma verdict_claim_indices_name:
  assumes "verdict_claim_indices raw parsed n = Some ids"
  shows "raw \<noteq> []" "names_claims raw parsed n ids"
proof -
  show "raw \<noteq> []"
    using assms by (auto simp: verdict_claim_indices_def)
  have d: "distinct ids"
    using assms by (auto simp: verdict_claim_indices_def Let_def split: if_splits option.splits)
  have "those (map (\<lambda>e. entry_index e n) raw) = Some ids \<or>
      sidecar_indices VERDICT_ID_SIDECARS (length raw) parsed n = Some ids"
    using assms by (auto simp: verdict_claim_indices_def Let_def split: if_splits option.splits)
  then show "names_claims raw parsed n ids"
  proof
    assume t: "those (map (\<lambda>e. entry_index e n) raw) = Some ids"
    then show ?thesis
      using d entry_index_bound unfolding names_claims_def entries_name_def
      by (fastforce simp: those_map_Some in_set_conv_nth)
  next
    assume "sidecar_indices VERDICT_ID_SIDECARS (length raw) parsed n = Some ids"
    from sidecar_indices_facts [OF this] d show ?thesis
      unfolding names_claims_def sidecar_names_def by blast
  qed
qed

lemma sidecar_indices_None:
  "sidecar_indices ks (length raw) parsed n = None \<Longrightarrow> set ks = set VERDICT_ID_SIDECARS
     \<Longrightarrow> \<not> sidecar_names raw parsed n ids"
proof -
  have "sidecar_indices ks (length raw) parsed n \<noteq> None"
    if "k \<in> set ks" "map_of parsed k = Some (J_list sc)" "length sc = length raw"
      "\<forall>j < length raw. claim_ordinal (sc ! j) n = Some (ids ! j)" "length ids = length raw" for k sc ks
    using that(1)
  proof (induction ks)
    case (Cons k' ks)
    have "those (map (\<lambda>v. claim_ordinal v n) sc) = Some ids"
      using that(3-5) by (simp add: those_map_Some)
    with Cons that(2,3) show ?case
      by (cases "k = k'") (auto split: option.splits json.splits)
  qed simp
  then show "sidecar_indices ks (length raw) parsed n = None \<Longrightarrow> set ks = set VERDICT_ID_SIDECARS
     \<Longrightarrow> \<not> sidecar_names raw parsed n ids"
    unfolding sidecar_names_def by blast
qed

text \<open>
  No numbers are read: of the two ways to name all claims, none is there, or the one that is
  read names a claim twice. Entries that name all their claims, once each, are read.
\<close>

lemma verdict_claim_indices_None:
  assumes "verdict_claim_indices raw parsed n = None" "raw \<noteq> []"
  shows "entries_name raw n ids \<Longrightarrow> \<not> distinct ids"
    and "sidecar_names raw parsed n ids \<Longrightarrow> distinct ids
      \<Longrightarrow> \<exists>ids'. \<not> distinct ids' \<and> (entries_name raw n ids' \<or> sidecar_names raw parsed n ids')"
proof -
  have read: "those (map (\<lambda>e. entry_index e n) raw) = Some ids' \<longleftrightarrow> entries_name raw n ids'" for ids'
    by (auto simp: entries_name_def those_map_Some)
  show "entries_name raw n ids \<Longrightarrow> \<not> distinct ids"
    using assms by (auto simp: read [symmetric] verdict_claim_indices_def split: if_splits)
  assume s: "sidecar_names raw parsed n ids" "distinct ids"
  show "\<exists>ids'. \<not> distinct ids' \<and> (entries_name raw n ids' \<or> sidecar_names raw parsed n ids')"
  proof (cases "those (map (\<lambda>e. entry_index e n) raw)")
    case (Some ids')
    then have "\<not> distinct ids'"
      using assms by (auto simp: verdict_claim_indices_def split: if_splits)
    then show ?thesis using Some by (auto simp: read)
  next
    case None
    then obtain ids' where ids': "sidecar_indices VERDICT_ID_SIDECARS (length raw) parsed n = Some ids'"
      using sidecar_indices_None [of VERDICT_ID_SIDECARS raw parsed n ids] s(1) by auto
    then have "sidecar_names raw parsed n ids'"
      using sidecar_indices_facts [OF ids'] by (auto simp: sidecar_names_def)
    moreover have "\<not> distinct ids'"
      using assms None ids' by (auto simp: verdict_claim_indices_def split: if_splits)
    ultimately show ?thesis by blast
  qed
qed

lemma fill_slots_length [simp]: "length (fill_slots es slots) = length slots"
  by (induction es slots rule: fill_slots.induct) auto

lemma fill_slots_other:
  "i \<notin> (snd \<circ> snd) ` set es \<Longrightarrow> fill_slots es slots ! i = slots ! i"
  by (induction es slots rule: fill_slots.induct) (auto simp: nth_list_update)

lemma fill_slots_own:
  assumes "distinct (map (snd \<circ> snd) es)" "\<forall>e \<in> set es. snd (snd e) < length slots" "(e, q, i) \<in> set es"
  shows "fill_slots es slots ! i = slot_of e q"
  using assms
proof (induction es slots rule: fill_slots.induct)
  case (2 entry quote j es slots)
  show ?case
  proof (cases "(e, q, i) = (entry, quote, j)")
    case True
    with 2(2,3) show ?thesis
      by (auto simp: fill_slots_other)
  next
    case False
    with 2 show ?thesis by auto
  qed
qed simp

lemma filled:
  fixes qs :: "py_str list"
  assumes "length ids = length raw" "length qs = length raw" "distinct ids" "\<forall>i \<in> set ids. i < n"
  defines "slots \<equiv> fill_slots (zip raw (zip qs ids)) (replicate n None)"
  shows "\<forall>j < length raw. slots ! (ids ! j) = slot_of (raw ! j) (qs ! j)"
    "\<forall>i < n. i \<notin> set ids \<longrightarrow> slots ! i = None"
    "filter (\<lambda>i. slots ! i = None) [0..<n] = filter (\<lambda>i. i \<notin> set ids) [0..<n]"
proof -
  have ids: "map (snd \<circ> snd) (zip raw (zip qs ids)) = ids"
    using assms(1,2) by (simp add: map_zip_map2 zip_map2 comp_def) (simp add: list_eq_iff_nth_eq)
  have bound: "\<forall>e \<in> set (zip raw (zip qs ids)). snd (snd e) < n"
    using assms(4) by (fastforce dest: set_zip_rightD)
  show own: "\<forall>j < length raw. slots ! (ids ! j) = slot_of (raw ! j) (qs ! j)"
  proof (intro allI impI)
    fix j assume "j < length raw"
    then have "(raw ! j, qs ! j, ids ! j) \<in> set (zip raw (zip qs ids))"
      using assms(1,2) by (auto simp: set_zip)
    then show "slots ! (ids ! j) = slot_of (raw ! j) (qs ! j)"
      unfolding slots_def using assms(3) ids bound by (intro fill_slots_own) simp_all
  qed
  show other: "\<forall>i < n. i \<notin> set ids \<longrightarrow> slots ! i = None"
  proof (intro allI impI)
    fix i assume i: "i < n" "i \<notin> set ids"
    then have "i \<notin> (snd \<circ> snd) ` set (zip raw (zip qs ids))"
      using ids by (metis list.set_map)
    then show "slots ! i = None"
      using i(1) by (simp add: slots_def fill_slots_other)
  qed
  have "slots ! i = None \<longleftrightarrow> i \<notin> set ids" if "i < n" for i
    using that own other assms(1) by (auto simp: in_set_conv_nth slot_of_def)
  then show "filter (\<lambda>i. slots ! i = None) [0..<n] = filter (\<lambda>i. i \<notin> set ids) [0..<n]"
    by (intro filter_cong) auto
qed

lemma unnamed_count:
  assumes "distinct ids" "\<forall>i \<in> set ids. i < n"
  shows "length (filter (\<lambda>i. i \<notin> set ids) [0..<n]) = n - length ids"
proof -
  have "set (filter (\<lambda>i. i \<notin> set ids) [0..<n]) = {..<n} - set ids"
    by auto
  then have "length (filter (\<lambda>i. i \<notin> set ids) [0..<n]) = card ({..<n} - set ids)"
    by (metis distinct_card distinct_filter distinct_upt)
  also have "\<dots> = n - length ids"
    using assms by (simp add: card_Diff_subset distinct_card subset_eq)
  finally show ?thesis .
qed

lemma length_parallel_quotes [simp]: "length (parallel_quotes len parsed) = len"
  by (simp add: parallel_quotes_def split: option.splits json.splits)

definition slots_of_ids :: "json list \<Rightarrow> json_dict \<Rightarrow> nat \<Rightarrow> nat list \<Rightarrow> slot list" where
  "slots_of_ids raw parsed n ids =
     fill_slots (zip raw (zip (parallel_quotes (length raw) parsed) ids)) (replicate n None)"

lemma align_verdicts_cases:
  assumes "align_verdicts raw parsed n = Inr (slots, missing, how)"
  obtains (positional) "verdict_claim_indices raw parsed n = None" "length raw = n"
      "how = ALIGNED_BY_POSITIONAL" "slots = slots_of_ids raw parsed n [0..<n]"
      "missing = filter (\<lambda>i. slots ! i = None) [0..<n]"
    | (named) ids where "verdict_claim_indices raw parsed n = Some ids" "how = ALIGNED_BY_CLAIM_INDEX"
      "int n - int (length raw) \<le> int (partial_verdict_budget n)"
      "slots = slots_of_ids raw parsed n ids" "missing = filter (\<lambda>i. slots ! i = None) [0..<n]"
  using assms by (auto simp: align_verdicts_def slots_of_ids_def Let_def split: option.splits if_splits)

lemma verdicts_length: "align_verdicts raw parsed n = Inr (slots, missing, how) \<Longrightarrow> length slots = n"
  by (erule align_verdicts_cases) (simp_all add: slots_of_ids_def)

text \<open>C34: When the judge's reply is read, there is one slot for each claim. If the verdicts are
  placed by number, all are named, once each, every verdict stands in the slot of the claim it
  names, and the claims without a verdict are those that none names, within the budget. If they
  are placed by position, there is one for each claim, each stands at its position, and the reply
  does not name all claims: no list of the entries' own numbers names them once each, and if an
  array beside them does, then a naming that is read before it names a claim twice. So a reply
  whose entries name all their claims, once each, is never placed by position; one that names
  only some of them is, also where a verdict names another claim.
\<close>

theorem verdicts_reach_named_claims:
  assumes "align_verdicts raw parsed n = Inr (slots, missing, how)"
  shows "length slots = n \<and> missing = filter (\<lambda>i. slots ! i = None) [0..<n] \<and>
    (how = ALIGNED_BY_POSITIONAL \<and> missing = [] \<and> length raw = n \<and>
       (\<forall>j < n. \<exists>q. slots ! j = slot_of (raw ! j) q) \<and>
       (raw \<noteq> [] \<longrightarrow>
          \<not> (\<exists>ids. distinct ids \<and> entries_name raw n ids) \<and>
          ((\<exists>ids. distinct ids \<and> sidecar_names raw parsed n ids) \<longrightarrow>
             (\<exists>ids. \<not> distinct ids \<and> (entries_name raw n ids \<or> sidecar_names raw parsed n ids)))) \<or>
     how = ALIGNED_BY_CLAIM_INDEX \<and>
       (\<exists>ids. names_claims raw parsed n ids \<and> set missing = {..<n} - set ids \<and>
          length missing = n - length raw \<and> length missing \<le> partial_verdict_budget n \<and>
          (\<forall>j < length raw. \<exists>q. slots ! (ids ! j) = slot_of (raw ! j) q)))"
  using assms
proof (cases rule: align_verdicts_cases)
  case positional
  note f = filled [of "[0..<n]" raw "parallel_quotes (length raw) parsed" n, folded slots_of_ids_def]
  have "\<forall>j < n. slots ! j = slot_of (raw ! j) (parallel_quotes (length raw) parsed ! j)"
    using f(1) positional by simp
  moreover have "missing = []"
    using f(3) positional by (simp add: filter_empty_conv)
  moreover note verdict_claim_indices_None [OF positional(1)]
  ultimately show ?thesis
    using positional by (auto simp: slots_of_ids_def)
next
  case (named ids)
  have ids: "names_claims raw parsed n ids"
    by (rule verdict_claim_indices_name(2)) fact
  note f = filled [of ids raw "parallel_quotes (length raw) parsed" n, folded slots_of_ids_def]
  have placed: "\<forall>j < length raw. slots ! (ids ! j) = slot_of (raw ! j) (parallel_quotes (length raw) parsed ! j)"
    using f(1) ids named by (simp add: names_claims_def)
  have missing: "missing = filter (\<lambda>i. i \<notin> set ids) [0..<n]"
    using f(3) ids named by (simp add: names_claims_def)
  then have "length missing = n - length raw"
    using ids by (simp add: unnamed_count names_claims_def)
  moreover from this have "length missing \<le> partial_verdict_budget n"
    using named(3) by linarith
  moreover have "set missing = {..<n} - set ids"
    by (auto simp: missing)
  ultimately show ?thesis
    using placed ids named by (auto simp: slots_of_ids_def intro!: exI [of _ ids])
qed

definition short_reply :: "json list" where
  "short_reply = [J_object [(''claim'', J_int 3), (''verdict'', J_str ''supported'')],
     J_object [(''claim'', J_str ''#1.''), (''verdict'', J_str ''contradicted''), (''quote'', J_str ''q'')]]"

lemma short_reply_aligned:
  "align_verdicts short_reply [] 3 =
     Inr ([Some (J_str ''contradicted'', ''q''), None, Some (J_str ''supported'', [])], [1], ALIGNED_BY_CLAIM_INDEX)"
  by code_simp

theorem verdicts_reach_named_claims_witness:
  "\<exists>ids. names_claims short_reply [] 3 ids \<and> set [1] = {..<3} - set ids"
proof -
  have "[1::nat] \<noteq> []" by simp
  with verdicts_reach_named_claims [OF short_reply_aligned] show ?thesis by blast
qed

text \<open>A verdict can be given to a claim other than the one it names: of two entries of which only
  the first names a claim, the second one, the first is given to the first claim.
\<close>

theorem half_labelled_verdict_misplaced:
  "align_verdicts [J_object [(''claim'', J_int 2), (''verdict'', J_str ''contradicted'')],
       J_object [(''verdict'', J_str ''supported'')]] [] 2 =
     Inr ([Some (J_str ''contradicted'', []), Some (J_str ''supported'', [])], [], ALIGNED_BY_POSITIONAL) \<and>
   entry_index (J_object [(''claim'', J_int 2), (''verdict'', J_str ''contradicted'')]) 2 = Some 1"
  by (simp add: align_verdicts_def verdict_claim_indices_def VERDICT_ID_KEYS_def VERDICT_ID_SIDECARS_def
      parallel_quotes_def slot_of_def first_key_def VERDICT_VALUE_KEYS_def VERDICT_QUOTE_KEYS_def
      upt_rec eval_nat_numeral)

text \<open>Text without braces, quotes and backslashes is passed over.\<close>

definition plain_text :: "py_str \<Rightarrow> bool" where
  "plain_text s = list_all (\<lambda>c. c \<notin> {CHR ''{'', CHR ''}'', CHR 0x22, CHR 0x5C}) s"

lemma scan_object_plain:
  "plain_text w \<Longrightarrow>
     scan_object d False e (w @ cs) = map_option (\<lambda>(b, a). (w @ b, a)) (scan_object d False e cs)"
proof (induction w)
  case (Cons c w)
  then show ?case
    by (cases "scan_object d False e cs") (auto simp: plain_text_def scan_step_def)
qed (simp add: option.map_ident_strong case_prod_beta)

lemma scan_object_deeper:
  "scan_object (Suc d) s e cs = Some (b, []) \<Longrightarrow> scan_object (Suc (Suc d)) s e cs = None"
proof (induction cs arbitrary: d s e b)
  case (Cons c cs)
  then show ?case
    by (cases d) (auto simp: scan_step_def split: if_splits)
qed simp

lemma extract_from_prose:
  "CHR ''{'' \<notin> set w \<Longrightarrow> extract_from loads (w @ s) = extract_from loads s"
  by (induction w) auto

definition balanced_object :: "py_str \<Rightarrow> bool" where
  "balanced_object obj \<longleftrightarrow> take 1 obj = ''{'' \<and> scan_object 0 False False obj = Some (obj, [])"

text \<open>An opening brace in the prose before the verdicts hides them: when no brace closes it, the
  scan stops there and finds no object, although the balanced object that follows is found when
  the prose has no brace.
\<close>

theorem stray_brace_hides_verdicts:
  assumes "balanced_object obj" "CHR ''{'' \<notin> set w" "plain_text v" "loads obj = Some (J_object d)"
  shows "extract_from loads (w @ ''{'' @ v @ obj) = [] \<and> extract_from loads (w @ v @ obj) = [d]"
proof -
  obtain cs where obj: "obj = CHR ''{'' # cs" and scan: "scan_object 0 False False obj = Some (obj, [])"
    using assms(1) by (cases obj) (auto simp: balanced_object_def)
  have "\<exists>b. scan_object (Suc 0) False False cs = Some (b, [])"
    using scan by (auto simp: obj scan_step_def)
  then have "scan_object (Suc 0) False False obj = None"
    using scan_object_deeper by (auto simp: obj scan_step_def)
  then have "scan_object 0 False False (''{'' @ v @ obj) = None"
    using scan_object_plain [OF assms(3), of "Suc 0" False obj] by (simp add: scan_step_def)
  then have "extract_from loads (''{'' @ v @ obj) = []"
    by simp
  moreover have "extract_from loads obj = [d]"
    using scan assms(4) by (simp add: obj del: scan_object.simps)
  moreover have "CHR ''{'' \<notin> set (w @ v)"
    using assms(2,3) by (auto simp: plain_text_def list_all_iff)
  ultimately show ?thesis
    using extract_from_prose [OF assms(2), of loads] extract_from_prose [of "w @ v" loads obj]
    by (metis append.assoc)
qed

definition verdicts_object :: py_str where
  "verdicts_object = ''{'' @ [CHR 0x22] @ ''verdicts'' @ [CHR 0x22] @ '': []}''"

theorem stray_brace_hides_verdicts_witness:
  "extract_from (\<lambda>s. Some (J_object [])) (''set '' @ ''{'' @ ''a, b is odd. '' @ verdicts_object) = []"
proof -
  have o: "balanced_object verdicts_object"
    by (simp add: balanced_object_def verdicts_object_def scan_step_def)
  have v: "plain_text ''a, b is odd. ''"
    by (simp add: plain_text_def)
  have w: "CHR ''{'' \<notin> set ''set ''"
    by simp
  show ?thesis
    by (rule stray_brace_hides_verdicts [OF o w v refl, THEN conjunct1])
qed

section \<open>One partition of claims\<close>

definition JUDGE_VERDICT_TOKENS :: "py_str list" where
  "JUDGE_VERDICT_TOKENS = [''supported'', ''unsupported'', ''contradicted'', ''not_a_proposition'']"

abbreviation VERDICT_UNCHECKED :: py_str where "VERDICT_UNCHECKED \<equiv> ''unchecked''"

type_synonym graded = "py_str \<times> py_str \<times> py_str"

text \<open>
  \<^verbatim>\<open>str(verdict).strip().lower()\<close>, when it is one of the tokens; what \<^verbatim>\<open>str\<close> makes of a
  value other than a string is none of them.
\<close>

fun verdict_token :: "json \<Rightarrow> py_str" where
  "verdict_token (J_str s) =
     (let v = py_lower (py_strip s) in if v \<in> set JUDGE_VERDICT_TOKENS then v else ''unsupported'')"
| "verdict_token _ = ''unsupported''"

fun slot_verdict :: "py_str \<Rightarrow> slot \<Rightarrow> graded" where
  "slot_verdict aligned_by None = (VERDICT_UNCHECKED, [], aligned_by)"
| "slot_verdict aligned_by (Some (verdict, quote)) = (verdict_token verdict, quote, aligned_by)"

text \<open>
  The reading of one reply: the reply-count mismatch for the receipts, and the slots, none of them
  when no object carries a list of verdicts.
\<close>

definition read_verdicts ::
  "(py_str \<Rightarrow> json option) \<Rightarrow> py_str \<Rightarrow> nat \<Rightarrow> int \<times> (verdict_error + graded list)" where
  "read_verdicts loads content n =
     (case find (\<lambda>d. map_of d ''verdicts'' \<noteq> None) (extract_json_objects loads content) of
        None \<Rightarrow> (0, Inr [])
      | Some parsed \<Rightarrow>
          (case map_of parsed ''verdicts'' of
             Some (J_list raw) \<Rightarrow>
               (int (length raw) - int n,
                case align_verdicts raw parsed n of
                  Inl e \<Rightarrow> Inl e
                | Inr (slots, missing, how) \<Rightarrow> Inr (map (slot_verdict how) slots))
           | _ \<Rightarrow> (0, Inr [])))"

lemma verdict_token_in: "verdict_token v \<in> set JUDGE_VERDICT_TOKENS"
  by (cases v) (auto simp: JUDGE_VERDICT_TOKENS_def Let_def)

lemma read_verdicts_shape:
  assumes "read_verdicts loads content n = (delta, Inr vs)"
  shows "vs = [] \<or> length vs = n"
    "g \<in> set vs \<Longrightarrow> fst g \<in> insert VERDICT_UNCHECKED (set JUDGE_VERDICT_TOKENS)"
proof -
  have src: "vs = [] \<or> (\<exists>raw parsed slots missing how. align_verdicts raw parsed n = Inr (slots, missing, how) \<and>
      vs = map (slot_verdict how) slots)"
    using assms
    by (simp add: read_verdicts_def split: option.splits json.splits sum.splits prod.splits) blast
  then show "vs = [] \<or> length vs = n"
    using verdicts_length by auto
  have "fst (slot_verdict how s) \<in> insert VERDICT_UNCHECKED (set JUDGE_VERDICT_TOKENS)" for how s
    using verdict_token_in by (cases s) auto
  then show "g \<in> set vs \<Longrightarrow> fst g \<in> insert VERDICT_UNCHECKED (set JUDGE_VERDICT_TOKENS)"
    using src by fastforce
qed

definition split_unchecked :: "nat list \<Rightarrow> graded list \<Rightarrow> (nat \<times> graded) list \<times> nat list" where
  "split_unchecked claim_idx verdicts =
     (filter (\<lambda>(i, g). fst g \<noteq> VERDICT_UNCHECKED) (zip claim_idx verdicts),
      map (\<lambda>(i, g). i + 1) (filter (\<lambda>(i, g). fst g = VERDICT_UNCHECKED) (zip claim_idx verdicts)))"

end
