(* ===== verification/Corroboration.thy ===== *)
theory Corroboration
  imports JudgeCall
begin

text \<open>
  The citations of a composition, as the verify pass reads them
  (\<open>data/provenance/verify.py\<close>, \<open>citation_markers.py\<close>): the markers of a clause, the maps from
  the ordinal of a cited sub-claim to what was captured about it, and the correlated components
  of the cited sub-claims, computed by a union-find with path halving. The reference for the
  components is reachability along the correlated pairs. A citations value is JSON; the value of
  a float literal and the text of a nested value are parameters.
\<close>

section \<open>Markers of a clause\<close>

text \<open>A run of digits at the start of a text, and what follows it.\<close>

definition leading_digits :: "py_str \<Rightarrow> (nat \<times> py_str) option" where
  "leading_digits s =
     (if takeWhile digit_char s = [] then None
      else Some (nat_of_digits (takeWhile digit_char s), dropWhile digit_char s))"

definition after_prefix :: "py_str \<Rightarrow> py_str \<Rightarrow> py_str option" where
  "after_prefix pre s = (if take (length pre) s = pre then Some (drop (length pre) s) else None)"

text \<open>A match of \<open>_REF_MARKER_RE\<close> or \<open>_CLAIM_MARKER_RE\<close> at the start of a text.\<close>

definition match_ref :: "py_str \<Rightarrow> (nat \<times> py_str) option" where
  "match_ref s =
     Option.bind (after_prefix ''[[ref:'' s) (\<lambda>t.
       Option.bind (leading_digits t) (\<lambda>(n, u).
         map_option (\<lambda>rest. (n, rest)) (after_prefix '']]'' u)))"

definition match_bare :: "py_str \<Rightarrow> (nat \<times> py_str) option" where
  "match_bare s =
     Option.bind (after_prefix ''['' s) (\<lambda>t.
       Option.bind (leading_digits t) (\<lambda>(n, u).
         map_option (\<lambda>rest. (n, rest)) (after_prefix '']'' u)))"

text \<open>A range marker with an ASCII hyphen.\<close>

definition match_range :: "py_str \<Rightarrow> ((nat \<times> nat) \<times> py_str) option" where
  "match_range s =
     Option.bind (after_prefix ''['' s) (\<lambda>t.
       Option.bind (leading_digits t) (\<lambda>(lo, u).
         Option.bind (after_prefix ''-'' (dropWhile py_space u)) (\<lambda>v.
           Option.bind (leading_digits (dropWhile py_space v)) (\<lambda>(hi, w).
             map_option (\<lambda>rest. ((lo, hi), rest)) (after_prefix '']'' w)))))"

text \<open>
  \<^verbatim>\<open>finditer\<close>: the matches from left to right, none overlapping. No pattern here matches an
  empty text, so the test for progress is always passed.
\<close>

function find_all :: "(py_str \<Rightarrow> ('m \<times> py_str) option) \<Rightarrow> py_str \<Rightarrow> 'm list" where
  "find_all m [] = []"
| "find_all m (c # cs) =
     (case m (c # cs) of
        Some (x, rest) \<Rightarrow> x # (if length rest < length (c # cs) then find_all m rest else [])
      | None \<Rightarrow> find_all m cs)"
  by pat_completeness auto

termination
  by (relation "measure (length \<circ> snd)") auto

abbreviation MAX_RANGE_WIDTH :: nat where "MAX_RANGE_WIDTH \<equiv> 500"

definition range_markers :: "py_str \<Rightarrow> nat set" where
  "range_markers claim =
     \<Union> (set (map (\<lambda>(lo, hi). if lo \<le> hi \<and> hi - lo \<le> MAX_RANGE_WIDTH then {lo..hi} else {})
              (find_all match_range claim)))"

definition markers_in_claim :: "py_str \<Rightarrow> bool \<Rightarrow> nat list" where
  "markers_in_claim claim subclaim =
     (if subclaim then keep_first id [] (find_all match_ref claim)
      else sorted_list_of_set (set (find_all match_bare claim) \<union> range_markers claim))"

section \<open>Maps by ordinal\<close>

text \<open>\<open>citations\<close> is a list of entries, or another value without any.\<close>

fun entries_of :: "json \<Rightarrow> json_dict list" where
  "entries_of (J_list vs) = List.map_filter (\<lambda>v. case v of J_object d \<Rightarrow> Some d | _ \<Rightarrow> None) vs"
| "entries_of _ = []"

definition marker_ordinal :: "json_dict \<Rightarrow> int option" where
  "marker_ordinal entry =
     (case map_of entry ''marker'' of
        Some (J_str m) \<Rightarrow> (case find_all match_ref m of [] \<Rightarrow> None | n # ns \<Rightarrow> Some (int n))
      | _ \<Rightarrow> None)"

definition citation_ordinal :: "(py_str \<Rightarrow> rat option) \<Rightarrow> json_dict \<Rightarrow> int option" where
  "citation_ordinal float_of entry =
     (case map_of entry ''ordinal'' of
        Some (J_int n) \<Rightarrow> Some n
      | Some (J_str s) \<Rightarrow>
          (case json_int float_of (J_str s) of Some n \<Rightarrow> Some n | None \<Rightarrow> marker_ordinal entry)
      | Some (J_float s) \<Rightarrow>
          (case json_int float_of (J_float s) of Some n \<Rightarrow> Some n | None \<Rightarrow> marker_ordinal entry)
      | _ \<Rightarrow> marker_ordinal entry)"

text \<open>
  The one builder: a projection that gives nothing contributes nothing, and a later entry of the
  same ordinal overwrites.
\<close>

fun ordinal_map_from ::
  "(py_str \<Rightarrow> rat option) \<Rightarrow> (json_dict \<Rightarrow> int \<Rightarrow> 'v option) \<Rightarrow> json_dict list
     \<Rightarrow> (int \<times> 'v) list \<Rightarrow> (int \<times> 'v) list" where
  "ordinal_map_from float_of project [] out = out"
| "ordinal_map_from float_of project (entry # es) out =
     (case citation_ordinal float_of entry of
        None \<Rightarrow> ordinal_map_from float_of project es out
      | Some n \<Rightarrow>
          (case project entry n of
             None \<Rightarrow> ordinal_map_from float_of project es out
           | Some v \<Rightarrow> ordinal_map_from float_of project es (AList.update n v out)))"

definition build_ordinal_map ::
  "(py_str \<Rightarrow> rat option) \<Rightarrow> json \<Rightarrow> (json_dict \<Rightarrow> int \<Rightarrow> 'v option) \<Rightarrow> (int \<times> 'v) list" where
  "build_ordinal_map float_of citations project =
     ordinal_map_from float_of project (entries_of citations) []"

definition resolved_citation_ordinals :: "(py_str \<Rightarrow> rat option) \<Rightarrow> json \<Rightarrow> int set" where
  "resolved_citation_ordinals float_of citations =
     fst ` set (build_ordinal_map float_of citations (\<lambda>entry n. Some n))"

definition ordinal_effconf_map :: "(py_str \<Rightarrow> rat option) \<Rightarrow> json \<Rightarrow> (int \<times> rat) list" where
  "ordinal_effconf_map float_of citations =
     build_ordinal_map float_of citations
       (\<lambda>entry n. Option.bind (map_of entry ''effective_confidence'') (json_float float_of))"

text \<open>\<^verbatim>\<open>str(x)\<close>; of a list or a dict it is a parameter.\<close>

fun json_text :: "(json \<Rightarrow> py_str) \<Rightarrow> json \<Rightarrow> py_str" where
  "json_text text_of (J_str s) = s"
| "json_text text_of (J_int n) = show_int n"
| "json_text text_of (J_bool b) = (if b then ''True'' else ''False'')"
| "json_text text_of (J_float s) = s"
| "json_text text_of J_null = ''None''"
| "json_text text_of v = text_of v"

definition ordinal_derived_map ::
  "(py_str \<Rightarrow> rat option) \<Rightarrow> (json \<Rightarrow> py_str) \<Rightarrow> json \<Rightarrow> (int \<times> py_str list) list" where
  "ordinal_derived_map float_of text_of citations =
     build_ordinal_map float_of citations
       (\<lambda>entry n. case map_of entry ''derived_from'' of
          Some (J_list df) \<Rightarrow>
            Some (filter (\<lambda>s. s \<noteq> []) (map (json_text text_of) (filter (\<lambda>x. x \<noteq> J_null) df)))
        | _ \<Rightarrow> None)"

fun nonempty_str :: "json option \<Rightarrow> py_str option" where
  "nonempty_str (Some (J_str s)) = (if s = [] then None else Some s)"
| "nonempty_str _ = None"

definition ordinal_source_map :: "(py_str \<Rightarrow> rat option) \<Rightarrow> json \<Rightarrow> (int \<times> py_str) list" where
  "ordinal_source_map float_of citations =
     build_ordinal_map float_of citations
       (\<lambda>entry n. case nonempty_str (map_of entry ''source'') of
          Some s \<Rightarrow> Some s
        | None \<Rightarrow> nonempty_str (map_of entry ''analyst_id''))"

definition periphery_ordinals :: "(py_str \<Rightarrow> rat option) \<Rightarrow> json \<Rightarrow> int set" where
  "periphery_ordinals float_of citations =
     fst ` set (build_ordinal_map float_of citations
       (\<lambda>entry n. if map_of entry ''tier'' = Some (J_str ''periphery'') then Some n else None))"

section \<open>Correlated components\<close>

definition lineage_of :: "(int \<times> py_str list) list \<Rightarrow> int \<Rightarrow> py_str set" where
  "lineage_of derived x = (case map_of derived x of None \<Rightarrow> {} | Some ds \<Rightarrow> set ds)"

text \<open>The test of one pair: shared lineage, and not two known sources that differ.\<close>

definition correlated ::
  "(int \<times> py_str list) list \<Rightarrow> (int \<times> py_str) list option \<Rightarrow> int \<Rightarrow> int \<Rightarrow> bool" where
  "correlated derived gmap x y =
     (lineage_of derived x \<inter> lineage_of derived y \<noteq> {} \<and>
      (case gmap of
         None \<Rightarrow> True
       | Some g \<Rightarrow>
           (case (map_of g x, map_of g y) of (Some a, Some b) \<Rightarrow> a = b | _ \<Rightarrow> True)))"

text \<open>
  \<open>find\<close> walks to the root and halves the path on its way. It is a loop that ends because the
  parents form a forest, which is an invariant and not evident from the loop.
\<close>

partial_function (option) uf_find :: "(int \<Rightarrow> int) \<Rightarrow> int \<Rightarrow> (int \<times> (int \<Rightarrow> int)) option" where
  "uf_find p x =
     (if p x = x then Some (x, p)
      else uf_find (p(x := p (p x))) ((p(x := p (p x))) x))"

declare uf_find.simps [code]

definition uf_union :: "(int \<Rightarrow> int) \<Rightarrow> int \<Rightarrow> int \<Rightarrow> (int \<Rightarrow> int) option" where
  "uf_union p a b =
     Option.bind (uf_find p a) (\<lambda>(ra, p). Option.bind (uf_find p b) (\<lambda>(rb, p).
       Some (if ra \<noteq> rb then p(ra := rb) else p)))"

fun pairs_of :: "'a list \<Rightarrow> ('a \<times> 'a) list" where
  "pairs_of [] = []"
| "pairs_of (x # xs) = map (Pair x) xs @ pairs_of xs"

fun uf_unions :: "(int \<Rightarrow> int \<Rightarrow> bool) \<Rightarrow> (int \<times> int) list \<Rightarrow> (int \<Rightarrow> int) \<Rightarrow> (int \<Rightarrow> int) option" where
  "uf_unions link [] p = Some p"
| "uf_unions link ((a, b) # ps) p =
     (if \<not> link a b then uf_unions link ps p
      else Option.bind (uf_union p a b) (uf_unions link ps))"

text \<open>\<^verbatim>\<open>comps.setdefault(find(i), []).append(i)\<close>, over a dict in insertion order.\<close>

definition append_to :: "int \<Rightarrow> int \<Rightarrow> (int \<times> int list) list \<Rightarrow> (int \<times> int list) list" where
  "append_to r x comps =
     AList.update r ((case map_of comps r of None \<Rightarrow> [] | Some c \<Rightarrow> c) @ [x]) comps"

fun group_by_root ::
  "int list \<Rightarrow> (int \<Rightarrow> int) \<Rightarrow> (int \<times> int list) list \<Rightarrow> (int \<times> int list) list option" where
  "group_by_root [] p comps = Some comps"
| "group_by_root (x # xs) p comps =
     Option.bind (uf_find p x) (\<lambda>(r, p). group_by_root xs p (append_to r x comps))"

definition correlated_components ::
  "int list \<Rightarrow> (int \<times> py_str list) list \<Rightarrow> (int \<times> py_str) list option \<Rightarrow> int list list option" where
  "correlated_components ids derived gmap =
     Option.bind (uf_unions (correlated derived gmap) (pairs_of ids) id) (\<lambda>p.
       map_option (map snd) (group_by_root ids p []))"

section \<open>The union-find computes reachability\<close>

text \<open>\<open>root_in p n x r\<close>: from \<open>x\<close> the root \<open>r\<close> is reached in \<open>n\<close> steps.\<close>

inductive root_in :: "(int \<Rightarrow> int) \<Rightarrow> nat \<Rightarrow> int \<Rightarrow> int \<Rightarrow> bool" for p where
  at_root: "p r = r \<Longrightarrow> root_in p 0 r r"
| above: "p x \<noteq> x \<Longrightarrow> root_in p n (p x) r \<Longrightarrow> root_in p (Suc n) x r"

inductive_cases root_in_zeroE: "root_in p 0 x r"
inductive_cases root_in_SucE: "root_in p (Suc n) x r"

definition root_of :: "(int \<Rightarrow> int) \<Rightarrow> int \<Rightarrow> int \<Rightarrow> bool" where
  "root_of p x r = (\<exists>n. root_in p n x r)"

definition forest :: "(int \<Rightarrow> int) \<Rightarrow> bool" where
  "forest p = (\<forall>x. \<exists>r. root_of p x r)"

lemma root_in_fixed: "root_in p n x r \<Longrightarrow> p r = r"
  by (induction rule: root_in.induct) auto

lemma root_in_unique: "root_in p n x r \<Longrightarrow> root_in p m x s \<Longrightarrow> r = s \<and> n = m"
proof (induction arbitrary: m rule: root_in.induct)
  case (at_root r)
  then show ?case by (cases m) (auto elim: root_in_zeroE root_in_SucE)
next
  case (above x n r)
  then show ?case by (cases m) (auto elim: root_in_zeroE root_in_SucE)
qed

lemma root_of_unique: "root_of p x r \<Longrightarrow> root_of p x s \<Longrightarrow> r = s"
  by (auto simp: root_of_def dest: root_in_unique)

lemma root_in_halved:
  "root_in p n y r \<Longrightarrow> \<exists>m \<le> n. root_in (p(x := p (p x))) m y r"
proof (induction n arbitrary: y rule: less_induct)
  case (less n)
  let ?q = "p(x := p (p x))"
  show ?case
  proof (cases n)
    case 0
    then have "p y = y" and "r = y"
      using less.prems by (auto elim: root_in_zeroE)
    then have "root_in ?q 0 r r"
      by (intro root_in.at_root) auto
    then show ?thesis using \<open>r = y\<close> by blast
  next
    case (Suc k)
    then have py: "p y \<noteq> y" and up: "root_in p k (p y) r"
      using less.prems by (auto elim: root_in_SucE)
    obtain m where m: "m \<le> k" "root_in ?q m (p y) r"
      using less.IH [OF _ up] Suc by blast
    show ?thesis
    proof (cases "y = x \<and> p (p x) \<noteq> p x")
      case False
      then have "?q y = p y"
        by auto
      with py m(2) have "root_in ?q (Suc m) y r"
        by (intro root_in.above) simp_all
      then show ?thesis using m(1) Suc by (metis Suc_le_mono)
    next
      case True
      then have "?q (p y) = p (p x)" "?q (p y) \<noteq> p y"
        using py by auto
      then obtain l where l: "m = Suc l" "root_in ?q l (p (p x)) r"
        using m(2) by (cases m) (auto elim: root_in_zeroE root_in_SucE)
      have "p (p x) \<noteq> x"
      proof
        assume loop: "p (p x) = x"
        then have "root_in ?q 0 x x"
          by (intro root_in.at_root) simp
        then have "r = x"
          using l(2) loop root_in_unique by metis
        then show False
          using root_in_fixed [OF less.prems] py True by simp
      qed
      then have "root_in ?q (Suc l) y r"
        using True l(2) by (intro root_in.above) simp_all
      then show ?thesis using m(1) l(1) Suc by (metis le_SucI)
    qed
  qed
qed

text \<open>\<open>same_roots p q\<close>: the roots of \<open>p\<close> are the roots of \<open>q\<close>.\<close>

definition same_roots :: "(int \<Rightarrow> int) \<Rightarrow> (int \<Rightarrow> int) \<Rightarrow> bool" where
  "same_roots p q = (\<forall>y s. root_of p y s \<longrightarrow> root_of q y s)"

lemma uf_find_root:
  assumes "root_in p n x r"
  shows "\<exists>q. uf_find p x = Some (r, q) \<and> same_roots p q"
  using assms
proof (induction n arbitrary: p x rule: less_induct)
  case (less n)
  let ?q = "p(x := p (p x))"
  have halved: "same_roots p ?q"
    using root_in_halved by (fastforce simp: same_roots_def root_of_def)
  show ?case
  proof (cases n)
    case 0
    then have "p x = x" "r = x"
      using less.prems by (auto elim: root_in_zeroE)
    then show ?thesis
      by (subst uf_find.simps) (simp add: same_roots_def)
  next
    case (Suc k)
    then have px: "p x \<noteq> x" and up: "root_in p k (p x) r"
      using less.prems by (auto elim: root_in_SucE)
    have "\<exists>l \<le> k. root_in p l (p (p x)) r"
      using up
    proof (cases rule: root_in.cases)
      case at_root
      with up show ?thesis by auto
    next
      case (above m)
      then show ?thesis by (intro exI [of _ m]) simp
    qed
    then obtain l where "l < n" "root_in ?q l (p (p x)) r"
      using root_in_halved Suc by (metis le_imp_less_Suc le_trans)
    then obtain q where "uf_find ?q (p (p x)) = Some (r, q)" "same_roots ?q q"
      using less.IH by blast
    then have "uf_find p x = Some (r, q)"
      using px by (subst uf_find.simps) simp
    then show ?thesis
      using halved \<open>same_roots ?q q\<close> by (auto simp: same_roots_def)
  qed
qed

lemma same_roots_trans: "same_roots p q \<Longrightarrow> same_roots q s \<Longrightarrow> same_roots p s"
  by (simp add: same_roots_def)

lemma same_roots_forest: "forest p \<Longrightarrow> same_roots p q \<Longrightarrow> forest q"
  by (meson forest_def same_roots_def)

text \<open>In a forest every element has its root, and the root tells the component.\<close>

definition rep :: "(int \<Rightarrow> int) \<Rightarrow> int \<Rightarrow> int" where
  "rep p x = (THE r. root_of p x r)"

lemma rep_eq: "root_of p x r \<Longrightarrow> rep p x = r"
  unfolding rep_def by (blast intro: root_of_unique)

lemma root_of_rep: "forest p \<Longrightarrow> root_of p x (rep p x)"
  by (metis forest_def rep_eq)

lemma same_roots_rep: "forest p \<Longrightarrow> same_roots p q \<Longrightarrow> rep q x = rep p x"
  by (metis root_of_rep rep_eq same_roots_def)

lemma rep_fixed: "forest p \<Longrightarrow> p (rep p x) = rep p x"
  using root_in_fixed root_of_rep unfolding root_of_def by blast

lemma find_total: "forest p \<Longrightarrow> \<exists>q. uf_find p x = Some (rep p x, q) \<and> same_roots p q"
  using root_of_rep [of p x] uf_find_root unfolding root_of_def by blast

lemma root_in_linked:
  assumes "root_in p n y s" "p ra = ra" "p rb = rb" "ra \<noteq> rb"
  shows "root_of (p(ra := rb)) y (if s = ra then rb else s)"
  using assms
proof (induction rule: root_in.induct)
  case (at_root r)
  show ?case
  proof (cases "r = ra")
    case True
    have "root_in (p(ra := rb)) 0 rb rb"
      using at_root by (intro root_in.at_root) auto
    then have "root_in (p(ra := rb)) 1 ra rb"
      using at_root root_in.above [of "p(ra := rb)" ra 0 rb] by simp
    then have "root_of (p(ra := rb)) ra rb"
      unfolding root_of_def by blast
    then show ?thesis by (simp only: True refl if_True)
  next
    case False
    then have "root_in (p(ra := rb)) 0 r r"
      using at_root by (intro root_in.at_root) simp
    then have "root_of (p(ra := rb)) r r"
      unfolding root_of_def by blast
    then show ?thesis by (simp only: False if_False)
  qed
next
  case (above x n r)
  then have "x \<noteq> ra" by auto
  have "root_of (p(ra := rb)) (p x) (if r = ra then rb else r)"
    by (rule above.IH) (rule above.prems)+
  then obtain m where "root_in (p(ra := rb)) m (p x) (if r = ra then rb else r)"
    unfolding root_of_def by blast
  then have "root_in (p(ra := rb)) (Suc m) x (if r = ra then rb else r)"
    using above.hyps(1) \<open>x \<noteq> ra\<close> by (intro root_in.above) simp_all
  then show ?case unfolding root_of_def by blast
qed

lemma union_total:
  assumes "forest p"
  shows "\<exists>q. uf_union p a b = Some q \<and> forest q \<and>
    (\<forall>y. rep q y = (if rep p y = rep p a then rep p b else rep p y))"
proof -
  obtain p1 where f1: "uf_find p a = Some (rep p a, p1)" "same_roots p p1"
    using find_total [OF assms] by blast
  have p1: "forest p1" "\<And>y. rep p1 y = rep p y"
    using f1(2) assms same_roots_forest same_roots_rep by blast+
  obtain p2 where f2: "uf_find p1 b = Some (rep p b, p2)" "same_roots p1 p2"
    using find_total [OF p1(1)] p1(2) by metis
  have p2: "forest p2" "\<And>y. rep p2 y = rep p y"
    using f2(2) p1 same_roots_forest same_roots_rep by metis+
  let ?q = "if rep p a \<noteq> rep p b then p2(rep p a := rep p b) else p2"
  have u: "uf_union p a b = Some ?q"
    by (simp add: uf_union_def f1(1) f2(1))
  have q: "root_of ?q y (if rep p y = rep p a then rep p b else rep p y)" for y
  proof (cases "rep p a = rep p b")
    case True
    then show ?thesis using root_of_rep [OF p2(1), of y] p2(2) by simp
  next
    case False
    obtain n where "root_in p2 n y (rep p y)"
      using root_of_rep [OF p2(1), of y] p2(2) by (auto simp: root_of_def)
    moreover have "p2 (rep p a) = rep p a" "p2 (rep p b) = rep p b"
      using rep_fixed [OF p2(1)] p2(2) by metis+
    ultimately show ?thesis
      using root_in_linked [of p2 n y "rep p y" "rep p a" "rep p b"] False by simp
  qed
  show ?thesis
    using u q rep_eq [OF q] unfolding forest_def by blast
qed

text \<open>
  \<open>linked link ps\<close>: the pairs of the list that pass the test; connected means joined by a path
  of them in either direction.
\<close>

definition linked :: "(int \<Rightarrow> int \<Rightarrow> bool) \<Rightarrow> (int \<times> int) list \<Rightarrow> (int \<times> int) set" where
  "linked link ps = {(a, b). (a, b) \<in> set ps \<and> link a b}"

definition connected :: "(int \<times> int) set \<Rightarrow> (int \<times> int) set" where
  "connected R = (R \<union> R\<inverse>)\<^sup>*"

lemma connected_refl: "(x, x) \<in> connected R"
  by (simp add: connected_def)

lemma connected_edge: "(a, b) \<in> R \<Longrightarrow> (a, b) \<in> connected R"
  by (auto simp: connected_def)

lemma connected_sym: "(x, y) \<in> connected R \<Longrightarrow> (y, x) \<in> connected R"
proof -
  have "sym (R \<union> R\<inverse>)"
    by (auto simp: sym_def)
  then have "sym (connected R)"
    unfolding connected_def by (rule sym_rtrancl)
  then show "(x, y) \<in> connected R \<Longrightarrow> (y, x) \<in> connected R"
    by (auto simp: sym_def)
qed

lemma connected_trans: "(x, y) \<in> connected R \<Longrightarrow> (y, z) \<in> connected R \<Longrightarrow> (x, z) \<in> connected R"
  by (simp add: connected_def)

lemma connected_mono: "R \<subseteq> S \<Longrightarrow> connected R \<subseteq> connected S"
  unfolding connected_def by (intro rtrancl_mono) auto

lemma connected_insert:
  "(x, y) \<in> connected (insert (a, b) R) \<longleftrightarrow>
     (x, y) \<in> connected R \<or> (x, a) \<in> connected R \<and> (b, y) \<in> connected R \<or>
     (x, b) \<in> connected R \<and> (a, y) \<in> connected R"
proof
  assume "(x, y) \<in> connected (insert (a, b) R)"
  then show "(x, y) \<in> connected R \<or> (x, a) \<in> connected R \<and> (b, y) \<in> connected R \<or>
     (x, b) \<in> connected R \<and> (a, y) \<in> connected R"
    unfolding connected_def [of "insert (a, b) R"]
  proof (induction rule: rtrancl_induct)
    case base
    then show ?case by (simp add: connected_refl)
  next
    case (step y z)
    then consider "(y, z) \<in> connected R" | "y = a" "z = b" | "y = b" "z = a"
      by (auto simp: connected_def)
    then show ?case
    proof cases
      case 1
      with step.IH show ?thesis by (blast intro: connected_trans)
    next
      case 2
      with step.IH show ?thesis by (blast intro: connected_refl connected_trans connected_sym)
    next
      case 3
      with step.IH show ?thesis by (blast intro: connected_refl connected_trans connected_sym)
    qed
  qed
next
  have "connected R \<subseteq> connected (insert (a, b) R)"
    by (rule connected_mono) auto
  moreover have "(a, b) \<in> connected (insert (a, b) R)" "(b, a) \<in> connected (insert (a, b) R)"
    by (auto intro: connected_edge connected_sym)
  moreover assume "(x, y) \<in> connected R \<or> (x, a) \<in> connected R \<and> (b, y) \<in> connected R \<or>
     (x, b) \<in> connected R \<and> (a, y) \<in> connected R"
  ultimately show "(x, y) \<in> connected (insert (a, b) R)"
    by (blast intro: connected_trans)
qed

text \<open>\<open>joins p R\<close>: two elements have one root exactly when they are connected.\<close>

definition joins :: "(int \<Rightarrow> int) \<Rightarrow> (int \<times> int) set \<Rightarrow> bool" where
  "joins p R \<longleftrightarrow> forest p \<and> (\<forall>x y. rep p x = rep p y \<longleftrightarrow> (x, y) \<in> connected R)"

lemma joins_id: "joins id {}"
proof -
  have r: "root_of id x x" for x
    unfolding root_of_def by (blast intro: root_in.at_root [of id] id_apply)
  have "(x, y) \<in> connected {} \<longleftrightarrow> x = y" for x y
    by (simp add: connected_def)
  then show ?thesis
    using r rep_eq [OF r] unfolding joins_def forest_def by metis
qed

lemma joins_union:
  assumes "joins p R"
  shows "\<exists>q. uf_union p a b = Some q \<and> joins q (insert (a, b) R)"
proof -
  have j: "\<And>x y. rep p x = rep p y \<longleftrightarrow> (x, y) \<in> connected R"
    using assms by (simp add: joins_def)
  obtain q where q: "uf_union p a b = Some q" "forest q"
    "\<And>y. rep q y = (if rep p y = rep p a then rep p b else rep p y)"
    using union_total assms unfolding joins_def by blast
  have "rep q x = rep q y \<longleftrightarrow> (x, y) \<in> connected (insert (a, b) R)" for x y
    unfolding connected_insert j [symmetric] q(3) by auto
  with q show ?thesis by (auto simp: joins_def)
qed

lemma unions_total:
  "joins p R \<Longrightarrow> \<exists>q. uf_unions link ps p = Some q \<and> joins q (R \<union> linked link ps)"
proof (induction link ps p arbitrary: R rule: uf_unions.induct)
  case (1 link p)
  then show ?case by (simp add: linked_def)
next
  case (2 link a b ps p)
  show ?case
  proof (cases "link a b")
    case False
    then have "linked link ((a, b) # ps) = linked link ps"
      by (auto simp: linked_def)
    with 2 False show ?thesis by simp
  next
    case True
    obtain q where q: "uf_union p a b = Some q" "joins q (insert (a, b) R)"
      using joins_union [OF "2.prems"] by blast
    have "insert (a, b) R \<union> linked link ps = R \<union> linked link ((a, b) # ps)"
      using True by (auto simp: linked_def)
    with "2.IH"(2) [OF _ q] True q(1) show ?thesis by simp
  qed
qed

subsection \<open>The groups\<close>

text \<open>What the grouping loop builds: the groups by root, each in the order of the list.\<close>

fun groups_by :: "('a \<Rightarrow> 'b) \<Rightarrow> 'a list \<Rightarrow> ('b \<times> 'a list) list \<Rightarrow> ('b \<times> 'a list) list" where
  "groups_by f [] acc = acc"
| "groups_by f (x # xs) acc =
     groups_by f xs (AList.update (f x) ((case map_of acc (f x) of None \<Rightarrow> [] | Some c \<Rightarrow> c) @ [x]) acc)"

lemma group_by_root_total:
  "forest p \<Longrightarrow> group_by_root xs p acc = Some (groups_by (rep p) xs acc)"
proof (induction xs arbitrary: p acc)
  case (Cons x xs)
  obtain q where q: "uf_find p x = Some (rep p x, q)" "same_roots p q"
    using find_total [OF Cons.prems] by blast
  then have "forest q" "rep q = rep p"
    using Cons.prems same_roots_forest same_roots_rep by blast+
  with Cons.IH [of q] q(1) show ?case by (simp add: append_to_def)
qed simp

lemma groups_by_lookup:
  "map_of (groups_by f xs acc) r =
     (if \<exists>x \<in> set xs. f x = r
      then Some ((case map_of acc r of None \<Rightarrow> [] | Some c \<Rightarrow> c) @ filter (\<lambda>x. f x = r) xs)
      else map_of acc r)"
  by (induction f xs acc rule: groups_by.induct) (auto simp: map_of_update split: option.splits)

lemma groups_by_keys: "distinct (map fst acc) \<Longrightarrow> distinct (map fst (groups_by f xs acc))"
  by (induction f xs acc rule: groups_by.induct) (simp_all add: distinct_keys_update)

lemma groups_by_entry:
  "(r, c) \<in> set (groups_by f xs []) \<longleftrightarrow> r \<in> f ` set xs \<and> c = filter (\<lambda>x. f x = r) xs"
proof -
  have keys: "distinct (map fst (groups_by f xs []))"
    by (simp add: groups_by_keys)
  show ?thesis
    unfolding map_of_eq_Some_iff [OF keys, symmetric] groups_by_lookup by auto
qed

lemma groups_by_groups:
  shows "set (map snd (groups_by f xs [])) = (\<lambda>r. filter (\<lambda>x. f x = r) xs) ` f ` set xs"
proof (rule set_eqI)
  fix c
  have "c \<in> set (map snd (groups_by f xs [])) \<longleftrightarrow> (\<exists>r. (r, c) \<in> set (groups_by f xs []))"
    by force
  then show "c \<in> set (map snd (groups_by f xs [])) \<longleftrightarrow> c \<in> (\<lambda>r. filter (\<lambda>x. f x = r) xs) ` f ` set xs"
    unfolding groups_by_entry by blast
qed

lemma groups_by_distinct: "distinct (map snd (groups_by f xs []))"
proof -
  have inj: "r = s" if r: "(r, c) \<in> set (groups_by f xs [])" and s: "(s, c) \<in> set (groups_by f xs [])" for r s c
  proof -
    obtain x where x: "x \<in> set xs" "f x = r"
      using r unfolding groups_by_entry by blast
    then have "x \<in> set c"
      using r unfolding groups_by_entry by simp
    then show "r = s"
      using s x(2) unfolding groups_by_entry by simp
  qed
  have "inj_on snd (set (groups_by f xs []))"
    by (rule inj_onI) (metis inj prod.collapse)
  moreover have "distinct (groups_by f xs [])"
    using groups_by_keys [of "[]" f xs] by (simp add: distinct_map)
  ultimately show ?thesis
    by (simp only: distinct_map simp_thms)
qed

lemma pairs_of_set:
  "distinct xs \<Longrightarrow> x \<noteq> y \<Longrightarrow> (x, y) \<in> set (pairs_of xs) \<or> (y, x) \<in> set (pairs_of xs) \<longleftrightarrow>
     x \<in> set xs \<and> y \<in> set xs"
  by (induction xs) auto

text \<open>The pairs of different cited sub-claims that are correlated.\<close>

definition correlation ::
  "int list \<Rightarrow> (int \<times> py_str list) list \<Rightarrow> (int \<times> py_str) list option \<Rightarrow> (int \<times> int) set" where
  "correlation ids derived gmap =
     {(x, y). x \<in> set ids \<and> y \<in> set ids \<and> x \<noteq> y \<and> correlated derived gmap x y}"

lemma correlated_sym: "correlated derived gmap x y = correlated derived gmap y x"
  by (auto simp: correlated_def split: option.splits)

lemma linked_correlation:
  assumes "distinct ids"
  shows "connected (linked (correlated derived gmap) (pairs_of ids)) = (correlation ids derived gmap)\<^sup>*"
proof -
  let ?L = "linked (correlated derived gmap) (pairs_of ids)"
  have off: "(x, y) \<in> ?L \<union> ?L\<inverse> \<longleftrightarrow> (x, y) \<in> correlation ids derived gmap" if "x \<noteq> y" for x y
  proof -
    have "(x, y) \<in> ?L \<union> ?L\<inverse> \<longleftrightarrow>
        ((x, y) \<in> set (pairs_of ids) \<or> (y, x) \<in> set (pairs_of ids)) \<and> correlated derived gmap x y"
      using correlated_sym [of derived gmap x y] by (auto simp: linked_def)
    then show ?thesis
      unfolding pairs_of_set [OF assms that] using that by (simp add: correlation_def)
  qed
  have "(?L \<union> ?L\<inverse>) - Id = correlation ids derived gmap"
  proof (rule set_eqI)
    fix e :: "int \<times> int"
    obtain x y where e: "e = (x, y)" by force
    show "e \<in> (?L \<union> ?L\<inverse>) - Id \<longleftrightarrow> e \<in> correlation ids derived gmap"
      using off [of x y] by (cases "x = y") (simp_all add: e correlation_def)
  qed
  then show ?thesis
    unfolding connected_def by (metis rtrancl_r_diff_Id)
qed

text \<open>The components exist and cover what is cited, also when an ordinal is listed twice.\<close>

lemma components_cover:
  "\<exists>comps. correlated_components ids derived gmap = Some comps \<and> \<Union> (set ` set comps) = set ids"
proof -
  obtain p where p: "uf_unions (correlated derived gmap) (pairs_of ids) id = Some p"
    "joins p (linked (correlated derived gmap) (pairs_of ids))"
    using unions_total [OF joins_id] by (metis sup_bot_left)
  then have "forest p" by (simp add: joins_def)
  then have "correlated_components ids derived gmap = Some (map snd (groups_by (rep p) ids []))"
    by (simp add: correlated_components_def p(1) group_by_root_total)
  moreover have "\<Union> (set ` set (map snd (groups_by (rep p) ids []))) = set ids"
    unfolding groups_by_groups by auto
  ultimately show ?thesis by blast
qed

text \<open>C38: The union-find always returns, and its components are the connected components of the
  correlated pairs: every cited sub-claim is in exactly one list, each list is not empty and in
  the order of the citations, no list occurs twice, and two sub-claims are in one list exactly
  when a chain of correlated sub-claims joins them.
\<close>

theorem components_are_connected:
  assumes "distinct ids"
  shows "\<exists>comps. correlated_components ids derived gmap = Some comps \<and>
    distinct comps \<and> [] \<notin> set comps \<and> \<Union> (set ` set comps) = set ids \<and>
    (\<forall>c \<in> set comps. c = filter (\<lambda>x. x \<in> set c) ids) \<and>
    (\<forall>c \<in> set comps. \<forall>x \<in> set c. \<forall>y \<in> set ids.
       y \<in> set c \<longleftrightarrow> (x, y) \<in> (correlation ids derived gmap)\<^sup>*)"
proof -
  obtain p where p: "uf_unions (correlated derived gmap) (pairs_of ids) id = Some p"
    "joins p (linked (correlated derived gmap) (pairs_of ids))"
    using unions_total [OF joins_id] by (metis sup_bot_left)
  then have f: "forest p" and j: "\<And>x y. rep p x = rep p y \<longleftrightarrow> (x, y) \<in> (correlation ids derived gmap)\<^sup>*"
    using linked_correlation [OF assms] by (simp_all add: joins_def)
  let ?comps = "map snd (groups_by (rep p) ids [])"
  have run: "correlated_components ids derived gmap = Some ?comps"
    by (simp add: correlated_components_def p(1) group_by_root_total [OF f])
  have c: "\<exists>r. r \<in> rep p ` set ids \<and> k = filter (\<lambda>x. rep p x = r) ids" if "k \<in> set ?comps" for k
    using that unfolding groups_by_groups by blast
  have nonempty: "[] \<notin> set ?comps"
  proof
    assume "[] \<in> set ?comps"
    then obtain x where "x \<in> set ids" "[] = filter (\<lambda>y. rep p y = rep p x) ids"
      using c by blast
    then show False by (metis (mono_tags) filter_empty_conv)
  qed
  have cover: "\<Union> (set ` set ?comps) = set ids"
    unfolding groups_by_groups by auto
  have order: "k = filter (\<lambda>x. x \<in> set k) ids" if k_in: "k \<in> set ?comps" for k
  proof -
    obtain r where k: "k = filter (\<lambda>x. rep p x = r) ids" using c [OF k_in] by blast
    show ?thesis
      unfolding k by (intro filter_cong) auto
  qed
  have reach: "y \<in> set k \<longleftrightarrow> (x, y) \<in> (correlation ids derived gmap)\<^sup>*"
    if k_in: "k \<in> set ?comps" and xy: "x \<in> set k" "y \<in> set ids" for k x y
  proof -
    obtain r where k: "k = filter (\<lambda>x. rep p x = r) ids" using c [OF k_in] by blast
    have "y \<in> set k \<longleftrightarrow> rep p x = rep p y" using xy unfolding k by auto
    then show ?thesis by (simp only: j)
  qed
  show ?thesis
    by (intro exI [of _ ?comps] conjI run groups_by_distinct nonempty cover ballI order reach)
qed

theorem components_are_connected_witness:
  "\<exists>comps. correlated_components [1, 2, 3] [(1, [''s'']), (2, [''t'']), (3, [''s''])] None = Some comps \<and>
     \<Union> (set ` set comps) = {1, 2, 3}"
  using components_are_connected [of "[1, 2, 3]" "[(1, [''s'']), (2, [''t'']), (3, [''s''])]" None] by auto

text \<open>
  A sub-claim whose source is not known joins sub-claims of two sources that would not be joined
  with each other.
\<close>

lemma sourceless_bridge:
  "correlated_components [1, 2, 3] [(1, [''s'']), (2, [''s'']), (3, [''s''])] (Some [(1, ''a''), (3, ''b'')]) =
     Some [[1, 2, 3]]"
  "correlated_components [1, 3] [(1, [''s'']), (3, [''s''])] (Some [(1, ''a''), (3, ''b'')]) = Some [[1], [3]]"
  by code_simp+

end
