(* ===== verification/Faithfulness.thy ===== *)
theory Faithfulness
  imports Corroboration
begin

text \<open>
  The deterministic part of the faithfulness verify pass (\<open>data/provenance/verify.py\<close>): the
  report with its tallies, spans and per-claim ledger, the floor of a unit finding and of a
  composition, the folds of the structured indicators and of the guards, and the overrides that
  replace the verdicts of named claims. The prose of a finding is given as the list of its
  fact-asserting claims in the order of the text; how the text is cut into claims is not
  modelled. Scores are rationals.
\<close>

section \<open>Reasons and their classes\<close>

abbreviation FAIL_CLASS_HARD :: py_str where "FAIL_CLASS_HARD \<equiv> ''hard_fail''"
abbreviation FAIL_CLASS_SOFT :: py_str where "FAIL_CLASS_SOFT \<equiv> ''soft_fail''"
abbreviation VERDICT_SUPPORTED :: py_str where "VERDICT_SUPPORTED \<equiv> ''supported''"

text \<open>The reasons of the class \<open>hard_fail\<close>; every other reason, known or not, is soft.\<close>

definition COMPOSITION_HARD :: "py_str list" where
  "COMPOSITION_HARD = [''attribution_direction_conflict'']"

definition ASSEMBLY_HARD :: "py_str list" where
  "ASSEMBLY_HARD = [''quote_not_contained'', ''quote_offset_mismatch'', ''quote_origin_drift'',
     ''quote_origin_truncated'', ''scope_truncated'', ''scope_widened'', ''attribution_desk_mismatch'',
     ''attribution_date_mismatch'', ''attribution_target_mismatch'', ''attribution_head_unresolved'',
     ''coverage_unit_missing'', ''coverage_unit_duplicated'', ''coverage_status_invalid'',
     ''drop_count_mismatch'', ''drop_why_unknown'', ''drop_order_violation'']"

definition HARD_REASONS :: "py_str list" where
  "HARD_REASONS = [''unresolved_citation'', ''judge_contradicted'', ''stale_leader'',
     ''stale_leader_vs_facts'', ''cross_target_leak'', ''absence_slice_contradicted'']
     @ COMPOSITION_HARD @ ASSEMBLY_HARD"

definition fail_class_for_reason :: "py_str \<Rightarrow> py_str" where
  "fail_class_for_reason reason =
     (if reason \<in> set HARD_REASONS then FAIL_CLASS_HARD else FAIL_CLASS_SOFT)"

definition ADVISORY_REASONS :: "py_str list" where
  "ADVISORY_REASONS = [''double_counted'', ''hedge_laundering'']"

section \<open>The report\<close>

record span =
  sp_text :: py_str
  sp_reason :: py_str
  sp_markers :: "int list"
  sp_detail :: "py_str option"

record claim_verdict =
  cv_text :: py_str
  cv_verdict :: py_str
  cv_reason :: "py_str option"
  cv_markers :: "int list"
  cv_detail :: "py_str option"
  cv_aligned_by :: "py_str option"

definition unsupported_span :: "py_str \<Rightarrow> py_str \<Rightarrow> int list \<Rightarrow> span" where
  "unsupported_span text reason markers =
     \<lparr>sp_text = text, sp_reason = reason, sp_markers = markers, sp_detail = None\<rparr>"

definition cv_supported :: "py_str \<Rightarrow> int list \<Rightarrow> claim_verdict" where
  "cv_supported text markers = \<lparr>cv_text = text, cv_verdict = VERDICT_SUPPORTED, cv_reason = None,
     cv_markers = markers, cv_detail = None, cv_aligned_by = None\<rparr>"

definition cv_failed :: "py_str \<Rightarrow> py_str \<Rightarrow> int list \<Rightarrow> py_str option \<Rightarrow> claim_verdict" where
  "cv_failed text reason markers detail = \<lparr>cv_text = text, cv_verdict = fail_class_for_reason reason,
     cv_reason = Some reason, cv_markers = markers, cv_detail = detail, cv_aligned_by = None\<rparr>"

type_synonym branch_scores = "(py_str \<times> nat \<times> nat \<times> rat) list"
type_synonym counters = "(py_str \<times> int) list"

record report =
  fr_score :: rat
  fr_checkable :: int
  fr_supported :: int
  fr_spans :: "span list"
  fr_judge_status :: py_str
  fr_unavailable :: "py_str option"
  fr_attempts :: "nat option"
  fr_http_statuses :: "py_str list"
  fr_ceiling :: "rat option"
  fr_branch_scores :: branch_scores
  fr_ledger :: "claim_verdict list"
  fr_counters :: counters
  fr_denominator :: "int option"
  fr_state :: py_str
  fr_state_reason :: "py_str option"
  fr_partial :: "nat option"
  fr_partial_claims :: "nat list"
  fr_miscount :: int

text \<open>\<^verbatim>\<open>1.0 if checkable == 0 else supported / checkable\<close>.\<close>

definition ratio :: "int \<Rightarrow> int \<Rightarrow> rat" where
  "ratio supported checkable = (if checkable = 0 then 1 else of_int supported / of_int checkable)"

abbreviation SCORE_STATE_SCORED :: py_str where "SCORE_STATE_SCORED \<equiv> ''scored''"
abbreviation SCORE_STATE_UNASSESSABLE :: py_str where "SCORE_STATE_UNASSESSABLE \<equiv> ''unassessable''"

definition new_report ::
  "int \<Rightarrow> int \<Rightarrow> span list \<Rightarrow> claim_verdict list \<Rightarrow> rat option \<Rightarrow> report" where
  "new_report checkable supported spans ledger cap =
     \<lparr>fr_score = ratio supported checkable, fr_checkable = checkable, fr_supported = supported,
      fr_spans = spans, fr_judge_status = ''deterministic'', fr_unavailable = None,
      fr_attempts = None, fr_http_statuses = [], fr_ceiling = cap, fr_branch_scores = [],
      fr_ledger = ledger, fr_counters = [], fr_denominator = Some checkable,
      fr_state = SCORE_STATE_SCORED, fr_state_reason = None, fr_partial = None,
      fr_partial_claims = [], fr_miscount = 0\<rparr>"

definition count_of :: "py_str \<Rightarrow> counters \<Rightarrow> int" where
  "count_of k cs = (case map_of cs k of None \<Rightarrow> 0 | Some n \<Rightarrow> n)"

definition add_count :: "py_str \<Rightarrow> int \<Rightarrow> counters \<Rightarrow> counters" where
  "add_count k n cs = AList.update k (count_of k cs + n) cs"

definition bump :: "py_str \<Rightarrow> int \<Rightarrow> report \<Rightarrow> report" where
  "bump k n r = (if n \<noteq> 0 then r\<lparr>fr_counters := add_count k n (fr_counters r)\<rparr> else r)"

section \<open>The floor of a unit finding\<close>

text \<open>What a citation list says to the unit floor.\<close>

definition entry_signal_id :: "json_dict \<Rightarrow> py_str option" where
  "entry_signal_id entry = nonempty_str (map_of entry ''signal_id'')"

definition resolved_citation_ids :: "json \<Rightarrow> py_str set" where
  "resolved_citation_ids citations = set (List.map_filter entry_signal_id (entries_of citations))"

definition marker_number :: "json_dict \<Rightarrow> nat option" where
  "marker_number entry =
     (case map_of entry ''marker'' of
        Some (J_str m) \<Rightarrow> (case find_all match_bare m of [] \<Rightarrow> None | n # ns \<Rightarrow> Some n)
      | _ \<Rightarrow> None)"

fun marker_map_from :: "json_dict list \<Rightarrow> (int \<times> py_str) list \<Rightarrow> (int \<times> py_str) list" where
  "marker_map_from [] out = out"
| "marker_map_from (entry # es) out =
     (case (entry_signal_id entry, marker_number entry) of
        (Some sid, Some n) \<Rightarrow> marker_map_from es (AList.update (int n) sid out)
      | _ \<Rightarrow> marker_map_from es out)"

definition marker_to_signal_id :: "json \<Rightarrow> (int \<times> py_str) list" where
  "marker_to_signal_id citations = marker_map_from (entries_of citations) []"

definition GROUNDING_REF_KINDS :: "py_str list" where
  "GROUNDING_REF_KINDS = [''prior_read'', ''situation_register'', ''desk_baseline'', ''open_questions'',
     ''open_events'', ''observation'', ''window_ledger'']"

text \<open>Python's truth value of a JSON value.\<close>

fun json_truthy :: "(py_str \<Rightarrow> rat option) \<Rightarrow> json \<Rightarrow> bool" where
  "json_truthy float_of J_null = False"
| "json_truthy float_of (J_bool b) = b"
| "json_truthy float_of (J_int n) = (n \<noteq> 0)"
| "json_truthy float_of (J_float s) = (float_of s \<noteq> Some 0)"
| "json_truthy float_of (J_str s) = (s \<noteq> [])"
| "json_truthy float_of (J_list vs) = (vs \<noteq> [])"
| "json_truthy float_of (J_object d) = (d \<noteq> [])"

definition is_grounding_citation :: "(py_str \<Rightarrow> rat option) \<Rightarrow> json_dict \<Rightarrow> bool" where
  "is_grounding_citation float_of entry =
     (\<not> (case map_of entry ''signal_id'' of None \<Rightarrow> False | Some v \<Rightarrow> json_truthy float_of v) \<and>
      (case map_of entry ''ref_kind'' of
         Some (J_str k) \<Rightarrow> k \<in> set GROUNDING_REF_KINDS | _ \<Rightarrow> False) \<and>
      (case map_of entry ''evidence_text'' of
         Some (J_str text) \<Rightarrow> py_strip text \<noteq> [] | _ \<Rightarrow> False))"

definition grounding_ordinal :: "json_dict \<Rightarrow> int option" where
  "grounding_ordinal entry =
     (case marker_number entry of
        Some n \<Rightarrow> Some (int n)
      | None \<Rightarrow> (case map_of entry ''ordinal'' of Some (J_int n) \<Rightarrow> Some n | _ \<Rightarrow> None))"

definition grounding_ordinals :: "(py_str \<Rightarrow> rat option) \<Rightarrow> json \<Rightarrow> int set" where
  "grounding_ordinals float_of citations =
     set (List.map_filter grounding_ordinal
            (filter (is_grounding_citation float_of) (entries_of citations)))"

definition uses_subclaim_convention :: "json \<Rightarrow> bool" where
  "uses_subclaim_convention citations =
     list_ex (\<lambda>entry. map_of entry ''ref_kind'' = Some (J_str ''finding'') \<or>
        (case map_of entry ''marker'' of Some (J_str m) \<Rightarrow> take 6 m = ''[[ref:'' | _ \<Rightarrow> False))
       (entries_of citations)"

text \<open>What the floor collects as it goes through the claims.\<close>

record floor_state =
  fs_supported :: int
  fs_spans :: "span list"
  fs_verdicts :: "claim_verdict list"

definition fail_claim :: "py_str \<Rightarrow> py_str \<Rightarrow> int list \<Rightarrow> floor_state \<Rightarrow> floor_state" where
  "fail_claim claim reason markers s =
     s\<lparr>fs_spans := fs_spans s @ [unsupported_span claim reason markers],
       fs_verdicts := fs_verdicts s @ [cv_failed claim reason markers None]\<rparr>"

definition support_claim :: "py_str \<Rightarrow> int list \<Rightarrow> floor_state \<Rightarrow> floor_state" where
  "support_claim claim markers s =
     s\<lparr>fs_supported := fs_supported s + 1, fs_verdicts := fs_verdicts s @ [cv_supported claim markers]\<rparr>"

definition unit_claim ::
  "py_str set \<Rightarrow> (int \<times> py_str) list \<Rightarrow> int set \<Rightarrow> py_str \<Rightarrow> floor_state \<Rightarrow> floor_state" where
  "unit_claim resolved_ids marker_map grounding claim s =
     (let markers = map int (markers_in_claim claim False) in
      if markers = [] then fail_claim claim ''no_citation'' [] s
      else if list_ex (\<lambda>n. case map_of marker_map n of Some sid \<Rightarrow> sid \<in> resolved_ids | None \<Rightarrow> False) markers
              \<or> list_ex (\<lambda>n. n \<in> grounding) markers
      then support_claim claim markers s
      else fail_claim claim ''unresolved_citation'' markers s)"

definition floor_start :: floor_state where
  "floor_start = \<lparr>fs_supported = 0, fs_spans = [], fs_verdicts = []\<rparr>"

definition unit_floor :: "(py_str \<Rightarrow> rat option) \<Rightarrow> py_str list \<Rightarrow> json \<Rightarrow> report" where
  "unit_floor float_of claims citations =
     (let s = fold (unit_claim (resolved_citation_ids citations) (marker_to_signal_id citations)
                      (grounding_ordinals float_of citations)) claims floor_start
      in new_report (int (length claims)) (fs_supported s) (fs_spans s) (fs_verdicts s) None)"

section \<open>The floor of a composition\<close>

definition HEDGE_ATTRIBUTION_MARKERS :: "py_str list" where
  "HEDGE_ATTRIBUTION_MARKERS = [''weakly-supported'', ''weakly supported'', ''unverified'', ''unconfirmed'',
     ''uncorroborated'', ''not corroborated'', ''below the verification floor'', ''reportedly'',
     ''reporting suggests'', ''reports suggest'', ''suggests'', ''suggesting'', ''suggest that'',
     ''may '', ''might '', ''could '', ''appears to'', ''appear to'', ''apparently'', ''possibly'',
     ''potentially'', ''alleged'', ''purported'', ''rumored'', ''rumoured'', ''claims that'', ''claimed'',
     ''according to'', ''single-source'', ''single source'', ''if confirmed'', ''tentative'']"

definition is_hedged_attributed :: "py_str \<Rightarrow> bool" where
  "is_hedged_attributed claim =
     list_ex (\<lambda>m. find_sub m (py_lower claim) \<noteq> None) HEDGE_ATTRIBUTION_MARKERS"

abbreviation HEDGE_EPSILON :: rat where "HEDGE_EPSILON \<equiv> 1 / 1000000"

record bridge =
  br_resolved :: "int set"
  br_eff :: "(int \<times> rat) list"
  br_periphery :: "int set"

definition effs_of :: "(int \<times> rat) list \<Rightarrow> int list \<Rightarrow> rat list" where
  "effs_of eff_map ns = List.map_filter (map_of eff_map) ns"

definition subclaim_claim :: "bridge \<Rightarrow> rat option \<Rightarrow> py_str \<Rightarrow> floor_state \<Rightarrow> floor_state" where
  "subclaim_claim b finding_confidence claim s =
     (let markers = map int (markers_in_claim claim True);
          resolved = filter (\<lambda>n. n \<in> br_resolved b) markers
      in if markers = [] then fail_claim claim ''no_citation'' [] s
         else if resolved = [] then fail_claim claim ''unresolved_citation'' markers s
         else if br_periphery b \<noteq> {} \<and> list_all (\<lambda>n. n \<in> br_periphery b) resolved then
           (if is_hedged_attributed claim then support_claim claim resolved s
            else fail_claim claim ''unhedged_periphery_citation'' resolved s)
         else
           let s = support_claim claim resolved s; cited = effs_of (br_eff b) resolved in
           case finding_confidence of
             Some c \<Rightarrow>
               if cited \<noteq> [] \<and> c > Max (set cited) + HEDGE_EPSILON
               then s\<lparr>fs_spans := fs_spans s @ [unsupported_span claim ''hedge_laundering'' resolved]\<rparr>
               else s
           | None \<Rightarrow> s)"

definition correlated_text :: "int list \<Rightarrow> py_str" where
  "correlated_text grp = ''correlated evidence (shared lineage): '' @
     py_join '', '' (map show_int (sort grp))"

fun component_spans :: "int list list \<Rightarrow> span list" where
  "component_spans [] = []"
| "component_spans (grp # comps) =
     (if length grp > 1
      then [unsupported_span (correlated_text grp) ''double_counted'' (sort grp)] else [])
     @ component_spans comps"

fun rep_effs :: "(int \<times> rat) list \<Rightarrow> int list list \<Rightarrow> rat list" where
  "rep_effs eff_map [] = []"
| "rep_effs eff_map (grp # comps) =
     (let effs = effs_of eff_map grp in (if effs \<noteq> [] then [Max (set effs)] else []))
     @ rep_effs eff_map comps"

definition subclaim_floor ::
  "(py_str \<Rightarrow> rat option) \<Rightarrow> (json \<Rightarrow> py_str) \<Rightarrow> py_str list \<Rightarrow> json \<Rightarrow> rat option \<Rightarrow> report option" where
  "subclaim_floor float_of text_of claims citations finding_confidence =
     (let resolved_ords = resolved_citation_ordinals float_of citations;
          eff_map = ordinal_effconf_map float_of citations;
          b = \<lparr>br_resolved = resolved_ords, br_eff = eff_map,
               br_periphery = periphery_ordinals float_of citations\<rparr>;
          s = fold (subclaim_claim b finding_confidence) claims floor_start
      in map_option (\<lambda>comps.
           let effs = rep_effs eff_map comps in
           new_report (int (length claims)) (fs_supported s) (fs_spans s @ component_spans comps)
             (fs_verdicts s) (if effs \<noteq> [] then Some (Max (set effs)) else None))
         (correlated_components (sorted_list_of_set resolved_ords)
            (ordinal_derived_map float_of text_of citations)
            (Some (ordinal_source_map float_of citations))))"

definition deterministic_floor ::
  "(py_str \<Rightarrow> rat option) \<Rightarrow> (json \<Rightarrow> py_str) \<Rightarrow> py_str list \<Rightarrow> json \<Rightarrow> rat option \<Rightarrow> report option" where
  "deterministic_floor float_of text_of claims citations finding_confidence =
     (if uses_subclaim_convention citations
      then subclaim_floor float_of text_of claims citations finding_confidence
      else Some (unit_floor float_of claims citations))"

section \<open>The books of a report\<close>

text \<open>
  A report's books: every checkable claim has one row of the ledger, the supported claims are the
  rows that pass, and every span that counts is the charge of one failed row, in the same order.
\<close>

definition counted :: "span \<Rightarrow> bool" where
  "counted s = (sp_reason s \<notin> set ADVISORY_REASONS)"

definition passed :: "claim_verdict \<Rightarrow> bool" where
  "passed v = (cv_verdict v = VERDICT_SUPPORTED)"

definition row_ok :: "claim_verdict \<Rightarrow> bool" where
  "row_ok v = (case cv_reason v of
     None \<Rightarrow> cv_verdict v = VERDICT_SUPPORTED | Some r \<Rightarrow> cv_verdict v = fail_class_for_reason r)"

definition span_charge :: "span \<Rightarrow> py_str \<times> py_str option \<times> int list" where
  "span_charge s = (sp_text s, Some (sp_reason s), sp_markers s)"

definition row_charge :: "claim_verdict \<Rightarrow> py_str \<times> py_str option \<times> int list" where
  "row_charge v = (cv_text v, cv_reason v, cv_markers v)"

definition tallies :: "int \<Rightarrow> claim_verdict list \<Rightarrow> bool" where
  "tallies supported rows = (supported = int (length (filter passed rows)) \<and> list_all row_ok rows)"

definition charges :: "span list \<Rightarrow> claim_verdict list \<Rightarrow> bool" where
  "charges spans rows =
     (map span_charge (filter counted spans) = map row_charge (filter (\<lambda>v. \<not> passed v) rows))"

definition books_balance :: "report \<Rightarrow> bool" where
  "books_balance r =
     (fr_checkable r = int (length (fr_ledger r)) \<and> tallies (fr_supported r) (fr_ledger r) \<and>
      charges (fr_spans r) (fr_ledger r) \<and> fr_denominator r = Some (fr_checkable r) \<and>
      fr_score r = ratio (fr_supported r) (fr_checkable r))"

lemma class_not_supported [simp]: "fail_class_for_reason r \<noteq> VERDICT_SUPPORTED"
  by (simp add: fail_class_for_reason_def)

lemma passed_simps [simp]:
  "passed (cv_supported c ms)" "\<not> passed (cv_failed c r ms d)"
  "row_ok (cv_supported c ms)" "row_ok (cv_failed c r ms d)"
  by (simp_all add: passed_def cv_supported_def cv_failed_def row_ok_def)

lemma charge_simps [simp]:
  "row_charge (cv_failed c r ms d) = (c, Some r, ms)"
  "span_charge (unsupported_span c r ms) = (c, Some r, ms)"
  "counted (unsupported_span c r ms) \<longleftrightarrow> r \<notin> set ADVISORY_REASONS"
  by (simp_all add: row_charge_def span_charge_def cv_failed_def unsupported_span_def counted_def)

lemma tallies_append:
  "tallies n xs \<Longrightarrow> tallies m ys \<Longrightarrow> tallies (n + m) (xs @ ys)"
  by (simp add: tallies_def)

lemma charges_append: "charges ss xs \<Longrightarrow> charges ts ys \<Longrightarrow> charges (ss @ ts) (xs @ ys)"
  by (simp add: charges_def)

lemma charges_advisory: "\<not> counted s \<Longrightarrow> charges ss xs \<Longrightarrow> charges (ss @ [s]) xs"
  by (simp add: charges_def)

lemma tallies_range: "tallies n xs \<Longrightarrow> 0 \<le> n \<and> n \<le> int (length xs)"
  by (simp add: tallies_def)

lemma ratio_range: "0 \<le> s \<Longrightarrow> s \<le> c \<Longrightarrow> 0 \<le> ratio s c \<and> ratio s c \<le> 1"
  by (auto simp: ratio_def divide_le_eq_1)

lemma balanced_score: "books_balance r \<Longrightarrow> 0 \<le> fr_score r \<and> fr_score r \<le> 1"
  using tallies_range ratio_range by (fastforce simp: books_balance_def)

subsection \<open>The floor keeps the books\<close>

definition state_balances :: "floor_state \<Rightarrow> bool" where
  "state_balances s = (tallies (fs_supported s) (fs_verdicts s) \<and> charges (fs_spans s) (fs_verdicts s))"

lemma state_balances_start: "state_balances floor_start"
  by (simp add: state_balances_def floor_start_def tallies_def charges_def)

lemma state_balances_support: "state_balances s \<Longrightarrow> state_balances (support_claim c ms s)"
  by (simp add: state_balances_def support_claim_def tallies_def charges_def)

lemma state_balances_fail:
  "r \<notin> set ADVISORY_REASONS \<Longrightarrow> state_balances s \<Longrightarrow> state_balances (fail_claim c r ms s)"
  by (simp add: state_balances_def fail_claim_def tallies_def charges_def)

lemma state_balances_advise:
  "r \<in> set ADVISORY_REASONS \<Longrightarrow> state_balances s \<Longrightarrow>
   state_balances (s\<lparr>fs_spans := fs_spans s @ [unsupported_span c r ms]\<rparr>)"
  by (simp add: state_balances_def charges_advisory)

lemmas state_balances_intros = state_balances_support state_balances_fail state_balances_advise

lemma rows_simps [simp]:
  "fs_verdicts (support_claim c ms s) = fs_verdicts s @ [cv_supported c ms]"
  "fs_verdicts (fail_claim c r ms s) = fs_verdicts s @ [cv_failed c r ms None]"
  by (simp_all add: support_claim_def fail_claim_def)

lemma unit_claim_step:
  assumes "state_balances s"
  shows "state_balances (unit_claim ids mm g c s)"
    "length (fs_verdicts (unit_claim ids mm g c s)) = length (fs_verdicts s) + 1"
  using assms by (auto simp: unit_claim_def Let_def ADVISORY_REASONS_def intro!: state_balances_intros)

lemma subclaim_claim_step:
  assumes "state_balances s"
  shows "state_balances (subclaim_claim b conf c s)"
    "length (fs_verdicts (subclaim_claim b conf c s)) = length (fs_verdicts s) + 1"
  using assms
  by (auto simp: subclaim_claim_def Let_def ADVISORY_REASONS_def
      intro!: state_balances_intros split: option.splits)

lemma claims_fold:
  assumes "\<And>c s. state_balances s \<Longrightarrow> state_balances (step c s)"
    and "\<And>c s. state_balances s \<Longrightarrow> length (fs_verdicts (step c s)) = length (fs_verdicts s) + 1"
    and "state_balances s"
  shows "state_balances (fold step cs s) \<and>
     length (fs_verdicts (fold step cs s)) = length (fs_verdicts s) + length cs"
  using assms(3) by (induction cs arbitrary: s) (simp_all add: assms(1,2))

lemma new_report_balances:
  assumes "state_balances s" "int (length (fs_verdicts s)) = n" "list_all (\<lambda>x. \<not> counted x) extra"
  shows "books_balance (new_report n (fs_supported s) (fs_spans s @ extra) (fs_verdicts s) cap)"
proof -
  have "filter counted extra = []"
    using assms(3) by (simp add: filter_empty_conv list_all_iff)
  then show ?thesis
    using assms(1,2) by (simp add: books_balance_def new_report_def state_balances_def charges_def)
qed

lemma component_spans_advisory: "list_all (\<lambda>x. \<not> counted x) (component_spans comps)"
  by (induction comps) (simp_all add: ADVISORY_REASONS_def)

lemma floor_length_start: "length (fs_verdicts floor_start) = 0"
  by (simp add: floor_start_def)

lemma floor_balances:
  assumes "deterministic_floor float_of text_of claims citations conf = Some r"
  shows "books_balance r" "fr_checkable r = int (length claims)"
proof -
  let ?u = "fold (unit_claim (resolved_citation_ids citations) (marker_to_signal_id citations)
      (grounding_ordinals float_of citations)) claims floor_start"
  have u: "state_balances ?u \<and> length (fs_verdicts ?u) = length claims"
    using claims_fold [OF unit_claim_step state_balances_start] floor_length_start by simp
  have s: "state_balances (fold (subclaim_claim b conf) claims floor_start) \<and>
      length (fs_verdicts (fold (subclaim_claim b conf) claims floor_start)) = length claims" for b
    using claims_fold [OF subclaim_claim_step state_balances_start] floor_length_start by simp
  show "books_balance r"
    using assms u s component_spans_advisory new_report_balances [of ?u _ "[]"]
    by (auto simp: deterministic_floor_def unit_floor_def subclaim_floor_def Let_def
        intro!: new_report_balances split: if_splits)
  show "fr_checkable r = int (length claims)"
    using assms
    by (auto simp: deterministic_floor_def unit_floor_def subclaim_floor_def Let_def new_report_def split: if_splits)
qed

subsection \<open>The floor always returns, and what its ceiling is\<close>

lemma floor_total: "\<exists>r. deterministic_floor float_of text_of claims citations conf = Some r"
proof -
  obtain comps where "correlated_components (sorted_list_of_set (resolved_citation_ordinals float_of citations))
      (ordinal_derived_map float_of text_of citations) (Some (ordinal_source_map float_of citations)) = Some comps"
    using components_cover by blast
  then show ?thesis
    by (simp add: deterministic_floor_def subclaim_floor_def Let_def)
qed

lemma effs_of_set: "set (effs_of m ns) = {e. \<exists>n \<in> set ns. map_of m n = Some e}"
  by (force simp: effs_of_def map_filter_def)

lemma rep_effs_Cons:
  "rep_effs m (k # ks) = (if effs_of m k = [] then [] else [Max (set (effs_of m k))]) @ rep_effs m ks"
  by (simp add: Let_def)

lemma rep_effs_empty: "rep_effs m ks = [] \<longleftrightarrow> (\<forall>k \<in> set ks. effs_of m k = [])"
  by (induction ks) (simp_all add: rep_effs_Cons del: rep_effs.simps(2))

lemma rep_effs_Max:
  assumes "rep_effs m ks \<noteq> []"
  shows "Max (set (rep_effs m ks)) = Max (\<Union>k \<in> set ks. set (effs_of m k))"
  using assms
proof (induction ks)
  case (Cons k ks)
  have fin: "finite (\<Union>j \<in> set ks. set (effs_of m j))" by simp
  show ?case
  proof (cases "rep_effs m ks = []")
    case True
    then have "(\<Union>j \<in> set ks. set (effs_of m j)) = {}"
      by (simp add: rep_effs_empty)
    with Cons.prems True show ?thesis
      by (simp add: rep_effs_Cons del: rep_effs.simps(2) split: if_splits)
  next
    case False
    then have ne: "(\<Union>j \<in> set ks. set (effs_of m j)) \<noteq> {}"
      by (auto simp: rep_effs_empty)
    show ?thesis
    proof (cases "effs_of m k = []")
      case True
      with Cons.IH False show ?thesis by (simp add: rep_effs_Cons del: rep_effs.simps(2))
    next
      case nz: False
      have "Max (set (rep_effs m (k # ks))) = max (Max (set (effs_of m k))) (Max (set (rep_effs m ks)))"
        using False nz by (simp add: rep_effs_Cons del: rep_effs.simps(2))
      also have "\<dots> = Max (set (effs_of m k) \<union> (\<Union>j \<in> set ks. set (effs_of m j)))"
        using nz ne fin Cons.IH False by (simp add: Max_Un)
      finally show ?thesis by simp
    qed
  qed
qed simp

text \<open>The evidence ceiling of a composition is the largest effective confidence of its cited
  sub-claims, whatever their lineage and their sources: grouping the correlated ones does not change
  it. A composition none of whose citations carries one has no ceiling, and the floor always
  returns a report.
\<close>

theorem ceiling_is_plain_maximum:
  "\<exists>r. deterministic_floor float_of text_of claims citations conf = Some r \<and>
     fr_ceiling r =
       (let effs = {e. \<exists>n \<in> resolved_citation_ordinals float_of citations.
                        map_of (ordinal_effconf_map float_of citations) n = Some e}
        in if uses_subclaim_convention citations \<and> effs \<noteq> {} then Some (Max effs) else None)"
proof -
  let ?ords = "resolved_citation_ordinals float_of citations"
  let ?m = "ordinal_effconf_map float_of citations"
  obtain r where r: "deterministic_floor float_of text_of claims citations conf = Some r"
    using floor_total by blast
  have fin: "finite ?ords"
    by (simp add: resolved_citation_ordinals_def)
  obtain comps where comps: "correlated_components (sorted_list_of_set ?ords)
      (ordinal_derived_map float_of text_of citations) (Some (ordinal_source_map float_of citations)) = Some comps"
    "\<Union> (set ` set comps) = ?ords"
    using components_cover fin by (metis set_sorted_list_of_set)
  have union: "(\<Union>k \<in> set comps. set (effs_of ?m k)) = {e. \<exists>n \<in> ?ords. map_of ?m n = Some e}"
    unfolding comps(2) [symmetric] effs_of_set by blast
  have none: "rep_effs ?m comps = [] \<longleftrightarrow> {e. \<exists>n \<in> ?ords. map_of ?m n = Some e} = {}"
    unfolding rep_effs_empty union [symmetric] by simp
  have "fr_ceiling r = (if uses_subclaim_convention citations \<and> {e. \<exists>n \<in> ?ords. map_of ?m n = Some e} \<noteq> {}
      then Some (Max {e. \<exists>n \<in> ?ords. map_of ?m n = Some e}) else None)"
  proof (cases "uses_subclaim_convention citations")
    case True
    then have "fr_ceiling r = (if rep_effs ?m comps \<noteq> [] then Some (Max (set (rep_effs ?m comps))) else None)"
      using r comps(1) by (auto simp: deterministic_floor_def subclaim_floor_def Let_def new_report_def)
    then show ?thesis
      using True none rep_effs_Max [of ?m comps] union by auto
  next
    case False
    then show ?thesis
      using r by (auto simp: deterministic_floor_def unit_floor_def Let_def new_report_def)
  qed
  with r show ?thesis by (simp only: Let_def) blast
qed

end
