(* ===== verification/Severity.thy ===== *)
theory Severity
  imports Faithfulness
begin

text \<open>
  What a contradiction has to survive to stay a hard failure: the evidence corpora of one judge
  run, the resolution of a quote against them and the severity chain
  (\<open>_run_judge\<close> of \<open>data/provenance/verify.py\<close>, \<open>data/provenance/judge_quote_rules.py\<close>,
  \<open>data/provenance/judge_evidence.py\<close>), and the reason each verdict gets
  (\<open>_judge_reason\<close>). The word-list and regular-expression tests on claims and quotes are
  arguments.
\<close>

section \<open>Resolving a quote\<close>

fun collapse_spaces :: "bool \<Rightarrow> py_str \<Rightarrow> py_str" where
  "collapse_spaces prev [] = []"
| "collapse_spaces prev (c # cs) =
     (if py_space c then (if prev then collapse_spaces True cs else CHR '' '' # collapse_spaces True cs)
      else c # collapse_spaces False cs)"

definition normalize_quote_text :: "py_str \<Rightarrow> py_str" where
  "normalize_quote_text text = py_lower (py_strip (collapse_spaces False text))"

definition strip_quotes :: "py_str \<Rightarrow> py_str" where
  "strip_quotes s =
     (let edge = (\<lambda>c. c \<in> {CHR 0x22, CHR 0x27, CHR '' '', CHR ''.''})
      in rev (dropWhile edge (rev (dropWhile edge s))))"

abbreviation JUDGE_QUOTE_MIN_CHARS :: nat where "JUDGE_QUOTE_MIN_CHARS \<equiv> 16"

definition is_in :: "py_str \<Rightarrow> py_str \<Rightarrow> bool" where
  "is_in pat s = (find_sub pat s \<noteq> None)"

definition long_run_of :: "py_str \<Rightarrow> py_str \<Rightarrow> bool" where
  "long_run_of cleaned corpus = (length cleaned \<ge> JUDGE_QUOTE_MIN_CHARS \<and> is_in cleaned corpus)"

definition cleaned_quote :: "py_str \<Rightarrow> py_str" where
  "cleaned_quote quote = strip_quotes (normalize_quote_text quote)"

text \<open>\<open>unescape\<close> decodes the JSON string escapes of a text.\<close>

definition quote_resolves :: "(py_str \<Rightarrow> py_str) \<Rightarrow> py_str \<Rightarrow> py_str \<Rightarrow> bool" where
  "quote_resolves unescape quote corpus =
     (let cleaned = cleaned_quote quote in
      if long_run_of cleaned corpus then True
      else
        let unescaped = cleaned_quote (unescape quote) in
        if unescaped = cleaned then False else long_run_of unescaped corpus)"

definition canonical_judge_quote :: "(py_str \<Rightarrow> py_str) \<Rightarrow> py_str \<Rightarrow> py_str \<Rightarrow> py_str" where
  "canonical_judge_quote unescape quote corpus =
     (if CHR 0x5C \<notin> set quote then quote
      else if long_run_of (cleaned_quote quote) corpus then quote
      else
        let unescaped = unescape quote in
        if unescaped = quote then quote
        else if long_run_of (cleaned_quote unescaped) corpus then unescaped else quote)"

definition quote_restates_claim :: "py_str \<Rightarrow> py_str \<Rightarrow> bool" where
  "quote_restates_claim quote claim =
     (let cleaned = cleaned_quote quote in
      if length cleaned < JUDGE_QUOTE_MIN_CHARS then False else is_in cleaned (normalize_quote_text claim))"

text \<open>The tests on the wording of a claim or of a quote, and the decoding of escapes.\<close>

record lexical =
  lx_unescape :: "py_str \<Rightarrow> py_str"
  lx_nonprop_earned :: "py_str \<Rightarrow> bool"
  lx_cites_prior_read :: "py_str \<Rightarrow> bool"
  lx_hits_carve_out :: "py_str \<Rightarrow> py_str \<Rightarrow> bool"
  lx_misses_denied_scope :: "py_str \<Rightarrow> py_str \<Rightarrow> bool"
  lx_confirms :: "py_str \<Rightarrow> py_str \<Rightarrow> bool"
  lx_hedged_conflict :: "py_str \<Rightarrow> bool"
  lx_routed_out :: "py_str \<Rightarrow> bool"

definition quote_refutes :: "lexical \<Rightarrow> py_str \<Rightarrow> py_str \<Rightarrow> py_str \<Rightarrow> py_str \<Rightarrow> bool" where
  "quote_refutes lx quote claim corpus prior_read_corpus =
     (if \<not> quote_resolves (lx_unescape lx) quote corpus then False
      else if quote_restates_claim quote claim then False
      else \<not> (prior_read_corpus \<noteq> [] \<and> quote_resolves (lx_unescape lx) quote prior_read_corpus \<and>
               lx_cites_prior_read lx claim))"

definition quote_is_refutable_evidence :: "(py_str \<Rightarrow> py_str) \<Rightarrow> py_str \<Rightarrow> py_str \<Rightarrow> py_str \<Rightarrow> bool" where
  "quote_is_refutable_evidence unescape quote signal_corpus self_cited_corpus =
     (if signal_corpus \<noteq> [] \<and> quote_resolves unescape quote signal_corpus then True
      else self_cited_corpus \<noteq> [] \<and> quote_resolves unescape quote self_cited_corpus)"

section \<open>The corpora of one run\<close>

definition signal_backed_ordinals :: "(py_str \<Rightarrow> rat option) \<Rightarrow> json \<Rightarrow> int set" where
  "signal_backed_ordinals float_of citations =
     fst ` set (marker_to_signal_id citations) \<union>
     fst ` set (build_ordinal_map float_of citations
       (\<lambda>entry n. case entry_signal_id entry of Some sid \<Rightarrow> Some n | None \<Rightarrow> None))"

text \<open>\<^verbatim>\<open>str(v or "")\<close> and the first of some keys whose value is true.\<close>

fun text_or_empty :: "(py_str \<Rightarrow> rat option) \<Rightarrow> (json \<Rightarrow> py_str) \<Rightarrow> json option \<Rightarrow> py_str" where
  "text_or_empty float_of text_of None = []"
| "text_or_empty float_of text_of (Some v) =
     (if json_truthy float_of v then json_text text_of v else [])"

fun first_true :: "(py_str \<Rightarrow> rat option) \<Rightarrow> json_dict \<Rightarrow> py_str list \<Rightarrow> json option" where
  "first_true float_of entry [] = None"
| "first_true float_of entry (k # ks) =
     (case map_of entry k of
        Some v \<Rightarrow> if json_truthy float_of v then Some v else first_true float_of entry ks
      | None \<Rightarrow> first_true float_of entry ks)"

definition CAMEO_EVIDENCE_TAG :: py_str where
  "CAMEO_EVIDENCE_TAG = ''GDELT/CAMEO structured event record''"

abbreviation CAMEO_TAG_WINDOW :: nat where "CAMEO_TAG_WINDOW \<equiv> 160"

text \<open>\<open>structured\<close> is the test on source id, provenance kind and title of an entry without text.\<close>

definition is_machine_coded_citation ::
  "(py_str \<Rightarrow> rat option) \<Rightarrow> (json \<Rightarrow> py_str) \<Rightarrow> (py_str \<Rightarrow> py_str \<Rightarrow> py_str \<Rightarrow> bool) \<Rightarrow> json_dict \<Rightarrow> bool" where
  "is_machine_coded_citation float_of text_of structured entry =
     (let primary = dropWhile py_space (text_or_empty float_of text_of (map_of entry ''source_text'')) in
      if primary \<noteq> [] then is_in CAMEO_EVIDENCE_TAG (take CAMEO_TAG_WINDOW primary)
      else
        let fallback = dropWhile py_space (text_or_empty float_of text_of
              (first_true float_of entry [''snippet'', ''evidence_text'', ''summary''])) in
        if fallback \<noteq> [] then is_in CAMEO_EVIDENCE_TAG (take CAMEO_TAG_WINDOW fallback)
        else structured (text_or_empty float_of text_of (map_of entry ''source_id''))
               (text_or_empty float_of text_of (map_of entry ''provenance_kind''))
               (text_or_empty float_of text_of (map_of entry ''title'')))"

definition any_marker :: "json_dict \<Rightarrow> int option" where
  "any_marker entry =
     (case map_of entry ''marker'' of
        Some (J_str m) \<Rightarrow>
          (case find_all match_bare m of
             n # ns \<Rightarrow> Some (int n)
           | [] \<Rightarrow> (case find_all match_ref m of n # ns \<Rightarrow> Some (int n) | [] \<Rightarrow> None))
      | _ \<Rightarrow> None)"

definition machine_coded_ordinals ::
  "(py_str \<Rightarrow> rat option) \<Rightarrow> (json \<Rightarrow> py_str) \<Rightarrow> (py_str \<Rightarrow> py_str \<Rightarrow> py_str \<Rightarrow> bool) \<Rightarrow> json \<Rightarrow> int set" where
  "machine_coded_ordinals float_of text_of structured citations =
     set (List.map_filter any_marker
       (filter (is_machine_coded_citation float_of text_of structured) (entries_of citations)))"

text \<open>\<open>evidence\<close>: the map of ordinals to the texts that the run showed the judge.\<close>

type_synonym evidence = "(int \<times> py_str) list"

definition corpus_of :: "py_str list \<Rightarrow> py_str" where
  "corpus_of texts = normalize_quote_text (py_join [CHR '' '', CHR 0x0A, CHR '' ''] texts)"

record corpora =
  co_quote :: py_str
  co_prior_read :: py_str
  co_signal :: py_str
  co_machine :: py_str
  co_testimony :: py_str
  co_evidence :: evidence
  co_subclaim :: bool

definition run_corpora :: "evidence \<Rightarrow> int set \<Rightarrow> int set \<Rightarrow> bool \<Rightarrow> corpora" where
  "run_corpora evidence signals machines subclaim =
     \<lparr>co_quote = corpus_of (map snd evidence),
      co_prior_read = corpus_of (filter (\<lambda>v. is_in ''prior read'' (py_lower (take 200 v))) (map snd evidence)),
      co_signal = corpus_of (map snd (filter (\<lambda>(n, v). n \<in> signals) evidence)),
      co_machine = corpus_of (map snd (filter (\<lambda>(n, v). n \<in> machines) evidence)),
      co_testimony = (if machines \<noteq> {} then corpus_of (map snd (filter (\<lambda>(n, v). n \<notin> machines) evidence))
                      else corpus_of (map snd evidence)),
      co_evidence = evidence, co_subclaim = subclaim\<rparr>"

definition self_cited_corpus :: "corpora \<Rightarrow> py_str \<Rightarrow> py_str" where
  "self_cited_corpus co claim =
     (let markers = map int (markers_in_claim claim (co_subclaim co)) in
      if markers = [] then [] else corpus_of (List.map_filter (map_of (co_evidence co)) markers))"

section \<open>The severity chain\<close>

abbreviation VERDICT_NOT_A_PROPOSITION :: py_str where "VERDICT_NOT_A_PROPOSITION \<equiv> ''not_a_proposition''"
abbreviation VERDICT_CONTRADICTED :: py_str where "VERDICT_CONTRADICTED \<equiv> ''contradicted''"
abbreviation VERDICT_NONPROP_UNEARNED :: py_str where "VERDICT_NONPROP_UNEARNED \<equiv> ''nonpropositional_unearned''"
abbreviation VERDICT_UNQUOTED :: py_str where "VERDICT_UNQUOTED \<equiv> ''contradicted_unquoted''"
abbreviation VERDICT_UNREFUTED :: py_str where "VERDICT_UNREFUTED \<equiv> ''contradicted_unrefuted''"
abbreviation VERDICT_PRIOR_READ :: py_str where "VERDICT_PRIOR_READ \<equiv> ''prior_read_conflict''"
abbreviation VERDICT_OFF_SCOPE :: py_str where "VERDICT_OFF_SCOPE \<equiv> ''contradicted_off_scope''"
abbreviation VERDICT_CONFIRMS :: py_str where "VERDICT_CONFIRMS \<equiv> ''contradicted_confirmed''"
abbreviation VERDICT_MACHINE_ROW :: py_str where "VERDICT_MACHINE_ROW \<equiv> ''contradicted_machine_row''"
abbreviation VERDICT_ROUTE_EXCLUDED :: py_str where "VERDICT_ROUTE_EXCLUDED \<equiv> ''contradicted_route_excluded''"
abbreviation VERDICT_HEDGED :: py_str where "VERDICT_HEDGED \<equiv> ''contradicted_hedged_conflict''"

definition severity :: "lexical \<Rightarrow> corpora \<Rightarrow> py_str \<Rightarrow> py_str \<Rightarrow> py_str \<Rightarrow> py_str \<times> py_str" where
  "severity lx co verdict raw_quote claim =
     (if verdict = VERDICT_NOT_A_PROPOSITION then
        (if lx_nonprop_earned lx claim then (verdict, []) else (VERDICT_NONPROP_UNEARNED, []))
      else if verdict \<noteq> VERDICT_CONTRADICTED then (verdict, [])
      else
        let quote = canonical_judge_quote (lx_unescape lx) raw_quote (co_quote co);
            resolves = quote_resolves (lx_unescape lx) quote
        in if \<not> resolves (co_quote co) then (VERDICT_UNQUOTED, [])
           else if co_machine co \<noteq> [] \<and> \<not> resolves (co_testimony co) then (VERDICT_MACHINE_ROW, quote)
           else if \<not> quote_is_refutable_evidence (lx_unescape lx) quote (co_signal co) (self_cited_corpus co claim)
           then (VERDICT_PRIOR_READ, quote)
           else if \<not> quote_refutes lx quote claim (co_quote co) (co_prior_read co)
           then (VERDICT_UNREFUTED, quote)
           else if lx_hits_carve_out lx quote claim then (VERDICT_UNREFUTED, quote)
           else if lx_misses_denied_scope lx quote claim then (VERDICT_OFF_SCOPE, quote)
           else if lx_confirms lx quote claim then (VERDICT_CONFIRMS, quote)
           else if lx_hedged_conflict lx claim then (VERDICT_HEDGED, quote)
           else if lx_routed_out lx claim then (VERDICT_ROUTE_EXCLUDED, quote)
           else (verdict, quote))"

text \<open>The verdicts that the chain substitutes, with the reason each gets.\<close>

definition JUDGE_REASONS :: "(py_str \<times> py_str) list" where
  "JUDGE_REASONS = [(VERDICT_NONPROP_UNEARNED, ''judge_nonpropositional_unearned''),
     (VERDICT_CONTRADICTED, ''judge_contradicted''),
     (VERDICT_UNQUOTED, ''judge_contradicted_unquoted''),
     (VERDICT_UNREFUTED, ''judge_contradicted_unrefuted''),
     (VERDICT_PRIOR_READ, ''judge_prior_read_conflict''),
     (VERDICT_OFF_SCOPE, ''judge_contradicted_off_scope''),
     (VERDICT_CONFIRMS, ''judge_quote_confirms_claim''),
     (VERDICT_MACHINE_ROW, ''judge_contradicted_machine_row''),
     (VERDICT_HEDGED, ''judge_contradicted_hedged_conflict''),
     (VERDICT_ROUTE_EXCLUDED, ''judge_contradicted_route_excluded'')]"

definition judge_reason :: "py_str \<Rightarrow> py_str" where
  "judge_reason verdict =
     (case map_of JUDGE_REASONS verdict of Some r \<Rightarrow> r | None \<Rightarrow> ''judge_unsupported'')"

section \<open>When a failure is hard\<close>

text \<open>What the chain asks of the quote and of the claim, without its order.\<close>

definition earned :: "lexical \<Rightarrow> corpora \<Rightarrow> py_str \<Rightarrow> py_str \<Rightarrow> bool" where
  "earned lx co raw_quote claim =
     (let quote = canonical_judge_quote (lx_unescape lx) raw_quote (co_quote co);
          found = (\<lambda>corpus. corpus \<noteq> [] \<and> quote_resolves (lx_unescape lx) quote corpus)
      in quote_resolves (lx_unescape lx) quote (co_quote co) \<and>
         (co_machine co = [] \<or> quote_resolves (lx_unescape lx) quote (co_testimony co)) \<and>
         (found (co_signal co) \<or> found (self_cited_corpus co claim)) \<and>
         \<not> quote_restates_claim quote claim \<and>
         \<not> (found (co_prior_read co) \<and> lx_cites_prior_read lx claim) \<and>
         \<not> lx_hits_carve_out lx quote claim \<and> \<not> lx_misses_denied_scope lx quote claim \<and>
         \<not> lx_confirms lx quote claim \<and> \<not> lx_hedged_conflict lx claim \<and> \<not> lx_routed_out lx claim)"

lemma judge_reason_hard:
  "fail_class_for_reason (judge_reason v) = FAIL_CLASS_HARD \<longleftrightarrow> v = VERDICT_CONTRADICTED"
  by (simp add: judge_reason_def JUDGE_REASONS_def fail_class_for_reason_def HARD_REASONS_def
      COMPOSITION_HARD_def ASSEMBLY_HARD_def)

lemma severity_contradicted:
  "fst (severity lx co v q c) = VERDICT_CONTRADICTED \<longleftrightarrow> v = VERDICT_CONTRADICTED \<and> earned lx co q c"
  by (simp add: severity_def earned_def Let_def quote_refutes_def quote_is_refutable_evidence_def) blast

text \<open>C21: A verdict of the judge becomes a hard failure exactly when it is a contradiction that passes
  every test: the quote is a run of the evidence that was shown, not only of machine-coded rows, it
  stands in source reporting or in evidence that the claim cites, it does not restate the claim, it
  is not the prior read that the claim departs from, and none of the tests on the wording applies.
  Every other failing verdict gets a soft reason, and the quote is kept with the verdict whenever it
  resolved.
\<close>

theorem hard_failure_is_earned:
  "(fail_class_for_reason (judge_reason (fst (severity lx co v q c))) = FAIL_CLASS_HARD \<longleftrightarrow>
      v = VERDICT_CONTRADICTED \<and> earned lx co q c) \<and>
   snd (severity lx co v q c) =
     (if v = VERDICT_CONTRADICTED \<and>
         quote_resolves (lx_unescape lx) (canonical_judge_quote (lx_unescape lx) q (co_quote co)) (co_quote co)
      then canonical_judge_quote (lx_unescape lx) q (co_quote co) else [])"
  unfolding judge_reason_hard severity_contradicted
  by (simp add: severity_def Let_def)

text \<open>The canonical form of a quote resolves when the raw quote does.\<close>

lemma canonical_resolves:
  assumes "long_run_of (cleaned_quote q) corpus"
  shows "canonical_judge_quote u q corpus = q"
  using assms by (simp add: canonical_judge_quote_def)

text \<open>A contradiction can be hard on a quote that no entry of the evidence contains: the entries
  are joined before they are searched and the joint becomes a space, so the end of one report and
  the beginning of the next make a verbatim run.
\<close>

definition plain_lexical :: lexical where
  "plain_lexical = \<lparr>lx_unescape = (\<lambda>s. s), lx_nonprop_earned = (\<lambda>c. False), lx_cites_prior_read = (\<lambda>c. False),
     lx_hits_carve_out = (\<lambda>q c. False), lx_misses_denied_scope = (\<lambda>q c. False), lx_confirms = (\<lambda>q c. False),
     lx_hedged_conflict = (\<lambda>c. False), lx_routed_out = (\<lambda>c. False)\<rparr>"

definition two_reports :: evidence where
  "two_reports = [(1, ''The port remains''), (2, ''closed roads reopened'')]"

theorem stitched_quote_is_hard:
  "severity plain_lexical (run_corpora two_reports {1, 2} {} False) VERDICT_CONTRADICTED
     ''port remains closed'' ''The port is open [1].'' = (VERDICT_CONTRADICTED, ''port remains closed'') \<and>
   list_all (\<lambda>(n, text). \<not> quote_resolves (lx_unescape plain_lexical) ''port remains closed''
     (normalize_quote_text text)) two_reports"
  by code_simp

end
