(* ===== verification/Overrides.thy ===== *)
theory Overrides
  imports Faithfulness "HOL-Library.Multiset"
begin

text \<open>
  What is folded into a faithfulness report after the floor: the structured indicators and the
  spans of the guards (before the judge), the overrides that replace the verdicts of named claims
  and the soft failures of the input checks (after it). \<open>data/provenance/verify.py\<close>,
  \<open>data/provenance/judge_input_checks.py\<close>.
\<close>

section \<open>Structured indicators\<close>

fun json_ints :: "json list \<Rightarrow> int list" where
  "json_ints [] = []"
| "json_ints (v # vs) = (case v of J_int n \<Rightarrow> n # json_ints vs | _ \<Rightarrow> json_ints vs)"

definition indicator_citation_markers :: "json_dict \<Rightarrow> int list" where
  "indicator_citation_markers entry =
     (case map_of entry ''citations'' of Some (J_list cites) \<Rightarrow> json_ints cites | _ \<Rightarrow> [])"

definition indicator_label :: "(py_str \<Rightarrow> rat option) \<Rightarrow> (json \<Rightarrow> py_str) \<Rightarrow> json_dict \<Rightarrow> py_str" where
  "indicator_label float_of text_of entry =
     (let from_id = (case map_of entry ''id'' of
            Some v \<Rightarrow> if json_truthy float_of v then json_text text_of v else ''indicator''
          | None \<Rightarrow> ''indicator'')
      in case map_of entry ''statement'' of
           Some (J_str s) \<Rightarrow> if py_strip s \<noteq> [] then s else from_id
         | _ \<Rightarrow> from_id)"

definition is_triggered :: "json_dict \<Rightarrow> bool" where
  "is_triggered entry = (map_of entry ''status'' = Some (J_str ''triggered''))"

definition uncited_indicator_text :: "(py_str \<Rightarrow> rat option) \<Rightarrow> (json \<Rightarrow> py_str) \<Rightarrow> json_dict \<Rightarrow> py_str" where
  "uncited_indicator_text float_of text_of entry =
     take 500 (''triggered indicator without citation: '' @ indicator_label float_of text_of entry)"

definition cited_indicator_text :: "(py_str \<Rightarrow> rat option) \<Rightarrow> (json \<Rightarrow> py_str) \<Rightarrow> json_dict \<Rightarrow> py_str" where
  "cited_indicator_text float_of text_of entry =
     take 500 (''triggered indicator: '' @ indicator_label float_of text_of entry)"

abbreviation INDICATOR_UNCITED_TRIGGERED :: py_str where
  "INDICATOR_UNCITED_TRIGGERED \<equiv> ''indicator_uncited_triggered''"

fun indicator_spans_from ::
  "(py_str \<Rightarrow> rat option) \<Rightarrow> (json \<Rightarrow> py_str) \<Rightarrow> json_dict list \<Rightarrow> int \<times> int \<times> span list
     \<Rightarrow> int \<times> int \<times> span list" where
  "indicator_spans_from float_of text_of [] acc = acc"
| "indicator_spans_from float_of text_of (entry # es) (checkable, supported, spans) =
     (if \<not> is_triggered entry then indicator_spans_from float_of text_of es (checkable, supported, spans)
      else if indicator_citation_markers entry \<noteq> []
      then indicator_spans_from float_of text_of es (checkable + 1, supported + 1, spans)
      else indicator_spans_from float_of text_of es
             (checkable + 1, supported,
              spans @ [unsupported_span (uncited_indicator_text float_of text_of entry)
                         INDICATOR_UNCITED_TRIGGERED []]))"

definition indicator_spans ::
  "(py_str \<Rightarrow> rat option) \<Rightarrow> (json \<Rightarrow> py_str) \<Rightarrow> json \<Rightarrow> int \<times> int \<times> span list" where
  "indicator_spans float_of text_of indicators =
     indicator_spans_from float_of text_of (entries_of indicators) (0, 0, [])"

fun indicator_rows_from ::
  "(py_str \<Rightarrow> rat option) \<Rightarrow> (json \<Rightarrow> py_str) \<Rightarrow> json_dict list \<Rightarrow> claim_verdict list" where
  "indicator_rows_from float_of text_of [] = []"
| "indicator_rows_from float_of text_of (entry # es) =
     (if \<not> is_triggered entry then indicator_rows_from float_of text_of es
      else
        let markers = indicator_citation_markers entry in
        (if markers \<noteq> [] then cv_supported (cited_indicator_text float_of text_of entry) markers
         else cv_failed (uncited_indicator_text float_of text_of entry) INDICATOR_UNCITED_TRIGGERED [] None)
        # indicator_rows_from float_of text_of es)"

definition indicator_claim_verdicts ::
  "(py_str \<Rightarrow> rat option) \<Rightarrow> (json \<Rightarrow> py_str) \<Rightarrow> json \<Rightarrow> claim_verdict list" where
  "indicator_claim_verdicts float_of text_of indicators =
     indicator_rows_from float_of text_of (entries_of indicators)"

text \<open>
  A rebuilt report takes over the fields its constructor call names; a field it does not name has
  its default.
\<close>

definition fold_indicators ::
  "(py_str \<Rightarrow> rat option) \<Rightarrow> (json \<Rightarrow> py_str) \<Rightarrow> json \<Rightarrow> report \<Rightarrow> report" where
  "fold_indicators float_of text_of indicators r =
     (let (n, ok, spans) = indicator_spans float_of text_of indicators;
          checkable = fr_checkable r + n; supported = fr_supported r + ok
      in if n = 0 then r
         else (new_report checkable supported (fr_spans r @ spans)
                 (fr_ledger r @ indicator_claim_verdicts float_of text_of indicators) (fr_ceiling r))
                \<lparr>fr_judge_status := fr_judge_status r, fr_unavailable := fr_unavailable r,
                 fr_attempts := fr_attempts r, fr_http_statuses := fr_http_statuses r,
                 fr_counters := fr_counters r\<rparr>)"

section \<open>Guard spans\<close>

definition fold_guard_spans :: "span list \<Rightarrow> report \<Rightarrow> report" where
  "fold_guard_spans guard_spans r =
     (if guard_spans = [] then r
      else (new_report (fr_checkable r + int (length guard_spans)) (fr_supported r) (fr_spans r @ guard_spans)
              (fr_ledger r @ map (\<lambda>s. cv_failed (sp_text s) (sp_reason s) (sp_markers s) None) guard_spans)
              (fr_ceiling r))
             \<lparr>fr_judge_status := fr_judge_status r, fr_unavailable := fr_unavailable r,
              fr_attempts := fr_attempts r, fr_http_statuses := fr_http_statuses r,
              fr_counters := fr_counters r\<rparr>)"

section \<open>Overrides of claims\<close>

record claim_override =
  ov_text :: py_str
  ov_supported :: bool
  ov_counter :: py_str
  ov_reason :: "py_str option"
  ov_detail :: "py_str option"
  ov_annotate_only :: bool

text \<open>\<^verbatim>\<open>str(ov.reason)\<close> and \<^verbatim>\<open>ov.detail or cv.detail\<close>.\<close>

definition reason_text :: "claim_override \<Rightarrow> py_str" where
  "reason_text ov = (case ov_reason ov of None \<Rightarrow> ''None'' | Some r \<Rightarrow> r)"

definition str_or :: "py_str option \<Rightarrow> py_str option \<Rightarrow> py_str option" where
  "str_or a b = (if truthy a then a else b)"

definition by_text :: "claim_override list \<Rightarrow> (py_str \<times> claim_override) list" where
  "by_text overrides = fold (\<lambda>ov m. AList.update (py_strip (ov_text ov)) ov m) overrides []"

definition count_overrides :: "claim_override list \<Rightarrow> counters \<Rightarrow> counters" where
  "count_overrides overrides cs = fold (\<lambda>ov cs. add_count (ov_counter ov) 1 cs) overrides cs"

definition erased_counter :: "py_str \<Rightarrow> py_str" where
  "erased_counter reason = ''override_erased_'' @ reason"

text \<open>What the loop over the ledger collects.\<close>

record override_state =
  os_supported :: int
  os_counters :: counters
  os_applied :: "(py_str \<times> claim_override) list"
  os_ledger :: "claim_verdict list"

definition erases :: "claim_override \<Rightarrow> claim_verdict \<Rightarrow> bool" where
  "erases ov cv = (truthy (cv_reason cv) \<and> (ov_supported ov \<or> ov_reason ov \<noteq> cv_reason cv))"

definition replaced_row :: "claim_override \<Rightarrow> claim_verdict \<Rightarrow> claim_verdict" where
  "replaced_row ov cv =
     (if ov_supported ov
      then \<lparr>cv_text = cv_text cv, cv_verdict = VERDICT_SUPPORTED, cv_reason = None,
            cv_markers = cv_markers cv, cv_detail = ov_detail ov, cv_aligned_by = None\<rparr>
      else \<lparr>cv_text = cv_text cv, cv_verdict = fail_class_for_reason (reason_text ov),
            cv_reason = ov_reason ov, cv_markers = cv_markers cv, cv_detail = ov_detail ov,
            cv_aligned_by = None\<rparr>)"

definition override_row ::
  "(py_str \<times> claim_override) list \<Rightarrow> claim_verdict \<Rightarrow> override_state \<Rightarrow> override_state" where
  "override_row named cv s =
     (let key = py_strip (cv_text cv) in
      case map_of named key of
        None \<Rightarrow> s\<lparr>os_ledger := os_ledger s @ [cv]\<rparr>
      | Some ov \<Rightarrow>
          if ov_annotate_only ov
          then s\<lparr>os_ledger := os_ledger s @ [cv\<lparr>cv_detail := str_or (ov_detail ov) (cv_detail cv)\<rparr>]\<rparr>
          else
            s\<lparr>os_applied := AList.update key ov (os_applied s),
              os_counters := (if erases ov cv
                 then add_count (erased_counter (case cv_reason cv of None \<Rightarrow> [] | Some r \<Rightarrow> r)) 1 (os_counters s)
                 else os_counters s),
              os_supported := (if ov_supported ov
                 then (if passed cv then os_supported s else os_supported s + 1)
                 else (if passed cv then os_supported s - 1 else os_supported s)),
              os_ledger := os_ledger s @ [replaced_row ov cv]\<rparr>)"

definition reemitted_span :: "claim_verdict list \<Rightarrow> py_str \<times> claim_override \<Rightarrow> span" where
  "reemitted_span ledger = (\<lambda>(key, ov).
     \<lparr>sp_text = ov_text ov, sp_reason = reason_text ov,
      sp_markers = (case find (\<lambda>cv. py_strip (cv_text cv) = key) ledger of
         None \<Rightarrow> [] | Some cv \<Rightarrow> cv_markers cv),
      sp_detail = ov_detail ov\<rparr>)"

definition added_row :: "claim_override \<Rightarrow> claim_verdict" where
  "added_row ov = \<lparr>cv_text = ov_text ov, cv_verdict = fail_class_for_reason (reason_text ov),
     cv_reason = ov_reason ov, cv_markers = [], cv_detail = ov_detail ov, cv_aligned_by = None\<rparr>"

definition added_span :: "claim_override \<Rightarrow> span" where
  "added_span ov = \<lparr>sp_text = ov_text ov, sp_reason = reason_text ov, sp_markers = [],
     sp_detail = ov_detail ov\<rparr>"

definition denominator :: "report \<Rightarrow> int" where
  "denominator r = (case fr_denominator r of Some d \<Rightarrow> d | None \<Rightarrow> fr_checkable r)"

definition apply_claim_overrides :: "claim_override list \<Rightarrow> report \<Rightarrow> report" where
  "apply_claim_overrides overrides r =
     (if overrides = [] then r
      else
        let named = by_text overrides;
            s = fold (override_row named) (fr_ledger r)
                  \<lparr>os_supported = fr_supported r, os_counters = count_overrides overrides (fr_counters r),
                   os_applied = [], os_ledger = []\<rparr>;
            applied = os_applied s;
            kept = filter (\<lambda>sp. \<not> counted sp \<or> map_of applied (py_strip (sp_text sp)) = None) (fr_spans r);
            failing = filter (\<lambda>(key, ov). \<not> ov_supported ov) applied;
            ungraded = map snd (filter (\<lambda>(key, ov).
              map_of applied key = None \<and> \<not> ov_supported ov \<and> \<not> ov_annotate_only ov) named);
            denom = denominator r + int (length ungraded)
        in r\<lparr>fr_score := (if denom \<le> 0 then 1 else of_int (os_supported s) / of_int denom),
             fr_checkable := fr_checkable r + int (length ungraded),
             fr_supported := os_supported s,
             fr_spans := kept @ map (reemitted_span (os_ledger s)) failing @ map added_span ungraded,
             fr_ledger := os_ledger s @ map added_row ungraded,
             fr_counters := os_counters s,
             fr_denominator := Some denom,
             fr_state := SCORE_STATE_SCORED, fr_state_reason := None,
             fr_partial := None, fr_partial_claims := []\<rparr>)"

section \<open>Soft failures of the input checks\<close>

text \<open>One claim more that is checked and not supported, over the number of checkable claims.\<close>

definition fold_soft :: "py_str \<Rightarrow> py_str \<Rightarrow> int list \<Rightarrow> py_str \<Rightarrow> report \<Rightarrow> report" where
  "fold_soft text reason markers counter r =
     (let span = unsupported_span (take 2000 text) reason markers;
          checkable = fr_checkable r + 1
      in bump counter 1
           (r\<lparr>fr_score := ratio (fr_supported r) checkable, fr_checkable := checkable,
             fr_spans := fr_spans r @ [span],
             fr_ledger := fr_ledger r @ [cv_failed (sp_text span) reason markers None],
             fr_denominator := Some checkable,
             fr_partial := None, fr_partial_claims := []\<rparr>))"

section \<open>The folds keep the books\<close>

lemma new_report_simps [simp]:
  "fr_checkable (new_report n s sp l c) = n" "fr_supported (new_report n s sp l c) = s"
  "fr_spans (new_report n s sp l c) = sp" "fr_ledger (new_report n s sp l c) = l"
  "fr_denominator (new_report n s sp l c) = Some n" "fr_score (new_report n s sp l c) = ratio s n"
  "fr_ceiling (new_report n s sp l c) = c"
  by (simp_all add: new_report_def)

text \<open>A report is balanced by what it says of these six fields only.\<close>

lemma indicator_books:
  assumes "tallies k rows" "charges spans rows"
  shows "\<exists>n ok sps. indicator_spans_from float_of text_of es (checkable, k, spans) = (n, ok, sps) \<and>
     n = checkable + int (length (indicator_rows_from float_of text_of es)) \<and>
     tallies ok (rows @ indicator_rows_from float_of text_of es) \<and>
     charges sps (rows @ indicator_rows_from float_of text_of es)"
  using assms
proof (induction es arbitrary: checkable k spans rows)
  case (Cons entry es)
  let ?t = "uncited_indicator_text float_of text_of entry"
  let ?ok = "cv_supported (cited_indicator_text float_of text_of entry) (indicator_citation_markers entry)"
  let ?bad = "cv_failed ?t INDICATOR_UNCITED_TRIGGERED [] None"
  have good: "tallies (k + 1) (rows @ [?ok])" "charges spans (rows @ [?ok])"
    using Cons.prems by (simp_all add: tallies_def charges_def)
  have bad: "tallies k (rows @ [?bad])"
    "charges (spans @ [unsupported_span ?t INDICATOR_UNCITED_TRIGGERED []]) (rows @ [?bad])"
    using Cons.prems by (simp_all add: tallies_def charges_def ADVISORY_REASONS_def)
  show ?case
    using Cons.IH [OF Cons.prems, of checkable] Cons.IH [OF good, of "checkable + 1"]
      Cons.IH [OF bad, of "checkable + 1"] by (simp add: Let_def algebra_simps)
qed simp

lemma fold_indicators_balances:
  assumes "books_balance r"
  shows "books_balance (fold_indicators float_of text_of indicators r)"
proof -
  obtain n ok sps where i: "indicator_spans float_of text_of indicators = (n, ok, sps)"
    "n = int (length (indicator_claim_verdicts float_of text_of indicators))"
    "tallies ok (indicator_claim_verdicts float_of text_of indicators)"
    "charges sps (indicator_claim_verdicts float_of text_of indicators)"
    using indicator_books [of 0 "[]" "[]" float_of text_of "entries_of indicators" 0]
    by (auto simp: indicator_spans_def indicator_claim_verdicts_def tallies_def charges_def)
  show ?thesis
    using assms i by (simp add: fold_indicators_def books_balance_def tallies_append charges_append)
qed

lemma fold_guard_spans_balances:
  assumes "books_balance r" "list_all counted guard_spans"
  shows "books_balance (fold_guard_spans guard_spans r)"
proof -
  let ?rows = "map (\<lambda>s. cv_failed (sp_text s) (sp_reason s) (sp_markers s) None) guard_spans"
  have "tallies 0 ?rows" "charges guard_spans ?rows"
    using assms(2)
    by (induction guard_spans) (simp_all add: tallies_def charges_def span_charge_def)
  then show ?thesis
    using assms(1) tallies_append [of "fr_supported r" "fr_ledger r" 0 ?rows]
    by (simp add: fold_guard_spans_def books_balance_def charges_append)
qed

section \<open>What the overrides do to the ledger\<close>

abbreviation claim_key :: "claim_verdict \<Rightarrow> py_str" where
  "claim_key cv \<equiv> py_strip (cv_text cv)"

text \<open>The override that takes effect on a row, and the row after the loop.\<close>

definition hit :: "(py_str \<times> claim_override) list \<Rightarrow> claim_verdict \<Rightarrow> claim_override option" where
  "hit named cv = (case map_of named (claim_key cv) of
     Some ov \<Rightarrow> if ov_annotate_only ov then None else Some ov | None \<Rightarrow> None)"

definition row_after :: "(py_str \<times> claim_override) list \<Rightarrow> claim_verdict \<Rightarrow> claim_verdict" where
  "row_after named cv = (case map_of named (claim_key cv) of
     None \<Rightarrow> cv
   | Some ov \<Rightarrow> if ov_annotate_only ov then cv\<lparr>cv_detail := str_or (ov_detail ov) (cv_detail cv)\<rparr>
                else replaced_row ov cv)"

lemma replaced_row_simps [simp]:
  "cv_text (replaced_row ov cv) = cv_text cv" "cv_markers (replaced_row ov cv) = cv_markers cv"
  "passed (replaced_row ov cv) = ov_supported ov"
  "cv_reason (replaced_row ov cv) = (if ov_supported ov then None else ov_reason ov)"
  by (simp_all add: replaced_row_def passed_def)

lemma row_after_text [simp]: "cv_text (row_after named cv) = cv_text cv"
  by (simp add: row_after_def split: option.splits)

lemma row_after_markers [simp]: "cv_markers (row_after named cv) = cv_markers cv"
  by (simp add: row_after_def split: option.splits)

lemma row_after_missed:
  "hit named cv = None \<Longrightarrow> passed (row_after named cv) = passed cv \<and> cv_reason (row_after named cv) = cv_reason cv"
  by (auto simp: hit_def row_after_def passed_def split: option.splits if_splits)

lemma row_after_hit: "hit named cv = Some ov \<Longrightarrow> row_after named cv = replaced_row ov cv"
  by (auto simp: hit_def row_after_def split: option.splits if_splits)

lemma override_row_ledger: "os_ledger (override_row named cv s) = os_ledger s @ [row_after named cv]"
  by (simp add: override_row_def row_after_def Let_def split: option.splits)

lemma override_row_applied:
  "os_applied (override_row named cv s) =
     (case hit named cv of None \<Rightarrow> os_applied s | Some ov \<Rightarrow> AList.update (claim_key cv) ov (os_applied s))"
  by (simp add: override_row_def hit_def Let_def split: option.splits)

lemma override_row_supported:
  "os_supported (override_row named cv s) =
     os_supported s + of_bool (passed (row_after named cv)) - of_bool (passed cv)"
  by (auto simp: override_row_def row_after_def Let_def passed_def [of "cv\<lparr>cv_detail := d\<rparr>" for d]
      passed_def [of cv] split: option.splits)

lemma override_row_counters:
  "os_counters (override_row named cv s) =
     (case hit named cv of
        Some ov \<Rightarrow> if erases ov cv
          then add_count (erased_counter (case cv_reason cv of None \<Rightarrow> [] | Some r \<Rightarrow> r)) 1 (os_counters s)
          else os_counters s
      | None \<Rightarrow> os_counters s)"
  by (cases "map_of named (claim_key cv)") (simp_all add: override_row_def hit_def Let_def)

lemmas override_row_facts = override_row_ledger override_row_applied override_row_supported

lemma rows_ledger: "os_ledger (fold (override_row named) rows s) = os_ledger s @ map (row_after named) rows"
  by (induction rows arbitrary: s) (simp_all add: override_row_ledger)

lemma rows_supported:
  "os_supported (fold (override_row named) rows s) =
     os_supported s + int (length (filter passed (map (row_after named) rows))) - int (length (filter passed rows))"
  by (induction rows arbitrary: s) (simp_all add: override_row_supported)

lemma rows_applied:
  assumes "distinct (map claim_key rows)" "\<forall>cv \<in> set rows. claim_key cv \<notin> fst ` set (os_applied s)"
  shows "os_applied (fold (override_row named) rows s) =
     os_applied s @ List.map_filter (\<lambda>cv. map_option (Pair (claim_key cv)) (hit named cv)) rows"
  using assms
proof (induction rows arbitrary: s)
  case (Cons cv rows)
  have upd: "AList.update k v al = al @ [(k, v)]" if "k \<notin> fst ` set al" for k :: py_str and v :: claim_override and al
    using that by (induction al) auto
  have k: "claim_key cv \<notin> fst ` set (os_applied s)"
    using Cons.prems(2) by simp
  have "claim_key c \<noteq> claim_key cv \<and> claim_key c \<notin> fst ` set (os_applied s)" if "c \<in> set rows" for c
    using Cons.prems that by (auto simp: image_iff)
  then have new: "\<forall>c \<in> set rows. claim_key c \<notin> fst ` set (os_applied (override_row named cv s))"
    by (auto simp: override_row_applied upd [OF k] split: option.splits)
  have d: "distinct (map claim_key rows)"
    using Cons.prems(1) by simp
  show ?case
    using Cons.IH [OF d new]
    by (cases "hit named cv") (simp_all add: map_filter_simps override_row_applied upd [OF k])
qed (simp add: map_filter_simps)

lemma count_add [simp]: "count_of k (add_count k' n cs) = count_of k cs + (if k = k' then n else 0)"
  by (simp add: count_of_def add_count_def map_of_update)

lemma count_overrides_other:
  "\<forall>ov \<in> set ovs. ov_counter ov \<noteq> k \<Longrightarrow> count_of k (count_overrides ovs cs) = count_of k cs"
  unfolding count_overrides_def by (induction ovs arbitrary: cs) auto

lemma erased_counter_eq [simp]: "erased_counter a = erased_counter b \<longleftrightarrow> a = b"
  by (simp add: erased_counter_def)

lemma by_text_entry: "map_of (by_text ovs) k = Some ov \<Longrightarrow> ov \<in> set ovs \<and> py_strip (ov_text ov) = k"
proof -
  have "map_of (fold (\<lambda>ov m. AList.update (py_strip (ov_text ov)) ov m) ovs m) k = Some ov \<Longrightarrow>
      (ov \<in> set ovs \<and> py_strip (ov_text ov) = k) \<or> map_of m k = Some ov" for m
    by (induction ovs arbitrary: m) (fastforce simp: map_of_update split: if_splits)+
  then show "map_of (by_text ovs) k = Some ov \<Longrightarrow> ?thesis"
    by (fastforce simp: by_text_def)
qed

lemma by_text_distinct: "distinct (map fst (by_text ovs))"
proof -
  have "distinct (map fst m) \<Longrightarrow> distinct (map fst (fold (\<lambda>ov m. AList.update (py_strip (ov_text ov)) ov m) ovs m))"
    for m :: "(py_str \<times> claim_override) list"
    by (induction ovs arbitrary: m) (simp_all add: distinct_keys_update)
  then show ?thesis by (simp add: by_text_def)
qed

lemma hit_entry:
  "hit (by_text ovs) cv = Some ov \<Longrightarrow> ov \<in> set ovs \<and> py_strip (ov_text ov) = claim_key cv \<and> \<not> ov_annotate_only ov"
  by (auto simp: hit_def split: option.splits if_splits dest: by_text_entry)

text \<open>The rows that carry a reason, and what the loop over the ledger does to their number.\<close>

definition rows_with :: "py_str \<Rightarrow> claim_verdict list \<Rightarrow> int" where
  "rows_with reason rows = int (length (filter (\<lambda>v. cv_reason v = Some reason) rows))"

lemma rows_with_simps [simp]:
  "rows_with r [] = 0"
  "rows_with r (v # vs) = of_bool (cv_reason v = Some r) + rows_with r vs"
  "rows_with r (xs @ ys) = rows_with r xs + rows_with r ys"
  by (simp_all add: rows_with_def)

definition spares :: "py_str \<Rightarrow> claim_override list \<Rightarrow> bool" where
  "spares reason ovs =
     list_all (\<lambda>ov. ov_counter ov \<noteq> erased_counter reason \<and> (ov_supported ov \<or> ov_reason ov \<noteq> Some reason)) ovs"

lemma row_erased:
  assumes "R \<noteq> []" "spares R ovs"
  shows "count_of (erased_counter R) (os_counters (override_row (by_text ovs) cv s)) +
      of_bool (cv_reason (row_after (by_text ovs) cv) = Some R) =
    count_of (erased_counter R) (os_counters s) + of_bool (cv_reason cv = Some R)"
proof (cases "hit (by_text ovs) cv")
  case None
  then show ?thesis by (simp add: override_row_counters row_after_missed)
next
  case (Some ov)
  then have "ov_supported ov \<or> ov_reason ov \<noteq> Some R"
    using assms(2) hit_entry by (auto simp: spares_def list_all_iff)
  with Some assms(1) show ?thesis
    by (cases "cv_reason cv") (auto simp: override_row_counters row_after_hit erases_def)
qed

lemma rows_erased:
  assumes "R \<noteq> []" "spares R ovs"
  shows "count_of (erased_counter R) (os_counters (fold (override_row (by_text ovs)) rows s)) +
      rows_with R (map (row_after (by_text ovs)) rows) =
    count_of (erased_counter R) (os_counters s) + rows_with R rows"
proof (induction rows arbitrary: s)
  case (Cons cv rows)
  show ?case
    using Cons [of "override_row (by_text ovs) cv s"] row_erased [OF assms, of cv s] by simp
qed simp

subsection \<open>The ledger after the overrides\<close>

text \<open>The overrides whose claim has no row: the failing ones come as new rows.\<close>

definition ungraded_overrides :: "claim_override list \<Rightarrow> report \<Rightarrow> claim_override list" where
  "ungraded_overrides ovs r =
     (let named = by_text ovs;
          s = fold (override_row named) (fr_ledger r)
                \<lparr>os_supported = fr_supported r, os_counters = count_overrides ovs (fr_counters r),
                 os_applied = [], os_ledger = []\<rparr>
      in map snd (filter (\<lambda>(key, ov).
           map_of (os_applied s) key = None \<and> \<not> ov_supported ov \<and> \<not> ov_annotate_only ov) named))"

lemma ungraded_entry: "ov \<in> set (ungraded_overrides ovs r) \<Longrightarrow> ov \<in> set ovs \<and> \<not> ov_supported ov"
  using by_text_entry [of ovs] by_text_distinct [of ovs]
  by (auto simp: ungraded_overrides_def Let_def)

lemma overrides_ledger:
  assumes "ovs \<noteq> []"
  shows "fr_ledger (apply_claim_overrides ovs r) =
    map (row_after (by_text ovs)) (fr_ledger r) @ map added_row (ungraded_overrides ovs r)"
  using assms by (simp add: apply_claim_overrides_def ungraded_overrides_def Let_def rows_ledger)

lemma added_row_simps [simp]:
  "cv_text (added_row ov) = ov_text ov" "cv_reason (added_row ov) = ov_reason ov"
  "cv_markers (added_row ov) = []" "\<not> passed (added_row ov)"
  by (simp_all add: added_row_def passed_def)

lemma overrides_supported:
  assumes "ovs \<noteq> []"
  shows "fr_supported (apply_claim_overrides ovs r) - int (length (filter passed (fr_ledger (apply_claim_overrides ovs r)))) =
    fr_supported r - int (length (filter passed (fr_ledger r)))"
proof -
  have "filter passed (map added_row us) = []" for us
    by (induction us) simp_all
  moreover have "fr_supported (apply_claim_overrides ovs r) =
      fr_supported r + int (length (filter passed (map (row_after (by_text ovs)) (fr_ledger r)))) -
      int (length (filter passed (fr_ledger r)))"
    using assms by (simp add: apply_claim_overrides_def Let_def rows_supported)
  ultimately show ?thesis
    by (simp add: overrides_ledger [OF assms])
qed

lemma overrides_counts:
  assumes "ovs \<noteq> []"
  shows "fr_checkable (apply_claim_overrides ovs r) = fr_checkable r + int (length (ungraded_overrides ovs r))"
    "fr_denominator (apply_claim_overrides ovs r) = Some (denominator r + int (length (ungraded_overrides ovs r)))"
    "fr_score (apply_claim_overrides ovs r) =
       (if denominator r + int (length (ungraded_overrides ovs r)) \<le> 0 then 1
        else of_int (fr_supported (apply_claim_overrides ovs r)) /
             of_int (denominator r + int (length (ungraded_overrides ovs r))))"
  using assms by (simp_all add: apply_claim_overrides_def ungraded_overrides_def Let_def)

lemma pass_erased:
  assumes "R \<noteq> []" "spares R ovs"
  shows "count_of (erased_counter R) (fr_counters (apply_claim_overrides ovs r)) +
      rows_with R (fr_ledger (apply_claim_overrides ovs r)) =
    count_of (erased_counter R) (fr_counters r) + rows_with R (fr_ledger r)"
proof (cases "ovs = []")
  case False
  let ?s0 = "\<lparr>os_supported = fr_supported r, os_counters = count_overrides ovs (fr_counters r),
      os_applied = [], os_ledger = []\<rparr>"
  have none: "rows_with R (map added_row us) = 0" if "\<forall>ov \<in> set us. ov_reason ov \<noteq> Some R" for us
    using that by (induction us) simp_all
  have "ov_reason ov \<noteq> Some R" if "ov \<in> set (ungraded_overrides ovs r)" for ov
    using ungraded_entry [OF that] assms(2) by (auto simp: spares_def list_all_iff)
  then have new: "rows_with R (map added_row (ungraded_overrides ovs r)) = 0"
    by (simp add: none)
  have start: "count_of (erased_counter R) (os_counters ?s0) = count_of (erased_counter R) (fr_counters r)"
    using assms(2) by (simp add: count_overrides_other spares_def list_all_iff)
  have cs: "fr_counters (apply_claim_overrides ovs r) =
      os_counters (fold (override_row (by_text ovs)) (fr_ledger r) ?s0)"
    using False by (simp add: apply_claim_overrides_def Let_def)
  show ?thesis
    using rows_erased [OF assms, of "fr_ledger r" ?s0] start
    unfolding cs overrides_ledger [OF False] rows_with_simps new by linarith
qed (simp add: apply_claim_overrides_def)

text \<open>C13: The erase receipts close the books of every reason: over any sequence of override passes
  that do not themselves fail claims for the reason (and do not use its erase counter), the rows
  that carried the reason before are the rows that carry it after together with the increase of the
  counter \<open>override_erased_\<close> of that reason. No verdict disappears without a receipt.
\<close>

theorem erased_verdicts_accounted:
  assumes "R \<noteq> []" "\<forall>ovs \<in> set passes. spares R ovs"
  shows "rows_with R (fr_ledger r) =
    rows_with R (fr_ledger (fold apply_claim_overrides passes r)) +
    (count_of (erased_counter R) (fr_counters (fold apply_claim_overrides passes r)) -
     count_of (erased_counter R) (fr_counters r))"
  using assms(2)
proof (induction passes arbitrary: r)
  case (Cons ovs passes)
  have ovs: "spares R ovs" and rest: "\<forall>ovs \<in> set passes. spares R ovs"
    using Cons.prems by simp_all
  show ?case
    using Cons.IH [OF rest, of "apply_claim_overrides ovs r"] pass_erased [OF assms(1) ovs, of r]
    unfolding fold_Cons comp_apply by linarith
qed simp

text \<open>A lookup that clears one of two uncited claims.\<close>

definition two_uncited :: report where
  "two_uncited = new_report 2 0 [unsupported_span ''a'' ''no_citation'' [], unsupported_span ''b'' ''no_citation'' []]
     [cv_failed ''a'' ''no_citation'' [] None, cv_failed ''b'' ''no_citation'' [] None] None"

definition verified_a :: claim_override where
  "verified_a = \<lparr>ov_text = ''a'', ov_supported = True, ov_counter = ''metadata_verified'', ov_reason = None,
     ov_detail = None, ov_annotate_only = False\<rparr>"

theorem erased_verdicts_accounted_witness:
  "rows_with ''no_citation'' (fr_ledger two_uncited) = 2 \<and>
   rows_with ''no_citation'' (fr_ledger (fold apply_claim_overrides [[verified_a]] two_uncited)) = 1 \<and>
   count_of (erased_counter ''no_citation'') (fr_counters (fold apply_claim_overrides [[verified_a]] two_uncited)) = 1"
proof -
  have spare: "\<forall>ovs \<in> set [[verified_a]]. spares ''no_citation'' ovs" and r: "''no_citation'' \<noteq> ([] :: py_str)"
    by (simp_all add: spares_def verified_a_def erased_counter_def)
  have one: "rows_with ''no_citation'' (fr_ledger (fold apply_claim_overrides [[verified_a]] two_uncited)) = 1"
    and two: "rows_with ''no_citation'' (fr_ledger two_uncited) = 2"
    and none: "count_of (erased_counter ''no_citation'') (fr_counters two_uncited) = 0"
    by code_simp+
  show ?thesis
    using erased_verdicts_accounted [OF r spare, of two_uncited] unfolding one two none by simp
qed

subsection \<open>The spans after the overrides\<close>

text \<open>
  An override names its claim by the stripped text, so after one the spans and the failed rows
  agree by stripped text, as multisets.
\<close>

definition keyed_span :: "span \<Rightarrow> py_str \<times> py_str option \<times> int list" where
  "keyed_span s = (py_strip (sp_text s), Some (sp_reason s), sp_markers s)"

definition keyed_row :: "claim_verdict \<Rightarrow> py_str \<times> py_str option \<times> int list" where
  "keyed_row v = (claim_key v, cv_reason v, cv_markers v)"

definition spans_match :: "span list \<Rightarrow> claim_verdict list \<Rightarrow> bool" where
  "spans_match spans rows =
     (mset (map keyed_span (filter counted spans)) = mset (map keyed_row (filter (\<lambda>v. \<not> passed v) rows)))"

definition sound_overrides :: "claim_override list \<Rightarrow> bool" where
  "sound_overrides ovs = list_all (\<lambda>ov. ov_supported ov \<or> ov_annotate_only ov \<or>
     (case ov_reason ov of None \<Rightarrow> False | Some R \<Rightarrow> R \<notin> set ADVISORY_REASONS)) ovs"

lemma charges_match: "charges spans rows \<Longrightarrow> spans_match spans rows"
proof -
  assume "charges spans rows"
  then have "map (\<lambda>(t, r, m). (py_strip t, r, m)) (map span_charge (filter counted spans)) =
      map (\<lambda>(t, r, m). (py_strip t, r, m)) (map row_charge (filter (\<lambda>v. \<not> passed v) rows))"
    by (simp only: charges_def)
  then have "map keyed_span (filter counted spans) = map keyed_row (filter (\<lambda>v. \<not> passed v) rows)"
    by (simp add: span_charge_def row_charge_def keyed_span_def [abs_def] keyed_row_def [abs_def] comp_def)
  then show ?thesis by (simp add: spans_match_def)
qed

definition hits :: "(py_str \<times> claim_override) list \<Rightarrow> claim_verdict list \<Rightarrow> (py_str \<times> claim_override) list" where
  "hits named rows = List.map_filter (\<lambda>cv. map_option (Pair (claim_key cv)) (hit named cv)) rows"

lemma hits_simps [simp]:
  "hits named [] = []"
  "hits named (cv # rows) =
     (case hit named cv of None \<Rightarrow> hits named rows | Some ov \<Rightarrow> (claim_key cv, ov) # hits named rows)"
  by (simp_all add: hits_def map_filter_simps split: option.splits)

lemma hits_keys: "map_of (hits named rows) k \<noteq> None \<longleftrightarrow> (\<exists>cv \<in> set rows. claim_key cv = k \<and> hit named cv \<noteq> None)"
  by (induction rows) (auto split: option.splits)

lemma hits_lookup:
  assumes "cv \<in> set rows"
  shows "map_of (hits named rows) (claim_key cv) = None \<longleftrightarrow> hit named cv = None"
proof -
  have same: "hit named c = hit named cv" if "claim_key c = claim_key cv" for c
    using that by (simp add: hit_def)
  have "(\<exists>c \<in> set rows. claim_key c = claim_key cv \<and> hit named c \<noteq> None) \<longleftrightarrow> hit named cv \<noteq> None"
    using assms same by metis
  then show ?thesis
    using hits_keys [of named rows "claim_key cv"] by blast
qed

lemma find_distinct:
  "distinct (map f xs) \<Longrightarrow> x \<in> set xs \<Longrightarrow> find (\<lambda>y. f y = f x) xs = Some x"
  by (induction xs) (auto simp: image_iff)

lemma sound_failing:
  assumes "sound_overrides ovs" "ov \<in> set ovs" "\<not> ov_supported ov" "\<not> ov_annotate_only ov"
  shows "ov_reason ov = Some (reason_text ov)" "reason_text ov \<notin> set ADVISORY_REASONS"
  using assms by (auto simp: sound_overrides_def list_all_iff reason_text_def split: option.splits)

lemma reemitted_rows:
  assumes "sound_overrides ovs"
    and "\<And>cv. cv \<in> set rows \<Longrightarrow> find (\<lambda>c. claim_key c = claim_key cv) L = Some (row_after (by_text ovs) cv)"
  shows "map keyed_span (filter counted
      (map (reemitted_span L) (filter (\<lambda>(k, ov). \<not> ov_supported ov) (hits (by_text ovs) rows)))) =
    map (\<lambda>cv. keyed_row (row_after (by_text ovs) cv))
      (filter (\<lambda>cv. hit (by_text ovs) cv \<noteq> None \<and> \<not> passed (row_after (by_text ovs) cv)) rows)"
  using assms(2)
proof (induction rows)
  case (Cons cv rows)
  show ?case
  proof (cases "hit (by_text ovs) cv")
    case None
    with Cons show ?thesis by simp
  next
    case (Some ov)
    note e = hit_entry [OF Some] and after = row_after_hit [OF Some]
    show ?thesis
    proof (cases "ov_supported ov")
      case True
      with Cons Some after show ?thesis by simp
    next
      case False
      note s = sound_failing [OF assms(1) _ False]
      have "find (\<lambda>c. claim_key c = claim_key cv) L = Some (row_after (by_text ovs) cv)"
        using Cons.prems by simp
      with Cons Some after e s False show ?thesis
        by (simp add: reemitted_span_def counted_def keyed_span_def keyed_row_def)
    qed
  qed
qed simp

lemma added_rows_match:
  assumes "\<And>ov. ov \<in> set us \<Longrightarrow> ov_reason ov = Some (reason_text ov) \<and> reason_text ov \<notin> set ADVISORY_REASONS"
  shows "map keyed_span (filter counted (map added_span us)) =
    map keyed_row (filter (\<lambda>v. \<not> passed v) (map added_row us))"
  using assms
  by (induction us) (simp_all add: keyed_span_def keyed_row_def added_span_def counted_def)

lemma missed_rows:
  "map keyed_row (filter (\<lambda>v. \<not> passed v) (map (row_after named) (filter (\<lambda>cv. hit named cv = None) rows))) =
   map keyed_row (filter (\<lambda>cv. \<not> passed cv \<and> hit named cv = None) rows)"
  by (induction rows) (auto simp: row_after_missed keyed_row_def)

lemma rows_split:
  "mset (map keyed_row (filter (\<lambda>v. \<not> passed v) (map (row_after named) rows))) =
   mset (map keyed_row (filter (\<lambda>cv. \<not> passed cv \<and> hit named cv = None) rows)) +
   mset (map (\<lambda>cv. keyed_row (row_after named cv))
     (filter (\<lambda>cv. hit named cv \<noteq> None \<and> \<not> passed (row_after named cv)) rows))"
proof (induction rows)
  case (Cons cv rows)
  then show ?case
    by (cases "hit named cv") (auto simp: row_after_missed keyed_row_def)
qed simp

lemma kept_spans:
  assumes "spans_match spans rows"
  shows "mset (map keyed_span (filter counted
      (filter (\<lambda>sp. \<not> counted sp \<or> map_of (hits named rows) (py_strip (sp_text sp)) = None) spans))) =
    mset (map keyed_row (filter (\<lambda>cv. \<not> passed cv \<and> hit named cv = None) rows))"
proof -
  let ?free = "\<lambda>(k, _, _). map_of (hits named rows) k = None"
  have spans: "map keyed_span (filter counted
      (filter (\<lambda>sp. \<not> counted sp \<or> map_of (hits named rows) (py_strip (sp_text sp)) = None) spans)) =
      filter ?free (map keyed_span (filter counted spans))"
    by (auto simp: filter_map comp_def keyed_span_def intro!: arg_cong [of _ _ "map keyed_span"] filter_cong)
  have rows: "map keyed_row (filter (\<lambda>cv. \<not> passed cv \<and> hit named cv = None) rows) =
      filter ?free (map keyed_row (filter (\<lambda>v. \<not> passed v) rows))"
    using hits_lookup [of _ rows named]
    by (simp add: filter_map comp_def keyed_row_def conj_commute cong: filter_cong)
  show ?thesis
    unfolding spans rows mset_filter using assms by (simp only: spans_match_def)
qed

lemma distinct_rows_applied:
  assumes "distinct (map claim_key rows)"
  shows "os_applied (fold (override_row named) rows
     \<lparr>os_supported = n, os_counters = cs, os_applied = [], os_ledger = []\<rparr>) = hits named rows"
  using rows_applied [OF assms, of "\<lparr>os_supported = n, os_counters = cs, os_applied = [], os_ledger = []\<rparr>"]
  by (simp add: hits_def)

text \<open>What a report keeps through every pass of overrides, whoever graded it.\<close>

definition ledger_sound :: "report \<Rightarrow> bool" where
  "ledger_sound r = (distinct (map claim_key (fr_ledger r)) \<and> spans_match (fr_spans r) (fr_ledger r) \<and>
     list_all row_ok (fr_ledger r))"

lemma row_after_ok:
  assumes "sound_overrides ovs" "row_ok cv"
  shows "row_ok (row_after (by_text ovs) cv)"
proof (cases "hit (by_text ovs) cv")
  case None
  then show ?thesis
    using assms(2) by (auto simp: hit_def row_after_def row_ok_def split: option.splits if_splits)
next
  case (Some ov)
  then show ?thesis
    using hit_entry [OF Some] sound_failing [OF assms(1), of ov]
    by (auto simp: row_after_hit row_ok_def replaced_row_def)
qed

lemma ungraded_keys:
  "map claim_key (map added_row (ungraded_overrides ovs r)) =
     map fst (filter (\<lambda>(key, ov). map_of (os_applied (fold (override_row (by_text ovs)) (fr_ledger r)
        \<lparr>os_supported = fr_supported r, os_counters = count_overrides ovs (fr_counters r),
         os_applied = [], os_ledger = []\<rparr>)) key = None \<and> \<not> ov_supported ov \<and> \<not> ov_annotate_only ov) (by_text ovs))"
proof -
  have "claim_key (added_row ov) = key" if "(key, ov) \<in> set (by_text ovs)" for key ov
    using that by_text_entry [of ovs key ov] by_text_distinct [of ovs] by simp
  then show ?thesis
    by (auto simp: ungraded_overrides_def Let_def)
qed

lemma ungraded_sound:
  assumes "sound_overrides ovs" "ov \<in> set (ungraded_overrides ovs r)"
  shows "ov_reason ov = Some (reason_text ov)" "reason_text ov \<notin> set ADVISORY_REASONS"
proof -
  have "ov \<in> set ovs" "\<not> ov_supported ov" "\<not> ov_annotate_only ov"
    using ungraded_entry [OF assms(2)] assms(2) by (auto simp: ungraded_overrides_def Let_def)
  then show "ov_reason ov = Some (reason_text ov)" "reason_text ov \<notin> set ADVISORY_REASONS"
    using sound_failing [OF assms(1)] by blast+
qed

lemma ungraded_fresh:
  assumes "distinct (map claim_key (fr_ledger r))"
  shows "distinct (map claim_key (map added_row (ungraded_overrides ovs r)))"
    "cv \<in> set (fr_ledger r) \<Longrightarrow> claim_key cv \<notin> set (map claim_key (map added_row (ungraded_overrides ovs r)))"
proof -
  let ?named = "by_text ovs" and ?rows = "fr_ledger r"
  let ?new = "map fst (filter (\<lambda>(key, ov). map_of (hits ?named ?rows) key = None \<and>
      \<not> ov_supported ov \<and> \<not> ov_annotate_only ov) ?named)"
  have us: "map claim_key (map added_row (ungraded_overrides ovs r)) = ?new"
    by (simp only: ungraded_keys distinct_rows_applied [OF assms])
  show "distinct (map claim_key (map added_row (ungraded_overrides ovs r)))"
    unfolding us using by_text_distinct [of ovs] by (simp add: distinct_map_filter)
  have "False" if cv: "cv \<in> set ?rows" "claim_key cv \<in> set ?new" for cv
  proof -
    obtain ov where ov: "(claim_key cv, ov) \<in> set ?named" "map_of (hits ?named ?rows) (claim_key cv) = None"
      "\<not> ov_annotate_only ov"
      using cv(2) by auto
    then have "hit ?named cv = Some ov"
      using by_text_distinct [of ovs] by (simp add: hit_def)
    with ov(2) show False
      using hits_lookup [OF cv(1)] by simp
  qed
  then show "cv \<in> set ?rows \<Longrightarrow> claim_key cv \<notin> set (map claim_key (map added_row (ungraded_overrides ovs r)))"
    unfolding us by blast
qed

lemma overrides_spans_match:
  assumes "sound_overrides ovs" "ovs \<noteq> []" "distinct (map claim_key (fr_ledger r))"
    and "spans_match (fr_spans r) (fr_ledger r)"
  shows "spans_match (fr_spans (apply_claim_overrides ovs r)) (fr_ledger (apply_claim_overrides ovs r))"
proof -
  let ?named = "by_text ovs" and ?rows = "fr_ledger r" and ?us = "ungraded_overrides ovs r"
  let ?L = "map (row_after ?named) ?rows"
  have found: "find (\<lambda>c. claim_key c = claim_key cv) ?L = Some (row_after ?named cv)" if "cv \<in> set ?rows" for cv
    using find_distinct [of claim_key ?L "row_after ?named cv"] assms(3) that by (simp add: comp_def)
  have spans: "fr_spans (apply_claim_overrides ovs r) =
      filter (\<lambda>sp. \<not> counted sp \<or> map_of (hits ?named ?rows) (py_strip (sp_text sp)) = None) (fr_spans r) @
      map (reemitted_span ?L) (filter (\<lambda>(k, ov). \<not> ov_supported ov) (hits ?named ?rows)) @ map added_span ?us"
    using assms(2)
    by (simp add: apply_claim_overrides_def ungraded_overrides_def Let_def rows_ledger
        distinct_rows_applied [OF assms(3)])
  have re: "map keyed_span (filter counted
      (map (reemitted_span ?L) (filter (\<lambda>(k, ov). \<not> ov_supported ov) (hits ?named ?rows)))) =
    map (\<lambda>cv. keyed_row (row_after ?named cv))
      (filter (\<lambda>cv. hit ?named cv \<noteq> None \<and> \<not> passed (row_after ?named cv)) ?rows)"
    by (rule reemitted_rows [OF assms(1) found])
  have ad: "map keyed_span (filter counted (map added_span ?us)) =
    map keyed_row (filter (\<lambda>v. \<not> passed v) (map added_row ?us))"
    using ungraded_sound [OF assms(1)] by (intro added_rows_match) blast
  show ?thesis
    unfolding spans_match_def spans overrides_ledger [OF assms(2)] filter_append map_append mset_append
      kept_spans [OF assms(4)] re ad rows_split
    by (simp only: add.assoc)
qed

lemma overrides_rows_ok:
  assumes "sound_overrides ovs" "list_all row_ok (fr_ledger r)"
  shows "list_all row_ok (fr_ledger (apply_claim_overrides ovs r))"
proof (cases "ovs = []")
  case False
  then show ?thesis
    using assms(2) row_after_ok [OF assms(1)] ungraded_sound [OF assms(1), of _ r]
    by (auto simp: overrides_ledger list_all_iff row_ok_def added_row_def)
qed (simp add: assms(2) apply_claim_overrides_def)

lemma overrides_keep_sound:
  assumes "sound_overrides ovs" "ledger_sound r"
  shows "ledger_sound (apply_claim_overrides ovs r)"
proof (cases "ovs = []")
  case False
  have "distinct (map claim_key (fr_ledger (apply_claim_overrides ovs r)))"
    using assms(2) ungraded_fresh [where r = r and ovs = ovs]
    by (auto simp: ledger_sound_def overrides_ledger [OF False] comp_def)
  then show ?thesis
    using assms overrides_spans_match [OF assms(1) False, of r] overrides_rows_ok [OF assms(1), of r]
    by (simp add: ledger_sound_def)
qed (use assms(2) in \<open>simp add: apply_claim_overrides_def\<close>)

text \<open>The tally of a report that has one denominator, as on the path without a judge.\<close>

definition tallied :: "report \<Rightarrow> bool" where
  "tallied r = (fr_checkable r = int (length (fr_ledger r)) \<and> tallies (fr_supported r) (fr_ledger r) \<and>
     fr_denominator r = Some (fr_checkable r) \<and> fr_score r = ratio (fr_supported r) (fr_checkable r))"

lemma books_tallied: "books_balance r \<longleftrightarrow> tallied r \<and> charges (fr_spans r) (fr_ledger r)"
  by (auto simp: books_balance_def tallied_def)

lemma overrides_keep_tally:
  assumes "sound_overrides ovs" "tallied r"
  shows "tallied (apply_claim_overrides ovs r)"
proof (cases "ovs = []")
  case False
  have d: "denominator r = int (length (fr_ledger r))"
    using assms(2) by (simp add: tallied_def denominator_def)
  have "fr_supported (apply_claim_overrides ovs r) =
      int (length (filter passed (fr_ledger (apply_claim_overrides ovs r))))"
    using overrides_supported [OF False, of r] assms(2) by (simp add: tallied_def tallies_def)
  then have t: "tallies (fr_supported (apply_claim_overrides ovs r)) (fr_ledger (apply_claim_overrides ovs r))"
    using overrides_rows_ok [OF assms(1), of r] assms(2) by (simp add: tallied_def tallies_def)
  have n: "int (length (fr_ledger (apply_claim_overrides ovs r))) =
      int (length (fr_ledger r)) + int (length (ungraded_overrides ovs r))"
    by (simp add: overrides_ledger [OF False])
  show ?thesis
    using assms(2) t
    by (auto simp: tallied_def ratio_def overrides_counts [OF False] d n)
qed (use assms(2) in \<open>simp add: apply_claim_overrides_def\<close>)

end
