(* ===== verification/Judge.thy ===== *)
theory Judge
  imports Severity Overrides "HOL-Library.Char_ord" "HOL-Library.List_Lexorder" "HOL-Library.Sublist"
begin

text \<open>
  The judge's part of the verify pass (\<open>_run_judge\<close> and \<open>_maybe_llm_judge\<close> of
  \<open>data/provenance/verify.py\<close>, \<open>resolve_partition_outcome\<close> and the telemetry of
  \<open>data/provenance/judge_transport.py\<close>): the claims are split into two partitions, each is sent
  and read (JudgeCall), the verdicts pass the severity chain (Severity) and are put back in the
  order of the claims, and the report of the floor is rebuilt around them.
\<close>

section \<open>Telemetry\<close>

record telemetry =
  te_attempts :: nat
  te_http_statuses :: "py_str list"
  te_unchecked :: "nat list"
  te_by_partition :: "(py_str \<times> nat) list"
  te_delta :: int

definition new_telemetry :: telemetry where
  "new_telemetry = \<lparr>te_attempts = 0, te_http_statuses = [], te_unchecked = [], te_by_partition = [], te_delta = 0\<rparr>"

definition record_calls :: "py_str list \<Rightarrow> telemetry \<Rightarrow> telemetry" where
  "record_calls statuses t =
     t\<lparr>te_attempts := te_attempts t + length statuses, te_http_statuses := te_http_statuses t @ statuses\<rparr>"

definition record_unchecked :: "py_str \<Rightarrow> nat list \<Rightarrow> telemetry \<Rightarrow> telemetry" where
  "record_unchecked name claim_numbers t =
     (if claim_numbers = [] then t
      else t\<lparr>te_unchecked := te_unchecked t @ claim_numbers,
             te_by_partition := AList.update name
               ((case map_of (te_by_partition t) name of None \<Rightarrow> 0 | Some n \<Rightarrow> n) + length claim_numbers)
               (te_by_partition t)\<rparr>)"

definition stamp_telemetry :: "telemetry \<Rightarrow> report \<Rightarrow> report" where
  "stamp_telemetry t r =
     (if te_attempts t = 0 then r
      else
        let r = r\<lparr>fr_attempts := Some (te_attempts t), fr_http_statuses := te_http_statuses t\<rparr>;
            r = (if te_unchecked t \<noteq> []
                 then r\<lparr>fr_partial := Some (length (te_unchecked t)), fr_partial_claims := sort (te_unchecked t)\<rparr>
                 else r)
        in r\<lparr>fr_miscount := te_delta t\<rparr>)"

text \<open>The receipts in the published block: keys with the number, and the claims left out.\<close>

definition judge_transport_receipts :: "report \<Rightarrow> (py_str \<times> nat list) list" where
  "judge_transport_receipts r =
     (case fr_attempts r of
        None \<Rightarrow> []
      | Some n \<Rightarrow>
          [(''judge_attempts'', [n])] @
          (case fr_partial r of
             Some k \<Rightarrow> if k = 0 then [] else [(''judge_partial'', [k]), (''judge_partial_claims'', fr_partial_claims r)]
           | None \<Rightarrow> []))"

definition unmatched_claims :: "report \<Rightarrow> nat" where
  "unmatched_claims r = (case fr_partial r of Some k \<Rightarrow> k | None \<Rightarrow> 0)"

section \<open>One partition\<close>

text \<open>An exception that the pass catches, and the cancellation that it does not.\<close>

datatype judge_exc = Judge_failed | Judge_cancelled

definition judge_claim_partition ::
  "(py_str \<Rightarrow> json option) \<Rightarrow> call_env \<Rightarrow> nat \<Rightarrow> telemetry \<Rightarrow> (judge_exc + graded list) \<times> telemetry" where
  "judge_claim_partition loads env n t =
     (let (res, tp) = call_judge_with_retry env JUDGE_RETRY_ATTEMPTS JUDGE_RETRY_BUDGET_S;
          t = record_calls (tp_statuses tp) t
      in case res of
           Cancelled_out \<Rightarrow> (Inl Judge_cancelled, t)
         | Reraised e \<Rightarrow> (Inl Judge_failed, t)
         | Content content \<Rightarrow>
             let (delta, verdicts) = read_verdicts loads content n;
                 t = t\<lparr>te_delta := te_delta t + delta\<rparr>
             in (case verdicts of Inl e \<Rightarrow> Inl Judge_failed | Inr vs \<Rightarrow> Inr vs, t))"

abbreviation CLAIM_KIND_ABSENCE :: py_str where "CLAIM_KIND_ABSENCE \<equiv> ''absence''"
abbreviation CLAIM_KIND_CITATION_SUPPORT :: py_str where "CLAIM_KIND_CITATION_SUPPORT \<equiv> ''citation_support''"
abbreviation JUDGE_SURVEY_PARTITION :: py_str where "JUDGE_SURVEY_PARTITION \<equiv> ''survey''"

section \<open>The judge run\<close>

text \<open>
  What the run is given: the answers of the provider to each of its calls, the JSON reader, the
  kind of a claim, whether the finding is a null-result survey, and the severity chain over the
  evidence that was shown.
\<close>

record judge_env =
  je_loads :: "py_str \<Rightarrow> json option"
  je_survey :: call_env
  je_shared :: call_env
  je_absence :: call_env
  je_claim_kind :: "py_str \<Rightarrow> py_str"
  je_null_result :: bool
  je_severity :: "py_str \<Rightarrow> py_str \<Rightarrow> py_str \<Rightarrow> py_str \<times> py_str"

text \<open>A judged claim: its text, the verdict, the earned quote, and how it was aligned.\<close>

type_synonym judged = "py_str \<times> py_str \<times> py_str \<times> py_str"
type_synonym by_idx = "(nat \<times> py_str \<times> py_str \<times> py_str) list"

definition severed :: "judge_env \<Rightarrow> py_str \<Rightarrow> graded \<Rightarrow> py_str \<times> py_str \<times> py_str" where
  "severed env claim g =
     (let (v, q, ab) = g; (verdict, quote) = je_severity env v q claim in (verdict, quote, ab))"

definition store_graded :: "judge_env \<Rightarrow> py_str list \<Rightarrow> (nat \<times> graded) list \<Rightarrow> by_idx \<Rightarrow> by_idx" where
  "store_graded env claims graded m =
     fold (\<lambda>(i, g) m. AList.update i (severed env (claims ! i) g) m) graded m"

definition grade_partition ::
  "judge_env \<Rightarrow> call_env \<Rightarrow> py_str \<Rightarrow> py_str list \<Rightarrow> nat list \<Rightarrow> by_idx \<times> py_str list \<times> telemetry
     \<Rightarrow> (judge_exc + by_idx \<times> py_str list) \<times> telemetry" where
  "grade_partition env call name claims idx = (\<lambda>(m, floored, t).
     (if idx = [] then (Inr (m, floored), t)
      else
        (case judge_claim_partition (je_loads env) call (length idx) t of
           (Inl e, t) \<Rightarrow> (Inl e, t)
         | (Inr vs, t) \<Rightarrow>
             let floored = (if vs = [] then floored @ [name] else floored);
                 (graded, ungraded) = split_unchecked idx vs
             in (Inr (store_graded env claims graded m, floored), record_unchecked name ungraded t))))"

text \<open>\<^verbatim>\<open>round(x, 4)\<close>, to the even neighbour on a tie.\<close>

definition round4 :: "rat \<Rightarrow> rat" where
  "round4 x =
     (let y = x * 10000; f = \<lfloor>y\<rfloor>; d = y - of_int f
      in of_int (if d < 1 / 2 then f else if d > 1 / 2 then f + 1 else if even f then f else f + 1) / 10000)"

fun branch_add :: "py_str \<Rightarrow> bool \<Rightarrow> (py_str \<times> nat \<times> nat) list \<Rightarrow> (py_str \<times> nat \<times> nat) list" where
  "branch_add kind ok [] = [(kind, 1, of_bool ok)]"
| "branch_add kind ok ((k, c, s) # bs) =
     (if k = kind then (k, c + 1, s + of_bool ok) # bs else (k, c, s) # branch_add kind ok bs)"

fun rezip ::
  "judge_env \<Rightarrow> by_idx \<Rightarrow> nat \<Rightarrow> py_str list \<Rightarrow> (py_str \<times> nat \<times> nat) list
     \<Rightarrow> judged list \<times> (py_str \<times> nat \<times> nat) list" where
  "rezip env m i [] branches = ([], branches)"
| "rezip env m i (claim # claims) branches =
     (case map_of m i of
        None \<Rightarrow> rezip env m (Suc i) claims branches
      | Some (verdict, quote, ab) \<Rightarrow>
          let (out, bs) = rezip env m (Suc i) claims
                (if verdict = VERDICT_NOT_A_PROPOSITION then branches
                 else branch_add (je_claim_kind env claim) (verdict = VERDICT_SUPPORTED) branches)
          in ((claim, verdict, quote, ab) # out, bs))"

definition score_branches :: "(py_str \<times> nat \<times> nat) list \<Rightarrow> branch_scores" where
  "score_branches bs = map (\<lambda>(k, c, s). (k, c, s, if c = 0 then 1 else round4 (of_nat s / of_nat c))) bs"

type_synonym judge_run = "judged list \<times> branch_scores \<times> py_str list"

definition run_survey :: "judge_env \<Rightarrow> py_str list \<Rightarrow> telemetry \<Rightarrow> (judge_exc + judge_run) \<times> telemetry" where
  "run_survey env claims t =
     (case judge_claim_partition (je_loads env) (je_survey env) (length claims) t of
        (Inl e, t) \<Rightarrow> (Inl e, t)
      | (Inr vs, t) \<Rightarrow>
          if vs = [] then (Inr ([], [], []), t)
          else
            let (graded, ungraded) = split_unchecked [0 ..< length claims] vs
            in (Inr (map (\<lambda>(i, g). (claims ! i, severed env (claims ! i) g)) graded, [], []),
                record_unchecked JUDGE_SURVEY_PARTITION ungraded t))"

definition run_judge :: "judge_env \<Rightarrow> py_str list \<Rightarrow> telemetry \<Rightarrow> (judge_exc + judge_run) \<times> telemetry" where
  "run_judge env claims t =
     (if claims = [] then (Inr ([], [], []), t)
      else if je_null_result env then run_survey env claims t
      else
        let absence = (\<lambda>i. je_claim_kind env (claims ! i) = CLAIM_KIND_ABSENCE);
            absence_idx = filter absence [0 ..< length claims];
            shared_idx = filter (\<lambda>i. \<not> absence i) [0 ..< length claims]
        in case grade_partition env (je_shared env) CLAIM_KIND_CITATION_SUPPORT claims shared_idx ([], [], t) of
             (Inl e, t) \<Rightarrow> (Inl e, t)
           | (Inr (m, floored), t) \<Rightarrow>
               (case grade_partition env (je_absence env) CLAIM_KIND_ABSENCE claims absence_idx (m, floored, t) of
                  (Inl e, t) \<Rightarrow> (Inl e, t)
                | (Inr (m, floored), t) \<Rightarrow>
                    if m = [] then (Inr ([], [], []), t)
                    else let (out, bs) = rezip env m 0 claims [] in (Inr (out, score_branches bs, floored), t)))"

section \<open>The outcome of the partitions\<close>

abbreviation JUDGE_STATUS_PARTIAL :: py_str where "JUDGE_STATUS_PARTIAL \<equiv> ''partial''"
abbreviation JUDGE_STATUS_LLM :: py_str where "JUDGE_STATUS_LLM \<equiv> ''llm''"
abbreviation JUDGE_STATUS_DETERMINISTIC :: py_str where "JUDGE_STATUS_DETERMINISTIC \<equiv> ''deterministic''"

definition partial_text :: "(py_str \<times> nat) list \<Rightarrow> py_str" where
  "partial_text unchecked =
     py_join '','' (map (\<lambda>(name, n). name @ '':'' @ show_nat n) (sort_key fst unchecked))"

definition resolve_partition_outcome ::
  "bool \<Rightarrow> py_str list \<Rightarrow> (py_str \<times> nat) list \<Rightarrow> py_str \<times> py_str option" where
  "resolve_partition_outcome judged floored unchecked =
     (if \<not> judged then (JUDGE_STATUS_DETERMINISTIC, None)
      else
        let reasons = (if floored \<noteq> [] then [''judge_empty_partition:'' @ py_join '','' (sort floored)] else [])
              @ (if unchecked \<noteq> [] then [''judge_partial_verdicts:'' @ partial_text unchecked] else [])
        in if reasons = [] then (JUDGE_STATUS_LLM, None)
           else (JUDGE_STATUS_PARTIAL, Some (py_join '';'' reasons)))"

section \<open>The report around the verdicts\<close>

definition DEMOTION_COUNTERS :: "(py_str \<times> py_str) list" where
  "DEMOTION_COUNTERS = [(VERDICT_UNQUOTED, ''hardfail_demoted_no_quote''),
     (VERDICT_UNREFUTED, ''hardfail_demoted_not_refuting''),
     (VERDICT_PRIOR_READ, ''hardfail_demoted_prior_read''),
     (VERDICT_OFF_SCOPE, ''hardfail_demoted_off_denied_scope''),
     (VERDICT_CONFIRMS, ''hardfail_demoted_quote_confirms''),
     (VERDICT_MACHINE_ROW, ''hardfail_demoted_machine_row''),
     (VERDICT_HEDGED, ''hardfail_demoted_hedged_conflict''),
     (VERDICT_ROUTE_EXCLUDED, ''hardfail_demoted_route_excluded''),
     (VERDICT_NONPROP_UNEARNED, ''nonprop_withdrawn_carries_particular'')]"

text \<open>
  What the reconciliation reads besides the verdicts: the floor's own test for a fact-asserting
  claim, the wording of a detail, and the citations.
\<close>

record merge_env =
  me_fact_asserting :: "py_str \<Rightarrow> bool"
  me_detail :: "py_str \<Rightarrow> py_str \<Rightarrow> py_str \<Rightarrow> py_str option"
  me_float_of :: "py_str \<Rightarrow> rat option"
  me_citations :: json

definition is_graded :: "judged \<Rightarrow> bool" where
  "is_graded = (\<lambda>(claim, verdict, quote, ab). verdict \<noteq> VERDICT_NOT_A_PROPOSITION)"

definition is_failed :: "judged \<Rightarrow> bool" where
  "is_failed = (\<lambda>(claim, verdict, quote, ab).
     verdict \<noteq> VERDICT_NOT_A_PROPOSITION \<and> verdict \<noteq> VERDICT_SUPPORTED)"

definition judged_span :: "merge_env \<Rightarrow> judged \<Rightarrow> span" where
  "judged_span me = (\<lambda>(claim, verdict, quote, ab).
     \<lparr>sp_text = claim, sp_reason = judge_reason verdict, sp_markers = [],
      sp_detail = me_detail me verdict quote claim\<rparr>)"

definition judged_row :: "merge_env \<Rightarrow> judged \<Rightarrow> claim_verdict" where
  "judged_row me = (\<lambda>(claim, verdict, quote, ab).
     (let markers = map int (markers_in_claim claim (uses_subclaim_convention (me_citations me))) in
      if verdict = VERDICT_SUPPORTED then (cv_supported claim markers)\<lparr>cv_aligned_by := Some ab\<rparr>
      else (cv_failed claim (judge_reason verdict) markers (me_detail me verdict quote claim))
             \<lparr>cv_aligned_by := Some ab\<rparr>))"

fun demotion_counts :: "judged list \<Rightarrow> counters \<Rightarrow> counters" where
  "demotion_counts [] cs = cs"
| "demotion_counts ((claim, verdict, quote, ab) # js) cs =
     demotion_counts js
       (if verdict = VERDICT_NOT_A_PROPOSITION \<or> verdict = VERDICT_SUPPORTED then cs
        else (case map_of DEMOTION_COUNTERS verdict of None \<Rightarrow> cs | Some k \<Rightarrow> add_count k 1 cs))"

definition judged_texts :: "judged list \<Rightarrow> py_str set" where
  "judged_texts verdicts = (\<lambda>(claim, _). py_strip claim) ` set verdicts"

definition bump_citationless :: "merge_env \<Rightarrow> report \<Rightarrow> report" where
  "bump_citationless me r =
     (let resolved = (if uses_subclaim_convention (me_citations me)
                      then resolved_citation_ordinals (me_float_of me) (me_citations me) \<noteq> {}
                      else resolved_citation_ids (me_citations me) \<noteq> {})
      in if resolved then r
         else bump (if entries_of (me_citations me) \<noteq> [] then ''citations_unresolvable'' else ''citations_absent'') 1
                (bump ''citationless_graded'' 1 r))"

definition merge_counters :: "counters \<Rightarrow> counters \<Rightarrow> counters" where
  "merge_counters base over = fold (\<lambda>(k, n) cs. AList.update k n cs) over base"

definition reconcile_judge ::
  "merge_env \<Rightarrow> judged list \<Rightarrow> branch_scores \<Rightarrow> py_str \<Rightarrow> py_str option \<Rightarrow> telemetry \<Rightarrow> report \<Rightarrow> report" where
  "reconcile_judge me verdicts branches status partial_reason t r =
     (let texts = judged_texts verdicts;
          graded = filter is_graded verdicts;
          ungraded = length verdicts - length graded;
          floor_counted = length (filter (\<lambda>j. \<not> is_graded j \<and> me_fact_asserting me (fst j)) verdicts);
          supported = length (filter (\<lambda>j. \<not> is_failed j) graded);
          demotions = demotion_counts verdicts [];
          demotions = (if ungraded \<noteq> 0
             then AList.update ''claims_ungraded_nonpropositional'' (int ungraded) demotions else demotions);
          advisory = filter (\<lambda>s. \<not> counted s) (fr_spans r);
          residual = filter (\<lambda>s. counted s \<and> py_strip (sp_text s) \<notin> texts) (fr_spans r);
          effective = int (length graded) + int (length residual)
      in \<lparr>fr_score = ratio (int supported) effective,
          fr_checkable = max (fr_checkable r - int floor_counted) effective,
          fr_supported = int supported,
          fr_spans = map (judged_span me) (filter is_failed verdicts) @ residual @ advisory,
          fr_judge_status = status, fr_unavailable = partial_reason,
          fr_attempts = Some (te_attempts t), fr_http_statuses = te_http_statuses t,
          fr_ceiling = fr_ceiling r, fr_branch_scores = branches,
          fr_ledger = map (judged_row me) graded @
             filter (\<lambda>cv. py_strip (cv_text cv) \<notin> texts) (fr_ledger r),
          fr_counters = merge_counters (fr_counters r) demotions,
          fr_denominator = Some effective,
          fr_state = SCORE_STATE_SCORED, fr_state_reason = None,
          fr_partial = (if te_unchecked t = [] then None else Some (length (te_unchecked t))),
          fr_partial_claims = sort (te_unchecked t),
          fr_miscount = te_delta t\<rparr>)"

text \<open>
  The pass around the judge: \<open>None\<close> when it is cancelled. \<open>enabled\<close> is the flag, and no
  environment is a missing judge component.
\<close>

definition maybe_llm_judge ::
  "bool \<Rightarrow> judge_env option \<Rightarrow> merge_env \<Rightarrow> py_str list \<Rightarrow> report \<Rightarrow> report option" where
  "maybe_llm_judge enabled judge me claims r =
     (if \<not> enabled then Some (r\<lparr>fr_unavailable := Some ''flag_off''\<rparr>)
      else case judge of
        None \<Rightarrow> Some (r\<lparr>fr_unavailable := Some ''no_judge_component''\<rparr>)
      | Some env \<Rightarrow>
          (case run_judge env claims new_telemetry of
             (Inl Judge_cancelled, t) \<Rightarrow> None
           | (Inl Judge_failed, t) \<Rightarrow>
               Some (stamp_telemetry t (r\<lparr>fr_unavailable := Some ''judge_error''\<rparr>))
           | (Inr (verdicts, branches, floored), t) \<Rightarrow>
               let r = stamp_telemetry t r;
                   (status, reason) = resolve_partition_outcome (verdicts \<noteq> []) floored (te_by_partition t)
               in if verdicts = [] then Some (r\<lparr>fr_unavailable := Some ''judge_empty''\<rparr>)
                  else Some (reconcile_judge me verdicts branches status reason t (bump_citationless me r))))"

section \<open>The run accounts for every claim\<close>

lemma retry_loop_statuses:
  "retry_loop env budget left i elapsed exc t = (res, t') \<Longrightarrow>
     length (tp_statuses t') \<le> length (tp_statuses t) + left"
proof (induction env budget left i elapsed exc t rule: retry_loop.induct)
  case (2 env budget left i elapsed exc t)
  obtain v u where a: "judge_attempt (ce_float_of env) (ce_answer env i) t = (v, u)"
    by force
  note receipts = judge_attempt_receipts [OF a]
  show ?case
  proof (cases v)
    case (Leave r)
    with 2 a receipts show ?thesis by auto
  next
    case (Go_on e ra)
    let ?delay = "backoff_delay i ra (ce_jitter env i)"
    show ?thesis
    proof (cases "left = 0 \<or> elapsed + ce_took env i + ?delay > budget")
      case True
      with 2 a receipts Go_on show ?thesis by (auto simp: Let_def split: if_splits)
    next
      case False
      have "length (tp_statuses t') \<le> length (tp_statuses (u\<lparr>tp_sleeps := tp_sleeps u @ [?delay]\<rparr>)) + left"
        using "2.prems" a Go_on False by (intro "2.IH" [OF a [symmetric] Go_on _ refl refl]) (auto simp: Let_def)
      with receipts Go_on show ?thesis by simp
    qed
  qed
qed auto

lemma call_statuses:
  "call_judge_with_retry env JUDGE_RETRY_ATTEMPTS budget = (res, tp) \<Longrightarrow> length (tp_statuses tp) \<le> 3"
  unfolding call_judge_with_retry_def by (drule retry_loop_statuses) simp

lemma partition_telemetry:
  assumes "judge_claim_partition loads env n t = (res, t')"
  shows "te_attempts t' \<le> te_attempts t + 3" "te_unchecked t' = te_unchecked t"
    "te_attempts t = length (te_http_statuses t) \<Longrightarrow> te_attempts t' = length (te_http_statuses t')"
    "res = Inr vs \<Longrightarrow> vs = [] \<or> length vs = n"
proof -
  obtain r tp where call: "call_judge_with_retry env JUDGE_RETRY_ATTEMPTS JUDGE_RETRY_BUDGET_S = (r, tp)"
    by force
  note shape = assms [unfolded judge_claim_partition_def call Let_def]
  show "te_attempts t' \<le> te_attempts t + 3" "te_unchecked t' = te_unchecked t"
    "te_attempts t = length (te_http_statuses t) \<Longrightarrow> te_attempts t' = length (te_http_statuses t')"
    using shape call_statuses [OF call]
    by (auto simp: record_calls_def split: call_result.splits prod.splits)
  show "res = Inr vs \<Longrightarrow> vs = [] \<or> length vs = n"
    using shape read_verdicts_shape(1)
    by (auto split: call_result.splits prod.splits sum.splits)
qed

lemma split_unchecked_length:
  "length idx = length vs \<Longrightarrow>
     length (fst (split_unchecked idx vs)) + length (snd (split_unchecked idx vs)) = length idx"
  using sum_length_filter_compl [of "\<lambda>(i, g). fst g = VERDICT_UNCHECKED" "zip idx vs"]
  by (simp add: split_unchecked_def case_prod_unfold add.commute)

lemma split_unchecked_graded:
  assumes "length idx = length vs" "distinct idx"
  shows "distinct (map fst (fst (split_unchecked idx vs)))"
    "fst ` set (fst (split_unchecked idx vs)) \<subseteq> set idx"
proof -
  have "distinct (map fst (zip idx vs))"
    using assms by simp
  then show "distinct (map fst (fst (split_unchecked idx vs)))"
    by (simp add: split_unchecked_def distinct_map_filter)
  show "fst ` set (fst (split_unchecked idx vs)) \<subseteq> set idx"
    by (auto simp: split_unchecked_def dest: set_zip_leftD)
qed

lemma store_graded_keys:
  "fst ` set (store_graded env claims graded m) = fst ` set graded \<union> fst ` set m"
  "distinct (map fst m) \<Longrightarrow> distinct (map fst (store_graded env claims graded m))"
proof -
  show "fst ` set (store_graded env claims graded m) = fst ` set graded \<union> fst ` set m"
    unfolding store_graded_def by (induction graded arbitrary: m) (simp_all add: dom_update case_prod_unfold)
  show "distinct (map fst m) \<Longrightarrow> distinct (map fst (store_graded env claims graded m))"
    unfolding store_graded_def by (induction graded arbitrary: m) (auto simp: distinct_keys_update)
qed

text \<open>One partition: the claims graded, the claims without a verdict, and the partition floored.\<close>

lemma grade_partition_accounts:
  assumes "grade_partition env call name claims idx (m, floored, t) = (Inr (m', floored'), t')"
    and "distinct idx" "distinct (map fst m)" "fst ` set m \<inter> set idx = {}"
  shows "distinct (map fst m') \<and> fst ` set m \<subseteq> fst ` set m' \<and> fst ` set m' \<subseteq> fst ` set m \<union> set idx \<and>
      ((floored' = floored \<and> length m' + length (te_unchecked t') = length m + length (te_unchecked t) + length idx) \<or>
       (floored' = floored @ [name] \<and> m' = m \<and> te_unchecked t' = te_unchecked t)) \<and>
      te_attempts t' \<le> te_attempts t + 3 \<and>
      (te_attempts t = length (te_http_statuses t) \<longrightarrow> te_attempts t' = length (te_http_statuses t'))"
proof -
  have size: "length x = card (fst ` set x)" if "distinct (map fst x)" for x :: by_idx
    using distinct_card [OF that] by simp
  show ?thesis
  proof (cases "idx = []")
    case True
    with assms show ?thesis
      by (simp add: grade_partition_def)
  next
    case False
    obtain vs u where p: "judge_claim_partition (je_loads env) call (length idx) t = (Inr vs, u)"
      using assms(1) False by (auto simp: grade_partition_def split: prod.splits sum.splits)
    note tel = partition_telemetry [OF p]
    let ?g = "fst (split_unchecked idx vs)" and ?un = "snd (split_unchecked idx vs)"
    have new: "m' = store_graded env claims ?g m" "t' = record_unchecked name ?un u"
      "floored' = (if vs = [] then floored @ [name] else floored)"
      using assms(1) False p by (auto simp: grade_partition_def split: prod.splits)
    have rec: "te_attempts t' = te_attempts u" "te_http_statuses t' = te_http_statuses u"
      "te_unchecked t' = te_unchecked u @ ?un"
      by (simp_all add: new(2) record_unchecked_def)
    show ?thesis
    proof (cases "vs = []")
      case True
      then have "?g = []" "?un = []"
        by (simp_all add: split_unchecked_def)
      with True new rec tel(1,2,3) assms(3) show ?thesis
        by (auto simp: store_graded_def)
    next
      case vs: False
      then have len: "length idx = length vs"
        using tel(4) [OF refl] by simp
      note g = split_unchecked_graded [OF len assms(2)]
      have d: "distinct (map fst m')"
        unfolding new(1) using store_graded_keys(2) [OF assms(3)] .
      have k: "fst ` set m' = fst ` set ?g \<union> fst ` set m"
        unfolding new(1) by (rule store_graded_keys(1))
      have "fst ` set ?g \<inter> fst ` set m = {}"
        using g(2) assms(4) by blast
      then have "length m' = length ?g + length m"
        using size [OF d] size [OF assms(3)] distinct_card [OF g(1)] k by (simp add: card_Un_disjoint)
      then show ?thesis
        using d k g(2) split_unchecked_length [OF len] new(3) vs rec tel(1,2,3) by auto
    qed
  qed
qed

lemma rezip_claims:
  "length (fst (rezip env m i claims bs)) = card (fst ` set m \<inter> {i ..< i + length claims}) \<and>
   subseq (map fst (fst (rezip env m i claims bs))) claims"
proof (induction claims arbitrary: i bs)
  case (Cons c cs)
  have step: "fst ` set m \<inter> {i ..< Suc (i + length cs)} =
      (if map_of m i = None then {} else {i}) \<union> (fst ` set m \<inter> {Suc i ..< Suc (i + length cs)})"
  proof -
    have "{i ..< Suc (i + length cs)} = insert i {Suc i ..< Suc (i + length cs)}"
      by auto
    then show ?thesis
      by (auto simp: map_of_eq_None_iff)
  qed
  have "card (fst ` set m \<inter> {i ..< Suc (i + length cs)}) =
      of_bool (map_of m i \<noteq> None) + card (fst ` set m \<inter> {Suc i ..< Suc (i + length cs)})"
    unfolding step by (subst card_Un_disjoint) auto
  then show ?case
    using Cons.IH [of "Suc i"]
    by (auto simp: case_prod_unfold Let_def subseq_Cons2_iff split: option.splits intro: list_emb_Cons)
qed simp

definition partition_size :: "judge_env \<Rightarrow> py_str list \<Rightarrow> py_str \<Rightarrow> nat" where
  "partition_size env claims name =
     length (filter (\<lambda>c. (je_claim_kind env c = CLAIM_KIND_ABSENCE) = (name = CLAIM_KIND_ABSENCE)) claims)"

lemma filter_indices_length:
  "length (filter (\<lambda>i. P (xs ! i)) [0 ..< length xs]) = length (filter P xs)"
proof -
  have "filter P (map ((!) xs) [0 ..< length xs]) = map ((!) xs) (filter (\<lambda>i. P (xs ! i)) [0 ..< length xs])"
    by (simp add: filter_map comp_def)
  then show ?thesis
    by (metis length_map map_nth)
qed

lemma filter_both_lengths: "length (filter P xs) + length (filter (\<lambda>x. \<not> P x) xs) = length xs"
  by (rule sum_length_filter_compl)

lemma survey_accounts:
  assumes "run_survey env claims t = (Inr (verdicts, branches, floored), t')" "verdicts \<noteq> []"
  shows "length verdicts + length (te_unchecked t') = length claims + length (te_unchecked t) \<and>
     subseq (map fst verdicts) claims \<and> te_attempts t' \<le> te_attempts t + 3 \<and> floored = []"
proof -
  obtain vs u where p: "judge_claim_partition (je_loads env) (je_survey env) (length claims) t = (Inr vs, u)"
    using assms by (auto simp: run_survey_def split: prod.splits sum.splits)
  note tel = partition_telemetry [OF p]
  have vs: "vs \<noteq> []"
    using assms p by (auto simp: run_survey_def)
  then have len: "length [0 ..< length claims] = length vs"
    using tel(4) [OF refl] by simp
  let ?g = "fst (split_unchecked [0 ..< length claims] vs)"
  have v: "verdicts = map (\<lambda>(i, g). (claims ! i, severed env (claims ! i) g)) ?g"
    and t': "t' = record_unchecked JUDGE_SURVEY_PARTITION (snd (split_unchecked [0 ..< length claims] vs)) u"
    and f: "floored = []"
    using assms p vs by (auto simp: run_survey_def split: prod.splits)
  have "subseq (map fst ?g) (map fst (zip [0 ..< length claims] vs))"
    unfolding split_unchecked_def by (simp add: subseq_map)
  then have "subseq (map ((!) claims) (map fst ?g)) (map ((!) claims) [0 ..< length claims])"
    using len by (intro subseq_map) simp
  then have "subseq (map fst verdicts) claims"
    by (simp add: v map_nth comp_def case_prod_unfold)
  moreover have "length ?g + length (snd (split_unchecked [0 ..< length claims] vs)) = length claims"
    using split_unchecked_length [OF len] by simp
  ultimately show ?thesis
    using tel(1,2) by (auto simp: v t' f record_unchecked_def)
qed

lemma partitions_account:
  assumes "run_judge env claims t = (Inr (verdicts, branches, floored), t')" "verdicts \<noteq> []"
    and "\<not> je_null_result env"
  shows "length verdicts + length (te_unchecked t') + (\<Sum>name\<leftarrow>floored. partition_size env claims name) =
       length claims + length (te_unchecked t) \<and>
     subseq (map fst verdicts) claims \<and> te_attempts t' \<le> te_attempts t + 6"
proof -
  let ?ab = "\<lambda>i. je_claim_kind env (claims ! i) = CLAIM_KIND_ABSENCE"
  let ?A = "filter ?ab [0 ..< length claims]" and ?S = "filter (\<lambda>i. \<not> ?ab i) [0 ..< length claims]"
  have ne: "claims \<noteq> []"
    using assms by (auto simp: run_judge_def)
  obtain m1 f1 t1 where g1: "grade_partition env (je_shared env) CLAIM_KIND_CITATION_SUPPORT claims ?S ([], [], t) = (Inr (m1, f1), t1)"
    using assms ne by (auto simp: run_judge_def Let_def split: prod.splits sum.splits)
  obtain m2 f2 where g2: "grade_partition env (je_absence env) CLAIM_KIND_ABSENCE claims ?A (m1, f1, t1) = (Inr (m2, f2), t')"
    and out: "verdicts = fst (rezip env m2 0 claims [])" "floored = f2"
    using assms ne g1 by (auto simp: run_judge_def Let_def split: prod.splits sum.splits if_splits)
  note a1 = grade_partition_accounts [OF g1]
  have d1: "distinct (map fst m1)" "fst ` set m1 \<subseteq> set ?S"
    using a1 by simp_all
  have "fst ` set m1 \<inter> set ?A = {}"
    using d1(2) by auto
  note a2 = grade_partition_accounts [OF g2 _ d1(1) this]
  have d2: "distinct (map fst m2)" "fst ` set m2 \<subseteq> fst ` set m1 \<union> set ?A"
    using a2 by simp_all
  have in_range: "fst ` set m2 \<subseteq> {0 ..< length claims}"
    using d2(2) d1(2) by fastforce
  have "length m2 = card (fst ` set m2)"
    using distinct_card [OF d2(1)] by simp
  then have len: "length verdicts = length m2"
    using rezip_claims [of env m2 0 claims "[]"] in_range by (simp add: out Int_absorb2)
  have sizes: "length ?A = partition_size env claims CLAIM_KIND_ABSENCE"
    "length ?S = partition_size env claims CLAIM_KIND_CITATION_SUPPORT"
    by (simp_all add: partition_size_def filter_indices_length [where P = "\<lambda>c. je_claim_kind env c = CLAIM_KIND_ABSENCE"]
        filter_indices_length [where P = "\<lambda>c. je_claim_kind env c \<noteq> CLAIM_KIND_ABSENCE"])
  have whole: "length ?A + length ?S = length claims"
    using filter_both_lengths [of ?ab "[0 ..< length claims]"] by simp
  show ?thesis
    using a1 a2 whole rezip_claims [of env m2 0 claims "[]"] unfolding len
    by (auto simp: out sizes)
qed

text \<open>C28: A judge run loses no claim. When it returns verdicts, each claim has a verdict, or is
  counted as left without one, or belongs to a partition that is reported as empty: the three
  numbers add up to the number of claims. The verdicts stand in the order of the claims, and the
  run sends at most six requests.
\<close>

theorem judge_run_accounts_claims:
  assumes "run_judge env claims new_telemetry = (Inr (verdicts, branches, floored), t)" "verdicts \<noteq> []"
  shows "length verdicts + length (te_unchecked t) + (\<Sum>name\<leftarrow>floored. partition_size env claims name) =
       length claims \<and>
     subseq (map fst verdicts) claims \<and> te_attempts t \<le> 6"
proof -
  have zero: "te_unchecked new_telemetry = []" "te_attempts new_telemetry = 0"
    by (simp_all add: new_telemetry_def)
  show ?thesis
  proof (cases "je_null_result env")
    case True
    then have "run_survey env claims new_telemetry = (Inr (verdicts, branches, floored), t)"
      using assms by (auto simp: run_judge_def split: if_splits)
    from survey_accounts [OF this assms(2)] show ?thesis
      by (simp add: zero)
  next
    case False
    from partitions_account [OF assms False] show ?thesis
      by (simp add: zero)
  qed
qed

definition one_reply :: call_env where
  "one_reply = \<lparr>ce_answer = (\<lambda>_. Responded \<lparr>rs_content = Some ''{}'', rs_raw_response = None\<rparr>),
     ce_took = (\<lambda>_. 1), ce_jitter = (\<lambda>_. 0), ce_oversleep = (\<lambda>_. 0), ce_float_of = (\<lambda>_. None)\<rparr>"

definition one_run :: judge_env where
  "one_run = \<lparr>je_loads = (\<lambda>_. Some (J_object [(''verdicts'',
       J_list [J_object [(''claim'', J_int 1), (''verdict'', J_str ''supported'')]])])),
     je_survey = one_reply, je_shared = one_reply, je_absence = one_reply,
     je_claim_kind = (\<lambda>c. if c = ''b'' then CLAIM_KIND_ABSENCE else CLAIM_KIND_CITATION_SUPPORT),
     je_null_result = False, je_severity = (\<lambda>v q c. (v, q))\<rparr>"

lemma one_run_result:
  "run_judge one_run [''a'', ''b''] new_telemetry =
     (Inr ([(''a'', VERDICT_SUPPORTED, [], ALIGNED_BY_CLAIM_INDEX),
            (''b'', VERDICT_SUPPORTED, [], ALIGNED_BY_CLAIM_INDEX)],
           [(CLAIM_KIND_CITATION_SUPPORT, 1, 1, 1), (CLAIM_KIND_ABSENCE, 1, 1, 1)], []),
      \<lparr>te_attempts = 2, te_http_statuses = [STATUS_OK, STATUS_OK], te_unchecked = [], te_by_partition = [],
       te_delta = 0\<rparr>)"
  by code_simp

theorem judge_run_accounts_claims_witness:
  "\<exists>verdicts branches t. run_judge one_run [''a'', ''b''] new_telemetry = (Inr (verdicts, branches, []), t) \<and>
     verdicts \<noteq> [] \<and> length verdicts + length (te_unchecked t) = 2 \<and>
     subseq (map fst verdicts) [''a'', ''b''] \<and> te_attempts t \<le> 6"
  using judge_run_accounts_claims [OF one_run_result] by (simp add: one_run_result)

section \<open>The books after the judge\<close>

text \<open>
  Span and row agree by text and reason: a span of the judge names no markers. The carried rows are
  those of the claims that the judge did not see.
\<close>

definition blame_span :: "span \<Rightarrow> py_str \<times> py_str option" where
  "blame_span s = (sp_text s, Some (sp_reason s))"

definition blame_row :: "claim_verdict \<Rightarrow> py_str \<times> py_str option" where
  "blame_row v = (cv_text v, cv_reason v)"

definition carried :: "judged list \<Rightarrow> report \<Rightarrow> claim_verdict list" where
  "carried verdicts r = filter (\<lambda>v. claim_key v \<notin> judged_texts verdicts) (fr_ledger r)"

lemma judge_reason_counts: "judge_reason v \<notin> set ADVISORY_REASONS"
  by (simp add: judge_reason_def JUDGE_REASONS_def ADVISORY_REASONS_def)

lemma judged_span_facts [simp]:
  "counted (judged_span me j)" "blame_span (judged_span me j) = (fst j, Some (judge_reason (fst (snd j))))"
  by (auto simp: judged_span_def counted_def blame_span_def judge_reason_counts split: prod.splits)

lemma judged_row_facts [simp]:
  "passed (judged_row me j) \<longleftrightarrow> fst (snd j) = VERDICT_SUPPORTED" "row_ok (judged_row me j)"
  "fst (snd j) \<noteq> VERDICT_SUPPORTED \<Longrightarrow> blame_row (judged_row me j) = (fst j, Some (judge_reason (fst (snd j))))"
  by (auto simp: judged_row_def Let_def passed_def row_ok_def blame_row_def cv_supported_def cv_failed_def
      split: prod.splits)

lemma is_failed_graded: "is_failed j \<longleftrightarrow> is_graded j \<and> fst (snd j) \<noteq> VERDICT_SUPPORTED"
  by (simp add: is_failed_def is_graded_def case_prod_unfold)

lemma judged_blame:
  "map blame_span (map (judged_span me) (filter is_failed js)) =
   map blame_row (filter (\<lambda>v. \<not> passed v) (map (judged_row me) (filter is_graded js)))"
  by (induction js) (simp_all add: is_failed_graded)

lemma judged_passes:
  "length (filter (\<lambda>j. \<not> is_failed j) (filter is_graded js)) =
   length (filter passed (map (judged_row me) (filter is_graded js)))"
  by (induction js) (simp_all add: is_failed_graded)

lemma residual_blame:
  assumes "charges spans rows"
  shows "map blame_span (filter (\<lambda>s. counted s \<and> py_strip (sp_text s) \<notin> T) spans) =
    map blame_row (filter (\<lambda>v. \<not> passed v) (filter (\<lambda>v. claim_key v \<notin> T) rows))"
proof -
  let ?free = "\<lambda>(t, r, m). py_strip t \<notin> T" and ?two = "\<lambda>(t, r, m). (t, r)"
  have "map ?two (filter ?free (map span_charge (filter counted spans))) =
      map ?two (filter ?free (map row_charge (filter (\<lambda>v. \<not> passed v) rows)))"
    using assms by (simp only: charges_def)
  then show ?thesis
    by (simp add: filter_map comp_def span_charge_def row_charge_def blame_span_def [abs_def]
        blame_row_def [abs_def] conj_commute)
qed

lemma passed_split: "length (filter passed rows) + length (filter (\<lambda>v. \<not> passed v) rows) = length rows"
  by (rule sum_length_filter_compl)

text \<open>C8: The books after the judge. The supported claims are the rows that the judge passed; the
  denominator is the number of rows less the carried rows that pass, which nobody judged; the score
  is between 0 and 1. Every failed row has one span with its text and its reason, every row has the
  class of its reason, and the advisory spans of the floor stay.
\<close>

theorem judge_merge_books:
  assumes "books_balance r"
  shows "let r' = reconcile_judge me verdicts branches status reason t r;
             unjudged = int (length (filter passed (carried verdicts r)))
         in fr_supported r' + unjudged = int (length (filter passed (fr_ledger r'))) \<and>
            fr_denominator r' = Some (int (length (fr_ledger r')) - unjudged) \<and>
            denominator r' \<le> fr_checkable r' \<and>
            0 \<le> fr_score r' \<and> fr_score r' \<le> 1 \<and>
            map blame_span (filter counted (fr_spans r')) = map blame_row (filter (\<lambda>v. \<not> passed v) (fr_ledger r')) \<and>
            list_all row_ok (fr_ledger r') \<and>
            filter (\<lambda>s. \<not> counted s) (fr_spans r') = filter (\<lambda>s. \<not> counted s) (fr_spans r)"
proof -
  let ?r' = "reconcile_judge me verdicts branches status reason t r"
  let ?G = "filter is_graded verdicts"
  let ?R = "filter (\<lambda>s. counted s \<and> py_strip (sp_text s) \<notin> judged_texts verdicts) (fr_spans r)"
  have books: "charges (fr_spans r) (fr_ledger r)" "list_all row_ok (fr_ledger r)"
    using assms by (simp_all add: books_balance_def tallies_def)
  have ledger: "fr_ledger ?r' = map (judged_row me) ?G @ carried verdicts r"
    and spans: "fr_spans ?r' = map (judged_span me) (filter is_failed verdicts) @ ?R @ filter (\<lambda>s. \<not> counted s) (fr_spans r)"
    and judged: "fr_supported ?r' = int (length (filter (\<lambda>j. \<not> is_failed j) ?G))"
    and denom: "fr_denominator ?r' = Some (int (length ?G) + int (length ?R))"
    and score: "fr_score ?r' = ratio (fr_supported ?r') (int (length ?G) + int (length ?R))"
    and checkable: "fr_checkable ?r' \<ge> int (length ?G) + int (length ?R)"
    by (simp_all only: reconcile_judge_def Let_def carried_def report.simps max.cobounded2)
  have supported: "fr_supported ?r' = int (length (filter passed (map (judged_row me) ?G)))"
    unfolding judged judged_passes [of verdicts me] ..
  have rows: "map blame_span ?R = map blame_row (filter (\<lambda>v. \<not> passed v) (carried verdicts r))"
    unfolding carried_def by (rule residual_blame [OF books(1)])
  then have "length ?R = length (filter (\<lambda>v. \<not> passed v) (carried verdicts r))"
    by (rule map_eq_imp_length_eq)
  then have n: "length ?R + length (filter passed (carried verdicts r)) = length (carried verdicts r)"
    using passed_split [of "carried verdicts r"] by simp
  have "length (filter passed (map (judged_row me) ?G)) \<le> length ?G"
    by (metis length_filter_le length_map)
  then have range: "0 \<le> fr_score ?r' \<and> fr_score ?r' \<le> 1"
    unfolding score supported by (intro ratio_range) simp_all
  have all: "filter counted (map (judged_span me) js) = map (judged_span me) js"
    "filter (\<lambda>s. \<not> counted s) (map (judged_span me) js) = []" for js
    by (simp_all add: filter_map comp_def)
  have rest: "filter counted ?R = ?R" "filter (\<lambda>s. \<not> counted s) ?R = []"
    "filter counted (filter (\<lambda>s. \<not> counted s) ss) = []"
    "filter (\<lambda>s. \<not> counted s) (filter (\<lambda>s. \<not> counted s) ss) = filter (\<lambda>s. \<not> counted s) ss" for ss
    by (simp_all add: filter_empty_conv cong: conj_cong)
  have blame: "map blame_span (filter counted (fr_spans ?r')) =
      map blame_row (filter (\<lambda>v. \<not> passed v) (fr_ledger ?r'))"
    by (simp only: spans ledger filter_append map_append all rest judged_blame rows append_Nil2)
  have advisory: "filter (\<lambda>s. \<not> counted s) (fr_spans ?r') = filter (\<lambda>s. \<not> counted s) (fr_spans r)"
    by (simp only: spans filter_append all rest append_Nil)
  have ok: "list_all row_ok (fr_ledger ?r')"
    using books(2) by (auto simp: ledger carried_def list_all_iff)
  show ?thesis
    using range blame advisory ok n checkable
    by (simp add: Let_def denominator_def denom supported ledger)
qed

text \<open>Two claims that the floor supports, and a judge that answers for the first one only.\<close>

definition both_cited :: report where
  "both_cited = new_report 2 2 [] [cv_supported ''a'' [], cv_supported ''b'' []] None"

definition plain_merge :: merge_env where
  "plain_merge = \<lparr>me_fact_asserting = (\<lambda>c. True), me_detail = (\<lambda>v q c. None), me_float_of = (\<lambda>s. None),
     me_citations = J_list []\<rparr>"

definition short_answer :: telemetry where
  "short_answer = \<lparr>te_attempts = 1, te_http_statuses = [STATUS_OK], te_unchecked = [1],
     te_by_partition = [(CLAIM_KIND_CITATION_SUPPORT, 1)], te_delta = -1\<rparr>"

definition answered :: "py_str \<Rightarrow> report" where
  "answered verdict = reconcile_judge plain_merge [(''a'', verdict, [], ALIGNED_BY_CLAIM_INDEX)] []
     JUDGE_STATUS_PARTIAL None short_answer both_cited"

definition failing :: "py_str \<Rightarrow> claim_override" where
  "failing text = \<lparr>ov_text = text, ov_supported = False, ov_counter = ''absence_slice_contradicted'',
     ov_reason = Some ''absence_slice_contradicted'', ov_detail = None, ov_annotate_only = False\<rparr>"

lemma both_cited_balances: "books_balance both_cited"
  by code_simp

theorem judge_merge_books_witness:
  "0 \<le> fr_score (answered ''unsupported'') \<and> fr_score (answered ''unsupported'') \<le> 1 \<and>
   fr_supported (answered ''unsupported'') + 1 = int (length (filter passed (fr_ledger (answered ''unsupported''))))"
proof -
  have one: "length (filter passed (carried [(''a'', ''unsupported'', [], ALIGNED_BY_CLAIM_INDEX)] both_cited)) = 1"
    by code_simp
  show ?thesis
    using judge_merge_books [OF both_cited_balances, of plain_merge "[(''a'', ''unsupported'', [], ALIGNED_BY_CLAIM_INDEX)]"
        "[]" JUDGE_STATUS_PARTIAL None short_answer]
    unfolding Let_def answered_def [symmetric] one by simp
qed

text \<open>What an incomplete judge pass does to the arithmetic. A pass that leaves out a claim the
  floor supports scores higher than the pass that fails it. A later override that fails that claim
  takes it from the supported count, which never had it, so the score can become negative. A soft
  failure of the input checks is charged over the checkable claims and not over the denominator of
  the score, so it costs more than the same failure as an override. And after an override the
  receipts of the partial pass are gone, while its status stays \<open>partial\<close>.
\<close>

theorem partial_pass_arithmetic:
  "fr_score (answered VERDICT_SUPPORTED) = 1 \<and>
   fr_score (reconcile_judge plain_merge [(''a'', VERDICT_SUPPORTED, [], ALIGNED_BY_CLAIM_INDEX),
       (''b'', ''unsupported'', [], ALIGNED_BY_CLAIM_INDEX)] [] JUDGE_STATUS_LLM None new_telemetry both_cited) = 1 / 2 \<and>
   fr_score (apply_claim_overrides [failing ''b''] (answered ''unsupported'')) = -1 \<and>
   fr_score (apply_claim_overrides [failing ''c''] (answered VERDICT_SUPPORTED)) = 1 / 2 \<and>
   fr_score (fold_soft ''c'' ''unsurfaced_input_contradiction'' [] ''input_contradiction_unsurfaced''
       (answered VERDICT_SUPPORTED)) = 1 / 3 \<and>
   judge_transport_receipts (answered VERDICT_SUPPORTED) =
     [(''judge_attempts'', [1]), (''judge_partial'', [1]), (''judge_partial_claims'', [1])] \<and>
   judge_transport_receipts (apply_claim_overrides [failing ''c''] (answered VERDICT_SUPPORTED)) =
     [(''judge_attempts'', [1])] \<and>
   fr_judge_status (apply_claim_overrides [failing ''c''] (answered VERDICT_SUPPORTED)) = JUDGE_STATUS_PARTIAL"
  by (intro conjI) code_simp+

end
