(* ===== verification/Assembly.thy ===== *)
theory Assembly
  imports Judge
begin

text \<open>
  The deterministic auditors of an assembled read (\<open>data/provenance/assembly_arms.py\<close>, with the
  fold of \<open>data/provenance/text_fold.py\<close>): quote fidelity, scope preservation, attribution equality
  and selection honesty over the JSON of the payload, and the fold of their findings into the
  report, which for an assembled row replaces its score. Texts are ASCII, so bytes and characters
  are counted alike. The wording of a finding's detail is not modelled; a marker that is not an
  integer stands in the finding but not in the span, whose markers are integers.
\<close>

section \<open>Reading the payload\<close>

text \<open>
  Parameters: SHA-256 as hexadecimal digits, the value of a float literal, the text of a nested
  value, and the wording test \<open>has_collection_denominator_scope\<close>.
\<close>

record arm_env =
  ae_sha :: "py_str \<Rightarrow> py_str"
  ae_float_of :: "py_str \<Rightarrow> rat option"
  ae_text_of :: "json \<Rightarrow> py_str"
  ae_bounded :: "py_str \<Rightarrow> bool"

definition normalize_for_match :: "py_str \<Rightarrow> py_str" where
  "normalize_for_match text = py_strip (collapse_spaces False (py_lower text))"

definition fold_equal :: "py_str \<Rightarrow> py_str \<Rightarrow> bool" where
  "fold_equal a b = (normalize_for_match a = normalize_for_match b)"

definition fold_contains :: "py_str \<Rightarrow> py_str \<Rightarrow> bool" where
  "fold_contains haystack needle =
     (let n = normalize_for_match needle in n \<noteq> [] \<and> is_in n (normalize_for_match haystack))"

text \<open>\<^verbatim>\<open>str(x or "")\<close>, \<open>_str\<close> and \<open>_as_int\<close>.\<close>

definition or_text :: "arm_env \<Rightarrow> json option \<Rightarrow> py_str" where
  "or_text env v = (case v of
     Some x \<Rightarrow> if json_truthy (ae_float_of env) x then json_text (ae_text_of env) x else []
   | None \<Rightarrow> [])"

definition str_of :: "arm_env \<Rightarrow> json option \<Rightarrow> py_str" where
  "str_of env v = (case v of
     None \<Rightarrow> [] | Some J_null \<Rightarrow> [] | Some x \<Rightarrow> py_strip (json_text (ae_text_of env) x))"

definition truncate_rat :: "rat \<Rightarrow> int" where
  "truncate_rat x = (if x < 0 then \<lceil>x\<rceil> else \<lfloor>x\<rfloor>)"

definition as_int :: "arm_env \<Rightarrow> json option \<Rightarrow> int option" where
  "as_int env v = (case v of
     Some (J_int n) \<Rightarrow> Some n
   | Some (J_float s) \<Rightarrow> map_option truncate_rat (ae_float_of env s)
   | Some (J_str s) \<Rightarrow> py_int (py_strip s)
   | _ \<Rightarrow> None)"

definition dicts_at :: "json_dict \<Rightarrow> py_str \<Rightarrow> json_dict list" where
  "dicts_at d key = (case map_of d key of Some v \<Rightarrow> entries_of v | None \<Rightarrow> [])"

definition dict_at :: "json_dict \<Rightarrow> py_str \<Rightarrow> json_dict option" where
  "dict_at d key = (case map_of d key of Some (J_object o') \<Rightarrow> Some o' | _ \<Rightarrow> None)"

abbreviation ASSEMBLY_SCHEMA :: py_str where "ASSEMBLY_SCHEMA \<equiv> ''assembly.v1''"
abbreviation CARRIED_ORIGINS_KEY :: py_str where "CARRIED_ORIGINS_KEY \<equiv> ''carried_origins''"
abbreviation SCOPE_TOKEN_COLLECTION_DENOMINATOR :: py_str where
  "SCOPE_TOKEN_COLLECTION_DENOMINATOR \<equiv> ''collection_denominator''"
abbreviation SPAN_ROLE_CONTEXT_BODY :: py_str where "SPAN_ROLE_CONTEXT_BODY \<equiv> ''context_body''"
abbreviation REGIME_LEGACY :: py_str where "REGIME_LEGACY \<equiv> ''legacy''"
abbreviation REGIME_ASSEMBLY :: py_str where "REGIME_ASSEMBLY \<equiv> ''assembly''"

definition is_assembly :: "arm_env \<Rightarrow> json \<Rightarrow> bool" where
  "is_assembly env assembly = (case assembly of
     J_object d \<Rightarrow> or_text env (map_of d ''schema'') = ASSEMBLY_SCHEMA \<and>
                   or_text env (map_of d ''regime'') \<noteq> REGIME_LEGACY
   | _ \<Rightarrow> False)"

definition blocks_of :: "json_dict \<Rightarrow> json_dict list" where
  "blocks_of d = dicts_at d ''blocks''"

definition spans_of :: "arm_env \<Rightarrow> json_dict \<Rightarrow> json_dict list" where
  "spans_of env block =
     filter (\<lambda>s. or_text env (map_of s ''role'') \<noteq> SPAN_ROLE_CONTEXT_BODY) (dicts_at block ''spans'')"

definition block_ordinal :: "arm_env \<Rightarrow> json_dict \<Rightarrow> json" where
  "block_ordinal env block = (case map_of block ''ordinal'' of
     Some (J_int n) \<Rightarrow> J_int n
   | Some (J_bool b) \<Rightarrow> J_bool b
   | v \<Rightarrow> J_str (case or_text env v of [] \<Rightarrow> ''?'' | s \<Rightarrow> s))"

record origin =
  or_evidence :: py_str
  or_has_evidence :: bool
  or_source :: py_str
  or_target :: py_str
  or_produced :: py_str

definition origin_of :: "arm_env \<Rightarrow> json_dict \<Rightarrow> origin" where
  "origin_of env entry =
     (let text = (case map_of entry ''evidence_text'' of Some (J_str s) \<Rightarrow> s | _ \<Rightarrow> []);
          truthy_at = (\<lambda>k. case map_of entry k of Some v \<Rightarrow> json_truthy (ae_float_of env) v | None \<Rightarrow> False)
      in \<lparr>or_evidence = text, or_has_evidence = (text \<noteq> []),
          or_source = str_of env (if truthy_at ''source'' then map_of entry ''source'' else map_of entry ''analyst_id''),
          or_target = str_of env (map_of entry ''target_id''),
          or_produced = str_of env (map_of entry ''produced_at'')\<rparr>)"

fun origins_from :: "arm_env \<Rightarrow> json_dict list \<Rightarrow> (py_str \<times> origin) list \<Rightarrow> (py_str \<times> origin) list" where
  "origins_from env [] out = out"
| "origins_from env (entry # es) out =
     (let ref = str_of env (map_of entry ''ref_id'') in
      if ref = [] \<or> map_of out ref \<noteq> None then origins_from env es out
      else origins_from env es (out @ [(ref, origin_of env entry)]))"

definition origin_records :: "arm_env \<Rightarrow> json \<Rightarrow> (py_str \<times> origin) list" where
  "origin_records env citations = origins_from env (entries_of citations) []"

section \<open>Findings and counters\<close>

record arm_finding =
  af_reason :: py_str
  af_text :: py_str
  af_markers :: "json list"

record arm_result =
  ar_findings :: "arm_finding list"
  ar_counters :: counters
  ar_charged :: "(nat \<times> nat) list"

definition no_result :: arm_result where
  "no_result = \<lparr>ar_findings = [], ar_counters = [], ar_charged = []\<rparr>"

definition arm_bump :: "py_str \<Rightarrow> int \<Rightarrow> arm_result \<Rightarrow> arm_result" where
  "arm_bump name n res = (if n \<noteq> 0 then res\<lparr>ar_counters := add_count name n (ar_counters res)\<rparr> else res)"

definition arm_find :: "arm_finding \<Rightarrow> arm_result \<Rightarrow> arm_result" where
  "arm_find f res = res\<lparr>ar_findings := ar_findings res @ [f]\<rparr>"

definition arm_extend :: "arm_result \<Rightarrow> arm_result \<Rightarrow> arm_result" where
  "arm_extend other res =
     fold (\<lambda>(k, v). arm_bump k v) (ar_counters other)
       (res\<lparr>ar_findings := ar_findings res @ ar_findings other, ar_charged := ar_charged res @ ar_charged other\<rparr>)"

section \<open>Quote fidelity\<close>

definition span_finding :: "py_str \<Rightarrow> py_str \<Rightarrow> json \<Rightarrow> arm_finding" where
  "span_finding reason text ordinal = \<lparr>af_reason = reason, af_text = take 2000 text, af_markers = [ordinal]\<rparr>"

text \<open>
  \<open>_grade_span\<close>: the reason of the violation, if there is one, and the counters it bumps; first
  for a span whose origin has its evidence.
\<close>

definition grade_offsets :: "arm_env \<Rightarrow> py_str \<Rightarrow> py_str \<Rightarrow> json_dict \<Rightarrow> int \<Rightarrow> int \<Rightarrow> py_str option \<times> py_str list" where
  "grade_offsets env text body org s e =
     (let declared = py_lower (str_of env (map_of org ''body_sha256''));
          complete = (declared \<noteq> [] \<and> as_int env (map_of org ''body_len'') = Some (int (length body)));
          noted = (if complete then [] else [''assembly_quote_sha_unverifiable'']);
          cut = take (nat (e - s)) (drop (nat s) body)
      in if complete \<and> ae_sha env body \<noteq> declared
         then (Some ''quote_origin_drift'', [''assembly_quote_origin_drift''])
         else if fold_equal cut text then (None, noted)
         else if \<not> fold_contains body text
         then (Some ''quote_not_contained'', noted @ [''assembly_quote_not_contained''])
         else (Some ''quote_offset_mismatch'', noted @ [''assembly_quote_offset_mismatch'']))"

definition grade_anchored :: "arm_env \<Rightarrow> py_str \<Rightarrow> py_str \<Rightarrow> json_dict \<Rightarrow> py_str option \<times> py_str list" where
  "grade_anchored env text body org =
     (case (as_int env (map_of org ''start''), as_int env (map_of org ''end'')) of
        (Some s, Some e) \<Rightarrow>
          if s < 0 \<or> e < s then (Some ''quote_offset_mismatch'', [''assembly_quote_offset_mismatch''])
          else if e > int (length body)
          then (Some ''quote_origin_truncated'', [''assembly_quote_origin_truncated''])
          else grade_offsets env text body org s e
      | _ \<Rightarrow> (Some ''quote_offset_mismatch'', [''assembly_quote_offset_mismatch'']))"

definition origin_behind :: "arm_env \<Rightarrow> py_str \<Rightarrow> (py_str \<times> origin) list \<Rightarrow> json_dict \<Rightarrow> origin option" where
  "origin_behind env block_id origins org =
     (case map_of origins (str_of env (map_of org ''head_id'')) of
        Some r \<Rightarrow> Some r | None \<Rightarrow> map_of origins block_id)"

definition grade_span ::
  "arm_env \<Rightarrow> py_str \<Rightarrow> (py_str \<times> origin) list \<Rightarrow> json_dict \<Rightarrow> py_str option \<times> py_str list" where
  "grade_span env block_id origins sp =
     (case dict_at sp ''origin'' of
        None \<Rightarrow> (Some ''quote_origin_drift'', [''assembly_quote_origin_drift''])
      | Some org \<Rightarrow>
          let head_id = str_of env (map_of org ''head_id'') in
          if block_id \<noteq> [] \<and> head_id \<noteq> [] \<and> head_id \<noteq> block_id
          then (Some ''quote_origin_drift'', [''assembly_quote_origin_drift''])
          else
            (case origin_behind env block_id origins org of
               None \<Rightarrow> (None, [''assembly_quote_origin_unresolved''])
             | Some orig \<Rightarrow>
                 if \<not> or_has_evidence orig then (None, [''assembly_quote_origin_unresolved''])
                 else grade_anchored env (str_of env (map_of sp ''text'')) (or_evidence orig) org))"

definition quote_span ::
  "arm_env \<Rightarrow> (py_str \<times> origin) list \<Rightarrow> nat \<Rightarrow> json_dict \<Rightarrow> nat \<times> json_dict \<Rightarrow> arm_result \<Rightarrow> arm_result" where
  "quote_span env origins b_i block = (\<lambda>(s_i, sp) res.
     (let (reason, bumps) = grade_span env (str_of env (map_of block ''finding_id'')) origins sp;
          res = fold (\<lambda>c. arm_bump c 1) bumps (arm_bump ''assembly_quote_spans_checked'' 1 res)
      in case reason of
           None \<Rightarrow> arm_bump ''assembly_quote_spans_ok'' 1 res
         | Some r \<Rightarrow> arm_find (span_finding r (str_of env (map_of sp ''text'')) (block_ordinal env block))
                       (res\<lparr>ar_charged := (b_i, s_i) # ar_charged res\<rparr>)))"

definition quote_fidelity :: "arm_env \<Rightarrow> json_dict \<Rightarrow> (py_str \<times> origin) list \<Rightarrow> arm_result" where
  "quote_fidelity env assembly origins =
     fold (\<lambda>(b_i, block) res. fold (quote_span env origins b_i block) (enumerate 0 (spans_of env block)) res)
       (enumerate 0 (blocks_of assembly)) no_result"

section \<open>Scope preservation\<close>

definition sentence_break :: "char \<Rightarrow> bool" where
  "sentence_break c = (c \<in> {CHR ''.'', CHR ''!'', CHR ''?'', CHR 0x0A})"

text \<open>The text after the last break of a text, and up to the first break, with it.\<close>

definition after_last_break :: "py_str \<Rightarrow> py_str" where
  "after_last_break s = rev (takeWhile (\<lambda>c. \<not> sentence_break c) (rev s))"

definition through_break :: "py_str \<Rightarrow> py_str" where
  "through_break s = takeWhile (\<lambda>c. \<not> sentence_break c) s @ take 1 (dropWhile (\<lambda>c. \<not> sentence_break c) s)"

definition source_sentence :: "py_str \<Rightarrow> int \<Rightarrow> int \<Rightarrow> py_str" where
  "source_sentence body s e =
     (let n = int (length body);
          c_start = nat (max 0 (min s n)); c_end = nat (max (int c_start) (min e n));
          from = max (c_end - 1) c_start;
          left = c_start - length (after_last_break (take c_start body));
          right = from + length (through_break (drop from body))
      in py_strip (take (right - left) (drop left body)))"

definition scope_tokens :: "arm_env \<Rightarrow> json_dict \<Rightarrow> py_str list" where
  "scope_tokens env sp = (case map_of sp ''scope_tokens'' of
     Some (J_list vs) \<Rightarrow> filter (\<lambda>t. t \<noteq> []) (map (\<lambda>v. str_of env (Some v)) vs) | _ \<Rightarrow> [])"

definition scope_span ::
  "arm_env \<Rightarrow> origin \<Rightarrow> (nat \<times> nat) list \<Rightarrow> nat \<Rightarrow> json_dict \<Rightarrow> nat \<times> json_dict \<Rightarrow> arm_result \<Rightarrow> arm_result" where
  "scope_span env record charged b_i block = (\<lambda>(s_i, sp) res.
     (let text = str_of env (map_of sp ''text'') in
      if (b_i, s_i) \<in> set charged \<or> text = [] then res
      else case dict_at sp ''origin'' of
        None \<Rightarrow> res
      | Some org \<Rightarrow>
          (case (as_int env (map_of org ''start''), as_int env (map_of org ''end'')) of
             (Some s, Some e) \<Rightarrow>
               if e < s then res
               else
                 let res = arm_bump ''assembly_scope_spans_checked'' 1 res;
                     sentence = source_sentence (or_evidence record) s e;
                     declared = scope_tokens env sp;
                     unknown = filter (\<lambda>t. t \<noteq> SCOPE_TOKEN_COLLECTION_DENOMINATOR) declared;
                     res = arm_bump ''assembly_scope_token_unknown'' (int (length unknown)) res
                 in if SCOPE_TOKEN_COLLECTION_DENOMINATOR \<in> set declared \<and> \<not> ae_bounded env sentence
                    then arm_find (span_finding ''scope_widened'' text (block_ordinal env block))
                           (arm_bump ''assembly_scope_widened'' 1 res)
                    else if \<not> ae_bounded env sentence then res
                    else
                      let res = arm_bump ''assembly_scope_bounded_sentences'' 1 res in
                      if ae_bounded env text then res
                      else arm_find (span_finding ''scope_truncated'' text (block_ordinal env block))
                             (arm_bump ''assembly_scope_truncated'' 1 res)
           | _ \<Rightarrow> res)))"

definition scope_preservation ::
  "arm_env \<Rightarrow> json_dict \<Rightarrow> (py_str \<times> origin) list \<Rightarrow> (nat \<times> nat) list \<Rightarrow> arm_result" where
  "scope_preservation env assembly origins charged =
     fold (\<lambda>(b_i, block) res.
         case map_of origins (str_of env (map_of block ''finding_id'')) of
           None \<Rightarrow> res
         | Some record \<Rightarrow>
             if \<not> or_has_evidence record then res
             else fold (scope_span env record charged b_i block) (enumerate 0 (spans_of env block)) res)
       (enumerate 0 (blocks_of assembly)) no_result"

section \<open>Attribution equality\<close>

text \<open>The suffix that \<open>_TS_TRIM_RE\<close> removes: a zone of UTC, with a fraction of a second before it.\<close>

definition trim_fraction :: "py_str \<Rightarrow> py_str" where
  "trim_fraction s =
     (let r = rev s; rest = dropWhile digit_char r in
      if takeWhile digit_char r \<noteq> [] \<and> take 1 rest = ''.'' then rev (drop 1 rest) else s)"

definition ts_trim :: "py_str \<Rightarrow> py_str" where
  "ts_trim s =
     (let cut = (\<lambda>k. take (length s - k) s); ends = (\<lambda>z. length z \<le> length s \<and> drop (length s - length z) s = z) in
      if ends ''z'' then trim_fraction (cut 1)
      else if ends ''+00:00'' then trim_fraction (cut 6)
      else if ends ''+0000'' then trim_fraction (cut 5)
      else s)"

definition instant_text :: "py_str \<Rightarrow> py_str" where
  "instant_text value = ts_trim (replace_char (CHR '' '') (CHR ''t'') (normalize_for_match value))"

definition or_mark :: "py_str \<Rightarrow> py_str" where
  "or_mark s = (if s = [] then ''?'' else s)"

definition attribution_text :: "arm_env \<Rightarrow> json_dict \<Rightarrow> py_str" where
  "attribution_text env block =
     ''block '' @ json_text (ae_text_of env) (block_ordinal env block) @ '': '' @
     or_mark (str_of env (map_of block ''desk'')) @ '' / '' @
     or_mark (str_of env (map_of block ''target_id'')) @ '' @ '' @
     or_mark (str_of env (map_of block ''produced_at''))"

definition block_finding :: "arm_env \<Rightarrow> py_str \<Rightarrow> json_dict \<Rightarrow> arm_finding" where
  "block_finding env reason block =
     \<lparr>af_reason = reason, af_text = attribution_text env block, af_markers = [block_ordinal env block]\<rparr>"

definition grade_block_attribution ::
  "arm_env \<Rightarrow> json_dict \<Rightarrow> origin \<Rightarrow> arm_result \<Rightarrow> arm_finding option \<times> arm_result" where
  "grade_block_attribution env block orig res =
     (let desk = str_of env (map_of block ''desk''); target = str_of env (map_of block ''target_id'');
          produced = str_of env (map_of block ''produced_at'')
      in if or_source orig \<noteq> [] \<and> \<not> fold_equal desk (or_source orig)
         then (Some (block_finding env ''attribution_desk_mismatch'' block),
               arm_bump ''assembly_attribution_desk_mismatch'' 1 res)
         else if or_target orig \<noteq> [] \<and> \<not> fold_equal target (or_target orig)
         then (Some (block_finding env ''attribution_target_mismatch'' block),
               arm_bump ''assembly_attribution_target_mismatch'' 1 res)
         else if or_produced orig = []
         then (None, arm_bump ''assembly_attribution_date_unverifiable'' 1 res)
         else if instant_text produced \<noteq> instant_text (or_produced orig)
         then (Some (block_finding env ''attribution_date_mismatch'' block),
               arm_bump ''assembly_attribution_date_mismatch'' 1 res)
         else (None, res))"

definition attribute_block ::
  "arm_env \<Rightarrow> (py_str \<times> origin) list \<Rightarrow> json_dict \<Rightarrow> arm_result \<Rightarrow> arm_result" where
  "attribute_block env origins block res =
     (let res = arm_bump ''assembly_attribution_blocks_checked'' 1 res in
      case map_of origins (str_of env (map_of block ''finding_id'')) of
        None \<Rightarrow> arm_find (block_finding env ''attribution_head_unresolved'' block)
                  (arm_bump ''assembly_attribution_head_unresolved'' 1 res)
      | Some orig \<Rightarrow>
          (case grade_block_attribution env block orig res of
             (None, res) \<Rightarrow> res
           | (Some f, res) \<Rightarrow> arm_find f res))"

definition attribution_equality :: "arm_env \<Rightarrow> json_dict \<Rightarrow> (py_str \<times> origin) list \<Rightarrow> arm_result" where
  "attribution_equality env assembly origins = fold (attribute_block env origins) (blocks_of assembly) no_result"

section \<open>Selection honesty\<close>

definition COVERAGE_STATUSES :: "py_str list" where
  "COVERAGE_STATUSES = [''in_basis'', ''below_floor'', ''unverified'', ''no_head_in_horizon'']"

definition DROP_WHY_CLASSES :: "py_str list" where
  "DROP_WHY_CLASSES = [''shown_not_selected'', ''not_selected'', ''cap_trimmed'', ''below_floor'',
     ''no_head_in_horizon'', ''superseded'', ''correlated_duplicate'', ''not_a_candidate'']"

definition DROP_GRAINS :: "py_str list" where
  "DROP_GRAINS = [''shown_not_carried'', ''not_selected'', ''trimmed'', ''below_floor'', ''no_head'']"

definition DROP_COUNT_KEYS :: "py_str list" where
  "DROP_COUNT_KEYS = [''shown'', ''carried'', ''shown_not_carried'', ''not_selected'', ''trimmed'',
     ''below_floor'', ''no_head'', ''invisible_heads'']"

text \<open>A finding about a ledger, and its counter.\<close>

definition ledger_finding :: "bool \<Rightarrow> py_str \<Rightarrow> py_str \<Rightarrow> py_str \<Rightarrow> arm_result \<Rightarrow> arm_result" where
  "ledger_finding broken reason counter text res =
     (if broken then arm_find \<lparr>af_reason = reason, af_text = text, af_markers = []\<rparr> (arm_bump counter 1 res)
      else res)"

definition coverage_completeness :: "arm_env \<Rightarrow> json_dict \<Rightarrow> arm_result" where
  "coverage_completeness env assembly =
     (let ledger = dicts_at assembly ''coverage'';
          units = map (\<lambda>c. str_of env (map_of c ''unit'')) ledger;
          named = filter (\<lambda>u. u \<noteq> []) units;
          rows = ''coverage ledger ('' @ show_nat (length ledger) @ '' rows)'';
          res = arm_bump ''assembly_coverage_units_checked'' (int (length ledger)) no_result;
          res = ledger_finding (\<not> distinct named) ''coverage_unit_duplicated''
                  ''assembly_coverage_unit_duplicated'' rows res;
          res = ledger_finding
                  (\<not> list_all (\<lambda>c. str_of env (map_of c ''status'') \<in> set COVERAGE_STATUSES) ledger)
                  ''coverage_status_invalid'' ''assembly_coverage_status_invalid'' rows res
      in case map_of assembly ''coverage_roster'' of
           Some (J_list (u # us)) \<Rightarrow>
             let declared = filter (\<lambda>t. t \<noteq> []) (map (\<lambda>v. str_of env (Some v)) (u # us)) in
             ledger_finding (\<not> list_all (\<lambda>t. t \<in> set named) declared) ''coverage_unit_missing''
               ''assembly_coverage_unit_missing''
               (''coverage ledger ('' @ show_nat (length ledger) @ '' of '' @ show_nat (length declared)
                @ '' roster units)'') res
         | _ \<Rightarrow> arm_bump ''assembly_coverage_roster_absent'' 1 res)"

definition ranks_of :: "arm_env \<Rightarrow> json_dict list \<Rightarrow> int list" where
  "ranks_of env entries = List.map_filter (\<lambda>e. as_int env (map_of e ''rank'')) entries"

text \<open>\<open>_prefix_violations\<close> has something to say.\<close>

definition prefix_violated :: "arm_env \<Rightarrow> json_dict list \<Rightarrow> nat \<Rightarrow> bool" where
  "prefix_violated env not_selected n_blocks =
     (let ranks = ranks_of env not_selected in list_ex (\<lambda>r. r \<le> int n_blocks) ranks \<or> \<not> distinct ranks)"

text \<open>The counts of the drop ledger do not close.\<close>

definition counts_broken :: "arm_env \<Rightarrow> json_dict \<Rightarrow> json_dict \<Rightarrow> nat \<Rightarrow> bool" where
  "counts_broken env drops counts n_blocks =
     (let differs = (\<lambda>key n. case as_int env (map_of counts key) of None \<Rightarrow> False | Some k \<Rightarrow> k \<noteq> n);
          size = (\<lambda>key. int (length (dicts_at drops key)))
      in differs ''carried'' (int n_blocks) \<or>
         list_ex (\<lambda>key. differs key (size key)) DROP_GRAINS \<or>
         differs ''shown'' (int n_blocks + (size ''shown_not_carried'' + size ''trimmed'')))"

definition drop_disclosure :: "arm_env \<Rightarrow> json_dict \<Rightarrow> arm_result" where
  "drop_disclosure env assembly = (case dict_at assembly ''drops'' of
     None \<Rightarrow> no_result
   | Some drops \<Rightarrow>
       (let n_blocks = length (blocks_of assembly);
            counts = (case dict_at drops ''counts'' of Some c \<Rightarrow> c | None \<Rightarrow> []);
            ledger = ''drop ledger ('' @ show_nat n_blocks @ '' blocks carried)'';
            res = fold (\<lambda>key res. case as_int env (map_of counts key) of
                     None \<Rightarrow> res | Some n \<Rightarrow> arm_bump (''assembly_drops_'' @ key) n res) DROP_COUNT_KEYS no_result;
            res = ledger_finding (counts_broken env drops counts n_blocks) ''drop_count_mismatch''
                    ''assembly_drop_count_mismatch'' ledger res;
            whys = map (\<lambda>e. str_of env (map_of e ''why'')) (concat (map (dicts_at drops) DROP_GRAINS));
            res = arm_bump ''assembly_drops_why_absent'' (int (length (filter (\<lambda>w. w = []) whys))) res;
            res = ledger_finding (\<not> list_all (\<lambda>w. w = [] \<or> w \<in> set DROP_WHY_CLASSES) whys)
                    ''drop_why_unknown'' ''assembly_drop_why_unknown'' ledger res
        in ledger_finding (prefix_violated env (dicts_at drops ''not_selected'') n_blocks)
             ''drop_order_violation'' ''assembly_drop_order_violation'' ledger res))"

definition selection_honesty :: "arm_env \<Rightarrow> json_dict \<Rightarrow> arm_result" where
  "selection_honesty env assembly =
     arm_extend (drop_disclosure env assembly) (arm_extend (coverage_completeness env assembly) no_result)"

section \<open>The audit and its fold\<close>

definition assembly_origins :: "arm_env \<Rightarrow> json_dict \<Rightarrow> json \<Rightarrow> (py_str \<times> origin) list" where
  "assembly_origins env assembly citations =
     (let own = origin_records env citations;
          bridged = (case map_of assembly CARRIED_ORIGINS_KEY of Some v \<Rightarrow> origin_records env v | None \<Rightarrow> [])
      in own @ filter (\<lambda>(k, _). map_of own k = None) bridged)"

definition audit_assembly :: "arm_env \<Rightarrow> json_dict \<Rightarrow> json \<Rightarrow> arm_result" where
  "audit_assembly env assembly citations =
     (let bridged = (case map_of assembly CARRIED_ORIGINS_KEY of Some v \<Rightarrow> origin_records env v | None \<Rightarrow> []);
          origins = assembly_origins env assembly citations;
          res = arm_bump ''assembly_arms_reads_audited'' 1 no_result;
          res = arm_bump ''assembly_carried_origins_bridged'' (int (length bridged)) res;
          quotes = quote_fidelity env assembly origins;
          res = arm_extend quotes res;
          res = arm_extend (scope_preservation env assembly origins (ar_charged quotes)) res;
          res = arm_extend (attribution_equality env assembly origins) res
      in arm_extend (selection_honesty env assembly) res)"

definition audit :: "arm_env \<Rightarrow> json \<Rightarrow> json \<Rightarrow> arm_result" where
  "audit env assembly citations = (case assembly of
     J_object d \<Rightarrow>
       if is_assembly env assembly then audit_assembly env d citations
       else if or_text env (map_of d ''schema'') \<noteq> [] \<and> or_text env (map_of d ''schema'') \<noteq> ASSEMBLY_SCHEMA
       then arm_bump ''assembly_arms_schema_unknown'' 1 no_result
       else no_result
   | _ \<Rightarrow> no_result)"

abbreviation LEDGER_CHECK_UNITS :: int where "LEDGER_CHECK_UNITS \<equiv> 6"

definition branch_checkable :: "arm_result \<Rightarrow> int" where
  "branch_checkable res = count_of ''assembly_quote_spans_checked'' (ar_counters res) +
     count_of ''assembly_attribution_blocks_checked'' (ar_counters res) + LEDGER_CHECK_UNITS"

text \<open>The entry \<open>checkable\<close>, \<open>supported\<close>, \<open>score\<close> of the branch scores.\<close>

definition branch_score :: "arm_result \<Rightarrow> (nat \<times> nat \<times> rat) option" where
  "branch_score res =
     (let checkable = branch_checkable res in
      if count_of ''assembly_arms_reads_audited'' (ar_counters res) = 0 then None
      else
        let supported = max 0 (checkable - int (length (ar_findings res)))
        in Some (nat checkable, nat supported,
             if checkable \<noteq> 0 then round4 (of_int supported / of_int checkable) else 1))"

definition quote_fidelity_score :: "arm_result \<Rightarrow> rat option" where
  "quote_fidelity_score res =
     (let n = count_of ''assembly_quote_spans_checked'' (ar_counters res) in
      if n = 0 then None else Some (of_int (count_of ''assembly_quote_spans_ok'' (ar_counters res)) / of_int n))"

definition is_grader_of_record :: "arm_env \<Rightarrow> json \<Rightarrow> bool" where
  "is_grader_of_record env assembly =
     (is_assembly env assembly \<and>
      (case assembly of J_object d \<Rightarrow> or_text env (map_of d ''regime'') = REGIME_ASSEMBLY | _ \<Rightarrow> False))"

definition regrade_to_arms :: "(nat \<times> nat \<times> rat) option \<Rightarrow> report \<Rightarrow> report" where
  "regrade_to_arms branch r = (case branch of
     None \<Rightarrow> r
   | Some (checkable, supported, _) \<Rightarrow>
       if checkable = 0 then r
       else bump ''assembly_headline_regraded_to_arms'' 1
         (r\<lparr>fr_score := of_nat supported / of_nat checkable, fr_checkable := int checkable,
           fr_supported := int supported, fr_denominator := Some (int checkable)\<rparr>))"

text \<open>The report is rebuilt around one more failed row.\<close>

definition fold_finding :: "arm_finding \<Rightarrow> report \<Rightarrow> report" where
  "fold_finding f r =
     (let sp = unsupported_span (take 2000 (af_text f)) (af_reason f) (json_ints (af_markers f));
          checkable = fr_checkable r + 1
      in r\<lparr>fr_score := ratio (fr_supported r) checkable, fr_checkable := checkable,
           fr_spans := fr_spans r @ [sp],
           fr_ledger := fr_ledger r @ [cv_failed (sp_text sp) (af_reason f) (sp_markers sp) None],
           fr_denominator := Some checkable,
           fr_partial := None, fr_partial_claims := []\<rparr>)"

definition fold_assembly :: "arm_env \<Rightarrow> json \<Rightarrow> json \<Rightarrow> report \<Rightarrow> report" where
  "fold_assembly env assembly citations r =
     (if \<not> is_assembly env assembly then r
      else
        let result = audit env assembly citations;
            branch = branch_score result;
            r = fold (\<lambda>(name, n). bump name n) (ar_counters result) r;
            r = (case branch of None \<Rightarrow> r
                 | Some entry \<Rightarrow> r\<lparr>fr_branch_scores := AList.update ''assembly'' entry (fr_branch_scores r)\<rparr>);
            r = fold fold_finding (ar_findings result) r
        in if is_grader_of_record env assembly then regrade_to_arms branch r else r)"

section \<open>Counting the checks\<close>

text \<open>What a result amounts to: its findings, the counts under a few keys, and that its counters are a map.\<close>

definition counters_ok :: "arm_result \<Rightarrow> bool" where
  "counters_ok res = distinct (map fst (ar_counters res))"

abbreviation counted_under :: "arm_result \<Rightarrow> py_str \<Rightarrow> int" where
  "counted_under res k \<equiv> count_of k (ar_counters res)"

lemma arm_bump_simps [simp]:
  "ar_findings (arm_bump k n res) = ar_findings res" "ar_charged (arm_bump k n res) = ar_charged res"
  "counted_under (arm_bump k n res) j = counted_under res j + (if j = k then n else 0)"
  "counters_ok res \<Longrightarrow> counters_ok (arm_bump k n res)"
  by (simp_all add: arm_bump_def counters_ok_def add_count_def distinct_keys_update)
    (simp_all flip: add_count_def)

lemma arm_find_simps [simp]:
  "ar_findings (arm_find f res) = ar_findings res @ [f]" "ar_charged (arm_find f res) = ar_charged res"
  "ar_counters (arm_find f res) = ar_counters res" "counters_ok (arm_find f res) = counters_ok res"
  by (simp_all add: arm_find_def counters_ok_def)

lemma charged_simps [simp]:
  "counters_ok (res\<lparr>ar_charged := c\<rparr>) = counters_ok res"
  "counters_ok (res\<lparr>ar_findings := f, ar_charged := c\<rparr>) = counters_ok res"
  by (simp_all add: counters_ok_def)

lemma no_result_simps [simp]:
  "ar_findings no_result = []" "ar_charged no_result = []" "counted_under no_result k = 0" "counters_ok no_result"
  by (simp_all add: no_result_def counters_ok_def count_of_def)

lemma count_of_Cons: "count_of j (kv # cs) = (if j = fst kv then snd kv else count_of j cs)"
  by (cases kv) (simp add: count_of_def)

lemma fold_arm_bump:
  "distinct (map fst cs) \<Longrightarrow> counters_ok res \<Longrightarrow>
     counters_ok (fold (\<lambda>(k, v). arm_bump k v) cs res) \<and>
     ar_findings (fold (\<lambda>(k, v). arm_bump k v) cs res) = ar_findings res \<and>
     ar_charged (fold (\<lambda>(k, v). arm_bump k v) cs res) = ar_charged res \<and>
     counted_under (fold (\<lambda>(k, v). arm_bump k v) cs res) j = counted_under res j + count_of j cs"
proof (induction cs arbitrary: res)
  case (Cons kv cs)
  have "fst kv \<notin> fst ` set cs"
    using Cons.prems by simp
  then have "count_of (fst kv) cs = 0"
    by (simp add: count_of_def split: option.splits) (metis map_of_eq_None_iff option.distinct(1))
  with Cons.IH [of "arm_bump (fst kv) (snd kv) res"] Cons.prems show ?case
    by (auto simp: case_prod_unfold count_of_Cons)
qed (simp add: count_of_def)

lemma arm_extend_simps:
  assumes "counters_ok res" "counters_ok other"
  shows "counters_ok (arm_extend other res)"
    "ar_findings (arm_extend other res) = ar_findings res @ ar_findings other"
    "counted_under (arm_extend other res) k = counted_under res k + counted_under other k"
  using fold_arm_bump [of "ar_counters other"
      "res\<lparr>ar_findings := ar_findings res @ ar_findings other, ar_charged := ar_charged res @ ar_charged other\<rparr>" k] assms
  by (simp_all add: arm_extend_def counters_ok_def)

lemma ledger_finding_simps [simp]:
  "counters_ok res \<Longrightarrow> counters_ok (ledger_finding b r c t res)"
  "length (ar_findings (ledger_finding b r c t res)) = length (ar_findings res) + of_bool b"
  "counted_under (ledger_finding b r c t res) k = counted_under res k + (if b \<and> k = c then 1 else 0)"
  by (simp_all add: ledger_finding_def)

text \<open>The spans of the read, flat, each with its key.\<close>

type_synonym span_item = "nat \<times> json_dict \<times> nat \<times> json_dict"

definition block_items :: "arm_env \<Rightarrow> nat \<times> json_dict \<Rightarrow> span_item list" where
  "block_items env = (\<lambda>(b, blk). map (\<lambda>(s, sp). (b, blk, s, sp)) (enumerate 0 (spans_of env blk)))"

definition span_items :: "arm_env \<Rightarrow> json_dict \<Rightarrow> span_item list" where
  "span_items env assembly = concat (map (block_items env) (enumerate 0 (blocks_of assembly)))"

definition item_key :: "span_item \<Rightarrow> nat \<times> nat" where
  "item_key = (\<lambda>(b, blk, s, sp). (b, s))"

lemma items_keys_distinct: "distinct (map item_key (span_items env assembly))"
proof -
  have "distinct (map item_key (concat (map (block_items env) (enumerate n blks)))) \<and>
      (\<forall>k \<in> set (map item_key (concat (map (block_items env) (enumerate n blks)))). n \<le> fst k)" for n blks
  proof (induction blks arbitrary: n)
    case (Cons blk blks)
    have "map item_key (block_items env (n, blk)) = map (Pair n) (map fst (enumerate 0 (spans_of env blk)))"
      by (simp add: block_items_def item_key_def comp_def case_prod_unfold del: map_fst_enumerate)
    then have keys: "map item_key (block_items env (n, blk)) = map (Pair n) [0 ..< length (spans_of env blk)]"
      by simp
    define K where "K = map item_key (concat (map (block_items env) (enumerate (Suc n) blks)))"
    have whole: "map item_key (concat (map (block_items env) (enumerate n (blk # blks)))) =
        map (Pair n) [0 ..< length (spans_of env blk)] @ K"
      by (simp add: keys K_def)
    have K: "distinct K" "\<forall>k \<in> set K. Suc n \<le> fst k"
      unfolding K_def using Cons.IH [of "Suc n"] by blast+
    have "distinct (map (Pair n) [0 ..< length (spans_of env blk)])"
      by (simp add: distinct_map inj_on_def)
    then show ?case
      unfolding whole using K by fastforce
  qed simp
  then show ?thesis
    unfolding span_items_def by blast
qed

lemma fold_items:
  "fold (\<lambda>(b, blk) res. fold (f b blk) (enumerate 0 (spans_of env blk)) res) bs res =
   fold (\<lambda>(b, blk, s, sp). f b blk (s, sp)) (concat (map (block_items env) bs)) res"
proof (induction bs arbitrary: res)
  case (Cons x bs)
  have "fold (\<lambda>(b, blk, s, sp). f b blk (s, sp)) (map (\<lambda>(s, sp). (b, blk, s, sp)) xs) = fold (f b blk) xs" for b blk xs
    by (simp add: fold_map comp_def case_prod_unfold)
  with Cons show ?case
    by (simp add: block_items_def case_prod_unfold)
qed simp

definition span_fails :: "arm_env \<Rightarrow> (py_str \<times> origin) list \<Rightarrow> span_item \<Rightarrow> bool" where
  "span_fails env origins = (\<lambda>(b, blk, s, sp).
     fst (grade_span env (str_of env (map_of blk ''finding_id'')) origins sp) \<noteq> None)"

definition AUDIT_KEYS :: "py_str list" where
  "AUDIT_KEYS = [''assembly_quote_spans_checked'', ''assembly_attribution_blocks_checked'',
     ''assembly_arms_reads_audited'']"

lemma grade_span_audit_keys:
  assumes "k \<in> set AUDIT_KEYS"
  shows "k \<notin> set (snd (grade_span env b origins sp))"
proof -
  have off: "k \<notin> set (snd (grade_offsets env q body org s e))" for q body org s e
    using assms by (auto simp: grade_offsets_def Let_def AUDIT_KEYS_def)
  have "k \<notin> set (snd (grade_anchored env q body org))" for q body org
    using assms off by (auto simp: grade_anchored_def AUDIT_KEYS_def split: option.splits)
  then show ?thesis
    using assms by (auto simp: grade_span_def Let_def AUDIT_KEYS_def split: option.splits)
qed

lemma bump_all_simps [simp]:
  "counters_ok res \<Longrightarrow> counters_ok (fold (\<lambda>c. arm_bump c 1) cs res)"
  "ar_findings (fold (\<lambda>c. arm_bump c 1) cs res) = ar_findings res"
  "ar_charged (fold (\<lambda>c. arm_bump c 1) cs res) = ar_charged res"
  "k \<notin> set cs \<Longrightarrow> counted_under (fold (\<lambda>c. arm_bump c 1) cs res) k = counted_under res k"
  by (induction cs arbitrary: res) simp_all

abbreviation quote_item :: "arm_env \<Rightarrow> (py_str \<times> origin) list \<Rightarrow> span_item \<Rightarrow> arm_result \<Rightarrow> arm_result" where
  "quote_item env origins \<equiv> (\<lambda>(b, blk, s, sp). quote_span env origins b blk (s, sp))"

lemma quote_item_step:
  assumes "counters_ok res"
  shows "counters_ok (quote_item env origins it res)"
    "length (ar_findings (quote_item env origins it res)) = length (ar_findings res) + of_bool (span_fails env origins it)"
    "set (ar_charged (quote_item env origins it res)) =
       set (ar_charged res) \<union> (if span_fails env origins it then {item_key it} else {})"
    "k \<in> set AUDIT_KEYS \<Longrightarrow> counted_under (quote_item env origins it res) k =
       counted_under res k + (if k = ''assembly_quote_spans_checked'' then 1 else 0)"
proof -
  obtain b blk s sp where it: "it = (b, blk, s, sp)"
    by (cases it)
  obtain reason bumps where g: "grade_span env (str_of env (map_of blk ''finding_id'')) origins sp = (reason, bumps)"
    by force
  have fails: "span_fails env origins it \<longleftrightarrow> reason \<noteq> None"
    by (simp add: span_fails_def it g)
  show "counters_ok (quote_item env origins it res)"
    "length (ar_findings (quote_item env origins it res)) = length (ar_findings res) + of_bool (span_fails env origins it)"
    "set (ar_charged (quote_item env origins it res)) =
       set (ar_charged res) \<union> (if span_fails env origins it then {item_key it} else {})"
    using assms unfolding fails by (auto simp: it quote_span_def g item_key_def Let_def split: option.split)
  assume k: "k \<in> set AUDIT_KEYS"
  have new: "k \<notin> set bumps"
    using grade_span_audit_keys [OF k, of env "str_of env (map_of blk ''finding_id'')" origins sp] g by simp
  have "k \<noteq> ''assembly_quote_spans_ok''"
    using k by (auto simp: AUDIT_KEYS_def)
  with new show "counted_under (quote_item env origins it res) k =
      counted_under res k + (if k = ''assembly_quote_spans_checked'' then 1 else 0)"
    by (auto simp: it quote_span_def g Let_def split: option.split)
qed

lemma quote_items:
  assumes "counters_ok res"
  shows "counters_ok (fold (quote_item env origins) its res) \<and>
     length (ar_findings (fold (quote_item env origins) its res)) =
       length (ar_findings res) + length (filter (span_fails env origins) its) \<and>
     set (ar_charged (fold (quote_item env origins) its res)) =
       set (ar_charged res) \<union> item_key ` set (filter (span_fails env origins) its) \<and>
     (\<forall>k \<in> set AUDIT_KEYS. counted_under (fold (quote_item env origins) its res) k =
       counted_under res k + (if k = ''assembly_quote_spans_checked'' then int (length its) else 0))"
  using assms
proof (induction its arbitrary: res)
  case (Cons it its)
  note step = quote_item_step [OF Cons.prems, where env = env and origins = origins and it = it]
  show ?case
    using Cons.IH [OF step(1)] step(2-4) by auto
qed simp

lemma quote_fidelity_flat:
  "quote_fidelity env assembly origins = fold (quote_item env origins) (span_items env assembly) no_result"
  unfolding quote_fidelity_def span_items_def fold_items ..

definition scope_item ::
  "arm_env \<Rightarrow> (py_str \<times> origin) list \<Rightarrow> (nat \<times> nat) list \<Rightarrow> span_item \<Rightarrow> arm_result \<Rightarrow> arm_result" where
  "scope_item env origins charged = (\<lambda>(b, blk, s, sp) res.
     (case map_of origins (str_of env (map_of blk ''finding_id'')) of
        None \<Rightarrow> res
      | Some orig \<Rightarrow> if \<not> or_has_evidence orig then res else scope_span env orig charged b blk (s, sp) res))"

lemma scope_preservation_flat:
  "scope_preservation env assembly origins charged =
     fold (scope_item env origins charged) (span_items env assembly) no_result"
proof -
  have idle: "fold (\<lambda>x res. res) xs res = res" for xs :: "(nat \<times> json_dict) list" and res :: arm_result
    by (induction xs) simp_all
  have "scope_preservation env assembly origins charged =
      fold (\<lambda>(b, blk) res. fold (\<lambda>(s, sp). scope_item env origins charged (b, blk, s, sp)) (enumerate 0 (spans_of env blk)) res)
        (enumerate 0 (blocks_of assembly)) no_result"
    unfolding scope_preservation_def scope_item_def
    by (intro fold_cong refl ext) (auto simp: idle case_prod_unfold split: option.split)
  then show ?thesis
    by (simp add: fold_items [where f = "\<lambda>b blk (s, sp). scope_item env origins charged (b, blk, s, sp)"]
        span_items_def)
qed

lemma scope_item_step:
  assumes "counters_ok res"
  shows "counters_ok (scope_item env origins charged it res)"
    "length (ar_findings (scope_item env origins charged it res)) \<le>
       length (ar_findings res) + of_bool (item_key it \<notin> set charged)"
    "k \<in> set AUDIT_KEYS \<Longrightarrow> counted_under (scope_item env origins charged it res) k = counted_under res k"
  using assms
  by (auto simp: scope_item_def scope_span_def Let_def item_key_def AUDIT_KEYS_def split: option.split prod.split)

lemma scope_items:
  assumes "counters_ok res"
  shows "counters_ok (fold (scope_item env origins charged) its res) \<and>
     length (ar_findings (fold (scope_item env origins charged) its res)) \<le>
       length (ar_findings res) + length (filter (\<lambda>it. item_key it \<notin> set charged) its) \<and>
     (\<forall>k \<in> set AUDIT_KEYS. counted_under (fold (scope_item env origins charged) its res) k = counted_under res k)"
  using assms
proof (induction its arbitrary: res)
  case (Cons it its)
  note step = scope_item_step [OF Cons.prems, where env = env and origins = origins and charged = charged and it = it]
  show ?case
    using Cons.IH [OF step(1)] step(2,3) by (auto split: if_splits)
qed simp

lemma attribute_block_step:
  assumes "counters_ok res"
  shows "counters_ok (attribute_block env origins blk res)"
    "length (ar_findings (attribute_block env origins blk res)) \<le> length (ar_findings res) + 1"
    "k \<in> set AUDIT_KEYS \<Longrightarrow> counted_under (attribute_block env origins blk res) k =
       counted_under res k + (if k = ''assembly_attribution_blocks_checked'' then 1 else 0)"
proof -
  have graded: "counters_ok r \<Longrightarrow> counters_ok (snd (grade_block_attribution env blk orig r))"
    "ar_findings (snd (grade_block_attribution env blk orig r)) = ar_findings r"
    "k \<in> set AUDIT_KEYS \<Longrightarrow> counted_under (snd (grade_block_attribution env blk orig r)) k = counted_under r k"
    for k r orig
    by (auto simp: grade_block_attribution_def Let_def AUDIT_KEYS_def)
  let ?r = "arm_bump ''assembly_attribution_blocks_checked'' 1 res"
  let ?ref = "map_of origins (str_of env (map_of blk ''finding_id''))"
  have ok: "counters_ok ?r"
    using assms by simp
  have shape: "attribute_block env origins blk res =
      (case ?ref of
         None \<Rightarrow> arm_find (block_finding env ''attribution_head_unresolved'' blk)
                   (arm_bump ''assembly_attribution_head_unresolved'' 1 ?r)
       | Some orig \<Rightarrow> (case fst (grade_block_attribution env blk orig ?r) of
           None \<Rightarrow> snd (grade_block_attribution env blk orig ?r)
         | Some f \<Rightarrow> arm_find f (snd (grade_block_attribution env blk orig ?r))))"
    by (auto simp: attribute_block_def Let_def split: option.split prod.split)
  show "counters_ok (attribute_block env origins blk res)"
    "length (ar_findings (attribute_block env origins blk res)) \<le> length (ar_findings res) + 1"
    unfolding shape using graded(1,2) [where r = ?r] ok by (auto split: option.split)
  assume k: "k \<in> set AUDIT_KEYS"
  then have "k \<noteq> ''assembly_attribution_head_unresolved''"
    by (auto simp: AUDIT_KEYS_def)
  then show "counted_under (attribute_block env origins blk res) k =
      counted_under res k + (if k = ''assembly_attribution_blocks_checked'' then 1 else 0)"
    unfolding shape using graded(3) [OF k, where r = ?r] by (auto split: option.split)
qed

lemma attribute_blocks:
  assumes "counters_ok res"
  shows "counters_ok (fold (attribute_block env origins) blks res) \<and>
     length (ar_findings (fold (attribute_block env origins) blks res)) \<le> length (ar_findings res) + length blks \<and>
     (\<forall>k \<in> set AUDIT_KEYS. counted_under (fold (attribute_block env origins) blks res) k =
       counted_under res k + (if k = ''assembly_attribution_blocks_checked'' then int (length blks) else 0))"
  using assms
proof (induction blks arbitrary: res)
  case (Cons blk blks)
  note step = attribute_block_step [OF Cons.prems, where env = env and origins = origins and blk = blk]
  show ?case
    using Cons.IH [OF step(1)] step(2,3) by auto
qed simp

lemma coverage_audited:
  "counters_ok (coverage_completeness env assembly)"
  "length (ar_findings (coverage_completeness env assembly)) \<le> 3"
  "k \<in> set AUDIT_KEYS \<Longrightarrow> counted_under (coverage_completeness env assembly) k = 0"
proof -
  let ?m = "map_of assembly ''coverage_roster''"
  define first where "first = (let ledger = dicts_at assembly ''coverage'';
      rows = ''coverage ledger ('' @ show_nat (length ledger) @ '' rows)'';
      res = arm_bump ''assembly_coverage_units_checked'' (int (length ledger)) no_result;
      res = ledger_finding (\<not> distinct (filter (\<lambda>u. u \<noteq> []) (map (\<lambda>c. str_of env (map_of c ''unit'')) ledger)))
              ''coverage_unit_duplicated'' ''assembly_coverage_unit_duplicated'' rows res
    in ledger_finding (\<not> list_all (\<lambda>c. str_of env (map_of c ''status'') \<in> set COVERAGE_STATUSES) ledger)
         ''coverage_status_invalid'' ''assembly_coverage_status_invalid'' rows res)"
  have cov: "coverage_completeness env assembly = arm_bump ''assembly_coverage_roster_absent'' 1 first \<or>
      (\<exists>b t. coverage_completeness env assembly =
         ledger_finding b ''coverage_unit_missing'' ''assembly_coverage_unit_missing'' t first)"
  proof (cases "\<exists>u us. ?m = Some (J_list (u # us))")
    case True
    then obtain u us where m: "?m = Some (J_list (u # us))"
      by blast
    show ?thesis
      by (rule disjI2) (simp only: coverage_completeness_def first_def Let_def m option.case json.case list.case, blast)
  next
    case False
    have none: "(case ?m of Some (J_list (u # us)) \<Rightarrow> f u us | _ \<Rightarrow> g) = g" for f and g :: arm_result
      using False by (auto split: option.split json.split list.split)
    show ?thesis
      by (rule disjI1) (simp only: coverage_completeness_def first_def Let_def none)
  qed
  have first: "counters_ok first" "length (ar_findings first) \<le> 2"
    by (simp_all add: first_def Let_def)
  show "counters_ok (coverage_completeness env assembly)"
    "length (ar_findings (coverage_completeness env assembly)) \<le> 3"
    using cov first by auto
  assume "k \<in> set AUDIT_KEYS"
  then have k: "k \<notin> {''assembly_coverage_units_checked'', ''assembly_coverage_unit_duplicated'',
      ''assembly_coverage_status_invalid'', ''assembly_coverage_unit_missing'', ''assembly_coverage_roster_absent''}"
    by (auto simp: AUDIT_KEYS_def)
  then have "counted_under first k = 0"
    by (simp add: first_def Let_def)
  with k show "counted_under (coverage_completeness env assembly) k = 0"
    using cov by auto
qed

lemma count_keys_bumped:
  assumes "counters_ok res"
  shows "counters_ok (fold (\<lambda>key res. case as_int env (map_of counts key) of
       None \<Rightarrow> res | Some n \<Rightarrow> arm_bump (''assembly_drops_'' @ key) n res) ks res) \<and>
     ar_findings (fold (\<lambda>key res. case as_int env (map_of counts key) of
       None \<Rightarrow> res | Some n \<Rightarrow> arm_bump (''assembly_drops_'' @ key) n res) ks res) = ar_findings res \<and>
     (\<forall>k \<in> set AUDIT_KEYS. counted_under (fold (\<lambda>key res. case as_int env (map_of counts key) of
       None \<Rightarrow> res | Some n \<Rightarrow> arm_bump (''assembly_drops_'' @ key) n res) ks res) k = counted_under res k)"
  using assms
proof (induction ks arbitrary: res)
  case (Cons key ks)
  show ?case
  proof (cases "as_int env (map_of counts key)")
    case None
    with Cons show ?thesis by simp
  next
    case (Some n)
    then show ?thesis
      using Cons.IH [of "arm_bump (''assembly_drops_'' @ key) n res"] Cons.prems by (auto simp: AUDIT_KEYS_def)
  qed
qed simp

lemma drops_audited:
  "counters_ok (drop_disclosure env assembly)"
  "length (ar_findings (drop_disclosure env assembly)) \<le> 3"
  "k \<in> set AUDIT_KEYS \<Longrightarrow> counted_under (drop_disclosure env assembly) k = 0"
proof -
  note bumped = count_keys_bumped [of no_result env _ DROP_COUNT_KEYS]
  show "counters_ok (drop_disclosure env assembly)"
    "length (ar_findings (drop_disclosure env assembly)) \<le> 3"
    using bumped by (auto simp: drop_disclosure_def Let_def split: option.split)
  assume k: "k \<in> set AUDIT_KEYS"
  then have "k \<notin> {''assembly_drop_count_mismatch'', ''assembly_drops_why_absent'', ''assembly_drop_why_unknown'',
      ''assembly_drop_order_violation''}"
    by (auto simp: AUDIT_KEYS_def)
  with k show "counted_under (drop_disclosure env assembly) k = 0"
    using bumped by (simp add: drop_disclosure_def Let_def split: option.split)
qed

lemma selection_audited:
  "counters_ok (selection_honesty env assembly)"
  "length (ar_findings (selection_honesty env assembly)) \<le> 6"
  "k \<in> set AUDIT_KEYS \<Longrightarrow> counted_under (selection_honesty env assembly) k = 0"
  using coverage_audited [where env = env and assembly = assembly] drops_audited [where env = env and assembly = assembly]
  by (simp_all add: selection_honesty_def arm_extend_simps)

text \<open>One span is charged at most once, one block at most once, the ledgers at most six times.\<close>

lemma span_findings:
  "length (ar_findings (quote_fidelity env assembly origins)) +
   length (ar_findings (scope_preservation env assembly origins (ar_charged (quote_fidelity env assembly origins))))
     \<le> length (span_items env assembly)"
proof -
  let ?its = "span_items env assembly" and ?q = "quote_fidelity env assembly origins"
  have q: "length (ar_findings ?q) = length (filter (span_fails env origins) ?its)"
    "set (ar_charged ?q) = item_key ` set (filter (span_fails env origins) ?its)"
    using quote_items [of no_result env origins ?its] by (simp_all add: quote_fidelity_flat)
  have inj: "inj_on item_key (set ?its)"
    using items_keys_distinct by (simp add: distinct_map)
  have "item_key it \<notin> set (ar_charged ?q) \<longleftrightarrow> \<not> span_fails env origins it" if "it \<in> set ?its" for it
    using that inj unfolding q(2) by (auto simp: inj_on_def)
  then have "filter (\<lambda>it. item_key it \<notin> set (ar_charged ?q)) ?its = filter (\<lambda>it. \<not> span_fails env origins it) ?its"
    by (intro filter_cong) simp_all
  then have "length (ar_findings (scope_preservation env assembly origins (ar_charged ?q))) \<le>
      length (filter (\<lambda>it. \<not> span_fails env origins it) ?its)"
    using scope_items [of no_result env origins "ar_charged ?q" ?its] by (simp add: scope_preservation_flat)
  then show ?thesis
    using q(1) filter_both_lengths [of "span_fails env origins" ?its] by linarith
qed

lemma audit_counts:
  "length (ar_findings (audit_assembly env assembly citations)) \<le>
     length (span_items env assembly) + length (blocks_of assembly) + 6"
  "counted_under (audit_assembly env assembly citations) ''assembly_quote_spans_checked'' =
     int (length (span_items env assembly))"
  "counted_under (audit_assembly env assembly citations) ''assembly_attribution_blocks_checked'' =
     int (length (blocks_of assembly))"
  "counted_under (audit_assembly env assembly citations) ''assembly_arms_reads_audited'' = 1"
proof -
  let ?o = "assembly_origins env assembly citations"
  let ?q = "quote_fidelity env assembly ?o"
  let ?s = "scope_preservation env assembly ?o (ar_charged ?q)"
  let ?a = "attribution_equality env assembly ?o"
  have keys: "''assembly_quote_spans_checked'' \<in> set AUDIT_KEYS" "''assembly_attribution_blocks_checked'' \<in> set AUDIT_KEYS"
    "''assembly_arms_reads_audited'' \<in> set AUDIT_KEYS"
    by (simp_all add: AUDIT_KEYS_def)
  have q: "counters_ok ?q" "k \<in> set AUDIT_KEYS \<Longrightarrow> counted_under ?q k =
      (if k = ''assembly_quote_spans_checked'' then int (length (span_items env assembly)) else 0)" for k
    using quote_items [of no_result env ?o "span_items env assembly"] by (simp_all add: quote_fidelity_flat)
  have s: "counters_ok ?s" "k \<in> set AUDIT_KEYS \<Longrightarrow> counted_under ?s k = 0" for k
    using scope_items [of no_result env ?o "ar_charged ?q" "span_items env assembly"]
    by (simp_all add: scope_preservation_flat)
  have a: "counters_ok ?a" "length (ar_findings ?a) \<le> length (blocks_of assembly)"
    "k \<in> set AUDIT_KEYS \<Longrightarrow> counted_under ?a k =
      (if k = ''assembly_attribution_blocks_checked'' then int (length (blocks_of assembly)) else 0)" for k
    using attribute_blocks [of no_result env ?o "blocks_of assembly"] by (simp_all add: attribution_equality_def)
  note sel = selection_audited [where env = env and assembly = assembly]
  show "length (ar_findings (audit_assembly env assembly citations)) \<le>
      length (span_items env assembly) + length (blocks_of assembly) + 6"
    using span_findings [of env assembly ?o] a(2) sel(2)
    by (simp add: audit_assembly_def Let_def arm_extend_simps q(1) s(1) a(1) sel(1))
  show "counted_under (audit_assembly env assembly citations) ''assembly_quote_spans_checked'' =
      int (length (span_items env assembly))"
    "counted_under (audit_assembly env assembly citations) ''assembly_attribution_blocks_checked'' =
      int (length (blocks_of assembly))"
    "counted_under (audit_assembly env assembly citations) ''assembly_arms_reads_audited'' = 1"
    by (simp_all add: audit_assembly_def Let_def arm_extend_simps q s a sel keys)
qed

section \<open>What a passed span and a headline mean\<close>

text \<open>
  A span whose origin has its evidence passes exactly when its offsets are a range of the captured
  body, the body is the one it was cut from wherever that can be checked, and the range holds the
  text of the span under the fold.
\<close>

lemma anchored_passes:
  "fst (grade_anchored env txt body org) = None \<longleftrightarrow>
     (\<exists>s e. as_int env (map_of org ''start'') = Some s \<and> as_int env (map_of org ''end'') = Some e \<and>
        0 \<le> s \<and> s \<le> e \<and> e \<le> int (length body) \<and>
        fold_equal (take (nat (e - s)) (drop (nat s) body)) txt \<and>
        (as_int env (map_of org ''body_len'') = Some (int (length body)) \<longrightarrow>
           py_lower (str_of env (map_of org ''body_sha256'')) \<in> {[], ae_sha env body}))"
  by (auto simp: grade_anchored_def grade_offsets_def Let_def split: option.split)

lemma bump_fields [simp]:
  "fr_score (bump k n r) = fr_score r" "fr_checkable (bump k n r) = fr_checkable r"
  "fr_supported (bump k n r) = fr_supported r" "fr_spans (bump k n r) = fr_spans r"
  "fr_ledger (bump k n r) = fr_ledger r" "fr_denominator (bump k n r) = fr_denominator r"
  "fr_judge_status (bump k n r) = fr_judge_status r" "fr_ceiling (bump k n r) = fr_ceiling r"
  "fr_state (bump k n r) = fr_state r"
  by (simp_all add: bump_def)

text \<open>C30: The headline of an assembled read depends on its payload alone: whatever the judge and the
  floor said, the score is the share of the checks (one per quotation, one per block, six for the
  ledgers) that found no violation, and it is between 0 and 1. It is 1 exactly when the audit finds
  nothing.
\<close>

theorem assembly_headline_is_payload_ratio:
  assumes "is_grader_of_record env (J_object d)"
  shows "let checks = int (length (span_items env d)) + int (length (blocks_of d)) + LEDGER_CHECK_UNITS;
             violations = int (length (ar_findings (audit env (J_object d) citations)));
             r' = fold_assembly env (J_object d) citations r
         in fr_checkable r' = checks \<and> fr_supported r' = checks - violations \<and>
            fr_denominator r' = Some checks \<and>
            fr_score r' = of_int (checks - violations) / of_int checks \<and>
            0 \<le> fr_score r' \<and> fr_score r' \<le> 1 \<and> (fr_score r' = 1 \<longleftrightarrow> violations = 0)"
proof -
  let ?checks = "int (length (span_items env d)) + int (length (blocks_of d)) + LEDGER_CHECK_UNITS"
  let ?res = "audit env (J_object d) citations"
  let ?v = "int (length (ar_findings ?res))"
  let ?r' = "fold_assembly env (J_object d) citations r"
  have a: "is_assembly env (J_object d)"
    using assms by (simp add: is_grader_of_record_def)
  then have res: "?res = audit_assembly env d citations"
    by (simp add: audit_def)
  have le: "?v \<le> ?checks"
    using audit_counts(1) [of env d citations] by (simp add: res)
  have checkable: "branch_checkable ?res = ?checks"
    by (simp add: branch_checkable_def res audit_counts)
  obtain sc where branch: "branch_score ?res = Some (nat ?checks, nat (?checks - ?v), sc)"
    using le by (simp add: branch_score_def Let_def checkable) (simp add: res audit_counts)
  obtain r0 where r': "?r' = regrade_to_arms (Some (nat ?checks, nat (?checks - ?v), sc)) r0"
    using a assms by (simp add: fold_assembly_def Let_def branch)
  have pos: "0 < ?checks"
    by simp
  then have fields: "fr_checkable ?r' = ?checks" "fr_supported ?r' = ?checks - ?v" "fr_denominator ?r' = Some ?checks"
    "fr_score ?r' = of_int (?checks - ?v) / of_int ?checks"
    using le by (simp_all add: r' regrade_to_arms_def of_nat_nat)
  have range: "0 \<le> fr_score ?r' \<and> fr_score ?r' \<le> 1 \<and> (fr_score ?r' = 1 \<longleftrightarrow> ?v = 0)"
  proof -
    have "(0 :: rat) < of_int ?checks" "(of_int ?v :: rat) \<le> of_int ?checks" "(0 :: rat) \<le> of_int ?v"
      using pos le by (simp_all only: of_int_0_less_iff of_int_le_iff of_int_0_le_iff of_nat_0_le_iff)
    then have "0 \<le> (of_int ?checks - of_int ?v :: rat) / of_int ?checks"
      "(of_int ?checks - of_int ?v :: rat) / of_int ?checks \<le> 1"
      "((of_int ?checks - of_int ?v :: rat) / of_int ?checks = 1) = ((of_int ?v :: rat) = 0)"
      by (auto simp: divide_le_eq_1 divide_eq_eq)
    then show ?thesis
      unfolding fields(4) of_int_diff of_int_eq_0_iff by blast
  qed
  show ?thesis
    unfolding Let_def using fields range by blast
qed

definition no_tests :: arm_env where
  "no_tests = \<lparr>ae_sha = (\<lambda>s. []), ae_float_of = (\<lambda>s. None), ae_text_of = (\<lambda>v. []), ae_bounded = (\<lambda>s. False)\<rparr>"

definition untraced_read :: json_dict where
  "untraced_read = [(''schema'', J_str ASSEMBLY_SCHEMA), (''regime'', J_str REGIME_ASSEMBLY),
     (''blocks'', J_list [J_object [(''ordinal'', J_int 1), (''finding_id'', J_str ''h1'')]])]"

theorem assembly_headline_is_payload_ratio_witness:
  "fr_score (fold_assembly no_tests (J_object untraced_read) J_null two_uncited) = 6 / 7 \<and>
   fr_checkable (fold_assembly no_tests (J_object untraced_read) J_null two_uncited) = 7"
proof -
  have g: "is_grader_of_record no_tests (J_object untraced_read)"
    by code_simp
  have n: "length (span_items no_tests untraced_read) = 0" "length (blocks_of untraced_read) = 1"
    "length (ar_findings (audit no_tests (J_object untraced_read) J_null)) = 1"
    by code_simp+
  show ?thesis
    using assembly_headline_is_payload_ratio [OF g, of J_null two_uncited] unfolding n Let_def by simp
qed

text \<open>A quotation is passed although nothing was there to compare it with: a citation that names the
  head but captured no text lets any quotation through. The span counts as a good one, no arm
  charges the block, and the assembled read is published with the score 1.
\<close>

definition invented_quote :: json_dict where
  "invented_quote = [(''schema'', J_str ASSEMBLY_SCHEMA), (''regime'', J_str REGIME_ASSEMBLY),
     (''blocks'', J_list [J_object [(''ordinal'', J_int 1), (''finding_id'', J_str ''h1''), (''desk'', J_str ''desk''),
        (''spans'', J_list [J_object [(''text'', J_str ''invented''),
           (''origin'', J_object [(''head_id'', J_str ''h1''), (''start'', J_int 0), (''end'', J_int 8)])]])]])]"

definition bare_citation :: json where
  "bare_citation = J_list [J_object [(''ref_id'', J_str ''h1''), (''source'', J_str ''desk'')]]"

theorem uncaptured_quote_passes:
  "ar_findings (audit no_tests (J_object invented_quote) bare_citation) = [] \<and>
   quote_fidelity_score (audit no_tests (J_object invented_quote) bare_citation) = Some 1 \<and>
   counted_under (audit no_tests (J_object invented_quote) bare_citation) ''assembly_quote_origin_unresolved'' = 1 \<and>
   counted_under (audit no_tests (J_object invented_quote) bare_citation) ''assembly_attribution_head_unresolved'' = 0 \<and>
   fr_score (fold_assembly no_tests (J_object invented_quote) bare_citation two_uncited) = 1"
  by (intro conjI) code_simp+

end
