(* ===== verification/Metadata.thy ===== *)
theory Metadata
  imports Assembly
begin

text \<open>
  Claims about the platform's own metadata, decided by looking up the columns that the citations
  captured (\<open>_metadata_claim_override\<close> and its helpers in \<open>data/provenance/verify.py\<close>). What the
  regular expressions find in a claim, and whether the assertion is the whole claim, are arguments;
  the wording of a detail is one too.
\<close>

section \<open>Comparators\<close>

datatype comparator = Op_ge | Op_gt | Op_le | Op_lt

definition METADATA_COMPARATORS :: "(py_str \<times> comparator) list" where
  "METADATA_COMPARATORS = [
     (''no less than'', Op_ge), (''no lower than'', Op_ge), (''not less than'', Op_ge),
     (''no more than'', Op_le), (''no higher than'', Op_le), (''not more than'', Op_le),
     (''greater than or equal to'', Op_ge), (''less than or equal to'', Op_le),
     (''at least'', Op_ge), (''at most'', Op_le),
     (''or higher'', Op_ge), (''or above'', Op_ge), (''or greater'', Op_ge),
     (''or lower'', Op_le), (''or below'', Op_le), (''or less'', Op_le),
     (''greater than'', Op_gt), (''less than'', Op_lt),
     (''exceeding'', Op_gt), (''exceeds'', Op_gt),
     (''above'', Op_ge), (''over'', Op_ge), (''below'', Op_le), (''under'', Op_le),
     (''>='', Op_ge), (''<='', Op_le), (''>'', Op_gt), (''<'', Op_lt)]"

definition metadata_comparator :: "py_str \<Rightarrow> comparator option" where
  "metadata_comparator between =
     map_option snd (find (\<lambda>(phrase, _). is_in phrase (py_lower between)) METADATA_COMPARATORS)"

fun metadata_comparison_holds :: "comparator \<Rightarrow> rat \<Rightarrow> rat \<Rightarrow> bool" where
  "metadata_comparison_holds Op_ge value asserted = (value \<ge> asserted)"
| "metadata_comparison_holds Op_gt value asserted = (value > asserted)"
| "metadata_comparison_holds Op_le value asserted = (value \<le> asserted)"
| "metadata_comparison_holds Op_lt value asserted = (value < asserted)"

text \<open>\<^verbatim>\<open>round(x, digits)\<close>, to the even neighbour on a tie.\<close>

definition round_digits :: "nat \<Rightarrow> rat \<Rightarrow> rat" where
  "round_digits digits x =
     (let y = x * 10 ^ digits; f = \<lfloor>y\<rfloor>; d = y - of_int f
      in of_int (if d < 1 / 2 then f else if d > 1 / 2 then f + 1 else if even f then f else f + 1) / 10 ^ digits)"

text \<open>\<^verbatim>\<open>len(s.split(".")[-1])\<close>.\<close>

definition decimals :: "py_str \<Rightarrow> nat" where
  "decimals s = length (takeWhile (\<lambda>c. c \<noteq> CHR ''.'') (rev s))"

section \<open>The citations in scope\<close>

fun marker_entries_from :: "json_dict list \<Rightarrow> (int \<times> json_dict) list \<Rightarrow> (int \<times> json_dict) list" where
  "marker_entries_from [] out = out"
| "marker_entries_from (entry # es) out =
     (case marker_number entry of
        None \<Rightarrow> marker_entries_from es out
      | Some n \<Rightarrow> marker_entries_from es (AList.update (int n) entry out))"

definition marker_metadata_map :: "(py_str \<Rightarrow> rat option) \<Rightarrow> json \<Rightarrow> bool \<Rightarrow> (int \<times> json_dict) list" where
  "marker_metadata_map float_of citations subclaim =
     (if subclaim then build_ordinal_map float_of citations (\<lambda>entry n. Some entry)
      else marker_entries_from (entries_of citations) [])"

definition metadata_scope :: "(int \<times> json_dict) list \<Rightarrow> py_str \<Rightarrow> bool \<Rightarrow> int list" where
  "metadata_scope entries claim subclaim =
     (case filter (\<lambda>n. map_of entries n \<noteq> None) (map int (markers_in_claim claim subclaim)) of
        [] \<Rightarrow> sort (map fst entries)
      | own \<Rightarrow> own)"

definition entry_at :: "(int \<times> json_dict) list \<Rightarrow> int \<Rightarrow> json_dict" where
  "entry_at entries n = (case map_of entries n of Some e \<Rightarrow> e | None \<Rightarrow> [])"

definition captured_confidence :: "(py_str \<Rightarrow> rat option) \<Rightarrow> json_dict \<Rightarrow> rat option" where
  "captured_confidence float_of entry = (case map_of entry ''effective_confidence'' of
     Some (J_int n) \<Rightarrow> Some (of_int n) | Some (J_float s) \<Rightarrow> float_of s | _ \<Rightarrow> None)"

definition cited_surface :: "(int \<times> json_dict) list \<Rightarrow> int list \<Rightarrow> py_str" where
  "cited_surface entries scope =
     py_join [CHR '' '', CHR 0x0A, CHR '' '']
       (concat (map (\<lambda>n. List.map_filter (\<lambda>key. case map_of (entry_at entries n) key of
            Some (J_str s) \<Rightarrow> if py_strip s \<noteq> [] then Some (py_strip s) else None | _ \<Rightarrow> None)
          [''title'', ''evidence_text'', ''snippet'']) scope))"

definition is_periphery :: "json_dict \<Rightarrow> bool" where
  "is_periphery entry = (map_of entry ''tier'' = Some (J_str ''periphery''))"

section \<open>The verdict\<close>

text \<open>
  What is found in a claim: the text between the noun and the number, the number and the whole
  match; a below-the-floor phrase; a basis-tier phrase. \<open>mr_dominant claim matched surface\<close> is
  \<open>_metadata_dominant\<close>.
\<close>

record metadata_reader =
  mr_float_of :: "py_str \<Rightarrow> rat option"
  mr_confidence :: "py_str \<Rightarrow> (py_str \<times> py_str \<times> py_str) option"
  mr_below :: "py_str \<Rightarrow> py_str option"
  mr_basis :: "py_str \<Rightarrow> py_str option"
  mr_dominant :: "py_str \<Rightarrow> py_str \<Rightarrow> py_str \<Rightarrow> bool"
  mr_detail :: "py_str \<Rightarrow> py_str \<Rightarrow> py_str option"

abbreviation METADATA_MISMATCH :: py_str where "METADATA_MISMATCH \<equiv> ''metadata_mismatch''"

definition metadata_unverifiable :: "py_str \<Rightarrow> claim_override" where
  "metadata_unverifiable claim = \<lparr>ov_text = claim, ov_supported = True, ov_counter = ''metadata_unverifiable'',
     ov_reason = None, ov_detail = None, ov_annotate_only = False\<rparr>"

definition metadata_holds :: "metadata_reader \<Rightarrow> py_str \<Rightarrow> bool \<Rightarrow> claim_override" where
  "metadata_holds mr claim dominant =
     (let counter = (if dominant then ''metadata_verified'' else ''metadata_verified_not_dominant'')
      in \<lparr>ov_text = claim, ov_supported = True, ov_counter = counter, ov_reason = None,
          ov_detail = mr_detail mr counter claim, ov_annotate_only = False\<rparr>)"

definition metadata_mismatch :: "metadata_reader \<Rightarrow> py_str \<Rightarrow> claim_override" where
  "metadata_mismatch mr claim = \<lparr>ov_text = claim, ov_supported = False, ov_counter = METADATA_MISMATCH,
     ov_reason = Some METADATA_MISMATCH, ov_detail = mr_detail mr METADATA_MISMATCH claim, ov_annotate_only = False\<rparr>"

definition confidence_holds :: "comparator option \<Rightarrow> nat \<Rightarrow> rat \<Rightarrow> rat list \<Rightarrow> bool" where
  "confidence_holds cmp digits asserted vs = (case cmp of
     None \<Rightarrow> list_ex (\<lambda>v. round_digits digits v = asserted) vs
   | Some c \<Rightarrow> list_all (\<lambda>v. metadata_comparison_holds c (round_digits digits v) asserted) vs)"

definition confidence_override ::
  "metadata_reader \<Rightarrow> (int \<times> json_dict) list \<Rightarrow> int list \<Rightarrow> py_str \<Rightarrow> py_str \<times> py_str \<times> py_str \<Rightarrow> claim_override" where
  "confidence_override mr entries scope claim = (\<lambda>(between, number, matched).
     (case mr_float_of mr number of
        None \<Rightarrow> metadata_unverifiable claim
      | Some asserted \<Rightarrow>
          let real = List.map_filter (\<lambda>n. captured_confidence (mr_float_of mr) (entry_at entries n)) scope
          in if \<not> (0 \<le> asserted \<and> asserted \<le> 1) \<or> real = [] then metadata_unverifiable claim
             else if confidence_holds (metadata_comparator between) (decimals number) asserted real
             then metadata_holds mr claim (mr_dominant mr claim matched (cited_surface entries scope))
             else metadata_mismatch mr claim))"

definition tier_override ::
  "metadata_reader \<Rightarrow> (int \<times> json_dict) list \<Rightarrow> int list \<Rightarrow> py_str \<Rightarrow> bool \<Rightarrow> py_str \<Rightarrow> claim_override" where
  "tier_override mr entries scope claim below matched =
     (let stamped = (\<lambda>e. map_of e ''tier'' \<noteq> None);
          wrong = filter (\<lambda>n. is_periphery (entry_at entries n) \<noteq> below) scope
      in if \<not> list_ex (\<lambda>(n, e). stamped e) entries then metadata_unverifiable claim
         else if wrong = []
         then metadata_holds mr claim (mr_dominant mr claim matched (cited_surface entries scope))
         else if \<not> list_ex (\<lambda>n. stamped (entry_at entries n)) scope then metadata_unverifiable claim
         else metadata_mismatch mr claim)"

definition metadata_claim_override :: "metadata_reader \<Rightarrow> py_str \<Rightarrow> json \<Rightarrow> bool \<Rightarrow> claim_override option" where
  "metadata_claim_override mr claim citations subclaim =
     (let entries = marker_metadata_map (mr_float_of mr) citations subclaim;
          scope = metadata_scope entries claim subclaim
      in if entries = [] then None
         else case mr_confidence mr claim of
           Some m \<Rightarrow> Some (confidence_override mr entries scope claim m)
         | None \<Rightarrow>
             (case mr_below mr claim of
                Some matched \<Rightarrow> Some (tier_override mr entries scope claim True matched)
              | None \<Rightarrow>
                  (case mr_basis mr claim of
                     Some matched \<Rightarrow> Some (tier_override mr entries scope claim False matched)
                   | None \<Rightarrow> None)))"

text \<open>The loop over the claims: unverifiable ones are only counted, those not dominant only annotated.\<close>

definition annotated :: "metadata_reader \<Rightarrow> claim_override \<Rightarrow> claim_override" where
  "annotated mr ov = ov\<lparr>ov_supported := True, ov_reason := None,
     ov_detail := mr_detail mr ''metadata_annotated'' (ov_text ov), ov_annotate_only := True\<rparr>"

fun metadata_overrides ::
  "metadata_reader \<Rightarrow> json \<Rightarrow> bool \<Rightarrow> py_str list \<Rightarrow> report \<times> claim_override list \<Rightarrow> report \<times> claim_override list" where
  "metadata_overrides mr citations subclaim [] acc = acc"
| "metadata_overrides mr citations subclaim (claim # claims) (r, ovs) =
     (case metadata_claim_override mr claim citations subclaim of
        None \<Rightarrow> metadata_overrides mr citations subclaim claims (r, ovs)
      | Some ov \<Rightarrow>
          if ov_counter ov = ''metadata_unverifiable''
          then metadata_overrides mr citations subclaim claims (bump (ov_counter ov) 1 r, ovs)
          else if ov_counter ov = ''metadata_verified_not_dominant''
          then metadata_overrides mr citations subclaim claims (r, ovs @ [annotated mr ov])
          else metadata_overrides mr citations subclaim claims (r, ovs @ [ov]))"

definition fold_metadata_claims :: "metadata_reader \<Rightarrow> json \<Rightarrow> py_str list \<Rightarrow> report \<Rightarrow> report" where
  "fold_metadata_claims mr citations judgeable r =
     (let (r, ovs) = metadata_overrides mr citations (uses_subclaim_convention citations) judgeable (r, [])
      in apply_claim_overrides ovs r)"

section \<open>What a lookup decides\<close>

lemma override_kinds:
  "metadata_claim_override mr claim citations subclaim = Some ov \<Longrightarrow>
     ov = metadata_unverifiable claim \<or> (\<exists>d. ov = metadata_holds mr claim d) \<or> ov = metadata_mismatch mr claim"
  by (auto simp: metadata_claim_override_def confidence_override_def tier_override_def Let_def
      split: option.splits if_splits prod.splits)

lemma metadata_overrides_sound:
  "metadata_overrides mr citations subclaim claims (r, ovs) = (r', ovs') \<Longrightarrow> sound_overrides ovs \<Longrightarrow>
     sound_overrides ovs' \<and> (\<exists>cs. r' = r\<lparr>fr_counters := cs\<rparr>)"
proof (induction mr citations subclaim claims "(r, ovs)" arbitrary: r ovs rule: metadata_overrides.induct)
  case (1 mr citations subclaim r ovs)
  have "\<exists>cs. r = r\<lparr>fr_counters := cs\<rparr>"
    by (rule exI [of _ "fr_counters r"]) simp
  with 1 show ?case by simp
next
  case (2 mr citations subclaim claim claims r ovs)
  show ?case
  proof (cases "metadata_claim_override mr claim citations subclaim")
    case None
    with 2 show ?thesis by simp
  next
    case (Some ov)
    have ok: "sound_overrides (ovs @ [ov])" "sound_overrides (ovs @ [annotated mr ov])"
      using override_kinds [OF Some] "2.prems"(2)
      by (auto simp: sound_overrides_def annotated_def metadata_unverifiable_def metadata_holds_def
          metadata_mismatch_def ADVISORY_REASONS_def Let_def)
    consider "ov_counter ov = ''metadata_unverifiable''" | "ov_counter ov = ''metadata_verified_not_dominant''"
      | "ov_counter ov \<noteq> ''metadata_unverifiable''" "ov_counter ov \<noteq> ''metadata_verified_not_dominant''"
      by blast
    then show ?thesis
    proof cases
      case 1
      have "\<exists>cs. r' = (bump (ov_counter ov) 1 r)\<lparr>fr_counters := cs\<rparr>" "sound_overrides ovs'"
        using "2.hyps"(2) [OF Some 1] "2.prems" Some 1 by simp_all
      then show ?thesis by (auto simp: bump_def)
    next
      case two: 2
      then show ?thesis
        using "2.hyps"(3) [OF Some _ two] "2.prems"(1) Some ok(2) by simp
    next
      case 3
      then show ?thesis
        using "2.hyps"(4) [OF Some 3] "2.prems"(1) Some ok(1) by simp
    qed
  qed
qed

text \<open>A negated comparison that is not in the table is read as its opposite. The phrases \<open>no greater
  than\<close> and \<open>not exceeding\<close> are read as \<open>greater than\<close>, so a claim that the confidence does not exceed
  0.7, made of an output whose confidence is 0.5, becomes a mismatch and is failed, while the claim
  that it does exceed 0.7, made of an output at 0.9 with the words \<open>no greater than\<close>, is verified.
\<close>

definition plain_reader :: metadata_reader where
  "plain_reader = \<lparr>mr_float_of = (\<lambda>s. if s = ''0.7'' then Some (7 / 10) else if s = ''0.5'' then Some (5 / 10)
       else if s = ''0.9'' then Some (9 / 10) else None),
     mr_confidence = (\<lambda>c. Some ('' no greater than '', ''0.7'', ''confidence no greater than 0.7'')),
     mr_below = (\<lambda>c. None), mr_basis = (\<lambda>c. None), mr_dominant = (\<lambda>c m e. True), mr_detail = (\<lambda>k c. None)\<rparr>"

definition cited_at :: "py_str \<Rightarrow> json" where
  "cited_at confidence = J_list [J_object [(''ordinal'', J_int 1), (''effective_confidence'', J_float confidence)]]"

theorem negated_comparison_inverted:
  "metadata_comparator '' no greater than '' = Some Op_gt \<and> metadata_comparator '' not exceeding '' = Some Op_gt \<and>
   metadata_claim_override plain_reader ''confidence no greater than 0.7'' (cited_at ''0.5'') True =
     Some (metadata_mismatch plain_reader ''confidence no greater than 0.7'') \<and>
   metadata_claim_override plain_reader ''confidence no greater than 0.7'' (cited_at ''0.9'') True =
     Some (metadata_holds plain_reader ''confidence no greater than 0.7'' True)"
  by (intro conjI) code_simp+

end
