(* ===== verification/PostJudge.thy ===== *)
theory PostJudge
  imports Metadata
begin

text \<open>
  The passes that follow the judge and decide what it cannot see: claims that rest on uncited world
  knowledge, licensed comparisons, scoped absences against the retained input slice, the checks of
  the inputs, and the composition against the desk reads it cites (\<open>data/provenance/verify.py\<close>,
  \<open>assessment_weighting.py\<close>, \<open>judge_input_checks.py\<close>, \<open>composition_integrity.py\<close>). The tests on
  the wording of claims, rows and heads are arguments, and so is the wording of a detail.
\<close>

section \<open>Uncited world knowledge\<close>

abbreviation UNCITED_WORLD_KNOWLEDGE :: py_str where "UNCITED_WORLD_KNOWLEDGE \<equiv> ''uncited_world_knowledge''"

definition uncited_override :: "py_str option \<Rightarrow> py_str \<Rightarrow> claim_override" where
  "uncited_override detail claim = \<lparr>ov_text = claim, ov_supported = False, ov_counter = ''claim_markerless_uncited'',
     ov_reason = Some UNCITED_WORLD_KNOWLEDGE, ov_detail = detail, ov_annotate_only = False\<rparr>"

text \<open>\<open>baseline\<close> is \<open>_is_uncited_world_baseline\<close>; the claims are the judgeable ones.\<close>

definition fold_markerless_uncited ::
  "(py_str \<Rightarrow> bool) \<Rightarrow> py_str option \<Rightarrow> json \<Rightarrow> py_str list \<Rightarrow> report \<Rightarrow> report" where
  "fold_markerless_uncited baseline detail citations judgeable r =
     (let bare = filter (\<lambda>c. markers_in_claim c (uses_subclaim_convention citations) = [] \<and> baseline c) judgeable
      in apply_claim_overrides (map (uncited_override detail) (keep_first py_strip [] bare)) r)"

section \<open>Licensed comparisons\<close>

text \<open>A decision about one claim, as \<open>licence_for\<close> gives it: granted, or denied under a counter.\<close>

datatype licence = Granted | Denied py_str

definition LIFTABLE_REASONS :: "py_str list" where
  "LIFTABLE_REASONS = [''judge_unsupported'', ''judge_contradicted'']"

definition licensed_override :: "(py_str \<Rightarrow> py_str option) \<Rightarrow> py_str \<Rightarrow> claim_override" where
  "licensed_override detail claim = \<lparr>ov_text = claim, ov_supported = True, ov_counter = ''weighted_comparison_licensed'',
     ov_reason = None, ov_detail = detail claim, ov_annotate_only = False\<rparr>"

text \<open>The row that a text names: the last one of that text with a reason that can be lifted.\<close>

definition failed_by_text :: "report \<Rightarrow> (py_str \<times> claim_verdict) list" where
  "failed_by_text r =
     fold (\<lambda>cv m. if list_ex (\<lambda>x. cv_reason cv = Some x) LIFTABLE_REASONS then AList.update (claim_key cv) cv m else m)
       (fr_ledger r) []"

record licence_state =
  ls_overrides :: "py_str list"
  ls_hard :: int
  ls_denials :: counters
  ls_seen :: int

definition licence_claim ::
  "(py_str \<Rightarrow> licence option) \<Rightarrow> (py_str \<times> claim_verdict) list \<Rightarrow> py_str \<Rightarrow> licence_state \<Rightarrow> licence_state" where
  "licence_claim licence_for failed claim s =
     (case map_of failed (py_strip claim) of
        None \<Rightarrow> s
      | Some cv \<Rightarrow>
          (case licence_for claim of
             None \<Rightarrow> s
           | Some (Denied counter) \<Rightarrow>
               s\<lparr>ls_seen := ls_seen s + 1, ls_denials := add_count counter 1 (ls_denials s)\<rparr>
           | Some Granted \<Rightarrow>
               s\<lparr>ls_seen := ls_seen s + 1,
                 ls_hard := ls_hard s + of_bool (cv_reason cv = Some ''judge_contradicted''),
                 ls_overrides := ls_overrides s @ [claim]\<rparr>))"

definition rescore_citation_branch :: "(py_str \<Rightarrow> py_str) \<Rightarrow> py_str list \<Rightarrow> report \<Rightarrow> report" where
  "rescore_citation_branch claim_kind lifted r =
     (case map_of (fr_branch_scores r) CLAIM_KIND_CITATION_SUPPORT of
        None \<Rightarrow> r
      | Some (checkable, supported, score) \<Rightarrow>
          let moved = length (filter (\<lambda>t. claim_kind t = CLAIM_KIND_CITATION_SUPPORT) lifted);
              supported = min (supported + moved) checkable
          in if moved = 0 then r
             else r\<lparr>fr_branch_scores := AList.update CLAIM_KIND_CITATION_SUPPORT
               (checkable, supported, if checkable = 0 then 1 else round4 (of_nat supported / of_nat checkable))
               (fr_branch_scores r)\<rparr>)"

text \<open>\<open>present\<close>: the citations carry the arithmetic that a licence needs.\<close>

definition fold_weighting ::
  "bool \<Rightarrow> (py_str \<Rightarrow> licence option) \<Rightarrow> (py_str \<Rightarrow> py_str) \<Rightarrow> (py_str \<Rightarrow> py_str option) \<Rightarrow> json \<Rightarrow> py_str list
     \<Rightarrow> report \<Rightarrow> report" where
  "fold_weighting present licence_for claim_kind detail citations claims r =
     (let failed = failed_by_text r in
      if \<not> uses_subclaim_convention citations \<or> \<not> present \<or> failed = [] then r
      else
        let s = fold (licence_claim licence_for failed) claims
                  \<lparr>ls_overrides = [], ls_hard = 0, ls_denials = [], ls_seen = 0\<rparr>;
            r = bump ''weighted_comparison_seen'' (ls_seen s) r;
            r = fold (\<lambda>(counter, n). bump counter n) (ls_denials s) r
        in if ls_overrides s = [] then r
           else rescore_citation_branch claim_kind (ls_overrides s)
             (bump ''weighted_comparison_licensed_hard'' (ls_hard s)
               (apply_claim_overrides (map (licensed_override detail) (ls_overrides s)) r)))"

section \<open>Scoped absences\<close>

record slice_row =
  sl_text :: py_str
  sl_machine :: bool

text \<open>
  What the absence pass asks of the wording: the qualifier that scopes a negative, the class that
  routes it elsewhere, whether a row is in the claim's scope, the content terms of a claim, the rows
  that share them (and whether the screen told rows apart), whether a row reports less than the
  claim denies, whether it is a negative itself, and the detail of a verdict.
\<close>

record absence_reader =
  ab_qualifier :: "py_str \<Rightarrow> py_str option"
  ab_excluded :: "py_str \<Rightarrow> py_str option"
  ab_in_scope :: "py_str \<Rightarrow> py_str \<Rightarrow> bool"
  ab_terms :: "py_str \<Rightarrow> py_str list"
  ab_candidates :: "py_str list \<Rightarrow> py_str list \<Rightarrow> py_str list \<times> bool"
  ab_undershoots :: "py_str \<Rightarrow> py_str \<Rightarrow> py_str list \<Rightarrow> bool"
  ab_negative_row :: "py_str \<Rightarrow> py_str list \<Rightarrow> bool"
  ab_detail :: "py_str \<Rightarrow> py_str \<Rightarrow> py_str option"

abbreviation ABSENCE_SLICE_CONTRADICTED :: py_str where "ABSENCE_SLICE_CONTRADICTED \<equiv> ''absence_slice_contradicted''"
abbreviation ABSENCE_SLICE_CANDIDATE_CAP :: nat where "ABSENCE_SLICE_CANDIDATE_CAP \<equiv> 24"
abbreviation ABSENCE_SLICE_THIN_ROWS :: nat where "ABSENCE_SLICE_THIN_ROWS \<equiv> 3"
abbreviation ABSENCE_SLICE_MIN_TERMS :: nat where "ABSENCE_SLICE_MIN_TERMS \<equiv> 1"

definition COEXISTING_FLAG_COUNTERS :: "(py_str \<times> py_str) list" where
  "COEXISTING_FLAG_COUNTERS = [(''unscoped_absence_claim'', ''absence_slice_scope_flagged''),
     (UNCITED_WORLD_KNOWLEDGE, ''absence_slice_premise_flagged'')]"

record stage2_claim =
  s2_text :: py_str
  s2_hits :: "py_str list"
  s2_qualifier :: py_str
  s2_terms :: "py_str list"

definition absence_override :: "absence_reader \<Rightarrow> bool \<Rightarrow> py_str \<Rightarrow> claim_override" where
  "absence_override ab ok claim =
     (if ok then \<lparr>ov_text = claim, ov_supported = True, ov_counter = ''absence_slice_verified'', ov_reason = None,
        ov_detail = ab_detail ab ''absence_slice_verified'' claim, ov_annotate_only = False\<rparr>
      else \<lparr>ov_text = claim, ov_supported = False, ov_counter = ABSENCE_SLICE_CONTRADICTED,
        ov_reason = Some ABSENCE_SLICE_CONTRADICTED, ov_detail = ab_detail ab ABSENCE_SLICE_CONTRADICTED claim,
        ov_annotate_only = False\<rparr>)"

definition resolve_violating_row :: "py_str \<Rightarrow> py_str list \<Rightarrow> py_str option" where
  "resolve_violating_row quote shown =
     (let norm = normalize_quote_text quote; cleaned = strip_quotes norm in
      if norm = [] then None
      else case find (\<lambda>row. normalize_quote_text row = norm) shown of
        Some row \<Rightarrow> Some row
      | None \<Rightarrow>
          if length cleaned < JUDGE_QUOTE_MIN_CHARS then None
          else find (\<lambda>row. is_in cleaned (normalize_quote_text row)) shown)"

text \<open>The verdict on one claim of the second stage: the counters to bump and the override.\<close>

definition stage2_decision ::
  "absence_reader \<Rightarrow> py_str list \<Rightarrow> stage2_claim \<Rightarrow> graded \<Rightarrow> py_str list \<times> claim_override option" where
  "stage2_decision ab shown e = (\<lambda>(verdict, quote, how).
     (if verdict = VERDICT_SUPPORTED then ([], Some (absence_override ab True (s2_text e)))
      else case (verdict = VERDICT_CONTRADICTED, resolve_violating_row quote shown) of
        (True, Some row) \<Rightarrow>
          if row = [] then ([''absence_slice_unresolved''], None)
          else if ab_undershoots ab (s2_qualifier e) row (s2_terms e)
          then ([''absence_slice_scale_undershoot'', ''absence_slice_unresolved''], None)
          else if ab_negative_row ab row (s2_terms e)
          then ([''absence_slice_row_restates_claim'', ''absence_slice_unresolved''], None)
          else ([], Some (absence_override ab False (s2_text e)))
      | _ \<Rightarrow> ([''absence_slice_unresolved''], None)))"

definition bump_all :: "py_str list \<Rightarrow> report \<Rightarrow> report" where
  "bump_all counters r = fold (\<lambda>c. bump c 1) counters r"

text \<open>The one call of the second stage; \<open>None\<close> when it is cancelled.\<close>

definition absence_slice_stage2 ::
  "absence_reader \<Rightarrow> (py_str \<Rightarrow> json option) \<Rightarrow> call_env \<Rightarrow> stage2_claim list \<Rightarrow> report
     \<Rightarrow> (report \<times> claim_override list) option" where
  "absence_slice_stage2 ab loads call stage2 r =
     (let shown = take ABSENCE_SLICE_CANDIDATE_CAP (keep_first id [] (concat (map s2_hits stage2)));
          undecided = Some (bump ''absence_slice_unresolved'' (int (length stage2)) r, [])
      in case fst (judge_claim_partition loads call (length stage2) new_telemetry) of
           Inl Judge_cancelled \<Rightarrow> None
         | Inl Judge_failed \<Rightarrow> undecided
         | Inr vs \<Rightarrow>
             if vs = [] then undecided
             else
               let decisions = map (\<lambda>(e, g). stage2_decision ab shown e g) (zip stage2 vs)
               in Some (bump_all (concat (map fst decisions)) r, List.map_filter snd decisions))"

text \<open>The claims that the pass takes up, and the first screen of each.\<close>

fun absence_candidates ::
  "absence_reader \<Rightarrow> py_str list \<Rightarrow> report \<Rightarrow> report \<times> (py_str \<times> py_str) list" where
  "absence_candidates ab [] r = (r, [])"
| "absence_candidates ab (claim # claims) r =
     (case ab_qualifier ab claim of
        None \<Rightarrow> absence_candidates ab claims r
      | Some qual \<Rightarrow>
          (case ab_excluded ab claim of
             Some cls \<Rightarrow> absence_candidates ab claims
               (bump (''absence_slice_route_excluded_'' @ cls) 1 (bump ''absence_slice_route_excluded'' 1 r))
           | None \<Rightarrow> (let (r', cs) = absence_candidates ab claims r in (r', (claim, qual) # cs))))"

fun drop_flagged ::
  "(py_str \<times> py_str) list \<Rightarrow> (py_str \<times> py_str) list \<Rightarrow> report \<Rightarrow> report \<times> (py_str \<times> py_str) list" where
  "drop_flagged flags [] r = (r, [])"
| "drop_flagged flags ((claim, qual) # cs) r =
     (case map_of flags (py_strip claim) of
        Some counter \<Rightarrow> drop_flagged flags cs (bump counter 1 r)
      | None \<Rightarrow> (let (r', out) = drop_flagged flags cs r in (r', (claim, qual) # out)))"

definition scope_flags :: "report \<Rightarrow> (py_str \<times> py_str) list" where
  "scope_flags r = fold (\<lambda>cv m. case Option.bind (cv_reason cv) (map_of COEXISTING_FLAG_COUNTERS) of
     None \<Rightarrow> m | Some counter \<Rightarrow> AList.update (claim_key cv) counter m) (fr_ledger r) []"

text \<open>The first screen of one claim: what it counts, the override or the claim for the second stage.\<close>

definition screen_claim ::
  "absence_reader \<Rightarrow> slice_row list \<Rightarrow> py_str \<Rightarrow> py_str \<Rightarrow> report
     \<Rightarrow> report \<times> claim_override list \<times> stage2_claim list" where
  "screen_claim ab eligible claim qual r =
     (let texts = map sl_text (filter (\<lambda>row. ab_in_scope ab claim (sl_text row)) eligible);
          r = bump ''absence_slice_off_scope_rows_excluded'' (int (length eligible) - int (length texts)) r;
          terms = ab_terms ab claim;
          (found, discriminated) = ab_candidates ab terms texts
      in if texts = [] then (bump_all [''absence_slice_unresolved'', ''absence_slice_no_eligible_rows''] r, [], [])
         else if length terms < ABSENCE_SLICE_MIN_TERMS then (bump ''absence_slice_unresolved'' 1 r, [], [])
         else if found = [] \<and> discriminated
         then (if length texts < ABSENCE_SLICE_THIN_ROWS then bump ''absence_slice_thin'' 1 r else r,
               [absence_override ab True claim], [])
         else if found = [] then (bump ''absence_slice_unresolved'' 1 r, [], [])
         else (bump ''absence_slice_candidates'' 1 r, [],
               [\<lparr>s2_text = claim, s2_hits = found, s2_qualifier = qual, s2_terms = terms\<rparr>]))"

fun screen_claims ::
  "absence_reader \<Rightarrow> slice_row list \<Rightarrow> (py_str \<times> py_str) list \<Rightarrow> report
     \<Rightarrow> report \<times> claim_override list \<times> stage2_claim list" where
  "screen_claims ab eligible [] r = (r, [], [])"
| "screen_claims ab eligible ((claim, qual) # cs) r =
     (let (r, ovs, st) = screen_claim ab eligible claim qual r;
          (r, ovs', st') = screen_claims ab eligible cs r
      in (r, ovs @ ovs', st @ st'))"

text \<open>
  The claims that are left, against the rows: \<open>judge\<close> is the second stage's JSON reader and model when
  the judge is on. \<open>None\<close> is a cancellation.
\<close>

definition settle_absences ::
  "absence_reader \<Rightarrow> ((py_str \<Rightarrow> json option) \<times> call_env) option \<Rightarrow> slice_row list \<Rightarrow> (py_str \<times> py_str) list
     \<Rightarrow> report \<Rightarrow> report option" where
  "settle_absences ab judge slice_rows scoped r =
     (let eligible = filter (\<lambda>row. \<not> sl_machine row) slice_rows;
          machine = int (length slice_rows) - int (length eligible);
          r = bump ''absence_slice_machine_rows_excluded'' machine r;
          (r, overrides, stage2) = screen_claims ab eligible scoped r
      in if stage2 = [] then Some (apply_claim_overrides overrides r)
         else case judge of
           None \<Rightarrow> Some (apply_claim_overrides overrides (bump ''absence_slice_unresolved'' (int (length stage2)) r))
         | Some (loads, call) \<Rightarrow>
             map_option (\<lambda>(r, more). apply_claim_overrides (overrides @ more) r)
               (absence_slice_stage2 ab loads call stage2 r))"

text \<open>The pass: \<open>slice\<close> is the answer of the store, \<open>None\<close> if it is not wired, \<open>Some None\<close> if it is unreadable.\<close>

definition fold_absence_slice ::
  "absence_reader \<Rightarrow> slice_row list option option \<Rightarrow> ((py_str \<Rightarrow> json option) \<times> call_env) option \<Rightarrow> py_str list
     \<Rightarrow> report \<Rightarrow> report option" where
  "fold_absence_slice ab slice judge judgeable r = (case slice of
     None \<Rightarrow> Some r
   | Some rows \<Rightarrow>
       (let flags = scope_flags r;
            (r, candidates) = absence_candidates ab judgeable r
        in if candidates = [] then Some r
           else let (r, scoped) = drop_flagged flags candidates r
           in if scoped = [] then Some r
              else case rows of
                None \<Rightarrow> Some (bump ''absence_slice_unavailable'' (int (length scoped)) r)
              | Some slice_rows \<Rightarrow> settle_absences ab judge slice_rows scoped r))"

section \<open>The checks of the inputs\<close>

abbreviation BURIED_LEAD_SALIENCE :: py_str where "BURIED_LEAD_SALIENCE \<equiv> ''buried_lead_salience''"
abbreviation UNSURFACED_CONTRADICTION :: py_str where "UNSURFACED_CONTRADICTION \<equiv> ''unsurfaced_input_contradiction''"

definition TENSION_MARKERS :: "py_str list" where
  "TENSION_MARKERS = [''tension'', ''contradict'', ''disagree'', ''diverge'', ''conflict'', ''inconsist'',
     ''at odds'', ''incompatible'']"

text \<open>\<^verbatim>\<open>f"{x}"\<close> of a value that may be missing.\<close>

definition text_at :: "arm_env \<Rightarrow> json option \<Rightarrow> py_str" where
  "text_at env v = (case v of None \<Rightarrow> ''None'' | Some x \<Rightarrow> json_text (ae_text_of env) x)"

definition ref_marker :: "arm_env \<Rightarrow> json option \<Rightarrow> py_str" where
  "ref_marker env v = ''[[ref:'' @ text_at env v @ '']]''"

text \<open>An integer; Python's \<^verbatim>\<open>True\<close> and \<^verbatim>\<open>False\<close> are integers too.\<close>

fun int_value :: "json option \<Rightarrow> int option" where
  "int_value (Some (J_int n)) = Some n"
| "int_value (Some (J_bool b)) = Some (of_bool b)"
| "int_value _ = None"

definition fold_salience_lead :: "arm_env \<Rightarrow> json_dict \<Rightarrow> py_str list \<Rightarrow> json \<Rightarrow> report \<Rightarrow> report" where
  "fold_salience_lead env eval_block claims assembly r = (case dict_at eval_block ''salience_check'' of
     None \<Rightarrow> r
   | Some check \<Rightarrow>
       if map_of check ''pass'' \<noteq> Some (J_bool False) then r
       else if is_assembly env assembly then bump ''salience_lead_suppressed_assembly'' 1 r
       else
         let lead = map_of check ''lead_ref'';
             lead_text = (if int_value lead = None then []
               else case find (is_in (ref_marker env lead)) claims of Some c \<Rightarrow> c | None \<Rightarrow> []);
             note = take 400 (or_text env (map_of check ''reason''))
         in fold_soft
              (if lead_text \<noteq> [] then lead_text else ''[lead citation ref '' @ text_at env lead @ ''] '' @ note)
              BURIED_LEAD_SALIENCE (case int_value lead of Some n \<Rightarrow> [n] | None \<Rightarrow> []) ''salience_lead_buried'' r)"

definition surfaces_contradiction :: "arm_env \<Rightarrow> py_str \<Rightarrow> json option \<Rightarrow> json option \<Rightarrow> bool" where
  "surfaces_contradiction env body a b =
     (list_ex (\<lambda>m. is_in m (py_lower body)) TENSION_MARKERS \<and>
      is_in (ref_marker env a) body \<and> is_in (ref_marker env b) body)"

definition contradiction_text :: "arm_env \<Rightarrow> json_dict \<Rightarrow> py_str" where
  "contradiction_text env pair =
     (let subject = take 120 (py_join '' '' (case map_of pair ''subject'' of
            Some (J_list vs) \<Rightarrow> map (json_text (ae_text_of env)) vs
          | Some (J_str t) \<Rightarrow> map (\<lambda>c. [c]) t
          | Some (J_object d) \<Rightarrow> map fst d
          | _ \<Rightarrow> []))
      in ref_marker env (map_of pair ''a_ref'') @ '' vs '' @ ref_marker env (map_of pair ''b_ref'') @
         '' - the input set asserts incompatible states of '' @ [CHR 0x27] @ subject @ [CHR 0x27] @ '' ('' @
         text_at env (map_of pair ''group'') @
         '') and this composition does not name the disagreement'')"

definition fold_contradiction :: "arm_env \<Rightarrow> py_str \<Rightarrow> json_dict \<Rightarrow> report \<Rightarrow> report" where
  "fold_contradiction env body pair r =
     (let a = map_of pair ''a_ref''; b = map_of pair ''b_ref'' in
      if surfaces_contradiction env body a b then bump ''input_contradiction_surfaced'' 1 r
      else fold_soft (contradiction_text env pair) UNSURFACED_CONTRADICTION
             (List.map_filter int_value [a, b]) ''input_contradiction_unsurfaced'' r)"

definition fold_input_contradictions :: "arm_env \<Rightarrow> json_dict \<Rightarrow> py_str \<Rightarrow> report \<Rightarrow> report" where
  "fold_input_contradictions env eval_block body r =
     fold (fold_contradiction env body) (dicts_at eval_block ''contradictions'') r"

definition fold_input_checks :: "arm_env \<Rightarrow> json \<Rightarrow> py_str \<Rightarrow> py_str list \<Rightarrow> json \<Rightarrow> report \<Rightarrow> report" where
  "fold_input_checks env eval_block body claims assembly r = (case eval_block of
     J_object d \<Rightarrow> if d = [] then r
                   else fold_input_contradictions env d body (fold_salience_lead env d claims assembly r)
   | _ \<Rightarrow> r)"

section \<open>The composition against its desk reads\<close>

text \<open>
  What the four arms ask of the wording: the desk and the content of an attributed clause, whether a
  desk source answers to a desk's name, whether the content sends the desk's direction the other
  way, asserts what the desk denies or quotes what the head does not say, whether a claim asserts an
  absence, and whether it deletes the scope of the heads it cites. A test that finds something gives
  the detail.
\<close>

record desk_reader =
  dk_attributed :: "py_str \<Rightarrow> (py_str \<times> py_str) option"
  dk_answers :: "py_str \<Rightarrow> py_str \<Rightarrow> bool"
  dk_direction :: "py_str \<Rightarrow> py_str \<Rightarrow> py_str option"
  dk_negative :: "py_str \<Rightarrow> py_str \<Rightarrow> py_str option"
  dk_ungrounded :: "py_str \<Rightarrow> py_str \<Rightarrow> py_str option"
  dk_absence :: "py_str \<Rightarrow> bool"
  dk_laundered :: "py_str \<Rightarrow> (int \<times> py_str) list \<Rightarrow> py_str option"

text \<open>One failed row more, with a detail.\<close>

definition fold_soft_detail :: "py_str \<Rightarrow> py_str \<Rightarrow> int list \<Rightarrow> py_str \<Rightarrow> py_str \<Rightarrow> report \<Rightarrow> report" where
  "fold_soft_detail txt reason markers counter detail r =
     (let sp = (unsupported_span (take 2000 txt) reason markers)\<lparr>sp_detail := Some detail\<rparr>;
          checkable = fr_checkable r + 1
      in bump counter 1
           (r\<lparr>fr_score := ratio (fr_supported r) checkable, fr_checkable := checkable,
             fr_spans := fr_spans r @ [sp],
             fr_ledger := fr_ledger r @ [cv_failed (sp_text sp) reason markers (Some detail)],
             fr_denominator := Some checkable,
             fr_partial := None, fr_partial_claims := []\<rparr>))"

definition ref_ordinals :: "py_str \<Rightarrow> int list" where
  "ref_ordinals claim = map int (keep_first id [] (find_all match_ref claim))"

definition resolve_head ::
  "(py_str \<Rightarrow> py_str \<Rightarrow> bool) \<Rightarrow> py_str \<Rightarrow> int list \<Rightarrow> (int \<times> py_str) list \<Rightarrow> (int \<times> py_str) list \<Rightarrow> (int \<times> py_str) option" where
  "resolve_head answers slug ords heads sources =
     (let cited = filter (\<lambda>n. case map_of heads n of Some h \<Rightarrow> h \<noteq> [] | None \<Rightarrow> False) ords;
          head = (\<lambda>n. (n, case map_of heads n of Some h \<Rightarrow> h | None \<Rightarrow> []));
          source = (\<lambda>n. case map_of sources n of Some s \<Rightarrow> s | None \<Rightarrow> [])
      in case find (\<lambda>n. source n \<noteq> [] \<and> answers slug (source n)) cited of
           Some n \<Rightarrow> Some (head n)
         | None \<Rightarrow> (case cited of [n] \<Rightarrow> Some (head n) | _ \<Rightarrow> None))"

definition attribution_arms :: "desk_reader \<Rightarrow> py_str \<Rightarrow> py_str \<Rightarrow> (py_str \<times> py_str) option" where
  "attribution_arms dk content head =
     (case dk_direction dk content head of
        Some detail \<Rightarrow> Some (''attribution_direction_conflict'', detail)
      | None \<Rightarrow> (case dk_negative dk content head of
          Some detail \<Rightarrow> Some (''attribution_asserts_desk_negative'', detail)
        | None \<Rightarrow> map_option (Pair ''attribution_ungrounded_quote'') (dk_ungrounded dk content head)))"

definition grade_composition_claim ::
  "desk_reader \<Rightarrow> (int \<times> py_str) list \<Rightarrow> (int \<times> py_str) list \<Rightarrow> py_str \<Rightarrow> report \<Rightarrow> report" where
  "grade_composition_claim dk heads sources claim r =
     (let ords = ref_ordinals claim in
      case dk_attributed dk claim of
        Some (slug, content) \<Rightarrow>
          let r = bump ''composition_integrity_attributions_seen'' 1 r in
          (case resolve_head (dk_answers dk) slug ords heads sources of
             None \<Rightarrow> bump ''composition_integrity_desk_unresolved'' 1 r
           | Some (n, head) \<Rightarrow>
               (case attribution_arms dk content head of
                  Some (reason, detail) \<Rightarrow>
                    fold_soft_detail claim reason [n] (''composition_integrity_'' @ reason) detail r
                | None \<Rightarrow> bump ''composition_integrity_attributions_clean'' 1 r))
      | None \<Rightarrow>
          if ords \<noteq> [] \<and> dk_absence dk claim
          then let r = bump ''composition_integrity_absence_claims_seen'' 1 r in
               (case dk_laundered dk claim heads of
                  Some detail \<Rightarrow> fold_soft_detail claim ''absence_scope_laundered'' ords
                    ''composition_integrity_absence_scope_laundered'' detail r
                | None \<Rightarrow> r)
          else r)"

definition ordinal_evidence_map :: "(py_str \<Rightarrow> rat option) \<Rightarrow> json \<Rightarrow> (int \<times> py_str) list" where
  "ordinal_evidence_map float_of citations = build_ordinal_map float_of citations
     (\<lambda>entry n. Some (case nonempty_str (map_of entry ''evidence_text'') of Some s \<Rightarrow> s
        | None \<Rightarrow> (case nonempty_str (map_of entry ''title'') of Some s \<Rightarrow> s | None \<Rightarrow> show_int n)))"

definition fold_composition ::
  "desk_reader \<Rightarrow> (py_str \<Rightarrow> rat option) \<Rightarrow> json \<Rightarrow> py_str list \<Rightarrow> report \<Rightarrow> report" where
  "fold_composition dk float_of citations claims r =
     (let heads = ordinal_evidence_map float_of citations in
      if \<not> uses_subclaim_convention citations \<or> heads = [] then r
      else fold (grade_composition_claim dk heads (ordinal_source_map float_of citations)) claims r)"

section \<open>The passes keep the tally\<close>

text \<open>
  A report with a given status and ceiling, which is tallied if \<open>q\<close> holds: no pass after the judge
  changes the two, and none breaks the tally.
\<close>

definition floor_graded :: "bool \<Rightarrow> py_str \<Rightarrow> rat option \<Rightarrow> report \<Rightarrow> bool" where
  "floor_graded q status cap r = ((q \<longrightarrow> tallied r) \<and> fr_judge_status r = status \<and> fr_ceiling r = cap)"

lemma tallied_score: "tallied r \<Longrightarrow> 0 \<le> fr_score r \<and> fr_score r \<le> 1"
  using tallies_range ratio_range by (fastforce simp: tallied_def)

lemma overrides_meta [simp]:
  "fr_judge_status (apply_claim_overrides ovs r) = fr_judge_status r"
  "fr_ceiling (apply_claim_overrides ovs r) = fr_ceiling r"
  by (simp_all add: apply_claim_overrides_def Let_def)

lemma graded_bump [simp]: "floor_graded q st cap (bump k n r) = floor_graded q st cap r"
  by (simp add: floor_graded_def tallied_def)

lemma graded_overrides:
  "sound_overrides ovs \<Longrightarrow> floor_graded q st cap r \<Longrightarrow> floor_graded q st cap (apply_claim_overrides ovs r)"
  by (simp add: floor_graded_def overrides_keep_tally)

lemma graded_counters: "floor_graded q st cap r \<Longrightarrow> floor_graded q st cap (r\<lparr>fr_counters := cs\<rparr>)"
  by (simp add: floor_graded_def tallied_def)

lemma graded_branches [simp]: "floor_graded q st cap (r\<lparr>fr_branch_scores := b\<rparr>) = floor_graded q st cap r"
  by (simp add: floor_graded_def tallied_def)

lemma graded_bumps: "floor_graded q st cap r \<Longrightarrow> floor_graded q st cap (fold (\<lambda>(c, n). bump c n) cs r)"
  by (induction cs arbitrary: r) auto

lemma graded_bump_all: "floor_graded q st cap r \<Longrightarrow> floor_graded q st cap (bump_all cs r)"
  unfolding bump_all_def by (induction cs arbitrary: r) auto

lemma tally_failed:
  "tallies n rows \<Longrightarrow> tallies n (rows @ [cv_failed c reason ms d])"
  using tallies_append [of n rows 0 "[cv_failed c reason ms d]"] by (simp add: tallies_def)

lemma graded_soft: "floor_graded q st cap r \<Longrightarrow> floor_graded q st cap (fold_soft txt reason ms counter r)"
  by (simp add: fold_soft_def Let_def) (simp add: floor_graded_def tallied_def tally_failed)

lemma graded_soft_detail:
  "floor_graded q st cap r \<Longrightarrow> floor_graded q st cap (fold_soft_detail txt reason ms counter d r)"
  by (simp add: fold_soft_detail_def Let_def) (simp add: floor_graded_def tallied_def tally_failed)

lemma graded_finding: "floor_graded q st cap r \<Longrightarrow> floor_graded q st cap (fold_finding f r)"
  by (simp add: fold_finding_def Let_def floor_graded_def tallied_def tally_failed)

lemmas graded_intros = graded_overrides graded_counters graded_bumps graded_bump_all graded_soft
  graded_soft_detail graded_finding

lemma graded_fold:
  assumes "\<And>x r. floor_graded q st cap r \<Longrightarrow> floor_graded q st cap (f x r)" "floor_graded q st cap r"
  shows "floor_graded q st cap (fold f xs r)"
  using assms(2) by (induction xs arbitrary: r) (simp_all add: assms(1))

lemma sound_all: "(\<And>ov. ov \<in> set ovs \<Longrightarrow> sound_overrides [ov]) \<Longrightarrow> sound_overrides ovs"
  by (simp add: sound_overrides_def list_all_iff)

lemma sound_kinds [simp]:
  "sound_overrides [uncited_override d c]" "sound_overrides [licensed_override dt c]"
  "sound_overrides [absence_override ab ok c]"
  by (simp_all add: sound_overrides_def uncited_override_def licensed_override_def absence_override_def
      ADVISORY_REASONS_def)

lemma graded_metadata: "floor_graded q st cap r \<Longrightarrow> floor_graded q st cap (fold_metadata_claims mr citations judgeable r)"
proof -
  assume r: "floor_graded q st cap r"
  obtain r' ovs where m: "metadata_overrides mr citations (uses_subclaim_convention citations) judgeable (r, []) = (r', ovs)"
    by force
  have "sound_overrides []"
    by (simp add: sound_overrides_def)
  from metadata_overrides_sound [OF m this] r show ?thesis
    by (auto simp: fold_metadata_claims_def m intro!: graded_overrides graded_counters)
qed

lemma graded_markerless:
  "floor_graded q st cap r \<Longrightarrow> floor_graded q st cap (fold_markerless_uncited b d citations judgeable r)"
  unfolding fold_markerless_uncited_def Let_def by (rule graded_overrides [OF sound_all]) auto

lemma graded_rescore: "floor_graded q st cap r \<Longrightarrow> floor_graded q st cap (rescore_citation_branch ck lifted r)"
  by (simp add: rescore_citation_branch_def Let_def split: option.split)

lemma graded_weighting:
  assumes "floor_graded q st cap r"
  shows "floor_graded q st cap (fold_weighting present lf ck dt citations claims r)"
proof -
  have sound: "sound_overrides (map (licensed_override dt) cs)" for cs
    by (rule sound_all) auto
  define s where "s = fold (licence_claim lf (failed_by_text r)) claims
      \<lparr>ls_overrides = [], ls_hard = 0, ls_denials = [], ls_seen = 0\<rparr>"
  define r1 where "r1 = fold (\<lambda>(c, n). bump c n) (ls_denials s) (bump ''weighted_comparison_seen'' (ls_seen s) r)"
  have r1: "floor_graded q st cap r1"
    unfolding r1_def using assms by (intro graded_bumps) simp
  have "floor_graded q st cap (rescore_citation_branch ck (ls_overrides s) (bump ''weighted_comparison_licensed_hard'' (ls_hard s)
      (apply_claim_overrides (map (licensed_override dt) (ls_overrides s)) r1)))"
    using graded_overrides [OF sound r1] by (intro graded_rescore) simp
  moreover have "fold_weighting present lf ck dt citations claims r =
      (if \<not> uses_subclaim_convention citations \<or> \<not> present \<or> failed_by_text r = [] then r
       else if ls_overrides s = [] then r1
       else rescore_citation_branch ck (ls_overrides s) (bump ''weighted_comparison_licensed_hard'' (ls_hard s)
         (apply_claim_overrides (map (licensed_override dt) (ls_overrides s)) r1)))"
    unfolding fold_weighting_def Let_def s_def r1_def ..
  ultimately show ?thesis
    using r1 assms by presburger
qed

text \<open>A pass that only counts.\<close>

definition recounted :: "report \<Rightarrow> report \<Rightarrow> bool" where
  "recounted r r' = (\<exists>cs. r' = r\<lparr>fr_counters := cs\<rparr>)"

lemma recounted_refl [simp]: "recounted r r"
  unfolding recounted_def by (rule exI [of _ "fr_counters r"]) simp

lemma recounted_trans: "recounted r r' \<Longrightarrow> recounted r' r'' \<Longrightarrow> recounted r r''"
  by (auto simp: recounted_def)

lemma recounted_bump [simp]: "recounted r (bump k n r)"
  unfolding bump_def recounted_def by (auto intro: exI [of _ "fr_counters r"])

lemma recounted_bumped: "recounted (bump k n r) r' \<Longrightarrow> recounted r r'"
  using recounted_trans recounted_bump by blast

lemma recounted_bump_all: "recounted r (bump_all cs r)"
  unfolding bump_all_def by (induction cs arbitrary: r) (auto intro: recounted_bumped)

lemma recounted_bumped_all: "recounted (bump_all cs r) r' \<Longrightarrow> recounted r r'"
  using recounted_trans recounted_bump_all by blast

lemma recounted_keeps:
  assumes "recounted r r'"
  shows "floor_graded q st cap r \<Longrightarrow> floor_graded q st cap r'" "fr_ledger r' = fr_ledger r"
  using assms by (auto simp: recounted_def floor_graded_def tallied_def)

lemma candidates_recount: "recounted r (fst (absence_candidates ab claims r))"
  by (induction claims arbitrary: r)
    (auto simp: case_prod_unfold Let_def split: option.split intro: recounted_bumped)

lemma drop_recount: "recounted r (fst (drop_flagged flags cs r))"
  by (induction flags cs r rule: drop_flagged.induct)
    (auto simp: case_prod_unfold Let_def split: option.split intro: recounted_bumped)

lemma screen_claim_shape:
  assumes "screen_claim ab eligible claim qual r = (r', ovs, st)"
  shows "recounted r r' \<and> sound_overrides ovs \<and> ov_text ` set ovs \<subseteq> {claim} \<and> s2_text ` set st \<subseteq> {claim}"
proof -
  let ?texts = "map sl_text (filter (\<lambda>row. ab_in_scope ab claim (sl_text row)) eligible)"
  obtain found d where f: "ab_candidates ab (ab_terms ab claim) ?texts = (found, d)"
    by force
  define r1 where "r1 = bump ''absence_slice_off_scope_rows_excluded'' (int (length eligible) - int (length ?texts)) r"
  have r1: "recounted r r1" "recounted r (bump k n r1)" "recounted r (bump_all ks r1)" for k n ks
    unfolding r1_def
    by (rule recounted_bump, rule recounted_trans [OF recounted_bump recounted_bump],
        rule recounted_trans [OF recounted_bump recounted_bump_all])
  have shape: "(r', ovs, st) =
     (if ?texts = [] then (bump_all [''absence_slice_unresolved'', ''absence_slice_no_eligible_rows''] r1, [], [])
      else if length (ab_terms ab claim) < ABSENCE_SLICE_MIN_TERMS then (bump ''absence_slice_unresolved'' 1 r1, [], [])
      else if found = [] \<and> d
      then (if length ?texts < ABSENCE_SLICE_THIN_ROWS then bump ''absence_slice_thin'' 1 r1 else r1,
            [absence_override ab True claim], [])
      else if found = [] then (bump ''absence_slice_unresolved'' 1 r1, [], [])
      else (bump ''absence_slice_candidates'' 1 r1, [],
            [\<lparr>s2_text = claim, s2_hits = found, s2_qualifier = qual, s2_terms = ab_terms ab claim\<rparr>]))"
    unfolding assms [symmetric] screen_claim_def Let_def f r1_def by (simp only: prod.case)
  have "ov_text (absence_override ab True claim) = claim" "sound_overrides []"
    by (simp_all add: absence_override_def sound_overrides_def)
  then show ?thesis
    using shape r1 sound_kinds(3) [of ab True claim]
    by (simp only: prod.inject split: if_split_asm) simp_all
qed

lemma screen_shape:
  "screen_claims ab eligible cs r = (r', ovs, st) \<Longrightarrow>
   recounted r r' \<and> sound_overrides ovs \<and> ov_text ` set ovs \<subseteq> fst ` set cs \<and> s2_text ` set st \<subseteq> fst ` set cs"
proof (induction ab eligible cs r arbitrary: r' ovs st rule: screen_claims.induct)
  case (1 ab eligible r)
  then show ?case by (simp add: sound_overrides_def)
next
  case (2 ab eligible claim qual cs r)
  obtain r1 o1 s1 where a: "screen_claim ab eligible claim qual r = (r1, o1, s1)"
    by (metis surj_pair)
  obtain r2 o2 s2 where b: "screen_claims ab eligible cs r1 = (r2, o2, s2)"
    by (metis surj_pair)
  have "r' = r2" "ovs = o1 @ o2" "st = s1 @ s2"
    using "2.prems" a b by simp_all
  moreover note screen_claim_shape [OF a] "2.IH" [OF a [symmetric] refl refl b]
  ultimately show ?case
    using recounted_trans [of r r1 r2] by (auto simp: sound_overrides_def)
qed

lemma stage2_shape:
  assumes "absence_slice_stage2 ab loads call stage2 r = Some (r', ovs)"
  shows "recounted r r' \<and> sound_overrides ovs \<and> ov_text ` set ovs \<subseteq> s2_text ` set stage2"
proof -
  have one: "snd (stage2_decision ab shown e g) = Some ov \<Longrightarrow> sound_overrides [ov] \<and> ov_text ov = s2_text e"
    for shown e g ov
  proof -
    have "ov_text (absence_override ab ok (s2_text e)) = s2_text e" for ok
      by (simp add: absence_override_def)
    then show "snd (stage2_decision ab shown e g) = Some ov \<Longrightarrow> ?thesis"
      by (auto simp: stage2_decision_def split: prod.splits if_splits option.splits bool.splits)
  qed
  define D where "D = (\<lambda>(e, g). stage2_decision ab
      (take ABSENCE_SLICE_CANDIDATE_CAP (keep_first id [] (concat (map s2_hits stage2)))) e g)"
  have res: "(r', ovs) = (bump ''absence_slice_unresolved'' (int (length stage2)) r, []) \<or>
      (\<exists>vs. (r', ovs) = (bump_all (concat (map fst (map D (zip stage2 vs)))) r, List.map_filter snd (map D (zip stage2 vs))))"
    using assms unfolding absence_slice_stage2_def Let_def D_def
    by (auto split: sum.splits judge_exc.splits if_splits)
  have sound: "sound_overrides (List.map_filter snd (map D egs))" for egs
    by (rule sound_all) (auto simp: map_filter_def D_def dest!: one)
  have names: "ov_text ` set (List.map_filter snd (map D (zip stage2 vs))) \<subseteq> s2_text ` set stage2" for vs
    by (auto simp: map_filter_def D_def dest!: one set_zip_leftD)
  show ?thesis
    using res
  proof (elim disjE exE)
    assume "(r', ovs) = (bump ''absence_slice_unresolved'' (int (length stage2)) r, [])"
    then show ?thesis by (simp add: sound_overrides_def)
  next
    fix vs
    assume "(r', ovs) = (bump_all (concat (map fst (map D (zip stage2 vs)))) r, List.map_filter snd (map D (zip stage2 vs)))"
    then show ?thesis
      using sound names recounted_bump_all by (simp only: prod.inject)
  qed
qed

lemma settle_shape:
  assumes "settle_absences ab judge rows scoped r = Some r'"
  shows "\<exists>ovs r1. r' = apply_claim_overrides ovs r1 \<and> recounted r r1 \<and> sound_overrides ovs \<and>
    ov_text ` set ovs \<subseteq> fst ` set scoped"
proof -
  let ?el = "filter (\<lambda>row. \<not> sl_machine row) rows"
  define r0 where "r0 = bump ''absence_slice_machine_rows_excluded'' (int (length rows) - int (length ?el)) r"
  obtain r1 ovs st where s: "screen_claims ab ?el scoped r0 = (r1, ovs, st)"
    by (rule prod_cases3)
  note shape = screen_shape [OF s]
  have r1: "recounted r r1" "recounted r (bump k n r1)" for k n
    using shape recounted_trans [of r r0 r1] recounted_trans [of r r1 "bump k n r1"] by (simp_all add: r0_def)
  have "(\<exists>u. recounted r u \<and> r' = apply_claim_overrides ovs u) \<or>
      (\<exists>loads call u more. absence_slice_stage2 ab loads call st r1 = Some (u, more) \<and>
         r' = apply_claim_overrides (ovs @ more) u)"
  proof (cases "st = []")
    case True
    then have "r' = apply_claim_overrides ovs r1"
      using assms unfolding settle_absences_def Let_def r0_def [symmetric] s by simp
    with r1(1) show ?thesis by blast
  next
    case False
    show ?thesis
    proof (cases judge)
      case None
      then have "r' = apply_claim_overrides ovs (bump ''absence_slice_unresolved'' (int (length st)) r1)"
        using assms False unfolding settle_absences_def Let_def r0_def [symmetric] s by simp
      with r1(2) show ?thesis by blast
    next
      case (Some lc)
      then obtain u more where "absence_slice_stage2 ab (fst lc) (snd lc) st r1 = Some (u, more)"
        "r' = apply_claim_overrides (ovs @ more) u"
        using assms False unfolding settle_absences_def Let_def r0_def [symmetric] s by (auto simp: case_prod_unfold)
      then show ?thesis by blast
    qed
  qed
  then show ?thesis
  proof (elim disjE exE conjE)
    fix u
    assume "recounted r u" "r' = apply_claim_overrides ovs u"
    with shape show ?thesis by blast
  next
    fix loads call u more
    assume a: "absence_slice_stage2 ab loads call st r1 = Some (u, more)" "r' = apply_claim_overrides (ovs @ more) u"
    note two = stage2_shape [OF a(1)]
    have "sound_overrides (ovs @ more)"
      using shape two by (simp add: sound_overrides_def)
    moreover have "ov_text ` set (ovs @ more) \<subseteq> fst ` set scoped"
      using shape two unfolding set_append image_Un by blast
    moreover have "recounted r u"
      using recounted_trans [OF r1(1)] two by blast
    ultimately show ?thesis
      using a(2) by blast
  qed
qed

lemma drop_unflagged: "claim \<in> fst ` set (snd (drop_flagged flags cs r)) \<Longrightarrow> map_of flags (py_strip claim) = None"
  by (induction flags cs r rule: drop_flagged.induct) (auto simp: case_prod_unfold Let_def split: option.splits)

lemma absence_shape:
  assumes "fold_absence_slice ab slice judge judgeable r = Some r'"
  shows "\<exists>ovs r1. r' = apply_claim_overrides ovs r1 \<and> recounted r r1 \<and> sound_overrides ovs \<and>
    (\<forall>ov \<in> set ovs. map_of (scope_flags r) (py_strip (ov_text ov)) = None)"
proof -
  obtain r1 cs where c: "absence_candidates ab judgeable r = (r1, cs)"
    by force
  obtain r2 scoped where d: "drop_flagged (scope_flags r) cs r1 = (r2, scoped)"
    by force
  have r2: "recounted r r1" "recounted r r2" "recounted r (bump k n r2)" for k n
    using candidates_recount [of r ab judgeable] drop_recount [of r1 "scope_flags r" cs] c d
    by (auto intro: recounted_trans recounted_bumped recounted_bump)
  have plain: "\<exists>ovs r1. u = apply_claim_overrides ovs r1 \<and> recounted r r1 \<and> sound_overrides ovs \<and>
      (\<forall>ov \<in> set ovs. map_of (scope_flags r) (py_strip (ov_text ov)) = None)" if "recounted r u" for u
    using that by (intro exI [of _ "[]"] exI [of _ u]) (simp add: apply_claim_overrides_def sound_overrides_def)
  have "recounted r r' \<or> (\<exists>rows. settle_absences ab judge rows scoped r2 = Some r')"
    using assms r2 by (auto simp: fold_absence_slice_def Let_def c d split: option.splits if_splits)
  then show ?thesis
  proof
    assume "\<exists>rows. settle_absences ab judge rows scoped r2 = Some r'"
    then obtain ovs u where "r' = apply_claim_overrides ovs u" "recounted r2 u" "sound_overrides ovs"
      "ov_text ` set ovs \<subseteq> fst ` set scoped"
      using settle_shape by blast
    moreover have "map_of (scope_flags r) (py_strip claim) = None" if "claim \<in> fst ` set scoped" for claim
      using drop_unflagged [of claim "scope_flags r" cs r1] that d by simp
    ultimately show ?thesis
      using recounted_trans [OF r2(2), of u] by (intro exI [of _ ovs] exI [of _ u]) auto
  qed (rule plain)
qed

lemma graded_absence:
  assumes "floor_graded q st cap r" "fold_absence_slice ab slice judge judgeable r = Some r'"
  shows "floor_graded q st cap r'"
  using absence_shape [OF assms(2)] recounted_keeps(1) [OF _ assms(1)] graded_overrides by blast

lemma graded_inputs: "floor_graded q st cap r \<Longrightarrow> floor_graded q st cap (fold_input_checks env ev body claims assembly r)"
  unfolding fold_input_checks_def fold_input_contradictions_def fold_salience_lead_def fold_contradiction_def Let_def
  by (auto intro!: graded_fold graded_soft split: json.split option.split)

lemma graded_composition: "floor_graded q st cap r \<Longrightarrow> floor_graded q st cap (fold_composition dk f citations claims r)"
proof -
  have "floor_graded q st cap r \<Longrightarrow> floor_graded q st cap (grade_composition_claim dk heads sources claim r)"
    for heads sources claim r
    by (auto simp: grade_composition_claim_def Let_def intro!: graded_soft_detail split: option.split prod.split)
  then show "floor_graded q st cap r \<Longrightarrow> ?thesis"
    by (auto simp: fold_composition_def Let_def intro!: graded_fold)
qed

section \<open>A flag that is not the absence pass's to clear\<close>

lemma scope_flags_keys:
  assumes "cv \<in> set (fr_ledger r)" "cv_reason cv = Some reason" "map_of COEXISTING_FLAG_COUNTERS reason \<noteq> None"
  shows "map_of (scope_flags r) (claim_key cv) \<noteq> None"
proof -
  let ?step = "\<lambda>cv m. case Option.bind (cv_reason cv) (map_of COEXISTING_FLAG_COUNTERS) of
     None \<Rightarrow> m | Some counter \<Rightarrow> AList.update (claim_key cv) counter m"
  have keep: "map_of m k \<noteq> None \<Longrightarrow> map_of (fold ?step rows m) k \<noteq> None" for k rows m
    by (induction rows arbitrary: m) (auto simp: map_of_update split: option.split)
  have "cv \<in> set rows \<Longrightarrow> map_of (fold ?step rows m) (claim_key cv) \<noteq> None" for rows m
  proof (induction rows arbitrary: m)
    case (Cons x rows)
    then show ?case
      using assms(2,3) keep [of _ "claim_key cv" rows] by (auto simp: map_of_update split: option.split)
  qed simp
  then show ?thesis
    unfolding scope_flags_def using assms(1) by blast
qed

text \<open>The absence pass never clears a flag that is not its own. A row that was failed for the
  phrasing of a negative or for a premise no citation supplies is still there, unchanged, after the
  pass, whatever the slice contains and whatever the second judge answers.
\<close>

theorem absence_pass_keeps_flags:
  assumes "fold_absence_slice ab slice judge judgeable r = Some r'"
    and "cv \<in> set (fr_ledger r)" "cv_reason cv = Some reason"
    and "reason \<in> {''unscoped_absence_claim'', UNCITED_WORLD_KNOWLEDGE}"
  shows "cv \<in> set (fr_ledger r')"
proof -
  obtain ovs r1 where shape: "r' = apply_claim_overrides ovs r1" "fr_ledger r1 = fr_ledger r"
    "\<forall>ov \<in> set ovs. map_of (scope_flags r) (py_strip (ov_text ov)) = None"
    using absence_shape [OF assms(1)] recounted_keeps(2) by blast
  have "map_of COEXISTING_FLAG_COUNTERS reason \<noteq> None"
    using assms(4) by (auto simp: COEXISTING_FLAG_COUNTERS_def)
  then have flagged: "map_of (scope_flags r) (claim_key cv) \<noteq> None"
    by (rule scope_flags_keys [OF assms(2,3)])
  have "map_of (by_text ovs) (claim_key cv) = None"
    using by_text_entry [of ovs "claim_key cv"] shape(3) flagged by (cases "map_of (by_text ovs) (claim_key cv)") auto
  then have row: "row_after (by_text ovs) cv = cv"
    by (simp add: row_after_def)
  show ?thesis
  proof (cases "ovs = []")
    case True
    then show ?thesis
      using shape assms(2) by (simp add: apply_claim_overrides_def)
  next
    case False
    have "row_after (by_text ovs) cv \<in> row_after (by_text ovs) ` set (fr_ledger r1)"
      using assms(2) shape(2) by simp
    then show ?thesis
      unfolding shape(1) overrides_ledger [OF False] row by simp
  qed
qed

text \<open>A slice in which nothing resembles the claims, and two negatives, one of them flagged.\<close>

definition quiet_reader :: absence_reader where
  "quiet_reader = \<lparr>ab_qualifier = (\<lambda>c. Some ''new''), ab_excluded = (\<lambda>c. None), ab_in_scope = (\<lambda>c row. True),
     ab_terms = (\<lambda>c. [c]), ab_candidates = (\<lambda>ts rows. ([], True)), ab_undershoots = (\<lambda>q row ts. False),
     ab_negative_row = (\<lambda>row ts. False), ab_detail = (\<lambda>k c. None)\<rparr>"

definition two_negatives :: report where
  "two_negatives = new_report 2 0 [unsupported_span ''a'' UNCITED_WORLD_KNOWLEDGE [], unsupported_span ''b'' ''no_citation'' []]
     [cv_failed ''a'' UNCITED_WORLD_KNOWLEDGE [] None, cv_failed ''b'' ''no_citation'' [] None] None"

definition quiet_pass :: "report option" where
  "quiet_pass = fold_absence_slice quiet_reader (Some (Some [\<lparr>sl_text = ''row'', sl_machine = False\<rparr>])) None
     [''a'', ''b''] two_negatives"

theorem absence_pass_keeps_flags_witness:
  "\<exists>r'. quiet_pass = Some r' \<and> fr_supported r' = 1 \<and> cv_failed ''a'' UNCITED_WORLD_KNOWLEDGE [] None \<in> set (fr_ledger r')"
proof -
  have run: "map_option fr_supported quiet_pass = Some 1"
    by code_simp
  then obtain r' where r': "quiet_pass = Some r'" "fr_supported r' = 1"
    by auto
  have "cv_failed ''a'' UNCITED_WORLD_KNOWLEDGE [] None \<in> set (fr_ledger r')"
    by (rule absence_pass_keeps_flags [OF r'(1) [unfolded quiet_pass_def], where reason = UNCITED_WORLD_KNOWLEDGE]) (simp_all add: two_negatives_def cv_failed_def)
  with r' show ?thesis by blast
qed

end
