(* ===== verification/Verify.thy ===== *)
theory Verify
  imports PostJudge
begin

text \<open>
  The whole verify pass over one finding (\<open>verify_finding_faithfulness\<close> of
  \<open>data/provenance/verify.py\<close>), the sampling gate, the score state and the published score
  (\<open>judge_assessability.py\<close>), and the escalation of findings that the composition floor would
  exclude unjudged (\<open>judge_floor_escalation.py\<close>). A cancellation is \<open>None\<close>.
\<close>

section \<open>Score state and published score\<close>

abbreviation SUBSTANTIVE_BODY_CHARS :: nat where "SUBSTANTIVE_BODY_CHARS \<equiv> 800"
abbreviation MIN_ASSESSABLE_CLAIMS :: int where "MIN_ASSESSABLE_CLAIMS \<equiv> 2"
abbreviation UNASSESSABLE_GATE_SCORE :: rat where "UNASSESSABLE_GATE_SCORE \<equiv> 1 / 2"
abbreviation PROVISIONAL_SCORE_CEILING :: rat where "PROVISIONAL_SCORE_CEILING \<equiv> 17 / 20"

definition resolve_score_state :: "int \<Rightarrow> py_str \<Rightarrow> py_str \<times> py_str option" where
  "resolve_score_state checkable_claims body =
     (if checkable_claims \<le> 0 then (SCORE_STATE_UNASSESSABLE, Some ''no_checkable_claims'')
      else if checkable_claims < MIN_ASSESSABLE_CLAIMS \<and> length body \<ge> SUBSTANTIVE_BODY_CHARS
      then (SCORE_STATE_UNASSESSABLE, Some ''thin_claims_on_substantive_body'')
      else (SCORE_STATE_SCORED, None))"

definition gate_score :: "rat \<Rightarrow> rat option \<Rightarrow> py_str \<Rightarrow> bool \<Rightarrow> rat" where
  "gate_score score ceil score_state provisional =
     (let out = (case ceil of None \<Rightarrow> score | Some c \<Rightarrow> min score c);
          out = (if score_state = SCORE_STATE_UNASSESSABLE then min out UNASSESSABLE_GATE_SCORE else out)
      in if provisional then min out PROVISIONAL_SCORE_CEILING else out)"

definition ADJUDICATED_JUDGE_STATUSES :: "py_str list" where
  "ADJUDICATED_JUDGE_STATUSES = [JUDGE_STATUS_LLM, JUDGE_STATUS_PARTIAL]"

definition is_provisional :: "py_str \<Rightarrow> bool" where
  "is_provisional judge_status = (judge_status \<notin> set ADJUDICATED_JUDGE_STATUSES)"

definition published_overall :: "report \<Rightarrow> rat" where
  "published_overall r = gate_score (fr_score r) (fr_ceiling r) (fr_state r) (is_provisional (fr_judge_status r))"

section \<open>The sampling gate\<close>

abbreviation JUDGE_STATUS_UNSAMPLED :: py_str where "JUDGE_STATUS_UNSAMPLED \<equiv> ''unsampled''"

definition JUDGE_SAMPLE_ALWAYS_DEFAULT :: "py_str list" where
  "JUDGE_SAMPLE_ALWAYS_DEFAULT = [''meta_findings_synthesizer'', ''cross_analyst_correlator'',
     ''situation_tracker'', ''journal_assessor'']"

text \<open>\<open>digest\<close> gives the bytes of SHA-256.\<close>

definition judge_sample_unit :: "(py_str \<Rightarrow> nat list) \<Rightarrow> py_str \<Rightarrow> rat" where
  "judge_sample_unit digest finding_id =
     of_nat (foldl (\<lambda>n b. 256 * n + b) 0 (take 8 (digest (py_lower (py_strip finding_id))))) / 2 ^ 64"

record sampling_policy =
  po_finding_id :: py_str
  po_kind :: py_str
  po_analyst_id :: py_str
  po_rate :: "rat option"
  po_always :: "py_str list option"

definition should_judge :: "(py_str \<Rightarrow> nat list) \<Rightarrow> sampling_policy \<Rightarrow> bool" where
  "should_judge digest po = (case po_rate po of
     None \<Rightarrow> True
   | Some rate \<Rightarrow>
       let always = (case po_always po of None \<Rightarrow> JUDGE_SAMPLE_ALWAYS_DEFAULT | Some a \<Rightarrow> a)
       in if (po_kind po \<noteq> [] \<and> po_kind po \<in> set always) \<or> (po_analyst_id po \<noteq> [] \<and> po_analyst_id po \<in> set always)
          then True
          else if rate \<le> 0 then False
          else if rate \<ge> 1 then True
          else judge_sample_unit digest (po_finding_id po) < rate)"

section \<open>The pass\<close>

record finding =
  fi_body :: py_str
  fi_citations :: json
  fi_confidence :: "rat option"
  fi_indicators :: json
  fi_eval :: json
  fi_assembly :: json

text \<open>
  What the pass is given besides the finding: the cutting of a body into claims and dropped spans,
  the tests on claims, the spans of the guards (the world-knowledge ones, the unscoped absences, the
  register ones, and, with a facts connection, the officeholders), the readers of the passes after
  the judge, the retained slice and the judge.
\<close>

record verify_env =
  ve_segment :: "py_str \<Rightarrow> py_str list \<times> py_str list"
  ve_judgeable :: "py_str \<Rightarrow> bool"
  ve_json_syntax :: "py_str \<Rightarrow> bool"
  ve_coverage :: "py_str \<Rightarrow> bool"
  ve_world_guards :: "span list"
  ve_absence_guards :: "span list"
  ve_register_guards :: "span list"
  ve_leader_guards :: "span list option"
  ve_merge :: merge_env
  ve_metadata :: metadata_reader
  ve_baseline :: "py_str \<Rightarrow> bool"
  ve_arithmetic :: bool
  ve_licence :: "py_str \<Rightarrow> licence option"
  ve_claim_kind :: "py_str \<Rightarrow> py_str"
  ve_detail :: "py_str \<Rightarrow> py_str option"
  ve_absence :: absence_reader
  ve_slice :: "slice_row list option option"
  ve_desk :: desk_reader
  ve_arms :: arm_env
  ve_digest :: "py_str \<Rightarrow> nat list"
  ve_judge_enabled :: bool
  ve_judge :: "judge_env option"
  ve_second :: call_env

definition count_drops :: "verify_env \<Rightarrow> py_str list \<Rightarrow> report \<Rightarrow> report" where
  "count_drops env dropped r =
     (let json_drops = int (length (filter (ve_json_syntax env) dropped)) in
      bump ''claims_dropped_nonpropositional'' (int (length dropped) - json_drops)
        (bump ''claims_dropped_json_syntax'' json_drops r))"

definition verify_floor :: "verify_env \<Rightarrow> finding \<Rightarrow> report option" where
  "verify_floor env fi =
     (let (claims, dropped) = ve_segment env (fi_body fi);
          float_of = ae_float_of (ve_arms env); text_of = ae_text_of (ve_arms env)
      in map_option (\<lambda>r.
           let r = count_drops env dropped r;
               r = fold_indicators float_of text_of (fi_indicators fi) r;
               r = fold_guard_spans (ve_world_guards env) r;
               r = fold_guard_spans (ve_absence_guards env) r;
               r = fold_guard_spans (ve_register_guards env) r
           in case ve_leader_guards env of None \<Rightarrow> r | Some spans \<Rightarrow> fold_guard_spans spans r)
         (deterministic_floor float_of text_of (filter (me_fact_asserting (ve_merge env)) claims)
            (fi_citations fi) (fi_confidence fi)))"

definition denominator_caveat_counters :: "verify_env \<Rightarrow> py_str list \<Rightarrow> json \<Rightarrow> (py_str \<times> int) list" where
  "denominator_caveat_counters env claims indicators =
     (let triggered = int (length (filter is_triggered (entries_of indicators)));
          coverage = int (length (filter (\<lambda>c. ve_judgeable env c \<and> ve_coverage env c) claims))
      in (if triggered = 0 then [] else [(''denominator_triggered_indicator_scaffold'', triggered)]) @
         (if coverage = 0 then [] else [(''denominator_coverage_statement'', coverage)]))"

definition stamp_state :: "py_str \<Rightarrow> report \<Rightarrow> report" where
  "stamp_state body r =
     (let (state, reason) = resolve_score_state (fr_checkable r) body;
          r = r\<lparr>fr_state := state, fr_state_reason := reason\<rparr>
      in if state = SCORE_STATE_UNASSESSABLE
         then bump (''unassessable_'' @ (case reason of Some s \<Rightarrow> s | None \<Rightarrow> [])) 1 r else r)"

text \<open>The passes after the judge, in their order; \<open>second\<close> is the model of the absence pass.\<close>

definition after_judge ::
  "verify_env \<Rightarrow> finding \<Rightarrow> ((py_str \<Rightarrow> json option) \<times> call_env) option \<Rightarrow> report \<Rightarrow> report option" where
  "after_judge env fi second r =
     (let claims = fst (ve_segment env (fi_body fi)); judgeable = filter (ve_judgeable env) claims;
          citations = fi_citations fi; arms = ve_arms env;
          r = fold_metadata_claims (ve_metadata env) citations judgeable r;
          r = fold_markerless_uncited (ve_baseline env) (ve_detail env UNCITED_WORLD_KNOWLEDGE) citations judgeable r;
          r = fold_weighting (ve_arithmetic env) (ve_licence env) (ve_claim_kind env) (ve_detail env) citations claims r
      in map_option (\<lambda>r.
           let r = fold_input_checks arms (fi_eval fi) (fi_body fi) claims (fi_assembly fi) r;
               r = fold_composition (ve_desk env) (ae_float_of arms) citations claims r;
               r = fold_assembly arms (fi_assembly fi) citations r;
               r = fold (\<lambda>(c, n). bump c n) (denominator_caveat_counters env claims (fi_indicators fi)) r
           in stamp_state (fi_body fi) r)
         (fold_absence_slice (ve_absence env) (ve_slice env) second judgeable r))"

definition second_judge :: "verify_env \<Rightarrow> ((py_str \<Rightarrow> json option) \<times> call_env) option" where
  "second_judge env =
     (case ve_judge env of
        Some j \<Rightarrow> if ve_judge_enabled env then Some (je_loads j, ve_second env) else None
      | None \<Rightarrow> None)"

definition verify_finding_faithfulness :: "verify_env \<Rightarrow> finding \<Rightarrow> sampling_policy option \<Rightarrow> report option" where
  "verify_finding_faithfulness env fi policy =
     Option.bind (verify_floor env fi) (\<lambda>floor.
       if (case policy of None \<Rightarrow> False | Some po \<Rightarrow> \<not> should_judge (ve_digest env) po)
       then after_judge env fi None (bump ''judge_unsampled'' 1 (floor\<lparr>fr_judge_status := JUDGE_STATUS_UNSAMPLED\<rparr>))
       else Option.bind
              (maybe_llm_judge (ve_judge_enabled env) (ve_judge env) (ve_merge env)
                 (filter (ve_judgeable env) (fst (ve_segment env (fi_body fi)))) floor)
              (after_judge env fi (second_judge env)))"

section \<open>Escalation\<close>

abbreviation JUDGE_TRIGGER_SAMPLED :: py_str where "JUDGE_TRIGGER_SAMPLED \<equiv> ''sampled''"
abbreviation JUDGE_TRIGGER_FLOOR_ESCALATION :: py_str where "JUDGE_TRIGGER_FLOOR_ESCALATION \<equiv> ''floor_escalation''"
abbreviation COUNTER_ESCALATED :: py_str where "COUNTER_ESCALATED \<equiv> ''judge_floor_escalation''"
abbreviation COUNTER_ESCALATION_UNAVAILABLE :: py_str where
  "COUNTER_ESCALATION_UNAVAILABLE \<equiv> ''judge_floor_escalation_unavailable''"
abbreviation COUNTER_ESCALATION_FAILED :: py_str where
  "COUNTER_ESCALATION_FAILED \<equiv> ''judge_floor_escalation_failed''"
abbreviation DEFAULT_ESCALATION_FLOOR :: rat where "DEFAULT_ESCALATION_FLOOR \<equiv> 1 / 2"

definition escalation_enabled :: "py_str option \<Rightarrow> bool" where
  "escalation_enabled raw = (case raw of
     None \<Rightarrow> True | Some s \<Rightarrow> py_lower (py_strip s) \<notin> {''0'', ''false'', ''no'', ''off'', []})"

definition resolve_escalation_floor :: "(py_str \<Rightarrow> rat option) \<Rightarrow> py_str option \<Rightarrow> rat" where
  "resolve_escalation_floor float_of raw = (case raw of
     None \<Rightarrow> DEFAULT_ESCALATION_FLOOR
   | Some s \<Rightarrow> (case float_of s of None \<Rightarrow> DEFAULT_ESCALATION_FLOOR | Some x \<Rightarrow> max 0 (min 1 x)))"

definition should_escalate ::
  "report \<Rightarrow> sampling_policy option \<Rightarrow> rat option \<Rightarrow> bool \<Rightarrow> rat option \<Rightarrow> bool" where
  "should_escalate r policy bar has_judge floor_confidence = (case bar of
     None \<Rightarrow> False
   | Some fl \<Rightarrow>
       if policy = None \<or> \<not> has_judge then False
       else if fr_judge_status r \<noteq> JUDGE_STATUS_UNSAMPLED then False
       else if fr_state r \<noteq> SCORE_STATE_SCORED then False
       else if (case floor_confidence of None \<Rightarrow> False | Some c \<Rightarrow> c < fl) then False
       else published_overall r < fl)"

definition open_policy :: "sampling_policy \<Rightarrow> sampling_policy" where
  "open_policy po = po\<lparr>po_rate := Some 1\<rparr>"

record escalation_outcome =
  eo_report :: report
  eo_trigger :: py_str
  eo_pre_score :: "rat option"
  eo_pre_status :: "py_str option"

definition plain_outcome :: "report \<Rightarrow> escalation_outcome" where
  "plain_outcome r = \<lparr>eo_report = r, eo_trigger = JUDGE_TRIGGER_SAMPLED, eo_pre_score = None, eo_pre_status = None\<rparr>"

text \<open>\<open>again\<close> is what the second pass, with the gate opened, comes to.\<close>

definition escalate :: "report \<Rightarrow> judge_exc + report \<Rightarrow> escalation_outcome option" where
  "escalate r again = (case again of
     Inl Judge_cancelled \<Rightarrow> None
   | Inl Judge_failed \<Rightarrow> Some (plain_outcome (bump COUNTER_ESCALATION_FAILED 1 r))
   | Inr escalated \<Rightarrow>
       if fr_judge_status escalated \<noteq> JUDGE_STATUS_LLM
       then Some (plain_outcome (bump COUNTER_ESCALATION_UNAVAILABLE 1 r))
       else Some \<lparr>eo_report = bump COUNTER_ESCALATED 1 escalated, eo_trigger = JUDGE_TRIGGER_FLOOR_ESCALATION,
                  eo_pre_score = Some (round4 (published_overall r)), eo_pre_status = Some (fr_judge_status r)\<rparr>)"

text \<open>The two passes see the world at two moments: \<open>env\<close> and \<open>env'\<close>.\<close>

definition verify_with_floor_escalation ::
  "py_str option \<Rightarrow> rat option \<Rightarrow> rat option \<Rightarrow> verify_env \<Rightarrow> verify_env \<Rightarrow> finding \<Rightarrow> sampling_policy option
     \<Rightarrow> escalation_outcome option" where
  "verify_with_floor_escalation raw bar floor_confidence env env' fi policy =
     Option.bind (verify_finding_faithfulness env fi policy) (\<lambda>r.
       if bar \<noteq> None \<and> \<not> escalation_enabled raw then Some (plain_outcome r)
       else if \<not> should_escalate r policy bar (ve_judge env \<noteq> None) floor_confidence then Some (plain_outcome r)
       else escalate r
              (case verify_finding_faithfulness env' fi (map_option open_policy policy) of
                 None \<Rightarrow> Inl Judge_cancelled | Some r' \<Rightarrow> Inr r'))"

section \<open>A report no judge graded\<close>

lemma indicators_meta [simp]:
  "fr_judge_status (fold_indicators f t i r) = fr_judge_status r" "fr_ceiling (fold_indicators f t i r) = fr_ceiling r"
  by (simp_all add: fold_indicators_def Let_def case_prod_unfold)

lemma guards_meta [simp]:
  "fr_judge_status (fold_guard_spans gs r) = fr_judge_status r" "fr_ceiling (fold_guard_spans gs r) = fr_ceiling r"
  by (simp_all add: fold_guard_spans_def)

lemma graded_guards: "floor_graded q st cap r \<Longrightarrow> floor_graded q st cap (fold_guard_spans gs r)"
proof -
  have "tallies 0 (map (\<lambda>s. cv_failed (sp_text s) (sp_reason s) (sp_markers s) None) gs)"
    by (induction gs) (simp_all add: tallies_def)
  then have "tallied r \<Longrightarrow> tallied (fold_guard_spans gs r)"
    using tallies_append [of "fr_supported r" "fr_ledger r" 0]
    by (fastforce simp: fold_guard_spans_def tallied_def)
  then show "floor_graded q st cap r \<Longrightarrow> ?thesis"
    by (simp add: floor_graded_def)
qed

lemma balanced_bump [simp]: "books_balance (bump k n r) = books_balance r"
  by (simp add: books_balance_def)

lemma floor_status:
  "deterministic_floor f t claims citations conf = Some r \<Longrightarrow> fr_judge_status r = JUDGE_STATUS_DETERMINISTIC"
  by (auto simp: deterministic_floor_def unit_floor_def subclaim_floor_def Let_def new_report_def split: if_splits)

lemma verify_floor_graded:
  assumes "verify_floor env fi = Some r"
  shows "floor_graded True JUDGE_STATUS_DETERMINISTIC (fr_ceiling r) r"
proof -
  obtain claims dropped where seg: "ve_segment env (fi_body fi) = (claims, dropped)"
    by force
  let ?f = "ae_float_of (ve_arms env)" and ?t = "ae_text_of (ve_arms env)"
  obtain r0 where fl: "deterministic_floor ?f ?t (filter (me_fact_asserting (ve_merge env)) claims)
      (fi_citations fi) (fi_confidence fi) = Some r0"
    using floor_total by blast
  let ?r1 = "fold_indicators ?f ?t (fi_indicators fi) (count_drops env dropped r0)"
  have "books_balance ?r1"
    using floor_balances(1) [OF fl] by (intro fold_indicators_balances) (simp add: count_drops_def Let_def)
  then have r1: "floor_graded True JUDGE_STATUS_DETERMINISTIC (fr_ceiling r0) ?r1"
    using floor_status [OF fl] by (simp add: floor_graded_def books_tallied count_drops_def Let_def)
  have "floor_graded True JUDGE_STATUS_DETERMINISTIC (fr_ceiling r0) r"
    using assms r1 by (auto simp: verify_floor_def seg fl Let_def intro!: graded_guards split: option.splits)
  then show ?thesis
    by (simp add: floor_graded_def)
qed

lemma judged_or_floor:
  assumes "maybe_llm_judge enabled judge me claims r = Some r'" "floor_graded True st cap r"
  shows "floor_graded True st cap r' \<or> fr_judge_status r' \<in> {JUDGE_STATUS_LLM, JUDGE_STATUS_PARTIAL}"
proof -
  have stamp: "floor_graded True st cap u \<Longrightarrow> floor_graded True st cap (stamp_telemetry t (u\<lparr>fr_unavailable := x\<rparr>))"
    "floor_graded True st cap u \<Longrightarrow> floor_graded True st cap ((stamp_telemetry t u)\<lparr>fr_unavailable := x\<rparr>)" for u t x
    by (simp_all add: stamp_telemetry_def Let_def floor_graded_def tallied_def)
  have un: "floor_graded True st cap (r\<lparr>fr_unavailable := x\<rparr>)" for x
    using assms(2) by (simp add: floor_graded_def tallied_def)
  show ?thesis
  proof (cases "\<not> enabled \<or> judge = None")
    case True
    then show ?thesis
      using assms(1) un by (auto simp: maybe_llm_judge_def split: if_splits)
  next
    case False
    then obtain j where j: "judge = Some j" "enabled"
      by auto
    obtain out t where run: "run_judge j claims new_telemetry = (out, t)"
      by force
    show ?thesis
    proof (cases out)
      case (Inl e)
      then show ?thesis
        using assms j run stamp(1) by (cases e) (auto simp: maybe_llm_judge_def)
    next
      case (Inr v)
      obtain verdicts branches floored where v: "v = (verdicts, branches, floored)"
        by (cases v)
      show ?thesis
      proof (cases "verdicts = []")
        case True
        then show ?thesis
          using assms j run Inr v stamp(2) by (auto simp: maybe_llm_judge_def Let_def case_prod_unfold)
      next
        case ne: False
        obtain status reason where o': "resolve_partition_outcome True floored (te_by_partition t) = (status, reason)"
          by force
        have "r' = reconcile_judge me verdicts branches status reason t (bump_citationless me (stamp_telemetry t r))"
          using assms(1) j run Inr v ne o' by (simp add: maybe_llm_judge_def Let_def)
        then have "fr_judge_status r' = status"
          by (simp only: reconcile_judge_def Let_def report.simps)
        then show ?thesis
          using o' by (auto simp: resolve_partition_outcome_def Let_def split: if_splits)
      qed
    qed
  qed
qed

lemma stamp_score: "fr_score (stamp_state body r) = fr_score r"
  by (simp add: stamp_state_def Let_def case_prod_unfold)

lemma bumps_score: "fr_score (fold (\<lambda>(c, n). bump c n) cs r) = fr_score r"
  by (induction cs arbitrary: r) (simp_all add: case_prod_unfold)

lemma stamp_keeps [simp]: "floor_graded q st cap (stamp_state body r) = floor_graded q st cap r"
  by (simp add: stamp_state_def Let_def case_prod_unfold floor_graded_def tallied_def)

text \<open>What the assembly fold does: a report graded like the one before, with the headline of the arms.\<close>

lemma fold_assembly_shape:
  assumes "floor_graded q st cap r"
  obtains r3 where "floor_graded q st cap r3"
    "fold_assembly env assembly citations r =
       (if is_grader_of_record env assembly then regrade_to_arms (branch_score (audit env assembly citations)) r3 else r3)"
proof (cases "is_assembly env assembly")
  case False
  then show ?thesis
    using assms that [of r] by (simp add: fold_assembly_def is_grader_of_record_def)
next
  case True
  let ?res = "audit env assembly citations"
  define r1 where "r1 = fold (\<lambda>(name, n). bump name n) (ar_counters ?res) r"
  define r2 where "r2 = (case branch_score ?res of None \<Rightarrow> r1
      | Some entry \<Rightarrow> r1\<lparr>fr_branch_scores := AList.update ''assembly'' entry (fr_branch_scores r1)\<rparr>)"
  define r3 where "r3 = fold fold_finding (ar_findings ?res) r2"
  have "floor_graded q st cap r1"
    unfolding r1_def by (rule graded_bumps [OF assms])
  then have "floor_graded q st cap r2"
    by (auto simp: r2_def floor_graded_def tallied_def split: option.split)
  then have r3: "floor_graded q st cap r3"
    unfolding r3_def by (rule graded_fold [rotated]) (rule graded_finding)
  have "fold_assembly env assembly citations r =
      (if is_grader_of_record env assembly then regrade_to_arms (branch_score ?res) r3 else r3)"
    using True unfolding fold_assembly_def Let_def r1_def r2_def r3_def by (simp only: if_False simp_thms)
  with r3 show ?thesis
    by (rule that)
qed

lemma regrade_meta [simp]:
  "fr_judge_status (regrade_to_arms b r) = fr_judge_status r" "fr_ceiling (regrade_to_arms b r) = fr_ceiling r"
  by (simp_all add: regrade_to_arms_def split: option.split)

lemma regrade_range:
  assumes "0 \<le> fr_score r \<and> fr_score r \<le> 1"
  shows "0 \<le> fr_score (regrade_to_arms (branch_score res) r) \<and> fr_score (regrade_to_arms (branch_score res) r) \<le> 1"
proof -
  have "nat (max 0 (branch_checkable res - int n)) \<le> nat (branch_checkable res)" for n
    by simp
  then show ?thesis
    using assms by (auto simp: regrade_to_arms_def branch_score_def Let_def divide_le_eq_1 simp del: of_nat_nat)
qed

text \<open>The passes after the judge: a graded report through the assembly fold, then counters and the state.\<close>

lemma after_judge_shape:
  assumes "after_judge env fi second r = Some r'" "floor_graded q st cap r"
  obtains u where "floor_graded q st cap u"
    "r' = stamp_state (fi_body fi)
       (fold (\<lambda>(c, n). bump c n) (denominator_caveat_counters env (fst (ve_segment env (fi_body fi))) (fi_indicators fi))
         (if is_grader_of_record (ve_arms env) (fi_assembly fi)
          then regrade_to_arms (branch_score (audit (ve_arms env) (fi_assembly fi) (fi_citations fi))) u else u))"
proof -
  let ?cl = "fst (ve_segment env (fi_body fi))" and ?c = "fi_citations fi"
  let ?j = "filter (ve_judgeable env) ?cl" and ?arms = "ve_arms env"
  let ?r1 = "fold_weighting (ve_arithmetic env) (ve_licence env) (ve_claim_kind env) (ve_detail env) ?c ?cl
      (fold_markerless_uncited (ve_baseline env) (ve_detail env UNCITED_WORLD_KNOWLEDGE) ?c ?j
        (fold_metadata_claims (ve_metadata env) ?c ?j r))"
  have r1: "floor_graded q st cap ?r1"
    using assms(2) by (intro graded_weighting graded_markerless graded_metadata)
  obtain r2 where r2: "fold_absence_slice (ve_absence env) (ve_slice env) second ?j ?r1 = Some r2"
    and r': "r' = stamp_state (fi_body fi) (fold (\<lambda>(c, n). bump c n) (denominator_caveat_counters env ?cl (fi_indicators fi))
      (fold_assembly ?arms (fi_assembly fi) ?c (fold_composition (ve_desk env) (ae_float_of ?arms) ?c ?cl
        (fold_input_checks ?arms (fi_eval fi) (fi_body fi) ?cl (fi_assembly fi) r2))))"
    using assms(1) unfolding after_judge_def Let_def by auto
  have "floor_graded q st cap r2"
    by (rule graded_absence [OF r1 r2])
  then have "floor_graded q st cap (fold_composition (ve_desk env) (ae_float_of ?arms) ?c ?cl
      (fold_input_checks ?arms (fi_eval fi) (fi_body fi) ?cl (fi_assembly fi) r2))"
    by (intro graded_composition graded_inputs)
  then obtain u where u: "floor_graded q st cap u"
    "fold_assembly ?arms (fi_assembly fi) ?c (fold_composition (ve_desk env) (ae_float_of ?arms) ?c ?cl
        (fold_input_checks ?arms (fi_eval fi) (fi_body fi) ?cl (fi_assembly fi) r2)) =
       (if is_grader_of_record ?arms (fi_assembly fi)
        then regrade_to_arms (branch_score (audit ?arms (fi_assembly fi) ?c)) u else u)"
    by (rule fold_assembly_shape)
  from u(1) r' [unfolded u(2)] show ?thesis
    by (rule that)
qed

lemma after_judge_graded:
  assumes "after_judge env fi second r = Some r'" "floor_graded q st cap r"
  shows "floor_graded (q \<and> \<not> is_grader_of_record (ve_arms env) (fi_assembly fi)) st cap r'"
    and "q \<Longrightarrow> 0 \<le> fr_score r' \<and> fr_score r' \<le> 1"
proof -
  let ?grader = "is_grader_of_record (ve_arms env) (fi_assembly fi)"
  let ?bumps = "denominator_caveat_counters env (fst (ve_segment env (fi_body fi))) (fi_indicators fi)"
  obtain u where u: "floor_graded q st cap u"
    "r' = stamp_state (fi_body fi) (fold (\<lambda>(c, n). bump c n) ?bumps
       (if ?grader then regrade_to_arms (branch_score (audit (ve_arms env) (fi_assembly fi) (fi_citations fi))) u else u))"
    by (rule after_judge_shape [OF assms])
  let ?v = "if ?grader then regrade_to_arms (branch_score (audit (ve_arms env) (fi_assembly fi) (fi_citations fi))) u else u"
  have "floor_graded (q \<and> \<not> ?grader) st cap ?v"
    using u(1) by (simp add: floor_graded_def)
  from graded_bumps [OF this] show "floor_graded (q \<and> \<not> ?grader) st cap r'"
    unfolding u(2) stamp_keeps .
  have "fr_score r' = fr_score ?v"
    unfolding u(2) by (simp only: stamp_score bumps_score)
  moreover assume q
  then have "0 \<le> fr_score u \<and> fr_score u \<le> 1"
    using u(1) tallied_score by (simp add: floor_graded_def)
  then have "0 \<le> fr_score ?v \<and> fr_score ?v \<le> 1"
    using regrade_range by simp
  ultimately show "0 \<le> fr_score r' \<and> fr_score r' \<le> 1"
    by simp
qed

section \<open>What a report without a judge says\<close>

lemma published_capped: "is_provisional (fr_judge_status r) \<Longrightarrow> published_overall r \<le> PROVISIONAL_SCORE_CEILING"
  by (simp add: published_overall_def gate_score_def Let_def)

lemma published_below: "published_overall r \<le> fr_score r"
  by (auto simp: published_overall_def gate_score_def Let_def min_def split: option.split)

text \<open>C2: A report that no judge graded, for whatever reason, is the tally of its rows. Its score is between
  0 and 1 and it is published at 0.85 at most; and unless the audit of an assembled read has the
  headline, the supported claims are the rows that pass, the denominator is the number of rows, and
  the score is their ratio, after every pass that followed the floor.
\<close>

theorem unjudged_report_is_tallied:
  assumes "verify_finding_faithfulness env fi policy = Some r"
    and "is_provisional (fr_judge_status r)"
  shows "0 \<le> fr_score r \<and> fr_score r \<le> 1 \<and> published_overall r \<le> PROVISIONAL_SCORE_CEILING \<and>
    (\<not> is_grader_of_record (ve_arms env) (fi_assembly fi) \<longrightarrow>
       fr_supported r = int (length (filter passed (fr_ledger r))) \<and>
       fr_denominator r = Some (int (length (fr_ledger r))) \<and>
       fr_score r = ratio (fr_supported r) (int (length (fr_ledger r))))"
proof -
  let ?j = "filter (ve_judgeable env) (fst (ve_segment env (fi_body fi)))"
  obtain fl where fl: "verify_floor env fi = Some fl"
    using assms(1) by (auto simp: verify_finding_faithfulness_def bind_eq_Some_conv)
  note graded = verify_floor_graded [OF fl]
  obtain second r0 st where pass: "after_judge env fi second r0 = Some r" "floor_graded True st (fr_ceiling fl) r0"
  proof (cases "case policy of None \<Rightarrow> False | Some po \<Rightarrow> \<not> should_judge (ve_digest env) po")
    case True
    let ?r0 = "bump ''judge_unsampled'' 1 (fl\<lparr>fr_judge_status := JUDGE_STATUS_UNSAMPLED\<rparr>)"
    have "floor_graded True JUDGE_STATUS_UNSAMPLED (fr_ceiling fl) ?r0"
      using graded by (simp add: floor_graded_def tallied_def)
    moreover have "after_judge env fi None ?r0 = Some r"
      using assms(1) True by (simp add: verify_finding_faithfulness_def fl)
    ultimately show ?thesis
      using that by blast
  next
    case False
    then obtain r1 where r1: "maybe_llm_judge (ve_judge_enabled env) (ve_judge env) (ve_merge env) ?j fl = Some r1"
      "after_judge env fi (second_judge env) r1 = Some r"
      using assms(1) by (auto simp: verify_finding_faithfulness_def fl bind_eq_Some_conv)
    have "fr_judge_status r = fr_judge_status r1"
      using after_judge_graded(1) [OF r1(2), of False "fr_judge_status r1" "fr_ceiling r1"] by (simp add: floor_graded_def)
    then have "fr_judge_status r1 \<notin> {JUDGE_STATUS_LLM, JUDGE_STATUS_PARTIAL}"
      using assms(2) by (simp add: is_provisional_def ADJUDICATED_JUDGE_STATUSES_def)
    then have "floor_graded True JUDGE_STATUS_DETERMINISTIC (fr_ceiling fl) r1"
      using judged_or_floor [OF r1(1) graded] by blast
    with r1(2) show ?thesis
      by (rule that)
  qed
  from after_judge_graded [OF pass] have
    "floor_graded (\<not> is_grader_of_record (ve_arms env) (fi_assembly fi)) st (fr_ceiling fl) r" "0 \<le> fr_score r \<and> fr_score r \<le> 1"
    by simp_all
  then show ?thesis
    using published_capped [OF assms(2)] by (auto simp: floor_graded_def tallied_def tallies_def)
qed

text \<open>A finding of two claims, one of them cited, in a world where no lexical test finds anything.\<close>

definition quiet_metadata :: metadata_reader where
  "quiet_metadata = \<lparr>mr_float_of = (\<lambda>s. None), mr_confidence = (\<lambda>s. None), mr_below = (\<lambda>s. None),
     mr_basis = (\<lambda>s. None), mr_dominant = (\<lambda>a b c. False), mr_detail = (\<lambda>k c. None)\<rparr>"

definition quiet_desk :: desk_reader where
  "quiet_desk = \<lparr>dk_attributed = (\<lambda>c. None), dk_answers = (\<lambda>a b. False), dk_direction = (\<lambda>a b. None),
     dk_negative = (\<lambda>a b. None), dk_ungrounded = (\<lambda>a b. None), dk_absence = (\<lambda>c. False), dk_laundered = (\<lambda>c es. None)\<rparr>"

definition quiet_env :: "judge_env option \<Rightarrow> verify_env" where
  "quiet_env judge = \<lparr>ve_segment = (\<lambda>body. ([''a [1]'', ''b''], [])), ve_judgeable = (\<lambda>c. True),
     ve_json_syntax = (\<lambda>c. False), ve_coverage = (\<lambda>c. False), ve_world_guards = [], ve_absence_guards = [],
     ve_register_guards = [], ve_leader_guards = None, ve_merge = plain_merge, ve_metadata = quiet_metadata,
     ve_baseline = (\<lambda>c. False), ve_arithmetic = False, ve_licence = (\<lambda>c. None),
     ve_claim_kind = (\<lambda>c. CLAIM_KIND_CITATION_SUPPORT), ve_detail = (\<lambda>c. None), ve_absence = quiet_reader,
     ve_slice = None, ve_desk = quiet_desk, ve_arms = no_tests, ve_digest = (\<lambda>s. [255, 0, 0, 0, 0, 0, 0, 0]),
     ve_judge_enabled = True, ve_judge = judge, ve_second = one_reply\<rparr>"

definition short_finding :: finding where
  "short_finding = \<lparr>fi_body = ''a [1]. b.'', fi_citations = J_list [J_object [(''marker'', J_str ''[1]''),
       (''signal_id'', J_str ''s1'')]], fi_confidence = None, fi_indicators = J_null, fi_eval = J_null,
     fi_assembly = J_null\<rparr>"

definition short_run :: "report option" where
  "short_run = verify_finding_faithfulness (quiet_env None) short_finding None"

theorem unjudged_report_is_tallied_witness:
  "\<exists>r. short_run = Some r \<and> fr_unavailable r = Some ''no_judge_component'' \<and> fr_score r = 1 / 2 \<and>
     fr_score r = ratio (fr_supported r) (int (length (fr_ledger r))) \<and> length (fr_ledger r) = 2"
proof -
  have run: "map_option fr_judge_status short_run = Some JUDGE_STATUS_DETERMINISTIC"
    "map_option fr_unavailable short_run = Some (Some ''no_judge_component'')"
    "map_option fr_score short_run = Some (1 / 2)"
    "map_option (\<lambda>r. int (length (fr_ledger r))) short_run = Some 2"
    by (code_simp, code_simp, code_simp, code_simp)
  have arms: "\<not> is_grader_of_record (ve_arms (quiet_env None)) (fi_assembly short_finding)"
    by code_simp
  obtain r where some: "short_run = Some r"
    using run(1) by auto
  have r: "fr_judge_status r = JUDGE_STATUS_DETERMINISTIC" "fr_unavailable r = Some ''no_judge_component''"
    "fr_score r = 1 / 2" "length (fr_ledger r) = 2"
    using run by (simp_all add: some)
  have "is_provisional (fr_judge_status r)"
    by (simp add: r(1) is_provisional_def ADJUDICATED_JUDGE_STATUSES_def)
  from unjudged_report_is_tallied [OF some [unfolded short_run_def] this] arms r some show ?thesis
    by blast
qed

section \<open>The sampling gate at work\<close>

lemma absence_without_judge: "fold_absence_slice ab slice None judgeable r \<noteq> None"
  by (simp add: fold_absence_slice_def settle_absences_def Let_def case_prod_unfold split: option.split)

lemma verify_floor_total: "verify_floor env fi \<noteq> None"
proof -
  obtain r0 where "deterministic_floor (ae_float_of (ve_arms env)) (ae_text_of (ve_arms env))
      (filter (me_fact_asserting (ve_merge env)) (fst (ve_segment env (fi_body fi)))) (fi_citations fi) (fi_confidence fi) = Some r0"
    using floor_total by blast
  then show ?thesis
    by (simp add: verify_floor_def Let_def case_prod_unfold)
qed

lemma after_judge_without_second: "after_judge env fi None r \<noteq> None"
  using absence_without_judge by (simp add: after_judge_def Let_def)

text \<open>A finding that the sampling gate leaves out is settled without a model: the pass always returns
  a report, it is marked as unsampled and published at 0.85 at most, and it is the same whichever
  judge is wired, whether judging is switched on, and whatever any model would answer.
\<close>

theorem unsampled_ignores_judge:
  assumes "\<not> should_judge (ve_digest env) po"
  shows "verify_finding_faithfulness (env\<lparr>ve_judge_enabled := b, ve_judge := j, ve_second := c\<rparr>) fi (Some po) =
      verify_finding_faithfulness env fi (Some po) \<and>
    (\<exists>r. verify_finding_faithfulness env fi (Some po) = Some r \<and> fr_judge_status r = JUDGE_STATUS_UNSAMPLED \<and>
       published_overall r \<le> PROVISIONAL_SCORE_CEILING)"
proof -
  let ?env = "env\<lparr>ve_judge_enabled := b, ve_judge := j, ve_second := c\<rparr>"
  let ?mark = "\<lambda>floor. bump ''judge_unsampled'' 1 (floor\<lparr>fr_judge_status := JUDGE_STATUS_UNSAMPLED\<rparr>)"
  have run: "verify_finding_faithfulness e fi (Some po) =
      Option.bind (verify_floor e fi) (\<lambda>floor. after_judge e fi None (?mark floor))"
    if "\<not> should_judge (ve_digest e) po" for e
    using that by (simp add: verify_finding_faithfulness_def)
  have same: "verify_floor ?env fi = verify_floor env fi" "after_judge ?env fi None = after_judge env fi None"
    by (simp_all add: verify_floor_def after_judge_def count_drops_def denominator_caveat_counters_def fun_eq_iff)
  obtain fl where fl: "verify_floor env fi = Some fl"
    using verify_floor_total by blast
  obtain r where r: "after_judge env fi None (?mark fl) = Some r"
    using after_judge_without_second by blast
  have "floor_graded False JUDGE_STATUS_UNSAMPLED (fr_ceiling fl) (?mark fl)"
    by (simp add: floor_graded_def)
  from after_judge_graded(1) [OF r this] have status: "fr_judge_status r = JUDGE_STATUS_UNSAMPLED"
    by (simp add: floor_graded_def)
  then have "published_overall r \<le> PROVISIONAL_SCORE_CEILING"
    by (intro published_capped) (simp add: is_provisional_def ADJUDICATED_JUDGE_STATUSES_def)
  then show ?thesis
    using assms status r by (simp add: run same fl)
qed

definition half_rate :: "py_str \<Rightarrow> sampling_policy" where
  "half_rate kind = \<lparr>po_finding_id = ''f1'', po_kind = kind, po_analyst_id = [], po_rate = Some (1 / 2), po_always = None\<rparr>"

theorem unsampled_ignores_judge_witness:
  "verify_finding_faithfulness ((quiet_env None)\<lparr>ve_judge_enabled := True, ve_judge := Some one_run, ve_second := one_reply\<rparr>)
     short_finding (Some (half_rate ''desk'')) =
   verify_finding_faithfulness (quiet_env None) short_finding (Some (half_rate ''desk''))"
proof -
  have "\<not> should_judge (ve_digest (quiet_env None)) (half_rate ''desk'')"
    by (simp add: should_judge_def half_rate_def quiet_env_def judge_sample_unit_def JUDGE_SAMPLE_ALWAYS_DEFAULT_def)
  from unsampled_ignores_judge [OF this, where b = True and j = "Some one_run" and c = one_reply and fi = short_finding]
  show ?thesis
    by (rule conjunct1)
qed

section \<open>The escalation at work\<close>

lemma recounted_published:
  assumes "recounted r r'"
  shows "published_overall r' = published_overall r" "fr_judge_status r' = fr_judge_status r"
    "fr_ledger r' = fr_ledger r" "fr_spans r' = fr_spans r"
  using assms by (auto simp: recounted_def published_overall_def)

text \<open>An escalation adds a judgement or changes nothing. An outcome that says it was escalated carries
  the report of a judge, for a finding that was sampled out and published under the bar, and keeps
  the score it had; any other outcome is the first report, the same rows, spans and published
  score, with a count of the failure at most.
\<close>

theorem escalation_is_recorded:
  assumes "verify_with_floor_escalation raw bar floor_confidence env env' fi policy = Some out"
  shows "\<exists>r. verify_finding_faithfulness env fi policy = Some r \<and>
    (if eo_trigger out = JUDGE_TRIGGER_FLOOR_ESCALATION then
       escalation_enabled raw \<and> fr_judge_status r = JUDGE_STATUS_UNSAMPLED \<and>
       (\<exists>b. bar = Some b \<and> published_overall r < b) \<and>
       fr_judge_status (eo_report out) = JUDGE_STATUS_LLM \<and>
       (\<exists>again. verify_finding_faithfulness env' fi (map_option open_policy policy) = Some again \<and>
          eo_report out = bump COUNTER_ESCALATED 1 again) \<and>
       eo_pre_score out = Some (round4 (published_overall r)) \<and> eo_pre_status out = Some JUDGE_STATUS_UNSAMPLED
     else
       eo_pre_score out = None \<and> published_overall (eo_report out) = published_overall r \<and>
       fr_ledger (eo_report out) = fr_ledger r \<and> fr_spans (eo_report out) = fr_spans r)"
proof -
  obtain r where r: "verify_finding_faithfulness env fi policy = Some r"
    using assms by (auto simp: verify_with_floor_escalation_def bind_eq_Some_conv)
  have plain: "?thesis" if "out = plain_outcome r'" "recounted r r'" for r'
    using r recounted_published [OF that(2)] by (simp add: that(1) plain_outcome_def)
  show ?thesis
  proof (cases "(bar = None \<or> escalation_enabled raw) \<and> should_escalate r policy bar (ve_judge env \<noteq> None) floor_confidence")
    case False
    then have "out = plain_outcome r"
      using assms by (auto simp: verify_with_floor_escalation_def r split: if_splits)
    then show ?thesis
      using plain by simp
  next
    case True
    then have esc: "fr_judge_status r = JUDGE_STATUS_UNSAMPLED" "\<exists>b. bar = Some b \<and> published_overall r < b"
      "escalation_enabled raw"
      by (auto simp: should_escalate_def split: option.splits if_splits)
    obtain again where again: "verify_finding_faithfulness env' fi (map_option open_policy policy) = Some again"
      "escalate r (Inr again) = Some out"
      using assms True by (auto simp: verify_with_floor_escalation_def r escalate_def split: option.splits if_splits)
    show ?thesis
    proof (cases "fr_judge_status again = JUDGE_STATUS_LLM")
      case False
      then have "out = plain_outcome (bump COUNTER_ESCALATION_UNAVAILABLE 1 r)"
        using again(2) by (simp add: escalate_def)
      then show ?thesis
        using plain recounted_bump by blast
    next
      case llm: True
      then show ?thesis
        using r again esc by (auto simp: escalate_def)
    qed
  qed
qed

text \<open>A finding sampled out at 0.5 under a bar of 0.6, and a judge that passes both claims.\<close>

definition never_sampled :: sampling_policy where
  "never_sampled = \<lparr>po_finding_id = ''f1'', po_kind = ''desk'', po_analyst_id = [], po_rate = Some 0, po_always = None\<rparr>"

definition second_chance :: "escalation_outcome option" where
  "second_chance = verify_with_floor_escalation None (Some (3 / 5)) None (quiet_env (Some one_run))
     (quiet_env (Some one_run)) short_finding (Some never_sampled)"

theorem escalation_is_recorded_witness:
  "\<exists>out. second_chance = Some out \<and> fr_score (eo_report out) = 1 \<and>
     fr_judge_status (eo_report out) = JUDGE_STATUS_LLM \<and> eo_pre_status out = Some JUDGE_STATUS_UNSAMPLED"
proof -
  have run: "map_option eo_trigger second_chance = Some JUDGE_TRIGGER_FLOOR_ESCALATION"
    "map_option (\<lambda>out. fr_score (eo_report out)) second_chance = Some 1"
    by (code_simp, code_simp)
  obtain out where out: "second_chance = Some out"
    using run(1) by auto
  have "eo_trigger out = JUDGE_TRIGGER_FLOOR_ESCALATION" "fr_score (eo_report out) = 1"
    using run by (simp_all add: out)
  then show ?thesis
    using escalation_is_recorded [OF out [unfolded second_chance_def]] out by (simp add: exI [of _ out]) blast
qed

end
