(* ===== verification/ValueClusters.thy ===== *)
theory ValueClusters
  imports Complex_Main Prelude "HOL-Library.Multiset"
begin

text \<open>
  When two phrasings assert the same value: the Levenshtein distance of
  \<^verbatim>\<open>data/_url_canon.py\<close> (\<^verbatim>\<open>normalized_levenshtein\<close>, the row-by-row table over two
  strings) and the greedy clusters of \<^verbatim>\<open>data/provenance/value_clustering.py\<close>
  (\<^verbatim>\<open>canonical_value_key\<close>, \<^verbatim>\<open>cluster_values\<close>). The entity canon
  (\<^verbatim>\<open>canonicalize_entity\<close>, a large literal table) is the argument \<open>canon\<close>. Distances are
  rationals; Python's are floats. The table is proved to hold the least number of edits
  between the prefixes; the clusters are proved to partition the values.
\<close>

section \<open>The distance table\<close>

text \<open>
  One inner loop: \<open>left\<close> is \<^verbatim>\<open>current[j - 1]\<close>, the last list is \<^verbatim>\<open>previous[j - 1:]\<close>.
\<close>

fun fill_row :: "char \<Rightarrow> nat \<Rightarrow> py_str \<Rightarrow> nat list \<Rightarrow> nat list" where
  "fill_row ca left (cb # cs) (diag # up # rest) =
     (let cost = (if ca = cb then 0 else 1);
          v = min (min (left + 1) (up + 1)) (diag + cost)
      in v # fill_row ca v cs (up # rest))"
| "fill_row ca left _ _ = []"

definition next_row :: "nat \<Rightarrow> char \<Rightarrow> py_str \<Rightarrow> nat list \<Rightarrow> nat list" where
  "next_row i ca b previous = i # fill_row ca i b previous"

fun table_rows :: "nat \<Rightarrow> py_str \<Rightarrow> py_str \<Rightarrow> nat list \<Rightarrow> nat list" where
  "table_rows i [] b previous = previous"
| "table_rows i (ca # as) b previous = table_rows (i + 1) as b (next_row i ca b previous)"

definition table_distance :: "py_str \<Rightarrow> py_str \<Rightarrow> nat" where
  "table_distance a b = table_rows 1 a b [0..<length b + 1] ! length b"

definition normalized_levenshtein :: "py_str \<Rightarrow> py_str \<Rightarrow> rat" where
  "normalized_levenshtein a b =
     (if a = b then 0
      else if a = [] \<or> b = [] then 1
      else let (a', b') = (if length a < length b then (b, a) else (a, b))
           in of_nat (table_distance a' b') / of_nat (length a'))"

section \<open>Edits\<close>

text \<open>
  What the table is meant to hold: \<open>edits xs ys n\<close> says that \<open>n\<close> insertions, deletions
  and replacements, read from the left, turn \<open>xs\<close> into \<open>ys\<close>.
\<close>

inductive edits :: "'a list \<Rightarrow> 'a list \<Rightarrow> nat \<Rightarrow> bool" where
  nothing: "edits [] [] 0"
| keep: "edits xs ys n \<Longrightarrow> edits (xs @ [x]) (ys @ [x]) n"
| replaced: "edits xs ys n \<Longrightarrow> edits (xs @ [x]) (ys @ [y]) (Suc n)"
| inserted: "edits xs ys n \<Longrightarrow> edits xs (ys @ [y]) (Suc n)"
| deleted: "edits xs ys n \<Longrightarrow> edits (xs @ [x]) ys (Suc n)"

text \<open>The recurrence the table unrolls, on the reversed prefixes.\<close>

fun lev :: "'a list \<Rightarrow> 'a list \<Rightarrow> nat" where
  "lev [] ys = length ys"
| "lev (x # xs) [] = Suc (length xs)"
| "lev (x # xs) (y # ys) =
     min (min (lev (x # xs) ys + 1) (lev xs (y # ys) + 1)) (lev xs ys + (if x = y then 0 else 1))"

lemma lev_nil [simp]: "lev xs [] = length xs"
  by (cases xs) simp_all

lemma lev_insert: "lev xs (y # ys) \<le> Suc (lev xs ys)"
  by (cases xs) auto

lemma lev_delete: "lev (x # xs) ys \<le> Suc (lev xs ys)"
  by (cases ys) auto

lemma lev_replace: "lev (x # xs) (y # ys) \<le> Suc (lev xs ys)"
  by (auto simp: min_def)

lemma lev_keep: "lev (x # xs) (x # ys) \<le> lev xs ys"
  by simp

lemma lev_sym: "lev xs ys = lev ys xs"
  by (induction xs ys rule: lev.induct) (auto simp: min.commute min.left_commute min.assoc)

lemma edits_least: "edits xs ys n \<Longrightarrow> lev (rev xs) (rev ys) \<le> n"
proof (induction rule: edits.induct)
  case (inserted xs ys n y)
  then show ?case using lev_insert [of "rev xs" y "rev ys"] by simp
next
  case (deleted xs ys n x)
  then show ?case using lev_delete [of x "rev xs" "rev ys"] by simp
qed auto

lemma edits_nil: "edits [] ys (length ys)"
proof (induction ys rule: rev_induct)
  case Nil
  show ?case by (simp add: edits.nothing)
next
  case (snoc y ys)
  then show ?case using edits.inserted [OF snoc.IH, of y] by simp
qed

lemma nil_edits: "edits xs [] (length xs)"
proof (induction xs rule: rev_induct)
  case Nil
  show ?case by (simp add: edits.nothing)
next
  case (snoc x xs)
  then show ?case using edits.deleted [OF snoc.IH, of x] by simp
qed

lemma lev_reached: "edits (rev xs) (rev ys) (lev xs ys)"
proof (induction xs ys rule: lev.induct)
  case (1 ys)
  then show ?case using edits_nil [of "rev ys"] by simp
next
  case (2 x xs)
  then show ?case using nil_edits [of "rev (x # xs)"] by simp
next
  case (3 x xs y ys)
  have ins: "edits (rev (x # xs)) (rev (y # ys)) (lev (x # xs) ys + 1)"
    using edits.inserted [OF "3.IH"(1), of y] by simp
  have del: "edits (rev (x # xs)) (rev (y # ys)) (lev xs (y # ys) + 1)"
    using edits.deleted [OF "3.IH"(2), of x] by simp
  have diag: "edits (rev (x # xs)) (rev (y # ys)) (lev xs ys + (if x = y then 0 else 1))"
    using edits.keep [OF "3.IH"(3), of x] edits.replaced [OF "3.IH"(3), of x y] by auto
  from ins del diag show ?case by (auto simp: min_def simp del: rev.simps)
qed

lemma least_edits: "(LEAST n. edits xs ys n) = lev (rev xs) (rev ys)"
proof (rule Least_equality)
  show "edits xs ys (lev (rev xs) (rev ys))"
    using lev_reached [of "rev xs" "rev ys"] by simp
qed (rule edits_least)

section \<open>The table holds the least number of edits\<close>

definition row_of :: "py_str \<Rightarrow> py_str \<Rightarrow> py_str \<Rightarrow> nat list" where
  "row_of ra rb cs = map (\<lambda>k. lev ra (rev (take k cs) @ rb)) [0..<length cs + 1]"

lemma row_of_Cons: "row_of ra rb (c # cs) = lev ra rb # row_of ra (c # rb) cs"
  unfolding row_of_def by (simp add: upt_conv_Cons map_Suc_upt [symmetric] del: upt_Suc)

lemma row_of_Nil [simp]: "row_of ra rb [] = [lev ra rb]"
  by (simp add: row_of_def)

lemma fill_row_holds:
  "left = lev (ca # ra) rb \<Longrightarrow> left # fill_row ca left cs (row_of ra rb cs) = row_of (ca # ra) rb cs"
proof (induction cs arbitrary: left rb)
  case Nil
  then show ?case by simp
next
  case (Cons c cs)
  obtain rest where rest: "row_of ra (c # rb) cs = lev ra (c # rb) # rest"
    by (cases cs) (auto simp: row_of_Cons)
  let ?v = "lev (ca # ra) (c # rb)"
  have "fill_row ca left (c # cs) (row_of ra rb (c # cs))
      = ?v # fill_row ca ?v cs (row_of ra (c # rb) cs)"
    using Cons.prems by (simp add: row_of_Cons rest Let_def)
  then show ?case using Cons by (simp add: row_of_Cons)
qed

lemma table_rows_hold:
  "i = Suc (length ra) \<Longrightarrow> table_rows i as b (row_of ra [] b) = row_of (rev as @ ra) [] b"
proof (induction as arbitrary: i ra)
  case (Cons a as)
  have "next_row i a b (row_of ra [] b) = row_of (a # ra) [] b"
    using fill_row_holds [of i a ra "[]" b] Cons.prems by (simp add: next_row_def)
  then show ?case using Cons.IH [of "Suc i" "a # ra"] Cons.prems by simp
qed simp

lemma first_row: "[0..<length b + 1] = row_of [] [] b"
proof -
  have "map (\<lambda>k. length (take k b)) [0..<length b + 1] = map (\<lambda>k. k) [0..<length b + 1]"
    by (rule map_cong) auto
  then show ?thesis by (simp add: row_of_def del: upt_Suc)
qed

lemma table_distance_lev: "table_distance a b = lev (rev a) (rev b)"
  using table_rows_hold [of 1 "[]" a b] unfolding table_distance_def first_row
  by (simp add: row_of_def del: upt_Suc)

lemma lev_same [simp]: "lev xs xs = 0"
  by (induction xs) auto

lemma lev_zero: "lev xs ys = 0 \<longleftrightarrow> xs = ys"
  by (induction xs ys rule: lev.induct) (auto simp: min_def split: if_splits)

lemma lev_le: "lev xs ys \<le> max (length xs) (length ys)"
  by (induction xs ys rule: lev.induct) (auto simp: min_def max_def split: if_splits)

text \<open>C33: \<^verbatim>\<open>normalized_levenshtein\<close> is the least number of insertions, deletions and
  replacements that turn one string into the other, over the length of the longer: the
  rolling rows of the table and the swap of the arguments lose nothing.
\<close>

theorem normalized_levenshtein_is_edit_distance:
  "normalized_levenshtein a b * of_nat (max (length a) (length b)) = of_nat (LEAST n. edits a b n)"
proof -
  have "lev (rev b) (rev a) = lev (rev a) (rev b)" by (rule lev_sym)
  then show ?thesis
    by (auto simp: normalized_levenshtein_def least_edits table_distance_lev max_def)
qed

lemma normalized_levenshtein_lev:
  "normalized_levenshtein a b
   = (if a = [] \<and> b = [] then 0 else of_nat (lev (rev a) (rev b)) / of_nat (max (length a) (length b)))"
proof -
  have "lev (rev b) (rev a) = lev (rev a) (rev b)" by (rule lev_sym)
  then show ?thesis
    by (auto simp: normalized_levenshtein_def table_distance_lev max_def)
qed

text \<open>The distance is symmetric, between 0 and 1, and 0 only between equal strings.\<close>

lemma normalized_levenshtein_metric:
  "normalized_levenshtein a b = normalized_levenshtein b a
   \<and> 0 \<le> normalized_levenshtein a b \<and> normalized_levenshtein a b \<le> 1
   \<and> (normalized_levenshtein a b = 0 \<longleftrightarrow> a = b)"
proof -
  have le: "lev (rev a) (rev b) \<le> max (length a) (length b)" using lev_le [of "rev a" "rev b"] by simp
  have sym: "lev (rev b) (rev a) = lev (rev a) (rev b)" by (rule lev_sym)
  have zero: "lev (rev a) (rev b) = 0 \<longleftrightarrow> a = b" by (simp add: lev_zero)
  show ?thesis
    using le zero unfolding normalized_levenshtein_lev sym
    by (auto simp: max.commute divide_le_eq_1 max_def split: if_splits)
qed

section \<open>Values that make the same claim\<close>

definition FUZZY_MERGE_MAX_DISTANCE :: rat where
  "FUZZY_MERGE_MAX_DISTANCE = 12 / 100"

definition VALUE_ALIAS_MAP :: "(py_str \<times> py_str) list" where
  "VALUE_ALIAS_MAP =
     [(''kiev'', ''Kyiv''), (''kyiv'', ''Kyiv''), (''peking'', ''Beijing''), (''beijing'', ''Beijing''),
      (''bombay'', ''Mumbai''), (''mumbai'', ''Mumbai''), (''calcutta'', ''Kolkata''),
      (''kolkata'', ''Kolkata''), (''saigon'', ''Ho Chi Minh City''), (''rangoon'', ''Yangon''),
      (''yangon'', ''Yangon'')]"

text \<open>\<^verbatim>\<open>s.split()\<close>: the maximal runs of characters that are not white space.\<close>

fun py_words :: "py_str \<Rightarrow> py_str \<Rightarrow> py_str list" where
  "py_words w [] = (if w = [] then [] else [w])"
| "py_words w (c # cs) =
     (if py_space c then (if w = [] then py_words [] cs else w # py_words [] cs)
      else py_words (w @ [c]) cs)"

definition canonical_value_key :: "(py_str \<Rightarrow> py_str) \<Rightarrow> py_str \<Rightarrow> py_str" where
  "canonical_value_key canon value =
     (let raw = py_strip (py_join '' '' (py_words [] value))
      in if raw = [] then []
         else let name = (if canon raw = [] then raw else canon raw);
                  folded = (case map_of VALUE_ALIAS_MAP (py_lower name) of Some f \<Rightarrow> f | None \<Rightarrow> name)
              in py_lower folded)"

record value_cluster =
  vc_key :: py_str
  vc_members :: "nat list"
  vc_canonical_keys :: "py_str list"

text \<open>The test of the inner loop, and the loop over the standing clusters with its \<^verbatim>\<open>break\<close>.\<close>

definition same_claim :: "py_str \<Rightarrow> py_str \<Rightarrow> bool" where
  "same_claim ckey rep = (ckey = rep \<or> normalized_levenshtein ckey rep \<le> FUZZY_MERGE_MAX_DISTANCE)"

fun place_value :: "nat \<Rightarrow> py_str \<Rightarrow> value_cluster list \<Rightarrow> value_cluster list" where
  "place_value idx ckey [] = [\<lparr>vc_key = ckey, vc_members = [idx], vc_canonical_keys = [ckey]\<rparr>]"
| "place_value idx ckey (c # cs) =
     (if same_claim ckey (hd (vc_canonical_keys c))
      then c\<lparr>vc_members := vc_members c @ [idx], vc_canonical_keys := vc_canonical_keys c @ [ckey]\<rparr> # cs
      else c # place_value idx ckey cs)"

fun cluster_loop :: "(py_str \<Rightarrow> py_str) \<Rightarrow> nat \<Rightarrow> py_str list \<Rightarrow> value_cluster list \<Rightarrow> value_cluster list" where
  "cluster_loop canon idx [] clusters = clusters"
| "cluster_loop canon idx (raw # raws) clusters =
     cluster_loop canon (idx + 1) raws (place_value idx (canonical_value_key canon raw) clusters)"

definition cluster_values :: "(py_str \<Rightarrow> py_str) \<Rightarrow> py_str list \<Rightarrow> value_cluster list" where
  "cluster_values canon values = cluster_loop canon 0 values []"

section \<open>Clusters partition the values\<close>

definition anchored :: "(nat \<Rightarrow> py_str) \<Rightarrow> value_cluster \<Rightarrow> bool" where
  "anchored key c =
     (vc_members c \<noteq> [] \<and> vc_canonical_keys c = map key (vc_members c)
      \<and> vc_key c = key (hd (vc_members c)) \<and> (\<forall>i \<in> set (vc_members c). same_claim (key i) (vc_key c)))"

definition apart :: "value_cluster \<Rightarrow> value_cluster \<Rightarrow> bool" where
  "apart c d = (\<not> same_claim (vc_key d) (vc_key c))"

lemma same_claim_refl [simp]: "same_claim k k"
  by (simp add: same_claim_def)

lemma anchored_head: "anchored key c \<Longrightarrow> hd (vc_canonical_keys c) = vc_key c"
  by (auto simp: anchored_def hd_map)

lemma place_value_keys:
  "\<forall>c \<in> set cs. anchored key c \<Longrightarrow>
   (\<exists>c \<in> set cs. same_claim k (vc_key c)) \<and> map vc_key (place_value i k cs) = map vc_key cs
   \<or> (\<forall>c \<in> set cs. \<not> same_claim k (vc_key c))
     \<and> place_value i k cs = cs @ [\<lparr>vc_key = k, vc_members = [i], vc_canonical_keys = [k]\<rparr>]"
  by (induction cs) (auto simp: anchored_head)

lemma place_value_members:
  "mset (concat (map vc_members (place_value i k cs))) = add_mset i (mset (concat (map vc_members cs)))"
  by (induction cs) auto

lemma place_value_anchored:
  assumes "\<forall>c \<in> set cs. anchored key c" and "key i = k"
  shows "\<forall>c \<in> set (place_value i k cs). anchored key c"
  using assms
proof (induction cs)
  case Nil
  then show ?case by (simp add: anchored_def)
next
  case (Cons c cs)
  have c: "anchored key c" using Cons.prems by simp
  show ?case
  proof (cases "same_claim k (vc_key c)")
    case True
    have "anchored key (c\<lparr>vc_members := vc_members c @ [i], vc_canonical_keys := vc_canonical_keys c @ [k]\<rparr>)"
      using c True Cons.prems(2) by (auto simp: anchored_def)
    then show ?thesis using True Cons.prems anchored_head [OF c] by simp
  next
    case False
    then show ?thesis using Cons anchored_head [OF c] by simp
  qed
qed

lemma apart_keys:
  "sorted_wrt apart cs \<longleftrightarrow> sorted_wrt (\<lambda>r s. \<not> same_claim s r) (map vc_key cs)"
  by (simp add: sorted_wrt_map apart_def [abs_def])

lemma place_value_apart:
  assumes "\<forall>c \<in> set cs. anchored key c" and "sorted_wrt apart cs"
  shows "sorted_wrt apart (place_value i k cs)"
  using place_value_keys [OF assms(1), of k i] assms(2)
  by (auto simp: apart_keys sorted_wrt_append)

lemma cluster_loop_partition:
  assumes "\<forall>c \<in> set cs. anchored key c" and "sorted_wrt apart cs"
    and "mset (concat (map vc_members cs)) = mset [0..<n]"
    and "\<forall>j < length vs. key (n + j) = canonical_value_key canon (vs ! j)"
  shows "(\<forall>c \<in> set (cluster_loop canon n vs cs). anchored key c)
    \<and> sorted_wrt apart (cluster_loop canon n vs cs)
    \<and> mset (concat (map vc_members (cluster_loop canon n vs cs))) = mset [0..<n + length vs]"
  using assms
proof (induction vs arbitrary: n cs)
  case Nil
  then show ?case by simp
next
  case (Cons v vs)
  let ?k = "canonical_value_key canon v"
  have k: "key n = ?k" using Cons.prems(4) by auto
  have later: "\<forall>j < length vs. key (n + 1 + j) = canonical_value_key canon (vs ! j)"
    using Cons.prems(4) by (metis Suc_less_eq add_Suc_right add_Suc_shift Suc_eq_plus1 length_Cons nth_Cons_Suc)
  have members: "mset (concat (map vc_members (place_value n ?k cs))) = mset [0..<n + 1]"
    using Cons.prems(3) by (simp add: place_value_members)
  show ?case
    using Cons.IH [OF place_value_anchored [OF Cons.prems(1) k]
        place_value_apart [OF Cons.prems(1,2)] members later]
    by simp
qed

text \<open>
  The clusters partition the values: every position is in exactly one
  cluster, every member's key is within the distance bound of the cluster's first key (so
  no chain of near values drags a far one in), and no cluster's anchor makes the same
  claim as the anchor of an earlier one.
\<close>

theorem cluster_values_partition:
  "mset (concat (map vc_members (cluster_values canon vs))) = mset [0..<length vs]
   \<and> (\<forall>c \<in> set (cluster_values canon vs). anchored (\<lambda>i. canonical_value_key canon (vs ! i)) c)
   \<and> sorted_wrt apart (cluster_values canon vs)"
  using cluster_loop_partition
    [where cs = "[]" and n = 0 and vs = vs and canon = canon
       and key = "\<lambda>i. canonical_value_key canon (vs ! i)"]
  by (simp add: cluster_values_def)

lemma two_clusters:
  "1 < length (cluster_values canon [a, b])
   \<longleftrightarrow> \<not> same_claim (canonical_value_key canon b) (canonical_value_key canon a)"
  by (simp add: cluster_values_def)

lemma same_claim_sym: "same_claim a b = same_claim b a"
  using normalized_levenshtein_metric [of a b] by (auto simp: same_claim_def)

end
