(* ===== verification/FactPlane.thy ===== *)
theory FactPlane
  imports ValueClusters
begin

text \<open>
  The writers of the \<^verbatim>\<open>facts\<close> table: \<^verbatim>\<open>data/provenance/writes_supersession.py\<close> (authority
  tiers, the close of differing priors with and without contested coexistence, the
  office-keyed close of functional roles, the collapse of a standing triple), the two
  producers that compose them (\<^verbatim>\<open>_insert_fact\<close> of \<^verbatim>\<open>data/provenance/writes.py\<close> and
  \<^verbatim>\<open>_insert_ingestion_fact\<close> of \<^verbatim>\<open>data/filters/fact_extractor.py\<close>) and
  \<^verbatim>\<open>normalize_predicate\<close> of \<^verbatim>\<open>data/vocabulary.py\<close>. Each SQL statement is a function on the
  list of rows; its WHERE clause is a predicate, its SET clause a record update, and the
  partial unique index and the primary key are the errors a statement can raise. The
  columns no statement reads are left out; of the JSON column \<^verbatim>\<open>data\<close> the two fields the
  writers read, \<^verbatim>\<open>role\<close> and \<^verbatim>\<open>source_ids\<close>, are kept. Confidences are rationals, uuids
  numbers in their order, and \<^verbatim>\<open>now()\<close> is one instant per call. The functions run a
  call whole; \<open>run_statement\<close> runs it statement by statement, so that calls interleave.
\<close>

section \<open>Rows\<close>

type_synonym uuid = nat

record fact_row =
  fc_id :: uuid
  fc_subject :: py_str
  fc_predicate :: py_str
  fc_value :: py_str
  fc_confidence :: rat
  fc_source_type :: py_str
  fc_origin_class :: py_str
  fc_role :: "py_str option"
  fc_source_ids :: "py_str list"
  fc_valid_from :: "instant option"
  fc_valid_until :: "instant option"
  fc_superseded_by :: "uuid option"
  fc_superseded_at :: "instant option"
  fc_created_at :: instant
  fc_updated_at :: instant
  fc_derived_from :: "uuid list"
  fc_credibility :: "rat option"
  fc_seed_batch :: "uuid option"

type_synonym fact_table = "fact_row list"

datatype fact_error = Unique_violation | Not_null_violation | Null_valid_from

definition LIVE_CLASSES :: "py_str list" where
  "LIVE_CLASSES = [''live'', ''web_retrieval'', ''seed'']"

definition live_fact :: "fact_row \<Rightarrow> bool" where
  "live_fact r = (fc_origin_class r \<in> set LIVE_CLASSES)"

definition open_fact :: "fact_row \<Rightarrow> bool" where
  "open_fact r = (fc_valid_until r = None \<and> fc_superseded_by r = None)"

definition same_text :: "py_str \<Rightarrow> py_str \<Rightarrow> bool" where
  "same_text a b = (py_lower a = py_lower b)"

definition triple_of :: "fact_row \<Rightarrow> py_str \<times> py_str \<times> py_str" where
  "triple_of r = (py_lower (fc_subject r), py_lower (fc_predicate r), py_lower (fc_value r))"

text \<open>The key of \<^verbatim>\<open>idx_facts_temporal_triple_open\<close>; the sentinel of the COALESCE is the epoch.\<close>

definition quad_of :: "fact_row \<Rightarrow> (py_str \<times> py_str \<times> py_str) \<times> instant" where
  "quad_of r = (triple_of r, case fc_valid_from r of None \<Rightarrow> 0 | Some t \<Rightarrow> t)"

section \<open>Authority of a source\<close>

definition SOURCE_TIER_RANK :: "(py_str \<times> nat) list" where
  "SOURCE_TIER_RANK = [(''seed'', 2), (''curated'', 2), (''ingestion'', 1), (''agent'', 1)]"

definition DEFAULT_SOURCE_TIER_RANK :: nat where
  "DEFAULT_SOURCE_TIER_RANK = 1"

definition source_tier_rank :: "py_str option \<Rightarrow> nat" where
  "source_tier_rank source_type =
     (if \<not> truthy source_type then DEFAULT_SOURCE_TIER_RANK
      else case map_of SOURCE_TIER_RANK (py_lower (py_strip (the source_type))) of
             Some k \<Rightarrow> k | None \<Rightarrow> DEFAULT_SOURCE_TIER_RANK)"

text \<open>The CASE of the UPDATE statements, which does not trim.\<close>

definition sql_tier_rank :: "py_str \<Rightarrow> nat" where
  "sql_tier_rank source_type =
     (let s = py_lower source_type
      in if s = ''seed'' then 2 else if s = ''curated'' then 2
         else if s = ''ingestion'' then 1 else if s = ''agent'' then 1 else 1)"

definition incoming_rank :: "py_str option \<Rightarrow> nat option" where
  "incoming_rank source_type =
     (case source_type of None \<Rightarrow> None | Some s \<Rightarrow> Some (source_tier_rank (Some s)))"

definition within_tier :: "nat option \<Rightarrow> fact_row \<Rightarrow> bool" where
  "within_tier rank r = (case rank of None \<Rightarrow> True | Some k \<Rightarrow> sql_tier_rank (fc_source_type r) \<le> k)"

definition SOURCE_TIER_CREDIBILITY :: "(py_str \<times> rat) list" where
  "SOURCE_TIER_CREDIBILITY =
     [(''seed'', 9 / 10), (''curated'', 9 / 10), (''ingestion'', 1 / 2), (''agent'', 1 / 2)]"

definition DEFAULT_SOURCE_CREDIBILITY :: rat where
  "DEFAULT_SOURCE_CREDIBILITY = 1 / 2"

definition source_tier_credibility :: "py_str option \<Rightarrow> rat" where
  "source_tier_credibility source_type =
     (if \<not> truthy source_type then DEFAULT_SOURCE_CREDIBILITY
      else case map_of SOURCE_TIER_CREDIBILITY (py_lower (py_strip (the source_type))) of
             Some c \<Rightarrow> c | None \<Rightarrow> DEFAULT_SOURCE_CREDIBILITY)"

text \<open>PostgreSQL's LEAST and GREATEST, and \<^verbatim>\<open>max\<close>, skip NULL.\<close>

fun pg_least :: "'a::linorder option \<Rightarrow> 'a option \<Rightarrow> 'a option" where
  "pg_least None y = y"
| "pg_least x None = x"
| "pg_least (Some x) (Some y) = Some (min x y)"

fun pg_greatest :: "'a::linorder option \<Rightarrow> 'a option \<Rightarrow> 'a option" where
  "pg_greatest None y = y"
| "pg_greatest x None = x"
| "pg_greatest (Some x) (Some y) = Some (max x y)"

text \<open>
  The environment of a write: the variable \<^verbatim>\<open>LEGBA_FACT_CONTENTION\<close>, the entity canon
  behind the value keys, and the column \<^verbatim>\<open>signals.source_credibility\<close> (with no row and with
  NULL alike nothing).
\<close>

record fact_env =
  fe_contention :: "py_str option"
  fe_canon :: "py_str \<Rightarrow> py_str"
  fe_signal_credibility :: "uuid \<Rightarrow> rat option"

definition max_signal_credibility :: "fact_env \<Rightarrow> uuid list \<Rightarrow> rat option" where
  "max_signal_credibility env ids =
     (if ids = [] then None
      else foldr (\<lambda>i m. pg_greatest (fe_signal_credibility env i) m) ids None)"

definition resolve_fact_source_credibility :: "fact_env \<Rightarrow> py_str option \<Rightarrow> uuid list \<Rightarrow> rat" where
  "resolve_fact_source_credibility env source_type ids =
     (case max_signal_credibility env ids of
        Some c \<Rightarrow> c | None \<Rightarrow> source_tier_credibility source_type)"

definition fact_contention_enabled :: "fact_env \<Rightarrow> bool" where
  "fact_contention_enabled env =
     (py_lower (py_strip (case fe_contention env of None \<Rightarrow> ''0'' | Some s \<Rightarrow> s))
      \<in> {''1'', ''true'', ''yes'', ''on''})"

section \<open>Closing the priors\<close>

text \<open>The WHERE clause that the blind UPDATE and the SELECT of the other variant share.\<close>

definition rival :: "py_str \<Rightarrow> py_str \<Rightarrow> py_str \<Rightarrow> uuid \<Rightarrow> fact_row \<Rightarrow> bool" where
  "rival subject predicate value new_id r =
     (same_text (fc_subject r) subject \<and> same_text (fc_predicate r) predicate
      \<and> \<not> same_text (fc_value r) value
      \<and> open_fact r \<and> live_fact r \<and> fc_id r \<noteq> new_id)"

definition close_fact :: "instant \<Rightarrow> uuid \<Rightarrow> fact_row \<Rightarrow> fact_row" where
  "close_fact now new_id r =
     r\<lparr>fc_valid_until := Some now, fc_superseded_by := Some new_id,
       fc_superseded_at := Some now, fc_updated_at := now\<rparr>"

text \<open>An UPDATE and the row count in its status line.\<close>

definition update_where ::
  "(fact_row \<Rightarrow> bool) \<Rightarrow> (fact_row \<Rightarrow> fact_row) \<Rightarrow> fact_table \<Rightarrow> fact_table \<times> nat" where
  "update_where P f tbl = (map (\<lambda>r. if P r then f r else r) tbl, length (filter P tbl))"

definition supersede_blind ::
  "instant \<Rightarrow> py_str \<Rightarrow> py_str \<Rightarrow> py_str \<Rightarrow> uuid \<Rightarrow> py_str option \<Rightarrow> fact_table \<Rightarrow> fact_table \<times> nat" where
  "supersede_blind now subject predicate value new_id source_type tbl =
     update_where (\<lambda>r. rival subject predicate value new_id r \<and> within_tier (incoming_rank source_type) r)
       (close_fact now new_id) tbl"

text \<open>The body of the loop over the fetched rows: whether \<^verbatim>\<open>to_close\<close> gets the row.\<close>

definition contested_close :: "fact_env \<Rightarrow> py_str \<Rightarrow> nat option \<Rightarrow> fact_row \<Rightarrow> bool" where
  "contested_close env value rank r =
     (case rank of
        None \<Rightarrow> True
      | Some incoming \<Rightarrow>
          let prior = source_tier_rank (Some (fc_source_type r))
          in if prior > incoming then False
             else if prior = incoming
             then \<not> length (cluster_values (fe_canon env) [value, fc_value r]) > 1
             else True)"

definition supersede_prior_facts_coexist ::
  "fact_env \<Rightarrow> instant \<Rightarrow> py_str \<Rightarrow> py_str \<Rightarrow> py_str \<Rightarrow> uuid \<Rightarrow> py_str option \<Rightarrow> fact_table
    \<Rightarrow> fact_table \<times> nat" where
  "supersede_prior_facts_coexist env now subject predicate value new_id source_type tbl =
     (let rows = filter (rival subject predicate value new_id) tbl;
          to_close = map fc_id (filter (contested_close env value (incoming_rank source_type)) rows)
      in if to_close = [] then (tbl, 0)
         else update_where (\<lambda>r. fc_id r \<in> set to_close \<and> open_fact r \<and> live_fact r)
                (close_fact now new_id) tbl)"

definition supersede_prior_facts ::
  "fact_env \<Rightarrow> instant \<Rightarrow> py_str \<Rightarrow> py_str \<Rightarrow> py_str \<Rightarrow> uuid \<Rightarrow> py_str option \<Rightarrow> fact_table
    \<Rightarrow> fact_table \<times> nat" where
  "supersede_prior_facts env now subject predicate value new_id source_type tbl =
     (if fact_contention_enabled env
      then supersede_prior_facts_coexist env now subject predicate value new_id source_type tbl
      else supersede_blind now subject predicate value new_id source_type tbl)"

text \<open>Which column names the country of a functional role.\<close>

datatype country_side = Side_value | Side_subject

definition FUNCTIONAL_ROLE_COUNTRY_SIDE :: "(py_str \<times> country_side) list" where
  "FUNCTIONAL_ROLE_COUNTRY_SIDE =
     [(''leader of'', Side_value), (''head of state'', Side_subject),
      (''head of government'', Side_subject)]"

definition office_rival ::
  "py_str \<Rightarrow> py_str \<Rightarrow> py_str \<Rightarrow> py_str option \<Rightarrow> uuid \<Rightarrow> fact_row \<Rightarrow> bool" where
  "office_rival subject predicate value role new_id r =
     (case map_of FUNCTIONAL_ROLE_COUNTRY_SIDE predicate of
        None \<Rightarrow> False
      | Some Side_value \<Rightarrow>
          truthy role
          \<and> py_lower (fc_predicate r) = predicate \<and> same_text (fc_value r) value
          \<and> \<not> same_text (fc_subject r) subject
          \<and> same_text (case fc_role r of None \<Rightarrow> [] | Some x \<Rightarrow> x) (the role)
          \<and> open_fact r \<and> live_fact r \<and> fc_id r \<noteq> new_id
      | Some Side_subject \<Rightarrow>
          py_lower (fc_predicate r) = predicate \<and> same_text (fc_subject r) subject
          \<and> \<not> same_text (fc_value r) value
          \<and> open_fact r \<and> live_fact r \<and> fc_id r \<noteq> new_id)"

definition supersede_prior_functional_role_facts ::
  "instant \<Rightarrow> py_str \<Rightarrow> py_str \<Rightarrow> py_str \<Rightarrow> py_str option \<Rightarrow> uuid \<Rightarrow> py_str option \<Rightarrow> fact_table
    \<Rightarrow> fact_table \<times> nat" where
  "supersede_prior_functional_role_facts now subject predicate value role new_id source_type tbl =
     update_where
       (\<lambda>r. office_rival subject predicate value role new_id r \<and> within_tier (incoming_rank source_type) r)
       (close_fact now new_id) tbl"

section \<open>Corroboration\<close>

definition CONFIDENCE_CAP :: rat where
  "CONFIDENCE_CAP = 99 / 100"

text \<open>\<^verbatim>\<open>noisy_or_confidence\<close>, with its clamps and its cap as an argument.\<close>

definition noisy_or_confidence :: "rat \<Rightarrow> rat \<Rightarrow> rat \<Rightarrow> rat" where
  "noisy_or_confidence existing incoming cap =
     (let e = (if existing < 0 then 0 else if existing > 1 then 1 else existing);
          i = (if incoming < 0 then 0 else if incoming > 1 then 1 else incoming);
          combined = 1 - (1 - e) * (1 - i)
      in if combined < cap then combined else cap)"

definition combine_confidence :: "rat \<Rightarrow> rat \<Rightarrow> rat" where
  "combine_confidence existing incoming = 1 - (1 - existing) * (1 - incoming)"

text \<open>\<^verbatim>\<open>array_agg(DISTINCT e)\<close> over the two arrays: sorted, without repeats.\<close>

definition union_ids :: "uuid list \<Rightarrow> uuid list \<Rightarrow> uuid list" where
  "union_ids xs ys = sort (remdups (xs @ ys))"

text \<open>\<^verbatim>\<open>ORDER BY valid_from ASC, created_at ASC LIMIT 1\<close>, NULL last; among equals the first row.\<close>

definition earlier_row :: "fact_row \<Rightarrow> fact_row \<Rightarrow> bool" where
  "earlier_row a b =
     (case (fc_valid_from a, fc_valid_from b) of
        (Some x, Some y) \<Rightarrow> x < y \<or> (x = y \<and> fc_created_at a < fc_created_at b)
      | (Some _, None) \<Rightarrow> True
      | (None, Some _) \<Rightarrow> False
      | (None, None) \<Rightarrow> fc_created_at a < fc_created_at b)"

fun earliest_row :: "fact_row list \<Rightarrow> fact_row option" where
  "earliest_row [] = None"
| "earliest_row (r # rs) = Some (foldl (\<lambda>m x. if earlier_row x m then x else m) r rs)"

text \<open>
  An UPDATE of the one row \<open>r\<close>: it raises when another open row holds the key of the
  partial unique index that the new version has, and then writes nothing.
\<close>

definition replace_row :: "fact_row \<Rightarrow> fact_table \<Rightarrow> fact_table" where
  "replace_row r' tbl = map (\<lambda>r. if fc_id r = fc_id r' then r' else r) tbl"

definition index_clash :: "fact_row \<Rightarrow> fact_table \<Rightarrow> bool" where
  "index_clash r' tbl =
     (open_fact r' \<and> (\<exists>r \<in> set tbl. fc_id r \<noteq> fc_id r' \<and> open_fact r \<and> quad_of r = quad_of r'))"

definition update_row :: "fact_row \<Rightarrow> fact_table \<Rightarrow> fact_table \<times> (fact_error + uuid option)" where
  "update_row r' tbl =
     (if index_clash r' tbl then (tbl, Inl Unique_violation)
      else (replace_row r' tbl, Inr (Some (fc_id r'))))"

definition standing :: "py_str \<Rightarrow> py_str \<Rightarrow> py_str \<Rightarrow> fact_row \<Rightarrow> bool" where
  "standing subject predicate value r =
     (same_text (fc_subject r) subject \<and> same_text (fc_predicate r) predicate
      \<and> same_text (fc_value r) value \<and> open_fact r \<and> live_fact r)"

definition refresh_standing ::
  "instant \<Rightarrow> rat \<Rightarrow> uuid list \<Rightarrow> instant option \<Rightarrow> rat option \<Rightarrow> fact_row \<Rightarrow> fact_row" where
  "refresh_standing now confidence derived valid_from credibility r =
     r\<lparr>fc_confidence := min CONFIDENCE_CAP (combine_confidence (fc_confidence r) confidence),
       fc_derived_from := union_ids (fc_derived_from r) derived,
       fc_valid_from := pg_least (fc_valid_from r) valid_from,
       fc_credibility := pg_greatest (fc_credibility r) credibility,
       fc_updated_at := now\<rparr>"

definition collapse_open_triple ::
  "instant \<Rightarrow> py_str \<Rightarrow> py_str \<Rightarrow> py_str \<Rightarrow> uuid \<Rightarrow> rat \<Rightarrow> uuid list \<Rightarrow> instant option \<Rightarrow> rat option
    \<Rightarrow> fact_table \<Rightarrow> fact_table \<times> (fact_error + uuid option)" where
  "collapse_open_triple now subject predicate value new_id confidence derived valid_from credibility tbl =
     (case earliest_row (filter (\<lambda>r. standing subject predicate value r \<and> fc_id r \<noteq> new_id) tbl) of
        None \<Rightarrow> (tbl, Inr None)
      | Some r \<Rightarrow> update_row (refresh_standing now confidence derived valid_from credibility r) tbl)"

section \<open>The analyst and seed path\<close>

definition PREDICATE_CANONICAL :: "(py_str \<times> py_str) list" where
  "PREDICATE_CANONICAL =
     [(''leaderof'', ''leader of''), (''headofstate'', ''head of state''),
      (''head of state'', ''head of state''), (''headofgovernment'', ''head of government''),
      (''head of government'', ''head of government''), (''memberof'', ''member of''),
      (''locatedin'', ''located in''), (''alliedwith'', ''allied with''),
      (''hostileto'', ''hostile to''), (''inactiveconflictwith'', ''in active conflict with''),
      (''in active conflict with'', ''in active conflict with''), (''sanctions'', ''sanctions''),
      (''armstransferto'', ''arms transfer to''),
      (''involvedinconflictevent'', ''involved in conflict event''), (''partof'', ''part of''),
      (''cooccurswith'', ''co occurs with''), (''operatesin'', ''operates in''),
      (''partyto'', ''party to''), (''targets'', ''targets''), (''conductedvia'', ''conducted via''),
      (''suppliesweaponsto'', ''supplies weapons to''), (''affiliatedwith'', ''affiliated with''),
      (''involvedin'', ''involved in'')]"

definition normalize_predicate :: "py_str \<Rightarrow> py_str" where
  "normalize_predicate predicate =
     (if predicate = [] \<or> py_strip predicate = [] then predicate
      else case map_of PREDICATE_CANONICAL (py_lower (py_strip predicate)) of
             Some c \<Rightarrow> c | None \<Rightarrow> predicate)"

record fact_payload =
  fp_subject :: py_str
  fp_predicate :: py_str
  fp_value :: py_str
  fp_confidence :: rat
  fp_source_type :: py_str
  fp_valid_from :: "instant option"
  fp_valid_until :: "instant option"
  fp_role :: "py_str option"
  fp_source_ids :: "py_str list"

record write_marks =
  wm_source_type :: "py_str option"
  wm_seed_batch :: "uuid option"
  wm_origin_class :: "py_str option"

definition effective_source_type :: "write_marks \<Rightarrow> fact_payload \<Rightarrow> py_str" where
  "effective_source_type marks p =
     (if truthy (wm_source_type marks) then the (wm_source_type marks) else fp_source_type p)"

text \<open>
  INSERT with \<^verbatim>\<open>ON CONFLICT\<close> on the partial index: only a row that would itself be in
  the index, an open one, can meet the conflict clause; any other insert can still meet the
  primary key.
\<close>

definition open_twin :: "fact_row \<Rightarrow> fact_table \<Rightarrow> fact_row option" where
  "open_twin new tbl =
     (if open_fact new then find (\<lambda>r. open_fact r \<and> quad_of r = quad_of new) tbl else None)"

definition insert_or_merge ::
  "(fact_row \<Rightarrow> fact_error + fact_row) \<Rightarrow> fact_row \<Rightarrow> fact_table \<Rightarrow> fact_table \<times> (fact_error + unit)" where
  "insert_or_merge merge new tbl =
     (case open_twin new tbl of
        Some old \<Rightarrow> (case merge old of Inl e \<Rightarrow> (tbl, Inl e) | Inr r' \<Rightarrow> (replace_row r' tbl, Inr ()))
      | None \<Rightarrow> if fc_id new \<in> fc_id ` set tbl then (tbl, Inl Unique_violation)
                else (tbl @ [new], Inr ()))"

definition merge_asserted :: "instant \<Rightarrow> fact_row \<Rightarrow> fact_row \<Rightarrow> fact_error + fact_row" where
  "merge_asserted now new old =
     Inr (old\<lparr>fc_confidence := min CONFIDENCE_CAP (combine_confidence (fc_confidence old) (fc_confidence new)),
              fc_derived_from := union_ids (fc_derived_from old) (fc_derived_from new),
              fc_valid_until := (case fc_valid_until new of None \<Rightarrow> fc_valid_until old | Some t \<Rightarrow> Some t),
              fc_credibility := pg_greatest (fc_credibility old) (fc_credibility new),
              fc_updated_at := now\<rparr>)"

definition fact_to_insert ::
  "fact_env \<Rightarrow> instant \<Rightarrow> uuid \<Rightarrow> fact_payload \<Rightarrow> uuid list \<Rightarrow> write_marks \<Rightarrow> fact_row" where
  "fact_to_insert env now row_id p derived marks =
     \<lparr>fc_id = row_id, fc_subject = fp_subject p, fc_predicate = normalize_predicate (fp_predicate p),
      fc_value = fp_value p, fc_confidence = fp_confidence p,
      fc_source_type = effective_source_type marks p,
      fc_origin_class =
        (if truthy (wm_origin_class marks) then the (wm_origin_class marks)
         else if wm_seed_batch marks \<noteq> None then ''seed'' else ''live''),
      fc_role = fp_role p, fc_source_ids = fp_source_ids p,
      fc_valid_from = fp_valid_from p, fc_valid_until = fp_valid_until p,
      fc_superseded_by = None, fc_superseded_at = None, fc_created_at = now, fc_updated_at = now,
      fc_derived_from = derived,
      fc_credibility =
        Some (resolve_fact_source_credibility env (Some (effective_source_type marks p)) derived),
      fc_seed_batch = wm_seed_batch marks\<rparr>"

text \<open>The office-keyed close, for the operator tiers only; it points at the surviving row.\<close>

definition close_office ::
  "instant \<Rightarrow> fact_payload \<Rightarrow> py_str \<Rightarrow> uuid \<Rightarrow> fact_table \<Rightarrow> fact_table" where
  "close_office now p source_type survivor tbl =
     (if py_lower source_type \<in> {''seed'', ''curated''}
      then fst (supersede_prior_functional_role_facts now (fp_subject p)
                  (normalize_predicate (fp_predicate p)) (fp_value p) (fp_role p) survivor
                  (Some source_type) tbl)
      else tbl)"

text \<open>\<^verbatim>\<open>_insert_fact\<close>: supersede, collapse, office-keyed close, insert, in the code's order.\<close>

definition insert_fact ::
  "fact_env \<Rightarrow> instant \<Rightarrow> uuid \<Rightarrow> fact_payload \<Rightarrow> uuid list \<Rightarrow> write_marks \<Rightarrow> fact_table
    \<Rightarrow> fact_table \<times> (fact_error + unit)" where
  "insert_fact env now row_id p derived marks tbl =
     (let predicate = normalize_predicate (fp_predicate p);
          source_type = effective_source_type marks p;
          credibility = resolve_fact_source_credibility env (Some source_type) derived;
          (tbl1, _) = supersede_prior_facts env now (fp_subject p) predicate (fp_value p) row_id
                        (Some source_type) tbl;
          (tbl2, collapsed) = collapse_open_triple now (fp_subject p) predicate (fp_value p) row_id
                        (fp_confidence p) derived (fp_valid_from p) (Some credibility) tbl1
      in case collapsed of
           Inl e \<Rightarrow> (tbl2, Inl e)
         | Inr hit \<Rightarrow>
             let survivor = (case hit of Some i \<Rightarrow> i | None \<Rightarrow> row_id);
                 tbl3 = close_office now p source_type survivor tbl2
             in if hit \<noteq> None then (tbl3, Inr ())
                else let new = fact_to_insert env now row_id p derived marks
                     in insert_or_merge (merge_asserted now new) new tbl3)"

section \<open>The ingestion path\<close>

text \<open>
  The corroboration rule both statements of \<^verbatim>\<open>_insert_ingestion_fact\<close> spell out: a source
  that is already in the row's ledger lifts nothing, an observation at the floor lifts to
  0.75 at most, and nothing lowers a confidence.
\<close>

definition corroborated :: "py_str option \<Rightarrow> py_str list \<Rightarrow> rat \<Rightarrow> rat \<Rightarrow> rat" where
  "corroborated source_id ledger existing incoming =
     (if source_id \<noteq> None \<and> the source_id \<in> set ledger then existing
      else max existing
             (min (if incoming \<le> 1 / 2 then 3 / 4 else CONFIDENCE_CAP)
                  (combine_confidence existing incoming)))"

definition ledger_with :: "py_str option \<Rightarrow> py_str list \<Rightarrow> py_str list" where
  "ledger_with source_id ledger =
     (if source_id = None \<or> the source_id \<in> set ledger then ledger else ledger @ [the source_id])"

text \<open>
  Here \<^verbatim>\<open>array_agg\<close> stands without its COALESCE: over two empty arrays it is NULL, which
  the column refuses.
\<close>

definition corroborate_row ::
  "instant \<Rightarrow> py_str option \<Rightarrow> rat \<Rightarrow> uuid list \<Rightarrow> instant option \<Rightarrow> rat option \<Rightarrow> fact_row
    \<Rightarrow> fact_error + fact_row" where
  "corroborate_row now source_id confidence derived valid_from credibility r =
     (if fc_derived_from r = [] \<and> derived = [] then Inl Not_null_violation
      else Inr (r\<lparr>fc_confidence := corroborated source_id (fc_source_ids r) (fc_confidence r) confidence,
                  fc_source_ids := ledger_with source_id (fc_source_ids r),
                  fc_derived_from := union_ids (fc_derived_from r) derived,
                  fc_valid_from := pg_least (fc_valid_from r) valid_from,
                  fc_credibility := pg_greatest (fc_credibility r) credibility,
                  fc_updated_at := now\<rparr>))"

definition ingestion_row ::
  "fact_env \<Rightarrow> instant \<Rightarrow> uuid \<Rightarrow> fact_payload \<Rightarrow> uuid list \<Rightarrow> fact_row" where
  "ingestion_row env now fact_id p derived =
     \<lparr>fc_id = fact_id, fc_subject = fp_subject p, fc_predicate = fp_predicate p, fc_value = fp_value p,
      fc_confidence = fp_confidence p, fc_source_type = ''ingestion'', fc_origin_class = ''live'',
      fc_role = fp_role p, fc_source_ids = fp_source_ids p,
      fc_valid_from = fp_valid_from p, fc_valid_until = None,
      fc_superseded_by = None, fc_superseded_at = None, fc_created_at = now, fc_updated_at = now,
      fc_derived_from = derived,
      fc_credibility = Some (resolve_fact_source_credibility env (Some ''ingestion'') derived),
      fc_seed_batch = None\<rparr>"

definition insert_ingestion_fact ::
  "fact_env \<Rightarrow> instant \<Rightarrow> uuid \<Rightarrow> fact_payload \<Rightarrow> uuid list \<Rightarrow> py_str option \<Rightarrow> fact_table
    \<Rightarrow> fact_table \<times> (fact_error + unit)" where
  "insert_ingestion_fact env now fact_id p derived source_id tbl =
     (if fp_valid_from p = None then (tbl, Inl Null_valid_from)
      else let credibility = Some (resolve_fact_source_credibility env (Some ''ingestion'') derived);
               (tbl1, _) = supersede_prior_facts env now (fp_subject p) (fp_predicate p) (fp_value p) fact_id
                             (Some ''ingestion'') tbl
           in case earliest_row (filter (standing (fp_subject p) (fp_predicate p) (fp_value p)) tbl1) of
                Some r \<Rightarrow>
                  (case corroborate_row now source_id (fp_confidence p) derived (fp_valid_from p) credibility r of
                     Inl e \<Rightarrow> (tbl1, Inl e)
                   | Inr r' \<Rightarrow> (case update_row r' tbl1 of
                                  (tbl2, Inl e) \<Rightarrow> (tbl2, Inl e) | (tbl2, Inr _) \<Rightarrow> (tbl2, Inr ())))
              | None \<Rightarrow>
                  let new = ingestion_row env now fact_id p derived
                  in insert_or_merge
                       (corroborate_row now source_id (fc_confidence new) derived None credibility) new tbl1)"

section \<open>Tables the writers keep\<close>

text \<open>
  The invariant: the primary key; only live origin classes (the CHECK that refuses a
  history writer); and one open row per triple, which is stronger than the index, whose key
  also holds \<^verbatim>\<open>valid_from\<close>.
\<close>

definition facts_ok :: "fact_table \<Rightarrow> bool" where
  "facts_ok tbl =
     (distinct (map fc_id tbl) \<and> (\<forall>r \<in> set tbl. live_fact r)
      \<and> (\<forall>r \<in> set tbl. \<forall>r' \<in> set tbl. open_fact r \<and> open_fact r' \<and> triple_of r = triple_of r' \<longrightarrow> r = r'))"

lemma facts_okD:
  assumes "facts_ok tbl"
  shows "distinct (map fc_id tbl)" and "\<And>r. r \<in> set tbl \<Longrightarrow> live_fact r"
    and "\<And>r r'. r \<in> set tbl \<Longrightarrow> r' \<in> set tbl \<Longrightarrow> open_fact r \<Longrightarrow> open_fact r'
           \<Longrightarrow> triple_of r = triple_of r' \<Longrightarrow> r = r'"
  using assms unfolding facts_ok_def by blast+

lemma same_id: "distinct (map fc_id tbl) \<Longrightarrow> r \<in> set tbl \<Longrightarrow> r' \<in> set tbl \<Longrightarrow> fc_id r = fc_id r' \<Longrightarrow> r = r'"
  by (auto simp: distinct_map dest: inj_onD)

lemma close_fact_simps [simp]:
  "fc_id (close_fact now i r) = fc_id r" "triple_of (close_fact now i r) = triple_of r"
  "live_fact (close_fact now i r) = live_fact r" "\<not> open_fact (close_fact now i r)"
  by (simp_all add: close_fact_def triple_of_def live_fact_def open_fact_def)

lemma set_update_where: "set (fst (update_where P f tbl)) = (\<lambda>r. if P r then f r else r) ` set tbl"
  by (simp add: update_where_def)

subsection \<open>What every close has in common\<close>

text \<open>
  The three closing statements differ in which rows they choose; the contract is that they
  choose open live rows only. From it: the invariant, the keys, and which rows stay open.
\<close>

locale fact_closer =
  fixes chosen :: "fact_row \<Rightarrow> bool"
  assumes chosen_open: "chosen r \<Longrightarrow> open_fact r"
    and chosen_live: "chosen r \<Longrightarrow> live_fact r"
begin

lemma closed_ids: "map fc_id (fst (update_where chosen (close_fact now i) tbl)) = map fc_id tbl"
  by (simp add: update_where_def)

lemma open_after:
  "{r \<in> set (fst (update_where chosen (close_fact now i) tbl)). open_fact r}
   = {r \<in> set tbl. open_fact r \<and> \<not> chosen r}"
  by (auto simp: set_update_where split: if_splits)

lemma closer_keeps_ok: "facts_ok tbl \<Longrightarrow> facts_ok (fst (update_where chosen (close_fact now i) tbl))"
  unfolding facts_ok_def closed_ids by (auto simp: set_update_where split: if_splits)

lemma closed_only_open:
  "r \<in> set tbl \<Longrightarrow> \<not> open_fact r \<Longrightarrow> r \<in> set (fst (update_where chosen (close_fact now i) tbl))"
  using chosen_open by (force simp: set_update_where)

lemma closed_count:
  "snd (update_where chosen (close_fact now i) tbl) = length (filter chosen tbl)"
  by (simp add: update_where_def)

lemma closing_twice:
  "update_where chosen (close_fact now' i') (fst (update_where chosen (close_fact now i) tbl))
   = (fst (update_where chosen (close_fact now i) tbl), 0)"
proof -
  have never: "\<not> chosen (close_fact now i r)" for r using chosen_open [of "close_fact now i r"] by auto
  then have gone: "\<not> chosen (if chosen r then close_fact now i r else r)" for r by simp
  show ?thesis by (simp add: update_where_def gone comp_def)
qed

end

definition closes :: "fact_env \<Rightarrow> py_str \<Rightarrow> py_str \<Rightarrow> py_str \<Rightarrow> uuid \<Rightarrow> py_str option \<Rightarrow> fact_row \<Rightarrow> bool" where
  "closes env subject predicate value new_id source_type r =
     (rival subject predicate value new_id r
      \<and> (if fact_contention_enabled env then contested_close env value (incoming_rank source_type) r
         else within_tier (incoming_rank source_type) r))"

interpretation prior: fact_closer "closes env s p v i source_type"
  for env s p v i source_type
  by unfold_locales (auto simp: closes_def rival_def)

interpretation office: fact_closer "\<lambda>r. office_rival s p v role i r \<and> within_tier rank r"
  for s p v role i rank
  by unfold_locales (auto simp: office_rival_def split: option.splits country_side.splits)

lemma update_where_cong:
  "(\<And>r. r \<in> set tbl \<Longrightarrow> P r = Q r) \<Longrightarrow> update_where P f tbl = update_where Q f tbl"
  by (auto simp: update_where_def intro: arg_cong [where f = length] filter_cong)

text \<open>Fetch, decide, and update by id is one UPDATE over the rows decided on.\<close>

lemma coexist_is_update:
  assumes "distinct (map fc_id tbl)"
  shows "supersede_prior_facts_coexist env now s p v i st tbl
    = update_where (\<lambda>r. rival s p v i r \<and> contested_close env v (incoming_rank st) r) (close_fact now i) tbl"
proof -
  let ?Q = "\<lambda>r. rival s p v i r \<and> contested_close env v (incoming_rank st) r"
  let ?ids = "map fc_id (filter (contested_close env v (incoming_rank st)) (filter (rival s p v i) tbl))"
  have hit: "(fc_id r \<in> set ?ids \<and> open_fact r \<and> live_fact r) = ?Q r" if "r \<in> set tbl" for r
    using that same_id [OF assms] by (auto simp: rival_def)
  show ?thesis
  proof (cases "?ids = []")
    case True
    then have "\<not> ?Q r" if "r \<in> set tbl" for r using that by (auto simp: filter_empty_conv)
    then have "update_where ?Q (close_fact now i) tbl = (tbl, 0)"
      by (auto simp: update_where_def filter_empty_conv intro!: map_idI)
    then show ?thesis using True by (simp add: supersede_prior_facts_coexist_def)
  next
    case False
    then show ?thesis
      unfolding supersede_prior_facts_coexist_def Let_def
      using update_where_cong [of tbl "\<lambda>r. fc_id r \<in> set ?ids \<and> open_fact r \<and> live_fact r" ?Q, OF hit]
      by simp
  qed
qed

lemma supersede_is_update:
  "distinct (map fc_id tbl) \<Longrightarrow>
   supersede_prior_facts env now s p v i st tbl
   = update_where (closes env s p v i st) (close_fact now i) tbl"
  by (simp add: supersede_prior_facts_def coexist_is_update supersede_blind_def closes_def [abs_def])

subsection \<open>Collapse and insert\<close>

lemma foldl_pick: "foldl (\<lambda>m x. if E x m then x else m) r rs \<in> set (r # rs)"
  by (induction rs arbitrary: r) auto

lemma earliest_row_in: "earliest_row rs = Some r \<Longrightarrow> r \<in> set rs"
  using foldl_pick [of earlier_row] by (cases rs) auto

lemma earliest_row_none: "earliest_row rs = None \<longleftrightarrow> rs = []"
  by (cases rs) auto

lemma standing_triple:
  "standing s p v r \<longleftrightarrow> triple_of r = (py_lower s, py_lower p, py_lower v) \<and> open_fact r \<and> live_fact r"
  by (auto simp: standing_def triple_of_def same_text_def)

text \<open>A new version of a row that keeps its identity, its triple and its openness.\<close>

definition same_belief :: "fact_row \<Rightarrow> fact_row \<Rightarrow> bool" where
  "same_belief r' r =
     (fc_id r' = fc_id r \<and> triple_of r' = triple_of r \<and> fc_source_type r' = fc_source_type r
      \<and> fc_role r' = fc_role r \<and> open_fact r' = open_fact r \<and> live_fact r' = live_fact r)"

lemma refresh_same: "same_belief (refresh_standing now c d vf cr r) r"
  by (simp add: same_belief_def refresh_standing_def triple_of_def open_fact_def live_fact_def)

lemma corroborate_same: "corroborate_row now src c d vf cr r = Inr r' \<Longrightarrow> same_belief r' r"
  by (auto simp: corroborate_row_def same_belief_def triple_of_def open_fact_def live_fact_def
      split: if_splits)

lemma replace_row_set:
  assumes "distinct (map fc_id tbl)" and "r \<in> set tbl" and "fc_id r' = fc_id r"
  shows "set (replace_row r' tbl) = insert r' (set tbl - {r})"
  using assms same_id [OF assms(1)] by (auto simp: replace_row_def image_iff split: if_splits)

lemma replace_row_ids: "map fc_id (replace_row r' tbl) = map fc_id tbl"
  by (simp add: replace_row_def)

lemma replace_row_ok:
  assumes ok: "facts_ok tbl" and r: "r \<in> set tbl" and same: "same_belief r' r"
  shows "facts_ok (replace_row r' tbl)"
proof -
  have id: "fc_id r' = fc_id r" using same by (simp add: same_belief_def)
  show ?thesis
    using ok r same unfolding facts_ok_def replace_row_ids
      replace_row_set [OF facts_okD(1) [OF ok] r id] same_belief_def
    by (metis Diff_iff insert_iff singletonI)
qed

lemma no_clash:
  assumes "facts_ok tbl" "r \<in> set tbl" "same_belief r' r" "open_fact r"
  shows "\<not> index_clash r' tbl"
  using assms facts_okD(3) [OF assms(1)]
  by (auto simp: index_clash_def same_belief_def quad_of_def)

lemma update_row_ok:
  assumes "facts_ok tbl" "r \<in> set tbl" "same_belief r' r" "open_fact r"
  shows "update_row r' tbl = (replace_row r' tbl, Inr (Some (fc_id r)))"
  using no_clash [OF assms] assms(3) by (simp add: update_row_def same_belief_def)

lemma collapse_cases:
  assumes ok: "facts_ok tbl"
  obtains (hit) r where "r \<in> set tbl" "standing s p v r" "fc_id r \<noteq> i"
      "collapse_open_triple now s p v i c d vf cr tbl
       = (replace_row (refresh_standing now c d vf cr r) tbl, Inr (Some (fc_id r)))"
  | (miss) "\<forall>r \<in> set tbl. standing s p v r \<longrightarrow> fc_id r = i"
      "collapse_open_triple now s p v i c d vf cr tbl = (tbl, Inr None)"
proof (cases "earliest_row (filter (\<lambda>r. standing s p v r \<and> fc_id r \<noteq> i) tbl)")
  case None
  then show ?thesis
    by (intro miss) (auto simp: collapse_open_triple_def earliest_row_none filter_empty_conv)
next
  case (Some r)
  have r: "r \<in> set tbl" "standing s p v r" "fc_id r \<noteq> i" using earliest_row_in [OF Some] by auto
  then have "open_fact r" by (simp add: standing_triple)
  from update_row_ok [OF ok r(1) refresh_same this] show ?thesis
    by (intro hit [OF r]) (simp add: collapse_open_triple_def Some)
qed

lemma open_twin_some: "open_twin new tbl = Some old \<Longrightarrow> old \<in> set tbl \<and> open_fact old \<and> triple_of old = triple_of new"
  by (auto simp: open_twin_def find_Some_iff quad_of_def split: if_splits)

lemma insert_new:
  assumes "\<forall>r \<in> set tbl. open_fact r \<longrightarrow> triple_of r \<noteq> triple_of new" and "fc_id new \<notin> fc_id ` set tbl"
  shows "insert_or_merge merge new tbl = (tbl @ [new], Inr ())"
proof -
  have "open_twin new tbl = None"
    using assms(1) open_twin_some [of new tbl] by (cases "open_twin new tbl") auto
  then show ?thesis using assms(2) by (simp add: insert_or_merge_def)
qed

lemma append_ok:
  assumes "facts_ok tbl" "live_fact new" "fc_id new \<notin> fc_id ` set tbl"
    and "open_fact new \<Longrightarrow> \<forall>r \<in> set tbl. open_fact r \<longrightarrow> triple_of r \<noteq> triple_of new"
  shows "facts_ok (tbl @ [new])"
  using assms unfolding facts_ok_def by auto

subsection \<open>One insert, decomposed\<close>

lemma close_office_ids [simp]: "map fc_id (close_office now p st i tbl) = map fc_id tbl"
  by (simp add: close_office_def supersede_prior_functional_role_facts_def office.closed_ids)

lemma close_office_ok: "facts_ok tbl \<Longrightarrow> facts_ok (close_office now p st i tbl)"
  by (simp add: close_office_def supersede_prior_functional_role_facts_def office.closer_keeps_ok)

lemma close_office_open:
  "r \<in> set (close_office now p st i tbl) \<Longrightarrow> open_fact r \<Longrightarrow> r \<in> set tbl"
  by (auto simp: close_office_def supersede_prior_functional_role_facts_def set_update_where split: if_splits)

lemma ids_of_map: "map fc_id a = map fc_id b \<Longrightarrow> fc_id ` set a = fc_id ` set b"
  by (metis list.set_map)

abbreviation own_triple :: "fact_payload \<Rightarrow> py_str \<times> py_str \<times> py_str" where
  "own_triple p \<equiv> (py_lower (fp_subject p), py_lower (normalize_predicate (fp_predicate p)), py_lower (fp_value p))"

abbreviation after_close :: "fact_env \<Rightarrow> instant \<Rightarrow> uuid \<Rightarrow> fact_payload \<Rightarrow> py_str \<Rightarrow> fact_table \<Rightarrow> fact_table" where
  "after_close env now i p st tbl \<equiv>
     fst (update_where
       (closes env (fp_subject p) (normalize_predicate (fp_predicate p)) (fp_value p) i (Some st))
       (close_fact now i) tbl)"

lemma fact_to_insert_triple: "triple_of (fact_to_insert env now i p d m) = own_triple p"
  by (simp add: triple_of_def fact_to_insert_def)

lemma insert_fact_cases:
  fixes env now i p d m tbl
  defines "st \<equiv> effective_source_type m p"
  assumes ok: "facts_ok tbl" and new: "i \<notin> fc_id ` set tbl"
  obtains (collapsed) r c where "r \<in> set (after_close env now i p st tbl)" "open_fact r"
      "triple_of r = own_triple p"
      "insert_fact env now i p d m tbl
       = (close_office now p st (fc_id r)
            (replace_row (refresh_standing now (fp_confidence p) d (fp_valid_from p) c r)
               (after_close env now i p st tbl)), Inr ())"
  | (fresh) "\<forall>r \<in> set (after_close env now i p st tbl). open_fact r \<longrightarrow> triple_of r \<noteq> own_triple p"
      "insert_fact env now i p d m tbl
       = (close_office now p st i (after_close env now i p st tbl) @ [fact_to_insert env now i p d m], Inr ())"
proof -
  let ?pr = "normalize_predicate (fp_predicate p)"
  let ?cr = "Some (resolve_fact_source_credibility env (Some st) d)"
  let ?t1 = "after_close env now i p st tbl"
  have ok1: "facts_ok ?t1" using ok by (rule prior.closer_keeps_ok)
  have ids1: "fc_id ` set ?t1 = fc_id ` set tbl"
    by (rule ids_of_map) (rule prior.closed_ids)
  obtain n where sup: "supersede_prior_facts env now (fp_subject p) ?pr (fp_value p) i (Some st) tbl = (?t1, n)"
    using supersede_is_update [OF facts_okD(1) [OF ok]] by (metis prod.collapse)
  show ?thesis
  proof (cases rule: collapse_cases [OF ok1, of "fp_subject p" ?pr "fp_value p" i now "fp_confidence p" d
        "fp_valid_from p" ?cr])
    case (1 r)
    show ?thesis
    proof (rule collapsed [of r ?cr])
      show "insert_fact env now i p d m tbl
       = (close_office now p st (fc_id r)
            (replace_row (refresh_standing now (fp_confidence p) d (fp_valid_from p) ?cr r) ?t1), Inr ())"
        unfolding insert_fact_def Let_def st_def [symmetric] sup using 1(4) by simp
    qed (use 1(1,2) in \<open>simp_all add: standing_triple\<close>)
  next
    case 2
    let ?new = "fact_to_insert env now i p d m"
    have none: "\<forall>r \<in> set ?t1. open_fact r \<longrightarrow> triple_of r \<noteq> own_triple p"
      using 2(1) new ids1 facts_okD(2) [OF ok1] by (fastforce simp: standing_triple)
    have ins: "insert_or_merge (merge_asserted now ?new) ?new (close_office now p st i ?t1)
        = (close_office now p st i ?t1 @ [?new], Inr ())"
    proof (rule insert_new)
      show "\<forall>r \<in> set (close_office now p st i ?t1). open_fact r \<longrightarrow> triple_of r \<noteq> triple_of ?new"
        using none close_office_open by (auto simp: fact_to_insert_triple)
      show "fc_id ?new \<notin> fc_id ` set (close_office now p st i ?t1)"
        using new ids1 ids_of_map [OF close_office_ids, of now p st i ?t1] by (simp add: fact_to_insert_def)
    qed
    show ?thesis
      by (rule fresh [OF none])
        (unfold insert_fact_def Let_def st_def [symmetric] sup, use 2(2) ins in simp)
  qed
qed

lemma insert_fact_ids:
  assumes "facts_ok tbl" "i \<notin> fc_id ` set tbl"
  shows "fc_id ` set (fst (insert_fact env now i p d m tbl)) \<subseteq> insert i (fc_id ` set tbl)"
proof (cases rule: insert_fact_cases [where env = env and now = now and p = p and d = d and m = m, OF assms])
  case (1 r c)
  have "fc_id ` set (fst (insert_fact env now i p d m tbl)) = fc_id ` set tbl"
    unfolding 1(4) fst_conv by (rule ids_of_map) (simp only: close_office_ids replace_row_ids prior.closed_ids)
  then show ?thesis by blast
next
  case 2
  have "fc_id ` set (close_office now p (effective_source_type m p) i
      (after_close env now i p (effective_source_type m p) tbl)) = fc_id ` set tbl"
    by (rule ids_of_map) (simp only: close_office_ids prior.closed_ids)
  then show ?thesis unfolding 2(2) by (simp add: fact_to_insert_def)
qed

lemma ingestion_cases:
  fixes env now i p d src tbl
  defines "t1 \<equiv> fst (update_where (closes env (fp_subject p) (fp_predicate p) (fp_value p) i (Some ''ingestion''))
                      (close_fact now i) tbl)"
  assumes ok: "facts_ok tbl" and new: "i \<notin> fc_id ` set tbl"
  obtains (refused) "fp_valid_from p = None"
      "insert_ingestion_fact env now i p d src tbl = (tbl, Inl Null_valid_from)"
  | (no_lineage) "d = []" "insert_ingestion_fact env now i p d src tbl = (t1, Inl Not_null_violation)"
  | (refreshed) r r' c where "r \<in> set t1" "open_fact r"
      "corroborate_row now src (fp_confidence p) d (fp_valid_from p) c r = Inr r'"
      "insert_ingestion_fact env now i p d src tbl = (replace_row r' t1, Inr ())"
  | (fresh) "\<forall>r \<in> set t1. open_fact r \<longrightarrow> triple_of r \<noteq> triple_of (ingestion_row env now i p d)"
      "insert_ingestion_fact env now i p d src tbl = (t1 @ [ingestion_row env now i p d], Inr ())"
proof (cases "fp_valid_from p")
  case None
  then show ?thesis by (intro refused) (simp_all add: insert_ingestion_fact_def)
next
  case (Some vf)
  let ?cr = "Some (resolve_fact_source_credibility env (Some ''ingestion'') d)"
  let ?new = "ingestion_row env now i p d"
  have ok1: "facts_ok t1" unfolding t1_def using ok by (rule prior.closer_keeps_ok)
  have ids1: "fc_id ` set t1 = fc_id ` set tbl"
    unfolding t1_def by (rule ids_of_map) (rule prior.closed_ids)
  obtain n where sup: "supersede_prior_facts env now (fp_subject p) (fp_predicate p) (fp_value p) i
      (Some ''ingestion'') tbl = (t1, n)"
    using supersede_is_update [OF facts_okD(1) [OF ok]] unfolding t1_def by (metis prod.collapse)
  show ?thesis
  proof (cases "earliest_row (filter (standing (fp_subject p) (fp_predicate p) (fp_value p)) t1)")
    case None
    have none: "\<forall>r \<in> set t1. open_fact r \<longrightarrow> triple_of r \<noteq> triple_of ?new"
      using None facts_okD(2) [OF ok1]
      by (auto simp: earliest_row_none filter_empty_conv standing_triple ingestion_row_def triple_of_def)
    have ins: "insert_or_merge merge ?new t1 = (t1 @ [?new], Inr ())" for merge
      by (rule insert_new [OF none]) (use new ids1 in \<open>simp add: ingestion_row_def\<close>)
    show ?thesis
      by (rule fresh [OF none]) (simp add: insert_ingestion_fact_def Some sup None ins)
  next
    case (Some r)
    then have r: "r \<in> set t1" "open_fact r" by (auto dest!: earliest_row_in simp: standing_triple)
    show ?thesis
    proof (cases "corroborate_row now src (fp_confidence p) d (fp_valid_from p) ?cr r")
      case (Inl e)
      then have "d = []" "e = Not_null_violation" by (auto simp: corroborate_row_def split: if_splits)
      then show ?thesis
        using Inl by (intro no_lineage) (simp_all add: insert_ingestion_fact_def \<open>fp_valid_from p = Some vf\<close> sup Some)
    next
      case (Inr r')
      have "update_row r' t1 = (replace_row r' t1, Inr (Some (fc_id r)))"
        by (rule update_row_ok [OF ok1 r(1) corroborate_same [OF Inr] r(2)])
      then show ?thesis
        using Inr by (intro refreshed [OF r Inr])
          (simp add: insert_ingestion_fact_def \<open>fp_valid_from p = Some vf\<close> sup Some)
    qed
  qed
qed

lemma insert_fact_ok:
  assumes "facts_ok tbl" "i \<notin> fc_id ` set tbl" "live_fact (fact_to_insert env now i p d m)"
  shows "\<exists>tbl'. insert_fact env now i p d m tbl = (tbl', Inr ()) \<and> facts_ok tbl'"
proof (cases rule: insert_fact_cases [where env = env and now = now and p = p and d = d and m = m, OF assms(1,2)])
  case (1 r c)
  have "facts_ok (after_close env now i p (effective_source_type m p) tbl)"
    using assms(1) by (rule prior.closer_keeps_ok)
  from replace_row_ok [OF this 1(1) refresh_same] show ?thesis
    unfolding 1(4) by (blast intro: close_office_ok)
next
  case 2
  let ?t = "close_office now p (effective_source_type m p) i (after_close env now i p (effective_source_type m p) tbl)"
  have ok: "facts_ok ?t" by (rule close_office_ok) (rule prior.closer_keeps_ok [OF assms(1)])
  have ids: "fc_id ` set ?t = fc_id ` set tbl"
    by (rule ids_of_map) (simp only: close_office_ids prior.closed_ids)
  have "facts_ok (?t @ [fact_to_insert env now i p d m])"
  proof (rule append_ok [OF ok assms(3)])
    show "fc_id (fact_to_insert env now i p d m) \<notin> fc_id ` set ?t"
      unfolding ids using assms(2) by (simp add: fact_to_insert_def)
    show "\<forall>r \<in> set ?t. open_fact r \<longrightarrow> triple_of r \<noteq> triple_of (fact_to_insert env now i p d m)"
      using 2(1) close_office_open unfolding fact_to_insert_triple by blast
  qed
  then show ?thesis unfolding 2(2) by blast
qed

lemma ingestion_ok:
  assumes "facts_ok tbl" "i \<notin> fc_id ` set tbl"
  shows "facts_ok (fst (insert_ingestion_fact env now i p d src tbl))"
proof -
  have ok1: "facts_ok (fst (update_where (closes env (fp_subject p) (fp_predicate p) (fp_value p) i
      (Some ''ingestion'')) (close_fact now i) tbl))"
    using assms(1) by (rule prior.closer_keeps_ok)
  show ?thesis
  proof (cases rule: ingestion_cases [where env = env and now = now and p = p and d = d and src = src, OF assms])
    case (3 r r' c)
    from replace_row_ok [OF ok1 3(1) corroborate_same [OF 3(3)]] show ?thesis by (simp add: 3(4))
  next
    case 4
    have ids: "fc_id ` set (fst (update_where (closes env (fp_subject p) (fp_predicate p) (fp_value p) i
      (Some ''ingestion'')) (close_fact now i) tbl)) = fc_id ` set tbl"
      by (rule ids_of_map) (rule prior.closed_ids)
    have "facts_ok (fst (update_where (closes env (fp_subject p) (fp_predicate p) (fp_value p) i
      (Some ''ingestion'')) (close_fact now i) tbl) @ [ingestion_row env now i p d])"
      by (rule append_ok [OF ok1])
        (use assms(2) ids 4(1) in \<open>auto simp: ingestion_row_def live_fact_def LIVE_CLASSES_def\<close>)
    then show ?thesis by (simp add: 4(2))
  qed (use assms ok1 in simp_all)
qed

section \<open>Writers statement by statement\<close>

text \<open>
  The statements of a writer call commit one by one, so calls interleave between them. A
  call is its arguments and the statement it has reached: with contested coexistence on the
  close is a SELECT and an UPDATE of the fetched ids, otherwise one UPDATE; then the collapse
  (or the corroborating UPDATE of the extractor), the office-keyed close, the INSERT. An
  operator's correction closes and inserts nothing.
\<close>

datatype fact_call =
    Assert fact_env instant uuid fact_payload "uuid list" write_marks
  | Ingest fact_env instant uuid fact_payload "uuid list" "py_str option"
  | Correct fact_env instant uuid py_str py_str py_str

datatype call_stage = Begun | Fetched "uuid list" | Closed | Collapsed "uuid option" | Unseated

type_synonym statement_result = "fact_table \<times> (call_stage + (fact_error + unit))"

definition close_statement ::
  "fact_env \<Rightarrow> instant \<Rightarrow> py_str \<Rightarrow> py_str \<Rightarrow> py_str \<Rightarrow> uuid \<Rightarrow> py_str option \<Rightarrow> call_stage \<Rightarrow> fact_table
    \<Rightarrow> fact_table \<times> call_stage" where
  "close_statement env now subject predicate value new_id source_type stage tbl =
     (case stage of
        Fetched to_close \<Rightarrow>
          (if to_close = [] then tbl
           else fst (update_where (\<lambda>r. fc_id r \<in> set to_close \<and> open_fact r \<and> live_fact r)
                       (close_fact now new_id) tbl), Closed)
      | _ \<Rightarrow>
          if fact_contention_enabled env
          then (tbl, Fetched (map fc_id (filter (contested_close env value (incoming_rank source_type))
                               (filter (rival subject predicate value new_id) tbl))))
          else (fst (supersede_blind now subject predicate value new_id source_type tbl), Closed))"

fun run_statement :: "fact_call \<Rightarrow> call_stage \<Rightarrow> fact_table \<Rightarrow> statement_result" where
  "run_statement (Assert env now i p d m) Closed tbl =
     (case collapse_open_triple now (fp_subject p) (normalize_predicate (fp_predicate p)) (fp_value p) i
             (fp_confidence p) d (fp_valid_from p)
             (Some (resolve_fact_source_credibility env (Some (effective_source_type m p)) d)) tbl of
        (tbl', Inl e) \<Rightarrow> (tbl', Inr (Inl e))
      | (tbl', Inr hit) \<Rightarrow> (tbl', Inl (Collapsed hit)))"
| "run_statement (Assert env now i p d m) (Collapsed hit) tbl =
     (close_office now p (effective_source_type m p) (case hit of Some j \<Rightarrow> j | None \<Rightarrow> i) tbl,
      if hit \<noteq> None then Inr (Inr ()) else Inl Unseated)"
| "run_statement (Assert env now i p d m) Unseated tbl =
     (let new = fact_to_insert env now i p d m;
          (tbl', result) = insert_or_merge (merge_asserted now new) new tbl
      in (tbl', Inr result))"
| "run_statement (Assert env now i p d m) stage tbl =
     (let (tbl', stage') = close_statement env now (fp_subject p) (normalize_predicate (fp_predicate p))
                             (fp_value p) i (Some (effective_source_type m p)) stage tbl
      in (tbl', Inl stage'))"
| "run_statement (Ingest env now i p d src) Closed tbl =
     (case earliest_row (filter (standing (fp_subject p) (fp_predicate p) (fp_value p)) tbl) of
        None \<Rightarrow> (tbl, Inl Unseated)
      | Some r \<Rightarrow>
          (case corroborate_row now src (fp_confidence p) d (fp_valid_from p)
                  (Some (resolve_fact_source_credibility env (Some ''ingestion'') d)) r of
             Inl e \<Rightarrow> (tbl, Inr (Inl e))
           | Inr r' \<Rightarrow> (case update_row r' tbl of
                          (tbl', Inl e) \<Rightarrow> (tbl', Inr (Inl e)) | (tbl', Inr _) \<Rightarrow> (tbl', Inr (Inr ())))))"
| "run_statement (Ingest env now i p d src) Unseated tbl =
     (let new = ingestion_row env now i p d;
          credibility = Some (resolve_fact_source_credibility env (Some ''ingestion'') d);
          (tbl', result) = insert_or_merge (corroborate_row now src (fc_confidence new) d None credibility) new tbl
      in (tbl', Inr result))"
| "run_statement (Ingest env now i p d src) stage tbl =
     (if fp_valid_from p = None then (tbl, Inr (Inl Null_valid_from))
      else let (tbl', stage') = close_statement env now (fp_subject p) (fp_predicate p) (fp_value p) i
                                  (Some ''ingestion'') stage tbl
           in (tbl', Inl stage'))"
| "run_statement (Correct env now marker s p v) stage tbl =
     (let (tbl', stage') = close_statement env now s p v marker None stage tbl
      in (tbl', if stage' = Closed then Inr (Inr ()) else Inl stage'))"

text \<open>A call that nobody interrupts is the function of the code.\<close>

fun run_alone :: "nat \<Rightarrow> fact_call \<Rightarrow> call_stage \<Rightarrow> fact_table \<Rightarrow> fact_table \<times> (fact_error + unit) option" where
  "run_alone 0 c stage tbl = (tbl, None)"
| "run_alone (Suc fuel) c stage tbl =
     (case run_statement c stage tbl of
        (tbl', Inl stage') \<Rightarrow> run_alone fuel c stage' tbl' | (tbl', Inr result) \<Rightarrow> (tbl', Some result))"

definition completes :: "fact_table \<times> (fact_error + unit) \<Rightarrow> fact_table \<times> (fact_error + unit) option" where
  "completes out = (fst out, Some (snd out))"

lemma run_alone_close:
  "run_alone (Suc (Suc fuel)) (Assert env now i p d m) Begun tbl
     = (if fact_contention_enabled env then run_alone fuel else run_alone (Suc fuel)) (Assert env now i p d m) Closed
         (fst (supersede_prior_facts env now (fp_subject p) (normalize_predicate (fp_predicate p)) (fp_value p) i
                 (Some (effective_source_type m p)) tbl))"
  "fp_valid_from p = Some vf \<Longrightarrow>
   run_alone (Suc (Suc fuel)) (Ingest env now i p d src) Begun tbl
     = (if fact_contention_enabled env then run_alone fuel else run_alone (Suc fuel)) (Ingest env now i p d src) Closed
         (fst (supersede_prior_facts env now (fp_subject p) (fp_predicate p) (fp_value p) i (Some ''ingestion'') tbl))"
  by (simp_all add: close_statement_def supersede_prior_facts_def supersede_prior_facts_coexist_def Let_def)

lemma assert_tail:
  "run_alone (Suc (Suc (Suc fuel))) (Assert env now i p d m) Closed tbl1
   = completes (let (tbl2, collapsed) = collapse_open_triple now (fp_subject p) (normalize_predicate (fp_predicate p))
           (fp_value p) i (fp_confidence p) d (fp_valid_from p)
           (Some (resolve_fact_source_credibility env (Some (effective_source_type m p)) d)) tbl1
      in case collapsed of
           Inl e \<Rightarrow> (tbl2, Inl e)
         | Inr hit \<Rightarrow>
             let tbl3 = close_office now p (effective_source_type m p) (case hit of Some i \<Rightarrow> i | None \<Rightarrow> i) tbl2
             in if hit \<noteq> None then (tbl3, Inr ())
                else let new = fact_to_insert env now i p d m
                     in insert_or_merge (merge_asserted now new) new tbl3)"
  by (simp add: completes_def Let_def split: prod.split sum.split option.split)

lemma assert_alone:
  "run_alone 5 (Assert env now i p d m) Begun tbl = completes (insert_fact env now i p d m tbl)"
proof -
  have "run_alone (Suc (Suc (Suc (Suc (Suc 0))))) (Assert env now i p d m) Begun tbl
      = completes (insert_fact env now i p d m tbl)"
    unfolding run_alone_close if_distribR assert_tail insert_fact_def
    by (simp add: Let_def split_beta)
  then show ?thesis by (simp add: numeral_eq_Suc)
qed

lemma ingest_alone:
  "run_alone 4 (Ingest env now i p d src) Begun tbl = completes (insert_ingestion_fact env now i p d src tbl)"
proof (cases "fp_valid_from p = None")
  case True
  then show ?thesis by (simp add: insert_ingestion_fact_def completes_def numeral_eq_Suc)
next
  case False
  then obtain vf where vf: "fp_valid_from p = Some vf" by blast
  have tail: "run_alone (Suc (Suc fuel)) (Ingest env now i p d src) Closed tbl1
      = completes (case earliest_row (filter (standing (fp_subject p) (fp_predicate p) (fp_value p)) tbl1) of
                Some r \<Rightarrow>
                  (case corroborate_row now src (fp_confidence p) d (fp_valid_from p)
                          (Some (resolve_fact_source_credibility env (Some ''ingestion'') d)) r of
                     Inl e \<Rightarrow> (tbl1, Inl e)
                   | Inr r' \<Rightarrow> (case update_row r' tbl1 of
                                  (tbl2, Inl e) \<Rightarrow> (tbl2, Inl e) | (tbl2, Inr _) \<Rightarrow> (tbl2, Inr ())))
              | None \<Rightarrow>
                  insert_or_merge (corroborate_row now src (fc_confidence (ingestion_row env now i p d)) d None
                      (Some (resolve_fact_source_credibility env (Some ''ingestion'') d)))
                    (ingestion_row env now i p d) tbl1)" for fuel tbl1
    by (cases "earliest_row (filter (standing (fp_subject p) (fp_predicate p) (fp_value p)) tbl1)")
      (simp_all add: completes_def Let_def split: prod.split sum.split)
  have "run_alone (Suc (Suc (Suc (Suc 0)))) (Ingest env now i p d src) Begun tbl
      = completes (insert_ingestion_fact env now i p d src tbl)"
    unfolding run_alone_close(2) [OF vf] if_distribR tail insert_ingestion_fact_def
    using vf
    by (cases "supersede_prior_facts env now (fp_subject p) (fp_predicate p) (fp_value p) i (Some ''ingestion'') tbl")
      (simp add: Let_def split: option.split sum.split)
  then show ?thesis by (simp add: numeral_eq_Suc)
qed

section \<open>Reachable tables\<close>

text \<open>
  The table beside the calls in flight. A call begins with a uuid that no row and no other
  call has; any call in flight runs its next statement, or dies before it. With \<open>lone\<close> a
  producer does not begin on a triple that a call in flight is about; calls about different
  triples, and corrections, interleave statement by statement either way.
\<close>

fun call_triple :: "fact_call \<Rightarrow> (py_str \<times> py_str \<times> py_str) option" where
  "call_triple (Assert env now i p d m) = Some (triple_of (fact_to_insert env now i p d m))"
| "call_triple (Ingest env now i p d src) = Some (triple_of (ingestion_row env now i p d))"
| "call_triple (Correct env now marker s p v) = None"

fun call_id :: "fact_call \<Rightarrow> uuid" where
  "call_id (Assert env now i p d m) = i"
| "call_id (Ingest env now i p d src) = i"
| "call_id (Correct env now marker s p v) = marker"

fun call_live :: "fact_call \<Rightarrow> bool" where
  "call_live (Assert env now i p d m) = live_fact (fact_to_insert env now i p d m)"
| "call_live _ = True"

type_synonym flights = "(fact_call \<times> call_stage) list"

inductive fact_step :: "bool \<Rightarrow> fact_table \<times> flights \<Rightarrow> fact_table \<times> flights \<Rightarrow> bool" for lone where
  begin_call: "call_id c \<notin> fc_id ` set tbl \<Longrightarrow> call_id c \<notin> (call_id \<circ> fst) ` set fl \<Longrightarrow> call_live c
    \<Longrightarrow> \<not> lone \<or> call_triple c = None \<or> call_triple c \<notin> (call_triple \<circ> fst) ` set fl
    \<Longrightarrow> fact_step lone (tbl, fl) (tbl, fl @ [(c, Begun)])"
| statement: "run_statement c stage tbl = (tbl', Inl stage')
    \<Longrightarrow> fact_step lone (tbl, fl @ (c, stage) # fl') (tbl', fl @ (c, stage') # fl')"
| returned: "run_statement c stage tbl = (tbl', Inr result)
    \<Longrightarrow> fact_step lone (tbl, fl @ (c, stage) # fl') (tbl', fl @ fl')"
| died: "fact_step lone (tbl, fl @ (c, stage) # fl') (tbl, fl @ fl')"

inductive reachable_facts :: "bool \<Rightarrow> fact_table \<times> flights \<Rightarrow> bool" for lone where
  empty: "reachable_facts lone ([], [])"
| step: "reachable_facts lone s \<Longrightarrow> fact_step lone s s' \<Longrightarrow> reachable_facts lone s'"

text \<open>
  What a statement may do to the table: rows keep their ids and no open row appears on a
  triple that had none; only the INSERT adds a row, its own. A call past a collapse that
  missed knows that no open row has its triple.
\<close>

definition nothing_opened :: "fact_table \<Rightarrow> fact_table \<Rightarrow> bool" where
  "nothing_opened tbl tbl' =
     (facts_ok tbl' \<and> fc_id ` set tbl' = fc_id ` set tbl
      \<and> (\<forall>r' \<in> set tbl'. open_fact r' \<longrightarrow> (\<exists>r \<in> set tbl. open_fact r \<and> triple_of r = triple_of r')))"

definition vacant :: "fact_call \<Rightarrow> fact_table \<Rightarrow> bool" where
  "vacant c tbl = (\<forall>r \<in> set tbl. open_fact r \<longrightarrow> call_triple c \<noteq> Some (triple_of r))"

fun stage_ok :: "fact_table \<Rightarrow> fact_call \<times> call_stage \<Rightarrow> bool" where
  "stage_ok tbl (c, stage) =
     (call_live c \<and> call_id c \<notin> fc_id ` set tbl \<and> (stage \<in> {Collapsed None, Unseated} \<longrightarrow> vacant c tbl))"

interpretation fetched: fact_closer "\<lambda>r. fc_id r \<in> ids \<and> open_fact r \<and> live_fact r"
  for ids by unfold_locales auto

lemma nothing_opened_refl: "facts_ok tbl \<Longrightarrow> nothing_opened tbl tbl"
  by (auto simp: nothing_opened_def)

lemma shrunk_opens_nothing:
  assumes "facts_ok tbl'" "map fc_id tbl' = map fc_id tbl"
    and "{r \<in> set tbl'. open_fact r} \<subseteq> {r \<in> set tbl. open_fact r}"
  shows "nothing_opened tbl tbl'"
  using assms ids_of_map [OF assms(2)] unfolding nothing_opened_def by blast

lemma replaced_opens_nothing:
  assumes ok: "facts_ok tbl" and r: "r \<in> set tbl" and same: "same_belief r' r"
  shows "nothing_opened tbl (replace_row r' tbl)"
proof -
  have id: "fc_id r' = fc_id r" using same by (simp add: same_belief_def)
  show ?thesis
    unfolding nothing_opened_def ids_of_map [OF replace_row_ids]
    using replace_row_ok [OF assms] r same
    by (auto simp: replace_row_set [OF facts_okD(1) [OF ok] r id] same_belief_def)
qed

lemma close_statement_opens_nothing:
  assumes ok: "facts_ok tbl"
  shows "nothing_opened tbl (fst (close_statement env now s p v i st stage tbl))"
proof -
  have fetched: "nothing_opened tbl (fst (update_where (\<lambda>r. fc_id r \<in> ids \<and> open_fact r \<and> live_fact r)
      (close_fact now i) tbl))" for ids
    using ok fetched.open_after [of ids now i tbl]
    by (intro shrunk_opens_nothing fetched.closer_keeps_ok fetched.closed_ids) auto
  have blind: "nothing_opened tbl (fst (supersede_blind now s p v i st tbl))"
    if off: "\<not> fact_contention_enabled env"
  proof -
    have "supersede_blind now s p v i st tbl = update_where (closes env s p v i st) (close_fact now i) tbl"
      using off by (simp add: supersede_blind_def closes_def [abs_def])
    then show ?thesis
      using ok prior.open_after [of env s p v i st now i tbl]
      by (auto intro!: shrunk_opens_nothing prior.closer_keeps_ok prior.closed_ids)
  qed
  show ?thesis
    using fetched blind nothing_opened_refl [OF ok]
    by (auto simp: close_statement_def split: call_stage.split)
qed

lemma close_statement_stage:
  "snd (close_statement env now s p v i st stage tbl) \<notin> {Collapsed None, Unseated}"
  by (auto simp: close_statement_def split: call_stage.split)

lemma office_opens_nothing: "facts_ok tbl \<Longrightarrow> nothing_opened tbl (close_office now p st i tbl)"
  using close_office_open by (intro shrunk_opens_nothing close_office_ok) auto

lemma vacant_kept: "nothing_opened tbl tbl' \<Longrightarrow> vacant c tbl \<Longrightarrow> vacant c tbl'"
  unfolding nothing_opened_def vacant_def by metis

lemma stage_ok_kept: "nothing_opened tbl tbl' \<Longrightarrow> stage_ok tbl f \<Longrightarrow> stage_ok tbl' f"
  by (cases f) (auto simp: vacant_kept nothing_opened_def)

definition own_row :: "fact_call \<Rightarrow> fact_row \<Rightarrow> bool" where
  "own_row c new = (live_fact new \<and> fc_id new = call_id c \<and> call_triple c = Some (triple_of new))"

lemma own_insert:
  assumes "vacant c tbl" "call_id c \<notin> fc_id ` set tbl" "own_row c new"
  shows "insert_or_merge merge new tbl = (tbl @ [new], Inr ())"
  using assms by (intro insert_new) (auto simp: vacant_def own_row_def)

lemma own_row_call:
  "call_live (Assert env now i p d m) \<Longrightarrow> own_row (Assert env now i p d m) (fact_to_insert env now i p d m)"
  "own_row (Ingest env now i p d src) (ingestion_row env now i p d)"
  by (simp_all add: own_row_def) (simp_all add: fact_to_insert_def ingestion_row_def live_fact_def LIVE_CLASSES_def)

lemma vacant_standing:
  assumes "facts_ok tbl" "call_triple c = Some (py_lower s, py_lower p, py_lower v)"
    and "\<forall>r \<in> set tbl. \<not> standing s p v r"
  shows "vacant c tbl"
  using assms facts_okD(2) [OF assms(1)] by (fastforce simp: vacant_def standing_triple)

text \<open>One statement: nothing opens and the call knows what it relies on next, or its row goes in.\<close>

definition sound_statement :: "fact_call \<Rightarrow> fact_table \<Rightarrow> statement_result \<Rightarrow> bool" where
  "sound_statement c tbl result =
     ((nothing_opened tbl (fst result) \<and> (\<forall>stage'. snd result = Inl stage' \<longrightarrow> stage_ok (fst result) (c, stage')))
      \<or> (\<exists>new. result = (tbl @ [new], Inr (Inr ())) \<and> own_row c new \<and> vacant c tbl \<and> call_id c \<notin> fc_id ` set tbl))"

lemma sound_ended: "nothing_opened tbl tbl' \<Longrightarrow> sound_statement c tbl (tbl', Inr x)"
  by (simp add: sound_statement_def)

lemma sound_next:
  assumes "stage_ok tbl (c, stage)" "nothing_opened tbl tbl'" "stage' \<in> {Collapsed None, Unseated} \<longrightarrow> vacant c tbl'"
  shows "sound_statement c tbl (tbl', Inl stage')"
  using assms by (auto simp: sound_statement_def nothing_opened_def)

lemma sound_close:
  assumes "facts_ok tbl" "stage_ok tbl (c, stage)"
  shows "sound_statement c tbl (case close_statement env now s p v i st stage tbl of (tbl', stage') \<Rightarrow> (tbl', Inl stage'))"
    and "sound_statement c tbl (case close_statement env now s p v i st stage tbl of (tbl', stage') \<Rightarrow>
           (tbl', if stage' = Closed then Inr (Inr ()) else Inl stage'))"
  using sound_next [OF assms(2)] sound_ended close_statement_stage [of env now s p v i st stage tbl]
    close_statement_opens_nothing [OF assms(1), of env now s p v i st stage]
  by (auto split: prod.split)

lemma sound_insert:
  assumes c: "stage_ok tbl (c, Unseated)" and new: "own_row c new"
  shows "sound_statement c tbl (case insert_or_merge merge new tbl of (tbl', result) \<Rightarrow> (tbl', Inr result))"
proof -
  have "vacant c tbl" "call_id c \<notin> fc_id ` set tbl" using c by auto
  with new show ?thesis by (simp add: own_insert [OF _ _ new] sound_statement_def)
qed

lemma sound_assert:
  fixes env now i p d m
  defines "c \<equiv> Assert env now i p d m"
  assumes ok: "facts_ok tbl" and st: "stage_ok tbl (c, stage)"
  shows "sound_statement c tbl (run_statement c stage tbl)"
proof (cases stage)
  case Closed
  let ?cr = "Some (resolve_fact_source_credibility env (Some (effective_source_type m p)) d)"
  have triple: "call_triple c = Some (own_triple p)" by (simp add: c_def fact_to_insert_triple)
  show ?thesis
  proof (cases rule: collapse_cases [OF ok, of "fp_subject p" "normalize_predicate (fp_predicate p)" "fp_value p"
        i now "fp_confidence p" d "fp_valid_from p" ?cr])
    case (1 r)
    have "run_statement c stage tbl
        = (replace_row (refresh_standing now (fp_confidence p) d (fp_valid_from p) ?cr r) tbl,
           Inl (Collapsed (Some (fc_id r))))"
      by (simp add: c_def Closed 1(4))
    then show ?thesis using sound_next [OF st replaced_opens_nothing [OF ok 1(1) refresh_same]] by simp
  next
    case 2
    have "vacant c tbl" by (rule vacant_standing [OF ok triple]) (use 2(1) st in \<open>auto simp: c_def\<close>)
    moreover have "run_statement c stage tbl = (tbl, Inl (Collapsed None))" by (simp add: c_def Closed 2(2))
    ultimately show ?thesis using sound_next [OF st nothing_opened_refl [OF ok]] by simp
  qed
next
  case (Collapsed hit)
  then show ?thesis
    using office_opens_nothing [OF ok] st vacant_kept sound_next [OF st] sound_ended by (auto simp: c_def)
next
  case Unseated
  then show ?thesis
    using sound_insert [of tbl c] own_row_call(1) st unfolding c_def by (simp add: Let_def)
qed (use sound_close(1) [OF ok st] in \<open>simp_all add: c_def\<close>)

lemma sound_ingest:
  fixes env now i p d src
  defines "c \<equiv> Ingest env now i p d src"
  assumes ok: "facts_ok tbl" and st: "stage_ok tbl (c, stage)"
  shows "sound_statement c tbl (run_statement c stage tbl)"
proof (cases stage)
  case Closed
  let ?cr = "Some (resolve_fact_source_credibility env (Some ''ingestion'') d)"
  have triple: "call_triple c = Some (py_lower (fp_subject p), py_lower (fp_predicate p), py_lower (fp_value p))"
    by (simp add: c_def triple_of_def ingestion_row_def)
  show ?thesis
  proof (cases "earliest_row (filter (standing (fp_subject p) (fp_predicate p) (fp_value p)) tbl)")
    case None
    then have "vacant c tbl"
      by (intro vacant_standing [OF ok triple]) (auto simp: earliest_row_none filter_empty_conv)
    with None show ?thesis using sound_next [OF st nothing_opened_refl [OF ok]] by (simp add: c_def Closed)
  next
    case (Some r)
    then have r: "r \<in> set tbl" "open_fact r" by (auto dest!: earliest_row_in simp: standing_triple)
    show ?thesis
    proof (cases "corroborate_row now src (fp_confidence p) d (fp_valid_from p) ?cr r")
      case (Inl e)
      with Some show ?thesis by (simp add: c_def Closed sound_ended nothing_opened_refl [OF ok])
    next
      case (Inr r')
      note same = corroborate_same [OF Inr]
      show ?thesis
        by (simp add: c_def Closed Some Inr update_row_ok [OF ok r(1) same r(2)] sound_ended
            replaced_opens_nothing [OF ok r(1) same])
    qed
  qed
next
  case Unseated
  then show ?thesis using sound_insert [of tbl c] own_row_call(2) st unfolding c_def by (simp add: Let_def)
qed (use sound_close(1) [OF ok st] sound_ended nothing_opened_refl [OF ok] in \<open>simp_all add: c_def\<close>)

lemma sound_run:
  "facts_ok tbl \<Longrightarrow> stage_ok tbl (c, stage) \<Longrightarrow> sound_statement c tbl (run_statement c stage tbl)"
  by (cases c) (simp_all add: sound_assert sound_ingest sound_close(2) del: stage_ok.simps)

subsection \<open>The invariant of lone calls\<close>

fun apart :: "fact_call \<times> call_stage \<Rightarrow> fact_call \<times> call_stage \<Rightarrow> bool" where
  "apart (c, _) (c', _) = (call_id c \<noteq> call_id c' \<and> (call_triple c = None \<or> call_triple c \<noteq> call_triple c'))"

fun flights_ok :: "fact_table \<times> flights \<Rightarrow> bool" where
  "flights_ok (tbl, fl) = (facts_ok tbl \<and> sorted_wrt apart fl \<and> (\<forall>f \<in> set fl. stage_ok tbl f))"

lemma apart_sym: "apart f g \<Longrightarrow> apart g f"
  by (cases f; cases g) auto

lemma apart_stage: "apart (c, stage) f = apart (c, stage') f" "apart f (c, stage) = apart f (c, stage')"
  by (cases f; simp)+

lemma own_row_ok:
  assumes "facts_ok tbl" "own_row c new" "vacant c tbl" "call_id c \<notin> fc_id ` set tbl"
  shows "facts_ok (tbl @ [new])"
  using assms by (intro append_ok) (auto simp: own_row_def vacant_def)

lemma stage_ok_insert:
  "stage_ok tbl f \<Longrightarrow> apart (c, stage) f \<Longrightarrow> own_row c new \<Longrightarrow> stage_ok (tbl @ [new]) f"
  by (cases f) (auto simp: own_row_def vacant_def)

lemma sound_flights:
  assumes ok: "flights_ok (tbl, fl @ (c, stage) # fl')" and run: "run_statement c stage tbl = (tbl', out)"
  shows "facts_ok tbl'" and "\<forall>f \<in> set (fl @ fl'). stage_ok tbl' f"
    and "out = Inl stage' \<Longrightarrow> stage_ok tbl' (c, stage')"
proof -
  have c: "facts_ok tbl" "stage_ok tbl (c, stage)" using ok by (simp_all del: stage_ok.simps)
  have others: "stage_ok tbl f \<and> apart (c, stage) f" if "f \<in> set (fl @ fl')" for f
    using ok that by (auto simp: sorted_wrt_append simp del: stage_ok.simps apart.simps intro: apart_sym)
  from sound_run [OF c] have "facts_ok tbl' \<and> (\<forall>f \<in> set (fl @ fl'). stage_ok tbl' f)
      \<and> (out = Inl stage' \<longrightarrow> stage_ok tbl' (c, stage'))"
    unfolding run sound_statement_def fst_conv snd_conv
  proof (elim disjE exE conjE)
    assume n: "nothing_opened tbl tbl'" and next_ok: "\<forall>stage'. out = Inl stage' \<longrightarrow> stage_ok tbl' (c, stage')"
    have "facts_ok tbl'" using n by (simp add: nothing_opened_def)
    moreover have "\<forall>f \<in> set (fl @ fl'). stage_ok tbl' f" using others stage_ok_kept [OF n] by blast
    ultimately show ?thesis using next_ok by blast
  next
    fix new
    assume new: "(tbl', out) = (tbl @ [new], Inr (Inr ()))" "own_row c new" "vacant c tbl" "call_id c \<notin> fc_id ` set tbl"
    have "\<forall>f \<in> set (fl @ fl'). stage_ok (tbl @ [new]) f"
      using others stage_ok_insert [OF _ _ new(2)] by blast
    with own_row_ok [OF c(1) new(2-4)] new(1) show ?thesis by simp
  qed
  then show "facts_ok tbl'" "\<forall>f \<in> set (fl @ fl'). stage_ok tbl' f" "out = Inl stage' \<Longrightarrow> stage_ok tbl' (c, stage')"
    by blast+
qed

lemma fact_step_ok:
  assumes "fact_step True s s'" "flights_ok s"
  shows "flights_ok s'"
  using assms
proof (cases rule: fact_step.cases)
  case (begin_call c tbl fl)
  then have "apart f (c, Begun)" if "f \<in> set fl" for f using that by (cases f) force
  with begin_call assms(2) show ?thesis by (auto simp: sorted_wrt_append simp del: apart.simps)
next
  case (statement c stage tbl tbl' stage' fl fl')
  note sound = sound_flights [OF assms(2) [unfolded statement(1)] statement(3)]
  have "sorted_wrt apart (fl @ (c, stage') # fl')"
    using assms(2) unfolding statement(1)
    by (auto simp: sorted_wrt_append apart_stage [where stage = stage' and stage' = stage] simp del: apart.simps)
  with sound show ?thesis unfolding statement(2) by (auto simp del: stage_ok.simps apart.simps)
next
  case (returned c stage tbl tbl' result fl fl')
  note sound = sound_flights [OF assms(2) [unfolded returned(1)] returned(3)]
  have "sorted_wrt apart (fl @ fl')"
    using assms(2) unfolding returned(1) by (auto simp: sorted_wrt_append simp del: apart.simps)
  with sound(1,2) show ?thesis unfolding returned(2) by (auto simp del: stage_ok.simps apart.simps)
next
  case (died tbl fl c stage fl')
  with assms(2) show ?thesis by (auto simp: sorted_wrt_append simp del: apart.simps stage_ok.simps)
qed


text \<open>
  The condition is needed: nothing in the code keeps two calls about one triple apart. When
  both have missed the collapse before either inserts, and their \<^verbatim>\<open>valid_from\<close> differ, the
  index does not stop the second INSERT.
\<close>

lemma reachable_run:
  assumes "reachable_facts lone (tbl, fl @ (c, stage) # fl')" "run_statement c stage tbl = (tbl', out)"
  shows "reachable_facts lone (tbl', fl @ (case out of Inl stage' \<Rightarrow> [(c, stage')] | Inr _ \<Rightarrow> []) @ fl')"
  using reachable_facts.step [OF assms(1)] fact_step.statement [of c stage tbl tbl'] 
    fact_step.returned [of c stage tbl tbl'] assms(2) by (cases out) auto

lemma runs_on_empty:
  assumes off: "\<not> fact_contention_enabled env"
  shows "run_statement (Assert env now i p d m) Begun [] = ([], Inl Closed)"
    and "run_statement (Assert env now i p d m) Closed [] = ([], Inl (Collapsed None))"
    and "run_statement (Assert env now i p d m) (Collapsed None) [] = ([], Inl Unseated)"
  using off by (simp_all add: close_statement_def supersede_blind_def update_where_def collapse_open_triple_def
      close_office_def supersede_prior_functional_role_facts_def)

lemma calls_overlap:
  assumes "call_id c \<noteq> call_id c'" "call_live c" "call_live c'"
    and lone: "\<not> lone \<or> call_triple c' \<noteq> call_triple c"
    and quiet: "\<forall>x \<in> {c, c'}. run_statement x Begun [] = ([], Inl Closed)
      \<and> run_statement x Closed [] = ([], Inl (Collapsed None))
      \<and> run_statement x (Collapsed None) [] = ([], Inl Unseated)"
    and "run_statement c Unseated [] = (tbl, Inr res)" "run_statement c' Unseated tbl = (tbl', Inr res')"
  shows "reachable_facts lone (tbl', [])"
proof -
  note fst_runs = reachable_run [where fl = "[]" and fl' = "[(c', Begun)]" and c = c and lone = lone, simplified]
  note snd_runs = reachable_run [where fl = "[(c, Unseated)]" and fl' = "[]" and c = c' and lone = lone, simplified]
  have "reachable_facts lone ([], [(c, Begun)])"
    using reachable_facts.step [OF reachable_facts.empty fact_step.begin_call [of c "[]" "[]"]] assms(2) by simp
  from reachable_facts.step [OF this fact_step.begin_call [of c' "[]" "[(c, Begun)]"]]
  have "reachable_facts lone ([], [(c, Begun), (c', Begun)])" using assms(1,3) lone by auto
  from fst_runs [OF this] have "reachable_facts lone ([], [(c, Closed), (c', Begun)])" using quiet by force
  from fst_runs [OF this] have "reachable_facts lone ([], [(c, Collapsed None), (c', Begun)])" using quiet by force
  from fst_runs [OF this] have "reachable_facts lone ([], [(c, Unseated), (c', Begun)])" using quiet by force
  from snd_runs [OF this] have "reachable_facts lone ([], [(c, Unseated), (c', Closed)])" using quiet by force
  from snd_runs [OF this] have "reachable_facts lone ([], [(c, Unseated), (c', Collapsed None)])" using quiet by force
  from snd_runs [OF this] have "reachable_facts lone ([], [(c, Unseated), (c', Unseated)])" using quiet by force
  from reachable_run [where fl = "[]", simplified, OF this assms(6)]
  have "reachable_facts lone (tbl, [(c', Unseated)])" by simp
  from reachable_run [where fl = "[]" and fl' = "[]", simplified, OF this assms(7)]
  show ?thesis by simp
qed

lemma overlapping_calls_duplicate:
  assumes off: "\<not> fact_contention_enabled env" and ij: "i \<noteq> j"
    and live: "live_fact (fact_to_insert env now i p d m)" and expiry: "fp_valid_until p = None"
    and dates: "fp_valid_from p = Some u" "u \<noteq> t"
  defines "q \<equiv> p\<lparr>fp_valid_from := Some t\<rparr>"
  shows "\<exists>tbl. reachable_facts False (tbl, []) \<and> length (filter open_fact tbl) = 2
           \<and> (\<forall>r \<in> set tbl. triple_of r = own_triple p)"
proof -
  let ?c = "Assert env now i p d m" and ?c' = "Assert env now j q d m"
  let ?r = "fact_to_insert env now i p d m" and ?r' = "fact_to_insert env now j q d m"
  have same: "triple_of ?r' = own_triple p" "triple_of ?r = own_triple p"
    by (simp_all add: fact_to_insert_triple q_def)
  have open_rows: "open_fact ?r" "open_fact ?r'" using expiry by (simp_all add: open_fact_def fact_to_insert_def q_def)
  have live': "live_fact ?r'" using live by (simp add: live_fact_def fact_to_insert_def)
  have quads: "quad_of ?r \<noteq> quad_of ?r'" using dates by (simp add: quad_of_def fact_to_insert_def q_def)
  have ins: "run_statement ?c Unseated [] = ([?r], Inr (Inr ()))"
    by (simp add: insert_or_merge_def open_twin_def Let_def)
  have ins': "run_statement ?c' Unseated [?r] = ([?r, ?r'], Inr (Inr ()))"
    using quads ij by (simp add: insert_or_merge_def open_twin_def Let_def) (simp add: fact_to_insert_def)
  have "reachable_facts False ([?r, ?r'], [])"
    by (rule calls_overlap [where c = ?c and c' = ?c', OF _ live [folded call_live.simps] live' [folded call_live.simps] _ _ ins ins'])
      (use ij runs_on_empty [OF off] in auto)
  then show ?thesis using same open_rows by (intro exI [of _ "[?r, ?r']"]) simp
qed

section \<open>What the table believes\<close>

text \<open>
  The abstract state: for each open row its triple, its authority and its office. A write
  outvotes, unseats and asserts on sets; ids, dates and row order play no part.
\<close>

type_synonym triple = "py_str \<times> py_str \<times> py_str"
type_synonym belief = "triple \<times> nat \<times> py_str"

definition office_of :: "py_str option \<Rightarrow> py_str" where
  "office_of role = py_lower (case role of None \<Rightarrow> [] | Some x \<Rightarrow> x)"

definition belief_of :: "fact_row \<Rightarrow> belief" where
  "belief_of r = (triple_of r, sql_tier_rank (fc_source_type r), office_of (fc_role r))"

definition beliefs :: "fact_table \<Rightarrow> belief set" where
  "beliefs tbl = belief_of ` {r \<in> set tbl. open_fact r}"

fun outvoted :: "triple \<Rightarrow> nat \<Rightarrow> belief \<Rightarrow> bool" where
  "outvoted (s, p, v) k ((s', p', v'), t, ro) = (s' = s \<and> p' = p \<and> v' \<noteq> v \<and> t \<le> k)"

fun unseated :: "py_str \<Rightarrow> triple \<Rightarrow> py_str option \<Rightarrow> nat \<Rightarrow> belief \<Rightarrow> bool" where
  "unseated pr (s, p, v) role k ((s', p', v'), t, ro) =
     (t \<le> k \<and> (case map_of FUNCTIONAL_ROLE_COUNTRY_SIDE pr of
                 None \<Rightarrow> False
               | Some Side_value \<Rightarrow> truthy role \<and> p' = pr \<and> v' = v \<and> s' \<noteq> s \<and> ro = office_of role
               | Some Side_subject \<Rightarrow> p' = pr \<and> s' = s \<and> v' \<noteq> v))"

definition believe :: "fact_payload \<Rightarrow> py_str \<Rightarrow> belief set \<Rightarrow> belief set" where
  "believe p st B =
     (let k = source_tier_rank (Some st);
          B1 = {b \<in> B. \<not> outvoted (own_triple p) k b};
          B2 = (if py_lower st \<in> {''seed'', ''curated''}
                then {b \<in> B1. \<not> unseated (normalize_predicate (fp_predicate p)) (own_triple p) (fp_role p) k b}
                else B1)
      in if own_triple p \<in> fst ` B1 \<or> fp_valid_until p \<noteq> None then B2
         else insert (own_triple p, sql_tier_rank st, office_of (fp_role p)) B2)"

lemma beliefs_update:
  assumes "\<And>r. r \<in> set tbl \<Longrightarrow> open_fact r \<Longrightarrow> P r = Q (belief_of r)"
  shows "beliefs (fst (update_where P (close_fact now i) tbl)) = {b \<in> beliefs tbl. \<not> Q b}"
  using assms by (auto simp: beliefs_def set_update_where image_iff split: if_splits)

lemma beliefs_close:
  assumes ok: "facts_ok tbl" and new: "i \<notin> fc_id ` set tbl" and off: "\<not> fact_contention_enabled env"
  shows "beliefs (after_close env now i p st tbl)
    = {b \<in> beliefs tbl. \<not> outvoted (own_triple p) (source_tier_rank (Some st)) b}"
proof (rule beliefs_update)
  fix r
  assume "r \<in> set tbl" "open_fact r"
  moreover from this have "fc_id r \<noteq> i" "live_fact r" using new facts_okD(2) [OF ok] by auto
  ultimately show "closes env (fp_subject p) (normalize_predicate (fp_predicate p)) (fp_value p) i (Some st) r
      = outvoted (own_triple p) (source_tier_rank (Some st)) (belief_of r)"
    using off by (auto simp: closes_def rival_def within_tier_def incoming_rank_def belief_of_def
        triple_of_def same_text_def)
qed

lemma office_rival_own:
  "triple_of r = (py_lower s, py_lower p, py_lower v) \<Longrightarrow> \<not> office_rival s p v role i r"
  by (auto simp: office_rival_def triple_of_def same_text_def split: option.splits country_side.splits)

lemma beliefs_office:
  assumes ok: "facts_ok tbl"
    and survivor: "\<And>r. r \<in> set tbl \<Longrightarrow> open_fact r \<Longrightarrow> fc_id r = i \<Longrightarrow> triple_of r = own_triple p"
  shows "beliefs (close_office now p st i tbl)
    = (if py_lower st \<in> {''seed'', ''curated''}
       then {b \<in> beliefs tbl. \<not> unseated (normalize_predicate (fp_predicate p)) (own_triple p) (fp_role p)
                               (source_tier_rank (Some st)) b}
       else beliefs tbl)"
proof -
  let ?pr = "normalize_predicate (fp_predicate p)"
  have rows: "(office_rival (fp_subject p) ?pr (fp_value p) (fp_role p) i r \<and> within_tier (incoming_rank (Some st)) r)
      = unseated ?pr (own_triple p) (fp_role p) (source_tier_rank (Some st)) (belief_of r)"
    if "r \<in> set tbl" "open_fact r" for r
  proof (cases "fc_id r = i")
    case True
    from survivor [OF that True] have "triple_of r = own_triple p" .
    then show ?thesis
      using office_rival_own [of r "fp_subject p" ?pr "fp_value p"]
      by (auto simp: belief_of_def split: option.splits country_side.splits)
  next
    case False
    then show ?thesis
      using that facts_okD(2) [OF ok that(1)]
      by (auto simp: office_rival_def within_tier_def incoming_rank_def belief_of_def triple_of_def
          same_text_def office_of_def truthy_iff split: option.splits country_side.splits)
  qed
  show ?thesis
    unfolding close_office_def supersede_prior_functional_role_facts_def
    using beliefs_update [where tbl = tbl and now = now and i = i
        and P = "\<lambda>r. office_rival (fp_subject p) ?pr (fp_value p) (fp_role p) i r
                      \<and> within_tier (incoming_rank (Some st)) r"
        and Q = "unseated ?pr (own_triple p) (fp_role p) (source_tier_rank (Some st))", OF rows]
    by simp
qed

lemma beliefs_replace:
  assumes ok: "facts_ok tbl" and r: "r \<in> set tbl" and same: "same_belief r' r"
  shows "beliefs (replace_row r' tbl) = beliefs tbl"
proof -
  have id: "fc_id r' = fc_id r" and b: "belief_of r' = belief_of r" and o: "open_fact r' = open_fact r"
    using same by (simp_all add: same_belief_def belief_of_def)
  have "{x \<in> set (replace_row r' tbl). open_fact x}
      = (if open_fact r then insert r' ({x \<in> set tbl. open_fact x} - {r}) else {x \<in> set tbl. open_fact x})"
    unfolding replace_row_set [OF facts_okD(1) [OF ok] r id] using o by auto
  then show ?thesis using b r unfolding beliefs_def by (auto simp: image_iff)
qed

lemma belief_fact_to_insert:
  "belief_of (fact_to_insert env now i p d m)
   = (own_triple p, sql_tier_rank (effective_source_type m p), office_of (fp_role p))"
  by (simp add: belief_of_def fact_to_insert_triple) (simp add: fact_to_insert_def)

lemma open_fact_to_insert: "open_fact (fact_to_insert env now i p d m) \<longleftrightarrow> fp_valid_until p = None"
  by (simp add: open_fact_def fact_to_insert_def)

lemma beliefs_append:
  "beliefs (tbl @ [r]) = (if open_fact r then insert (belief_of r) (beliefs tbl) else beliefs tbl)"
  by (auto simp: beliefs_def)

lemma triple_in_beliefs: "t \<in> fst ` beliefs tbl \<longleftrightarrow> (\<exists>r \<in> set tbl. open_fact r \<and> triple_of r = t)"
  by (auto simp: beliefs_def belief_of_def image_iff)

text \<open>C4: with contested coexistence off, \<^verbatim>\<open>_insert_fact\<close> implements the abstract update: the
  values of the same subject and predicate that the new source outranks or equals are
  outvoted, an operator's office-holder unseats the previous one, and the triple is added
  unless it is believed already or the assertion carries an expiry of its own. Statement
  order, the collapse and the index never change that outcome.
\<close>

theorem insert_fact_refines_believe:
  assumes ok: "facts_ok tbl" and new: "i \<notin> fc_id ` set tbl"
    and live: "live_fact (fact_to_insert env now i p d m)"
    and off: "\<not> fact_contention_enabled env"
  shows "snd (insert_fact env now i p d m tbl) = Inr ()
    \<and> beliefs (fst (insert_fact env now i p d m tbl))
      = believe p (effective_source_type m p) (beliefs tbl)"
proof -
  let ?st = "effective_source_type m p"
  let ?t1 = "after_close env now i p ?st tbl"
  let ?B1 = "{b \<in> beliefs tbl. \<not> outvoted (own_triple p) (source_tier_rank (Some ?st)) b}"
  have ok1: "facts_ok ?t1" using ok by (rule prior.closer_keeps_ok)
  have B1: "beliefs ?t1 = ?B1" by (rule beliefs_close [OF ok new off])
  have ids1: "fc_id ` set ?t1 = fc_id ` set tbl" by (rule ids_of_map) (rule prior.closed_ids)
  show ?thesis
  proof (cases rule: insert_fact_cases [where env = env and now = now and p = p and d = d and m = m, OF ok new])
    case (1 r c)
    let ?r' = "refresh_standing now (fp_confidence p) d (fp_valid_from p) c r"
    let ?t2 = "replace_row ?r' ?t1"
    have ok2: "facts_ok ?t2" by (rule replace_row_ok [OF ok1 1(1) refresh_same])
    have B2: "beliefs ?t2 = ?B1" using beliefs_replace [OF ok1 1(1) refresh_same] B1 by simp
    have own: "triple_of x = own_triple p" if "x \<in> set ?t2" "open_fact x" "fc_id x = fc_id r" for x
    proof -
      have same: "same_belief ?r' r" by (rule refresh_same)
      then have "?r' \<in> set ?t2" and id: "fc_id ?r' = fc_id r"
        using replace_row_set [OF facts_okD(1) [OF ok1] 1(1)] by (auto simp: same_belief_def)
      with same_id [OF facts_okD(1) [OF ok2] that(1)] that(3) have "x = ?r'" by simp
      then show ?thesis using same 1(3) by (simp add: same_belief_def)
    qed
    have "own_triple p \<in> fst ` beliefs ?t1"
      unfolding triple_in_beliefs using 1(1,2,3) by blast
    then show ?thesis
      unfolding 1(4) using beliefs_office [where st = ?st and now = now, OF ok2 own] B2 B1
      by (simp add: believe_def Let_def)
  next
    case 2
    have own: "triple_of x = own_triple p" if "x \<in> set ?t1" "open_fact x" "fc_id x = i" for x
      using that new ids1 by (metis imageI)
    have "own_triple p \<notin> fst ` beliefs ?t1"
      unfolding triple_in_beliefs using 2(1) by blast
    then show ?thesis
      unfolding 2(2) using beliefs_office [where st = ?st and now = now, OF ok1 own] B1
      by (simp add: believe_def Let_def beliefs_append belief_fact_to_insert open_fact_to_insert)
  qed
qed

section \<open>Authority\<close>

lemma sql_le_rank: "sql_tier_rank s \<le> source_tier_rank (Some s)"
proof -
  have strip: "py_strip s = s" if "py_lower s \<in> {''seed'', ''curated''}"
  proof -
    have plain: "\<not> py_space c" if "c \<in> set s" for c
    proof -
      have "lower_char c \<in> set (py_lower s)" using that by (simp add: py_lower_def)
      with \<open>py_lower s \<in> _\<close> have "\<not> py_space (lower_char c)" by (auto simp: py_space_def)
      moreover have "py_space (lower_char c)" if "py_space c"
        using that by (auto simp: py_space_def lower_char_def Let_def)
      ultimately show ?thesis by blast
    qed
    then have "dropWhile py_space s = s" "dropWhile py_space (rev s) = rev s"
      by (metis dropWhile_eq_self_iff hd_in_set, metis dropWhile_eq_self_iff hd_in_set set_rev)
    then show ?thesis by (simp add: py_strip_def)
  qed
  show ?thesis
  proof (cases "py_lower s \<in> {''seed'', ''curated''}")
    case True
    then have "s \<noteq> []" by (auto simp: py_lower_def)
    with True strip [OF True] show ?thesis
      by (auto simp: sql_tier_rank_def source_tier_rank_def SOURCE_TIER_RANK_def)
  next
    case False
    then have "sql_tier_rank s = 1" by (auto simp: sql_tier_rank_def Let_def)
    moreover have "1 \<le> source_tier_rank (Some s)"
      by (auto simp: source_tier_rank_def SOURCE_TIER_RANK_def DEFAULT_SOURCE_TIER_RANK_def
          split: option.splits if_splits dest!: map_of_SomeD)
    ultimately show ?thesis by simp
  qed
qed

lemma outranked_not_closed:
  "source_tier_rank (Some st) < sql_tier_rank (fc_source_type r) \<Longrightarrow> \<not> closes env s p v i (Some st) r"
  using sql_le_rank [of "fc_source_type r"]
  by (auto simp: closes_def within_tier_def incoming_rank_def contested_close_def Let_def)

lemma close_office_keeps:
  "r \<in> set tbl \<Longrightarrow> source_tier_rank (Some st) < sql_tier_rank (fc_source_type r)
    \<Longrightarrow> r \<in> set (close_office now p st i tbl)"
  by (force simp: close_office_def supersede_prior_functional_role_facts_def set_update_where
      within_tier_def incoming_rank_def)

text \<open>C17: an open row of higher authority survives every write of a lower one, contested
  coexistence on or off: it is still there, open, with its triple and its source.
\<close>

theorem authority_is_never_downgraded:
  assumes ok: "facts_ok tbl" and new: "i \<notin> fc_id ` set tbl"
    and r: "r \<in> set tbl" "open_fact r"
    and higher: "source_tier_rank (Some (effective_source_type m p)) < sql_tier_rank (fc_source_type r)"
  shows "\<exists>r' \<in> set (fst (insert_fact env now i p d m tbl)).
    fc_id r' = fc_id r \<and> open_fact r' \<and> triple_of r' = triple_of r \<and> fc_source_type r' = fc_source_type r"
proof -
  let ?st = "effective_source_type m p"
  let ?t1 = "after_close env now i p ?st tbl"
  have ok1: "facts_ok ?t1" using ok by (rule prior.closer_keeps_ok)
  have r1: "r \<in> set ?t1"
    using r(1) outranked_not_closed [OF higher] by (force simp: set_update_where)
  show ?thesis
  proof (cases rule: insert_fact_cases [where env = env and now = now and p = p and d = d and m = m, OF ok new])
    case (1 q c)
    let ?q = "refresh_standing now (fp_confidence p) d (fp_valid_from p) c q"
    have same: "same_belief ?q q" by (rule refresh_same)
    have rows: "set (replace_row ?q ?t1) = insert ?q (set ?t1 - {q})"
      using replace_row_set [OF facts_okD(1) [OF ok1] 1(1)] same by (simp add: same_belief_def)
    let ?r = "if r = q then ?q else r"
    have "?r \<in> set (replace_row ?q ?t1)" using r1 unfolding rows by auto
    moreover have "source_tier_rank (Some ?st) < sql_tier_rank (fc_source_type ?r)"
      using higher same by (auto simp: same_belief_def)
    ultimately have "?r \<in> set (fst (insert_fact env now i p d m tbl))"
      unfolding 1(4) by (simp add: close_office_keeps)
    then show ?thesis using same r(2) by (intro bexI [of _ ?r]) (auto simp: same_belief_def)
  next
    case 2
    then show ?thesis using r1 r(2) close_office_keeps [OF r1 higher] by auto
  qed
qed

text \<open>C31: turning contested coexistence on spares exactly the open rows of the writer's own
  tier whose value makes another claim; every other prior is closed or kept as with it off.
\<close>

theorem coexistence_spares_contested_rows:
  assumes ids: "distinct (map fc_id tbl)" and trimmed: "\<forall>r \<in> set tbl. py_strip (fc_source_type r) = fc_source_type r"
    and on: "fact_contention_enabled env" and off: "\<not> fact_contention_enabled env'"
  shows "{r \<in> set (fst (supersede_prior_facts env now s p v i (Some st) tbl)). open_fact r}
    = {r \<in> set (fst (supersede_prior_facts env' now s p v i (Some st) tbl)). open_fact r}
      \<union> {r \<in> set tbl. rival s p v i r \<and> sql_tier_rank (fc_source_type r) = source_tier_rank (Some st)
           \<and> \<not> same_claim (canonical_value_key (fe_canon env) (fc_value r)) (canonical_value_key (fe_canon env) v)}"
proof -
  have rank: "source_tier_rank (Some (fc_source_type r)) = sql_tier_rank (fc_source_type r)" if "r \<in> set tbl" for r
    using trimmed that
    by (auto simp: source_tier_rank_def sql_tier_rank_def SOURCE_TIER_RANK_def DEFAULT_SOURCE_TIER_RANK_def
        py_lower_def Let_def)
  have two: "(Suc 0 < length (cluster_values (fe_canon env) [v, w]))
      = (\<not> same_claim (canonical_value_key (fe_canon env) w) (canonical_value_key (fe_canon env) v))" for w
    using two_clusters [of "fe_canon env" v w] by simp
  have here: "closes env s p v i (Some st) r
      = (closes env' s p v i (Some st) r
         \<and> \<not> (sql_tier_rank (fc_source_type r) = source_tier_rank (Some st)
              \<and> \<not> same_claim (canonical_value_key (fe_canon env) (fc_value r)) (canonical_value_key (fe_canon env) v)))"
    if "r \<in> set tbl" for r
    using on off
    by (auto simp: closes_def contested_close_def within_tier_def incoming_rank_def rank [OF that] two Let_def
        split: if_splits)
  have tier: "sql_tier_rank (fc_source_type r) = source_tier_rank (Some st) \<Longrightarrow> rival s p v i r
      \<Longrightarrow> closes env' s p v i (Some st) r" for r
    using off by (simp add: closes_def within_tier_def incoming_rank_def)
  have rival: "closes env' s p v i (Some st) r \<Longrightarrow> rival s p v i r" "rival s p v i r \<Longrightarrow> open_fact r" for r
    by (simp_all add: closes_def rival_def)
  show ?thesis
    unfolding supersede_is_update [OF ids] prior.open_after
    using here tier rival by auto
qed

section \<open>Confidence\<close>

lemma combine_bounds:
  assumes "0 \<le> e" "e \<le> 1" "0 \<le> i" "i \<le> 1"
  shows "max e i \<le> combine_confidence e i" and "combine_confidence e i \<le> 1"
proof -
  have "0 \<le> (1 - e) * i" "0 \<le> (1 - i) * e" "0 \<le> (1 - e) * (1 - i)"
    using assms by simp_all
  then show "max e i \<le> combine_confidence e i" and "combine_confidence e i \<le> 1"
    by (simp_all add: combine_confidence_def algebra_simps)
qed

lemma noisy_or_combine:
  "0 \<le> e \<Longrightarrow> e \<le> 1 \<Longrightarrow> 0 \<le> i \<Longrightarrow> i \<le> 1
    \<Longrightarrow> noisy_or_confidence e i cap = min cap (combine_confidence e i)"
  by (auto simp: noisy_or_confidence_def combine_confidence_def Let_def min_def)

text \<open>
  Agreement raises the weaker belief, short of the cap; a confidence of 1,
  which is the default of a fact, is lowered to the cap by the first agreement.
\<close>

lemma noisy_or_bounds:
  "0 \<le> e \<Longrightarrow> e \<le> 1 \<Longrightarrow> 0 \<le> i \<Longrightarrow> i \<le> 1
    \<Longrightarrow> min CONFIDENCE_CAP (max e i) \<le> noisy_or_confidence e i CONFIDENCE_CAP
      \<and> noisy_or_confidence e i CONFIDENCE_CAP \<le> CONFIDENCE_CAP"
  using combine_bounds [of e i] by (auto simp: noisy_or_combine min_le_iff_disj)

lemma certainty_is_lowered: "noisy_or_confidence 1 i CONFIDENCE_CAP = 99 / 100"
  by (simp add: noisy_or_confidence_def CONFIDENCE_CAP_def)

text \<open>A run of observations of one triple: the confidence and the ledger of its row.\<close>

fun observe :: "(py_str option \<times> rat) list \<Rightarrow> rat \<times> py_str list \<Rightarrow> rat \<times> py_str list" where
  "observe [] row = row"
| "observe ((src, c) # os) (existing, ledger) =
     observe os (corroborated src ledger existing c, ledger_with src ledger)"

lemma corroborated_ge: "existing \<le> corroborated src ledger existing c"
  by (simp add: corroborated_def)

lemma corroborated_le:
  "corroborated src ledger existing c \<le> max existing (if c \<le> 1 / 2 then 3 / 4 else CONFIDENCE_CAP)"
  by (auto simp: corroborated_def max_def min_def)

text \<open>C22: however many sources repeat a triple at the extractor's floor, its
  confidence never falls and never passes 0.75 unless it was above before; with any scores
  it never passes 0.99 that way. Repetition by sources already in the ledger changes nothing.
\<close>

theorem ingestion_corroboration_bounds:
  fixes floor_only :: bool
  defines "highest \<equiv> if floor_only then 3 / 4 else CONFIDENCE_CAP"
  assumes "floor_only \<Longrightarrow> \<forall>(src, c) \<in> set os. c \<le> 1 / 2"
  shows "existing \<le> fst (observe os (existing, ledger))
    \<and> fst (observe os (existing, ledger)) \<le> max existing highest
    \<and> ((\<forall>(src, c) \<in> set os. src \<noteq> None \<and> the src \<in> set ledger)
        \<longrightarrow> observe os (existing, ledger) = (existing, ledger))"
  using assms(2)
proof (induction os arbitrary: existing ledger)
  case Nil
  then show ?case by simp
next
  case (Cons o1 os)
  obtain src c where o1: "o1 = (src, c)" by (cases o1)
  let ?e = "corroborated src ledger existing c" and ?l = "ledger_with src ledger"
  have IH: "?e \<le> fst (observe os (?e, ?l)) \<and> fst (observe os (?e, ?l)) \<le> max ?e highest"
    using Cons.IH [of ?e ?l] Cons.prems by auto
  have c: "floor_only \<Longrightarrow> c \<le> 1 / 2" using Cons.prems o1 by auto
  have "?e \<le> max existing highest"
    using corroborated_le [of src ledger existing c] c
    by (auto simp: highest_def CONFIDENCE_CAP_def split: if_splits)
  moreover have "existing \<le> ?e" by (rule corroborated_ge)
  moreover have "(\<forall>(src, c) \<in> set (o1 # os). src \<noteq> None \<and> the src \<in> set ledger)
        \<longrightarrow> observe (o1 # os) (existing, ledger) = (existing, ledger)"
  proof
    assume known: "\<forall>(src, c) \<in> set (o1 # os). src \<noteq> None \<and> the src \<in> set ledger"
    then have "?e = existing" "?l = ledger" by (auto simp: o1 corroborated_def ledger_with_def)
    then show "observe (o1 # os) (existing, ledger) = (existing, ledger)"
      using Cons.IH [of existing ledger] Cons.prems known by (auto simp: o1)
  qed
  ultimately show ?case using IH by (auto simp: o1)
qed

section \<open>What the composition leaves behind\<close>

lemma own_not_closed:
  "triple_of r = own_triple p \<Longrightarrow>
   \<not> closes env (fp_subject p) (normalize_predicate (fp_predicate p)) (fp_value p) i st r"
  by (auto simp: closes_def rival_def triple_of_def same_text_def)

lemma insert_fact_standing:
  assumes ok: "facts_ok tbl" and new: "i \<notin> fc_id ` set tbl"
    and a: "a \<in> set tbl" "open_fact a" "triple_of a = own_triple p"
  obtains c where "a \<in> set (after_close env now i p (effective_source_type m p) tbl)"
    "insert_fact env now i p d m tbl
     = (close_office now p (effective_source_type m p) (fc_id a)
          (replace_row (refresh_standing now (fp_confidence p) d (fp_valid_from p) c a)
             (after_close env now i p (effective_source_type m p) tbl)), Inr ())"
proof -
  let ?t1 = "after_close env now i p (effective_source_type m p) tbl"
  have ok1: "facts_ok ?t1" using ok by (rule prior.closer_keeps_ok)
  have a1: "a \<in> set ?t1"
    using a(1) own_not_closed [OF a(3)] by (force simp: set_update_where)
  show ?thesis
  proof (cases rule: insert_fact_cases [where env = env and now = now and p = p and d = d and m = m, OF ok new])
    case (1 r c)
    from facts_okD(3) [OF ok1 1(1) a1 1(2) a(2)] 1(3) a(3) have "r = a" by simp
    with 1(4) show ?thesis by (intro that [OF a1]) simp
  next
    case 2
    then show ?thesis using a1 a(2,3) by blast
  qed
qed

text \<open>C35: when the asserted triple already has an open row, the priors closed in the same
  write point at the new uuid, and no row ever gets that uuid: the supersession runs before
  the collapse decides that nothing is inserted.
\<close>

theorem supersession_can_dangle:
  assumes ok: "facts_ok tbl" and new: "i \<notin> fc_id ` set tbl"
    and a: "a \<in> set tbl" "open_fact a" "triple_of a = own_triple p"
    and q: "q \<in> set tbl"
      "closes env (fp_subject p) (normalize_predicate (fp_predicate p)) (fp_value p) i
         (Some (effective_source_type m p)) q"
  shows "\<exists>q' \<in> set (fst (insert_fact env now i p d m tbl)).
    fc_id q' = fc_id q \<and> fc_superseded_by q' = Some i
    \<and> i \<notin> fc_id ` set (fst (insert_fact env now i p d m tbl))"
proof -
  let ?st = "effective_source_type m p"
  let ?t1 = "after_close env now i p ?st tbl" and ?q = "close_fact now i q"
  obtain c where run: "insert_fact env now i p d m tbl
     = (close_office now p ?st (fc_id a)
          (replace_row (refresh_standing now (fp_confidence p) d (fp_valid_from p) c a) ?t1), Inr ())"
    and a1: "a \<in> set ?t1"
    using insert_fact_standing [where env = env and now = now and p = p and d = d and m = m, OF ok new a] by metis
  let ?a = "refresh_standing now (fp_confidence p) d (fp_valid_from p) c a"
  have q1: "?q \<in> set ?t1" using q by (force simp: set_update_where)
  have "fc_id ?q \<noteq> fc_id a"
    using same_id [OF facts_okD(1) [OF ok] q(1) a(1)] q(2) own_not_closed [OF a(3)] by auto
  then have "?q \<in> set (replace_row ?a ?t1)"
    using q1 refresh_same [of now _ d _ c a] by (force simp: replace_row_def same_belief_def)
  then have "?q \<in> set (fst (insert_fact env now i p d m tbl))"
    unfolding run close_office_def supersede_prior_functional_role_facts_def
    by (simp add: office.closed_only_open)
  moreover have "fc_id ` set (fst (insert_fact env now i p d m tbl)) = fc_id ` set tbl"
    unfolding run fst_conv by (rule ids_of_map) (simp only: close_office_ids replace_row_ids prior.closed_ids)
  moreover have "fc_superseded_by ?q = Some i" by (simp add: close_fact_def)
  ultimately show ?thesis using new by (intro bexI [of _ ?q]) simp_all
qed

text \<open>
  An expiry that a re-assertion supplies never reaches the standing row: the collapse
  catches every open row of the triple and leaves its \<^verbatim>\<open>valid_until\<close> as it is.
\<close>

theorem reasserted_expiry_is_dropped:
  assumes ok: "facts_ok tbl" and new: "i \<notin> fc_id ` set tbl"
    and a: "a \<in> set tbl" "open_fact a" "triple_of a = own_triple p"
  shows "length (fst (insert_fact env now i p d m tbl)) = length tbl
    \<and> (\<exists>a' \<in> set (fst (insert_fact env now i p d m tbl)).
        fc_id a' = fc_id a \<and> triple_of a' = own_triple p \<and> fc_valid_until a' = None)"
proof -
  let ?st = "effective_source_type m p"
  let ?pr = "normalize_predicate (fp_predicate p)"
  let ?t1 = "after_close env now i p ?st tbl"
  obtain c where run: "insert_fact env now i p d m tbl
     = (close_office now p ?st (fc_id a)
          (replace_row (refresh_standing now (fp_confidence p) d (fp_valid_from p) c a) ?t1), Inr ())"
    and a1: "a \<in> set ?t1"
    using insert_fact_standing [where env = env and now = now and p = p and d = d and m = m, OF ok new a] by metis
  let ?a = "refresh_standing now (fp_confidence p) d (fp_valid_from p) c a"
  have same: "same_belief ?a a" by (rule refresh_same)
  have "?a \<in> set (replace_row ?a ?t1)"
    using a1 same by (force simp: replace_row_def same_belief_def)
  moreover have "\<not> office_rival (fp_subject p) ?pr (fp_value p) (fp_role p) (fc_id a) ?a"
    by (rule office_rival_own) (use same a(3) in \<open>simp add: same_belief_def\<close>)
  ultimately have "?a \<in> set (fst (insert_fact env now i p d m tbl))"
    unfolding run close_office_def supersede_prior_functional_role_facts_def
    by (force simp: set_update_where)
  moreover have "length (fst (insert_fact env now i p d m tbl)) = length tbl"
    unfolding run fst_conv
    by (metis close_office_ids length_map replace_row_ids prior.closed_ids)
  ultimately show ?thesis
    using same a by (intro conjI bexI [of _ ?a]) (simp_all add: same_belief_def open_fact_def)
qed

text \<open>A fact asserted with an expiry is not open from the start, so importing it again never meets it.\<close>

lemma dated_import:
  assumes ok: "facts_ok tbl" and new: "i \<notin> fc_id ` set tbl"
    and live: "live_fact (fact_to_insert env now i p d m)"
    and dated: "fp_valid_until p \<noteq> None"
    and none: "\<forall>r \<in> set tbl. open_fact r \<longrightarrow> triple_of r \<noteq> own_triple p"
  defines "tbl' \<equiv> fst (insert_fact env now i p d m tbl)"
  shows "length tbl' = Suc (length tbl) \<and> facts_ok tbl' \<and> fc_id ` set tbl' = insert i (fc_id ` set tbl)
    \<and> (\<forall>r \<in> set tbl'. open_fact r \<longrightarrow> triple_of r \<noteq> own_triple p)"
proof -
  let ?st = "effective_source_type m p"
  let ?t1 = "after_close env now i p ?st tbl"
  have sub: "r \<in> set tbl" if "r \<in> set ?t1" "open_fact r" for r
    using that by (auto simp: set_update_where split: if_splits)
  have run: "tbl' = close_office now p ?st i ?t1 @ [fact_to_insert env now i p d m]"
  proof (cases rule: insert_fact_cases [where env = env and now = now and p = p and d = d and m = m, OF ok new])
    case (1 r c)
    then show ?thesis using none sub by blast
  next
    case 2
    then show ?thesis by (simp add: tbl'_def)
  qed
  have ids: "map fc_id (close_office now p ?st i ?t1) = map fc_id tbl"
    by (simp only: close_office_ids prior.closed_ids)
  have "facts_ok tbl'" using insert_fact_ok [OF ok new live] by (auto simp: tbl'_def)
  moreover have "length tbl' = Suc (length tbl)" using ids unfolding run by (metis length_append_singleton length_map)
  moreover have "fc_id ` set tbl' = insert i (fc_id ` set tbl)"
    using ids_of_map [OF ids] unfolding run by (simp add: fact_to_insert_def)
  moreover have "open_fact r \<Longrightarrow> r \<in> set tbl' \<Longrightarrow> r \<in> set tbl" for r
    using close_office_open sub dated unfolding run by (auto simp: open_fact_to_insert)
  ultimately show ?thesis using none by blast
qed

text \<open>
  A fact that carries an expiry of its own is duplicated by every import: after
  \<open>n\<close> imports of the same record the table has \<open>n\<close> rows more.
\<close>

theorem dated_fact_is_duplicated:
  assumes "facts_ok tbl" and "distinct ids" and "set ids \<inter> fc_id ` set tbl = {}"
    and "\<forall>i. live_fact (fact_to_insert env now i p d m)" and "fp_valid_until p \<noteq> None"
    and "\<forall>r \<in> set tbl. open_fact r \<longrightarrow> triple_of r \<noteq> own_triple p"
  shows "length (foldl (\<lambda>t i. fst (insert_fact env now i p d m t)) tbl ids) = length tbl + length ids"
  using assms
proof (induction ids arbitrary: tbl)
  case Nil
  then show ?case by simp
next
  case (Cons i ids)
  let ?t = "fst (insert_fact env now i p d m tbl)"
  have step: "length ?t = Suc (length tbl) \<and> facts_ok ?t \<and> fc_id ` set ?t = insert i (fc_id ` set tbl)
    \<and> (\<forall>r \<in> set ?t. open_fact r \<longrightarrow> triple_of r \<noteq> own_triple p)"
    using Cons.prems by (intro dated_import) auto
  have "set ids \<inter> fc_id ` set ?t = {}" using step Cons.prems(2,3) by auto
  then show ?case using Cons.IH [of ?t] Cons.prems step by simp
qed

section \<open>The properties at concrete tables\<close>

definition plain_env :: fact_env where
  "plain_env = \<lparr>fe_contention = None, fe_canon = (\<lambda>s. s), fe_signal_credibility = (\<lambda>_. None)\<rparr>"

definition contested_env :: fact_env where
  "contested_env = plain_env\<lparr>fe_contention := Some ''on''\<rparr>"

definition asserts :: "py_str \<Rightarrow> py_str \<Rightarrow> instant option \<Rightarrow> fact_payload" where
  "asserts v st expiry =
     \<lparr>fp_subject = ''France'', fp_predicate = ''HeadOfState'', fp_value = v, fp_confidence = 1 / 2,
      fp_source_type = st, fp_valid_from = Some 5, fp_valid_until = expiry, fp_role = None,
      fp_source_ids = []\<rparr>"

definition no_marks :: write_marks where
  "no_marks = \<lparr>wm_source_type = None, wm_seed_batch = None, wm_origin_class = None\<rparr>"

definition stored :: "uuid \<Rightarrow> py_str \<Rightarrow> py_str \<Rightarrow> fact_row" where
  "stored i v st = fact_to_insert plain_env 0 i (asserts v st None) [] no_marks"

lemmas sample_defs = plain_env_def contested_env_def asserts_def no_marks_def stored_def

lemma normalize_sample: "normalize_predicate ''HeadOfState'' = ''head of state''"
  by code_simp

lemma live_sample: "live_fact (fact_to_insert env now i (asserts v st u) d no_marks)"
  by (simp add: live_fact_def fact_to_insert_def no_marks_def LIVE_CLASSES_def)

lemma stored_simps [simp]:
  "fc_id (stored i v st) = i" "open_fact (stored i v st)" "live_fact (stored i v st)"
  "fc_source_type (stored i v st) = st"
  by (simp_all add: stored_def open_fact_to_insert live_sample)
    (simp_all add: fact_to_insert_def asserts_def effective_source_type_def no_marks_def)

lemma stored_triple: "triple_of (stored i v st) = own_triple (asserts v st' u)"
  by (simp add: stored_def fact_to_insert_triple) (simp add: asserts_def)

lemma samples_ok: "facts_ok [stored 1 ''A'' ''seed'', stored 2 ''B'' ''agent'']"
proof -
  have "py_lower ''A'' \<noteq> py_lower ''B''" by code_simp
  then show ?thesis
    by (auto simp: facts_ok_def stored_triple [where st' = "[]" and u = None] asserts_def)
qed

lemma one_sample_ok: "facts_ok [stored 1 v st]"
  by (simp add: facts_ok_def)

lemma insert_fact_refines_believe_witness:
  "beliefs (fst (insert_fact plain_env 0 2 (asserts ''B'' ''agent'' None) [] no_marks [stored 1 ''A'' ''agent'']))
   = believe (asserts ''B'' ''agent'' None) (effective_source_type no_marks (asserts ''B'' ''agent'' None))
       (beliefs [stored 1 ''A'' ''agent''])"
proof -
  have "\<not> fact_contention_enabled plain_env" by code_simp
  then show ?thesis
    using insert_fact_refines_believe [OF one_sample_ok, where i = 2 and m = no_marks and d = "[]"
        and p = "asserts ''B'' ''agent'' None" and env = plain_env and now = 0] live_sample by simp
qed

lemma authority_is_never_downgraded_witness:
  "\<exists>r' \<in> set (fst (insert_fact contested_env 0 2 (asserts ''B'' ''agent'' None) [] no_marks [stored 1 ''A'' ''seed''])).
     fc_id r' = 1 \<and> open_fact r'"
proof -
  have "source_tier_rank (Some (effective_source_type no_marks (asserts ''B'' ''agent'' None))) < sql_tier_rank ''seed''"
    by code_simp
  then show ?thesis
    using authority_is_never_downgraded [OF one_sample_ok, where i = 2 and m = no_marks and d = "[]"
        and p = "asserts ''B'' ''agent'' None" and env = contested_env and now = 0 and r = "stored 1 ''A'' ''seed''"]
    by auto
qed

lemma coexistence_spares_contested_rows_witness:
  "stored 1 ''A'' ''agent'' \<in>
     set (fst (supersede_prior_facts contested_env 0 ''France'' ''head of state'' ''B'' 2 (Some ''agent'')
                 [stored 1 ''A'' ''agent'']))"
proof -
  have on: "fact_contention_enabled contested_env" and off: "\<not> fact_contention_enabled plain_env" by code_simp+
  have trimmed: "\<forall>r \<in> set [stored 1 ''A'' ''agent'']. py_strip (fc_source_type r) = fc_source_type r" by code_simp
  let ?r = "stored 1 ''A'' ''agent''"
  have rival: "rival ''France'' ''head of state'' ''B'' 2 ?r" by code_simp
  have tier: "sql_tier_rank (fc_source_type ?r) = source_tier_rank (Some ''agent'')" by code_simp
  have keys: "canonical_value_key (fe_canon contested_env) (fc_value ?r) = ''a''"
    "canonical_value_key (fe_canon contested_env) ''B'' = ''b''" by code_simp+
  have other: "\<not> same_claim ''a'' ''b''"
    by (simp add: same_claim_def normalized_levenshtein_lev FUZZY_MERGE_MAX_DISTANCE_def)
  have ids: "distinct (map fc_id [?r])" by simp
  have "?r \<in> {r \<in> set (fst (supersede_prior_facts contested_env 0 ''France'' ''head of state'' ''B'' 2 (Some ''agent'')
                 [?r])). open_fact r}"
    unfolding coexistence_spares_contested_rows [OF ids trimmed on off]
    by (rule UnI2) (simp add: rival [simplified] tier [simplified] keys [simplified] other)
  then show ?thesis by simp
qed

lemma supersession_can_dangle_witness:
  "\<exists>q' \<in> set (fst (insert_fact plain_env 0 3 (asserts ''B'' ''seed'' None) [] no_marks
       [stored 1 ''A'' ''seed'', stored 2 ''B'' ''agent''])).
     fc_id q' = 1 \<and> fc_superseded_by q' = Some 3"
proof -
  have chosen: "closes plain_env (fp_subject (asserts ''B'' ''seed'' None))
      (normalize_predicate (fp_predicate (asserts ''B'' ''seed'' None))) (fp_value (asserts ''B'' ''seed'' None)) 3
      (Some (effective_source_type no_marks (asserts ''B'' ''seed'' None))) (stored 1 ''A'' ''seed'')"
    by code_simp
  have standing_b: "triple_of (stored 2 ''B'' ''agent'') = own_triple (asserts ''B'' ''seed'' None)"
    by (rule stored_triple)
  have "\<exists>q' \<in> set (fst (insert_fact plain_env 0 3 (asserts ''B'' ''seed'' None) [] no_marks
       [stored 1 ''A'' ''seed'', stored 2 ''B'' ''agent''])).
     fc_id q' = fc_id (stored 1 ''A'' ''seed'') \<and> fc_superseded_by q' = Some 3
     \<and> 3 \<notin> fc_id ` set (fst (insert_fact plain_env 0 3 (asserts ''B'' ''seed'' None) [] no_marks
       [stored 1 ''A'' ''seed'', stored 2 ''B'' ''agent'']))"
    by (rule supersession_can_dangle [OF samples_ok _ _ _ standing_b _ chosen]) simp_all
  then show ?thesis by auto
qed

lemma reasserted_expiry_is_dropped_witness:
  "length (fst (insert_fact plain_env 0 2 (asserts ''A'' ''seed'' (Some 9)) [] no_marks [stored 1 ''A'' ''seed''])) = 1"
proof -
  have "2 \<notin> fc_id ` set [stored 1 ''A'' ''seed'']" "stored 1 ''A'' ''seed'' \<in> set [stored 1 ''A'' ''seed'']"
    by simp_all
  from reasserted_expiry_is_dropped [OF one_sample_ok this stored_simps(2) stored_triple,
      where env = plain_env and now = 0 and d = "[]" and m = no_marks]
  show ?thesis by simp
qed

lemma dated_fact_is_duplicated_witness:
  "length (foldl (\<lambda>t i. fst (insert_fact plain_env 0 i (asserts ''A'' ''seed'' (Some 9)) [] no_marks t)) [] [1, 2, 3]) = 3"
proof -
  have dated: "fp_valid_until (asserts ''A'' ''seed'' (Some 9)) \<noteq> None" by (simp add: asserts_def)
  have ok: "facts_ok []" by (simp add: facts_ok_def)
  show ?thesis
    using dated_fact_is_duplicated [OF ok _ _ _ dated, where ids = "[1, 2, 3]" and env = plain_env
        and now = 0 and d = "[]" and m = no_marks] live_sample by simp
qed

lemma ingestion_corroboration_bounds_witness:
  "fst (observe [(Some ''a'', 1 / 2), (Some ''b'', 1 / 2)] (1 / 2, [''a''])) \<le> 3 / 4"
  using ingestion_corroboration_bounds
    [where floor_only = True and existing = "1 / 2" and ledger = "[''a'']"
       and os = "[(Some ''a'', 1 / 2), (Some ''b'', 1 / 2)]"] by simp


end
