(* ===== verification/NexusPlane.thy ===== *)
theory NexusPlane
  imports FactPlane
begin

text \<open>
  The writers of the \<^verbatim>\<open>nexuses\<close> table (\<^verbatim>\<open>supersede_prior_nexuses\<close> of
  \<^verbatim>\<open>data/provenance/writes_supersession.py\<close>; \<^verbatim>\<open>_insert_nexus\<close> and
  \<^verbatim>\<open>_canonical_rel_type\<close> of \<^verbatim>\<open>data/provenance/writes.py\<close>; \<^verbatim>\<open>append_derived_from\<close> of
  \<^verbatim>\<open>data/provenance/_core.py\<close>). A nexus is a typed, signed relation; its value is its
  polarity and label. The mirror write to \<^verbatim>\<open>entity_edges\<close> is an argument that may raise;
  it and the two statements run in one transaction. The columns no statement reads are left
  out.
\<close>

section \<open>One spelling for a relation\<close>

definition upper_char :: "char \<Rightarrow> bool" where
  "upper_char c = (let n = (of_char c :: nat) in 65 \<le> n \<and> n \<le> 90)"

definition lowercase_char :: "char \<Rightarrow> bool" where
  "lowercase_char c = (let n = (of_char c :: nat) in 97 \<le> n \<and> n \<le> 122)"

text \<open>\<^verbatim>\<open>_CAMEL_BOUNDARY_RE\<close>: the two empty matches, before \<open>c\<close> with \<open>rest\<close> after it.\<close>

fun camel_boundary :: "char option \<Rightarrow> char \<Rightarrow> py_str \<Rightarrow> bool" where
  "camel_boundary None c rest = False"
| "camel_boundary (Some b) c rest =
     ((lowercase_char b \<or> digit_char b) \<and> upper_char c
      \<or> upper_char b \<and> upper_char c \<and> rest \<noteq> [] \<and> lowercase_char (hd rest))"

fun camel_spaced :: "char option \<Rightarrow> py_str \<Rightarrow> py_str" where
  "camel_spaced prev [] = []"
| "camel_spaced prev (c # cs) =
     (if camel_boundary prev c cs then CHR '' '' # c # camel_spaced (Some c) cs
      else c # camel_spaced (Some c) cs)"

text \<open>Runs of hyphens, underscores and white space become one space, then \<^verbatim>\<open>strip\<close>.\<close>

definition separators_spaced :: "py_str \<Rightarrow> py_str" where
  "separators_spaced s =
     py_join '' '' (py_words [] (replace_char CHR ''_'' CHR '' '' (replace_char CHR ''-'' CHR '' '' s)))"

definition canonical_rel_type :: "py_str \<Rightarrow> py_str" where
  "canonical_rel_type rel_type =
     (if rel_type = [] \<or> py_strip rel_type = [] then rel_type
      else let spaced = separators_spaced (camel_spaced None rel_type);
               tight = filter (\<lambda>c. c \<noteq> CHR '' '') spaced
           in if normalize_predicate spaced \<noteq> spaced then normalize_predicate spaced
              else if normalize_predicate tight \<noteq> tight then normalize_predicate tight
              else py_lower spaced)"

section \<open>Rows\<close>

record nexus_row =
  nx_id :: uuid
  nx_subject :: py_str
  nx_intermediary :: "py_str option"
  nx_object :: py_str
  nx_rel_type :: py_str
  nx_label :: py_str
  nx_polarity :: int
  nx_confidence :: rat
  nx_valid_until :: "instant option"
  nx_superseded_by :: "uuid option"
  nx_derived_from :: "uuid list"
  nx_source_signal_ids :: "uuid list"
  nx_source_type :: py_str
  nx_updated_at :: instant

type_synonym nexus_table = "nexus_row list"
type_synonym typed_triple = "py_str \<times> py_str \<times> py_str \<times> py_str"

datatype nexus_error = Nexus_unique_violation | Edge_write_raised

definition open_nexus :: "nexus_row \<Rightarrow> bool" where
  "open_nexus r = (nx_valid_until r = None \<and> nx_superseded_by r = None)"

text \<open>The key of \<^verbatim>\<open>idx_nexuses_triple_open\<close>.\<close>

definition typed_triple :: "nexus_row \<Rightarrow> typed_triple" where
  "typed_triple r =
     (py_lower (nx_subject r), py_lower (case nx_intermediary r of None \<Rightarrow> [] | Some x \<Rightarrow> x),
      py_lower (nx_object r), py_lower (nx_rel_type r))"

definition supersede_prior_nexuses ::
  "instant \<Rightarrow> typed_triple \<Rightarrow> int \<Rightarrow> py_str \<Rightarrow> uuid \<Rightarrow> nexus_table \<Rightarrow> nexus_table" where
  "supersede_prior_nexuses now t polarity label new_id tbl =
     map (\<lambda>r. if typed_triple r = t \<and> (nx_polarity r \<noteq> polarity \<or> \<not> same_text (nx_label r) label)
                 \<and> open_nexus r \<and> nx_id r \<noteq> new_id
               then r\<lparr>nx_valid_until := Some now, nx_superseded_by := Some new_id, nx_updated_at := now\<rparr>
               else r) tbl"

text \<open>\<^verbatim>\<open>append_derived_from\<close>: both loops with their shared \<^verbatim>\<open>seen\<close>.\<close>

definition append_derived_from :: "uuid list \<Rightarrow> uuid list \<Rightarrow> uuid list" where
  "append_derived_from existing new_ids = keep_first (\<lambda>u. u) [] (existing @ new_ids)"

record nexus_payload =
  np_subject :: py_str
  np_intermediary :: "py_str option"
  np_object :: py_str
  np_rel_type :: py_str
  np_label :: py_str
  np_polarity :: int
  np_confidence :: rat
  np_valid_until :: "instant option"
  np_source_signal_ids :: "uuid list"
  np_source_type :: py_str

definition nexus_to_insert ::
  "instant \<Rightarrow> uuid \<Rightarrow> nexus_payload \<Rightarrow> uuid list \<Rightarrow> uuid list \<Rightarrow> py_str option \<Rightarrow> nexus_row" where
  "nexus_to_insert now row_id p derived explicit_ssids source_type =
     \<lparr>nx_id = row_id, nx_subject = np_subject p, nx_intermediary = np_intermediary p,
      nx_object = np_object p, nx_rel_type = canonical_rel_type (np_rel_type p), nx_label = np_label p,
      nx_polarity = np_polarity p, nx_confidence = np_confidence p, nx_valid_until = np_valid_until p,
      nx_superseded_by = None,
      nx_derived_from = append_derived_from derived (explicit_ssids @ np_source_signal_ids p),
      nx_source_signal_ids = append_derived_from explicit_ssids (np_source_signal_ids p @ derived),
      nx_source_type = (if truthy source_type then the source_type else np_source_type p),
      nx_updated_at = now\<rparr>"

definition merge_nexus :: "instant \<Rightarrow> nexus_row \<Rightarrow> nexus_row \<Rightarrow> nexus_row" where
  "merge_nexus now new old =
     old\<lparr>nx_confidence := max (nx_confidence old) (nx_confidence new),
         nx_derived_from := union_ids (nx_derived_from old) (nx_derived_from new),
         nx_source_signal_ids := union_ids (nx_source_signal_ids old) (nx_source_signal_ids new),
         nx_valid_until := (case nx_valid_until new of None \<Rightarrow> nx_valid_until old | Some t \<Rightarrow> Some t),
         nx_updated_at := now\<rparr>"

text \<open>INSERT with ON CONFLICT; only an open row can meet the partial index.\<close>

definition insert_or_merge_nexus ::
  "instant \<Rightarrow> nexus_row \<Rightarrow> nexus_table \<Rightarrow> nexus_table \<times> (nexus_error + unit)" where
  "insert_or_merge_nexus now new tbl =
     (case (if open_nexus new then find (\<lambda>r. open_nexus r \<and> typed_triple r = typed_triple new) tbl else None) of
        Some old \<Rightarrow> (map (\<lambda>r. if nx_id r = nx_id old then merge_nexus now new r else r) tbl, Inr ())
      | None \<Rightarrow> if nx_id new \<in> nx_id ` set tbl then (tbl, Inl Nexus_unique_violation)
                else (tbl @ [new], Inr ()))"

text \<open>
  \<^verbatim>\<open>_insert_nexus\<close>: in one transaction the edge mirror, the close and the insert. Whatever
  raises rolls all three back.
\<close>

definition insert_nexus ::
  "(nexus_row \<Rightarrow> bool) \<Rightarrow> instant \<Rightarrow> uuid \<Rightarrow> nexus_payload \<Rightarrow> uuid list \<Rightarrow> uuid list \<Rightarrow> py_str option
    \<Rightarrow> nexus_table \<Rightarrow> nexus_table \<times> (nexus_error + unit)" where
  "insert_nexus edge_raises now row_id p derived explicit_ssids source_type tbl =
     (let new = nexus_to_insert now row_id p derived explicit_ssids source_type
      in if edge_raises new then (tbl, Inl Edge_write_raised)
         else let closed = supersede_prior_nexuses now (typed_triple new) (nx_polarity new) (nx_label new) row_id tbl
              in case insert_or_merge_nexus now new closed of
                   (tbl', Inl e) \<Rightarrow> (tbl, Inl e)
                 | (tbl', Inr _) \<Rightarrow> (tbl', Inr ()))"

section \<open>The current relation\<close>

text \<open>
  What holds now between two names: the sign and label of the open row of a typed triple.
\<close>

definition nexuses_ok :: "nexus_table \<Rightarrow> bool" where
  "nexuses_ok tbl =
     (distinct (map nx_id tbl)
      \<and> (\<forall>r \<in> set tbl. \<forall>r' \<in> set tbl.
           open_nexus r \<and> open_nexus r' \<and> typed_triple r = typed_triple r' \<longrightarrow> r = r'))"

definition signed_label :: "nexus_row \<Rightarrow> int \<times> py_str" where
  "signed_label r = (nx_polarity r, py_lower (nx_label r))"

definition current_relation :: "nexus_table \<Rightarrow> typed_triple \<Rightarrow> (int \<times> py_str) option" where
  "current_relation tbl t =
     map_option signed_label (find (\<lambda>r. open_nexus r \<and> typed_triple r = t) tbl)"

lemma nexuses_okD:
  assumes "nexuses_ok tbl"
  shows "distinct (map nx_id tbl)"
    and "\<And>r r'. r \<in> set tbl \<Longrightarrow> r' \<in> set tbl \<Longrightarrow> open_nexus r \<Longrightarrow> open_nexus r'
           \<Longrightarrow> typed_triple r = typed_triple r' \<Longrightarrow> r = r'"
  using assms unfolding nexuses_ok_def by blast+

lemma same_nexus_id:
  "distinct (map nx_id tbl) \<Longrightarrow> r \<in> set tbl \<Longrightarrow> r' \<in> set tbl \<Longrightarrow> nx_id r = nx_id r' \<Longrightarrow> r = r'"
  by (auto simp: distinct_map dest: inj_onD)

text \<open>The relation, read off the set of rows.\<close>

lemma current_relation_some:
  assumes "nexuses_ok tbl"
  shows "current_relation tbl t = Some x
    \<longleftrightarrow> (\<exists>r \<in> set tbl. open_nexus r \<and> typed_triple r = t \<and> signed_label r = x)"
proof
  assume "current_relation tbl t = Some x"
  then show "\<exists>r \<in> set tbl. open_nexus r \<and> typed_triple r = t \<and> signed_label r = x"
    by (auto simp: current_relation_def find_Some_iff)
next
  assume "\<exists>r \<in> set tbl. open_nexus r \<and> typed_triple r = t \<and> signed_label r = x"
  then obtain r where r: "r \<in> set tbl" "open_nexus r" "typed_triple r = t" "signed_label r = x" by blast
  then obtain q where "find (\<lambda>r. open_nexus r \<and> typed_triple r = t) tbl = Some q"
    by (metis (mono_tags, lifting) find_None_iff not_None_eq)
  moreover from this have "q = r"
    using r nexuses_okD(2) [OF assms] by (auto simp: find_Some_iff)
  ultimately show "current_relation tbl t = Some x" using r by (simp add: current_relation_def)
qed

lemma current_relation_eqI:
  assumes "nexuses_ok a" "nexuses_ok b"
    and "\<And>x. (\<exists>r \<in> set a. open_nexus r \<and> typed_triple r = t \<and> signed_label r = x)
        = (\<exists>r \<in> set b. open_nexus r \<and> typed_triple r = t \<and> signed_label r = x)"
  shows "current_relation a t = current_relation b t"
  using assms by (metis current_relation_some not_None_eq)

lemma supersede_nexus_open:
  assumes "i \<notin> nx_id ` set tbl"
  shows "{r \<in> set (supersede_prior_nexuses now t pol l i tbl). open_nexus r}
    = {r \<in> set tbl. open_nexus r \<and> (typed_triple r = t \<longrightarrow> signed_label r = (pol, py_lower l))}"
  using assms
  by (auto simp: supersede_prior_nexuses_def open_nexus_def signed_label_def same_text_def split: if_splits)

lemma supersede_nexus_ids [simp]:
  "map nx_id (supersede_prior_nexuses now t pol l i tbl) = map nx_id tbl"
  by (simp add: supersede_prior_nexuses_def)

lemma supersede_nexus_ok:
  assumes "nexuses_ok tbl" "i \<notin> nx_id ` set tbl"
  shows "nexuses_ok (supersede_prior_nexuses now t pol l i tbl)"
proof -
  let ?c = "supersede_prior_nexuses now t pol l i tbl"
  have sub: "r \<in> set tbl" if "r \<in> set ?c" "open_nexus r" for r
    using supersede_nexus_open [OF assms(2), of now t pol l] that by blast
  then show ?thesis
    using assms(1) unfolding nexuses_ok_def supersede_nexus_ids by blast
qed

lemma nexus_to_insert_simps [simp]:
  "nx_id (nexus_to_insert now i p d e st) = i"
  "open_nexus (nexus_to_insert now i p d e st) \<longleftrightarrow> np_valid_until p = None"
  "signed_label (nexus_to_insert now i p d e st) = (np_polarity p, py_lower (np_label p))"
  "nx_polarity (nexus_to_insert now i p d e st) = np_polarity p"
  "nx_label (nexus_to_insert now i p d e st) = np_label p"
  "nx_valid_until (nexus_to_insert now i p d e st) = np_valid_until p"
  by (simp_all add: nexus_to_insert_def open_nexus_def signed_label_def)

lemma merge_nexus_simps:
  "nx_valid_until new = None \<Longrightarrow> open_nexus (merge_nexus now new r) = open_nexus r"
  "typed_triple (merge_nexus now new r) = typed_triple r" "signed_label (merge_nexus now new r) = signed_label r"
  "nx_id (merge_nexus now new r) = nx_id r"
  by (simp_all add: merge_nexus_def open_nexus_def typed_triple_def signed_label_def)

lemma append_nexus_ok:
  assumes "nexuses_ok c" "nx_id r \<notin> nx_id ` set c"
    and "open_nexus r \<Longrightarrow> \<forall>q \<in> set c. open_nexus q \<longrightarrow> typed_triple q \<noteq> typed_triple r"
  shows "nexuses_ok (c @ [r])"
  using assms unfolding nexuses_ok_def by auto

text \<open>Merging the assertion into the standing row changes no relation.\<close>

lemma merge_in_place:
  fixes now k new c
  assumes ok: "nexuses_ok c" and open_new: "nx_valid_until new = None"
  defines "c' \<equiv> map (\<lambda>r. if nx_id r = k then merge_nexus now new r else r) c"
  shows "nexuses_ok c'" and "current_relation c' = current_relation c"
proof -
  define f where "f = (\<lambda>r. if nx_id r = k then merge_nexus now new r else r)"
  have f: "open_nexus (f r) = open_nexus r" "typed_triple (f r) = typed_triple r"
    "signed_label (f r) = signed_label r" "nx_id (f r) = nx_id r" for r
    using open_new by (simp_all add: f_def merge_nexus_simps)
  have c': "c' = map f c" by (simp add: c'_def f_def)
  have ids: "map nx_id c' = map nx_id c" by (simp add: c' f comp_def)
  show okc': "nexuses_ok c'"
    unfolding nexuses_ok_def ids
  proof (intro conjI ballI impI)
    show "distinct (map nx_id c)" by (rule nexuses_okD(1) [OF ok])
    fix r r'
    assume "r \<in> set c'" "r' \<in> set c'"
      and same: "open_nexus r \<and> open_nexus r' \<and> typed_triple r = typed_triple r'"
    then obtain q q' where "q \<in> set c" "q' \<in> set c" "r = f q" "r' = f q'" by (auto simp: c')
    with nexuses_okD(2) [OF ok, of q q'] same show "r = r'" by (simp add: f)
  qed
  show "current_relation c' = current_relation c"
  proof
    fix t
    show "current_relation c' t = current_relation c t"
      by (rule current_relation_eqI [OF okc' ok])
        (auto simp: c' f)
  qed
qed

text \<open>The effect of one write, for the property and for the loader.\<close>

lemma insert_nexus_effect:
  fixes edge_raises now i p d e st tbl
  defines "new \<equiv> nexus_to_insert now i p d e st"
  defines "v \<equiv> (np_polarity p, py_lower (np_label p))"
  defines "tbl' \<equiv> fst (insert_nexus edge_raises now i p d e st tbl)"
  assumes ok: "nexuses_ok tbl" and fresh: "i \<notin> nx_id ` set tbl" and edge: "\<not> edge_raises new"
  shows "snd (insert_nexus edge_raises now i p d e st tbl) = Inr () \<and> nexuses_ok tbl'
    \<and> current_relation tbl' = (current_relation tbl)
        (typed_triple new := if np_valid_until p = None \<or> current_relation tbl (typed_triple new) = Some v
                             then Some v else None)"
proof -
  let ?t = "typed_triple new"
  let ?c = "supersede_prior_nexuses now ?t (np_polarity p) (np_label p) i tbl"
  have okc: "nexuses_ok ?c" by (rule supersede_nexus_ok [OF ok fresh])
  have opens: "{r \<in> set ?c. open_nexus r} = {r \<in> set tbl. open_nexus r \<and> (typed_triple r = ?t \<longrightarrow> signed_label r = v)}"
    unfolding v_def by (rule supersede_nexus_open [OF fresh])
  have ids: "nx_id ` set ?c = nx_id ` set tbl" by (metis list.set_map supersede_nexus_ids)
  have closed: "current_relation ?c = (current_relation tbl)
      (?t := if current_relation tbl ?t = Some v then Some v else None)"
  proof
    fix t
    show "current_relation ?c t = ((current_relation tbl)
      (?t := if current_relation tbl ?t = Some v then Some v else None)) t"
    proof (cases "t = ?t")
      case False
      then show ?thesis
        using current_relation_eqI [OF okc ok, of t] opens by auto
    next
      case True
      have "current_relation ?c ?t = Some x \<longleftrightarrow> x = v \<and> current_relation tbl ?t = Some v" for x
        unfolding current_relation_some [OF okc] current_relation_some [OF ok] using opens by blast
      then show ?thesis using True by (cases "current_relation ?c ?t") auto
    qed
  qed
  have run: "insert_nexus edge_raises now i p d e st tbl
      = (case insert_or_merge_nexus now new ?c of (t', Inl er) \<Rightarrow> (tbl, Inl er) | (t', Inr _) \<Rightarrow> (t', Inr ()))"
    using edge by (simp add: insert_nexus_def Let_def new_def)
  show ?thesis
  proof (cases "np_valid_until p = None \<and> (\<exists>r \<in> set ?c. open_nexus r \<and> typed_triple r = ?t)")
    case True
    then obtain old where old: "find (\<lambda>r. open_nexus r \<and> typed_triple r = ?t) ?c = Some old"
      by (metis (mono_tags, lifting) find_None_iff not_None_eq)
    then have "open_nexus old" "typed_triple old = ?t" "old \<in> set ?c" by (auto simp: find_Some_iff)
    then have cur: "current_relation ?c ?t = Some v"
      using opens by (auto simp: current_relation_some [OF okc])
    have until: "nx_valid_until new = None" using True by (simp add: new_def)
    let ?d = "map (\<lambda>r. if nx_id r = nx_id old then merge_nexus now new r else r) ?c"
    have ins: "insert_or_merge_nexus now new ?c = (?d, Inr ())"
      using old True by (simp add: insert_or_merge_nexus_def new_def)
    have tbl': "tbl' = ?d" and fine: "snd (insert_nexus edge_raises now i p d e st tbl) = Inr ()"
      unfolding tbl'_def run ins by simp_all
    have std: "current_relation tbl ?t = Some v"
      using cur fun_cong [OF closed, of ?t] by (simp split: if_splits)
    have rel: "current_relation tbl' = (current_relation tbl)(?t := Some v)"
      unfolding tbl' merge_in_place(2) [OF okc until] closed by (simp only: std if_True simp_thms)
    show ?thesis
      using fine merge_in_place(1) [OF okc until, where k = "nx_id old" and now = now] True
      unfolding rel tbl' [symmetric] by simp
  next
    case False
    have app: "insert_or_merge_nexus now new ?c = (?c @ [new], Inr ())"
    proof -
      have "(if open_nexus new then find (\<lambda>r. open_nexus r \<and> typed_triple r = ?t) ?c else None) = None"
        using False by (auto simp: new_def find_None_iff)
      moreover have "nx_id new \<notin> nx_id ` set ?c" using fresh ids by (simp add: new_def)
      ultimately show ?thesis by (simp add: insert_or_merge_nexus_def)
    qed
    have okd: "nexuses_ok (?c @ [new])"
      by (rule append_nexus_ok [OF okc]) (use fresh ids False in \<open>auto simp: new_def\<close>)
    have upd: "current_relation (?c @ [new]) t
        = (if t = ?t \<and> np_valid_until p = None then Some v else current_relation ?c t)" for t
    proof (cases "t = ?t \<and> np_valid_until p = None")
      case True
      then have "current_relation (?c @ [new]) t = Some v"
        unfolding current_relation_some [OF okd] by (intro bexI [of _ new]) (simp_all add: new_def v_def)
      then show ?thesis using True by simp
    next
      case other: False
      have "current_relation (?c @ [new]) t = current_relation ?c t"
        by (rule current_relation_eqI [OF okd okc]) (use other in \<open>auto simp: new_def\<close>)
      then show ?thesis using other by auto
    qed
    have tbl': "tbl' = ?c @ [new]" and fine: "snd (insert_nexus edge_raises now i p d e st tbl) = Inr ()"
      unfolding tbl'_def run app by simp_all
    have rel: "current_relation tbl' = (current_relation tbl)
        (?t := if np_valid_until p = None \<or> current_relation tbl ?t = Some v then Some v else None)"
    proof
      fix t
      show "current_relation tbl' t = ((current_relation tbl)
        (?t := if np_valid_until p = None \<or> current_relation tbl ?t = Some v then Some v else None)) t"
        unfolding tbl' upd closed by (cases "t = ?t") simp_all
    qed
    show ?thesis using fine okd rel unfolding tbl' [symmetric] by simp
  qed
qed

text \<open>C15: writing a nexus is an update of the map from typed triples to current relations at
  the triple written, and nowhere else: the new sign and label hold afterwards. A nexus
  that carries an expiry of its own is never current; it only ends a different relation.
\<close>

theorem insert_nexus_updates_relation:
  assumes "nexuses_ok tbl" and "i \<notin> nx_id ` set tbl" and "\<not> edge_raises (nexus_to_insert now i p d e st)"
  shows "snd (insert_nexus edge_raises now i p d e st tbl) = Inr ()
    \<and> nexuses_ok (fst (insert_nexus edge_raises now i p d e st tbl))
    \<and> current_relation (fst (insert_nexus edge_raises now i p d e st tbl)) = (current_relation tbl)
        (typed_triple (nexus_to_insert now i p d e st) :=
           if np_valid_until p = None
              \<or> current_relation tbl (typed_triple (nexus_to_insert now i p d e st))
                 = Some (np_polarity p, py_lower (np_label p))
           then Some (np_polarity p, py_lower (np_label p)) else None)"
  by (rule insert_nexus_effect [where edge_raises = edge_raises, OF assms])

lemma insert_nexus_current:
  assumes "nexuses_ok tbl" and "i \<notin> nx_id ` set tbl" and "\<not> edge_raises (nexus_to_insert now i p d e st)"
    and "np_valid_until p = None"
  shows "current_relation (fst (insert_nexus edge_raises now i p d e st tbl)) (typed_triple (nexus_to_insert now i p d e st))
    = Some (np_polarity p, py_lower (np_label p))"
  using insert_nexus_effect [where edge_raises = edge_raises, OF assms(1-3)] assms(4) by simp

section \<open>Canonical spellings are fixed points\<close>

lemma lower_char_facts [simp]:
  "py_space (lower_char c) = py_space c" "lower_char (lower_char c) = lower_char c"
  "\<not> upper_char (lower_char c)" "lower_char c = CHR '' '' \<longleftrightarrow> c = CHR '' ''"
  "lower_char c = CHR ''-'' \<longleftrightarrow> c = CHR ''-''" "lower_char c = CHR ''_'' \<longleftrightarrow> c = CHR ''_''"
proof -
  show "py_space (lower_char c) = py_space c" "lower_char (lower_char c) = lower_char c"
    "\<not> upper_char (lower_char c)"
    by (auto simp: py_space_def lower_char_def upper_char_def Let_def)
  have eq: "lower_char c = d \<longleftrightarrow> c = d" if "\<not> (65 \<le> (of_char d :: nat) \<and> (of_char d :: nat) \<le> 90)"
    "\<not> (97 \<le> (of_char d :: nat) \<and> (of_char d :: nat) \<le> 122)" for d
    using that by (auto simp: lower_char_def Let_def)
  show "lower_char c = CHR '' '' \<longleftrightarrow> c = CHR '' ''" "lower_char c = CHR ''-'' \<longleftrightarrow> c = CHR ''-''"
    "lower_char c = CHR ''_'' \<longleftrightarrow> c = CHR ''_''"
    by (rule eq; simp)+
qed

lemma py_lower_idem [simp]: "py_lower (py_lower s) = py_lower s"
  by (simp add: py_lower_def)

lemma strip_lower: "py_strip (py_lower s) = py_lower (py_strip s)"
  by (simp add: py_strip_def py_lower_def rev_map dropWhile_map comp_def)

lemma lower_Nil [simp]: "py_lower s = [] \<longleftrightarrow> s = []"
  by (simp add: py_lower_def)

text \<open>A spelling in its final shape: lower case, single spaces, no separators.\<close>

definition plain_spelling :: "py_str \<Rightarrow> bool" where
  "plain_spelling u =
     (py_join '' '' (py_words [] u) = u \<and> py_lower u = u \<and> CHR ''-'' \<notin> set u \<and> CHR ''_'' \<notin> set u)"

definition unspaced :: "py_str \<Rightarrow> py_str" where
  "unspaced s = filter (\<lambda>c. c \<noteq> CHR '' '') s"

lemma canonical_lower: "list_all (\<lambda>(k, c). py_lower c = c) PREDICATE_CANONICAL"
  by code_simp

lemma canonical_spaced: "list_all (\<lambda>(k, c). py_join '' '' (py_words [] c) = c) PREDICATE_CANONICAL"
  by code_simp

lemma canonical_separators:
  "list_all (\<lambda>(k, c). list_all (\<lambda>x. x \<noteq> CHR ''-'' \<and> x \<noteq> CHR ''_'') c) PREDICATE_CANONICAL"
  by code_simp

lemma canonical_normal: "list_all (\<lambda>(k, c). normalize_predicate c = c) PREDICATE_CANONICAL"
  by code_simp

lemma canonical_unspaced:
  "list_all (\<lambda>(k, c). normalize_predicate (unspaced c) = unspaced c \<or> normalize_predicate (unspaced c) = c)
     PREDICATE_CANONICAL"
  by code_simp

lemmas canonical_forms =
  canonical_lower canonical_spaced canonical_separators canonical_normal canonical_unspaced

lemma canonical_formD:
  assumes "map_of PREDICATE_CANONICAL k = Some c"
  shows "py_lower c = c" "plain_spelling c" "normalize_predicate c = c"
    "normalize_predicate (unspaced c) = unspaced c \<or> normalize_predicate (unspaced c) = c"
  using canonical_forms map_of_SomeD [OF assms] by (auto simp: list_all_iff plain_spelling_def)

lemma normalize_lower:
  assumes "normalize_predicate x = x"
  shows "normalize_predicate (py_lower x) = py_lower x"
proof (cases "map_of PREDICATE_CANONICAL (py_lower (py_strip x))")
  case None
  then show ?thesis by (simp add: normalize_predicate_def strip_lower)
next
  case (Some c)
  then have "py_lower c = c" by (rule canonical_formD)
  then show ?thesis using Some assms by (auto simp: normalize_predicate_def strip_lower split: if_splits)
qed

lemma words_append:
  "\<forall>c \<in> set t. \<not> py_space c \<Longrightarrow> py_words w (t @ s) = py_words (w @ t) s"
  by (induction t arbitrary: w) auto

definition tokens :: "py_str list \<Rightarrow> bool" where
  "tokens ws = (\<forall>w \<in> set ws. w \<noteq> [] \<and> (\<forall>c \<in> set w. \<not> py_space c))"

lemma tokens_Cons [simp]: "tokens (w # ws) \<longleftrightarrow> w \<noteq> [] \<and> (\<forall>c \<in> set w. \<not> py_space c) \<and> tokens ws"
  by (auto simp: tokens_def)

lemma tokens_Nil [simp]: "tokens []"
  by (simp add: tokens_def)

lemma words_tokens: "\<forall>c \<in> set w. \<not> py_space c \<Longrightarrow> tokens (py_words w s)"
  by (induction s arbitrary: w) simp_all

lemma words_chars: "t \<in> set (py_words w s) \<Longrightarrow> set t \<subseteq> set w \<union> set s"
  by (induction w s rule: py_words.induct) (auto split: if_splits)

lemma space_is_space [simp]: "py_space CHR '' ''"
  by (simp add: py_space_def)

lemma words_join: "tokens ws \<Longrightarrow> py_words [] (py_join '' '' ws) = ws"
proof (induction ws)
  case (Cons w ws)
  then have w: "w \<noteq> []" "\<forall>c \<in> set w. \<not> py_space c" by simp_all
  show ?case
  proof (cases ws)
    case Nil
    then show ?thesis using w words_append [of w "[]" "[]"] by simp
  next
    case (Cons v vs)
    have "py_words [] (py_join '' '' (w # ws)) = w # py_words [] (py_join '' '' ws)"
      using w words_append [of w "[]" "CHR '' '' # py_join '' '' ws"] Cons by simp
    then show ?thesis using Cons.IH Cons.prems by simp
  qed
qed simp

lemma camel_lower: "\<forall>c \<in> set s. \<not> upper_char c \<Longrightarrow> camel_spaced prev s = s"
  by (induction s arbitrary: prev) (case_tac prev; simp)+

lemma canonical_plain:
  assumes "plain_spelling u" and "normalize_predicate u = u"
    and "normalize_predicate (unspaced u) = unspaced u \<or> normalize_predicate (unspaced u) = u"
  shows "canonical_rel_type u = u"
proof -
  have "\<not> upper_char c" if "c \<in> set u" for c
    using that assms(1) by (metis (no_types) image_iff lower_char_facts(3) list.set_map plain_spelling_def py_lower_def)
  then have camel: "camel_spaced None u = u" by (simp add: camel_lower)
  have "separators_spaced u = u"
    using assms(1) by (simp add: separators_spaced_def replace_char_idle plain_spelling_def)
  then show ?thesis
    using assms camel by (auto simp: canonical_rel_type_def Let_def unspaced_def plain_spelling_def)
qed

lemma lower_join: "py_lower (py_join '' '' ws) = py_join '' '' (map py_lower ws)"
proof (induction ws)
  case (Cons w ws)
  then show ?case by (cases ws) (simp_all add: py_lower_def lower_char_def)
qed (simp add: py_lower_def)

lemma tokens_lower: "tokens ws \<Longrightarrow> tokens (map py_lower ws)"
  by (induction ws) (auto simp: py_lower_def)

lemma join_chars: "set (py_join '' '' ws) \<subseteq> insert CHR '' '' (\<Union>w \<in> set ws. set w)"
proof (induction ws)
  case (Cons w ws)
  then show ?case by (cases ws) auto
qed simp

lemma spaced_plain: "plain_spelling (py_lower (separators_spaced s))"
proof -
  let ?s = "replace_char CHR ''_'' CHR '' '' (replace_char CHR ''-'' CHR '' '' s)"
  let ?ws = "py_words [] ?s"
  have gone: "CHR ''-'' \<notin> set ?s" "CHR ''_'' \<notin> set ?s"
    by (auto simp: replace_char_def)
  have chars: "set (py_join '' '' ?ws) \<subseteq> insert CHR '' '' (set ?s)"
    using join_chars [of ?ws] words_chars [of _ "[]" ?s] by fastforce
  have "tokens ?ws" by (rule words_tokens) simp
  then have "py_words [] (py_lower (py_join '' '' ?ws)) = map py_lower ?ws"
    unfolding lower_join by (intro words_join tokens_lower)
  moreover have "CHR ''-'' \<notin> set (py_lower (py_join '' '' ?ws))" "CHR ''_'' \<notin> set (py_lower (py_join '' '' ?ws))"
    using chars gone by (auto simp: py_lower_def eq_commute [of _ "lower_char _"])
  ultimately show ?thesis
    by (simp add: plain_spelling_def separators_spaced_def lower_join comp_def)
qed

lemma unspaced_lower: "unspaced (py_lower s) = py_lower (unspaced s)"
  by (simp add: unspaced_def py_lower_def filter_map comp_def)

text \<open>
  Canonicalisation is idempotent: a row that is read back and written
  again keeps its relation, and every spelling is carried to a fixed point in one pass.
\<close>

theorem canonical_rel_type_idempotent:
  "canonical_rel_type (canonical_rel_type x) = canonical_rel_type x"
proof (cases "x = [] \<or> py_strip x = []")
  case True
  then show ?thesis by (auto simp: canonical_rel_type_def)
next
  case False
  let ?u = "separators_spaced (camel_spaced None x)"
  have hit: "canonical_rel_type (normalize_predicate w) = normalize_predicate w" if "normalize_predicate w \<noteq> w" for w
  proof -
    from that obtain c where "map_of PREDICATE_CANONICAL (py_lower (py_strip w)) = Some c" "normalize_predicate w = c"
      by (auto simp: normalize_predicate_def split: if_splits option.splits)
    then show ?thesis using canonical_plain canonical_formD by metis
  qed
  have run: "canonical_rel_type x
      = (if normalize_predicate ?u \<noteq> ?u then normalize_predicate ?u
         else if normalize_predicate (unspaced ?u) \<noteq> unspaced ?u then normalize_predicate (unspaced ?u)
         else py_lower ?u)"
    using False by (simp add: canonical_rel_type_def Let_def unspaced_def)
  have "canonical_rel_type (py_lower ?u) = py_lower ?u"
    if "normalize_predicate ?u = ?u" "normalize_predicate (unspaced ?u) = unspaced ?u"
  proof (rule canonical_plain [OF spaced_plain normalize_lower [OF that(1)]], rule disjI1)
    show "normalize_predicate (unspaced (py_lower ?u)) = unspaced (py_lower ?u)"
      unfolding unspaced_lower by (rule normalize_lower [OF that(2)])
  qed
  then show ?thesis using hit unfolding run by auto
qed

text \<open>A witness of the update: an alliance re-typed as hostility.\<close>

definition relation :: "int \<Rightarrow> py_str \<Rightarrow> nexus_payload" where
  "relation pol lab =
     \<lparr>np_subject = ''A'', np_intermediary = None, np_object = ''B'', np_rel_type = ''AlliedWith'',
      np_label = lab, np_polarity = pol, np_confidence = 1 / 2, np_valid_until = None,
      np_source_signal_ids = [], np_source_type = ''agent''\<rparr>"

lemma insert_nexus_updates_relation_witness:
  "current_relation
     (fst (insert_nexus (\<lambda>_. False) 7 2 (relation (- 1) ''hostile'') [] [] None
             [nexus_to_insert 0 1 (relation 1 ''allied'') [] [] None]))
     (typed_triple (nexus_to_insert 7 2 (relation (- 1) ''hostile'') [] [] None))
   = Some (- 1, py_lower ''hostile'')"
proof -
  have ok: "nexuses_ok [nexus_to_insert 0 1 (relation 1 ''allied'') [] [] None]"
    by (simp add: nexuses_ok_def)
  show ?thesis
    using insert_nexus_updates_relation
      [OF ok, where edge_raises = "\<lambda>_. False" and i = 2 and now = 7 and p = "relation (- 1) ''hostile''"
         and d = "[]" and e = "[]" and st = None]
    by (simp add: relation_def)
qed

lemma separator_variants_converge:
  "list_all (\<lambda>s. canonical_rel_type s = ''co occurs with'')
     [''CoOccursWith'', ''co-occurs_with'', ''Co  Occurs With'']"
  by code_simp

end
