(* ===== verification/ManualBatch.thy ===== *)
theory ManualBatch
  imports NexusPlane
begin

text \<open>
  The operator's batch loader over the two writers, \<^verbatim>\<open>data/seed/manual_batch.py\<close>: the pure
  classifiers of a record against its open priors, the per-record application
  (\<^verbatim>\<open>_apply_fact\<close>, \<^verbatim>\<open>_apply_nexus\<close>) and the loop over a lane, in which every record has a
  savepoint of its own. The validation of a batch, its ledger row, the entity and signal
  lanes and the dead-letter answer of \<^verbatim>\<open>write_fact\<close> (a payload that fails its schema) are
  left out.
\<close>

section \<open>Classification\<close>

datatype batch_mode = Skip | Merge | Force

datatype record_action = Create | Supersede | Skipped | Unchanged | Conflict

definition folded :: "py_str \<Rightarrow> py_str" where
  "folded v = py_lower (py_strip v)"

text \<open>A prior fact is its value and tier; a prior nexus its polarity and label.\<close>

definition classify_fact :: "py_str \<Rightarrow> batch_mode \<Rightarrow> (py_str \<times> nat) list \<Rightarrow> nat \<Rightarrow> record_action" where
  "classify_fact incoming_value mode priors incoming_tier =
     (let lv = folded incoming_value;
          same = (\<exists>p \<in> set priors. folded (fst p) = lv);
          diff = filter (\<lambda>p. folded (fst p) \<noteq> lv) priors
      in if mode = Skip then (if priors \<noteq> [] then Skipped else Create)
         else if same then Unchanged
         else if diff = [] then Create
         else if mode = Merge then (if \<exists>p \<in> set diff. snd p > incoming_tier then Conflict else Supersede)
         else Supersede)"

definition classify_nexus :: "int \<Rightarrow> py_str \<Rightarrow> batch_mode \<Rightarrow> (int \<times> py_str) list \<Rightarrow> record_action" where
  "classify_nexus incoming_polarity incoming_label mode priors =
     (let il = folded incoming_label;
          same = (\<exists>p \<in> set priors. fst p = incoming_polarity \<and> folded (snd p) = il)
      in if mode = Skip then (if priors \<noteq> [] then Skipped else Create)
         else if same then Unchanged
         else if priors = [] then Create
         else Supersede)"

section \<open>Application\<close>

record batch_manifest =
  bm_curated :: bool
  bm_default_confidence :: "rat option"

definition source_type_for :: "batch_manifest \<Rightarrow> py_str" where
  "source_type_for manifest = (if bm_curated manifest then ''curated'' else ''manual'')"

record manual_fact =
  mf_subject :: py_str
  mf_predicate :: py_str
  mf_value :: py_str
  mf_valid_from :: instant
  mf_valid_until :: "instant option"
  mf_confidence :: "rat option"
  mf_role :: "py_str option"

text \<open>What one record comes to: an action, or an exception that the savepoint rolls back.\<close>

datatype record_outcome = Acted record_action | Raised

definition open_prior_facts :: "py_str \<Rightarrow> py_str \<Rightarrow> fact_table \<Rightarrow> (py_str \<times> nat) list" where
  "open_prior_facts subject predicate tbl =
     map (\<lambda>r. (fc_value r, source_tier_rank (Some (fc_source_type r))))
       (filter (\<lambda>r. same_text (fc_subject r) subject \<and> same_text (fc_predicate r) predicate
                   \<and> open_fact r \<and> live_fact r) tbl)"

definition fact_confidence :: "manual_fact \<Rightarrow> batch_manifest \<Rightarrow> rat option" where
  "fact_confidence r manifest =
     (case mf_confidence r of Some c \<Rightarrow> Some c | None \<Rightarrow> bm_default_confidence manifest)"

definition manual_payload :: "manual_fact \<Rightarrow> batch_manifest \<Rightarrow> rat \<Rightarrow> fact_payload" where
  "manual_payload r manifest conf =
     \<lparr>fp_subject = mf_subject r, fp_predicate = normalize_predicate (mf_predicate r), fp_value = mf_value r,
      fp_confidence = conf, fp_source_type = source_type_for manifest,
      fp_valid_from = Some (mf_valid_from r), fp_valid_until = mf_valid_until r, fp_role = mf_role r,
      fp_source_ids = []\<rparr>"

definition manual_marks :: "batch_manifest \<Rightarrow> uuid \<Rightarrow> write_marks" where
  "manual_marks manifest batch_id =
     \<lparr>wm_source_type = Some (source_type_for manifest), wm_seed_batch = Some batch_id, wm_origin_class = None\<rparr>"

definition apply_fact ::
  "fact_env \<Rightarrow> instant \<Rightarrow> batch_manifest \<Rightarrow> uuid \<Rightarrow> batch_mode \<Rightarrow> uuid \<Rightarrow> manual_fact \<Rightarrow> fact_table
    \<Rightarrow> fact_table \<times> record_outcome" where
  "apply_fact env now manifest batch_id mode row_id r tbl =
     (let predicate = normalize_predicate (mf_predicate r);
          tier = source_tier_rank (Some (source_type_for manifest));
          action = classify_fact (mf_value r) mode (open_prior_facts (mf_subject r) predicate tbl) tier
      in if action \<in> {Conflict, Skipped, Unchanged} then (tbl, Acted action)
         else let tbl1 = (if action = Supersede
                          then fst (supersede_prior_facts env now (mf_subject r) predicate (mf_value r) row_id None tbl)
                          else tbl)
              in case fact_confidence r manifest of
                   None \<Rightarrow> (tbl, Raised)
                 | Some conf \<Rightarrow>
                     (case insert_fact env now row_id (manual_payload r manifest conf) []
                             (manual_marks manifest batch_id) tbl1 of
                        (tbl2, Inl e) \<Rightarrow> (tbl, Raised)
                      | (tbl2, Inr _) \<Rightarrow> (tbl2, Acted action)))"

text \<open>The facts lane: each record with the uuid drawn for it, in the batch's order.\<close>

fun apply_facts ::
  "fact_env \<Rightarrow> instant \<Rightarrow> batch_manifest \<Rightarrow> uuid \<Rightarrow> batch_mode \<Rightarrow> (uuid \<times> manual_fact) list \<Rightarrow> fact_table
    \<Rightarrow> fact_table \<times> record_outcome list" where
  "apply_facts env now manifest batch_id mode [] tbl = (tbl, [])"
| "apply_facts env now manifest batch_id mode ((row_id, r) # rs) tbl =
     (let (tbl1, outcome) = apply_fact env now manifest batch_id mode row_id r tbl;
          (tbl2, outcomes) = apply_facts env now manifest batch_id mode rs tbl1
      in (tbl2, outcome # outcomes))"

text \<open>The nexus lane; a nexus without any confidence is written with 0.\<close>

record manual_nexus =
  mn_payload :: nexus_payload
  mn_confidence :: "rat option"

definition open_prior_nexuses :: "typed_triple \<Rightarrow> nexus_table \<Rightarrow> (int \<times> py_str) list" where
  "open_prior_nexuses t tbl =
     map (\<lambda>r. (nx_polarity r, nx_label r)) (filter (\<lambda>r. typed_triple r = t \<and> open_nexus r) tbl)"

definition apply_nexus ::
  "(nexus_row \<Rightarrow> bool) \<Rightarrow> instant \<Rightarrow> batch_manifest \<Rightarrow> batch_mode \<Rightarrow> uuid \<Rightarrow> manual_nexus \<Rightarrow> nexus_table
    \<Rightarrow> nexus_table \<times> record_outcome" where
  "apply_nexus edge_raises now manifest mode row_id r tbl =
     (let rel_type = canonical_rel_type (np_rel_type (mn_payload r));
          conf = (case mn_confidence r of Some c \<Rightarrow> Some c | None \<Rightarrow> bm_default_confidence manifest);
          p = (mn_payload r)\<lparr>np_rel_type := rel_type, np_source_signal_ids := [], np_source_type := ''agent'',
                np_confidence := (case conf of Some c \<Rightarrow> c | None \<Rightarrow> 0)\<rparr>;
          t = (py_lower (np_subject p), py_lower (case np_intermediary p of None \<Rightarrow> [] | Some x \<Rightarrow> x),
               py_lower (np_object p), py_lower rel_type);
          action = classify_nexus (np_polarity p) (np_label p) mode (open_prior_nexuses t tbl)
      in if action \<in> {Skipped, Unchanged} then (tbl, Acted action)
         else case insert_nexus edge_raises now row_id p [] [] (Some (source_type_for manifest)) tbl of
                (tbl1, Inl e) \<Rightarrow> (tbl, Raised)
              | (tbl1, Inr _) \<Rightarrow> (tbl1, Acted action))"

section \<open>One open value\<close>

lemma same_text_folded: "same_text a b \<Longrightarrow> folded a = folded b"
  by (metis folded_def same_text_def strip_lower)

lemma normalize_idem [simp]: "normalize_predicate (normalize_predicate x) = normalize_predicate x"
  by (auto simp: normalize_predicate_def [of x] split: option.splits dest!: canonical_formD(3))

text \<open>The open rows of a subject and predicate.\<close>

definition open_values :: "py_str \<Rightarrow> py_str \<Rightarrow> fact_table \<Rightarrow> fact_row set" where
  "open_values s p tbl = {r \<in> set tbl. same_text (fc_subject r) s \<and> same_text (fc_predicate r) p \<and> open_fact r}"

lemma priors_open_values:
  "facts_ok tbl \<Longrightarrow>
   set (open_prior_facts s p tbl)
   = (\<lambda>r. (fc_value r, source_tier_rank (Some (fc_source_type r)))) ` open_values s p tbl"
  using facts_okD(2) by (force simp: open_prior_facts_def open_values_def)

lemma prior_close_all:
  assumes ok: "facts_ok tbl" and new: "i \<notin> fc_id ` set tbl"
    and none: "\<forall>r \<in> open_values s p tbl. \<not> same_text (fc_value r) v"
  shows "open_values s p (fst (supersede_prior_facts env now s p v i None tbl)) = {}"
proof -
  have chosen: "closes env s p v i None r" if "r \<in> open_values s p tbl" for r
    using that none new facts_okD(2) [OF ok]
    by (auto simp: open_values_def closes_def rival_def contested_close_def within_tier_def incoming_rank_def)
  have "{r \<in> set (fst (supersede_prior_facts env now s p v i None tbl)). open_fact r}
      = {r \<in> set tbl. open_fact r \<and> \<not> closes env s p v i None r}"
    by (simp add: supersede_is_update [OF facts_okD(1) [OF ok]] prior.open_after)
  then show ?thesis using chosen by (auto simp: open_values_def)
qed

lemma manual_fact_live: "live_fact (fact_to_insert env now i p d (manual_marks manifest b))"
  by (simp add: live_fact_def fact_to_insert_def manual_marks_def LIVE_CLASSES_def)

lemma insert_into_void:
  assumes ok: "facts_ok tbl" and new: "i \<notin> fc_id ` set tbl"
    and none: "open_values (fp_subject p) (normalize_predicate (fp_predicate p)) tbl = {}"
    and undated: "fp_valid_until p = None"
  shows "open_values (fp_subject p) (normalize_predicate (fp_predicate p)) (fst (insert_fact env now i p d m tbl))
    = {fact_to_insert env now i p d m}"
proof -
  let ?new = "fact_to_insert env now i p d m"
  have sub: "r \<in> set tbl" if "r \<in> set (after_close env now i p st tbl)" "open_fact r" for r st
    using that by (auto simp: set_update_where split: if_splits)
  have own: "same_text (fc_subject ?new) (fp_subject p)"
    "same_text (fc_predicate ?new) (normalize_predicate (fp_predicate p))" "open_fact ?new"
    using undated by (simp_all add: fact_to_insert_def same_text_def open_fact_def)
  show ?thesis
  proof (cases rule: insert_fact_cases [where env = env and now = now and p = p and d = d and m = m, OF ok new])
    case (1 r c)
    have "r \<in> open_values (fp_subject p) (normalize_predicate (fp_predicate p)) tbl"
      using sub [OF 1(1,2)] 1(2,3) by (simp add: open_values_def triple_of_def same_text_def)
    then show ?thesis using none by simp
  next
    case 2
    let ?t = "close_office now p (effective_source_type m p) i (after_close env now i p (effective_source_type m p) tbl)"
    have "open_values (fp_subject p) (normalize_predicate (fp_predicate p)) ?t = {}"
      using none sub close_office_open unfolding open_values_def by blast
    then show ?thesis
      using own unfolding 2(2) open_values_def by auto
  qed
qed

lemma classify_none_same:
  "classify_fact v mode priors tier \<in> {Create, Supersede} \<Longrightarrow> p \<in> set priors \<Longrightarrow> folded (fst p) \<noteq> folded v"
  by (auto simp: classify_fact_def Let_def split: if_splits)

lemma classify_create:
  "classify_fact v mode priors tier = Create \<Longrightarrow> priors = []"
  by (auto simp: classify_fact_def Let_def filter_empty_conv split: if_splits)

text \<open>The effect of a written record, for the property and for a rerun.\<close>

lemma written_record_effect:
  assumes ok: "facts_ok tbl" and new: "i \<notin> fc_id ` set tbl" and undated: "mf_valid_until r = None"
    and acted: "snd (apply_fact env now manifest b mode i r tbl) \<in> {Acted Create, Acted Supersede}"
  shows "\<exists>row. open_values (mf_subject r) (normalize_predicate (mf_predicate r))
                (fst (apply_fact env now manifest b mode i r tbl)) = {row}
    \<and> fc_id row = i \<and> fc_value row = mf_value r \<and> fc_source_type row = source_type_for manifest"
proof -
  let ?p = "normalize_predicate (mf_predicate r)"
  let ?a = "classify_fact (mf_value r) mode (open_prior_facts (mf_subject r) ?p tbl)
              (source_tier_rank (Some (source_type_for manifest)))"
  let ?t1 = "if ?a = Supersede then fst (supersede_prior_facts env now (mf_subject r) ?p (mf_value r) i None tbl) else tbl"
  have a: "?a \<in> {Create, Supersede}"
    using acted by (auto simp: apply_fact_def Let_def split: if_splits option.splits sum.splits prod.splits)
  from a acted obtain conf where conf: "fact_confidence r manifest = Some conf"
    by (cases "fact_confidence r manifest") (auto simp: apply_fact_def Let_def)
  let ?pay = "manual_payload r manifest conf" and ?m = "manual_marks manifest b"
  have run: "fst (apply_fact env now manifest b mode i r tbl) = fst (insert_fact env now i ?pay [] ?m ?t1)"
    using a acted conf by (auto simp: apply_fact_def Let_def split: sum.splits prod.splits)
  have ok1: "facts_ok ?t1" and ids: "fc_id ` set ?t1 = fc_id ` set tbl"
    using ok by (simp_all add: supersede_is_update [OF facts_okD(1) [OF ok]] prior.closer_keeps_ok
        ids_of_map [OF prior.closed_ids])
  have differ: "\<not> same_text (fc_value q) (mf_value r)" if "q \<in> open_values (mf_subject r) ?p tbl" for q
    using classify_none_same [OF a] that same_text_folded unfolding priors_open_values [OF ok] by fastforce
  have none: "open_values (mf_subject r) ?p ?t1 = {}"
  proof (cases "?a = Supersede")
    case True
    then show ?thesis using prior_close_all [OF ok new, of "mf_subject r" ?p "mf_value r"] differ by simp
  next
    case False
    then have "open_prior_facts (mf_subject r) ?p tbl = []" using a classify_create by blast
    then show ?thesis using priors_open_values [OF ok, of "mf_subject r" ?p] False by simp
  qed
  have "open_values (mf_subject r) ?p (fst (insert_fact env now i ?pay [] ?m ?t1)) = {fact_to_insert env now i ?pay [] ?m}"
    using insert_into_void [where p = ?pay and i = i, OF ok1 _ _ _] new ids none undated
    by (simp add: manual_payload_def)
  then show ?thesis unfolding run
    by (simp add: fact_to_insert_def manual_payload_def manual_marks_def effective_source_type_def source_type_for_def)
qed

text \<open>C25: when a record without an expiry is created or supersedes, its value is the one open
  row of its subject and predicate afterwards, in every mode, whatever the tiers of the
  priors and whether or not contested values may coexist.
\<close>

theorem written_record_is_the_open_truth:
  assumes ok: "facts_ok tbl" and new: "i \<notin> fc_id ` set tbl" and undated: "mf_valid_until r = None"
    and acted: "snd (apply_fact env now manifest b mode i r tbl) \<in> {Acted Create, Acted Supersede}"
  shows "\<exists>row. open_values (mf_subject r) (normalize_predicate (mf_predicate r))
                (fst (apply_fact env now manifest b mode i r tbl)) = {row}
    \<and> fc_id row = i \<and> fc_value row = mf_value r \<and> fc_source_type row = source_type_for manifest"
  by (rule written_record_effect [OF assms])

lemma apply_fact_run:
  assumes "classify_fact (mf_value r) mode (open_prior_facts (mf_subject r) (normalize_predicate (mf_predicate r)) tbl)
      (source_tier_rank (Some (source_type_for manifest))) \<in> {Conflict, Skipped, Unchanged}"
  shows "apply_fact env now manifest b mode i r tbl
    = (tbl, Acted (classify_fact (mf_value r) mode
        (open_prior_facts (mf_subject r) (normalize_predicate (mf_predicate r)) tbl)
        (source_tier_rank (Some (source_type_for manifest)))))"
  using assms by (simp add: apply_fact_def Let_def)

lemma classify_standing:
  "p \<in> set priors \<Longrightarrow> folded (fst p) = folded v
    \<Longrightarrow> classify_fact v mode priors tier = (if mode = Skip then Skipped else Unchanged)"
  by (auto simp: classify_fact_def Let_def)

lemma apply_standing:
  assumes "facts_ok tbl" "q \<in> open_values (mf_subject r) (normalize_predicate (mf_predicate r)) tbl"
    and "folded (fc_value q) = folded (mf_value r)"
  shows "apply_fact env now manifest b mode i r tbl
    = (tbl, Acted (if mode = Skip then Skipped else Unchanged))"
proof -
  have "(fc_value q, source_tier_rank (Some (fc_source_type q)))
      \<in> set (open_prior_facts (mf_subject r) (normalize_predicate (mf_predicate r)) tbl)"
    unfolding priors_open_values [OF assms(1)] using assms(2) by blast
  from classify_standing [OF this, of "mf_value r" mode] assms(3) show ?thesis
    by (subst apply_fact_run) auto
qed

lemma manual_origin:
  "fact_to_insert env now i (manual_payload r manifest conf) d (manual_marks manifest b) = x
    \<Longrightarrow> live_fact x"
  using manual_fact_live by blast

text \<open>Every record keeps the invariant; what raises or is refused leaves the table alone.\<close>

lemma apply_fact_table:
  fixes env now manifest b mode i r tbl
  defines "t1 \<equiv> fst (supersede_prior_facts env now (mf_subject r) (normalize_predicate (mf_predicate r))
                      (mf_value r) i None tbl)"
  shows "fst (apply_fact env now manifest b mode i r tbl) = tbl
    \<or> (\<exists>conf. \<exists>t \<in> {tbl, t1}. fst (apply_fact env now manifest b mode i r tbl)
          = fst (insert_fact env now i (manual_payload r manifest conf) [] (manual_marks manifest b) t))"
proof -
  define a where "a = classify_fact (mf_value r) mode
      (open_prior_facts (mf_subject r) (normalize_predicate (mf_predicate r)) tbl)
      (source_tier_rank (Some (source_type_for manifest)))"
  define t where "t = (if a = Supersede then t1 else tbl)"
  have t: "t \<in> {tbl, t1}" by (simp add: t_def)
  have run: "apply_fact env now manifest b mode i r tbl
      = (if a \<in> {Conflict, Skipped, Unchanged} then (tbl, Acted a)
         else case fact_confidence r manifest of None \<Rightarrow> (tbl, Raised)
              | Some conf \<Rightarrow> (case insert_fact env now i (manual_payload r manifest conf) []
                                 (manual_marks manifest b) t of
                                (tbl2, Inl e) \<Rightarrow> (tbl, Raised) | (tbl2, Inr _) \<Rightarrow> (tbl2, Acted a)))"
    unfolding apply_fact_def Let_def a_def t_def t1_def by (rule refl)
  show ?thesis
  proof (cases "a \<in> {Conflict, Skipped, Unchanged} \<or> fact_confidence r manifest = None")
    case True
    then show ?thesis unfolding run by auto
  next
    case False
    then obtain conf where conf: "fact_confidence r manifest = Some conf" by auto
    obtain t' e where ins: "insert_fact env now i (manual_payload r manifest conf) [] (manual_marks manifest b) t = (t', e)"
      by (cases "insert_fact env now i (manual_payload r manifest conf) [] (manual_marks manifest b) t")
    show ?thesis
    proof (cases e)
      case (Inl x)
      then show ?thesis unfolding run using False conf ins by simp
    next
      case (Inr x)
      then have "fst (apply_fact env now manifest b mode i r tbl)
          = fst (insert_fact env now i (manual_payload r manifest conf) [] (manual_marks manifest b) t)"
        unfolding run using False conf ins by simp
      then show ?thesis using t by blast
    qed
  qed
qed

lemma apply_fact_ok:
  assumes ok: "facts_ok tbl" and new: "i \<notin> fc_id ` set tbl"
  shows "facts_ok (fst (apply_fact env now manifest b mode i r tbl))
    \<and> fc_id ` set (fst (apply_fact env now manifest b mode i r tbl)) \<subseteq> insert i (fc_id ` set tbl)"
proof -
  let ?t1 = "fst (supersede_prior_facts env now (mf_subject r) (normalize_predicate (mf_predicate r)) (mf_value r) i None tbl)"
  have t1: "facts_ok ?t1" "fc_id ` set ?t1 = fc_id ` set tbl"
    using ok by (simp_all add: supersede_is_update [OF facts_okD(1) [OF ok]] prior.closer_keeps_ok
        ids_of_map [OF prior.closed_ids])
  have ins: "facts_ok (fst (insert_fact env now i p d (manual_marks manifest b) t))
      \<and> fc_id ` set (fst (insert_fact env now i p d (manual_marks manifest b) t)) \<subseteq> insert i (fc_id ` set tbl)"
    if "t \<in> {tbl, ?t1}" for p d t
  proof -
    have t: "facts_ok t" "fc_id ` set t = fc_id ` set tbl" using that ok t1 by auto
    then have n: "i \<notin> fc_id ` set t" using new by simp
    obtain t' where "insert_fact env now i p d (manual_marks manifest b) t = (t', Inr ())" "facts_ok t'"
      using insert_fact_ok [OF t(1) n manual_fact_live] by blast
    then show ?thesis using insert_fact_ids [OF t(1) n, of env now p d "manual_marks manifest b"] t(2) by simp
  qed
  from apply_fact_table [of env now manifest b mode i r tbl] show ?thesis
  proof
    assume "fst (apply_fact env now manifest b mode i r tbl) = tbl"
    then show ?thesis using ok by auto
  next
    assume "\<exists>conf. \<exists>t \<in> {tbl, ?t1}. fst (apply_fact env now manifest b mode i r tbl)
          = fst (insert_fact env now i (manual_payload r manifest conf) [] (manual_marks manifest b) t)"
    then obtain conf t where "t \<in> {tbl, ?t1}" "fst (apply_fact env now manifest b mode i r tbl)
          = fst (insert_fact env now i (manual_payload r manifest conf) [] (manual_marks manifest b) t)" by blast
    with ins [of t] show ?thesis by simp
  qed
qed

lemma fresh_after:
  assumes "A \<subseteq> insert i B" "i \<notin> C" "insert i C \<inter> B = {}"
  shows "C \<inter> A = {}"
  using assms by blast

lemma apply_facts_ok:
  assumes "facts_ok tbl" and "distinct (map fst rs)" and "set (map fst rs) \<inter> fc_id ` set tbl = {}"
  shows "facts_ok (fst (apply_facts env now manifest b mode rs tbl))
    \<and> length (snd (apply_facts env now manifest b mode rs tbl)) = length rs"
  using assms
proof (induction rs arbitrary: tbl)
  case Nil
  then show ?case by simp
next
  case (Cons x rs)
  obtain i r where x: "x = (i, r)" by (cases x)
  let ?t = "fst (apply_fact env now manifest b mode i r tbl)"
  have new: "i \<notin> fc_id ` set tbl" using Cons.prems(3) x by auto
  have ok: "facts_ok ?t" by (rule conjunct1 [OF apply_fact_ok [OF Cons.prems(1) new]])
  have sub: "fc_id ` set ?t \<subseteq> insert i (fc_id ` set tbl)"
    by (rule conjunct2 [OF apply_fact_ok [OF Cons.prems(1) new]])
  have fresh: "set (map fst rs) \<inter> fc_id ` set ?t = {}"
    by (rule fresh_after [OF sub]) (use Cons.prems(2,3) x in simp_all)
  have "distinct (map fst rs)" using Cons.prems(2) by simp
  from Cons.IH [OF ok this fresh] show ?case by (simp add: x case_prod_unfold Let_def)
qed

text \<open>
  A record that was written is left alone when the batch runs again, in any
  mode: a rerun is the identity on the table.
\<close>

theorem rerun_of_record_is_noop:
  assumes ok: "facts_ok tbl" and new: "i \<notin> fc_id ` set tbl" and undated: "mf_valid_until r = None"
    and acted: "snd (apply_fact env now manifest b mode i r tbl) \<in> {Acted Create, Acted Supersede}"
  shows "apply_fact env' now' manifest b mode' j r (fst (apply_fact env now manifest b mode i r tbl))
    = (fst (apply_fact env now manifest b mode i r tbl), Acted (if mode' = Skip then Skipped else Unchanged))"
proof -
  from written_record_effect [OF ok new undated acted] obtain row where
    "open_values (mf_subject r) (normalize_predicate (mf_predicate r))
       (fst (apply_fact env now manifest b mode i r tbl)) = {row}" "fc_value row = mf_value r" by blast
  with apply_fact_ok [OF ok new] show ?thesis by (intro apply_standing) auto
qed

text \<open>
  An operator's force decides nothing between contested values: when the forced value
  is already one of several open values, nothing is written and the others stay open.
\<close>

theorem force_leaves_contested_values:
  assumes "facts_ok tbl" and "q \<in> open_values (mf_subject r) (normalize_predicate (mf_predicate r)) tbl"
    and "folded (fc_value q) = folded (mf_value r)"
    and "q' \<in> open_values (mf_subject r) (normalize_predicate (mf_predicate r)) tbl"
  shows "apply_fact env now manifest b Force i r tbl = (tbl, Acted Unchanged)
    \<and> q' \<in> open_values (mf_subject r) (normalize_predicate (mf_predicate r))
            (fst (apply_fact env now manifest b Force i r tbl))"
  using apply_standing [OF assms(1-3), of env now manifest b Force i] assms(4) by simp

text \<open>Merge refuses exactly where a differing prior outranks the batch, and refusing writes nothing.\<close>

theorem merge_conflict_iff_outranked:
  assumes ok: "facts_ok tbl"
  shows "apply_fact env now manifest b Merge i r tbl = (tbl, Acted Conflict)
    \<longleftrightarrow> (\<forall>q \<in> open_values (mf_subject r) (normalize_predicate (mf_predicate r)) tbl. folded (fc_value q) \<noteq> folded (mf_value r))
      \<and> (\<exists>q \<in> open_values (mf_subject r) (normalize_predicate (mf_predicate r)) tbl.
            source_tier_rank (Some (fc_source_type q)) > source_tier_rank (Some (source_type_for manifest)))"
    (is "?L \<longleftrightarrow> ?R")
proof -
  let ?a = "classify_fact (mf_value r) Merge (open_prior_facts (mf_subject r) (normalize_predicate (mf_predicate r)) tbl)
      (source_tier_rank (Some (source_type_for manifest)))"
  have R: "?a = Conflict \<longleftrightarrow> ?R"
    using priors_open_values [OF ok, of "mf_subject r" "normalize_predicate (mf_predicate r)"]
    by (cases "open_prior_facts (mf_subject r) (normalize_predicate (mf_predicate r)) tbl = []")
      (auto simp: classify_fact_def Let_def filter_empty_conv)
  have "?a = Conflict" if ?L
  proof (rule ccontr)
    assume "?a \<noteq> Conflict"
    with that show False
      by (auto simp: apply_fact_def Let_def split: if_splits option.splits sum.splits prod.splits)
  qed
  moreover have ?L if "?a = Conflict" using that by (subst apply_fact_run) auto
  ultimately show ?thesis using R by blast
qed

text \<open>
  A record with an expiry is created anew by every run of the batch, in the
  insert-if-absent mode too: the row it writes is never open, so it is never found present.
\<close>

lemma dated_record_step:
  assumes ok: "facts_ok tbl" and new: "i \<notin> fc_id ` set tbl" and dated: "mf_valid_until r \<noteq> None"
    and conf: "fact_confidence r manifest = Some c"
    and none: "open_values (mf_subject r) (normalize_predicate (mf_predicate r)) tbl = {}"
  shows "snd (apply_fact env now manifest b mode i r tbl) = Acted Create
    \<and> length (fst (apply_fact env now manifest b mode i r tbl)) = Suc (length tbl)
    \<and> open_values (mf_subject r) (normalize_predicate (mf_predicate r)) (fst (apply_fact env now manifest b mode i r tbl)) = {}"
proof -
  let ?p = "normalize_predicate (mf_predicate r)" and ?pay = "manual_payload r manifest c"
    and ?m = "manual_marks manifest b"
  have "open_prior_facts (mf_subject r) ?p tbl = []" using priors_open_values [OF ok, of "mf_subject r" ?p] none by simp
  then have a: "classify_fact (mf_value r) mode (open_prior_facts (mf_subject r) ?p tbl)
      (source_tier_rank (Some (source_type_for manifest))) = Create"
    by (simp add: classify_fact_def)
  have no: "\<forall>q \<in> set tbl. open_fact q \<longrightarrow> triple_of q \<noteq> own_triple ?pay"
    using none by (auto simp: open_values_def triple_of_def same_text_def manual_payload_def)
  have d: "fp_valid_until ?pay \<noteq> None" using dated by (simp add: manual_payload_def)
  obtain t where t: "insert_fact env now i ?pay [] ?m tbl = (t, Inr ())"
    using insert_fact_ok [OF ok new manual_fact_live] by blast
  have run: "apply_fact env now manifest b mode i r tbl = (t, Acted Create)"
    using a conf t by (simp add: apply_fact_def Let_def)
  have len: "length t = Suc (length tbl)"
    using dated_import [OF ok new manual_fact_live [where manifest = manifest and b = b] d no, where env = env and now = now and d = "[]"] t by simp
  have "open_values (mf_subject r) ?p t = {}"
  proof (cases rule: insert_fact_cases [where env = env and now = now and p = ?pay and d = "[]" and m = ?m, OF ok new])
    case (1 q c')
    have "q \<in> set tbl" using 1(1,2) by (auto simp: set_update_where split: if_splits)
    then show ?thesis using no 1(2,3) by blast
  next
    case 2
    have sub: "q \<in> set tbl" if "q \<in> set (after_close env now i ?pay st tbl)" "open_fact q" for q st
      using that by (auto simp: set_update_where split: if_splits)
    let ?t = "close_office now ?pay (effective_source_type ?m ?pay) i (after_close env now i ?pay (effective_source_type ?m ?pay) tbl)"
    have "t = ?t @ [fact_to_insert env now i ?pay [] ?m]" using 2(2) t by simp
    moreover have "open_values (mf_subject r) ?p ?t = {}"
      using none sub close_office_open unfolding open_values_def by blast
    moreover have "\<not> open_fact (fact_to_insert env now i ?pay [] ?m)" using d by (simp add: open_fact_to_insert)
    ultimately show ?thesis by (auto simp: open_values_def)
  qed
  then show ?thesis using run len by simp
qed

text \<open>
  A dated record is created again by each of \<open>n\<close> runs of its batch, in every mode.
\<close>

theorem dated_record_is_recreated:
  assumes "facts_ok tbl" and "distinct ids" and "set ids \<inter> fc_id ` set tbl = {}"
    and "mf_valid_until r \<noteq> None" and "fact_confidence r manifest = Some c"
    and "open_values (mf_subject r) (normalize_predicate (mf_predicate r)) tbl = {}"
  shows "snd (apply_facts env now manifest b mode (map (\<lambda>i. (i, r)) ids) tbl) = replicate (length ids) (Acted Create)
    \<and> length (fst (apply_facts env now manifest b mode (map (\<lambda>i. (i, r)) ids) tbl)) = length tbl + length ids"
  using assms
proof (induction ids arbitrary: tbl)
  case Nil
  then show ?case by simp
next
  case (Cons i ids)
  let ?t = "fst (apply_fact env now manifest b mode i r tbl)"
  have new: "i \<notin> fc_id ` set tbl" using Cons.prems(3) by auto
  note step = dated_record_step [where env = env and now = now and b = b and mode = mode,
      OF Cons.prems(1) new Cons.prems(4-6)]
  have ok: "facts_ok ?t" by (rule conjunct1 [OF apply_fact_ok [OF Cons.prems(1) new]])
  have sub: "fc_id ` set ?t \<subseteq> insert i (fc_id ` set tbl)"
    by (rule conjunct2 [OF apply_fact_ok [OF Cons.prems(1) new]])
  have fresh: "set ids \<inter> fc_id ` set ?t = {}"
    by (rule fresh_after [OF sub]) (use Cons.prems(2,3) in simp_all)
  have "distinct ids" using Cons.prems(2) by simp
  from Cons.IH [OF ok this fresh Cons.prems(4,5)] step show ?case
    by (simp add: case_prod_unfold Let_def)
qed

section \<open>The nexus lane\<close>

text \<open>A relation that was created or superseded by a record holds afterwards with its sign and label.\<close>

theorem written_relation_is_current:
  assumes ok: "nexuses_ok tbl" and new: "i \<notin> nx_id ` set tbl" and undated: "np_valid_until (mn_payload r) = None"
    and acted: "snd (apply_nexus edge_raises now manifest mode i r tbl) \<in> {Acted Create, Acted Supersede}"
  shows "current_relation (fst (apply_nexus edge_raises now manifest mode i r tbl))
      (py_lower (np_subject (mn_payload r)),
       py_lower (case np_intermediary (mn_payload r) of None \<Rightarrow> [] | Some x \<Rightarrow> x),
       py_lower (np_object (mn_payload r)), py_lower (canonical_rel_type (np_rel_type (mn_payload r))))
    = Some (np_polarity (mn_payload r), py_lower (np_label (mn_payload r)))"
proof -
  let ?conf = "case mn_confidence r of Some c \<Rightarrow> Some c | None \<Rightarrow> bm_default_confidence manifest"
  let ?p = "(mn_payload r)\<lparr>np_rel_type := canonical_rel_type (np_rel_type (mn_payload r)), np_source_signal_ids := [],
      np_source_type := ''agent'', np_confidence := (case ?conf of Some c \<Rightarrow> c | None \<Rightarrow> 0)\<rparr>"
  let ?run = "insert_nexus edge_raises now i ?p [] [] (Some (source_type_for manifest)) tbl"
  let ?new = "nexus_to_insert now i ?p [] [] (Some (source_type_for manifest))"
  obtain t' where run: "?run = (t', Inr ())" and fst: "fst (apply_nexus edge_raises now manifest mode i r tbl) = t'"
    using acted by (auto simp: apply_nexus_def Let_def split: if_splits sum.splits prod.splits)
  have edge: "\<not> edge_raises ?new" using run by (auto simp: insert_nexus_def Let_def)
  from insert_nexus_current [where edge_raises = edge_raises, OF ok new edge] undated
  have "current_relation t' (typed_triple ?new) = Some (np_polarity ?p, py_lower (np_label ?p))"
    using run by simp
  then show ?thesis unfolding fst
    by (simp add: typed_triple_def nexus_to_insert_def canonical_rel_type_idempotent)
qed

section \<open>The properties at concrete batches\<close>

definition operator_batch :: batch_manifest where
  "operator_batch = \<lparr>bm_curated = False, bm_default_confidence = Some (1 / 2)\<rparr>"

definition manual_record :: "py_str \<Rightarrow> instant option \<Rightarrow> manual_fact" where
  "manual_record v expiry =
     \<lparr>mf_subject = ''France'', mf_predicate = ''HeadOfState'', mf_value = v, mf_valid_from = 5,
      mf_valid_until = expiry, mf_confidence = None, mf_role = None\<rparr>"

lemma stored_open_value:
  "stored i v st \<in> set tbl \<Longrightarrow>
   stored i v st \<in> open_values (mf_subject (manual_record w u)) (normalize_predicate (mf_predicate (manual_record w u))) tbl"
  by (simp add: open_values_def manual_record_def same_text_def)
    (simp add: stored_def fact_to_insert_def asserts_def)

lemma written_record_is_the_open_truth_witness:
  "\<exists>row. open_values (mf_subject (manual_record ''B'' None)) (normalize_predicate (mf_predicate (manual_record ''B'' None)))
      (fst (apply_fact contested_env 7 operator_batch 9 Force 2 (manual_record ''B'' None) [stored 1 ''A'' ''seed''])) = {row}
    \<and> fc_id row = 2"
proof -
  have acted: "snd (apply_fact contested_env 7 operator_batch 9 Force 2 (manual_record ''B'' None) [stored 1 ''A'' ''seed''])
      = Acted Supersede"
    by code_simp
  have ok: "facts_ok [stored 1 ''A'' ''seed'']" by (rule one_sample_ok)
  have undated: "mf_valid_until (manual_record ''B'' None) = None" by (simp add: manual_record_def)
  show ?thesis
    using written_record_is_the_open_truth
      [OF ok _ undated, where i = 2 and env = contested_env and now = 7
         and manifest = operator_batch and b = 9 and mode = Force] acted
    by auto
qed

lemma force_leaves_contested_values_witness:
  "apply_fact plain_env 7 operator_batch 9 Force 3 (manual_record ''B'' None)
     [stored 1 ''A'' ''seed'', stored 2 ''B'' ''agent'']
   = ([stored 1 ''A'' ''seed'', stored 2 ''B'' ''agent''], Acted Unchanged)"
proof -
  have "folded (fc_value (stored 2 ''B'' ''agent'')) = folded (mf_value (manual_record ''B'' None))" by code_simp
  from force_leaves_contested_values [OF samples_ok stored_open_value this stored_open_value, of 1 "''A''" "''seed''"]
  show ?thesis by simp
qed

lemma dated_record_is_recreated_witness:
  "snd (apply_facts plain_env 7 operator_batch 9 Skip (map (\<lambda>i. (i, manual_record ''A'' (Some 99))) [1, 2, 3]) [])
   = [Acted Create, Acted Create, Acted Create]"
proof -
  have ok: "facts_ok []" by (simp add: facts_ok_def)
  have dated: "mf_valid_until (manual_record ''A'' (Some 99)) \<noteq> None" by (simp add: manual_record_def)
  have conf: "fact_confidence (manual_record ''A'' (Some 99)) operator_batch = Some (1 / 2)"
    by (simp add: fact_confidence_def manual_record_def operator_batch_def)
  have "open_values s p [] = {}" for s p by (simp add: open_values_def)
  from dated_record_is_recreated [OF ok _ _ dated conf this, of "[1, 2, 3]" plain_env 7 9 Skip]
  show ?thesis by (simp add: eval_nat_numeral)
qed

end
