(* ===== verification/FactDecay.thy ===== *)
theory FactDecay
  imports NexusPlane
begin

text \<open>
  The decay of a fact's confidence with the time since it was last sighted,
  \<^verbatim>\<open>data/facts/decay.py\<close>: the table of curves, its overlay by an operator's file, the
  classification of a predicate, the retention polynomial and the readout. Numbers are
  reals (the code's are floats) and \<^verbatim>\<open>**\<close> is \<open>powr\<close>. Reading and decoding the operator's file
  is an argument, which gives the decoded overlay or nothing.
\<close>

section \<open>Curves and configuration\<close>

record decay_class =
  dk_name :: py_str
  dk_lifetime_days :: real
  dk_decay_speed :: real

text \<open>The constructor with its checks; \<^verbatim>\<open>ValueError\<close> is \<open>None\<close>.\<close>

definition make_decay_class :: "py_str \<Rightarrow> real \<Rightarrow> real \<Rightarrow> decay_class option" where
  "make_decay_class name lifetime speed =
     (if \<not> lifetime > 0 then None
      else if \<not> (0 < speed \<and> speed \<le> 1) then None
      else Some \<lparr>dk_name = name, dk_lifetime_days = lifetime, dk_decay_speed = speed\<rparr>)"

definition DEFAULT_DECAY_CLASSES :: "(py_str \<times> decay_class) list" where
  "DEFAULT_DECAY_CLASSES =
     [(''structural'', \<lparr>dk_name = ''structural'', dk_lifetime_days = 1460, dk_decay_speed = 1 / 5\<rparr>),
      (''officeholder'', \<lparr>dk_name = ''officeholder'', dk_lifetime_days = 730, dk_decay_speed = 1 / 4\<rparr>),
      (''affiliation'', \<lparr>dk_name = ''affiliation'', dk_lifetime_days = 365, dk_decay_speed = 3 / 10\<rparr>),
      (''stance'', \<lparr>dk_name = ''stance'', dk_lifetime_days = 180, dk_decay_speed = 3 / 10\<rparr>),
      (''event'', \<lparr>dk_name = ''event'', dk_lifetime_days = 45, dk_decay_speed = 1 / 2\<rparr>),
      (''default'', \<lparr>dk_name = ''default'', dk_lifetime_days = 120, dk_decay_speed = 3 / 10\<rparr>)]"

definition DEFAULT_PREDICATE_CLASSES :: "(py_str \<times> py_str) list" where
  "DEFAULT_PREDICATE_CLASSES =
     map (\<lambda>p. (p, ''structural''))
       [''located in'', ''capital of'', ''part of'', ''border with'', ''borders'', ''headquarters in'',
        ''headquartered in'', ''subsidiary of'', ''founded by'']
     @ map (\<lambda>p. (p, ''officeholder''))
       [''leader of'', ''head of state'', ''head of government'', ''spokesperson for'', ''employed by'',
        ''works for'']
     @ map (\<lambda>p. (p, ''affiliation''))
       [''member of'', ''allied with'', ''ally of'', ''affiliated with'', ''operates in'', ''party to'']
     @ map (\<lambda>p. (p, ''stance''))
       [''hostile to'', ''in active conflict with'', ''conflict with'', ''controls'', ''opponent of'',
        ''sanctioned by'', ''sanctions'', ''supplies to'', ''supplies weapons to'', ''arms transfer to'',
        ''signed agreement with'']
     @ map (\<lambda>p. (p, ''event''))
       [''involved in conflict event'', ''involved in'', ''targets'', ''conducted via'', ''attacked'',
        ''reported'', ''negotiated'', ''imposed'']"

definition DEFAULT_SOURCE_TYPE_MULTIPLIERS :: "(py_str \<times> real) list" where
  "DEFAULT_SOURCE_TYPE_MULTIPLIERS = [(''seed'', 2), (''curated'', 2)]"

definition REACTION_POINT_FRESH :: real where
  "REACTION_POINT_FRESH = 85 / 100"

definition REACTION_POINT_AGING :: real where
  "REACTION_POINT_AGING = 1 / 2"

definition REVOKE_THRESHOLD :: real where
  "REVOKE_THRESHOLD = 1 / 5"

record decay_config =
  dc_classes :: "(py_str \<times> decay_class) list"
  dc_predicate_classes :: "(py_str \<times> py_str) list"
  dc_multipliers :: "(py_str \<times> real) list"
  dc_fresh :: real
  dc_aging :: real
  dc_revoke :: real

text \<open>\<^verbatim>\<open>__post_init__\<close>.\<close>

definition make_config :: "decay_config \<Rightarrow> decay_config option" where
  "make_config cfg =
     (if map_of (dc_classes cfg) ''default'' = None then None
      else if \<not> (0 < dc_aging cfg \<and> dc_aging cfg \<le> dc_fresh cfg \<and> dc_fresh cfg \<le> 1) then None
      else if \<not> (0 \<le> dc_revoke cfg \<and> dc_revoke cfg < 1) then None
      else if \<exists>(pred, cls) \<in> set (dc_predicate_classes cfg). map_of (dc_classes cfg) cls = None then None
      else Some cfg)"

definition default_decay_config :: decay_config where
  "default_decay_config =
     \<lparr>dc_classes = DEFAULT_DECAY_CLASSES, dc_predicate_classes = DEFAULT_PREDICATE_CLASSES,
      dc_multipliers = DEFAULT_SOURCE_TYPE_MULTIPLIERS, dc_fresh = REACTION_POINT_FRESH,
      dc_aging = REACTION_POINT_AGING, dc_revoke = REVOKE_THRESHOLD\<rparr>"

section \<open>The operator's overlay\<close>

text \<open>The decoded file: absent keys are \<open>None\<close>, absent objects are empty.\<close>

record decay_overlay =
  ov_classes :: "(py_str \<times> real option \<times> real option) list"
  ov_predicate_classes :: "(py_str \<times> py_str) list"
  ov_multipliers :: "(py_str \<times> real) list"
  ov_fresh :: "real option"
  ov_aging :: "real option"
  ov_revoke :: "real option"

definition or_else :: "'a option \<Rightarrow> 'a \<Rightarrow> 'a" where
  "or_else x d = (case x of None \<Rightarrow> d | Some v \<Rightarrow> v)"

fun overlay_classes ::
  "(py_str \<times> real option \<times> real option) list \<Rightarrow> (py_str \<times> decay_class) list
    \<Rightarrow> (py_str \<times> decay_class) list option" where
  "overlay_classes [] classes = Some classes"
| "overlay_classes ((name, lifetime, speed) # specs) classes =
     (let base = map_of classes name
      in case make_decay_class name
                (or_else lifetime (case base of Some b \<Rightarrow> dk_lifetime_days b | None \<Rightarrow> 0))
                (or_else speed (case base of Some b \<Rightarrow> dk_decay_speed b | None \<Rightarrow> 0)) of
           None \<Rightarrow> None
         | Some cls \<Rightarrow> overlay_classes specs (AList.update name cls classes))"

fun overlay_with :: "('v \<Rightarrow> 'v) \<Rightarrow> (py_str \<Rightarrow> py_str) \<Rightarrow> (py_str \<times> 'v) list \<Rightarrow> (py_str \<times> 'v) list \<Rightarrow> (py_str \<times> 'v) list" where
  "overlay_with val key [] tbl = tbl"
| "overlay_with val key ((k, v) # kvs) tbl = overlay_with val key kvs (AList.update (key k) (val v) tbl)"

text \<open>The body of the \<^verbatim>\<open>try\<close>; whatever raises in it ends in the defaults.\<close>

definition overlaid_config :: "decay_overlay \<Rightarrow> decay_config option" where
  "overlaid_config raw =
     (case overlay_classes (ov_classes raw) DEFAULT_DECAY_CLASSES of
        None \<Rightarrow> None
      | Some classes \<Rightarrow>
          make_config
            \<lparr>dc_classes = classes,
             dc_predicate_classes =
               overlay_with (\<lambda>c. c) (\<lambda>p. py_lower (py_strip p)) (ov_predicate_classes raw) DEFAULT_PREDICATE_CLASSES,
             dc_multipliers = overlay_with (\<lambda>m. m) (\<lambda>s. s) (ov_multipliers raw) DEFAULT_SOURCE_TYPE_MULTIPLIERS,
             dc_fresh = or_else (ov_fresh raw) REACTION_POINT_FRESH,
             dc_aging = or_else (ov_aging raw) REACTION_POINT_AGING,
             dc_revoke = or_else (ov_revoke raw) REVOKE_THRESHOLD\<rparr>)"

definition load_decay_config :: "(py_str \<Rightarrow> decay_overlay option) \<Rightarrow> py_str option \<Rightarrow> decay_config" where
  "load_decay_config read_overlay path =
     (let p = py_strip (or_else path [])
      in if p = [] then default_decay_config
         else case read_overlay p of
                None \<Rightarrow> default_decay_config
              | Some raw \<Rightarrow> (case overlaid_config raw of None \<Rightarrow> default_decay_config | Some cfg \<Rightarrow> cfg))"

section \<open>The readout\<close>

definition decay_key :: "py_str option \<Rightarrow> py_str" where
  "decay_key predicate =
     (if truthy predicate \<and> py_strip (the predicate) \<noteq> []
      then py_lower (py_strip (normalize_predicate (the predicate))) else [])"

definition classify_fact_decay :: "decay_config \<Rightarrow> py_str option \<Rightarrow> decay_class" where
  "classify_fact_decay cfg predicate =
     (let name = or_else (map_of (dc_predicate_classes cfg) (decay_key predicate)) ''default''
      in case map_of (dc_classes cfg) name of
           Some c \<Rightarrow> c | None \<Rightarrow> the (map_of (dc_classes cfg) ''default''))"

definition source_multiplier :: "decay_config \<Rightarrow> py_str option \<Rightarrow> real" where
  "source_multiplier cfg source_type =
     (let mult = (if truthy source_type
                  then or_else (map_of (dc_multipliers cfg) (py_lower (py_strip (the source_type)))) 1 else 1)
      in if mult \<le> 0 then 1 else mult)"

definition effective_lifetime_days :: "decay_config \<Rightarrow> decay_class \<Rightarrow> py_str option \<Rightarrow> real" where
  "effective_lifetime_days cfg cls source_type = dk_lifetime_days cls * source_multiplier cfg source_type"

definition retention_factor :: "real \<Rightarrow> real \<Rightarrow> real \<Rightarrow> real" where
  "retention_factor elapsed lifetime speed =
     (if lifetime \<le> 0 then 0
      else let t = max 0 elapsed
           in if t \<ge> lifetime then 0
              else min 1 (max 0 (1 - (t / lifetime) powr (1 / speed))))"

text \<open>\<^verbatim>\<open>DECAY_STATES\<close>, in its order from least to most decayed.\<close>

datatype decay_state = Fresh | Aging | Stale | Revoke_candidate

fun decay_rank :: "decay_state \<Rightarrow> nat" where
  "decay_rank Fresh = 0"
| "decay_rank Aging = 1"
| "decay_rank Stale = 2"
| "decay_rank Revoke_candidate = 3"

lemma decay_rank_inj: "decay_rank a = decay_rank b \<Longrightarrow> a = b"
  by (cases a; cases b) simp_all

instantiation decay_state :: linorder
begin

definition less_eq_decay_state :: "decay_state \<Rightarrow> decay_state \<Rightarrow> bool" where
  "less_eq_decay_state a b = (decay_rank a \<le> decay_rank b)"

definition less_decay_state :: "decay_state \<Rightarrow> decay_state \<Rightarrow> bool" where
  "less_decay_state a b = (decay_rank a < decay_rank b)"

instance
  by standard (auto simp: less_eq_decay_state_def less_decay_state_def intro: decay_rank_inj)

end

definition decay_state_for :: "decay_config \<Rightarrow> real \<Rightarrow> real \<Rightarrow> decay_state" where
  "decay_state_for cfg retention decayed =
     (if decayed \<le> dc_revoke cfg then Revoke_candidate
      else if retention \<ge> dc_fresh cfg then Fresh
      else if retention \<ge> dc_aging cfg then Aging
      else Stale)"

record decay_readout =
  dr_decayed_confidence :: real
  dr_state :: decay_state
  dr_class :: py_str
  dr_retention :: real
  dr_elapsed_days :: real
  dr_lifetime_days :: real

definition decayed_confidence ::
  "decay_config \<Rightarrow> real option \<Rightarrow> py_str option \<Rightarrow> py_str option \<Rightarrow> instant \<Rightarrow> instant option \<Rightarrow> decay_readout" where
  "decayed_confidence cfg confidence predicate source_type now last_sighting =
     (let cls = classify_fact_decay cfg predicate;
          lifetime = effective_lifetime_days cfg cls source_type;
          elapsed = (case last_sighting of None \<Rightarrow> lifetime
                     | Some sighted \<Rightarrow> real_of_int (now - sighted) / 1000000 / 86400);
          factor = retention_factor elapsed lifetime (dk_decay_speed cls);
          stored = min 1 (max 0 (or_else confidence 0));
          decayed = stored * factor
      in \<lparr>dr_decayed_confidence = decayed, dr_state = decay_state_for cfg factor decayed,
          dr_class = dk_name cls, dr_retention = factor, dr_elapsed_days = max 0 elapsed,
          dr_lifetime_days = lifetime\<rparr>)"

section \<open>Every configuration is well formed\<close>

definition class_ok :: "decay_class \<Rightarrow> bool" where
  "class_ok c = (0 < dk_lifetime_days c \<and> 0 < dk_decay_speed c \<and> dk_decay_speed c \<le> 1)"

definition config_ok :: "decay_config \<Rightarrow> bool" where
  "config_ok cfg =
     (make_config cfg = Some cfg \<and> (\<forall>(n, c) \<in> set (dc_classes cfg). class_ok c))"

lemma make_config_some: "make_config cfg = Some cfg' \<Longrightarrow> cfg' = cfg"
  by (auto simp: make_config_def split: if_splits)

lemma default_config_ok: "config_ok default_decay_config"
proof -
  have "\<forall>(n, c) \<in> set DEFAULT_DECAY_CLASSES. class_ok c"
    by (simp add: DEFAULT_DECAY_CLASSES_def class_ok_def)
  moreover have "make_config default_decay_config = Some default_decay_config"
    by (auto simp: make_config_def default_decay_config_def DEFAULT_DECAY_CLASSES_def
        DEFAULT_PREDICATE_CLASSES_def REACTION_POINT_FRESH_def REACTION_POINT_AGING_def REVOKE_THRESHOLD_def)
  ultimately show ?thesis by (simp add: config_ok_def default_decay_config_def)
qed

lemma make_class_ok: "make_decay_class n l s = Some c \<Longrightarrow> class_ok c"
  by (auto simp: make_decay_class_def class_ok_def split: if_splits)

lemma update_in: "(k, v) \<in> set (AList.update k' v' xs) \<Longrightarrow> v = v' \<or> (k, v) \<in> set xs"
  by (induction xs) (auto split: if_splits)

lemma overlay_classes_ok:
  "overlay_classes specs classes = Some out \<Longrightarrow> \<forall>(n, c) \<in> set classes. class_ok c
    \<Longrightarrow> \<forall>(n, c) \<in> set out. class_ok c"
proof (induction specs classes rule: overlay_classes.induct)
  case (2 name l s specs classes)
  then obtain cls where cls: "make_decay_class name
        (or_else l (case map_of classes name of Some b \<Rightarrow> dk_lifetime_days b | None \<Rightarrow> 0))
        (or_else s (case map_of classes name of Some b \<Rightarrow> dk_decay_speed b | None \<Rightarrow> 0)) = Some cls"
    "overlay_classes specs (AList.update name cls classes) = Some out"
    by (auto simp: Let_def split: option.splits)
  have "\<forall>(n, c) \<in> set (AList.update name cls classes). class_ok c"
    using "2.prems"(2) make_class_ok [OF cls(1)] update_in by fast
  with "2.IH" [OF refl cls(1) cls(2)] show ?case by blast
qed simp

text \<open>
  Whatever the operator's file holds, the configuration in force is
  well formed: it has a default curve, every curve has a positive lifetime and a speed in
  (0, 1], the reaction points are ordered, and every predicate names a curve it has. A file
  that cannot give one is dropped for the defaults as a whole.
\<close>

theorem loaded_config_is_well_formed: "config_ok (load_decay_config read_overlay path)"
proof -
  have "config_ok cfg" if raw: "overlaid_config raw = Some cfg" for raw cfg
  proof -
    from raw obtain classes cfg' where classes: "overlay_classes (ov_classes raw) DEFAULT_DECAY_CLASSES = Some classes"
      and made': "make_config cfg' = Some cfg" and eq': "dc_classes cfg' = classes"
      by (auto simp: overlaid_config_def split: option.splits)
    have "cfg = cfg'" by (rule make_config_some [OF made'])
    then have made: "make_config cfg = Some cfg" and eq: "dc_classes cfg = classes" using made' eq' by simp_all
    have "\<forall>(n, c) \<in> set DEFAULT_DECAY_CLASSES. class_ok c"
      by (simp add: DEFAULT_DECAY_CLASSES_def class_ok_def)
    from overlay_classes_ok [OF classes this] made eq show ?thesis by (simp add: config_ok_def)
  qed
  then show ?thesis
    by (auto simp: load_decay_config_def Let_def default_config_ok split: option.split)
qed

section \<open>The curve\<close>

lemma retention_bounds: "0 \<le> retention_factor e l s" "retention_factor e l s \<le> 1"
  by (auto simp: retention_factor_def Let_def)

lemma retention_fresh: "0 < l \<Longrightarrow> e \<le> 0 \<Longrightarrow> retention_factor e l s = 1"
  by (simp add: retention_factor_def max_def)

lemma retention_expired: "l \<le> e \<Longrightarrow> retention_factor e l s = 0"
  by (auto simp: retention_factor_def Let_def max_def)

text \<open>Between the two ends the clamps do nothing.\<close>

lemma retention_inside:
  assumes "0 \<le> e" "e < l" "0 < s"
  shows "retention_factor e l s = 1 - (e / l) powr (1 / s)"
proof -
  have "(e / l) powr (1 / s) \<le> 1 powr (1 / s)"
    by (rule powr_mono2) (use assms in simp_all)
  then show ?thesis using assms by (simp add: retention_factor_def max_def min_def)
qed

lemma retention_antitone:
  assumes "e \<le> e'" "0 < s"
  shows "retention_factor e' l s \<le> retention_factor e l s"
proof (cases "0 < e \<and> e' < l")
  case True
  then have "(e / l) powr (1 / s) \<le> (e' / l) powr (1 / s)"
    by (intro powr_mono2) (use assms in \<open>auto simp: divide_right_mono\<close>)
  then show ?thesis using True assms by (simp add: retention_inside)
next
  case False
  show ?thesis
  proof (cases "l \<le> 0 \<or> l \<le> e'")
    case True
    then have "retention_factor e' l s = 0" by (auto simp: retention_expired retention_factor_def [of _ l])
    then show ?thesis using retention_bounds by simp
  next
    case False
    with \<open>\<not> (0 < e \<and> e' < l)\<close> have "retention_factor e l s = 1" by (intro retention_fresh) auto
    then show ?thesis using retention_bounds by simp
  qed
qed

lemma state_antitone:
  "decayed' \<le> decayed \<Longrightarrow> retention' \<le> retention
    \<Longrightarrow> decay_state_for cfg retention decayed \<le> decay_state_for cfg retention' decayed'"
  by (auto simp: decay_state_for_def less_eq_decay_state_def)

lemma classified_ok:
  assumes "config_ok cfg"
  shows "class_ok (classify_fact_decay cfg predicate)"
proof -
  have some: "map_of (dc_classes cfg) ''default'' \<noteq> None"
    using assms by (auto simp: config_ok_def make_config_def split: if_splits)
  have ok: "map_of (dc_classes cfg) n = Some c \<Longrightarrow> class_ok c" for n c
    using assms by (auto simp: config_ok_def dest!: map_of_SomeD)
  show ?thesis using some ok by (auto simp: classify_fact_decay_def Let_def split: option.split)
qed

lemma multiplier_positive: "0 < source_multiplier cfg st"
  by (simp add: source_multiplier_def Let_def)

text \<open>C29: without a new sighting time only ages a fact: the retention and the
  decayed confidence never rise, and the state only moves along fresh, aging, stale, revoke
  candidate. The decayed confidence stays between 0 and the stored confidence.
\<close>

theorem decay_only_advances:
  assumes "config_ok cfg" and "now \<le> now'"
  shows "dr_retention (decayed_confidence cfg c p st now' sighted) \<le> dr_retention (decayed_confidence cfg c p st now sighted)
    \<and> dr_decayed_confidence (decayed_confidence cfg c p st now' sighted)
        \<le> dr_decayed_confidence (decayed_confidence cfg c p st now sighted)
    \<and> dr_state (decayed_confidence cfg c p st now sighted) \<le> dr_state (decayed_confidence cfg c p st now' sighted)
    \<and> 0 \<le> dr_decayed_confidence (decayed_confidence cfg c p st now' sighted)
    \<and> dr_decayed_confidence (decayed_confidence cfg c p st now sighted) \<le> min 1 (max 0 (or_else c 0))"
proof -
  let ?s = "min 1 (max 0 (or_else c 0))"
  let ?cls = "classify_fact_decay cfg p"
  let ?l = "effective_lifetime_days cfg ?cls st"
  define e where "e = (\<lambda>now. case sighted of None \<Rightarrow> ?l | Some t \<Rightarrow> real_of_int (now - t) / 1000000 / 86400)"
  let ?f = "\<lambda>now. retention_factor (e now) ?l (dk_decay_speed ?cls)"
  have run: "dr_retention (decayed_confidence cfg c p st n sighted) = ?f n"
    "dr_decayed_confidence (decayed_confidence cfg c p st n sighted) = ?s * ?f n"
    "dr_state (decayed_confidence cfg c p st n sighted) = decay_state_for cfg (?f n) (?s * ?f n)" for n
    by (simp_all add: decayed_confidence_def Let_def e_def)
  have "e now \<le> e now'" using assms(2) by (simp add: e_def divide_right_mono split: option.split)
  moreover have "0 < dk_decay_speed ?cls" using classified_ok [OF assms(1)] by (simp add: class_ok_def)
  ultimately have f: "?f now' \<le> ?f now" by (rule retention_antitone)
  have s: "0 \<le> ?s" "?s \<le> 1" by simp_all
  have d: "?s * ?f now' \<le> ?s * ?f now" using f s(1) by (rule mult_left_mono)
  have "0 \<le> ?s * ?f now'" using s(1) retention_bounds(1) by (rule mult_nonneg_nonneg)
  moreover have "?s * ?f now \<le> ?s" using s(1) retention_bounds(2) by (metis mult_left_le)
  ultimately show ?thesis unfolding run using f d state_antitone [OF d f] by simp
qed

text \<open>At the end of its effective lifetime, and with nothing to date it by, a fact is a revoke candidate.\<close>

lemma expired_is_revoked:
  assumes "config_ok cfg"
  shows "dr_state (decayed_confidence cfg c p st now None) = Revoke_candidate"
proof -
  have "0 \<le> dc_revoke cfg" using assms by (auto simp: config_ok_def make_config_def split: if_splits)
  then show ?thesis
    by (simp add: decayed_confidence_def Let_def retention_expired decay_state_for_def)
qed

section \<open>Overrides that never take effect\<close>

lemma canonical_unpadded: "list_all (\<lambda>(k, c). py_strip c = c) PREDICATE_CANONICAL"
  by code_simp

lemma canonical_stripped: "map_of PREDICATE_CANONICAL k = Some c \<Longrightarrow> py_strip c = c"
  using canonical_unpadded by (auto simp: list_all_iff dest!: map_of_SomeD)

lemma override_key_dead:
  shows "py_lower k \<noteq> k \<Longrightarrow>
      source_multiplier (cfg\<lparr>dc_multipliers := AList.update k m (dc_multipliers cfg)\<rparr>) st = source_multiplier cfg st"
    and "map_of PREDICATE_CANONICAL a = Some c \<Longrightarrow> c \<noteq> a \<Longrightarrow>
      classify_fact_decay (cfg\<lparr>dc_predicate_classes := AList.update a cls (dc_predicate_classes cfg)\<rparr>) predicate
      = classify_fact_decay cfg predicate"
proof -
  assume k: "py_lower k \<noteq> k"
  have "py_lower s \<noteq> k" for s using k by (metis py_lower_idem)
  then show "source_multiplier (cfg\<lparr>dc_multipliers := AList.update k m (dc_multipliers cfg)\<rparr>) st = source_multiplier cfg st"
    by (simp add: source_multiplier_def update_conv')
next
  assume a: "map_of PREDICATE_CANONICAL a = Some c" "c \<noteq> a"
  have "a \<noteq> []" using a(1) by (auto simp: PREDICATE_CANONICAL_def)
  have "decay_key predicate \<noteq> a"
  proof
    assume key: "decay_key predicate = a"
    then obtain p where p: "py_lower (py_strip (normalize_predicate p)) = a" "py_strip p \<noteq> []"
      using \<open>a \<noteq> []\<close> by (auto simp: decay_key_def split: if_splits)
    show False
    proof (cases "map_of PREDICATE_CANONICAL (py_lower (py_strip p))")
      case None
      then have "normalize_predicate p = p" by (simp add: normalize_predicate_def)
      then show False using None p a(1) by simp
    next
      case (Some d)
      then have n: "normalize_predicate p = d" using p(2) by (auto simp: normalize_predicate_def py_strip_def)
      have "normalize_predicate d = d" using canonical_formD(3) [OF Some] .
      moreover have "normalize_predicate d = c"
        using p(1) a(1) \<open>a \<noteq> []\<close> unfolding n by (auto simp: normalize_predicate_def py_strip_def)
      moreover have "py_lower d = d" using canonical_formD(1) [OF Some] .
      ultimately have "d = c" by simp
      with p(1) n have "py_lower (py_strip c) = a" by simp
      with a show False using \<open>d = c\<close> \<open>py_lower d = d\<close> canonical_stripped [OF a(1)] by simp
    qed
  qed
  then show "classify_fact_decay (cfg\<lparr>dc_predicate_classes := AList.update a cls (dc_predicate_classes cfg)\<rparr>) predicate
      = classify_fact_decay cfg predicate"
    by (simp add: classify_fact_decay_def update_conv' split: option.split)
qed

text \<open>
  An override whose key is not in the form the lookup computes is dead: a multiplier
  whose source type has an upper-case letter, and a predicate class keyed by a seed
  adapter's spelling, change no lifetime and no classification.
\<close>

theorem override_keys_can_be_dead:
  assumes "py_lower k \<noteq> k" and "map_of PREDICATE_CANONICAL a = Some c" and "c \<noteq> a"
  shows "source_multiplier (cfg\<lparr>dc_multipliers := AList.update k m (dc_multipliers cfg)\<rparr>) st = source_multiplier cfg st
    \<and> classify_fact_decay (cfg\<lparr>dc_predicate_classes := AList.update a cls (dc_predicate_classes cfg)\<rparr>) predicate
      = classify_fact_decay cfg predicate"
  using override_key_dead assms by blast

section \<open>The properties at concrete facts\<close>

lemma decay_only_advances_witness:
  "dr_state (decayed_confidence default_decay_config (Some 1) (Some ''LeaderOf'') (Some ''seed'') 0 (Some 0))
   \<le> dr_state (decayed_confidence default_decay_config (Some 1) (Some ''LeaderOf'') (Some ''seed'') 900 (Some 0))"
  using decay_only_advances [OF default_config_ok, of 0 900 "Some 1" "Some ''LeaderOf''" "Some ''seed''" "Some 0"] by simp

lemma override_keys_can_be_dead_witness:
  "source_multiplier (default_decay_config\<lparr>dc_multipliers := AList.update ''Seed'' 3 (dc_multipliers default_decay_config)\<rparr>)
     (Some ''Seed'') = source_multiplier default_decay_config (Some ''Seed'')"
proof -
  have "py_lower ''Seed'' \<noteq> ''Seed''" by code_simp
  moreover have "map_of PREDICATE_CANONICAL ''leaderof'' = Some ''leader of''" by (simp add: PREDICATE_CANONICAL_def)
  ultimately show ?thesis using override_keys_can_be_dead by blast
qed

end
