(* ===== verification/EdgeMirror.thy ===== *)
theory EdgeMirror
  imports NexusPlane
begin

text \<open>
  The mirror of the nexus table in \<^verbatim>\<open>entity_edges\<close>, whose rows name entities by id:
  \<^verbatim>\<open>data/provenance/entity_edge_writes.py\<close>. A write resolves the names, parks what does
  not resolve, closes the open edges of the opposite polarity, inserts or folds, links the
  closed rows to the row that landed, and appends the transitions to a ledger when its flag
  is on. The full \<^verbatim>\<open>_insert_nexus\<close> transaction composes it with the nexus write. The SQL
  function \<^verbatim>\<open>resolve_entity\<close> (from a profile to its terminal survivor) is an argument. Columns
  no statement reads, the payload of a park and the wording of events are left out.
\<close>

section \<open>Families and outcomes\<close>

definition CO_OCCURRENCE_REL_TYPE :: py_str where
  "CO_OCCURRENCE_REL_TYPE = ''co occurs with''"

definition REFERENCE_SOURCE_TYPES :: "py_str set" where
  "REFERENCE_SOURCE_TYPES = {''seed'', ''manual''}"

datatype edge_family = Family_reference | Family_cooccurrence | Family_relation

definition edge_family_for :: "py_str option \<Rightarrow> py_str option \<Rightarrow> py_str \<Rightarrow> edge_family" where
  "edge_family_for source_type analyst_id rel_type =
     (let st = py_lower (py_strip (case source_type of None \<Rightarrow> [] | Some s \<Rightarrow> s));
          aid = py_lower (py_strip (case analyst_id of None \<Rightarrow> [] | Some s \<Rightarrow> s))
      in if st \<in> REFERENCE_SOURCE_TYPES \<or> take 5 aid = ''seed.'' then Family_reference
         else if py_lower (py_strip rel_type) = CO_OCCURRENCE_REL_TYPE then Family_cooccurrence
         else Family_relation)"

datatype edge_outcome = Written bool | Src_unresolved | Dst_unresolved | Ambiguous | Self_edge

text \<open>The tally; \<^verbatim>\<open>Written\<close> carries whether the row was minted or folded into an open one.\<close>

record edge_counters =
  ct_written :: nat
  ct_inserted :: nat
  ct_folded :: nat
  ct_parked :: nat
  ct_self_edges :: nat
  ct_by_reason :: "edge_outcome \<Rightarrow> nat"

definition no_edge_writes :: edge_counters where
  "no_edge_writes =
     \<lparr>ct_written = 0, ct_inserted = 0, ct_folded = 0, ct_parked = 0, ct_self_edges = 0, ct_by_reason = (\<lambda>_. 0)\<rparr>"

fun record_outcome :: "edge_outcome \<Rightarrow> edge_counters \<Rightarrow> edge_counters" where
  "record_outcome (Written inserted) c =
     (if inserted then c\<lparr>ct_written := ct_written c + 1, ct_inserted := ct_inserted c + 1\<rparr>
      else c\<lparr>ct_written := ct_written c + 1, ct_folded := ct_folded c + 1\<rparr>)"
| "record_outcome Self_edge c = c\<lparr>ct_self_edges := ct_self_edges c + 1\<rparr>"
| "record_outcome reason c =
     c\<lparr>ct_parked := ct_parked c + 1, ct_by_reason := (ct_by_reason c)(reason := ct_by_reason c reason + 1)\<rparr>"

section \<open>Tables\<close>

record edge_row =
  ed_id :: uuid
  ed_src :: uuid
  ed_dst :: uuid
  ed_via :: "uuid option"
  ed_type :: py_str
  ed_family :: edge_family
  ed_polarity :: int
  ed_confidence :: rat
  ed_observed_count :: nat
  ed_last_seen_at :: instant
  ed_valid_until :: "instant option"
  ed_superseded_by :: "uuid option"
  ed_source_signal_ids :: "uuid list"
  ed_derived_from :: "uuid list"

record park_row =
  pk_src_text :: py_str
  pk_dst_text :: py_str
  pk_edge_type :: py_str
  pk_edge_family :: edge_family
  pk_reason :: edge_outcome

datatype edge_transition = Observed | Polarity_flip int

record edge_event =
  ee_edge_id :: uuid
  ee_transition :: edge_transition
  ee_polarity_to :: int
  ee_derived_from :: "uuid list"

record edge_state =
  es_edges :: "edge_row list"
  es_parked :: "park_row list"
  es_events :: "edge_event list"

text \<open>
  The names the mirror can see: the profiles with their canonical names, and where each
  ends after merges; and the flag of the transition ledger.
\<close>

record edge_env =
  xe_profiles :: "(py_str \<times> uuid) list"
  xe_terminal :: "uuid \<Rightarrow> uuid"
  xe_ledger :: "py_str option"

definition edge_transition_ledger_enabled :: "edge_env \<Rightarrow> bool" where
  "edge_transition_ledger_enabled env =
     (py_lower (py_strip (case xe_ledger env of None \<Rightarrow> ''0'' | Some s \<Rightarrow> s))
      \<in> {''1'', ''true'', ''yes'', ''on''})"

text \<open>\<^verbatim>\<open>btrim\<close> takes spaces only.\<close>

definition btrim :: "py_str \<Rightarrow> py_str" where
  "btrim s = rev (dropWhile (\<lambda>c. c = CHR '' '') (rev (dropWhile (\<lambda>c. c = CHR '' '') s)))"

definition terminals :: "edge_env \<Rightarrow> py_str \<Rightarrow> uuid list" where
  "terminals env txt =
     sort (remdups (map (\<lambda>(_, i). xe_terminal env i)
       (filter (\<lambda>(name, _). py_lower name = py_lower (btrim txt)) (xe_profiles env))))"

text \<open>One slot of \<^verbatim>\<open>_RESOLVE_SQL\<close>: the number of distinct survivors and the first of them.\<close>

definition resolve_endpoint :: "edge_env \<Rightarrow> py_str option \<Rightarrow> nat \<times> uuid option" where
  "resolve_endpoint env txt =
     (case txt of
        None \<Rightarrow> (0, None)
      | Some s \<Rightarrow> if btrim s = [] then (0, None)
                  else (length (terminals env s),
                        if terminals env s = [] then None else Some (hd (terminals env s))))"

definition same_park :: "park_row \<Rightarrow> park_row \<Rightarrow> bool" where
  "same_park a b =
     (py_lower (pk_src_text a) = py_lower (pk_src_text b) \<and> py_lower (pk_dst_text a) = py_lower (pk_dst_text b)
      \<and> py_lower (pk_edge_type a) = py_lower (pk_edge_type b))"

definition park :: "park_row \<Rightarrow> park_row list \<Rightarrow> park_row list" where
  "park p parked =
     (if \<exists>q \<in> set parked. same_park q p
      then map (\<lambda>q. if same_park q p then q\<lparr>pk_reason := pk_reason p\<rparr> else q) parked
      else parked @ [p])"

section \<open>Close, insert, link\<close>

definition open_edge :: "edge_row \<Rightarrow> bool" where
  "open_edge r = (ed_valid_until r = None \<and> ed_superseded_by r = None)"

text \<open>\<^verbatim>\<open>COALESCE(intermediary_id, nil)\<close>: the nil uuid is 0.\<close>

definition via_key :: "uuid option \<Rightarrow> uuid" where
  "via_key via = (case via of None \<Rightarrow> 0 | Some i \<Rightarrow> i)"

definition contradicts :: "uuid \<Rightarrow> uuid \<Rightarrow> uuid option \<Rightarrow> py_str \<Rightarrow> int \<Rightarrow> edge_row \<Rightarrow> bool" where
  "contradicts src dst via edge_type polarity r =
     (ed_src r = src \<and> ed_dst r = dst \<and> via_key (ed_via r) = via_key via
      \<and> py_lower (ed_type r) = py_lower edge_type \<and> ed_polarity r \<noteq> polarity \<and> open_edge r)"

definition close_prior_entity_edges ::
  "instant \<Rightarrow> uuid \<Rightarrow> uuid \<Rightarrow> uuid option \<Rightarrow> py_str \<Rightarrow> int \<Rightarrow> edge_row list \<Rightarrow> edge_row list \<times> uuid list" where
  "close_prior_entity_edges now src dst via edge_type polarity edges =
     (map (\<lambda>r. if contradicts src dst via edge_type polarity r then r\<lparr>ed_valid_until := Some now\<rparr> else r) edges,
      map ed_id (filter (contradicts src dst via edge_type polarity) edges))"

text \<open>The key of \<^verbatim>\<open>uq_entity_edges_open\<close>.\<close>

definition edge_key :: "edge_row \<Rightarrow> uuid \<times> uuid \<times> py_str \<times> uuid" where
  "edge_key r = (ed_src r, ed_dst r, ed_type r, via_key (ed_via r))"

definition fold_edge :: "edge_row \<Rightarrow> edge_row \<Rightarrow> edge_row" where
  "fold_edge new old =
     old\<lparr>ed_confidence := max (ed_confidence old) (ed_confidence new),
         ed_observed_count := ed_observed_count old + 1,
         ed_last_seen_at := max (ed_last_seen_at old) (ed_last_seen_at new),
         ed_source_signal_ids := union_ids (ed_source_signal_ids old) (ed_source_signal_ids new),
         ed_derived_from := union_ids (ed_derived_from old) (ed_derived_from new),
         ed_valid_until := (case ed_valid_until new of None \<Rightarrow> ed_valid_until old | Some t \<Rightarrow> Some t)\<rparr>"

text \<open>\<^verbatim>\<open>_INSERT_SQL\<close>: the table, the id that landed, and whether it was inserted.\<close>

definition insert_or_fold :: "edge_row \<Rightarrow> edge_row list \<Rightarrow> edge_row list \<times> uuid \<times> bool" where
  "insert_or_fold new edges =
     (case (if open_edge new then find (\<lambda>r. open_edge r \<and> edge_key r = edge_key new) edges else None) of
        Some old \<Rightarrow> (map (\<lambda>r. if ed_id r = ed_id old then fold_edge new r else r) edges, ed_id old, False)
      | None \<Rightarrow> (edges @ [new], ed_id new, True))"

definition link_closed :: "uuid \<Rightarrow> uuid list \<Rightarrow> edge_row list \<Rightarrow> edge_row list" where
  "link_closed landed shut edges =
     map (\<lambda>r. if ed_id r \<in> set shut \<and> ed_id r \<noteq> landed then r\<lparr>ed_superseded_by := Some landed\<rparr> else r) edges"

text \<open>\<^verbatim>\<open>_write_edge_transitions\<close>: a minted edge is observed, a closed one flipped; a fold is neither.\<close>

definition edge_transitions ::
  "uuid list \<Rightarrow> uuid \<Rightarrow> bool \<Rightarrow> int \<Rightarrow> uuid list \<Rightarrow> uuid list \<Rightarrow> edge_row list \<Rightarrow> edge_event list" where
  "edge_transitions shut landed inserted polarity derived ssids edges =
     (let evidence = keep_first (\<lambda>u. u) [] (derived @ ssids)
      in (if inserted
          then [\<lparr>ee_edge_id = landed, ee_transition = Observed, ee_polarity_to = polarity,
                 ee_derived_from = evidence\<rparr>] else [])
         @ map (\<lambda>r. \<lparr>ee_edge_id = ed_id r, ee_transition = Polarity_flip (ed_polarity r),
                     ee_polarity_to = polarity,
                     ee_derived_from = keep_first (\<lambda>u. u) [] (landed # evidence)\<rparr>)
             (filter (\<lambda>r. ed_id r \<in> set shut) edges))"

record edge_request =
  rq_edge_id :: uuid
  rq_subject :: py_str
  rq_object :: py_str
  rq_intermediary :: "py_str option"
  rq_rel_type :: py_str
  rq_polarity :: int
  rq_confidence :: rat
  rq_valid_until :: "instant option"
  rq_produced_at :: instant
  rq_source_signal_ids :: "uuid list"
  rq_derived_from :: "uuid list"
  rq_source_type :: py_str
  rq_analyst_id :: "py_str option"

definition endpoint_outcome :: "nat \<Rightarrow> uuid option \<Rightarrow> nat \<Rightarrow> uuid option \<Rightarrow> edge_outcome option" where
  "endpoint_outcome src_n src_id dst_n dst_id =
     (if src_n > 1 \<or> dst_n > 1 then Some Ambiguous
      else if src_n = 0 \<or> src_id = None then Some Src_unresolved
      else if dst_n = 0 \<or> dst_id = None then Some Dst_unresolved
      else None)"

definition edge_to_insert :: "edge_request \<Rightarrow> edge_family \<Rightarrow> uuid \<Rightarrow> uuid \<Rightarrow> uuid option \<Rightarrow> edge_row" where
  "edge_to_insert q family src dst via =
     \<lparr>ed_id = rq_edge_id q, ed_src = src, ed_dst = dst, ed_via = via, ed_type = rq_rel_type q,
      ed_family = family, ed_polarity = rq_polarity q, ed_confidence = rq_confidence q,
      ed_observed_count = 1, ed_last_seen_at = rq_produced_at q, ed_valid_until = rq_valid_until q,
      ed_superseded_by = None, ed_source_signal_ids = rq_source_signal_ids q,
      ed_derived_from = rq_derived_from q\<rparr>"

text \<open>The statements after the endpoints are settled.\<close>

definition write_resolved_edge ::
  "edge_env \<Rightarrow> instant \<Rightarrow> edge_request \<Rightarrow> edge_row \<Rightarrow> edge_state \<Rightarrow> edge_state \<times> edge_outcome" where
  "write_resolved_edge env now q new s =
     (let (edges1, shut) = close_prior_entity_edges now (ed_src new) (ed_dst new) (ed_via new)
                               (ed_type new) (ed_polarity new) (es_edges s);
          (edges2, landed, inserted) = insert_or_fold new edges1;
          edges3 = (if shut \<noteq> [] then link_closed landed shut edges2 else edges2);
          events = (if edge_transition_ledger_enabled env
                    then edge_transitions shut landed inserted (ed_polarity new) (rq_derived_from q)
                           (rq_source_signal_ids q) edges3
                    else [])
      in (s\<lparr>es_edges := edges3, es_events := es_events s @ events\<rparr>, Written inserted))"

definition write_entity_edge_for_nexus ::
  "edge_env \<Rightarrow> instant \<Rightarrow> edge_request \<Rightarrow> edge_state \<Rightarrow> edge_state \<times> edge_outcome" where
  "write_entity_edge_for_nexus env now q s =
     (let family = edge_family_for (Some (rq_source_type q)) (rq_analyst_id q) (rq_rel_type q);
          (src_n, src_id) = resolve_endpoint env (Some (rq_subject q));
          (dst_n, dst_id) = resolve_endpoint env (Some (rq_object q));
          (via_n, via_id) = resolve_endpoint env (rq_intermediary q)
      in case endpoint_outcome src_n src_id dst_n dst_id of
           Some reason \<Rightarrow>
             (s\<lparr>es_parked := park \<lparr>pk_src_text = take 2048 (rq_subject q), pk_dst_text = take 2048 (rq_object q),
                                  pk_edge_type = rq_rel_type q, pk_edge_family = family, pk_reason = reason\<rparr>
                              (es_parked s)\<rparr>, reason)
         | None \<Rightarrow>
             if src_id = dst_id then (s, Self_edge)
             else write_resolved_edge env now q
                    (edge_to_insert q family (the src_id) (the dst_id) (if via_n = 1 then via_id else None)) s)"

section \<open>The whole transaction\<close>

definition edge_request_of ::
  "uuid \<Rightarrow> instant \<Rightarrow> py_str option \<Rightarrow> nexus_row \<Rightarrow> edge_request" where
  "edge_request_of edge_id produced_at analyst_id new =
     \<lparr>rq_edge_id = edge_id, rq_subject = nx_subject new, rq_object = nx_object new,
      rq_intermediary = nx_intermediary new, rq_rel_type = nx_rel_type new, rq_polarity = nx_polarity new,
      rq_confidence = nx_confidence new, rq_valid_until = nx_valid_until new, rq_produced_at = produced_at,
      rq_source_signal_ids = nx_source_signal_ids new, rq_derived_from = nx_derived_from new,
      rq_source_type = nx_source_type new, rq_analyst_id = analyst_id\<rparr>"

text \<open>\<^verbatim>\<open>_insert_nexus\<close>: the edge first, then the nexus; an error rolls both back.\<close>

definition insert_nexus_mirrored ::
  "edge_env \<Rightarrow> instant \<Rightarrow> instant \<Rightarrow> uuid \<Rightarrow> py_str option \<Rightarrow> uuid \<Rightarrow> nexus_payload \<Rightarrow> uuid list
    \<Rightarrow> uuid list \<Rightarrow> py_str option \<Rightarrow> edge_state \<times> nexus_table \<Rightarrow> (edge_state \<times> nexus_table) \<times> (nexus_error + edge_outcome)" where
  "insert_nexus_mirrored env now produced_at edge_id analyst_id row_id p derived explicit_ssids source_type st =
     (let new = nexus_to_insert now row_id p derived explicit_ssids source_type;
          (es, outcome) = write_entity_edge_for_nexus env now (edge_request_of edge_id produced_at analyst_id new) (fst st)
      in case insert_nexus (\<lambda>_. False) now row_id p derived explicit_ssids source_type (snd st) of
           (tbl, Inl e) \<Rightarrow> (st, Inl e)
         | (tbl, Inr _) \<Rightarrow> ((es, tbl), Inr outcome))"

section \<open>What the edges say\<close>

definition edges_ok :: "edge_row list \<Rightarrow> bool" where
  "edges_ok edges =
     (distinct (map ed_id edges)
      \<and> (\<forall>r \<in> set edges. \<forall>q \<in> set edges. open_edge r \<and> open_edge q \<and> edge_key r = edge_key q \<longrightarrow> r = q)
      \<and> (\<forall>r \<in> set edges. py_lower (ed_type r) = ed_type r \<and> ed_src r \<noteq> ed_dst r)
      \<and> (\<forall>r \<in> set edges. \<forall>j. ed_superseded_by r = Some j \<longrightarrow> j \<in> ed_id ` set edges \<and> ed_valid_until r \<noteq> None))"

definition current_edge :: "edge_row list \<Rightarrow> uuid \<times> uuid \<times> py_str \<times> uuid \<Rightarrow> int option" where
  "current_edge edges k = map_option ed_polarity (find (\<lambda>r. open_edge r \<and> edge_key r = k) edges)"

lemma edges_okD:
  assumes "edges_ok edges"
  shows "distinct (map ed_id edges)"
    and "\<And>r q. r \<in> set edges \<Longrightarrow> q \<in> set edges \<Longrightarrow> open_edge r \<Longrightarrow> open_edge q \<Longrightarrow> edge_key r = edge_key q \<Longrightarrow> r = q"
    and "\<And>r. r \<in> set edges \<Longrightarrow> py_lower (ed_type r) = ed_type r"
    and "\<And>r. r \<in> set edges \<Longrightarrow> ed_src r \<noteq> ed_dst r"
    and "\<And>r j. r \<in> set edges \<Longrightarrow> ed_superseded_by r = Some j \<Longrightarrow> j \<in> ed_id ` set edges"
    and "\<And>r j. r \<in> set edges \<Longrightarrow> ed_superseded_by r = Some j \<Longrightarrow> ed_valid_until r \<noteq> None"
  using assms unfolding edges_ok_def by blast+

lemma option_eqI: "(\<And>x. a = Some x \<longleftrightarrow> b = Some x) \<Longrightarrow> a = b"
  by (cases a; cases b) auto

lemma current_edge_some:
  assumes "edges_ok edges"
  shows "current_edge edges k = Some x \<longleftrightarrow> (\<exists>r \<in> set edges. open_edge r \<and> edge_key r = k \<and> ed_polarity r = x)"
proof
  assume "current_edge edges k = Some x"
  then show "\<exists>r \<in> set edges. open_edge r \<and> edge_key r = k \<and> ed_polarity r = x"
    by (auto simp: current_edge_def find_Some_iff)
next
  assume "\<exists>r \<in> set edges. open_edge r \<and> edge_key r = k \<and> ed_polarity r = x"
  then obtain r where r: "r \<in> set edges" "open_edge r" "edge_key r = k" "ed_polarity r = x" by blast
  then obtain q where "find (\<lambda>r. open_edge r \<and> edge_key r = k) edges = Some q"
    by (metis (mono_tags, lifting) find_None_iff not_None_eq)
  moreover from this have "q = r"
    using r edges_okD(2) [OF assms] by (auto simp: find_Some_iff)
  ultimately show "current_edge edges k = Some x" using r by (simp add: current_edge_def)
qed

text \<open>An update in place that keeps ids and keys and opens nothing.\<close>

lemma edges_ok_map:
  assumes ok: "edges_ok edges"
    and f: "\<And>r. r \<in> set edges \<Longrightarrow> ed_id (f r) = ed_id r \<and> edge_key (f r) = edge_key r \<and> (open_edge (f r) \<longrightarrow> open_edge r)"
    and sup: "\<And>r j. r \<in> set edges \<Longrightarrow> ed_superseded_by (f r) = Some j \<Longrightarrow> j \<in> ed_id ` set edges \<and> ed_valid_until (f r) \<noteq> None"
  shows "edges_ok (map f edges)"
proof -
  have ids: "map ed_id (map f edges) = map ed_id edges" using f by simp
  then have ids': "ed_id ` set (map f edges) = ed_id ` set edges" by (metis list.set_map)
  have parts: "ed_src (f r) = ed_src r" "ed_dst (f r) = ed_dst r" "ed_type (f r) = ed_type r" if "r \<in> set edges" for r
    using f [OF that] by (simp_all add: edge_key_def)
  have uniq: "f r = f q" if "r \<in> set edges" "q \<in> set edges" "open_edge (f r)" "open_edge (f q)"
    "edge_key (f r) = edge_key (f q)" for r q
    using that f edges_okD(2) [OF ok that(1,2)] by simp
  show ?thesis
    unfolding edges_ok_def ids ids'
    using edges_okD(1,3,4) [OF ok] parts uniq sup by auto
qed

lemma same_edge_id:
  "distinct (map ed_id edges) \<Longrightarrow> r \<in> set edges \<Longrightarrow> q \<in> set edges \<Longrightarrow> ed_id r = ed_id q \<Longrightarrow> r = q"
  by (auto simp: distinct_map dest: inj_onD)

section \<open>The effect of one edge write\<close>

text \<open>Closing: the rows the write contradicts, and only they, are closed.\<close>

lemma close_edges:
  fixes now src dst via ty pol edges
  defines "edges1 \<equiv> fst (close_prior_entity_edges now src dst via ty pol edges)"
    and "shut \<equiv> snd (close_prior_entity_edges now src dst via ty pol edges)"
    and "k \<equiv> (src, dst, ty, via_key via)"
  assumes ok: "edges_ok edges" and ty: "py_lower ty = ty"
  shows "edges_ok edges1" and "map ed_id edges1 = map ed_id edges"
    and "{r \<in> set edges1. open_edge r} = {r \<in> set edges. open_edge r \<and> (edge_key r = k \<longrightarrow> ed_polarity r = pol)}"
    and "map ed_superseded_by edges1 = map ed_superseded_by edges"
    and "\<And>r. r \<in> set edges1 \<Longrightarrow> ed_id r \<in> set shut \<Longrightarrow> ed_valid_until r \<noteq> None \<and> ed_superseded_by r = None"
    and "set shut \<subseteq> ed_id ` set edges"
proof -
  define f where "f = (\<lambda>r. if contradicts src dst via ty pol r then r\<lparr>ed_valid_until := Some now\<rparr> else r)"
  have e1: "edges1 = map f edges" by (simp add: edges1_def close_prior_entity_edges_def f_def)
  have f: "ed_id (f r) = ed_id r" "edge_key (f r) = edge_key r" "open_edge (f r) \<longrightarrow> open_edge r"
    "ed_superseded_by (f r) = ed_superseded_by r" for r
    by (simp_all add: f_def edge_key_def open_edge_def)
  have fv: "ed_valid_until r \<noteq> None \<longrightarrow> ed_valid_until (f r) \<noteq> None" for r by (simp add: f_def)
  show "edges_ok edges1"
    unfolding e1 by (rule edges_ok_map [OF ok]) (use f fv edges_okD(5,6) [OF ok] in auto)
  show "map ed_id edges1 = map ed_id edges" "map ed_superseded_by edges1 = map ed_superseded_by edges"
    by (simp_all add: e1 f comp_def)
  have contra: "contradicts src dst via ty pol r \<longleftrightarrow> edge_key r = k \<and> ed_polarity r \<noteq> pol \<and> open_edge r"
    if "r \<in> set edges" for r
    using edges_okD(3) [OF ok that] ty by (auto simp: contradicts_def edge_key_def k_def)
  have keep: "f r = r" if "open_edge (f r)" for r
    using that by (auto simp: f_def open_edge_def split: if_splits)
  have shutting: "open_edge (f r) \<longleftrightarrow> open_edge r \<and> (edge_key r = k \<longrightarrow> ed_polarity r = pol)"
    if "r \<in> set edges" for r
    using contra [OF that] by (auto simp: f_def open_edge_def)
  show "{r \<in> set edges1. open_edge r} = {r \<in> set edges. open_edge r \<and> (edge_key r = k \<longrightarrow> ed_polarity r = pol)}"
    unfolding e1 using shutting keep by (force simp: image_iff)
  have shut: "shut = map ed_id (filter (contradicts src dst via ty pol) edges)"
    by (simp add: shut_def close_prior_entity_edges_def)
  then show "set shut \<subseteq> ed_id ` set edges" by auto
  show "ed_valid_until r \<noteq> None \<and> ed_superseded_by r = None" if "r \<in> set edges1" "ed_id r \<in> set shut" for r
  proof -
    from that(1) obtain q where q: "q \<in> set edges" "r = f q" by (auto simp: e1)
    from that(2) obtain q' where q': "q' \<in> set edges" "contradicts src dst via ty pol q'" "ed_id r = ed_id q'"
      by (auto simp: shut)
    have "q = q'" by (rule same_edge_id [OF edges_okD(1) [OF ok] q(1) q'(1)]) (use q q' f in simp)
    then show ?thesis using q q' by (simp add: f_def contradicts_def open_edge_def)
  qed
qed

text \<open>Landing: after a fold or an insert the row that landed is in the table.\<close>

lemma land_edge:
  fixes new edges
  defines "edges2 \<equiv> fst (insert_or_fold new edges)"
    and "landed \<equiv> fst (snd (insert_or_fold new edges))"
    and "inserted \<equiv> snd (snd (insert_or_fold new edges))"
  assumes ok: "edges_ok edges" and fresh: "ed_id new \<notin> ed_id ` set edges"
    and new: "py_lower (ed_type new) = ed_type new" "ed_src new \<noteq> ed_dst new" "ed_superseded_by new = None"
    and agreed: "\<forall>r \<in> set edges. open_edge r \<and> edge_key r = edge_key new \<longrightarrow> ed_polarity r = ed_polarity new"
  shows "edges_ok edges2" and "landed \<in> ed_id ` set edges2"
    and "map ed_id edges2 = map ed_id edges @ (if inserted then [landed] else [])"
    and "map ed_superseded_by edges2 = map ed_superseded_by edges @ (if inserted then [None] else [])"
    and "\<And>k x. (\<exists>r \<in> set edges2. open_edge r \<and> edge_key r = k \<and> ed_polarity r = x)
        \<longleftrightarrow> (\<exists>r \<in> set edges. open_edge r \<and> edge_key r = k \<and> ed_polarity r = x)
            \<or> open_edge new \<and> k = edge_key new \<and> x = ed_polarity new"
    and "\<And>r. r \<in> set edges2 \<Longrightarrow> ed_id r \<in> ed_id ` set edges \<Longrightarrow>
           \<exists>q \<in> set edges. ed_id q = ed_id r \<and> ed_valid_until q = ed_valid_until r
             \<and> ed_superseded_by q = ed_superseded_by r"
    and "inserted \<Longrightarrow> landed \<notin> ed_id ` set edges"
    and "\<not> inserted \<Longrightarrow> \<exists>q \<in> set edges. ed_id q = landed \<and> open_edge q"
proof -
  let ?hit = "if open_edge new then find (\<lambda>r. open_edge r \<and> edge_key r = edge_key new) edges else None"
  have "edges_ok edges2 \<and> landed \<in> ed_id ` set edges2
    \<and> map ed_id edges2 = map ed_id edges @ (if inserted then [landed] else [])
    \<and> map ed_superseded_by edges2 = map ed_superseded_by edges @ (if inserted then [None] else [])
    \<and> (\<forall>k x. (\<exists>r \<in> set edges2. open_edge r \<and> edge_key r = k \<and> ed_polarity r = x)
        \<longleftrightarrow> (\<exists>r \<in> set edges. open_edge r \<and> edge_key r = k \<and> ed_polarity r = x)
            \<or> open_edge new \<and> k = edge_key new \<and> x = ed_polarity new)
    \<and> (\<forall>r \<in> set edges2. ed_id r \<in> ed_id ` set edges \<longrightarrow>
           (\<exists>q \<in> set edges. ed_id q = ed_id r \<and> ed_valid_until q = ed_valid_until r
             \<and> ed_superseded_by q = ed_superseded_by r))
    \<and> (inserted \<longrightarrow> landed \<notin> ed_id ` set edges)
    \<and> (\<not> inserted \<longrightarrow> (\<exists>q \<in> set edges. ed_id q = landed \<and> open_edge q))"
  proof (cases ?hit)
    case None
    have e2: "edges2 = edges @ [new]" "landed = ed_id new" "inserted"
      using None by (simp_all add: edges2_def landed_def inserted_def insert_or_fold_def split: option.splits)
    have none: "edge_key r \<noteq> edge_key new" if "r \<in> set edges" "open_edge r" "open_edge new" for r
      using None that by (auto simp: find_None_iff)
    have "edges_ok (edges @ [new])"
      using ok fresh new none unfolding edges_ok_def by (auto dest: sym)
    then show ?thesis using fresh new(3) by (auto simp: e2)
  next
    case (Some old)
    then have old: "old \<in> set edges" "open_edge old" "edge_key old = edge_key new" and on: "open_edge new"
      by (auto simp: find_Some_iff split: if_splits)
    define f where "f = (\<lambda>r. if ed_id r = ed_id old then fold_edge new r else r)"
    have e2: "edges2 = map f edges" "landed = ed_id old" "\<not> inserted"
      using Some by (simp_all add: edges2_def landed_def inserted_def insert_or_fold_def f_def split: option.splits)
    have f: "ed_id (f r) = ed_id r" "edge_key (f r) = edge_key r" "open_edge (f r) = open_edge r"
      "ed_valid_until (f r) = ed_valid_until r" "ed_superseded_by (f r) = ed_superseded_by r"
      "ed_polarity (f r) = ed_polarity r" for r
      using on by (simp_all add: f_def fold_edge_def edge_key_def open_edge_def)
    have "edges_ok (map f edges)"
      by (rule edges_ok_map [OF ok]) (use f edges_okD(5,6) [OF ok] in auto)
    moreover have "ed_polarity old = ed_polarity new" using agreed old by blast
    moreover have "map ed_id (map f edges) = map ed_id edges" "map ed_superseded_by (map f edges) = map ed_superseded_by edges"
      by (simp_all add: f)
    moreover have "ed_id ` set (map f edges) = ed_id ` set edges"
      by (simp add: f image_image)
    ultimately show ?thesis using old on f by (auto simp: e2 simp del: map_map)
  qed
  then show "edges_ok edges2" "landed \<in> ed_id ` set edges2"
    "map ed_id edges2 = map ed_id edges @ (if inserted then [landed] else [])"
    "map ed_superseded_by edges2 = map ed_superseded_by edges @ (if inserted then [None] else [])"
    "\<And>k x. (\<exists>r \<in> set edges2. open_edge r \<and> edge_key r = k \<and> ed_polarity r = x)
        \<longleftrightarrow> (\<exists>r \<in> set edges. open_edge r \<and> edge_key r = k \<and> ed_polarity r = x)
            \<or> open_edge new \<and> k = edge_key new \<and> x = ed_polarity new"
    "\<And>r. r \<in> set edges2 \<Longrightarrow> ed_id r \<in> ed_id ` set edges \<Longrightarrow>
           \<exists>q \<in> set edges. ed_id q = ed_id r \<and> ed_valid_until q = ed_valid_until r
             \<and> ed_superseded_by q = ed_superseded_by r"
    "inserted \<Longrightarrow> landed \<notin> ed_id ` set edges"
    "\<not> inserted \<Longrightarrow> \<exists>q \<in> set edges. ed_id q = landed \<and> open_edge q"
    by blast+
qed

text \<open>Linking: closed rows that have no successor yet get the landed row.\<close>

lemma link_edges:
  assumes ok: "edges_ok edges" and landed: "landed \<in> ed_id ` set edges" "landed \<notin> set shut"
    and closed_rows: "\<forall>r \<in> set edges. ed_id r \<in> set shut \<longrightarrow> ed_valid_until r \<noteq> None \<and> ed_superseded_by r = None"
  shows "edges_ok (link_closed landed shut edges)"
    and "map ed_id (link_closed landed shut edges) = map ed_id edges"
    and "current_edge (link_closed landed shut edges) = current_edge edges"
    and "ed_id ` {r \<in> set (link_closed landed shut edges). ed_superseded_by r \<noteq> None}
        = ed_id ` {r \<in> set edges. ed_superseded_by r \<noteq> None} \<union> (set shut \<inter> ed_id ` set edges)"
proof -
  note shut = closed_rows [rule_format, THEN conjunct1] closed_rows [rule_format, THEN conjunct2]
  define f :: "edge_row \<Rightarrow> edge_row" where "f = (\<lambda>r. if ed_id r \<in> set shut \<and> ed_id r \<noteq> landed then r\<lparr>ed_superseded_by := Some landed\<rparr> else r)"
  have l: "link_closed landed shut edges = map f edges" by (simp add: link_closed_def f_def)
  have f: "ed_id (f r) = ed_id r" "edge_key (f r) = edge_key r" "ed_polarity (f r) = ed_polarity r"
    "ed_valid_until (f r) = ed_valid_until r" for r
    by (simp_all add: f_def edge_key_def)
  have open_f: "open_edge (f r) = open_edge r" if "r \<in> set edges" for r
    using shut that by (auto simp: f_def open_edge_def)
  have sup_f: "ed_superseded_by (f r) = (if ed_id r \<in> set shut then Some landed else ed_superseded_by r)" for r
    using landed(2) by (auto simp: f_def)
  show ok': "edges_ok (link_closed landed shut edges)"
    unfolding l
    by (rule edges_ok_map [OF ok])
      (use f open_f sup_f landed(1) shut edges_okD(5,6) [OF ok] in \<open>auto split: if_splits\<close>)
  show "map ed_id (link_closed landed shut edges) = map ed_id edges" by (simp add: l f)
  show "current_edge (link_closed landed shut edges) = current_edge edges"
  proof
    fix k
    have "current_edge (map f edges) k = Some x \<longleftrightarrow> current_edge edges k = Some x" for x
      unfolding current_edge_some [OF ok] current_edge_some [OF ok' [unfolded l]] using f open_f by auto
    then show "current_edge (link_closed landed shut edges) k = current_edge edges k"
      unfolding l by (cases "current_edge edges k"; cases "current_edge (map f edges) k") auto
  qed
  show "ed_id ` {r \<in> set (link_closed landed shut edges). ed_superseded_by r \<noteq> None}
      = ed_id ` {r \<in> set edges. ed_superseded_by r \<noteq> None} \<union> (set shut \<inter> ed_id ` set edges)"
    unfolding l by (auto simp: f sup_f image_iff split: if_splits) (metis f(1) sup_f option.distinct(1))+
qed

text \<open>
  The ledger says what the table says: one observation per edge, in order, and a flip of
  exactly the edges that have a successor.
\<close>

definition ledger_ok :: "edge_state \<Rightarrow> bool" where
  "ledger_ok s =
     (map ee_edge_id (filter (\<lambda>e. ee_transition e = Observed) (es_events s)) = map ed_id (es_edges s)
      \<and> ee_edge_id ` {e \<in> set (es_events s). ee_transition e \<noteq> Observed}
         = ed_id ` {r \<in> set (es_edges s). ed_superseded_by r \<noteq> None})"

lemma transitions_ids:
  "map ee_edge_id (filter (\<lambda>e. ee_transition e = Observed) (edge_transitions shut landed inserted pol d ss edges))
     = (if inserted then [landed] else [])"
  "ee_edge_id ` {e \<in> set (edge_transitions shut landed inserted pol d ss edges). ee_transition e \<noteq> Observed}
     = set shut \<inter> ed_id ` set edges"
  unfolding set_filter [symmetric] by (auto simp: edge_transitions_def Let_def filter_map comp_def image_image)

lemma superseded_ids:
  "map ed_id a = map ed_id b \<Longrightarrow> map ed_superseded_by a = map ed_superseded_by b
    \<Longrightarrow> ed_id ` {r \<in> set a. ed_superseded_by r \<noteq> None} = ed_id ` {r \<in> set b. ed_superseded_by r \<noteq> None}"
proof -
  assume eq: "map ed_id a = map ed_id b" "map ed_superseded_by a = map ed_superseded_by b"
  have key: "ed_id ` {r \<in> set c. ed_superseded_by r \<noteq> None}
      = fst ` {p \<in> set (zip (map ed_id c) (map ed_superseded_by c)). snd p \<noteq> None}" for c
    by (force simp: zip_map_map zip_same_conv_map image_iff)
  show ?thesis unfolding key [of a] key [of b] eq ..
qed

lemma write_resolved_effect:
  fixes env now q new s
  defines "s' \<equiv> fst (write_resolved_edge env now q new s)"
  assumes ok: "edges_ok (es_edges s)" and fresh: "ed_id new \<notin> ed_id ` set (es_edges s)"
    and new: "py_lower (ed_type new) = ed_type new" "ed_src new \<noteq> ed_dst new" "ed_superseded_by new = None"
  shows "edges_ok (es_edges s')"
    and "current_edge (es_edges s') = (current_edge (es_edges s))
           (edge_key new := if ed_valid_until new = None \<or> current_edge (es_edges s) (edge_key new) = Some (ed_polarity new)
                            then Some (ed_polarity new) else None)"
    and "edge_transition_ledger_enabled env \<Longrightarrow> ledger_ok s \<Longrightarrow> ledger_ok s'"
    and "set (map ed_id (es_edges s')) \<subseteq> insert (ed_id new) (set (map ed_id (es_edges s)))"
proof -
  let ?pol = "ed_polarity new" and ?k = "edge_key new" and ?es = "es_edges s"
  define edges1 shut where "edges1 = fst (close_prior_entity_edges now (ed_src new) (ed_dst new) (ed_via new) (ed_type new) ?pol ?es)"
    and "shut = snd (close_prior_entity_edges now (ed_src new) (ed_dst new) (ed_via new) (ed_type new) ?pol ?es)"
  define edges2 landed inserted where "edges2 = fst (insert_or_fold new edges1)"
    and "landed = fst (snd (insert_or_fold new edges1))" and "inserted = snd (snd (insert_or_fold new edges1))"
  note close = close_edges [OF ok new(1), where now = now and src = "ed_src new" and dst = "ed_dst new" and via = "ed_via new" and pol = ?pol,
      folded edges1_def shut_def edge_key_def]
  have fresh1: "ed_id new \<notin> ed_id ` set edges1" using fresh close(2) by (metis list.set_map)
  have agreed: "\<forall>r \<in> set edges1. open_edge r \<and> edge_key r = ?k \<longrightarrow> ed_polarity r = ?pol"
    using close(3) by blast
  note land = land_edge [OF close(1) fresh1 new agreed, folded edges2_def landed_def inserted_def]
  have shut2: "\<forall>r \<in> set edges2. ed_id r \<in> set shut \<longrightarrow> ed_valid_until r \<noteq> None \<and> ed_superseded_by r = None"
  proof (intro ballI impI)
    fix r
    assume that: "r \<in> set edges2" "ed_id r \<in> set shut"
    have "ed_id r \<in> ed_id ` set edges1" using that(2) close(2,6) by (metis list.set_map subsetD)
    then show "ed_valid_until r \<noteq> None \<and> ed_superseded_by r = None"
      using land(6) [OF that(1)] close(5) that(2) by metis
  qed
  have not_shut: "landed \<notin> set shut"
  proof
    assume in_shut: "landed \<in> set shut"
    then have "landed \<in> ed_id ` set edges1" using close(2,6) by (metis list.set_map subsetD)
    then obtain r where "r \<in> set edges1" "ed_id r = landed" "open_edge r" using land(7,8) by blast
    then show False using close(5) in_shut by (auto simp: open_edge_def)
  qed
  note link = link_edges [OF land(1,2) not_shut shut2]
  define edges3 where "edges3 = (if shut \<noteq> [] then link_closed landed shut edges2 else edges2)"
  have empty: "link_closed landed [] edges2 = edges2" by (simp add: link_closed_def)
  have e3: "edges3 = link_closed landed shut edges2" by (simp add: edges3_def empty)
  define events where "events = (if edge_transition_ledger_enabled env
      then edge_transitions shut landed inserted ?pol (rq_derived_from q) (rq_source_signal_ids q) edges3 else [])"
  have run: "s' = s\<lparr>es_edges := edges3, es_events := es_events s @ events\<rparr>"
    unfolding s'_def write_resolved_edge_def events_def edges3_def edges2_def landed_def inserted_def edges1_def shut_def
    by (simp add: Let_def case_prod_beta)
  show ok3: "edges_ok (es_edges s')" unfolding run e3 using link(1) by simp
  show "set (map ed_id (es_edges s')) \<subseteq> insert (ed_id new) (set (map ed_id (es_edges s)))"
  proof -
    have "inserted \<Longrightarrow> landed = ed_id new"
      by (auto simp: inserted_def landed_def insert_or_fold_def split: option.splits if_splits)
    then show ?thesis unfolding run using link(2) land(3) close(2) by (auto simp: e3)
  qed
  show "current_edge (es_edges s') = (current_edge ?es)
      (?k := if ed_valid_until new = None \<or> current_edge ?es ?k = Some ?pol then Some ?pol else None)"
  proof
    fix k
    have ce: "current_edge (es_edges s') = current_edge edges2" unfolding run e3 using link(3) by simp
    have iff: "current_edge edges2 k = Some x
        \<longleftrightarrow> (current_edge ?es k = Some x \<and> (k = ?k \<longrightarrow> x = ?pol)) \<or> ed_valid_until new = None \<and> k = ?k \<and> x = ?pol" for x
    proof -
      have "(\<exists>r \<in> set edges1. open_edge r \<and> edge_key r = k \<and> ed_polarity r = x)
          \<longleftrightarrow> current_edge ?es k = Some x \<and> (k = ?k \<longrightarrow> x = ?pol)"
        unfolding current_edge_some [OF ok] using close(3) by blast
      moreover have "open_edge new \<longleftrightarrow> ed_valid_until new = None" using new(3) by (simp add: open_edge_def)
      ultimately show ?thesis unfolding current_edge_some [OF land(1)] land(5) by blast
    qed
    show "current_edge (es_edges s') k = ((current_edge ?es)
      (?k := if ed_valid_until new = None \<or> current_edge ?es ?k = Some ?pol then Some ?pol else None)) k"
      unfolding ce by (rule option_eqI) (auto simp: iff)
  qed
  show "ledger_ok s'" if on: "edge_transition_ledger_enabled env" and led: "ledger_ok s"
  proof -
    have ev: "events = edge_transitions shut landed inserted ?pol (rq_derived_from q) (rq_source_signal_ids q) edges3"
      using on by (simp add: events_def)
    have ids3: "map ed_id edges3 = map ed_id ?es @ (if inserted then [landed] else [])"
      using link(2) land(3) close(2) by (simp add: e3)
    have sup2: "ed_id ` {r \<in> set edges2. ed_superseded_by r \<noteq> None} = ed_id ` {r \<in> set ?es. ed_superseded_by r \<noteq> None}"
    proof -
      let ?pad = "?es @ (if inserted then [undefined\<lparr>ed_id := landed, ed_superseded_by := None\<rparr>] else [])"
      have "ed_id ` {r \<in> set edges2. ed_superseded_by r \<noteq> None} = ed_id ` {r \<in> set ?pad. ed_superseded_by r \<noteq> None}"
        by (rule superseded_ids) (use land(3,4) close(2,4) in simp_all)
      also have "{r \<in> set ?pad. ed_superseded_by r \<noteq> None} = {r \<in> set ?es. ed_superseded_by r \<noteq> None}"
        by auto
      finally show ?thesis .
    qed
    have inter: "set shut \<inter> ed_id ` set edges3 = set shut \<inter> ed_id ` set edges2"
      using link(2) by (metis e3 list.set_map)
    have flips: "ee_edge_id ` {e \<in> set (es_events s @ events). ee_transition e \<noteq> Observed}
        = ee_edge_id ` {e \<in> set (es_events s). ee_transition e \<noteq> Observed}
          \<union> ee_edge_id ` {e \<in> set events. ee_transition e \<noteq> Observed}" by auto
    have "map ee_edge_id (filter (\<lambda>e. ee_transition e = Observed) (es_events s @ events)) = map ed_id edges3"
      using led ids3 by (simp add: ledger_ok_def ev transitions_ids(1))
    moreover have "ee_edge_id ` {e \<in> set (es_events s @ events). ee_transition e \<noteq> Observed}
        = ed_id ` {r \<in> set edges3. ed_superseded_by r \<noteq> None}"
      using led unfolding flips unfolding ledger_ok_def ev transitions_ids(2) inter link(4) [folded e3] sup2 by simp
    moreover have "es_edges s' = edges3" "es_events s' = es_events s @ events" by (simp_all add: run)
    ultimately show ?thesis by (simp only: ledger_ok_def simp_thms)
  qed
qed

section \<open>Runs of the transaction\<close>

inductive mirror_run :: "edge_env \<Rightarrow> (nexus_table \<Rightarrow> nexus_payload \<Rightarrow> bool) \<Rightarrow> edge_state \<times> nexus_table \<Rightarrow> bool"
  for env :: edge_env and admits :: "nexus_table \<Rightarrow> nexus_payload \<Rightarrow> bool"
where
  run_start: "mirror_run env admits (\<lparr>es_edges = [], es_parked = [], es_events = []\<rparr>, [])"
| run_write: "mirror_run env admits (es, tbl) \<Longrightarrow> admits tbl p \<Longrightarrow> row_id \<notin> nx_id ` set tbl
    \<Longrightarrow> edge_id \<notin> ed_id ` set (es_edges es)
    \<Longrightarrow> mirror_run env admits
          (fst (insert_nexus_mirrored env now produced edge_id analyst row_id p derived ssids st (es, tbl)))"

lemma canonical_rel_type_lower [simp]: "py_lower (canonical_rel_type x) = canonical_rel_type x"
proof (cases "x = [] \<or> py_strip x = []")
  case True
  have "py_lower x = x" if "\<forall>c \<in> set x. py_space c" for x
    using that by (induction x) (auto simp: py_lower_def lower_char_def py_space_def Let_def)
  moreover have "\<forall>c \<in> set x. py_space c" if "py_strip x = []"
  proof -
    have "dropWhile py_space (rev (dropWhile py_space x)) = []" using that by (simp add: py_strip_def)
    then have "\<forall>c \<in> set (dropWhile py_space x). py_space c" by (simp add: dropWhile_eq_Nil_conv)
    then have "dropWhile py_space x = []" using hd_dropWhile hd_in_set by (metis dropWhile_eq_Nil_conv)
    then show ?thesis by (simp add: dropWhile_eq_Nil_conv)
  qed
  ultimately show ?thesis using True by (auto simp: canonical_rel_type_def)
next
  case False
  have "py_lower (normalize_predicate w) = normalize_predicate w" if "normalize_predicate w \<noteq> w" for w
    using that canonical_formD(1) by (auto simp: normalize_predicate_def split: if_splits option.splits)
  then show ?thesis using False by (simp add: canonical_rel_type_def Let_def)
qed

lemma edge_request_simps [simp]:
  "rq_rel_type (edge_request_of e t a new) = nx_rel_type new"
  "rq_polarity (edge_request_of e t a new) = nx_polarity new"
  "rq_valid_until (edge_request_of e t a new) = nx_valid_until new"
  "rq_edge_id (edge_request_of e t a new) = e"
  "rq_subject (edge_request_of e t a new) = nx_subject new"
  "rq_object (edge_request_of e t a new) = nx_object new"
  "rq_intermediary (edge_request_of e t a new) = nx_intermediary new"
  by (simp_all add: edge_request_of_def)

lemma nexus_to_insert_fields [simp]:
  "nx_rel_type (nexus_to_insert now i p d e st) = canonical_rel_type (np_rel_type p)"
  "nx_subject (nexus_to_insert now i p d e st) = np_subject p"
  "nx_object (nexus_to_insert now i p d e st) = np_object p"
  "nx_intermediary (nexus_to_insert now i p d e st) = np_intermediary p"
  by (simp_all add: nexus_to_insert_def)

lemma edge_to_insert_simps [simp]:
  "ed_id (edge_to_insert q f a b v) = rq_edge_id q" "ed_type (edge_to_insert q f a b v) = rq_rel_type q"
  "ed_src (edge_to_insert q f a b v) = a" "ed_dst (edge_to_insert q f a b v) = b"
  "ed_superseded_by (edge_to_insert q f a b v) = None" "ed_polarity (edge_to_insert q f a b v) = rq_polarity q"
  "ed_valid_until (edge_to_insert q f a b v) = rq_valid_until q"
  "edge_key (edge_to_insert q f a b v) = (a, b, rq_rel_type q, via_key v)"
  by (simp_all add: edge_to_insert_def edge_key_def)

text \<open>A write that parks or meets itself leaves edges and ledger alone.\<close>

lemma write_edge_cases:
  fixes env now q s
  defines "src \<equiv> resolve_endpoint env (Some (rq_subject q))" and "dst \<equiv> resolve_endpoint env (Some (rq_object q))"
    and "via \<equiv> resolve_endpoint env (rq_intermediary q)"
  obtains (idle) parked out where "write_entity_edge_for_nexus env now q s = (s\<lparr>es_parked := parked\<rparr>, out)"
      and "endpoint_outcome (fst src) (snd src) (fst dst) (snd dst) \<noteq> None \<or> snd src = snd dst"
  | (landed) fam where "endpoint_outcome (fst src) (snd src) (fst dst) (snd dst) = None" and "the (snd src) \<noteq> the (snd dst)"
      and "write_entity_edge_for_nexus env now q s = write_resolved_edge env now q
             (edge_to_insert q fam (the (snd src)) (the (snd dst)) (if fst via = 1 then snd via else None)) s"
proof (cases "endpoint_outcome (fst src) (snd src) (fst dst) (snd dst)")
  case None
  show ?thesis
  proof (cases "snd src = snd dst")
    case True
    then show ?thesis using None idle [of "es_parked s" Self_edge]
      by (simp add: write_entity_edge_for_nexus_def Let_def case_prod_beta src_def dst_def)
  next
    case False
    have "snd src \<noteq> None" "snd dst \<noteq> None"
      using None by (auto simp: endpoint_outcome_def split: if_splits)
    then have "the (snd src) \<noteq> the (snd dst)" using False by auto
    then show ?thesis
      using None False
        landed [of "edge_family_for (Some (rq_source_type q)) (rq_analyst_id q) (rq_rel_type q)"]
      by (simp add: write_entity_edge_for_nexus_def Let_def case_prod_beta src_def dst_def via_def)
  qed
next
  case (Some reason)
  then show ?thesis using idle
    by (simp add: write_entity_edge_for_nexus_def Let_def case_prod_beta src_def dst_def)
qed

lemma mirrored_runs:
  assumes "nexuses_ok tbl" "row_id \<notin> nx_id ` set tbl"
  shows "insert_nexus_mirrored env now produced edge_id analyst row_id p derived ssids st (es, tbl)
    = ((fst (write_entity_edge_for_nexus env now
               (edge_request_of edge_id produced analyst (nexus_to_insert now row_id p derived ssids st)) es),
        fst (insert_nexus (\<lambda>_. False) now row_id p derived ssids st tbl)),
       Inr (snd (write_entity_edge_for_nexus env now
               (edge_request_of edge_id produced analyst (nexus_to_insert now row_id p derived ssids st)) es)))"
proof -
  have "snd (insert_nexus (\<lambda>_. False) now row_id p derived ssids st tbl) = Inr ()"
    using insert_nexus_effect [OF assms, where edge_raises = "\<lambda>_. False"] by simp
  then show ?thesis
    by (simp add: insert_nexus_mirrored_def Let_def case_prod_beta prod_eq_iff split: sum.splits prod.splits)
qed

text \<open>
  Whatever is written, the edge table stays well formed (one open row per endpoints, type and
  intermediary, no self edge, a successor only on closed rows and always in the table) and,
  with the flag on, the ledger exact.
\<close>

lemma mirror_run_ok:
  "mirror_run env admits st
    \<Longrightarrow> edges_ok (es_edges (fst st)) \<and> nexuses_ok (snd st) \<and> (edge_transition_ledger_enabled env \<longrightarrow> ledger_ok (fst st))"
proof (induction rule: mirror_run.induct)
  case run_start
  show ?case by (simp add: edges_ok_def nexuses_ok_def ledger_ok_def)
next
  case (run_write es tbl p row_id edge_id now produced analyst derived ssids st)
  then have ok: "edges_ok (es_edges es)" "nexuses_ok tbl" and led: "edge_transition_ledger_enabled env \<Longrightarrow> ledger_ok es"
    by auto
  let ?q = "edge_request_of edge_id produced analyst (nexus_to_insert now row_id p derived ssids st)"
  have nex: "nexuses_ok (fst (insert_nexus (\<lambda>_. False) now row_id p derived ssids st tbl))"
    using insert_nexus_effect [OF ok(2) run_write.hyps(3), where edge_raises = "\<lambda>_. False"] by simp
  have "edges_ok (es_edges (fst (write_entity_edge_for_nexus env now ?q es)))
    \<and> (edge_transition_ledger_enabled env \<longrightarrow> ledger_ok (fst (write_entity_edge_for_nexus env now ?q es)))"
  proof (cases rule: write_edge_cases [where env = env and q = ?q and now = now and s = es])
    case (idle parked out)
    then show ?thesis using ok(1) led by (simp add: ledger_ok_def)
  next
    case (landed fam)
    show ?thesis
      unfolding landed(3)
      by (intro conjI impI; rule write_resolved_effect(1,3)) (use landed(2) ok(1) led run_write.hyps(4) in simp_all)
  qed
  then show ?case using nex by (simp add: mirrored_runs [OF ok(2) run_write.hyps(3)])
qed

section \<open>The two tables agree\<close>

definition survivor :: "edge_env \<Rightarrow> py_str \<Rightarrow> uuid" where
  "survivor env s = the (snd (resolve_endpoint env (Some s)))"

text \<open>
  The names in use resolve, none to the nil id, and two that differ in more than case
  resolve differently.
\<close>

definition resolvable :: "edge_env \<Rightarrow> py_str set \<Rightarrow> bool" where
  "resolvable env names =
     (\<forall>s \<in> names. fst (resolve_endpoint env (Some s)) = 1 \<and> survivor env s \<noteq> 0
        \<and> (\<forall>s' \<in> names. survivor env s = survivor env s' \<longrightarrow> py_lower s = py_lower s'))"

text \<open>A payload between such names.\<close>

definition names_in :: "py_str set \<Rightarrow> nexus_payload \<Rightarrow> bool" where
  "names_in names p =
     (np_subject p \<in> names \<and> np_object p \<in> names
      \<and> (case np_intermediary p of None \<Rightarrow> True | Some v \<Rightarrow> v \<in> names))"

definition named_triple :: "py_str \<Rightarrow> py_str option \<Rightarrow> py_str \<Rightarrow> py_str \<Rightarrow> typed_triple" where
  "named_triple s via t ty =
     (py_lower s, py_lower (case via of None \<Rightarrow> [] | Some x \<Rightarrow> x), py_lower t, py_lower ty)"

definition resolved_key :: "edge_env \<Rightarrow> py_str \<Rightarrow> py_str option \<Rightarrow> py_str \<Rightarrow> py_str \<Rightarrow> uuid \<times> uuid \<times> py_str \<times> uuid" where
  "resolved_key env s via t ty =
     (survivor env s, survivor env t, ty, via_key (map_option (survivor env) via))"

text \<open>
  A payload that carries an expiry and gives the open relation another label for the same
  sign. It closes the nexus, while the edge, which compares signs only, stays open.
\<close>

definition dated_relabel :: "nexus_table \<Rightarrow> nexus_payload \<Rightarrow> bool" where
  "dated_relabel tbl p =
     (np_valid_until p \<noteq> None
      \<and> (case current_relation tbl (named_triple (np_subject p) (np_intermediary p) (np_object p)
                                     (canonical_rel_type (np_rel_type p))) of
           None \<Rightarrow> False
         | Some (sign, label) \<Rightarrow> sign = np_polarity p \<and> label \<noteq> py_lower (np_label p)))"

lemma btrim_lower: "btrim (py_lower s) = py_lower (btrim s)"
  by (simp add: btrim_def py_lower_def rev_map dropWhile_map comp_def)

lemma survivor_lower:
  assumes "py_lower s = py_lower t"
  shows "survivor env s = survivor env t"
proof -
  have "py_lower (btrim s) = py_lower (btrim t)" using assms by (metis btrim_lower)
  then show ?thesis
    using lower_Nil by (simp add: survivor_def resolve_endpoint_def terminals_def) (metis lower_Nil)
qed

lemma resolved_once:
  assumes "resolvable env names" "s \<in> names"
  shows "fst (resolve_endpoint env (Some s)) = 1" "snd (resolve_endpoint env (Some s)) = Some (survivor env s)"
    "survivor env s \<noteq> 0" "s \<noteq> []"
proof -
  show one: "fst (resolve_endpoint env (Some s)) = 1" and "survivor env s \<noteq> 0"
    using assms by (auto simp: resolvable_def)
  from one have "btrim s \<noteq> []" "terminals env s \<noteq> []"
    by (auto simp: resolve_endpoint_def simp del: One_nat_def split: if_splits)
  then show "snd (resolve_endpoint env (Some s)) = Some (survivor env s)" "s \<noteq> []"
    by (simp_all add: survivor_def resolve_endpoint_def) (auto simp: btrim_def)
qed

lemma same_survivor:
  assumes "resolvable env names" "s \<in> names" "t \<in> names"
  shows "survivor env s = survivor env t \<longleftrightarrow> py_lower s = py_lower t"
  using assms survivor_lower [of s t env] unfolding resolvable_def by blast

lemma same_via:
  assumes res: "resolvable env names" and via: "case via of None \<Rightarrow> True | Some v \<Rightarrow> v \<in> names"
    and via': "case via' of None \<Rightarrow> True | Some v \<Rightarrow> v \<in> names"
  shows "via_key (map_option (survivor env) via) = via_key (map_option (survivor env) via')
    \<longleftrightarrow> py_lower (case via of None \<Rightarrow> [] | Some x \<Rightarrow> x) = py_lower (case via' of None \<Rightarrow> [] | Some x \<Rightarrow> x)"
proof -
  have z: "survivor env v \<noteq> 0 \<and> py_lower v \<noteq> []" if "v \<in> names" for v
    using resolved_once(3,4) [OF res that] by simp
  show ?thesis
  proof (cases via; cases via')
    fix v
    assume "via = None" "via' = Some v"
    then show ?thesis using z [of v] via' by (simp add: via_key_def py_lower_def)
  next
    fix v
    assume "via = Some v" "via' = None"
    then show ?thesis using z [of v] via by (simp add: via_key_def py_lower_def)
  next
    fix v v'
    assume "via = Some v" "via' = Some v'"
    then show ?thesis using via via' same_survivor [OF res] by (simp add: via_key_def)
  qed simp
qed

lemma key_is_triple:
  assumes "resolvable env names" "s \<in> names" "t \<in> names" "s' \<in> names" "t' \<in> names"
    and "case via of None \<Rightarrow> True | Some v \<Rightarrow> v \<in> names" "case via' of None \<Rightarrow> True | Some v \<Rightarrow> v \<in> names"
    and "py_lower ty = ty" "py_lower ty' = ty'"
  shows "resolved_key env s via t ty = resolved_key env s' via' t' ty'
    \<longleftrightarrow> named_triple s via t ty = named_triple s' via' t' ty'"
  using assms same_via [OF assms(1,6,7)]
  by (simp add: resolved_key_def named_triple_def same_survivor [OF assms(1)]) blast

definition tables_agree :: "edge_env \<Rightarrow> py_str set \<Rightarrow> edge_state \<times> nexus_table \<Rightarrow> bool" where
  "tables_agree env names st =
     (\<forall>s \<in> names. \<forall>t \<in> names. \<forall>via ty. (case via of None \<Rightarrow> True | Some v \<Rightarrow> v \<in> names)
        \<longrightarrow> survivor env s \<noteq> survivor env t \<longrightarrow> py_lower ty = ty
        \<longrightarrow> current_edge (es_edges (fst st)) (resolved_key env s via t ty)
             = map_option fst (current_relation (snd st) (named_triple s via t ty)))"

text \<open>One write in terms of the maps of current edges.\<close>

lemma write_named_edge:
  fixes q :: edge_request
  assumes res: "resolvable env names" and q: "rq_subject q \<in> names" "rq_object q \<in> names"
    "case rq_intermediary q of None \<Rightarrow> True | Some v \<Rightarrow> v \<in> names" "py_lower (rq_rel_type q) = rq_rel_type q"
    and ok: "edges_ok (es_edges s)" and fresh: "rq_edge_id q \<notin> ed_id ` set (es_edges s)"
  defines "k \<equiv> resolved_key env (rq_subject q) (rq_intermediary q) (rq_object q) (rq_rel_type q)"
  shows "current_edge (es_edges (fst (write_entity_edge_for_nexus env now q s)))
    = (if survivor env (rq_subject q) = survivor env (rq_object q) then current_edge (es_edges s)
       else (current_edge (es_edges s))
              (k := if rq_valid_until q = None \<or> current_edge (es_edges s) k = Some (rq_polarity q)
                    then Some (rq_polarity q) else None))"
proof -
  note sub = resolved_once(1,2) [OF res q(1)] and obj = resolved_once(1,2) [OF res q(2)]
  have via: "(if fst (resolve_endpoint env (rq_intermediary q)) = 1
              then snd (resolve_endpoint env (rq_intermediary q)) else None)
      = map_option (survivor env) (rq_intermediary q)"
  proof (cases "rq_intermediary q")
    case None
    then show ?thesis by (simp add: resolve_endpoint_def)
  next
    case (Some v)
    then show ?thesis using q(3) resolved_once(1,2) [OF res, of v] by simp
  qed
  have run: "endpoint_outcome (fst (resolve_endpoint env (Some (rq_subject q)))) (snd (resolve_endpoint env (Some (rq_subject q))))
      (fst (resolve_endpoint env (Some (rq_object q)))) (snd (resolve_endpoint env (Some (rq_object q)))) = None"
    using sub obj by (simp add: endpoint_outcome_def)
  show ?thesis
  proof (cases rule: write_edge_cases [where env = env and q = q and now = now and s = s])
    case (idle parked out)
    then show ?thesis using run sub obj by simp
  next
    case (landed fam)
    then have ne: "survivor env (rq_subject q) \<noteq> survivor env (rq_object q)" using sub obj by simp
    let ?new = "edge_to_insert q fam (survivor env (rq_subject q)) (survivor env (rq_object q))
                  (map_option (survivor env) (rq_intermediary q))"
    have "current_edge (es_edges (fst (write_resolved_edge env now q ?new s)))
        = (current_edge (es_edges s)) (edge_key ?new :=
             if rq_valid_until q = None \<or> current_edge (es_edges s) (edge_key ?new) = Some (rq_polarity q)
             then Some (rq_polarity q) else None)"
      by (subst write_resolved_effect(2)) (use ok fresh q(4) ne in simp_all)
    then show ?thesis using ne sub obj unfolding landed(3) via k_def by (simp add: resolved_key_def)
  qed
qed

lemma agreement_kept:
  "mirror_run env (\<lambda>tbl p. names_in names p \<and> \<not> dated_relabel tbl p) st \<Longrightarrow> resolvable env names
   \<Longrightarrow> tables_agree env names st"
proof (induction rule: mirror_run.induct)
  case run_start
  show ?case by (simp add: tables_agree_def current_edge_def current_relation_def)
next
  case (run_write es tbl p row_id edge_id now produced analyst derived ssids st)
  note res = run_write.prems
  have ok: "edges_ok (es_edges es)" "nexuses_ok tbl"
    using mirror_run_ok [OF run_write.hyps(1)] by simp_all
  have agree: "tables_agree env names (es, tbl)" by (rule run_write.IH [OF res])
  let ?new = "nexus_to_insert now row_id p derived ssids st"
  let ?q = "edge_request_of edge_id produced analyst ?new"
  let ?ty = "canonical_rel_type (np_rel_type p)"
  have p: "np_subject p \<in> names" "np_object p \<in> names" "case np_intermediary p of None \<Rightarrow> True | Some v \<Rightarrow> v \<in> names"
    and undated: "\<not> dated_relabel tbl p"
    using run_write.hyps(2) by (simp_all add: names_in_def)
  let ?k = "resolved_key env (np_subject p) (np_intermediary p) (np_object p) ?ty"
    and ?t = "named_triple (np_subject p) (np_intermediary p) (np_object p) ?ty"
  have tt: "typed_triple ?new = ?t" by (simp add: typed_triple_def named_triple_def)
  have nex: "current_relation (fst (insert_nexus (\<lambda>_. False) now row_id p derived ssids st tbl))
      = (current_relation tbl)(?t := if np_valid_until p = None \<or> current_relation tbl ?t = Some (np_polarity p, py_lower (np_label p))
                                     then Some (np_polarity p, py_lower (np_label p)) else None)"
    using insert_nexus_effect [OF ok(2) run_write.hyps(3), where edge_raises = "\<lambda>_. False"] by (simp add: tt)
  have edge: "current_edge (es_edges (fst (write_entity_edge_for_nexus env now ?q es)))
      = (if survivor env (np_subject p) = survivor env (np_object p) then current_edge (es_edges es)
         else (current_edge (es_edges es))
                (?k := if np_valid_until p = None \<or> current_edge (es_edges es) ?k = Some (np_polarity p)
                       then Some (np_polarity p) else None))"
    using write_named_edge [OF res, of ?q es now] p ok(1) run_write.hyps(4) by simp
  have "current_edge (es_edges (fst (write_entity_edge_for_nexus env now ?q es))) (resolved_key env s via t ty)
      = map_option fst (current_relation (fst (insert_nexus (\<lambda>_. False) now row_id p derived ssids st tbl))
          (named_triple s via t ty))"
    if names: "s \<in> names" "t \<in> names" "case via of None \<Rightarrow> True | Some v \<Rightarrow> v \<in> names"
      "survivor env s \<noteq> survivor env t" "py_lower ty = ty" for s t via ty
  proof -
    have old: "current_edge (es_edges es) (resolved_key env s via t ty)
        = map_option fst (current_relation tbl (named_triple s via t ty))"
      using agree names by (simp add: tables_agree_def)
    have key: "resolved_key env s via t ty = ?k \<longleftrightarrow> named_triple s via t ty = ?t"
      by (rule key_is_triple [OF res]) (use names p in simp_all)
    have self: "named_triple s via t ty \<noteq> ?t" if "survivor env (np_subject p) = survivor env (np_object p)"
      using that names(4) survivor_lower [of s "np_subject p" env] survivor_lower [of t "np_object p" env]
      by (auto simp: named_triple_def)
    show ?thesis
    proof (cases "named_triple s via t ty = ?t")
      case True
      then have "survivor env (np_subject p) \<noteq> survivor env (np_object p)" using self by blast
      moreover have "current_edge (es_edges es) ?k = map_option fst (current_relation tbl ?t)"
        using old key True by simp
      ultimately show ?thesis
        unfolding edge nex using True key undated
        by (auto simp: dated_relabel_def split: option.splits prod.splits)
    next
      case False
      then show ?thesis unfolding edge nex using old key by simp
    qed
  qed
  then show ?case
    by (simp add: tables_agree_def mirrored_runs [OF ok(2) run_write.hyps(3)])
qed

text \<open>C16: as long as the names in use resolve, and resolve apart, and no write that carries an
  expiry gives an open relation another label for the same sign, every run of the nexus
  transaction keeps the two tables in agreement: for any two of the names, with or without an
  intermediary, the sign of the open edge between their ids is the sign of the open nexus
  between the names, and one exists exactly when the other does.
\<close>

theorem dual_write_agreement:
  assumes "mirror_run env (\<lambda>tbl p. names_in names p \<and> \<not> dated_relabel tbl p) st" and "resolvable env names"
    and "s \<in> names" and "t \<in> names" and "case via of None \<Rightarrow> True | Some v \<Rightarrow> v \<in> names"
    and "survivor env s \<noteq> survivor env t" and "py_lower ty = ty"
  shows "current_edge (es_edges (fst st)) (resolved_key env s via t ty)
    = map_option fst (current_relation (snd st) (named_triple s via t ty))"
  using agreement_kept [OF assms(1,2)] assms(3-) by (simp add: tables_agree_def)

text \<open>
  A run: an alliance between two profiles, re-typed as hostility. The second has a merged
  duplicate under another spelling.
\<close>

definition two_profiles :: edge_env where
  "two_profiles =
     \<lparr>xe_profiles = [(''A'', 1), (''B'', 2), (''b'', 3)],
      xe_terminal = (\<lambda>i. if i = 3 then 2 else i), xe_ledger = Some ''on''\<rparr>"

definition mirrored :: "nexus_payload list \<Rightarrow> edge_state \<times> nexus_table" where
  "mirrored ps =
     foldl (\<lambda>(es, tbl) p. fst (insert_nexus_mirrored two_profiles 7 7 (1 + length (es_edges es)) None
                                 (1 + length tbl) p [] [] None (es, tbl)))
       (\<lparr>es_edges = [], es_parked = [], es_events = []\<rparr>, []) ps"

definition turned :: "edge_state \<times> nexus_table" where
  "turned = mirrored [relation 1 ''allied'', relation (- 1) ''hostile'']"

lemma first_ids:
  "(let st = mirrored [relation 1 ''allied''] in (map ed_id (es_edges (fst st)), map nx_id (snd st))) = ([1], [1])"
  by code_simp

lemma resolved_A: "resolve_endpoint two_profiles (Some ''A'') = (1, Some 1)"
  by code_simp

lemma resolved_B: "resolve_endpoint two_profiles (Some ''B'') = (1, Some 2)"
  by code_simp

lemma resolved_b: "resolve_endpoint two_profiles (Some ''b'') = (1, Some 2)"
  by code_simp

lemma b_lowers: "py_lower ''B'' = py_lower ''b''"
  by code_simp

lemma names_apart: "resolvable two_profiles {''A'', ''B'', ''b''}"
  by (simp add: resolvable_def survivor_def resolved_A resolved_B resolved_b b_lowers)

lemma turned_edge:
  "current_edge (es_edges (fst turned)) (resolved_key two_profiles ''A'' None ''b'' ''allied with'') = Some (- 1)"
  by code_simp

text \<open>Both names, and both spellings of the second, are in use.\<close>

abbreviation in_use :: "nexus_table \<Rightarrow> nexus_payload \<Rightarrow> bool" where
  "in_use \<equiv> \<lambda>tbl p. names_in {''A'', ''B'', ''b''} p \<and> \<not> dated_relabel tbl p"

lemma relation_in_use: "in_use tbl (relation pol label)"
  by (simp add: names_in_def relation_def dated_relabel_def)

lemma mirrored_step:
  "mirrored (ps @ [p]) = fst (insert_nexus_mirrored two_profiles 7 7 (1 + length (es_edges (fst (mirrored ps)))) None
     (1 + length (snd (mirrored ps))) p [] [] None (fst (mirrored ps), snd (mirrored ps)))"
  by (simp add: mirrored_def case_prod_beta)

lemma mirrored_runs_on:
  assumes "mirror_run two_profiles admits (mirrored ps)" "admits (snd (mirrored ps)) p"
    and "1 + length (snd (mirrored ps)) \<notin> nx_id ` set (snd (mirrored ps))"
    and "1 + length (es_edges (fst (mirrored ps))) \<notin> ed_id ` set (es_edges (fst (mirrored ps)))"
  shows "mirror_run two_profiles admits (mirrored (ps @ [p]))"
  unfolding mirrored_step by (rule run_write) (use assms in simp_all)

lemma turned_run: "mirror_run two_profiles in_use turned"
proof -
  have run_ids: "length (es_edges (fst st)) = 1" "ed_id ` set (es_edges (fst st)) = {1}"
    "length (snd st) = 1" "nx_id ` set (snd st) = {1}"
    if "st = mirrored [relation 1 ''allied'']" for st
  proof -
    have "map ed_id (es_edges (fst st)) = [1]" "map nx_id (snd st) = [1]"
      using first_ids that by (simp_all add: Let_def)
    then show "length (es_edges (fst st)) = 1" "ed_id ` set (es_edges (fst st)) = {1}"
      "length (snd st) = 1" "nx_id ` set (snd st) = {1}" by (auto simp: map_eq_Cons_conv)
  qed
  have start: "mirrored [] = (\<lparr>es_edges = [], es_parked = [], es_events = []\<rparr>, [])"
    by (simp add: mirrored_def)
  have "mirror_run two_profiles in_use (mirrored ([] @ [relation 1 ''allied'']))"
    by (rule mirrored_runs_on [where admits = in_use]) (use relation_in_use in \<open>simp_all add: start run_start\<close>)
  then have one: "mirror_run two_profiles in_use (mirrored [relation 1 ''allied''])" by simp
  have "mirror_run two_profiles in_use (mirrored ([relation 1 ''allied''] @ [relation (- 1) ''hostile'']))"
    by (rule mirrored_runs_on [where admits = in_use, OF one]) (use relation_in_use first_ids run_ids in simp_all)
  then show ?thesis by (simp add: turned_def)
qed

lemma dual_write_agreement_witness:
  "map_option fst (current_relation (snd turned) (named_triple ''A'' None ''b'' ''allied with'')) = Some (- 1)"
proof -
  have "survivor two_profiles ''A'' \<noteq> survivor two_profiles ''b''"
    by (simp add: survivor_def resolved_A resolved_b)
  moreover have "py_lower ''allied with'' = ''allied with''" by code_simp
  ultimately show ?thesis
    using dual_write_agreement [OF turned_run names_apart, of "''A''" "''b''" None "''allied with''"] turned_edge by simp
qed

text \<open>
  Where the tables part. A new label for the same sign ends the nexus and starts another,
  while the edge only counts one more sighting.
\<close>

lemma label_change_folds:
  "(let st = mirrored [relation 1 ''allied'', relation 1 ''partner'']
    in (map ed_observed_count (es_edges (fst st)), map nx_superseded_by (snd st))) = ([2], [Some 2, None])"
  by code_simp

text \<open>
  With an expiry the difference lasts: the dated relabel closes the nexus and leaves the edge
  open, so the relation is over in one table and stands in the other.
\<close>

lemma dated_relabel_leaves_edge:
  "(let st = mirrored [relation 1 ''allied'', (relation 1 ''partner'')\<lparr>np_valid_until := Some 9\<rparr>]
    in (current_edge (es_edges (fst st)) (resolved_key two_profiles ''A'' None ''B'' ''allied with''),
        current_relation (snd st) (named_triple ''A'' None ''B'' ''allied with''))) = (Some 1, None)"
  by code_simp

text \<open>
  An intermediary without a profile is dropped from the edge: the hostile relation by way of
  nobody known ends the direct alliance in \<^verbatim>\<open>entity_edges\<close>, not in \<^verbatim>\<open>nexuses\<close>.
\<close>

definition by_way_of :: "py_str \<Rightarrow> nexus_payload" where
  "by_way_of v = (relation (- 1) ''hostile'')\<lparr>np_intermediary := Some v\<rparr>"

lemma unknown_intermediary_ends_direct_edge:
  "(let st = mirrored [relation 1 ''allied'', by_way_of ''Nobody'']
    in (map ed_superseded_by (es_edges (fst st)), map nx_superseded_by (snd st))) = ([Some 2, None], [None, None])"
  by code_simp

text \<open>The tally splits the writes.\<close>

lemma tally_splits:
  "ct_inserted c + ct_folded c = ct_written c
    \<Longrightarrow> ct_inserted (fold record_outcome outs c) + ct_folded (fold record_outcome outs c)
         = ct_written (fold record_outcome outs c)"
proof (induction outs arbitrary: c)
  case (Cons out outs)
  have "ct_inserted (record_outcome out c) + ct_folded (record_outcome out c) = ct_written (record_outcome out c)"
    using Cons.prems by (cases out) simp_all
  then show ?case using Cons.IH by simp
qed simp

end
