(* ===== verification/Spec2Isabelle.thy ===== *)
theory Spec2Isabelle
  imports Lifecycle EventLedger TriggerEngine SubEngine JobWorker Agency Reconcile Checkpoints Discovery
    Leader Predicates Lineage Verify ManualBatch FactDecay EdgeMirror
begin

text \<open>
  Legba, the control core. Legba ingests signals from sources, delivers them to targets that
  subscribe to those sources, wakes analysts on the targets, lets the analysts act through
  governed action packs, and keeps the running actors in step with a registry of descriptors.
  This development models the parts that decide: who may subscribe and what is delivered, when
  an analyst runs, which job worker does which work, what a pack tool may spend, how actors
  converge, which targets a discovery makes and retires, which replica leads, what a predicate may
  say, what attests that an analyst ran, what a finding's verdict of faithfulness is worth, and what
  the knowledge tables hold true now. It leaves out what writes a prompt, draws a screen or moves bytes.

  How the parts interact. A descriptor moves through lifecycle states (Lifecycle); the reconcile
  loop turns registry state into actor calls and live-set hooks (Reconcile). A target's source
  references are resolved, authorised and bound (SubEngine, SubPolicy); its signals arrive over
  coarse bus subjects (Subjects) and are matched exactly (SubFilter). A matching signal dirties
  an (analyst, target) pair in the trigger table (TriggerState); the policy decides whether to
  fire (TriggerPolicy), and the coalescer claims the fire by compare-and-set and dispatches it
  (Coalescer, TriggerEngine). Long work goes through a queue and an idempotency ledger (JobStore,
  JobWorker). An analyst's tool calls pass the agency gate (Governor, Agency) under the token
  budget (Budget). Events carry their own ledger of lifecycle transitions (EventLedger). Runs of
  analysts are chained by receipts, which the checkpointer signs and a daily job anchors (Receipts,
  Checkpoints). Discoveries turn candidates into targets: a chain of relabel rules rewrites the
  labels (Labels, Relabel), the writes are merged into a template (DescriptorTree), and the cycle
  inserts, leaves alone or retires the target's row (Discovery). The reconcile loop and its informer
  run on the replica that the lease elects (Leader). The predicates that targets, packs and analysts
  carry are compiled under a gate (Predicates).

  A finding is verified before it is published. The deterministic floor grades its claims by their
  citations (Corroboration, Faithfulness) and folds in structured indicators and guard spans
  (Overrides). Unless the sampling gate leaves the finding out, a language model grades the claims:
  the call is retried within a budget and its reply is aligned with the claims (JudgeCall), a
  contradiction has to earn its severity (Severity), and the verdicts are merged with the floor
  (Judge). The passes that follow overrule single verdicts or add failures: metadata lookups
  (Metadata), uncited premises, licensed comparisons, scoped absences, input checks and attribution
  (PostJudge), and the audit of an assembled read, whose ratio replaces the headline (Assembly).
  The score is then given its state and its caps, and a finding that would be excluded unjudged is
  verified again with the gate open (Verify). The lineage of rows is audited apart (Lineage).

  What analysts, the ingest filters and operators assert lands in two tables. A fact is a subject, a
  predicate and a value; a write closes the open rows of the same subject and predicate that it
  outranks or equals, merges with the open row of its own triple or opens a new one (FactPlane), and
  when contested values may coexist, a clustering of values by edit distance decides what is contested
  (ValueClusters). A nexus is a typed, signed relation, kept the same way (NexusPlane) and mirrored, in the same transaction, in a table of
  edges between entity ids (EdgeMirror). Operators load
  batches through both writers in one of three modes (ManualBatch). The confidence of a fact decays
  with the time since it was sighted (FactDecay).

  Theories and sources (under \<open>src/src/legba/\<close>; definitions keep the source's names):
  \<^item> Prelude: strings, instants, joins, first-occurrence filters, tables as association lists.
    Machine: the locale \<open>guarded_machine\<close> of the three lifecycle machines.
  \<^item> Lifecycle: \<open>runtime/lifecycle.py\<close> (events, transition table, FSM with history),
    \<open>data/schemas/lifecycle.py\<close>, \<open>data/schemas/collection.py\<close>,
    \<open>data/registry/descriptor_families.py\<close>. The history of an FSM replays to its state; how
    the runtime machine and the registry table relate.
  \<^item> EventLedger: \<open>data/events/lifecycle.py\<close> and the maintenance pass of the deterministic
    handler \<open>_event_lifecycle.py\<close>. The pass never raises on coherent tables and keeps them
    coherent; every proposed transition is legal.
  \<^item> TriggerPolicy: \<open>runtime/triggers/policy.py\<close>. TriggerState:
    \<open>runtime/triggers/state.py\<close>, one definition per SQL statement, and the locale
    \<open>anchor_store\<close>. Coalescer: \<open>runtime/triggers/coalescer.py\<close>, \<open>dispatch.py\<close>; the step
    relation \<open>fleet_step\<close> interleaves workers between their statements, and a one-worker run
    refines an accounting specification. TriggerEngine: \<open>runtime/triggers/engine.py\<close>.
    Dispatches of a pair are spaced by its cooldown in every interleaving; a window counts
    distinct ids; a stale save can cause a second dispatch after it.
  \<^item> Signals: the row and payload readers. SubFilter: \<open>runtime/subscription/filter.py\<close>, the SQL
    filter with the meaning PostgreSQL gives its clauses, and the in-Python match; they agree
    up to backfill rows. Subjects: the subject code of \<open>data/nats.py\<close> and
    \<open>runtime/subscription/subjects.py\<close>; coarse delivery loses nothing. SubPolicy:
    \<open>runtime/subscription/policy.py\<close> with the locale \<open>grant_book\<close>. SubEngine:
    \<open>runtime/subscription/sourceref.py\<close>, \<open>engine.py\<close>, \<open>backfill.py\<close>; registered bindings are
    authorised, and how often the late-join handoff delivers a row, given which messages the
    stream still held when the forward consumer was added.
  \<^item> JobStore: \<open>data/jobs/envelope.py\<close>, \<open>data/jobs/store.py\<close> with the locale
    \<open>job_ledger\<close>. JobWorker: \<open>runtime/jobs/worker.py\<close>, \<open>dispatch.py\<close>, \<open>queue.py\<close>; an
    executor of fleet events (deliveries, ends of handlers, deaths, sweeps) in which the broker
    may deliver anything to anyone. Processing is exclusive while no holder outlives its lease;
    terminal keys are not run again; retries end; what the lease and the attempt count do not
    cover.
  \<^item> Budget: \<open>runtime/budget.py\<close>, \<open>data/provenance/budget.py\<close>. Governor:
    \<open>data/analysts/agency/resolution.py\<close>, \<open>governor.py\<close>, \<open>data/schemas/action_pack.py\<close>, with
    the locale \<open>rate_gate\<close> interpreted on the minute and the hour window. Agency:
    \<open>agency/agency.py\<close>, \<open>events.py\<close>. A call runs exactly when every gate passes and its ledger
    row is settled; the steps of many calls interleave, and no sliding window exceeds its cap by more
    than the other calls that were checked and not yet recorded.
  \<^item> Reconcile: \<open>runtime/reconcile.py\<close>, the executor of \<open>runtime/dapr_host.py\<close>, the breaker
    of \<open>runtime/actor_turn.py\<close>, the hooks of \<open>runtime/source_first_runtime.py\<close>. Two passes
    converge from any table; replacing a version of an analyst loses its triggers.
  \<^item> Receipts: \<open>data/provenance/receipts.py\<close> and \<open>compute_receipt_hash\<close> of
    \<open>data/provenance/_core.py\<close>. The chain of an analyst stays linear through runs, failures and
    restarts of one process; two processes, or an INSERT that commits and whose answer is lost, fork
    it; and rows that verify up to a recorded head are
    the recorded ones. Checkpoints: \<open>data/provenance/checkpointer.py\<close> and
    \<open>analysts/deterministic_handlers/receipt_anchor.py\<close>; with overlapping runs a checkpoint signs
    a superseded receipt, a Merkle root binds the heads of one size.
  \<^item> Labels and Relabel: \<open>data/discovery/relabel.py\<close> over a store of dicts, since rules write
    through shared dicts. DescriptorTree and Discovery:
    \<open>data/registry/discovered_materializer.py\<close>, \<open>data/discovery/disappearance.py\<close>. A cycle keeps
    one head per descriptor and retires exactly the keys that are gone, within the threshold; what
    is retired stays retired, and file discoveries retire what they list.
  \<^item> Leader: \<open>runtime/leader.py\<close> and the callbacks in \<open>runtime/dapr_host.py\<close>. Every await is a
    step of a cluster of replicas; two healthy replicas never run the singleton loops together; a
    failed start is not retried, and a shutdown hands over before it stops.
  \<^item> Predicates: \<open>data/predicates/compiler.py\<close> and the catalog of
    \<open>data/predicates/helpers.py\<close>, with the locale \<open>memo_cache\<close> interpreted on the LRU cache.
    The scan finds every reference that stands outside quotes, so what such references of a compiled
    predicate name its surface binds and feeds; the iteration cap and the scan itself can be evaded by
    quotes.
  \<^item> Lineage: the provenance check and \<open>validate_lineage\<close> of \<open>data/provenance/verify.py\<close>, and the
    composition sweep. For every depth bound what the walk reports is
    what reachability says, up to exhausted rows, which end real paths longer than the bound; it can
    still report a row queued twice around the bound and misses cycles off the first path.
  \<^item> JudgeCall: \<open>data/provenance/judge_transport.py\<close> (the retries) and
    \<open>judge_verdict_parsing.py\<close>. Calls and sleeps are bounded, and a reply that names each claim once
    reaches the claims it names.
  \<^item> Corroboration and Faithfulness: markers, citation maps, the union-find over correlated
    sub-claims and the two floors of \<open>verify.py\<close>; the components are the connected ones and the
    books of a floor balance. Overrides: the claim overrides and the folds of indicators and guard
    spans; what an override erases is counted.
  \<^item> Severity: \<open>judge_quote_rules.py\<close>, \<open>judge_evidence.py\<close> and the severity chain; when a failure is
    hard. Judge: the partitions, branch scores and the reconciliation; every claim of a run is
    accounted for, and what the merge does to the books.
  \<^item> Assembly: \<open>assembly_arms.py\<close> and \<open>text_fold.py\<close>; the headline of an assembled read is the share
    of its checks that found nothing. Metadata: the lookup of metadata claims.
  \<^item> PostJudge: the passes of \<open>verify.py\<close>, \<open>assessment_weighting.py\<close>, \<open>judge_input_checks.py\<close> and
    \<open>composition_integrity.py\<close>; each keeps the tally, the status and the ceiling of a report.
    Verify: the whole pass, the sampling gate and the caps (\<open>judge_assessability.py\<close>) and the
    escalation (\<open>judge_floor_escalation.py\<close>). An unjudged report is the tally of its rows, a finding
    that is sampled out depends on no model, and an escalation is recorded or changes nothing.

  \<^item> ValueClusters: \<open>normalized_levenshtein\<close> of \<open>data/_url_canon.py\<close> and
    \<open>data/provenance/value_clustering.py\<close>; the table computes the edit distance, the clusters
    partition the values. FactPlane: \<open>data/provenance/writes_supersession.py\<close>, \<open>_insert_fact\<close> of
    \<open>writes.py\<close>, \<open>_insert_ingestion_fact\<close> of \<open>data/filters/fact_extractor.py\<close> and
    \<open>normalize_predicate\<close> of \<open>data/vocabulary.py\<close>, with the locale \<open>fact_closer\<close> interpreted on the
    closing statements. The calls of the writers also run
    statement by statement, each statement committing for itself; while no two producer calls about
    one triple are in flight together a triple has one open row, and two that overlap can leave two.
    An insert, run whole, implements an update of a set of
    beliefs, higher authority is never closed, corroboration is bounded; what dangles, and what an
    expiry leads to.
  \<^item> NexusPlane: \<open>supersede_prior_nexuses\<close>, \<open>_insert_nexus\<close> and \<open>_canonical_rel_type\<close>; a write is
    one update of the map of current relations, and spellings are canonical in one pass. In it the
    mirror write is an argument that may raise. EdgeMirror:
    \<open>data/provenance/entity_edge_writes.py\<close> and the whole transaction of \<open>_insert_nexus\<close>. While the
    names resolve apart and no write with an expiry relabels an open relation of the same sign, every
    run keeps the signs of the two tables in agreement; the edge table
    stays well formed and the transition ledger exact; where a new label, a dated
    relabel or an unknown intermediary makes the tables part.
    ManualBatch: \<open>data/seed/manual_batch.py\<close>; a written record is the open truth and its rerun does
    nothing, but for dated records and contested values. FactDecay: \<open>data/facts/decay.py\<close>; every
    configuration in force is well formed, time only ages a fact, some overrides are dead.

  Modelling choices. A database table is an association list in insertion order under its
  primary key; a SQL statement is one function of the table, and statements of different workers
  interleave where the code holds no lock. Clock readings are arguments, in microseconds; where
  the code reads several clocks, each is an argument of its own. Ids and other uuids are strings;
  in the fact plane, where arrays of them are sorted, numbers.
  Floats and decimals are rationals, in FactDecay
  reals, with the source's constants exact. Strings are lists of
  ASCII characters, and case mapping is the ASCII one. Errors are values of a sum or an option.
  Log texts, detail strings and metrics are left out unless another part reads them. What is not
  under the sources is a parameter: the predicate engine, pydantic validation, the broker, the
  actors' answers, the handlers of jobs and tools. In the verify pass the cutting of prose into
  claims and the tests on the wording of a claim (regular expressions over word lists) are
  arguments too, gathered in records of readers; so a theorem about the pass holds whatever they
  answer. The wording of details is an argument or left out.

  Bounds. Only \<open>FactPlane.run_alone\<close> uses fuel, one unit per statement of a writer call, of which
  there are at most five (\<open>assert_alone\<close>, \<open>ingest_alone\<close>). All other loops recurse on the list they walk, and runs are over lists of
  events of any length, so the theorems about runs hold for runs of every length.

  Not modelled: the language-model analysts and their prompts, source clients and ingest filters,
  entity resolution, the other writers of provenance and the lexical tests of the judge, outputs and alert sinks, the registry's
  HTTP interface, stores and migrations, the Dapr host other than the executor, workflows, and
  the interfaces, the evaluation of predicates and its time budget. Next in the plan: the helper
  functions of the predicates (\<open>data/predicates/helpers.py\<close>), the discovery of sources
  (\<open>data/discovery/source_materializer.py\<close>), the media job (\<open>runtime/jobs/process_media.py\<close>),
  descriptor versions in the registry, situations, and path search
  (\<open>data/graph_paths.py\<close>).
\<close>

end
